(* ===== verification/Prelude.thy ===== *)
theory Prelude
  imports Complex_Main "HOL-Library.Word"
begin

section \<open>Prelude: limbs, little-endian values, shared automation\<close>

text \<open>
  What the components share: the machine types of the C++ sources (\<open>uint64_t\<close> limbs, \<open>int32_t\<close>
  short values, bytes), arrays of limbs as lists, the natural number an array of limbs stands for
  (least significant limb first, as GMP and the \<open>FrRawElement\<close> arrays have it), and the lemmas by
  which that value moves through \<open>take\<close>, \<open>drop\<close>, append and update. The collection \<open>limb_simps\<close>
  holds the rewrite rules of that value, so that component proofs read \<open>simp add: limb_simps\<close>.
\<close>

unbundle bit_operations_syntax

type_synonym u8 = "8 word"
type_synonym u32 = "32 word"
type_synonym u64 = "64 word"
type_synonym s32 = "32 word"
type_synonym s64 = "64 word"

type_synonym limbs = "u64 list"

named_theorems limb_simps \<open>rewrite rules for the value of limb arrays\<close>

abbreviation limb_base :: nat where
  "limb_base \<equiv> 18446744073709551616"

fun lval :: "limbs \<Rightarrow> nat" where
  "lval [] = 0"
| "lval (x # xs) = unat x + limb_base * lval xs"

primrec limbs_of :: "nat \<Rightarrow> nat \<Rightarrow> limbs" where
  "limbs_of 0 v = []"
| "limbs_of (Suc n) v = word_of_nat v # limbs_of n (v div limb_base)"

text \<open>The conversion of an \<open>unsigned int\<close> to an \<open>int\<close>.\<close>

lemma signed_nonneg:
  assumes "unat (w :: u32) = n" and "n < 2147483648"
  shows "sint w = int n"
proof -
  have "uint w = int n" using assms(1) by (simp add: uint_nat)
  then show ?thesis using assms(2) unfolding sint_uint by (simp add: signed_take_bit_int_eq_self)
qed

lemma signed_neg:
  assumes "unat (w :: u32) = n" and "2147483648 \<le> n"
  shows "sint w < 0"
proof -
  have "n < 4294967296" using unsigned_less [of w, where 'a = nat] assms(1) by simp
  then have "n div 2 ^ 31 = 1" using assms(2) by simp
  then have "bit (unat w) 31" by (simp add: bit_iff_odd assms(1))
  then have "bit w 31" by (simp only: bit_unsigned_iff)
  then show ?thesis using bit_last_iff [of w] by simp
qed

lemma limb_base_pow: "(limb_base :: nat) ^ n = 2 ^ (64 * n)"
  by (simp add: power_mult)

lemma unat_lt_base [intro]: "unat (x :: u64) < limb_base"
  using unsigned_less [of x] by simp

lemma unat_le_base: "unat (x :: u64) \<le> limb_base - 1"
  using unat_lt_base [of x] by linarith

lemma unat_of_nat_base: "unat (word_of_nat v :: u64) = v mod limb_base"
  by (simp add: unat_of_nat)

lemma lval_lt [intro]: "lval xs < limb_base ^ length xs"
proof (induction xs)
  case Nil
  then show ?case by simp
next
  case (Cons x xs)
  have "unat x + limb_base * v < limb_base * P" if "v < P" for v P
    using that unat_lt_base [of x] by linarith
  from this [OF Cons.IH] show ?case by simp
qed

lemma lval_append [limb_simps]: "lval (xs @ ys) = lval xs + limb_base ^ length xs * lval ys"
  by (induction xs) (simp_all add: algebra_simps)

lemma lval_split: "lval xs = lval (take n xs) + limb_base ^ min (length xs) n * lval (drop n xs)"
  using lval_append [of "take n xs" "drop n xs"] by (simp add: min.commute)

lemma lval_replicate_0 [simp, limb_simps]: "lval (replicate n 0) = 0"
  by (induction n) simp_all

lemma length_limbs_of [simp]: "length (limbs_of n v) = n"
  by (induction n arbitrary: v) simp_all

lemma lval_limbs_of [limb_simps]: "lval (limbs_of n v) = v mod limb_base ^ n"
proof (induction n arbitrary: v)
  case 0
  then show ?case by simp
next
  case (Suc n)
  have "v mod limb_base + limb_base * (v div limb_base mod limb_base ^ n)
      = v mod (limb_base * limb_base ^ n)"
    by (simp add: mod_mult2_eq)
  with Suc show ?case by (simp add: unat_of_nat_base)
qed

lemma lval_limbs_of_small: "v < limb_base ^ n \<Longrightarrow> lval (limbs_of n v) = v"
  by (simp add: lval_limbs_of)

lemma limb_base_word_zero: "(18446744073709551616 :: u64) = 0"
  by simp

lemma limbs_of_lval [simp]: "length xs = n \<Longrightarrow> limbs_of n (lval xs) = xs"
proof (induction xs arbitrary: n)
  case Nil
  then show ?case by simp
next
  case (Cons x xs)
  then obtain m where "n = Suc m" and "length xs = m" by (cases n) auto
  moreover have "(unat x + limb_base * lval xs) div limb_base = lval xs"
    using unat_lt_base [of x] by simp
  moreover have "(word_of_nat (unat x + limb_base * lval xs) :: u64) = x"
    by (simp add: limb_base_word_zero)
  ultimately show ?case using Cons.IH by simp
qed

lemma lval_inj: "length xs = length ys \<Longrightarrow> lval xs = lval ys \<longleftrightarrow> xs = ys"
  using limbs_of_lval [of xs "length xs"] limbs_of_lval [of ys "length ys"] by metis

lemma lval_eq_0_iff: "lval xs = 0 \<longleftrightarrow> set xs \<subseteq> {0}"
  by (induction xs) (auto simp: unat_eq_0)

lemma lval_hd: "xs \<noteq> [] \<Longrightarrow> unat (xs ! 0) = lval xs mod limb_base"
proof (cases xs)
  case (Cons x ys)
  then show ?thesis using unat_lt_base [of x] by simp
qed simp

lemma lval_tl: "lval (drop 1 xs) = lval xs div limb_base"
proof (cases xs)
  case (Cons x ys)
  then show ?thesis using unat_lt_base [of x] by simp
qed simp

lemma length4E:
  assumes "length xs = 4"
  obtains a b c d where "xs = [a, b, c, d]"
proof -
  from assms obtain a b c d where "xs = [a, b, c, d]"
    by (auto simp: numeral_eq_Suc length_Suc_conv)
  then show ?thesis by (rule that)
qed

lemma length5E:
  assumes "length xs = 5"
  obtains a b c d e where "xs = [a, b, c, d, e]"
proof -
  from assms obtain a b c d e where "xs = [a, b, c, d, e]"
    by (auto simp: numeral_eq_Suc length_Suc_conv)
  then show ?thesis by (rule that)
qed

text \<open>Overflow-free reading of a \<open>(result, carry)\<close> pair.\<close>

lemma carry_zero:
  assumes "lval r + limb_base ^ n * unat c = v" and "v < limb_base ^ n"
  shows "c = 0" and "lval r = v"
proof -
  have "unat c = 0"
  proof (rule ccontr)
    assume "unat c \<noteq> 0"
    then have "limb_base ^ n * 1 \<le> limb_base ^ n * unat c" by (intro mult_le_mono2) simp
    with assms show False by linarith
  qed
  then show "c = 0" by (simp add: unat_eq_0)
  with assms show "lval r = v" by simp
qed

lemma mod_lt_2q: "(v :: nat) < 2 * q \<Longrightarrow> v mod q = (if q \<le> v then v - q else v)"
  by (simp add: mod_if)

end
