(* ===== verification/Primality.thy ===== *)
theory Primality
  imports Prelude
begin

section \<open>Primality by checked certificates\<close>

text \<open>
  That the modulus of the base field is prime is what makes the field code a field. This theory
  holds the number theory a certificate needs, from the definition of a prime on: Fermat's theorem
  by permuting the residues, the order argument of Pocklington, and the sharper bound of Brillhart,
  Lehmer and Selfridge, by which a factor of \<open>n - 1\<close> above the cube root of \<open>n\<close> is enough.
\<close>

definition is_prime :: "nat \<Rightarrow> bool" where
  "is_prime n \<longleftrightarrow> 1 < n \<and> (\<forall>d. d dvd n \<longrightarrow> d = 1 \<or> d = n)"

lemma is_prime_coprime:
  assumes "is_prime p" and "\<not> p dvd a"
  shows "coprime a p"
proof -
  have "gcd a p = 1 \<or> gcd a p = p" using assms(1) by (auto simp: is_prime_def)
  moreover have "gcd a p \<noteq> p" using assms(2) by (metis gcd_dvd1)
  ultimately show ?thesis by (simp add: coprime_iff_gcd_eq_1)
qed

lemma prime_divisor_exists:
  assumes "1 < n"
  shows "\<exists>p. is_prime p \<and> p dvd n \<and> (\<forall>d. 1 < d \<longrightarrow> d dvd n \<longrightarrow> p \<le> d)"
proof -
  define p where "p = (LEAST d. 1 < d \<and> d dvd n)"
  have p: "1 < p \<and> p dvd n" unfolding p_def by (rule LeastI [of _ n]) (use assms in simp)
  have least: "p \<le> d" if "1 < d" "d dvd n" for d unfolding p_def by (rule Least_le) (use that in simp)
  have "is_prime p" unfolding is_prime_def
  proof (intro conjI allI impI)
    show "1 < p" using p by simp
    fix d assume d: "d dvd p"
    have "d \<noteq> 0" using p d by (cases "d = 0") simp_all
    moreover have "d \<le> p" using p d by (simp add: dvd_imp_le)
    moreover have "d dvd n" using d p by (blast intro: dvd_trans)
    ultimately show "d = 1 \<or> d = p" using least [of d] by (cases "d = 1") auto
  qed
  with p least show ?thesis by blast
qed

lemma is_prime_by_trial:
  assumes "1 < n" and "n < k * k" and "list_all (\<lambda>d. \<not> d dvd n) [2..<k]"
  shows "is_prime n"
proof -
  obtain p where p: "is_prime p" "p dvd n" "\<And>d. 1 < d \<Longrightarrow> d dvd n \<Longrightarrow> p \<le> d"
    using prime_divisor_exists [OF assms(1)] by blast
  from p(2) obtain m where m: "n = p * m" ..
  have "m = 1"
  proof (rule ccontr)
    assume "m \<noteq> 1"
    with m assms(1) have "1 < m" by (cases m) auto
    with m have "p \<le> m" by (intro p(3)) simp_all
    then have "p * p \<le> n" unfolding m by simp
    with assms(2) have "p * p < k * k" by linarith
    then have "p < k" by (metis mult_le_mono not_less)
    with p assms(3) show False by (auto simp: list_all_iff is_prime_def)
  qed
  with m p(1) show ?thesis by simp
qed

subsection \<open>Fermat and orders\<close>

lemma fermat:
  assumes p: "is_prime p" and a: "\<not> p dvd a"
  shows "a ^ (p - 1) mod p = 1"
proof -
  let ?S = "{1..<p}" and ?f = "\<lambda>x. a * x mod p"
  have p1: "1 < p" using p by (simp add: is_prime_def)
  have cop: "coprime p x" if "x \<in> ?S" for x
  proof -
    have "\<not> p dvd x" using that by (auto dest: dvd_imp_le)
    from is_prime_coprime [OF p this] show ?thesis by (simp add: coprime_commute)
  qed
  have copa: "coprime p a" using is_prime_coprime [OF p a] by (simp add: coprime_commute)
  have maps: "?f ` ?S \<subseteq> ?S"
  proof
    fix y assume "y \<in> ?f ` ?S"
    then obtain x where x: "x \<in> ?S" "y = a * x mod p" by blast
    have "\<not> p dvd a * x"
      using coprime_dvd_mult_right_iff [OF copa, of x] cop [OF x(1)] p1 by auto
    with x p1 show "y \<in> ?S" by (simp add: Suc_leI mod_greater_zero_iff_not_dvd)
  qed
  have inj: "inj_on ?f ?S"
  proof (rule linorder_inj_onI)
    fix x y assume xy: "x < y" "x \<in> ?S" "y \<in> ?S"
    show "?f x \<noteq> ?f y"
    proof
      assume "?f x = ?f y"
      then have "p dvd a * y - a * x" by (metis mod_eq_dvd_iff_nat mult_le_mono2 xy(1) less_imp_le)
      then have "p dvd a * (y - x)" by (simp add: diff_mult_distrib2)
      then have "p dvd y - x" using coprime_dvd_mult_right_iff [OF copa] by blast
      with xy show False by (auto dest: dvd_imp_le)
    qed
  qed auto
  from maps inj have img: "?f ` ?S = ?S" by (intro endo_inj_surj) auto
  have "a ^ (p - 1) * \<Prod>?S mod p = (\<Prod>x\<in>?S. a * x) mod p" by (simp add: prod.distrib)
  also have "\<dots> = (\<Prod>x\<in>?S. ?f x) mod p" by (rule mod_prod_eq [symmetric])
  also have "(\<Prod>x\<in>?S. ?f x) = \<Prod>?S" using prod.reindex [OF inj, of "\<lambda>x. x"] img by simp
  finally have eq: "a ^ (p - 1) * \<Prod>?S mod p = \<Prod>?S mod p" .
  have copP: "coprime p (\<Prod>?S)" by (rule prod_coprime_right) (rule cop)
  have "1 \<le> a ^ (p - 1)" using a by (cases a) auto
  moreover from this have "p dvd a ^ (p - 1) * \<Prod>?S - 1 * \<Prod>?S"
    using eq by (subst mod_eq_dvd_iff_nat [symmetric]) auto
  then have "p dvd (a ^ (p - 1) - 1) * \<Prod>?S" by (simp add: diff_mult_distrib)
  then have "p dvd a ^ (p - 1) - 1" using coprime_dvd_mult_left_iff [OF copP] by blast
  ultimately have "a ^ (p - 1) mod p = 1 mod p" by (subst mod_eq_dvd_iff_nat) auto
  with p1 show ?thesis by simp
qed

lemma order_divides:
  assumes p: "is_prime p" and f: "is_prime f" and one: "b ^ f mod p = 1" and ne: "b mod p \<noteq> 1"
  shows "f dvd p - 1"
proof (rule ccontr)
  assume *: "\<not> f dvd p - 1"
  have p1: "1 < p" using p by (simp add: is_prime_def)
  have "f \<noteq> 0" using f by (auto simp: is_prime_def)
  have pb: "\<not> p dvd b"
  proof
    assume "p dvd b"
    then have "p dvd b ^ f" using \<open>f \<noteq> 0\<close> by (metis dvd_power dvd_trans gr0I)
    with one show False by simp
  qed
  have "coprime f (p - 1)" using is_prime_coprime [OF f *] by (simp add: coprime_commute)
  then obtain x y where xy: "f * x = (p - 1) * y + 1"
    using bezout_nat [OF \<open>f \<noteq> 0\<close>, of "p - 1"] by (auto simp: coprime_iff_gcd_eq_1)
  have pow1: "(c ^ m) mod p = 1" if "c mod p = 1" for c m
    using that p1 by (metis mod_less power_mod power_one)
  have "b ^ (f * x) mod p = 1" unfolding power_mult using one by (rule pow1)
  moreover have "b ^ ((p - 1) * y + 1) mod p = b mod p"
  proof -
    have "(b ^ (p - 1)) ^ y mod p = 1" using fermat [OF p pb] by (rule pow1)
    then have "(b ^ (p - 1)) ^ y * b mod p = b mod p" by (metis mod_mult_left_eq mult_1)
    then show ?thesis unfolding power_add power_mult power_one_right .
  qed
  ultimately show False using xy ne by simp
qed

lemma prime_dvd_pred:
  assumes p: "is_prime p" "p dvd n" and f: "is_prime f" and one: "b ^ f mod n = 1"
    and u: "(b * u) mod n = (u + 1) mod n"
  shows "f dvd p - 1"
proof (rule order_divides [OF p(1) f])
  have p1: "1 < p" using p by (simp add: is_prime_def)
  show "b ^ f mod p = 1" using one p p1 by (metis mod_less mod_mod_cancel)
  show "b mod p \<noteq> 1"
  proof
    assume "b mod p = 1"
    then have "(b * u) mod p = u mod p" by (metis mod_mult_left_eq mult_1)
    moreover have "(b * u) mod p = (u + 1) mod p" using u p(2) by (metis mod_mod_cancel)
    ultimately have "p dvd (u + 1) - u" by (subst mod_eq_dvd_iff_nat [symmetric]) auto
    with p1 show False by simp
  qed
qed

subsection \<open>Certificates for a modular power\<close>

text \<open>
  A chain of steps from \<open>b\<close> to \<open>b ^ f\<close>: squarings (\<open>False\<close>) and multiplications by \<open>b\<close> (\<open>True\<close>),
  each with quotient and remainder of its product.
\<close>

fun pow_chain :: "nat \<Rightarrow> nat \<Rightarrow> nat \<Rightarrow> nat \<Rightarrow> (bool \<times> nat \<times> nat) list \<Rightarrow> nat \<Rightarrow> bool" where
  "pow_chain n b c e [] f \<longleftrightarrow> c = 1 \<and> e = f"
| "pow_chain n b c e ((False, k, d) # s) f \<longleftrightarrow> c * c = k * n + d \<and> pow_chain n b d (2 * e) s f"
| "pow_chain n b c e ((True, k, d) # s) f \<longleftrightarrow> c * b = k * n + d \<and> pow_chain n b d (e + 1) s f"

lemma pow_chain_sound: "pow_chain n b c e s f \<Longrightarrow> b ^ e mod n = c mod n \<Longrightarrow> b ^ f mod n = 1 mod n"
proof (induction n b c e s f rule: pow_chain.induct)
  case (2 n b c e k d s f)
  have "b ^ (2 * e) mod n = (b ^ e mod n) * (b ^ e mod n) mod n"
    by (simp add: mult_2 power_add mod_mult_eq)
  also have "\<dots> = c * c mod n" unfolding 2(3) by (simp add: mod_mult_eq)
  finally have "b ^ (2 * e) mod n = d mod n" using 2(2) by simp
  with 2 show ?case by simp
next
  case (3 n b c e k d s f)
  have "b ^ (e + 1) mod n = (b ^ e mod n) * b mod n" by (simp add: mod_mult_right_eq mult.commute)
  also have "\<dots> = c * b mod n" unfolding 3(3) by (simp add: mod_mult_left_eq)
  finally have "b ^ (e + 1) mod n = d mod n" using 3(2) by simp
  with 3 show ?case by simp
qed simp

lemma certified_factor:
  assumes "pow_chain n b b 1 s f" and "b * u = k * n + (u + 1)" and "is_prime f" and "1 < n"
    and "is_prime p" and "p dvd n"
  shows "f dvd p - 1"
  using prime_dvd_pred [OF assms(5,6,3), of b u] pow_chain_sound [OF assms(1)] assms(2,4) by simp

subsection \<open>Enough factors\<close>

lemma pocklington:
  assumes "1 < n" and "n < F * F" and "\<And>p. is_prime p \<Longrightarrow> p dvd n \<Longrightarrow> F dvd p - 1"
  shows "is_prime n"
proof -
  obtain p where p: "is_prime p" "p dvd n" "\<And>d. 1 < d \<Longrightarrow> d dvd n \<Longrightarrow> p \<le> d"
    using prime_divisor_exists [OF assms(1)] by blast
  from p(2) obtain m where m: "n = p * m" ..
  have "p - 1 > 0" using p(1) by (simp add: is_prime_def)
  then have Fp: "F < p" using assms(3) [OF p(1,2)] by (auto dest: dvd_imp_le)
  have "m = 1"
  proof (rule ccontr)
    assume "m \<noteq> 1"
    with m assms(1) have "1 < m" by (cases m) auto
    with m have "p \<le> m" by (intro p(3)) simp_all
    with Fp have "F * F \<le> p * m" by (intro mult_le_mono) auto
    with assms(2) m show False by simp
  qed
  with m p(1) show ?thesis by simp
qed

lemma no_square_between:
  fixes D k t :: nat
  assumes "k * k < D" and "D < (k + 1) * (k + 1)"
  shows "D \<noteq> t * t"
proof
  assume D: "D = t * t"
  have "k < t" using assms(1) unfolding D by (metis mult_le_mono not_less)
  moreover have "t < k + 1" using assms(2) unfolding D by (metis mult_le_mono not_less)
  ultimately show False by simp
qed

lemma square_of_difference: "\<exists>t. (x + y) * (x + y) = t * t + 4 * (x * y)" for x y :: nat
proof (cases "x \<le> y")
  case True
  then obtain t where "y = x + t" using le_Suc_ex by blast
  then show ?thesis by (intro exI [of _ t]) (simp add: algebra_simps)
next
  case False
  then obtain t where "x = y + t" using le_Suc_ex [of y x] by auto
  then show ?thesis by (intro exI [of _ t]) (simp add: algebra_simps)
qed

theorem brillhart_lehmer_selfridge:
  assumes n: "n = (s * F + r) * F + 1" and r: "r < F" and F: "2 < F" and big: "n < F * F * F"
    and fac: "\<And>p. is_prime p \<Longrightarrow> p dvd n \<Longrightarrow> F dvd p - 1"
    and k: "k * k + 4 * s < r * r" and k': "r * r < (k + 1) * (k + 1) + 4 * s" and n1: "1 < n"
  shows "is_prime n"
proof -
  obtain p where p: "is_prime p" "p dvd n" using prime_divisor_exists [OF n1] by blast
  from p(2) obtain m where m: "n = p * m" ..
  from p(1) have p1: "1 < p" by (simp add: is_prime_def)
  obtain x where x: "p = x * F + 1" using fac [OF p] p1
    by (metis Suc_eq_plus1 Suc_pred' dvd_def less_trans mult.commute zero_less_one)
  have "m = 1"
  proof (rule ccontr)
    assume m1: "m \<noteq> 1"
    have m0: "m \<noteq> 0" using m n by (cases m) simp_all
    have "m + x * m * F = (s * F + r) * F + 1" using m n x by (simp add: algebra_simps)
    then have "(m + x * m * F) mod F = 1 mod F" by (simp only: mod_mult_self3)
    then have "m mod F = 1" using F by simp
    then obtain y where y: "m = y * F + 1" by (metis mod_div_decomp)
    have x0: "1 \<le> x" using x p1 by (cases x) auto
    have y0: "1 \<le> y" using y m1 by (cases y) auto
    have prod: "n = (x * y * F + (x + y)) * F + 1" using m x y by (simp add: algebra_simps)
    with n F have R: "s * F + r = x * y * F + (x + y)" by simp
    have "(x * y) * (F * F) + ((x + y) * F + 1) = n" unfolding prod by (simp add: algebra_simps)
    moreover have "n < F * (F * F)" using big by (simp only: mult.assoc)
    ultimately have "(x * y) * (F * F) < F * (F * F)" by linarith
    then have xy: "x * y < F" by (simp only: mult_less_cancel2)
    have "(x - 1) * (y - 1) + (x + y) = x * y + 1"
      using x0 y0 by (cases x; cases y) (simp_all add: algebra_simps)
    then have le: "x + y \<le> x * y + 1" by linarith
    have "x + y \<noteq> F"
    proof
      assume xF: "x + y = F"
      with le xy have "x * y = F - 1" by linarith
      with prod xF F have "n = ((F - 1) * F + F) * F + 1" by simp
      also have "(F - 1) * F + F = F * F" using F by (cases F) simp_all
      finally show False using big by simp
    qed
    with le xy have xyF: "x + y < F" by linarith
    from R r xyF have s: "s = x * y" "r = x + y"
      by (metis (no_types) add.commute div_less div_mult_self1 add_cancel_right_left less_nat_zero_code
          mod_less mod_mult_self1 not_less_iff_gr_or_eq F less_trans)
        (metis R r xyF add.commute mod_less mod_mult_self1)
    obtain t where "r * r = t * t + 4 * s" using square_of_difference [of x y] unfolding s by blast
    with k k' no_square_between [of k "t * t" t] show False by simp
  qed
  with m p(1) show ?thesis by simp
qed

end
