(* ===== verification/Fq_Prime.thy ===== *)
theory Fq_Prime
  imports Primality
begin

section \<open>The base field modulus is prime\<close>

text \<open>
  The certificate: ten primes dividing \<open>q - 1\<close> with product above the cube root of \<open>q\<close>, for each
  prime \<open>f\<close> a residue \<open>b\<close> of order \<open>f\<close> given by the chain of products that computes \<open>b ^ f\<close>, and the
  inverse of \<open>b - 1\<close>. Every product is recomputed by the simplifier on binary numerals.
\<close>

lemmas numeral_steps = numeral_times_numeral numeral_plus_numeral mult_num_simps add_num_simps
  mult_1_right mult_1_left add_0_right one_plus_numeral numeral_plus_one pow_chain.simps simp_thms refl

lemma prime_3: "is_prime 3"
  by (rule is_prime_by_trial [of _ 2]) (simp_all add: upt_rec)

lemma prime_13: "is_prime 13"
  by (rule is_prime_by_trial [of _ 4]) (simp_all add: upt_rec)

lemma prime_29: "is_prime 29"
  by (rule is_prime_by_trial [of _ 6]) (simp_all add: upt_rec)

lemma prime_67: "is_prime 67"
  by (rule is_prime_by_trial [of _ 9]) (simp_all add: upt_rec)

lemma prime_229: "is_prime 229"
  by (rule is_prime_by_trial [of _ 16]) (simp_all add: upt_rec)

lemma prime_311: "is_prime 311"
  by (rule is_prime_by_trial [of _ 18]) (simp_all add: upt_rec)

lemma prime_983: "is_prime 983"
  by (rule is_prime_by_trial [of _ 32]) (simp_all add: upt_rec)

lemma prime_11003: "is_prime 11003"
  by (rule is_prime_by_trial [of _ 105]) (simp_all add: upt_rec)

lemma prime_3691: "is_prime 3691"
  by (rule is_prime_by_trial [of _ 61]) (simp_all add: upt_rec)

lemma prime_4999: "is_prime 4999"
  by (rule is_prime_by_trial [of _ 71]) (simp_all add: upt_rec)

lemma factor_3691_chain: "pow_chain
    405928799
    122990330
    122990330 1
    [(False, 37264222, 391379522),
    (True, 118582117, 229334777),
    (False, 129565677, 285407806),
    (True, 86474279, 25655059),
    (False, 1621422, 167161303),
    (False, 68836951, 374405960),
    (False, 345331061, 34395861),
    (True, 10421429, 137190359),
    (False, 46365753, 172528234),
    (True, 52273463, 378816283),
    (False, 353514647, 180317136),
    (False, 80098454, 301265750),
    (True, 91278997, 384062897),
    (False, 363374831, 117374640),
    (False, 33938971, 377803771),
    (True, 114468868, 360404898),
    (False, 319986388, 325202392),
    (True, 98531441, 1)] 3691"
  by (simp only: numeral_steps)

lemma factor_3691:
  assumes "is_prime p" and "p dvd 405928799" and "is_prime 3691"
  shows "3691 dvd p - 1"
  by (rule certified_factor [OF factor_3691_chain _ assms(3) _ assms(1,2),
      of 170220075
      51574126])
    (simp only: numeral_steps, simp)

lemma factor_4999_chain: "pow_chain
    405928799
    357727241
    357727241 1
    [(False, 315249322, 288447803),
    (False, 204967312, 261108521),
    (False, 167954724, 339110965),
    (True, 298843615, 176529180),
    (False, 76768515, 296508915),
    (True, 261300297, 355300212),
    (False, 310986165, 183179109),
    (True, 161427712, 13930381),
    (False, 478053, 34656814),
    (False, 2958880, 151845476),
    (False, 56800721, 123802497),
    (False, 37757996, 294508205),
    (False, 213670680, 298408705),
    (True, 262974499, 183336204),
    (False, 82803101, 354723917),
    (True, 312602625, 14625622),
    (False, 526961, 173037045),
    (True, 152489956, 1)] 4999"
  by (simp only: numeral_steps)

lemma factor_4999:
  assumes "is_prime p" and "p dvd 405928799" and "is_prime 4999"
  shows "4999 dvd p - 1"
  by (rule certified_factor [OF factor_4999_chain _ assms(3) _ assms(1,2),
      of 173101550
      152546801])
    (simp only: numeral_steps, simp)

lemma prime_405928799: "is_prime 405928799"
proof (rule pocklington [of _ "18451309"])
  fix p assume p: "is_prime p" "p dvd 405928799"
  have "3691 * 4999 dvd p - 1"
    by (rule divides_mult [OF factor_3691 [OF p prime_3691] factor_4999 [OF p prime_4999]])
      (simp add: coprime_iff_gcd_eq_1 gcd_non_0_nat)
  then show "18451309 dvd p - 1" by simp
qed simp_all

lemma q_factor_3_chain: "pow_chain
    21888242871839275222246405745257275088696311157297823662689037894645226208583
    21888242871839275220042445260109153167277707414472061641714758635765020556616
    21888242871839275220042445260109153167277707414472061641714758635765020556616 1
    [(False, 21888242871839275217838484774961031246081023806968983599271420891293677114030, 2203960485148121921418603742825762020974279258880205651966),
    (True, 2203960485148121921196683607503078042443337744471343442585, 1)] 3"
  by (simp only: numeral_steps)

lemma q_factor_3:
  assumes "is_prime p" and "p dvd 21888242871839275222246405745257275088696311157297823662689037894645226208583" and "is_prime 3"
  shows "3 dvd p - 1"
  by (rule certified_factor [OF q_factor_3_chain _ assms(3) _ assms(1,2),
      of 734653495049373973806201247608587340324759752960068550655
      734653495049373973732227869167692680814445914823781147528])
    (simp only: numeral_steps, simp)

lemma q_factor_13_chain: "pow_chain
    21888242871839275222246405745257275088696311157297823662689037894645226208583
    12059089307187293486056527442099387333854661302743534305938557789446808072715
    12059089307187293486056527442099387333854661302743534305938557789446808072715 1
    [(False, 6643824073508148943507104131926862087794115234697235422562912568339286080180, 1113477369455293397709939370984446429245636288852944449101924909763585286285),
    (True, 613458244154846840690468190344757043837683795329952916611314767381052459558, 509556905740311102762123925485386792999662230034976192259882153697092227461),
    (False, 11862452445723523681404336174621217398822439315194109863486328246196858702, 12720035155008496335489723122814654476886679279017033296207308135202531867255),
    (False, 7392064099983918949309354813874434709858852171457671140014067642402277804377, 17694049717056469215493678880204410044672887833500903462627180264531468867234),
    (True, 9748344213519142832676574554277744852710911299563034601649843563549704356323, 1)] 13"
  by (simp only: numeral_steps)

lemma q_factor_13:
  assumes "is_prime p" and "p dvd 21888242871839275222246405745257275088696311157297823662689037894645226208583" and "is_prime 13"
  shows "13 dvd p - 1"
  by (rule certified_factor [OF q_factor_13_chain _ assms(3) _ assms(1,2),
      of 8405639667859142795258286768632646988358608630243219384684555197138691455913
      4630995737403925576337407650550193492628268870548052393499871607761280056607])
    (simp only: numeral_steps, simp)

lemma q_factor_29_chain: "pow_chain
    21888242871839275222246405745257275088696311157297823662689037894645226208583
    3755157937255644743218440963805566127340241696909803772749986884601366200071
    3755157937255644743218440963805566127340241696909803772749986884601366200071 1
    [(False, 644236781193443509760113758011559127116928874910122298882404968945889839516, 19405051161950246871265531940857380424751987142271058204122069579742988639213),
    (True, 3329140320687886078630530914753713573338749401135908879216549621703772046054, 16838901623387444963737598275790097638526633427768621548936140759322107902641),
    (False, 12954379643097119010057694283958120094300302666683185006651994656121763711887, 8334827478136769364378552438911228907203643713978478274177473391942156248760),
    (True, 1429927187095019136899885714842526159866878139940655040965145438563159163680, 6095572261502776854137226773030120472203504057236140084454561506929487796520),
    (False, 1697532388175654784838559332596071887779881008764543220034772661415863286216, 13159519846136058078850754608913068889225190636582767747563372198588279318472),
    (False, 7911688644667209360302759741258822866124448367745537072622179865211217190788, 7516117006337120842822750269819251564496134936183846449022470487187406281380),
    (True, 1289468807475695119847193275793105500133672032481004249966548600362716800813, 1)] 29"
  by (simp only: numeral_steps)

lemma q_factor_29:
  assumes "is_prime p" and "p dvd 21888242871839275222246405745257275088696311157297823662689037894645226208583" and "is_prime 29"
  shows "29 dvd p - 1"
  by (rule certified_factor [OF q_factor_29_chain _ assms(3) _ assms(1,2),
      of 9719242351730304855574258842730779689822951291502309235775730135926690585917
      1667438097928250720245050873392421419948968978311702956139665603898670144683])
    (simp only: numeral_steps, simp)

lemma q_factor_67_chain: "pow_chain
    21888242871839275222246405745257275088696311157297823662689037894645226208583
    3255929340235884284234108382362617526892543382427879167288033701360274228204
    3255929340235884284234108382362617526892543382427879167288033701360274228204 1
    [(False, 484327404930611925747392395313460597471506035802671174839442236358544280617, 15724043323242490611879341596934601500401121814122734506690146538361743129905),
    (False, 11295814829855761545222871123010950271473824481792495423155823301938138941235, 18862041440530516806059554972228369346291969181061014643914546063336815689020),
    (False, 16254233352007507439556587723276051809462261808299878021384621010385013688919, 1898780775718053527333398747528852781907225389377360266187516720256378768623),
    (False, 164717124866839206691950660647689271185779666298441414073887551334501893821, 8776822970531813234757161182646634008378483728273371110901934199688704450486),
    (False, 3519360686332781413481097078280485023260247754770386157842771875270442854844, 2016499473789561026073245327744688208547310056832082998774682016866489710144),
    (True, 299959199088051134320137509199398491475091515216745970110501328819671250800, 12028940051223671400005101918898446659248998615376837490008566914667964084976),
    (False, 6610644792419289669315069111713041768340953947695846087417647757250844727669, 15215254920575939497090546208059565413967445538410050261125206951920923537549),
    (True, 2263306159619050667235058718791618230457405283397509903395732845667758702765, 1)] 67"
  by (simp only: numeral_steps)

lemma q_factor_67:
  assumes "is_prime p" and "p dvd 21888242871839275222246405745257275088696311157297823662689037894645226208583" and "is_prime 67"
  shows "67 dvd p - 1"
  by (rule certified_factor [OF q_factor_67_chain _ assms(3) _ assms(1,2),
      of 6982247356507770668603746701796476360195179685618650350155593059782976403618
      1038626268995149052647398672080259320558911929570037588830384083571662777891])
    (simp only: numeral_steps, simp)

lemma q_factor_229_chain: "pow_chain
    21888242871839275222246405745257275088696311157297823662689037894645226208583
    10010386205651136832843876706683354748869287838944836889564915496366375731528
    10010386205651136832843876706683354748869287838944836889564915496366375731528 1
    [(False, 4578157898422024955238453088929555575921374520031124001963486538281556421505, 11866643442243093822387519879293695174732423751959211390087443954808936437369),
    (True, 5427100042573168809445928497815759810668727160921090288111167106371511617243, 12523036470349185577813983392138017649606660498093841945722721458481953273163),
    (False, 7164871267006259153394398548869106618608303363493193541981556012553379284961, 17136257304558448778854987737286810684120317452521553669332439746771715004306),
    (True, 7837109389842302424404952095637171947731989129336636748435866945503113568089, 12461350681173393865229848497761936972734765030731606012139073372013933251681),
    (False, 7094459875487115472506253430889202094771035878717258222659324731275624873833, 1706677821107939335290912590359885491258340256421435874714025956971772617122),
    (False, 133073687189810693312150248522483437320356173596350063961591517919404522035, 9651902609581587706593883637724416146469606026170164301875778044432877936479),
    (False, 4256130769852868816371051485843860260362928729048030745418279122450350551570, 21831290965381631953729307066703727299716005628912343947457765413543240792131),
    (True, 9984339775970725509665299326875706306950051972657816919403311326255056113215, 4304500167412919773597651853905187680539945373700591137618676479214458281823),
    (False, 846514807047226475156579399734782396860578411193450997287234387211695033054, 20977815319095982109881298824871120348081667056759372549227161626188008700847),
    (False, 20105256421851781185824465630189058555161051998896889856674134481155081527469, 4052677814443734359885874402439785849463188276456994452147439339093500450982),
    (True, 1853454858263227156212737251364493951763962381428123585041642909997199442265, 1)] 229"
  by (simp only: numeral_steps)

lemma q_factor_229:
  assumes "is_prime p" and "p dvd 21888242871839275222246405745257275088696311157297823662689037894645226208583" and "is_prime 229"
  shows "229 dvd p - 1"
  by (rule certified_factor [OF q_factor_229_chain _ assms(3) _ assms(1,2),
      of 4753481316208233919909226265527386690128141752501474627445348705134437256685
      2173960882799396776001915423184125180655982316268661091676763887682900614518])
    (simp only: numeral_steps, simp)

lemma q_factor_311_chain: "pow_chain
    21888242871839275222246405745257275088696311157297823662689037894645226208583
    4191053110871366265478044235386285141806201922848659602005120708268283006244
    4191053110871366265478044235386285141806201922848659602005120708268283006244 1
    [(False, 802482240396877092650160515616031238732504136340297786903423998974094426352, 18146743147478366241465695456424389270993395976969907766983961904384859208320),
    (False, 15044802307280022890663431529107795016906303157161760365318225004950998069837, 16044114468068879833583377320331747548228799756396748620686001208018594411429),
    (False, 11760359685869412902680232470294801756216552947664661239875723032997283426005, 5371061052084724496726219259031177131853374147762320792799143630519949421126),
    (True, 1028424358356371004386050846189266817169221796008137576767692544821397894481, 15276733620016582939625497276890773299856205422808796245223879362476112980321),
    (False, 10662280725932666058303264393658692703587320678294380303512097515065442164604, 12598056881205384915013126874030683450087947591959094220059165464241409666909),
    (True, 2412213981362567244165097359518773079295046021849647919949652139287503053251, 7934563486198759652501879325178275580683874922530681348276012526530124926463),
    (False, 2876306612876517980351483633638343570105801561461592618066890501669087384070, 10428633683418825519184679053197532945476532502514475188544154036197506217559),
    (False, 4968713164402075611324745802742308625798527175699262384179299597658376934998, 14812657467322934766121385304137359086773163582973420167887833372207259230647),
    (True, 2836254811415983979639213209094225888163806614188603551002063503681118988122, 13002718016293382977365134141843804876264487379645118589400278696948265708742),
    (False, 7724268996885151609746178525017490485019350872933513222792834631632910432671, 13112213749804336507899925545163205072929789933643435040678103648032151407371),
    (True, 2510662210223819960087199141398528068822006831202431490576443768619458719654, 11657477620867116746360890309457135712281729110767340794066762528437455034242),
    (False, 6208665779008610178102924465575920004472313130430320798376013028231712770632, 18764202175500306836895718558171941242730142876774252741072973728521723780108),
    (True, 3592877160634389909386861021683541432624788137846314440145250865952084164697, 1)] 311"
  by (simp only: numeral_steps)

lemma q_factor_311:
  assumes "is_prime p" and "p dvd 21888242871839275222246405745257275088696311157297823662689037894645226208583" and "is_prime 311"
  shows "311 dvd p - 1"
  by (rule certified_factor [OF q_factor_311_chain _ assms(3) _ assms(1,2),
      of 621575051156982444875727048461355681768345422118876236863912244597703129658
      119016134234469798630655956510325737467379211984628464179014932279016438571])
    (simp only: numeral_steps, simp)

lemma q_factor_983_chain: "pow_chain
    21888242871839275222246405745257275088696311157297823662689037894645226208583
    2911628372717355072388480759798849040380944809143351468081064950862614135074
    2911628372717355072388480759798849040380944809143351468081064950862614135074 1
    [(False, 387312030045120735975435612991531805391637203577577338247365829528733065202, 11266781540967849264636912029232343756133567042379959633473352721710525956710),
    (True, 1498735234069228260802424151380606663173715753564528278690025178581738054645, 3534553910036028383452674987967406135143686976844022000297424657979594628505),
    (False, 570766297509617331768294740318926239407617332975073722184889063924371401012, 2344122500697807729195591578877559996098770792559045702369700911320309249029),
    (True, 311820990936554347831777056330431764144883919018528840901157732338863744834, 17100812903230101444245373353375031433941264101722959738079849113874336632924),
    (False, 13360496941831836495907046867938161034186672190799285048257737939690421767057, 19046687046772884375337544550814126018886858618556837096081933020514200739545),
    (True, 2533637566814517073837283289821059574260142272414061833627610453937287231633, 13932382622658220609743818083659299248144590631045817526532111606204629595291),
    (False, 8868290007595183979199060894948326042483646316325002906383849517317264570516, 20493186593435202826963581126998554826721206761256771320529012294205921435853),
    (False, 19187044808136400079289877601097544534949009442855410641728765846638058414658, 12142900752532431740274676159114949977428580541375306536160873093500181227995),
    (True, 1615278785290333737359125865262006232917700494269967252612608513829006743874, 16893053917241372312008107641633043335100165083832088830396129824598938726088),
    (False, 13037833704686223146148215496636649075654052245468141281938018359030874955203, 9835329163072372790649849182745949457059794214628537044616726567114632676395),
    (False, 4419436512669385458620584298118348380035138453220599445874310573105045898053, 12955363324121339577213654551476357706207689251794146633984787458547258607126),
    (True, 1723354572326334777864743907235288651136168702634994838823122262646082837838, 19194197058163160922833878228069003859977231865570380249373557833038510173770),
    (False, 16831739434945384443465883320264419829540830893331849377638246079642942100497, 10997605079999766623191632731272369815204678935287822779064091086726126047149),
    (True, 1462928713390007697190518818337306478866033875544856079469834159565762718992, 4798495382418685923918122208234409997276823022265037827682466352319771095690),
    (False, 1051960089711788123138425565242613509874170622132406668441740196585236552533, 3560549428076942037415780552486209667623769148186056502888049713729841585361),
    (True, 473633118837018568222235516091244721069130307114562583062062774837377053111, 1)] 983"
  by (simp only: numeral_steps)

lemma q_factor_983:
  assumes "is_prime p" and "p dvd 21888242871839275222246405745257275088696311157297823662689037894645226208583" and "is_prime 983"
  shows "983 dvd p - 1"
  by (rule certified_factor [OF q_factor_983_chain _ assms(3) _ assms(1,2),
      of 21000224986807566679177923006079246820683368970136772330830938412688563747160
      2793502030430405019308720680670848423966275315044667519519647482277315481713])
    (simp only: numeral_steps, simp)

lemma q_factor_11003_chain: "pow_chain
    21888242871839275222246405745257275088696311157297823662689037894645226208583
    9709154706518998258276254379920273684639259392898388893798101702309451241048
    9709154706518998258276254379920273684639259392898388893798101702309451241048 1
    [(False, 4306772620674903678584327940769876251712371567919504393915738775239683278693, 9350129839725363743647018347965518518323428476953679693621566439320462516285),
    (False, 3994150125782861204538838202949684861513002568330666407415714593491894045534, 21243384689065963238470060594187409578799229800636285266904795434257506582903),
    (True, 9423109458530360853545373518111404700454589839194883415622534503246151554349, 6806600532795801073259936664402146179942131187322310425560732990945513824877),
    (False, 2116652811480932547401542028086090579290305906179637773379483578815122800921, 10942115160133096840465553096779643290561102876383795325852732777721893560186),
    (False, 5470054626068465749510760867653497046152469613924770117074185376579199677911, 17964531122460482549283506002769408121869004562245327144006291449008700644483),
    (True, 7968680397020266634014800525372532242321818609929332227298333799597040586917, 4644211296566212406104690237028819645286261523555612662139169969556801429573),
    (False, 985401098363305756615083578859957724770362112278901976224936446075535510148, 1233844528151365322771353956922116236087338216392318255642263292359717762045),
    (False, 69552057173474700167572282269388774321233060527194353168529660767431122893, 18276717304561910413812747292375904869567412801955610439188919715818518191406),
    (True, 8107159486319844304830100995151877519048778382344758551180894237426478416302, 15455585285000173086459758207172191258423725504034333896181268730929348513422),
    (False, 10913398480663018068663082413132426884916121440253289483733208551143009647357, 1301972918869184503068608950994258326649560952223026884287735573732357484953),
    (True, 577527239944080036195491682226751374809289469298810402915656254152664254452, 19201355889543935212873867251873385498293013654736823860643412863283497589228),
    (False, 16844297194420808665914772126876737709020172474147290784989461165532539062019, 10345708737438037246777038955083576064778924469173847524958275536221354526907),
    (True, 4589134325149717304717753418607872071708052667810130396284366002020059505055, 6042541980639345432023360241125799222107779280311714993429062776274885991471),
    (False, 1668124472191619263430104427370286634212042803862602867394303570356173779136, 21387553427914259825568689257941492802220118490862186751136697296394575219553),
    (True, 9487059616499538450306071723832073908422108963229552285269112780806531039483, 21243674296463392672888890871740628024851225674492377153457452539340959328955),
    (False, 20618087082487543914176498817461105164264679545206240076085161555951584640900, 18142710481739904392105670624786743465880234445064409898502956332721348547325),
    (True, 8047716936174264434259638306062091630508150184821029983344706535575380969700, 14154508289115299369441232865241732307672907642036724916032283008552207661500),
    (False, 9153320624215014636145730107793778866864497735106743409599471932431768046708, 7220482560047597381940054154312307720017299839320941154616880346608087755236),
    (False, 2381889158723984682312854112968890823677765321836358348029083953914523847000, 1186988971988022106864083824837337237376075323865939005935560322407866614696),
    (True, 526522829239569372056174751543582883008875521450513336817418110667487118353, 18503446892405743863713261255563022619207872688133756741095450782825249817609),
    (False, 15642075469683862197395894576136594538771603759280997786135812557001529997749, 12448069086167960042291639090191013892560683108226370356454629955959971997214),
    (True, 5521696248653027479438829959560753992190989580734116883641948988646506506937, 1)] 11003"
  by (simp only: numeral_steps)

lemma q_factor_11003:
  assumes "is_prime p" and "p dvd 21888242871839275222246405745257275088696311157297823662689037894645226208583" and "is_prime 11003"
  shows "11003 dvd p - 1"
  by (rule certified_factor [OF q_factor_11003_chain _ assms(3) _ assms(1,2),
      of 9014167649487761263857065481567816165484519759871730040881026155041091660617
      3998491280082413812162380485686213269644789968709811896969214090249264141506])
    (simp only: numeral_steps, simp)

lemma q_factor_405928799_chain: "pow_chain
    21888242871839275222246405745257275088696311157297823662689037894645226208583
    5544354402917535146794216055400092040815086713032718172710860577328102998919
    5544354402917535146794216055400092040815086713032718172710860577328102998919 1
    [(False, 1404400797503028532327680372672046389876468520646724447246854439284066079050, 16658823341540941107436190222607338036243905611418693000043160616171048682411),
    (True, 4219727507680779035637018210476386157085975091766261733385640709243303933959, 18833222664367656209371889023460064011548070860075103212345648376498516343612),
    (False, 16204602534906304037969434681153292204493917696207473304464145167641407101282, 13700881458247343211544382115987842192242521873464842965030072484880514503138),
    (False, 8576026583406243637203243857951255086094934007770620982847061565774654733494, 20135003847800993571330958520992177260069099482785899531079729136151091468042),
    (False, 18522198530269387305630282919692493705711767847927948060727667292588232941472, 1692849821750049101710150829840933791214288937857104110894957345482404259588),
    (False, 130926019771378936302538048434280131429012668438430615546539742946038979945, 16360574351423085677650652621328556784788652820065661648637231771005366061809),
    (False, 12228866185180019889038443716934348095836773323639939779468905706639941601349, 1996778223863786723027106315193741341697288164099221853993375340389100174014),
    (False, 182158216109084121837606421590411889869788315887511117854251241994123689838, 21547041624024247890955170635492772691508589643364389708159793006010095392642),
    (True, 5457927152832602207479334824113475720146901478357171088394830617616021684640, 8016251748156717743788818550590795653590638356999714529180093692925319288878),
    (False, 2935836031520872045671406073654322119506096001186843993240650155636569768286, 1106814301662591232265112540283189955935804697853990514776693382953000100146),
    (True, 280359222189105162710802316417121963426472221990464369156557399616892830168, 5766879226160510645414076037449709685529627607502856490186225407674766810230),
    (False, 1519395421727018864042292317556269329618420539718364407103279970977164318897, 19068572046169384491782479689893071080965210838790068009765981335467982159949),
    (False, 16612134743248953133724564352960716328744136859236012096941516900636370083876, 4983516434296384062398944963705088797156786560777791175899799541574238574893),
    (False, 1134647317115374156628719054180133797230367448700829822692670904215098684919, 3337901400982914459256751857000958687121821035617574320957190561667879501672),
    (False, 509021479152998474839908670174066968140894227532954316726561415344696086098, 15680750881891465399796211084894206891137939574154269633142093434227176216450),
    (True, 3971978961587719528557950922435068476713867340381642848268288994271792424811, 7568859209774978664999623463292923861789076373366323488500468077935229664737),
    (False, 2617278603532857217749283205310088464559989786467016897691735884787478971827, 9422556364282321881970958992701999760112468854703330891023351261307138688028),
    (True, 2386760425262835372693438066194563358299437796576975806575942244152531653035, 9271918694668324610983156071596178635893836737953839898122874922363267242327),
    (False, 3927609757617606937448852740364339642145295310486634151825308161587350697808, 8030461025570290374115327798723429473433963683791548756466590265628131488865),
    (True, 2034138702008881872336836429320690215325808533097551180971725927564344565800, 18218810691209684783056527340236981921619267876922129896128362685509587275535),
    (False, 15164536730775253662463773719483117903466276830470960460801228173650865999022, 18363775667739689927301450415669513146455861590100493157739264965632363530399),
    (True, 4651596798965292279093159041268364469785662823879774421017792748193490297741, 219651564041487983005029533720753269103146895497559516870759041896880927678),
    (False, 2204234020445045605088555786346929824690933623843080269275260734540508947, 6809640077902963768007398103343057749982173359714802007091290192049866779583),
    (True, 1724901270936621146694985277648132471172836359048406927024404922018684989475, 5810435637856028138345223329981868311751863300488769206809885674247550606852),
    (False, 1542433648024960378265075623693201298113317905243404840670397633279340100968, 14627906631061187247634952689006453746292251384519868663580259765018421141560),
    (True, 3705290507340558072143578351258822618724547514026729796675650999333962319808, 6451297424855749960597070387649075574825081591044372884492135756048265461576),
    (False, 1901442646979051656621036119061586867274207001534828681595941705189226099218, 5351942823311663837199932649308071686955762086607170003378918222763611215682),
    (False, 1308615412927859178950658913585362170518935870324433063455486499699538585749, 2559122970539018389806027321326073280702013987459567240961580560000817441457),
    (True, 648233153862255596151491318894019869827761040688354137331677220324546539394, 15386184315725390622514331786118068059945302159891864456881051704558546366281),
    (False, 10815608597894780484709567165459386398190807115201280181505856997011768054427, 19229235172844300445131701900018551833495326281342097230797909804377415224020),
    (True, 4870820162200495919217617738277511060286907923751822595403380790815011521634, 233375567589377176410412169624482833117529059656520090335114833280701849758),
    (False, 2488283589805000936468168321573808291759790340399298666205942044205948950, 16453657029176529982780568302874442835329939783721786806251700961740654820714),
    (False, 12368413089114325908963589203027125105354424789633602370261086466924918359259, 5255201316765362101551850577846187943125505158335619082509911337393820149799),
    (True, 1331157495347076194169394074229546591247094700932954969735542683064178813351, 6492216634148181578941588341931873071228445662955063363794567516959963875648),
    (False, 1925640037507887985682881263913963584457683955811081354160002353332967237360, 5337318449502152222656400246173090631201961015514038107338639501980177159024),
    (False, 1301473507864192036453228435647301431003486766283272656375835634251682893549, 14234984578130667308815175953538549483606279945983653992287685522539725501509),
    (True, 3605762229674582725560876604037078646739039435765015058834287758774202093712, 4962260955411596861677990747467988052501238195850598510371586004349935138675),
    (False, 1124989060738307203928866368624980724167574220855807263015079425291970543175, 13515451891794114138851878725005540926686223847515460534225985863767123684600),
    (True, 3423502546204708808242017139803636162820087186031372105350868898750193138507, 9847872404140959090669707739168371210741143056125438277022667500200105741819),
    (False, 4430716136333319435972293039009658809725081563482271540486112956245632069010, 16641021773849117767687242043212337166108212947349375900450658027212175115931),
    (True, 4215218319767025699274916374897913512784356612294910593946879407127851381838, 7417252701483461791335464553051482143174413919363419574919735014517426763035),
    (False, 2513478946656111021498259745887993951370406657576887625898112235036691592126, 13801769581994178817082984657528050928572755069550802287936557561545205993767),
    (True, 3496027634471902080915245699891538214038014971020447910967034447686924812547, 18107314738782613145063042366975646931941046348903537525396414701277524246972),
    (False, 14979496023007288471267850100586983486420968941417095720113184388369180266416, 14991458242220274171350653621528288335876722876535133236459224710118125320256),
    (True, 3797379168263218553223620889263460470452240600668371429683040978030857685961, 1)] 405928799"
  by (simp only: numeral_steps)

lemma q_factor_405928799:
  assumes "is_prime p" and "p dvd 21888242871839275222246405745257275088696311157297823662689037894645226208583" and "is_prime 405928799"
  shows "405928799 dvd p - 1"
  by (rule certified_factor [OF q_factor_405928799_chain _ assms(3) _ assms(1,2),
      of 13870422682112445401476383004996844765810188317684195640332465690380144738292
      3513417660713084073323680335132221655653180545430710657291271186078195309585])
    (simp only: numeral_steps, simp)

lemmas q_factors =
  q_factor_3 [OF _ _ prime_3]
  q_factor_13 [OF _ _ prime_13]
  q_factor_29 [OF _ _ prime_29]
  q_factor_67 [OF _ _ prime_67]
  q_factor_229 [OF _ _ prime_229]
  q_factor_311 [OF _ _ prime_311]
  q_factor_983 [OF _ _ prime_983]
  q_factor_11003 [OF _ _ prime_11003]
  q_factor_405928799 [OF _ _ prime_405928799]

lemma q_pred_factors:
  assumes p: "is_prime p" "p dvd 21888242871839275222246405745257275088696311157297823662689037894645226208583"
  shows "47389024545954405597095826 dvd p - 1"
proof -
  have "p \<noteq> 2" using p(2) by auto
  then have "odd p" using p(1) by (auto simp: is_prime_def)
  then have "2 dvd p - 1" by simp
  then have "2 * 3 dvd p - 1"
    by (rule divides_mult [OF _ q_factor_3 [OF p prime_3]]) (simp add: coprime_iff_gcd_eq_1 gcd_non_0_nat)
  then have "6 dvd p - 1" by simp
  then have "6 * 13 dvd p - 1"
    by (rule divides_mult [OF _ q_factor_13 [OF p prime_13]]) (simp add: coprime_iff_gcd_eq_1 gcd_non_0_nat)
  then have "78 dvd p - 1" by simp
  then have "78 * 29 dvd p - 1"
    by (rule divides_mult [OF _ q_factor_29 [OF p prime_29]]) (simp add: coprime_iff_gcd_eq_1 gcd_non_0_nat)
  then have "2262 dvd p - 1" by simp
  then have "2262 * 67 dvd p - 1"
    by (rule divides_mult [OF _ q_factor_67 [OF p prime_67]]) (simp add: coprime_iff_gcd_eq_1 gcd_non_0_nat)
  then have "151554 dvd p - 1" by simp
  then have "151554 * 229 dvd p - 1"
    by (rule divides_mult [OF _ q_factor_229 [OF p prime_229]]) (simp add: coprime_iff_gcd_eq_1 gcd_non_0_nat)
  then have "34705866 dvd p - 1" by simp
  then have "34705866 * 311 dvd p - 1"
    by (rule divides_mult [OF _ q_factor_311 [OF p prime_311]]) (simp add: coprime_iff_gcd_eq_1 gcd_non_0_nat)
  then have "10793524326 dvd p - 1" by simp
  then have "10793524326 * 983 dvd p - 1"
    by (rule divides_mult [OF _ q_factor_983 [OF p prime_983]]) (simp add: coprime_iff_gcd_eq_1 gcd_non_0_nat)
  then have "10610034412458 dvd p - 1" by simp
  then have "10610034412458 * 11003 dvd p - 1"
    by (rule divides_mult [OF _ q_factor_11003 [OF p prime_11003]]) (simp add: coprime_iff_gcd_eq_1 gcd_non_0_nat)
  then have "116742208640275374 dvd p - 1" by simp
  then have "116742208640275374 * 405928799 dvd p - 1"
    by (rule divides_mult [OF _ q_factor_405928799 [OF p prime_405928799]]) (simp add: coprime_iff_gcd_eq_1 gcd_non_0_nat)
  then have "47389024545954405597095826 dvd p - 1" by simp
  then show ?thesis .
qed

theorem q_prime: "is_prime 21888242871839275222246405745257275088696311157297823662689037894645226208583"
proof (rule brillhart_lehmer_selfridge [of _ 9746649764147629695688585
    47389024545954405597095826 21297197604172000976069097 21297197604172000976069096])
qed (simp, simp, simp, simp, erule (1) q_pred_factors, simp, simp, simp)

end
