(* ===== verification/Gmp_Api.thy ===== *)
theory Gmp_Api
  imports Prelude
begin

section \<open>The GMP interface the field code calls\<close>

text \<open>
  GMP is not part of the repository: its functions are the fields of the record \<open>gmp\<close>, an
  argument of every definition that calls them. An \<open>mpn\<close> operand \<open>{p, n}\<close> is the list of its
  \<open>n\<close> limbs (the length argument is the length of the list), a result is the list of limbs
  written and the limb returned; an \<open>mpz_t\<close> is an integer. What the callers rely on is stated in
  the locales \<open>mpn_laws\<close> and \<open>mpz_laws\<close>, each law the documented behaviour of one function and
  nothing about arguments its documentation excludes. The end of the theory gives a reference
  implementation and interprets the locales on it.
\<close>

record gmp =
  mpn_add_n :: "limbs \<Rightarrow> limbs \<Rightarrow> limbs \<times> u64"
  mpn_sub_n :: "limbs \<Rightarrow> limbs \<Rightarrow> limbs \<times> u64"
  mpn_add_1 :: "limbs \<Rightarrow> u64 \<Rightarrow> limbs \<times> u64"
  mpn_sub_1 :: "limbs \<Rightarrow> u64 \<Rightarrow> limbs \<times> u64"
  mpn_add :: "limbs \<Rightarrow> limbs \<Rightarrow> limbs \<times> u64"
  mpn_mul_1 :: "limbs \<Rightarrow> u64 \<Rightarrow> limbs \<times> u64"
  mpn_addmul_1 :: "limbs \<Rightarrow> limbs \<Rightarrow> u64 \<Rightarrow> limbs \<times> u64"
  mpn_cmp :: "limbs \<Rightarrow> limbs \<Rightarrow> int"
  mpn_zero_p :: "limbs \<Rightarrow> int"
  mpn_and_n :: "limbs \<Rightarrow> limbs \<Rightarrow> limbs"
  mpn_ior_n :: "limbs \<Rightarrow> limbs \<Rightarrow> limbs"
  mpn_xor_n :: "limbs \<Rightarrow> limbs \<Rightarrow> limbs"
  mpn_com :: "limbs \<Rightarrow> limbs"
  mpn_lshift :: "limbs \<Rightarrow> nat \<Rightarrow> limbs \<times> u64"
  mpn_rshift :: "limbs \<Rightarrow> nat \<Rightarrow> limbs \<times> u64"
  mpn_copyi :: "limbs \<Rightarrow> limbs"
  mpz_set_si :: "int \<Rightarrow> int"
  mpz_set_ui :: "u64 \<Rightarrow> int"
  mpz_add :: "int \<Rightarrow> int \<Rightarrow> int"
  mpz_sub :: "int \<Rightarrow> int \<Rightarrow> int"
  mpz_mul_2exp :: "int \<Rightarrow> nat \<Rightarrow> int"
  mpz_sizeinbase :: "int \<Rightarrow> nat \<Rightarrow> nat"
  mpz_fits_sint_p :: "int \<Rightarrow> bool"
  mpz_get_si :: "int \<Rightarrow> int"
  mpz_fdiv_q :: "int \<Rightarrow> int \<Rightarrow> int"
  mpz_fdiv_r :: "int \<Rightarrow> int \<Rightarrow> int"
  mpz_powm :: "int \<Rightarrow> int \<Rightarrow> int \<Rightarrow> int"
  mpz_invert :: "int \<Rightarrow> int \<Rightarrow> int \<times> int"
  mpz_import :: "nat \<Rightarrow> int \<Rightarrow> nat \<Rightarrow> int \<Rightarrow> nat \<Rightarrow> u8 list \<Rightarrow> int"
  mpz_export :: "int \<Rightarrow> nat \<Rightarrow> int \<Rightarrow> nat \<Rightarrow> int \<Rightarrow> u8 list"
  mpz_set_str :: "string \<Rightarrow> nat \<Rightarrow> int \<times> int"
  mpz_get_str :: "nat \<Rightarrow> int \<Rightarrow> string"
  mpz_cmp :: "int \<Rightarrow> int \<Rightarrow> int"
  mpz_add_ui :: "int \<Rightarrow> u64 \<Rightarrow> int"
  mpz_fdiv_q_2exp :: "int \<Rightarrow> nat \<Rightarrow> int"
  mpz_cmp_ui :: "int \<Rightarrow> u64 \<Rightarrow> int"
  mpz_tstbit :: "int \<Rightarrow> nat \<Rightarrow> int"

subsection \<open>Bytes\<close>

text \<open>The number a byte string stands for, least significant byte first, and back.\<close>

fun bval :: "u8 list \<Rightarrow> nat" where
  "bval [] = 0"
| "bval (x # xs) = unat x + 256 * bval xs"

primrec bytes_of :: "nat \<Rightarrow> nat \<Rightarrow> u8 list" where
  "bytes_of 0 v = []"
| "bytes_of (Suc n) v = word_of_nat v # bytes_of n (v div 256)"

text \<open>How many words of \<open>s\<close> bytes \<open>mpz_export\<close> writes for a value: none for zero.\<close>

function export_words :: "nat \<Rightarrow> nat \<Rightarrow> nat" where
  "export_words s v = (if v = 0 \<or> s = 0 then 0 else Suc (export_words s (v div 256 ^ s)))"
  by pat_completeness auto
termination
  by (relation "measure snd") (auto intro!: div_less_dividend one_less_power)

declare export_words.simps [simp del]

text \<open>Decimal strings, as \<open>mpz_set_str\<close> and \<open>mpz_get_str\<close> read and print them in base 10.\<close>

definition digit_char :: "char \<Rightarrow> bool" where
  "digit_char c \<longleftrightarrow> 48 \<le> (of_char c :: nat) \<and> (of_char c :: nat) \<le> 57"

definition dec_val :: "string \<Rightarrow> nat" where
  "dec_val s = foldl (\<lambda>acc c. 10 * acc + (of_char c - 48)) 0 s"

fun dec_str :: "nat \<Rightarrow> string" where
  "dec_str n = (if n < 10 then [char_of (48 + n)] else dec_str (n div 10) @ [char_of (48 + n mod 10)])"

declare dec_str.simps [simp del]

subsection \<open>The laws\<close>

locale mpn_laws =
  fixes G :: gmp
  assumes add_n_law: "length a = length b \<Longrightarrow> mpn_add_n G a b = (r, c) \<Longrightarrow>
      length r = length a \<and> lval r + limb_base ^ length a * unat c = lval a + lval b"
    and sub_n_law: "length a = length b \<Longrightarrow> mpn_sub_n G a b = (r, c) \<Longrightarrow>
      length r = length a \<and> lval r + lval b = lval a + limb_base ^ length a * unat c"
    and add_1_law: "a \<noteq> [] \<Longrightarrow> mpn_add_1 G a x = (r, c) \<Longrightarrow>
      length r = length a \<and> lval r + limb_base ^ length a * unat c = lval a + unat x"
    and sub_1_law: "a \<noteq> [] \<Longrightarrow> mpn_sub_1 G a x = (r, c) \<Longrightarrow>
      length r = length a \<and> lval r + unat x = lval a + limb_base ^ length a * unat c"
    and add_law: "length b \<le> length a \<Longrightarrow> mpn_add G a b = (r, c) \<Longrightarrow>
      length r = length a \<and> lval r + limb_base ^ length a * unat c = lval a + lval b"
    and mul_1_law: "mpn_mul_1 G a x = (r, c) \<Longrightarrow>
      length r = length a \<and> lval r + limb_base ^ length a * unat c = lval a * unat x"
    and addmul_1_law: "length r0 = length a \<Longrightarrow> mpn_addmul_1 G r0 a x = (r, c) \<Longrightarrow>
      length r = length a \<and> lval r + limb_base ^ length a * unat c = lval r0 + lval a * unat x"
    and cmp_pos_law: "length a = length b \<Longrightarrow> 0 < mpn_cmp G a b \<longleftrightarrow> lval b < lval a"
    and cmp_neg_law: "length a = length b \<Longrightarrow> mpn_cmp G a b < 0 \<longleftrightarrow> lval a < lval b"
    and zero_p_law: "mpn_zero_p G a \<noteq> 0 \<longleftrightarrow> lval a = 0"
    and and_n_law: "length a = length b \<Longrightarrow> mpn_and_n G a b = map2 (AND) a b"
    and ior_n_law: "length a = length b \<Longrightarrow> mpn_ior_n G a b = map2 (OR) a b"
    and xor_n_law: "length a = length b \<Longrightarrow> mpn_xor_n G a b = map2 (XOR) a b"
    and com_law: "mpn_com G a = map NOT a"
    and lshift_law: "a \<noteq> [] \<Longrightarrow> 1 \<le> k \<Longrightarrow> k \<le> 63 \<Longrightarrow> mpn_lshift G a k = (r, c) \<Longrightarrow>
      length r = length a \<and> lval r + limb_base ^ length a * unat c = lval a * 2 ^ k"
    and rshift_law: "a \<noteq> [] \<Longrightarrow> 1 \<le> k \<Longrightarrow> k \<le> 63 \<Longrightarrow> mpn_rshift G a k = (r, c) \<Longrightarrow>
      length r = length a \<and> lval r = lval a div 2 ^ k"
    and copyi_law: "mpn_copyi G a = a"

locale mpz_laws =
  fixes G :: gmp
  assumes set_si_law: "mpz_set_si G i = i"
    and set_ui_law: "mpz_set_ui G w = int (unat w)"
    and mpz_add_law: "mpz_add G x y = x + y"
    and mpz_sub_law: "mpz_sub G x y = x - y"
    and mul_2exp_law: "mpz_mul_2exp G x n = x * 2 ^ n"
    and sizeinbase_2_law: "0 < v \<Longrightarrow> 2 ^ (n - 1) \<le> v \<Longrightarrow> v < 2 ^ n \<Longrightarrow> mpz_sizeinbase G v 2 = n"
    and fits_sint_law: "mpz_fits_sint_p G v \<longleftrightarrow> - (2 ^ 31) \<le> v \<and> v < 2 ^ 31"
    and get_si_law: "- (2 ^ 63) \<le> v \<Longrightarrow> v < 2 ^ 63 \<Longrightarrow> mpz_get_si G v = v"
    and fdiv_q_law: "y \<noteq> 0 \<Longrightarrow> mpz_fdiv_q G x y = x div y"
    and fdiv_r_law: "y \<noteq> 0 \<Longrightarrow> mpz_fdiv_r G x y = x mod y"
    and powm_law: "0 \<le> e \<Longrightarrow> 0 < m \<Longrightarrow> mpz_powm G b e m = b ^ nat e mod m"
    and invert_law: "1 < m \<Longrightarrow> coprime a m \<Longrightarrow> mpz_invert G a m = (ret, x) \<Longrightarrow>
      ret \<noteq> 0 \<and> 0 \<le> x \<and> x < m \<and> (a * x) mod m = 1"
    and invert_none_law: "1 < m \<Longrightarrow> \<not> coprime a m \<Longrightarrow> fst (mpz_invert G a m) = 0"
    and import_le_law: "n * s \<le> length bs \<Longrightarrow>
      mpz_import G n (-1) s (-1) 0 bs = int (bval (take (n * s) bs))"
    and export_le_law: "0 < s \<Longrightarrow> 0 \<le> v \<Longrightarrow>
      length (mpz_export G (-1) s (-1) 0 v) = s * export_words s (nat v)
      \<and> bval (mpz_export G (-1) s (-1) 0 v) = nat v"
    and export_be_law: "0 < s \<Longrightarrow> 0 \<le> v \<Longrightarrow>
      length (mpz_export G 1 s 1 0 v) = s * export_words s (nat v)
      \<and> bval (rev (mpz_export G 1 s 1 0 v)) = nat v"
    and set_str_law: "str \<noteq> [] \<Longrightarrow> list_all digit_char str \<Longrightarrow>
      mpz_set_str G str 10 = (0, int (dec_val str))"
    and set_str_minus_law: "str \<noteq> [] \<Longrightarrow> list_all digit_char str \<Longrightarrow>
      mpz_set_str G (CHR ''-'' # str) 10 = (0, - int (dec_val str))"
    and get_str_law: "0 \<le> v \<Longrightarrow> mpz_get_str G 10 v = dec_str (nat v)"
    and mpz_cmp_pos_law: "0 < mpz_cmp G x y \<longleftrightarrow> y < x"
    and mpz_cmp_neg_law: "mpz_cmp G x y < 0 \<longleftrightarrow> x < y"
    and add_ui_law: "mpz_add_ui G x w = x + int (unat w)"
    and fdiv_q_2exp_law: "mpz_fdiv_q_2exp G x n = x div 2 ^ n"
    and cmp_ui_law: "mpz_cmp_ui G x w = 0 \<longleftrightarrow> x = int (unat w)"
    and tstbit_law: "mpz_tstbit G x n \<noteq> 0 \<longleftrightarrow> bit x n"

text \<open>
  \<open>mpz_import\<close> and \<open>mpz_export\<close> are only specified for word orders 1 and -1: their documentation
  gives no meaning to any other order, so no law speaks of one.
\<close>

locale gmp_laws = mpn_laws G + mpz_laws G for G :: gmp

subsection \<open>Byte lemmas\<close>

lemma unat_byte_lt: "unat (x :: u8) < 256"
  using unsigned_less [of x] by simp

lemma byte_base_word_zero: "(256 :: u8) = 0"
  by simp

lemma bval_lt: "bval xs < 256 ^ length xs"
proof (induction xs)
  case (Cons x xs)
  have "unat x + 256 * v < 256 * P" if "v < P" for v P
    using that unat_byte_lt [of x] by linarith
  from this [OF Cons.IH] show ?case by simp
qed simp

lemma bval_append [limb_simps]: "bval (xs @ ys) = bval xs + 256 ^ length xs * bval ys"
  by (induction xs) (simp_all add: algebra_simps)

lemma bval_replicate_0 [simp, limb_simps]: "bval (replicate n 0) = 0"
  by (induction n) simp_all

lemma length_bytes_of [simp]: "length (bytes_of n v) = n"
  by (induction n arbitrary: v) simp_all

lemma bval_bytes_of [limb_simps]: "bval (bytes_of n v) = v mod 256 ^ n"
proof (induction n arbitrary: v)
  case (Suc n)
  have "v mod 256 + 256 * (v div 256 mod 256 ^ n) = v mod (256 * 256 ^ n)"
    by (simp add: mod_mult2_eq)
  with Suc show ?case by (simp add: unat_of_nat)
qed simp

lemma bytes_of_bval [simp]: "length xs = n \<Longrightarrow> bytes_of n (bval xs) = xs"
proof (induction xs arbitrary: n)
  case (Cons x xs)
  then obtain m where "n = Suc m" and "length xs = m" by (cases n) auto
  moreover have "(unat x + 256 * bval xs) div 256 = bval xs"
    using unat_byte_lt [of x] by simp
  moreover have "(word_of_nat (unat x + 256 * bval xs) :: u8) = x"
    by (simp add: byte_base_word_zero)
  ultimately show ?case using Cons.IH by simp
qed simp

lemma export_words_fits: "0 < s \<Longrightarrow> v < 256 ^ (s * export_words s v)"
proof (induction s v rule: export_words.induct)
  case (1 s v)
  show ?case
  proof (cases "v = 0")
    case False
    with 1 have IH: "v div 256 ^ s < 256 ^ (s * export_words s (v div 256 ^ s))" by simp
    have "v < 256 ^ s * P" if "v div 256 ^ s < P" for P
      using that by (simp add: div_less_iff_less_mult mult.commute)
    from this [OF IH] False \<open>0 < s\<close> show ?thesis
      by (simp add: export_words.simps [of s v] power_add)
  qed simp
qed

lemma export_words_le: "v < 256 ^ (s * k) \<Longrightarrow> export_words s v \<le> k"
proof (induction s v arbitrary: k rule: export_words.induct)
  case (1 s v)
  show ?case
  proof (cases "v = 0 \<or> s = 0")
    case True
    then show ?thesis by (simp add: export_words.simps [of s v])
  next
    case False
    with 1 obtain j where j: "k = Suc j" by (cases k) auto
    with 1 have "v < 256 ^ s * 256 ^ (s * j)" by (simp add: power_add)
    then have "v div 256 ^ s < 256 ^ (s * j)" by (simp add: div_less_iff_less_mult mult.commute)
    with 1 False have "export_words s (v div 256 ^ s) \<le> j" by simp
    with False j show ?thesis by (simp add: export_words.simps [of s v])
  qed
qed

end
