(* ===== verification/Raw_Field.thy ===== *)
theory Raw_Field
  imports Gmp_Api
begin

section \<open>Raw field arithmetic: four limbs in Montgomery form\<close>

text \<open>
  The functions of \<open>fr_raw_generic.cpp\<close> and \<open>fq_raw_generic.cpp\<close>. The two files are one text with
  different constants, so the constants are the record \<open>raw_consts\<close> and each function is written
  once; the theory \<open>Raw_Consts\<close> gives the two instances. A \<open>FrRawElement\<close> is a list of four limbs.
  A function that the code calls with a result array returns that array; the arrays of the
  arguments may be the result array, and every function here reads its arguments for the last time
  before it writes the part of the result they could share, except those whose order of reads and
  writes is modelled on the store of \<open>Element_Store\<close>.
\<close>

record raw_consts =
  rawq :: limbs      \<comment> \<open>\<open>Fr_rawq\<close>, five limbs, the last one 0\<close>
  rawR2 :: limbs     \<comment> \<open>\<open>Fr_rawR2\<close> and \<open>Fr_R2.longVal\<close>\<close>
  rawR3 :: limbs     \<comment> \<open>\<open>Fr_R3.longVal\<close>\<close>
  rawHalf :: limbs   \<comment> \<open>\<open>half\<close>\<close>
  rawNp :: u64       \<comment> \<open>\<open>Fr_np\<close>\<close>
  lboMask :: u64

abbreviation q4 :: "raw_consts \<Rightarrow> limbs" where
  "q4 P \<equiv> take 4 (rawq P)"

subsection \<open>Operations\<close>

text \<open>\<open>if (mpn_cmp(r, q) >= 0) mpn_sub_n(r, r, q)\<close>, the reduction that ends most functions.\<close>

definition reduce_q :: "raw_consts \<Rightarrow> gmp \<Rightarrow> limbs \<Rightarrow> limbs" where
  "reduce_q P G r = (if 0 \<le> mpn_cmp G r (q4 P) then fst (mpn_sub_n G r (q4 P)) else r)"

definition rawAdd :: "raw_consts \<Rightarrow> gmp \<Rightarrow> limbs \<Rightarrow> limbs \<Rightarrow> limbs" where
  "rawAdd P G a b = (case mpn_add_n G a b of (r, carry) \<Rightarrow>
     if carry \<noteq> 0 \<or> 0 \<le> mpn_cmp G r (q4 P) then fst (mpn_sub_n G r (q4 P)) else r)"

definition rawAddLS :: "raw_consts \<Rightarrow> gmp \<Rightarrow> limbs \<Rightarrow> u64 \<Rightarrow> limbs" where
  "rawAddLS P G a b = (case mpn_add_1 G a b of (r, carry) \<Rightarrow>
     if carry \<noteq> 0 \<or> 0 \<le> mpn_cmp G r (q4 P) then fst (mpn_sub_n G r (q4 P)) else r)"

definition rawSub :: "raw_consts \<Rightarrow> gmp \<Rightarrow> limbs \<Rightarrow> limbs \<Rightarrow> limbs" where
  "rawSub P G a b = (case mpn_sub_n G a b of (r, carry) \<Rightarrow>
     if carry \<noteq> 0 then fst (mpn_add_n G r (q4 P)) else r)"

definition rawSubRegular :: "gmp \<Rightarrow> limbs \<Rightarrow> limbs \<Rightarrow> limbs" where
  "rawSubRegular G a b = fst (mpn_sub_n G a b)"

definition rawSubSL :: "raw_consts \<Rightarrow> gmp \<Rightarrow> u64 \<Rightarrow> limbs \<Rightarrow> limbs" where
  "rawSubSL P G a b = (case mpn_sub_n G [a, 0, 0, 0] b of (r, carry) \<Rightarrow>
     if carry \<noteq> 0 then fst (mpn_add_n G r (q4 P)) else r)"

definition rawSubLS :: "raw_consts \<Rightarrow> gmp \<Rightarrow> limbs \<Rightarrow> u64 \<Rightarrow> limbs" where
  "rawSubLS P G a b = (case mpn_sub_1 G a b of (r, carry) \<Rightarrow>
     if carry \<noteq> 0 then fst (mpn_add_n G r (q4 P)) else r)"

definition rawNeg :: "raw_consts \<Rightarrow> gmp \<Rightarrow> limbs \<Rightarrow> limbs" where
  "rawNeg P G a = (if mpn_cmp G a [0, 0, 0, 0] \<noteq> 0 then fst (mpn_sub_n G (q4 P) a)
     else mpn_copyi G [0, 0, 0, 0])"

text \<open>
  \<open>rawNegLS\<close> writes the result array between its two subtractions: the second one reads its
  argument from memory after the first write. The argument is therefore a function of the
  intermediate result, \<open>\<lambda>_. a\<close> when the arrays are distinct and \<open>\<lambda>r. r\<close> when they are one.
\<close>

definition rawNegLS :: "raw_consts \<Rightarrow> gmp \<Rightarrow> (limbs \<Rightarrow> limbs) \<Rightarrow> u64 \<Rightarrow> limbs" where
  "rawNegLS P G readA b = (case mpn_sub_1 G (q4 P) b of (r, carry1) \<Rightarrow>
     (case mpn_sub_n G r (readA r) of (r', carry2) \<Rightarrow>
       if carry1 \<noteq> 0 \<or> carry2 \<noteq> 0 then fst (mpn_add_n G r' (q4 P)) else r'))"

definition rawCopy :: "limbs \<Rightarrow> limbs" where
  "rawCopy a = [a ! 0, a ! 1, a ! 2, a ! 3]"

definition rawSwap :: "limbs \<Rightarrow> limbs \<Rightarrow> limbs \<times> limbs" where
  "rawSwap r a = (let temp = [r ! 0, r ! 1, r ! 2, r ! 3]
     in ([a ! 0, a ! 1, a ! 2, a ! 3], temp))"

definition rawIsEq :: "gmp \<Rightarrow> limbs \<Rightarrow> limbs \<Rightarrow> bool" where
  "rawIsEq G a b \<longleftrightarrow> mpn_cmp G a b = 0"

definition rawIsZero :: "gmp \<Rightarrow> limbs \<Rightarrow> bool" where
  "rawIsZero G a \<longleftrightarrow> mpn_zero_p G a \<noteq> 0"

definition rawCmp :: "gmp \<Rightarrow> limbs \<Rightarrow> limbs \<Rightarrow> int" where
  "rawCmp G a b = mpn_cmp G a b"

definition rawZero :: limbs where
  "rawZero = [0, 0, 0, 0]"

subsection \<open>Montgomery multiplication\<close>

text \<open>
  \<open>np0 = Fr_np * product[0]; c = mpn_addmul_1(product, mq, N, np0)\<close>: makes the lowest limb of
  the five-limb product zero by adding a multiple of the modulus.
\<close>

definition mont_redc :: "raw_consts \<Rightarrow> gmp \<Rightarrow> limbs \<Rightarrow> limbs \<times> u64" where
  "mont_redc P G product = (let np0 = rawNp P * (product ! 0)
     in mpn_addmul_1 G product (rawq P) np0)"

text \<open>
  One round: reduce the previous product, store the limb carried out in \<open>product[1]\<close> of the next
  (zeroed) product, add \<open>b * a[i]\<close> to its low four limbs with the carry in \<open>product[4]\<close>, and add
  the previous product without its lowest limb.
\<close>

definition mont_round :: "raw_consts \<Rightarrow> gmp \<Rightarrow> limbs \<Rightarrow> u64 \<Rightarrow> limbs \<Rightarrow> limbs" where
  "mont_round P G b ai prev = (case mont_redc P G prev of (prev', c1) \<Rightarrow>
     (case mpn_addmul_1 G [0, c1, 0, 0] b ai of (low, c4) \<Rightarrow>
       fst (mpn_add G (low @ [c4]) (drop 1 prev'))))"

text \<open>The same round without a product, as \<open>rawMMul1\<close> and \<open>rawFromMontgomery\<close> have it.\<close>

definition mont_shift :: "raw_consts \<Rightarrow> gmp \<Rightarrow> limbs \<Rightarrow> limbs" where
  "mont_shift P G prev = (case mont_redc P G prev of (prev', c1) \<Rightarrow>
     fst (mpn_add G [0, c1, 0, 0, 0] (drop 1 prev')))"

text \<open>The end of the three functions: last reduction, copy without the lowest limb, subtraction.\<close>

definition mont_finish :: "raw_consts \<Rightarrow> gmp \<Rightarrow> limbs \<Rightarrow> limbs" where
  "mont_finish P G product3 = (case mont_redc P G product3 of (product3', _) \<Rightarrow>
     reduce_q P G (mpn_copyi G (take 4 (drop 1 product3'))))"

definition rawMMul :: "raw_consts \<Rightarrow> gmp \<Rightarrow> limbs \<Rightarrow> limbs \<Rightarrow> limbs" where
  "rawMMul P G a b = (case mpn_mul_1 G b (a ! 0) of (low, c4) \<Rightarrow>
     let product0 = low @ [c4];
         product1 = mont_round P G b (a ! 1) product0;
         product2 = mont_round P G b (a ! 2) product1;
         product3 = mont_round P G b (a ! 3) product2
     in mont_finish P G product3)"

definition rawMSquare :: "raw_consts \<Rightarrow> gmp \<Rightarrow> limbs \<Rightarrow> limbs" where
  "rawMSquare P G a = rawMMul P G a a"

definition rawMMul1 :: "raw_consts \<Rightarrow> gmp \<Rightarrow> limbs \<Rightarrow> u64 \<Rightarrow> limbs" where
  "rawMMul1 P G a b = (case mpn_mul_1 G a b of (low, c4) \<Rightarrow>
     let product0 = low @ [c4];
         product1 = mont_shift P G product0;
         product2 = mont_shift P G product1;
         product3 = mont_shift P G product2
     in mont_finish P G product3)"

definition rawToMontgomery :: "raw_consts \<Rightarrow> gmp \<Rightarrow> limbs \<Rightarrow> limbs" where
  "rawToMontgomery P G a = rawMMul P G a (rawR2 P)"

definition rawFromMontgomery :: "raw_consts \<Rightarrow> gmp \<Rightarrow> limbs \<Rightarrow> limbs" where
  "rawFromMontgomery P G a = (let product0 = mpn_copyi G a @ [0];
         product1 = mont_shift P G product0;
         product2 = mont_shift P G product1;
         product3 = mont_shift P G product2
     in mont_finish P G product3)"

subsection \<open>Short values, bits and shifts\<close>

definition rawCopyS2L :: "raw_consts \<Rightarrow> gmp \<Rightarrow> s64 \<Rightarrow> limbs" where
  "rawCopyS2L P G val = (if sint val < 0
     then fst (mpn_add_n G [val, -1, -1, -1] (q4 P)) else [val, 0, 0, 0])"

definition mask_top :: "raw_consts \<Rightarrow> limbs \<Rightarrow> limbs" where
  "mask_top P r = r[3 := (r ! 3) AND lboMask P]"

definition rawAnd :: "raw_consts \<Rightarrow> gmp \<Rightarrow> limbs \<Rightarrow> limbs \<Rightarrow> limbs" where
  "rawAnd P G a b = reduce_q P G (mask_top P (mpn_and_n G a b))"

definition rawOr :: "raw_consts \<Rightarrow> gmp \<Rightarrow> limbs \<Rightarrow> limbs \<Rightarrow> limbs" where
  "rawOr P G a b = reduce_q P G (mask_top P (mpn_ior_n G a b))"

definition rawXor :: "raw_consts \<Rightarrow> gmp \<Rightarrow> limbs \<Rightarrow> limbs \<Rightarrow> limbs" where
  "rawXor P G a b = reduce_q P G (mask_top P (mpn_xor_n G a b))"

definition rawNot :: "raw_consts \<Rightarrow> gmp \<Rightarrow> limbs \<Rightarrow> limbs" where
  "rawNot P G a = reduce_q P G (mask_top P (mpn_com G a))"

text \<open>
  The shifts, for a result array distinct from the argument's (\<open>mpn_copyi\<close> onto an overlapping
  higher address is outside its documentation). \<open>b\<close> is below 256: a larger one makes the unsigned
  \<open>word_count\<close> wrap around, and every caller tests \<open>b < 254\<close> first.
\<close>

definition rawShl :: "raw_consts \<Rightarrow> gmp \<Rightarrow> limbs \<Rightarrow> nat \<Rightarrow> limbs" where
  "rawShl P G a b = (let bit_shift = b mod 64; word_shift = b div 64; word_count = 4 - word_shift;
       r = replicate word_shift 0 @ mpn_copyi G (take word_count a);
       r = (if bit_shift \<noteq> 0 then fst (mpn_lshift G r bit_shift) else r)
     in reduce_q P G (mask_top P r))"

definition rawShr :: "gmp \<Rightarrow> limbs \<Rightarrow> nat \<Rightarrow> limbs" where
  "rawShr G a b = (let bit_shift = b mod 64; word_shift = b div 64; word_count = 4 - word_shift;
       r = mpn_copyi G (take word_count (drop word_shift a)) @ replicate word_shift 0
     in if bit_shift \<noteq> 0 then fst (mpn_rshift G r bit_shift) else r)"

end
