(* ===== verification/Raw_Field_Laws.thy ===== *)
theory Raw_Field_Laws
  imports Raw_Field
begin

section \<open>Raw field arithmetic computes modulo the field prime\<close>

text \<open>
  The interface of the field constants (\<open>mont_consts\<close>) and, under it and the laws of GMP
  (\<open>raw_field\<close>), the functional correctness of every raw operation as an equation on the values of
  the limb arrays: additions and subtractions are exact modulo \<open>q\<close> and keep elements reduced,
  \<open>rawMMul\<close> is a Montgomery product, and the carry limb that \<open>rawMMul\<close> stores at index 1 is
  always zero.
\<close>

definition reduced :: "nat \<Rightarrow> limbs \<Rightarrow> bool" where
  "reduced q a \<longleftrightarrow> length a = 4 \<and> lval a < q"

definition mont_R :: nat where
  "mont_R = limb_base ^ 4"

definition mont_Rinv :: "nat \<Rightarrow> nat" where
  "mont_Rinv q = ((q + 1) div 2) ^ 256 mod q"

definition mval :: "nat \<Rightarrow> limbs \<Rightarrow> nat" where
  "mval q a = (lval a * mont_Rinv q) mod q"

locale mont_consts =
  fixes P :: raw_consts and q :: nat
  assumes length_rawq [simp]: "length (rawq P) = 5"
    and rawq_top: "rawq P ! 4 = 0"
    and lval_q4 [simp]: "lval (q4 P) = q"
    and np_law: "rawNp P * (rawq P ! 0) = -1"
    and q_odd: "odd q"
    and q_low: "2 ^ 253 < q"
    and q_high: "q < 2 ^ 254"
    and length_R2: "length (rawR2 P) = 4"
    and lval_R2: "lval (rawR2 P) = mont_R ^ 2 mod q"
    and length_R3: "length (rawR3 P) = 4"
    and lval_R3: "lval (rawR3 P) = mont_R ^ 3 mod q"
    and length_half: "length (rawHalf P) = 4"
    and lval_half: "lval (rawHalf P) = q div 2"
    and lbo_mask: "lboMask P = 2 ^ 62 - 1"

locale raw_field = mont_consts P q + mpn_laws G for P :: raw_consts and q :: nat and G :: gmp

lemma reducedI: "length a = 4 \<Longrightarrow> lval a < q \<Longrightarrow> reduced q a"
  by (simp add: reduced_def)

lemma reduced_length: "reduced q a \<Longrightarrow> length a = 4"
  by (simp add: reduced_def)

lemma reduced_lt: "reduced q a \<Longrightarrow> lval a < q"
  by (simp add: reduced_def)

lemma reduced_eq_iff: "reduced q a \<Longrightarrow> reduced q b \<Longrightarrow> lval a = lval b \<longleftrightarrow> a = b"
  by (simp add: reduced_def lval_inj)

text \<open>Four rounds, each adding a multiple of \<open>q\<close> and dividing by the limb base \<open>B\<close>, divide by \<open>B ^ 4\<close>.\<close>

lemma mont_compose:
  fixes B q res :: int
  assumes "B * res = T3 + m3 * q" and "B * T3 = T2 + m2 * q + B * w3"
    and "B * T2 = T1 + m1 * q + B * w2" and "B * T1 = T0 + m0 * q + B * w1"
  shows "\<exists>m. B ^ 4 * res = T0 + B * w1 + B\<^sup>2 * w2 + B ^ 3 * w3 + m * q"
proof -
  have "B ^ 4 * res = B ^ 3 * (B * res)" by (simp add: power_numeral_reduce)
  also have "\<dots> = B ^ 2 * (B * T3) + B ^ 3 * m3 * q"
    unfolding assms(1) by (simp add: algebra_simps power_numeral_reduce)
  also have "\<dots> = B * (B * T2) + B ^ 3 * w3 + (B ^ 3 * m3 + B ^ 2 * m2) * q"
    unfolding assms(2) by (simp add: algebra_simps power_numeral_reduce)
  also have "\<dots> = B * T1 + B ^ 2 * w2 + B ^ 3 * w3 + (B ^ 3 * m3 + B ^ 2 * m2 + B * m1) * q"
    unfolding assms(3) by (simp add: algebra_simps power_numeral_reduce)
  also have "\<dots> = T0 + B * w1 + B\<^sup>2 * w2 + B ^ 3 * w3 + (B ^ 3 * m3 + B ^ 2 * m2 + B * m1 + m0) * q"
    unfolding assms(4) by (simp add: algebra_simps)
  finally show ?thesis by blast
qed

context mont_consts begin

lemma length_q4 [simp]: "length (q4 P) = 4"
  by (simp add: length_rawq)

lemma q_pos [simp]: "0 < q"
  using q_low by (metis gr_implies_not0 neq0_conv)

lemma q_lt_R: "4 * q < mont_R"
  using q_high by (simp add: mont_R_def)

lemma lval_rawq [simp]: "lval (rawq P) = q"
proof -
  have "drop 4 (rawq P) = [0]"
    using length_rawq rawq_top by (metis Cons_nth_drop_Suc add.commute drop_all eval_nat_numeral(3)
      lessI numeral_plus_one order_refl semiring_norm(2) semiring_norm(8) semiring_norm(3))
  with lval_split [of "rawq P" 4] show ?thesis by simp
qed

lemma lt_R: "length a = 4 \<Longrightarrow> lval a < mont_R"
  using lval_lt [of a] by (simp add: mont_R_def)

text \<open>
  \<open>mont_Rinv q\<close> is the inverse of the Montgomery radix; \<open>mval q a\<close> is the field element that the
  limbs \<open>a\<close> stand for in Montgomery form.
\<close>

lemma Rinv_law: "(mont_R * mont_Rinv q) mod q = 1"
proof -
  have two: "2 * ((q + 1) div 2) = q + 1" using q_odd by simp
  have "mont_R * mont_Rinv q mod q = mont_R * ((q + 1) div 2) ^ 256 mod q"
    by (simp add: mont_Rinv_def mod_mult_right_eq)
  also have "mont_R * ((q + 1) div 2) ^ 256 = (2 * ((q + 1) div 2)) ^ 256"
    unfolding power_mult_distrib by (simp add: mont_R_def)
  also have "\<dots> mod q = ((q + 1) mod q) ^ 256 mod q" unfolding two by (simp add: power_mod)
  also have "(q + 1) mod q = 1" using q_low by (simp add: mod_Suc)
  finally show ?thesis using q_low by simp
qed

lemma mont_cancel:
  assumes "(mont_R * x) mod q = (mont_R * y) mod q"
  shows "x mod q = y mod q"
proof -
  have *: "mont_Rinv q * (mont_R * z) mod q = z mod q" for z
  proof -
    have "mont_Rinv q * (mont_R * z) mod q = (mont_R * mont_Rinv q mod q) * z mod q"
      by (simp add: mod_mult_left_eq mod_mult_right_eq ac_simps)
    then show ?thesis by (simp add: Rinv_law)
  qed
  have "mont_Rinv q * (mont_R * x) mod q = mont_Rinv q * (mont_R * y) mod q"
    using assms by (metis mod_mult_right_eq)
  then show ?thesis by (simp only: *)
qed

lemma mval_unique:
  assumes "(mont_R * x) mod q = lval a mod q"
  shows "x mod q = mval q a"
proof -
  have "(mont_R * (lval a * mont_Rinv q)) mod q = ((mont_R * mont_Rinv q mod q) * lval a) mod q"
    by (simp add: mod_mult_left_eq mod_mult_right_eq ac_simps)
  also have "\<dots> = (mont_R * x) mod q" using assms unfolding Rinv_law by simp
  finally have "(mont_R * x) mod q = (mont_R * (lval a * mont_Rinv q)) mod q" by (rule sym)
  from mont_cancel [OF this] show ?thesis by (simp add: mval_def)
qed

lemma mval_lt: "mval q a < q"
  by (simp add: mval_def)

lemma mval_back: "(mont_R * mval q a) mod q = lval a mod q"
proof -
  have "(mont_R * mval q a) mod q = ((mont_R * mont_Rinv q mod q) * lval a) mod q"
    by (simp add: mval_def mod_mult_left_eq mod_mult_right_eq ac_simps)
  then show ?thesis by (simp add: Rinv_law)
qed

lemma mval_inj: "reduced q a \<Longrightarrow> reduced q b \<Longrightarrow> mval q a = mval q b \<longleftrightarrow> a = b"
  using mval_back [of a] mval_back [of b] reduced_eq_iff [of q a b] by (auto simp: reduced_def)

end

context raw_field begin

subsection \<open>Additions and subtractions\<close>

lemma sub_n_q:
  assumes "length r = 4" and "q \<le> lval r + mont_R * c" and "lval r + mont_R * c < q + mont_R"
  shows "lval (fst (mpn_sub_n G r (q4 P))) = lval r + mont_R * c - q
    \<and> length (fst (mpn_sub_n G r (q4 P))) = 4"
proof -
  obtain r' b where rb: "mpn_sub_n G r (q4 P) = (r', b)" by fastforce
  from sub_n_law [OF _ rb] assms(1)
  have law: "length r' = 4" "lval r' + q = lval r + mont_R * unat b"
    by (simp_all add: mont_R_def)
  have r': "lval r' < mont_R" using lt_R law(1) by simp
  have "unat b = c"
  proof -
    have "v + q = r + R * b \<Longrightarrow> v < R \<Longrightarrow> q \<le> r + R * c \<Longrightarrow> r + R * c < q + R \<Longrightarrow> b = c"
      for v r R b c :: nat
    proof (cases b c rule: linorder_cases)
      assume *: "v + q = r + R * b" "v < R" "q \<le> r + R * c" "r + R * c < q + R"
      {
        assume "b < c"
        then have "R * (b + 1) \<le> R * c" by (intro mult_le_mono2) simp
        with * show "b = c" by simp
      next
        assume "c < b"
        then have "R * (c + 1) \<le> R * b" by (intro mult_le_mono2) simp
        with * show "b = c" by simp
      }
    qed
    from this [OF law(2) r' assms(2,3)] show ?thesis .
  qed
  with law rb show ?thesis by simp
qed

lemma add_n_wrap:
  assumes "length r = 4" and "length s = 4" and "mont_R \<le> lval r + lval s"
  shows "lval (fst (mpn_add_n G r s)) = lval r + lval s - mont_R
    \<and> length (fst (mpn_add_n G r s)) = 4"
proof -
  obtain r' c where rc: "mpn_add_n G r s = (r', c)" by fastforce
  from add_n_law [OF _ rc] assms(1,2)
  have law: "length r' = 4" "lval r' + mont_R * unat c = lval r + lval s"
    by (simp_all add: mont_R_def)
  have lt: "lval r' < mont_R" "lval r < mont_R" "lval s < mont_R"
    using lt_R law(1) assms(1,2) by simp_all
  have "unat c = 1"
  proof -
    have "unat c \<noteq> 0" using law(2) lt(1) assms(3) by (cases "unat c = 0") auto
    moreover have "\<not> 2 \<le> unat c"
    proof
      assume "2 \<le> unat c"
      then have "mont_R * 2 \<le> mont_R * unat c" by (rule mult_le_mono2)
      with law(2) lt show False by linarith
    qed
    ultimately show ?thesis by linarith
  qed
  with law rc show ?thesis by simp
qed

lemma cmp_ge_q: "length r = 4 \<Longrightarrow> 0 \<le> mpn_cmp G r (q4 P) \<longleftrightarrow> q \<le> lval r"
  using cmp_neg_law [of r "q4 P"] by (simp add: not_less flip: linorder_not_less)

lemma reduce_q_correct:
  assumes "length r = 4" and "lval r < 2 * q"
  shows "reduced q (reduce_q P G r) \<and> lval (reduce_q P G r) = lval r mod q"
proof (cases "q \<le> lval r")
  case True
  have "lval r < q + mont_R" using q_lt_R assms(2) by linarith
  with sub_n_q [of r 0] True assms
  have "lval (reduce_q P G r) = lval r - q" "length (reduce_q P G r) = 4"
    by (simp_all add: reduce_q_def cmp_ge_q)
  with assms True show ?thesis by (simp add: reduced_def mod_lt_2q)
next
  case False
  with assms show ?thesis by (simp add: reduce_q_def cmp_ge_q reduced_def)
qed

text \<open>The shared tail of the additions: one subtraction of \<open>q\<close> after a carry or when not reduced.\<close>

lemma add_tail:
  assumes "length r = 4" and "lval r + mont_R * unat (carry :: u64) = v" and "v < 2 * q"
  shows "reduced q (if carry \<noteq> 0 \<or> 0 \<le> mpn_cmp G r (q4 P) then fst (mpn_sub_n G r (q4 P)) else r)
    \<and> lval (if carry \<noteq> 0 \<or> 0 \<le> mpn_cmp G r (q4 P) then fst (mpn_sub_n G r (q4 P)) else r) = v mod q"
proof -
  have "carry = 0"
    using carry_zero(1) [of r 4 carry v] assms q_lt_R by (simp add: mont_R_def)
  with assms reduce_q_correct [of r] show ?thesis by (simp add: reduce_q_def)
qed

theorem rawAdd_correct:
  assumes "length a = 4" and "length b = 4" and "lval a + lval b < 2 * q"
  shows "reduced q (rawAdd P G a b) \<and> lval (rawAdd P G a b) = (lval a + lval b) mod q"
proof -
  obtain r c where rc: "mpn_add_n G a b = (r, c)" by fastforce
  from add_n_law [OF _ rc] assms have "length r = 4" "lval r + mont_R * unat c = lval a + lval b"
    by (simp_all add: mont_R_def)
  from add_tail [OF this assms(3)] show ?thesis by (simp add: rawAdd_def rc)
qed

theorem rawAddLS_correct:
  assumes "length a = 4" and "lval a + unat b < 2 * q"
  shows "reduced q (rawAddLS P G a b) \<and> lval (rawAddLS P G a b) = (lval a + unat b) mod q"
proof -
  obtain r c where rc: "mpn_add_1 G a b = (r, c)" by fastforce
  from assms(1) have "a \<noteq> []" by auto
  from add_1_law [OF this rc] assms have "length r = 4" "lval r + mont_R * unat c = lval a + unat b"
    by (simp_all add: mont_R_def)
  from add_tail [OF this assms(2)] show ?thesis by (simp add: rawAddLS_def rc)
qed

text \<open>The shared tail of the subtractions: \<open>q\<close> is added back after a borrow.\<close>

lemma sub_tail:
  assumes r: "length r = 4" and law: "lval r + w = v + mont_R * unat (carry :: u64)"
    and "v < q" and "w \<le> q"
  shows "reduced q (if carry \<noteq> 0 then fst (mpn_add_n G r (q4 P)) else r)
    \<and> lval (if carry \<noteq> 0 then fst (mpn_add_n G r (q4 P)) else r) = (v + q - w) mod q"
proof (cases "v < w")
  case True
  have "unat carry \<noteq> 0" using law True by (cases "unat carry = 0") auto
  moreover have "\<not> 2 \<le> unat carry"
  proof
    assume "2 \<le> unat carry"
    then have "mont_R * 2 \<le> mont_R * unat carry" by (rule mult_le_mono2)
    with law lt_R [OF r] q_lt_R assms(4) show False by linarith
  qed
  ultimately have c: "unat carry = 1" by linarith
  then have "carry \<noteq> 0" by (auto simp: unat_eq_0)
  moreover have "lval r + q = v + q - w + mont_R" using law c assms(4) by simp
  with add_n_wrap [OF r length_q4] have "lval (fst (mpn_add_n G r (q4 P))) = v + q - w"
    "length (fst (mpn_add_n G r (q4 P))) = 4" by simp_all
  moreover have "v + q - w < q" using True assms(4) by linarith
  ultimately show ?thesis by (simp add: reduced_def)
next
  case False
  have "unat carry = 0"
  proof (rule ccontr)
    assume "unat carry \<noteq> 0"
    then have "mont_R * 1 \<le> mont_R * unat carry" by (intro mult_le_mono2) simp
    with law lt_R [OF r] False show False by linarith
  qed
  then have "carry = 0" by (simp add: unat_eq_0)
  moreover from this law False have "lval r = v - w" by simp
  moreover have "(v + q - w) mod q = v - w"
  proof -
    have eq: "v + q - w = (v - w) + q" using False by simp
    show ?thesis unfolding eq mod_add_self2 by (rule mod_less) (use assms(3) in linarith)
  qed
  ultimately show ?thesis using r assms(3) by (simp add: reduced_def)
qed

theorem rawSub_correct:
  assumes "reduced q a" and "reduced q b"
  shows "reduced q (rawSub P G a b) \<and> lval (rawSub P G a b) = (lval a + q - lval b) mod q"
proof -
  obtain r c where rc: "mpn_sub_n G a b = (r, c)" by fastforce
  from sub_n_law [OF _ rc] assms have "length r = 4" "lval r + lval b = lval a + mont_R * unat c"
    by (simp_all add: mont_R_def reduced_def)
  from sub_tail [OF this] assms show ?thesis by (simp add: rawSub_def rc reduced_def)
qed

theorem rawSubSL_correct:
  assumes "reduced q b"
  shows "reduced q (rawSubSL P G a b) \<and> lval (rawSubSL P G a b) = (unat a + q - lval b) mod q"
proof -
  obtain r c where rc: "mpn_sub_n G [a, 0, 0, 0] b = (r, c)" by fastforce
  from sub_n_law [OF _ rc] assms have "length r = 4" "lval r + lval b = unat a + mont_R * unat c"
    by (simp_all add: mont_R_def reduced_def)
  moreover have "unat a < q" using unat_lt_base [of a] q_low by simp
  ultimately show ?thesis using sub_tail [of r "lval b" "unat a" c] assms
    by (simp add: rawSubSL_def rc reduced_def)
qed

theorem rawSubLS_correct:
  assumes "reduced q a"
  shows "reduced q (rawSubLS P G a b) \<and> lval (rawSubLS P G a b) = (lval a + q - unat b) mod q"
proof -
  obtain r c where rc: "mpn_sub_1 G a b = (r, c)" by fastforce
  from assms have "a \<noteq> []" by (auto simp: reduced_def)
  from sub_1_law [OF this rc] assms have "length r = 4" "lval r + unat b = lval a + mont_R * unat c"
    by (simp_all add: mont_R_def reduced_def)
  moreover have "unat b \<le> q" using unat_lt_base [of b] q_low by simp
  ultimately show ?thesis using sub_tail [of r "unat b" "lval a" c] assms
    by (simp add: rawSubLS_def rc reduced_def)
qed

theorem rawNeg_correct:
  assumes "reduced q a"
  shows "reduced q (rawNeg P G a) \<and> lval (rawNeg P G a) = (q - lval a) mod q"
proof -
  have eq0: "mpn_cmp G a [0, 0, 0, 0] = 0 \<longleftrightarrow> lval a = 0"
    using cmp_pos_law [of a "[0, 0, 0, 0]"] cmp_neg_law [of a "[0, 0, 0, 0]"] assms
    by (auto simp: reduced_def)
  show ?thesis
  proof (cases "lval a = 0")
    case True
    then show ?thesis using eq0 copyi_law by (simp add: rawNeg_def reduced_def)
  next
    case False
    obtain r c where rc: "mpn_sub_n G (q4 P) a = (r, c)" by fastforce
    from sub_n_law [OF _ rc] assms have law: "length r = 4" "lval r + lval a = q + mont_R * unat c"
      by (simp_all add: mont_R_def reduced_def)
    have "c = 0"
    proof (rule ccontr)
      assume "c \<noteq> 0"
      then have "mont_R * 1 \<le> mont_R * unat c" by (intro mult_le_mono2) (simp add: unat_eq_0 Suc_leI unat_gt_0)
      with law lt_R [OF law(1)] assms show False by (simp add: reduced_def)
    qed
    with law assms have "lval r = q - lval a" by (simp add: reduced_def)
    with False eq0 rc law show ?thesis by (simp add: rawNeg_def reduced_def)
  qed
qed

text \<open>
  \<open>rawNegLS\<close> with distinct arrays: \<open>-b - a\<close>, as its comment says. For \<open>b = 0\<close> and \<open>a = 0\<close> it would
  return the unreduced \<open>q\<close>; its callers pass the absolute value of a negative number.
\<close>

theorem rawNegLS_correct:
  assumes "reduced q a" and "b \<noteq> 0"
  shows "reduced q (rawNegLS P G (\<lambda>_. a) b)
    \<and> lval (rawNegLS P G (\<lambda>_. a) b) = (2 * q - unat b - lval a) mod q"
proof -
  obtain r c where rc: "mpn_sub_1 G (q4 P) b = (r, c)" by fastforce
  obtain r' c' where rc': "mpn_sub_n G r a = (r', c')" by fastforce
  have b: "0 < unat b" "unat b < q"
    using unat_lt_base [of b] q_low assms(2) by (simp_all add: unat_gt_0)
  have "q4 P \<noteq> []" using length_q4 by (metis length_0_conv zero_neq_numeral)
  from sub_1_law [OF this rc] have law: "length r = 4" "lval r + unat b = q + mont_R * unat c"
    by (simp_all add: mont_R_def)
  have "unat c = 0"
  proof (rule ccontr)
    assume "unat c \<noteq> 0"
    then have "mont_R * 1 \<le> mont_R * unat c" by (intro mult_le_mono2) simp
    with law lt_R [OF law(1)] b show False by linarith
  qed
  then have c: "c = 0" by (simp add: unat_eq_0)
  with law b have r: "lval r = q - unat b" by simp
  from sub_n_law [OF _ rc'] assms law(1)
  have "length r' = 4" "lval r' + lval a = (q - unat b) + mont_R * unat c'"
    by (simp_all add: mont_R_def reduced_def r)
  from sub_tail [OF this] assms b have "reduced q (rawNegLS P G (\<lambda>_. a) b)
    \<and> lval (rawNegLS P G (\<lambda>_. a) b) = (q - unat b + q - lval a) mod q"
    by (simp add: rawNegLS_def rc rc' c reduced_def)
  moreover have "q - unat b + q - lval a = 2 * q - unat b - lval a" using b by simp
  ultimately show ?thesis by simp
qed

text \<open>
  \<open>rawNegLS\<close> with the result array as its argument subtracts the intermediate value from itself:
  whatever the argument held, the result is 0.
\<close>

theorem rawNegLS_aliased: "length (rawNegLS P G (\<lambda>r. r) b) = 4 \<and> lval (rawNegLS P G (\<lambda>r. r) b) = 0"
proof -
  obtain r c where rc: "mpn_sub_1 G (q4 P) b = (r, c)" by fastforce
  obtain r' c' where rc': "mpn_sub_n G r r = (r', c')" by fastforce
  have b: "unat b < q" using unat_lt_base [of b] q_low by simp
  have "q4 P \<noteq> []" using length_q4 by (metis length_0_conv zero_neq_numeral)
  from sub_1_law [OF this rc] have law: "length r = 4" "lval r + unat b = q + mont_R * unat c"
    by (simp_all add: mont_R_def)
  have "unat c = 0"
  proof (rule ccontr)
    assume "unat c \<noteq> 0"
    then have "mont_R * 1 \<le> mont_R * unat c" by (intro mult_le_mono2) simp
    with law lt_R [OF law(1)] b show False by linarith
  qed
  moreover from sub_n_law [OF _ rc'] law(1)
  have "length r' = 4" "lval r' = mont_R * unat c'" by (simp_all add: mont_R_def)
  moreover from this lt_R [of r'] have "unat c' = 0" by (cases "unat c'") auto
  ultimately show ?thesis by (simp add: rawNegLS_def rc rc' unat_eq_0)
qed

subsection \<open>Copies and comparisons\<close>

lemma rawCopy_id: "length a = 4 \<Longrightarrow> rawCopy a = a"
  by (erule length4E) (simp add: rawCopy_def)

lemma rawSwap_swaps: "length a = 4 \<Longrightarrow> length r = 4 \<Longrightarrow> rawSwap r a = (a, r)"
  by (elim length4E) (simp add: rawSwap_def)

lemma rawIsEq_correct: "length a = 4 \<Longrightarrow> length b = 4 \<Longrightarrow> rawIsEq G a b \<longleftrightarrow> a = b"
  using cmp_pos_law [of a b] cmp_neg_law [of a b] lval_inj [of a b] by (auto simp: rawIsEq_def)

lemma rawIsZero_correct: "rawIsZero G a \<longleftrightarrow> lval a = 0"
  by (simp add: rawIsZero_def zero_p_law)

lemma rawCmp_less: "length a = 4 \<Longrightarrow> length b = 4 \<Longrightarrow> rawCmp G a b < 0 \<longleftrightarrow> lval a < lval b"
  by (simp add: rawCmp_def cmp_neg_law)

lemma rawCmp_greater: "length a = 4 \<Longrightarrow> length b = 4 \<Longrightarrow> 0 < rawCmp G a b \<longleftrightarrow> lval b < lval a"
  by (simp add: rawCmp_def cmp_pos_law)

lemma rawCmp_eq: "length a = 4 \<Longrightarrow> length b = 4 \<Longrightarrow> rawCmp G a b = 0 \<longleftrightarrow> a = b"
  using rawIsEq_correct by (simp add: rawCmp_def rawIsEq_def)

subsection \<open>Montgomery multiplication\<close>

text \<open>
  The invariant of a product is \<open>T < q * (B + 1)\<close> for \<open>B = 2^64\<close>. Adding a multiple of \<open>q\<close> below
  \<open>B * q\<close> then never carries out of the five limbs.
\<close>

lemma redc_correct:
  assumes "length T = 5" and "lval T < q * (limb_base + 1)"
  shows "\<exists>T' m. mont_redc P G T = (T', 0) \<and> length T' = 5 \<and> m < limb_base
    \<and> lval T + m * q = limb_base * lval (drop 1 T')"
proof -
  let ?np0 = "rawNp P * (T ! 0)"
  obtain T' c where rc: "mpn_addmul_1 G T (rawq P) ?np0 = (T', c)" by fastforce
  from addmul_1_law [OF _ rc] assms(1)
  have law: "length T' = 5" "lval T' + limb_base ^ 5 * unat c = lval T + q * unat ?np0" by simp_all
  have "q * unat ?np0 \<le> q * limb_base" using unat_le_base [of ?np0] by (intro mult_le_mono2) simp
  moreover have "q * (limb_base + 1) + q * limb_base < limb_base ^ 5" using q_high by simp
  ultimately have "lval T + q * unat ?np0 < limb_base ^ 5" using assms(2) by linarith
  from carry_zero [OF law(2) this] have c: "c = 0" and T': "lval T' = lval T + q * unat ?np0" .
  have "word_of_nat (lval T + q * unat ?np0) = (0 :: u64)"
  proof -
    have w: "word_of_nat (lval xs) = (xs ! 0 :: u64)" if "xs \<noteq> []" for xs
      using that by (cases xs) (simp_all add: limb_base_word_zero)
    have "rawq P \<noteq> []" using length_rawq by (metis list.size(3) zero_neq_numeral)
    moreover have "T \<noteq> []" using assms(1) by auto
    ultimately have ne: "rawq P \<noteq> []" "T \<noteq> []" .
    from w [OF ne(1)] w [OF ne(2)]
    have "word_of_nat (lval T + q * unat ?np0) = (T ! 0) + (rawq P ! 0) * ?np0" by simp
    also have "\<dots> = (T ! 0) * (1 + rawNp P * (rawq P ! 0))" by (simp add: algebra_simps)
    also have "\<dots> = 0" by (simp add: np_law)
    finally show ?thesis .
  qed
  then have "limb_base dvd lval T'"
    using T' unat_of_nat_base [of "lval T + q * unat ?np0"] by (simp add: mod_eq_0_iff_dvd)
  then have "lval T' = limb_base * lval (drop 1 T')" using lval_tl [of T'] by simp
  with c T' law(1) rc show ?thesis
    by (intro exI [of _ T'] exI [of _ "unat ?np0"]) (simp add: mont_redc_def Let_def mult.commute unat_lt_base)
qed

lemma round_correct:
  assumes "length T = 5" and "lval T < q * (limb_base + 1)" and "length b = 4" and "lval b < q"
  shows "length (mont_round P G b ai T) = 5
    \<and> lval (mont_round P G b ai T) < q * (limb_base + 1)
    \<and> (\<exists>m. limb_base * lval (mont_round P G b ai T) = lval T + m * q + limb_base * (lval b * unat ai))"
proof -
  from redc_correct [OF assms(1,2)] obtain T' m where
    redc: "mont_redc P G T = (T', 0)" and T': "length T' = 5" and m: "m < limb_base"
    and eq: "lval T + m * q = limb_base * lval (drop 1 T')" by blast
  obtain low c where rc: "mpn_addmul_1 G [0, 0, 0, 0] b ai = (low, c)" by fastforce
  from addmul_1_law [OF _ rc] assms(3)
  have low: "length low = 4" "lval low + limb_base ^ 4 * unat c = lval b * unat ai" by simp_all
  then have prod: "lval (low @ [c]) = lval b * unat ai" by (simp add: lval_append)
  obtain r d where rd: "mpn_add G (low @ [c]) (drop 1 T') = (r, d)" by fastforce
  from add_law [OF _ rd] low(1) T' prod
  have r: "length r = 5" "lval r + limb_base ^ 5 * unat d = lval b * unat ai + lval (drop 1 T')"
    by simp_all
  have ai: "unat ai \<le> limb_base - 1" by (rule unat_le_base)
  have up: "lval b * unat ai \<le> (q - 1) * (limb_base - 1)" using assms(4) ai by (intro mult_le_mono) auto
  have "limb_base * lval (drop 1 T') < limb_base * (2 * q)"
  proof -
    have "m * q \<le> (limb_base - 1) * q" using m by (intro mult_le_mono1) simp
    with eq assms(2) have "limb_base * lval (drop 1 T') < q * (limb_base + 1) + (limb_base - 1) * q"
      by linarith
    then show ?thesis by simp
  qed
  then have sh: "lval (drop 1 T') < 2 * q" by simp
  have bound: "lval b * unat ai + lval (drop 1 T') < q * (limb_base + 1)"
  proof -
    have "(q - 1) * (limb_base - 1) + limb_base = q * (limb_base - 1) + 1"
      using q_pos by (cases q) (simp_all add: algebra_simps)
    with up sh show ?thesis by (simp add: algebra_simps)
  qed
  moreover have "q * (limb_base + 1) < limb_base ^ 5" using q_high by simp
  ultimately have "lval b * unat ai + lval (drop 1 T') < limb_base ^ 5" by linarith
  from carry_zero(2) [OF r(2) this] have val: "lval r = lval b * unat ai + lval (drop 1 T')" .
  have rnd: "mont_round P G b ai T = r" using redc rc rd by (simp add: mont_round_def)
  have "limb_base * lval r = lval T + m * q + limb_base * (lval b * unat ai)"
    unfolding eq by (simp add: val algebra_simps)
  then show ?thesis using rnd r(1) val bound by auto
qed

lemma shift_correct:
  assumes "length T = 5" and "lval T < q * (limb_base + 1)"
  shows "length (mont_shift P G T) = 5
    \<and> lval (mont_shift P G T) < q * (limb_base + 1)
    \<and> (\<exists>m. limb_base * lval (mont_shift P G T) = lval T + m * q)"
proof -
  from redc_correct [OF assms] obtain T' m where
    redc: "mont_redc P G T = (T', 0)" and T': "length T' = 5" and m: "m < limb_base"
    and eq: "lval T + m * q = limb_base * lval (drop 1 T')" by blast
  obtain r d where rd: "mpn_add G [0, 0, 0, 0, 0] (drop 1 T') = (r, d)" by fastforce
  from add_law [OF _ rd] T' have r: "length r = 5" "lval r + limb_base ^ 5 * unat d = lval (drop 1 T')"
    by simp_all
  have "limb_base * lval (drop 1 T') < limb_base * (2 * q)"
  proof -
    have "m * q \<le> (limb_base - 1) * q" using m by (intro mult_le_mono1) simp
    with eq assms(2) have "limb_base * lval (drop 1 T') < q * (limb_base + 1) + (limb_base - 1) * q"
      by linarith
    then show ?thesis by simp
  qed
  then have bound: "lval (drop 1 T') < q * (limb_base + 1)" by simp
  moreover have "q * (limb_base + 1) < limb_base ^ 5" using q_high by simp
  ultimately have "lval (drop 1 T') < limb_base ^ 5" by linarith
  from carry_zero(2) [OF r(2) this] have val: "lval r = lval (drop 1 T')" .
  have shift: "mont_shift P G T = r" using redc rd by (simp add: mont_shift_def)
  have "limb_base * lval r = lval T + m * q" unfolding val eq ..
  then show ?thesis unfolding shift using r(1) val bound by (auto simp only:)
qed

lemma finish_correct:
  assumes "length T = 5" and "lval T < q * (limb_base + 1)"
  shows "reduced q (mont_finish P G T)
    \<and> (\<exists>m. int limb_base * int (lval (mont_finish P G T)) = int (lval T) + m * int q)"
proof -
  from redc_correct [OF assms] obtain T' m where
    redc: "mont_redc P G T = (T', 0)" and T': "length T' = 5" and m: "m < limb_base"
    and eq: "lval T + m * q = limb_base * lval (drop 1 T')" by blast
  have "limb_base * lval (drop 1 T') < limb_base * (2 * q)"
  proof -
    have "m * q \<le> (limb_base - 1) * q" using m by (intro mult_le_mono1) simp
    with eq assms(2) have "limb_base * lval (drop 1 T') < q * (limb_base + 1) + (limb_base - 1) * q"
      by linarith
    then show ?thesis by simp
  qed
  then have lt: "lval (drop 1 T') < 2 * q" by simp
  have tk: "take 4 (drop 1 T') = drop 1 T'" using T' by simp
  let ?r = "mont_finish P G T"
  have fin: "?r = reduce_q P G (drop 1 T')"
    using redc copyi_law tk by (simp add: mont_finish_def)
  from reduce_q_correct [OF _ lt] T' fin
  have red: "reduced q ?r" and val: "lval ?r = lval (drop 1 T') mod q" by simp_all
  have "int (lval ?r) = int (lval (drop 1 T')) - int (lval (drop 1 T') div q) * int q"
    using val by (simp add: zmod_int zdiv_int minus_div_mult_eq_mod)
  then have "int limb_base * int (lval ?r)
      = int (limb_base * lval (drop 1 T')) - int limb_base * (int (lval (drop 1 T') div q) * int q)"
    by (simp add: right_diff_distrib)
  also have "\<dots> = int (lval T) + (int m - int limb_base * int (lval (drop 1 T') div q)) * int q"
    unfolding eq [symmetric] by (simp add: algebra_simps)
  finally show ?thesis using red by blast
qed

text \<open>
  The product \<open>a * b / R\<close> modulo \<open>q\<close>, for any four-limb \<open>a\<close> and a reduced \<open>b\<close>.
\<close>

theorem rawMMul_correct:
  assumes "length a = 4" and "reduced q b"
  shows "reduced q (rawMMul P G a b)
    \<and> (mont_R * lval (rawMMul P G a b)) mod q = (lval a * lval b) mod q"
proof -
  have b: "length b = 4" "lval b < q" using assms(2) by (simp_all add: reduced_def)
  obtain low c where rc: "mpn_mul_1 G b (a ! 0) = (low, c)" by fastforce
  let ?T0 = "low @ [c]"
  from mul_1_law [OF rc] b have T0: "length ?T0 = 5" "lval ?T0 = lval b * unat (a ! 0)"
    by (simp_all add: lval_append)
  have "lval b * unat (a ! 0) < q * (limb_base + 1)"
    using b unat_lt_base [of "a ! 0"] by (intro mult_strict_mono) auto
  with T0 have T0b: "lval ?T0 < q * (limb_base + 1)" by simp
  let ?T1 = "mont_round P G b (a ! 1) ?T0"
  from round_correct [OF T0(1) T0b b, of "a ! 1"] obtain m0 where
    T1: "length ?T1 = 5" "lval ?T1 < q * (limb_base + 1)"
      and e1: "limb_base * lval ?T1 = lval ?T0 + m0 * q + limb_base * (lval b * unat (a ! 1))" by blast
  let ?T2 = "mont_round P G b (a ! 2) ?T1"
  from round_correct [OF T1 b, of "a ! 2"] obtain m1 where
    T2: "length ?T2 = 5" "lval ?T2 < q * (limb_base + 1)"
      and e2: "limb_base * lval ?T2 = lval ?T1 + m1 * q + limb_base * (lval b * unat (a ! 2))" by blast
  let ?T3 = "mont_round P G b (a ! 3) ?T2"
  from round_correct [OF T2 b, of "a ! 3"] obtain m2 where
    T3: "length ?T3 = 5" "lval ?T3 < q * (limb_base + 1)"
      and e3: "limb_base * lval ?T3 = lval ?T2 + m2 * q + limb_base * (lval b * unat (a ! 3))" by blast
  let ?r = "mont_finish P G ?T3"
  from finish_correct [OF T3] obtain m3 where red: "reduced q ?r"
    and e4: "int limb_base * int (lval ?r) = int (lval ?T3) + m3 * int q" by blast
  have res: "rawMMul P G a b = ?r" by (simp add: rawMMul_def rc Let_def)
  have lift: "int (limb_base * x) = int limb_base * int x" for x by (rule of_nat_mult)
  from e1 e2 e3 have i:
    "int limb_base * int (lval ?T1) = int (lval ?T0) + int m0 * int q + int limb_base * int (lval b * unat (a ! 1))"
    "int limb_base * int (lval ?T2) = int (lval ?T1) + int m1 * int q + int limb_base * int (lval b * unat (a ! 2))"
    "int limb_base * int (lval ?T3) = int (lval ?T2) + int m2 * int q + int limb_base * int (lval b * unat (a ! 3))"
    unfolding of_nat_mult [symmetric] of_nat_add [symmetric] by (simp_all only:)
  from mont_compose [OF e4 i(3,2,1)] obtain m where
    m: "int limb_base ^ 4 * int (lval ?r) = int (lval ?T0) + int limb_base * int (lval b * unat (a ! 1))
      + (int limb_base)\<^sup>2 * int (lval b * unat (a ! 2)) + int limb_base ^ 3 * int (lval b * unat (a ! 3)) + m * int q"
    by blast
  from assms(1) have "lval a = unat (a ! 0) + limb_base * unat (a ! 1)
      + limb_base\<^sup>2 * unat (a ! 2) + limb_base ^ 3 * unat (a ! 3)"
    by (elim length4E) simp
  with m T0(2) have "int limb_base ^ 4 * int (lval ?r) = int (lval a * lval b) + m * int q"
    by (simp add: algebra_simps)
  then have "int (mont_R * lval ?r) mod int q = int (lval a * lval b) mod int q"
    by (simp add: mont_R_def)
  then have "(mont_R * lval ?r) mod q = (lval a * lval b) mod q"
    by (simp only: zmod_int [symmetric] of_nat_eq_iff)
  with red show ?thesis unfolding res by simp
qed

theorem rawMSquare_correct:
  assumes "reduced q a"
  shows "reduced q (rawMSquare P G a)
    \<and> (mont_R * lval (rawMSquare P G a)) mod q = (lval a * lval a) mod q"
  using rawMMul_correct [of a a] assms by (simp add: rawMSquare_def reduced_def)

lemma shifts_correct:
  assumes "length T = 5" and "lval T < q * (limb_base + 1)"
  defines "r \<equiv> mont_finish P G (mont_shift P G (mont_shift P G (mont_shift P G T)))"
  shows "reduced q r \<and> (mont_R * lval r) mod q = lval T mod q"
proof -
  let ?T1 = "mont_shift P G T" and ?T2 = "mont_shift P G (mont_shift P G T)"
    and ?T3 = "mont_shift P G (mont_shift P G (mont_shift P G T))"
  from shift_correct [OF assms(1,2)] obtain m0 where
    T1: "length ?T1 = 5" "lval ?T1 < q * (limb_base + 1)"
      and e1: "limb_base * lval ?T1 = lval T + m0 * q" by blast
  from shift_correct [OF T1] obtain m1 where
    T2: "length ?T2 = 5" "lval ?T2 < q * (limb_base + 1)"
      and e2: "limb_base * lval ?T2 = lval ?T1 + m1 * q" by blast
  from shift_correct [OF T2] obtain m2 where
    T3: "length ?T3 = 5" "lval ?T3 < q * (limb_base + 1)"
      and e3: "limb_base * lval ?T3 = lval ?T2 + m2 * q" by blast
  from finish_correct [OF T3] obtain m3 where red: "reduced q r"
    and e4: "int limb_base * int (lval r) = int (lval ?T3) + m3 * int q" unfolding r_def by blast
  from e1 e2 e3 have i:
    "int limb_base * int (lval ?T1) = int (lval T) + int m0 * int q + int limb_base * 0"
    "int limb_base * int (lval ?T2) = int (lval ?T1) + int m1 * int q + int limb_base * 0"
    "int limb_base * int (lval ?T3) = int (lval ?T2) + int m2 * int q + int limb_base * 0"
    unfolding of_nat_mult [symmetric] of_nat_add [symmetric] mult_zero_right add_0_right
    by (simp_all only:)
  from mont_compose [OF e4 i(3,2,1)] obtain m where
    "int limb_base ^ 4 * int (lval r) = int (lval T) + m * int q" by auto
  then have "int (mont_R * lval r) mod int q = int (lval T) mod int q"
    by (simp add: mont_R_def)
  then have "(mont_R * lval r) mod q = lval T mod q"
    by (simp only: zmod_int [symmetric] of_nat_eq_iff)
  with red show ?thesis by simp
qed

theorem rawMMul1_correct:
  assumes "reduced q a"
  shows "reduced q (rawMMul1 P G a b)
    \<and> (mont_R * lval (rawMMul1 P G a b)) mod q = (lval a * unat b) mod q"
proof -
  obtain low c where rc: "mpn_mul_1 G a b = (low, c)" by fastforce
  from mul_1_law [OF rc] assms have T0: "length (low @ [c]) = 5" "lval (low @ [c]) = lval a * unat b"
    by (simp_all add: lval_append reduced_def)
  have "lval a * unat b < q * (limb_base + 1)"
    using assms unat_lt_base [of b] by (intro mult_strict_mono) (auto simp: reduced_def)
  with T0 shifts_correct [OF T0(1)] show ?thesis by (simp add: rawMMul1_def rc Let_def)
qed

theorem rawToMontgomery_correct:
  assumes "length a = 4"
  shows "reduced q (rawToMontgomery P G a)
    \<and> lval (rawToMontgomery P G a) = (mont_R * lval a) mod q"
proof -
  let ?r = "rawToMontgomery P G a"
  have R2: "reduced q (rawR2 P)" by (simp add: reduced_def length_R2 lval_R2)
  from rawMMul_correct [OF assms R2] have red: "reduced q ?r"
    and eq: "(mont_R * lval ?r) mod q = (lval a * lval (rawR2 P)) mod q"
    by (simp_all add: rawToMontgomery_def)
  have "(lval a * lval (rawR2 P)) mod q = (mont_R * (mont_R * lval a)) mod q"
    unfolding lval_R2 by (simp add: mod_mult_right_eq power2_eq_square ac_simps)
  with eq have "(mont_R * lval ?r) mod q = (mont_R * (mont_R * lval a)) mod q" by simp
  from mont_cancel [OF this] red show ?thesis by (simp add: reduced_def)
qed

theorem rawFromMontgomery_correct:
  assumes "length a = 4"
  shows "reduced q (rawFromMontgomery P G a)
    \<and> (mont_R * lval (rawFromMontgomery P G a)) mod q = lval a mod q"
proof -
  have T0: "length (mpn_copyi G a @ [0]) = 5" "lval (mpn_copyi G a @ [0]) = lval a"
    using assms by (simp_all add: copyi_law lval_append)
  have "lval a < q * (limb_base + 1)"
    using lt_R [OF assms] q_low by (simp add: mont_R_def)
  with T0 shifts_correct [OF T0(1)] show ?thesis by (simp add: rawFromMontgomery_def Let_def)
qed

subsection \<open>The operations on decoded values\<close>

lemma mval_MMul:
  assumes "length a = 4" and "reduced q b"
  shows "mval q (rawMMul P G a b) = (mval q a * mval q b) mod q"
proof -
  have "(mont_R * (mont_R * (mval q a * mval q b))) mod q
      = ((mont_R * mval q a mod q) * (mont_R * mval q b mod q)) mod q"
    by (simp add: mod_mult_eq ac_simps)
  also have "\<dots> = (lval a * lval b) mod q" unfolding mval_back by (simp add: mod_mult_eq)
  also have "\<dots> = (mont_R * lval (rawMMul P G a b)) mod q" using rawMMul_correct [OF assms] by simp
  finally have "(mont_R * (mval q a * mval q b)) mod q = lval (rawMMul P G a b) mod q"
    by (rule mont_cancel)
  from mval_unique [OF this] show ?thesis by simp
qed

lemma mval_Add:
  assumes "reduced q a" and "reduced q b"
  shows "mval q (rawAdd P G a b) = (mval q a + mval q b) mod q"
proof -
  have "lval a + lval b < 2 * q" using assms by (simp add: reduced_def)
  with rawAdd_correct [of a b] assms have "lval (rawAdd P G a b) = (lval a + lval b) mod q"
    by (simp add: reduced_def)
  then show ?thesis by (simp add: mval_def mod_mult_left_eq mod_add_eq add_mult_distrib)
qed

lemma mval_Sub:
  assumes "reduced q a" and "reduced q b"
  shows "(mval q (rawSub P G a b) + mval q b) mod q = mval q a"
proof -
  have "lval (rawSub P G a b) = (lval a + q - lval b) mod q" using rawSub_correct [OF assms] by simp
  then have "(mval q (rawSub P G a b) + mval q b) mod q
      = ((lval a + q - lval b) * mont_Rinv q + lval b * mont_Rinv q) mod q"
    by (simp add: mval_def mod_mult_left_eq mod_add_eq)
  also have "(lval a + q - lval b) * mont_Rinv q + lval b * mont_Rinv q = (lval a + q) * mont_Rinv q"
    using assms by (simp add: reduced_def flip: add_mult_distrib)
  finally show ?thesis by (simp add: mval_def add_mult_distrib)
qed

lemma mval_Neg:
  assumes "reduced q a"
  shows "(mval q (rawNeg P G a) + mval q a) mod q = 0"
proof -
  have "lval (rawNeg P G a) = (q - lval a) mod q" using rawNeg_correct [OF assms] by simp
  then have "(mval q (rawNeg P G a) + mval q a) mod q
      = ((q - lval a) * mont_Rinv q + lval a * mont_Rinv q) mod q"
    by (simp add: mval_def mod_mult_left_eq mod_add_eq)
  also have "(q - lval a) * mont_Rinv q + lval a * mont_Rinv q = q * mont_Rinv q"
    using assms by (simp add: reduced_def flip: add_mult_distrib)
  finally show ?thesis by simp
qed

lemma lval_FromMontgomery:
  assumes "length a = 4"
  shows "lval (rawFromMontgomery P G a) = mval q a"
  using rawFromMontgomery_correct [OF assms] mval_unique [of "lval (rawFromMontgomery P G a)" a]
  by (simp add: reduced_def)

lemma mval_ToMontgomery:
  assumes "length a = 4"
  shows "mval q (rawToMontgomery P G a) = lval a mod q"
  using rawToMontgomery_correct [OF assms] mval_unique [of "lval a" "rawToMontgomery P G a"] by simp

lemma to_from_Montgomery:
  assumes "reduced q a"
  shows "rawToMontgomery P G (rawFromMontgomery P G a) = a"
    and "rawFromMontgomery P G (rawToMontgomery P G a) = a"
proof -
  from assms have len: "length a = 4" by (simp add: reduced_def)
  let ?f = "rawFromMontgomery P G a" and ?t = "rawToMontgomery P G a"
  have f: "reduced q ?f" using rawFromMontgomery_correct [OF len] by simp
  have t: "reduced q ?t" using rawToMontgomery_correct [OF len] by simp
  have "lval (rawToMontgomery P G ?f) = lval a" "reduced q (rawToMontgomery P G ?f)"
    using rawToMontgomery_correct [of ?f] rawFromMontgomery_correct [OF len] assms
    by (simp_all add: reduced_def)
  with assms show "rawToMontgomery P G ?f = a" using reduced_eq_iff by blast
  have "lval (rawFromMontgomery P G ?t) = lval a" "reduced q (rawFromMontgomery P G ?t)"
    using lval_FromMontgomery [of ?t] mval_ToMontgomery [OF len] rawFromMontgomery_correct [of ?t] t assms
    by (simp_all add: reduced_def)
  with assms show "rawFromMontgomery P G ?t = a" using reduced_eq_iff by blast
qed

end

end
