(* ===== verification/Raw_Bits.thy ===== *)
theory Raw_Bits
  imports Raw_Field_Laws
begin

section \<open>Bitwise operations, shifts and short values on raw elements\<close>

text \<open>
  The value of a limb array under \<open>AND\<close>, \<open>OR\<close>, \<open>XOR\<close> and complement, and with it the functional
  behaviour of \<open>rawAnd\<close>, \<open>rawOr\<close>, \<open>rawXor\<close>, \<open>rawNot\<close>, \<open>rawShl\<close>, \<open>rawShr\<close> and \<open>rawCopyS2L\<close> on the
  values of their operands: the bitwise result, masked to 254 bits, reduced modulo \<open>q\<close>.
\<close>

subsection \<open>Bits of a limb array\<close>

lemma cons_bits:
  fixes x y :: u64 and u v :: nat
  shows "(unat x + limb_base * u) AND (unat y + limb_base * v) = unat (x AND y) + limb_base * (u AND v)"
    and "(unat x + limb_base * u) OR (unat y + limb_base * v) = unat (x OR y) + limb_base * (u OR v)"
    and "(unat x + limb_base * u) XOR (unat y + limb_base * v) = unat (x XOR y) + limb_base * (u XOR v)"
proof -
  have B: "limb_base = 2 ^ 64" by simp
  have tb: "take_bit 64 (unat z + limb_base * w) = unat z" and db: "drop_bit 64 (unat z + limb_base * w) = w"
    for z :: u64 and w
    using unat_lt_base [of z] by (simp_all add: take_bit_eq_mod drop_bit_eq_div)
  have split: "n = take_bit 64 n + limb_base * drop_bit 64 n" for n :: nat
    by (simp add: take_bit_eq_mod drop_bit_eq_div)
  let ?a = "unat x + limb_base * u" and ?b = "unat y + limb_base * v"
  show "?a AND ?b = unat (x AND y) + limb_base * (u AND v)"
    using split [of "?a AND ?b"] unfolding take_bit_and drop_bit_and tb db by (simp add: unsigned_and_eq)
  show "?a OR ?b = unat (x OR y) + limb_base * (u OR v)"
    using split [of "?a OR ?b"] unfolding take_bit_or drop_bit_or tb db by (simp add: unsigned_or_eq)
  show "?a XOR ?b = unat (x XOR y) + limb_base * (u XOR v)"
    using split [of "?a XOR ?b"] unfolding take_bit_xor drop_bit_xor tb db by (simp add: unsigned_xor_eq)
qed

lemma lval_bits [limb_simps]:
  assumes "length a = length b"
  shows "lval (map2 (AND) a b) = lval a AND lval b"
    and "lval (map2 (OR) a b) = lval a OR lval b"
    and "lval (map2 (XOR) a b) = lval a XOR lval b"
  using assms by (induction a b rule: list_induct2) (simp_all add: cons_bits)

lemma lval_com: "lval (map NOT a) = limb_base ^ length a - 1 - lval a"
proof (induction a)
  case (Cons x xs)
  have n: "unat (NOT x) + unat x = limb_base - 1"
  proof -
    have "NOT x = -1 - x" by (simp add: not_eq_complement)
    moreover have "unat (-1 - x) = unat (-1 :: u64) - unat x" by (rule unat_sub) simp
    moreover have "unat (-1 :: u64) = limb_base - 1" by (simp add: unsigned_minus_1_eq_mask mask_eq_exp_minus_1)
    ultimately show ?thesis using unat_le_base [of x] by (metis le_add_diff_inverse2)
  qed
  have "w + limb_base * (P - 1 - v) = limb_base * P - 1 - (u + limb_base * v)"
    if "w + u = limb_base - 1" and "v < P" for w u v P
  proof -
    have "limb_base * (P - 1 - v) = limb_base * P - limb_base - limb_base * v"
      by (simp add: diff_mult_distrib2)
    moreover have "limb_base * (v + 1) \<le> limb_base * P" using that by (intro mult_le_mono2) simp
    ultimately show ?thesis using that(1) by simp
  qed
  from this [OF n lval_lt] Cons.IH show ?case by simp
qed simp


lemma lval_lshift_1: "lval (replicate n 0 @ a) = limb_base ^ n * lval a"
  by (simp add: lval_append)

lemma lval_take: "lval (take n a) = lval a mod limb_base ^ n"
proof (cases "n \<le> length a")
  case True
  have "lval (take n a) < limb_base ^ n" using lval_lt [of "take n a"] True by (simp add: min_absorb2)
  moreover have "lval a = lval (take n a) + limb_base ^ n * lval (drop n a)"
    using lval_split [of a n] True by (simp add: min_absorb2)
  ultimately show ?thesis by simp
next
  case False
  have "limb_base ^ length a \<le> limb_base ^ n" using False by (intro power_increasing) auto
  with lval_lt [of a] have "lval a < limb_base ^ n" by (rule less_le_trans)
  with False show ?thesis by simp
qed

lemma lval_drop: "lval (drop n a) = lval a div limb_base ^ n"
proof (cases "n \<le> length a")
  case True
  have "lval (take n a) < limb_base ^ n" using lval_lt [of "take n a"] True by (simp add: min_absorb2)
  moreover have "lval a = lval (take n a) + limb_base ^ n * lval (drop n a)"
    using lval_split [of a n] True by (simp add: min_absorb2)
  ultimately show ?thesis by simp
next
  case False
  have "limb_base ^ length a \<le> limb_base ^ n" using False by (intro power_increasing) auto
  with lval_lt [of a] have "lval a < limb_base ^ n" by (rule less_le_trans)
  with False show ?thesis by simp
qed


subsection \<open>The operations\<close>

lemma nat_and_le: "x AND y \<le> x" for x y :: nat
  by (metis AND_upper1 of_nat_0_le_iff of_nat_and_eq of_nat_le_iff)

lemma uint_sint:
  fixes v :: s64
  shows "uint v = (if sint v < 0 then sint v + 2 ^ 64 else sint v)"
proof -
  have "uint v = sint v mod 2 ^ 64"
    using uint_word_of_int [of "sint v", where 'a = 64] by simp
  moreover have "- (2 ^ 63) \<le> sint v" "sint v < 2 ^ 63"
    using sint_greater_eq [of v] sint_less [of v] by simp_all
  moreover have "sint v mod 2 ^ 64 = sint v + 2 ^ 64" if "sint v < 0"
  proof -
    have "sint v mod 2 ^ 64 = (sint v + 2 ^ 64) mod 2 ^ 64" by simp
    also have "\<dots> = sint v + 2 ^ 64" using that sint_greater_eq [of v] by (intro mod_pos_pos_trivial) simp_all
    finally show ?thesis .
  qed
  ultimately show ?thesis by auto
qed

lemma mod_add_dvd: "s + M * c = x \<Longrightarrow> m dvd M \<Longrightarrow> s mod m = x mod m"
  for s M c x m :: nat
  by (auto elim!: dvdE simp: mult.assoc)

lemma mod_mult_dvd: "m dvd M \<Longrightarrow> (x mod M) * y mod m = x * y mod m"
  for x y M m :: nat
  by (metis mod_mod_cancel mod_mult_left_eq)

lemma or_xor_lt:
  fixes x y :: nat
  assumes "x < 2 ^ n" and "y < 2 ^ n"
  shows "x OR y < 2 ^ n" and "x XOR y < 2 ^ n"
  using assms by (simp_all flip: take_bit_nat_eq_self_iff)

context raw_field begin

lemma mask_top_correct:
  assumes "length r = 4"
  shows "length (mask_top P r) = 4" and "lval (mask_top P r) = lval r mod 2 ^ 254"
proof -
  from assms obtain a b c d where r: "r = [a, b, c, d]" by (rule length4E)
  have d: "unat (d AND lboMask P) = unat d mod 2 ^ 62"
  proof -
    have "d AND lboMask P = take_bit 62 d"
      unfolding lbo_mask by (simp add: take_bit_eq_mask mask_eq_exp_minus_1)
    then show ?thesis by (simp only: unsigned_take_bit_eq) (simp only: take_bit_eq_mod)
  qed
  let ?l = "unat a + limb_base * (unat b + limb_base * unat c)"
  have l: "?l < limb_base ^ 3" using lval_lt [of "[a, b, c]"] by simp
  have "(l + Q * e) mod (Q * M) = l + Q * (e mod M)" if "l < Q" for l e Q M :: nat
    using that by (simp add: mod_mult2_eq)
  from this [OF l, of "unat d" "2 ^ 62"]
  have "(?l + limb_base ^ 3 * unat d) mod 2 ^ 254 = ?l + limb_base ^ 3 * (unat d mod 2 ^ 62)" by simp
  moreover have "lval (mask_top P r) = ?l + limb_base ^ 3 * (unat d mod 2 ^ 62)"
    unfolding r mask_top_def by (simp add: d algebra_simps)
  moreover have "lval r = ?l + limb_base ^ 3 * unat d" unfolding r by (simp add: algebra_simps)
  ultimately show "lval (mask_top P r) = lval r mod 2 ^ 254" by simp
  show "length (mask_top P r) = 4" using assms by (simp add: mask_top_def)
qed

lemma mask_reduce:
  assumes "length r = 4"
  shows "reduced q (reduce_q P G (mask_top P r))
    \<and> lval (reduce_q P G (mask_top P r)) = (lval r mod 2 ^ 254) mod q"
proof -
  have "lval r mod 2 ^ 254 < 2 ^ 254" by simp
  also have "2 ^ 254 \<le> 2 * q" using q_low by simp
  finally have "lval (mask_top P r) < 2 * q" using mask_top_correct [OF assms] by simp
  from reduce_q_correct [OF mask_top_correct(1) [OF assms] this] mask_top_correct [OF assms]
  show ?thesis by simp
qed

lemma reduced_lt_254: "reduced q a \<Longrightarrow> lval a < 2 ^ 254"
  using q_high by (auto simp: reduced_def)

theorem rawAnd_correct:
  assumes "reduced q a" and "reduced q b"
  shows "reduced q (rawAnd P G a b) \<and> lval (rawAnd P G a b) = lval a AND lval b"
proof -
  have len: "length a = length b" "length (map2 (AND) a b) = 4" using assms by (simp_all add: reduced_def)
  have "lval a AND lval b \<le> lval a" by (rule nat_and_le)
  with assms have lt: "lval a AND lval b < q" by (simp add: reduced_def)
  with q_high have "(lval a AND lval b) mod 2 ^ 254 = lval a AND lval b" by simp
  with lt mask_reduce [OF len(2)] show ?thesis
    unfolding rawAnd_def and_n_law [OF len(1)] by (simp add: lval_bits len)
qed

theorem rawOr_correct:
  assumes "reduced q a" and "reduced q b"
  shows "reduced q (rawOr P G a b) \<and> lval (rawOr P G a b) = (lval a OR lval b) mod q"
proof -
  have len: "length a = length b" "length (map2 (OR) a b) = 4" using assms by (simp_all add: reduced_def)
  have "(lval a OR lval b) mod 2 ^ 254 = lval a OR lval b"
    using or_xor_lt(1) [OF reduced_lt_254 reduced_lt_254] assms by (intro mod_less)
  with mask_reduce [OF len(2)] show ?thesis
    unfolding rawOr_def ior_n_law [OF len(1)] by (simp add: lval_bits len)
qed

theorem rawXor_correct:
  assumes "reduced q a" and "reduced q b"
  shows "reduced q (rawXor P G a b) \<and> lval (rawXor P G a b) = (lval a XOR lval b) mod q"
proof -
  have len: "length a = length b" "length (map2 (XOR) a b) = 4" using assms by (simp_all add: reduced_def)
  have "(lval a XOR lval b) mod 2 ^ 254 = lval a XOR lval b"
    using or_xor_lt(2) [OF reduced_lt_254 reduced_lt_254] assms by (intro mod_less)
  with mask_reduce [OF len(2)] show ?thesis
    unfolding rawXor_def xor_n_law [OF len(1)] by (simp add: lval_bits len)
qed

theorem rawNot_correct:
  assumes "reduced q a"
  shows "reduced q (rawNot P G a) \<and> lval (rawNot P G a) = (2 ^ 254 - 1 - lval a) mod q"
proof -
  have len: "length (map NOT a) = 4" "length a = 4" using assms by (simp_all add: reduced_def)
  have "(limb_base ^ 4 - 1 - lval a) mod 2 ^ 254 = 2 ^ 254 - 1 - lval a"
  proof -
    have "limb_base ^ 4 - 1 - lval a = (2 ^ 254 - 1 - lval a) + 3 * 2 ^ 254"
      using reduced_lt_254 [OF assms] by simp
    also have "\<dots> mod 2 ^ 254 = (2 ^ 254 - 1 - lval a) mod 2 ^ 254" by (rule mod_mult_self1)
    finally show ?thesis by simp
  qed
  with mask_reduce [OF len(1)] show ?thesis
    unfolding rawNot_def com_law by (simp add: lval_com len)
qed

theorem rawShl_correct:
  assumes "length a = 4" and "b < 254"
  shows "reduced q (rawShl P G a b)
    \<and> lval (rawShl P G a b) = (lval a * 2 ^ b mod 2 ^ 254) mod q"
proof -
  define ws bs where "ws = b div 64" and "bs = b mod 64"
  have ws: "ws \<le> 4" and bs: "bs \<le> 63" and b: "b = 64 * ws + bs"
    using assms(2) by (simp_all add: ws_def bs_def)
  let ?r = "replicate ws 0 @ take (4 - ws) a"
  let ?s = "if bs \<noteq> 0 then fst (mpn_lshift G ?r bs) else ?r"
  have len: "length ?r = 4" "?r \<noteq> []" using assms(1) ws by auto
  have pow: "limb_base ^ 4 = limb_base ^ ws * limb_base ^ (4 - ws)"
    using ws by (simp flip: power_add)
  have val: "lval ?r = (limb_base ^ ws * lval a) mod limb_base ^ 4"
    unfolding pow mult_mod_right [symmetric] by (simp add: lval_append lval_take)
  have dvd: "2 ^ 254 dvd (limb_base ^ 4 :: nat)" by (rule dvdI [of _ _ 4]) simp
  have "length ?s = 4 \<and> lval ?s mod 2 ^ 254 = (lval a * 2 ^ b) mod 2 ^ 254"
  proof -
    have two: "limb_base ^ ws * 2 ^ bs = (2 :: nat) ^ b"
      by (simp add: b power_add power_mult)
    have base: "lval ?r * 2 ^ bs mod 2 ^ 254 = lval a * 2 ^ b mod 2 ^ 254"
    proof -
      have "lval ?r * 2 ^ bs mod 2 ^ 254 = (limb_base ^ ws * lval a) * 2 ^ bs mod 2 ^ 254"
        unfolding val by (rule mod_mult_dvd [OF dvd])
      also have "(limb_base ^ ws * lval a) * 2 ^ bs = lval a * 2 ^ b"
        unfolding two [symmetric] by (simp only: ac_simps)
      finally show ?thesis .
    qed
    show ?thesis
    proof (cases "bs = 0")
      case True
      with base len show ?thesis by simp
    next
      case False
      obtain s c where sc: "mpn_lshift G ?r bs = (s, c)" by fastforce
      from lshift_law [OF len(2) _ _ sc] False bs len
      have "length s = 4" "lval s + limb_base ^ 4 * unat c = lval ?r * 2 ^ bs" by simp_all
      moreover from this(2) have "lval s mod 2 ^ 254 = lval ?r * 2 ^ bs mod 2 ^ 254"
        by (rule mod_add_dvd [OF _ dvd])
      ultimately show ?thesis using False sc base by simp
    qed
  qed
  with mask_reduce [of ?s] show ?thesis
    unfolding rawShl_def Let_def copyi_law ws_def [symmetric] bs_def [symmetric] by simp
qed

theorem rawShr_correct:
  assumes "length a = 4" and "b < 254"
  shows "length (rawShr G a b) = 4 \<and> lval (rawShr G a b) = lval a div 2 ^ b"
proof -
  define ws bs where "ws = b div 64" and "bs = b mod 64"
  have ws: "ws \<le> 4" and bs: "bs \<le> 63" and b: "b = 64 * ws + bs"
    using assms(2) by (simp_all add: ws_def bs_def)
  let ?r = "take (4 - ws) (drop ws a) @ replicate ws 0"
  have len: "length ?r = 4" "?r \<noteq> []" using assms(1) ws by auto
  have val: "lval ?r = lval a div limb_base ^ ws"
    using assms(1) by (simp add: lval_append lval_drop)
  have two: "limb_base ^ ws * 2 ^ bs = (2 :: nat) ^ b" by (simp add: b power_add power_mult)
  show ?thesis
  proof (cases "bs = 0")
    case True
    with val len two show ?thesis
      unfolding rawShr_def Let_def copyi_law ws_def [symmetric] bs_def [symmetric] by simp
  next
    case False
    obtain s c where sc: "mpn_rshift G ?r bs = (s, c)" by fastforce
    from rshift_law [OF len(2) _ _ sc] False bs len val
    have "length s = 4" "lval s = lval a div limb_base ^ ws div 2 ^ bs" by simp_all
    moreover have "lval a div limb_base ^ ws div 2 ^ bs = lval a div 2 ^ b"
      unfolding two [symmetric] div_mult2_eq ..
    ultimately show ?thesis using False sc
      unfolding rawShr_def Let_def copyi_law ws_def [symmetric] bs_def [symmetric] by simp
  qed
qed

lemma rawCopyS2L_correct:
  shows "reduced q (rawCopyS2L P G v)
    \<and> int (lval (rawCopyS2L P G v)) = sint v mod int q"
proof (cases "sint v < 0")
  case False
  have v: "int (unat v) = sint v" using False by (simp add: uint_sint)
  have "unat v < q" using unat_lt_base [of v] q_low by simp
  then have "int (unat v) < int q" by (simp only: of_nat_less_iff)
  with v False have "sint v mod int q = sint v" by (intro mod_pos_pos_trivial) simp_all
  with v \<open>unat v < q\<close> False show ?thesis by (simp add: rawCopyS2L_def reduced_def)
next
  case True
  have v: "int (unat v) = sint v + 2 ^ 64" using True by (simp add: uint_sint)
  have bnd: "- (2 ^ 63) \<le> sint v" using sint_greater_eq [of v] by simp
  define w :: limbs where "w = [v, -1, -1, -1]"
  have m1: "unat (-1 :: u64) = limb_base - 1" by (simp add: unsigned_minus_1_eq_mask mask_eq_exp_minus_1)
  have w: "int (lval w) = sint v + int mont_R" unfolding mont_R_def w_def using v m1 by simp
  have lenw: "length w = 4" by (simp add: w_def)
  have "int mont_R \<le> int (lval w) + int q" using w bnd q_low by simp
  then have ge: "mont_R \<le> lval w + q" by (simp only: of_nat_add [symmetric] of_nat_le_iff)
  with add_n_wrap [OF lenw length_q4] w have
    val: "int (lval (fst (mpn_add_n G w (q4 P)))) = sint v + int q"
    and len: "length (fst (mpn_add_n G w (q4 P))) = 4" by (simp_all add: of_nat_diff)
  have "(sint v + int q) mod int q = sint v mod int q" by simp
  moreover have "(sint v + int q) mod int q = sint v + int q"
    using True bnd q_low by (intro mod_pos_pos_trivial) auto
  ultimately show ?thesis using True val len by (simp add: rawCopyS2L_def reduced_def w_def)
qed

end

end
