(* ===== verification/Gmp_Reference.thy ===== *)
theory Gmp_Reference
  imports Gmp_Api
begin

section \<open>A reference implementation of the GMP interface\<close>

text \<open>
  A computable record that satisfies every law of \<open>mpn_laws\<close> and \<open>mpz_laws\<close>. It shows that the
  laws can hold together, and the concrete instances of the properties are evaluated on it. Each
  \<open>mpn\<close> function goes through the value of its operands; the modular inverse is the extended
  Euclidean algorithm.
\<close>

definition ref_split :: "nat \<Rightarrow> nat \<Rightarrow> limbs \<times> u64" where
  "ref_split n v = (limbs_of n v, word_of_nat (v div limb_base ^ n))"

definition ref_diff :: "nat \<Rightarrow> nat \<Rightarrow> nat \<Rightarrow> limbs \<times> u64" where
  "ref_diff n v w = (limbs_of n (v + limb_base ^ n - w), if v < w then 1 else 0)"

function ref_euclid :: "int \<Rightarrow> int \<Rightarrow> int \<Rightarrow> int \<Rightarrow> int \<times> int" where
  "ref_euclid r0 r1 t0 t1 =
     (if r1 \<le> 0 then (r0, t0) else ref_euclid r1 (r0 mod r1) t1 (t0 - (r0 div r1) * t1))"
  by pat_completeness auto
termination
  by (relation "measure (\<lambda>(r0, r1, t0, t1). nat r1)") auto

declare ref_euclid.simps [simp del]

definition ref_invert :: "int \<Rightarrow> int \<Rightarrow> int \<times> int" where
  "ref_invert a m = (case ref_euclid m (a mod m) 0 1 of (g, t) \<Rightarrow>
     if g = 1 then (1, t mod m) else (0, 0))"

function ref_powm :: "int \<Rightarrow> nat \<Rightarrow> int \<Rightarrow> int" where
  "ref_powm b e m =
     (if e = 0 then 1 mod m
      else let h = ref_powm (b * b mod m) (e div 2) m in if even e then h else b * h mod m)"
  by pat_completeness auto
termination
  by (relation "measure (\<lambda>(b, e, m). e)") auto

declare ref_powm.simps [simp del]

definition ref_export :: "nat \<Rightarrow> int \<Rightarrow> u8 list" where
  "ref_export s v = bytes_of (s * export_words s (nat v)) (nat v)"

function ref_size :: "nat \<Rightarrow> nat \<Rightarrow> nat" where
  "ref_size b v = (if b < 2 \<or> v = 0 then 0 else Suc (ref_size b (v div b)))"
  by pat_completeness auto
termination
  by (relation "measure snd") auto

declare ref_size.simps [simp del]

definition ref_set_str :: "string \<Rightarrow> nat \<Rightarrow> int \<times> int" where
  "ref_set_str str base = (if str \<noteq> [] \<and> hd str = CHR ''-'' then (0, - int (dec_val (tl str)))
     else (0, int (dec_val str)))"

definition ref_gmp :: gmp where
  "ref_gmp = \<lparr>
     mpn_add_n = (\<lambda>a b. ref_split (length a) (lval a + lval b)),
     mpn_sub_n = (\<lambda>a b. ref_diff (length a) (lval a) (lval b)),
     mpn_add_1 = (\<lambda>a x. ref_split (length a) (lval a + unat x)),
     mpn_sub_1 = (\<lambda>a x. ref_diff (length a) (lval a) (unat x)),
     mpn_add = (\<lambda>a b. ref_split (length a) (lval a + lval b)),
     mpn_mul_1 = (\<lambda>a x. ref_split (length a) (lval a * unat x)),
     mpn_addmul_1 = (\<lambda>r a x. ref_split (length a) (lval r + lval a * unat x)),
     mpn_cmp = (\<lambda>a b. int (lval a) - int (lval b)),
     mpn_zero_p = (\<lambda>a. if lval a = 0 then 1 else 0),
     mpn_and_n = map2 (AND), mpn_ior_n = map2 (OR), mpn_xor_n = map2 (XOR), mpn_com = map NOT,
     mpn_lshift = (\<lambda>a k. ref_split (length a) (lval a * 2 ^ k)),
     mpn_rshift = (\<lambda>a k. (limbs_of (length a) (lval a div 2 ^ k), push_bit (64 - k) (a ! 0))),
     mpn_copyi = (\<lambda>a. a),
     mpz_set_si = (\<lambda>i. i), mpz_set_ui = (\<lambda>w. int (unat w)), mpz_add = (+),
     mpz_sub = (-), mpz_mul_2exp = (\<lambda>x n. x * 2 ^ n),
     mpz_sizeinbase = (\<lambda>v base. ref_size base (nat v)),
     mpz_fits_sint_p = (\<lambda>v. - (2 ^ 31) \<le> v \<and> v < 2 ^ 31), mpz_get_si = (\<lambda>v. v),
     mpz_fdiv_q = (div), mpz_fdiv_r = (mod),
     mpz_powm = (\<lambda>b e m. ref_powm (b mod m) (nat e) m),
     mpz_invert = ref_invert,
     mpz_import = (\<lambda>n ord s en nails bs.
       if ord = -1 then int (bval (take (n * s) bs)) else int (bval (rev (take (n * s) bs)))),
     mpz_export = (\<lambda>ord s en nails v. if ord = -1 then ref_export s v else rev (ref_export s v)),
     mpz_set_str = ref_set_str,
     mpz_get_str = (\<lambda>base v. dec_str (nat v)),
     mpz_cmp = (\<lambda>x y. x - y),
     mpz_add_ui = (\<lambda>x w. x + int (unat w)), mpz_fdiv_q_2exp = (\<lambda>x n. x div 2 ^ n),
     mpz_cmp_ui = (\<lambda>x w. x - int (unat w)), mpz_tstbit = (\<lambda>x n. if bit x n then 1 else 0) \<rparr>"

lemma ref_split_law:
  assumes "ref_split n v = (r, c)" and "v < limb_base ^ n * limb_base"
  shows "length r = n \<and> lval r + limb_base ^ n * unat c = v"
proof -
  from assms(2) have "v div limb_base ^ n < limb_base" by (simp add: div_less_iff_less_mult mult.commute)
  with assms(1) show ?thesis by (auto simp: ref_split_def lval_limbs_of unat_of_nat_base)
qed

lemma ref_diff_law:
  assumes "ref_diff n v w = (r, c)" and "v < limb_base ^ n" and "w < limb_base ^ n"
  shows "length r = n \<and> lval r + w = v + limb_base ^ n * unat c"
proof (cases "v < w")
  case True
  with assms have "(v + limb_base ^ n - w) mod limb_base ^ n = v + limb_base ^ n - w" by simp
  with True assms show ?thesis by (auto simp: ref_diff_def lval_limbs_of)
next
  case False
  have "(v + P - w) mod P = v - w" if "w \<le> v" "v < P" for P :: nat
  proof -
    have eq: "v + P - w = (v - w) + P" using that by simp
    show ?thesis unfolding eq mod_add_self2 by (rule mod_less) (use that in linarith)
  qed
  from this [of "limb_base ^ n"] False assms(2)
  have "(v + limb_base ^ n - w) mod limb_base ^ n = v - w" by simp
  with False assms show ?thesis by (auto simp: ref_diff_def lval_limbs_of)
qed

lemma limb_lt_pow: "a \<noteq> [] \<Longrightarrow> unat (x :: u64) < limb_base ^ length a"
  using lval_lt [of "x # replicate (length a - 1) 0"] by (cases a) simp_all

lemma add_lt_split: "v < P \<Longrightarrow> w < P \<Longrightarrow> v + w < P * limb_base"
  for v w P :: nat
  by simp

lemma mul_lt_split: "v < P \<Longrightarrow> r < P \<Longrightarrow> r + v * unat (x :: u64) < P * limb_base"
proof -
  assume "v < P" "r < P"
  then have "v * unat x \<le> P * (limb_base - 1)"
    using unat_le_base [of x] by (intro mult_le_mono) auto
  with \<open>r < P\<close> show ?thesis by simp
qed

lemma ref_euclid_law:
  assumes "0 \<le> r0" and "0 \<le> r1" and "(a * t0) mod m = r0 mod m" and "(a * t1) mod m = r1 mod m"
    and "ref_euclid r0 r1 t0 t1 = (g, t)"
  shows "g = gcd r0 r1 \<and> (a * t) mod m = g mod m"
  using assms
proof (induction r0 r1 t0 t1 rule: ref_euclid.induct)
  case (1 r0 r1 t0 t1)
  show ?case
  proof (cases "r1 \<le> 0")
    case True
    with 1 show ?thesis by (auto simp: ref_euclid.simps [of r0 0])
  next
    case False
    have "a * (t0 - r0 div r1 * t1) mod m = (a * t0 - (r0 div r1) * (a * t1)) mod m"
      by (simp add: algebra_simps)
    also have "\<dots> = (r0 - (r0 div r1) * r1) mod m"
      using 1(4,5) by (metis mod_diff_cong mod_mult_cong)
    also have "\<dots> = (r0 mod r1) mod m" by (simp add: minus_div_mult_eq_mod)
    finally have "(a * (t0 - r0 div r1 * t1)) mod m = (r0 mod r1) mod m" .
    with False 1 show ?thesis
      by (simp add: ref_euclid.simps [of r0 r1] gcd_red_int [of r0 r1])
  qed
qed

lemma ref_invert_coprime:
  assumes "1 < m" and "coprime a m" and "ref_invert a m = (ret, x)"
  shows "ret \<noteq> 0 \<and> 0 \<le> x \<and> x < m \<and> (a * x) mod m = 1"
proof -
  obtain g t where gt: "ref_euclid m (a mod m) 0 1 = (g, t)" by fastforce
  have "g = gcd m (a mod m) \<and> (a * t) mod m = g mod m"
    by (rule ref_euclid_law [OF _ _ _ _ gt]) (use assms(1) in auto)
  moreover from assms(2) have "gcd m (a mod m) = 1"
    by (simp add: coprime_iff_gcd_eq_1 flip: gcd_red_int [of a m])
  ultimately have "g = 1" and "(a * t) mod m = 1" using assms(1) by auto
  with assms gt show ?thesis by (auto simp: ref_invert_def mod_mult_right_eq)
qed

lemma ref_invert_none:
  assumes "1 < m" and "\<not> coprime a m"
  shows "fst (ref_invert a m) = 0"
proof -
  obtain g t where gt: "ref_euclid m (a mod m) 0 1 = (g, t)" by fastforce
  have "g = gcd m (a mod m) \<and> (a * t) mod m = g mod m"
    by (rule ref_euclid_law [OF _ _ _ _ gt]) (use assms(1) in auto)
  with assms(2) have "g \<noteq> 1" by (simp add: coprime_iff_gcd_eq_1 flip: gcd_red_int [of a m])
  with gt show ?thesis by (simp add: ref_invert_def)
qed

lemma ref_powm_law: "0 < m \<Longrightarrow> ref_powm b e m = b ^ e mod m"
proof (induction b e m rule: ref_powm.induct)
  case (1 b e m)
  show ?case
  proof (cases "e = 0")
    case True
    then show ?thesis by (simp add: ref_powm.simps [of b 0 m])
  next
    case False
    have "(b * b mod m) ^ (e div 2) mod m = b ^ (2 * (e div 2)) mod m"
      by (simp add: power_mod power_mult power2_eq_square)
    with 1 False have h: "ref_powm (b * b mod m) (e div 2) m = b ^ (2 * (e div 2)) mod m" by simp
    show ?thesis
    proof (cases "even e")
      case True
      with False h show ?thesis by (simp add: ref_powm.simps [of b e m] Let_def)
    next
      case odd: False
      then have "b ^ e = b * b ^ (2 * (e div 2))"
        by (metis odd_two_times_div_two_succ power_Suc Suc_eq_plus1)
      with False odd h show ?thesis
        by (simp add: ref_powm.simps [of b e m] Let_def mod_mult_right_eq)
    qed
  qed
qed

lemma ref_size_law: "0 < n \<Longrightarrow> 2 ^ (n - 1) \<le> v \<Longrightarrow> v < 2 ^ n \<Longrightarrow> ref_size 2 v = n"
proof (induction n arbitrary: v)
  case (Suc n)
  have v: "v \<noteq> 0" using Suc.prems(2) by (metis le_zero_eq power_eq_0_iff zero_neq_numeral)
  show ?case
  proof (cases "n = 0")
    case True
    with Suc.prems v have "v = 1" by simp
    with True show ?thesis by (simp add: ref_size.simps)
  next
    case False
    then have "(2 :: nat) ^ n = 2 * 2 ^ (n - 1)" by (cases n) simp_all
    with Suc.prems have "2 ^ (n - 1) \<le> v div 2" "v div 2 < 2 ^ n" by auto
    with Suc.IH [of "v div 2"] False v show ?thesis by (simp add: ref_size.simps [of 2 v])
  qed
qed simp

interpretation ref_mpn: mpn_laws ref_gmp
proof
  fix a b r r0 :: limbs and c x :: u64 and k :: nat
  show "length r = length a \<and> lval r + limb_base ^ length a * unat c = lval a + lval b"
    if "length a = length b" "mpn_add_n ref_gmp a b = (r, c)"
    using that lval_lt [of a] lval_lt [of b] by (intro ref_split_law) (auto simp: ref_gmp_def intro!: add_lt_split)
  show "length r = length a \<and> lval r + lval b = lval a + limb_base ^ length a * unat c"
    if "length a = length b" "mpn_sub_n ref_gmp a b = (r, c)"
    using that lval_lt [of a] lval_lt [of b] by (intro ref_diff_law) (auto simp: ref_gmp_def)
  show "length r = length a \<and> lval r + limb_base ^ length a * unat c = lval a + unat x"
    if "a \<noteq> []" "mpn_add_1 ref_gmp a x = (r, c)"
    using that lval_lt [of a] limb_lt_pow [of a x] by (intro ref_split_law) (auto simp: ref_gmp_def intro!: add_lt_split)
  show "length r = length a \<and> lval r + unat x = lval a + limb_base ^ length a * unat c"
    if "a \<noteq> []" "mpn_sub_1 ref_gmp a x = (r, c)"
    using that lval_lt [of a] limb_lt_pow [of a x] by (intro ref_diff_law) (auto simp: ref_gmp_def)
  show "length r = length a \<and> lval r + limb_base ^ length a * unat c = lval a + lval b"
    if "length b \<le> length a" "mpn_add ref_gmp a b = (r, c)"
  proof -
    have "limb_base ^ length b \<le> limb_base ^ length a" using that by (intro power_increasing) auto
    with lval_lt [of b] have "lval b < limb_base ^ length a" by (rule less_le_trans)
    with that lval_lt [of a] show ?thesis
      by (intro ref_split_law) (auto simp: ref_gmp_def intro!: add_lt_split)
  qed
  show "length r = length a \<and> lval r + limb_base ^ length a * unat c = lval a * unat x"
    if "mpn_mul_1 ref_gmp a x = (r, c)"
    using that lval_lt [of a] mul_lt_split [of "lval a" "limb_base ^ length a" 0 x]
    by (intro ref_split_law) (auto simp: ref_gmp_def)
  show "length r = length a \<and> lval r + limb_base ^ length a * unat c = lval r0 + lval a * unat x"
    if "length r0 = length a" "mpn_addmul_1 ref_gmp r0 a x = (r, c)"
    using that lval_lt [of a] lval_lt [of r0] mul_lt_split [of "lval a" "limb_base ^ length a" "lval r0" x]
    by (intro ref_split_law) (auto simp: ref_gmp_def)
  show "length r = length a \<and> lval r + limb_base ^ length a * unat c = lval a * 2 ^ k"
    if "1 \<le> k" "k \<le> 63" "mpn_lshift ref_gmp a k = (r, c)"
  proof -
    have "(2 :: nat) ^ k \<le> 2 ^ 63" using that by (intro power_increasing) auto
    then have "lval a * 2 ^ k \<le> lval a * limb_base" by (intro mult_le_mono2) simp
    also have "\<dots> < limb_base ^ length a * limb_base" by auto
    finally show ?thesis using that by (intro ref_split_law) (auto simp: ref_gmp_def)
  qed
  show "length r = length a \<and> lval r = lval a div 2 ^ k"
    if "mpn_rshift ref_gmp a k = (r, c)"
  proof -
    have "lval a div 2 ^ k < limb_base ^ length a"
      using lval_lt [of a] div_le_dividend [of "lval a" "2 ^ k"] by linarith
    with that show ?thesis by (auto simp: ref_gmp_def lval_limbs_of)
  qed
qed (auto simp: ref_gmp_def)

lemma ref_set_str_digits: "str \<noteq> [] \<Longrightarrow> list_all digit_char str \<Longrightarrow> ref_set_str str b = (0, int (dec_val str))"
  by (cases str) (auto simp: ref_set_str_def digit_char_def)

interpretation ref_mpz: mpz_laws ref_gmp
proof
  fix a m x y v e b :: int and s n ret :: nat and r :: int and bs :: "u8 list" and str :: string
  show "mpz_set_str ref_gmp str 10 = (0, int (dec_val str))" if "str \<noteq> []" "list_all digit_char str"
    using ref_set_str_digits [OF that] by (simp add: ref_gmp_def)
  show "mpz_set_str ref_gmp (CHR ''-'' # str) 10 = (0, - int (dec_val str))" if "str \<noteq> []" "list_all digit_char str"
    by (simp add: ref_gmp_def ref_set_str_def)
  show "r \<noteq> 0 \<and> 0 \<le> x \<and> x < m \<and> a * x mod m = 1"
    if "1 < m" "coprime a m" "mpz_invert ref_gmp a m = (r, x)"
    using that by (intro ref_invert_coprime) (auto simp: ref_gmp_def)
  show "fst (mpz_invert ref_gmp a m) = 0" if "1 < m" "\<not> coprime a m"
    using that by (simp add: ref_gmp_def ref_invert_none)
  show "mpz_powm ref_gmp b e m = b ^ nat e mod m" if "0 \<le> e" "0 < m"
    using that by (simp add: ref_gmp_def ref_powm_law power_mod)
  show "mpz_sizeinbase ref_gmp v 2 = n" if "0 < v" "2 ^ (n - 1) \<le> v" "v < 2 ^ n"
  proof -
    have "n \<noteq> 0" using that by (cases n) auto
    moreover have "2 ^ (n - 1) \<le> nat v" using that by (simp add: nat_le_iff le_nat_iff)
    moreover have "nat v < 2 ^ n" using that by (simp add: nat_less_iff)
    ultimately show ?thesis by (simp add: ref_gmp_def ref_size_law)
  qed
  show "length (mpz_export ref_gmp (-1) s (-1) 0 v) = s * export_words s (nat v)
      \<and> bval (mpz_export ref_gmp (-1) s (-1) 0 v) = nat v" if "0 < s" "0 \<le> v"
    using that export_words_fits [of s "nat v"] by (simp add: ref_gmp_def ref_export_def bval_bytes_of)
  show "length (mpz_export ref_gmp 1 s 1 0 v) = s * export_words s (nat v)
      \<and> bval (rev (mpz_export ref_gmp 1 s 1 0 v)) = nat v" if "0 < s" "0 \<le> v"
    using that export_words_fits [of s "nat v"] by (simp add: ref_gmp_def ref_export_def bval_bytes_of)
qed (auto simp: ref_gmp_def)

interpretation ref: gmp_laws ref_gmp
  by unfold_locales

lemma ref_gmp_laws: "gmp_laws ref_gmp"
  by (rule ref.gmp_laws_axioms)

end
