(* ===== verification/Raw_Consts.thy ===== *)
theory Raw_Consts
  imports Raw_Bits Gmp_Reference
begin

section \<open>The two BN254 prime fields\<close>

text \<open>
  The constants of \<open>fr_raw_generic.cpp\<close> and \<open>fr_generic.cpp\<close> (the scalar field) and of their \<open>fq\<close>
  twins (the base field), the instances of the raw operations for the base field, and the
  interpretation of the field interface on both: the moduli, the Montgomery constants and the
  half moduli of the code are the ones the arithmetic needs.
\<close>

definition Fr_consts :: raw_consts where
  "Fr_consts = \<lparr>
     rawq = [0x43e1f593f0000001, 0x2833e84879b97091, 0xb85045b68181585d, 0x30644e72e131a029, 0],
     rawR2 = [0x1bb8e645ae216da7, 0x53fe3ab1e35c59e3, 0x8c49833d53bb8085, 0x0216d0b17f4e44a5],
     rawR3 = [0x5e94d8e1b4bf0040, 0x2a489cbe1cfbb6b8, 0x893cc664a19fcfed, 0x0cf8594b7fcc657c],
     rawHalf = [0xa1f0fac9f8000000, 0x9419f4243cdcb848, 0xdc2822db40c0ac2e, 0x183227397098d014],
     rawNp = 0xc2e1f593efffffff,
     lboMask = 0x3fffffffffffffff \<rparr>"

definition Fq_consts :: raw_consts where
  "Fq_consts = \<lparr>
     rawq = [0x3c208c16d87cfd47, 0x97816a916871ca8d, 0xb85045b68181585d, 0x30644e72e131a029, 0],
     rawR2 = [0xf32cfc5b538afa89, 0xb5e71911d44501fb, 0x47ab1eff0a417ff6, 0x06d89f71cab8351f],
     rawR3 = [0xb1cd6dafda1530df, 0x62f210e6a7283db6, 0xef7f0b0c0ada0afb, 0x20fd6e902d592544],
     rawHalf = [0x9e10460b6c3e7ea3, 0xcbc0b548b438e546, 0xdc2822db40c0ac2e, 0x183227397098d014],
     rawNp = 0x87d20782e4866389,
     lboMask = 0x3fffffffffffffff \<rparr>"

abbreviation Fr_prime :: nat where
  "Fr_prime \<equiv> 21888242871839275222246405745257275088548364400416034343698204186575808495617"

abbreviation Fq_prime :: nat where
  "Fq_prime \<equiv> 21888242871839275222246405745257275088696311157297823662689037894645226208583"

subsection \<open>The base-field instances of the raw operations\<close>

definition Fq_rawAdd :: "gmp \<Rightarrow> limbs \<Rightarrow> limbs \<Rightarrow> limbs" where
  "Fq_rawAdd = rawAdd Fq_consts"

definition Fq_rawAddLS :: "gmp \<Rightarrow> limbs \<Rightarrow> u64 \<Rightarrow> limbs" where
  "Fq_rawAddLS = rawAddLS Fq_consts"

definition Fq_rawSub :: "gmp \<Rightarrow> limbs \<Rightarrow> limbs \<Rightarrow> limbs" where
  "Fq_rawSub = rawSub Fq_consts"

definition Fq_rawSubSL :: "gmp \<Rightarrow> u64 \<Rightarrow> limbs \<Rightarrow> limbs" where
  "Fq_rawSubSL = rawSubSL Fq_consts"

definition Fq_rawSubLS :: "gmp \<Rightarrow> limbs \<Rightarrow> u64 \<Rightarrow> limbs" where
  "Fq_rawSubLS = rawSubLS Fq_consts"

definition Fq_rawNeg :: "gmp \<Rightarrow> limbs \<Rightarrow> limbs" where
  "Fq_rawNeg = rawNeg Fq_consts"

definition Fq_rawNegLS :: "gmp \<Rightarrow> (limbs \<Rightarrow> limbs) \<Rightarrow> u64 \<Rightarrow> limbs" where
  "Fq_rawNegLS = rawNegLS Fq_consts"

definition Fq_rawMMul :: "gmp \<Rightarrow> limbs \<Rightarrow> limbs \<Rightarrow> limbs" where
  "Fq_rawMMul = rawMMul Fq_consts"

definition Fq_rawMSquare :: "gmp \<Rightarrow> limbs \<Rightarrow> limbs" where
  "Fq_rawMSquare = rawMSquare Fq_consts"

definition Fq_rawMMul1 :: "gmp \<Rightarrow> limbs \<Rightarrow> u64 \<Rightarrow> limbs" where
  "Fq_rawMMul1 = rawMMul1 Fq_consts"

definition Fq_rawToMontgomery :: "gmp \<Rightarrow> limbs \<Rightarrow> limbs" where
  "Fq_rawToMontgomery = rawToMontgomery Fq_consts"

definition Fq_rawFromMontgomery :: "gmp \<Rightarrow> limbs \<Rightarrow> limbs" where
  "Fq_rawFromMontgomery = rawFromMontgomery Fq_consts"

definition Fq_rawCopyS2L :: "gmp \<Rightarrow> s64 \<Rightarrow> limbs" where
  "Fq_rawCopyS2L = rawCopyS2L Fq_consts"

definition Fq_rawAnd :: "gmp \<Rightarrow> limbs \<Rightarrow> limbs \<Rightarrow> limbs" where
  "Fq_rawAnd = rawAnd Fq_consts"

definition Fq_rawOr :: "gmp \<Rightarrow> limbs \<Rightarrow> limbs \<Rightarrow> limbs" where
  "Fq_rawOr = rawOr Fq_consts"

definition Fq_rawXor :: "gmp \<Rightarrow> limbs \<Rightarrow> limbs \<Rightarrow> limbs" where
  "Fq_rawXor = rawXor Fq_consts"

definition Fq_rawNot :: "gmp \<Rightarrow> limbs \<Rightarrow> limbs" where
  "Fq_rawNot = rawNot Fq_consts"

definition Fq_rawShl :: "gmp \<Rightarrow> limbs \<Rightarrow> nat \<Rightarrow> limbs" where
  "Fq_rawShl = rawShl Fq_consts"

text \<open>These do not mention the modulus.\<close>

definition Fq_rawSubRegular :: "gmp \<Rightarrow> limbs \<Rightarrow> limbs \<Rightarrow> limbs" where
  "Fq_rawSubRegular = rawSubRegular"

definition Fq_rawCopy :: "limbs \<Rightarrow> limbs" where
  "Fq_rawCopy = rawCopy"

definition Fq_rawIsEq :: "gmp \<Rightarrow> limbs \<Rightarrow> limbs \<Rightarrow> bool" where
  "Fq_rawIsEq = rawIsEq"

definition Fq_rawIsZero :: "gmp \<Rightarrow> limbs \<Rightarrow> bool" where
  "Fq_rawIsZero = rawIsZero"

definition Fq_rawCmp :: "gmp \<Rightarrow> limbs \<Rightarrow> limbs \<Rightarrow> int" where
  "Fq_rawCmp = rawCmp"

definition Fq_rawSwap :: "limbs \<Rightarrow> limbs \<Rightarrow> limbs \<times> limbs" where
  "Fq_rawSwap = rawSwap"

definition Fq_rawShr :: "gmp \<Rightarrow> limbs \<Rightarrow> nat \<Rightarrow> limbs" where
  "Fq_rawShr = rawShr"

subsection \<open>The interface holds of both\<close>

lemma sq_mod:
  fixes x k q r :: nat
  assumes "r < q" and "x = k * q + r"
  shows "r = x mod q"
  using assms by simp

interpretation Fr: mont_consts Fr_consts Fr_prime
proof
  show "lval (rawR2 Fr_consts) = mont_R ^ 2 mod Fr_prime"
    by (rule sq_mod [of _ _ _ 612557527273816073910311476275045157067432104571610153771051915293407781491289])
      (simp_all add: Fr_consts_def mont_R_def)
  show "lval (rawR3 Fr_consts) = mont_R ^ 3 mod Fr_prime"
    by (rule sq_mod [of _ _ _ 70929315861079460050545713470651790607402830534048198787532827173243548470465703496313271925294460383522548860604705121879455647723825082663417941967568832])
      (simp_all add: Fr_consts_def mont_R_def)
qed (simp_all add: Fr_consts_def)

interpretation Fq: mont_consts Fq_consts Fq_prime
proof
  show "lval (rawR2 Fq_consts) = mont_R ^ 2 mod Fq_prime"
    by (rule sq_mod [of _ _ _ 612557527273816073910311476275045157063291712851072105081573245353947274219089])
      (simp_all add: Fq_consts_def mont_R_def)
  show "lval (rawR3 Fq_consts) = mont_R ^ 3 mod Fq_prime"
    by (rule sq_mod [of _ _ _ 70929315861079460050545713470651790606923405926466211915113036792909980961599421414997981004512474711712187937888378613618671853005854333634873964382086231])
      (simp_all add: Fq_consts_def mont_R_def)
qed (simp_all add: Fq_consts_def)

text \<open>
  The two pairs of constants and modulus of the program; properties that hold of both fields are
  stated once over \<open>bn254_field\<close>.
\<close>

definition bn254_field :: "raw_consts \<Rightarrow> nat \<Rightarrow> bool" where
  "bn254_field P q \<longleftrightarrow> (P = Fr_consts \<and> q = Fr_prime) \<or> (P = Fq_consts \<and> q = Fq_prime)"

lemma bn254_consts: "bn254_field P q \<Longrightarrow> mont_consts P q"
  using Fr.mont_consts_axioms Fq.mont_consts_axioms by (auto simp: bn254_field_def)

lemma bn254_raw_field: "bn254_field P q \<Longrightarrow> mpn_laws G \<Longrightarrow> raw_field P q G"
  by (intro raw_field.intro bn254_consts)

lemma bn254_Fr: "bn254_field Fr_consts Fr_prime"
  by (simp add: bn254_field_def)

lemma bn254_Fq: "bn254_field Fq_consts Fq_prime"
  by (simp add: bn254_field_def)

lemma mpn_of_gmp: "gmp_laws G \<Longrightarrow> mpn_laws G"
  by (simp add: gmp_laws_def)

interpretation Fr_ref: raw_field Fr_consts Fr_prime ref_gmp
  by (rule bn254_raw_field [OF bn254_Fr ref_mpn.mpn_laws_axioms])

interpretation Fq_ref: raw_field Fq_consts Fq_prime ref_gmp
  by (rule bn254_raw_field [OF bn254_Fq ref_mpn.mpn_laws_axioms])

subsection \<open>Properties of the raw operations\<close>

lemma small_element: "bn254_field P q \<Longrightarrow> unat x < 16 \<Longrightarrow> reduced q [x, 0, 0, 0]"
  by (auto simp: bn254_field_def reduced_def)

text \<open>
  C6. The Montgomery product of the code is multiplication in the field: on a four-limb \<open>a\<close> and a
  reduced \<open>b\<close> the result is reduced and stands for the product of the elements \<open>a\<close> and \<open>b\<close> stand
  for, in both fields and for every GMP that meets its documentation.
\<close>

theorem rawMMul_is_field_product:
  assumes "bn254_field P q" and "mpn_laws G" and "length a = 4" and "reduced q b"
  shows "reduced q (rawMMul P G a b)
    \<and> mval q (rawMMul P G a b) = (mval q a * mval q b) mod q
    \<and> (mont_R * lval (rawMMul P G a b)) mod q = (lval a * lval b) mod q"
  using raw_field.mval_MMul [OF bn254_raw_field [OF assms(1,2)] assms(3,4)]
    raw_field.rawMMul_correct [OF bn254_raw_field [OF assms(1,2)] assms(3,4)] by simp

theorem rawMMul_is_field_product_witness:
  "(mont_R * lval (rawMMul Fr_consts ref_gmp [5, 0, 0, 0] [7, 0, 0, 0])) mod Fr_prime = 35"
  using rawMMul_is_field_product [OF bn254_Fr ref_mpn.mpn_laws_axioms, of "[5, 0, 0, 0]" "[7, 0, 0, 0]"]
  by (simp add: reduced_def)

text \<open>
  C26. Entering and leaving Montgomery form are inverse to each other on reduced elements:
  \<open>rawToMontgomery\<close> maps a plain residue to limbs that stand for it, \<open>rawFromMontgomery\<close> maps limbs to
  the residue they stand for, and either composition is the identity.
\<close>

theorem montgomery_roundtrip:
  assumes "bn254_field P q" and "mpn_laws G" and "reduced q a"
  shows "rawToMontgomery P G (rawFromMontgomery P G a) = a
    \<and> rawFromMontgomery P G (rawToMontgomery P G a) = a
    \<and> lval (rawFromMontgomery P G a) = mval q a
    \<and> mval q (rawToMontgomery P G a) = lval a"
  using raw_field.to_from_Montgomery [OF bn254_raw_field [OF assms(1,2)] assms(3)]
    raw_field.lval_FromMontgomery [OF bn254_raw_field [OF assms(1,2)] reduced_length [OF assms(3)]]
    raw_field.mval_ToMontgomery [OF bn254_raw_field [OF assms(1,2)] reduced_length [OF assms(3)]]
    reduced_lt [OF assms(3)] by simp

theorem montgomery_roundtrip_witness:
  "rawToMontgomery Fq_consts ref_gmp (rawFromMontgomery Fq_consts ref_gmp [11, 2, 3, 1]) = [11, 2, 3, 1]"
  using montgomery_roundtrip [OF bn254_Fq ref_mpn.mpn_laws_axioms, of "[11, 2, 3, 1]"]
  by (simp add: reduced_def)

text \<open>
  Addition, subtraction and negation keep elements reduced and compute modulo the prime, and the
  values they stand for in Montgomery form follow: sums add, a difference added to its subtrahend
  gives the minuend back, a negation cancels its argument.
\<close>

theorem raw_ring_operations:
  assumes "bn254_field P q" and "mpn_laws G" and "reduced q a" and "reduced q b"
  shows "reduced q (rawAdd P G a b) \<and> reduced q (rawSub P G a b) \<and> reduced q (rawNeg P G a)
    \<and> mval q (rawAdd P G a b) = (mval q a + mval q b) mod q
    \<and> (mval q (rawSub P G a b) + mval q b) mod q = mval q a
    \<and> (mval q (rawNeg P G a) + mval q a) mod q = 0"
proof -
  note rf = bn254_raw_field [OF assms(1,2)]
  have len: "length a = 4" "length b = 4" "lval a + lval b < 2 * q" using assms by (simp_all add: reduced_def)
  from raw_field.rawAdd_correct [OF rf len] raw_field.rawSub_correct [OF rf assms(3,4)]
    raw_field.rawNeg_correct [OF rf assms(3)] raw_field.mval_Add [OF rf assms(3,4)]
    raw_field.mval_Sub [OF rf assms(3,4)] raw_field.mval_Neg [OF rf assms(3)]
  show ?thesis by simp
qed

theorem raw_ring_operations_witness:
  "(mval Fr_prime (rawSub Fr_consts ref_gmp [3, 0, 0, 0] [5, 0, 0, 0]) + mval Fr_prime [5, 0, 0, 0]) mod Fr_prime
    = mval Fr_prime [3, 0, 0, 0]"
  using raw_ring_operations [OF bn254_Fr ref_mpn.mpn_laws_axioms, of "[3, 0, 0, 0]" "[5, 0, 0, 0]"]
  by (simp add: reduced_def)

text \<open>
  The operations that mix a long element with a 64-bit short value (\<open>AddLS\<close>, \<open>SubSL\<close>,
  \<open>SubLS\<close>, \<open>MMul1\<close>, \<open>CopyS2L\<close>) compute modulo the prime: a negative short value becomes the residue
  of the negative number, and \<open>MMul1\<close> divides by the Montgomery radix.
\<close>

theorem raw_short_operations:
  assumes "bn254_field P q" and "mpn_laws G" and "reduced q a"
  shows "lval (rawAddLS P G a w) = (lval a + unat w) mod q
    \<and> lval (rawSubLS P G a w) = (lval a + q - unat w) mod q
    \<and> lval (rawSubSL P G w a) = (unat w + q - lval a) mod q
    \<and> (mont_R * lval (rawMMul1 P G a w)) mod q = (lval a * unat w) mod q
    \<and> int (lval (rawCopyS2L P G w)) = sint w mod int q
    \<and> reduced q (rawAddLS P G a w) \<and> reduced q (rawSubLS P G a w) \<and> reduced q (rawSubSL P G w a)
    \<and> reduced q (rawMMul1 P G a w) \<and> reduced q (rawCopyS2L P G w)"
proof -
  note rf = bn254_raw_field [OF assms(1,2)]
  have "limb_base < q" using assms(1) by (auto simp: bn254_field_def)
  then have "lval a + unat w < 2 * q" using assms(3) unat_lt_base [of w] by (simp add: reduced_def)
  from raw_field.rawAddLS_correct [OF rf reduced_length [OF assms(3)] this]
    raw_field.rawSubLS_correct [OF rf assms(3), of w] raw_field.rawSubSL_correct [OF rf assms(3), of w]
    raw_field.rawMMul1_correct [OF rf assms(3), of w] raw_field.rawCopyS2L_correct [OF rf, of w]
  show ?thesis by (simp only: simp_thms)
qed

theorem raw_short_operations_witness:
  "lval (rawSubSL Fq_consts ref_gmp 3 [5, 0, 0, 0]) = Fq_prime - 2
    \<and> int (lval (rawCopyS2L Fq_consts ref_gmp (-1))) = int Fq_prime - 1"
  using raw_short_operations [OF bn254_Fq ref_mpn.mpn_laws_axioms, of "[5, 0, 0, 0]" 3]
    raw_short_operations [OF bn254_Fq ref_mpn.mpn_laws_axioms, of "[5, 0, 0, 0]" "-1"]
  by (simp add: reduced_def)

text \<open>
  \<open>rawNegLS\<close> computes \<open>-b - a\<close> modulo the prime for distinct arrays and a non-zero \<open>b\<close>; called
  with the result array as its own argument it returns zero whatever the element was, because it
  overwrites the argument before reading it.
\<close>

theorem rawNegLS_behaviour:
  assumes "bn254_field P q" and "mpn_laws G" and "reduced q a" and "w \<noteq> 0"
  shows "reduced q (rawNegLS P G (\<lambda>_. a) w)
    \<and> lval (rawNegLS P G (\<lambda>_. a) w) = (2 * q - unat w - lval a) mod q
    \<and> lval (rawNegLS P G (\<lambda>r. r) w) = 0"
  using raw_field.rawNegLS_correct [OF bn254_raw_field [OF assms(1,2)] assms(3,4)]
    raw_field.rawNegLS_aliased [OF bn254_raw_field [OF assms(1,2)], of w] by simp

theorem rawNegLS_behaviour_witness:
  "lval (rawNegLS Fr_consts ref_gmp (\<lambda>_. [5, 0, 0, 0]) 3) = Fr_prime - 8
    \<and> lval (rawNegLS Fr_consts ref_gmp (\<lambda>r. r) 3) = 0"
  using rawNegLS_behaviour [OF bn254_Fr ref_mpn.mpn_laws_axioms, of "[5, 0, 0, 0]" 3]
  by (simp add: reduced_def)

text \<open>
  The bitwise operations and the shifts act on the values of their operands: the result of the
  bit operation, cut to 254 bits, reduced once modulo the prime; the right shift is exact division
  by a power of two.
\<close>

theorem raw_bit_operations:
  assumes "bn254_field P q" and "mpn_laws G" and "reduced q a" and "reduced q b" and "n < 254"
  shows "lval (rawAnd P G a b) = lval a AND lval b
    \<and> lval (rawOr P G a b) = (lval a OR lval b) mod q
    \<and> lval (rawXor P G a b) = (lval a XOR lval b) mod q
    \<and> lval (rawNot P G a) = (2 ^ 254 - 1 - lval a) mod q
    \<and> lval (rawShl P G a n) = (lval a * 2 ^ n mod 2 ^ 254) mod q
    \<and> lval (rawShr G a n) = lval a div 2 ^ n"
proof -
  note rf = bn254_raw_field [OF assms(1,2)] and len = reduced_length [OF assms(3)]
  from raw_field.rawAnd_correct [OF rf assms(3,4)] raw_field.rawOr_correct [OF rf assms(3,4)]
    raw_field.rawXor_correct [OF rf assms(3,4)] raw_field.rawNot_correct [OF rf assms(3)]
    raw_field.rawShl_correct [OF rf len assms(5)] raw_field.rawShr_correct [OF rf len assms(5)]
  show ?thesis by (simp only: simp_thms)
qed

theorem raw_bit_operations_witness:
  "lval (rawShl Fr_consts ref_gmp [0, 0, 1, 0] 70) = 2 ^ 198
    \<and> lval (rawShr ref_gmp [0, 0, 1, 0] 70) = 2 ^ 58"
  using raw_bit_operations [OF bn254_Fr ref_mpn.mpn_laws_axioms, of "[0, 0, 1, 0]" "[1, 0, 0, 0]" 70]
  by (simp add: reduced_def)

end
