(* ===== verification/Field_Types.thy ===== *)
theory Field_Types
  imports Fq_Prime Raw_Consts
begin

section \<open>The base field and its quadratic extension\<close>

text \<open>
  The mathematical fields the code computes in: \<open>fq\<close>, the residues modulo the base field prime, a
  field because the modulus is prime, and \<open>fq2\<close>, the pairs \<open>a + b u\<close> with \<open>u\<^sup>2 = -1\<close>, a field because
  \<open>-1\<close> has no square root (\<open>q = 3\<close> modulo 4). The specifications of the field code, of \<open>F2Field\<close> and of
  the curve are equations in these types.
\<close>

definition fq_mod :: nat where
  "fq_mod = Fq_prime"

lemma fq_mod_prime: "is_prime fq_mod"
  unfolding fq_mod_def by (rule q_prime)

lemma fq_mod_gt: "4 < fq_mod"
  by (simp add: fq_mod_def)

lemma fq_mod_mod4: "fq_mod mod 4 = 3"
  by (simp add: fq_mod_def)

typedef fq = "{n :: nat. n < fq_mod}"
  morphisms fq_nat Abs_fq
  using fq_mod_gt by (auto intro: exI [of _ 0])

setup_lifting type_definition_fq

lemma fq_nat_lt: "fq_nat a < fq_mod"
  using fq_nat [of a] by simp

lemma fq_mod_pos: "0 < fq_mod"
  using fq_mod_gt by simp

instantiation fq :: comm_ring_1
begin

lift_definition zero_fq :: fq is 0
  using fq_mod_gt by simp

lift_definition one_fq :: fq is 1
  using fq_mod_gt by simp

lift_definition plus_fq :: "fq \<Rightarrow> fq \<Rightarrow> fq" is "\<lambda>a b. (a + b) mod fq_mod"
  using fq_mod_gt by simp

lift_definition times_fq :: "fq \<Rightarrow> fq \<Rightarrow> fq" is "\<lambda>a b. (a * b) mod fq_mod"
  using fq_mod_gt by simp

lift_definition uminus_fq :: "fq \<Rightarrow> fq" is "\<lambda>a. (fq_mod - a) mod fq_mod"
  using fq_mod_gt by simp

lift_definition minus_fq :: "fq \<Rightarrow> fq \<Rightarrow> fq" is "\<lambda>a b. (a + (fq_mod - b)) mod fq_mod"
  using fq_mod_gt by simp

instance
proof
  fix a b c :: fq
  show "a * b * c = a * (b * c)" by transfer (simp add: mod_mult_left_eq mod_mult_right_eq ac_simps)
  show "a * b = b * a" by transfer (simp add: ac_simps)
  show "1 * a = a" by transfer simp
  show "a + b + c = a + (b + c)" by transfer (simp add: mod_add_left_eq mod_add_right_eq ac_simps)
  show "a + b = b + a" by transfer (simp add: ac_simps)
  show "0 + a = a" by transfer simp
  show "- a + a = 0" by transfer (simp add: mod_add_left_eq)
  show "a - b = a + - b" by transfer (simp add: mod_add_right_eq)
  show "(a + b) * c = a * c + b * c"
    by transfer (simp add: mod_mult_left_eq mod_add_eq add_mult_distrib)
  show "(0 :: fq) \<noteq> 1" by transfer simp
qed

end

lemma fq_nat_0 [simp]: "fq_nat 0 = 0"
  by (rule zero_fq.rep_eq)

lemma fq_nat_1 [simp]: "fq_nat 1 = 1"
  by (rule one_fq.rep_eq)

lemma fq_nat_add: "fq_nat (a + b) = (fq_nat a + fq_nat b) mod fq_mod"
  by (rule plus_fq.rep_eq)

lemma fq_nat_mult: "fq_nat (a * b) = (fq_nat a * fq_nat b) mod fq_mod"
  by (rule times_fq.rep_eq)

lemma fq_nat_of_nat: "fq_nat (of_nat n) = n mod fq_mod"
  using fq_mod_gt by (induction n) (simp_all add: fq_nat_add mod_Suc_eq mod_add_right_eq)

lemma fq_nat_power: "fq_nat (a ^ n) = fq_nat a ^ n mod fq_mod"
  using fq_mod_gt by (induction n) (simp_all add: fq_nat_mult mod_mult_right_eq)

lemma of_nat_fq_nat [simp]: "of_nat (fq_nat a) = a"
  by (metis fq_nat_inject fq_nat_lt fq_nat_of_nat mod_less)

lemma fq_of_nat_eq_iff: "(of_nat m :: fq) = of_nat n \<longleftrightarrow> m mod fq_mod = n mod fq_mod"
  by (metis fq_nat_inject fq_nat_of_nat)

lemma fq_of_nat_mod [simp]: "(of_nat (n mod fq_mod) :: fq) = of_nat n"
  by (simp add: fq_of_nat_eq_iff)

lemma fq_fermat:
  fixes a :: fq
  assumes "a \<noteq> 0"
  shows "a ^ (fq_mod - 1) = 1"
proof -
  have "fq_nat a \<noteq> 0" using assms by (metis fq_nat_0 fq_nat_inject)
  then have "\<not> fq_mod dvd fq_nat a" using fq_nat_lt [of a] by (auto dest: dvd_imp_le)
  from fermat [OF fq_mod_prime this] have "fq_nat (a ^ (fq_mod - 1)) = fq_nat 1"
    by (simp add: fq_nat_power)
  then show ?thesis by (simp only: fq_nat_inject)
qed

instantiation fq :: field
begin

definition inverse_fq :: "fq \<Rightarrow> fq" where
  "inverse_fq a = a ^ (fq_mod - 2)"

definition divide_fq :: "fq \<Rightarrow> fq \<Rightarrow> fq" where
  "divide_fq a b = a * inverse_class.inverse b"

instance
proof
  fix a b :: fq
  show "inverse_class.inverse a * a = 1" if "a \<noteq> 0"
  proof -
    have "a ^ (fq_mod - 2) * a = a ^ (Suc (fq_mod - 2))" by (simp add: mult.commute)
    also have "Suc (fq_mod - 2) = fq_mod - 1" using fq_mod_gt by simp
    finally show ?thesis using fq_fermat [OF that] by (simp add: inverse_fq_def)
  qed
  show "inverse_class.inverse (0 :: fq) = 0" using fq_mod_gt by (simp add: inverse_fq_def zero_power)
  show "a div b = a * inverse_class.inverse b" by (simp add: divide_fq_def)
qed

end

subsection \<open>Minus one is not a square\<close>

lemma fq_two_neq_0: "(2 :: fq) \<noteq> 0"
proof
  assume "(2 :: fq) = 0"
  then have "(of_nat 2 :: fq) = of_nat 0" by simp
  then show False using fq_mod_gt by (simp only: fq_of_nat_eq_iff) simp
qed

lemma fq_minus_one_not_square: "(a :: fq) * a \<noteq> -1"
proof
  assume sq: "a * a = -1"
  then have "a \<noteq> 0" by auto
  from fq_fermat [OF this] have one: "a ^ (fq_mod - 1) = 1" .
  have "fq_mod - 1 = 2 * ((fq_mod - 1) div 2)" and odd: "odd ((fq_mod - 1) div 2)"
    using fq_mod_mod4 by presburger+
  then have "a ^ (fq_mod - 1) = (a * a) ^ ((fq_mod - 1) div 2)"
    by (metis power2_eq_square power_mult)
  also have "\<dots> = -1" unfolding sq using odd by simp
  finally have "(1 :: fq) = -1" using one by simp
  then have "(2 :: fq) = 0" by (metis add.right_inverse one_add_one)
  with fq_two_neq_0 show False ..
qed

lemma fq_norm_eq_0: "a * a + b * b = 0 \<longleftrightarrow> a = 0 \<and> b = 0" for a b :: fq
proof
  assume *: "a * a + b * b = 0"
  show "a = 0 \<and> b = 0"
  proof (cases "b = 0")
    case False
    have "a * a = - (b * b)" using * by (simp add: eq_neg_iff_add_eq_0)
    then have "(a / b) * (a / b) = -1" using False by (simp add: field_simps)
    with fq_minus_one_not_square show ?thesis by blast
  qed (use * in simp)
qed simp

subsection \<open>The quadratic extension\<close>

datatype fq2 = Fq2 (re2: fq) (im2: fq)

instantiation fq2 :: field
begin

definition zero_fq2 :: fq2 where
  "zero_fq2 = Fq2 0 0"

definition one_fq2 :: fq2 where
  "one_fq2 = Fq2 1 0"

definition plus_fq2 :: "fq2 \<Rightarrow> fq2 \<Rightarrow> fq2" where
  "plus_fq2 x y = Fq2 (re2 x + re2 y) (im2 x + im2 y)"

definition minus_fq2 :: "fq2 \<Rightarrow> fq2 \<Rightarrow> fq2" where
  "minus_fq2 x y = Fq2 (re2 x - re2 y) (im2 x - im2 y)"

definition uminus_fq2 :: "fq2 \<Rightarrow> fq2" where
  "uminus_fq2 x = Fq2 (- re2 x) (- im2 x)"

definition times_fq2 :: "fq2 \<Rightarrow> fq2 \<Rightarrow> fq2" where
  "times_fq2 x y = Fq2 (re2 x * re2 y - im2 x * im2 y) (re2 x * im2 y + im2 x * re2 y)"

definition inverse_fq2 :: "fq2 \<Rightarrow> fq2" where
  "inverse_fq2 x = Fq2 (re2 x / (re2 x * re2 x + im2 x * im2 x)) (- im2 x / (re2 x * re2 x + im2 x * im2 x))"

definition divide_fq2 :: "fq2 \<Rightarrow> fq2 \<Rightarrow> fq2" where
  "divide_fq2 x y = x * inverse_class.inverse y"

lemmas fq2_defs = zero_fq2_def one_fq2_def plus_fq2_def minus_fq2_def uminus_fq2_def times_fq2_def

instance
proof
  fix a b c :: fq2
  show "a * b * c = a * (b * c)" by (simp add: fq2_defs algebra_simps)
  show "a * b = b * a" by (simp add: fq2_defs algebra_simps)
  show "1 * a = a" by (simp add: fq2_defs)
  show "a + b + c = a + (b + c)" by (simp add: fq2_defs algebra_simps)
  show "a + b = b + a" by (simp add: fq2_defs algebra_simps)
  show "0 + a = a" by (simp add: fq2_defs)
  show "- a + a = 0" by (simp add: fq2_defs)
  show "a - b = a + - b" by (simp add: fq2_defs)
  show "(a + b) * c = a * c + b * c" by (simp add: fq2_defs algebra_simps)
  show "(0 :: fq2) \<noteq> 1" by (simp add: fq2_defs)
  show "inverse_class.inverse (0 :: fq2) = 0" by (simp add: inverse_fq2_def fq2_defs)
  show "a div b = a * inverse_class.inverse b" by (simp add: divide_fq2_def)
  show "inverse_class.inverse a * a = 1" if "a \<noteq> 0"
  proof -
    let ?n = "re2 a * re2 a + im2 a * im2 a"
    have "?n \<noteq> 0" using that by (cases a) (simp add: fq_norm_eq_0 zero_fq2_def)
    then show ?thesis
      by (simp add: inverse_fq2_def times_fq2_def one_fq2_def add_divide_distrib [symmetric] mult.commute)
  qed
qed

end

lemma fq2_sel [simp]:
  "re2 (0 :: fq2) = 0" "im2 (0 :: fq2) = 0" "re2 (1 :: fq2) = 1" "im2 (1 :: fq2) = 0"
  "re2 (x + y) = re2 x + re2 y" "im2 (x + y) = im2 x + im2 y"
  "re2 (x - y) = re2 x - re2 y" "im2 (x - y) = im2 x - im2 y"
  "re2 (- x) = - re2 x" "im2 (- x) = - im2 x"
  "re2 (x * y) = re2 x * re2 y - im2 x * im2 y" "im2 (x * y) = re2 x * im2 y + im2 x * re2 y"
  by (simp_all add: fq2_defs)

lemma fq2_eq_iff: "x = y \<longleftrightarrow> re2 x = re2 y \<and> im2 x = im2 y"
  by (cases x; cases y) simp

end
