(* ===== verification/Raw_Class.thy ===== *)
theory Raw_Class
  imports Raw_Consts
begin

section \<open>The classes RawFr and RawFq\<close>

text \<open>
  \<open>fr.cpp\<close>, \<open>fq.cpp\<close> and the class at the end of \<open>fr.hpp\<close>, \<open>fq.hpp\<close>: elements in Montgomery form
  with conversions from and to integers, decimal strings and bytes, and inversion and
  exponentiation. The two sources are one text for two primes, so the methods take the field
  constants; the theory defines the base-field instances and shows what each method computes.
\<close>

subsection \<open>Initialisation\<close>

record field_globals =
  g_q :: int
  g_zero :: int
  g_one :: int
  g_mask :: int
  g_nBits :: nat
  g_initialized :: bool

text \<open>Limbs in memory: eight bytes each, least significant first.\<close>

definition limb_bytes :: "limbs \<Rightarrow> u8 list" where
  "limb_bytes a = bytes_of (8 * length a) (lval a)"

definition import_limbs :: "gmp \<Rightarrow> limbs \<Rightarrow> int" where
  "import_limbs G a = mpz_import G 4 (-1) 8 (-1) 0 (limb_bytes a)"

definition field_init :: "raw_consts \<Rightarrow> gmp \<Rightarrow> field_globals \<Rightarrow> bool \<times> field_globals" where
  "field_init P G g = (if g_initialized g then (False, g)
     else (let q = import_limbs G (q4 P);
               zero = mpz_set_ui G 0;
               one = mpz_set_ui G 1;
               nBits = mpz_sizeinbase G q 2;
               mask = mpz_mul_2exp G one nBits;
               mask = mpz_sub G mask one
           in (True, \<lparr> g_q = q, g_zero = zero, g_one = one, g_mask = mask, g_nBits = nBits,
                g_initialized = True \<rparr>)))"

text \<open>The statics before any initialiser ran, and after the static initialiser of the file.\<close>

definition globals0 :: field_globals where
  "globals0 = \<lparr> g_q = 0, g_zero = 0, g_one = 0, g_mask = 0, g_nBits = 0, g_initialized = False \<rparr>"

definition field_q :: "raw_consts \<Rightarrow> gmp \<Rightarrow> int" where
  "field_q P G = g_q (snd (field_init P G globals0))"

subsection \<open>Conversions\<close>

text \<open>
  \<open>for (...) r.v[i] = 0; mpz_export(r.v, NULL, -1, 8, -1, 0, v)\<close>: the exported words over four zero
  limbs. Words beyond the fourth would be written past the array; the lemma \<open>export_fits\<close> shows
  that no residue has any.
\<close>

definition export_limbs :: "gmp \<Rightarrow> int \<Rightarrow> limbs" where
  "export_limbs G v = (let bs = mpz_export G (-1) 8 (-1) 0 v
     in limbs_of 4 (bval (bs @ replicate (32 - length bs) 0)))"

definition RawF_fromString :: "raw_consts \<Rightarrow> gmp \<Rightarrow> string \<Rightarrow> nat \<Rightarrow> limbs" where
  "RawF_fromString P G s radix = (let mr = snd (mpz_set_str G s radix);
       mr = mpz_fdiv_r G mr (field_q P G)
     in rawToMontgomery P G (export_limbs G mr))"

definition RawF_fromUI :: "raw_consts \<Rightarrow> gmp \<Rightarrow> u64 \<Rightarrow> limbs" where
  "RawF_fromUI P G v = rawToMontgomery P G (export_limbs G (mpz_set_ui G v))"

definition RawF_set :: "raw_consts \<Rightarrow> gmp \<Rightarrow> int \<Rightarrow> limbs" where
  "RawF_set P G val = (let mr = mpz_set_si G val;
       mr = (if val < 0 then mpz_add G mr (field_q P G) else mr)
     in rawToMontgomery P G (export_limbs G mr))"

definition RawF_toString :: "raw_consts \<Rightarrow> gmp \<Rightarrow> limbs \<Rightarrow> nat \<Rightarrow> string" where
  "RawF_toString P G a radix = (let tmp = rawFromMontgomery P G a
     in mpz_get_str G radix (import_limbs G tmp))"

definition RawF_toMpz :: "raw_consts \<Rightarrow> gmp \<Rightarrow> limbs \<Rightarrow> int" where
  "RawF_toMpz P G a = (let tmp = rawFromMontgomery P G a in import_limbs G tmp)"

definition RawF_fromMpz :: "raw_consts \<Rightarrow> gmp \<Rightarrow> int \<Rightarrow> limbs" where
  "RawF_fromMpz P G a = rawToMontgomery P G (export_limbs G a)"

text \<open>
  The two byte-array conversions return a code and the new contents of the array or element.
  \<open>mpz_import\<close> is called with order 0, which its documentation does not define.
\<close>

definition RawF_toRprBE :: "raw_consts \<Rightarrow> gmp \<Rightarrow> limbs \<Rightarrow> u8 list \<Rightarrow> int \<Rightarrow> int \<times> u8 list" where
  "RawF_toRprBE P G element data n_bytes = (if n_bytes < 32 then (-32, data)
     else (let bs = mpz_export G 1 8 1 0 (RawF_toMpz P G element)
       in (32, bs @ drop (length bs) data)))"

definition RawF_fromRprBE :: "raw_consts \<Rightarrow> gmp \<Rightarrow> limbs \<Rightarrow> u8 list \<Rightarrow> int \<Rightarrow> int \<times> limbs" where
  "RawF_fromRprBE P G element data n_bytes = (if n_bytes < 32 then (-32, element)
     else (32, RawF_fromMpz P G (mpz_import G 32 0 1 0 0 data)))"

subsection \<open>Inversion and exponentiation\<close>

definition RawF_inv :: "raw_consts \<Rightarrow> gmp \<Rightarrow> limbs \<Rightarrow> limbs" where
  "RawF_inv P G a = (let mr = import_limbs G a;
       mr = snd (mpz_invert G mr (field_q P G))
     in rawMMul P G (export_limbs G mr) (rawR3 P))"

definition RawF_div :: "raw_consts \<Rightarrow> gmp \<Rightarrow> limbs \<Rightarrow> limbs \<Rightarrow> limbs" where
  "RawF_div P G a b = (let tmp = RawF_inv P G b in rawMMul P G a tmp)"

definition bit_is_set :: "u8 list \<Rightarrow> nat \<Rightarrow> bool" where
  "bit_is_set s p \<longleftrightarrow> bit (s ! (p div 8)) (p mod 8)"

lemma bit_bval: "n < 8 * length s \<Longrightarrow> bit (bval s) n \<longleftrightarrow> bit_is_set s n"
proof (induction s arbitrary: n)
  case (Cons x s)
  have low: "bit (unat x + 256 * v) m \<longleftrightarrow> bit x m" if "m < 8" for m v
  proof -
    have "take_bit 8 (unat x + 256 * v) = unat x" using unat_byte_lt [of x] by (simp add: take_bit_eq_mod)
    then have "bit (unat x + 256 * v) m \<longleftrightarrow> bit (unat x) m" using that by (metis bit_take_bit_iff)
    then show ?thesis by (simp add: bit_unsigned_iff)
  qed
  have high: "bit (unat x + 256 * v) m \<longleftrightarrow> bit v (m - 8)" if "8 \<le> m" for m v
  proof -
    have "drop_bit 8 (unat x + 256 * v) = v" using unat_byte_lt [of x] by (simp add: drop_bit_eq_div)
    then show ?thesis using that by (metis bit_drop_bit_eq comp_apply le_add_diff_inverse)
  qed
  show ?case
  proof (cases "n < 8")
    case True
    then show ?thesis by (simp add: low bit_is_set_def)
  next
    case False
    then obtain m where "n = m + 8" by (metis add.commute le_Suc_ex not_less)
    then have "(x # s) ! (n div 8) = s ! (m div 8)" "n mod 8 = m mod 8" "bit (bval (x # s)) n = bit (bval s) m"
      by (simp_all add: high)
    with Cons.IH [of m] Cons.prems \<open>n = m + 8\<close> show ?thesis by (simp only: bit_is_set_def) simp
  qed
qed simp

text \<open>
  The loop \<open>for (int i = scalarSize*8-1; i >= 0; i--)\<close>; the state is \<open>oneFound\<close> and the result.
\<close>

primrec RawF_exp_loop ::
    "raw_consts \<Rightarrow> gmp \<Rightarrow> u8 list \<Rightarrow> limbs \<Rightarrow> nat \<Rightarrow> bool \<times> limbs \<Rightarrow> bool \<times> limbs" where
  "RawF_exp_loop P G scalar copyBase 0 st = st"
| "RawF_exp_loop P G scalar copyBase (Suc i) st = RawF_exp_loop P G scalar copyBase i
     (case st of (oneFound, r) \<Rightarrow>
       if \<not> oneFound then
         (if \<not> bit_is_set scalar i then (False, r) else (True, rawCopy copyBase))
       else
         (let r = rawMSquare P G r
          in (True, if bit_is_set scalar i then rawMMul P G r copyBase else r)))"

definition RawF_one :: "raw_consts \<Rightarrow> gmp \<Rightarrow> limbs" where
  "RawF_one P G = RawF_set P G 1"

definition RawF_zero :: "raw_consts \<Rightarrow> gmp \<Rightarrow> limbs" where
  "RawF_zero P G = RawF_set P G 0"

definition RawF_negOne :: "raw_consts \<Rightarrow> gmp \<Rightarrow> limbs" where
  "RawF_negOne P G = rawNeg P G (RawF_one P G)"

definition RawF_exp :: "raw_consts \<Rightarrow> gmp \<Rightarrow> limbs \<Rightarrow> limbs \<Rightarrow> u8 list \<Rightarrow> nat \<Rightarrow> limbs" where
  "RawF_exp P G r base scalar scalarSize =
     (let copyBase = rawCopy base in
      case RawF_exp_loop P G scalar copyBase (scalarSize * 8) (False, r) of (oneFound, r) \<Rightarrow>
        if \<not> oneFound then rawCopy (RawF_one P G) else r)"

subsection \<open>What the methods compute\<close>

locale raw_class = raw_field P q G + gmp_laws G for P :: raw_consts and q :: nat and G :: gmp
begin

lemma import_limbs_value: "length a = 4 \<Longrightarrow> import_limbs G a = int (lval a)"
  using import_le_law [of 4 8 "limb_bytes a"] lt_R [of a]
  by (simp add: import_limbs_def limb_bytes_def bval_bytes_of mont_R_def)

lemma field_q_value: "field_q P G = int q"
  using import_limbs_value [of "q4 P"] by (simp add: field_q_def field_init_def globals0_def Let_def)

lemma init_value:
  assumes "\<not> g_initialized g"
  shows "field_init P G g = (True, \<lparr> g_q = int q, g_zero = 0, g_one = 1, g_mask = 2 ^ 254 - 1,
      g_nBits = 254, g_initialized = True \<rparr>)"
proof -
  have "2 ^ (254 - 1) \<le> int q" "int q < 2 ^ 254" using q_low q_high by simp_all
  from sizeinbase_2_law [OF _ this] have "mpz_sizeinbase G (int q) 2 = 254" using q_low by simp
  then show ?thesis using assms import_limbs_value [of "q4 P"]
    by (simp add: field_init_def Let_def set_ui_law mul_2exp_law mpz_sub_law)
qed

lemma export_fits:
  assumes "0 \<le> v" and "nat v < mont_R"
  shows "length (mpz_export G (-1) 8 (-1) 0 v) \<le> 32"
proof -
  have "nat v < 256 ^ (8 * 4)" using assms(2) by (simp add: mont_R_def)
  from export_words_le [OF this] export_le_law [of 8 v] assms(1) show ?thesis by simp
qed

lemma export_limbs_value:
  assumes "0 \<le> v" and "nat v < mont_R"
  shows "length (export_limbs G v) = 4 \<and> lval (export_limbs G v) = nat v"
  using export_le_law [of 8 v] assms export_fits [OF assms]
  by (simp add: export_limbs_def Let_def lval_limbs_of bval_append mont_R_def)

lemma export_residue:
  assumes "0 \<le> v" and "v < int q"
  shows "reduced q (export_limbs G v) \<and> lval (export_limbs G v) = nat v"
proof -
  have "nat v < q" using assms by linarith
  with export_limbs_value [OF assms(1)] q_lt_R show ?thesis by (simp add: reduced_def)
qed

lemma mval_export:
  assumes "0 \<le> v" and "nat v < mont_R"
  shows "reduced q (rawToMontgomery P G (export_limbs G v))
    \<and> mval q (rawToMontgomery P G (export_limbs G v)) = nat v mod q"
  using export_limbs_value [OF assms] rawToMontgomery_correct mval_ToMontgomery by simp

lemma fromUI_value: "reduced q (RawF_fromUI P G v) \<and> mval q (RawF_fromUI P G v) = unat v"
proof -
  have lt: "unat v < q" using unat_lt_base [of v] q_low by simp
  then have "unat v < mont_R" using q_lt_R by simp
  with mval_export [of "int (unat v)"] lt show ?thesis
    unfolding RawF_fromUI_def set_ui_law by (simp only: nat_int of_nat_0_le_iff mod_less simp_thms)
qed

lemma set_value:
  assumes "- (2 ^ 31) \<le> i" and "i < 2 ^ 31"
  shows "reduced q (RawF_set P G i) \<and> int (mval q (RawF_set P G i)) = i mod int q"
proof -
  let ?m = "if i < 0 then i + int q else i"
  have "i mod int q = ?m"
  proof (cases "i < 0")
    case True
    have "(i + int q) mod int q = i + int q" using True assms q_low by (intro mod_pos_pos_trivial) auto
    with True show ?thesis by simp
  next
    case False
    with assms q_low show ?thesis by simp
  qed
  moreover have m: "0 \<le> ?m" "nat ?m < q" using assms q_low by (auto simp: nat_less_iff)
  moreover have "nat ?m < mont_R" using m q_lt_R by linarith
  ultimately show ?thesis
    using mval_export [of ?m]
    by (simp add: RawF_set_def Let_def set_si_law mpz_add_law field_q_value split: if_splits)
qed

lemma toMpz_value: "length a = 4 \<Longrightarrow> RawF_toMpz P G a = int (mval q a)"
  using rawFromMontgomery_correct [of a] lval_FromMontgomery [of a]
  by (simp add: RawF_toMpz_def Let_def import_limbs_value reduced_def)

lemma fromMpz_value:
  assumes "0 \<le> v" and "v < int q"
  shows "reduced q (RawF_fromMpz P G v) \<and> mval q (RawF_fromMpz P G v) = nat v"
proof -
  have "nat v < q" using assms by linarith
  with mval_export [OF assms(1)] q_lt_R show ?thesis by (simp add: RawF_fromMpz_def)
qed

lemma fromString_value:
  assumes "s \<noteq> []" and "list_all digit_char s"
  shows "reduced q (RawF_fromString P G s 10) \<and> mval q (RawF_fromString P G s 10) = dec_val s mod q"
proof -
  have "mpz_fdiv_r G (int (dec_val s)) (int q) = int (dec_val s mod q)"
    using fdiv_r_law [of "int q"] by (simp add: zmod_int)
  moreover have "int (dec_val s mod q) < int q" by (simp only: of_nat_less_iff) simp
  ultimately show ?thesis using set_str_law [OF assms] fromMpz_value [of "int (dec_val s mod q)"]
    by (simp add: RawF_fromString_def Let_def field_q_value RawF_fromMpz_def)
qed

lemma fromString_minus_one: "mval q (RawF_fromString P G ''-1'' 10) = q - 1
    \<and> reduced q (RawF_fromString P G ''-1'' 10)"
proof -
  have "mpz_set_str G ''-1'' 10 = (0, - 1)"
    using set_str_minus_law [of "''1''"] by (simp add: digit_char_def dec_val_def)
  moreover have "mpz_fdiv_r G (- 1) (int q) = int q - 1"
    using fdiv_r_law [of "int q" "-1"] q_low by (simp add: zmod_minus1)
  moreover have "0 \<le> int q - 1" "int q - 1 < int q" "nat (int q - 1) = q - 1" using q_low by simp_all
  ultimately show ?thesis using fromMpz_value [of "int q - 1"]
    by (simp add: RawF_fromString_def Let_def field_q_value RawF_fromMpz_def)
qed

lemma toString_value: "length a = 4 \<Longrightarrow> RawF_toString P G a 10 = dec_str (mval q a)"
  using toMpz_value [of a] get_str_law [of "int (mval q a)"]
  by (simp add: RawF_toString_def RawF_toMpz_def Let_def)

lemma one_value: "reduced q (RawF_one P G) \<and> mval q (RawF_one P G) = 1"
proof -
  have "int (mval q (RawF_set P G 1)) = 1 mod int q" using set_value [of 1] by simp
  also have "\<dots> = 1" using q_low by simp
  finally show ?thesis using set_value [of 1] by (simp add: RawF_one_def)
qed

lemma zero_value: "reduced q (RawF_zero P G) \<and> mval q (RawF_zero P G) = 0"
  using set_value [of 0] by (simp add: RawF_zero_def)

lemma copy_id: "length a = 4 \<Longrightarrow> rawCopy a = a"
  by (elim length4E) (simp add: rawCopy_def)

lemma unit_coprime: "(a * t) mod q = 1 \<Longrightarrow> coprime (int a) (int q)"
proof -
  assume *: "(a * t) mod q = 1"
  have "coprime a q"
  proof (rule coprimeI)
    fix d assume d: "d dvd a" "d dvd q"
    then have "d dvd (a * t) mod q" by (intro dvd_mod) auto
    with * show "d dvd 1" by simp
  qed
  then show ?thesis by simp
qed

lemma inv_value:
  assumes a: "length a = 4" and u: "(mval q a * u) mod q = 1"
  shows "reduced q (RawF_inv P G a) \<and> mval q (RawF_inv P G a) = u mod q"
proof -
  let ?x = "lval a" and ?m = "mval q a"
  have x: "?x mod q = (mont_R * ?m) mod q" by (simp add: mval_back)
  have "(?x * (mont_Rinv q * u)) mod q = ((mont_R * ?m) * (mont_Rinv q * u)) mod q"
    using x by (metis mod_mult_left_eq)
  also have "\<dots> = ((mont_R * mont_Rinv q mod q) * (?m * u mod q)) mod q"
    by (simp add: mod_mult_eq ac_simps)
  finally have unit: "(?x * (mont_Rinv q * u)) mod q = 1" using q_low by (simp add: Rinv_law u)
  obtain ret y where inv: "mpz_invert G (int ?x) (int q) = (ret, y)" by fastforce
  have "1 < int q" using q_low by simp
  from invert_law [OF this unit_coprime [OF unit] inv]
  have y: "0 \<le> y" "y < int q" "(int ?x * y) mod int q = 1" by simp_all
  define z where "z = nat y"
  have z: "y = int z" "z < q" using y by (simp_all add: z_def nat_less_iff)
  have one: "(?x * z) mod q = 1" using y(3) unfolding z(1)
    by (metis of_nat_1 of_nat_eq_iff of_nat_mult zmod_int)
  let ?e = "export_limbs G y"
  from export_residue [OF y(1,2)] have e: "length ?e = 4" "lval ?e = z"
    by (simp_all add: reduced_def z_def)
  have R3: "reduced q (rawR3 P)" by (simp add: reduced_def length_R3 lval_R3)
  have res: "RawF_inv P G a = rawMMul P G ?e (rawR3 P)"
    using a inv by (simp add: RawF_inv_def Let_def import_limbs_value field_q_value)
  from rawMMul_correct [OF e(1) R3] have red: "reduced q (RawF_inv P G a)" by (simp add: res)
  from rawMMul_correct [OF e(1) R3] have "(mont_R * lval (RawF_inv P G a)) mod q = (z * lval (rawR3 P)) mod q"
    by (simp add: res e(2))
  also have "(z * lval (rawR3 P)) mod q = (mont_R * (mont_R * (mont_R * z))) mod q"
    unfolding lval_R3 by (simp add: mod_mult_right_eq power3_eq_cube ac_simps)
  finally have "(mont_R * (mont_R * z)) mod q = lval (RawF_inv P G a) mod q"
    by (metis mont_cancel)
  from mval_unique [OF this] have val: "mval q (RawF_inv P G a) = (mont_R * z) mod q" by simp
  have "(mont_R * z) mod q = ((mont_R * z) * (?m * u mod q)) mod q" by (simp add: u)
  also have "\<dots> = ((mont_R * z) * (?m * u)) mod q" by (rule mod_mult_right_eq)
  also have "\<dots> = ((mont_R * ?m) * (z * u)) mod q" by (simp only: ac_simps)
  also have "\<dots> = (?x * (z * u)) mod q" using x by (metis mod_mult_left_eq)
  also have "\<dots> = ((?x * z mod q) * u) mod q" by (simp add: mod_mult_left_eq mult.assoc)
  finally have "(mont_R * z) mod q = u mod q" by (simp add: one)
  with red val show ?thesis by simp
qed

lemma div_value:
  assumes "length a = 4" and "length b = 4" and "(mval q b * u) mod q = 1"
  shows "reduced q (RawF_div P G a b) \<and> mval q (RawF_div P G a b) = (mval q a * u) mod q"
  using inv_value [OF assms(2,3)] rawMMul_correct [OF assms(1)] mval_MMul [OF assms(1)]
  by (simp add: RawF_div_def Let_def mod_mult_right_eq)

lemma negOne_value: "reduced q (RawF_negOne P G) \<and> mval q (RawF_negOne P G) = q - 1"
proof -
  have red: "reduced q (RawF_negOne P G)"
    using rawNeg_correct one_value by (simp add: RawF_negOne_def)
  have "(mval q (RawF_negOne P G) + 1) mod q = 0"
    using mval_Neg [of "RawF_one P G"] one_value by (simp add: RawF_negOne_def)
  then have "q dvd mval q (RawF_negOne P G) + 1" by (simp add: mod_eq_0_iff_dvd)
  then have "q \<le> mval q (RawF_negOne P G) + 1" by (rule dvd_imp_le) simp
  with red mval_lt [of "RawF_negOne P G"] show ?thesis by simp
qed

subsection \<open>Exponentiation\<close>

text \<open>The loop invariant: the exponent read so far is \<open>e\<close>, and it is zero until the first one bit.\<close>

definition exp_inv :: "limbs \<Rightarrow> nat \<Rightarrow> bool \<times> limbs \<Rightarrow> bool" where
  "exp_inv base e st \<longleftrightarrow> (fst st \<longleftrightarrow> e \<noteq> 0)
    \<and> (fst st \<longrightarrow> reduced q (snd st) \<and> mval q (snd st) = mval q base ^ e mod q)"

lemma exp_loop_value:
  assumes base: "reduced q base" and st: "exp_inv base e st"
    and bits: "\<And>j. j < i \<Longrightarrow> bit_is_set scalar j \<longleftrightarrow> bit N j"
  shows "exp_inv base (e * 2 ^ i + take_bit i N) (RawF_exp_loop P G scalar base i st)"
  using st bits
proof (induction i arbitrary: e st)
  case (Suc i)
  obtain found r where frp: "st = (found, r)" by fastforce
  let ?e = "2 * e + (if bit N i then 1 else 0)"
  let ?st = "case st of (oneFound, r) \<Rightarrow>
       if \<not> oneFound then (if \<not> bit_is_set scalar i then (False, r) else (True, rawCopy base))
       else (let r = rawMSquare P G r in (True, if bit_is_set scalar i then rawMMul P G r base else r))"
  have copy: "rawCopy base = base" using base by (simp add: copy_id reduced_def)
  have bit: "bit_is_set scalar i \<longleftrightarrow> bit N i" using Suc.prems(2) by simp
  have "exp_inv base ?e ?st"
  proof (cases found)
    case False
    with Suc.prems(1) frp base show ?thesis
      by (auto simp: exp_inv_def copy bit mod_less [OF mval_lt])
  next
    case True
    let ?s = "rawMSquare P G r"
    from True Suc.prems(1) frp have r: "reduced q r" "mval q r = mval q base ^ e mod q" and "e \<noteq> 0"
      by (simp_all add: exp_inv_def)
    have s: "reduced q ?s" "mval q ?s = mval q base ^ (2 * e) mod q"
      using rawMSquare_correct [OF r(1)] mval_MMul [of r r] r
      by (simp_all add: rawMSquare_def reduced_def mod_mult_eq mult_2 power_add)
    have "reduced q (rawMMul P G ?s base)" "mval q (rawMMul P G ?s base) = mval q base ^ (2 * e + 1) mod q"
      using rawMMul_correct [OF _ base] mval_MMul [OF _ base] s
      by (simp_all add: reduced_def mod_mult_left_eq mod_mult_right_eq mult.commute)
    with True s frp \<open>e \<noteq> 0\<close> show ?thesis by (simp add: exp_inv_def Let_def bit)
  qed
  from Suc.IH [OF this] Suc.prems(2)
  have "exp_inv base (?e * 2 ^ i + take_bit i N) (RawF_exp_loop P G scalar base (Suc i) st)"
    by simp
  moreover have "?e * 2 ^ i + take_bit i N = e * 2 ^ Suc i + take_bit (Suc i) N"
    by (simp add: take_bit_Suc_from_most algebra_simps)
  ultimately show ?case by simp
qed (simp add: exp_inv_def)

lemma exp_value:
  assumes base: "reduced q base" and n: "n \<le> length scalar"
  shows "reduced q (RawF_exp P G r base scalar n)
    \<and> mval q (RawF_exp P G r base scalar n) = mval q base ^ (bval (take n scalar)) mod q"
proof -
  let ?N = "bval (take n scalar)"
  have copy: "rawCopy base = base" "rawCopy (RawF_one P G) = RawF_one P G"
    using base one_value by (simp_all add: copy_id reduced_def)
  have bits: "bit_is_set scalar j \<longleftrightarrow> bit ?N j" if "j < n * 8" for j
  proof -
    have "j < 8 * length (take n scalar)" "j div 8 < n" using that n by auto
    then show ?thesis using bit_bval [of j "take n scalar"] by (simp add: bit_is_set_def)
  qed
  have "?N < 2 ^ (n * 8)" using bval_lt [of "take n scalar"] n
    using power_mult [of "2 :: nat" 8 n] by (simp add: min_absorb2 mult.commute [of n 8])
  then have tk: "take_bit (n * 8) ?N = ?N" by (simp add: take_bit_nat_eq_self_iff)
  have "exp_inv base 0 (False, r)" by (simp add: exp_inv_def)
  from exp_loop_value [OF base this, of "n * 8" scalar ?N]
  have inv: "exp_inv base ?N (RawF_exp_loop P G scalar base (n * 8) (False, r))" by (simp add: tk bits)
  obtain found x where fx: "RawF_exp_loop P G scalar base (n * 8) (False, r) = (found, x)" by fastforce
  show ?thesis
  proof (cases found)
    case True
    with inv fx show ?thesis by (simp add: RawF_exp_def copy exp_inv_def)
  next
    case False
    with inv fx have "?N = 0" by (simp add: exp_inv_def)
    with False fx one_value q_low show ?thesis by (simp add: RawF_exp_def copy)
  qed
qed

subsection \<open>Bytes, most significant first\<close>

lemma toRprBE_value:
  assumes "length a = 4" and "32 \<le> n" and "n = int (length data)"
  shows "\<exists>bs. RawF_toRprBE P G a data n = (32, bs @ drop (length bs) data)
    \<and> length bs = 8 * export_words 8 (mval q a) \<and> bval (rev bs) = mval q a \<and> length bs \<le> 32"
proof -
  let ?bs = "mpz_export G 1 8 1 0 (int (mval q a))"
  have "mval q a < 256 ^ (8 * 4)" using mval_lt [of a] q_lt_R by (simp add: mont_R_def)
  from export_words_le [OF this] export_be_law [of 8 "int (mval q a)"]
  show ?thesis using assms toMpz_value [OF assms(1)]
    by (intro exI [of _ ?bs]) (simp add: RawF_toRprBE_def Let_def)
qed

end

subsection \<open>The base-field class\<close>

definition Fq_init :: "gmp \<Rightarrow> field_globals \<Rightarrow> bool \<times> field_globals" where
  "Fq_init = field_init Fq_consts"

definition RawFq_fromString :: "gmp \<Rightarrow> string \<Rightarrow> nat \<Rightarrow> limbs" where
  "RawFq_fromString = RawF_fromString Fq_consts"

definition RawFq_fromUI :: "gmp \<Rightarrow> u64 \<Rightarrow> limbs" where
  "RawFq_fromUI = RawF_fromUI Fq_consts"

definition RawFq_set :: "gmp \<Rightarrow> int \<Rightarrow> limbs" where
  "RawFq_set = RawF_set Fq_consts"

definition RawFq_toString :: "gmp \<Rightarrow> limbs \<Rightarrow> nat \<Rightarrow> string" where
  "RawFq_toString = RawF_toString Fq_consts"

definition RawFq_toMpz :: "gmp \<Rightarrow> limbs \<Rightarrow> int" where
  "RawFq_toMpz = RawF_toMpz Fq_consts"

definition RawFq_fromMpz :: "gmp \<Rightarrow> int \<Rightarrow> limbs" where
  "RawFq_fromMpz = RawF_fromMpz Fq_consts"

definition RawFq_toRprBE :: "gmp \<Rightarrow> limbs \<Rightarrow> u8 list \<Rightarrow> int \<Rightarrow> int \<times> u8 list" where
  "RawFq_toRprBE = RawF_toRprBE Fq_consts"

definition RawFq_fromRprBE :: "gmp \<Rightarrow> limbs \<Rightarrow> u8 list \<Rightarrow> int \<Rightarrow> int \<times> limbs" where
  "RawFq_fromRprBE = RawF_fromRprBE Fq_consts"

definition RawFq_inv :: "gmp \<Rightarrow> limbs \<Rightarrow> limbs" where
  "RawFq_inv = RawF_inv Fq_consts"

definition RawFq_div :: "gmp \<Rightarrow> limbs \<Rightarrow> limbs \<Rightarrow> limbs" where
  "RawFq_div = RawF_div Fq_consts"

definition RawFq_exp :: "gmp \<Rightarrow> limbs \<Rightarrow> limbs \<Rightarrow> u8 list \<Rightarrow> nat \<Rightarrow> limbs" where
  "RawFq_exp = RawF_exp Fq_consts"

definition RawFq_one :: "gmp \<Rightarrow> limbs" where
  "RawFq_one = RawF_one Fq_consts"

definition RawFq_zero :: "gmp \<Rightarrow> limbs" where
  "RawFq_zero = RawF_zero Fq_consts"

definition RawFq_negOne :: "gmp \<Rightarrow> limbs" where
  "RawFq_negOne = RawF_negOne Fq_consts"

lemma bn254_raw_class: "bn254_field P q \<Longrightarrow> gmp_laws G \<Longrightarrow> raw_class P q G"
  by (intro raw_class.intro bn254_raw_field) (simp_all add: gmp_laws_def)

interpretation RawFr_ref: raw_class Fr_consts Fr_prime ref_gmp
  by (rule bn254_raw_class [OF bn254_Fr ref_gmp_laws])

interpretation RawFq_ref: raw_class Fq_consts Fq_prime ref_gmp
  by (rule bn254_raw_class [OF bn254_Fq ref_gmp_laws])

subsection \<open>Properties of the classes\<close>

text \<open>
  Initialisation runs once: the first call of the static initialiser records the modulus as an
  integer, its bit length 254 and the 254-bit mask and returns true; every later call returns false
  and changes nothing.
\<close>

theorem field_init_once:
  assumes "bn254_field P q" and "gmp_laws G" and "\<not> g_initialized g"
  shows "field_init P G g = (True, \<lparr> g_q = int q, g_zero = 0, g_one = 1, g_mask = 2 ^ 254 - 1,
      g_nBits = 254, g_initialized = True \<rparr>)
    \<and> field_init P G (snd (field_init P G g)) = (False, snd (field_init P G g))"
  using raw_class.init_value [OF bn254_raw_class [OF assms(1,2)] assms(3)]
  by (simp add: field_init_def)

theorem field_init_once_witness:
  "g_nBits (snd (field_init Fr_consts ref_gmp globals0)) = 254"
  using conjunct1 [OF field_init_once [OF bn254_Fr ref_gmp_laws, of globals0]] by (simp add: globals0_def)

text \<open>
  Inversion and division: for an element whose residue has an inverse \<open>u\<close> (every non-zero one,
  the modulus being prime) \<open>inv\<close> returns the reduced element that stands for \<open>u\<close>, through GMP's
  integer inverse of the limbs and a Montgomery product with \<open>R\<^sup>3\<close>, and \<open>div\<close> the quotient.
\<close>

theorem RawF_inv_div:
  assumes "bn254_field P q" and "gmp_laws G" and "length a = 4" and "length b = 4"
    and "(mval q b * u) mod q = 1"
  shows "reduced q (RawF_inv P G b) \<and> mval q (RawF_inv P G b) = u mod q
    \<and> reduced q (RawF_div P G a b) \<and> mval q (RawF_div P G a b) = (mval q a * u) mod q"
  using raw_class.inv_value [OF bn254_raw_class [OF assms(1,2)] assms(4,5)]
    raw_class.div_value [OF bn254_raw_class [OF assms(1,2)] assms(3-5)] by simp

theorem RawF_inv_div_witness:
  "mval Fr_prime (RawF_inv Fr_consts ref_gmp (RawF_one Fr_consts ref_gmp)) = 1"
  using RawF_inv_div [OF bn254_Fr ref_gmp_laws, of "RawF_one Fr_consts ref_gmp"
      "RawF_one Fr_consts ref_gmp" 1] RawFr_ref.one_value
  by (simp add: reduced_def)

text \<open>
  \<open>exp\<close> is exponentiation by the little-endian integer in its byte array: for every array, a zero
  exponent included, the square-and-multiply loop returns the power.
\<close>

theorem RawF_exp_power:
  assumes "bn254_field P q" and "gmp_laws G" and "reduced q base" and "n \<le> length scalar"
  shows "reduced q (RawF_exp P G r base scalar n)
    \<and> mval q (RawF_exp P G r base scalar n) = mval q base ^ bval (take n scalar) mod q"
  by (rule raw_class.exp_value [OF bn254_raw_class [OF assms(1,2)] assms(3,4)])

theorem RawF_exp_power_witness:
  "mval Fq_prime (RawF_exp Fq_consts ref_gmp [0, 0, 0, 0] [3, 0, 0, 0] [5, 1] 2)
    = mval Fq_prime [3, 0, 0, 0] ^ 261 mod Fq_prime"
  using RawF_exp_power [OF bn254_Fq ref_gmp_laws, of "[3, 0, 0, 0]" 2 "[5, 1]" "[0, 0, 0, 0]"]
  by (simp add: reduced_def del: power_numeral)

text \<open>
  C28. Decimal text: reading a non-empty digit string and printing the element gives the canonical
  decimal of the number modulo the prime, whatever its size.
\<close>

theorem RawF_string_roundtrip:
  assumes "bn254_field P q" and "gmp_laws G" and "s \<noteq> []" and "list_all digit_char s"
  shows "RawF_toString P G (RawF_fromString P G s 10) 10 = dec_str (dec_val s mod q)
    \<and> reduced q (RawF_fromString P G s 10)"
  using raw_class.fromString_value [OF bn254_raw_class [OF assms(1,2)] assms(3,4)]
    raw_class.toString_value [OF bn254_raw_class [OF assms(1,2)]] by (simp add: reduced_def)

theorem RawF_string_roundtrip_witness:
  "RawF_toString Fr_consts ref_gmp (RawF_fromString Fr_consts ref_gmp ''0042'' 10) 10 = ''42''"
  using RawF_string_roundtrip [OF bn254_Fr ref_gmp_laws, of "''0042''"]
  by (simp add: digit_char_def dec_val_def dec_str.simps char_of_def bit_Suc_0_iff)

text \<open>
  Integers: \<open>set\<close> of an \<open>int\<close> and \<open>fromUI\<close> of a 64-bit value stand for the number modulo the prime
  (negative ones included), and \<open>toMpz\<close> and \<open>fromMpz\<close> are inverse to each other on residues.
\<close>

theorem RawF_integer_conversions:
  assumes "bn254_field P q" and "gmp_laws G" and "- (2 ^ 31) \<le> i" and "i < 2 ^ 31"
    and "0 \<le> z" and "z < int q" and "reduced q a"
  shows "int (mval q (RawF_set P G i)) = i mod int q
    \<and> mval q (RawF_fromUI P G w) = unat w
    \<and> RawF_toMpz P G (RawF_fromMpz P G z) = z
    \<and> RawF_fromMpz P G (RawF_toMpz P G a) = a"
proof -
  note rc = bn254_raw_class [OF assms(1,2)] and rf = bn254_raw_field [OF assms(1) mpn_of_gmp [OF assms(2)]]
  have len: "length a = 4" using assms(7) by (simp add: reduced_def)
  have "int (mval q a) < int q"
    using mont_consts.mval_lt [OF bn254_consts [OF assms(1)]] by (simp only: of_nat_less_iff)
  from raw_class.fromMpz_value [OF rc _ this] have "reduced q (RawF_fromMpz P G (RawF_toMpz P G a))"
    "mval q (RawF_fromMpz P G (RawF_toMpz P G a)) = mval q a"
    by (simp_all add: raw_class.toMpz_value [OF rc len])
  then have "RawF_fromMpz P G (RawF_toMpz P G a) = a"
    using mont_consts.mval_inj [OF bn254_consts [OF assms(1)]] assms(7) by blast
  with raw_class.set_value [OF rc assms(3,4)] raw_class.fromUI_value [OF rc, of w]
    raw_class.fromMpz_value [OF rc assms(5,6)] raw_class.toMpz_value [OF rc] assms(5)
  show ?thesis by (simp add: reduced_def)
qed

theorem RawF_integer_conversions_witness:
  "int (mval Fq_prime (RawF_set Fq_consts ref_gmp (-3))) = int Fq_prime - 3
    \<and> RawF_toMpz Fq_consts ref_gmp (RawF_fromMpz Fq_consts ref_gmp 12) = 12"
  using RawF_integer_conversions [OF bn254_Fq ref_gmp_laws, of "-3" 12 "[7, 0, 0, 0]" 1]
  by (simp add: reduced_def)

text \<open>
  \<open>toRprBE\<close> refuses an array of fewer than 32 bytes with the code -32 and leaves it alone;
  otherwise it returns 32 and writes at the start of the array the big-endian bytes of the residue in
  as many whole words as the residue needs, not in 32 bytes: the rest of the array keeps its old
  contents. \<open>fromRprBE\<close> refuses a short array in the same way.
\<close>

theorem RawF_RprBE:
  assumes "bn254_field P q" and "gmp_laws G" and "length a = 4" and "n = int (length data)"
  shows "(n < 32 \<longrightarrow> RawF_toRprBE P G a data n = (-32, data) \<and> RawF_fromRprBE P G a data n = (-32, a))
    \<and> (32 \<le> n \<longrightarrow> (\<exists>bs. RawF_toRprBE P G a data n = (32, bs @ drop (length bs) data)
      \<and> length bs = 8 * export_words 8 (mval q a) \<and> bval (rev bs) = mval q a \<and> length bs \<le> 32))"
  using raw_class.toRprBE_value [OF bn254_raw_class [OF assms(1,2)] assms(3) _ assms(4)]
  by (simp add: RawF_toRprBE_def RawF_fromRprBE_def)

theorem RawF_RprBE_witness:
  "\<exists>bs. RawF_toRprBE Fr_consts ref_gmp (RawF_one Fr_consts ref_gmp) (replicate 32 255) 32
      = (32, bs @ drop 8 (replicate 32 255)) \<and> length bs = 8 \<and> bval (rev bs) = 1"
proof -
  have w: "export_words 8 (Suc 0) = 1" by (simp add: export_words.simps)
  have len: "length (RawF_one Fr_consts ref_gmp) = 4" "mval Fr_prime (RawF_one Fr_consts ref_gmp) = 1"
    using RawFr_ref.one_value by (simp_all add: reduced_def)
  from RawF_RprBE [OF bn254_Fr ref_gmp_laws len(1), of 32 "replicate 32 255"] obtain bs where
    "RawF_toRprBE Fr_consts ref_gmp (RawF_one Fr_consts ref_gmp) (replicate 32 255) 32
      = (32, bs @ drop (length bs) (replicate 32 255))" and "length bs = 8" and "bval (rev bs) = 1"
    by (auto simp: len(2) w)
  then show ?thesis by (intro exI [of _ bs]) simp
qed

end
