(* ===== verification/Field_Interface.thy ===== *)
theory Field_Interface
  imports Field_Types Raw_Class
begin

section \<open>The field interface of the templates\<close>

text \<open>
  \<open>F2Field\<close> and \<open>Curve\<close> are templates over a \<open>BaseField\<close> with the methods of \<open>RawFq\<close>. The record
  \<open>field_ops\<close> is the part of that class they call; the locale \<open>field_ops_laws\<close> is the contract: on
  well-formed elements every method computes in a field \<open>'k\<close> through a value map. \<open>RawFq\<close> meets the
  contract in \<open>fq\<close> for every GMP that meets its documentation; \<open>F2Field<RawFq>\<close> meets it in \<open>fq2\<close>
  (theory \<open>F2_Field\<close>).
\<close>

record 'e field_ops =
  F_zero :: 'e
  F_one :: 'e
  F_negOne :: 'e
  F_copy :: "'e \<Rightarrow> 'e"
  F_add :: "'e \<Rightarrow> 'e \<Rightarrow> 'e"
  F_sub :: "'e \<Rightarrow> 'e \<Rightarrow> 'e"
  F_mul :: "'e \<Rightarrow> 'e \<Rightarrow> 'e"
  F_div :: "'e \<Rightarrow> 'e \<Rightarrow> 'e"
  F_neg :: "'e \<Rightarrow> 'e"
  F_square :: "'e \<Rightarrow> 'e"
  F_inv :: "'e \<Rightarrow> 'e"
  F_isZero :: "'e \<Rightarrow> bool"
  F_eq :: "'e \<Rightarrow> 'e \<Rightarrow> bool"

named_theorems field_code \<open>what the methods of a field compute\<close>

locale field_ops_laws =
  fixes F :: "'e field_ops" and ok :: "'e \<Rightarrow> bool" and val :: "'e \<Rightarrow> 'k :: field"
  assumes ok_zero [simp, intro]: "ok (F_zero F)" and val_zero [field_code]: "val (F_zero F) = 0"
    and ok_one [simp, intro]: "ok (F_one F)" and val_one [field_code]: "val (F_one F) = 1"
    and ok_negOne [simp, intro]: "ok (F_negOne F)" and val_negOne [field_code]: "val (F_negOne F) = -1"
    and copy_ok [simp]: "ok a \<Longrightarrow> F_copy F a = a"
    and ok_add [simp, intro]: "ok a \<Longrightarrow> ok b \<Longrightarrow> ok (F_add F a b)"
    and val_add [field_code]: "ok a \<Longrightarrow> ok b \<Longrightarrow> val (F_add F a b) = val a + val b"
    and ok_sub [simp, intro]: "ok a \<Longrightarrow> ok b \<Longrightarrow> ok (F_sub F a b)"
    and val_sub [field_code]: "ok a \<Longrightarrow> ok b \<Longrightarrow> val (F_sub F a b) = val a - val b"
    and ok_mul [simp, intro]: "ok a \<Longrightarrow> ok b \<Longrightarrow> ok (F_mul F a b)"
    and val_mul [field_code]: "ok a \<Longrightarrow> ok b \<Longrightarrow> val (F_mul F a b) = val a * val b"
    and ok_neg [simp, intro]: "ok a \<Longrightarrow> ok (F_neg F a)"
    and val_neg [field_code]: "ok a \<Longrightarrow> val (F_neg F a) = - val a"
    and ok_square [simp, intro]: "ok a \<Longrightarrow> ok (F_square F a)"
    and val_square [field_code]: "ok a \<Longrightarrow> val (F_square F a) = val a * val a"
    and ok_inv: "ok a \<Longrightarrow> val a \<noteq> 0 \<Longrightarrow> ok (F_inv F a)"
    and val_inv: "ok a \<Longrightarrow> val a \<noteq> 0 \<Longrightarrow> val (F_inv F a) = inverse (val a)"
    and div_law: "F_div F a b = F_mul F a (F_inv F b)"
    and isZero_law [field_code]: "ok a \<Longrightarrow> F_isZero F a \<longleftrightarrow> val a = 0"
    and eq_law [field_code]: "ok a \<Longrightarrow> ok b \<Longrightarrow> F_eq F a b \<longleftrightarrow> val a = val b"
begin

lemma ok_div: "ok a \<Longrightarrow> ok b \<Longrightarrow> val b \<noteq> 0 \<Longrightarrow> ok (F_div F a b)"
  by (simp add: div_law ok_inv)

lemma val_div: "ok a \<Longrightarrow> ok b \<Longrightarrow> val b \<noteq> 0 \<Longrightarrow> val (F_div F a b) = val a / val b"
  by (simp add: div_law ok_inv val_inv val_mul divide_inverse)

end

subsection \<open>The classes over raw elements provide it\<close>

text \<open>
  One record of methods for both classes, as the two class definitions are one text for two primes.
  The proof is done once, for any field of which the modulus is the characteristic.
\<close>

definition RawF_ops :: "raw_consts \<Rightarrow> gmp \<Rightarrow> limbs field_ops" where
  "RawF_ops P G = \<lparr>
     F_zero = RawF_zero P G, F_one = RawF_one P G, F_negOne = RawF_negOne P G,
     F_copy = rawCopy,
     F_add = rawAdd P G, F_sub = rawSub P G, F_mul = rawMMul P G, F_div = RawF_div P G,
     F_neg = rawNeg P G, F_square = rawMSquare P G, F_inv = RawF_inv P G,
     F_isZero = rawIsZero G, F_eq = rawIsEq G \<rparr>"

locale residue_field = raw_class P q G for P :: raw_consts and q :: nat and G :: gmp +
  fixes rep :: "'k :: field \<Rightarrow> nat"
  assumes of_nat_iff: "(of_nat m :: 'k) = of_nat n \<longleftrightarrow> m mod q = n mod q"
    and of_nat_rep: "of_nat (rep x) = (x :: 'k)"
begin

definition rval :: "limbs \<Rightarrow> 'k" where
  "rval a = of_nat (mval q a)"

lemma of_nat_mod [simp]: "(of_nat (n mod q) :: 'k) = of_nat n"
  by (simp add: of_nat_iff)

lemma rval_mod: "mval q a = n mod q \<Longrightarrow> rval a = of_nat n"
  by (simp only: rval_def of_nat_mod)

lemma rval_eq_iff: "rval a = rval b \<longleftrightarrow> mval q a = mval q b"
  using mval_lt [of a] mval_lt [of b] by (simp add: rval_def of_nat_iff)

lemma of_nat_eq_0: "(of_nat n :: 'k) = 0 \<longleftrightarrow> n mod q = 0"
  using of_nat_iff [of n 0] by simp

lemma of_nat_pred: "(of_nat (q - 1) :: 'k) = -1"
proof -
  have "(of_nat q :: 'k) = 0" by (simp add: of_nat_eq_0)
  moreover have "(of_nat (q - 1) :: 'k) = of_nat q - 1" using q_low by (simp add: of_nat_diff)
  ultimately show ?thesis by simp
qed

lemma inv_rval:
  assumes "reduced q a" and "rval a \<noteq> 0"
  shows "reduced q (RawF_inv P G a) \<and> rval (RawF_inv P G a) = inverse (rval a)"
proof -
  let ?u = "rep (inverse (rval a))"
  have "(of_nat (mval q a * ?u) :: 'k) = of_nat 1"
    using assms(2) by (simp add: of_nat_rep flip: rval_def)
  then have "(mval q a * ?u) mod q = 1" using q_low by (simp only: of_nat_iff) simp
  from inv_value [OF reduced_length [OF assms(1)] this] show ?thesis
    by (metis rval_mod of_nat_rep)
qed

lemma zero_rval: "reduced q a \<Longrightarrow> lval a = 0 \<longleftrightarrow> rval a = 0"
proof -
  assume a: "reduced q a"
  have "rval a = 0 \<longleftrightarrow> mval q a = 0"
    unfolding rval_def of_nat_eq_0 using mval_lt [of a] by simp
  also have "\<dots> \<longleftrightarrow> lval a = 0"
  proof
    assume "mval q a = 0"
    with mval_back [of a] a show "lval a = 0" by (simp add: reduced_def)
  qed (simp add: mval_def)
  finally show ?thesis by simp
qed

lemma cmp_0: "length a = 4 \<Longrightarrow> length b = 4 \<Longrightarrow> mpn_cmp G a b = 0 \<longleftrightarrow> lval a = lval b"
  using cmp_pos_law [of a b] cmp_neg_law [of a b] by (metis less_irrefl linorder_neqE_nat linorder_neqE_linordered_idom)

end

sublocale residue_field \<subseteq> ops: field_ops_laws "RawF_ops P G" "reduced q" rval
proof
  note defs = RawF_ops_def rval_def
  show "reduced q (F_zero (RawF_ops P G))" "rval (F_zero (RawF_ops P G)) = 0"
    using zero_value by (simp_all add: defs)
  show "reduced q (F_one (RawF_ops P G))" "rval (F_one (RawF_ops P G)) = 1"
    using one_value by (simp_all add: defs)
  show "reduced q (F_negOne (RawF_ops P G))"
    using negOne_value by (simp add: defs)
  show "rval (F_negOne (RawF_ops P G)) = -1"
    using negOne_value of_nat_pred by (simp only: RawF_ops_def field_ops.simps rval_def)
  fix a b :: limbs
  assume ra: "reduced q a"
  then have la: "length a = 4" by (simp add: reduced_def)
  show "F_copy (RawF_ops P G) a = a"
    using copy_id [OF la] by (simp add: defs)
  show "reduced q (F_neg (RawF_ops P G) a)"
    using rawNeg_correct [OF ra] by (simp add: defs)
  have "(of_nat (mval q (rawNeg P G a) + mval q a) :: 'k) = 0"
    unfolding of_nat_eq_0 by (rule mval_Neg [OF ra])
  then show "rval (F_neg (RawF_ops P G) a) = - rval a"
    by (simp add: defs eq_neg_iff_add_eq_0)
  show "reduced q (F_square (RawF_ops P G) a)" "rval (F_square (RawF_ops P G) a) = rval a * rval a"
    using rawMSquare_correct [OF ra] rval_mod [OF mval_MMul [OF la ra]]
    by (simp_all add: defs rawMSquare_def)
  show "reduced q (F_inv (RawF_ops P G) a)" "rval (F_inv (RawF_ops P G) a) = inverse (rval a)"
    if "rval a \<noteq> 0"
    using inv_rval [OF ra that] by (simp_all add: RawF_ops_def)
  show "F_isZero (RawF_ops P G) a \<longleftrightarrow> rval a = 0"
    using zero_rval [OF ra] zero_p_law [of a] by (simp add: defs rawIsZero_def)
  assume rb: "reduced q b"
  then have lb: "length b = 4" by (simp add: reduced_def)
  have sum: "lval a + lval b < 2 * q" using ra rb by (simp add: reduced_def)
  show "reduced q (F_add (RawF_ops P G) a b)"
    using rawAdd_correct [OF la lb sum] by (simp add: defs)
  show "rval (F_add (RawF_ops P G) a b) = rval a + rval b"
    using rval_mod [OF mval_Add [OF ra rb]] by (simp add: defs)
  show "reduced q (F_sub (RawF_ops P G) a b)"
    using rawSub_correct [OF ra rb] by (simp add: defs)
  have "(of_nat (mval q (rawSub P G a b) + mval q b) :: 'k) = of_nat (mval q a mod q)"
    by (metis mval_Sub [OF ra rb] of_nat_mod)
  then show "rval (F_sub (RawF_ops P G) a b) = rval a - rval b"
    by (simp add: defs eq_diff_eq)
  show "reduced q (F_mul (RawF_ops P G) a b)"
    using rawMMul_correct [OF la rb] by (simp add: defs)
  show "rval (F_mul (RawF_ops P G) a b) = rval a * rval b"
    using rval_mod [OF mval_MMul [OF la rb]] by (simp add: defs)
  show "F_eq (RawF_ops P G) a b \<longleftrightarrow> rval a = rval b"
    unfolding rval_eq_iff mval_inj [OF ra rb]
    using cmp_0 [OF la lb] reduced_eq_iff [OF ra rb] by (simp add: defs rawIsEq_def)
next
  fix a b :: limbs
  show "F_div (RawF_ops P G) a b = F_mul (RawF_ops P G) a (F_inv (RawF_ops P G) b)"
    by (simp add: RawF_ops_def RawF_div_def)
qed

subsection \<open>RawFq\<close>

definition RawFq_ops :: "gmp \<Rightarrow> limbs field_ops" where
  "RawFq_ops G = \<lparr>
     F_zero = RawFq_zero G, F_one = RawFq_one G, F_negOne = RawFq_negOne G,
     F_copy = Fq_rawCopy,
     F_add = Fq_rawAdd G, F_sub = Fq_rawSub G, F_mul = Fq_rawMMul G, F_div = RawFq_div G,
     F_neg = Fq_rawNeg G, F_square = Fq_rawMSquare G, F_inv = RawFq_inv G,
     F_isZero = Fq_rawIsZero G, F_eq = Fq_rawIsEq G \<rparr>"

lemma RawFq_ops_eq: "RawFq_ops G = RawF_ops Fq_consts G"
  by (simp add: RawFq_ops_def RawF_ops_def RawFq_zero_def RawFq_one_def RawFq_negOne_def RawFq_div_def RawFq_inv_def
    Fq_rawCopy_def Fq_rawAdd_def Fq_rawSub_def Fq_rawMMul_def Fq_rawNeg_def Fq_rawMSquare_def Fq_rawIsZero_def Fq_rawIsEq_def)

definition fq_ok :: "limbs \<Rightarrow> bool" where
  "fq_ok a \<longleftrightarrow> reduced Fq_prime a"

definition fq_val :: "limbs \<Rightarrow> fq" where
  "fq_val a = of_nat (mval Fq_prime a)"

lemma fq_ok_eq: "fq_ok = reduced Fq_prime"
  by (rule ext) (rule fq_ok_def)

lemma fq_val_nat: "fq_nat (fq_val a) = mval Fq_prime a"
  using Fq.mval_lt [of a] by (simp add: fq_val_def fq_nat_of_nat fq_mod_def)

lemma fq_of_nat_Fq [simp]: "(of_nat (n mod Fq_prime) :: fq) = of_nat n"
  using fq_of_nat_mod [of n] by (simp only: fq_mod_def)

lemma fq_val_mod: "mval Fq_prime a = n mod Fq_prime \<Longrightarrow> fq_val a = of_nat n"
  by (simp only: fq_val_def fq_of_nat_Fq)

sublocale gmp_laws \<subseteq> fq_class: residue_field Fq_consts Fq_prime G fq_nat
proof (intro residue_field.intro residue_field_axioms.intro)
  show "raw_class Fq_consts Fq_prime G" by (rule bn254_raw_class [OF bn254_Fq gmp_laws_axioms])
  show "(of_nat m :: fq) = of_nat n \<longleftrightarrow> m mod Fq_prime = n mod Fq_prime" for m n
    using fq_of_nat_eq_iff [of m n] by (simp only: fq_mod_def)
qed (rule of_nat_fq_nat)

context gmp_laws begin

lemma fq_val_eq: "fq_class.rval = fq_val"
  by (rule ext) (simp only: fq_class.rval_def fq_val_def)

end

sublocale gmp_laws \<subseteq> fq: field_ops_laws "RawFq_ops G" fq_ok fq_val
  using fq_class.ops.field_ops_laws_axioms unfolding fq_val_eq RawFq_ops_eq fq_ok_eq .

context gmp_laws begin

lemmas fq_field_ops = fq.field_ops_laws_axioms

end

lemma gmp_fq_field: "gmp_laws G \<Longrightarrow> field_ops_laws (RawFq_ops G) fq_ok fq_val"
  by (rule gmp_laws.fq_field_ops)

interpretation ref_fq: field_ops_laws "RawFq_ops ref_gmp" fq_ok fq_val
  by (rule ref.fq.field_ops_laws_axioms)

subsection \<open>Properties\<close>

text \<open>
  The modulus that the base-field sources store is a prime, so that every reduced element but
  zero has the inverse \<open>inv\<close> computes: the class \<open>RawFq\<close> implements a field. Stated on the code's own
  constants; the proof is a checked Brillhart-Lehmer-Selfridge certificate.
\<close>

theorem Fq_modulus_prime: "is_prime (lval (take 4 (rawq Fq_consts)))"
  unfolding Fq.lval_q4 by (rule q_prime)

text \<open>
  C10. \<open>RawFq\<close> is the field of integers modulo that prime: on reduced elements every method returns a
  reduced element, and addition, subtraction, multiplication, squaring, negation, inversion,
  division, the zero test and the equality test are those of the field on the represented values.
\<close>

theorem RawFq_is_field:
  assumes "gmp_laws G" and "fq_ok a" and "fq_ok b"
  shows "fq_ok (Fq_rawAdd G a b) \<and> fq_val (Fq_rawAdd G a b) = fq_val a + fq_val b
    \<and> fq_ok (Fq_rawSub G a b) \<and> fq_val (Fq_rawSub G a b) = fq_val a - fq_val b
    \<and> fq_ok (Fq_rawMMul G a b) \<and> fq_val (Fq_rawMMul G a b) = fq_val a * fq_val b
    \<and> fq_ok (Fq_rawMSquare G a) \<and> fq_val (Fq_rawMSquare G a) = fq_val a * fq_val a
    \<and> fq_ok (Fq_rawNeg G a) \<and> fq_val (Fq_rawNeg G a) = - fq_val a
    \<and> (fq_val b \<noteq> 0 \<longrightarrow> fq_ok (RawFq_inv G b) \<and> fq_val (RawFq_inv G b) = inverse (fq_val b)
      \<and> fq_val (RawFq_div G a b) = fq_val a / fq_val b)
    \<and> (Fq_rawIsZero G a \<longleftrightarrow> fq_val a = 0) \<and> (Fq_rawIsEq G a b \<longleftrightarrow> fq_val a = fq_val b)"
proof -
  have F: "field_ops_laws (RawFq_ops G) fq_ok fq_val"
    using assms(1) by (rule gmp_fq_field)
  note f = field_ops_laws.ok_add [OF F assms(2,3)] field_ops_laws.val_add [OF F assms(2,3)]
    field_ops_laws.ok_sub [OF F assms(2,3)] field_ops_laws.val_sub [OF F assms(2,3)]
    field_ops_laws.ok_mul [OF F assms(2,3)] field_ops_laws.val_mul [OF F assms(2,3)]
    field_ops_laws.ok_square [OF F assms(2)] field_ops_laws.val_square [OF F assms(2)]
    field_ops_laws.ok_neg [OF F assms(2)] field_ops_laws.val_neg [OF F assms(2)]
    field_ops_laws.ok_inv [OF F assms(3)] field_ops_laws.val_inv [OF F assms(3)]
    field_ops_laws.val_div [OF F assms(2,3)] field_ops_laws.isZero_law [OF F assms(2)]
    field_ops_laws.eq_law [OF F assms(2,3)]
  from f show ?thesis by (simp add: RawFq_ops_def)
qed

theorem RawFq_is_field_witness:
  "fq_val (Fq_rawMMul ref_gmp [2, 0, 0, 0] [3, 0, 0, 0]) = fq_val [2, 0, 0, 0] * fq_val [3, 0, 0, 0]"
  using RawFq_is_field [OF ref_gmp_laws, of "[2, 0, 0, 0]" "[3, 0, 0, 0]"] by (simp add: fq_ok_def reduced_def)

end
