(* ===== verification/F2_Field.thy ===== *)
theory F2_Field
  imports Field_Interface
begin

section \<open>F2Field: the quadratic extension over any base field\<close>

text \<open>
  \<open>f2field.hpp\<close> and \<open>f2field.cpp\<close>: pairs over a base field with a non-residue \<open>nr\<close> whose special
  values 0, 1 and -1 are recognised when the field is built. The operations take the base field's
  methods and the field object; an operation reads the components of its arguments for the last time
  before it writes the component of the result they may share, so results are returned. For
  \<open>nr = -1\<close>, the non-residue of BN254, the field meets the interface of \<open>Field_Interface\<close> in \<open>fq2\<close>.
\<close>

datatype type_of_nr = nr_is_zero | nr_is_one | nr_is_negone | nr_is_long

record 'e f2_element =
  f2a :: 'e
  f2b :: 'e

abbreviation f2 :: "'e \<Rightarrow> 'e \<Rightarrow> 'e f2_element" where
  "f2 x y \<equiv> \<lparr> f2a = x, f2b = y \<rparr>"

record 'e f2_field =
  f2_F :: "'e field_ops"
  f2_typeOfNr :: type_of_nr
  f2_nr :: 'e
  f2_fOne :: "'e f2_element"
  f2_fZero :: "'e f2_element"
  f2_fNegOne :: "'e f2_element"

subsection \<open>Operations\<close>

definition F2_initField :: "'e field_ops \<Rightarrow> 'e \<Rightarrow> 'e f2_field" where
  "F2_initField F anr = (let nr = F_copy F anr in \<lparr>
     f2_F = F,
     f2_typeOfNr = (if F_isZero F nr then nr_is_zero
       else if F_eq F nr (F_one F) then nr_is_one
       else if F_eq F nr (F_negOne F) then nr_is_negone
       else nr_is_long),
     f2_nr = nr,
     f2_fOne = f2 (F_copy F (F_one F)) (F_copy F (F_zero F)),
     f2_fZero = f2 (F_copy F (F_zero F)) (F_copy F (F_zero F)),
     f2_fNegOne = f2 (F_copy F (F_negOne F)) (F_copy F (F_zero F)) \<rparr>)"

definition F2_mulByNr :: "'e f2_field \<Rightarrow> 'e \<Rightarrow> 'e" where
  "F2_mulByNr K a = (case f2_typeOfNr K of
       nr_is_zero \<Rightarrow> F_copy (f2_F K) (F_zero (f2_F K))
     | nr_is_one \<Rightarrow> F_copy (f2_F K) a
     | nr_is_negone \<Rightarrow> F_neg (f2_F K) a
     | nr_is_long \<Rightarrow> F_mul (f2_F K) (f2_nr K) a)"

definition F2_add :: "'e f2_field \<Rightarrow> 'e f2_element \<Rightarrow> 'e f2_element \<Rightarrow> 'e f2_element" where
  "F2_add K a b = (let F = f2_F K in f2 (F_add F (f2a a) (f2a b)) (F_add F (f2b a) (f2b b)))"

definition F2_sub :: "'e f2_field \<Rightarrow> 'e f2_element \<Rightarrow> 'e f2_element \<Rightarrow> 'e f2_element" where
  "F2_sub K a b = (let F = f2_F K in f2 (F_sub F (f2a a) (f2a b)) (F_sub F (f2b a) (f2b b)))"

definition F2_neg :: "'e f2_field \<Rightarrow> 'e f2_element \<Rightarrow> 'e f2_element" where
  "F2_neg K a = (let F = f2_F K in f2 (F_neg F (f2a a)) (F_neg F (f2b a)))"

definition F2_copy :: "'e f2_field \<Rightarrow> 'e f2_element \<Rightarrow> 'e f2_element" where
  "F2_copy K a = (let F = f2_F K in f2 (F_copy F (f2a a)) (F_copy F (f2b a)))"

definition F2_mul :: "'e f2_field \<Rightarrow> 'e f2_element \<Rightarrow> 'e f2_element \<Rightarrow> 'e f2_element" where
  "F2_mul K e1 e2 = (let F = f2_F K;
       aa = F_mul F (f2a e1) (f2a e2);
       bb = F_mul F (f2b e1) (f2b e2);
       bbr = F2_mulByNr K bb;
       sum1 = F_add F (f2a e1) (f2b e1);
       sum2 = F_add F (f2a e2) (f2b e2);
       ra = F_add F aa bbr;
       rb = F_mul F sum1 sum2;
       rb = F_sub F rb aa;
       rb = F_sub F rb bb
     in f2 ra rb)"

definition F2_square :: "'e f2_field \<Rightarrow> 'e f2_element \<Rightarrow> 'e f2_element" where
  "F2_square K e1 = (let F = f2_F K in
     if f2_typeOfNr K = nr_is_negone then
       (let ab = F_mul F (f2a e1) (f2b e1);
            tmp1 = F_add F (f2a e1) (f2b e1);
            tmp2 = F_sub F (f2a e1) (f2b e1)
        in f2 (F_mul F tmp1 tmp2) (F_add F ab ab))
     else
       (let ab = F_mul F (f2a e1) (f2b e1);
            tmp1 = F_add F (f2a e1) (f2b e1);
            tmp2 = F2_mulByNr K (f2b e1);
            tmp2 = F_add F (f2a e1) tmp1;
            tmp1 = F_mul F tmp1 tmp2;
            tmp2 = F2_mulByNr K ab;
            tmp2 = F_add F ab tmp2
        in f2 (F_sub F tmp1 tmp2) (F_add F ab ab)))"

definition F2_inv :: "'e f2_field \<Rightarrow> 'e f2_element \<Rightarrow> 'e f2_element" where
  "F2_inv K e1 = (let F = f2_F K;
       t0 = F_square F (f2a e1);
       t1 = F_square F (f2b e1);
       t2 = F2_mulByNr K t1;
       t2 = F_sub F t0 t2;
       t3 = F_inv F t2;
       ra = F_mul F (f2a e1) t3;
       rb = F_mul F (f2b e1) t3;
       rb = F_neg F rb
     in f2 ra rb)"

definition F2_div :: "'e f2_field \<Rightarrow> 'e f2_element \<Rightarrow> 'e f2_element \<Rightarrow> 'e f2_element" where
  "F2_div K e1 e2 = (let tmp = F2_inv K e2 in F2_mul K e1 tmp)"

definition F2_isZero :: "'e f2_field \<Rightarrow> 'e f2_element \<Rightarrow> bool" where
  "F2_isZero K a \<longleftrightarrow> F_isZero (f2_F K) (f2a a) \<and> F_isZero (f2_F K) (f2b a)"

definition F2_eq :: "'e f2_field \<Rightarrow> 'e f2_element \<Rightarrow> 'e f2_element \<Rightarrow> bool" where
  "F2_eq K a b \<longleftrightarrow> F_eq (f2_F K) (f2a a) (f2a b) \<and> F_eq (f2_F K) (f2b a) (f2b b)"

text \<open>The methods as the interface of the templates.\<close>

definition F2_ops :: "'e f2_field \<Rightarrow> 'e f2_element field_ops" where
  "F2_ops K = \<lparr>
     F_zero = f2_fZero K, F_one = f2_fOne K, F_negOne = f2_fNegOne K,
     F_copy = F2_copy K,
     F_add = F2_add K, F_sub = F2_sub K, F_mul = F2_mul K, F_div = F2_div K,
     F_neg = F2_neg K, F_square = F2_square K, F_inv = F2_inv K,
     F_isZero = F2_isZero K, F_eq = F2_eq K \<rparr>"

subsection \<open>What the operations compute over any base field\<close>

context field_ops_laws begin

definition f2_ok :: "'e f2_element \<Rightarrow> bool" where
  "f2_ok x \<longleftrightarrow> ok (f2a x) \<and> ok (f2b x)"

lemma nr_cases:
  assumes "ok anr"
  shows "val (f2_nr (F2_initField F anr)) = val anr"
    and "f2_typeOfNr (F2_initField F anr) = nr_is_negone \<longleftrightarrow> val anr = -1 \<and> (1 :: 'k) \<noteq> -1"
  using assms by (auto simp: F2_initField_def Let_def field_code)

lemma mulByNr_value:
  assumes "ok anr" and "ok x"
  shows "ok (F2_mulByNr (F2_initField F anr) x)
    \<and> val (F2_mulByNr (F2_initField F anr) x) = val anr * val x"
  using assms by (auto simp: F2_mulByNr_def F2_initField_def Let_def field_code)

lemma f2_mul_value:
  assumes "ok anr" and "f2_ok x" and "f2_ok y"
  defines "r \<equiv> F2_mul (F2_initField F anr) x y"
  shows "f2_ok r \<and> val (f2a r) = val (f2a x) * val (f2a y) + val anr * (val (f2b x) * val (f2b y))
    \<and> val (f2b r) = val (f2a x) * val (f2b y) + val (f2b x) * val (f2a y)"
proof -
  have [simp]: "f2_F (F2_initField F anr) = F" by (simp add: F2_initField_def Let_def)
  show ?thesis using assms mulByNr_value [OF assms(1)]
    by (simp add: r_def F2_mul_def Let_def f2_ok_def field_code algebra_simps)
qed

lemma f2_inv_value:
  assumes "ok anr" and "f2_ok x"
    and "val (f2a x) * val (f2a x) - val anr * (val (f2b x) * val (f2b x)) \<noteq> 0" (is "?n \<noteq> 0")
  defines "r \<equiv> F2_inv (F2_initField F anr) x"
  shows "f2_ok r \<and> val (f2a r) = val (f2a x) / ?n \<and> val (f2b r) = - (val (f2b x) / ?n)"
proof -
  have [simp]: "f2_F (F2_initField F anr) = F" by (simp add: F2_initField_def Let_def)
  let ?t2 = "F_sub F (F_square F (f2a x)) (F2_mulByNr (F2_initField F anr) (F_square F (f2b x)))"
  have t2: "ok ?t2" "val ?t2 = ?n"
    using assms(2) mulByNr_value [OF assms(1), of "F_square F (f2b x)"] by (simp_all add: f2_ok_def field_code)
  with assms(3) have t3: "ok (F_inv F ?t2)" "val (F_inv F ?t2) = inverse ?n"
    by (simp_all add: ok_inv val_inv)
  with assms(2) show ?thesis
    by (simp add: r_def F2_inv_def Let_def f2_ok_def field_code divide_inverse)
qed

text \<open>
  The square in the two branches: for \<open>nr = -1\<close> it is the product with itself; in the other branch
  the value of \<open>nr\<close> times the second component is overwritten before it is used.
\<close>

lemma f2_square_negone:
  assumes "ok anr" and "f2_ok x" and "val anr = -1" and "(1 :: 'k) \<noteq> -1"
  defines "r \<equiv> F2_square (F2_initField F anr) x"
  shows "f2_ok r \<and> val (f2a r) = val (f2a x) * val (f2a x) - val (f2b x) * val (f2b x)
    \<and> val (f2b r) = val (f2a x) * val (f2b x) + val (f2b x) * val (f2a x)"
proof -
  have [simp]: "f2_F (F2_initField F anr) = F" by (simp add: F2_initField_def Let_def)
  show ?thesis using assms(2) nr_cases(2) [OF assms(1)] assms(3,4)
    by (simp add: r_def F2_square_def Let_def f2_ok_def field_code algebra_simps)
qed

lemma f2_square_other:
  assumes "ok anr" and "f2_ok x" and "val anr \<noteq> -1"
  defines "r \<equiv> F2_square (F2_initField F anr) x"
  shows "val (f2a r) = (val (f2a x) + val (f2b x)) * (2 * val (f2a x) + val (f2b x))
    - (1 + val anr) * (val (f2a x) * val (f2b x))"
proof -
  have [simp]: "f2_F (F2_initField F anr) = F" by (simp add: F2_initField_def Let_def)
  have "f2_typeOfNr (F2_initField F anr) \<noteq> nr_is_negone" using nr_cases(2) [OF assms(1)] assms(3) by simp
  then show ?thesis using assms(2) mulByNr_value [OF assms(1)]
    by (simp add: r_def F2_square_def Let_def f2_ok_def field_code algebra_simps)
qed

end

subsection \<open>F2Field over RawFq with the non-residue -1\<close>

text \<open>\<open>F2Field<RawFq> F2("-1")\<close> of \<open>alt_bn128.cpp\<close>.\<close>

definition F2_of_string :: "gmp \<Rightarrow> string \<Rightarrow> limbs f2_field" where
  "F2_of_string G nrs = (let anr = RawFq_fromString G nrs 10 in F2_initField (RawFq_ops G) anr)"

definition F2q :: "gmp \<Rightarrow> limbs f2_field" where
  "F2q G = F2_of_string G ''-1''"

definition fq2_ok :: "limbs f2_element \<Rightarrow> bool" where
  "fq2_ok x \<longleftrightarrow> fq_ok (f2a x) \<and> fq_ok (f2b x)"

definition fq2_val :: "limbs f2_element \<Rightarrow> fq2" where
  "fq2_val x = Fq2 (fq_val (f2a x)) (fq_val (f2b x))"

lemma fq_one_neq_minus_one: "(1 :: fq) \<noteq> -1"
  using fq_minus_one_not_square [of 1] by simp

context gmp_laws begin

lemma nr_value: "fq_ok (RawFq_fromString G ''-1'' 10)" "fq_val (RawFq_fromString G ''-1'' 10) = -1"
  using fq_class.fromString_minus_one fq_class.of_nat_pred
  by (simp_all only: RawFq_fromString_def fq_ok_def fq_val_def)

lemma F2q_init: "F2q G = F2_initField (RawFq_ops G) (RawFq_fromString G ''-1'' 10)"
  by (simp add: F2q_def F2_of_string_def Let_def)

lemma F2q_sel:
  "f2_F (F2q G) = RawFq_ops G"
  "fq2_ok (f2_fOne (F2q G))" "fq2_val (f2_fOne (F2q G)) = 1"
  "fq2_ok (f2_fZero (F2q G))" "fq2_val (f2_fZero (F2q G)) = 0"
  "fq2_ok (f2_fNegOne (F2q G))" "fq2_val (f2_fNegOne (F2q G)) = -1"
  by (simp_all add: F2q_init F2_initField_def Let_def fq2_ok_def fq2_val_def field_code fq2_eq_iff)

lemma fq2_mul_value:
  assumes "fq2_ok a" and "fq2_ok b"
  shows "fq2_ok (F2_mul (F2q G) a b)" "fq2_val (F2_mul (F2q G) a b) = fq2_val a * fq2_val b"
  using fq.f2_mul_value [OF nr_value(1), of a b] assms
  by (simp_all add: F2q_init fq2_ok_def fq.f2_ok_def nr_value fq2_val_def fq2_eq_iff)

lemma fq2_inv_value:
  assumes "fq2_ok a" and "fq2_val a \<noteq> 0"
  shows "fq2_ok (F2_inv (F2q G) a)" "fq2_val (F2_inv (F2q G) a) = inverse (fq2_val a)"
proof -
  let ?n = "fq_val (f2a a) * fq_val (f2a a) - fq_val (RawFq_fromString G ''-1'' 10) * (fq_val (f2b a) * fq_val (f2b a))"
  have n: "?n = fq_val (f2a a) * fq_val (f2a a) + fq_val (f2b a) * fq_val (f2b a)" by (simp add: nr_value)
  have "?n \<noteq> 0" using assms(2) unfolding n fq_norm_eq_0 by (auto simp: fq2_val_def fq2_eq_iff)
  from fq.f2_inv_value [OF nr_value(1) _ this] assms(1)
  show "fq2_ok (F2_inv (F2q G) a)" "fq2_val (F2_inv (F2q G) a) = inverse (fq2_val a)"
    unfolding n by (simp_all add: F2q_init fq2_ok_def fq.f2_ok_def fq2_val_def inverse_fq2_def)
qed

end

sublocale gmp_laws \<subseteq> fq2: field_ops_laws "F2_ops (F2q G)" fq2_ok fq2_val
proof
  show "fq2_ok (F_zero (F2_ops (F2q G)))" "fq2_val (F_zero (F2_ops (F2q G))) = 0"
    "fq2_ok (F_one (F2_ops (F2q G)))" "fq2_val (F_one (F2_ops (F2q G))) = 1"
    "fq2_ok (F_negOne (F2_ops (F2q G)))" "fq2_val (F_negOne (F2_ops (F2q G))) = -1"
    by (simp_all add: F2_ops_def F2q_sel)
  fix a b :: "limbs f2_element"
  assume a: "fq2_ok a"
  then have ab: "fq_ok (f2a a)" "fq_ok (f2b a)" by (simp_all add: fq2_ok_def)
  show "F_copy (F2_ops (F2q G)) a = a"
    using ab by (simp add: F2_ops_def F2_copy_def Let_def F2q_sel)
  show "fq2_ok (F_neg (F2_ops (F2q G)) a)" "fq2_val (F_neg (F2_ops (F2q G)) a) = - fq2_val a"
    using ab by (simp_all add: F2_ops_def F2_neg_def Let_def F2q_sel fq2_ok_def fq2_val_def field_code fq2_eq_iff)
  show "fq2_ok (F_square (F2_ops (F2q G)) a)" "fq2_val (F_square (F2_ops (F2q G)) a) = fq2_val a * fq2_val a"
    using fq.f2_square_negone [OF nr_value(1) _ nr_value(2) fq_one_neq_minus_one, of a] ab
    by (simp_all add: F2_ops_def F2q_init fq.f2_ok_def fq2_ok_def fq2_val_def fq2_eq_iff)
  show "fq2_ok (F_inv (F2_ops (F2q G)) a)" "fq2_val (F_inv (F2_ops (F2q G)) a) = inverse (fq2_val a)"
    if "fq2_val a \<noteq> 0"
    using fq2_inv_value [OF a that] by (simp_all add: F2_ops_def)
  show "F_isZero (F2_ops (F2q G)) a \<longleftrightarrow> fq2_val a = 0"
    using ab by (simp add: F2_ops_def F2_isZero_def F2q_sel field_code fq2_val_def fq2_eq_iff)
  assume b: "fq2_ok b"
  then have bb: "fq_ok (f2a b)" "fq_ok (f2b b)" by (simp_all add: fq2_ok_def)
  show "fq2_ok (F_add (F2_ops (F2q G)) a b)" "fq2_val (F_add (F2_ops (F2q G)) a b) = fq2_val a + fq2_val b"
    "fq2_ok (F_sub (F2_ops (F2q G)) a b)" "fq2_val (F_sub (F2_ops (F2q G)) a b) = fq2_val a - fq2_val b"
    using ab bb
    by (simp_all add: F2_ops_def F2_add_def F2_sub_def Let_def F2q_sel fq2_ok_def fq2_val_def field_code fq2_eq_iff)
  show "fq2_ok (F_mul (F2_ops (F2q G)) a b)" "fq2_val (F_mul (F2_ops (F2q G)) a b) = fq2_val a * fq2_val b"
    using fq2_mul_value [OF a b] by (simp_all add: F2_ops_def)
  show "F_eq (F2_ops (F2q G)) a b \<longleftrightarrow> fq2_val a = fq2_val b"
    using ab bb by (simp add: F2_ops_def F2_eq_def F2q_sel field_code fq2_val_def)
next
  fix a b :: "limbs f2_element"
  show "F_div (F2_ops (F2q G)) a b = F_mul (F2_ops (F2q G)) a (F_inv (F2_ops (F2q G)) b)"
    by (simp add: F2_ops_def F2_div_def)
qed

context gmp_laws begin

lemmas fq2_field_ops = fq2.field_ops_laws_axioms

end

lemma gmp_fq2_field: "gmp_laws G \<Longrightarrow> field_ops_laws (F2_ops (F2q G)) fq2_ok fq2_val"
  by (rule gmp_laws.fq2_field_ops)

interpretation ref_fq2: field_ops_laws "F2_ops (F2q ref_gmp)" fq2_ok fq2_val
  by (rule gmp_fq2_field [OF ref_gmp_laws])

lemma F2_ops_sel [simp]:
  "F_add (F2_ops K) = F2_add K" "F_sub (F2_ops K) = F2_sub K" "F_mul (F2_ops K) = F2_mul K"
  "F_div (F2_ops K) = F2_div K" "F_neg (F2_ops K) = F2_neg K" "F_square (F2_ops K) = F2_square K"
  "F_inv (F2_ops K) = F2_inv K" "F_isZero (F2_ops K) = F2_isZero K" "F_eq (F2_ops K) = F2_eq K"
  by (simp_all add: F2_ops_def)

subsection \<open>Properties\<close>

text \<open>
  C11. \<open>F2Field<RawFq>\<close> built with the non-residue \<open>"-1"\<close> implements the field of pairs \<open>x + y u\<close>,
  \<open>u\<^sup>2 = -1\<close>: multiplication (Karatsuba with three base products), squaring, inversion through the norm,
  division and the other methods return well-formed elements with the values of the field operations.
\<close>

theorem F2Field_is_field:
  assumes "gmp_laws G" and "fq2_ok a" and "fq2_ok b"
  defines "K \<equiv> F2q G"
  shows "fq2_ok (F2_mul K a b) \<and> fq2_val (F2_mul K a b) = fq2_val a * fq2_val b
    \<and> fq2_ok (F2_square K a) \<and> fq2_val (F2_square K a) = fq2_val a * fq2_val a
    \<and> (fq2_val b \<noteq> 0 \<longrightarrow> fq2_ok (F2_inv K b) \<and> fq2_val (F2_inv K b) = inverse (fq2_val b)
      \<and> fq2_ok (F2_div K a b) \<and> fq2_val (F2_div K a b) = fq2_val a / fq2_val b)
    \<and> fq2_val (F2_add K a b) = fq2_val a + fq2_val b \<and> fq2_val (F2_sub K a b) = fq2_val a - fq2_val b
    \<and> fq2_val (F2_neg K a) = - fq2_val a
    \<and> (F2_isZero K a \<longleftrightarrow> fq2_val a = 0) \<and> (F2_eq K a b \<longleftrightarrow> fq2_val a = fq2_val b)"
proof -
  note F = gmp_fq2_field [OF assms(1), folded K_def]
  note f = field_ops_laws.val_add [OF F assms(2,3)] field_ops_laws.val_sub [OF F assms(2,3)]
    field_ops_laws.ok_mul [OF F assms(2,3)] field_ops_laws.val_mul [OF F assms(2,3)]
    field_ops_laws.ok_square [OF F assms(2)] field_ops_laws.val_square [OF F assms(2)]
    field_ops_laws.val_neg [OF F assms(2)]
    field_ops_laws.ok_inv [OF F assms(3)] field_ops_laws.val_inv [OF F assms(3)]
    field_ops_laws.ok_div [OF F assms(2,3)] field_ops_laws.val_div [OF F assms(2,3)]
    field_ops_laws.isZero_law [OF F assms(2)] field_ops_laws.eq_law [OF F assms(2,3)]
  from f show ?thesis unfolding F2_ops_sel by blast
qed

theorem F2Field_is_field_witness:
  "fq2_val (F2_square (F2q ref_gmp) (f2 [2, 0, 0, 0] [3, 0, 0, 0]))
    = fq2_val (f2 [2, 0, 0, 0] [3, 0, 0, 0]) * fq2_val (f2 [2, 0, 0, 0] [3, 0, 0, 0])"
  using F2Field_is_field [OF ref_gmp_laws, of "f2 [2, 0, 0, 0] [3, 0, 0, 0]" "f2 [2, 0, 0, 0] [3, 0, 0, 0]"]
  by (simp add: fq2_ok_def fq_ok_def reduced_def)

text \<open>
  The branch of \<open>square\<close> for any other non-residue does not square: it adds the first component
  where the product of the non-residue and the second belongs (that product is computed into a
  temporary and overwritten), so that the square of an element with second component zero has twice
  the square of its first component as first component, whatever the non-residue is.
\<close>

theorem F2Field_square_other_nonresidue:
  assumes "gmp_laws G" and "fq_ok anr" and "fq_val anr \<noteq> -1" and "fq2_ok x" and "fq_val (f2b x) = 0"
  shows "fq_val (f2a (F2_square (F2_initField (RawFq_ops G) anr) x)) = 2 * (fq_val (f2a x) * fq_val (f2a x))
    \<and> fq_val (f2a (F2_mul (F2_initField (RawFq_ops G) anr) x x)) = fq_val (f2a x) * fq_val (f2a x)"
proof -
  note F = gmp_fq_field [OF assms(1)]
  have x: "field_ops_laws.f2_ok fq_ok x"
    using assms(4) by (simp add: field_ops_laws.f2_ok_def [OF F] fq2_ok_def)
  from field_ops_laws.f2_square_other [OF F assms(2) x assms(3)] field_ops_laws.f2_mul_value [OF F assms(2) x x]
  show ?thesis by (simp add: assms(5) algebra_simps)
qed

theorem F2Field_square_other_nonresidue_witness:
  "fq_val (f2a (F2_square (F2_initField (RawFq_ops ref_gmp) (RawFq_one ref_gmp)) (f2 [5, 0, 0, 0] [0, 0, 0, 0])))
    = 2 * (fq_val [5, 0, 0, 0] * fq_val [5, 0, 0, 0])"
proof -
  have one: "fq_ok (RawFq_one ref_gmp)" "fq_val (RawFq_one ref_gmp) \<noteq> -1"
    using ref.fq.ok_one ref.fq.val_one fq_one_neq_minus_one by (simp_all add: RawFq_ops_def)
  from F2Field_square_other_nonresidue [OF ref_gmp_laws one, of "f2 [5, 0, 0, 0] [0, 0, 0, 0]"]
  show ?thesis by (simp add: fq2_ok_def fq_ok_def reduced_def fq_val_def mval_def)
qed

end
