(* ===== verification/Curve.thy ===== *)
theory Curve
  imports F2_Field "HOL-Library.Monad_Syntax"
begin

section \<open>Curve: points of a short Weierstrass curve in XYZZ coordinates\<close>

text \<open>
  \<open>curve.hpp\<close> and \<open>curve.cpp\<close> over any base field: points \<open>(x, y, zz, zzz)\<close> that stand for the affine
  \<open>(x / zz, y / zzz)\<close>, affine points with \<open>(0, 0)\<close> for the neutral element, additions, doublings,
  negations, comparisons and conversions in all the combinations the class overloads. The suffixes
  name the kinds of the operands: \<open>P\<close> a \<open>Point\<close>, \<open>A\<close> a \<open>PointAffine\<close>. An operation whose result
  object may be one of its \<open>Point\<close> arguments is also given on a store of points, statement by
  statement (\<open>Curve_add_at\<close>, ...); theory \<open>Curve_Laws\<close> shows that aliasing makes no difference.
\<close>

datatype type_of_a = a_is_zero | a_is_one | a_is_negone | a_is_long

record 'e point =
  px :: 'e
  py :: 'e
  pzz :: 'e
  pzzz :: 'e

record 'e affine =
  ax :: 'e
  ay :: 'e

abbreviation pt :: "'e \<Rightarrow> 'e \<Rightarrow> 'e \<Rightarrow> 'e \<Rightarrow> 'e point" where
  "pt x y zz zzz \<equiv> \<lparr> px = x, py = y, pzz = zz, pzzz = zzz \<rparr>"

abbreviation aff :: "'e \<Rightarrow> 'e \<Rightarrow> 'e affine" where
  "aff x y \<equiv> \<lparr> ax = x, ay = y \<rparr>"

record 'e curve =
  c_F :: "'e field_ops"
  c_typeOfA :: type_of_a
  c_fa :: 'e
  c_fb :: 'e
  c_fone :: "'e point"
  c_fzero :: "'e point"
  c_foneAffine :: "'e affine"
  c_fzeroAffine :: "'e affine"

subsection \<open>Construction\<close>

definition Curve_initCurve :: "'e field_ops \<Rightarrow> 'e \<Rightarrow> 'e \<Rightarrow> 'e \<Rightarrow> 'e \<Rightarrow> 'e curve" where
  "Curve_initCurve F aa ab agx agy = (let fa = F_copy F aa in \<lparr>
     c_F = F,
     c_typeOfA = (if F_isZero F fa then a_is_zero
       else if F_eq F fa (F_one F) then a_is_one
       else if F_eq F fa (F_negOne F) then a_is_negone
       else a_is_long),
     c_fa = fa,
     c_fb = F_copy F ab,
     c_fone = pt (F_copy F agx) (F_copy F agy) (F_copy F (F_one F)) (F_copy F (F_one F)),
     c_fzero = pt (F_copy F (F_one F)) (F_copy F (F_one F)) (F_copy F (F_zero F)) (F_copy F (F_zero F)),
     c_foneAffine = aff (F_copy F agx) (F_copy F agy),
     c_fzeroAffine = aff (F_copy F (F_zero F)) (F_copy F (F_zero F)) \<rparr>)"

text \<open>
  The constructor from strings; \<open>fromString\<close> of the base field may not return (\<open>None\<close>).
\<close>

definition Curve_of_strings ::
    "'e field_ops \<Rightarrow> (string \<Rightarrow> 'e option) \<Rightarrow> string \<Rightarrow> string \<Rightarrow> string \<Rightarrow> string \<Rightarrow> 'e curve option" where
  "Curve_of_strings F fromString as bs gxs gys = do {
     aa \<leftarrow> fromString as;
     ab \<leftarrow> fromString bs;
     agx \<leftarrow> fromString gxs;
     agy \<leftarrow> fromString gys;
     Some (Curve_initCurve F aa ab agx agy)
   }"

definition Curve_mulByA :: "'e curve \<Rightarrow> 'e \<Rightarrow> 'e" where
  "Curve_mulByA C ab = (let F = c_F C in case c_typeOfA C of
       a_is_zero \<Rightarrow> F_copy F (F_zero F)
     | a_is_one \<Rightarrow> F_copy F ab
     | a_is_negone \<Rightarrow> F_neg F ab
     | a_is_long \<Rightarrow> F_mul F (c_fa C) ab)"

subsection \<open>Zero tests, copies, negations, comparisons\<close>

definition Curve_isZeroP :: "'e curve \<Rightarrow> 'e point \<Rightarrow> bool" where
  "Curve_isZeroP C p1 = F_isZero (c_F C) (pzz p1)"

definition Curve_isZeroA :: "'e curve \<Rightarrow> 'e affine \<Rightarrow> bool" where
  "Curve_isZeroA C p1 \<longleftrightarrow> F_isZero (c_F C) (ax p1) \<and> F_isZero (c_F C) (ay p1)"

definition Curve_copyPP :: "'e curve \<Rightarrow> 'e point \<Rightarrow> 'e point" where
  "Curve_copyPP C a = (let F = c_F C in
     pt (F_copy F (px a)) (F_copy F (py a)) (F_copy F (pzz a)) (F_copy F (pzzz a)))"

definition Curve_copyPA :: "'e curve \<Rightarrow> 'e affine \<Rightarrow> 'e point" where
  "Curve_copyPA C a = (let F = c_F C in
     if Curve_isZeroA C a then
       pt (F_copy F (F_one F)) (F_copy F (F_one F)) (F_copy F (F_zero F)) (F_copy F (F_zero F))
     else pt (F_copy F (ax a)) (F_copy F (ay a)) (F_copy F (F_one F)) (F_copy F (F_one F)))"

definition Curve_copyAP :: "'e curve \<Rightarrow> 'e point \<Rightarrow> 'e affine" where
  "Curve_copyAP C a = (let F = c_F C in
     if Curve_isZeroP C a then aff (F_copy F (F_zero F)) (F_copy F (F_zero F))
     else aff (F_div F (px a) (pzz a)) (F_div F (py a) (pzzz a)))"

definition Curve_copyAA :: "'e curve \<Rightarrow> 'e affine \<Rightarrow> 'e affine" where
  "Curve_copyAA C a = aff (F_copy (c_F C) (ax a)) (F_copy (c_F C) (ay a))"

definition Curve_negPP :: "'e curve \<Rightarrow> 'e point \<Rightarrow> 'e point" where
  "Curve_negPP C a = (let F = c_F C in
     pt (F_copy F (px a)) (F_neg F (py a)) (F_copy F (pzz a)) (F_copy F (pzzz a)))"

definition Curve_negPA :: "'e curve \<Rightarrow> 'e affine \<Rightarrow> 'e point" where
  "Curve_negPA C a = (let F = c_F C in
     pt (F_copy F (ax a)) (F_neg F (ay a)) (F_copy F (F_one F)) (F_copy F (F_one F)))"

definition Curve_negAP :: "'e curve \<Rightarrow> 'e point \<Rightarrow> 'e affine" where
  "Curve_negAP C a = (let F = c_F C in
     if Curve_isZeroP C a then aff (F_copy F (F_zero F)) (F_copy F (F_zero F))
     else (let rx = F_div F (px a) (pzz a); ry = F_div F (py a) (pzzz a) in aff rx (F_neg F ry)))"

definition Curve_negAA :: "'e curve \<Rightarrow> 'e affine \<Rightarrow> 'e affine" where
  "Curve_negAA C a = aff (F_copy (c_F C) (ax a)) (F_neg (c_F C) (ay a))"

definition Curve_eqPP :: "'e curve \<Rightarrow> 'e point \<Rightarrow> 'e point \<Rightarrow> bool" where
  "Curve_eqPP C p1 p2 = (let F = c_F C in
     if Curve_isZeroP C p1 then Curve_isZeroP C p2
     else (let U1 = F_mul F (px p1) (pzz p2);
               U2 = F_mul F (px p2) (pzz p1);
               S1 = F_mul F (py p1) (pzzz p2);
               S2 = F_mul F (py p2) (pzzz p1);
               P = F_sub F U2 U1;
               R = F_sub F S2 S1
           in F_isZero F P \<and> F_isZero F R))"

definition Curve_eqPA :: "'e curve \<Rightarrow> 'e point \<Rightarrow> 'e affine \<Rightarrow> bool" where
  "Curve_eqPA C p1 p2 = (let F = c_F C in
     if Curve_isZeroP C p1 then Curve_isZeroA C p2
     else (let U2 = F_mul F (ax p2) (pzz p1);
               S2 = F_mul F (ay p2) (pzzz p1);
               P = F_sub F U2 (px p1);
               R = F_sub F S2 (py p1)
           in F_isZero F P \<and> F_isZero F R))"

definition Curve_eqAA :: "'e curve \<Rightarrow> 'e affine \<Rightarrow> 'e affine \<Rightarrow> bool" where
  "Curve_eqAA C p1 p2 \<longleftrightarrow> F_eq (c_F C) (ax p1) (ax p2) \<and> F_eq (c_F C) (ay p1) (ay p2)"

definition Curve_eqAP :: "'e curve \<Rightarrow> 'e affine \<Rightarrow> 'e point \<Rightarrow> bool" where
  "Curve_eqAP C p1 p2 = Curve_eqPA C p2 p1"

subsection \<open>Doubling\<close>

definition Curve_dblP :: "'e curve \<Rightarrow> 'e point \<Rightarrow> 'e point" where
  "Curve_dblP C p1 = (let F = c_F C in
     if Curve_isZeroP C p1 then Curve_copyPP C p1
     else
       (let U = F_add F (py p1) (py p1);
            V = F_square F U;
            W = F_mul F U V;
            S = F_mul F (px p1) V;
            M = F_square F (px p1);
            tmp = F_add F M M;
            M = F_add F M tmp;
            M = (if c_typeOfA C \<noteq> a_is_zero
                 then (let tmp = F_square F (pzz p1); tmp = Curve_mulByA C tmp in F_add F M tmp)
                 else M);
            x3 = F_square F M;
            x3 = F_sub F x3 S;
            x3 = F_sub F x3 S;
            tmp = F_mul F W (py p1);
            y3 = F_sub F S x3;
            y3 = F_mul F M y3;
            y3 = F_sub F y3 tmp
        in pt x3 y3 (F_mul F V (pzz p1)) (F_mul F W (pzzz p1))))"

definition Curve_dblA :: "'e curve \<Rightarrow> 'e affine \<Rightarrow> 'e point" where
  "Curve_dblA C p1 = (let F = c_F C in
     if Curve_isZeroA C p1 then Curve_copyPA C p1
     else
       (let U = F_add F (ay p1) (ay p1);
            zz3 = F_square F U;
            zzz3 = F_mul F U zz3;
            S = F_mul F (ax p1) zz3;
            M = F_square F (ax p1);
            tmp = F_add F M M;
            M = F_add F tmp M;
            M = F_add F M (c_fa C);
            x3 = F_square F M;
            x3 = F_sub F x3 S;
            x3 = F_sub F x3 S;
            tmp = F_mul F zzz3 (ay p1);
            y3 = F_sub F S x3;
            y3 = F_mul F M y3;
            y3 = F_sub F y3 tmp
        in pt x3 y3 zz3 zzz3))"

definition Curve_dblAP :: "'e curve \<Rightarrow> 'e point \<Rightarrow> 'e affine" where
  "Curve_dblAP C a = (let tmp = Curve_dblP C a in Curve_copyAP C tmp)"

definition Curve_dblAA :: "'e curve \<Rightarrow> 'e affine \<Rightarrow> 'e affine" where
  "Curve_dblAA C a = (let tmp = Curve_dblA C a in Curve_copyAP C tmp)"

subsection \<open>Addition\<close>

definition Curve_addPP :: "'e curve \<Rightarrow> 'e point \<Rightarrow> 'e point \<Rightarrow> 'e point" where
  "Curve_addPP C p1 p2 = (let F = c_F C in
     if Curve_isZeroP C p1 then Curve_copyPP C p2
     else if Curve_isZeroP C p2 then Curve_copyPP C p1
     else
       (let U1 = F_mul F (px p1) (pzz p2);
            U2 = F_mul F (px p2) (pzz p1);
            S1 = F_mul F (py p1) (pzzz p2);
            S2 = F_mul F (py p2) (pzzz p1);
            P = F_sub F U2 U1;
            R = F_sub F S2 S1
        in if F_isZero F P \<and> F_isZero F R then Curve_dblP C p1
           else
             (let PP = F_square F P;
                  PPP = F_mul F P PP;
                  Q = F_mul F U1 PP;
                  x3 = F_square F R;
                  x3 = F_sub F x3 PPP;
                  x3 = F_sub F x3 Q;
                  x3 = F_sub F x3 Q;
                  tmp = F_mul F S1 PPP;
                  y3 = F_sub F Q x3;
                  y3 = F_mul F y3 R;
                  y3 = F_sub F y3 tmp;
                  zz3 = F_mul F (pzz p1) (pzz p2);
                  zz3 = F_mul F zz3 PP;
                  zzz3 = F_mul F (pzzz p1) (pzzz p2);
                  zzz3 = F_mul F zzz3 PPP
              in pt x3 y3 zz3 zzz3)))"

definition Curve_addPA :: "'e curve \<Rightarrow> 'e point \<Rightarrow> 'e affine \<Rightarrow> 'e point" where
  "Curve_addPA C p1 p2 = (let F = c_F C in
     if Curve_isZeroP C p1 then Curve_copyPA C p2
     else if Curve_isZeroA C p2 then Curve_copyPP C p1
     else
       (let U2 = F_mul F (ax p2) (pzz p1);
            S2 = F_mul F (ay p2) (pzzz p1);
            P = F_sub F U2 (px p1);
            R = F_sub F S2 (py p1)
        in if F_isZero F P \<and> F_isZero F R then Curve_dblA C p2
           else
             (let PP = F_square F P;
                  PPP = F_mul F P PP;
                  Q = F_mul F (px p1) PP;
                  x3 = F_square F R;
                  x3 = F_sub F x3 PPP;
                  x3 = F_sub F x3 Q;
                  x3 = F_sub F x3 Q;
                  tmp = F_mul F (py p1) PPP;
                  y3 = F_sub F Q x3;
                  y3 = F_mul F y3 R;
                  y3 = F_sub F y3 tmp
              in pt x3 y3 (F_mul F (pzz p1) PP) (F_mul F (pzzz p1) PPP))))"

definition Curve_addAA :: "'e curve \<Rightarrow> 'e affine \<Rightarrow> 'e affine \<Rightarrow> 'e point" where
  "Curve_addAA C p1 p2 = (let F = c_F C in
     if Curve_isZeroA C p1 then Curve_copyPA C p2
     else if Curve_isZeroA C p2 then Curve_copyPA C p1
     else
       (let P = F_sub F (ax p2) (ax p1);
            R = F_sub F (ay p2) (ay p1)
        in if F_isZero F P \<and> F_isZero F R then Curve_dblA C p2
           else
             (let PP = F_square F P;
                  PPP = F_mul F P PP;
                  Q = F_mul F (ax p1) PP;
                  x3 = F_square F R;
                  x3 = F_sub F x3 PPP;
                  x3 = F_sub F x3 Q;
                  x3 = F_sub F x3 Q;
                  tmp = F_mul F (ay p1) PPP;
                  y3 = F_sub F Q x3;
                  y3 = F_mul F y3 R;
                  y3 = F_sub F y3 tmp
              in pt x3 y3 (F_copy F PP) (F_copy F PPP))))"

text \<open>
  The inline overloads of \<open>curve.hpp\<close>. \<open>add(p3, PointAffine p1, Point p2)\<close> swaps its operands; the
  overloads with an affine result go through a temporary point.
\<close>

definition Curve_addAP :: "'e curve \<Rightarrow> 'e affine \<Rightarrow> 'e point \<Rightarrow> 'e point" where
  "Curve_addAP C p1 p2 = Curve_addPA C p2 p1"

definition Curve_addPP_A :: "'e curve \<Rightarrow> 'e point \<Rightarrow> 'e point \<Rightarrow> 'e affine" where
  "Curve_addPP_A C p1 p2 = (let tmp = Curve_addPP C p1 p2 in Curve_copyAP C tmp)"

definition Curve_addPA_A :: "'e curve \<Rightarrow> 'e point \<Rightarrow> 'e affine \<Rightarrow> 'e affine" where
  "Curve_addPA_A C p1 p2 = (let tmp = Curve_addPA C p1 p2 in Curve_copyAP C tmp)"

definition Curve_addAA_A :: "'e curve \<Rightarrow> 'e affine \<Rightarrow> 'e affine \<Rightarrow> 'e affine" where
  "Curve_addAA_A C p1 p2 = (let tmp = Curve_addAA C p1 p2 in Curve_copyAP C tmp)"

definition Curve_addAP_A :: "'e curve \<Rightarrow> 'e affine \<Rightarrow> 'e point \<Rightarrow> 'e affine" where
  "Curve_addAP_A C p1 p2 = (let tmp = Curve_addAP C p1 p2 in Curve_copyAP C tmp)"

subsection \<open>Subtraction\<close>

text \<open>
  \<open>sub\<close> negates its second operand into a temporary of that operand's class: a \<open>Point\<close> when the
  subtrahend is one, an affine point otherwise.
\<close>

definition Curve_subPP :: "'e curve \<Rightarrow> 'e point \<Rightarrow> 'e point \<Rightarrow> 'e point" where
  "Curve_subPP C p1 p2 = (let tmp = Curve_negPP C p2 in Curve_addPP C p1 tmp)"

definition Curve_subPA :: "'e curve \<Rightarrow> 'e point \<Rightarrow> 'e affine \<Rightarrow> 'e point" where
  "Curve_subPA C p1 p2 = (let tmp = Curve_negAA C p2 in Curve_addPA C p1 tmp)"

definition Curve_subAA :: "'e curve \<Rightarrow> 'e affine \<Rightarrow> 'e affine \<Rightarrow> 'e point" where
  "Curve_subAA C p1 p2 = (let tmp = Curve_negAA C p2 in Curve_addAA C p1 tmp)"

definition Curve_subAP :: "'e curve \<Rightarrow> 'e affine \<Rightarrow> 'e point \<Rightarrow> 'e point" where
  "Curve_subAP C p1 p2 = (let tmp = Curve_negPP C p2 in Curve_addAP C p1 tmp)"

definition Curve_subPP_A :: "'e curve \<Rightarrow> 'e point \<Rightarrow> 'e point \<Rightarrow> 'e affine" where
  "Curve_subPP_A C p1 p2 = (let tmp = Curve_negPP C p2 in Curve_addPP_A C p1 tmp)"

definition Curve_subPA_A :: "'e curve \<Rightarrow> 'e point \<Rightarrow> 'e affine \<Rightarrow> 'e affine" where
  "Curve_subPA_A C p1 p2 = (let tmp = Curve_negAA C p2 in Curve_addPA_A C p1 tmp)"

definition Curve_subAA_A :: "'e curve \<Rightarrow> 'e affine \<Rightarrow> 'e affine \<Rightarrow> 'e affine" where
  "Curve_subAA_A C p1 p2 = (let tmp = Curve_negAA C p2 in Curve_addAA_A C p1 tmp)"

definition Curve_subAP_A :: "'e curve \<Rightarrow> 'e affine \<Rightarrow> 'e point \<Rightarrow> 'e affine" where
  "Curve_subAP_A C p1 p2 = (let tmp = Curve_negPP C p2 in Curve_addAP_A C p1 tmp)"

subsection \<open>Text\<close>

definition Curve_toString :: "'e curve \<Rightarrow> ('e \<Rightarrow> nat \<Rightarrow> string) \<Rightarrow> 'e point \<Rightarrow> nat \<Rightarrow> string" where
  "Curve_toString C F_toString p radix = (let tmp = Curve_copyAP C p
     in ''('' @ F_toString (ax tmp) radix @ '','' @ F_toString (ay tmp) radix @ '')'')"

subsection \<open>The operations on a store of points\<close>

text \<open>
  The overloads whose result may be one of the arguments, as sequences of writes to the object
  \<open>p3\<close>: every read goes to the store at that moment.
\<close>

type_synonym 'e points = "nat \<Rightarrow> 'e point"

definition set_x :: "nat \<Rightarrow> 'e \<Rightarrow> 'e points \<Rightarrow> 'e points" where
  "set_x p v st = st(p := (st p)\<lparr> px := v \<rparr>)"

definition set_y :: "nat \<Rightarrow> 'e \<Rightarrow> 'e points \<Rightarrow> 'e points" where
  "set_y p v st = st(p := (st p)\<lparr> py := v \<rparr>)"

definition set_zz :: "nat \<Rightarrow> 'e \<Rightarrow> 'e points \<Rightarrow> 'e points" where
  "set_zz p v st = st(p := (st p)\<lparr> pzz := v \<rparr>)"

definition set_zzz :: "nat \<Rightarrow> 'e \<Rightarrow> 'e points \<Rightarrow> 'e points" where
  "set_zzz p v st = st(p := (st p)\<lparr> pzzz := v \<rparr>)"

definition Curve_copy_at :: "'e curve \<Rightarrow> 'e points \<Rightarrow> nat \<Rightarrow> nat \<Rightarrow> 'e points" where
  "Curve_copy_at C st r a = (let F = c_F C;
       st = set_x r (F_copy F (px (st a))) st;
       st = set_y r (F_copy F (py (st a))) st;
       st = set_zz r (F_copy F (pzz (st a))) st;
       st = set_zzz r (F_copy F (pzzz (st a))) st
     in st)"

definition Curve_neg_at :: "'e curve \<Rightarrow> 'e points \<Rightarrow> nat \<Rightarrow> nat \<Rightarrow> 'e points" where
  "Curve_neg_at C st r a = (let F = c_F C;
       st = set_x r (F_copy F (px (st a))) st;
       st = set_y r (F_neg F (py (st a))) st;
       st = set_zz r (F_copy F (pzz (st a))) st;
       st = set_zzz r (F_copy F (pzzz (st a))) st
     in st)"

definition Curve_dbl_at :: "'e curve \<Rightarrow> 'e points \<Rightarrow> nat \<Rightarrow> nat \<Rightarrow> 'e points" where
  "Curve_dbl_at C st p3 p1 = (let F = c_F C in
     if Curve_isZeroP C (st p1) then Curve_copy_at C st p3 p1
     else
       (let U = F_add F (py (st p1)) (py (st p1));
            V = F_square F U;
            W = F_mul F U V;
            S = F_mul F (px (st p1)) V;
            M = F_square F (px (st p1));
            tmp = F_add F M M;
            M = F_add F M tmp;
            M = (if c_typeOfA C \<noteq> a_is_zero
                 then (let tmp = F_square F (pzz (st p1)); tmp = Curve_mulByA C tmp in F_add F M tmp)
                 else M);
            st = set_x p3 (F_square F M) st;
            st = set_x p3 (F_sub F (px (st p3)) S) st;
            st = set_x p3 (F_sub F (px (st p3)) S) st;
            tmp = F_mul F W (py (st p1));
            st = set_y p3 (F_sub F S (px (st p3))) st;
            st = set_y p3 (F_mul F M (py (st p3))) st;
            st = set_y p3 (F_sub F (py (st p3)) tmp) st;
            st = set_zz p3 (F_mul F V (pzz (st p1))) st;
            st = set_zzz p3 (F_mul F W (pzzz (st p1))) st
        in st))"

definition Curve_add_at :: "'e curve \<Rightarrow> 'e points \<Rightarrow> nat \<Rightarrow> nat \<Rightarrow> nat \<Rightarrow> 'e points" where
  "Curve_add_at C st p3 p1 p2 = (let F = c_F C in
     if Curve_isZeroP C (st p1) then Curve_copy_at C st p3 p2
     else if Curve_isZeroP C (st p2) then Curve_copy_at C st p3 p1
     else
       (let U1 = F_mul F (px (st p1)) (pzz (st p2));
            U2 = F_mul F (px (st p2)) (pzz (st p1));
            S1 = F_mul F (py (st p1)) (pzzz (st p2));
            S2 = F_mul F (py (st p2)) (pzzz (st p1));
            P = F_sub F U2 U1;
            R = F_sub F S2 S1
        in if F_isZero F P \<and> F_isZero F R then Curve_dbl_at C st p3 p1
           else
             (let PP = F_square F P;
                  PPP = F_mul F P PP;
                  Q = F_mul F U1 PP;
                  st = set_x p3 (F_square F R) st;
                  st = set_x p3 (F_sub F (px (st p3)) PPP) st;
                  st = set_x p3 (F_sub F (px (st p3)) Q) st;
                  st = set_x p3 (F_sub F (px (st p3)) Q) st;
                  tmp = F_mul F S1 PPP;
                  st = set_y p3 (F_sub F Q (px (st p3))) st;
                  st = set_y p3 (F_mul F (py (st p3)) R) st;
                  st = set_y p3 (F_sub F (py (st p3)) tmp) st;
                  st = set_zz p3 (F_mul F (pzz (st p1)) (pzz (st p2))) st;
                  st = set_zz p3 (F_mul F (pzz (st p3)) PP) st;
                  st = set_zzz p3 (F_mul F (pzzz (st p1)) (pzzz (st p2))) st;
                  st = set_zzz p3 (F_mul F (pzzz (st p3)) PPP) st
              in st)))"

definition Curve_addMixed_at :: "'e curve \<Rightarrow> 'e points \<Rightarrow> nat \<Rightarrow> nat \<Rightarrow> 'e affine \<Rightarrow> 'e points" where
  "Curve_addMixed_at C st p3 p1 p2 = (let F = c_F C in
     if Curve_isZeroP C (st p1) then st(p3 := Curve_copyPA C p2)
     else if Curve_isZeroA C p2 then Curve_copy_at C st p3 p1
     else
       (let U2 = F_mul F (ax p2) (pzz (st p1));
            S2 = F_mul F (ay p2) (pzzz (st p1));
            P = F_sub F U2 (px (st p1));
            R = F_sub F S2 (py (st p1))
        in if F_isZero F P \<and> F_isZero F R then st(p3 := Curve_dblA C p2)
           else
             (let PP = F_square F P;
                  PPP = F_mul F P PP;
                  Q = F_mul F (px (st p1)) PP;
                  st = set_x p3 (F_square F R) st;
                  st = set_x p3 (F_sub F (px (st p3)) PPP) st;
                  st = set_x p3 (F_sub F (px (st p3)) Q) st;
                  st = set_x p3 (F_sub F (px (st p3)) Q) st;
                  tmp = F_mul F (py (st p1)) PPP;
                  st = set_y p3 (F_sub F Q (px (st p3))) st;
                  st = set_y p3 (F_mul F (py (st p3)) R) st;
                  st = set_y p3 (F_sub F (py (st p3)) tmp) st;
                  st = set_zz p3 (F_mul F (pzz (st p1)) PP) st;
                  st = set_zzz p3 (F_mul F (pzzz (st p1)) PPP) st
              in st)))"

end
