(* ===== verification/Weierstrass.thy ===== *)
theory Weierstrass
  imports Prelude
begin

section \<open>The textbook group law of a short Weierstrass curve\<close>

text \<open>
  The specification of the curve code: affine points of \<open>y\<^sup>2 = x\<^sup>3 + a x + b\<close> over a field with the
  point at infinity, the chord-and-tangent addition, and the facts the code's proofs use (closure,
  neutral element, inverse, commutativity). The last part relates it to the XYZZ coordinates of the
  code: a point with \<open>zz\<^sup>3 = zzz\<^sup>2\<close>, \<open>zz \<noteq> 0\<close> has the form \<open>(x w\<^sup>2, y w\<^sup>3, w\<^sup>2, w\<^sup>3)\<close>, and the
  code's formulas are polynomial identities in \<open>x\<close>, \<open>y\<close>, \<open>w\<close> and the slope.
\<close>

datatype 'k ec = Inf | Aff 'k 'k

definition ec_on :: "'k :: field \<Rightarrow> 'k \<Rightarrow> 'k ec \<Rightarrow> bool" where
  "ec_on a b p = (case p of Inf \<Rightarrow> True | Aff x y \<Rightarrow> y * y = x * x * x + a * x + b)"

definition ec_neg :: "'k :: field ec \<Rightarrow> 'k ec" where
  "ec_neg p = (case p of Inf \<Rightarrow> Inf | Aff x y \<Rightarrow> Aff x (- y))"

definition ec_line :: "'k :: field \<Rightarrow> 'k \<Rightarrow> 'k \<Rightarrow> 'k \<Rightarrow> 'k ec" where
  "ec_line l x1 y1 x2 = (let x3 = l * l - x1 - x2 in Aff x3 (l * (x1 - x3) - y1))"

definition ec_dbl :: "'k :: field \<Rightarrow> 'k ec \<Rightarrow> 'k ec" where
  "ec_dbl a p = (case p of Inf \<Rightarrow> Inf
     | Aff x y \<Rightarrow> if y = 0 then Inf else ec_line ((3 * (x * x) + a) / (2 * y)) x y x)"

definition ec_add :: "'k :: field \<Rightarrow> 'k ec \<Rightarrow> 'k ec \<Rightarrow> 'k ec" where
  "ec_add a p q = (case p of Inf \<Rightarrow> q | Aff x1 y1 \<Rightarrow> (case q of Inf \<Rightarrow> p | Aff x2 y2 \<Rightarrow>
     if x1 = x2 then (if y1 = y2 then ec_dbl a p else Inf)
     else ec_line ((y2 - y1) / (x2 - x1)) x1 y1 x2))"

lemma ec_add_Inf [simp]: "ec_add a Inf q = q" "ec_add a p Inf = p"
  by (simp_all add: ec_add_def split: ec.split)

lemma ec_neg_simps [simp]: "ec_neg Inf = Inf" "ec_neg (Aff x y) = Aff x (- y)"
  by (simp_all add: ec_neg_def)

lemma ec_on_simps [simp]: "ec_on a b Inf" "ec_on a b (Aff x y) \<longleftrightarrow> y * y = x * x * x + a * x + b"
  by (simp_all add: ec_on_def)

lemma ec_on_neg [simp]: "ec_on a b (ec_neg p) = ec_on a b p"
  by (simp add: ec_on_def split: ec.split)

lemma ec_add_same: "ec_add a p p = ec_dbl a p"
  by (simp add: ec_add_def ec_dbl_def split: ec.split)

lemma ec_on_same_x: "ec_on a b (Aff x y) \<Longrightarrow> ec_on a b (Aff x z) \<Longrightarrow> z = y \<or> z = - y"
  for x y z :: "'k :: field"
  by simp (metis square_eq_iff)

lemma ec_line_closed:
  fixes x1 :: "'k :: field"
  assumes on: "ec_on a b (Aff x1 y1)"
    and slope: "l * (2 * y1 + l * (x2 - x1)) = x1 * x1 + x1 * x2 + x2 * x2 + a"
  shows "ec_on a b (ec_line l x1 y1 x2)"
proof -
  define d where "d = x2 - x1"
  have x2: "x2 = x1 + d" by (simp add: d_def)
  have a: "a = l * (2 * y1 + l * d) - x1 * x1 - x1 * (x1 + d) - (x1 + d) * (x1 + d)"
    using slope by (simp add: x2 algebra_simps)
  from on have b: "b = y1 * y1 - x1 * x1 * x1 - a * x1" by (simp add: algebra_simps)
  show ?thesis unfolding ec_line_def Let_def ec_on_simps b unfolding a x2
    by (simp add: algebra_simps)
qed

lemma ec_dbl_closed:
  fixes p :: "'k :: field ec"
  assumes "(2 :: 'k) \<noteq> 0" and "ec_on a b p"
  shows "ec_on a b (ec_dbl a p)"
proof (cases p)
  case (Aff x y)
  show ?thesis
  proof (cases "y = 0")
    case False
    with assms have "ec_on a b (ec_line ((3 * (x * x) + a) / (2 * y)) x y x)"
      by (intro ec_line_closed) (simp_all add: Aff)
    with False Aff show ?thesis by (simp add: ec_dbl_def)
  qed (simp add: Aff ec_dbl_def)
qed (simp add: ec_dbl_def)

theorem ec_add_closed:
  fixes p q :: "'k :: field ec"
  assumes "(2 :: 'k) \<noteq> 0" and "ec_on a b p" and "ec_on a b q"
  shows "ec_on a b (ec_add a p q)"
proof (cases p)
  case P: (Aff x1 y1)
  show ?thesis
  proof (cases q)
    case Q: (Aff x2 y2)
    show ?thesis
    proof (cases "x1 = x2")
      case True
      with assms P Q ec_dbl_closed [OF assms(1), of a b p] show ?thesis by (auto simp: ec_add_def)
    next
      case False
      define l where "l = (y2 - y1) / (x2 - x1)"
      have y2: "y2 = y1 + l * (x2 - x1)" using False by (simp add: l_def)
      have on: "y1 * y1 = x1 * x1 * x1 + a * x1 + b" "y2 * y2 = x2 * x2 * x2 + a * x2 + b"
        using assms P Q by simp_all
      then have "(y2 * y2 - y1 * y1) - (x2 * x2 * x2 + a * x2 - (x1 * x1 * x1 + a * x1)) = 0" by simp
      then have "(x2 - x1) * (l * (2 * y1 + l * (x2 - x1)) - (x1 * x1 + x1 * x2 + x2 * x2 + a)) = 0"
        unfolding y2 by (simp add: algebra_simps)
      with False have "l * (2 * y1 + l * (x2 - x1)) = x1 * x1 + x1 * x2 + x2 * x2 + a" by simp
      with assms(2) P have "ec_on a b (ec_line l x1 y1 x2)" by (intro ec_line_closed) simp_all
      with False P Q show ?thesis by (simp add: ec_add_def l_def)
    qed
  qed (use assms P in simp)
qed (use assms in simp)

theorem ec_add_commute:
  fixes p q :: "'k :: field ec"
  shows "ec_add a p q = ec_add a q p"
proof (cases p; cases q)
  fix x1 y1 x2 y2
  assume P: "p = Aff x1 y1" and Q: "q = Aff x2 y2"
  show ?thesis
  proof (cases "x1 = x2")
    case False
    define l where "l = (y2 - y1) / (x2 - x1)"
    have l': "(y1 - y2) / (x1 - x2) = l" unfolding l_def by (metis minus_diff_eq minus_divide_divide)
    have y2: "y2 = y1 + l * (x2 - x1)" using False by (simp add: l_def)
    have "ec_line l x1 y1 x2 = ec_line l x2 y2 x1"
      unfolding ec_line_def Let_def y2 by (simp add: algebra_simps)
    with False P Q l' show ?thesis by (simp add: ec_add_def l_def)
  qed (simp add: P Q ec_add_def ec_dbl_def)
qed simp_all

lemma ec_add_neg:
  fixes p :: "'k :: field ec"
  assumes "(2 :: 'k) \<noteq> 0"
  shows "ec_add a p (ec_neg p) = Inf"
proof (cases p)
  case (Aff x y)
  have "y = - y \<longleftrightarrow> y = 0"
  proof
    assume "y = - y"
    then have "2 * y = 0" by (metis add.right_inverse mult_2)
    with assms show "y = 0" by simp
  qed simp
  then show ?thesis by (simp add: Aff ec_add_def ec_dbl_def)
qed simp

subsection \<open>XYZZ coordinates\<close>

lemma xyzz_scale:
  fixes zz zzz :: "'k :: field"
  assumes "zz * zz * zz = zzz * zzz" and "zz \<noteq> 0"
  obtains w where "w \<noteq> 0" and "zz = w * w" and "zzz = w * w * w"
proof
  have n: "zzz \<noteq> 0" using assms by auto
  then show "zzz / zz \<noteq> 0" using assms(2) by simp
  show "zz = (zzz / zz) * (zzz / zz)" using assms by (simp add: field_simps)
  show "zzz = (zzz / zz) * (zzz / zz) * (zzz / zz)" using assms n by (simp add: field_simps)
qed

lemma xyzz_add:
  fixes x1 y1 w1 d l w2 :: "'k :: field"
  assumes U1: "U1 = x1 * (w1 * w1) * (w2 * w2)" and U2: "U2 = (x1 + d) * (w2 * w2) * (w1 * w1)"
    and S1: "S1 = y1 * (w1 * w1 * w1) * (w2 * w2 * w2)"
    and S2: "S2 = (y1 + l * d) * (w2 * w2 * w2) * (w1 * w1 * w1)"
    and w: "w = w1 * w1 * w1 * (w2 * w2 * w2) * d"
    and P0: "P = U2 - U1" and R0: "R = S2 - S1"
    and X: "X3 = R * R - P * (P * P) - U1 * (P * P) - U1 * (P * P)"
    and x3: "x3 = l * l - x1 - (x1 + d)"
  shows "X3 = x3 * (w * w)"
    and "(U1 * (P * P) - X3) * R - S1 * (P * (P * P)) = (l * (x1 - x3) - y1) * (w * w * w)"
    and "w1 * w1 * (w2 * w2) * (P * P) = w * w"
    and "w1 * w1 * w1 * (w2 * w2 * w2) * (P * (P * P)) = w * w * w"
proof -
  have P: "P = d * (w1 * w1 * (w2 * w2))" by (simp add: P0 U1 U2 algebra_simps)
  have R: "R = l * d * (w1 * w1 * w1 * (w2 * w2 * w2))" by (simp add: R0 S1 S2 algebra_simps)
  show X3: "X3 = x3 * (w * w)" unfolding X P R U1 x3 w by (simp add: algebra_simps)
  show "(U1 * (P * P) - X3) * R - S1 * (P * (P * P)) = (l * (x1 - x3) - y1) * (w * w * w)"
    unfolding X3 P R U1 S1 w by (simp add: algebra_simps)
  show "w1 * w1 * (w2 * w2) * (P * P) = w * w" unfolding P w by (simp add: algebra_simps)
  show "w1 * w1 * w1 * (w2 * w2 * w2) * (P * (P * P)) = w * w * w"
    unfolding P w by (simp add: algebra_simps)
qed

lemma xyzz_dbl:
  fixes x y w l a :: "'k :: field"
  assumes slope: "3 * (x * x) + a = l * (2 * y)"
    and U0: "U = y * (w * w * w) + y * (w * w * w)"
    and V: "V = U * U" and W: "W = U * V" and S: "S = x * (w * w) * V"
    and M0: "M = x * (w * w) * (x * (w * w)) + (x * (w * w) * (x * (w * w)) + x * (w * w) * (x * (w * w)))
      + a * (w * w * (w * w))"
    and w': "w' = 2 * y * (w * w * w * w)"
    and X: "X3 = M * M - S - S" and x3: "x3 = l * l - x - x"
  shows "X3 = x3 * (w' * w')"
    and "M * (S - X3) - W * (y * (w * w * w)) = (l * (x - x3) - y) * (w' * w' * w')"
    and "V * (w * w) = w' * w'" and "W * (w * w * w) = w' * w' * w'"
proof -
  have "M = (3 * (x * x) + a) * (w * w * (w * w))" by (simp add: M0 algebra_simps)
  then have M: "M = l * (2 * y) * (w * w * (w * w))" unfolding slope .
  have U: "U = 2 * y * (w * w * w)" by (simp add: U0 algebra_simps)
  show X3: "X3 = x3 * (w' * w')" unfolding X M S V U x3 w' by (simp add: algebra_simps)
  show "M * (S - X3) - W * (y * (w * w * w)) = (l * (x - x3) - y) * (w' * w' * w')"
    unfolding X3 M S W V U w' by (simp add: algebra_simps)
  show "V * (w * w) = w' * w'" unfolding V U w' by (simp add: algebra_simps)
  show "W * (w * w * w) = w' * w' * w'" unfolding W V U w' by (simp add: algebra_simps)
qed

end
