(* ===== verification/Curve_Laws.thy ===== *)
theory Curve_Laws
  imports Curve Weierstrass
begin

section \<open>The curve operations compute the group law\<close>

text \<open>
  Over any field that meets \<open>field_ops_laws\<close> the operations of \<open>Curve\<close> take points with
  \<open>zz\<^sup>3 = zzz\<^sup>2\<close> to such points and compute the textbook operations of \<open>Weierstrass\<close> on the affine
  points they stand for, in every case the code distinguishes (either operand neutral, equal
  operands, opposite operands, a point of order two, the general chord). The last part shows that the
  operations on the store of points do the same whichever of their arguments are one object.
\<close>

definition point_ok :: "('e \<Rightarrow> bool) \<Rightarrow> ('e \<Rightarrow> 'k :: field) \<Rightarrow> 'e point \<Rightarrow> bool" where
  "point_ok ok val p \<longleftrightarrow> ok (px p) \<and> ok (py p) \<and> ok (pzz p) \<and> ok (pzzz p)
    \<and> val (pzz p) * val (pzz p) * val (pzz p) = val (pzzz p) * val (pzzz p)"

definition point_val :: "('e \<Rightarrow> 'k :: field) \<Rightarrow> 'e point \<Rightarrow> 'k ec" where
  "point_val val p = (if val (pzz p) = 0 then Inf
     else Aff (val (px p) / val (pzz p)) (val (py p) / val (pzzz p)))"

definition aff_ok :: "('e \<Rightarrow> bool) \<Rightarrow> 'e affine \<Rightarrow> bool" where
  "aff_ok ok p \<longleftrightarrow> ok (ax p) \<and> ok (ay p)"

definition aff_val :: "('e \<Rightarrow> 'k :: field) \<Rightarrow> 'e affine \<Rightarrow> 'k ec" where
  "aff_val val p = (if val (ax p) = 0 \<and> val (ay p) = 0 then Inf else Aff (val (ax p)) (val (ay p)))"

locale curve_params = field_ops_laws F ok val
  for F :: "'e field_ops" and ok :: "'e \<Rightarrow> bool" and val :: "'e \<Rightarrow> 'k :: field" +
  fixes aa ab agx agy :: 'e
  assumes ok_a: "ok aa" and ok_b: "ok ab" and ok_g: "ok agx" "ok agy"
    and two_neq_0: "(2 :: 'k) \<noteq> 0"
begin

abbreviation "C \<equiv> Curve_initCurve F aa ab agx agy"
abbreviation "pok \<equiv> point_ok ok val"
abbreviation "pval \<equiv> point_val val"
abbreviation "aok \<equiv> aff_ok ok"
abbreviation "aval \<equiv> aff_val val"

lemma C_F [simp]: "c_F C = F" and C_fa [simp]: "c_fa C = aa"
  by (simp_all add: Curve_initCurve_def Let_def ok_a)

lemma C_zero_type: "c_typeOfA C = a_is_zero \<longleftrightarrow> val aa = 0"
  by (auto simp: Curve_initCurve_def Let_def ok_a field_code)

lemma mulByA_value:
  assumes "ok x"
  shows "ok (Curve_mulByA C x)" and "val (Curve_mulByA C x) = val aa * val x"
  using assms ok_a by (auto simp: Curve_mulByA_def Curve_initCurve_def Let_def field_code)

lemma isZeroP_value: "pok p \<Longrightarrow> Curve_isZeroP C p \<longleftrightarrow> pval p = Inf"
  by (simp add: Curve_isZeroP_def point_ok_def point_val_def field_code)

lemma isZeroA_value: "aok p \<Longrightarrow> Curve_isZeroA C p \<longleftrightarrow> aval p = Inf"
  by (simp add: Curve_isZeroA_def aff_ok_def aff_val_def field_code)

lemma copyPP_id: "pok p \<Longrightarrow> Curve_copyPP C p = p"
  by (simp add: Curve_copyPP_def point_ok_def Let_def)

lemma copyAA_id: "aok p \<Longrightarrow> Curve_copyAA C p = p"
  by (simp add: Curve_copyAA_def aff_ok_def)

text \<open>A well-formed point is neutral or a scaled affine point.\<close>

lemma pok_cases:
  assumes "pok p"
  obtains (zero) "pval p = Inf" "val (pzz p) = 0" "val (pzzz p) = 0"
  | (scaled) x y w where "w \<noteq> 0" "pval p = Aff x y" "val (px p) = x * (w * w)"
      "val (py p) = y * (w * w * w)" "val (pzz p) = w * w" "val (pzzz p) = w * w * w"
proof (cases "val (pzz p) = 0")
  case True
  with assms show ?thesis by (intro zero) (auto simp: point_ok_def point_val_def)
next
  case False
  with assms obtain w where w: "w \<noteq> 0" "val (pzz p) = w * w" "val (pzzz p) = w * w * w"
    by (auto simp: point_ok_def elim: xyzz_scale)
  show ?thesis
    by (rule scaled [of w "val (px p) / (w * w)" "val (py p) / (w * w * w)"])
      (use w in \<open>simp_all add: point_val_def\<close>)
qed

lemma scaled_point:
  assumes "ok (px r)" "ok (py r)" "ok (pzz r)" "ok (pzzz r)"
    and "val (px r) = x' * (w * w)" "val (py r) = y' * (w * w * w)"
    and "val (pzz r) = w * w" "val (pzzz r) = w * w * w"
  shows "pok r \<and> pval r = (if w = 0 then Inf else Aff x' y')"
  using assms by (simp add: point_ok_def point_val_def)

lemma aval_pt:
  assumes "aok p"
  shows "pok (Curve_copyPA C p) \<and> pval (Curve_copyPA C p) = aval p"
  using assms by (simp add: Curve_copyPA_def Let_def isZeroA_value point_ok_def point_val_def
      aff_ok_def aff_val_def field_code split: if_splits)

subsection \<open>Negation, conversion, comparison\<close>

lemma negPP_value:
  assumes "pok p"
  shows "pok (Curve_negPP C p) \<and> pval (Curve_negPP C p) = ec_neg (pval p)"
  using assms by (simp add: Curve_negPP_def Let_def point_ok_def point_val_def field_code)

lemma negAA_value:
  assumes "aok p"
  shows "aok (Curve_negAA C p) \<and> aval (Curve_negAA C p) = ec_neg (aval p)"
  using assms by (simp add: Curve_negAA_def aff_ok_def aff_val_def field_code)

lemma negPA_value:
  assumes "aok p"
  shows "pok (Curve_negPA C p)
    \<and> pval (Curve_negPA C p) = Aff (val (ax p)) (- val (ay p))"
  using assms by (simp add: Curve_negPA_def Let_def aff_ok_def point_ok_def point_val_def field_code)

text \<open>
  Conversion to affine coordinates divides, and cannot tell the neutral element from a point with
  coordinates \<open>(0, 0)\<close>, which no curve with \<open>b \<noteq> 0\<close> has.
\<close>

lemma copyAP_value:
  assumes "pok p" and "pval p \<noteq> Aff 0 0"
  shows "aok (Curve_copyAP C p) \<and> aval (Curve_copyAP C p) = pval p"
proof (cases "pval p = Inf")
  case True
  with assms show ?thesis
    by (simp add: Curve_copyAP_def Let_def isZeroP_value aff_ok_def aff_val_def field_code)
next
  case False
  with assms(1) have "val (pzz p) \<noteq> 0" "val (pzzz p) \<noteq> 0"
    by (auto simp: point_ok_def point_val_def split: if_splits)
  with assms False show ?thesis
    by (auto simp: Curve_copyAP_def Let_def isZeroP_value aff_ok_def aff_val_def point_val_def
        point_ok_def ok_div val_div)
qed

lemma negAP_value:
  assumes "pok p" and "pval p \<noteq> Aff 0 0"
  shows "aok (Curve_negAP C p) \<and> aval (Curve_negAP C p) = ec_neg (pval p)"
proof (cases "pval p = Inf")
  case True
  with assms show ?thesis
    by (simp add: Curve_negAP_def Let_def isZeroP_value aff_ok_def aff_val_def field_code)
next
  case False
  with assms(1) have "val (pzz p) \<noteq> 0" "val (pzzz p) \<noteq> 0"
    by (auto simp: point_ok_def point_val_def split: if_splits)
  with assms False show ?thesis
    by (auto simp: Curve_negAP_def Let_def isZeroP_value aff_ok_def aff_val_def point_val_def
        point_ok_def ok_div val_div field_code)
qed

lemma eqPP_value:
  assumes "pok p1" and "pok p2" and "pval p1 \<noteq> Inf \<Longrightarrow> pval p2 = Inf \<Longrightarrow> val (px p2) \<noteq> 0"
  shows "Curve_eqPP C p1 p2 \<longleftrightarrow> pval p1 = pval p2"
  using assms(1)
proof (cases rule: pok_cases)
  case zero
  with assms show ?thesis by (auto simp: Curve_eqPP_def Let_def isZeroP_value)
next
  case p1: (scaled x1 y1 w1)
  have ok: "ok (px p1)" "ok (py p1)" "ok (pzz p1)" "ok (pzzz p1)"
    "ok (px p2)" "ok (py p2)" "ok (pzz p2)" "ok (pzzz p2)" using assms by (simp_all add: point_ok_def)
  from assms(2) show ?thesis
  proof (cases rule: pok_cases)
    case zero
    with p1 assms ok show ?thesis
      by (simp add: Curve_eqPP_def Let_def isZeroP_value field_code)
  next
    case p2: (scaled x2 y2 w2)
    have "x2 * (w2 * w2) * (w1 * w1) = x1 * (w1 * w1) * (w2 * w2) \<longleftrightarrow> x1 = x2"
      "y2 * (w2 * w2 * w2) * (w1 * w1 * w1) = y1 * (w1 * w1 * w1) * (w2 * w2 * w2) \<longleftrightarrow> y1 = y2"
      using p1(1) p2(1) by (auto simp: field_simps)
    with p1 p2 ok assms(1) show ?thesis
      by (simp add: Curve_eqPP_def Let_def isZeroP_value field_code)
  qed
qed

lemma eqPA_value:
  assumes "pok p1" and "aok p2" and "aval p2 = Inf \<Longrightarrow> pval p1 \<noteq> Aff 0 0"
  shows "Curve_eqPA C p1 p2 \<longleftrightarrow> pval p1 = aval p2"
  using assms(1)
proof (cases rule: pok_cases)
  case zero
  with assms show ?thesis by (auto simp: Curve_eqPA_def Let_def isZeroP_value isZeroA_value)
next
  case p1: (scaled x1 y1 w1)
  have ok: "ok (px p1)" "ok (py p1)" "ok (pzz p1)" "ok (pzzz p1)" "ok (ax p2)" "ok (ay p2)"
    using assms by (simp_all add: point_ok_def aff_ok_def)
  have "Curve_eqPA C p1 p2 \<longleftrightarrow> val (ax p2) = x1 \<and> val (ay p2) = y1"
    using p1 ok assms(1) by (simp add: Curve_eqPA_def Let_def isZeroP_value field_code)
  with p1 assms(3) show ?thesis by (auto simp: aff_val_def)
qed

lemma eqAA_value: "aok p1 \<Longrightarrow> aok p2 \<Longrightarrow> Curve_eqAA C p1 p2 \<longleftrightarrow> aval p1 = aval p2"
  by (auto simp: Curve_eqAA_def aff_ok_def aff_val_def field_code)

subsection \<open>Doubling\<close>

text \<open>The values of the components of a doubling, before the algebra.\<close>

lemma dblP_parts:
  assumes p: "pok p" "pval p \<noteq> Inf"
    and U: "U = val (py p) + val (py p)" and V: "V = U * U" and W: "W = U * V"
    and S: "S = val (px p) * V"
    and M: "M = val (px p) * val (px p) + (val (px p) * val (px p) + val (px p) * val (px p))
      + val aa * (val (pzz p) * val (pzz p))"
    and X3: "X3 = M * M - S - S"
  defines "r \<equiv> Curve_dblP C p"
  shows "ok (px r)" "ok (py r)" "ok (pzz r)" "ok (pzzz r)" "val (px r) = X3"
    "val (py r) = M * (S - X3) - W * val (py p)" "val (pzz r) = V * val (pzz p)"
    "val (pzzz r) = W * val (pzzz p)"
proof -
  have ok: "ok (px p)" "ok (py p)" "ok (pzz p)" "ok (pzzz p)" using p by (simp_all add: point_ok_def)
  have nz: "\<not> Curve_isZeroP C p" using p by (simp add: isZeroP_value)
  show "ok (px r)" "ok (py r)" "ok (pzz r)" "ok (pzzz r)"
    using ok mulByA_value(1) by (simp_all add: r_def Curve_dblP_def Let_def nz)
  have a0: "val aa = 0" if "c_typeOfA C = a_is_zero" using that by (simp add: C_zero_type)
  show "val (px r) = X3" "val (py r) = M * (S - X3) - W * val (py p)"
    "val (pzz r) = V * val (pzz p)" "val (pzzz r) = W * val (pzzz p)"
    unfolding X3 M S W V U using ok mulByA_value
    by (simp_all add: r_def Curve_dblP_def Let_def nz field_code a0)
qed

lemma dblA_parts:
  assumes p: "aok p" "aval p \<noteq> Inf"
    and U: "U = val (ay p) + val (ay p)" and V: "V = U * U" and W: "W = U * V"
    and S: "S = val (ax p) * V"
    and M: "M = val (ax p) * val (ax p) + val (ax p) * val (ax p) + val (ax p) * val (ax p) + val aa"
    and X3: "X3 = M * M - S - S"
  defines "r \<equiv> Curve_dblA C p"
  shows "ok (px r)" "ok (py r)" "ok (pzz r)" "ok (pzzz r)" "val (px r) = X3"
    "val (py r) = M * (S - X3) - W * val (ay p)" "val (pzz r) = V" "val (pzzz r) = W"
proof -
  have ok: "ok (ax p)" "ok (ay p)" using p by (simp_all add: aff_ok_def)
  have nz: "\<not> Curve_isZeroA C p" using p by (simp add: isZeroA_value)
  show "ok (px r)" "ok (py r)" "ok (pzz r)" "ok (pzzz r)"
    using ok ok_a by (simp_all add: r_def Curve_dblA_def Let_def nz)
  show "val (px r) = X3" "val (py r) = M * (S - X3) - W * val (ay p)" "val (pzz r) = V" "val (pzzz r) = W"
    unfolding X3 M S W V U using ok ok_a by (simp_all add: r_def Curve_dblA_def Let_def nz field_code)
qed

text \<open>A result with the components of \<open>xyzz_dbl\<close> is the double.\<close>

lemma dbl_result:
  assumes ok: "ok (px r)" "ok (py r)" "ok (pzz r)" "ok (pzzz r)" and w: "w \<noteq> 0"
    and U: "U = y * (w * w * w) + y * (w * w * w)" and V: "V = U * U" and W: "W = U * V"
    and S: "S = x * (w * w) * V"
    and M: "M = x * (w * w) * (x * (w * w)) + (x * (w * w) * (x * (w * w)) + x * (w * w) * (x * (w * w)))
      + val aa * (w * w * (w * w))"
    and X3: "X3 = M * M - S - S"
    and r: "val (px r) = X3" "val (py r) = M * (S - X3) - W * (y * (w * w * w))"
      "val (pzz r) = V * (w * w)" "val (pzzz r) = W * (w * w * w)"
  shows "pok r \<and> pval r = ec_dbl (val aa) (Aff x y)"
proof (cases "y = 0")
  case True
  with r U V W ok show ?thesis by (simp add: point_ok_def point_val_def ec_dbl_def)
next
  case False
  define l where "l = (3 * (x * x) + val aa) / (2 * y)"
  have slope: "3 * (x * x) + val aa = l * (2 * y)" using False two_neq_0 by (simp add: l_def)
  define x3 where "x3 = l * l - x - x"
  define w' where "w' = 2 * y * (w * w * w * w)"
  have "w' \<noteq> 0" using False w two_neq_0 by (simp add: w'_def)
  note X = xyzz_dbl [OF slope U V W S M w'_def X3 x3_def]
  have "pok r \<and> pval r = (if w' = 0 then Inf else Aff x3 (l * (x - x3) - y))"
    by (rule scaled_point [OF ok]) (unfold r, (rule X)+)
  with False \<open>w' \<noteq> 0\<close> show ?thesis by (simp add: ec_dbl_def ec_line_def Let_def l_def x3_def)
qed

lemma dblP_value:
  assumes "pok p"
  shows "pok (Curve_dblP C p) \<and> pval (Curve_dblP C p) = ec_dbl (val aa) (pval p)"
  using assms
proof (cases rule: pok_cases)
  case zero
  with assms show ?thesis by (simp add: Curve_dblP_def Let_def isZeroP_value copyPP_id ec_dbl_def)
next
  case p: (scaled x y w)
  then have "pval p \<noteq> Inf" by simp
  note parts = dblP_parts [OF assms this refl refl refl refl refl refl, unfolded p(3-6)]
  show ?thesis unfolding p(2)
    by (rule dbl_result [OF parts(1-4) p(1) refl refl refl refl refl refl parts(5-8)])
qed

lemma dblA_value:
  assumes "aok p"
  shows "pok (Curve_dblA C p) \<and> pval (Curve_dblA C p) = ec_dbl (val aa) (aval p)"
proof (cases "aval p = Inf")
  case True
  with assms aval_pt [OF assms] show ?thesis
    by (simp add: Curve_dblA_def Let_def isZeroA_value ec_dbl_def)
next
  case False
  then have p: "aval p = Aff (val (ax p)) (val (ay p))" by (auto simp: aff_val_def split: if_splits)
  note parts = dblA_parts [OF assms False refl refl refl refl refl refl]
  show ?thesis unfolding p
    by (rule dbl_result [OF parts(1-4), of 1, OF _ refl refl refl refl refl refl])
      (simp_all add: parts(5-8) add.assoc)
qed

subsection \<open>Addition\<close>

text \<open>A result with the components of \<open>xyzz_add\<close> is the sum of two points with different \<open>x\<close>, or
  neutral when only the \<open>x\<close> agree.\<close>

lemma add_result:
  assumes ok: "ok (px r)" "ok (py r)" "ok (pzz r)" "ok (pzzz r)" and w: "w1 \<noteq> 0" "w2 \<noteq> 0"
    and U1: "U1 = x1 * (w1 * w1) * (w2 * w2)" and U2: "U2 = x2 * (w2 * w2) * (w1 * w1)"
    and S1: "S1 = y1 * (w1 * w1 * w1) * (w2 * w2 * w2)" and S2: "S2 = y2 * (w2 * w2 * w2) * (w1 * w1 * w1)"
    and P: "P = U2 - U1" and R: "R = S2 - S1"
    and ne: "\<not> (P = 0 \<and> R = 0)"
    and X3: "X3 = R * R - P * (P * P) - U1 * (P * P) - U1 * (P * P)"
    and r: "val (px r) = X3" "val (py r) = (U1 * (P * P) - X3) * R - S1 * (P * (P * P))"
      "val (pzz r) = w1 * w1 * (w2 * w2) * (P * P)"
      "val (pzzz r) = w1 * w1 * w1 * (w2 * w2 * w2) * (P * (P * P))"
  shows "pok r \<and> pval r = ec_add a' (Aff x1 y1) (Aff x2 y2)"
proof (cases "x1 = x2")
  case True
  then have "P = 0" by (simp add: P U1 U2 algebra_simps)
  with ne have "y1 \<noteq> y2" by (auto simp: R S1 S2 algebra_simps)
  with True \<open>P = 0\<close> r ok show ?thesis by (simp add: point_ok_def point_val_def ec_add_def)
next
  case False
  define d l where "d = x2 - x1" and "l = (y2 - y1) / (x2 - x1)"
  have x2: "x2 = x1 + d" and y2: "y2 = y1 + l * d" using False by (simp_all add: d_def l_def)
  define w where "w = w1 * w1 * w1 * (w2 * w2 * w2) * d"
  define x3 where "x3 = l * l - x1 - (x1 + d)"
  have "w \<noteq> 0" using False w by (simp add: w_def d_def)
  note X = xyzz_add [OF U1 U2 [unfolded x2] S1 S2 [unfolded y2] w_def P R X3 x3_def]
  have "pok r \<and> pval r = (if w = 0 then Inf else Aff x3 (l * (x1 - x3) - y1))"
    by (rule scaled_point [OF ok]) (unfold r, (rule X)+)
  with False \<open>w \<noteq> 0\<close> show ?thesis by (simp add: ec_add_def ec_line_def Let_def l_def x3_def d_def)
qed

lemma add_same:
  fixes x1 x2 y1 y2 w1 w2 :: 'k
  assumes "w1 \<noteq> 0" "w2 \<noteq> 0"
  shows "x2 * (w2 * w2) * (w1 * w1) - x1 * (w1 * w1) * (w2 * w2) = 0 \<longleftrightarrow> x1 = x2"
    and "y2 * (w2 * w2 * w2) * (w1 * w1 * w1) - y1 * (w1 * w1 * w1) * (w2 * w2 * w2) = 0 \<longleftrightarrow> y1 = y2"
  using assms by (auto simp: field_simps)

lemma addPP_value:
  assumes "pok p1" and "pok p2"
  shows "pok (Curve_addPP C p1 p2) \<and> pval (Curve_addPP C p1 p2) = ec_add (val aa) (pval p1) (pval p2)"
  using assms(1)
proof (cases rule: pok_cases)
  case zero
  with assms show ?thesis by (simp add: Curve_addPP_def Let_def isZeroP_value copyPP_id)
next
  case p1: (scaled x1 y1 w1)
  from assms(2) show ?thesis
  proof (cases rule: pok_cases)
    case zero
    with p1 assms show ?thesis by (simp add: Curve_addPP_def Let_def isZeroP_value copyPP_id)
  next
    case p2: (scaled x2 y2 w2)
    have ok: "ok (px p1)" "ok (py p1)" "ok (pzz p1)" "ok (pzzz p1)"
      "ok (px p2)" "ok (py p2)" "ok (pzz p2)" "ok (pzzz p2)" using assms by (simp_all add: point_ok_def)
    have nz: "\<not> Curve_isZeroP C p1" "\<not> Curve_isZeroP C p2" using assms p1 p2 by (simp_all add: isZeroP_value)
    show ?thesis
    proof (cases "x1 = x2 \<and> y1 = y2")
      case True
      have "Curve_addPP C p1 p2 = Curve_dblP C p1"
        using ok p1 p2 True by (simp add: Curve_addPP_def Let_def nz field_code add_same)
      with dblP_value [OF assms(1)] p1 p2 True show ?thesis by (simp add: ec_add_def)
    next
      case False
      show ?thesis unfolding p1(2) p2(2)
        by (rule add_result [OF _ _ _ _ p1(1) p2(1) refl refl refl refl refl refl _ refl])
          (use False ok p1 p2 in \<open>auto simp: Curve_addPP_def Let_def nz field_code\<close>)
    qed
  qed
qed

lemma affine_form:
  assumes "aok p" and "aval p \<noteq> Inf"
  shows "ok (ax p)" and "ok (ay p)" and "aval p = Aff (val (ax p)) (val (ay p))"
  using assms by (auto simp: aff_ok_def aff_val_def split: if_splits)

lemma addPA_value:
  assumes "pok p1" and "aok p2"
  shows "pok (Curve_addPA C p1 p2) \<and> pval (Curve_addPA C p1 p2) = ec_add (val aa) (pval p1) (aval p2)"
  using assms(1)
proof (cases rule: pok_cases)
  case zero
  with assms aval_pt [OF assms(2)] show ?thesis by (simp add: Curve_addPA_def Let_def isZeroP_value)
next
  case p1: (scaled x1 y1 w1)
  show ?thesis
  proof (cases "aval p2 = Inf")
    case True
    with p1 assms show ?thesis
      by (simp add: Curve_addPA_def Let_def isZeroP_value isZeroA_value copyPP_id)
  next
    case False
    note p2 = affine_form [OF assms(2) False]
    have ok: "ok (px p1)" "ok (py p1)" "ok (pzz p1)" "ok (pzzz p1)" using assms by (simp_all add: point_ok_def)
    have nz: "\<not> Curve_isZeroP C p1" "\<not> Curve_isZeroA C p2"
      using assms p1 False by (simp_all add: isZeroP_value isZeroA_value)
    show ?thesis
    proof (cases "x1 = val (ax p2) \<and> y1 = val (ay p2)")
      case True
      have "Curve_addPA C p1 p2 = Curve_dblA C p2"
        using ok p1 p2 True by (simp add: Curve_addPA_def Let_def nz field_code)
      with dblA_value [OF assms(2)] p1 p2 True show ?thesis by (simp add: ec_add_def)
    next
      case neq: False
      show ?thesis unfolding p1(2) p2(3)
        by (rule add_result [OF _ _ _ _ p1(1), of _ 1, OF _ _ _ _ _ refl refl refl refl refl refl _ refl])
          (use neq ok p1 p2 in \<open>auto simp: Curve_addPA_def Let_def nz field_code\<close>)
    qed
  qed
qed

lemma addAA_value:
  assumes "aok p1" and "aok p2"
  shows "pok (Curve_addAA C p1 p2) \<and> pval (Curve_addAA C p1 p2) = ec_add (val aa) (aval p1) (aval p2)"
proof (cases "aval p1 = Inf")
  case True
  with assms aval_pt [OF assms(2)] show ?thesis by (simp add: Curve_addAA_def Let_def isZeroA_value)
next
  case nz1: False
  note p1 = affine_form [OF assms(1) nz1]
  show ?thesis
  proof (cases "aval p2 = Inf")
    case True
    with nz1 assms aval_pt [OF assms(1)] show ?thesis by (simp add: Curve_addAA_def Let_def isZeroA_value)
  next
    case nz2: False
    note p2 = affine_form [OF assms(2) nz2]
    have nz: "\<not> Curve_isZeroA C p1" "\<not> Curve_isZeroA C p2"
      using assms nz1 nz2 by (simp_all add: isZeroA_value)
    show ?thesis
    proof (cases "val (ax p1) = val (ax p2) \<and> val (ay p1) = val (ay p2)")
      case True
      have "Curve_addAA C p1 p2 = Curve_dblA C p2"
        using p1 p2 True by (simp add: Curve_addAA_def Let_def nz field_code)
      with dblA_value [OF assms(2)] p1 p2 True show ?thesis by (simp add: ec_add_def)
    next
      case neq: False
      show ?thesis unfolding p1(3) p2(3)
        by (rule add_result [of _ 1 1, OF _ _ _ _ _ _ refl refl refl refl refl refl _ refl])
          (use neq p1 p2 in \<open>auto simp: Curve_addAA_def Let_def nz field_code\<close>)
    qed
  qed
qed

lemma addAP_value:
  assumes "aok p1" and "pok p2"
  shows "pok (Curve_addAP C p1 p2) \<and> pval (Curve_addAP C p1 p2) = ec_add (val aa) (aval p1) (pval p2)"
  using addPA_value [OF assms(2,1)] ec_add_commute [of "val aa" "aval p1" "pval p2"]
  by (simp add: Curve_addAP_def)

subsection \<open>Subtraction\<close>

lemma subPP_value:
  assumes "pok p1" and "pok p2"
  shows "pok (Curve_subPP C p1 p2)
    \<and> pval (Curve_subPP C p1 p2) = ec_add (val aa) (pval p1) (ec_neg (pval p2))"
  using addPP_value [OF assms(1)] negPP_value [OF assms(2)] by (simp add: Curve_subPP_def Let_def)

lemma subPA_value:
  assumes "pok p1" and "aok p2"
  shows "pok (Curve_subPA C p1 p2)
    \<and> pval (Curve_subPA C p1 p2) = ec_add (val aa) (pval p1) (ec_neg (aval p2))"
  using addPA_value [OF assms(1)] negAA_value [OF assms(2)] by (simp add: Curve_subPA_def Let_def)

lemma subAA_value:
  assumes "aok p1" and "aok p2"
  shows "pok (Curve_subAA C p1 p2)
    \<and> pval (Curve_subAA C p1 p2) = ec_add (val aa) (aval p1) (ec_neg (aval p2))"
  using addAA_value [OF assms(1)] negAA_value [OF assms(2)] by (simp add: Curve_subAA_def Let_def)

lemma subAP_value:
  assumes "aok p1" and "pok p2"
  shows "pok (Curve_subAP C p1 p2)
    \<and> pval (Curve_subAP C p1 p2) = ec_add (val aa) (aval p1) (ec_neg (pval p2))"
  using addAP_value [OF assms(1)] negPP_value [OF assms(2)] by (simp add: Curve_subAP_def Let_def)

subsection \<open>Aliasing\<close>

text \<open>
  The operations on the store write at \<open>p3\<close> what the operations on values return, and nothing else,
  whichever of \<open>p1\<close>, \<open>p2\<close>, \<open>p3\<close> are the same object.
\<close>

lemma point_update_all: "p\<lparr>px := x, py := y, pzz := zz, pzzz := zzz\<rparr> = pt x y zz zzz"
  for p :: "'e point"
  by (cases p) simp

lemmas store_simps = point_update_all set_x_def set_y_def set_zz_def set_zzz_def Let_def

lemma copy_at_eq: "Curve_copy_at C st r a = st(r := Curve_copyPP C (st a))"
  by (rule ext) (simp add: Curve_copy_at_def Curve_copyPP_def store_simps)

lemma neg_at_eq: "Curve_neg_at C st r a = st(r := Curve_negPP C (st a))"
  by (rule ext) (simp add: Curve_neg_at_def Curve_negPP_def store_simps)

lemma dbl_at_eq: "Curve_dbl_at C st p3 p1 = st(p3 := Curve_dblP C (st p1))"
  by (cases "p3 = p1") (simp_all add: Curve_dbl_at_def Curve_dblP_def copy_at_eq store_simps)

lemma add_at_eq: "Curve_add_at C st p3 p1 p2 = st(p3 := Curve_addPP C (st p1) (st p2))"
  by (cases "p3 = p1"; cases "p3 = p2")
    (simp_all add: Curve_add_at_def Curve_addPP_def copy_at_eq dbl_at_eq store_simps)

lemma addMixed_at_eq: "Curve_addMixed_at C st p3 p1 p2 = st(p3 := Curve_addPA C (st p1) p2)"
  by (cases "p3 = p1") (simp_all add: Curve_addMixed_at_def Curve_addPA_def copy_at_eq store_simps)

end

end
