(* ===== verification/Split_Par_Str.thy ===== *)
theory Split_Par_Str
  imports Prelude "HOL-Library.Monad_Syntax"
begin

section \<open>splitParStr: reading a comma separated list in parentheses\<close>

text \<open>
  \<open>splitparstr.cpp\<close>. \<open>removePars\<close> strips balanced outer parentheses; its positions are unsigned, so a
  string with more closing than opening parentheses makes \<open>std::string::erase\<close> throw
  \<open>std::out_of_range\<close> (\<open>None\<close>; the other error is a failed \<open>assert\<close> of its callers). \<open>splitParStr\<close> splits at the commas outside parentheses; when it finds
  a single part it strips its parentheses and calls itself on it. That recursion need not end, so the
  function is a \<open>partial_function\<close>: \<open>None\<close> is a call that does not return, \<open>Some (Inl Out_of_range)\<close> a
  call that throws, \<open>Some (Inr parts)\<close> a result.
\<close>

datatype str_error = Out_of_range | Assertion

definition is_space :: "char \<Rightarrow> bool" where
  "is_space c \<longleftrightarrow> (of_char c :: nat) = 32 \<or> (9 \<le> (of_char c :: nat) \<and> (of_char c :: nat) \<le> 13)"

text \<open>\<open>std::string::erase(pos, count)\<close>.\<close>

definition str_erase :: "string \<Rightarrow> u64 \<Rightarrow> u64 \<Rightarrow> string option" where
  "str_erase s pos n = (if length s < unat pos then None
     else Some (take (unat pos) s @ drop (unat pos + unat n) s))"

text \<open>The first loop of \<open>removePars\<close>, counting the outer pairs from \<open>ns\<close> on.\<close>

function count_pars :: "string \<Rightarrow> nat \<Rightarrow> nat" where
  "count_pars s ns = (if ns * 2 \<le> length s \<and> ns < length s \<and> s ! ns = CHR ''(''
       \<and> s ! (length s - 1 - ns) = CHR '')'' then count_pars s (ns + 1) else ns)"
  by pat_completeness auto
termination
  by (relation "measure (\<lambda>(s, ns). length s - ns)") auto

declare count_pars.simps [simp del]

text \<open>The second loop: the running parenthesis depth and its minimum.\<close>

fun pars_depth :: "string \<Rightarrow> int \<Rightarrow> int \<Rightarrow> int" where
  "pars_depth [] ins minIns = minIns"
| "pars_depth (c # cs) ins minIns =
     (let ins = (if c = CHR ''('' then ins + 1 else ins);
          ins = (if c = CHR '')'' then ins - 1 else ins)
      in pars_depth cs ins (if ins < minIns then ins else minIns))"

definition removePars :: "string \<Rightarrow> string option" where
  "removePars s = (let ns = count_pars s 0;
       middle = drop ns (take (length s - ns * 2) s);
       minIns = pars_depth middle 0 0;
       k = ucast (word_of_nat ns + word_of_int minIns :: u32) :: u64
     in do {
       s \<leftarrow> str_erase s 0 k;
       str_erase s (word_of_nat (length s) - k) (word_of_nat (length s))
     })"

text \<open>The loop of \<open>splitParStr\<close>; the state is the accumulated part, the parts and the depth.\<close>

fun split_loop :: "string \<Rightarrow> string \<Rightarrow> string list \<Rightarrow> int \<Rightarrow> (string \<times> string list) option" where
  "split_loop [] accS res nPar = Some (accS, res)"
| "split_loop (c # cs) accS res nPar =
     (if is_space c then split_loop cs accS res nPar
      else if c = CHR '','' \<and> nPar = 0 then
        (case removePars accS of None \<Rightarrow> None
         | Some part \<Rightarrow> split_loop cs [] (res @ [part]) nPar)
      else
        (let nPar = (if c = CHR ''('' then nPar + 1 else nPar);
             nPar = (if c = CHR '')'' then nPar - 1 else nPar)
         in split_loop cs (accS @ [c]) res nPar))"

definition split_once :: "string \<Rightarrow> string list option" where
  "split_once s = do {
     (accS, res) \<leftarrow> split_loop s [] [] 0;
     part \<leftarrow> removePars accS;
     Some (res @ [part])
   }"

partial_function (option) splitParStr :: "string \<Rightarrow> (str_error + string list) option" where
  "splitParStr s = (case split_once s of None \<Rightarrow> Some (Inl Out_of_range)
     | Some res \<Rightarrow> if length res = 1 then
         (case removePars (hd res) of None \<Rightarrow> Some (Inl Out_of_range)
          | Some r0 \<Rightarrow> splitParStr r0)
       else Some (Inr res))"

subsection \<open>Plain text\<close>

definition plain_char :: "char \<Rightarrow> bool" where
  "plain_char c \<longleftrightarrow> c \<noteq> CHR '','' \<and> c \<noteq> CHR ''('' \<and> c \<noteq> CHR '')'' \<and> \<not> is_space c"

lemma plain_chars: "plain_char c \<Longrightarrow> c \<noteq> CHR '','' \<and> c \<noteq> CHR ''('' \<and> c \<noteq> CHR '')'' \<and> \<not> is_space c"
  by (simp add: plain_char_def)

lemma pars_depth_plain: "list_all plain_char s \<Longrightarrow> pars_depth s 0 0 = 0"
  by (induction s) (auto simp: plain_char_def)

lemma removePars_plain:
  assumes "list_all plain_char s" and "length s < 2 ^ 64"
  shows "removePars s = Some s"
proof -
  have c: "count_pars s 0 = 0"
    using assms(1) by (cases s) (auto simp: count_pars.simps plain_char_def)
  have len: "unat (word_of_nat (length s) :: u64) = length s"
    using assms(2) by (simp add: unat_of_nat_base)
  show ?thesis
    using pars_depth_plain [OF assms(1)]
    by (simp add: removePars_def c Let_def str_erase_def len)
qed

lemma split_loop_plain:
  "list_all plain_char s \<Longrightarrow> split_loop (s @ t) acc res 0 = split_loop t (acc @ s) res 0"
  by (induction s arbitrary: acc) (auto simp: plain_char_def)

lemma split_once_plain:
  assumes "list_all plain_char s" and "length s < 2 ^ 64"
  shows "split_once s = Some [s]"
  using split_loop_plain [OF assms(1), of "[]" "[]" "[]"] removePars_plain [OF assms]
  by (simp add: split_once_def)

text \<open>Two plain parts, with one space after the comma or none.\<close>

lemma splitParStr_pair:
  assumes "list_all plain_char s" and "list_all plain_char t" and "length s < 2 ^ 64" and "length t < 2 ^ 64"
    and sp: "list_all is_space w"
  shows "splitParStr (s @ CHR '','' # w @ t) = Some (Inr [s, t])"
proof -
  have c: "\<not> is_space (CHR '','')" by (simp add: is_space_def)
  have skip: "split_loop (w @ u) acc res 0 = split_loop u acc res 0" for u acc res
    using sp by (induction w) simp_all
  have "split_loop (s @ CHR '','' # w @ t) [] [] 0 = Some (t, [s])"
    using split_loop_plain [OF assms(1), of _ "[]" "[]"] split_loop_plain [OF assms(2), of "[]" "[]" "[s]"]
    by (simp add: removePars_plain [OF assms(1,3)] c skip)
  then have "split_once (s @ CHR '','' # w @ t) = Some [s, t]"
    by (simp add: split_once_def removePars_plain [OF assms(2,4)])
  then show ?thesis by (subst splitParStr.simps) simp
qed

text \<open>A plain string is its own only part: the recursion calls itself on the same string for ever.\<close>

lemma splitParStr_plain_diverges:
  assumes "list_all plain_char s" and "length s < 2 ^ 64"
  shows "splitParStr s = None"
proof -
  have "\<not> (list_all plain_char s \<and> length s < 2 ^ 64)" if "splitParStr s = Some r" for s r
    using that
  proof (induction rule: splitParStr.raw_induct [rotated, consumes 1, case_names step])
    case (step rec s r)
    show ?case
    proof
      assume plain: "list_all plain_char s \<and> length s < 2 ^ 64"
      then have "split_once s = Some [s]" "removePars s = Some s"
        by (simp_all add: split_once_plain removePars_plain)
      with step.hyps have "rec s = Some r" by simp
      with step.IH plain show False by blast
    qed
  qed
  with assms show ?thesis by (cases "splitParStr s") auto
qed

subsection \<open>Properties\<close>

text \<open>
  Two plain parts (no commas, parentheses or spaces) separated by a comma and any spaces, the form
  of every constant the program reads, are split into exactly those parts.
\<close>

theorem splitParStr_of_pair:
  assumes "list_all plain_char s" and "list_all plain_char t" and "list_all is_space w"
    and "length s < 2 ^ 64" and "length t < 2 ^ 64"
  shows "splitParStr (s @ CHR '','' # w @ t) = Some (Inr [s, t])"
  by (rule splitParStr_pair [OF assms(1,2,4,5,3)])

theorem splitParStr_of_pair_witness: "splitParStr ''12, 7'' = Some (Inr [''12'', ''7''])"
  using splitParStr_of_pair [of "''12''" "''7''" "'' ''"] by (simp add: plain_char_def is_space_def)

text \<open>
  C29. A string without a comma, parentheses or spaces makes \<open>splitParStr\<close> call itself on the same
  string without end: it never returns (the call stack overflows), so that reading an element of the
  extension field from a plain number never ends instead of failing its assertion.
\<close>

theorem splitParStr_never_returns:
  assumes "list_all plain_char s" and "length s < 2 ^ 64"
  shows "splitParStr s = None"
  by (rule splitParStr_plain_diverges [OF assms])

theorem splitParStr_never_returns_witness: "splitParStr ''5'' = None"
  using splitParStr_never_returns [of "''5''"] by (simp add: plain_char_def is_space_def)

end
