(* ===== verification/Bn254_Curves.thy ===== *)
theory Bn254_Curves
  imports Curve_Laws Split_Par_Str
begin

section \<open>The curves of BN254\<close>

text \<open>
  \<open>alt_bn128.hpp\<close>, \<open>alt_bn128.cpp\<close> and the text conversions of \<open>f2field.cpp\<close>: the curve \<open>G1\<close> over
  \<open>RawFq\<close> and the twist \<open>G2\<close> over \<open>F2Field<RawFq>\<close>, built from the strings in the source. The curve
  interface \<open>curve_params\<close> holds of both, so that every operation of \<open>Curve\<close> computes the group law on
  them; the constants are checked to be points of the curves.
\<close>

subsection \<open>Text of extension field elements\<close>

definition F2_fromString :: "(string \<Rightarrow> 'e) \<Rightarrow> string \<Rightarrow> (str_error + 'e f2_element) option" where
  "F2_fromString F_fromString s = (case splitParStr s of
       None \<Rightarrow> None
     | Some (Inl e) \<Rightarrow> Some (Inl e)
     | Some (Inr els) \<Rightarrow>
         if length els = 2 then Some (Inr (f2 (F_fromString (els ! 0)) (F_fromString (els ! 1))))
         else Some (Inl Assertion))"

definition F2_toString :: "('e \<Rightarrow> nat \<Rightarrow> string) \<Rightarrow> 'e f2_element \<Rightarrow> nat \<Rightarrow> string" where
  "F2_toString F_toString e radix =
     ''('' @ F_toString (f2a e) radix @ '','' @ F_toString (f2b e) radix @ '')''"

definition F2_read :: "gmp \<Rightarrow> string \<Rightarrow> limbs f2_element option" where
  "F2_read G s = (case F2_fromString (\<lambda>x. RawFq_fromString G x 10) s of
     Some (Inr e) \<Rightarrow> Some e | _ \<Rightarrow> None)"

subsection \<open>The engine\<close>

definition G1 :: "gmp \<Rightarrow> limbs curve option" where
  "G1 G = Curve_of_strings (RawFq_ops G) (\<lambda>s. Some (RawFq_fromString G s 10)) ''0'' ''3'' ''1'' ''2''"

abbreviation (input) G2_b_string :: string where
  "G2_b_string \<equiv> ''19485874751759354771024239261021720505790618469301721065564631296452457478373, 266929791119991161246907387137283842545076965332900288569378510910307636690''"

abbreviation (input) G2_x_string :: string where
  "G2_x_string \<equiv> ''10857046999023057135944570762232829481370756359578518086990519993285655852781, 11559732032986387107991004021392285783925812861821192530917403151452391805634''"

abbreviation (input) G2_y_string :: string where
  "G2_y_string \<equiv> ''8495653923123431417604973247489272438418190587263600148770280649306958101930, 4082367875863433681332203403145435568316851327593401208105741076214120093531''"

abbreviation G2_b :: fq2 where
  "G2_b \<equiv> Fq2 19485874751759354771024239261021720505790618469301721065564631296452457478373
     266929791119991161246907387137283842545076965332900288569378510910307636690"

abbreviation G2_x :: fq2 where
  "G2_x \<equiv> Fq2 10857046999023057135944570762232829481370756359578518086990519993285655852781
     11559732032986387107991004021392285783925812861821192530917403151452391805634"

abbreviation G2_y :: fq2 where
  "G2_y \<equiv> Fq2 8495653923123431417604973247489272438418190587263600148770280649306958101930
     4082367875863433681332203403145435568316851327593401208105741076214120093531"

definition G2 :: "gmp \<Rightarrow> limbs f2_element curve option" where
  "G2 G = Curve_of_strings (F2_ops (F2q G)) (F2_read G) ''0,0'' G2_b_string G2_x_string G2_y_string"

lemma digits_plain: "list_all digit_char s \<Longrightarrow> list_all plain_char s"
  by (induction s) (auto simp: digit_char_def plain_char_def is_space_def)

context gmp_laws begin

lemma fq_fromString:
  assumes "s \<noteq> []" and "list_all digit_char s"
  shows "fq_ok (RawFq_fromString G s 10)" and "fq_val (RawFq_fromString G s 10) = of_nat (dec_val s)"
  using fq_class.fromString_value [OF assms] fq_val_mod
  by (simp_all add: RawFq_fromString_def fq_ok_def)

lemma F2_read_pair:
  assumes "s \<noteq> []" "list_all digit_char s" "t \<noteq> []" "list_all digit_char t" "list_all is_space w"
    and "length s < 2 ^ 64" "length t < 2 ^ 64"
  shows "F2_read G (s @ CHR '','' # w @ t) = Some (f2 (RawFq_fromString G s 10) (RawFq_fromString G t 10))"
  using splitParStr_pair [OF digits_plain [OF assms(2)] digits_plain [OF assms(4)] assms(6,7,5)]
  by (simp add: F2_read_def F2_fromString_def)

lemma f2_of_strings:
  assumes "s \<noteq> []" "list_all digit_char s" "t \<noteq> []" "list_all digit_char t"
  shows "fq2_ok (f2 (RawFq_fromString G s 10) (RawFq_fromString G t 10))"
    and "fq2_val (f2 (RawFq_fromString G s 10) (RawFq_fromString G t 10)) = Fq2 (of_nat (dec_val s)) (of_nat (dec_val t))"
  using fq_fromString [OF assms(1,2)] fq_fromString [OF assms(3,4)] by (simp_all add: fq2_ok_def fq2_val_def)

lemma a2_read:
  defines "e \<equiv> the (F2_read G ''0,0'')"
  shows "F2_read G ''0,0'' = Some e" and "fq2_ok e"
    and "fq2_val e = Fq2 (of_nat 0) (of_nat 0)"
proof -
  have s: "''0,0'' = ''0'' @ CHR '','' # [] @ ''0''" by simp
  have d: "list_all digit_char ''0''" "list_all digit_char ''0''"
    by (simp_all add: digit_char_def)
  have v: "dec_val ''0'' = 0" "dec_val ''0'' = 0"
    by (simp_all add: dec_val_def)
  have sp: "list_all is_space []" by (simp add: is_space_def)
  have "F2_read G ''0,0'' = Some (f2 (RawFq_fromString G ''0'' 10) (RawFq_fromString G ''0'' 10))"
    unfolding s by (rule F2_read_pair [OF _ d(1) _ d(2) sp]) simp_all
  with f2_of_strings [OF _ d(1) _ d(2)] v show "F2_read G ''0,0'' = Some e" "fq2_ok e"
    "fq2_val e = Fq2 (of_nat 0) (of_nat 0)" unfolding e_def by simp_all
qed

lemma b2_read:
  defines "e \<equiv> the (F2_read G G2_b_string)"
  shows "F2_read G G2_b_string = Some e" and "fq2_ok e"
    and "fq2_val e = Fq2 (of_nat 19485874751759354771024239261021720505790618469301721065564631296452457478373) (of_nat 266929791119991161246907387137283842545076965332900288569378510910307636690)"
proof -
  have s: "G2_b_string = ''19485874751759354771024239261021720505790618469301721065564631296452457478373'' @ CHR '','' # '' '' @ ''266929791119991161246907387137283842545076965332900288569378510910307636690''" by simp
  have d: "list_all digit_char ''19485874751759354771024239261021720505790618469301721065564631296452457478373''" "list_all digit_char ''266929791119991161246907387137283842545076965332900288569378510910307636690''"
    by (simp_all add: digit_char_def)
  have v: "dec_val ''19485874751759354771024239261021720505790618469301721065564631296452457478373'' = 19485874751759354771024239261021720505790618469301721065564631296452457478373" "dec_val ''266929791119991161246907387137283842545076965332900288569378510910307636690'' = 266929791119991161246907387137283842545076965332900288569378510910307636690"
    by (simp_all add: dec_val_def)
  have sp: "list_all is_space '' ''" by (simp add: is_space_def)
  have "F2_read G G2_b_string = Some (f2 (RawFq_fromString G ''19485874751759354771024239261021720505790618469301721065564631296452457478373'' 10) (RawFq_fromString G ''266929791119991161246907387137283842545076965332900288569378510910307636690'' 10))"
    unfolding s by (rule F2_read_pair [OF _ d(1) _ d(2) sp]) simp_all
  with f2_of_strings [OF _ d(1) _ d(2)] v show "F2_read G G2_b_string = Some e" "fq2_ok e"
    "fq2_val e = Fq2 (of_nat 19485874751759354771024239261021720505790618469301721065564631296452457478373) (of_nat 266929791119991161246907387137283842545076965332900288569378510910307636690)" unfolding e_def by simp_all
qed

lemma x2_read:
  defines "e \<equiv> the (F2_read G G2_x_string)"
  shows "F2_read G G2_x_string = Some e" and "fq2_ok e"
    and "fq2_val e = Fq2 (of_nat 10857046999023057135944570762232829481370756359578518086990519993285655852781) (of_nat 11559732032986387107991004021392285783925812861821192530917403151452391805634)"
proof -
  have s: "G2_x_string = ''10857046999023057135944570762232829481370756359578518086990519993285655852781'' @ CHR '','' # '' '' @ ''11559732032986387107991004021392285783925812861821192530917403151452391805634''" by simp
  have d: "list_all digit_char ''10857046999023057135944570762232829481370756359578518086990519993285655852781''" "list_all digit_char ''11559732032986387107991004021392285783925812861821192530917403151452391805634''"
    by (simp_all add: digit_char_def)
  have v: "dec_val ''10857046999023057135944570762232829481370756359578518086990519993285655852781'' = 10857046999023057135944570762232829481370756359578518086990519993285655852781" "dec_val ''11559732032986387107991004021392285783925812861821192530917403151452391805634'' = 11559732032986387107991004021392285783925812861821192530917403151452391805634"
    by (simp_all add: dec_val_def)
  have sp: "list_all is_space '' ''" by (simp add: is_space_def)
  have "F2_read G G2_x_string = Some (f2 (RawFq_fromString G ''10857046999023057135944570762232829481370756359578518086990519993285655852781'' 10) (RawFq_fromString G ''11559732032986387107991004021392285783925812861821192530917403151452391805634'' 10))"
    unfolding s by (rule F2_read_pair [OF _ d(1) _ d(2) sp]) simp_all
  with f2_of_strings [OF _ d(1) _ d(2)] v show "F2_read G G2_x_string = Some e" "fq2_ok e"
    "fq2_val e = Fq2 (of_nat 10857046999023057135944570762232829481370756359578518086990519993285655852781) (of_nat 11559732032986387107991004021392285783925812861821192530917403151452391805634)" unfolding e_def by simp_all
qed

lemma y2_read:
  defines "e \<equiv> the (F2_read G G2_y_string)"
  shows "F2_read G G2_y_string = Some e" and "fq2_ok e"
    and "fq2_val e = Fq2 (of_nat 8495653923123431417604973247489272438418190587263600148770280649306958101930) (of_nat 4082367875863433681332203403145435568316851327593401208105741076214120093531)"
proof -
  have s: "G2_y_string = ''8495653923123431417604973247489272438418190587263600148770280649306958101930'' @ CHR '','' # '' '' @ ''4082367875863433681332203403145435568316851327593401208105741076214120093531''" by simp
  have d: "list_all digit_char ''8495653923123431417604973247489272438418190587263600148770280649306958101930''" "list_all digit_char ''4082367875863433681332203403145435568316851327593401208105741076214120093531''"
    by (simp_all add: digit_char_def)
  have v: "dec_val ''8495653923123431417604973247489272438418190587263600148770280649306958101930'' = 8495653923123431417604973247489272438418190587263600148770280649306958101930" "dec_val ''4082367875863433681332203403145435568316851327593401208105741076214120093531'' = 4082367875863433681332203403145435568316851327593401208105741076214120093531"
    by (simp_all add: dec_val_def)
  have sp: "list_all is_space '' ''" by (simp add: is_space_def)
  have "F2_read G G2_y_string = Some (f2 (RawFq_fromString G ''8495653923123431417604973247489272438418190587263600148770280649306958101930'' 10) (RawFq_fromString G ''4082367875863433681332203403145435568316851327593401208105741076214120093531'' 10))"
    unfolding s by (rule F2_read_pair [OF _ d(1) _ d(2) sp]) simp_all
  with f2_of_strings [OF _ d(1) _ d(2)] v show "F2_read G G2_y_string = Some e" "fq2_ok e"
    "fq2_val e = Fq2 (of_nat 8495653923123431417604973247489272438418190587263600148770280649306958101930) (of_nat 4082367875863433681332203403145435568316851327593401208105741076214120093531)" unfolding e_def by simp_all
qed

lemma G1_strings:
  "fq_ok (RawFq_fromString G ''0'' 10)" "fq_val (RawFq_fromString G ''0'' 10) = 0"
  "fq_ok (RawFq_fromString G ''3'' 10)" "fq_val (RawFq_fromString G ''3'' 10) = 3"
  "fq_ok (RawFq_fromString G ''1'' 10)" "fq_val (RawFq_fromString G ''1'' 10) = 1"
  "fq_ok (RawFq_fromString G ''2'' 10)" "fq_val (RawFq_fromString G ''2'' 10) = 2"
  by (simp_all add: fq_fromString digit_char_def dec_val_def)

end

lemma fq_numeral_eq_iff: "(numeral m :: fq) = numeral n \<longleftrightarrow> (numeral m :: nat) mod fq_mod = numeral n mod fq_mod"
  using fq_of_nat_eq_iff [of "numeral m" "numeral n"] by simp

lemma fq_numeral_eq_0: "(numeral m :: fq) = 0 \<longleftrightarrow> (numeral m :: nat) mod fq_mod = 0"
  using fq_of_nat_eq_iff [of "numeral m" 0] by simp

lemma fq_three_neq_0: "(3 :: fq) \<noteq> 0"
  by (simp add: fq_numeral_eq_0 fq_mod_def)

lemma G2_x_neq_0: "G2_x \<noteq> 0"
  by (simp add: fq2_eq_iff fq_numeral_eq_0 fq_mod_def)

text \<open>The constants of the twist, as identities between residues.\<close>

lemma G2_b_twist: "G2_b * Fq2 9 1 = Fq2 3 0"
proof -
  have re: "(19485874751759354771024239261021720505790618469301721065564631296452457478373 :: fq) * 9 = 266929791119991161246907387137283842545076965332900288569378510910307636690 + 3"
    and im: "(19485874751759354771024239261021720505790618469301721065564631296452457478373 :: fq) + 266929791119991161246907387137283842545076965332900288569378510910307636690 * 9 = 0"
    by (simp_all add: fq_numeral_eq_iff fq_numeral_eq_0 fq_mod_def)
  show ?thesis using re im by (simp only: fq2_eq_iff fq2_sel fq2.sel) simp
qed

lemma fq_cert: "m = n + k * Fq_prime \<Longrightarrow> (of_nat m :: fq) = of_nat n \<and> (of_nat n :: fq) = of_nat m"
  by (simp only: fq_of_nat_eq_iff fq_mod_def mod_mult_self1)

lemma G2_re:
  "(4352397038723982827714519965900816744782229953631242679215313933833130645953600673148042520531380744878422166569471021271104802493834995424653380283337600367239293387756501110160463990390369204027420617963432191126386783043863808 :: fq)
    = 1279779512816785646351999017409148665371934905948889723168691581575370988434761949536929560775411809358427278964137335880776713891523824758944808883067844387936756927881158716272722221425844637193171435078680402340693125619221875"
proof -
  have "(of_nat 4352397038723982827714519965900816744782229953631242679215313933833130645953600673148042520531380744878422166569471021271104802493834995424653380283337600367239293387756501110160463990390369204027420617963432191126386783043863808 :: fq) = of_nat 1279779512816785646351999017409148665371934905948889723168691581575370988434761949536929560775411809358427278964137335880776713891523824758944808883067844387936756927881158716272722221425844637193171435078680402340693125619221875
    \<and> (of_nat 1279779512816785646351999017409148665371934905948889723168691581575370988434761949536929560775411809358427278964137335880776713891523824758944808883067844387936756927881158716272722221425844637193171435078680402340693125619221875 :: fq) = of_nat 4352397038723982827714519965900816744782229953631242679215313933833130645953600673148042520531380744878422166569471021271104802493834995424653380283337600367239293387756501110160463990390369204027420617963432191126386783043863808"
    by (rule fq_cert [of _ _ 140377532536443582691667731130395474861034757836858058607922901882201996446485293833768602933823595476861044356435808972761131002934709545081519689037451])
      (simp only: numeral_steps)
  then show ?thesis unfolding of_nat_numeral by (rule conjunct1)
qed

lemma G2_im:
  "(1544696990300092929916386911710040970516511242729192468560320774444155652035163897770983928760487520872186456741932382463305167474501893093751404145119306705410114046051824551735903242956787039506266906963358783766829189579809764 :: fq)
    = 4087826523399714649785655537524661500316299825384483682318501138998831017173537400971034369272250371388269966738679255644222691140044281225018606161404401878219857975475455943337114102108650601825154236419096610646188022591845512"
proof -
  have "(of_nat 4087826523399714649785655537524661500316299825384483682318501138998831017173537400971034369272250371388269966738679255644222691140044281225018606161404401878219857975475455943337114102108650601825154236419096610646188022591845512 :: fq) = of_nat 1544696990300092929916386911710040970516511242729192468560320774444155652035163897770983928760487520872186456741932382463305167474501893093751404145119306705410114046051824551735903242956787039506266906963358783766829189579809764
    \<and> (of_nat 1544696990300092929916386911710040970516511242729192468560320774444155652035163897770983928760487520872186456741932382463305167474501893093751404145119306705410114046051824551735903242956787039506266906963358783766829189579809764 :: fq) = of_nat 4087826523399714649785655537524661500316299825384483682318501138998831017173537400971034369272250371388269966738679255644222691140044281225018606161404401878219857975475455943337114102108650601825154236419096610646188022591845512"
    by (rule fq_cert [of _ _ 116187011812242461100586307758801008623360638662845787511603409725920244377100869430503861008210002520085801158419241159411642406125795635973327911709756])
      (simp only: numeral_steps)
  then show ?thesis unfolding of_nat_numeral by (rule conjunct2)
qed

lemma G2_on_curve: "ec_on 0 G2_b (Aff G2_x G2_y)"
proof -
  define x0 x1 y0 y1 b0 b1 :: fq where
    "x0 = 10857046999023057135944570762232829481370756359578518086990519993285655852781" and
    "x1 = 11559732032986387107991004021392285783925812861821192530917403151452391805634" and
    "y0 = 8495653923123431417604973247489272438418190587263600148770280649306958101930" and
    "y1 = 4082367875863433681332203403145435568316851327593401208105741076214120093531" and
    "b0 = 19485874751759354771024239261021720505790618469301721065564631296452457478373" and
    "b1 = 266929791119991161246907387137283842545076965332900288569378510910307636690"
  note defs = x0_def x1_def y0_def y1_def b0_def b1_def
  have re: "y0 * y0 + 3 * x0 * x1 * x1 = x0 * x0 * x0 + b0 + y1 * y1"
    unfolding defs by (simp only: numeral_steps G2_re)
  have im: "2 * y0 * y1 + x1 * x1 * x1 = 3 * x0 * x0 * x1 + b1"
    unfolding defs by (simp only: numeral_steps G2_im)
  have "y0 * y0 - y1 * y1 = x0 * x0 * x0 - 3 * x0 * x1 * x1 + b0" using re by (simp add: algebra_simps)
  moreover have "2 * y0 * y1 = 3 * x0 * x0 * x1 - x1 * x1 * x1 + b1" using im by (simp add: algebra_simps)
  ultimately have "ec_on 0 (Fq2 b0 b1) (Aff (Fq2 x0 x1) (Fq2 y0 y1))"
    by (simp add: fq2_eq_iff algebra_simps)
  then show ?thesis unfolding defs .
qed

lemma some_not_none: "x = Some y \<Longrightarrow> x \<noteq> None"
  by simp

lemma Curve_of_strings_the:
  "f as \<noteq> None \<Longrightarrow> f bs \<noteq> None \<Longrightarrow> f gxs \<noteq> None \<Longrightarrow> f gys \<noteq> None \<Longrightarrow>
   Curve_of_strings F f as bs gxs gys = Some (Curve_initCurve F (the (f as)) (the (f bs)) (the (f gxs)) (the (f gys)))"
  by (auto simp: Curve_of_strings_def)

lemma fq2_two_neq_0: "(2 :: fq2) \<noteq> 0"
proof
  assume "(2 :: fq2) = 0"
  then have "re2 (1 + 1 :: fq2) = 0" by simp
  then show False using fq_two_neq_0 by (simp only: fq2_sel) simp
qed

sublocale gmp_laws \<subseteq> g1: curve_params "RawFq_ops G" fq_ok fq_val "RawFq_fromString G ''0'' 10"
    "RawFq_fromString G ''3'' 10" "RawFq_fromString G ''1'' 10" "RawFq_fromString G ''2'' 10"
  by unfold_locales (simp_all add: G1_strings fq_two_neq_0)

sublocale gmp_laws \<subseteq> g2: curve_params "F2_ops (F2q G)" fq2_ok fq2_val "the (F2_read G ''0,0'')"
    "the (F2_read G G2_b_string)" "the (F2_read G G2_x_string)" "the (F2_read G G2_y_string)"
  by unfold_locales (rule a2_read b2_read x2_read y2_read fq2_two_neq_0)+

context gmp_laws begin

lemma G1_eq: "G1 G = Some g1.C"
  by (simp add: G1_def Curve_of_strings_def)

lemma G2_eq: "G2 G = Some g2.C"
  unfolding G2_def
  by (rule Curve_of_strings_the) (rule some_not_none, rule a2_read b2_read x2_read y2_read)+

lemma g1_a: "fq_val (RawFq_fromString G ''0'' 10) = 0"
  by (rule G1_strings)

lemma g2_a: "fq2_val (the (F2_read G ''0,0'')) = 0"
  unfolding a2_read(3) by (simp add: fq2_eq_iff)

lemmas g1_laws = g1.curve_params_axioms
lemmas g2_laws = g2.curve_params_axioms

lemma g1_generator:
  "point_ok fq_ok fq_val (c_fone g1.C)" "point_val fq_val (c_fone g1.C) = Aff 1 2"
  "aff_ok fq_ok (c_foneAffine g1.C)" "aff_val fq_val (c_foneAffine g1.C) = Aff 1 2"
  using G1_strings
  by (simp_all add: Curve_initCurve_def Let_def point_ok_def point_val_def aff_ok_def aff_val_def field_code)

lemma g2_generator:
  "point_ok fq2_ok fq2_val (c_fone g2.C)"
  "point_val fq2_val (c_fone g2.C) = Aff G2_x G2_y"
  "aff_ok fq2_ok (c_foneAffine g2.C)"
  using x2_read y2_read
  by (simp_all add: Curve_initCurve_def Let_def point_ok_def point_val_def aff_ok_def field_code)

lemma g1_const: "fq_val (c_fa g1.C) = 0" "fq_val (c_fb g1.C) = 3"
  using G1_strings by (simp_all add: Curve_initCurve_def Let_def)

lemma g2_const: "fq2_val (c_fa g2.C) = 0" "fq2_val (c_fb g2.C) = G2_b"
  using g2_a a2_read(2) b2_read(2,3) by (simp_all add: Curve_initCurve_def Let_def)

end

lemma gmp_g1:
  assumes "gmp_laws G" and "G1 G = Some C"
  obtains aa ab agx agy where "curve_params (RawFq_ops G) fq_ok fq_val aa ab agx agy"
    and "C = Curve_initCurve (RawFq_ops G) aa ab agx agy" and "fq_val aa = 0"
  using gmp_laws.g1_laws [OF assms(1)] gmp_laws.G1_eq [OF assms(1)] gmp_laws.g1_a [OF assms(1)] assms(2)
  by (metis option.inject)

lemma gmp_g2:
  assumes "gmp_laws G" and "G2 G = Some C"
  obtains aa ab agx agy where "curve_params (F2_ops (F2q G)) fq2_ok fq2_val aa ab agx agy"
    and "C = Curve_initCurve (F2_ops (F2q G)) aa ab agx agy" and "fq2_val aa = 0"
proof -
  from gmp_laws.G2_eq [OF assms(1)] assms(2) have "C = Curve_initCurve (F2_ops (F2q G))
    (the (F2_read G ''0,0'')) (the (F2_read G G2_b_string)) (the (F2_read G G2_x_string)) (the (F2_read G G2_y_string))"
    by (simp only: option.inject)
  from that [OF gmp_laws.g2_laws [OF assms(1)] this gmp_laws.g2_a [OF assms(1)]] show ?thesis .
qed

lemmas ref_G1 = ref.G1_eq
lemmas ref_G2 = ref.G2_eq

subsection \<open>Properties\<close>

text \<open>
  C12. The four additions on \<open>G1\<close> (point and point, point and affine, affine and point, affine and
  affine) return well-formed points that stand for the chord-and-tangent sum, in every case: neutral
  operands, equal operands, opposite operands and the general one.
\<close>

theorem G1_addition:
  assumes "gmp_laws G" and "G1 G = Some C"
    and "point_ok fq_ok fq_val p1" and "point_ok fq_ok fq_val p2" and "aff_ok fq_ok a1" and "aff_ok fq_ok a2"
  shows "point_ok fq_ok fq_val (Curve_addPP C p1 p2)
    \<and> point_val fq_val (Curve_addPP C p1 p2) = ec_add 0 (point_val fq_val p1) (point_val fq_val p2)
    \<and> point_ok fq_ok fq_val (Curve_addPA C p1 a2)
    \<and> point_val fq_val (Curve_addPA C p1 a2) = ec_add 0 (point_val fq_val p1) (aff_val fq_val a2)
    \<and> point_ok fq_ok fq_val (Curve_addAP C a1 p2)
    \<and> point_val fq_val (Curve_addAP C a1 p2) = ec_add 0 (aff_val fq_val a1) (point_val fq_val p2)
    \<and> point_ok fq_ok fq_val (Curve_addAA C a1 a2)
    \<and> point_val fq_val (Curve_addAA C a1 a2) = ec_add 0 (aff_val fq_val a1) (aff_val fq_val a2)"
proof -
  obtain aa ab agx agy where L: "curve_params (RawFq_ops G) fq_ok fq_val aa ab agx agy"
    and C: "C = Curve_initCurve (RawFq_ops G) aa ab agx agy" and a: "fq_val aa = 0"
    using gmp_g1 [OF assms(1,2)] .
  show ?thesis unfolding C
    using curve_params.addPP_value [OF L assms(3,4)] curve_params.addPA_value [OF L assms(3,6)]
      curve_params.addAP_value [OF L assms(5,4)] curve_params.addAA_value [OF L assms(5,6)]
    unfolding a by blast
qed

theorem G1_addition_witness:
  "point_val fq_val (Curve_addPP (the (G1 ref_gmp)) (c_fone (the (G1 ref_gmp))) (c_fone (the (G1 ref_gmp))))
    = ec_add 0 (Aff 1 2) (Aff 1 2)"
  using G1_addition [OF ref_gmp_laws ref_G1 ref.g1_generator(1) ref.g1_generator(1)
      ref.g1_generator(3) ref.g1_generator(3)]
  by (simp add: ref_G1 ref.g1_generator)

text \<open>
  C13. The four additions on \<open>G2\<close>, over the extension field, return well-formed points that stand for
  the chord-and-tangent sum in every case.
\<close>

theorem G2_addition:
  assumes "gmp_laws G" and "G2 G = Some C"
    and "point_ok fq2_ok fq2_val p1" and "point_ok fq2_ok fq2_val p2" and "aff_ok fq2_ok a1" and "aff_ok fq2_ok a2"
  shows "point_ok fq2_ok fq2_val (Curve_addPP C p1 p2)
    \<and> point_val fq2_val (Curve_addPP C p1 p2) = ec_add 0 (point_val fq2_val p1) (point_val fq2_val p2)
    \<and> point_ok fq2_ok fq2_val (Curve_addPA C p1 a2)
    \<and> point_val fq2_val (Curve_addPA C p1 a2) = ec_add 0 (point_val fq2_val p1) (aff_val fq2_val a2)
    \<and> point_ok fq2_ok fq2_val (Curve_addAP C a1 p2)
    \<and> point_val fq2_val (Curve_addAP C a1 p2) = ec_add 0 (aff_val fq2_val a1) (point_val fq2_val p2)
    \<and> point_ok fq2_ok fq2_val (Curve_addAA C a1 a2)
    \<and> point_val fq2_val (Curve_addAA C a1 a2) = ec_add 0 (aff_val fq2_val a1) (aff_val fq2_val a2)"
proof -
  obtain aa ab agx agy where L: "curve_params (F2_ops (F2q G)) fq2_ok fq2_val aa ab agx agy"
    and C: "C = Curve_initCurve (F2_ops (F2q G)) aa ab agx agy" and a: "fq2_val aa = 0"
    using gmp_g2 [OF assms(1,2)] .
  show ?thesis unfolding C
    using curve_params.addPP_value [OF L assms(3,4)] curve_params.addPA_value [OF L assms(3,6)]
      curve_params.addAP_value [OF L assms(5,4)] curve_params.addAA_value [OF L assms(5,6)]
    unfolding a by blast
qed

theorem G2_addition_witness:
  "point_val fq2_val (Curve_addPP (the (G2 ref_gmp)) (c_fone (the (G2 ref_gmp))) (c_fone (the (G2 ref_gmp))))
    = ec_add 0 (Aff G2_x G2_y) (Aff G2_x G2_y)"
  using G2_addition [OF ref_gmp_laws ref_G2 ref.g2_generator(1) ref.g2_generator(1)
      ref.g2_generator(3) ref.g2_generator(3)]
  unfolding ref_G2 option.sel ref.g2_generator(2) by blast

text \<open>
  The constants of the program: \<open>G1\<close> is \<open>y\<^sup>2 = x\<^sup>3 + 3\<close> with generator \<open>(1, 2)\<close>, \<open>G2\<close> the twist
  whose \<open>b\<close> is \<open>3 / (9 + u)\<close>, with a generator on it; both constructors return, and every constant of
  the source parses to a reduced element of that value.
\<close>

theorem engine_constants:
  assumes "gmp_laws G"
  shows "(\<exists>C. G1 G = Some C \<and> fq_val (c_fa C) = 0 \<and> fq_val (c_fb C) = 3
      \<and> point_ok fq_ok fq_val (c_fone C) \<and> point_val fq_val (c_fone C) = Aff 1 2 \<and> ec_on 0 (3 :: fq) (Aff 1 2))
    \<and> (\<exists>C. G2 G = Some C \<and> fq2_val (c_fa C) = 0 \<and> fq2_val (c_fb C) * Fq2 9 1 = Fq2 3 0
      \<and> point_ok fq2_ok fq2_val (c_fone C) \<and> ec_on 0 (fq2_val (c_fb C)) (point_val fq2_val (c_fone C)))"
proof
  have "ec_on 0 (3 :: fq) (Aff 1 2)" by simp
  with gmp_laws.g1_generator [OF assms] gmp_laws.g1_const [OF assms] gmp_laws.G1_eq [OF assms]
  show "\<exists>C. G1 G = Some C \<and> fq_val (c_fa C) = 0 \<and> fq_val (c_fb C) = 3
      \<and> point_ok fq_ok fq_val (c_fone C) \<and> point_val fq_val (c_fone C) = Aff 1 2 \<and> ec_on 0 (3 :: fq) (Aff 1 2)"
    by blast
  from gmp_laws.g2_generator [OF assms] gmp_laws.g2_const [OF assms] gmp_laws.G2_eq [OF assms]
    G2_on_curve G2_b_twist
  show "\<exists>C. G2 G = Some C \<and> fq2_val (c_fa C) = 0 \<and> fq2_val (c_fb C) * Fq2 9 1 = Fq2 3 0
      \<and> point_ok fq2_ok fq2_val (c_fone C) \<and> ec_on 0 (fq2_val (c_fb C)) (point_val fq2_val (c_fone C))"
    by (metis (no_types))
qed

theorem engine_constants_witness: "\<exists>C. G2 ref_gmp = Some C"
  using engine_constants [OF ref_gmp_laws] by blast

text \<open>
  Doubling, of a point and of an affine point, over any base field that meets the interface: the
  result is well-formed and stands for the tangent construction, neutral for a point of order two.
\<close>

theorem Curve_doubling:
  assumes "curve_params F ok val aa ab agx agy" and "C = Curve_initCurve F aa ab agx agy"
    and "point_ok ok val p" and "aff_ok ok a"
  shows "point_ok ok val (Curve_dblP C p) \<and> point_val val (Curve_dblP C p) = ec_dbl (val aa) (point_val val p)
    \<and> point_ok ok val (Curve_dblA C a) \<and> point_val val (Curve_dblA C a) = ec_dbl (val aa) (aff_val val a)"
  unfolding assms(2) using curve_params.dblP_value [OF assms(1,3)] curve_params.dblA_value [OF assms(1,4)]
  by blast

theorem Curve_doubling_witness:
  "point_val fq_val (Curve_dblA (the (G1 ref_gmp)) (c_foneAffine (the (G1 ref_gmp)))) = ec_dbl 0 (Aff 1 2)"
  using Curve_doubling [OF ref.g1_laws refl ref.g1_generator(1,3)]
  unfolding ref_G1 option.sel ref.g1_generator(4) ref.g1_a by blast

text \<open>An affine result, unless its coordinates are those of the neutral element; the affine overloads convert the others.\<close>

definition aff_sub :: "('e \<Rightarrow> bool) \<Rightarrow> ('e \<Rightarrow> 'v :: field) \<Rightarrow> 'e affine \<Rightarrow> 'v ec \<Rightarrow> bool" where
  "aff_sub ok val a d \<longleftrightarrow> (d \<noteq> Aff 0 0 \<longrightarrow> aff_ok ok a \<and> aff_val val a = d)"

lemma sub_A_copy:
  "Curve_subPP_A C p1 p2 = Curve_copyAP C (Curve_subPP C p1 p2)"
  "Curve_subPA_A C p1 a2 = Curve_copyAP C (Curve_subPA C p1 a2)"
  "Curve_subAA_A C a1 a2 = Curve_copyAP C (Curve_subAA C a1 a2)"
  "Curve_subAP_A C a1 p2 = Curve_copyAP C (Curve_subAP C a1 p2)"
  by (simp_all add: Curve_subPP_A_def Curve_subPA_A_def Curve_subAA_A_def Curve_subAP_A_def Curve_subPP_def Curve_subPA_def
      Curve_subAA_def Curve_subAP_def Curve_addPP_A_def Curve_addPA_A_def Curve_addAA_A_def Curve_addAP_A_def Let_def)

lemma aff_subI:
  assumes "curve_params F ok val aa ab agx agy" and "point_ok ok val p" and "point_val val p = d"
  shows "aff_sub ok val (Curve_copyAP (Curve_initCurve F aa ab agx agy) p) d"
  unfolding aff_sub_def
  using curve_params.copyAP_value [OF assms(1,2)] curve_params.aval_pt [OF assms(1)] assms(3) by blast

text \<open>
  C31. Subtraction adds the negation, in all eight overloads, for equal, opposite and neutral operands too. The four
  overloads with an affine result are stated for differences other than \<open>(0, 0)\<close>, the code of the neutral element
  (on both curves of the engine no point has these coordinates).
\<close>

theorem Curve_subtraction:
  assumes "curve_params F ok val aa ab agx agy" and "C = Curve_initCurve F aa ab agx agy"
    and "point_ok ok val p1" and "point_ok ok val p2" and "aff_ok ok a1" and "aff_ok ok a2"
  shows "point_ok ok val (Curve_subPP C p1 p2)
    \<and> point_val val (Curve_subPP C p1 p2) = ec_add (val aa) (point_val val p1) (ec_neg (point_val val p2))
    \<and> point_ok ok val (Curve_subPA C p1 a2)
    \<and> point_val val (Curve_subPA C p1 a2) = ec_add (val aa) (point_val val p1) (ec_neg (aff_val val a2))
    \<and> point_ok ok val (Curve_subAA C a1 a2)
    \<and> point_val val (Curve_subAA C a1 a2) = ec_add (val aa) (aff_val val a1) (ec_neg (aff_val val a2))
    \<and> point_ok ok val (Curve_subAP C a1 p2)
    \<and> point_val val (Curve_subAP C a1 p2) = ec_add (val aa) (aff_val val a1) (ec_neg (point_val val p2))
    \<and> aff_sub ok val (Curve_subPP_A C p1 p2) (ec_add (val aa) (point_val val p1) (ec_neg (point_val val p2)))
    \<and> aff_sub ok val (Curve_subPA_A C p1 a2) (ec_add (val aa) (point_val val p1) (ec_neg (aff_val val a2)))
    \<and> aff_sub ok val (Curve_subAA_A C a1 a2) (ec_add (val aa) (aff_val val a1) (ec_neg (aff_val val a2)))
    \<and> aff_sub ok val (Curve_subAP_A C a1 p2) (ec_add (val aa) (aff_val val a1) (ec_neg (point_val val p2)))"
  unfolding assms(2) sub_A_copy
  using aff_subI [OF assms(1)] curve_params.subPP_value [OF assms(1,3,4)] curve_params.subPA_value [OF assms(1,3,6)]
    curve_params.subAA_value [OF assms(1,5,6)] curve_params.subAP_value [OF assms(1,5,4)]
  by blast

theorem Curve_subtraction_witness:
  "point_val fq_val (Curve_subPP (the (G1 ref_gmp)) (c_fone (the (G1 ref_gmp))) (c_fone (the (G1 ref_gmp))))
    = ec_add 0 (Aff 1 2) (ec_neg (Aff 1 2))"
  using Curve_subtraction [OF ref.g1_laws refl ref.g1_generator(1,1,3,3)]
  unfolding ref_G1 option.sel ref.g1_generator(2) ref.g1_a by blast

text \<open>
  Comparison and conversion: a conversion to affine coordinates (the only operation that divides)
  keeps the point, converting back gives it again, and the comparisons decide equality of the points
  represented, whatever the scaling. Stated for points other than \<open>(0, 0)\<close>.
\<close>

theorem Curve_conversion_and_equality:
  assumes "curve_params F ok val aa ab agx agy" and "C = Curve_initCurve F aa ab agx agy"
    and "point_ok ok val p" and "point_val val p \<noteq> Aff 0 0" and "aff_ok ok a"
  shows "aff_ok ok (Curve_copyAP C p) \<and> aff_val val (Curve_copyAP C p) = point_val val p
    \<and> point_ok ok val (Curve_copyPA C (Curve_copyAP C p))
    \<and> point_val val (Curve_copyPA C (Curve_copyAP C p)) = point_val val p
    \<and> aff_val val (Curve_negAP C p) = ec_neg (point_val val p)
    \<and> (Curve_eqPA C p a \<longleftrightarrow> point_val val p = aff_val val a)
    \<and> (Curve_isZeroP C p \<longleftrightarrow> point_val val p = Inf)"
  unfolding assms(2)
  using curve_params.copyAP_value [OF assms(1,3,4)] curve_params.aval_pt [OF assms(1)]
    curve_params.negAP_value [OF assms(1,3,4)] curve_params.eqPA_value [OF assms(1,3,5)] assms(4)
    curve_params.isZeroP_value [OF assms(1,3)]
  by metis

theorem Curve_conversion_and_equality_witness:
  "aff_val fq2_val (Curve_copyAP (the (G2 ref_gmp)) (c_fone (the (G2 ref_gmp)))) = Aff G2_x G2_y"
proof -
  have "point_val fq2_val (c_fone ref.g2.C) \<noteq> Aff 0 0" unfolding ref.g2_generator(2) using G2_x_neq_0 by simp
  from Curve_conversion_and_equality [OF ref.g2_laws refl ref.g2_generator(1) this ref.g2_generator(3)]
  show ?thesis unfolding ref_G2 option.sel ref.g2_generator(2) by blast
qed

text \<open>
  The curve is closed under the operations: from points on \<open>y\<^sup>2 = x\<^sup>3 + a x + b\<close> additions,
  doublings and negations give points on it.
\<close>

theorem Curve_closed:
  assumes "curve_params F ok val aa ab agx agy" and "C = Curve_initCurve F aa ab agx agy"
    and "point_ok ok val p1" and "point_ok ok val p2"
    and "ec_on (val aa) (val ab) (point_val val p1)" and "ec_on (val aa) (val ab) (point_val val p2)"
  shows "ec_on (val aa) (val ab) (point_val val (Curve_addPP C p1 p2))
    \<and> ec_on (val aa) (val ab) (point_val val (Curve_dblP C p1))
    \<and> ec_on (val aa) (val ab) (point_val val (Curve_negPP C p1))
    \<and> ec_on (val aa) (val ab) (point_val val (Curve_subPP C p1 p2))"
proof -
  note two = curve_params.two_neq_0 [OF assms(1)]
  show ?thesis unfolding assms(2)
    using curve_params.addPP_value [OF assms(1,3,4)] curve_params.dblP_value [OF assms(1,3)]
      curve_params.negPP_value [OF assms(1,3)] curve_params.subPP_value [OF assms(1,3,4)]
      ec_add_closed [OF two] ec_dbl_closed [OF two] ec_on_neg assms(5,6) by metis
qed

theorem Curve_closed_witness:
  "ec_on 0 3 (point_val fq_val (Curve_dblP (the (G1 ref_gmp)) (c_fone (the (G1 ref_gmp)))))"
proof -
  have on: "ec_on (fq_val (RawFq_fromString ref_gmp ''0'' 10)) (fq_val (RawFq_fromString ref_gmp ''3'' 10))
      (point_val fq_val (c_fone ref.g1.C))"
    unfolding ref.g1_generator(2) by (simp add: ref.G1_strings)
  from Curve_closed [OF ref.g1_laws refl ref.g1_generator(1,1) on on] show ?thesis
    unfolding ref_G1 option.sel ref.G1_strings(2,4) by blast
qed

text \<open>
  C30. Aliasing: the additions and doublings that write the coordinates of their result one after the
  other, reading the arguments in between, store exactly the value of the operation at the result and
  change no other object, whichever of the result and the arguments are the same object.
\<close>

theorem Curve_alias_safe:
  assumes "curve_params F ok val aa ab agx agy" and "C = Curve_initCurve F aa ab agx agy"
  shows "Curve_add_at C st p3 p1 p2 = st(p3 := Curve_addPP C (st p1) (st p2))
    \<and> Curve_addMixed_at C st p3 p1 a = st(p3 := Curve_addPA C (st p1) a)
    \<and> Curve_dbl_at C st p3 p1 = st(p3 := Curve_dblP C (st p1))
    \<and> Curve_neg_at C st p3 p1 = st(p3 := Curve_negPP C (st p1))
    \<and> Curve_copy_at C st p3 p1 = st(p3 := Curve_copyPP C (st p1))"
  unfolding assms(2)
  using curve_params.add_at_eq [OF assms(1)] curve_params.addMixed_at_eq [OF assms(1)]
    curve_params.dbl_at_eq [OF assms(1)] curve_params.neg_at_eq [OF assms(1)]
    curve_params.copy_at_eq [OF assms(1)] by blast

theorem Curve_alias_safe_witness:
  "Curve_add_at (the (G1 ref_gmp)) (\<lambda>_. c_fone (the (G1 ref_gmp))) 0 0 0
    = (\<lambda>_. c_fone (the (G1 ref_gmp)))
      (0 := Curve_addPP (the (G1 ref_gmp)) (c_fone (the (G1 ref_gmp))) (c_fone (the (G1 ref_gmp))))"
  using Curve_alias_safe [OF ref.g1_laws refl, of "\<lambda>_. c_fone ref.g1.C" 0 0 0] unfolding ref_G1 option.sel by blast

text \<open>
  The overload of \<open>neg\<close> from an affine point to a \<open>Point\<close> does not treat the neutral element: it
  returns the point with coordinates \<open>(0, 0)\<close> and \<open>zz = 1\<close>, which is not neutral and lies on no curve
  with \<open>b \<noteq> 0\<close>. The other overloads return the neutral element.
\<close>

theorem Curve_negPA_of_neutral:
  assumes "curve_params F ok val aa ab agx agy" and "C = Curve_initCurve F aa ab agx agy"
    and "aff_ok ok a" and "aff_val val a = Inf" and "val ab \<noteq> 0"
  shows "point_val val (Curve_negPA C a) = Aff 0 0 \<and> \<not> Curve_isZeroP C (Curve_negPA C a)
    \<and> \<not> ec_on (val aa) (val ab) (point_val val (Curve_negPA C a))
    \<and> aff_val val (Curve_negAA C a) = Inf"
proof -
  have a: "val (ax a) = 0" "val (ay a) = 0" using assms(4) by (simp_all add: aff_val_def split: if_splits)
  have n: "point_ok ok val (Curve_negPA C a)" "point_val val (Curve_negPA C a) = Aff 0 0"
    using curve_params.negPA_value [OF assms(1,3)] a by (simp_all add: assms(2))
  from n curve_params.isZeroP_value [OF assms(1) n(1)] curve_params.negAA_value [OF assms(1,3)] assms(4,5)
  show ?thesis by (simp add: assms(2))
qed

theorem Curve_negPA_of_neutral_witness:
  "point_val fq_val (Curve_negPA (the (G1 ref_gmp)) (c_fzeroAffine (the (G1 ref_gmp)))) = Aff 0 0"
proof -
  have z: "aff_ok fq_ok (c_fzeroAffine ref.g1.C)" "aff_val fq_val (c_fzeroAffine ref.g1.C) = Inf"
    by (simp_all add: Curve_initCurve_def Let_def aff_ok_def aff_val_def field_code)
  have "fq_val (RawFq_fromString ref_gmp ''3'' 10) \<noteq> 0" unfolding ref.G1_strings(4) by (rule fq_three_neq_0)
  from Curve_negPA_of_neutral [OF ref.g1_laws refl z this] show ?thesis unfolding ref_G1 option.sel by blast
qed

end
