(* ===== verification/Naf.thy ===== *)
theory Naf
  imports Raw_Class
begin

section \<open>Non-adjacent forms\<close>

text \<open>
  \<open>naf.cpp\<close>: the recoding of a scalar, a little-endian byte array, into signed binary digits, eight
  per step by a table that is filled once. A digit is a byte, 0, 1 or 2 for -1. A table entry is a
  64-bit word with eight digits, one per byte, and two flags in unused bits of its first byte.
\<close>

text \<open>One step of the inner loop of \<open>buildNafTable\<close> (\<open>lst\<close> is its \<open>last\<close>), from \<open>last\<close>, \<open>cur\<close>, \<open>carry\<close> to the next
  \<open>last\<close>, \<open>carry\<close> and the digit.\<close>

definition naf_step :: "bool \<Rightarrow> bool \<Rightarrow> bool \<Rightarrow> bool \<times> bool \<times> u8" where
  "naf_step lst cur carry =
     (if lst then
        if cur then
          if carry then (False, True, 1) else (False, True, 2)
        else
          if carry then (False, True, 2) else (False, False, 1)
      else
        if cur then
          if carry then (False, True, 0) else (True, False, 0)
        else
          if carry then (True, False, 0) else (False, False, 0))"

primrec naf_row :: "u32 \<Rightarrow> nat list \<Rightarrow> bool \<Rightarrow> bool \<Rightarrow> bool \<times> bool \<times> u8 list" where
  "naf_row inp [] lst carry = (lst, carry, [])"
| "naf_row inp (i # is) lst carry =
     (let cur = inp AND push_bit (i + 1) 1 \<noteq> 0;
          (lst, carry, d) = naf_step lst cur carry;
          (lst, carry, ds) = naf_row inp is lst carry
      in (lst, carry, d # ds))"

text \<open>Reading and writing an \<open>int64_t\<close> over eight bytes.\<close>

definition load64 :: "u8 list \<Rightarrow> u64" where
  "load64 bs = word_of_nat (bval bs)"

definition store64 :: "u64 \<Rightarrow> u8 list" where
  "store64 v = bytes_of 8 (unat v)"

definition naf_entry :: "nat \<Rightarrow> u64" where
  "naf_entry n = (let inp = word_of_nat n :: u32;
       carry = inp AND 0x200 \<noteq> 0;
       lst = inp AND 1 \<noteq> 0;
       (lst, carry, res) = naf_row inp [0..<8] lst carry;
       r64 = load64 res;
       r64 = (if carry then r64 OR 4 else r64);
       r64 = (if lst then r64 OR 8 else r64)
     in r64)"

definition NAFTable :: "u64 list" where
  "NAFTable = map naf_entry [0..<1024]"

text \<open>
  \<open>buildNaf\<close>; \<open>scalarSize\<close> is an \<open>unsigned int\<close>: \<open>scalarSize - 1\<close> wraps around for an empty scalar, and
  \<open>scalarSize + 2\<close>, the bound of the loop, for the two largest sizes.
\<close>

definition naf_index :: "u8 list \<Rightarrow> nat \<Rightarrow> nat \<Rightarrow> bool \<Rightarrow> bool \<Rightarrow> nat" where
  "naf_index scalar scalarSize i lst carry =
     (let st = (if lst then 1 else 0);
          st = (if i < scalarSize then st + unat (scalar ! i AND 0xFE) else st);
          st = (if i < unat (word_of_nat scalarSize - 1 :: u32)
                then st + push_bit 8 (unat (scalar ! (i + 1) AND 1)) else st);
          st = (if carry then st + 0x200 else st)
      in st)"

primrec buildNaf_loop :: "u8 list \<Rightarrow> nat \<Rightarrow> nat list \<Rightarrow> bool \<Rightarrow> bool \<Rightarrow> u8 list" where
  "buildNaf_loop scalar scalarSize [] lst carry = []"
| "buildNaf_loop scalar scalarSize (i # is) lst carry =
     (let rs = NAFTable ! naf_index scalar scalarSize i lst carry;
          carry = rs AND 4 \<noteq> 0;
          lst = rs AND 8 \<noteq> 0
      in store64 (rs AND 0x0303030303030303) @ buildNaf_loop scalar scalarSize is lst carry)"

definition buildNaf :: "u8 list \<Rightarrow> nat \<Rightarrow> u8 list" where
  "buildNaf scalar scalarSize =
     buildNaf_loop scalar scalarSize [0..<unat (word_of_nat scalarSize + 2 :: u32)] (scalar ! 0 AND 1 \<noteq> 0) False"

subsection \<open>What the digits stand for\<close>

definition naf_digit :: "u8 \<Rightarrow> int" where
  "naf_digit d = (if d = 1 then 1 else if d = 2 then - 1 else 0)"

fun naf_val :: "u8 list \<Rightarrow> int" where
  "naf_val [] = 0"
| "naf_val (d # ds) = naf_digit d + 2 * naf_val ds"

definition digits_ok :: "u8 list \<Rightarrow> bool" where
  "digits_ok ds = list_all (\<lambda>d. d = 0 \<or> d = 1 \<or> d = 2) ds"

text \<open>No two digits in a row are different from zero.\<close>

fun sparse :: "u8 list \<Rightarrow> bool" where
  "sparse (d # e # ds) \<longleftrightarrow> (d = 0 \<or> e = 0) \<and> sparse (e # ds)"
| "sparse ds \<longleftrightarrow> True"

lemma naf_val_append: "naf_val (xs @ ys) = naf_val xs + 2 ^ length xs * naf_val ys"
  by (induction xs) (simp_all add: algebra_simps)

lemma naf_val_replicate [simp]: "naf_val (replicate n 0) = 0"
  by (induction n) (simp_all add: naf_digit_def)

text \<open>The rows of the table on the list of the bits they read.\<close>

fun row_bits :: "bool list \<Rightarrow> bool \<Rightarrow> bool \<Rightarrow> bool \<times> bool \<times> u8 list" where
  "row_bits [] lst carry = (lst, carry, [])"
| "row_bits (cur # cs) lst carry =
     (let (lst, carry, d) = naf_step lst cur carry;
          (lst, carry, ds) = row_bits cs lst carry
      in (lst, carry, d # ds))"

lemma naf_row_bits: "naf_row inp is lst carry = row_bits (map (\<lambda>i. bit inp (i + 1)) is) lst carry"
proof (induction "is" arbitrary: lst carry)
  case (Cons i "is")
  have "(inp AND push_bit (i + 1) 1 \<noteq> 0) = bit inp (i + 1)"
    by (simp only: push_bit_eq_mult mult_1_left and_exp_eq_0_iff_not_bit not_not)
  with Cons.IH show ?case by (simp only: naf_row.simps list.map row_bits.simps Let_def)
qed simp

lemma naf_step_value:
  assumes "naf_step lst cur carry = (lst', carry', d)"
  shows "of_bool lst + 2 * (of_bool cur + of_bool carry) = naf_digit d + 2 * (of_bool lst' + 2 * of_bool carry')"
    and "d = 0 \<or> d = 1 \<or> d = 2" and "\<not> (lst' \<and> carry')" and "d \<noteq> 0 \<longleftrightarrow> lst" and "lst \<Longrightarrow> \<not> lst'"
  using assms by (auto simp: naf_step_def naf_digit_def split: if_splits)

lemma row_bits_value:
  assumes "row_bits cs lst carry = (lst', carry', ds)"
  shows "length ds = length cs" and "digits_ok ds"
    and "of_bool lst + 2 * of_bool carry + 2 * horner_sum of_bool 2 cs
      = naf_val ds + 2 ^ length cs * (of_bool lst' + 2 * of_bool carry')"
    and "cs \<noteq> [] \<Longrightarrow> \<not> (lst' \<and> carry')"
  using assms
proof (induction cs arbitrary: lst carry ds)
  case Nil
  { case 1 then show ?case by simp next case 2 then show ?case by (simp add: digits_ok_def)
    next case 3 then show ?case by simp next case 4 then show ?case by simp }
next
  case (Cons cur cs)
  { case 1 then show ?case using Cons(1) by (auto simp: Let_def split: prod.splits)
    next case 2 then show ?case using Cons(2) naf_step_value(2) by (fastforce simp: Let_def digits_ok_def split: prod.splits)
    next
    case 3
    obtain l k d where st: "naf_step lst cur carry = (l, k, d)" by (metis prod_cases3)
    with 3 obtain es where es: "row_bits cs l k = (lst', carry', es)" "ds = d # es"
      by (auto simp: Let_def split: prod.splits)
    note v = naf_step_value(1) [OF st] and w = Cons(3) [OF es(1)]
    with v w es(2) show ?case by (simp add: algebra_simps)
    next
    case 4
    obtain l k d where st: "naf_step lst cur carry = (l, k, d)" by (metis prod_cases3)
    with 4 obtain es where es: "row_bits cs l k = (lst', carry', es)" "ds = d # es"
      by (auto simp: Let_def split: prod.splits)
    show ?case using Cons(4) [OF _ es(1)] naf_step_value(3) [OF st] es by (cases cs) auto
  }
qed

subsection \<open>The table\<close>

lemma bit_load64:
  assumes "length ds = 8" and "m < 64"
  shows "bit (load64 ds) m = bit (ds ! (m div 8)) (m mod 8)"
  using assms bit_bval [of m ds] by (simp add: load64_def bit_is_set_def bit_of_nat_iff)

lemma digit_bits:
  assumes "digits_ok ds" and "i < length ds" and "2 \<le> k"
  shows "\<not> bit (ds ! i) k"
proof -
  have "ds ! i = 0 \<or> ds ! i = 1 \<or> ds ! i = 2" using assms by (auto simp: digits_ok_def list_all_length)
  moreover have "\<not> bit (1 :: u8) k" using assms(3) by (simp add: bit_1_iff)
  moreover have "(2 :: u8) = push_bit 1 1" by simp
  then have "\<not> bit (2 :: u8) k" using assms(3) by (simp only: bit_push_bit_iff bit_1_iff) simp
  ultimately show ?thesis by auto
qed

lemma bit_digit_mask: "bit (0x0303030303030303 :: u64) m \<longleftrightarrow> m < 64 \<and> m mod 8 < 2"
proof (cases "m < 64")
  case True
  have "replicate 8 (3 :: u8) = [3, 3, 3, 3, 3, 3, 3, 3]" by (simp add: numeral_eq_Suc)
  then have "(0x0303030303030303 :: u64) = load64 (replicate 8 3)" by (simp add: load64_def)
  then have "bit (0x0303030303030303 :: u64) m = bit (3 :: u8) (m mod 8)"
    using bit_load64 [of "replicate 8 3" m] True by simp
  moreover have three: "bit (3 :: u8) k \<longleftrightarrow> k < 2" for k
    by (cases k; cases "k - 1") (auto simp: bit_Suc bit_0)
  have "bit (3 :: u8) (m mod 8) \<longleftrightarrow> m mod 8 < 2" by (rule three)
  ultimately show ?thesis using True by simp
next
  case False
  then show ?thesis using bit_imp_le_length [of "0x0303030303030303 :: u64" m] by auto
qed

lemma store_load [simp]: "length ds = 8 \<Longrightarrow> store64 (load64 ds) = ds"
  using bval_lt [of ds] bytes_of_bval [of ds] by (simp add: store64_def load64_def unat_of_nat)

lemma flag_bits:
  fixes w :: u64
  assumes "length ds = 8" and "digits_ok ds" and w: "w = load64 ds OR (if c then 4 else 0) OR (if l then 8 else 0)"
  shows "(w AND 4 \<noteq> 0) = c" and "(w AND 8 \<noteq> 0) = l" and "w AND 0x0303030303030303 = load64 ds"
proof -
  have p: "(4 :: u64) = 2 ^ 2" "(8 :: u64) = 2 ^ 3" by simp_all
  have d: "\<not> bit (load64 ds) m" if "2 \<le> m mod 8" "m < 64" for m
    using bit_load64 [OF assms(1) that(2)] digit_bits [OF assms(2) _ that(1)] assms(1) that by simp
  have b: "bit w m \<longleftrightarrow> bit (load64 ds) m \<or> c \<and> m = 2 \<or> l \<and> m = 3" if "m < 64" for m
  proof -
    have "bit (4 :: u64) m \<longleftrightarrow> m = 2" "bit (8 :: u64) m \<longleftrightarrow> m = 3" using that unfolding p bit_exp_iff by auto
    then show ?thesis unfolding w by (auto simp: bit_or_iff)
  qed
  show "(w AND 4 \<noteq> 0) = c" unfolding p and_exp_eq_0_iff_not_bit using b [of 2] d [of 2] by simp
  show "(w AND 8 \<noteq> 0) = l" unfolding p and_exp_eq_0_iff_not_bit using b [of 3] d [of 3] by simp
  show "w AND 0x0303030303030303 = load64 ds"
  proof (rule bit_word_eqI)
    fix m assume "m < LENGTH(64)"
    then show "bit (w AND 0x0303030303030303) m = bit (load64 ds) m"
      unfolding bit_and_iff bit_digit_mask using b [of m] d [of m] by (cases "m mod 8 < 2") auto
  qed
qed

lemma table_row:
  assumes n: "n < 1024"
    and row: "row_bits (map (\<lambda>i. bit n (i + 1)) [0..<8]) (odd n) (bit n 9) = (lst', carry', ds)"
  shows "(NAFTable ! n AND 4 \<noteq> 0) = carry'" and "(NAFTable ! n AND 8 \<noteq> 0) = lst'"
    and "store64 (NAFTable ! n AND 0x0303030303030303) = ds"
proof -
  have len: "length ds = 8" and ok: "digits_ok ds" using row_bits_value(1,2) [OF row] by simp_all
  have bits: "bit (word_of_nat n :: u32) i = bit n i" if "i < 32" for i
    using that by (simp add: bit_of_nat_iff)
  have p: "(0x200 :: u32) = 2 ^ 9" by simp
  have "(word_of_nat n AND 2 ^ 0 \<noteq> (0 :: u32)) = odd n"
    unfolding and_exp_eq_0_iff_not_bit using bits [of 0] by (simp only: bit_0) simp
  then have flags: "(word_of_nat n AND 0x200 \<noteq> (0 :: u32)) = bit n 9" "(word_of_nat n AND 1 \<noteq> (0 :: u32)) = odd n"
    unfolding p and_exp_eq_0_iff_not_bit using bits [of 9] by (simp_all add: power_0 [symmetric, of "2 :: u32"] and_exp_eq_0_iff_not_bit del: power_0)
  have "map (\<lambda>i. bit (word_of_nat n :: u32) (i + 1)) [0..<8] = map (\<lambda>i. bit n (i + 1)) [0..<8]"
    using bits by (intro map_cong refl) simp
  then have "NAFTable ! n = load64 ds OR (if carry' then 4 else 0) OR (if lst' then 8 else 0)"
    using n unfolding NAFTable_def by (simp only: nth_map length_upt nth_upt add_0 diff_zero
      naf_entry_def Let_def naf_row_bits flags row prod.case) (cases carry'; cases lst'; simp add: or.assoc)
  from flag_bits [OF len ok this] len show "(NAFTable ! n AND 4 \<noteq> 0) = carry'"
    "(NAFTable ! n AND 8 \<noteq> 0) = lst'" "store64 (NAFTable ! n AND 0x0303030303030303) = ds" by simp_all
qed

lemma row_sparse:
  assumes "row_bits cs lst carry = (lst', carry', ds)" and "sparse es" and "es \<noteq> [] \<Longrightarrow> hd es \<noteq> 0 \<Longrightarrow> lst'"
  shows "sparse (ds @ es) \<and> (ds @ es \<noteq> [] \<and> hd (ds @ es) \<noteq> 0 \<longrightarrow> lst)"
  using assms(1)
proof (induction cs arbitrary: lst carry ds)
  case Nil
  then show ?case using assms(2,3) by auto
next
  case (Cons cur cs)
  obtain l k d where st: "naf_step lst cur carry = (l, k, d)" by (metis prod_cases3)
  with Cons.prems obtain fs where fs: "row_bits cs l k = (lst', carry', fs)" "ds = d # fs"
    by (auto simp: Let_def split: prod.splits)
  from Cons.IH [OF fs(1)] naf_step_value(4,5) [OF st] show ?case
    unfolding fs(2) by (cases "fs @ es") auto
qed

subsection \<open>The recoding\<close>

lemma byte_and_FE: "unat ((x :: u8) AND 0xFE) = 2 * (unat x div 2)"
proof -
  have "unat x div 2 < 128" using unat_byte_lt [of x] by linarith
  then have "take_bit 7 (unat x div 2) = unat x div 2" by (simp add: take_bit_eq_mod)
  moreover have "(127 :: nat) = mask 7" by (simp add: mask_eq_exp_minus_1)
  moreover have "(unat x AND 254 :: nat) = 2 * (unat x div 2 AND 127)" by (subst and_rec) simp
  moreover have "unat (x AND 0xFE) = unat x AND 254" unfolding unsigned_and_eq by simp
  ultimately show ?thesis by (simp add: take_bit_eq_mask)
qed

lemma byte_and_1: "unat ((x :: u8) AND 1) = unat x mod 2"
  unfolding unsigned_and_eq by (simp add: and_one_eq)

lemma bval_drop: "bval s div 2 ^ (8 * i) = bval (drop i s)"
proof (induction i arbitrary: s)
  case (Suc i)
  show ?case
  proof (cases s)
    case (Cons x xs)
    have "bval s div 2 ^ (8 * Suc i) = bval s div 256 div 2 ^ (8 * i)"
      by (simp add: div_mult2_eq [symmetric] power_add mult.commute)
    also have "bval s div 256 = bval xs" using unat_byte_lt [of x] by (simp add: Cons)
    finally show ?thesis using Suc.IH [of xs] by (simp add: Cons)
  qed simp
qed simp

lemma naf_index_value:
  assumes N: "length s = N" "0 < N" "N < 4294967296"
  shows "naf_index s N i lst carry = of_bool lst + 2 * (bval s div 2 ^ (8 * i + 1) mod 256) + 512 * of_bool carry"
proof -
  have one: "unat (word_of_nat N - 1 :: u32) = N - 1"
  proof -
    have u: "unat (word_of_nat N :: u32) = N" using N(3) by (simp add: unat_of_nat)
    then have "1 \<le> (word_of_nat N :: u32)" using N(2) by (simp add: word_le_nat_alt)
    then show ?thesis using u by (simp add: unat_sub)
  qed
  have v: "bval s div 2 ^ (8 * i + 1) = bval (drop i s) div 2"
    by (simp only: power_add power_one_right div_mult2_eq bval_drop)
  consider "N \<le> i" | "i + 1 = N" | "i + 1 < N" using N(2) by linarith
  then show ?thesis
  proof cases
    case 1
    then have "\<not> i < N - 1" "\<not> i < N" by linarith+
    moreover have "bval s div 2 ^ (8 * i + 1) = 0" using v 1 N by simp
    ultimately show ?thesis by (simp only: naf_index_def Let_def one) simp
  next
    case 2
    then have "drop i s = [s ! i]" using N by (metis Cons_nth_drop_Suc Suc_eq_plus1 drop_all le_refl lessI)
    moreover have "unat (s ! i) div 2 mod 256 = unat (s ! i) div 2" using unat_byte_lt [of "s ! i"] by simp
    moreover have "\<not> i < N - 1" "i < N" using 2 by linarith+
    ultimately show ?thesis unfolding naf_index_def Let_def one v by (simp add: byte_and_FE)
  next
    case 3
    then have "drop i s = s ! i # s ! (i + 1) # drop (i + 2) s"
      using N by (metis Cons_nth_drop_Suc Suc_eq_plus1 Suc_lessD add_2_eq_Suc')
    then have "bval (drop i s) = unat (s ! i) + 256 * (unat (s ! (i + 1)) + 256 * bval (drop (i + 2) s))" by simp
    moreover have "(x + 256 * (y + 256 * z)) div 2 mod 256 = x div 2 + 128 * (y mod 2)" if "x < 256" for x y z :: nat
    proof -
      obtain h r where y: "y = 2 * h + r" "h = y div 2" "r = y mod 2" by simp
      have "x + 256 * (y + 256 * z) = 2 * (128 * (y mod 2) + 256 * (y div 2 + 128 * z)) + x"
        unfolding y(2,3) [symmetric] unfolding y(1) by simp
      then have "(x + 256 * (y + 256 * z)) div 2 = (x div 2 + 128 * (y mod 2)) + 256 * (y div 2 + 128 * z)"
        by simp
      moreover have "x div 2 + 128 * (y mod 2) < 256" using that by (cases "odd y") (simp_all add: odd_iff_mod_2_eq_one)
      ultimately show ?thesis by (simp only: mod_mult_self2 mod_less)
    qed
    ultimately have "bval (drop i s) div 2 mod 256 = unat (s ! i) div 2 + 128 * (unat (s ! (i + 1)) mod 2)"
      using unat_byte_lt [of "s ! i"] by simp
    then show ?thesis using N one v 3
      by (simp add: naf_index_def Let_def byte_and_FE byte_and_1 push_bit_eq_mult)
  qed
qed

text \<open>One row of the recoding.\<close>

lemma index_bits:
  assumes "r < 256" and n: "n = of_bool l + 2 * r + 512 * of_bool c"
  shows "n < 1024" and "odd n = l" and "bit n 9 = c"
    and "horner_sum of_bool 2 (map (\<lambda>i. bit n (i + 1)) [0..<8]) = int r"
proof -
  show "n < 1024" "odd n = l" using assms by auto
  have "n div 512 = of_bool c" using assms by (cases l; cases c) simp_all
  then show "bit n 9 = c" by (simp add: bit_iff_odd)
  have "n div 2 = r + 256 * of_bool c" using n by (cases l) simp_all
  then have b: "bit n (i + 1) = bit (r + 256 * of_bool c) i" for i by (simp add: bit_Suc)
  have t: "take_bit 8 (r + 256 * of_bool c) = r" using assms(1) by (simp add: take_bit_eq_mod)
  have "horner_sum of_bool 2 (map (\<lambda>i. bit n (i + 1)) [0..<8]) = horner_sum of_bool 2 (map (bit (int r)) [0..<8])"
  proof (rule arg_cong [where f = "horner_sum of_bool 2"], rule map_cong [OF refl])
    fix i assume "i \<in> set [0..<8 :: nat]"
    then have "bit (r + 256 * of_bool c) i = bit r i" using t by (metis atLeastLessThan_iff bit_take_bit_iff set_upt)
    then show "bit n (i + 1) = bit (int r) i" using b by (simp add: bit_of_nat_iff_bit)
  qed
  also have "\<dots> = int r" using assms(1) by (simp only: horner_sum_bit_eq_take_bit) (simp add: take_bit_eq_mod)
  finally show "horner_sum of_bool 2 (map (\<lambda>i. bit n (i + 1)) [0..<8]) = int r" .
qed

lemma naf_row_step:
  assumes N: "length s = N" "0 < N" "N < 4294967296"
    and row: "row_bits (map (\<lambda>k. bit (naf_index s N i lst carry) (k + 1)) [0..<8]) lst carry = (lst', carry', ds)"
  shows "buildNaf_loop s N (i # is) lst carry = ds @ buildNaf_loop s N is lst' carry'"
    and "of_bool lst + 2 * of_bool carry + 2 * int (bval s div 2 ^ (8 * i + 1) mod 256)
      = naf_val ds + 256 * (of_bool lst' + 2 * of_bool carry')"
    and "length ds = 8" and "digits_ok ds" and "\<not> (lst' \<and> carry')"
proof -
  have r: "bval s div 2 ^ (8 * i + 1) mod 256 < 256" by simp
  note I = index_bits [OF r naf_index_value [OF N, of i lst carry]]
  have row': "row_bits (map (\<lambda>k. bit (naf_index s N i lst carry) (k + 1)) [0..<8])
      (odd (naf_index s N i lst carry)) (bit (naf_index s N i lst carry) 9) = (lst', carry', ds)"
    using row I(2,3) by simp
  show "buildNaf_loop s N (i # is) lst carry = ds @ buildNaf_loop s N is lst' carry'"
    by (simp only: buildNaf_loop.simps Let_def table_row [OF I(1) row'])
  note R = row_bits_value [OF row]
  show "length ds = 8" "digits_ok ds" using R(1,2) by simp_all
  show "\<not> (lst' \<and> carry')" by (rule R(4)) simp
  show "of_bool lst + 2 * of_bool carry + 2 * int (bval s div 2 ^ (8 * i + 1) mod 256)
      = naf_val ds + 256 * (of_bool lst' + 2 * of_bool carry')"
    using R(3) unfolding I(4) by simp
qed

text \<open>Behind the scalar at most two digits are different from zero.\<close>

lemma row_bits_tail:
  assumes "\<not> (lst \<and> carry)"
  obtains d e where "row_bits (replicate 8 False) lst carry = (False, False, d # e # replicate 6 0)"
    and "naf_val [d, e] = of_bool lst + 2 * of_bool carry" and "digits_ok [d, e]"
  using assms
  by (cases lst; cases carry) (simp_all add: numeral_eq_Suc naf_step_def naf_digit_def digits_ok_def)

lemma naf_tail:
  assumes N: "length s = N" "0 < N" "N < 4294967296" and lc: "\<not> (lst \<and> carry)"
  obtains d e where "buildNaf_loop s N [N, N + 1] lst carry = d # e # replicate 14 0"
    and "naf_val [d, e] = of_bool lst + 2 * of_bool carry" and "digits_ok [d, e]" and "sparse [d, e]"
    and "d \<noteq> 0 \<longrightarrow> lst"
proof -
  have z: "bval s div 2 ^ (8 * i + 1) mod 256 = 0" if "N \<le> i" for i
    using that N bval_drop [of s i] by (simp only: power_add power_one_right div_mult2_eq) simp
  have b: "map (\<lambda>k. bit (naf_index s N i l c) (k + 1)) [0..<8] = replicate 8 False" if "N \<le> i" for i l c
  proof -
    have "bit (of_bool l + 512 * of_bool c :: nat) (k + 1) = False" if "k < 8" for k
    proof -
      have "(of_bool l + 512 * of_bool c :: nat) div 2 = 2 ^ 8 * of_bool c" by (cases l) simp_all
      then have "bit (of_bool l + 512 * of_bool c :: nat) (k + 1) = bit (2 ^ 8 * of_bool c :: nat) k" by (simp add: bit_Suc)
      then show ?thesis using that by (cases c) (simp_all add: bit_exp_iff del: power_numeral)
    qed
    then have "map (\<lambda>k. bit (of_bool l + 512 * of_bool c :: nat) (k + 1)) [0..<8] = map (\<lambda>k. False) [0..<8]"
      by (intro map_cong refl) simp
    then show ?thesis unfolding naf_index_value [OF N] z [OF that] by (simp add: map_replicate_const)
  qed
  obtain d e where de: "row_bits (replicate 8 False) lst carry = (False, False, d # e # replicate 6 0)"
    and v: "naf_val [d, e] = of_bool lst + 2 * of_bool carry" "digits_ok [d, e]" by (rule row_bits_tail [OF lc])
  have z2: "row_bits (replicate 8 False) False False = (False, False, replicate 8 0)"
    by (simp add: numeral_eq_Suc naf_step_def)
  have r1: "row_bits (map (\<lambda>k. bit (naf_index s N N lst carry) (k + 1)) [0..<8]) lst carry
      = (False, False, d # e # replicate 6 0)" by (simp only: b [OF order_refl] de)
  have r2: "row_bits (map (\<lambda>k. bit (naf_index s N (N + 1) False False) (k + 1)) [0..<8]) False False
      = (False, False, replicate 8 0)" using b [of "N + 1"] z2 by simp
  have sp: "sparse (d # e # replicate 6 0)" "d \<noteq> 0 \<longrightarrow> lst" using row_sparse [OF de, of "[]"] by simp_all
  have "buildNaf_loop s N [N, N + 1] lst carry = (d # e # replicate 6 0) @ replicate 8 0 @ []"
    unfolding naf_row_step(1) [OF N r1] naf_row_step(1) [OF N r2] by simp
  then have "buildNaf_loop s N [N, N + 1] lst carry = d # e # replicate 14 0" by (simp add: numeral_eq_Suc)
  then show ?thesis by (rule that) (use v sp in \<open>simp_all\<close>)
qed

lemma buildNaf_rows:
  assumes N: "length s = N" "0 < N" "N < 4294967296"
  shows "i \<le> N \<Longrightarrow> (i = N \<longrightarrow> \<not> (lst \<and> carry)) \<Longrightarrow>
    \<exists>ds. buildNaf_loop s N [i..<N + 2] lst carry = ds @ replicate 14 0 \<and> length ds = 8 * (N - i) + 2
      \<and> digits_ok ds \<and> naf_val ds = of_bool lst + 2 * of_bool carry + 2 * int (bval s div 2 ^ (8 * i + 1))
      \<and> sparse ds \<and> (hd ds \<noteq> 0 \<longrightarrow> lst)"
proof (induction "N - i" arbitrary: i lst carry)
  case 0
  then have i: "i = N" by simp
  obtain d e where de: "buildNaf_loop s N [N, N + 1] lst carry = d # e # replicate 14 0"
    "naf_val [d, e] = of_bool lst + 2 * of_bool carry" "digits_ok [d, e]" "sparse [d, e]" "d \<noteq> 0 \<longrightarrow> lst"
    using naf_tail [OF N, of lst carry] 0 i by blast
  have u: "[N..<N + 2] = [N, N + 1]" by (simp add: upt_conv_Cons)
  have z: "bval s div 2 ^ (8 * N + 1) = 0"
    using N bval_drop [of s N] by (simp only: power_add power_one_right div_mult2_eq) simp
  show ?case unfolding i u de(1) z by (rule exI [of _ "[d, e]"]) (use de in simp)
next
  case (Suc k)
  then have i: "i < N" "k = N - Suc i" by simp_all
  obtain l c ds where row: "row_bits (map (\<lambda>k. bit (naf_index s N i lst carry) (k + 1)) [0..<8]) lst carry = (l, c, ds)"
    by (metis prod_cases3)
  note S = naf_row_step [OF N row]
  obtain es where es: "buildNaf_loop s N [Suc i..<N + 2] l c = es @ replicate 14 0" "length es = 8 * (N - Suc i) + 2"
    "digits_ok es" "naf_val es = of_bool l + 2 * of_bool c + 2 * int (bval s div 2 ^ (8 * Suc i + 1))"
    "sparse es" "hd es \<noteq> 0 \<longrightarrow> l"
    using Suc.hyps(1) [OF i(2), of l c] i S(5) by auto
  define R where "R = bval s div 2 ^ (8 * i + 1)"
  have R: "bval s div 2 ^ (8 * Suc i + 1) = R div 256"
    unfolding R_def by (simp add: div_mult2_eq [symmetric] power_add)
  have "int R = int (R mod 256) + 256 * int (R div 256)"
    by (metis mod_mult_div_eq of_nat_add of_nat_mult of_nat_numeral)
  then have "naf_val (ds @ es) = of_bool lst + 2 * of_bool carry + 2 * int R"
    using S(2,3) es(4) unfolding R R_def [symmetric] naf_val_append by simp
  moreover have "[i..<N + 2] = i # [Suc i..<N + 2]" using i by (simp add: upt_conv_Cons)
  ultimately show ?case
    using row_sparse [OF row es(5)] es S(1,3,4) i unfolding R_def
    by (intro exI [of _ "ds @ es"]) (auto simp: digits_ok_def)
qed

lemma naf_bound: "N < 4294967294 \<Longrightarrow> unat (word_of_nat N + 2 :: u32) = N + 2"
  by (simp add: unat_word_ariths unat_of_nat)

theorem buildNaf_correct:
  assumes N: "length s = N" "0 < N" "N < 4294967294"
  obtains ds where "buildNaf s N = ds @ replicate 14 0" and "length ds = 8 * N + 2" and "digits_ok ds"
    and "naf_val ds = int (bval s)" and "sparse ds"
proof -
  have odd: "(s ! 0 AND 1 \<noteq> 0) = odd (bval s)"
  proof -
    obtain x xs where s: "s = x # xs" using N by (cases s) auto
    have "(x AND 1 \<noteq> 0) = (unat (x AND 1) \<noteq> 0)" by (simp add: unat_eq_zero)
    then show ?thesis unfolding byte_and_1 by (simp add: s odd_iff_mod_2_eq_one)
  qed
  obtain ds where ds: "buildNaf s N = ds @ replicate 14 0" "length ds = 8 * N + 2" "digits_ok ds"
    "naf_val ds = of_bool (odd (bval s)) + 2 * int (bval s div 2)" "sparse ds"
    using buildNaf_rows [OF N(1,2), of 0 "odd (bval s)" False] N(2,3)
    by (auto simp: buildNaf_def odd naf_bound [OF N(3)])
  have "of_bool (odd (bval s)) + 2 * int (bval s div 2) = int (bval s)"
    by (cases "odd (bval s)") (auto elim!: oddE evenE)
  with ds show ?thesis by (metis that)
qed

lemma sparse_zeros: "sparse (replicate n 0)" "sparse (d # replicate n 0)"
proof -
  show z: "sparse (replicate n 0)" for n
  proof (induction n)
    case (Suc n)
    then show ?case by (cases n) simp_all
  qed simp
  show "sparse (d # replicate n 0)" using z [of n] by (cases n) simp_all
qed

lemma sparse_append_0: "sparse ds \<Longrightarrow> sparse (ds @ replicate n 0)"
  by (induction ds rule: sparse.induct) (auto simp: sparse_zeros)

subsection \<open>Property\<close>

text \<open>
  C24. The recoding of a scalar of \<open>N\<close> bytes, \<open>1 \<le> N < 2 ^ 32 - 2\<close> (the sizes for which the bound of the loop,
  \<open>scalarSize + 2\<close>, does not wrap around), fills \<open>8 (N + 2)\<close> digits 0, 1 and 2, where 2 stands
  for -1: their value is the scalar, no two neighbours are both different from zero, and none at an
  index of \<open>8 N + 2\<close> or more is, which is where \<open>nafMulByScalar\<close> starts to read.
\<close>

theorem naf_recoding:
  assumes "length s = N" and "0 < N" and "N < 4294967294"
  shows "length (buildNaf s N) = 8 * (N + 2) \<and> digits_ok (buildNaf s N) \<and> sparse (buildNaf s N)
    \<and> naf_val (buildNaf s N) = int (bval s)
    \<and> (\<forall>i. 8 * N + 2 \<le> i \<and> i < 8 * (N + 2) \<longrightarrow> buildNaf s N ! i = 0)"
proof -
  obtain ds where "buildNaf s N = ds @ replicate 14 0" "length ds = 8 * N + 2" "digits_ok ds"
    "naf_val ds = int (bval s)" "sparse ds" using buildNaf_correct [OF assms] .
  then show ?thesis
    using sparse_append_0 [of ds 14] by (auto simp: naf_val_append nth_append digits_ok_def list_all_iff)
qed

theorem naf_recoding_witness:
  "naf_val (buildNaf [255, 3] 2) = 1023 \<and> sparse (buildNaf [255, 3] 2)"
  using naf_recoding [of "[255, 3]" 2] by simp

end
