(* ===== verification/Abelian.thy ===== *)
theory Abelian
  imports "HOL-Library.Multiset"
begin

section \<open>Abelian groups on a carrier\<close>

text \<open>
  The interface between the curve and the algorithms that only add: an operation, a neutral element
  and inverses on the elements of a carrier. Multiples by natural numbers and integers and sums of
  lists are what scalar multiplication and multi-exponentiation promise to compute; the laws here are
  the arithmetic their proofs need.
\<close>

primrec multiple :: "('g \<Rightarrow> 'g \<Rightarrow> 'g) \<Rightarrow> 'g \<Rightarrow> nat \<Rightarrow> 'g \<Rightarrow> 'g" where
  "multiple cplus zero 0 p = zero"
| "multiple cplus zero (Suc n) p = cplus p (multiple cplus zero n p)"

definition int_multiple :: "('g \<Rightarrow> 'g \<Rightarrow> 'g) \<Rightarrow> ('g \<Rightarrow> 'g) \<Rightarrow> 'g \<Rightarrow> int \<Rightarrow> 'g \<Rightarrow> 'g" where
  "int_multiple cplus neg zero k p =
     (if 0 \<le> k then multiple cplus zero (nat k) p else neg (multiple cplus zero (nat (- k)) p))"

definition list_total :: "('g \<Rightarrow> 'g \<Rightarrow> 'g) \<Rightarrow> 'g \<Rightarrow> 'g list \<Rightarrow> 'g" where
  "list_total cplus zero xs = foldr cplus xs zero"

definition weighted_total :: "('g \<Rightarrow> 'g \<Rightarrow> 'g) \<Rightarrow> 'g \<Rightarrow> nat list \<Rightarrow> 'g list \<Rightarrow> 'g" where
  "weighted_total cplus zero ws ps = list_total cplus zero (map2 (multiple cplus zero) ws ps)"

locale abelian =
  fixes on :: "'g \<Rightarrow> bool" and cplus :: "'g \<Rightarrow> 'g \<Rightarrow> 'g" and neg :: "'g \<Rightarrow> 'g" and zero :: 'g
  assumes on_zero [simp]: "on zero"
    and on_plus [simp]: "on p \<Longrightarrow> on q \<Longrightarrow> on (cplus p q)"
    and on_neg [simp]: "on p \<Longrightarrow> on (neg p)"
    and assoc: "on p \<Longrightarrow> on q \<Longrightarrow> on r \<Longrightarrow> cplus (cplus p q) r = cplus p (cplus q r)"
    and comm: "on p \<Longrightarrow> on q \<Longrightarrow> cplus p q = cplus q p"
    and zero_left [simp]: "on p \<Longrightarrow> cplus zero p = p"
    and neg_right: "on p \<Longrightarrow> cplus p (neg p) = zero"
begin

abbreviation "nmul \<equiv> multiple cplus zero"
abbreviation "imul \<equiv> int_multiple cplus neg zero"
abbreviation "tot \<equiv> list_total cplus zero"

lemma zero_right [simp]: "on p \<Longrightarrow> cplus p zero = p"
  using comm [of p zero] by simp

lemma left_comm: "on p \<Longrightarrow> on q \<Longrightarrow> on r \<Longrightarrow> cplus p (cplus q r) = cplus q (cplus p r)"
  by (metis assoc comm)

lemma medial: "on p \<Longrightarrow> on q \<Longrightarrow> on r \<Longrightarrow> on s \<Longrightarrow> cplus (cplus p q) (cplus r s) = cplus (cplus p r) (cplus q s)"
  by (simp add: assoc left_comm [of q r s])

lemma neg_unique:
  assumes "on p" and "on q" and "cplus p q = zero"
  shows "q = neg p"
proof -
  have "neg p = cplus (neg p) (cplus p q)" using assms by simp
  also have "\<dots> = cplus (cplus (neg p) p) q" using assms by (simp add: assoc)
  also have "\<dots> = q" using assms comm [of "neg p" p] by (simp add: neg_right)
  finally show ?thesis by simp
qed

lemma neg_zero [simp]: "neg zero = zero"
  using neg_unique [of zero zero] by simp

lemma neg_neg [simp]: "on p \<Longrightarrow> neg (neg p) = p"
  using neg_unique [of "neg p" p] neg_right [of p] comm [of p "neg p"] by simp

lemma neg_plus: "on p \<Longrightarrow> on q \<Longrightarrow> neg (cplus p q) = cplus (neg p) (neg q)"
  using neg_unique [of "cplus p q" "cplus (neg p) (neg q)"] medial [of p q "neg p" "neg q"]
  by (simp add: neg_right)

subsection \<open>Multiples\<close>

lemma on_mult [simp]: "on p \<Longrightarrow> on (nmul n p)"
  by (induction n) simp_all

lemma nmul_add: "on p \<Longrightarrow> nmul (m + n) p = cplus (nmul m p) (nmul n p)"
  by (induction m) (simp_all add: assoc)

lemma nmul_1 [simp]: "on p \<Longrightarrow> nmul (Suc 0) p = p"
  by simp

lemma nmul_plus: "on p \<Longrightarrow> on q \<Longrightarrow> nmul n (cplus p q) = cplus (nmul n p) (nmul n q)"
  by (induction n) (simp_all add: medial)

lemma nmul_mult: "on p \<Longrightarrow> nmul (m * n) p = nmul m (nmul n p)"
  by (induction m) (simp_all add: nmul_add)

lemma nmul_zero [simp]: "nmul n zero = zero"
  by (induction n) simp_all

lemma nmul_neg: "on p \<Longrightarrow> nmul n (neg p) = neg (nmul n p)"
  by (induction n) (simp_all add: neg_plus)

lemma on_imult [simp]: "on p \<Longrightarrow> on (imul k p)"
  by (simp add: int_multiple_def)

lemma imul_nat [simp]: "imul (int n) p = nmul n p"
  by (simp add: int_multiple_def)

lemma imul_diff:
  assumes "on p"
  shows "imul (int m - int n) p = cplus (nmul m p) (neg (nmul n p))"
proof (cases "n \<le> m")
  case True
  then have "nmul m p = cplus (nmul (m - n) p) (nmul n p)"
    using nmul_add [OF assms, of "m - n" n] by simp
  then show ?thesis using True assms
    by (simp add: int_multiple_def nat_diff_distrib assoc neg_right)
next
  case False
  then have "nmul n p = cplus (nmul (n - m) p) (nmul m p)"
    using nmul_add [OF assms, of "n - m" m] by simp
  then have "cplus (nmul m p) (neg (nmul n p)) = neg (nmul (n - m) p)"
    using assms by (simp add: neg_plus left_comm [of "nmul m p"] neg_right)
  then show ?thesis using False by (simp add: int_multiple_def nat_diff_distrib)
qed

lemma imul_add:
  assumes "on p"
  shows "imul (k + l) p = cplus (imul k p) (imul l p)"
proof -
  obtain a b c d where k: "k = int a - int b" and l: "l = int c - int d"
    by (metis int_diff_cases)
  have "k + l = int (a + c) - int (b + d)" by (simp add: k l)
  then have "imul (k + l) p = cplus (nmul (a + c) p) (neg (nmul (b + d) p))"
    by (simp only: imul_diff [OF assms])
  also have "\<dots> = cplus (cplus (nmul a p) (neg (nmul b p))) (cplus (nmul c p) (neg (nmul d p)))"
    using assms by (simp add: nmul_add neg_plus medial)
  finally show ?thesis by (simp only: k l imul_diff [OF assms])
qed

lemma imul_0 [simp]: "imul 0 p = zero"
  by (simp add: int_multiple_def)

lemma imul_1 [simp]: "on p \<Longrightarrow> imul 1 p = p"
  by (simp add: int_multiple_def)

lemma imul_minus_1 [simp]: "on p \<Longrightarrow> imul (- 1) p = neg p"
  by (simp add: int_multiple_def)

subsection \<open>Totals of lists\<close>

lemma total_simps [simp]: "tot [] = zero" "tot (p # ps) = cplus p (tot ps)"
  by (simp_all add: list_total_def)

lemma on_total [simp]: "list_all on ps \<Longrightarrow> on (tot ps)"
  by (induction ps) simp_all

lemma total_append: "list_all on ps \<Longrightarrow> list_all on qs \<Longrightarrow> tot (ps @ qs) = cplus (tot ps) (tot qs)"
  by (induction ps) (simp_all add: assoc)

lemma nmul_total: "list_all on ps \<Longrightarrow> nmul n (tot ps) = tot (map (nmul n) ps)"
  by (induction ps) (simp_all add: nmul_plus)

lemma total_map_plus:
  "(\<And>x. x \<in> set xs \<Longrightarrow> on (f x) \<and> on (g x)) \<Longrightarrow> tot (map (\<lambda>x. cplus (f x) (g x)) xs) = cplus (tot (map f xs)) (tot (map g xs))"
proof (induction xs)
  case (Cons x xs)
  then have "list_all on (map f xs)" "list_all on (map g xs)" by (auto simp: list_all_iff)
  with Cons show ?case by (simp add: medial)
qed simp

lemma total_mset:
  assumes "mset ps = mset qs" and "list_all on ps"
  shows "tot ps = tot qs"
  using assms
proof (induction ps arbitrary: qs)
  case (Cons p ps)
  then have "p \<in> set qs" by (metis list.set_intros(1) mset_eq_setD)
  then obtain us vs where qs: "qs = us @ p # vs" by (auto simp: in_set_conv_decomp)
  have on: "list_all on us" "list_all on vs" "on p" "list_all on ps"
    using Cons.prems(2) mset_eq_setD [OF Cons.prems(1)] unfolding qs by (auto simp: list_all_iff)
  have "mset ps = mset (us @ vs)" using Cons.prems(1) qs by simp
  then have "tot ps = tot (us @ vs)" using Cons.IH on by blast
  then show ?case using on qs by (simp add: total_append left_comm)
qed simp

subsection \<open>Weighted totals\<close>

text \<open>
  The total of an array of group elements with a multiplicity per cell: what bucket algorithms keep
  constant while they move summands between cells of the same weight.
\<close>

abbreviation "wtotal \<equiv> weighted_total cplus zero"

lemma wtotal_simps [simp]:
  "wtotal [] ps = zero" "wtotal ws [] = zero" "wtotal (w # ws) (p # ps) = cplus (nmul w p) (wtotal ws ps)"
  by (simp_all add: weighted_total_def)

lemma on_wtotal [simp]: "list_all on ps \<Longrightarrow> on (wtotal ws ps)"
  by (induction ws ps rule: list_induct2') simp_all

lemma wtotal_add_at:
  assumes "k < length ps" and "length ws = length ps" and "list_all on ps" and "on q"
  shows "wtotal ws (ps[k := cplus (ps ! k) q]) = cplus (wtotal ws ps) (nmul (ws ! k) q)"
  using assms
proof (induction k arbitrary: ps ws)
  case 0
  then obtain p ps' w ws' where "ps = p # ps'" "ws = w # ws'" by (metis length_0_conv less_nat_zero_code neq_Nil_conv)
  with 0 show ?case by (simp add: nmul_plus assoc comm [of "nmul w q"])
next
  case (Suc k)
  then obtain p ps' w ws' where "ps = p # ps'" "ws = w # ws'" by (metis length_0_conv less_nat_zero_code neq_Nil_conv)
  with Suc show ?case by (simp add: assoc)
qed

lemma on_update [simp]: "list_all on ps \<Longrightarrow> on q \<Longrightarrow> list_all on (ps[k := q])"
  by (auto simp: list_all_iff dest!: set_update_subset_insert [THEN subsetD])

lemma on_nth [simp]: "list_all on ps \<Longrightarrow> k < length ps \<Longrightarrow> on (ps ! k)"
  by (simp add: list_all_length)

lemma wtotal_clear:
  assumes "k < length ps" and "length ws = length ps" and "list_all on ps"
  shows "wtotal ws ps = cplus (wtotal ws (ps[k := zero])) (nmul (ws ! k) (ps ! k))"
  using wtotal_add_at [of k "ps[k := zero]" ws "ps ! k"] assms by simp

lemma wtotal_move:
  assumes "i < length ps" and "m < length ps" and "i \<noteq> m" and "ws ! i = ws ! m"
    and "length ws = length ps" and "list_all on ps"
  shows "wtotal ws (ps[i := cplus (ps ! i) (ps ! m), m := zero]) = wtotal ws ps"
proof -
  have "ps[i := cplus (ps ! i) (ps ! m), m := zero] = (ps[m := zero])[i := cplus (ps[m := zero] ! i) (ps ! m)]"
    using assms(3) by (simp add: list_update_swap)
  also have "wtotal ws \<dots> = cplus (wtotal ws (ps[m := zero])) (nmul (ws ! i) (ps ! m))"
    using assms by (intro wtotal_add_at) simp_all
  finally show ?thesis using wtotal_clear [OF assms(2,5,6)] assms(4) by simp
qed

lemma wtotal_append:
  "length ws = length ps \<Longrightarrow> list_all on ps \<Longrightarrow> list_all on qs \<Longrightarrow>
   wtotal (ws @ vs) (ps @ qs) = cplus (wtotal ws ps) (wtotal vs qs)"
  by (induction ws ps rule: list_induct2) (simp_all add: assoc)

lemma wtotal_zeros [simp]: "wtotal ws (replicate n zero) = zero"
  by (induction n arbitrary: ws) (simp_all, case_tac ws, simp_all)

end

end
