(* ===== verification/Group_Law.thy ===== *)
theory Group_Law
  imports Weierstrass
begin

section \<open>The group law\<close>

definition ec_slope :: "'k :: field \<Rightarrow> 'k \<Rightarrow> 'k \<Rightarrow> 'k \<Rightarrow> 'k \<Rightarrow> 'k \<Rightarrow> bool" where
  "ec_slope a x1 y1 x2 y2 l \<longleftrightarrow> y2 - y1 = l * (x2 - x1) \<and> l * (y1 + y2) = x1 * x1 + x1 * x2 + x2 * x2 + a"

lemma slope_exists:
  fixes x1 :: "'k :: field"
  assumes two: "(2 :: 'k) \<noteq> 0" and p: "ec_on a b (Aff x1 y1)" and q: "ec_on a b (Aff x2 y2)"
    and n: "Aff x2 y2 \<noteq> ec_neg (Aff x1 y1)"
  obtains l where "ec_slope a x1 y1 x2 y2 l" and "ec_add a (Aff x1 y1) (Aff x2 y2) = ec_line l x1 y1 x2"
proof (cases "x1 = x2")
  case True
  then have y: "y2 = y1" using ec_on_same_x [of a b x1 y1 y2] p q n by simp
  then have "y1 \<noteq> 0" using n True by auto
  then have "ec_slope a x1 y1 x2 y2 ((3 * (x1 * x1) + a) / (2 * y1))"
    using two True y by (simp add: ec_slope_def field_simps)
  moreover have "ec_add a (Aff x1 y1) (Aff x2 y2) = ec_line ((3 * (x1 * x1) + a) / (2 * y1)) x1 y1 x2"
    using True y \<open>y1 \<noteq> 0\<close> by (simp add: ec_add_def ec_dbl_def)
  ultimately show ?thesis by (rule that)
next
  case False
  define l where "l = (y2 - y1) / (x2 - x1)"
  have y2: "y2 - y1 = l * (x2 - x1)" using False by (simp add: l_def)
  have "(x2 - x1) * (l * (y1 + y2)) = (x2 - x1) * (x1 * x1 + x1 * x2 + x2 * x2 + a)"
    using p q y2 unfolding ec_on_simps by algebra
  then have "l * (y1 + y2) = x1 * x1 + x1 * x2 + x2 * x2 + a" using False by simp
  with y2 False show ?thesis by (intro that [of l]) (simp_all add: ec_slope_def ec_add_def l_def)
qed

lemma slope_unique:
  fixes x1 :: "'k :: field"
  assumes "(2 :: 'k) \<noteq> 0" and "ec_slope a x1 y1 x2 y2 l" and "ec_slope a x1 y1 x2 y2 m"
    and "x1 \<noteq> x2 \<or> y1 + y2 \<noteq> 0"
  shows "l = m"
proof (cases "x1 = x2")
  case True
  have "l * (y1 + y2) = m * (y1 + y2)" using assms(2,3) unfolding ec_slope_def by metis
  moreover have "y1 + y2 \<noteq> 0" using assms(4) True by simp
  ultimately show ?thesis by simp
next
  case False
  with assms(2,3) have "l * (x2 - x1) = m * (x2 - x1)" "x2 - x1 \<noteq> 0" by (simp_all add: ec_slope_def)
  then show ?thesis by simp
qed

lemma slope_add:
  fixes x1 :: "'k :: field"
  assumes two: "(2 :: 'k) \<noteq> 0" and on: "ec_on a b (Aff x1 y1)" "ec_on a b (Aff x2 y2)"
    and n: "Aff x2 y2 \<noteq> ec_neg (Aff x1 y1)" and s: "ec_slope a x1 y1 x2 y2 l"
  shows "ec_add a (Aff x1 y1) (Aff x2 y2) = ec_line l x1 y1 x2"
proof -
  obtain m where m: "ec_slope a x1 y1 x2 y2 m" "ec_add a (Aff x1 y1) (Aff x2 y2) = ec_line m x1 y1 x2"
    using slope_exists [OF two on n] by blast
  have "x1 \<noteq> x2 \<or> y1 + y2 \<noteq> 0" using n by (auto simp: eq_neg_iff_add_eq_0 add.commute)
  then have "l = m" using slope_unique [OF two s m(1)] by blast
  with m show ?thesis by simp
qed

lemma slope_sym: "ec_slope a x1 y1 x2 y2 l = ec_slope a x2 y2 x1 y1 l"
  for x1 :: "'k :: field"
  unfolding ec_slope_def by (rule iffI; elim conjE; intro conjI; algebra)

text \<open>Everything relative to the middle point \<open>(x, y)\<close>.\<close>

lemma assoc_slope_generic:
  fixes x :: "'k :: field"
  assumes two: "(2 :: 'k) \<noteq> 0"
    and R1: "l * (2 * y + l * u) = u * u + 3 * x * u + s"
    and R2: "m * (2 * y + m * v) = v * v + 3 * x * v + s"
    and D: "xD = l * l - 2 * x - u" "yD = l * (x - xD) - y"
    and E: "xE = m * m - 2 * x - v" "yE = m * (x - xE) - y"
    and n: "yE - (y + l * u) = n * (xE - (x + u))"
    and P: "xE \<noteq> x + u"
  shows "(m - l) * (n + m) = v - u"
    and "y + m * v - yD = (m + n - l) * (x + v - xD)"
    and "x + v = xD \<Longrightarrow> y + m * v = yD \<Longrightarrow> (m + n - l) * (2 * yD) = 3 * (xD * xD) + (s - 3 * (x * x))"
proof -
  have P': "xE - (x + u) \<noteq> 0" using P by simp
  have "(xE - (x + u)) * ((m - l) * (n + m)) = (xE - (x + u)) * (v - u)"
    using R1 R2 n unfolding E by algebra
  then show mm: "(m - l) * (n + m) = v - u" using P' by simp
  have "(xE - (x + u)) * (y + m * v - yD) = (xE - (x + u)) * ((m + n - l) * (x + v - xD))"
    using R1 R2 n unfolding E D by algebra
  then show "y + m * v - yD = (m + n - l) * (x + v - xD)" using P' by simp
  show "(m + n - l) * (2 * yD) = 3 * (xD * xD) + (s - 3 * (x * x))" if "x + v = xD" "y + m * v = yD"
  proof -
    have "(xE - (x + u)) * ((m + n - l) * (2 * yD)) = (xE - (x + u)) * (3 * (xD * xD) + (s - 3 * (x * x)))"
      using R1 R2 n that unfolding E D by algebra
    then show ?thesis using P' by simp
  qed
qed

text \<open>The case \<open>A + B = C\<close>, \<open>B + C = A\<close>.\<close>

lemma assoc_slope_cycle:
  fixes x :: "'k :: field"
  assumes two: "(2 :: 'k) \<noteq> 0"
    and R1: "l * (2 * y + l * u) = u * u + 3 * x * u + s"
    and R2: "m * (2 * y + m * v) = v * v + 3 * x * v + s"
    and D: "xD = l * l - 2 * x - u" "yD = l * (x - xD) - y"
    and E: "xE = m * m - 2 * x - v" "yE = m * (x - xE) - y"
    and n: "n * (2 * yE) = 3 * (xE * xE) + (s - 3 * (x * x))"
    and P: "xE = x + u" "yE = y + l * u" "yE \<noteq> 0"
    and Q: "xD = x + v" "yD = y + m * v" "yD \<noteq> 0"
    and uv: "u \<noteq> v \<or> m \<noteq> l"
  shows "(m - l) * (n + m) = v - u"
    and "(m + n - l) * (2 * yD) = 3 * (xD * xD) + (s - 3 * (x * x))"
proof -
  have "(m - l) * (m + l) = 0" using P(1) Q(1) unfolding D(1) E(1) by algebra
  then have ml: "m = l \<or> m = - l" by (metis eq_iff_diff_eq_0 eq_neg_iff_add_eq_0 mult_eq_0_iff)
  have c1: "2 * y + (l + m) * v = 0" using Q unfolding D by algebra
  have c2: "2 * y + (l + m) * u = 0" using P unfolding E by algebra
  have "m = - l"
  proof (rule ccontr)
    assume "m \<noteq> - l"
    then have "m = l" using ml by blast
    have "(2 * l) * (v - u) = 0" using c1 c2 unfolding \<open>m = l\<close> by algebra
    then have "l = 0" using uv two \<open>m = l\<close> by simp
    then have "y = 0" using c1 \<open>m = l\<close> two by simp
    then show False using P(2,3) \<open>l = 0\<close> by simp
  qed
  then have y: "y = 0" using c1 two by simp
  have u: "u \<noteq> 0" and l: "l \<noteq> 0" using P(2,3) y by auto
  have v: "v \<noteq> 0" using Q(2,3) y by auto
  have w: "l * l = u + v + 3 * x" using Q(1) unfolding D(1) by algebra
  have st: "s = u * v" using R1 w y by algebra
  have yE: "yE = l * u" using P(2) y by simp
  have "u * (2 * (l * n)) = u * (v + 6 * x + 3 * u)" using n P(1) unfolding yE st by algebra
  then have n': "2 * (l * n) = v + 6 * x + 3 * u" using u by simp
  show "(m - l) * (n + m) = v - u" unfolding \<open>m = - l\<close> using n' w by algebra
  show "(m + n - l) * (2 * yD) = 3 * (xD * xD) + (s - 3 * (x * x))"
    unfolding Q(2) Q(1) st \<open>m = - l\<close> y using n' w by algebra
qed

text \<open>From the relations of the four slopes to the sums.\<close>

lemma assoc_lines:
  fixes x :: "'k :: field"
  assumes "(m - l) * (n + m) = v - u" and "k = m + n - l"
    and D: "xD = l * l - 2 * x - u"
    and E: "xE = m * m - 2 * x - v"
    and kD: "y + m * v - yD = k * (x + v - xD)"
  shows "ec_line k xD yD (x + v) = ec_line n (x + u) (y + l * u) xE"
proof -
  have X: "k * k - xD - (x + v) = n * n - (x + u) - xE"
    using assms(1) unfolding assms(2) D E by algebra
  have "k * (xD - (n * n - (x + u) - xE)) - yD = n * (x + u - (n * n - (x + u) - xE)) - (y + l * u)"
    using assms(1) kD unfolding assms(2) D E by algebra
  then show ?thesis unfolding ec_line_def Let_def X by simp
qed

lemma slope_intro:
  fixes x1 :: "'k :: field"
  assumes "ec_on a b (Aff x1 y1)" and "ec_on a b (Aff x2 y2)" and "y2 - y1 = l * (x2 - x1)"
    and "x1 = x2 \<Longrightarrow> l * (y1 + y2) = 3 * (x1 * x1) + a"
  shows "ec_slope a x1 y1 x2 y2 l"
proof (cases "x1 = x2")
  case True
  with assms(3) have "y1 = y2" by simp
  with True assms(4) show ?thesis by (simp add: ec_slope_def)
next
  case False
  have "(x2 - x1) * (l * (y1 + y2)) = (x2 - x1) * (x1 * x1 + x1 * x2 + x2 * x2 + a)"
    using assms(1-3) unfolding ec_on_simps by algebra
  then show ?thesis using False assms(3) by (simp add: ec_slope_def)
qed

lemma slope_at:
  fixes x :: "'k :: field"
  assumes "ec_slope a x y x1 y1 l"
  shows "y1 = y + l * (x1 - x)"
    and "l * (2 * y + l * (x1 - x)) = (x1 - x) * (x1 - x) + 3 * x * (x1 - x) + (3 * (x * x) + a)"
proof -
  show y: "y1 = y + l * (x1 - x)" using assms unfolding ec_slope_def by algebra
  show "l * (2 * y + l * (x1 - x)) = (x1 - x) * (x1 - x) + 3 * x * (x1 - x) + (3 * (x * x) + a)"
    using assms unfolding ec_slope_def y by algebra
qed

lemma not_neg_iff: "Aff x2 y2 \<noteq> ec_neg (Aff x1 y1) \<longleftrightarrow> x1 \<noteq> x2 \<or> y1 + y2 \<noteq> 0"
  for x1 :: "'k :: field"
  by (auto simp: eq_neg_iff_add_eq_0 add.commute)

lemma assoc_distinct_x:
  fixes x :: "'k :: field"
  assumes two: "(2 :: 'k) \<noteq> 0"
    and on: "ec_on a b (Aff xA yA)" "ec_on a b (Aff x y)" "ec_on a b (Aff xC yC)"
    and l: "ec_slope a x y xA yA l" and m: "ec_slope a x y xC yC m"
    and D: "ec_line l x y xA = Aff xD yD" "ec_on a b (Aff xD yD)"
    and E: "ec_line m x y xC = Aff xE yE" "ec_on a b (Aff xE yE)"
    and DC: "Aff xC yC \<noteq> ec_neg (Aff xD yD)" and AE: "Aff xE yE \<noteq> ec_neg (Aff xA yA)"
    and P: "xE \<noteq> xA"
  shows "ec_add a (Aff xD yD) (Aff xC yC) = ec_add a (Aff xA yA) (Aff xE yE)"
proof -
  obtain n where n: "ec_slope a xA yA xE yE n" using slope_exists [OF two on(1) E(2) AE] by blast
  define u v where uv: "u = xA - x" "v = xC - x"
  have A: "xA = x + u" "yA = y + l * u" using slope_at(1) [OF l] by (simp_all add: uv)
  have C: "xC = x + v" "yC = y + m * v" using slope_at(1) [OF m] by (simp_all add: uv)
  have xD: "xD = l * l - 2 * x - u" and yD: "yD = l * (x - xD) - y"
    using D(1) by (auto simp: ec_line_def Let_def uv algebra_simps)
  have xE: "xE = m * m - 2 * x - v" and yE: "yE = m * (x - xE) - y"
    using E(1) by (auto simp: ec_line_def Let_def uv algebra_simps)
  note G = assoc_slope_generic [OF two slope_at(2) [OF l, folded uv] slope_at(2) [OF m, folded uv] xD yD xE yE
    _ P [unfolded A(1)], of n]
  have nn: "yE - (y + l * u) = n * (xE - (x + u))" using n A by (simp add: ec_slope_def)
  have "ec_slope a xD yD xC yC (m + n - l)"
  proof (rule slope_intro [OF D(2) on(3)])
    show "yC - yD = (m + n - l) * (xC - xD)" using G(2) [OF nn] C by simp
    show "(m + n - l) * (yD + yC) = 3 * (xD * xD) + a" if e: "xD = xC"
    proof -
      have "yC = yD" using DC ec_on_same_x [OF D(2) on(3) [folded e]] e by auto
      with G(3) [OF nn] e C have "(m + n - l) * (2 * yD) = 3 * (xD * xD) + (3 * (x * x) + a - 3 * (x * x))"
        by simp
      then show ?thesis unfolding \<open>yC = yD\<close> by algebra
    qed
  qed
  then have "ec_add a (Aff xD yD) (Aff xC yC) = ec_line (m + n - l) xD yD xC"
    by (rule slope_add [OF two D(2) on(3) DC])
  also have "\<dots> = ec_line n xA yA xE"
    unfolding A C by (rule assoc_lines [OF G(1) [OF nn] refl xD xE G(2) [OF nn]])
  also have "\<dots> = ec_add a (Aff xA yA) (Aff xE yE)"
    by (rule slope_add [OF two on(1) E(2) AE n, symmetric])
  finally show ?thesis .
qed

lemma assoc_affine:
  fixes A B C :: "'k :: field ec"
  assumes two: "(2 :: 'k) \<noteq> 0" and on: "ec_on a b A" "ec_on a b B" "ec_on a b C"
    and aff: "A \<noteq> Inf" "B \<noteq> Inf" "C \<noteq> Inf"
    and AB: "A \<noteq> ec_neg B" and BC: "C \<noteq> ec_neg B"
    and DC: "C \<noteq> ec_neg (ec_add a A B)" and AE: "ec_add a B C \<noteq> ec_neg A"
  shows "ec_add a (ec_add a A B) C = ec_add a A (ec_add a B C)"
proof -
  obtain xA yA x y xC yC where e: "A = Aff xA yA" "B = Aff x y" "C = Aff xC yC"
    using aff by (metis ec.exhaust)
  obtain l where l: "ec_slope a x y xA yA l" "ec_add a B A = ec_line l x y xA"
    using slope_exists [OF two on(2,1) [unfolded e] AB [unfolded e]] e by blast
  obtain m where m: "ec_slope a x y xC yC m" "ec_add a B C = ec_line m x y xC"
    using slope_exists [OF two on(2,3) [unfolded e] BC [unfolded e]] e by blast
  obtain xD yD where D: "ec_line l x y xA = Aff xD yD" by (auto simp: ec_line_def Let_def)
  obtain xE yE where E: "ec_line m x y xC = Aff xE yE" by (auto simp: ec_line_def Let_def)
  have AD: "ec_add a A B = Aff xD yD" and BE: "ec_add a B C = Aff xE yE"
    using l(2) m(2) D E ec_add_commute [of a A B] by simp_all
  have onD: "ec_on a b (Aff xD yD)" and onE: "ec_on a b (Aff xE yE)"
    using ec_add_closed [OF two on(1,2)] ec_add_closed [OF two on(2,3)] AD BE by simp_all
  have onA: "ec_on a b (Aff xA yA)" and onC: "ec_on a b (Aff xC yC)" using on(1,3) e by simp_all
  have DC': "Aff xC yC \<noteq> ec_neg (Aff xD yD)" and AE': "Aff xE yE \<noteq> ec_neg (Aff xA yA)"
    using DC AE AD BE e by simp_all
  have swap: "Aff xD yD \<noteq> ec_neg (Aff xC yC)" "Aff xA yA \<noteq> ec_neg (Aff xE yE)"
    using DC' AE' by (auto simp: minus_equation_iff)
  consider "xE \<noteq> xA" | "xE = xA" "xD \<noteq> xC" | "xE = xA" "xD = xC" by blast
  then show ?thesis
  proof cases
    case 1
    show ?thesis unfolding AD BE unfolding e
      by (rule assoc_distinct_x [OF two on [unfolded e] l(1) m(1) D onD E onE DC' AE' 1])
  next
    case 2
    have "ec_add a (Aff xE yE) (Aff xA yA) = ec_add a (Aff xC yC) (Aff xD yD)"
      by (rule assoc_distinct_x [OF two on(3,2,1) [unfolded e] m(1) l(1) E onE D onD swap(2,1) 2(2)])
    then show ?thesis unfolding AD BE unfolding e by (metis ec_add_commute)
  next
    case 3
    have yE: "yE = yA" "yA \<noteq> 0" using AE' ec_on_same_x [OF onE, of yA] on(1) 3 e by (auto simp: add_eq_0_iff)
    have yD: "yD = yC" "yC \<noteq> 0" using DC' ec_on_same_x [OF onD, of yC] on(3) 3 e by (auto simp: add_eq_0_iff)
    show ?thesis
    proof (cases "xA = xC \<and> m = l")
      case True
      with slope_at(1) [OF l(1)] slope_at(1) [OF m(1)] have "A = C" using e by simp
      then show ?thesis by (metis ec_add_commute)
    next
      case False
      define u v where uv: "u = xA - x" "v = xC - x"
      have A: "xA = x + u" "yA = y + l * u" using slope_at(1) [OF l(1)] by (simp_all add: uv)
      have C: "xC = x + v" "yC = y + m * v" using slope_at(1) [OF m(1)] by (simp_all add: uv)
      have xD: "xD = l * l - 2 * x - u" and yD': "yD = l * (x - xD) - y"
        using D by (auto simp: ec_line_def Let_def uv algebra_simps)
      have xE: "xE = m * m - 2 * x - v" and yE': "yE = m * (x - xE) - y"
        using E by (auto simp: ec_line_def Let_def uv algebra_simps)
      obtain n where n: "ec_slope a xA yA xE yE n" using slope_exists [OF two onA onE AE'] by blast
      have n2: "n * (2 * yE) = 3 * (xE * xE) + (3 * (x * x) + a - 3 * (x * x))"
        using n unfolding ec_slope_def 3 yE by algebra
      have nz: "yE \<noteq> 0" "yD \<noteq> 0" using yE yD by simp_all
      have neq: "u \<noteq> v \<or> m \<noteq> l" using False by (auto simp: uv)
      have eqs: "xE = x + u" "yE = y + l * u" "xD = x + v" "yD = y + m * v" using 3 yE yD A C by simp_all
      note G = assoc_slope_cycle [OF two slope_at(2) [OF l(1), folded uv] slope_at(2) [OF m(1), folded uv]
        xD yD' xE yE' n2 eqs(1,2) nz(1) eqs(3,4) nz(2) neq]
      have "ec_slope a xD yD xC yC (m + n - l)"
      proof -
        have "(m + n - l) * (yC + yC) = xC * xC + xC * xC + xC * xC + a" using G(2) unfolding 3 yD by algebra
        then show ?thesis unfolding ec_slope_def 3 yD by simp
      qed
      then have "ec_add a (Aff xD yD) (Aff xC yC) = ec_line (m + n - l) xD yD xC"
        by (rule slope_add [OF two onD onC DC'])
      also have "\<dots> = ec_line n xA yA xE"
        unfolding A C by (rule assoc_lines [OF G(1) refl xD xE]) (use 3 yD C in simp)
      also have "\<dots> = ec_add a (Aff xA yA) (Aff xE yE)"
        by (rule slope_add [OF two onA onE AE' n, symmetric])
      finally show ?thesis unfolding AD BE unfolding e .
    qed
  qed
qed

lemma ec_neg_neg [simp]: "ec_neg (ec_neg p) = p"
  by (cases p) simp_all

lemma ec_neg_Inf_iff [simp]: "ec_neg p = Inf \<longleftrightarrow> p = Inf"
  by (cases p) simp_all

lemma ec_add_neg_neg: "ec_add a (ec_neg p) (ec_neg q) = ec_neg (ec_add a p q)"
proof (cases p; cases q)
  fix x1 y1 x2 y2
  assume e: "p = Aff x1 y1" "q = Aff x2 y2"
  have l: "ec_line (- l) x1 (- y1) x2 = ec_neg (ec_line l x1 y1 x2)" for l x1 y1 x2 :: 'a
    by (simp add: ec_line_def Let_def)
  have "(- y2 - - y1) / (x2 - x1) = - ((y2 - y1) / (x2 - x1))"
    and "(3 * (x1 * x1) + a) / (2 * - y1) = - ((3 * (x1 * x1) + a) / (2 * y1))"
    by (simp_all add: minus_divide_left)
  then show ?thesis
    using l by (simp add: e ec_add_def ec_dbl_def)
qed simp_all

locale smooth_curve =
  fixes a b :: "'k :: field"
  assumes two: "(2 :: 'k) \<noteq> 0"
    and smooth: "ec_on a b (Aff x 0) \<Longrightarrow> 3 * (x * x) + a \<noteq> 0"
begin

lemma cancel_left:
  assumes on: "ec_on a b B" "ec_on a b C"
  shows "ec_add a (ec_neg B) (ec_add a B C) = C"
proof (cases "B = Inf \<or> C = Inf \<or> C = ec_neg B")
  case True
  then show ?thesis using ec_add_neg [OF two, of a B] ec_add_commute [of a B "ec_neg B"] by auto
next
  case False
  then obtain x y xC yC where e: "B = Aff x y" "C = Aff xC yC" by (metis ec.exhaust)
  have BC: "Aff xC yC \<noteq> ec_neg (Aff x y)" using False e by simp
  obtain m where m: "ec_slope a x y xC yC m" "ec_add a B C = ec_line m x y xC"
    using slope_exists [OF two on [unfolded e] BC] e by blast
  obtain xE yE where E: "ec_line m x y xC = Aff xE yE" by (auto simp: ec_line_def Let_def)
  have onE: "ec_on a b (Aff xE yE)" using ec_add_closed [OF two on] m(2) E by simp
  have onN: "ec_on a b (Aff x (- y))" using on(1) e by simp
  have xE: "xE = m * m - x - xC" and yE: "yE = m * (x - xE) - y"
    using E by (auto simp: ec_line_def Let_def)
  note C = slope_at [OF m(1)]
  have tangent: "m * (2 * y) = 3 * (x * x) + a" if "xE = x" using C(2) xE that by algebra
  have "Aff xE yE \<noteq> ec_neg (Aff x (- y))"
  proof
    assume eq: "Aff xE yE = ec_neg (Aff x (- y))"
    then have "xE = x" "yE = y" by simp_all
    with yE have "2 * y = 0" by algebra
    then have "y = 0" using two by simp
    with tangent eq smooth [of x] on(1) e show False by simp
  qed
  moreover have "ec_slope a x (- y) xE yE (- m)"
  proof (rule slope_intro [OF onN onE])
    show "yE - - y = - m * (xE - x)" unfolding yE by algebra
    show "- m * (- y + yE) = 3 * (x * x) + a" if "x = xE"
      using tangent [OF that [symmetric]] yE that by algebra
  qed
  ultimately have "ec_add a (Aff x (- y)) (Aff xE yE) = ec_line (- m) x (- y) xE"
    using slope_add [OF two onN onE] by blast
  also have "\<dots> = Aff xC yC"
    unfolding ec_line_def Let_def xE using C(1) by (simp add: algebra_simps)
  finally show ?thesis using m(2) E e by simp
qed

lemma sum_Inf:
  assumes "ec_on a b p" and "ec_on a b q" and "ec_add a p q = Inf"
  shows "q = ec_neg p"
  using cancel_left [OF assms(1,2)] assms(3) by simp

theorem ec_add_assoc:
  assumes on: "ec_on a b A" "ec_on a b B" "ec_on a b C"
  shows "ec_add a (ec_add a A B) C = ec_add a A (ec_add a B C)"
proof -
  note closed = ec_add_closed [OF two]
  have cancel_right: "ec_add a (ec_add a p q) (ec_neg q) = p" if "ec_on a b p" "ec_on a b q" for p q
    using cancel_left [OF that(2,1)] by (metis ec_add_commute)
  have cancel_left': "ec_add a p (ec_add a (ec_neg p) q) = q" if "ec_on a b p" "ec_on a b q" for p q
    using cancel_left [of "ec_neg p" q] that by simp
  consider "A = Inf \<or> B = Inf \<or> C = Inf" | "A = ec_neg B" | "C = ec_neg B"
    | "C = ec_neg (ec_add a A B)" | "ec_add a B C = ec_neg A"
    | "A \<noteq> Inf" "B \<noteq> Inf" "C \<noteq> Inf" "A \<noteq> ec_neg B" "C \<noteq> ec_neg B" "C \<noteq> ec_neg (ec_add a A B)" "ec_add a B C \<noteq> ec_neg A"
    by blast
  then show ?thesis
  proof cases
    case 1
    then show ?thesis by auto
  next
    case 2
    have "ec_add a (ec_add a A B) C = C" using ec_add_neg [OF two, of a B] 2 by (simp add: ec_add_commute)
    then show ?thesis using cancel_left [OF on(2,3)] 2 by simp
  next
    case 3
    have "ec_add a A (ec_add a B C) = A" using ec_add_neg [OF two, of a B] 3 by simp
    then show ?thesis using cancel_right [OF on(1,2)] 3 by simp
  next
    case 4
    have "ec_add a (ec_add a A B) C = Inf" using 4 ec_add_neg [OF two] by simp
    moreover have "ec_neg A = ec_add a B C"
    proof -
      have "ec_add a (ec_neg (ec_neg B)) (ec_add a (ec_neg B) (ec_neg A)) = ec_neg A"
        using cancel_left [of "ec_neg B" "ec_neg A"] on by simp
      moreover have "ec_neg (ec_add a A B) = ec_add a (ec_neg B) (ec_neg A)"
        by (simp add: ec_add_neg_neg ec_add_commute)
      ultimately show ?thesis using 4 by simp
    qed
    then have "ec_add a A (ec_add a B C) = Inf" using ec_add_neg [OF two, of a A] by simp
    ultimately show ?thesis by simp
  next
    case 5
    have "ec_add a A (ec_add a B C) = Inf" using 5 ec_add_neg [OF two, of a A] by simp
    moreover have "C = ec_neg (ec_add a A B)"
    proof -
      have "C = ec_add a (ec_neg B) (ec_neg A)" using cancel_left [OF on(2,3)] 5 by simp
      also have "\<dots> = ec_neg (ec_add a A B)" by (simp add: ec_add_neg_neg ec_add_commute)
      finally show ?thesis .
    qed
    then have "ec_add a (ec_add a A B) C = Inf" using ec_add_neg [OF two] by simp
    ultimately show ?thesis by simp
  next
    case 6
    show ?thesis by (rule assoc_affine [OF two on 6])
  qed
qed

end

end
