(* ===== verification/Scalar_Mul.thy ===== *)
theory Scalar_Mul
  imports Naf Abelian Group_Law Curve_Laws
begin

section \<open>Multiplication by a scalar\<close>

text \<open>
  \<open>nafMulByScalar\<close> of \<open>exp.hpp\<close> over any group that offers the six operations the template calls, and
  its two instances \<open>Curve::mulByScalar\<close>. The result is the multiple of the base by the number in the
  byte array; this needs the group law of \<open>Group_Law\<close>, which the curve operations implement.
\<close>

record ('o, 'i) group_ops =
  g_copyIn :: "'i \<Rightarrow> 'i"
  g_copy :: "'o \<Rightarrow> 'o"
  g_zero :: 'o
  g_dbl :: "'o \<Rightarrow> 'o"
  g_add :: "'o \<Rightarrow> 'i \<Rightarrow> 'o"
  g_sub :: "'o \<Rightarrow> 'i \<Rightarrow> 'o"

text \<open>\<open>while ((i>=0)&&(naf[i] == 0)) i--;\<close> and the main loop, on \<open>i + 1\<close>.\<close>

fun naf_skip :: "u8 list \<Rightarrow> nat \<Rightarrow> nat" where
  "naf_skip naf 0 = 0"
| "naf_skip naf (Suc i) = (if naf ! i = 0 then naf_skip naf i else Suc i)"

fun naf_loop :: "('o, 'i) group_ops \<Rightarrow> 'i \<Rightarrow> u8 list \<Rightarrow> nat \<Rightarrow> 'o \<Rightarrow> 'o" where
  "naf_loop K baseCopy naf 0 r = r"
| "naf_loop K baseCopy naf (Suc i) r =
     (let r = g_dbl K r;
          r = (if naf ! i = 1 then g_add K r baseCopy
               else if naf ! i = 2 then g_sub K r baseCopy
               else r)
      in naf_loop K baseCopy naf i r)"

text \<open>
  \<open>scalarSize\<close> is an \<open>unsigned int\<close>, so the number of bits and the size of the allocation are reduced modulo
  \<open>2 ^ 32\<close>, and the number of bits is then converted to an \<open>int\<close>: it is negative from \<open>2 ^ 28\<close> bytes on, and
  both loops end at once. What \<open>buildNaf\<close> writes past the allocation (for sizes of at least \<open>2 ^ 29 - 2\<close>) is
  undefined in the source and left out here.
\<close>

definition nafMulByScalar :: "('o, 'i) group_ops \<Rightarrow> 'i \<Rightarrow> u8 list \<Rightarrow> nat \<Rightarrow> 'o" where
  "nafMulByScalar K base scalar scalarSize =
     (let nBits = sint (word_of_nat scalarSize * 8 + 2 :: u32);
          naf = take (unat ((word_of_nat scalarSize + 2) * 8 :: u32)) (buildNaf scalar scalarSize);
          baseCopy = g_copyIn K base;
          r = g_copy K (g_zero K)
      in naf_loop K baseCopy naf (naf_skip naf (nat nBits)) r)"

lemma naf_bits: "N < 536870912 \<Longrightarrow> unat (word_of_nat N * 8 + 2 :: u32) = 8 * N + 2"
  by (simp add: unat_word_ariths unat_of_nat mult.commute)

lemma naf_room: "N < 268435456 \<Longrightarrow> unat ((word_of_nat N + 2) * 8 :: u32) = 8 * (N + 2)"
  by (simp add: unat_word_ariths unat_of_nat mult.commute)

lemma naf_sizes:
  assumes "N < 268435456"
  shows "sint (word_of_nat N * 8 + 2 :: u32) = int (8 * N + 2)"
  using assms by (intro signed_nonneg naf_bits) simp_all

text \<open>From \<open>2 ^ 28\<close> bytes on the number of bits is negative and the result the neutral element.\<close>

lemma nafMulByScalar_long:
  assumes "268435456 \<le> N" and "N < 536870912"
  shows "nafMulByScalar K b s N = g_copy K (g_zero K)"
proof -
  have "sint (word_of_nat N * 8 + 2 :: u32) < 0" using assms by (intro signed_neg [OF naf_bits]) simp_all
  then show ?thesis by (simp add: nafMulByScalar_def)
qed

subsection \<open>Correctness over a group\<close>

locale scalar_group = abelian on cplus neg zero
  for on :: "'g \<Rightarrow> bool" and cplus neg zero +
  fixes K :: "('o, 'i) group_ops" and okO :: "'o \<Rightarrow> bool" and absO :: "'o \<Rightarrow> 'g"
    and okI :: "'i \<Rightarrow> bool" and absI :: "'i \<Rightarrow> 'g"
  assumes copyIn: "okI b \<Longrightarrow> g_copyIn K b = b"
    and zero_ok: "okO (g_copy K (g_zero K))" "absO (g_copy K (g_zero K)) = zero"
    and dbl: "okO r \<Longrightarrow> on (absO r) \<Longrightarrow> okO (g_dbl K r) \<and> absO (g_dbl K r) = cplus (absO r) (absO r)"
    and add: "okO r \<Longrightarrow> okI b \<Longrightarrow> on (absO r) \<Longrightarrow> on (absI b) \<Longrightarrow>
      okO (g_add K r b) \<and> absO (g_add K r b) = cplus (absO r) (absI b)"
    and sub: "okO r \<Longrightarrow> okI b \<Longrightarrow> on (absO r) \<Longrightarrow> on (absI b) \<Longrightarrow>
      okO (g_sub K r b) \<and> absO (g_sub K r b) = cplus (absO r) (neg (absI b))"
begin

text \<open>The loop has the multiple by the digits above \<open>i\<close>; each step takes one more digit in.\<close>

lemma naf_loop_value:
  assumes b: "okI b" "on (absI b)"
  shows "okO r \<Longrightarrow> absO r = imul k (absI b) \<Longrightarrow> i \<le> length naf \<Longrightarrow>
    okO (naf_loop K b naf i r) \<and> absO (naf_loop K b naf i r) = imul (naf_val (take i naf) + 2 ^ i * k) (absI b)"
proof (induction i arbitrary: r k)
  case (Suc i)
  have on_r: "on (absO r)" using Suc.prems b by simp
  note D = dbl [OF Suc.prems(1) on_r]
  have D2: "absO (g_dbl K r) = imul (2 * k) (absI b)"
    using D Suc.prems(2) imul_add [OF b(2), of k k] by simp
  define r' where "r' = (if naf ! i = 1 then g_add K (g_dbl K r) b
    else if naf ! i = 2 then g_sub K (g_dbl K r) b else g_dbl K r)"
  have on_d: "on (absO (g_dbl K r))" using D2 b by simp
  have "okO r' \<and> absO r' = imul (2 * k + naf_digit (naf ! i)) (absI b)"
    using D D2 add [OF _ b(1) on_d b(2)] sub [OF _ b(1) on_d b(2)] imul_add [OF b(2), of "2 * k"] b on_r on_d
    by (simp add: r'_def naf_digit_def)
  then have "okO (naf_loop K b naf i r') \<and> absO (naf_loop K b naf i r')
      = imul (naf_val (take i naf) + 2 ^ i * (2 * k + naf_digit (naf ! i))) (absI b)"
    using Suc.prems(3) by (intro Suc.IH) simp_all
  moreover have "naf_val (take (Suc i) naf) = naf_val (take i naf) + 2 ^ i * naf_digit (naf ! i)"
    using Suc.prems(3) by (simp add: take_Suc_conv_app_nth naf_val_append)
  ultimately show ?case by (simp add: r'_def Let_def algebra_simps)
qed simp

lemma naf_skip_value: "i \<le> length naf \<Longrightarrow> naf_skip naf i \<le> i \<and> naf_val (take (naf_skip naf i) naf) = naf_val (take i naf)"
proof (induction i)
  case (Suc i)
  then show ?case by (auto simp: take_Suc_conv_app_nth naf_val_append naf_digit_def)
qed simp

theorem nafMulByScalar_value:
  assumes "okI b" "on (absI b)" and N: "length s = N" "0 < N" "N < 268435456"
  shows "okO (nafMulByScalar K b s N) \<and> absO (nafMulByScalar K b s N) = nmul (bval s) (absI b)"
proof -
  have "N < 4294967294" using N(3) by simp
  then obtain ds where ds: "buildNaf s N = ds @ replicate 14 0" "length ds = 8 * N + 2" "naf_val ds = int (bval s)"
    using buildNaf_correct [OF N(1,2)] by metis
  define naf where "naf = take (8 * (N + 2)) (buildNaf s N)"
  have le: "8 * N + 2 \<le> length naf" and take: "take (8 * N + 2) naf = ds" using ds by (simp_all add: naf_def)
  note S = naf_skip_value [OF le]
  have "okO (naf_loop K b naf (naf_skip naf (8 * N + 2)) (g_copy K (g_zero K)))
    \<and> absO (naf_loop K b naf (naf_skip naf (8 * N + 2)) (g_copy K (g_zero K)))
      = imul (naf_val (take (naf_skip naf (8 * N + 2)) naf) + 2 ^ naf_skip naf (8 * N + 2) * 0) (absI b)"
    using S le by (intro naf_loop_value [OF assms(1,2)] zero_ok) (simp_all add: zero_ok)
  then show ?thesis using S take ds(3) copyIn [OF assms(1)]
    by (simp only: nafMulByScalar_def naf_sizes [OF N(3)] naf_room [OF N(3)] naf_def [symmetric] Let_def nat_int) simp
qed

end

subsection \<open>The curve\<close>

definition ec_mul :: "'k :: field \<Rightarrow> nat \<Rightarrow> 'k ec \<Rightarrow> 'k ec" where
  "ec_mul a = multiple (ec_add a) Inf"

sublocale smooth_curve \<subseteq> abelian "ec_on a b" "ec_add a" ec_neg Inf
  using ec_add_closed [OF two] ec_add_assoc ec_add_commute ec_add_neg [OF two]
  by unfold_locales (auto simp: ec_add_commute)

definition Curve_point_ops :: "'e curve \<Rightarrow> ('e point, 'e point) group_ops" where
  "Curve_point_ops C = \<lparr>g_copyIn = Curve_copyPP C, g_copy = Curve_copyPP C, g_zero = c_fzero C,
     g_dbl = Curve_dblP C, g_add = Curve_addPP C, g_sub = Curve_subPP C\<rparr>"

definition Curve_affine_ops :: "'e curve \<Rightarrow> ('e point, 'e affine) group_ops" where
  "Curve_affine_ops C = \<lparr>g_copyIn = Curve_copyAA C, g_copy = Curve_copyPP C, g_zero = c_fzero C,
     g_dbl = Curve_dblP C, g_add = Curve_addPA C, g_sub = Curve_subPA C\<rparr>"

definition Curve_mulByScalarP :: "'e curve \<Rightarrow> 'e point \<Rightarrow> u8 list \<Rightarrow> nat \<Rightarrow> 'e point" where
  "Curve_mulByScalarP C = nafMulByScalar (Curve_point_ops C)"

definition Curve_mulByScalarA :: "'e curve \<Rightarrow> 'e affine \<Rightarrow> u8 list \<Rightarrow> nat \<Rightarrow> 'e point" where
  "Curve_mulByScalarA C = nafMulByScalar (Curve_affine_ops C)"

locale curve_group = curve_params F ok val aa ab agx agy
  for F :: "'e field_ops" and ok :: "'e \<Rightarrow> bool" and val :: "'e \<Rightarrow> 'k :: field" and aa ab agx agy +
  assumes smooth_ab: "ec_on (val aa) (val ab) (Aff x 0) \<Longrightarrow> 3 * (x * x) + val aa \<noteq> 0"

sublocale curve_group \<subseteq> grp: smooth_curve "val aa" "val ab"
  using two_neq_0 smooth_ab by unfold_locales

sublocale curve_group \<subseteq> mulP: scalar_group "ec_on (val aa) (val ab)" "ec_add (val aa)" ec_neg Inf
    "Curve_point_ops C" pok pval pok pval
proof unfold_locales
  show "pok (g_copy (Curve_point_ops C) (g_zero (Curve_point_ops C)))"
    "pval (g_copy (Curve_point_ops C) (g_zero (Curve_point_ops C))) = Inf"
    by (simp_all add: Curve_point_ops_def Curve_copyPP_def Curve_initCurve_def Let_def point_ok_def point_val_def ok_a field_code)
qed (simp_all add: Curve_point_ops_def copyPP_id dblP_value ec_add_same addPP_value subPP_value)

sublocale curve_group \<subseteq> mulA: scalar_group "ec_on (val aa) (val ab)" "ec_add (val aa)" ec_neg Inf
    "Curve_affine_ops C" pok pval aok aval
proof unfold_locales
  show "pok (g_copy (Curve_affine_ops C) (g_zero (Curve_affine_ops C)))"
    "pval (g_copy (Curve_affine_ops C) (g_zero (Curve_affine_ops C))) = Inf"
    using mulP.zero_ok by (simp_all add: Curve_point_ops_def Curve_affine_ops_def)
qed (simp_all add: Curve_affine_ops_def copyAA_id dblP_value ec_add_same addPA_value subPA_value)

context curve_group begin

theorem mulByScalarP_value:
  assumes "pok p" and "ec_on (val aa) (val ab) (pval p)" and "length s = N" "0 < N" "N < 268435456"
  shows "pok (Curve_mulByScalarP C p s N) \<and> pval (Curve_mulByScalarP C p s N) = ec_mul (val aa) (bval s) (pval p)"
  using mulP.nafMulByScalar_value [OF assms] by (simp add: Curve_mulByScalarP_def ec_mul_def)

theorem mulByScalarA_value:
  assumes "aok p" and "ec_on (val aa) (val ab) (aval p)" and "length s = N" "0 < N" "N < 268435456"
  shows "pok (Curve_mulByScalarA C p s N) \<and> pval (Curve_mulByScalarA C p s N) = ec_mul (val aa) (bval s) (aval p)"
  using mulA.nafMulByScalar_value [OF assms] by (simp add: Curve_mulByScalarA_def ec_mul_def)

theorem code_group_laws:
  assumes "pok p" "pok q" "pok r"
    and "ec_on (val aa) (val ab) (pval p)" "ec_on (val aa) (val ab) (pval q)" "ec_on (val aa) (val ab) (pval r)"
  shows "pval (Curve_addPP C (Curve_addPP C p q) r) = pval (Curve_addPP C p (Curve_addPP C q r))
    \<and> pval (Curve_addPP C p q) = pval (Curve_addPP C q p)
    \<and> pval (Curve_addPP C p (c_fzero C)) = pval p
    \<and> Curve_isZeroP C (Curve_addPP C p (Curve_negPP C p))
    \<and> pval (Curve_dblP C p) = pval (Curve_addPP C p p)
    \<and> ec_on (val aa) (val ab) (pval (Curve_addPP C p q))"
proof -
  have z: "pok (c_fzero C)" "pval (c_fzero C) = Inf"
    by (simp_all add: Curve_initCurve_def Let_def point_ok_def point_val_def field_code)
  have n: "pok (Curve_negPP C p)" "pval (Curve_negPP C p) = ec_neg (pval p)" using negPP_value [OF assms(1)] by simp_all
  show ?thesis
    using assms n z addPP_value [OF assms(1,2)] addPP_value [OF assms(2,3)] addPP_value [OF assms(2,1)]
      addPP_value [OF assms(1) z(1)] addPP_value [OF assms(1) n(1)] addPP_value [OF assms(1,1)]
      addPP_value [of "Curve_addPP C p q" r] addPP_value [of p "Curve_addPP C q r"] dblP_value [OF assms(1)]
      isZeroP_value [of "Curve_addPP C p (Curve_negPP C p)"] grp.ec_add_assoc [OF assms(4-6)]
    by (simp add: ec_add_commute ec_add_neg [OF two_neq_0] ec_add_same ec_add_closed [OF two_neq_0])
qed

end

end
