(* ===== verification/Bn254_Groups.thy ===== *)
theory Bn254_Groups
  imports Bn254_Curves Scalar_Mul
begin

section \<open>The groups of BN254\<close>

text \<open>
  The two curves of the engine are smooth, so their points are groups and the interfaces of
  \<open>Scalar_Mul\<close> hold for \<open>G1\<close> and \<open>G2\<close>.
\<close>

lemma smooth_a0:
  fixes b :: "'k :: field"
  assumes "(3 :: 'k) \<noteq> 0" and "b \<noteq> 0" and "ec_on 0 b (Aff x 0)"
  shows "3 * (x * x) + 0 \<noteq> 0"
proof
  assume "3 * (x * x) + 0 = 0"
  then have "x = 0" using assms(1) by simp
  then show False using assms(2,3) by simp
qed

lemma fq2_three_neq_0: "(3 :: fq2) \<noteq> 0"
proof
  assume "(3 :: fq2) = 0"
  then have "re2 (1 + 1 + 1 :: fq2) = 0" by simp
  then show False using fq_three_neq_0 by (simp only: fq2_sel) simp
qed

lemma G2_b_neq_0: "G2_b \<noteq> 0"
proof
  assume "G2_b = 0"
  then have "Fq2 3 0 = 0" using G2_b_twist by simp
  then show False using fq_three_neq_0 by (simp add: fq2_eq_iff)
qed

context gmp_laws begin

lemma g2_b: "fq2_val (the (F2_read G G2_b_string)) = G2_b"
  unfolding b2_read(3) by simp

end

sublocale gmp_laws \<subseteq> g1: curve_group "RawFq_ops G" fq_ok fq_val "RawFq_fromString G ''0'' 10"
    "RawFq_fromString G ''3'' 10" "RawFq_fromString G ''1'' 10" "RawFq_fromString G ''2'' 10"
proof unfold_locales
  show "3 * (x * x) + fq_val (RawFq_fromString G ''0'' 10) \<noteq> 0"
    if "ec_on (fq_val (RawFq_fromString G ''0'' 10)) (fq_val (RawFq_fromString G ''3'' 10)) (Aff x 0)" for x
    using smooth_a0 [OF fq_three_neq_0 fq_three_neq_0] that unfolding G1_strings(2,4) .
qed

sublocale gmp_laws \<subseteq> g2: curve_group "F2_ops (F2q G)" fq2_ok fq2_val "the (F2_read G ''0,0'')"
    "the (F2_read G G2_b_string)" "the (F2_read G G2_x_string)" "the (F2_read G G2_y_string)"
proof unfold_locales
  show "3 * (x * x) + fq2_val (the (F2_read G ''0,0'')) \<noteq> 0"
    if "ec_on (fq2_val (the (F2_read G ''0,0''))) (fq2_val (the (F2_read G G2_b_string))) (Aff x 0)" for x
    using smooth_a0 [OF fq2_three_neq_0 G2_b_neq_0] that unfolding g2_a g2_b .
qed

context gmp_laws begin

lemmas g1_group = g1.curve_group_axioms
lemmas g2_group = g2.curve_group_axioms

end

lemma gmp_g1_group:
  assumes "gmp_laws G" and "G1 G = Some C"
  obtains aa ab agx agy where "curve_group (RawFq_ops G) fq_ok fq_val aa ab agx agy"
    and "C = Curve_initCurve (RawFq_ops G) aa ab agx agy" and "fq_val aa = 0" and "fq_val ab = 3"
proof -
  have "C = Curve_initCurve (RawFq_ops G) (RawFq_fromString G ''0'' 10) (RawFq_fromString G ''3'' 10)
      (RawFq_fromString G ''1'' 10) (RawFq_fromString G ''2'' 10)"
    using gmp_laws.G1_eq [OF assms(1)] assms(2) by (simp only: option.inject)
  from that [OF gmp_laws.g1_group [OF assms(1)] this gmp_laws.G1_strings(2,4) [OF assms(1)]] show ?thesis .
qed

lemma gmp_g2_group:
  assumes "gmp_laws G" and "G2 G = Some C"
  obtains aa ab agx agy where "curve_group (F2_ops (F2q G)) fq2_ok fq2_val aa ab agx agy"
    and "C = Curve_initCurve (F2_ops (F2q G)) aa ab agx agy" and "fq2_val aa = 0" and "fq2_val ab = G2_b"
proof -
  from gmp_laws.G2_eq [OF assms(1)] assms(2) have "C = Curve_initCurve (F2_ops (F2q G))
    (the (F2_read G ''0,0'')) (the (F2_read G G2_b_string)) (the (F2_read G G2_x_string)) (the (F2_read G G2_y_string))"
    by (simp only: option.inject)
  from that [OF gmp_laws.g2_group [OF assms(1)] this gmp_laws.g2_a [OF assms(1)] gmp_laws.g2_b [OF assms(1)]]
  show ?thesis .
qed

subsection \<open>Properties\<close>

text \<open>
  For a scalar of \<open>2 ^ 28\<close> bytes or more (below \<open>2 ^ 29\<close>) the number of bits overflows the \<open>int\<close> of
  \<open>nafMulByScalar\<close>, and the result is the neutral element whatever the scalar and the base.
\<close>

theorem mulByScalar_overflow:
  assumes "268435456 \<le> N" and "N < 536870912"
  shows "Curve_mulByScalarP C p s N = Curve_copyPP C (c_fzero C)
    \<and> Curve_mulByScalarA C a s N = Curve_copyPP C (c_fzero C)"
  using assms by (simp add: Curve_mulByScalarP_def Curve_mulByScalarA_def nafMulByScalar_long
      Curve_point_ops_def Curve_affine_ops_def)

text \<open>
  C23. The points of \<open>G1\<close> form a group under the code's operations: addition of points of the curve is
  associative and commutative, \<open>zero()\<close> is neutral, \<open>neg\<close> inverts and \<open>dbl\<close> adds a point to itself,
  all in terms of the points represented.
\<close>

theorem G1_group:
  assumes "gmp_laws G" and "G1 G = Some C"
    and "point_ok fq_ok fq_val p" "point_ok fq_ok fq_val q" "point_ok fq_ok fq_val r"
    and "ec_on 0 3 (point_val fq_val p)" "ec_on 0 3 (point_val fq_val q)" "ec_on 0 3 (point_val fq_val r)"
  shows "point_val fq_val (Curve_addPP C (Curve_addPP C p q) r) = point_val fq_val (Curve_addPP C p (Curve_addPP C q r))
    \<and> point_val fq_val (Curve_addPP C p q) = point_val fq_val (Curve_addPP C q p)
    \<and> point_val fq_val (Curve_addPP C p (c_fzero C)) = point_val fq_val p
    \<and> Curve_isZeroP C (Curve_addPP C p (Curve_negPP C p))
    \<and> point_val fq_val (Curve_dblP C p) = point_val fq_val (Curve_addPP C p p)
    \<and> ec_on 0 3 (point_val fq_val (Curve_addPP C p q))"
proof -
  obtain aa ab agx agy where L: "curve_group (RawFq_ops G) fq_ok fq_val aa ab agx agy"
    and C: "C = Curve_initCurve (RawFq_ops G) aa ab agx agy" and a: "fq_val aa = 0" "fq_val ab = 3"
    using gmp_g1_group [OF assms(1,2)] .
  show ?thesis unfolding C
    using curve_group.code_group_laws [OF L assms(3-5)] assms(6-8) unfolding a by blast
qed

theorem G1_group_witness:
  "Curve_isZeroP (the (G1 ref_gmp)) (Curve_addPP (the (G1 ref_gmp)) (c_fone (the (G1 ref_gmp)))
    (Curve_negPP (the (G1 ref_gmp)) (c_fone (the (G1 ref_gmp)))))"
proof -
  have on: "ec_on 0 3 (point_val fq_val (c_fone ref.g1.C))" unfolding ref.g1_generator(2) by simp
  show ?thesis
    using G1_group [OF ref_gmp_laws ref_G1 ref.g1_generator(1,1,1) on on on] unfolding ref_G1 option.sel by blast
qed

text \<open>
  C9. \<open>mulByScalar\<close>, by the non-adjacent form of the scalar, is the multiple of the base by the number
  in the byte array, on both curves and for a base in either representation: for every scalar of at
  least one byte and less than \<open>2 ^ 28\<close>, zero, large and unreduced ones included, and for a neutral base.
\<close>

theorem mulByScalar_is_multiple:
  assumes "gmp_laws G" and "G1 G = Some C1" and "G2 G = Some C2"
    and "length s = N" and "0 < N" and "N < 268435456"
    and "point_ok fq_ok fq_val p" and "ec_on 0 3 (point_val fq_val p)"
    and "aff_ok fq_ok a" and "ec_on 0 3 (aff_val fq_val a)"
    and "point_ok fq2_ok fq2_val p2" and "ec_on 0 G2_b (point_val fq2_val p2)"
    and "aff_ok fq2_ok a2" and "ec_on 0 G2_b (aff_val fq2_val a2)"
  shows "point_val fq_val (Curve_mulByScalarP C1 p s N) = ec_mul 0 (bval s) (point_val fq_val p)
    \<and> point_val fq_val (Curve_mulByScalarA C1 a s N) = ec_mul 0 (bval s) (aff_val fq_val a)
    \<and> point_val fq2_val (Curve_mulByScalarP C2 p2 s N) = ec_mul 0 (bval s) (point_val fq2_val p2)
    \<and> point_val fq2_val (Curve_mulByScalarA C2 a2 s N) = ec_mul 0 (bval s) (aff_val fq2_val a2)"
proof -
  obtain aa ab agx agy where L: "curve_group (RawFq_ops G) fq_ok fq_val aa ab agx agy"
    and C: "C1 = Curve_initCurve (RawFq_ops G) aa ab agx agy" and a: "fq_val aa = 0" "fq_val ab = 3"
    using gmp_g1_group [OF assms(1,2)] .
  obtain ba bb bgx bgy where L2: "curve_group (F2_ops (F2q G)) fq2_ok fq2_val ba bb bgx bgy"
    and C2: "C2 = Curve_initCurve (F2_ops (F2q G)) ba bb bgx bgy" and b: "fq2_val ba = 0" "fq2_val bb = G2_b"
    using gmp_g2_group [OF assms(1,3)] .
  note P = curve_group.mulByScalarP_value [OF L assms(7) _ assms(4-6), unfolded a, OF assms(8)]
    curve_group.mulByScalarA_value [OF L assms(9) _ assms(4-6), unfolded a, OF assms(10)]
    curve_group.mulByScalarP_value [OF L2 assms(11) _ assms(4-6), unfolded b, OF assms(12)]
    curve_group.mulByScalarA_value [OF L2 assms(13) _ assms(4-6), unfolded b, OF assms(14)]
  show ?thesis unfolding C C2 using P by blast
qed

theorem mulByScalar_is_multiple_witness:
  "point_val fq_val (Curve_mulByScalarP (the (G1 ref_gmp)) (c_fone (the (G1 ref_gmp))) [5, 1] 2) = ec_mul 0 261 (Aff 1 2)"
proof -
  have on: "ec_on 0 3 (point_val fq_val (c_fone ref.g1.C))" "ec_on 0 3 (aff_val fq_val (c_foneAffine ref.g1.C))"
    unfolding ref.g1_generator(2,4) by simp_all
  have z: "aff_ok fq2_ok (c_foneAffine ref.g2.C)" "point_ok fq2_ok fq2_val (c_fone ref.g2.C)"
    "ec_on 0 G2_b (point_val fq2_val (c_fone ref.g2.C))"
    using ref.g2_generator G2_on_curve by simp_all
  have za: "aff_ok fq2_ok (c_fzeroAffine ref.g2.C)" "ec_on 0 G2_b (aff_val fq2_val (c_fzeroAffine ref.g2.C))"
    by (simp_all add: Curve_initCurve_def Let_def aff_ok_def aff_val_def field_code)
  have "length [5, 1 :: u8] = 2" "bval [5, 1 :: u8] = 261" by simp_all
  then show ?thesis
    using mulByScalar_is_multiple [OF ref_gmp_laws ref_G1 ref_G2, of "[5, 1]" 2, OF _ _ _ ref.g1_generator(1) on(1)
      ref.g1_generator(3) on(2) z(2,3) za]
    unfolding ref_G1 option.sel ref.g1_generator(2) by simp
qed

end
