(* ===== verification/Misc.thy ===== *)
theory Misc
  imports Prelude
begin

section \<open>Integer logarithm\<close>

text \<open>
  \<open>aptos::log2\<close> of \<open>misc.hpp\<close>: all bits below the leading one are set, and a multiplication maps the 32
  values that can arise to different top five bits, which index a table. For 0 it gives \<open>tab32[0]\<close>.
\<close>

definition tab32 :: "nat list" where
  "tab32 =
    [0, 9, 1, 10, 13, 21, 2, 29, 11, 14, 16, 18, 22, 25, 3, 30,
     8, 12, 20, 28, 15, 17, 24, 7, 19, 27, 23, 6, 26, 5, 4, 31]"

definition log2 :: "u32 \<Rightarrow> nat" where
  "log2 v =
     (let v = v OR drop_bit 1 v;
          v = v OR drop_bit 2 v;
          v = v OR drop_bit 4 v;
          v = v OR drop_bit 8 v;
          v = v OR drop_bit 16 v
      in tab32 ! unat (drop_bit 27 (v * 0x07C4ACDD)))"

text \<open>After the five steps bit \<open>i\<close> is set when a bit at \<open>i\<close> or above was.\<close>

definition reaches :: "u32 \<Rightarrow> nat \<Rightarrow> nat \<Rightarrow> bool" where
  "reaches v m i \<longleftrightarrow> (\<exists>d<m. bit v (i + d))"

lemma reaches_double:
  assumes "\<And>i. bit w i \<longleftrightarrow> reaches v m i"
  shows "bit (w OR drop_bit m w) i \<longleftrightarrow> reaches v (2 * m) i"
proof -
  have "(\<exists>d<m. bit v (i + d)) \<or> (\<exists>d<m. bit v (i + m + d)) \<longleftrightarrow> (\<exists>d<2 * m. bit v (i + d))" (is "?l \<longleftrightarrow> ?r")
  proof
    assume ?r
    then obtain d where d: "d < 2 * m" "bit v (i + d)" by blast
    show ?l
    proof (cases "d < m")
      case False
      then have "bit v (i + m + (d - m))" "d - m < m" using d by simp_all
      then show ?thesis by blast
    qed (use d in blast)
  next
    assume ?l
    then show ?r
    proof
      assume "\<exists>d<m. bit v (i + m + d)"
      then obtain d where "d < m" "bit v (i + (m + d))" by (auto simp: add.assoc)
      then show ?r by (intro exI [of _ "m + d"]) simp
    next
      assume "\<exists>d<m. bit v (i + d)"
      then obtain d where "d < m" "bit v (i + d)" by blast
      then show ?r by (intro exI [of _ d]) simp
    qed
  qed
  then show ?thesis using assms by (simp add: bit_or_iff bit_drop_bit_eq reaches_def add.commute)
qed

lemma smeared:
  assumes "2 ^ k \<le> unat v" and "unat v < 2 ^ Suc k"
    and w: "\<And>i. bit w i \<longleftrightarrow> reaches v 32 i"
  shows "w = (mask (Suc k) :: u32)"
proof -
  have top: "bit v k" and above: "\<not> bit v i" if "k < i" for i
  proof -
    have "unat v div 2 ^ k = 1"
      using assms(1,2) by (intro div_nat_eqI) simp_all
    then have "bit (unat v) k" by (simp add: bit_iff_odd)
    then show "bit v k" by (simp add: bit_unsigned_iff)
    have "unat v < 2 ^ i" using assms(2) that by (meson less_le_trans one_le_numeral power_increasing Suc_leI)
    then have "\<not> bit (unat v) i" by (simp add: bit_iff_odd)
    then show "\<not> bit v i" by (simp add: bit_unsigned_iff)
  qed
  have "k < 32"
  proof (rule ccontr)
    assume "\<not> k < 32"
    then have "(2 :: nat) ^ 32 \<le> 2 ^ k" by (intro power_increasing) simp_all
    then show False using assms(1) unsigned_less [of v, where 'a = nat] by simp
  qed
  show ?thesis
  proof (rule bit_word_eqI)
    fix i assume i: "i < LENGTH(32)"
    have "reaches v 32 i \<longleftrightarrow> i \<le> k"
    proof
      assume "reaches v 32 i"
      then obtain d where "bit v (i + d)" by (auto simp: reaches_def)
      then show "i \<le> k" using above [of "i + d"] by linarith
    next
      assume "i \<le> k"
      then show "reaches v 32 i" unfolding reaches_def
        using top [OF lessI] \<open>k < 32\<close> by (intro exI [of _ "k - i"]) simp
    qed
    then show "bit w i = bit (mask (Suc k) :: u32) i" using w i by (simp add: bit_mask_iff less_Suc_eq_le)
  qed
qed

definition masks :: "u32 list" where
  "masks = [1, 3, 7, 15, 31, 63, 127, 255, 511, 1023, 2047, 4095, 8191, 16383, 32767, 65535, 131071, 262143, 524287, 1048575, 2097151, 4194303, 8388607, 16777215, 33554431, 67108863, 134217727, 268435455, 536870911, 1073741823, 2147483647, 4294967295]"

lemma upt_32: "[0..<32] = [0, Suc 0, 2, 3, 4, 5, 6, 7, 8, 9, 10, 11, 12, 13, 14, 15, 16, 17, 18, 19, 20, 21, 22, 23, 24, 25, 26, 27, 28, 29, 30, 31]"
  by (simp add: upt_conv_Cons)

lemma masks_nth: "k < 32 \<Longrightarrow> masks ! k = mask (Suc k)"
proof -
  have "list_all2 (=) masks (map (\<lambda>k. word_of_nat (2 ^ Suc k - 1)) [0..<32])"
    unfolding masks_def upt_32 by simp
  then show "k < 32 \<Longrightarrow> masks ! k = mask (Suc k)"
    by (simp add: list_all2_conv_all_nth mask_eq_exp_minus_1)
qed

lemma tab32_masks: "map (\<lambda>w. tab32 ! (unat (w * 0x07C4ACDD) div 134217728)) masks = [0..<32]"
  unfolding upt_32 by (simp add: masks_def tab32_def)

lemma tab32_mask:
  assumes "k < 32"
  shows "tab32 ! unat (drop_bit 27 ((mask (Suc k) :: u32) * 0x07C4ACDD)) = k"
proof -
  have "length masks = 32" by (simp add: masks_def)
  then have "tab32 ! (unat (masks ! k * 0x07C4ACDD) div 134217728) = k"
    using arg_cong [OF tab32_masks, of "\<lambda>xs. xs ! k"] assms by simp
  moreover have "unat (drop_bit 27 w) = unat w div 134217728" for w :: u32
    unfolding drop_bit_eq_div unat_div by simp
  ultimately show ?thesis using masks_nth [OF assms] by simp
qed

theorem log2_floor:
  assumes "2 ^ k \<le> unat v" and "unat v < 2 ^ Suc k"
  shows "log2 v = k"
proof -
  have k: "k < 32"
  proof (rule ccontr)
    assume "\<not> k < 32"
    then have "(2 :: nat) ^ 32 \<le> 2 ^ k" by (intro power_increasing) simp_all
    then show False using assms(1) unsigned_less [of v, where 'a = nat] by simp
  qed
  define w1 where "w1 = v OR drop_bit 1 v"
  define w2 where "w2 = w1 OR drop_bit 2 w1"
  define w4 where "w4 = w2 OR drop_bit 4 w2"
  define w8 where "w8 = w4 OR drop_bit 8 w4"
  define w16 where "w16 = w8 OR drop_bit 16 w8"
  have r0: "bit v i \<longleftrightarrow> reaches v 1 i" for i by (simp add: reaches_def)
  have r1: "bit w1 i \<longleftrightarrow> reaches v 2 i" for i using reaches_double [OF r0] by (simp add: w1_def)
  have r2: "bit w2 i \<longleftrightarrow> reaches v 4 i" for i using reaches_double [OF r1] by (simp add: w2_def)
  have r4: "bit w4 i \<longleftrightarrow> reaches v 8 i" for i using reaches_double [OF r2] by (simp add: w4_def)
  have r8: "bit w8 i \<longleftrightarrow> reaches v 16 i" for i using reaches_double [OF r4] by (simp add: w8_def)
  have r16: "bit w16 i \<longleftrightarrow> reaches v 32 i" for i using reaches_double [OF r8] by (simp add: w16_def)
  have "w16 = mask (Suc k)" by (rule smeared [OF assms r16])
  then show ?thesis using tab32_mask [OF k]
    by (simp add: log2_def Let_def w1_def w2_def w4_def w8_def w16_def)
qed

end
