(* ===== verification/Tbb.thy ===== *)
theory Tbb
  imports Prelude "HOL-Library.Multiset"
begin

section \<open>Parallel loops\<close>

text \<open>
  Intel TBB is not part of the repository. \<open>parallel_for\<close> gives, for a call site and a range, the
  iterations with the threads that run them in an order of their effects; the documented behaviour is
  that every index is run once, by a thread below \<open>max_concurrency\<close> (\<open>tbb_laws\<close>). The iterations of one
  thread are sequential and the bodies of different threads (or, where the body does not use the
  thread, of different indices) write different cells, so one order stands for all interleavings.
  A loop over a blocked range is the same loop with the blocks in any order.
\<close>

record tbb =
  max_concurrency :: nat
  parallel_for :: "nat list \<Rightarrow> nat \<Rightarrow> nat \<Rightarrow> (nat \<times> nat) list"

locale tbb_laws =
  fixes T :: tbb
  assumes each_once: "mset (map fst (parallel_for T c b e)) = mset [b..<e]"
    and thread_bound: "x \<in> set (parallel_for T c b e) \<Longrightarrow> snd x < max_concurrency T"
    and some_thread: "0 < max_concurrency T"
begin

lemma indices_distinct: "distinct (map fst (parallel_for T c b e))"
  using each_once [of c b e] by (metis distinct_upt mset_eq_imp_distinct_iff)

lemma indices_set: "fst ` set (parallel_for T c b e) = {b..<e}"
  using mset_eq_setD [OF each_once [of c b e]] by simp

end

text \<open>The loop of a body that does not use the thread.\<close>

definition par_for :: "tbb \<Rightarrow> nat list \<Rightarrow> nat \<Rightarrow> nat \<Rightarrow> (nat \<Rightarrow> 'a list \<Rightarrow> 'a list) \<Rightarrow> 'a list \<Rightarrow> 'a list" where
  "par_for T c b e body as = foldl (\<lambda>as it. body (fst it) as) as (parallel_for T c b e)"

text \<open>
  A schedule where every thread takes its indices modulo the number of threads, in descending order,
  satisfies the laws.
\<close>

definition round_robin :: "nat \<Rightarrow> tbb" where
  "round_robin n = \<lparr>max_concurrency = Suc n, parallel_for = \<lambda>_ b e. map (\<lambda>i. (i, i mod Suc n)) (rev [b..<e])\<rparr>"

lemma round_robin_laws: "tbb_laws (round_robin n)"
  by unfold_locales (auto simp: round_robin_def comp_def)

interpretation robin: tbb_laws "round_robin n" for n
  by (rule round_robin_laws)


subsection \<open>The result does not depend on the schedule\<close>

text \<open>
  A body that writes only the cells its index owns, as a function of those cells, gives every owned
  cell the value that the body of its owner computes from the array before the loop.
\<close>

locale independent_body =
  fixes body :: "nat \<Rightarrow> 'a list \<Rightarrow> 'a list" and owned :: "nat \<Rightarrow> nat set" and n :: nat and I :: "nat set"
  assumes body_length: "length as = n \<Longrightarrow> i \<in> I \<Longrightarrow> length (body i as) = n"
    and body_outside: "length as = n \<Longrightarrow> i \<in> I \<Longrightarrow> p < n \<Longrightarrow> p \<notin> owned i \<Longrightarrow> body i as ! p = as ! p"
    and body_local: "length as = n \<Longrightarrow> length bs = n \<Longrightarrow> i \<in> I \<Longrightarrow> p < n \<Longrightarrow> p \<in> owned i \<Longrightarrow>
      (\<And>k. k < n \<Longrightarrow> k \<in> owned i \<Longrightarrow> as ! k = bs ! k) \<Longrightarrow> body i as ! p = body i bs ! p"
    and disjoint: "i \<in> I \<Longrightarrow> j \<in> I \<Longrightarrow> i \<noteq> j \<Longrightarrow> owned i \<inter> owned j = {}"
begin

lemma fold_bodies:
  assumes "length as = n" and "distinct js" and "set js \<subseteq> I"
  shows "length (foldl (\<lambda>as i. body i as) as js) = n
    \<and> (\<forall>i\<in>set js. \<forall>p<n. p \<in> owned i \<longrightarrow> foldl (\<lambda>as i. body i as) as js ! p = body i as ! p)
    \<and> (\<forall>p<n. (\<forall>i\<in>set js. p \<notin> owned i) \<longrightarrow> foldl (\<lambda>as i. body i as) as js ! p = as ! p)"
  using assms(2,3)
proof (induction js rule: rev_induct)
  case (snoc j js)
  let ?f = "foldl (\<lambda>as i. body i as) as js"
  have IH: "length ?f = n" "\<And>i p. i \<in> set js \<Longrightarrow> p < n \<Longrightarrow> p \<in> owned i \<Longrightarrow> ?f ! p = body i as ! p"
    "\<And>p. p < n \<Longrightarrow> (\<And>i. i \<in> set js \<Longrightarrow> p \<notin> owned i) \<Longrightarrow> ?f ! p = as ! p"
    using snoc by auto
  have j: "j \<in> I" "j \<notin> set js" and I: "set js \<subseteq> I" using snoc by simp_all
  have own: "?f ! k = as ! k" if "k < n" "k \<in> owned j" for k
  proof (rule IH(3) [OF that(1)])
    show "k \<notin> owned i" if "i \<in> set js" for i
      using disjoint [of i j] that j I \<open>k \<in> owned j\<close> by auto
  qed
  have "body j ?f ! p = body j as ! p" if "p < n" "p \<in> owned j" for p
    using body_local [OF IH(1) assms(1) j(1) that own] .
  moreover have "body j ?f ! p = body i as ! p" if "i \<in> set js" "p < n" "p \<in> owned i" for i p
  proof -
    have "p \<notin> owned j" using disjoint [of i j] that j I by auto
    then show ?thesis using body_outside [OF IH(1) j(1) that(2)] IH(2) [OF that] by simp
  qed
  ultimately show ?case using body_length [OF IH(1) j(1)] body_outside [OF IH(1) j(1)] IH(3) by auto
qed (simp add: assms(1))

lemma parallel:
  assumes "tbb_laws T" and "length as = n" and "I = {b..<e}"
  shows "length (par_for T c b e body as) = n"
    and "i \<in> I \<Longrightarrow> p < n \<Longrightarrow> p \<in> owned i \<Longrightarrow> par_for T c b e body as ! p = body i as ! p"
    and "p < n \<Longrightarrow> (\<And>i. i \<in> I \<Longrightarrow> p \<notin> owned i) \<Longrightarrow> par_for T c b e body as ! p = as ! p"
proof -
  let ?js = "map fst (parallel_for T c b e)"
  have "par_for T c b e body as = foldl (\<lambda>as i. body i as) as ?js"
    by (simp add: par_for_def foldl_map)
  moreover have "distinct ?js" "set ?js = I"
    using tbb_laws.indices_distinct [OF assms(1)] tbb_laws.indices_set [OF assms(1)] assms(3) by simp_all
  ultimately show "length (par_for T c b e body as) = n"
    and "i \<in> I \<Longrightarrow> p < n \<Longrightarrow> p \<in> owned i \<Longrightarrow> par_for T c b e body as ! p = body i as ! p"
    and "p < n \<Longrightarrow> (\<And>i. i \<in> I \<Longrightarrow> p \<notin> owned i) \<Longrightarrow> par_for T c b e body as ! p = as ! p"
    using fold_bodies [OF assms(2), of ?js] by simp_all
qed

end

text \<open>Bodies that write one cell, their own.\<close>

definition set_cell :: "(nat \<Rightarrow> 'a \<Rightarrow> 'a) \<Rightarrow> nat \<Rightarrow> 'a list \<Rightarrow> 'a list" where
  "set_cell f i as = as[i := f i (as ! i)]"

interpretation cell_loop: independent_body "set_cell f" "\<lambda>i. {i}" n "{b..<e}" for f n b e
  by unfold_locales (auto simp: set_cell_def nth_list_update)

lemma par_cells:
  assumes "tbb_laws T" and "length as = n" and "\<And>i as. body i as = as[i := f i (as ! i)]"
  shows "length (par_for T c b e body as) = n"
    and "p < n \<Longrightarrow> par_for T c b e body as ! p = (if b \<le> p \<and> p < e then f p (as ! p) else as ! p)"
proof -
  have "body = set_cell f" using assms(3) by (intro ext) (simp add: set_cell_def)
  then show "length (par_for T c b e body as) = n"
    "p < n \<Longrightarrow> par_for T c b e body as ! p = (if b \<le> p \<and> p < e then f p (as ! p) else as ! p)"
    using cell_loop.parallel [OF assms(1,2) refl, where b = b and e = e and f = f and c = c] assms(2)
    by (auto simp: set_cell_def)
qed

end
