(* ===== verification/Multiexp.thy ===== *)
theory Multiexp
  imports Scalar_Mul Misc Tbb
begin

section \<open>Multi-exponentiation\<close>

text \<open>
  \<open>ParallelMultiexp\<close> of \<open>multiexp.hpp\<close> and \<open>multiexp.cpp\<close>: the sum of many multiples by the bucket
  method. The scalars are cut into chunks of a few bits; for each chunk every base is added to the
  bucket of its digit, in the buckets of the thread that runs the iteration, then the buckets of all
  threads are added to those of the first and a recursive halving turns the buckets into the weighted
  sum; the results of the chunks are combined from the top.
\<close>

text \<open>Freshly allocated points have arbitrary contents; \<open>memset(p, 0, ...)\<close> gives zero bytes.\<close>

record 'e memory =
  mem_new :: "nat \<Rightarrow> 'e point list"
  mem_zero :: 'e

record 'e multiexp =
  bases :: "'e affine list"
  scalars :: "u8 list"
  scalarSize :: nat
  n_bases :: nat
  nThreads :: nat
  bitsPerChunk :: nat
  accsPerChunk :: nat

text \<open>
  The loop variable of \<open>initAccs\<close> is an \<open>int\<close> and its bounds are \<open>uint64_t\<close>: a block that starts at an index of
  \<open>2 ^ 31\<close> or more starts with a negative number, which the comparison with the unsigned end converts to
  a large one, so nothing of it is written. (A block that reaches over \<open>2 ^ 31\<close> overflows the variable,
  which is undefined; here its part below is written.)
\<close>

definition initAccs :: "'e curve \<Rightarrow> 'e multiexp \<Rightarrow> tbb \<Rightarrow> 'e point list \<Rightarrow> 'e point list" where
  "initAccs C M T accs = foldl
     (\<lambda>accs (i, t). if i < 2147483648 then accs[i := Curve_copyPP C (c_fzero C)] else accs) accs
     (parallel_for T [0] 0 (nThreads M * accsPerChunk M))"

definition getChunk :: "'e multiexp \<Rightarrow> nat \<Rightarrow> nat \<Rightarrow> u64" where
  "getChunk M scalarIdx chunkIdx =
     (let bitStart = chunkIdx * bitsPerChunk M;
          byteStart = bitStart div 8;
          efectiveBitsPerChunk = bitsPerChunk M;
          limit = unat (word_of_nat (scalarSize M) - 8 :: u64);
          byteStart = (if limit < byteStart then limit else byteStart);
          efectiveBitsPerChunk = (if scalarSize M * 8 < bitStart + bitsPerChunk M
            then scalarSize M * 8 - bitStart else efectiveBitsPerChunk);
          shift = bitStart - byteStart * 8;
          v = load64 (take 8 (drop (scalarIdx * scalarSize M + byteStart) (scalars M)));
          v = drop_bit shift v;
          v = v AND (push_bit efectiveBitsPerChunk 1 - 1)
      in v)"

text \<open>The part of the loop bodies that both \<open>processChunk\<close> functions share.\<close>

definition processBase :: "'e curve \<Rightarrow> 'e multiexp \<Rightarrow> nat \<Rightarrow> 'e point list \<Rightarrow> nat \<times> nat \<Rightarrow> 'e point list" where
  "processBase C M idChunk accs it =
     (let (i, idThread) = it in
      if Curve_isZeroA C (bases M ! i) then accs
      else let chunkValue = unat (getChunk M i idChunk);
               k = idThread * accsPerChunk M + chunkValue
           in if chunkValue \<noteq> 0 then accs[k := Curve_addPA C (accs ! k) (bases M ! i)] else accs)"

definition processChunk :: "'e curve \<Rightarrow> 'e multiexp \<Rightarrow> tbb \<Rightarrow> nat \<Rightarrow> 'e point list \<Rightarrow> 'e point list" where
  "processChunk C M T idChunk accs = foldl (processBase C M idChunk) accs
     (parallel_for T [1, idChunk] 0 (unat (word_of_nat (n_bases M) :: u32)))"

text \<open>The variant with sizes skips the indices behind the size of their residue class.\<close>

definition skip_index :: "nat \<Rightarrow> u64 list \<Rightarrow> nat \<Rightarrow> bool" where
  "skip_index nX sz i =
     (let md = i mod nX;
          len = sz ! md - 1
      in len * word_of_nat nX + word_of_nat md < (word_of_nat i :: u64))"

definition processChunkX ::
    "'e curve \<Rightarrow> 'e multiexp \<Rightarrow> tbb \<Rightarrow> nat \<Rightarrow> u64 list \<Rightarrow> nat \<Rightarrow> 'e point list \<Rightarrow> 'e point list" where
  "processChunkX C M T nX sz idChunk accs =
     foldl (\<lambda>accs it. if skip_index nX sz (fst it) then accs else processBase C M idChunk accs it) accs
       (parallel_for T [1, idChunk] 0 (n_bases M))"

text \<open>The body of the inner loop of \<open>packThreads\<close>, and that loop.\<close>

definition packStep :: "'e curve \<Rightarrow> 'e multiexp \<Rightarrow> nat \<Rightarrow> 'e point list \<Rightarrow> nat \<Rightarrow> 'e point list" where
  "packStep C M i accs j =
     (let k = j * accsPerChunk M + i in
      if \<not> Curve_isZeroP C (accs ! k)
      then accs[i := Curve_addPP C (accs ! i) (accs ! k), k := Curve_copyPP C (c_fzero C)]
      else accs)"

definition packCell :: "'e curve \<Rightarrow> 'e multiexp \<Rightarrow> 'e point list \<Rightarrow> nat \<Rightarrow> 'e point list" where
  "packCell C M accs i = foldl (packStep C M i) accs [1..<nThreads M]"

definition packThreads :: "'e curve \<Rightarrow> 'e multiexp \<Rightarrow> tbb \<Rightarrow> nat \<Rightarrow> 'e point list \<Rightarrow> 'e point list" where
  "packThreads C M T idChunk accs = foldl (\<lambda>accs it. packCell C M accs (fst it)) accs
     (parallel_for T [2, idChunk] 0 (accsPerChunk M))"

text \<open>\<open>reduce\<close> for \<open>nBits = m + 1\<close>: the result and the accumulators.\<close>

definition reduceStep :: "'e curve \<Rightarrow> nat \<Rightarrow> 'e point list \<times> 'e point list \<Rightarrow> nat \<times> nat \<Rightarrow> 'e point list \<times> 'e point list" where
  "reduceStep C ndiv2 st it =
     (let (accs, sall) = st; (i, idThread) = it; p = accs ! (ndiv2 + i) in
      if \<not> Curve_isZeroP C p
      then (accs[i := Curve_addPP C (accs ! i) p, ndiv2 + i := Curve_copyPP C (c_fzero C)],
            sall[idThread := Curve_addPP C (sall ! idThread) p])
      else (accs, sall))"

primrec reduce ::
    "'e curve \<Rightarrow> 'e memory \<Rightarrow> tbb \<Rightarrow> nat \<Rightarrow> nat \<Rightarrow> nat \<Rightarrow> 'e point list \<Rightarrow> 'e point \<times> 'e point list" where
  "reduce C Z T nThr idChunk 0 accs =
     (Curve_copyPP C (accs ! 1), accs[1 := Curve_copyPP C (c_fzero C)])"
| "reduce C Z T nThr idChunk (Suc m) accs =
     (let ndiv2 = 2 ^ Suc m;
          sall = replicate nThr (pt (mem_zero Z) (mem_zero Z) (mem_zero Z) (mem_zero Z));
          (accs, sall) = foldl (reduceStep C ndiv2) (accs, sall) (parallel_for T [3, idChunk, m] 0 ndiv2);
          accs = foldl (\<lambda>accs i. accs[ndiv2 := Curve_addPP C (accs ! ndiv2) (sall ! i)]) accs [0..<nThr];
          (p1, accs) = reduce C Z T nThr idChunk m accs;
          accs = foldl (\<lambda>accs i. accs[ndiv2 := Curve_dblP C (accs ! ndiv2)]) accs [0..<Suc m];
          res = Curve_addPP C p1 (accs ! ndiv2);
          accs = accs[ndiv2 := Curve_copyPP C (c_fzero C)]
      in (res, accs))"

text \<open>The chunk loop and the combination of the chunk results.\<close>

definition runChunks ::
    "'e curve \<Rightarrow> 'e memory \<Rightarrow> tbb \<Rightarrow> 'e multiexp \<Rightarrow> (nat \<Rightarrow> 'e point list \<Rightarrow> 'e point list) \<Rightarrow>
     nat \<Rightarrow> 'e point list \<Rightarrow> 'e point list \<times> 'e point list" where
  "runChunks C Z T M process nChunks accs =
     foldl (\<lambda>(results, accs) i.
         let accs = process i accs;
             accs = packThreads C M T i accs;
             (res, accs) = reduce C Z T (nThreads M) i (bitsPerChunk M - 1) accs
         in (results @ [res], accs))
       ([], accs) [0..<nChunks]"

primrec combine :: "'e curve \<Rightarrow> nat \<Rightarrow> 'e point list \<Rightarrow> nat \<Rightarrow> 'e point \<Rightarrow> 'e point" where
  "combine C bits results 0 r = r"
| "combine C bits results (Suc j) r =
     combine C bits results j (Curve_addPP C ((Curve_dblP C ^^ bits) r) (results ! j))"

definition chunkBits :: "nat \<Rightarrow> nat" where
  "chunkBits n =
     (let bits = log2 (word_of_nat (n div 2));
          bits = (if 16 < bits then 16 else bits);
          bits = (if bits < 2 then 2 else bits)
      in bits)"

text \<open>
  \<open>mulByScalar\<close> takes the size as an \<open>unsigned int\<close>. The number of chunks is a \<open>uint64_t\<close>; the loop that
  combines the results counts down on an \<open>int\<close>, to which \<open>nChunks - 2\<close> is converted.
\<close>

definition multiexp_with ::
    "'e curve \<Rightarrow> 'e memory \<Rightarrow> tbb \<Rightarrow> ('e multiexp \<Rightarrow> nat \<Rightarrow> 'e point list \<Rightarrow> 'e point list) \<Rightarrow>
     'e affine list \<Rightarrow> u8 list \<Rightarrow> nat \<Rightarrow> nat \<Rightarrow> 'e point" where
  "multiexp_with C Z T process bs ss sz n =
     (if n = 0 then Curve_copyPP C (c_fzero C)
      else if n = 1 then (let sz32 = unat (word_of_nat sz :: u32) in Curve_mulByScalarA C (bs ! 0) (take sz32 ss) sz32)
      else let nThr = max_concurrency T;
               bits = chunkBits n;
               nChunks = unat (word_of_nat sz * 8 - 1 :: u64) div bits + 1;
               M = \<lparr>bases = bs, scalars = ss, scalarSize = sz, n_bases = n, nThreads = nThr,
                 bitsPerChunk = bits, accsPerChunk = 2 ^ bits\<rparr>;
               accs = mem_new Z (nThr * 2 ^ bits);
               accs = initAccs C M T accs;
               (results, accs) = runChunks C Z T M (process M) nChunks accs;
               r = Curve_copyPP C (results ! (nChunks - 1))
           in combine C bits results (nat (sint (word_of_nat nChunks - 2 :: u32) + 1)) r)"

definition multiexp ::
    "'e curve \<Rightarrow> 'e memory \<Rightarrow> tbb \<Rightarrow> 'e affine list \<Rightarrow> u8 list \<Rightarrow> nat \<Rightarrow> nat \<Rightarrow> 'e point" where
  "multiexp C Z T = multiexp_with C Z T (\<lambda>M. processChunk C M T)"

definition multiexpX ::
    "'e curve \<Rightarrow> 'e memory \<Rightarrow> tbb \<Rightarrow> 'e affine list \<Rightarrow> u8 list \<Rightarrow> nat \<Rightarrow> nat \<Rightarrow> nat \<Rightarrow> u64 list \<Rightarrow> 'e point" where
  "multiexpX C Z T bs ss sz n nx x = multiexp_with C Z T (\<lambda>M. processChunkX C M T nx x) bs ss sz n"

text \<open>\<open>Curve::multiMulByScalar\<close>\<close>

definition Curve_multiMulByScalar ::
    "'e curve \<Rightarrow> 'e memory \<Rightarrow> tbb \<Rightarrow> 'e affine list \<Rightarrow> u8 list \<Rightarrow> nat \<Rightarrow> nat \<Rightarrow> 'e point" where
  "Curve_multiMulByScalar C Z T bs ss sz n = multiexp C Z T bs ss sz n"

definition Curve_multiMulByScalarX ::
    "'e curve \<Rightarrow> 'e memory \<Rightarrow> tbb \<Rightarrow> 'e affine list \<Rightarrow> u8 list \<Rightarrow> nat \<Rightarrow> nat \<Rightarrow> nat \<Rightarrow> u64 list \<Rightarrow> 'e point" where
  "Curve_multiMulByScalarX C Z T bs ss sz n nx x = multiexpX C Z T bs ss sz n nx x"

end
