(* ===== verification/Multiexp_Laws.thy ===== *)
theory Multiexp_Laws
  imports Multiexp
begin

section \<open>Multi-exponentiation computes the sum of multiples\<close>

text \<open>
  Every phase of the bucket method keeps a weighted total of the accumulators or moves it: adding a
  base to the bucket of its digit adds the multiple by the digit, packing moves summands between
  buckets of equal weight, and the halving trades the upper half of the buckets for one summand.
\<close>

subsection \<open>The digits\<close>

text \<open>The scalar at an index of the packed array.\<close>

definition scalar_at :: "u8 list \<Rightarrow> nat \<Rightarrow> nat \<Rightarrow> nat" where
  "scalar_at ss sz i = bval (take sz (drop (i * sz) ss))"

lemma scalar_at_lt: "scalar_at ss sz i < 2 ^ (8 * sz)"
proof -
  have "bval (take sz (drop (i * sz) ss)) < 256 ^ length (take sz (drop (i * sz) ss))" by (rule bval_lt)
  also have "\<dots> \<le> 256 ^ sz" by (intro power_increasing) simp_all
  also have "(256 :: nat) ^ sz = 2 ^ (8 * sz)" by (simp add: power_mult)
  finally show ?thesis by (simp add: scalar_at_def)
qed

lemma load64_value: "length bs = 8 \<Longrightarrow> unat (load64 bs) = bval bs"
  using bval_lt [of bs] by (simp add: load64_def unat_of_nat)

lemma bval_take: "k \<le> length bs \<Longrightarrow> bval (take k bs) = bval bs mod 2 ^ (8 * k)"
proof -
  assume k: "k \<le> length bs"
  have "bval bs = bval (take k bs) + 256 ^ length (take k bs) * bval (drop k bs)"
    using bval_append [of "take k bs" "drop k bs"] by simp
  moreover have "bval (take k bs) < 256 ^ k" using bval_lt [of "take k bs"] k by simp
  moreover have "(256 :: nat) ^ k = 2 ^ (8 * k)" by (simp add: power_mult)
  ultimately show ?thesis using k by simp
qed

lemma word_field:
  assumes "s + e \<le> 64" and "unat (w :: u64) = a mod 2 ^ 64"
  shows "unat (drop_bit s w AND (push_bit e 1 - 1)) = a div 2 ^ s mod 2 ^ e"
proof -
  have m: "push_bit e 1 - 1 = (mask e :: u64)" by (simp add: mask_eq_exp_minus_1 push_bit_eq_mult)
  have "take_bit 64 (unat w) = unat w" using unsigned_less [of w, where 'a = nat] by (simp add: take_bit_nat_eq_self)
  then have "unat (drop_bit s w AND mask e) = take_bit e (drop_bit s (unat w))"
    by (simp add: take_bit_eq_mask [symmetric] unsigned_take_bit_eq unsigned_drop_bit_eq)
  also have "unat w = take_bit 64 a" using assms(2) by (simp add: take_bit_eq_mod)
  also have "take_bit e (drop_bit s (take_bit 64 a)) = take_bit e (drop_bit s a)"
  proof -
    have "e \<le> 64 - s" using assms(1) by linarith
    then show ?thesis by (simp add: drop_bit_take_bit)
  qed
  finally show ?thesis unfolding m by (simp add: take_bit_eq_mod drop_bit_eq_div)
qed

lemma getChunk_value:
  assumes bits: "1 \<le> bitsPerChunk M" "bitsPerChunk M \<le> 16"
    and sz: "8 \<le> scalarSize M" "scalarSize M < limb_base"
    and len: "(i + 1) * scalarSize M \<le> length (scalars M)"
    and c: "c * bitsPerChunk M < 8 * scalarSize M"
  shows "unat (getChunk M i c)
    = scalar_at (scalars M) (scalarSize M) i div 2 ^ (c * bitsPerChunk M) mod 2 ^ bitsPerChunk M"
proof -
  define b where "b = bitsPerChunk M"
  define z where "z = scalarSize M"
  define S where "S = scalar_at (scalars M) z i"
  define st where "st = c * b"
  define byte where "byte = min (st div 8) (z - 8)"
  define eff where "eff = min b (z * 8 - st)"
  have limit: "unat (word_of_nat (scalarSize M) - 8 :: u64) = z - 8"
  proof -
    have u: "unat (word_of_nat z :: u64) = z" using sz by (simp add: unat_of_nat z_def)
    then have "8 \<le> (word_of_nat z :: u64)" using sz by (simp add: word_le_nat_alt z_def)
    then show ?thesis using u by (simp add: unat_sub z_def)
  qed
  have st: "st < 8 * z" using c by (simp add: st_def b_def z_def)
  have by8: "byte + 8 \<le> z" "8 * byte \<le> st" using sz by (auto simp: byte_def z_def)
  have fit: "st - byte * 8 + eff \<le> 64"
  proof (cases "st div 8 \<le> z - 8")
    case True
    then show ?thesis using bits by (auto simp: byte_def eff_def b_def)
  next
    case False
    then have "byte = z - 8" by (simp add: byte_def)
    moreover have "eff \<le> z * 8 - st" by (simp add: eff_def)
    moreover have "8 * (z - 8) \<le> st" using False by linarith
    ultimately show ?thesis using st sz(1) unfolding z_def [symmetric] by linarith
  qed
  have drop: "take 8 (drop (i * z + byte) (scalars M)) = take 8 (drop byte (take z (drop (i * z) (scalars M))))"
    using by8(1) by (simp add: drop_take add.commute)
  have "length (take z (drop (i * z) (scalars M))) = z" using len by (simp add: z_def)
  then have "unat (load64 (take 8 (drop byte (take z (drop (i * z) (scalars M)))))) = S div 2 ^ (8 * byte) mod 2 ^ 64"
    using by8(1) load64_value bval_take [of 8] bval_drop [of "take z (drop (i * z) (scalars M))" byte]
    by (simp add: S_def scalar_at_def)
  note chunk = word_field [OF fit this [folded drop]]
  have e1: "(if z - 8 < st div 8 then z - 8 else st div 8) = byte" by (simp add: byte_def)
  have e2: "(if z * 8 < st + b then z * 8 - st else b) = eff" by (auto simp: eff_def)
  have "getChunk M i c = drop_bit (st - byte * 8) (load64 (take 8 (drop (i * z + byte) (scalars M)))) AND (push_bit eff 1 - 1)"
    unfolding getChunk_def Let_def b_def [symmetric] z_def [symmetric] st_def [symmetric] limit [folded z_def] e1 e2 ..
  then have "unat (getChunk M i c) = S div 2 ^ (8 * byte) div 2 ^ (st - byte * 8) mod 2 ^ eff"
    using chunk by (simp only:)
  also have "S div 2 ^ (8 * byte) div 2 ^ (st - byte * 8) = S div 2 ^ st"
    using by8(2) by (simp add: div_mult2_eq [symmetric] power_add [symmetric] mult.commute)
  also have "S div 2 ^ st mod 2 ^ eff = S div 2 ^ st mod 2 ^ b"
  proof (cases "z * 8 - st < b")
    case True
    have "S < 2 ^ (8 * z)" by (simp add: S_def scalar_at_lt)
    also have "(2 :: nat) ^ (8 * z) = 2 ^ st * 2 ^ (z * 8 - st)" using st by (simp add: power_add [symmetric])
    finally have lt: "S div 2 ^ st < 2 ^ (z * 8 - st)" by (simp add: less_mult_imp_div_less mult.commute)
    also have "(2 :: nat) ^ (z * 8 - st) \<le> 2 ^ b" using True by (intro power_increasing) simp_all
    finally show ?thesis using lt True by (simp add: eff_def min_def)
  qed (simp add: eff_def min_def)
  finally show ?thesis by (simp add: S_def st_def b_def z_def)
qed

subsection \<open>Points on the curve\<close>

context curve_group begin

abbreviation "on \<equiv> ec_on (val aa) (val ab)"
abbreviation "plus_ec \<equiv> ec_add (val aa)"
abbreviation "zeroP \<equiv> Curve_copyPP C (c_fzero C)"

definition point_on :: "'e point \<Rightarrow> bool" where
  "point_on p \<longleftrightarrow> pok p \<and> on (pval p)"

definition aff_on :: "'e affine \<Rightarrow> bool" where
  "aff_on p \<longleftrightarrow> aok p \<and> on (aval p)"

lemma point_on_D: "point_on p \<Longrightarrow> pok p" "point_on p \<Longrightarrow> on (pval p)"
  by (simp_all add: point_on_def)

lemma zeroP_on [simp]: "point_on zeroP" "pval zeroP = Inf"
  using mulP.zero_ok by (simp_all add: point_on_def Curve_point_ops_def)

lemma addPA_on:
  assumes "point_on p" and "aff_on q"
  shows "point_on (Curve_addPA C p q)" and "pval (Curve_addPA C p q) = plus_ec (pval p) (aval q)"
  using assms addPA_value [of p q] grp.on_plus by (simp_all add: point_on_def aff_on_def)

lemma addPP_on:
  assumes "point_on p" and "point_on q"
  shows "point_on (Curve_addPP C p q)" and "pval (Curve_addPP C p q) = plus_ec (pval p) (pval q)"
  using assms addPP_value [of p q] grp.on_plus by (simp_all add: point_on_def)

lemma dblP_on:
  assumes "point_on p"
  shows "point_on (Curve_dblP C p)" and "pval (Curve_dblP C p) = plus_ec (pval p) (pval p)"
  using assms dblP_value [of p] grp.on_plus [of "pval p" "pval p"] by (simp_all add: point_on_def ec_add_same)

lemma isZero_on: "point_on p \<Longrightarrow> Curve_isZeroP C p \<longleftrightarrow> pval p = Inf"
  by (simp add: point_on_def isZeroP_value)

lemma copyPP_on: "point_on p \<Longrightarrow> Curve_copyPP C p = p"
  by (simp add: point_on_def copyPP_id)

abbreviation "vals \<equiv> map pval"
abbreviation "accs_ok \<equiv> list_all point_on"

lemma vals_on [simp]: "accs_ok ps \<Longrightarrow> list_all on (vals ps)"
  by (simp add: list_all_iff point_on_def)

lemma accs_ok_nth: "accs_ok ps \<Longrightarrow> k < length ps \<Longrightarrow> point_on (ps ! k)"
  by (simp add: list_all_length)

lemma accs_ok_update [simp]: "accs_ok ps \<Longrightarrow> point_on p \<Longrightarrow> accs_ok (ps[k := p])"
  by (auto simp: list_all_iff dest!: set_update_subset_insert [THEN subsetD])

subsection \<open>Filling the buckets\<close>

text \<open>The weight of a cell is its index within the buckets of its thread.\<close>

definition weights :: "nat \<Rightarrow> nat \<Rightarrow> nat list" where
  "weights apc len = map (\<lambda>k. k mod apc) [0..<len]"

lemma weights_simps [simp]: "length (weights apc len) = len" "k < len \<Longrightarrow> weights apc len ! k = k mod apc"
  by (simp_all add: weights_def)

lemma processBase_value:
  assumes acc: "accs_ok accs" "length accs = nThreads M * accsPerChunk M"
    and base: "aff_on (bases M ! i)" and t: "t < nThreads M" and dig: "unat (getChunk M i c) < accsPerChunk M"
  defines "accs' \<equiv> processBase C M c accs (i, t)" and "W \<equiv> weights (accsPerChunk M) (length accs)"
  shows "accs_ok accs' \<and> length accs' = length accs
    \<and> grp.wtotal W (vals accs') = plus_ec (grp.wtotal W (vals accs)) (grp.nmul (unat (getChunk M i c)) (aval (bases M ! i)))"
proof -
  define d where "d = unat (getChunk M i c)"
  define k where "k = t * accsPerChunk M + d"
  have d: "d < accsPerChunk M" using dig by (simp add: d_def)
  have k: "k < length accs"
  proof -
    have "k < (t + 1) * accsPerChunk M" using d by (simp add: k_def)
    also have "\<dots> \<le> nThreads M * accsPerChunk M" using t by (intro mult_right_mono) simp_all
    finally show ?thesis using acc(2) by simp
  qed
  have km: "k mod accsPerChunk M = d" using d by (simp add: k_def)
  have on_b: "aok (bases M ! i)" "on (aval (bases M ! i))" using base by (simp_all add: aff_on_def)
  have on_W: "on (grp.wtotal W (vals accs))" using acc(1) by simp
  consider "aval (bases M ! i) = Inf" | "aval (bases M ! i) \<noteq> Inf" "d = 0" | "aval (bases M ! i) \<noteq> Inf" "d \<noteq> 0" by blast
  then show ?thesis
  proof cases
    case 1
    then have "accs' = accs" using on_b by (simp add: accs'_def processBase_def isZeroA_value)
    with 1 acc(1) on_W show ?thesis by simp
  next
    case 2
    then have "accs' = accs" using on_b by (simp add: accs'_def processBase_def isZeroA_value d_def Let_def)
    with 2 acc(1) on_W show ?thesis by (simp add: d_def)
  next
    case 3
    then have e: "accs' = accs[k := Curve_addPA C (accs ! k) (bases M ! i)]"
      using on_b by (simp add: accs'_def processBase_def isZeroA_value d_def k_def Let_def)
    note A = addPA_on [OF accs_ok_nth [OF acc(1) k] base]
    have "vals accs' = (vals accs)[k := plus_ec (vals accs ! k) (aval (bases M ! i))]"
      using A(2) k by (simp add: e map_update)
    also have "grp.wtotal W \<dots> = plus_ec (grp.wtotal W (vals accs)) (grp.nmul (W ! k) (aval (bases M ! i)))"
      using k acc(1) on_b by (intro grp.wtotal_add_at) (simp_all add: W_def)
    finally show ?thesis using A(1) acc(1) k km by (simp add: e W_def d_def)
  qed
qed

text \<open>A loop over a schedule, where iteration \<open>i\<close> may be left out.\<close>

lemma process_loop:
  assumes base: "\<And>i. i < N \<Longrightarrow> aff_on (bases M ! i)"
    and dig: "\<And>i. i < N \<Longrightarrow> unat (getChunk M i c) < accsPerChunk M"
  shows "accs_ok accs \<Longrightarrow> length accs = nThreads M * accsPerChunk M \<Longrightarrow>
    (\<And>it. it \<in> set its \<Longrightarrow> fst it < N \<and> snd it < nThreads M) \<Longrightarrow>
    let accs' = foldl (\<lambda>accs it. if skip (fst it) then accs else processBase C M c accs it) accs its;
        W = weights (accsPerChunk M) (length accs)
    in accs_ok accs' \<and> length accs' = length accs
      \<and> grp.wtotal W (vals accs') = plus_ec (grp.wtotal W (vals accs))
        (grp.tot (map (\<lambda>i. grp.nmul (if skip i then 0 else unat (getChunk M i c)) (aval (bases M ! i))) (map fst its)))"
proof (induction its arbitrary: accs)
  case Nil
  then show ?case by (simp add: Let_def)
next
  case (Cons it its)
  obtain i t where it: "it = (i, t)" by (cases it)
  have i: "i < N" "t < nThreads M" using Cons.prems(3) [of it] it by auto
  note P = processBase_value [OF Cons.prems(1,2) base [OF i(1)] i(2) dig [OF i(1)]]
  define accs1 where "accs1 = (if skip i then accs else processBase C M c accs it)"
  have 1: "accs_ok accs1" "length accs1 = length accs"
    "grp.wtotal (weights (accsPerChunk M) (length accs)) (vals accs1) = plus_ec
      (grp.wtotal (weights (accsPerChunk M) (length accs)) (vals accs))
      (grp.nmul (if skip i then 0 else unat (getChunk M i c)) (aval (bases M ! i)))"
    using P Cons.prems(1) by (auto simp: accs1_def it)
  have on: "on (aval (bases M ! j))" if "j < N" for j using base [OF that] by (simp add: aff_on_def)
  have on_t: "list_all on (map (\<lambda>j. grp.nmul (if skip j then 0 else unat (getChunk M j c)) (aval (bases M ! j))) (map fst its))"
    using on Cons.prems(3) by (auto simp: list_all_iff)
  have IH: "let accs' = foldl (\<lambda>accs it. if skip (fst it) then accs else processBase C M c accs it) accs1 its;
        W = weights (accsPerChunk M) (length accs1)
    in accs_ok accs' \<and> length accs' = length accs1
      \<and> grp.wtotal W (vals accs') = plus_ec (grp.wtotal W (vals accs1))
        (grp.tot (map (\<lambda>i. grp.nmul (if skip i then 0 else unat (getChunk M i c)) (aval (bases M ! i))) (map fst its)))"
    using Cons.prems 1 by (intro Cons.IH) auto
  have "foldl (\<lambda>accs it. if skip (fst it) then accs else processBase C M c accs it) accs (it # its)
    = foldl (\<lambda>accs it. if skip (fst it) then accs else processBase C M c accs it) accs1 its"
    by (simp add: accs1_def it)
  then show ?case
    using IH 1 on [OF i(1)] on_t Cons.prems(1) unfolding Let_def
    by (simp add: it grp.assoc)
qed

subsection \<open>Packing the threads\<close>

definition clear_at :: "'e point list \<Rightarrow> nat \<Rightarrow> bool" where
  "clear_at accs k \<longleftrightarrow> (k < length accs \<longrightarrow> pval (accs ! k) = Inf)"

lemma move_cell:
  assumes acc: "accs_ok accs" and i: "i < length accs" and k: "k < length accs" and ik: "i \<noteq> k"
    and w: "length W = length accs" "W ! i = W ! k"
  defines "accs' \<equiv> (if \<not> Curve_isZeroP C (accs ! k)
    then accs[i := Curve_addPP C (accs ! i) (accs ! k), k := zeroP] else accs)"
  shows "accs_ok accs'" and "length accs' = length accs"
    and "grp.wtotal W (vals accs') = grp.wtotal W (vals accs)" and "clear_at accs' k"
    and "j \<noteq> i \<Longrightarrow> clear_at accs j \<Longrightarrow> clear_at accs' j"
proof -
  note z = isZero_on [OF accs_ok_nth [OF acc k]]
  note A = addPP_on [OF accs_ok_nth [OF acc i] accs_ok_nth [OF acc k]]
  show "accs_ok accs'" "length accs' = length accs" using acc A by (simp_all add: accs'_def)
  show "clear_at accs' k" using z k by (auto simp: accs'_def clear_at_def)
  show "clear_at accs' j" if "j \<noteq> i" "clear_at accs j"
    using that k by (auto simp: accs'_def clear_at_def nth_list_update)
  show "grp.wtotal W (vals accs') = grp.wtotal W (vals accs)"
  proof (cases "Curve_isZeroP C (accs ! k)")
    case False
    then have "vals accs' = (vals accs)[i := plus_ec (vals accs ! i) (vals accs ! k), k := Inf]"
      using A(2) i k by (simp add: accs'_def map_update)
    then show ?thesis using grp.wtotal_move [of i "vals accs" k W] i k ik w acc by simp
  qed (simp add: accs'_def)
qed

lemma packStep_value:
  assumes i: "i < accsPerChunk M" and j: "0 < j" "j < nThreads M"
    and acc: "accs_ok accs" "length accs = nThreads M * accsPerChunk M"
  defines "accs' \<equiv> packStep C M i accs j" and "W \<equiv> weights (accsPerChunk M) (length accs)"
  shows "accs_ok accs'" and "length accs' = length accs"
    and "grp.wtotal W (vals accs') = grp.wtotal W (vals accs)"
    and "clear_at accs' (j * accsPerChunk M + i)"
    and "accsPerChunk M \<le> k \<Longrightarrow> clear_at accs k \<Longrightarrow> clear_at accs' k"
proof -
  define m where "m = j * accsPerChunk M + i"
  have m: "m < length accs"
  proof -
    have "(j + 1) * accsPerChunk M \<le> nThreads M * accsPerChunk M" using j by (intro mult_right_mono) simp_all
    then show ?thesis using i acc(2) by (simp add: m_def)
  qed
  have Am: "accsPerChunk M \<le> m" using j(1) by (cases j) (simp_all add: m_def)
  have ik: "i \<noteq> m" "i < length accs" using i Am m by simp_all
  have w: "length W = length accs" "W ! i = W ! m" using i m ik by (simp_all add: W_def m_def)
  have e: "accs' = (if \<not> Curve_isZeroP C (accs ! m)
    then accs[i := Curve_addPP C (accs ! i) (accs ! m), m := zeroP] else accs)"
    by (simp add: accs'_def packStep_def m_def Let_def)
  note R = move_cell [OF acc(1) ik(2) m ik(1) w, folded e]
  show "accs_ok accs'" "length accs' = length accs" "grp.wtotal W (vals accs') = grp.wtotal W (vals accs)"
    "clear_at accs' (j * accsPerChunk M + i)" using R by (simp_all add: m_def)
  show "accsPerChunk M \<le> k \<Longrightarrow> clear_at accs k \<Longrightarrow> clear_at accs' k" using R(5) [of k] i by simp
qed

lemma pack_inner:
  assumes i: "i < accsPerChunk M"
  shows "accs_ok accs \<Longrightarrow> length accs = nThreads M * accsPerChunk M \<Longrightarrow> (\<And>j. j \<in> set js \<Longrightarrow> 0 < j \<and> j < nThreads M) \<Longrightarrow>
    let accs' = foldl (packStep C M i) accs js; W = weights (accsPerChunk M) (length accs)
    in accs_ok accs' \<and> length accs' = length accs \<and> grp.wtotal W (vals accs') = grp.wtotal W (vals accs)
      \<and> (\<forall>j\<in>set js. clear_at accs' (j * accsPerChunk M + i))
      \<and> (\<forall>k\<ge>accsPerChunk M. clear_at accs k \<longrightarrow> clear_at accs' k)"
proof (induction js arbitrary: accs)
  case (Cons j js)
  have j: "0 < j" "j < nThreads M" using Cons.prems(3) [of j] by auto
  note P = packStep_value [OF i j Cons.prems(1,2)]
  define accs1 where "accs1 = packStep C M i accs j"
  have far: "accsPerChunk M \<le> j * accsPerChunk M + i" using j(1) by (cases j) simp_all
  have IH: "let accs' = foldl (packStep C M i) accs1 js; W = weights (accsPerChunk M) (length accs1)
    in accs_ok accs' \<and> length accs' = length accs1 \<and> grp.wtotal W (vals accs') = grp.wtotal W (vals accs1)
      \<and> (\<forall>j\<in>set js. clear_at accs' (j * accsPerChunk M + i))
      \<and> (\<forall>k\<ge>accsPerChunk M. clear_at accs1 k \<longrightarrow> clear_at accs' k)"
    using P Cons.prems by (intro Cons.IH) (auto simp: accs1_def)
  show ?case using IH P far unfolding Let_def foldl_Cons accs1_def [symmetric] by (auto simp: accs1_def)
qed (simp add: Let_def)

lemma packCell_value:
  assumes i: "i < accsPerChunk M" and acc: "accs_ok accs" "length accs = nThreads M * accsPerChunk M"
  defines "accs' \<equiv> packCell C M accs i" and "W \<equiv> weights (accsPerChunk M) (length accs)"
  shows "accs_ok accs'" and "length accs' = length accs"
    and "grp.wtotal W (vals accs') = grp.wtotal W (vals accs)"
    and "1 \<le> j \<Longrightarrow> j < nThreads M \<Longrightarrow> clear_at accs' (j * accsPerChunk M + i)"
    and "accsPerChunk M \<le> k \<Longrightarrow> clear_at accs k \<Longrightarrow> clear_at accs' k"
proof -
  have "0 < j \<and> j < nThreads M" if "j \<in> set [1..<nThreads M]" for j using that by simp
  from pack_inner [OF i acc this]
  have I: "accs_ok accs' \<and> length accs' = length accs \<and> grp.wtotal W (vals accs') = grp.wtotal W (vals accs)
      \<and> (\<forall>j\<in>set [1..<nThreads M]. clear_at accs' (j * accsPerChunk M + i))
      \<and> (\<forall>k\<ge>accsPerChunk M. clear_at accs k \<longrightarrow> clear_at accs' k)"
    unfolding accs'_def packCell_def Let_def W_def by blast
  then show "accs_ok accs'" "length accs' = length accs" "grp.wtotal W (vals accs') = grp.wtotal W (vals accs)"
    by blast+
  show "1 \<le> j \<Longrightarrow> j < nThreads M \<Longrightarrow> clear_at accs' (j * accsPerChunk M + i)"
    "accsPerChunk M \<le> k \<Longrightarrow> clear_at accs k \<Longrightarrow> clear_at accs' k"
    using I by auto
qed

lemma pack_fold:
  assumes pos: "0 < accsPerChunk M"
  shows "accs_ok accs \<Longrightarrow> length accs = nThreads M * accsPerChunk M \<Longrightarrow> (\<And>it. it \<in> set its \<Longrightarrow> fst it < accsPerChunk M) \<Longrightarrow>
    let accs' = foldl (\<lambda>accs it. packCell C M accs (fst it)) accs its;
        W = weights (accsPerChunk M) (length accs)
    in accs_ok accs' \<and> length accs' = length accs \<and> grp.wtotal W (vals accs') = grp.wtotal W (vals accs)
      \<and> (\<forall>it\<in>set its. \<forall>j. 1 \<le> j \<and> j < nThreads M \<longrightarrow> clear_at accs' (j * accsPerChunk M + fst it))
      \<and> (\<forall>k\<ge>accsPerChunk M. clear_at accs k \<longrightarrow> clear_at accs' k)"
proof (induction its arbitrary: accs)
  case (Cons it its)
  have i: "fst it < accsPerChunk M" using Cons.prems(3) by simp
  note P = packCell_value [OF i Cons.prems(1,2)]
  define accs1 where "accs1 = packCell C M accs (fst it)"
  have far: "accsPerChunk M \<le> j * accsPerChunk M + fst it" if "1 \<le> j" for j using that by (cases j) simp_all
  have IH: "let accs' = foldl (\<lambda>accs it. packCell C M accs (fst it)) accs1 its;
        W = weights (accsPerChunk M) (length accs1)
    in accs_ok accs' \<and> length accs' = length accs1 \<and> grp.wtotal W (vals accs') = grp.wtotal W (vals accs1)
      \<and> (\<forall>it\<in>set its. \<forall>j. 1 \<le> j \<and> j < nThreads M \<longrightarrow> clear_at accs' (j * accsPerChunk M + fst it))
      \<and> (\<forall>k\<ge>accsPerChunk M. clear_at accs1 k \<longrightarrow> clear_at accs' k)"
    using P Cons.prems by (intro Cons.IH) (auto simp: accs1_def)
  show ?case using IH P far unfolding Let_def foldl_Cons accs1_def [symmetric] by (auto simp: accs1_def)
qed (simp add: Let_def)

lemmas schedule_set = tbb_laws.indices_set

lemma packThreads_value:
  fixes c :: nat
  assumes laws: "tbb_laws T" and acc: "accs_ok accs" "length accs = nThreads M * accsPerChunk M"
    and pos: "0 < accsPerChunk M"
  defines "accs' \<equiv> packThreads C M T c accs" and "W \<equiv> weights (accsPerChunk M) (length accs)"
  shows "accs_ok accs'" and "length accs' = length accs"
    and "grp.wtotal W (vals accs') = grp.wtotal W (vals accs)" and "accsPerChunk M \<le> k \<Longrightarrow> clear_at accs' k"
proof -
  note sched = schedule_set [OF laws, of "[2, c]" 0 "accsPerChunk M"]
  have "fst it < accsPerChunk M" if "it \<in> set (parallel_for T [2, c] 0 (accsPerChunk M))" for it
    using sched that by auto
  from pack_fold [OF pos acc this]
  have R: "accs_ok accs' \<and> length accs' = length accs \<and> grp.wtotal W (vals accs') = grp.wtotal W (vals accs)
      \<and> (\<forall>it\<in>set (parallel_for T [2, c] 0 (accsPerChunk M)). \<forall>j. 1 \<le> j \<and> j < nThreads M \<longrightarrow>
          clear_at accs' (j * accsPerChunk M + fst it))"
    unfolding Let_def accs'_def packThreads_def W_def by blast
  then show "accs_ok accs'" "length accs' = length accs" "grp.wtotal W (vals accs') = grp.wtotal W (vals accs)"
    by blast+
  show "clear_at accs' k" if "accsPerChunk M \<le> k"
  proof (cases "k < length accs")
    case True
    define j i where "j = k div accsPerChunk M" and "i = k mod accsPerChunk M"
    have k: "k = j * accsPerChunk M + i" "i < accsPerChunk M" using pos by (simp_all add: j_def i_def)
    have "1 \<le> j" using that pos by (simp add: j_def div_greater_zero_iff Suc_le_eq)
    moreover have "j < nThreads M" using True acc(2) by (simp add: j_def less_mult_imp_div_less)
    moreover obtain it where "it \<in> set (parallel_for T [2, c] 0 (accsPerChunk M))" "fst it = i"
      using sched k(2) by force
    ultimately show ?thesis using R k(1) by auto
  qed (use R in \<open>simp add: clear_at_def\<close>)
qed

subsection \<open>Reducing the buckets\<close>

text \<open>The weights of the cells below \<open>h\<close>, their indices.\<close>

definition below :: "nat \<Rightarrow> nat \<Rightarrow> nat list" where
  "below h len = map (\<lambda>k. if k < h then k else 0) [0..<len]"

lemma below_simps [simp]: "length (below h len) = len" "k < len \<Longrightarrow> below h len ! k = (if k < h then k else 0)"
  by (simp_all add: below_def)

lemma wtotal_cong:
  assumes "length W = length ps" and "length W' = length qs" and "length ps = length qs"
    and "\<And>k. k < length ps \<Longrightarrow> grp.nmul (W ! k) (ps ! k) = grp.nmul (W' ! k) (qs ! k)"
  shows "grp.wtotal W ps = grp.wtotal W' qs"
proof -
  have "map2 (multiple plus_ec Inf) W ps = map2 (multiple plus_ec Inf) W' qs"
    using assms by (intro nth_equalityI) simp_all
  then show ?thesis by (simp only: weighted_total_def)
qed

lemma total_add_at:
  assumes "list_all on ps" and "k < length ps" and "on q"
  shows "grp.tot (ps[k := plus_ec (ps ! k) q]) = plus_ec (grp.tot ps) q"
  using assms
proof (induction ps arbitrary: k)
  case (Cons p ps)
  show ?case
  proof (cases k)
    case 0
    then show ?thesis using Cons by (simp add: grp.assoc grp.comm [of q])
  next
    case (Suc j)
    then show ?thesis using Cons by (simp add: grp.assoc)
  qed
qed simp

lemma reduceStep_value:
  assumes acc: "accs_ok accs" "2 * h \<le> length accs" and sall: "accs_ok sall"
    and i: "i < h" and t: "t < length sall"
    and r: "reduceStep C h (accs, sall) (i, t) = (accs', sall')"
  shows "accs_ok accs'" and "accs_ok sall'" and "length accs' = length accs" and "length sall' = length sall"
    and "plus_ec (grp.wtotal (below (2 * h) (length accs)) (vals accs')) (grp.nmul h (grp.tot (vals sall')))
      = plus_ec (grp.wtotal (below (2 * h) (length accs)) (vals accs)) (grp.nmul h (grp.tot (vals sall)))"
    and "clear_at accs' (h + i)" and "h \<le> k \<Longrightarrow> clear_at accs k \<Longrightarrow> clear_at accs' k"
    and "2 * h \<le> k \<Longrightarrow> accs' ! k = accs ! k"
proof -
  define p where "p = accs ! (h + i)"
  define W where "W = below (2 * h) (length accs)"
  have len: "h + i < length accs" "i < length accs" "i \<noteq> h + i" using i acc(2) by simp_all
  have p: "point_on p" using accs_ok_nth [OF acc(1) len(1)] by (simp add: p_def)
  have r': "accs' = (if \<not> Curve_isZeroP C p then accs[i := Curve_addPP C (accs ! i) p, h + i := zeroP] else accs)"
    "sall' = (if \<not> Curve_isZeroP C p then sall[t := Curve_addPP C (sall ! t) p] else sall)"
    using r by (auto simp: reduceStep_def p_def Let_def split: if_splits)
  note A = addPP_on [OF accs_ok_nth [OF acc(1) len(2)] p] and B = addPP_on [OF accs_ok_nth [OF sall t] p]
  show "accs_ok accs'" "accs_ok sall'" "length accs' = length accs" "length sall' = length sall"
    using acc(1) sall A(1) B(1) by (simp_all add: r')
  show "clear_at accs' (h + i)" using p len by (auto simp: r' clear_at_def isZero_on p_def)
  show "clear_at accs' k" if "h \<le> k" "clear_at accs k"
    using that i len by (cases "k = h + i") (auto simp: r' clear_at_def)
  show "accs' ! k = accs ! k" if "2 * h \<le> k" using that i by (simp add: r')
  show "plus_ec (grp.wtotal W (vals accs')) (grp.nmul h (grp.tot (vals sall')))
      = plus_ec (grp.wtotal W (vals accs)) (grp.nmul h (grp.tot (vals sall)))"
  proof (cases "Curve_isZeroP C p")
    case False
    have onp: "on (pval p)" using p by (rule point_on_D)
    define base where "base = (vals accs)[h + i := Inf]"
    have base: "list_all on base" "length base = length accs" using acc(1) by (simp_all add: base_def)
    have "vals accs' = base[i := plus_ec (base ! i) (pval p)]"
      using False A(2) len by (simp add: r' base_def map_update list_update_swap)
    then have "grp.wtotal W (vals accs') = plus_ec (grp.wtotal W base) (grp.nmul i (pval p))"
      using grp.wtotal_add_at [of i base W "pval p"] base len onp i by (simp add: W_def)
    moreover have "grp.wtotal W (vals accs) = plus_ec (grp.wtotal W base) (grp.nmul (h + i) (pval p))"
      using grp.wtotal_clear [of "h + i" "vals accs" W] acc(1) len i by (simp add: W_def base_def p_def)
    moreover have "grp.tot (vals sall') = plus_ec (grp.tot (vals sall)) (pval p)"
      using total_add_at [of "vals sall" t "pval p"] sall t onp B(2) False by (simp add: r' map_update)
    ultimately show ?thesis
      using onp base sall by (simp add: grp.nmul_add grp.nmul_plus grp.assoc grp.left_comm grp.comm)
  qed (simp add: r')
qed

lemma reduce_fold:
  shows "accs_ok accs \<Longrightarrow> 2 * h \<le> length accs \<Longrightarrow> accs_ok sall \<Longrightarrow>
    (\<And>it. it \<in> set its \<Longrightarrow> fst it < h \<and> snd it < length sall) \<Longrightarrow>
    foldl (reduceStep C h) (accs, sall) its = (accs', sall') \<Longrightarrow>
    accs_ok accs' \<and> accs_ok sall' \<and> length accs' = length accs \<and> length sall' = length sall
    \<and> plus_ec (grp.wtotal (below (2 * h) (length accs)) (vals accs')) (grp.nmul h (grp.tot (vals sall')))
      = plus_ec (grp.wtotal (below (2 * h) (length accs)) (vals accs)) (grp.nmul h (grp.tot (vals sall)))
    \<and> (\<forall>it\<in>set its. clear_at accs' (h + fst it)) \<and> (\<forall>k\<ge>h. clear_at accs k \<longrightarrow> clear_at accs' k)
    \<and> (\<forall>k\<ge>2 * h. accs' ! k = accs ! k)"
proof (induction its arbitrary: accs sall)
  case (Cons it its)
  obtain i t where it: "it = (i, t)" by (cases it)
  obtain accs1 sall1 where 1: "reduceStep C h (accs, sall) (i, t) = (accs1, sall1)" by (metis surj_pair)
  have i: "i < h" "t < length sall" using Cons.prems(4) [of it] it by auto
  note P = reduceStep_value [OF Cons.prems(1,2,3) i 1]
  have "foldl (reduceStep C h) (accs1, sall1) its = (accs', sall')" using Cons.prems(5) 1 it by simp
  from Cons.IH [OF P(1) _ P(2) _ this] P(3-8) Cons.prems(2,4) show ?case by (auto simp: it)
qed simp

lemma add_all:
  assumes "accs_ok sall" and "h < length accs"
  shows "point_on (accs ! h) \<Longrightarrow> (\<And>i. i \<in> set is \<Longrightarrow> i < length sall) \<Longrightarrow>
    \<exists>q. foldl (\<lambda>accs i. accs[h := Curve_addPP C (accs ! h) (sall ! i)]) accs is = accs[h := q] \<and> point_on q
      \<and> pval q = plus_ec (pval (accs ! h)) (grp.tot (map (\<lambda>i. pval (sall ! i)) is))"
  using assms(2)
proof (induction "is" arbitrary: accs)
  case Nil
  then show ?case by (intro exI [of _ "accs ! h"]) (simp add: point_on_def)
next
  case (Cons i "is")
  have i: "point_on (sall ! i)" using assms(1) Cons.prems(2) by (simp add: accs_ok_nth)
  note A = addPP_on [OF Cons.prems(1) i]
  define accs1 where "accs1 = accs[h := Curve_addPP C (accs ! h) (sall ! i)]"
  have 1: "point_on (accs1 ! h)" "h < length accs1" using A Cons.prems by (simp_all add: accs1_def)
  obtain q where q: "foldl (\<lambda>accs i. accs[h := Curve_addPP C (accs ! h) (sall ! i)]) accs1 is = accs1[h := q]" "point_on q"
    "pval q = plus_ec (pval (accs1 ! h)) (grp.tot (map (\<lambda>i. pval (sall ! i)) is))"
    using Cons.IH [OF 1(1) _ 1(2)] Cons.prems(2) by auto
  have "list_all on (map (\<lambda>i. pval (sall ! i)) is)"
    using assms(1) Cons.prems(2) by (auto simp: list_all_iff intro!: point_on_D)
  then have "pval q = plus_ec (pval (accs ! h)) (grp.tot (map (\<lambda>i. pval (sall ! i)) (i # is)))"
    using q(3) A Cons.prems(1,3) i by (simp add: accs1_def point_on_def grp.assoc)
  with q show ?case by (auto simp: accs1_def)
qed

lemma dbl_times:
  assumes "point_on p"
  shows "point_on ((Curve_dblP C ^^ n) p) \<and> pval ((Curve_dblP C ^^ n) p) = grp.nmul (2 ^ n) (pval p)"
proof (induction n)
  case (Suc n)
  then show ?case using dblP_on [of "(Curve_dblP C ^^ n) p"] assms
    by (simp add: mult_2 grp.nmul_add point_on_def)
qed (use assms in \<open>simp add: point_on_def\<close>)

lemma dbl_at:
  "h < length accs \<Longrightarrow> foldl (\<lambda>accs i. accs[h := Curve_dblP C (accs ! h)]) accs is = accs[h := (Curve_dblP C ^^ length is) (accs ! h)]"
  by (induction "is" arbitrary: accs) (simp_all add: funpow_swap1)

definition memory_ok :: "'e memory \<Rightarrow> bool" where
  "memory_ok Z \<longleftrightarrow> ok (mem_zero Z) \<and> val (mem_zero Z) = 0 \<and> (\<forall>n. length (mem_new Z n) = n)"

lemma zero_bytes: "memory_ok Z \<Longrightarrow> point_on (pt (mem_zero Z) (mem_zero Z) (mem_zero Z) (mem_zero Z))
    \<and> pval (pt (mem_zero Z) (mem_zero Z) (mem_zero Z) (mem_zero Z)) = Inf"
  by (simp add: memory_ok_def point_on_def point_ok_def point_val_def)

lemma total_Inf: "list_all (\<lambda>p. p = Inf) ps \<Longrightarrow> grp.tot ps = Inf"
  by (induction ps) simp_all

lemma wtotal_null:
  assumes "length W = length ps" and "\<And>k. k < length ps \<Longrightarrow> grp.nmul (W ! k) (ps ! k) = Inf"
  shows "grp.wtotal W ps = Inf"
  unfolding weighted_total_def using assms by (intro total_Inf) (simp add: list_all_length)

lemma reduce_one:
  assumes "accs_ok accs" and "2 \<le> length accs"
  shows "grp.wtotal (below 2 (length accs)) (vals accs) = pval (accs ! 1)"
proof -
  have on1: "on (pval (accs ! 1))" using assms by (simp add: accs_ok_nth point_on_D)
  have "grp.wtotal (below 2 (length accs)) ((vals accs)[1 := Inf]) = Inf"
  proof (rule wtotal_null)
    fix k assume "k < length ((vals accs)[1 := Inf])"
    then show "grp.nmul (below 2 (length accs) ! k) ((vals accs)[1 := Inf] ! k) = Inf"
      by (cases "k = 1"; cases "k = 0") simp_all
  qed simp
  then show ?thesis
    using grp.wtotal_clear [of 1 "vals accs" "below 2 (length accs)"] assms on1 by simp
qed

lemma below_half:
  assumes "accs_ok accs" and "2 * h \<le> length accs" and "\<And>k. h \<le> k \<Longrightarrow> k < 2 * h \<Longrightarrow> clear_at accs k"
  shows "grp.wtotal (below (2 * h) (length accs)) (vals accs) = grp.wtotal (below h (length accs)) (vals accs)"
proof (rule wtotal_cong)
  fix k assume "k < length (vals accs)"
  then show "grp.nmul (below (2 * h) (length accs) ! k) (vals accs ! k) = grp.nmul (below h (length accs) ! k) (vals accs ! k)"
    using assms(3) [of k] by (auto simp: clear_at_def)
qed simp_all

lemma reduce_value:
  assumes laws: "tbb_laws T" and Z: "memory_ok Z" and thr: "nThr = max_concurrency T"
  shows "accs_ok accs \<Longrightarrow> 2 ^ Suc m \<le> length accs \<Longrightarrow> reduce C Z T nThr c m accs = (res, accs') \<Longrightarrow>
    point_on res \<and> pval res = grp.wtotal (below (2 ^ Suc m) (length accs)) (vals accs)
    \<and> accs_ok accs' \<and> length accs' = length accs
    \<and> (\<forall>k. 0 < k \<and> k < 2 ^ Suc m \<longrightarrow> clear_at accs' k) \<and> (\<forall>k\<ge>2 ^ Suc m. accs' ! k = accs ! k)"
proof (induction m arbitrary: accs res accs')
  case 0
  have p: "point_on (accs ! 1)" using 0 by (simp add: accs_ok_nth)
  have "accs' = accs[1 := zeroP]" "res = accs ! 1" using 0 p by (simp_all add: copyPP_on)
  moreover have "clear_at (accs[1 := zeroP]) k" if "0 < k" "k < 2" for k
    using that by (cases "k = 1") (auto simp: clear_at_def)
  ultimately show ?case using 0 p reduce_one [of accs] by auto
next
  case (Suc m)
  define h :: nat where "h = 2 ^ Suc m"
  have h: "0 < h" "2 ^ Suc (Suc m) = 2 * h" by (simp_all add: h_def)
  define L where "L = length accs"
  have L: "2 * h \<le> L" using Suc.prems(2) h by (simp add: L_def)
  define sall0 where "sall0 = replicate nThr (pt (mem_zero Z) (mem_zero Z) (mem_zero Z) (mem_zero Z))"
  have sall0: "accs_ok sall0" "length sall0 = nThr" "grp.tot (vals sall0) = Inf"
    using zero_bytes [OF Z] by (auto simp: sall0_def list_all_iff intro!: total_Inf)
  obtain accs1 sall where 1: "foldl (reduceStep C h) (accs, sall0) (parallel_for T [3, c, m] 0 h) = (accs1, sall)"
    by (metis surj_pair)
  have its: "fst it < h \<and> snd it < length sall0" if "it \<in> set (parallel_for T [3, c, m] 0 h)" for it
    using schedule_set [OF laws, of "[3, c, m]" 0 h] tbb_laws.thread_bound [OF laws that] that sall0(2) thr by auto
  from reduce_fold [OF Suc.prems(1) L [unfolded L_def] sall0(1) its 1]
  have R: "accs_ok accs1" "accs_ok sall" "length accs1 = L" "length sall = nThr"
    "plus_ec (grp.wtotal (below (2 * h) L) (vals accs1)) (grp.nmul h (grp.tot (vals sall)))
      = grp.wtotal (below (2 * h) L) (vals accs)"
    "\<forall>it\<in>set (parallel_for T [3, c, m] 0 h). clear_at accs1 (h + fst it)" "\<forall>k\<ge>2 * h. accs1 ! k = accs ! k"
    using sall0 Suc.prems(1) by (simp_all add: L_def)
  have clear1: "clear_at accs1 k" if k: "h \<le> k" "k < 2 * h" for k
  proof -
    obtain it where "it \<in> set (parallel_for T [3, c, m] 0 h)" "fst it = k - h"
      using schedule_set [OF laws, of "[3, c, m]" 0 h] k by (force simp: image_iff)
    then show ?thesis using R(6) k by force
  qed
  have hL: "h < length accs1" using L R(3) h by simp
  have h1: "point_on (accs1 ! h)" "pval (accs1 ! h) = Inf"
    using accs_ok_nth [OF R(1) hL] clear1 [of h] h hL by (simp_all add: clear_at_def)
  obtain q where q: "foldl (\<lambda>accs i. accs[h := Curve_addPP C (accs ! h) (sall ! i)]) accs1 [0..<nThr] = accs1[h := q]"
    "point_on q" "pval q = plus_ec (pval (accs1 ! h)) (grp.tot (map (\<lambda>i. pval (sall ! i)) [0..<nThr]))"
    using add_all [OF R(2) hL h1(1), of "[0..<nThr]"] R(4) by auto
  have "map (\<lambda>i. pval (sall ! i)) [0..<nThr] = vals sall" using R(4) by (intro nth_equalityI) simp_all
  then have qv: "pval q = grp.tot (vals sall)" using q(3) h1 R(2) by simp
  define accs2 where "accs2 = accs1[h := q]"
  have 2: "accs_ok accs2" "length accs2 = L" using R q by (simp_all add: accs2_def)
  obtain p1 accs3 where 3: "reduce C Z T nThr c m accs2 = (p1, accs3)" by (metis surj_pair)
  have "2 ^ Suc m \<le> length accs2" using 2(2) L h by (simp add: h_def)
  from Suc.IH [OF 2(1) this 3]
  have I: "point_on p1" "pval p1 = grp.wtotal (below h L) (vals accs2)" "accs_ok accs3" "length accs3 = L"
    "\<forall>k. 0 < k \<and> k < h \<longrightarrow> clear_at accs3 k" "\<forall>k\<ge>h. accs3 ! k = accs2 ! k" using 2(2) by (simp_all add: h_def)
  have h3: "accs3 ! h = q" "h < length accs3" using I(4,6) hL R(3) by (simp_all add: accs2_def)
  define d where "d = (Curve_dblP C ^^ Suc m) q"
  have d: "point_on d" "pval d = grp.nmul h (grp.tot (vals sall))"
    using dbl_times [OF q(2), of "Suc m"] qv by (simp_all add: d_def h_def)
  have D: "foldl (\<lambda>accs i. accs[h := Curve_dblP C (accs ! h)]) accs3 [0..<Suc m] = accs3[h := d]"
    using dbl_at [OF h3(2), of "[0..<Suc m]"] h3(1) by (simp only: length_upt diff_zero d_def)
  have "(res, accs') = (Curve_addPP C p1 (accs3[h := d] ! h), accs3[h := d, h := zeroP])"
    using Suc.prems(3) unfolding reduce.simps Let_def h_def [symmetric] sall0_def [symmetric] 1 prod.case
      q(1) accs2_def [symmetric] 3 D by (rule sym)
  then have res: "res = Curve_addPP C p1 d" and accs': "accs' = accs3[h := zeroP]" using h3(2) by simp_all
  note A = addPP_on [OF I(1) d(1)]
  have "grp.wtotal (below h L) (vals accs2) = grp.wtotal (below h L) (vals accs1)"
  proof (rule wtotal_cong)
    fix k assume "k < length (vals accs2)"
    then show "grp.nmul (below h L ! k) (vals accs2 ! k) = grp.nmul (below h L ! k) (vals accs1 ! k)"
      using 2(2) R(3) by (cases "k = h") (simp_all add: accs2_def)
  qed (use 2 R in simp_all)
  then have "pval res = grp.wtotal (below (2 * h) L) (vals accs)"
    using A(2) I(2) d(2) below_half [OF R(1) _ clear1] R(3,5) L by (simp add: res)
  moreover have "clear_at accs' k" if "0 < k" "k < 2 * h" for k
  proof -
    consider "k < h" | "k = h" | "h < k" by linarith
    then show ?thesis
    proof cases
      case 3
      then have "accs' ! k = accs1 ! k" using I(6) by (simp add: accs' accs2_def)
      then show ?thesis using clear1 [of k] 3 that R(3) I(4) by (simp add: clear_at_def accs')
    qed (use I that h3 in \<open>auto simp: accs' clear_at_def\<close>)
  qed
  moreover have "accs' ! k = accs ! k" if "2 * h \<le> k" for k
    using that h I(6) R(7) by (simp add: accs' accs2_def)
  ultimately show ?case
    using A(1) I(3,4) unfolding h(2) res L_def [symmetric] by (simp add: accs')
qed

subsection \<open>The chunk loop\<close>

definition clean :: "nat \<Rightarrow> 'e point list \<Rightarrow> bool" where
  "clean A accs \<longleftrightarrow> (\<forall>k<length accs. k mod A \<noteq> 0 \<longrightarrow> pval (accs ! k) = Inf)"

lemma clean_wtotal: "clean A accs \<Longrightarrow> grp.wtotal (weights A (length accs)) (vals accs) = Inf"
  by (rule wtotal_null) (auto simp: clean_def)

text \<open>What a loop over the bases adds to the buckets.\<close>

definition adds :: "'e multiexp \<Rightarrow> ('e point list \<Rightarrow> 'e point list) \<Rightarrow> 'k ec \<Rightarrow> bool" where
  "adds M f S \<longleftrightarrow> on S \<and> (\<forall>accs. accs_ok accs \<and> length accs = nThreads M * accsPerChunk M \<longrightarrow>
     accs_ok (f accs) \<and> length (f accs) = length accs
     \<and> grp.wtotal (weights (accsPerChunk M) (length accs)) (vals (f accs))
       = plus_ec (grp.wtotal (weights (accsPerChunk M) (length accs)) (vals accs)) S)"

lemma chunk_value:
  assumes laws: "tbb_laws T" and Z: "memory_ok Z" and thr: "nThreads M = max_concurrency T"
    and A: "accsPerChunk M = 2 ^ bitsPerChunk M" "1 \<le> bitsPerChunk M" and f: "adds M f S"
    and acc: "accs_ok accs" "length accs = nThreads M * accsPerChunk M" "clean (accsPerChunk M) accs"
    and r: "reduce C Z T (nThreads M) c (bitsPerChunk M - 1) (packThreads C M T c (f accs)) = (res, accs')"
  shows "point_on res" and "pval res = S" and "accs_ok accs'" and "length accs' = length accs"
    and "clean (accsPerChunk M) accs'"
proof -
  define L where "L = length accs"
  define X where "X = accsPerChunk M"
  have X: "X = 2 ^ Suc (bitsPerChunk M - 1)" "0 < X" using A by (simp_all add: X_def)
  have XL: "X \<le> L" using acc(2) tbb_laws.some_thread [OF laws] thr by (simp add: L_def X_def)
  have F: "accs_ok (f accs)" "length (f accs) = L" "grp.wtotal (weights X L) (vals (f accs)) = S"
    using f acc clean_wtotal [OF acc(3)] by (simp_all add: adds_def L_def X_def)
  define accs1 where "accs1 = packThreads C M T c (f accs)"
  have lenf: "length (f accs) = nThreads M * accsPerChunk M" using F(2) acc(2) by (simp add: L_def)
  have posA: "0 < accsPerChunk M" using X(2) by (simp add: X_def)
  note Q = packThreads_value [where c = c, OF laws F(1) lenf posA]
  have P: "accs_ok accs1" "length accs1 = L" "grp.wtotal (weights X L) (vals accs1) = S" "X \<le> k \<Longrightarrow> clear_at accs1 k" for k
    using Q(1,2,3) Q(4) [of k] F(2,3) by (simp_all add: accs1_def X_def)
  have W: "grp.wtotal (weights X L) (vals accs1) = grp.wtotal (below X L) (vals accs1)"
  proof (rule wtotal_cong)
    fix k assume "k < length (vals accs1)"
    then show "grp.nmul (weights X L ! k) (vals accs1 ! k) = grp.nmul (below X L ! k) (vals accs1 ! k)"
      using P(2,4) by (cases "k < X") (simp_all add: clear_at_def)
  qed (use P in simp_all)
  note R = reduce_value [OF laws Z thr P(1), of "bitsPerChunk M - 1", folded X(1), OF _ r [folded accs1_def]]
  show "point_on res" "pval res = S" "accs_ok accs'" "length accs' = length accs"
    using R XL P W by (simp_all add: L_def)
  have "pval (accs' ! k) = Inf" if k: "k < L" "k mod X \<noteq> 0" for k
  proof (cases "k < X")
    case True
    moreover have "0 < k" using k(2) by (cases k) simp_all
    ultimately show ?thesis using R XL P k by (simp add: clear_at_def)
  next
    case False
    then show ?thesis using R XL P k by (simp add: clear_at_def)
  qed
  then show "clean (accsPerChunk M) accs'" using R XL P by (simp add: clean_def X_def)
qed

lemma runChunks_value:
  assumes laws: "tbb_laws T" and Z: "memory_ok Z" and thr: "nThreads M = max_concurrency T"
    and A: "accsPerChunk M = 2 ^ bitsPerChunk M" "1 \<le> bitsPerChunk M"
    and f: "\<And>c. c < N \<Longrightarrow> adds M (process c) (S c)"
    and acc: "accs_ok accs" "length accs = nThreads M * accsPerChunk M" "clean (accsPerChunk M) accs"
    and r: "runChunks C Z T M process N accs = (results, accs')"
  shows "length results = N \<and> (\<forall>c<N. point_on (results ! c) \<and> pval (results ! c) = S c)"
proof -
  have "n \<le> N \<Longrightarrow> runChunks C Z T M process n accs = (results, accs') \<Longrightarrow>
    length results = n \<and> (\<forall>c<n. point_on (results ! c) \<and> pval (results ! c) = S c)
    \<and> accs_ok accs' \<and> length accs' = length accs \<and> clean (accsPerChunk M) accs'" for n results accs'
  proof (induction n arbitrary: results accs')
    case 0
    then show ?case using acc by (simp add: runChunks_def)
  next
    case (Suc n)
    obtain rs as where 1: "runChunks C Z T M process n accs = (rs, as)" by (metis surj_pair)
    obtain res as' where 2: "reduce C Z T (nThreads M) n (bitsPerChunk M - 1) (packThreads C M T n (process n as)) = (res, as')"
      by (metis surj_pair)
    have rs: "results = rs @ [res]" "accs' = as'"
      using Suc.prems(2) 1 2 by (simp_all add: runChunks_def Let_def)
    have n: "n < N" using Suc.prems(1) by simp
    from Suc.IH [OF _ 1] n
    have I: "length rs = n" "\<forall>c<n. point_on (rs ! c) \<and> pval (rs ! c) = S c" "accs_ok as" "length as = length accs"
      "clean (accsPerChunk M) as" by simp_all
    note V = chunk_value [OF laws Z thr A f [OF n] I(3) _ I(5) 2]
    show ?case using I V acc(2) by (auto simp: rs nth_append less_Suc_eq)
  qed
  from this [OF order_refl r] show ?thesis by blast
qed

subsection \<open>Combining the chunks\<close>

definition msum :: "nat \<Rightarrow> (nat \<Rightarrow> nat) \<Rightarrow> (nat \<Rightarrow> 'k ec) \<Rightarrow> 'k ec" where
  "msum n s P = grp.tot (map (\<lambda>i. grp.nmul (s i) (P i)) [0..<n])"

lemma msum_cong: "(\<And>i. i < n \<Longrightarrow> s i = s' i) \<Longrightarrow> msum n s P = msum n s' P"
  unfolding msum_def by (rule arg_cong [where f = "grp.tot"], rule map_cong) simp_all

lemma on_msum: "(\<And>i. i < n \<Longrightarrow> on (P i)) \<Longrightarrow> on (msum n s P)"
  unfolding msum_def by (rule grp.on_total) (simp add: list_all_iff)

lemma msum_horner:
  assumes "\<And>i. i < n \<Longrightarrow> on (P i)"
  shows "plus_ec (grp.nmul m (msum n s P)) (msum n t P) = msum n (\<lambda>i. m * s i + t i) P"
proof -
  have "grp.nmul m (msum n s P) = grp.tot (map (\<lambda>i. grp.nmul (m * s i) (P i)) [0..<n])"
    unfolding msum_def using assms
    by (subst grp.nmul_total) (auto simp: list_all_iff grp.nmul_mult intro!: arg_cong [where f = "grp.tot"])
  then have "plus_ec (grp.nmul m (msum n s P)) (msum n t P)
      = grp.tot (map (\<lambda>i. plus_ec (grp.nmul (m * s i) (P i)) (grp.nmul (t i) (P i))) [0..<n])"
    unfolding msum_def using assms by (subst grp.total_map_plus) (simp_all add: msum_def)
  also have "\<dots> = msum n (\<lambda>i. m * s i + t i) P"
    unfolding msum_def using assms by (intro arg_cong [where f = "grp.tot"] map_cong) (simp_all add: grp.nmul_add)
  finally show ?thesis .
qed

lemma combine_value:
  assumes P: "\<And>i. i < n \<Longrightarrow> on (P i)"
    and res: "\<And>c. c < J \<Longrightarrow> point_on (results ! c) \<and> pval (results ! c) = msum n (\<lambda>i. s i div 2 ^ (c * b) mod 2 ^ b) P"
  shows "point_on r \<Longrightarrow> pval r = msum n (\<lambda>i. s i div 2 ^ (J * b)) P \<Longrightarrow>
    point_on (combine C b results J r) \<and> pval (combine C b results J r) = msum n s P"
  using res
proof (induction J arbitrary: r)
  case (Suc j)
  define r' where "r' = Curve_addPP C ((Curve_dblP C ^^ b) r) (results ! j)"
  note D = dbl_times [OF Suc.prems(1), of b]
  have rj: "point_on (results ! j)" "pval (results ! j) = msum n (\<lambda>i. s i div 2 ^ (j * b) mod 2 ^ b) P"
    using Suc.prems(3) [of j] by simp_all
  note A = addPP_on [OF conjunct1 [OF D] rj(1)]
  have "pval r' = msum n (\<lambda>i. 2 ^ b * (s i div 2 ^ (Suc j * b)) + s i div 2 ^ (j * b) mod 2 ^ b) P"
    using A(2) D rj(2) Suc.prems(2) msum_horner [OF P] by (simp add: r'_def)
  also have "\<dots> = msum n (\<lambda>i. s i div 2 ^ (j * b)) P"
  proof (rule msum_cong)
    fix i
    have "s i div 2 ^ (Suc j * b) = s i div 2 ^ (j * b) div 2 ^ b"
      by (simp add: div_mult2_eq [symmetric] power_add mult.commute)
    then show "2 ^ b * (s i div 2 ^ (Suc j * b)) + s i div 2 ^ (j * b) mod 2 ^ b = s i div 2 ^ (j * b)" by simp
  qed
  finally show ?case using Suc.IH [of r'] A(1) Suc.prems(3) by (simp add: r'_def)
qed simp

subsection \<open>The whole computation\<close>

lemma initAccs_value:
  assumes "tbb_laws T" and "length accs = nThreads M * accsPerChunk M" and "length accs \<le> 2147483648"
  shows "initAccs C M T accs = replicate (length accs) zeroP"
proof -
  define body where "body z = (\<lambda>accs (i :: nat, t :: nat). if i < 2147483648 then accs[i := z] else accs)" for z :: "'e point"
  have fold: "length (foldl (body z) as its) = length as
    \<and> (\<forall>k<length as. foldl (body z) as its ! k = (if k \<in> fst ` set its then z else as ! k))"
    if "length as \<le> 2147483648" for z :: "'e point" and as and its :: "(nat \<times> nat) list"
    using that
  proof (induction its arbitrary: as)
    case (Cons it its)
    obtain i t where "it = (i, t)" by (cases it)
    then show ?case using Cons.IH [of "as[i := z]"] Cons.IH [of as] Cons.prems by (auto simp: body_def nth_list_update)
  qed simp
  have "fst ` set (parallel_for T [0] 0 (nThreads M * accsPerChunk M)) = {0..<length accs}"
    using schedule_set [OF assms(1)] assms(2) by simp
  then show ?thesis
    using fold [OF assms(3), of zeroP] unfolding initAccs_def body_def by (intro nth_equalityI) simp_all
qed

lemma process_adds:
  assumes base: "\<And>i. i < n \<Longrightarrow> aff_on (bases M ! i)"
    and dig: "\<And>i. i < n \<Longrightarrow> unat (getChunk M i c) < accsPerChunk M"
    and its: "mset (map fst its) = mset [0..<n]" "\<And>it. it \<in> set its \<Longrightarrow> snd it < nThreads M"
  shows "adds M (\<lambda>accs. foldl (\<lambda>accs it. if skip (fst it) then accs else processBase C M c accs it) accs its)
    (msum n (\<lambda>i. if skip i then 0 else unat (getChunk M i c)) (\<lambda>i. aval (bases M ! i)))"
proof -
  have set_its: "fst ` set its = {0..<n}" using mset_eq_setD [OF its(1)] by simp
  define g where "g = (\<lambda>i. grp.nmul (if skip i then 0 else unat (getChunk M i c)) (aval (bases M ! i)))"
  have on: "on (aval (bases M ! i))" if "i < n" for i using base [OF that] by (simp add: aff_on_def)
  have "mset (map g (map fst its)) = mset (map g [0..<n])" using its(1) by (metis mset_map)
  moreover have "list_all on (map g (map fst its))"
  proof -
    have "on (g i)" if "i < n" for i using on [OF that] by (simp add: g_def)
    moreover have "fst it < n" if "it \<in> set its" for it using set_its that by auto
    ultimately show ?thesis by (simp add: list_all_iff)
  qed
  ultimately have "grp.tot (map g (map fst its)) = grp.tot (map g [0..<n])" by (rule grp.total_mset)
  then have T: "grp.tot (map g (map fst its)) = msum n (\<lambda>i. if skip i then 0 else unat (getChunk M i c)) (\<lambda>i. aval (bases M ! i))"
    by (simp add: msum_def g_def)
  have it: "fst it < n \<and> snd it < nThreads M" if "it \<in> set its" for it using set_its its(2) that by auto
  show ?thesis unfolding adds_def
    using process_loop [where skip = skip and its = its, OF base dig _ _ it] T on_msum [OF on]
    unfolding Let_def g_def [symmetric] by simp
qed

lemma chunkBits_bounds: "2 \<le> chunkBits n" "chunkBits n \<le> 16"
  by (simp_all add: chunkBits_def Let_def)

text \<open>The numbers of chunks are small enough for the conversions.\<close>

lemma chunk_count:
  assumes "8 \<le> sz" and "sz < 268435456" and "2 \<le> b"
  shows "unat (word_of_nat sz * 8 - 1 :: u64) = sz * 8 - 1"
    and "nat (sint (word_of_nat ((sz * 8 - 1) div b + 1) - 2 :: u32) + 1) = (sz * 8 - 1) div b"
proof -
  have "unat (word_of_nat sz * 8 :: u64) = sz * 8" using assms by (simp add: unat_word_ariths unat_of_nat)
  moreover have "1 \<le> (word_of_nat sz * 8 :: u64)" using calculation assms by (simp add: word_le_nat_alt)
  ultimately show "unat (word_of_nat sz * 8 - 1 :: u64) = sz * 8 - 1" by (simp add: unat_sub)
  define q where "q = (sz * 8 - 1) div b"
  have "q \<le> (sz * 8 - 1) div 2" unfolding q_def using assms by (intro div_le_mono2) simp_all
  then have q: "q < 1073741824" using assms by linarith
  show "nat (sint (word_of_nat (q + 1) - 2 :: u32) + 1) = q"
  proof (cases "q = 0")
    case False
    have "(word_of_nat (q + 1) - 2 :: u32) = word_of_nat (q - 1)" using False by (cases q) simp_all
    moreover have "unat (word_of_nat (q - 1) :: u32) = q - 1" using q by (simp add: unat_of_nat)
    ultimately have "sint (word_of_nat (q + 1) - 2 :: u32) = int (q - 1)" using q by (intro signed_nonneg) simp_all
    then show ?thesis using False by simp
  qed simp
qed

theorem multiexp_with_value:
  assumes laws: "tbb_laws T" and thr_max: "max_concurrency T < 32768" and Z: "memory_ok Z"
    and base: "\<And>i. i < n \<Longrightarrow> aff_on (bs ! i)" and len: "length ss = n * sz" and sz: "8 \<le> sz" "sz < 268435456"
    and proc: "\<And>M c. n_bases M = n \<Longrightarrow> nThreads M = max_concurrency T \<Longrightarrow> bases M = bs \<Longrightarrow>
      (\<And>i. i < n \<Longrightarrow> unat (getChunk M i c) < accsPerChunk M) \<Longrightarrow>
      adds M (process M c) (msum n (\<lambda>i. if skip i then 0 else unat (getChunk M i c)) (\<lambda>i. aval (bs ! i)))"
    and one: "n = 1 \<Longrightarrow> \<not> skip 0"
  shows "point_on (multiexp_with C Z T process bs ss sz n)
    \<and> pval (multiexp_with C Z T process bs ss sz n)
      = msum n (\<lambda>i. if skip i then 0 else scalar_at ss sz i) (\<lambda>i. aval (bs ! i))"
proof -
  have P: "on (aval (bs ! i))" if "i < n" for i using base [OF that] by (simp add: aff_on_def)
  consider "n = 0" | "n = 1" | "2 \<le> n" by linarith
  then show ?thesis
  proof cases
    case 1
    then show ?thesis by (simp add: multiexp_with_def msum_def)
  next
    case 2
    then have b0: "aff_on (bs ! 0)" using base by simp
    have l: "length (take sz ss) = sz" using len 2 by simp
    have u: "unat (word_of_nat sz :: u32) = sz" using sz by (simp add: unat_of_nat)
    have sa: "scalar_at ss sz 0 = bval (take sz ss)" by (simp add: scalar_at_def)
    from mulByScalarA_value [of "bs ! 0" "take sz ss" sz] b0 l sz 2 one [OF 2] sa P [of 0] show ?thesis
      by (simp add: multiexp_with_def Let_def u msum_def aff_on_def point_on_def ec_mul_def)
  next
    case 3
    define bits where "bits = chunkBits n"
    have bits: "2 \<le> bits" "bits \<le> 16" using chunkBits_bounds by (simp_all add: bits_def)
    define thr where "thr = max_concurrency T"
    define M where "M = \<lparr>bases = bs, scalars = ss, scalarSize = sz, n_bases = n, nThreads = thr,
      bitsPerChunk = bits, accsPerChunk = 2 ^ bits\<rparr>"
    define N where "N = (sz * 8 - 1) div bits + 1"
    define s where "s = (\<lambda>i. if skip i then 0 else scalar_at ss sz i)"
    have cN: "c * bits < 8 * sz" if "c < N" for c
    proof -
      have "c * bits \<le> (sz * 8 - 1) div bits * bits" using that by (intro mult_right_mono) (simp_all add: N_def)
      also have "\<dots> \<le> sz * 8 - 1" by simp
      finally show ?thesis using sz by linarith
    qed
    have Nb: "8 * sz \<le> N * bits"
    proof -
      have "sz * 8 - 1 < ((sz * 8 - 1) div bits + 1) * bits"
        using bits by (metis Suc_eq_plus1 dividend_less_times_div mult.commute mult_Suc_right add.commute not_numeral_le_zero neq0_conv)
      then show ?thesis unfolding N_def by linarith
    qed
    have dig: "unat (getChunk M i c) = scalar_at ss sz i div 2 ^ (c * bits) mod 2 ^ bits" if "i < n" "c < N" for i c
    proof -
      have "(i + 1) * sz \<le> length ss" using that(1) unfolding len by (intro mult_right_mono) simp_all
      then show ?thesis using getChunk_value [of M i c] bits sz cN [OF that(2)] by (simp add: M_def)
    qed
    have S: "adds M (process M c) (msum n (\<lambda>i. s i div 2 ^ (c * bits) mod 2 ^ bits) (\<lambda>i. aval (bs ! i)))" if "c < N" for c
    proof -
      have "adds M (process M c) (msum n (\<lambda>i. if skip i then 0 else unat (getChunk M i c)) (\<lambda>i. aval (bs ! i)))"
        using dig that by (intro proc) (simp_all add: M_def thr_def)
      moreover have "msum n (\<lambda>i. if skip i then 0 else unat (getChunk M i c)) (\<lambda>i. aval (bs ! i))
          = msum n (\<lambda>i. s i div 2 ^ (c * bits) mod 2 ^ bits) (\<lambda>i. aval (bs ! i))"
        using dig that by (intro msum_cong) (simp add: s_def)
      ultimately show ?thesis by simp
    qed
    define accs where "accs = initAccs C M T (mem_new Z (thr * 2 ^ bits))"
    have "length (mem_new Z (thr * 2 ^ bits)) = thr * 2 ^ bits" using Z by (simp add: memory_ok_def)
    moreover have "thr * 2 ^ bits \<le> 2147483648"
    proof -
      have "thr * 2 ^ bits \<le> 32768 * 2 ^ 16"
        using thr_max bits by (intro mult_le_mono power_increasing) (simp_all add: thr_def)
      then show ?thesis by simp
    qed
    ultimately have a: "accs = replicate (thr * 2 ^ bits) zeroP"
      using initAccs_value [OF laws, of "mem_new Z (thr * 2 ^ bits)" M] by (simp add: accs_def M_def)
    have acc: "accs_ok accs" "length accs = nThreads M * accsPerChunk M" "clean (accsPerChunk M) accs"
      by (simp_all add: a M_def list_all_iff clean_def)
    obtain results accs' where r: "runChunks C Z T M (process M) N accs = (results, accs')" by (metis surj_pair)
    have R: "length results = N" "\<And>c. c < N \<Longrightarrow> point_on (results ! c) \<and> pval (results ! c)
        = msum n (\<lambda>i. s i div 2 ^ (c * bits) mod 2 ^ bits) (\<lambda>i. aval (bs ! i))"
      using runChunks_value [OF laws Z _ _ _ S acc r] bits by (simp_all add: M_def thr_def)
    have N1: "N - 1 < N" by (simp add: N_def)
    have top: "pval (results ! (N - 1)) = msum n (\<lambda>i. s i div 2 ^ ((N - 1) * bits)) (\<lambda>i. aval (bs ! i))"
    proof -
      have "s i div 2 ^ ((N - 1) * bits) mod 2 ^ bits = s i div 2 ^ ((N - 1) * bits)" for i
      proof -
        have "s i < 2 ^ (8 * sz)" using scalar_at_lt by (simp add: s_def)
        also have "(2 :: nat) ^ (8 * sz) \<le> 2 ^ (N * bits)" using Nb by (intro power_increasing) simp_all
        also have "N * bits = (N - 1) * bits + bits" by (simp add: N_def)
        finally have "s i div 2 ^ ((N - 1) * bits) < 2 ^ bits"
          by (simp add: power_add less_mult_imp_div_less mult.commute)
        then show ?thesis by simp
      qed
      then show ?thesis using R(2) [OF N1] by simp
    qed
    have "point_on (combine C bits results (N - 1) (results ! (N - 1)))
      \<and> pval (combine C bits results (N - 1) (results ! (N - 1))) = msum n s (\<lambda>i. aval (bs ! i))"
      using R(2) N1 top by (intro combine_value [OF P]) simp_all
    moreover have "multiexp_with C Z T process bs ss sz n = combine C bits results (N - 1) (results ! (N - 1))"
      using 3 r copyPP_on [of "results ! (N - 1)"] R(2) [OF N1] chunk_count(2) [OF sz bits(1)]
      unfolding multiexp_with_def Let_def bits_def [symmetric] thr_def [symmetric] chunk_count(1) [OF sz bits(1)]
        N_def [symmetric] M_def [symmetric] accs_def [symmetric] by (simp add: N_def)
    ultimately show ?thesis unfolding s_def by simp
  qed
qed

theorem multiexp_value:
  assumes laws: "tbb_laws T" and thr_max: "max_concurrency T < 32768" and Z: "memory_ok Z"
    and base: "\<And>i. i < n \<Longrightarrow> aff_on (bs ! i)" and len: "length ss = n * sz" and sz: "8 \<le> sz" "sz < 268435456"
    and n: "n < 4294967296"
  shows "point_on (multiexp C Z T bs ss sz n)
    \<and> pval (multiexp C Z T bs ss sz n) = msum n (scalar_at ss sz) (\<lambda>i. aval (bs ! i))"
proof -
  have u: "unat (word_of_nat n :: u32) = n" using n by (simp add: unat_of_nat)
  have "adds M (processChunk C M T c) (msum n (\<lambda>i. if False then 0 else unat (getChunk M i c)) (\<lambda>i. aval (bs ! i)))"
    if M: "n_bases M = n" "nThreads M = max_concurrency T" "bases M = bs"
      and dig: "\<And>i. i < n \<Longrightarrow> unat (getChunk M i c) < accsPerChunk M" for M c
  proof -
    have "adds M (\<lambda>accs. foldl (\<lambda>accs it. if False then accs else processBase C M c accs it) accs (parallel_for T [1, c] 0 n))
      (msum n (\<lambda>i. if False then 0 else unat (getChunk M i c)) (\<lambda>i. aval (bases M ! i)))"
      by (rule process_adds [where skip = "\<lambda>_. False", OF _ dig tbb_laws.each_once [OF laws]])
        (use base M tbb_laws.thread_bound [OF laws] in simp_all)
    moreover have "processChunk C M T c = (\<lambda>accs. foldl (processBase C M c) accs (parallel_for T [1, c] 0 n))"
      by (rule ext) (simp add: processChunk_def M u)
    ultimately show ?thesis unfolding M if_False by simp
  qed
  note A = this
  have "point_on (multiexp_with C Z T (\<lambda>M. processChunk C M T) bs ss sz n)
    \<and> pval (multiexp_with C Z T (\<lambda>M. processChunk C M T) bs ss sz n)
      = msum n (\<lambda>i. if False then 0 else scalar_at ss sz i) (\<lambda>i. aval (bs ! i))"
    by (rule multiexp_with_value [where skip = "\<lambda>_. False", OF laws thr_max Z base len sz A]) simp_all
  then show ?thesis unfolding multiexp_def if_False .
qed

text \<open>The variant with sizes leaves out the indices behind the size of their residue class.\<close>

theorem multiexpX_value:
  assumes laws: "tbb_laws T" and thr_max: "max_concurrency T < 32768" and Z: "memory_ok Z"
    and base: "\<And>i. i < n \<Longrightarrow> aff_on (bs ! i)" and len: "length ss = n * sz" and sz: "8 \<le> sz" "sz < 268435456"
    and one: "n = 1 \<Longrightarrow> \<not> skip_index nx x 0"
  shows "point_on (multiexpX C Z T bs ss sz n nx x)
    \<and> pval (multiexpX C Z T bs ss sz n nx x)
      = msum n (\<lambda>i. if skip_index nx x i then 0 else scalar_at ss sz i) (\<lambda>i. aval (bs ! i))"
proof -
  have "adds M (processChunkX C M T nx x c)
      (msum n (\<lambda>i. if skip_index nx x i then 0 else unat (getChunk M i c)) (\<lambda>i. aval (bs ! i)))"
    if M: "n_bases M = n" "nThreads M = max_concurrency T" "bases M = bs"
      and dig: "\<And>i. i < n \<Longrightarrow> unat (getChunk M i c) < accsPerChunk M" for M c
  proof -
    have "adds M (\<lambda>accs. foldl (\<lambda>accs it. if skip_index nx x (fst it) then accs else processBase C M c accs it) accs
        (parallel_for T [1, c] 0 n))
      (msum n (\<lambda>i. if skip_index nx x i then 0 else unat (getChunk M i c)) (\<lambda>i. aval (bases M ! i)))"
      by (rule process_adds [OF _ dig tbb_laws.each_once [OF laws]])
        (use base M tbb_laws.thread_bound [OF laws] in simp_all)
    moreover have "processChunkX C M T nx x c = (\<lambda>accs. foldl (\<lambda>accs it. if skip_index nx x (fst it) then accs
        else processBase C M c accs it) accs (parallel_for T [1, c] 0 n))"
      by (rule ext) (simp add: processChunkX_def M)
    ultimately show ?thesis unfolding M by simp
  qed
  note A = this
  show ?thesis unfolding multiexpX_def
    by (rule multiexp_with_value [where skip = "skip_index nx x", OF laws thr_max Z base len sz A one])
qed

end

end
