(* ===== verification/Bn254_Multiexp.thy ===== *)
theory Bn254_Multiexp
  imports Bn254_Groups Multiexp_Laws
begin

section \<open>Multi-exponentiation on the groups of BN254\<close>

text \<open>
  A memory whose fresh cells hold zero bytes satisfies the laws of the allocator, and the two curves
  satisfy those the multi-exponentiation rests on.
\<close>

definition zero_memory :: "'e \<Rightarrow> 'e memory" where
  "zero_memory z = \<lparr>mem_new = \<lambda>n. replicate n (pt z z z z), mem_zero = z\<rparr>"

definition fresh_ok :: "('e \<Rightarrow> bool) \<Rightarrow> ('e \<Rightarrow> 'k :: zero) \<Rightarrow> 'e memory \<Rightarrow> bool" where
  "fresh_ok ok val Z \<longleftrightarrow> ok (mem_zero Z) \<and> val (mem_zero Z) = 0 \<and> (\<forall>n. length (mem_new Z n) = n)"

lemma fresh_memory_ok: "curve_group F ok val aa ab agx agy \<Longrightarrow> fresh_ok ok val Z \<Longrightarrow> curve_group.memory_ok ok val Z"
  by (simp add: fresh_ok_def curve_group.memory_ok_def)

text \<open>The sum of the multiples of the bases by the scalars of the packed array.\<close>

definition multi_sum :: "('a \<Rightarrow> 'k :: field ec) \<Rightarrow> 'a list \<Rightarrow> u8 list \<Rightarrow> nat \<Rightarrow> nat \<Rightarrow> 'k ec" where
  "multi_sum v bs ss sz n =
     list_total (ec_add 0) Inf (map (\<lambda>i. ec_mul 0 (scalar_at ss sz i) (v (bs ! i))) [0..<n])"

context curve_group begin

lemma multiMulByScalar_value:
  assumes "val aa = 0"
    and "tbb_laws T" and "max_concurrency T < 32768" and "fresh_ok ok val Z" and "\<forall>a\<in>set bs. aok a \<and> ec_on 0 (val ab) (aval a)"
    and "length bs = n" and "length ss = n * sz" and "8 \<le> sz" "sz < 268435456" and "n < 4294967296"
  shows "pok (Curve_multiMulByScalar C Z T bs ss sz n)
    \<and> ec_on 0 (val ab) (pval (Curve_multiMulByScalar C Z T bs ss sz n))
    \<and> pval (Curve_multiMulByScalar C Z T bs ss sz n) = multi_sum aval bs ss sz n"
proof -
  have Z: "memory_ok Z" using assms(4) by (simp add: fresh_ok_def memory_ok_def)
  have b: "aff_on (bs ! i)" if "i < n" for i using assms(1,5,6) that by (simp add: aff_on_def)
  have "msum n (scalar_at ss sz) (\<lambda>i. aval (bs ! i)) = multi_sum aval bs ss sz n"
    by (simp add: msum_def multi_sum_def ec_mul_def assms(1))
  from multiexp_value [OF assms(2,3) Z b assms(7-10), unfolded this point_on_def assms(1)] show ?thesis
    unfolding Curve_multiMulByScalar_def by blast
qed

end

subsection \<open>Properties\<close>

text \<open>
  C4. \<open>multiMulByScalar\<close> (the bucket method over TBB threads) is the sum of the multiples of the bases
  by the scalars, on both curves, for every schedule of the parallel loops that runs each index once,
  every number of threads below \<open>2 ^ 15\<close> and every content of the fresh accumulators; for no base, one
  base and many, zero scalars and neutral bases included. Scalars have at least eight and less than
  \<open>2 ^ 28\<close> bytes, and there are less than \<open>2 ^ 32\<close> bases.
\<close>

theorem multiMulByScalar_is_sum:
  assumes "gmp_laws G" and "G1 G = Some C1" and "G2 G = Some C2" and "tbb_laws T" and "max_concurrency T < 32768"
    and "fresh_ok fq_ok fq_val Z" and "fresh_ok fq2_ok fq2_val Z2"
    and "length bs = n" and "length bs2 = n" and "length ss = n * sz"
    and "8 \<le> sz" and "sz < 268435456" and "n < 4294967296"
    and "\<forall>a\<in>set bs. aff_ok fq_ok a \<and> ec_on 0 3 (aff_val fq_val a)"
    and "\<forall>a\<in>set bs2. aff_ok fq2_ok a \<and> ec_on 0 G2_b (aff_val fq2_val a)"
  shows "point_val fq_val (Curve_multiMulByScalar C1 Z T bs ss sz n) = multi_sum (aff_val fq_val) bs ss sz n
    \<and> point_ok fq_ok fq_val (Curve_multiMulByScalar C1 Z T bs ss sz n)
    \<and> point_val fq2_val (Curve_multiMulByScalar C2 Z2 T bs2 ss sz n) = multi_sum (aff_val fq2_val) bs2 ss sz n
    \<and> point_ok fq2_ok fq2_val (Curve_multiMulByScalar C2 Z2 T bs2 ss sz n)"
proof -
  obtain aa ab agx agy where L: "curve_group (RawFq_ops G) fq_ok fq_val aa ab agx agy"
    and C: "C1 = Curve_initCurve (RawFq_ops G) aa ab agx agy" and a: "fq_val aa = 0" "fq_val ab = 3"
    using gmp_g1_group [OF assms(1,2)] .
  obtain ba bb bgx bgy where L2: "curve_group (F2_ops (F2q G)) fq2_ok fq2_val ba bb bgx bgy"
    and C2: "C2 = Curve_initCurve (F2_ops (F2q G)) ba bb bgx bgy" and b: "fq2_val ba = 0" "fq2_val bb = G2_b"
    using gmp_g2_group [OF assms(1,3)] .
  note P = curve_group.multiMulByScalar_value [OF L a(1) assms(4-6) _ assms(8,10-13), unfolded a, OF assms(14)]
    curve_group.multiMulByScalar_value [OF L2 b(1) assms(4,5,7) _ assms(9,10-13), unfolded b, OF assms(15)]
  show ?thesis unfolding C C2 using P by blast
qed

theorem multiMulByScalar_is_sum_witness:
  "point_val fq_val (Curve_multiMulByScalar (the (G1 ref_gmp)) (zero_memory [0, 0, 0, 0]) (round_robin 3)
     [c_foneAffine (the (G1 ref_gmp)), c_foneAffine (the (G1 ref_gmp))]
     [2, 0, 0, 0, 0, 0, 0, 0, 3, 0, 0, 0, 0, 0, 0, 0] 8 2)
   = ec_add 0 (ec_mul 0 2 (Aff 1 2)) (ec_mul 0 3 (Aff 1 2))"
proof -
  let ?ss = "[2, 0, 0, 0, 0, 0, 0, 0, 3, 0, 0, 0, 0, 0, 0, 0] :: u8 list"
  have on: "ec_on 0 3 (aff_val fq_val (c_foneAffine ref.g1.C))" unfolding ref.g1_generator(4) by simp
  have za: "aff_ok fq2_ok (c_fzeroAffine ref.g2.C)" "ec_on 0 G2_b (aff_val fq2_val (c_fzeroAffine ref.g2.C))"
    by (simp_all add: Curve_initCurve_def Let_def aff_ok_def aff_val_def field_code)
  have z: "fq_ok [0, 0, 0, 0]" "fq_val [0, 0, 0, 0] = 0" by (simp_all add: fq_ok_def fq_val_def reduced_def mval_def)
  have Z: "fresh_ok fq_ok fq_val (zero_memory [0, 0, 0, 0])"
    "fresh_ok fq2_ok fq2_val (zero_memory (f2 [0, 0, 0, 0] [0, 0, 0, 0]))"
    using z by (simp_all add: fresh_ok_def zero_memory_def fq2_ok_def fq2_val_def zero_fq2_def)
  have thr: "max_concurrency (round_robin 3) < 32768" by (simp add: round_robin_def)
  have s: "scalar_at ?ss 8 0 = 2" "scalar_at ?ss 8 1 = 3" by (simp_all add: scalar_at_def)
  have "multi_sum (aff_val fq_val) [c_foneAffine ref.g1.C, c_foneAffine ref.g1.C] ?ss 8 2
      = ec_add 0 (ec_mul 0 2 (Aff 1 2)) (ec_mul 0 3 (Aff 1 2))"
    using s unfolding multi_sum_def by (simp add: upt_rec list_total_def ref.g1_generator(4))
  moreover have "length ?ss = 2 * 8" by simp
  ultimately show ?thesis
    using multiMulByScalar_is_sum [OF ref_gmp_laws ref_G1 ref_G2 round_robin_laws [of 3] thr Z, of
        "[c_foneAffine ref.g1.C, c_foneAffine ref.g1.C]" 2 "[c_fzeroAffine ref.g2.C, c_fzeroAffine ref.g2.C]" ?ss 8]
      ref.g1_generator(3) on za
    unfolding ref_G1 option.sel by simp
qed

end
