(* ===== verification/Fr_Prime.thy ===== *)
theory Fr_Prime
  imports Fq_Prime
begin

section \<open>The scalar field modulus is prime\<close>

text \<open>
  The certificate for the other modulus: an element of order \<open>2 ^ 28\<close> (the same element shows that there
  is a non-residue, on which the search of the FFT constructor relies) and elements of order three
  more primes, whose product with \<open>2 ^ 28\<close> is above the cube root of the modulus.
\<close>

lemma prime_237073: "is_prime 237073"
  by (rule is_prime_by_trial [of _ 487]) (simp_all add: upt_rec)

subsection \<open>An element of order a power of two\<close>

text \<open>Quotients and remainders of repeated squarings of \<open>c\<close>, ending in the residue \<open>d\<close>.\<close>

fun square_chain :: "nat \<Rightarrow> nat \<Rightarrow> (nat \<times> nat) list \<Rightarrow> nat \<Rightarrow> bool" where
  "square_chain n c [] d \<longleftrightarrow> c = d"
| "square_chain n c ((k, e) # s) d \<longleftrightarrow> c * c = k * n + e \<and> square_chain n e s d"

lemma square_chain_sound: "square_chain n c s d \<Longrightarrow> length s = m \<Longrightarrow> c ^ 2 ^ m mod n = d mod n"
proof (induction n c s d arbitrary: m rule: square_chain.induct)
  case (2 n c k e s d)
  have "c ^ 2 ^ m mod n = (c * c) ^ 2 ^ length s mod n"
    using 2(3) by (auto simp: power_mult power2_eq_square)
  also have "\<dots> = (c * c mod n) ^ 2 ^ length s mod n" by (simp add: power_mod)
  also have "c * c mod n = e mod n" using 2(2) by simp
  finally show ?case using 2 by (simp add: power_mod)
qed simp

lemma dvd_two_power: "d dvd (2 :: nat) ^ k \<Longrightarrow> \<exists>j\<le>k. d = 2 ^ j"
proof (induction k arbitrary: d)
  case (Suc k)
  show ?case
  proof (cases "even d")
    case True
    then obtain e where d: "d = 2 * e" by auto
    then have "e dvd 2 ^ k" using Suc.prems by simp
    then obtain j where "j \<le> k" "e = 2 ^ j" using Suc.IH by blast
    then have "Suc j \<le> Suc k" "d = 2 ^ Suc j" using d by simp_all
    then show ?thesis by blast
  next
    case False
    then have "coprime d 2" by simp
    then have "coprime d (2 ^ Suc k)" by simp
    then have "d = 1" using Suc.prems by (metis coprime_common_divisor dvd_refl nat_dvd_1_iff_1)
    then have "0 \<le> Suc k" "d = 2 ^ 0" by simp_all
    then show ?thesis by blast
  qed
qed simp

lemma order_two_power:
  assumes p: "is_prime p" "p dvd n" "odd p" and w: "w ^ 2 ^ k mod n = n - 1" and n: "1 < n"
  shows "2 ^ Suc k dvd p - 1"
proof -
  have p1: "2 < p" using p(1,3) unfolding is_prime_def by (metis even_numeral linorder_neqE_nat not_less_eq numeral_2_eq_2 Suc_1 less_SucE)
  have sq: "w ^ 2 ^ k mod p = p - 1"
  proof -
    have "w ^ 2 ^ k mod p = (n - 1) mod p" using w p(2) by (metis mod_mod_cancel)
    moreover have "(n - 1) mod p = p - 1"
    proof -
      obtain m where m: "n = p * m" using p(2) by auto
      then obtain j where j: "m = Suc j" using n by (cases m) auto
      have "n - 1 = p * j + (p - 1)" using m j p1 by simp
      then have "(n - 1) mod p = (p * j + (p - 1)) mod p" by (simp only:)
      then show ?thesis using p1 by (simp only: mod_mult_self4) simp
    qed
    ultimately show ?thesis by simp
  qed
  have pw: "\<not> p dvd w"
  proof
    assume "p dvd w"
    then have "p dvd w ^ 2 ^ k" by (metis dvd_power dvd_trans zero_less_numeral zero_less_power)
    then have "w ^ 2 ^ k mod p = 0" by simp
    then show False using sq p1 by simp
  qed
  have g: "gcd (2 ^ Suc k) (p - 1) dvd (2 :: nat) ^ Suc k" by simp
  then obtain j where j: "gcd (2 ^ Suc k) (p - 1) = 2 ^ j" "j \<le> Suc k"
    using dvd_two_power by blast
  show ?thesis
  proof (cases "j = Suc k")
    case True
    then show ?thesis using j(1) by (metis gcd_dvd2)
  next
    case False
    then have jk: "j \<le> k" using j(2) by simp
    obtain x y where xy: "2 ^ Suc k * x = (p - 1) * y + 2 ^ j"
      using bezout_nat [of "2 ^ Suc k" "p - 1"] j(1) by auto
    have one: "(w ^ (p - 1)) ^ y mod p = 1" "(w ^ 2 ^ Suc k) ^ x mod p = 1"
    proof -
      show "(w ^ (p - 1)) ^ y mod p = 1" using fermat [OF p(1) pw] p1
        by (metis Suc_1 Suc_lessD mod_less power_mod power_one)
      have "w ^ 2 ^ Suc k mod p = (w ^ 2 ^ k mod p) * (w ^ 2 ^ k mod p) mod p"
        by (simp add: mult_2 power_add mod_mult_eq)
      also have "\<dots> = (p - 1) * (p - 1) mod p" by (simp only: sq)
      also have "(p - 1) * (p - 1) = p * (p - 2) + 1" using p1 by (cases p) (auto simp: algebra_simps)
      also have "(p * (p - 2) + 1) mod p = 1" using p1 by (simp only: mod_mult_self4) simp
      finally show "(w ^ 2 ^ Suc k) ^ x mod p = 1" using p1
        by (metis Suc_1 Suc_lessD mod_less power_mod power_one)
    qed
    have "w ^ (2 ^ Suc k * x) mod p = (w ^ (p - 1)) ^ y * w ^ 2 ^ j mod p"
      unfolding xy by (simp add: power_add power_mult)
    then have "w ^ 2 ^ j mod p = 1" using one
      by (metis mod_mult_left_eq mult_1 power_mult)
    then have "(w ^ 2 ^ j) ^ 2 ^ (k - j) mod p = 1" using p1
      by (metis Suc_1 Suc_lessD mod_less power_mod power_one)
    moreover have "(w ^ 2 ^ j) ^ 2 ^ (k - j) = w ^ 2 ^ k" using jk by (simp add: power_mult [symmetric] power_add [symmetric])
    ultimately show ?thesis using sq p1 by simp
  qed
qed

lemma two_power_chain: "square_chain
    21888242871839275222246405745257275088548364400416034343698204186575808495617
    19103219067921713944291392827692070036145651957329286315305642004821462161904
    [(16672557084356874012651953139829525463057504866793717780751343799479068144828, 2082940218526944230311718225077035922214683169814847712455127909555749686340),
    (198217827687714114126275464786318396108164869989857940457871390719981903870, 7419588552507395652481651088034484897579724952953562618697845598160172257810),
    (2515062292155245027069864333963322505919293137084736079961582785656570533418, 19200870435978225707111062059747084165650991997241425080699860725083300967194),
    (16843445481571583430227885364460874020001252829742532869269498935021226449481, 5709868443893258075976348696661355716898495876243883251619397131511003808859),
    (1489502736124766463390393674700237947022058754416888917930396911647706067644, 934650972362265999028062457054462628285482693704334323590406443310927365533),
    (39910578718113555993165701453307131754816696752738973614033766035366198731, 12143866164239048021030917283424216263377309185099704096317235600302831912062),
    (6737566202935584050794569747950519725015498739685143347432835735052917569761, 13536764371732269273912573961853310557438878140379554347802702086337840854307),
    (8371799907774053986441269690360542829230568067858398985743985845792998361714, 17220337697351015657950521176323262483320249231368149235373741788599650842711),
    (13547913925622945070431920400596411406900026260347035540648758368232353317076, 15549849457946371566896172786938980432421851627449396898353380550861104573629),
    (11046926863000251731949665838047889186531977171501126998425904394322351506089, 11699596668367776675346610687704220591435078791727316319397053191800576917728),
    (6253611265369711584577570298389666242657110490156066321537873852415837563675, 12650941915662020058015862023665998998969191525479888727406889100124684769509),
    (7311977132680887666919112337312485366035861344977569222884081406616502008098, 421743594562400382753388642386256516545992082196004333756405989743524594615),
    (8126173516799436175753176591810588407911105611305434511656385899525726166, 20402931748843538985151001264530049874871572933694634836567070693966133783803),
    (19018412139584760463302058803488828214798745105558745409486914808582576230292, 20619701001583904760601357484951574588621083236087856586626117568842480512645),
    (19424677982796567728361873563865850263252824252129332680410457715389974494729, 197302210312744933010843010704445784068657690384188106020011018676818793232),
    (1778496447715242687608028032830735818407159063530376256336898723078507718, 4158865282786404163413953114870269622875596290766033564087307867933865333818),
    (790203240234451776713197109817938542187136886744547052794430954663220997698, 1120550406532664055539694724667294622065367841900378087843176726913374367458),
    (57365646979181544077046827509516816920958182236918040098956763040731604594, 3161067157621608152362653341354432744960400845131437947728257924963983317266),
    (456516570722531153192819861264884875902520782487157749003120722497387113846, 6837567842312086091520287814181175430087169027974246751610506942214842701774),
    (2135956470876446593359947062647111995017670062556736186509066251312223760206, 3478517300119284901893091970156912948790432420133812234316178878452092729974),
    (552811967505931911077480175926022109607232560434870357042358802337152341587, 10359452186428527605436343203440067497552205259388878191021578220384701716497),
    (4903008899858795211276705245240256617044142993777020929384679199057145376487, 9088801421649573101014283686030284801466796108869023335878462724291607593530),
    (3774003777546619915214788881498883203705823661196401766653898994770377433684, 4419234939496763621076330863786513495701855246241724391626358375488475697872),
    (892243272555933727136496954981132583515142470848341894421126000032742089461, 14940766826517323942636479241147756311199852622225275649687664389641784935947),
    (10198466577303779716174263455274497776553713679034007698197024499811553945081, 19540430494807482326159819597004422086093766032135589407132600596362845576832),
    (17444452995066617625487937660570427516240463878249347913698484080455254673866, 21888242871839275217838484774961031246007050428528088939761107053157389710902),
    (21888242871839275213430563804664787404353416997930879449828600104561791390564, 21888242871839275222246405745257275088548364400416034343698204186575808495616)]
    21888242871839275222246405745257275088548364400416034343698204186575808495616"
  by (simp only: numeral_steps square_chain.simps)

lemma root_of_minus_one:
  "19103219067921713944291392827692070036145651957329286315305642004821462161904 ^ 2 ^ 27 mod 21888242871839275222246405745257275088548364400416034343698204186575808495617
    = 21888242871839275222246405745257275088548364400416034343698204186575808495617 - (1 :: nat)"
proof -
  have "19103219067921713944291392827692070036145651957329286315305642004821462161904 ^ 2 ^ 27 mod 21888242871839275222246405745257275088548364400416034343698204186575808495617
      = 21888242871839275222246405745257275088548364400416034343698204186575808495616 mod (21888242871839275222246405745257275088548364400416034343698204186575808495617 :: nat)"
    by (rule square_chain_sound [OF two_power_chain]) simp
  also have "21888242871839275222246405745257275088548364400416034343698204186575808495616 mod (21888242871839275222246405745257275088548364400416034343698204186575808495617 :: nat)
      = 21888242871839275222246405745257275088548364400416034343698204186575808495617 - (1 :: nat)" by simp
  finally show ?thesis .
qed

subsection \<open>Elements of prime order\<close>

lemma r_factor_11003_chain: "pow_chain
    21888242871839275222246405745257275088548364400416034343698204186575808495617
    2359631316250983314861130673654602926021363809688312583465277785189831415697
    2359631316250983314861130673654602926021363809688312583465277785189831415697 1
    [(False, 254376743772145433673488249297941481607867787003500812094018493130096169653, 20337520617895788776587308537522891646589000225510167669156056303099279084908),
    (False, 18896662802269981502589436384680603585238725742619042196161566619344683310196, 4764858681414210534757642474687729125798542638928929615817219260923355957532),
    (True, 513668905631553780423255614547497743632819838152836267252816856332975522939, 14519645670575377802185775057056859937010265793883746254721041703769105721441),
    (False, 9631659865684916862790332256976573909305593906386911874680685651989145843121, 14087363075804987013635177607335605271304382065931275716719742752968989015824),
    (False, 9066684776459519230100025080729671204671946004232741461739449417138647422083, 6762627210115246930487594652051991827243201430338704870882819825776667888765),
    (True, 729035539241440179485379589497906571707580819956666388241588515207085210898, 15427355108460504079721085272433195461807915866787689665356461865953517310139),
    (False, 10873567468896735993423558923998413828780857083216962234785430818898325352658, 15424565725901271089112154921763749157798943927209100214243038222099939899335),
    (False, 10869635777787582369099967941604499102632409245914419400004530323593347408560, 1698846608621292442442195866873250581670997735243363170674943066910865160705),
    (True, 183141775366856172647293869136885374500903564362305587111367158350548654867, 20457826408235367008087252040217079097264721244063571122277655045175349368446),
    (False, 19120888953948444559221564243617579243868903653499067448035019129672824839007, 7782022924898226264980454176797287830050016004071713196749421897040170322597),
    (True, 838930064185179860326745098086395847289400632889639894164827746031956069837, 15030751829529000929926283395417513799819585604261508157231210598918939200680),
    (False, 10321682826882165034930170634287291194151960374627657519283925344713196805996, 10854691800654048763894861518191674312088418120147942748097771382991147142868),
    (True, 1170174821754606916057654339003056285545173222770979082849293075099119250602, 10779368485694960882682983631203016778568451621056619016305557105847115187562),
    (False, 5308547864291392228451831392803408787984292387846497752445414474759048987183, 449818792420556077086762770481329212362835827476950707282433112751694826933),
    (True, 48492083875737544979499716527860772541042058170333488915915834130211999947, 2856375627885263144214374898001703490771244408934439512974982117039840835002),
    (False, 372751790783256149705667291257216677741718572660693622739040412250576722883, 522044975631490178164064426669164005482270184019767903937942319758459236193),
    (True, 56278326232225069770733218502255402277366025060540882087013979198048288175, 12827389261378327111447404553429045876284579901485722227951026936413650292546),
    (False, 7517365200411700330539126527966209880359021239287369404462526087011010430345, 12336786982785834338569681688583711190288672092685075141190618453341166864251),
    (False, 6953336270516488054961873104031875046310656712563469536434410946829662956722, 8555667716262714747666093047631042289119709364466631171186035715613264103527),
    (True, 922331755588502024936685434652395153019783179257122593469254389459427785528, 12374179059401076365289809068579154223625117431666549340456903768154576832543),
    (False, 6995550455588186023407411877075949705349444576367649125083547128644298255721, 19530970506026845029361403781049381943542222957580336670003445769660490171992),
    (True, 2105508875821544997435385642706366124825217117358018782495205718546683740119, 1)] 11003"
  by (simp only: numeral_steps)

lemma r_factor_11003:
  assumes "is_prime p" and "p dvd 21888242871839275222246405745257275088548364400416034343698204186575808495617" and "is_prime 11003"
  shows "11003 dvd p - 1"
  by (rule certified_factor [OF r_factor_11003_chain _ assms(3) _ assms(1,2),
      of 16630704802727952925674427942468677774696084044157581070592138391231389425326
      1792849800398115061521113377061044119666256817982433045513507110502422995935])
    (simp only: numeral_steps, simp)

lemma r_factor_237073_chain: "pow_chain
    21888242871839275222246405745257275088548364400416034343698204186575808495617
    19162091871357529255726910181099886223371662303420150697274883840274314362093
    19162091871357529255726910181099886223371662303420150697274883840274314362093 1
    [(False, 16775479285217359895830610513831687331715240160632006407907356672322348981040, 16943159643064547975188127320897484007038701831294072923855301590174259238969),
    (True, 14832912060254305096455802625933934872547682250505821156987324737577663056121, 1455908421824104955890405638932150496274628730041923634778205253041228480460),
    (False, 96840543352406593609747299739544290995527574860044086545601553780573511152, 11560959563991635831937999421256441825750871702179007362325665713127909190816),
    (True, 10121057710451190725745793141934304458724510228102122140210414013387249153588, 2081138307701253775004487769934364441352585465228091683693405888059996314092),
    (False, 197875027298511139138354753075133370376099529002813024223871072968734809729, 12015997891972339706005836686441520065859694048955936704987754636749692326671),
    (False, 6596427414721530184487787790542070489541926858996777288113953289957564515526, 9745371190617065849455831844698393353596072706546268135463768891129878492699),
    (False, 4338962254713347021549363629605144612422452781714209735903600838114348459846, 19193882492289555267796045925771373711290670462118579561388619441718004809619),
    (True, 16803310427374994179988848357087355249847185593636439665193554573322889352440, 10003869126153883866939242147007646477045358946819450676071385643118187117087),
    (False, 4572198786316068507151638709590694145505287526906679541897278890147158966896, 7084677879588476266916839702455527461472676442364241629362123396398583270737),
    (True, 6202290846393606269134947890582471981135814158550288423161437089518313321609, 1416828544932971687959902840634586655015818308631519350679125400233081084788),
    (False, 91711478965702792501230572525320736564073839422175201901233091002085414888, 20071298519641045437461681824750260632738098306229131196977639561554270459048),
    (True, 17571445477043236168703327716078368511694085011742832403807400404392919224333, 6659871212644033831065809920365901953535039256430765277098978225563129819003),
    (False, 2026379405085504894889222125839904013760507103931713381540625756891306784007, 1060717772297246628702944876437443405774375872340571988821029214054514716690),
    (True, 928606810576456873777098094969651048869158029282631523658763721830505673377, 12335551547938044955279107263983448271901360858668251302491154867904032343561),
    (False, 6951943693370127486469614596548394642144932345742765168397104575164638048611, 7090330118736931837709146374499147513141817688500764619827180465375511722734),
    (False, 2296793830689235126747862575845054091711435460744752791660088693035199624328, 15046268406415584527802803744859633947554747030750030768304398211067257864380),
    (False, 10343004428608852592124546060090992529056127580921395152580774982916803363747, 17202461111708106050785141915792097398047197421293376353079404189193166587501),
    (False, 13519800106044924134146316973206776339487950873972426529231814999286191897250, 15693899683789000119773811869525224112865454668856200385472240208483950071751),
    (False, 11252547256852324326943456256987697802144373062363033388440989512823458468959, 3473640794229274888404344005690125398404468285401268275747786871438166153298),
    (True, 3041003538605356209564951039186645335285020369419722137645156170813748308650, 107180226581402883236474838855417373755895951322321594524948951049829945664),
    (False, 524829747061169868727604440023236813719256095923543027452204863060086085, 9104579125063354994531430253812414932574620975920143400254948939194827211451),
    (False, 3787118113130378210078470624513439936582394964187741822752764855052909579214, 15312199605397390564944397329393706977775953750661190529401527749830832220363),
    (False, 10711844624914378653600174253838718101408269937998821511274877619968907562875, 16287610508676249527739759400393951362579371793798515730875587323325002432894),
    (False, 12120034378074721946292902066032101038869140612649689744995459498775747517390, 5587543422907443004158877793956504446299484502152789541393961138060526935606),
    (True, 4891622458315444442642868614154238422754697834377525440750728609022923956221, 1)] 237073"
  by (simp only: numeral_steps)

lemma r_factor_237073:
  assumes "is_prime p" and "p dvd 21888242871839275222246405745257275088548364400416034343698204186575808495617" and "is_prime 237073"
  shows "237073 dvd p - 1"
  by (rule certified_factor [OF r_factor_237073_chain _ assms(3) _ assms(1,2),
      of 10025837090376461100483308032170225330890788095991608503921730225399126091188
      8777132661490522150334276283669787897064443268376373190551135947256443761135])
    (simp only: numeral_steps, simp)

lemma r_factor_405928799_chain: "pow_chain
    21888242871839275222246405745257275088548364400416034343698204186575808495617
    14222862425608002768327293780974001985325119916805696672186700023306367139382
    14222862425608002768327293780974001985325119916805696672186700023306367139382 1
    [(False, 9241939463218935390999996053957072212464739742668329086032133508319902541083, 10584763409437840528536238318324647995371688604507548528221026866052047408713),
    (True, 6877922301096685784926359356952328297166971251246434798411071679654369759285, 2573147749842245002874275377187798594309865714750402216606388306493324681521),
    (False, 302495242824479709514470573306638307208881312001835331092866966097480862384, 17807744150587399245971988009897647632046247334622665034882492083017234702513),
    (False, 14487949242411362525691784523465872435384249481546221606382927824891321022038, 3303046970436181948662814810789340838844487022053947552171028841203925107723),
    (False, 498446556573266834683556108831033280740841627503468139630800923096971246159, 4886300591768137783329633989405368045244913786020295030782984211917574659626),
    (False, 1090810880202342713989773785190287081796964159804839731357180086348012783472, 7235382889264460648266560920553555066159646672917336894596171999272672417652),
    (False, 2391729928290122487307003694248431600149289695922431062589939809968885037885, 15416422292512675024978122924509440457546293118848069962023560190804819743059),
    (False, 10858161511304110232792769700084852822861336022765068632019646459480961234675, 8188346972890365598092712806714546640239052193393551187431276496248132758006),
    (True, 5320743797045463791828817309232933809698923291893839734460319793157358667063, 9441845328481669865421219756396472034455321106882432396571692514421880629421),
    (False, 4072891722234438249979322264747703719442168923032186247867665181699543748651, 18658360041416004908163224026460906985162046955850313629245675976650047632574),
    (True, 12124101944151258143531907013354262069363144408996423531356353649908553017840, 17403680525409329953063323430500650520312512217043697072523788624002018621988),
    (False, 13837935626171174651524906076705205954214097205138983607295517415081370248108, 11766880935368026926937542086316979253434940692302077124452873564680916529508),
    (False, 6325747012121523601489400652904004620825821208846398064090816671685180804225, 11868194923447406154491309019261056675557016130061130017517128217775587140239),
    (False, 6435146556335098689404946087191892372578447997237040547637355711484371315590, 3151192795990056420466865972605965399134362832114738252397862853205214208091),
    (False, 453668944357122225917572278392338576727041648699214809821879202436131600523, 1134420304183342993362665891020093744837899243408761712867630748233209456590),
    (True, 737140208727054678160277235455251087357367585028752693761392050631325927122, 5227698462601000433332186069309560302511577298615062026565323516182410003106),
    (False, 1248562133374409790208735140973927960088369308119463621378212404335563714258, 13659557207975185502753626763585705900035919627999628984390135878579096240050),
    (True, 8875906764252200086705036790134610455187322315320118143419527081666452212136, 6762308724886334865387049737445485763489845470897335988844176093338570441188),
    (False, 2089195535631921767818652317574675896855151910931592616530637117872950196143, 15430382000797063540125351946848592382780707994076234298846370637571061046113),
    (True, 10026579184858658843518968747666029409041635827805218364102097456048713827950, 4986138361157514007871290062974220857303476404312677702760141003497333227016),
    (False, 1135841552114384701722140291382242652308498702049787171778958871934823284413, 11357104816759870663695910151165535117072581353483562019947102499555737346435),
    (True, 7379785591186295581156150586408816672652873526142594885742421369468458250152, 10100200149356344024004716574117101390726633802510866158899228473639084219386),
    (False, 4660677590904566078491824511202623868762663750176859514661582095952117194956, 3285890172433254707572068963891121356986895877804464293980561514520717709144),
    (True, 2135153750888931183188370957223456122974473613913800613020910932102245490296, 12001913743523593157561013923815707782642691417080589730453063585033251876376),
    (False, 6580972915478084214738303222473659491642548438319474496295467471339764686057, 19232804892939135043928867899025292588519052744977138779998221251261321381207),
    (True, 12497373117271503554370809735868795036078242565813894810419818021470768530122, 9693475945566381804326939525091782483137102490943932422754234900366554918800),
    (False, 4292874327896119622765385261919155914156138195862636418947123165810653554843, 6329613893984300333923749508008285334775273239070178674008704012753558816869),
    (False, 1830389596894696159514948493546952075308313842186232576152595856600465608416, 10785941694586649498806603448636402306768745158313359897728456157243504650489),
    (True, 7008646868136854465856354009943182093069164495173111783155225266859571806595, 5298757986959443512193566374503607641054458811887016048431344795274828263683),
    (False, 1282735958695399366066641751095615232739989706766290216941512582103752910310, 21064396724538364484356778768366782650154033401492005364866016533525947613219),
    (True, 13687531632655072665114295058852429616686118049937877969193712619765493755370, 18126940718629126583734539384272640132196413991151366426251994942888083477368),
    (False, 15011985280894476091651049826864380290005461185880806494750924776546923678089, 19797363386404965399190537984205835914018662676570196371434920442295492771511),
    (False, 17906215649572304867282756387615218287527372749037365615132521171929620616428, 2432175581036112028789778465464303602370688603090206148927609984297177027045),
    (True, 1580414603700576190071753173677032330665824175053642928110676222141701207441, 14430447745575620511062166945023329711646571015017451904134761505109242300093),
    (False, 9513683823643091068638336364515289801624744868371520246214197705747097308830, 17657843873118605059270873081591673238688030877001425139032821217697517410539),
    (False, 14245065356460550988846985886113838041385956672112944636995436210700919868035, 13214875632174451444383473270468210295026968125725650617699449089732352367926),
    (True, 8586955069369761327357597708734444819917387841458295559815844253991556271834, 19874977034712346193586061742094500359546474907566998503828923847785938710154),
    (False, 18046890033304439844019583431132577118003033431396530087686700210102652667164, 9380754606630985518706811003242196037983048052103948027787135069757768883528),
    (True, 6095563860457548229425538798678062285640271379332711628575304082078369704611, 12998044165125778467240076131482959873930362194917816854451741707156721709709),
    (False, 7718716989198112386608235066553052134787704032080463379592324099335504531852, 6364810838968926515376155413694258843825843987486351136257894506726085971997),
    (True, 4135819830660842002521720274473603170923091890882889815836491114472694860145, 12880937463851639338942300097690900988356590158795615030386442795139187401389),
    (False, 7580258996537464861887124314819658815793739360457901598149232571865746821107, 9768822166239747600185694048353210784299066323721298319305147359600906541302),
    (True, 6347728072289187900609967215126093251497278116418043938465110409248716587679, 13450617718345474024330463110477674766023181991230250201409534345186706052421),
    (False, 8265584316858711882443070662051867123100454087681602399488727643646403624298, 4428481230977041414328263716281962326178145612193385066487097873225352259375),
    (True, 2877603271828138885234744155755163551569303676939512528483232313021909624297, 1)] 405928799"
  by (simp only: numeral_steps)

lemma r_factor_405928799:
  assumes "is_prime p" and "p dvd 21888242871839275222246405745257275088548364400416034343698204186575808495617" and "is_prime 405928799"
  shows "405928799 dvd p - 1"
  by (rule certified_factor [OF r_factor_405928799_chain _ assms(3) _ assms(1,2),
      of 11867785311923627686151832346040282841447401680872518887358118101719435550735
      7711623028694825417506845074318203452747374779481014847127216627349116421402])
    (simp only: numeral_steps, simp)

subsection \<open>The modulus\<close>

lemma r_pred_factors:
  assumes p: "is_prime p" "p dvd 21888242871839275222246405745257275088548364400416034343698204186575808495617"
  shows "284238531566325520805134336 dvd p - 1"
proof -
  have "odd p"
  proof
    assume "even p"
    then have "2 dvd (21888242871839275222246405745257275088548364400416034343698204186575808495617 :: nat)" using p(2) by (rule dvd_trans)
    then show False by simp
  qed
  from order_two_power [OF p this root_of_minus_one] have "268435456 dvd p - 1" by simp
  then have "268435456 * 11003 dvd p - 1"
    by (rule divides_mult [OF _ r_factor_11003 [OF p prime_11003]]) (simp add: coprime_iff_gcd_eq_1 gcd_non_0_nat)
  then have "2953595322368 dvd p - 1" by simp
  then have "2953595322368 * 237073 dvd p - 1"
    by (rule divides_mult [OF _ r_factor_237073 [OF p prime_237073]]) (simp add: coprime_iff_gcd_eq_1 gcd_non_0_nat)
  then have "700217703859748864 dvd p - 1" by simp
  then have "700217703859748864 * 405928799 dvd p - 1"
    by (rule divides_mult [OF _ r_factor_405928799 [OF p prime_405928799]]) (simp add: coprime_iff_gcd_eq_1 gcd_non_0_nat)
  then have "284238531566325520805134336 dvd p - 1" by simp
  then show ?thesis .
qed

theorem r_prime: "is_prime 21888242871839275222246405745257275088548364400416034343698204186575808495617"
proof (rule brillhart_lehmer_selfridge [of _ 270922451855066054638159
    284238531566325520805134336 34878429326618942231134307 34878429326618942231134306])
qed (simp, simp, simp, simp, erule (1) r_pred_factors, simp, simp, simp)

end
