(* ===== verification/Fr_Field.thy ===== *)
theory Fr_Field
  imports Fr_Prime Field_Interface
begin

section \<open>The scalar field\<close>

text \<open>
  The residues modulo the scalar field prime as a field, and the class \<open>RawFr\<close> of \<open>fr.hpp\<close> as an
  implementation of it: the methods the prover and the FFT call, with the integer conversions and the
  exponentiation that are not part of the interface of the curves.
\<close>

definition fr_mod :: nat where
  "fr_mod = Fr_prime"

lemma fr_mod_prime: "is_prime fr_mod"
  unfolding fr_mod_def by (rule r_prime)

lemma fr_mod_gt: "4 < fr_mod"
  by (simp add: fr_mod_def)

typedef fr = "{n :: nat. n < fr_mod}"
  morphisms fr_nat Abs_fr
  using fr_mod_gt by (auto intro: exI [of _ 0])

setup_lifting type_definition_fr

lemma fr_nat_lt: "fr_nat a < fr_mod"
  using fr_nat [of a] by simp

lemma fr_mod_pos: "0 < fr_mod"
  using fr_mod_gt by simp

instantiation fr :: comm_ring_1
begin

lift_definition zero_fr :: fr is 0
  using fr_mod_gt by simp

lift_definition one_fr :: fr is 1
  using fr_mod_gt by simp

lift_definition plus_fr :: "fr \<Rightarrow> fr \<Rightarrow> fr" is "\<lambda>a b. (a + b) mod fr_mod"
  using fr_mod_gt by simp

lift_definition times_fr :: "fr \<Rightarrow> fr \<Rightarrow> fr" is "\<lambda>a b. (a * b) mod fr_mod"
  using fr_mod_gt by simp

lift_definition uminus_fr :: "fr \<Rightarrow> fr" is "\<lambda>a. (fr_mod - a) mod fr_mod"
  using fr_mod_gt by simp

lift_definition minus_fr :: "fr \<Rightarrow> fr \<Rightarrow> fr" is "\<lambda>a b. (a + (fr_mod - b)) mod fr_mod"
  using fr_mod_gt by simp

instance
proof
  fix a b c :: fr
  show "a * b * c = a * (b * c)" by transfer (simp add: mod_mult_left_eq mod_mult_right_eq ac_simps)
  show "a * b = b * a" by transfer (simp add: ac_simps)
  show "1 * a = a" by transfer simp
  show "a + b + c = a + (b + c)" by transfer (simp add: mod_add_left_eq mod_add_right_eq ac_simps)
  show "a + b = b + a" by transfer (simp add: ac_simps)
  show "0 + a = a" by transfer simp
  show "- a + a = 0" by transfer (simp add: mod_add_left_eq)
  show "a - b = a + - b" by transfer (simp add: mod_add_right_eq)
  show "(a + b) * c = a * c + b * c"
    by transfer (simp add: mod_mult_left_eq mod_add_eq add_mult_distrib)
  show "(0 :: fr) \<noteq> 1" by transfer simp
qed

end

lemma fr_nat_0 [simp]: "fr_nat 0 = 0"
  by (rule zero_fr.rep_eq)

lemma fr_nat_1 [simp]: "fr_nat 1 = 1"
  by (rule one_fr.rep_eq)

lemma fr_nat_add: "fr_nat (a + b) = (fr_nat a + fr_nat b) mod fr_mod"
  by (rule plus_fr.rep_eq)

lemma fr_nat_mult: "fr_nat (a * b) = (fr_nat a * fr_nat b) mod fr_mod"
  by (rule times_fr.rep_eq)

lemma fr_nat_of_nat: "fr_nat (of_nat n) = n mod fr_mod"
  using fr_mod_gt by (induction n) (simp_all add: fr_nat_add mod_Suc_eq mod_add_right_eq)

lemma fr_nat_power: "fr_nat (a ^ n) = fr_nat a ^ n mod fr_mod"
  using fr_mod_gt by (induction n) (simp_all add: fr_nat_mult mod_mult_right_eq)

lemma of_nat_fr_nat [simp]: "of_nat (fr_nat a) = a"
  by (metis fr_nat_inject fr_nat_lt fr_nat_of_nat mod_less)

lemma fr_of_nat_eq_iff: "(of_nat m :: fr) = of_nat n \<longleftrightarrow> m mod fr_mod = n mod fr_mod"
  by (metis fr_nat_inject fr_nat_of_nat)

lemma fr_of_nat_mod [simp]: "(of_nat (n mod fr_mod) :: fr) = of_nat n"
  by (simp add: fr_of_nat_eq_iff)

lemma fr_fermat:
  fixes a :: fr
  assumes "a \<noteq> 0"
  shows "a ^ (fr_mod - 1) = 1"
proof -
  have "fr_nat a \<noteq> 0" using assms by (metis fr_nat_0 fr_nat_inject)
  then have "\<not> fr_mod dvd fr_nat a" using fr_nat_lt [of a] by (auto dest: dvd_imp_le)
  from fermat [OF fr_mod_prime this] have "fr_nat (a ^ (fr_mod - 1)) = fr_nat 1"
    by (simp add: fr_nat_power)
  then show ?thesis by (simp only: fr_nat_inject)
qed

instantiation fr :: field
begin

definition inverse_fr :: "fr \<Rightarrow> fr" where
  "inverse_fr a = a ^ (fr_mod - 2)"

definition divide_fr :: "fr \<Rightarrow> fr \<Rightarrow> fr" where
  "divide_fr a b = a * inverse_class.inverse b"

instance
proof
  fix a b :: fr
  show "inverse_class.inverse a * a = 1" if "a \<noteq> 0"
  proof -
    have "a ^ (fr_mod - 2) * a = a ^ (Suc (fr_mod - 2))" by (simp add: mult.commute)
    also have "Suc (fr_mod - 2) = fr_mod - 1" using fr_mod_gt by simp
    finally show ?thesis using fr_fermat [OF that] by (simp add: inverse_fr_def)
  qed
  show "inverse_class.inverse (0 :: fr) = 0" using fr_mod_gt by (simp add: inverse_fr_def zero_power)
  show "a div b = a * inverse_class.inverse b" by (simp add: divide_fr_def)
qed

end


subsection \<open>The class RawFr\<close>

definition RawFr_ops :: "gmp \<Rightarrow> limbs field_ops" where
  "RawFr_ops G = RawF_ops Fr_consts G"

text \<open>The methods between elements, integers and exponents.\<close>

record 'e number_ops =
  N_toMpz :: "'e \<Rightarrow> int"
  N_fromMpz :: "int \<Rightarrow> 'e"
  N_exp :: "'e \<Rightarrow> 'e \<Rightarrow> u8 list \<Rightarrow> nat \<Rightarrow> 'e"

definition RawFr_numbers :: "gmp \<Rightarrow> limbs number_ops" where
  "RawFr_numbers G = \<lparr> N_toMpz = RawF_toMpz Fr_consts G, N_fromMpz = RawF_fromMpz Fr_consts G,
     N_exp = RawF_exp Fr_consts G \<rparr>"

definition fr_ok :: "limbs \<Rightarrow> bool" where
  "fr_ok a \<longleftrightarrow> reduced Fr_prime a"

definition fr_val :: "limbs \<Rightarrow> fr" where
  "fr_val a = of_nat (mval Fr_prime a)"

lemma fr_ok_eq: "fr_ok = reduced Fr_prime"
  by (rule ext) (rule fr_ok_def)

text \<open>What the interface between elements and integers promises.\<close>

locale number_field = field_ops_laws F ok val
  for F :: "'e field_ops" and ok :: "'e \<Rightarrow> bool" and val :: "'e \<Rightarrow> 'k :: field" +
  fixes N :: "'e number_ops" and m :: nat
  assumes modulus: "is_prime m" "2 < m"
    and char_iff: "(of_nat i :: 'k) = of_nat j \<longleftrightarrow> i mod m = j mod m"
    and from_nat: "\<exists>i. of_nat i = (x :: 'k)"
    and toMpz_law: "ok a \<Longrightarrow> \<exists>i<m. N_toMpz N a = int i \<and> of_nat i = val a"
    and fromMpz_law: "i < m \<Longrightarrow> ok (N_fromMpz N (int i)) \<and> val (N_fromMpz N (int i)) = of_nat i"
    and exp_law: "ok a \<Longrightarrow> length s = k \<Longrightarrow> ok (N_exp N r a s k) \<and> val (N_exp N r a s k) = val a ^ bval s"
begin

lemma of_nat_m [simp]: "(of_nat (i mod m) :: 'k) = of_nat i"
  by (simp add: char_iff)

lemma nonzero_iff: "(of_nat i :: 'k) = 0 \<longleftrightarrow> m dvd i"
  using char_iff [of i 0] by (simp add: mod_eq_0_iff_dvd)

lemma odd_modulus: "odd m"
proof
  assume "even m"
  then have "2 = m" using modulus(1) unfolding is_prime_def by (metis numeral_eq_one_iff semiring_norm(85))
  then show False using modulus(2) by simp
qed

lemma two_neq_0: "(2 :: 'k) \<noteq> 0"
  using nonzero_iff [of 2] modulus by (auto dest: dvd_imp_le)

text \<open>Fermat and the first half of Euler's criterion.\<close>

lemma little_fermat:
  assumes "(x :: 'k) \<noteq> 0"
  shows "x ^ (m - 1) = 1"
proof -
  obtain i where i: "of_nat i = x" using from_nat by blast
  then have "\<not> m dvd i" using assms nonzero_iff by blast
  then have "i ^ (m - 1) mod m = 1" by (rule fermat [OF modulus(1)])
  then have "(of_nat (i ^ (m - 1)) :: 'k) = of_nat 1" using modulus(2) by (simp only: char_iff) simp
  then show ?thesis by (simp add: i)
qed

lemma euler:
  assumes "(x :: 'k) \<noteq> 0" and "x ^ ((m - 1) div 2) \<noteq> 1"
  shows "x ^ ((m - 1) div 2) = -1"
proof -
  define y where "y = x ^ ((m - 1) div 2)"
  have "even (m - 1)" using odd_modulus by simp
  then have h: "(m - 1) div 2 + (m - 1) div 2 = m - 1" by presburger
  have "y * y = x ^ ((m - 1) div 2 + (m - 1) div 2)" by (simp only: y_def power_add)
  also have "\<dots> = 1" unfolding h by (rule little_fermat [OF assms(1)])
  finally have "y * y = 1" .
  then have "(y - 1) * (y + 1) = 0" by (simp add: algebra_simps)
  then have "y - 1 = 0 \<or> y + 1 = 0" by (simp only: mult_eq_0_iff)
  then show ?thesis using assms(2) unfolding y_def [symmetric] by (auto simp: eq_neg_iff_add_eq_0)
qed

end

sublocale gmp_laws \<subseteq> fr_class: residue_field Fr_consts Fr_prime G fr_nat
proof (intro residue_field.intro residue_field_axioms.intro)
  show "raw_class Fr_consts Fr_prime G" by (rule bn254_raw_class [OF bn254_Fr gmp_laws_axioms])
  show "(of_nat m :: fr) = of_nat n \<longleftrightarrow> m mod Fr_prime = n mod Fr_prime" for m n
    using fr_of_nat_eq_iff [of m n] by (simp only: fr_mod_def)
qed (rule of_nat_fr_nat)

context gmp_laws begin

lemma fr_val_eq: "fr_class.rval = fr_val"
  by (rule ext) (simp only: fr_class.rval_def fr_val_def)

lemma fr_field_ops: "field_ops_laws (RawFr_ops G) fr_ok fr_val"
  using fr_class.ops.field_ops_laws_axioms unfolding fr_val_eq RawFr_ops_def fr_ok_eq .

end

sublocale gmp_laws \<subseteq> fr: number_field "RawFr_ops G" fr_ok fr_val "RawFr_numbers G" Fr_prime
proof (intro number_field.intro number_field_axioms.intro)
  show "field_ops_laws (RawFr_ops G) fr_ok fr_val" by (rule fr_field_ops)
  show "is_prime Fr_prime" by (rule r_prime)
  show "2 < Fr_prime" by simp
  show "(of_nat i :: fr) = of_nat j \<longleftrightarrow> i mod Fr_prime = j mod Fr_prime" for i j by (rule fr_class.of_nat_iff)
  show "\<exists>i. of_nat i = x" for x :: fr using of_nat_fr_nat by blast
  show "\<exists>i<Fr_prime. N_toMpz (RawFr_numbers G) a = int i \<and> of_nat i = fr_val a" if "fr_ok a" for a
    using fr_class.toMpz_value [of a] fr_class.mval_lt [of a] that
    by (auto simp: RawFr_numbers_def fr_val_def fr_ok_def reduced_def)
  show "fr_ok (N_fromMpz (RawFr_numbers G) (int i)) \<and> fr_val (N_fromMpz (RawFr_numbers G) (int i)) = of_nat i"
    if "i < Fr_prime" for i
    using fr_class.fromMpz_value [of "int i"] that by (simp add: RawFr_numbers_def fr_val_def fr_ok_def)
  show "fr_ok (N_exp (RawFr_numbers G) r a s k) \<and> fr_val (N_exp (RawFr_numbers G) r a s k) = fr_val a ^ bval s"
    if "fr_ok a" "length s = k" for r a s k
    using fr_class.exp_value [of a k s r] fr_class.rval_mod that
    by (simp add: RawFr_numbers_def fr_ok_def fr_val_eq fr_val_def)
qed

end
