(* ===== verification/Fft.thy ===== *)
theory Fft
  imports Fr_Field Tbb
begin

section \<open>The fast Fourier transform\<close>

text \<open>
  The class \<open>FFT\<close> of \<open>fft.hpp\<close> and \<open>fft.cpp\<close>, without \<open>USE_ICICLE_GPU\<close>: tables of roots of unity and of
  inverse powers of two, the bit-reversal permutation, the transform in place and its inverse. The
  class is a template over the field; arrays are lists of elements. The parallel loops are those of
  \<open>Tbb\<close>; asserts are compiled in. Sizes and counters are natural numbers, below \<open>2 ^ 31\<close> wherever the
  source has an \<open>int\<close>, except for the reversal of bits, which depends on its words.
\<close>

datatype fft_error = Range_error string | Assertion | Thrown int | Runs_forever

record 'e fft_state =
  fft_s :: nat
  fft_nqr :: 'e
  roots :: "'e list"
  powTwoInv :: "'e list"

subsection \<open>Logarithm and bit reversal\<close>

text \<open>\<open>while (n != 1) { n >>= 1; res++; }\<close> does not end for 0, which the assertion before it excludes.\<close>

partial_function (option) fft_log2_loop :: "nat \<Rightarrow> nat \<Rightarrow> nat option" where
  "fft_log2_loop n res = (if n \<noteq> 1 then fft_log2_loop (n div 2) (res + 1) else Some res)"

definition fft_log2 :: "nat \<Rightarrow> fft_error + nat" where
  "fft_log2 n = (if n = 0 then Inl Assertion
     else case fft_log2_loop n 0 of None \<Rightarrow> Inl Runs_forever | Some res \<Rightarrow> Inr res)"

definition BR :: "u64 \<Rightarrow> nat \<Rightarrow> u64" where
  "BR x domainPow =
     (let x = drop_bit 16 x OR push_bit 16 x;
          x = drop_bit 8 (x AND 0xFF00FF00) OR push_bit 8 (x AND 0x00FF00FF);
          x = drop_bit 4 (x AND 0xF0F0F0F0) OR push_bit 4 (x AND 0x0F0F0F0F);
          x = drop_bit 2 (x AND 0xCCCCCCCC) OR push_bit 2 (x AND 0x33333333)
      in drop_bit (32 - domainPow) (drop_bit 1 (x AND 0xAAAAAAAA) OR push_bit 1 (x AND 0x55555555)))"

text \<open>\<open>root(domainPow, idx)\<close>\<close>

definition fft_root :: "'e fft_state \<Rightarrow> nat \<Rightarrow> nat \<Rightarrow> 'e" where
  "fft_root R domainPow idx = roots R ! (push_bit (fft_s R - domainPow) idx)"

subsection \<open>The constructor\<close>

text \<open>The search for a non-residue from 2 upwards and the number of halvings.\<close>

partial_function (option) fft_nqr_loop :: "gmp \<Rightarrow> int \<Rightarrow> int \<Rightarrow> int \<Rightarrow> int \<Rightarrow> (int \<times> int) option" where
  "fft_nqr_loop G m_qm1d2 m_q m_nqr m_aux =
     (if mpz_cmp_ui G m_aux 1 = 0
      then let m_nqr = mpz_add_ui G m_nqr 1;
               m_aux = mpz_powm G m_nqr m_qm1d2 m_q
           in fft_nqr_loop G m_qm1d2 m_q m_nqr m_aux
      else Some (m_nqr, m_aux))"

function fft_s_loop :: "gmp \<Rightarrow> nat \<Rightarrow> int \<Rightarrow> nat \<Rightarrow> int \<times> nat" where
  "fft_s_loop G domainPow m_aux s =
     (if mpz_tstbit G m_aux 0 = 0 \<and> s < domainPow
      then fft_s_loop G domainPow (mpz_fdiv_q_2exp G m_aux 1) (s + 1)
      else (m_aux, s))"
  by pat_completeness auto
termination
  by (relation "measure (\<lambda>(G, domainPow, m_aux, s). domainPow - s)") auto

declare fft_s_loop.simps [simp del]

text \<open>The body of the parallel loop that fills the table of roots, for one span of indices.\<close>

definition fft_span :: "'e field_ops \<Rightarrow> 'e number_ops \<Rightarrow> nat \<Rightarrow> nat \<Rightarrow> nat \<Rightarrow> 'e list \<Rightarrow> 'e list" where
  "fft_span F N nRoots nSpan idSpan rs =
     (let increment = nRoots div nSpan;
          start = (if idSpan = 0 then 2 else idSpan * increment);
          end' = (if idSpan = nSpan - 1 then nRoots else (idSpan + 1) * increment);
          rs = (if start < end'
            then rs[start := N_exp N (rs ! start) (rs ! 1) (bytes_of 8 start) 8] else rs)
      in foldl (\<lambda>rs i. rs[i := F_mul F (rs ! (i - 1)) (rs ! 1)]) rs [start + 1..<end'])"

definition FFT_new ::
    "gmp \<Rightarrow> 'e field_ops \<Rightarrow> 'e number_ops \<Rightarrow> tbb \<Rightarrow> 'e \<Rightarrow> nat \<Rightarrow> fft_error + 'e fft_state" where
  "FFT_new G F N T e0 maxDomainSize =
     (case fft_log2 maxDomainSize of Inl err \<Rightarrow> Inl err | Inr domainPow \<Rightarrow>
      let m_aux = N_toMpz N (F_negOne F);
          m_q = mpz_add_ui G m_aux 1;
          m_qm1d2 = mpz_fdiv_q_2exp G m_aux 1;
          m_nqr = mpz_set_ui G 2;
          m_aux = mpz_powm G m_nqr m_qm1d2 m_q
      in case fft_nqr_loop G m_qm1d2 m_q m_nqr m_aux of None \<Rightarrow> Inl Runs_forever | Some (m_nqr, m_aux) \<Rightarrow>
      let nqr = N_fromMpz N m_nqr;
          (m_aux, s) = fft_s_loop G domainPow m_qm1d2 1
      in if s < domainPow then Inl (Range_error ''Domain size too big for the curve'')
      else
      let nRoots = 2 ^ s;
          rs = replicate nRoots e0;
          inv = replicate (s + 1) e0;
          rs = rs[0 := F_copy F (F_one F)];
          inv = inv[0 := F_copy F (F_one F)];
          m_aux = mpz_powm G m_nqr m_aux m_q;
          rs = rs[1 := N_fromMpz N m_aux];
          m_aux = snd (mpz_invert G (mpz_set_ui G 2) m_q);
          inv = inv[1 := N_fromMpz N m_aux];
          nSpan = max_concurrency T * 10;
          rs = par_for T [10] 0 nSpan (fft_span F N nRoots nSpan) rs;
          aux = F_mul F (rs ! (nRoots - 1)) (rs ! 1)
      in if \<not> F_eq F aux (F_one F) then Inl Assertion
      else
      let inv = foldl (\<lambda>inv i. inv[i := F_mul F (inv ! (i - 1)) (inv ! 1)]) inv [2..<s + 1]
      in Inr \<lparr>fft_s = s, fft_nqr = nqr, roots = rs, powTwoInv = inv\<rparr>)"

subsection \<open>The transforms\<close>

definition br_body :: "'e field_ops \<Rightarrow> nat \<Rightarrow> nat \<Rightarrow> 'e list \<Rightarrow> 'e list" where
  "br_body F domainPow i a =
     (let r = unat (BR (word_of_nat i) domainPow) in
      if r < i
      then let tmp = F_copy F (a ! i);
               a = a[i := F_copy F (a ! r)]
           in a[r := F_copy F tmp]
      else a)"

definition reversePermutation :: "'e field_ops \<Rightarrow> tbb \<Rightarrow> 'e list \<Rightarrow> nat \<Rightarrow> fft_error + 'e list" where
  "reversePermutation F T a n =
     (case fft_log2 n of Inl err \<Rightarrow> Inl err | Inr domainPow \<Rightarrow>
        Inr (par_for T [11] 0 n (br_body F domainPow) a))"

definition butterfly :: "'e field_ops \<Rightarrow> 'e fft_state \<Rightarrow> nat \<Rightarrow> nat \<Rightarrow> 'e list \<Rightarrow> 'e list" where
  "butterfly F R s i a =
     (let m = 2 ^ s;
          mdiv2 = m div 2;
          k = (i div mdiv2) * m;
          j = i mod mdiv2;
          t = F_mul F (fft_root R s j) (a ! (k + j + mdiv2));
          u = F_copy F (a ! (k + j));
          a = a[k + j := F_add F t u]
      in a[k + j + mdiv2 := F_sub F u t])"

definition fft :: "'e field_ops \<Rightarrow> tbb \<Rightarrow> 'e fft_state \<Rightarrow> 'e list \<Rightarrow> nat \<Rightarrow> fft_error + 'e list" where
  "fft F T R a n =
     (case reversePermutation F T a n of Inl err \<Rightarrow> Inl err | Inr a \<Rightarrow>
      case fft_log2 n of Inl err \<Rightarrow> Inl err | Inr domainPow \<Rightarrow>
      if 2 ^ domainPow \<noteq> n then Inl Assertion
      else Inr (foldl (\<lambda>a s. par_for T [12, s] 0 (n div 2) (butterfly F R s) a) a [1..<domainPow + 1]))"

definition ifft_body :: "'e field_ops \<Rightarrow> 'e \<Rightarrow> nat \<Rightarrow> nat \<Rightarrow> 'e list \<Rightarrow> 'e list" where
  "ifft_body F c n i a =
     (let r = n - i;
          tmp = F_copy F (a ! i);
          a = a[i := F_mul F (a ! r) c]
      in a[r := F_mul F tmp c])"

text \<open>What follows the transform: the reversal of the array and the scaling.\<close>

definition ifft_scale :: "'e field_ops \<Rightarrow> tbb \<Rightarrow> 'e fft_state \<Rightarrow> 'e list \<Rightarrow> nat \<Rightarrow> fft_error + 'e list" where
  "ifft_scale F T R a n =
     (case fft_log2 n of Inl err \<Rightarrow> Inl err | Inr domainPow \<Rightarrow>
      let nDiv2 = n div 2;
          c = powTwoInv R ! domainPow
      in if list_ex (\<lambda>it. nDiv2 \<le> fst it) (parallel_for T [13] 1 nDiv2) then Inl (Thrown 123)
      else
      let a = par_for T [13] 1 nDiv2 (ifft_body F c n) a;
          a = a[0 := F_mul F (a ! 0) c];
          a = a[n div 2 := F_mul F (a ! (n div 2)) c]
      in Inr a)"

definition ifft :: "'e field_ops \<Rightarrow> tbb \<Rightarrow> 'e fft_state \<Rightarrow> 'e list \<Rightarrow> nat \<Rightarrow> fft_error + 'e list" where
  "ifft F T R a n = (case fft F T R a n of Inl err \<Rightarrow> Inl err | Inr a \<Rightarrow> ifft_scale F T R a n)"

end
