(* ===== verification/Fft_Bits.thy ===== *)
theory Fft_Bits
  imports Fft
begin

section \<open>The logarithm and the bit reversal of the transform\<close>

text \<open>
  \<open>log2\<close> is the position of the highest bit, and \<open>BR\<close>, five exchanges of bit groups in a 32-bit value,
  reverses the lowest bits.
\<close>

lemma fft_log2_loop_value: "2 ^ k \<le> n \<Longrightarrow> n < 2 ^ Suc k \<Longrightarrow> fft_log2_loop n r = Some (r + k)"
proof (induction k arbitrary: n r)
  case 0
  then have "n = 1" by simp
  then show ?case by (simp add: fft_log2_loop.simps [of "Suc 0"])
next
  case (Suc k)
  have "2 ^ k \<le> n div 2" "n div 2 < 2 ^ Suc k" using Suc.prems by (simp_all add: less_eq_div_iff_mult_less_eq less_mult_imp_div_less)
  moreover have "n \<noteq> 1" using Suc.prems by (metis not_less one_less_power zero_less_Suc one_less_numeral_iff semiring_norm(76))
  ultimately show ?case using Suc.IH [of "n div 2" "r + 1"] by (simp add: fft_log2_loop.simps [of n])
qed

lemma fft_log2_value: "2 ^ k \<le> n \<Longrightarrow> n < 2 ^ Suc k \<Longrightarrow> fft_log2 n = Inr k"
  using fft_log2_loop_value [of k n 0] by (auto simp: fft_log2_def)

lemma fft_log2_power [simp]: "fft_log2 (2 ^ k) = Inr k"
  by (rule fft_log2_value) simp_all

lemma fft_log2_ex: "0 < n \<Longrightarrow> \<exists>k. fft_log2 n = Inr k \<and> 2 ^ k \<le> n \<and> n < 2 ^ Suc k"
  using ex_power_ivl1 [of 2 n] fft_log2_value by (auto simp: Suc_le_eq)

subsection \<open>Bit reversal\<close>

primrec brev :: "nat \<Rightarrow> nat \<Rightarrow> nat" where
  "brev 0 i = 0"
| "brev (Suc k) i = 2 ^ k * (i mod 2) + brev k (i div 2)"

lemma brev_lt: "brev k i < 2 ^ k"
proof (induction k arbitrary: i)
  case (Suc k)
  have "i mod 2 \<le> 1" by simp
  then have "2 ^ k * (i mod 2) \<le> (2 :: nat) ^ k * 1" by (rule mult_le_mono2)
  with Suc.IH [of "i div 2"] have "2 ^ k * (i mod 2) + brev k (i div 2) < 2 ^ k + 2 ^ k" by linarith
  then show ?case by simp
qed simp

lemma bit_split: "r < 2 ^ k \<Longrightarrow> bit (2 ^ k * b + r) j \<longleftrightarrow> (if j < k then bit r j else bit (b :: nat) (j - k))"
proof -
  assume r: "r < 2 ^ k"
  then have "take_bit k (2 ^ k * b + r) = r" "drop_bit k (2 ^ k * b + r) = b"
    by (simp_all add: take_bit_eq_mod drop_bit_eq_div)
  then show ?thesis by (metis bit_take_bit_iff bit_drop_bit_eq comp_apply le_add_diff_inverse not_less)
qed

lemma bit_brev: "bit (brev k i) j \<longleftrightarrow> j < k \<and> bit i (k - 1 - j)"
proof (induction k arbitrary: i)
  case (Suc k)
  have "bit (i mod 2) (j - k) \<longleftrightarrow> j = k \<and> bit i 0" if "\<not> j < k"
    using that by (cases "even i") (auto simp: bit_0 odd_iff_mod_2_eq_one bit_1_iff bit_Suc_0_iff)
  moreover have "bit (i div 2) (k - 1 - j) \<longleftrightarrow> bit i (k - j)" if "j < k"
    using that by (metis Suc_diff_Suc bit_Suc diff_Suc_1 diff_commute plus_1_eq_Suc diff_diff_eq)
  ultimately show ?case using Suc.IH [of "i div 2"] bit_split [OF brev_lt [of k "i div 2"], of "i mod 2" j] by auto
qed simp

lemma brev_brev: "i < 2 ^ k \<Longrightarrow> brev k (brev k i) = i"
proof (rule bit_eqI)
  fix j
  assume i: "i < 2 ^ k"
  have "k - 1 - (k - 1 - j) = j" if "j < k" using that by simp
  moreover have "\<not> bit i j" if "\<not> j < k"
    using i that by (metis bit_take_bit_iff take_bit_nat_eq_self)
  moreover have "k - 1 - j < k" if "j < k" using that by simp
  ultimately show "bit (brev k (brev k i)) j \<longleftrightarrow> bit i j" by (cases "j < k") (simp_all add: bit_brev)
qed

lemma brev_inj: "i < 2 ^ k \<Longrightarrow> j < 2 ^ k \<Longrightarrow> brev k i = brev k j \<longleftrightarrow> i = j"
  by (metis brev_brev)

text \<open>One exchange of neighbouring groups of bits, and the five of the source.\<close>

definition exchange :: "nat \<Rightarrow> u64 \<Rightarrow> u64 \<Rightarrow> u64 \<Rightarrow> u64" where
  "exchange w hi lo x = drop_bit w (x AND hi) OR push_bit w (x AND lo)"

lemma bit_exchange: "j < 32 \<Longrightarrow> bit (exchange w hi lo x) j \<longleftrightarrow>
    (bit x (j + w) \<and> bit hi (j + w)) \<or> (w \<le> j \<and> bit x (j - w) \<and> bit lo (j - w))"
  by (auto simp: exchange_def bit_or_iff bit_and_iff bit_push_bit_iff bit_drop_bit_eq add.commute)

lemma bit_exchange_mask: "bit (exchange w hi lo x) j \<Longrightarrow> bit hi (j + w) \<or> bit lo (j - w)"
  by (auto simp: exchange_def bit_or_iff bit_and_iff bit_push_bit_iff bit_drop_bit_eq add.commute)

definition rev32 :: "u64 \<Rightarrow> u64" where
  "rev32 x = exchange 1 0xAAAAAAAA 0x55555555 (exchange 2 0xCCCCCCCC 0x33333333
     (exchange 4 0xF0F0F0F0 0x0F0F0F0F (exchange 8 0xFF00FF00 0x00FF00FF (drop_bit 16 x OR push_bit 16 x))))"

lemma BR_rev32: "BR x k = drop_bit (32 - k) (rev32 x)"
  unfolding BR_def rev32_def exchange_def Let_def ..

lemma upt32: "[0..<32] = [0,1,2,3,4,5,6,7,8,9,10,11,12,13,14,15,16,17,18,19,20,21,22,23,24,25,26,27,28,29,30,31 :: nat]"
  by (simp add: upt_rec)

text \<open>Bit \<open>j\<close> of an exchange is the bit of the other half of its group.\<close>

definition other :: "nat \<Rightarrow> nat \<Rightarrow> nat" where
  "other w j = (if even (j div w) then j + w else j - w)"

lemma exchange_bits:
  "list_all (\<lambda>j. bit (exchange 8 0xFF00FF00 0x00FF00FF x) j = bit x (other 8 j)) [0..<32]"
  "list_all (\<lambda>j. bit (exchange 4 0xF0F0F0F0 0x0F0F0F0F x) j = bit x (other 4 j)) [0..<32]"
  "list_all (\<lambda>j. bit (exchange 2 0xCCCCCCCC 0x33333333 x) j = bit x (other 2 j)) [0..<32]"
  "list_all (\<lambda>j. bit (exchange 1 0xAAAAAAAA 0x55555555 x) j = bit x (other 1 j)) [0..<32]"
  unfolding upt32 by (simp_all add: bit_exchange other_def)

lemma other_chain: "list_all (\<lambda>j. other 1 j < 32 \<and> other 2 (other 1 j) < 32 \<and> other 4 (other 2 (other 1 j)) < 32
    \<and> other 8 (other 4 (other 2 (other 1 j))) < 32
    \<and> other 16 (other 8 (other 4 (other 2 (other 1 j)))) = 31 - j) [0..<32]"
  unfolding upt32 by (simp add: other_def)

lemma rev32_bits:
  assumes "\<And>j. 32 \<le> j \<Longrightarrow> \<not> bit x j" and j: "j < 32"
  shows "bit (rev32 x) j \<longleftrightarrow> bit x (31 - j)"
proof -
  have o: "other 1 j < 32" "other 2 (other 1 j) < 32" "other 4 (other 2 (other 1 j)) < 32"
    "other 8 (other 4 (other 2 (other 1 j))) < 32" "other 16 (other 8 (other 4 (other 2 (other 1 j)))) = 31 - j"
    using other_chain j unfolding list_all_iff by auto
  have e: "bit (exchange 8 0xFF00FF00 0x00FF00FF y) i = bit y (other 8 i)"
    "bit (exchange 4 0xF0F0F0F0 0x0F0F0F0F y) i = bit y (other 4 i)"
    "bit (exchange 2 0xCCCCCCCC 0x33333333 y) i = bit y (other 2 i)"
    "bit (exchange 1 0xAAAAAAAA 0x55555555 y) i = bit y (other 1 i)" if "i < 32" for i y
    using exchange_bits [where x = y] that unfolding list_all_iff by auto
  have f: "bit (drop_bit 16 x OR push_bit 16 x) i \<longleftrightarrow> bit x (other 16 i)" if "i < 32" for i
  proof (cases "i < 16")
    case True
    then show ?thesis by (auto simp: other_def bit_or_iff bit_push_bit_iff bit_drop_bit_eq add.commute)
  next
    case False
    then have "i div 16 = 1" using that by simp
    then show ?thesis using False that assms(1) [of "16 + i"]
      by (auto simp: other_def bit_or_iff bit_push_bit_iff bit_drop_bit_eq)
  qed
  show ?thesis unfolding rev32_def using o j by (simp only: e f)
qed

lemma bit_above: "take_bit n m = m \<Longrightarrow> n \<le> k \<Longrightarrow> \<not> bit (m :: u64) k"
  by (metis bit_take_bit_iff not_less)

theorem BR_value:
  assumes "i < 2 ^ k" and "k \<le> 32"
  shows "unat (BR (word_of_nat i) k) = brev k i"
proof (rule bit_eqI)
  fix j
  define x where "x = (word_of_nat i :: u64)"
  have i32: "\<not> bit i j" if "k \<le> j" for j
    using assms(1) that by (metis bit_take_bit_iff take_bit_nat_eq_self not_less)
  have "i < 2 ^ 32" using assms(1) power_increasing [OF assms(2), of "2 :: nat"] by simp
  then have "unat x = i" by (simp add: x_def unat_of_nat)
  moreover have "bit (unat x) j \<longleftrightarrow> bit x j" for j by (simp add: bit_unsigned_iff)
  ultimately have x: "bit x j \<longleftrightarrow> bit i j" for j by simp
  have hi: "\<not> bit x j" if "32 \<le> j" for j using i32 [of j] assms(2) that x by simp
  have rhi: "\<not> bit (rev32 x) j" if "32 \<le> j" for j
  proof -
    have "\<not> bit (0xAAAAAAAA :: u64) (j + 1)" by (rule bit_above [of 32]) (use that in simp_all)
    moreover have "\<not> bit (0x55555555 :: u64) (j - 1)" by (rule bit_above [of 31]) (use that in simp_all)
    ultimately show ?thesis unfolding rev32_def by (blast dest: bit_exchange_mask)
  qed
  show "bit (unat (BR x k)) j \<longleftrightarrow> bit (brev k i) j"
  proof (cases "j < k")
    case True
    then have "32 - k + j < 32" "31 - (32 - k + j) = k - 1 - j" using assms(2) by simp_all
    then show ?thesis using rev32_bits [OF hi, of "32 - k + j"] True x
      by (simp add: BR_rev32 bit_brev bit_unsigned_iff bit_drop_bit_eq)
  next
    case False
    then have "32 \<le> 32 - k + j" by simp
    then show ?thesis using rhi False by (simp add: BR_rev32 bit_brev bit_unsigned_iff bit_drop_bit_eq)
  qed
qed

end
