(* ===== verification/Dft.thy ===== *)
theory Dft
  imports Fft_Bits
begin

section \<open>The discrete Fourier transform\<close>

text \<open>
  The specification of the transform over a commutative ring, for sizes that are powers of two: the
  values of a polynomial at the powers of a root of unity. The recursion on halves, the orthogonality
  of the powers, and the two inversions.
\<close>

definition dft :: "'k :: comm_ring_1 \<Rightarrow> nat \<Rightarrow> (nat \<Rightarrow> 'k) \<Rightarrow> nat \<Rightarrow> 'k" where
  "dft w n x j = (\<Sum>i<n. x i * w ^ (i * j))"

text \<open>A root of unity of order \<open>2 ^ k\<close>: half of its order gives \<open>-1\<close>.\<close>

definition root2 :: "nat \<Rightarrow> 'k :: comm_ring_1 \<Rightarrow> bool" where
  "root2 k w \<longleftrightarrow> (if k = 0 then w = 1 else w ^ 2 ^ (k - 1) = -1)"

lemma root2_one: "root2 k w \<Longrightarrow> w ^ 2 ^ k = 1"
proof (cases k)
  case (Suc j)
  assume "root2 k w"
  then have "w ^ 2 ^ j = -1" using Suc by (simp add: root2_def)
  moreover have "w ^ 2 ^ k = w ^ 2 ^ j * w ^ 2 ^ j" using Suc by (simp add: mult_2 power_add)
  ultimately show ?thesis by simp
qed (simp add: root2_def)

lemma root2_power: "root2 k w \<Longrightarrow> j \<le> k \<Longrightarrow> root2 j (w ^ 2 ^ (k - j))"
proof (cases j)
  case 0
  assume "root2 k w" "j \<le> k"
  then show ?thesis using 0 root2_one by (simp add: root2_def)
next
  case (Suc i)
  assume a: "root2 k w" "j \<le> k"
  then have "k - j + i = k - 1" "k \<noteq> 0" using Suc by simp_all
  then have "(w ^ 2 ^ (k - j)) ^ 2 ^ i = w ^ 2 ^ (k - 1)" by (simp flip: power_mult power_add)
  then show ?thesis using a Suc \<open>k \<noteq> 0\<close> by (simp add: root2_def)
qed

lemma power_mod_order:
  assumes "w ^ n = (1 :: 'k :: comm_ring_1)"
  shows "w ^ (d mod n) = w ^ d"
proof -
  have "w ^ d = w ^ (n * (d div n) + d mod n)" by simp
  also have "\<dots> = (w ^ n) ^ (d div n) * w ^ (d mod n)" by (simp only: power_add power_mult)
  finally show ?thesis using assms by simp
qed

subsection \<open>Halving\<close>

lemma sum_even_odd: "(\<Sum>i<2 * m. f i) = (\<Sum>i<m. f (2 * i)) + (\<Sum>i<m. f (2 * i + 1))" for f :: "nat \<Rightarrow> 'a :: comm_monoid_add"
  by (induction m) (simp_all add: ac_simps)

lemma sum_halves: "(\<Sum>i<2 * m. f i) = (\<Sum>i<m. f i) + (\<Sum>i<m. f (i + m))" for f :: "nat \<Rightarrow> 'a :: comm_monoid_add"
proof -
  have "(\<Sum>i<m + k. f i) = (\<Sum>i<m. f i) + (\<Sum>i<k. f (i + m))" for k
    by (induction k) (simp_all add: ac_simps)
  from this [of m] show ?thesis by (simp add: mult_2)
qed

lemma dft_even_odd:
  "dft w (2 * m) x j = dft (w * w) m (\<lambda>i. x (2 * i)) j + w ^ j * dft (w * w) m (\<lambda>i. x (2 * i + 1)) j"
proof -
  have sq: "w ^ (2 * i * j) = (w * w) ^ (i * j)" for i
    by (simp add: power_mult power2_eq_square mult.assoc)
  have "dft w (2 * m) x j = (\<Sum>i<m. x (2 * i) * w ^ (2 * i * j)) + (\<Sum>i<m. x (2 * i + 1) * w ^ ((2 * i + 1) * j))"
    unfolding dft_def by (rule sum_even_odd)
  also have "(\<Sum>i<m. x (2 * i + 1) * w ^ ((2 * i + 1) * j)) = (\<Sum>i<m. w ^ j * (x (2 * i + 1) * (w * w) ^ (i * j)))"
  proof (intro sum.cong refl)
    fix i
    have "w ^ ((2 * i + 1) * j) = (w * w) ^ (i * j) * w ^ j" by (simp only: add_mult_distrib power_add sq mult_1)
    then show "x (2 * i + 1) * w ^ ((2 * i + 1) * j) = w ^ j * (x (2 * i + 1) * (w * w) ^ (i * j))"
      by (simp only: ac_simps)
  qed
  finally show ?thesis unfolding dft_def sum_distrib_left [symmetric] by (simp only: sq)
qed

lemma dft_period: "w ^ n = 1 \<Longrightarrow> dft w n x (j + n) = dft w n x j"
proof -
  assume w: "w ^ n = 1"
  have "w ^ (i * (j + n)) = w ^ (i * j) * (w ^ n) ^ i" for i
    by (simp add: add_mult_distrib2 power_add mult.commute [of i n] power_mult)
  then show ?thesis by (simp add: dft_def w)
qed

text \<open>The second half of a transform.\<close>

lemma dft_second_half:
  assumes "w ^ m = -1"
  shows "dft w (2 * m) x (j + m)
    = dft (w * w) m (\<lambda>i. x (2 * i)) j - w ^ j * dft (w * w) m (\<lambda>i. x (2 * i + 1)) j"
proof -
  have "(w * w) ^ m = 1" using assms by (simp add: power_mult_distrib)
  note p = dft_period [OF this]
  show ?thesis unfolding dft_even_odd p power_add assms by simp
qed

subsection \<open>Orthogonality and inversion\<close>

lemma orthogonal:
  "root2 k w \<Longrightarrow> 0 < d \<Longrightarrow> d < 2 ^ k \<Longrightarrow> (\<Sum>i<2 ^ k. w ^ (i * d)) = (0 :: 'k :: comm_ring_1)"
proof (induction k arbitrary: w d)
  case (Suc k)
  define m where "m = (2 :: nat) ^ k"
  have wm: "w ^ m = -1" using Suc.prems(1) by (simp add: root2_def m_def)
  have shift: "w ^ ((i + m) * d) = w ^ (i * d) * (-1) ^ d" for i
    by (simp add: add_mult_distrib power_add power_mult wm)
  have S: "(\<Sum>i<2 ^ Suc k. w ^ (i * d)) = (\<Sum>i<m. w ^ (i * d)) + (\<Sum>i<m. w ^ (i * d)) * (-1) ^ d"
    using sum_halves [of "\<lambda>i. w ^ (i * d)" m] by (simp add: m_def [symmetric] shift sum_distrib_right)
  show ?case
  proof (cases "even d")
    case False
    then show ?thesis unfolding S by simp
  next
    case True
    then obtain e where d: "d = 2 * e" by auto
    have "root2 k (w ^ 2)" using root2_power [OF Suc.prems(1), of k] by simp
    moreover have "0 < e" "e < 2 ^ k" using Suc.prems d by simp_all
    ultimately have "(\<Sum>i<2 ^ k. (w ^ 2) ^ (i * e)) = 0" by (rule Suc.IH)
    moreover have "w ^ (i * d) = (w ^ 2) ^ (i * e)" for i by (simp add: d mult.left_commute flip: power_mult)
    ultimately have "(\<Sum>i<m. w ^ (i * d)) = 0" by (simp add: m_def)
    then show ?thesis unfolding S by simp
  qed
qed simp

definition neg_index :: "nat \<Rightarrow> nat \<Rightarrow> nat" where
  "neg_index n j = (n - j) mod n"

lemma neg_index_lt [simp]: "0 < n \<Longrightarrow> neg_index n j < n"
  by (simp add: neg_index_def)

lemma neg_index_neg [simp]: "j < n \<Longrightarrow> neg_index n (neg_index n j) = j"
  by (cases "j = 0") (simp_all add: neg_index_def)

lemma kernel_sum:
  assumes w: "root2 k w" and n: "n = 2 ^ k" and i: "i < n" and j: "j < n"
  shows "(\<Sum>l<n. w ^ (i * l) * w ^ (l * neg_index n j)) = (if i = j then of_nat n else (0 :: 'k :: comm_ring_1))"
proof -
  have w1: "w ^ n = 1" using root2_one [OF w] by (simp add: n)
  define d where "d = (i + neg_index n j) mod n"
  have "w ^ (i * l) * w ^ (l * neg_index n j) = w ^ (l * d)" for l
  proof -
    have "w ^ (i * l) * w ^ (l * neg_index n j) = (w ^ (i + neg_index n j)) ^ l"
      by (simp add: power_add power_mult_distrib mult.commute flip: power_mult)
    also have "w ^ (i + neg_index n j) = w ^ d" unfolding d_def by (rule power_mod_order [OF w1, symmetric])
    finally show ?thesis by (simp add: mult.commute flip: power_mult)
  qed
  then have S: "(\<Sum>l<n. w ^ (i * l) * w ^ (l * neg_index n j)) = (\<Sum>l<n. w ^ (l * d))" by simp
  have d: "d = (i + (n - j)) mod n" by (simp add: d_def neg_index_def mod_add_right_eq)
  show ?thesis
  proof (cases "i = j")
    case True
    then have "d = 0" using d j by simp
    then show ?thesis unfolding S using True by simp
  next
    case False
    have "d \<noteq> 0"
    proof
      assume "d = 0"
      then have "n dvd i + (n - j)" using d by (simp add: mod_eq_0_iff_dvd)
      then obtain t where t: "i + (n - j) = n * t" ..
      have "0 < i + (n - j)" "i + (n - j) < n * 2" using i j by linarith+
      then have "t = 1" unfolding t by (cases t) auto
      then show False using t False j by simp
    qed
    moreover have "d < 2 ^ k" using j by (simp add: d_def flip: n)
    ultimately show ?thesis unfolding S using orthogonal [OF w, of d] False by (simp add: n)
  qed
qed

theorem dft_dft:
  assumes w: "root2 k w" and n: "n = 2 ^ k" and j: "j < n"
  shows "dft w n (dft w n x) (neg_index n j) = of_nat n * x j"
proof -
  have "dft w n (dft w n x) (neg_index n j) = (\<Sum>l<n. \<Sum>i<n. x i * (w ^ (i * l) * w ^ (l * neg_index n j)))"
    by (simp add: dft_def sum_distrib_right mult.assoc)
  also have "\<dots> = (\<Sum>i<n. x i * (\<Sum>l<n. w ^ (i * l) * w ^ (l * neg_index n j)))"
    by (subst sum.swap) (simp add: sum_distrib_left)
  also have "\<dots> = (\<Sum>i<n. x i * (if i = j then of_nat n else 0))"
    using kernel_sum [OF w n _ j] by (intro sum.cong) simp_all
  also have "\<dots> = of_nat n * x j" using j by (simp add: if_distrib sum.delta mult.commute cong: if_cong)
  finally show ?thesis .
qed

text \<open>The inverse transform of the code: every value at the negated index, scaled.\<close>

definition idft :: "'k :: comm_ring_1 \<Rightarrow> 'k \<Rightarrow> nat \<Rightarrow> (nat \<Rightarrow> 'k) \<Rightarrow> nat \<Rightarrow> 'k" where
  "idft c w n x j = dft w n x (neg_index n j) * c"

lemma dft_cong: "(\<And>i. i < n \<Longrightarrow> x i = y i) \<Longrightarrow> dft w n x j = dft w n y j"
  by (simp add: dft_def)

theorem idft_dft:
  assumes "root2 k w" and "n = 2 ^ k" and "c * of_nat n = 1" and "j < n"
  shows "idft c w n (dft w n x) j = x j"
  unfolding idft_def dft_dft [OF assms(1,2,4)] using assms(3) by (metis mult.assoc mult.commute mult_1)

theorem dft_idft:
  assumes w: "root2 k w" and n: "n = 2 ^ k" and c: "c * of_nat n = 1" and j: "j < n"
  shows "dft w n (idft c w n x) j = x j"
proof -
  have w1: "w ^ n = 1" using root2_one [OF w] by (simp add: n)
  have n0: "0 < n" by (simp add: n)
  have inv: "w ^ (i * j) = w ^ (neg_index n i * neg_index n j)" if i: "i < n" for i
  proof -
    have "w ^ (neg_index n i * neg_index n j) = w ^ ((n - i) * (n - j))"
      using power_mod_order [OF w1, of "(n - i) * (n - j)"] power_mod_order [OF w1, of "neg_index n i * neg_index n j"]
      unfolding neg_index_def mod_mult_eq by simp
    also have "\<dots> = w ^ (i * j)"
    proof -
      have "(n - i) * (n - j) + n * (i + j) = n * n + i * j"
      proof -
        obtain a where n1: "n = i + a" using le_Suc_ex [of i n] i by auto
        obtain b where n2: "n = j + b" using le_Suc_ex [of j n] j by auto
        have "n * (i + j) = (j + b) * i + (i + a) * j" by (simp only: add_mult_distrib2 n1 [symmetric] n2 [symmetric])
        moreover have "n * n = (i + a) * (j + b)" by (simp only: n1 [symmetric] n2 [symmetric])
        moreover have "n - i = a" using n1 by simp
        moreover have "n - j = b" using n2 by simp
        ultimately show ?thesis by (simp add: algebra_simps)
      qed
      then have "w ^ ((n - i) * (n - j)) * (w ^ n) ^ (i + j) = (w ^ n) ^ n * w ^ (i * j)"
        by (simp only: power_add [symmetric] power_mult [symmetric])
      then show ?thesis by (simp add: w1)
    qed
    finally show ?thesis by simp
  qed
  have "dft w n (idft c w n x) j = (\<Sum>i<n. dft w n x (neg_index n i) * c * w ^ (neg_index n i * neg_index n j))"
    unfolding dft_def [of w n "idft c w n x"] idft_def using inv by (intro sum.cong) simp_all
  also have "\<dots> = (\<Sum>l<n. dft w n x l * c * w ^ (l * neg_index n j))"
    by (rule sum.reindex_bij_witness [where i = "neg_index n" and j = "neg_index n"]) (simp_all add: n0)
  also have "\<dots> = c * dft w n (dft w n x) (neg_index n j)"
    by (simp add: dft_def [of w n "dft w n x"] sum_distrib_left mult_ac)
  finally show ?thesis unfolding dft_dft [OF w n j] using c by (metis mult.assoc mult_1)
qed

subsection \<open>The stages of the decimated transform\<close>

text \<open>Cell \<open>p\<close> after stage \<open>s\<close> of a transform of size \<open>2 ^ L\<close> of bit-reversed data.\<close>

definition stage :: "'k :: comm_ring_1 \<Rightarrow> nat \<Rightarrow> nat \<Rightarrow> (nat \<Rightarrow> 'k) \<Rightarrow> nat \<Rightarrow> 'k" where
  "stage w L s x p = dft (w ^ 2 ^ (L - s)) (2 ^ s) (\<lambda>i. x (brev (L - s) (p div 2 ^ s) + i * 2 ^ (L - s))) (p mod 2 ^ s)"

lemma stage_0: "stage w L 0 x p = x (brev L p)"
  by (simp add: stage_def dft_def)

lemma stage_last: "p < 2 ^ L \<Longrightarrow> stage w L L x p = dft w (2 ^ L) x p"
  by (simp add: stage_def)

lemma brev_double: "brev (Suc t) (2 * b) = brev t b" "brev (Suc t) (2 * b + 1) = 2 ^ t + brev t b"
  by simp_all

lemma stage_Suc:
  assumes w: "root2 L w" and s: "s < L" and j: "j < 2 ^ s"
  shows "stage w L (Suc s) x (b * 2 ^ Suc s + j)
      = stage w L s x (b * 2 ^ Suc s + j) + (w ^ 2 ^ (L - Suc s)) ^ j * stage w L s x (b * 2 ^ Suc s + j + 2 ^ s)"
    and "stage w L (Suc s) x (b * 2 ^ Suc s + j + 2 ^ s)
      = stage w L s x (b * 2 ^ Suc s + j) - (w ^ 2 ^ (L - Suc s)) ^ j * stage w L s x (b * 2 ^ Suc s + j + 2 ^ s)"
proof -
  define m where "m = (2 :: nat) ^ s"
  define t where "t = L - Suc s"
  define v where "v = w ^ 2 ^ t"
  have L: "L - s = Suc t" using s by (simp add: t_def)
  have m0: "0 < m" by (simp add: m_def)
  have m2: "2 ^ Suc s = 2 * m" by (simp add: m_def)
  have root: "root2 (Suc s) v" using root2_power [OF w, of "Suc s"] s by (simp add: v_def t_def)
  then have vm: "v ^ m = -1" by (simp add: root2_def m_def)
  have vv: "w ^ 2 ^ Suc t = v * v" by (simp add: v_def mult_2 power_add)
  have idx: "(b * (2 * m) + j) div (2 * m) = b" "(b * (2 * m) + j) mod (2 * m) = j"
    "(b * (2 * m) + j + m) div (2 * m) = b" "(b * (2 * m) + j + m) mod (2 * m) = j + m"
    "(b * (2 * m) + j) div m = 2 * b" "(b * (2 * m) + j) mod m = j"
    "(b * (2 * m) + j + m) div m = 2 * b + 1" "(b * (2 * m) + j + m) mod m = j"
  proof -
    have jm: "j < m" "j < 2 * m" "j + m < 2 * m" using j by (simp_all add: m_def)
    show "(b * (2 * m) + j) div (2 * m) = b" "(b * (2 * m) + j) mod (2 * m) = j" using jm by simp_all
    have a: "b * (2 * m) + j + m = b * (2 * m) + (j + m)" by simp
    show "(b * (2 * m) + j + m) div (2 * m) = b" "(b * (2 * m) + j + m) mod (2 * m) = j + m"
      unfolding a using jm m0 by simp_all
    have c: "b * (2 * m) + j = (2 * b) * m + j" "b * (2 * m) + j + m = (2 * b + 1) * m + j" by simp_all
    show "(b * (2 * m) + j) div m = 2 * b" "(b * (2 * m) + j) mod m = j"
      "(b * (2 * m) + j + m) div m = 2 * b + 1" "(b * (2 * m) + j + m) mod m = j"
      unfolding c using jm m0 by simp_all
  qed
  define y where "y = (\<lambda>i. x (brev t b + i * 2 ^ t))"
  have lo: "stage w L s x (b * 2 ^ Suc s + j) = dft (v * v) m (\<lambda>i. y (2 * i)) j"
    unfolding stage_def L m2 vv m_def [symmetric] idx brev_double y_def by (simp add: algebra_simps)
  have hi: "stage w L s x (b * 2 ^ Suc s + j + 2 ^ s) = dft (v * v) m (\<lambda>i. y (2 * i + 1)) j"
    unfolding stage_def L m2 vv m_def [symmetric] idx brev_double y_def by (simp add: algebra_simps)
  have "stage w L (Suc s) x (b * 2 ^ Suc s + j) = dft v (2 * m) y j"
    "stage w L (Suc s) x (b * 2 ^ Suc s + j + 2 ^ s) = dft v (2 * m) y (j + m)"
    unfolding stage_def t_def [symmetric] m2 m_def [symmetric] idx v_def y_def by simp_all
  then show "stage w L (Suc s) x (b * 2 ^ Suc s + j)
      = stage w L s x (b * 2 ^ Suc s + j) + (w ^ 2 ^ (L - Suc s)) ^ j * stage w L s x (b * 2 ^ Suc s + j + 2 ^ s)"
    and "stage w L (Suc s) x (b * 2 ^ Suc s + j + 2 ^ s)
      = stage w L s x (b * 2 ^ Suc s + j) - (w ^ 2 ^ (L - Suc s)) ^ j * stage w L s x (b * 2 ^ Suc s + j + 2 ^ s)"
    unfolding lo hi t_def [symmetric] v_def [symmetric] using dft_even_odd [of v m y j] dft_second_half [OF vm, of y j] by simp_all
qed

end
