(* ===== verification/Fft_Laws.thy ===== *)
theory Fft_Laws
  imports Dft
begin

section \<open>The transform in place\<close>

text \<open>
  Over any field that the element operations implement, the code's \<open>fft\<close> is \<open>dft\<close> and its \<open>ifft\<close> is
  \<open>idft\<close>, for every schedule of the parallel loops: each loop body writes the two cells its index owns.
\<close>

definition fft_tables :: "('e \<Rightarrow> bool) \<Rightarrow> ('e \<Rightarrow> 'k :: field) \<Rightarrow> 'e fft_state \<Rightarrow> 'k \<Rightarrow> bool" where
  "fft_tables ok val R w \<longleftrightarrow> length (roots R) = 2 ^ fft_s R
     \<and> (\<forall>i<2 ^ fft_s R. ok (roots R ! i) \<and> val (roots R ! i) = w ^ i)
     \<and> root2 (fft_s R) w \<and> fft_s R \<le> 32 \<and> length (powTwoInv R) = fft_s R + 1
     \<and> (\<forall>d\<le>fft_s R. ok (powTwoInv R ! d) \<and> val (powTwoInv R ! d) * 2 ^ d = 1)"

definition arr_ok :: "('e \<Rightarrow> bool) \<Rightarrow> nat \<Rightarrow> 'e list \<Rightarrow> bool" where
  "arr_ok ok n a \<longleftrightarrow> length a = n \<and> (\<forall>i<n. ok (a ! i))"

text \<open>The root of unity that a transform of size \<open>2 ^ L\<close> uses.\<close>

definition root_for :: "'e fft_state \<Rightarrow> 'k :: field \<Rightarrow> nat \<Rightarrow> 'k" where
  "root_for R w L = w ^ 2 ^ (fft_s R - L)"

lemma root_for_order: "fft_tables ok val R w \<Longrightarrow> L \<le> fft_s R \<Longrightarrow> root2 L (root_for R w L)"
  by (simp add: fft_tables_def root_for_def root2_power)

lemma fft_root_value:
  assumes "fft_tables ok val R w" and "L \<le> fft_s R" and "i < 2 ^ L"
  shows "ok (fft_root R L i) \<and> val (fft_root R L i) = root_for R w L ^ i"
proof -
  have "i * 2 ^ (fft_s R - L) < 2 ^ L * 2 ^ (fft_s R - L)" using assms(3) by simp
  also have "\<dots> = 2 ^ fft_s R" using assms(2) by (simp flip: power_add)
  finally have "i * 2 ^ (fft_s R - L) < 2 ^ fft_s R" .
  then have "ok (roots R ! (i * 2 ^ (fft_s R - L)))" "val (roots R ! (i * 2 ^ (fft_s R - L))) = w ^ (i * 2 ^ (fft_s R - L))"
    using assms(1) by (simp_all add: fft_tables_def)
  then show ?thesis
    by (simp add: fft_root_def push_bit_eq_mult root_for_def mult.commute [of i] flip: power_mult)
qed

subsection \<open>The loops and the cells they own\<close>

definition br_owned :: "nat \<Rightarrow> nat \<Rightarrow> nat set" where
  "br_owned L i = (if brev L i < i then {i, brev L i} else {})"

lemma br_body_eq:
  assumes "i < 2 ^ L" and "L \<le> 32"
  shows "br_body F L i a = (if brev L i < i
    then a[i := F_copy F (a ! brev L i), brev L i := F_copy F (F_copy F (a ! i))] else a)"
  using BR_value [OF assms] by (simp add: br_body_def Let_def)

lemma br_independent:
  assumes "L \<le> 32"
  shows "independent_body (br_body F L) (br_owned L) (2 ^ L) {0..<2 ^ L}"
proof
  fix as bs :: "'a list" and i j p :: nat
  assume i: "i \<in> {0..<2 ^ L}" and as: "length as = 2 ^ L"
  note eq = br_body_eq [of i L F, OF _ assms]
  show "length (br_body F L i as) = 2 ^ L" using i as eq by auto
  show "p < 2 ^ L \<Longrightarrow> p \<notin> br_owned L i \<Longrightarrow> br_body F L i as ! p = as ! p"
    using i eq by (auto simp: br_owned_def)
  show "br_body F L i as ! p = br_body F L i bs ! p"
    if "length bs = 2 ^ L" "p \<in> br_owned L i" "\<And>k. k < 2 ^ L \<Longrightarrow> k \<in> br_owned L i \<Longrightarrow> as ! k = bs ! k"
    using that i as eq brev_lt [of L i] by (auto simp: br_owned_def nth_list_update split: if_splits)
next
  fix i j :: nat
  assume i: "i \<in> {0..<2 ^ L}"
  show "j \<in> {0..<2 ^ L} \<Longrightarrow> i \<noteq> j \<Longrightarrow> br_owned L i \<inter> br_owned L j = {}"
    using i brev_brev [of i L] brev_brev [of j L] by (auto simp: br_owned_def)
qed

definition fly_owned :: "nat \<Rightarrow> nat \<Rightarrow> nat set" where
  "fly_owned h i = {i div h * (2 * h) + i mod h, i div h * (2 * h) + i mod h + h}"

lemma butterfly_eq:
  "butterfly F R (Suc s) i a =
     (let h = 2 ^ s; p = i div h * (2 * h) + i mod h;
          t = F_mul F (fft_root R (Suc s) (i mod h)) (a ! (p + h)); u = F_copy F (a ! p)
      in a[p := F_add F t u, p + h := F_sub F u t])"
  by (simp add: butterfly_def Let_def)

lemma fly_index:
  assumes "0 < (h :: nat)" and "p = i div h * (2 * h) + i mod h"
  shows "p div (2 * h) = i div h" and "p mod (2 * h) = i mod h"
    and "(p + h) div (2 * h) = i div h" and "(p + h) mod (2 * h) = i mod h + h"
proof -
  have m: "i mod h < h" "i mod h < 2 * h" using assms(1) mod_less_divisor [of h i] by linarith+
  show "p div (2 * h) = i div h" "p mod (2 * h) = i mod h" using m assms by simp_all
  have a: "p + h = i div h * (2 * h) + (i mod h + h)" using assms(2) by simp
  show "(p + h) div (2 * h) = i div h" "(p + h) mod (2 * h) = i mod h + h"
    unfolding a using m assms(1) by simp_all
qed

lemma fly_bound:
  assumes "s < L" and "i < 2 ^ L div 2"
  shows "i div 2 ^ s * (2 * 2 ^ s) + i mod 2 ^ s + 2 ^ s < (2 :: nat) ^ L"
proof -
  define h K where "h = (2 :: nat) ^ s" and "K = (2 :: nat) ^ (L - 1 - s)"
  have "L = Suc (s + (L - 1 - s))" using assms(1) by simp
  then have N: "(2 :: nat) ^ L = K * (2 * h)" unfolding h_def K_def by (metis mult.commute mult.left_commute power_Suc power_add)
  have "i < K * h" using assms(2) by (simp add: N)
  then have "i div h < K" by (simp add: less_mult_imp_div_less)
  then have "Suc (i div h) * (2 * h) \<le> K * (2 * h)" by (intro mult_le_mono1) simp
  moreover have "i mod h < h" by (simp add: h_def)
  ultimately show ?thesis unfolding N h_def [symmetric] by simp
qed

lemma butterfly_independent:
  assumes "s < L"
  shows "independent_body (butterfly F R (Suc s)) (fly_owned (2 ^ s)) (2 ^ L) {0..<2 ^ L div 2}"
proof
  fix as bs :: "'a list" and i j p :: nat
  assume i: "i \<in> {0..<2 ^ L div 2}" and as: "length as = 2 ^ L"
  have b: "i div 2 ^ s * (2 * 2 ^ s) + i mod 2 ^ s + 2 ^ s < 2 ^ L" using fly_bound [OF assms] i by simp
  show "length (butterfly F R (Suc s) i as) = 2 ^ L" using as by (simp add: butterfly_eq Let_def)
  show "p < 2 ^ L \<Longrightarrow> p \<notin> fly_owned (2 ^ s) i \<Longrightarrow> butterfly F R (Suc s) i as ! p = as ! p"
    by (simp add: butterfly_eq Let_def fly_owned_def)
  show "butterfly F R (Suc s) i as ! p = butterfly F R (Suc s) i bs ! p"
    if "length bs = 2 ^ L" "p \<in> fly_owned (2 ^ s) i" "\<And>k. k < 2 ^ L \<Longrightarrow> k \<in> fly_owned (2 ^ s) i \<Longrightarrow> as ! k = bs ! k"
    using that as b by (auto simp: butterfly_eq Let_def fly_owned_def nth_list_update)
next
  fix i j :: nat
  show "fly_owned (2 ^ s) i \<inter> fly_owned (2 ^ s) j = {}" if "i \<noteq> j"
  proof (rule ccontr)
    assume "fly_owned (2 ^ s) i \<inter> fly_owned (2 ^ s) j \<noteq> {}"
    then obtain q where q: "q \<in> fly_owned (2 ^ s) i" "q \<in> fly_owned (2 ^ s) j" by blast
    have D: "q div (2 * 2 ^ s) = k div 2 ^ s \<and> q mod (2 * 2 ^ s) mod 2 ^ s = k mod 2 ^ s"
      if "q \<in> fly_owned (2 ^ s) k" for k
      using that fly_index [OF _ refl, of "2 ^ s" k] unfolding fly_owned_def by fastforce
    have "i div 2 ^ s = j div 2 ^ s" "i mod 2 ^ s = j mod 2 ^ s" using D [OF q(1)] D [OF q(2)] by simp_all
    then have "i = j" by (metis div_mult_mod_eq)
    with that show False by simp
  qed
qed

definition inv_owned :: "nat \<Rightarrow> nat \<Rightarrow> nat set" where
  "inv_owned n i = {i, n - i}"

lemma ifft_independent: "independent_body (ifft_body F c n) (inv_owned n) n {1..<n div 2}"
proof
  fix as bs :: "'a list" and i j p :: nat
  assume i: "i \<in> {1..<n div 2}" and as: "length as = n"
  show "length (ifft_body F c n i as) = n" using as by (simp add: ifft_body_def Let_def)
  show "p < n \<Longrightarrow> p \<notin> inv_owned n i \<Longrightarrow> ifft_body F c n i as ! p = as ! p"
    by (simp add: ifft_body_def Let_def inv_owned_def)
  show "ifft_body F c n i as ! p = ifft_body F c n i bs ! p"
    if "length bs = n" "p \<in> inv_owned n i" "\<And>k. k < n \<Longrightarrow> k \<in> inv_owned n i \<Longrightarrow> as ! k = bs ! k"
    using that as i by (auto simp: ifft_body_def Let_def inv_owned_def nth_list_update)
next
  fix i j :: nat
  assume i: "i \<in> {1..<n div 2}"
  show "j \<in> {1..<n div 2} \<Longrightarrow> i \<noteq> j \<Longrightarrow> inv_owned n i \<inter> inv_owned n j = {}"
    using i by (auto simp: inv_owned_def)
qed

subsection \<open>The transforms\<close>

context field_ops_laws begin

lemma reversePermutation_value:
  assumes T: "tbb_laws T" and a: "arr_ok ok n a" and n: "n = 2 ^ L" and L: "L \<le> 32"
  shows "\<exists>a'. reversePermutation F T a n = Inr a' \<and> arr_ok ok n a' \<and> (\<forall>p<n. a' ! p = a ! brev L p)"
proof -
  define a' where "a' = par_for T [11] 0 (2 ^ L) (br_body F L) a"
  have len: "length a = 2 ^ L" and oka: "\<And>p. p < 2 ^ L \<Longrightarrow> ok (a ! p)" using a n by (simp_all add: arr_ok_def)
  note P = independent_body.parallel [OF br_independent [OF L, where F = F] T len refl, where c = "[11]", folded a'_def]
  have cell: "a' ! p = a ! brev L p" if p: "p < 2 ^ L" for p
  proof -
    have b: "brev L p < 2 ^ L" by (rule brev_lt)
    consider "brev L p < p" | "p < brev L p" | "brev L p = p" by linarith
    then show ?thesis
    proof cases
      case 1
      then have "p \<in> br_owned L p" by (simp add: br_owned_def)
      then have "a' ! p = br_body F L p a ! p" using P(2) [of p p] p by simp
      then show ?thesis using 1 p b len oka by (simp add: br_body_eq [OF p L] nth_list_update)
    next
      case 2
      then have "p \<in> br_owned L (brev L p)" by (simp add: br_owned_def brev_brev [OF p])
      then have "a' ! p = br_body F L (brev L p) a ! p" using P(2) [of "brev L p" p] p b by simp
      then show ?thesis using 2 p b len oka by (simp add: br_body_eq [OF b L] brev_brev [OF p])
    next
      case 3
      have "p \<notin> br_owned L i" if "i \<in> {0..<2 ^ L}" for i
        using 3 brev_brev [of i L] that by (auto simp: br_owned_def)
      then show ?thesis using P(3) [of p] p 3 by simp
    qed
  qed
  moreover have "reversePermutation F T a n = Inr a'" by (simp add: reversePermutation_def n a'_def)
  moreover have "arr_ok ok n a'" using cell oka P(1) brev_lt [of L] by (simp add: arr_ok_def n)
  ultimately show ?thesis using n by blast
qed

lemma butterfly_stage:
  assumes T: "tbb_laws T" and R: "fft_tables ok val R w" and L: "L \<le> fft_s R" and s: "s < L"
    and a: "arr_ok ok (2 ^ L) a" and st: "\<And>p. p < 2 ^ L \<Longrightarrow> val (a ! p) = stage (root_for R w L) L s x p"
  defines "a' \<equiv> par_for T [12, Suc s] 0 (2 ^ L div 2) (butterfly F R (Suc s)) a"
  shows "arr_ok ok (2 ^ L) a' \<and> (\<forall>p<2 ^ L. val (a' ! p) = stage (root_for R w L) L (Suc s) x p)"
proof -
  have len: "length a = 2 ^ L" and oka: "\<And>p. p < 2 ^ L \<Longrightarrow> ok (a ! p)" using a by (simp_all add: arr_ok_def)
  note P = independent_body.parallel [OF butterfly_independent [OF s, where F = F and R = R] T len refl, where c = "[12, Suc s]", folded a'_def]
  define h where "h = (2 :: nat) ^ s"
  have w: "root2 L (root_for R w L)" using root_for_order [OF R L] .
  have cell: "ok (a' ! p) \<and> val (a' ! p) = stage (root_for R w L) L (Suc s) x p" if p: "p < 2 ^ L" for p
  proof -
    define q j where "q = p div (2 * h)" and "j = p mod h"
    define i where "i = q * h + j"
    have h0: "0 < h" and j: "j < h" by (simp_all add: h_def j_def)
    have i': "i div h = q" "i mod h = j" using j by (simp_all add: i_def)
    define lo where "lo = q * (2 * h) + j"
    have p_or: "p = lo \<or> p = lo + h"
    proof -
      have "p mod (2 * h) = j \<or> p mod (2 * h) = j + h"
      proof -
        have "p mod (2 * h) mod h = j" by (simp add: j_def mod_mod_cancel)
        moreover have "p mod (2 * h) < 2 * h" using h0 by simp
        ultimately show ?thesis by (cases "p mod (2 * h) < h") (auto simp: le_mod_geq)
      qed
      moreover have "p = q * (2 * h) + p mod (2 * h)" unfolding q_def by (rule div_mult_mod_eq [symmetric])
      ultimately show ?thesis by (auto simp: lo_def)
    qed
    have K: "(2 :: nat) ^ L div 2 = h * 2 ^ (L - Suc s)" "(2 :: nat) ^ L = 2 * h * 2 ^ (L - Suc s)"
    proof -
      have "L = Suc (s + (L - Suc s))" using s by simp
      then have "(2 :: nat) ^ L = 2 * (2 ^ s * 2 ^ (L - Suc s))" by (metis power_Suc power_add)
      then show "(2 :: nat) ^ L div 2 = h * 2 ^ (L - Suc s)" "(2 :: nat) ^ L = 2 * h * 2 ^ (L - Suc s)" by (simp_all add: h_def)
    qed
    have "q < 2 ^ (L - Suc s)" unfolding q_def using p unfolding K(2) by (simp add: less_mult_imp_div_less mult.commute)
    then have "Suc q * h \<le> 2 ^ (L - Suc s) * h" by (intro mult_le_mono1) simp
    then have i: "i < 2 ^ L div 2" unfolding K(1) i_def using j by (simp add: mult.commute)
    have hi: "lo + h < 2 ^ L" using fly_bound [OF s i] by (simp add: lo_def i' flip: h_def)
    have own: "p \<in> fly_owned (2 ^ s) i" using p_or by (auto simp: fly_owned_def i' lo_def simp flip: h_def)
    have e: "a' ! p = butterfly F R (Suc s) i a ! p" using P(2) [of i p] i own p by simp
    have r: "ok (fft_root R (Suc s) j)" "val (fft_root R (Suc s) j) = root_for R w (Suc s) ^ j"
      using fft_root_value [OF R, of "Suc s" j] s L j by (simp_all add: h_def)
    have "root_for R w (Suc s) = root_for R w L ^ 2 ^ (L - Suc s)"
    proof -
      have "fft_s R - Suc s = (fft_s R - L) + (L - Suc s)" using s L by simp
      then show ?thesis by (simp add: root_for_def power_add flip: power_mult)
    qed
    note r = r(1) r(2) [unfolded this]
    have v: "ok (a ! lo)" "ok (a ! (lo + h))" "val (a ! lo) = stage (root_for R w L) L s x lo"
      "val (a ! (lo + h)) = stage (root_for R w L) L s x (lo + h)"
      using oka st hi by simp_all
    have lo_eq: "lo = q * 2 ^ Suc s + j" by (simp add: lo_def h_def)
    have S: "stage (root_for R w L) L (Suc s) x lo = val (fft_root R (Suc s) j) * val (a ! (lo + h)) + val (a ! lo)"
      "stage (root_for R w L) L (Suc s) x (lo + h) = val (a ! lo) - val (fft_root R (Suc s) j) * val (a ! (lo + h))"
      using stage_Suc [OF w s, of j x q] j unfolding r(2) v(3,4) lo_eq [symmetric] h_def [symmetric] by (simp_all add: add.commute)
    have B: "butterfly F R (Suc s) i a = (let t = F_mul F (fft_root R (Suc s) j) (a ! (lo + h)); u = F_copy F (a ! lo)
        in a[lo := F_add F t u, lo + h := F_sub F u t])"
      unfolding butterfly_eq Let_def h_def [symmetric] i' lo_def by simp
    from p_or show ?thesis
    proof
      assume pl: "p = lo"
      then show ?thesis unfolding e B using hi h0 len r(1) v(1,2) S(1) by (simp add: Let_def field_code)
    next
      assume ph: "p = lo + h"
      then show ?thesis unfolding e B using hi h0 len r(1) v(1,2) S(2) by (simp add: Let_def field_code)
    qed
  qed
  then show ?thesis using P(1) by (simp add: arr_ok_def)
qed

theorem fft_value:
  assumes T: "tbb_laws T" and R: "fft_tables ok val R w" and L: "L \<le> fft_s R" and n: "n = 2 ^ L"
    and a: "arr_ok ok n a"
  shows "\<exists>a'. fft F T R a n = Inr a' \<and> arr_ok ok n a' \<and> (\<forall>p<n. val (a' ! p) = dft (root_for R w L) n (\<lambda>i. val (a ! i)) p)"
proof -
  have L32: "L \<le> 32" using R L by (simp add: fft_tables_def)
  obtain b where b: "reversePermutation F T a n = Inr b" "arr_ok ok n b" "\<And>p. p < n \<Longrightarrow> b ! p = a ! brev L p"
    using reversePermutation_value [OF T a n L32] by blast
  let ?x = "\<lambda>i. val (a ! i)"
  let ?f = "\<lambda>a s. par_for T [12, s] 0 (n div 2) (butterfly F R s) a"
  have "arr_ok ok n (foldl ?f b [1..<Suc s])
      \<and> (\<forall>p<n. val (foldl ?f b [1..<Suc s] ! p) = stage (root_for R w L) L s ?x p)" if "s \<le> L" for s
    using that
  proof (induction s)
    case 0
    then show ?case using b(2,3) by (simp add: stage_0)
  next
    case (Suc s)
    then have "s < L" and IH: "arr_ok ok (2 ^ L) (foldl ?f b [1..<Suc s])"
      "\<And>p. p < 2 ^ L \<Longrightarrow> val (foldl ?f b [1..<Suc s] ! p) = stage (root_for R w L) L s ?x p" using n by simp_all
    from butterfly_stage [OF T R L this] show ?case by (simp add: n)
  qed
  from this [of L] have "arr_ok ok n (foldl ?f b [1..<L + 1])"
    "\<And>p. p < n \<Longrightarrow> val (foldl ?f b [1..<L + 1] ! p) = dft (root_for R w L) n ?x p"
    using stage_last n by simp_all
  moreover have "fft F T R a n = Inr (foldl ?f b [1..<L + 1])" using b(1) by (simp add: fft_def n)
  ultimately show ?thesis by blast
qed

theorem ifft_value:
  assumes T: "tbb_laws T" and R: "fft_tables ok val R w" and L: "L \<le> fft_s R" and n: "n = 2 ^ L"
    and a: "arr_ok ok n a"
  shows "\<exists>a'. ifft F T R a n = Inr a' \<and> arr_ok ok n a'
    \<and> (\<forall>p<n. val (a' ! p) = idft (val (powTwoInv R ! L)) (root_for R w L) n (\<lambda>i. val (a ! i)) p)"
proof -
  let ?d = "dft (root_for R w L) n (\<lambda>i. val (a ! i))"
  define c where "c = powTwoInv R ! L"
  have c: "ok c" "val c * 2 ^ L = 1" using R L by (simp_all add: fft_tables_def c_def)
  obtain b where b: "fft F T R a n = Inr b" "arr_ok ok n b" "\<And>p. p < n \<Longrightarrow> val (b ! p) = ?d p"
    using fft_value [OF T R L n a] by blast
  have len: "length b = n" and okb: "\<And>p. p < n \<Longrightarrow> ok (b ! p)" using b(2) by (simp_all add: arr_ok_def)
  define b1 where "b1 = par_for T [13] 1 (n div 2) (ifft_body F c n) b"
  note P = independent_body.parallel [OF ifft_independent [where F = F and c = c] T len refl, where c = "[13]", folded b1_def]
  have n0: "0 < n" by (simp add: n)
  have even: "n = 1 \<or> n = n div 2 + n div 2 \<and> 1 \<le> n div 2" using n by (cases L) auto
  have outer: "b1 ! p = b ! p" if "p = 0 \<or> p = n div 2" for p
  proof (rule P(3))
    show "p < n" using that n0 by auto
    show "p \<notin> inv_owned n i" if "i \<in> {1..<n div 2}" for i
      using that even \<open>p = 0 \<or> p = n div 2\<close> by (auto simp: inv_owned_def)
  qed
  have inner: "b1 ! p = F_mul F (b ! (n - p)) c" if p: "p < n" "p \<noteq> 0" "p \<noteq> n div 2" for p
  proof -
    define i where "i = (if p < n div 2 then p else n - p)"
    have i: "i \<in> {1..<n div 2}" using even p by (auto simp: i_def)
    then have "b1 ! p = ifft_body F c n i b ! p" using P(2) [of i p] p by (auto simp: inv_owned_def i_def)
    moreover have "ok (b ! i)" by (rule okb) (use i in auto)
    moreover have "ok (b ! i)" by (rule okb) (use i in auto)
    ultimately show ?thesis using i p len by (auto simp: ifft_body_def Let_def i_def nth_list_update)
  qed
  define b2 where "b2 = (let a = b1[0 := F_mul F (b1 ! 0) c] in a[n div 2 := F_mul F (a ! (n div 2)) c])"
  have cell: "ok (b2 ! p) \<and> val (b2 ! p) = ?d (neg_index n p) * val c" if p: "p < n" for p
  proof (cases "n = 1")
    case True
    then have "L = 0" using n by (metis one_less_power one_less_numeral_iff semiring_norm(76) less_irrefl not_gr_zero)
    then have "val c = 1" using c by simp
    then show ?thesis using True p P(1) outer [of 0] okb [of 0] b(3) [of 0] c(1)
      by (simp add: b2_def Let_def neg_index_def field_code)
  next
    case False
    then have h: "n = n div 2 + n div 2" "1 \<le> n div 2" using even by simp_all
    consider "p = 0" | "p = n div 2" | "p \<noteq> 0" "p \<noteq> n div 2" by blast
    then show ?thesis
    proof cases
      case 1
      then show ?thesis using h P(1) outer [of 0] okb [of 0] b(3) [of 0] c(1)
        by (simp add: b2_def Let_def neg_index_def field_code)
    next
      case 2
      then have "neg_index n p = p" using h by (simp add: neg_index_def)
      then show ?thesis using 2 h P(1) outer [of p] okb [of p] b(3) [of p] c(1) p
        by (simp add: b2_def Let_def field_code)
    next
      case 3
      then have "neg_index n p = n - p" using p by (simp add: neg_index_def)
      then show ?thesis using 3 h P(1) inner [of p] okb [of "n - p"] b(3) [of "n - p"] c(1) p
        by (simp add: b2_def Let_def field_code)
    qed
  qed
  have "ifft F T R a n = Inr b2"
  proof -
    have "fst it < n div 2" if "it \<in> set (parallel_for T [13] 1 (n div 2))" for it
      using tbb_laws.indices_set [OF T, of "[13]" 1 "n div 2"] imageI [OF that, of fst] by simp
    then have "\<not> list_ex (\<lambda>it. n div 2 \<le> fst it) (parallel_for T [13] 1 (n div 2))"
      by (auto simp: list_ex_iff not_le)
    then show ?thesis using b(1) by (simp add: ifft_def ifft_scale_def Let_def b2_def b1_def c_def n)
  qed
  moreover have "length b2 = n" using P(1) by (simp add: b2_def Let_def)
  ultimately show ?thesis using cell by (auto simp: arr_ok_def idft_def c_def)
qed

end

end
