(* ===== verification/Fft_Init.thy ===== *)
theory Fft_Init
  imports Fft_Laws
begin

section \<open>The tables of the transform\<close>

text \<open>
  The constructor of \<open>FFT\<close>: the search for a non-residue ends, the tables hold the powers of a root of
  unity of the right order and the inverse powers of two, and the constructor refuses exactly the sizes
  that do not divide the order of the multiplicative group.
\<close>

context number_field begin

lemma negOne_value: "N_toMpz N (F_negOne F) = int (m - 1)"
proof -
  obtain i where i: "i < m" "N_toMpz N (F_negOne F) = int i" "(of_nat i :: 'k) = -1"
    using toMpz_law [OF ok_negOne] val_negOne by auto
  have "(of_nat (i + 1) :: 'k) = of_nat 0" using i(3) by simp
  then have "m dvd i + 1" by (simp only: char_iff mod_eq_0_iff_dvd mod_0)
  then have "m \<le> i + 1" by (rule dvd_imp_le) simp
  with i show ?thesis by simp
qed

lemma nqr_loop_ends:
  assumes G: "mpz_laws G" and x: "k \<le> x" "x ^ h mod m \<noteq> 1"
  shows "\<exists>k'. k \<le> k' \<and> k' \<le> x \<and> k' ^ h mod m \<noteq> 1
    \<and> fft_nqr_loop G (int h) (int m) (int k) (int (k ^ h mod m)) = Some (int k', int (k' ^ h mod m))"
  using x(1)
proof (induction "x - k" arbitrary: k)
  case 0
  then have "k = x" by simp
  moreover have "fft_nqr_loop G (int h) (int m) (int x) (int (x ^ h mod m)) = Some (int x, int (x ^ h mod m))"
    using x(2) mpz_laws.cmp_ui_law [OF G, of "int (x ^ h mod m)" 1] by (subst fft_nqr_loop.simps) simp
  ultimately show ?case using x(2) by blast
next
  case (Suc d)
  have c: "mpz_cmp_ui G (int (k ^ h mod m)) 1 = 0 \<longleftrightarrow> k ^ h mod m = 1"
    using mpz_laws.cmp_ui_law [OF G, of "int (k ^ h mod m)" 1] by simp
  show ?case
  proof (cases "k ^ h mod m = 1")
    case False
    then have "fft_nqr_loop G (int h) (int m) (int k) (int (k ^ h mod m)) = Some (int k, int (k ^ h mod m))"
      using c by (subst fft_nqr_loop.simps) simp
    then show ?thesis using Suc.prems False by blast
  next
    case True
    have k: "d = x - Suc k" "Suc k \<le> x" using Suc.hyps(2) by simp_all
    have "mpz_add_ui G (int k) 1 = int (Suc k)" by (simp add: mpz_laws.add_ui_law [OF G])
    moreover have "mpz_powm G (int (Suc k)) (int h) (int m) = int (Suc k ^ h mod m)"
      using mpz_laws.powm_law [OF G, of "int h" "int m" "int (Suc k)"] modulus(2) by (simp add: zmod_int)
    ultimately have "fft_nqr_loop G (int h) (int m) (int k) (int (k ^ h mod m))
        = fft_nqr_loop G (int h) (int m) (int (Suc k)) (int (Suc k ^ h mod m))"
      using True c by (subst fft_nqr_loop.simps) (simp del: of_nat_Suc power_Suc)
    with Suc.hyps(1) [OF k] show ?thesis by (metis Suc_leD)
  qed
qed

lemma s_loop_value:
  assumes G: "mpz_laws G"
  shows "0 < h \<Longrightarrow> \<exists>u. fft_s_loop G d (int h) s = (int (h div 2 ^ u), s + u) \<and> 2 ^ u dvd h
    \<and> (u = 0 \<or> s + u \<le> d) \<and> (s + u < d \<longrightarrow> odd (h div 2 ^ u))"
proof (induction "d - s" arbitrary: s h)
  case 0
  then show ?case by (intro exI [of _ 0]) (simp add: fft_s_loop.simps [of G d _ s])
next
  case (Suc e)
  have t: "mpz_tstbit G (int h) 0 = 0 \<longleftrightarrow> even h" using mpz_laws.tstbit_law [OF G, of "int h" 0] by (simp add: bit_0)
  show ?case
  proof (cases "even h")
    case False
    then show ?thesis using t by (intro exI [of _ 0]) (simp add: fft_s_loop.simps [of G d _ s])
  next
    case True
    have h2: "0 < h div 2" using True Suc.prems by auto
    obtain u where u: "fft_s_loop G d (int (h div 2)) (s + 1) = (int (h div 2 div 2 ^ u), s + 1 + u)" "2 ^ u dvd h div 2"
      "u = 0 \<or> s + 1 + u \<le> d" "s + 1 + u < d \<longrightarrow> odd (h div 2 div 2 ^ u)"
    proof -
      have "e = d - (s + 1)" using Suc.hyps(2) by simp
      from Suc.hyps(1) [OF this h2] that show ?thesis by blast
    qed
    have "mpz_fdiv_q_2exp G (int h) 1 = int (h div 2)" by (simp add: mpz_laws.fdiv_q_2exp_law [OF G] zdiv_int)
    then have "fft_s_loop G d (int h) s = fft_s_loop G d (int (h div 2)) (s + 1)"
    proof -
      have "s < d" using Suc.hyps(2) by simp
      then show ?thesis using True t \<open>mpz_fdiv_q_2exp G (int h) 1 = int (h div 2)\<close> by (subst fft_s_loop.simps) simp
    qed
    moreover have "h div 2 div 2 ^ u = h div 2 ^ Suc u" by (simp add: div_mult2_eq)
    moreover have "2 ^ Suc u dvd h"
    proof -
      have "2 * 2 ^ u dvd 2 * (h div 2)" using u(2) by (rule mult_dvd_mono [OF dvd_refl])
      then show ?thesis using True by simp
    qed
    ultimately show ?thesis using u Suc.hyps(2) by (intro exI [of _ "Suc u"]) auto
  qed
qed

text \<open>Cells that hold the powers of an element.\<close>

definition powers_at :: "'k \<Rightarrow> nat \<Rightarrow> 'e list \<Rightarrow> nat set \<Rightarrow> bool" where
  "powers_at w n as A \<longleftrightarrow> length as = n \<and> (\<forall>p\<in>A. p < n \<longrightarrow> ok (as ! p) \<and> val (as ! p) = w ^ p)"

lemma powers_at_update: "powers_at w n as A \<Longrightarrow> ok x \<Longrightarrow> val x = w ^ p \<Longrightarrow> powers_at w n (as[p := x]) (insert p A)"
  unfolding powers_at_def
proof (intro conjI ballI impI)
  fix q assume a: "length as = n \<and> (\<forall>p\<in>A. p < n \<longrightarrow> ok (as ! p) \<and> val (as ! p) = w ^ p)" "ok x" "val x = w ^ p"
    and q: "q \<in> insert p A" "q < n"
  then have "as[p := x] ! q = (if q = p then x else as ! q)" by (simp add: nth_list_update)
  then show "ok (as[p := x] ! q)" "val (as[p := x] ! q) = w ^ q" using a q by auto
qed simp

lemma powers_fill:
  assumes "powers_at w n as A" and "b \<in> A" and "1 \<in> A" and "b < n" and "1 < n"
  shows "powers_at w n (foldl (\<lambda>as i. as[i := F_mul F (as ! (i - 1)) (as ! 1)]) as [b + 1..<e]) (A \<union> {b..<min e n})"
proof (induction e)
  case 0
  then show ?case using assms(1) by simp
next
  case (Suc e)
  let ?f = "foldl (\<lambda>as i. as[i := F_mul F (as ! (i - 1)) (as ! 1)]) as"
  consider "e < b" | "e = b" | "b < e" "e < n" | "b < e" "n \<le> e" by linarith
  then show ?case
  proof cases
    case 1
    then show ?thesis using assms(1) by simp
  next
    case 2
    then have "A \<union> {b..<min (Suc e) n} = A" using assms(2,4) by auto
    then show ?thesis using 2 assms(1) by simp
  next
    case 3
    define as1 where "as1 = ?f [b + 1..<e]"
    have IH: "powers_at w n as1 (A \<union> {b..<min e n})" using Suc.IH by (simp add: as1_def)
    have e1: "e - 1 \<in> A \<union> {b..<min e n}" "e - 1 < n" using 3 by auto
    have "ok (as1 ! (e - 1))" "val (as1 ! (e - 1)) = w ^ (e - 1)" "ok (as1 ! 1)" "val (as1 ! 1) = w ^ 1"
      using IH e1 assms(3,5) unfolding powers_at_def by blast+
    then have "ok (F_mul F (as1 ! (e - 1)) (as1 ! 1))" "val (F_mul F (as1 ! (e - 1)) (as1 ! 1)) = w ^ e"
      using 3 by (simp_all add: val_mul power_eq_if [of w e] mult.commute)
    from powers_at_update [OF IH this] have "powers_at w n (as1[e := F_mul F (as1 ! (e - 1)) (as1 ! 1)]) (insert e (A \<union> {b..<min e n}))" .
    moreover have "insert e (A \<union> {b..<min e n}) = A \<union> {b..<min (Suc e) n}" using 3 by auto
    ultimately show ?thesis using 3 by (simp add: as1_def)
  next
    case 4
    have IH: "powers_at w n (?f [b + 1..<e]) (A \<union> {b..<min e n})" by (rule Suc.IH)
    then have "length (?f [b + 1..<e]) = n" by (simp add: powers_at_def)
    moreover from this have "?f [b + 1..<Suc e] = ?f [b + 1..<e]" using 4 by (simp add: list_update_beyond)
    moreover have "min e n = n" "min (Suc e) n = n" using 4 by simp_all
    ultimately show ?thesis using IH by simp
  qed
qed

definition span_cells :: "nat \<Rightarrow> nat \<Rightarrow> nat \<Rightarrow> nat set" where
  "span_cells n nSpan j = {if j = 0 then 2 else j * (n div nSpan)..<if j = nSpan - 1 then n else (j + 1) * (n div nSpan)}"

lemma span_covers: "1 < nSpan \<Longrightarrow> {2..<n} \<subseteq> (\<Union>j<nSpan. span_cells n nSpan j)"
proof
  fix p assume s: "1 < nSpan" and p: "p \<in> {2..<n}"
  define c where "c = n div nSpan"
  show "p \<in> (\<Union>j<nSpan. span_cells n nSpan j)"
  proof (cases "c = 0 \<or> nSpan - 1 \<le> p div c")
    case True
    have "(nSpan - 1) * c \<le> p"
    proof (cases "c = 0")
      case False
      then have "(nSpan - 1) * c \<le> p div c * c" using True by (intro mult_le_mono1) simp
      also have "\<dots> \<le> p" by simp
      finally show ?thesis .
    qed simp
    then have "p \<in> span_cells n nSpan (nSpan - 1)" using s p by (simp add: span_cells_def c_def)
    then show ?thesis using s by (intro UN_I [of "nSpan - 1"]) simp_all
  next
    case False
    have "p < (p div c + 1) * c" using False by (metis add.commute div_less_iff_less_mult less_add_one neq0_conv)
    moreover have "p div c * c \<le> p" by simp
    ultimately have "p \<in> span_cells n nSpan (p div c)" using False p by (simp add: span_cells_def c_def)
    then show ?thesis using False by (intro UN_I [of "p div c"]) auto
  qed
qed

lemma span_end: "j < nSpan \<Longrightarrow> (if j = nSpan - 1 then n else (j + 1) * (n div nSpan)) \<le> n" for n nSpan j :: nat
proof -
  assume "j < nSpan"
  then have "(j + 1) * (n div nSpan) \<le> nSpan * (n div nSpan)" by (intro mult_le_mono1) simp
  also have "\<dots> \<le> n" by simp
  finally show ?thesis by simp
qed

lemma span_step:
  assumes A: "powers_at w n rs A" and one: "1 \<in> A" and n: "1 < n" "n \<le> 2 ^ 63" and j: "j < nSpan"
  shows "powers_at w n (fft_span F N n nSpan j rs) (A \<union> span_cells n nSpan j)"
proof -
  define b e where "b = (if j = 0 then 2 else j * (n div nSpan))" and "e = (if j = nSpan - 1 then n else (j + 1) * (n div nSpan))"
  have cells: "span_cells n nSpan j = {b..<e}" by (simp add: span_cells_def b_def e_def)
  have en: "e \<le> n" using span_end [OF j] by (simp add: e_def)
  let ?g = "\<lambda>rs i. rs[i := F_mul F (rs ! (i - 1)) (rs ! 1)]"
  show ?thesis
  proof (cases "b < e")
    case False
    then have "fft_span F N n nSpan j rs = rs" unfolding fft_span_def Let_def b_def [symmetric] e_def [symmetric] by simp
    then show ?thesis using A False by (simp add: cells)
  next
    case True
    have "ok (rs ! 1)" "val (rs ! 1) = w ^ 1" using A one n(1) unfolding powers_at_def by blast+
    then have x: "ok (N_exp N (rs ! b) (rs ! 1) (bytes_of 8 b) 8)" "val (N_exp N (rs ! b) (rs ! 1) (bytes_of 8 b) 8) = w ^ b"
      using exp_law [of "rs ! 1" "bytes_of 8 b" 8 "rs ! b"] True en n(2) by (simp_all add: bval_bytes_of)
    define rs1 where "rs1 = rs[b := N_exp N (rs ! b) (rs ! 1) (bytes_of 8 b) 8]"
    have "powers_at w n rs1 (insert b A)" using powers_at_update [OF A x] by (simp add: rs1_def)
    from powers_fill [OF this, of b e] have "powers_at w n (foldl ?g rs1 [b + 1..<e]) (insert b A \<union> {b..<min e n})"
      using one True en n(1) by simp
    moreover have "insert b A \<union> {b..<min e n} = A \<union> {b..<e}" using True en by auto
    moreover have "fft_span F N n nSpan j rs = foldl ?g rs1 [b + 1..<e]"
      using True unfolding fft_span_def Let_def b_def [symmetric] e_def [symmetric] rs1_def by simp
    ultimately show ?thesis by (simp add: cells)
  qed
qed

lemma spans_value:
  assumes T: "tbb_laws T" and A: "powers_at w n rs {0, 1}" and n: "1 < n" "n \<le> 2 ^ 63" and s: "1 < nSpan"
  shows "powers_at w n (par_for T c 0 nSpan (fft_span F N n nSpan) rs) {..<n}"
proof -
  have "powers_at w n (foldl (\<lambda>as j. fft_span F N n nSpan j as) rs js) ({0, 1} \<union> (\<Union>j\<in>set js. span_cells n nSpan j))"
    if "set js \<subseteq> {..<nSpan}" for js
    using that
  proof (induction js rule: rev_induct)
    case (snoc j js)
    then have "powers_at w n (foldl (\<lambda>as j. fft_span F N n nSpan j as) rs js) ({0, 1} \<union> (\<Union>j\<in>set js. span_cells n nSpan j))"
      and "j < nSpan" by simp_all
    from span_step [OF this(1) _ n this(2)] show ?case by (simp add: Un_ac)
  qed (use A in simp)
  note B = this
  let ?js = "map fst (parallel_for T c 0 nSpan)"
  have js: "set ?js = {..<nSpan}" using tbb_laws.indices_set [OF T, of c 0 nSpan] by (simp add: atLeast0LessThan)
  have "{..<n} \<subseteq> {0, 1} \<union> (\<Union>j\<in>set ?js. span_cells n nSpan j)"
  proof
    fix p assume "p \<in> {..<n}"
    then have "p = 0 \<or> p = 1 \<or> p \<in> {2..<n}" by auto
    then show "p \<in> {0, 1} \<union> (\<Union>j\<in>set ?js. span_cells n nSpan j)" unfolding js using span_covers [OF s, of n] by blast
  qed
  moreover have "par_for T c 0 nSpan (fft_span F N n nSpan) rs = foldl (\<lambda>as j. fft_span F N n nSpan j as) rs ?js"
    by (simp add: par_for_def foldl_map)
  ultimately show ?thesis using B [of ?js] js unfolding powers_at_def by auto
qed

lemma invert_two:
  assumes G: "mpz_laws G"
  shows "\<exists>z<m. snd (mpz_invert G 2 (int m)) = int z \<and> 2 * (of_nat z :: 'k) = 1"
proof -
  obtain ret y where inv: "mpz_invert G 2 (int m) = (ret, y)" by fastforce
  have "coprime (2 :: int) (int m)" using odd_modulus by simp
  from mpz_laws.invert_law [OF G _ this inv] modulus(2) have y: "0 \<le> y" "y < int m" "(2 * y) mod int m = 1" by simp_all
  define z where "z = nat y"
  have z: "y = int z" "z < m" using y by (simp_all add: z_def nat_less_iff)
  have "int ((2 * z) mod m) = int 1" using y(3) z(1) by (simp add: zmod_int)
  then have "(2 * z) mod m = 1" by (simp only: of_nat_eq_iff)
  then have "(of_nat (2 * z) :: 'k) = of_nat 1" using modulus(2) by (simp only: char_iff) simp
  then have "2 * (of_nat z :: 'k) = 1" by simp
  then show ?thesis using z inv by auto
qed

theorem FFT_new_value:
  assumes G: "mpz_laws G" and T: "tbb_laws T" and x: "2 \<le> x" "x < m" "x ^ ((m - 1) div 2) mod m \<noteq> 1"
    and d: "fft_log2 domsz = Inr d" "d \<le> 32"
  shows "if 2 ^ d dvd m - 1 then \<exists>R w. FFT_new G F N T e0 domsz = Inr R \<and> fft_tables ok val R w \<and> fft_s R = max 1 d
    else FFT_new G F N T e0 domsz = Inl (Range_error ''Domain size too big for the curve'')"
proof -
  define h where "h = (m - 1) div 2"
  have m1: "m - 1 = 2 * h" using odd_modulus by (simp add: h_def)
  have h0: "0 < h" using m1 modulus(2) by simp
  have q: "mpz_add_ui G (int (m - 1)) 1 = int m" using modulus(2) by (simp add: mpz_laws.add_ui_law [OF G])
  have hq: "mpz_fdiv_q_2exp G (int (m - 1)) 1 = int h" by (simp add: mpz_laws.fdiv_q_2exp_law [OF G] h_def zdiv_int)
  have powm: "mpz_powm G (int b) (int e) (int m) = int (b ^ e mod m)" for b e
    using mpz_laws.powm_law [OF G, of "int e" "int m" "int b"] modulus(2) by (simp add: zmod_int)
  have two: "mpz_set_ui G 2 = int 2" by (simp add: mpz_laws.set_ui_law [OF G])
  obtain k where k: "2 \<le> k" "k \<le> x" "k ^ h mod m \<noteq> 1"
    "fft_nqr_loop G (int h) (int m) (int 2) (int (2 ^ h mod m)) = Some (int k, int (k ^ h mod m))"
    using nqr_loop_ends [OF G x(1), of h] x(3) unfolding h_def by blast
  obtain u where u: "fft_s_loop G d (int h) 1 = (int (h div 2 ^ u), 1 + u)" "2 ^ u dvd h"
    "u = 0 \<or> 1 + u \<le> d" "1 + u < d \<longrightarrow> odd (h div 2 ^ u)"
    using s_loop_value [OF G h0, of d 1] by blast
  define s t where "s = 1 + u" and "t = h div 2 ^ u"
  have mt: "m - 1 = 2 ^ s * t" unfolding m1 s_def t_def using u(2) by simp
  note start = negOne_value q hq two powm k(4) d(1) u(1) [folded s_def t_def]
  show ?thesis
  proof (cases "s < d")
    case True
    have "\<not> 2 ^ d dvd m - 1"
    proof
      assume "2 ^ d dvd m - 1"
      moreover have "(2 :: nat) ^ d = 2 ^ s * 2 ^ (d - s)" using True by (simp flip: power_add)
      ultimately have "2 ^ (d - s) dvd t" unfolding mt by simp
      moreover have "even ((2 :: nat) ^ (d - s))" using True by simp
      ultimately have "even t" by (rule dvd_trans [rotated])
      then show False using True u(4) by (simp add: s_def t_def)
    qed
    moreover have "FFT_new G F N T e0 domsz = Inl (Range_error ''Domain size too big for the curve'')"
      unfolding FFT_new_def start sum.case Let_def option.case prod.case using True by simp
    ultimately show ?thesis by simp
  next
    case False
    have s: "s = max 1 d" using False u(3) by (auto simp: s_def)
    have "d \<le> s" using False by simp
    then have dvd: "2 ^ d dvd m - 1" unfolding mt by (intro dvd_mult2 le_imp_power_dvd)
    define v where "v = (of_nat k :: 'k)"
    have v0: "v \<noteq> 0" using k(1,2) x(2) unfolding v_def nonzero_iff by (auto dest: dvd_imp_le)
    have "v ^ h \<noteq> 1"
    proof
      assume "v ^ h = 1"
      then have "(of_nat (k ^ h) :: 'k) = of_nat 1" by (simp add: v_def)
      then show False using k(3) modulus(2) by (simp only: char_iff) simp
    qed
    then have vh: "v ^ h = -1" unfolding h_def by (rule euler [OF v0])
    define w where "w = v ^ t"
    have w: "root2 s w"
    proof -
      have "w ^ 2 ^ (s - 1) = v ^ h" using u(2) by (simp add: w_def s_def t_def flip: power_mult)
      then show ?thesis using vh by (simp add: root2_def s_def)
    qed
    define n where "n = (2 :: nat) ^ s"
    have n: "1 < n" "n \<le> 2 ^ 63"
    proof -
      show "1 < n" unfolding n_def by (rule one_less_power) (simp_all add: s_def)
      show "n \<le> 2 ^ 63" unfolding n_def s using d(2) by (intro power_increasing) simp_all
    qed
    have kt: "k ^ t mod m < m" using modulus(2) by simp
    have r1: "ok (N_fromMpz N (int (k ^ t mod m)))" "val (N_fromMpz N (int (k ^ t mod m))) = w ^ 1"
      using fromMpz_law [OF kt] by (simp_all add: w_def v_def)
    obtain z where z: "z < m" "snd (mpz_invert G 2 (int m)) = int z" "2 * (of_nat z :: 'k) = 1"
      using invert_two [OF G] by blast
    have i1: "ok (N_fromMpz N (int z))" "val (N_fromMpz N (int z)) = (of_nat z) ^ 1" using fromMpz_law [OF z(1)] by simp_all
    have c1: "ok (F_copy F (F_one F))" "val (F_copy F (F_one F)) = y ^ 0" for y by (simp_all add: val_one)
    have init: "powers_at y l ((replicate l e0)[0 := F_copy F (F_one F), 1 := a]) {0, 1}"
      if "ok a" "val a = y ^ 1" for y l a
    proof -
      have "powers_at y l (replicate l e0) {}" by (simp add: powers_at_def)
      from powers_at_update [OF powers_at_update [OF this c1] that] show ?thesis by (simp add: insert_commute)
    qed
    define nSpan where "nSpan = max_concurrency T * 10"
    have sp: "1 < nSpan" using tbb_laws.some_thread [OF T] by (simp add: nSpan_def)
    define rs where "rs = par_for T [10] 0 nSpan (fft_span F N n nSpan)
      ((replicate n e0)[0 := F_copy F (F_one F), 1 := N_fromMpz N (int (k ^ t mod m))])"
    have rs: "powers_at w n rs {..<n}" using spans_value [OF T init [OF r1] n sp] by (simp add: rs_def)
    have last_root: "F_eq F (F_mul F (rs ! (n - 1)) (rs ! 1)) (F_one F)"
    proof -
      have "ok (rs ! (n - 1))" "val (rs ! (n - 1)) = w ^ (n - 1)" "ok (rs ! 1)" "val (rs ! 1) = w ^ 1"
        using rs n(1) unfolding powers_at_def by auto
      moreover have "w ^ (n - 1) * w = 1" using root2_one [OF w] n(1) power_Suc [of w "n - 1"] by (simp add: n_def mult.commute)
      ultimately show ?thesis by (simp add: eq_law val_mul val_one)
    qed
    define inv where "inv = foldl (\<lambda>inv i. inv[i := F_mul F (inv ! (i - 1)) (inv ! 1)])
      ((replicate (s + 1) e0)[0 := F_copy F (F_one F), 1 := N_fromMpz N (int z)]) [2..<s + 1]"
    have inv: "powers_at (of_nat z) (s + 1) inv {..s}"
    proof -
      have "powers_at (of_nat z) (s + 1) inv ({0, 1} \<union> {1..<min (s + 1) (s + 1)})"
        using powers_fill [OF init [OF i1], of 1 "s + 1" "s + 1"] by (simp add: inv_def s_def numeral_2_eq_2)
      moreover have "{..s} \<subseteq> {0, 1} \<union> {1..<min (s + 1) (s + 1)}" by auto
      ultimately show ?thesis unfolding powers_at_def by blast
    qed
    define R where "R = \<lparr>fft_s = s, fft_nqr = N_fromMpz N (int k), roots = rs, powTwoInv = inv\<rparr>"
    have "FFT_new G F N T e0 domsz = Inr R"
      unfolding FFT_new_def start sum.case Let_def option.case prod.case
      using False last_root z(2) unfolding R_def rs_def n_def nSpan_def inv_def by simp
    moreover have "fft_tables ok val R w"
    proof -
      have "val (inv ! i) * 2 ^ i = 1" if "i \<le> s" for i
      proof -
        have "val (inv ! i) = of_nat z ^ i" using inv that unfolding powers_at_def by auto
        then have "val (inv ! i) * 2 ^ i = (2 * of_nat z) ^ i" by (simp add: power_mult_distrib mult.commute)
        then show ?thesis by (simp add: z(3))
      qed
      moreover have "s \<le> 32" using d(2) by (simp add: s)
      ultimately show ?thesis using rs inv w by (auto simp: fft_tables_def R_def powers_at_def n_def)
    qed
    moreover have "fft_s R = max 1 d" by (simp add: R_def s)
    ultimately show ?thesis using dvd by auto
  qed
qed

end

end
