(* ===== verification/Bn254_Fft.thy ===== *)
theory Bn254_Fft
  imports Fft_Init
begin

section \<open>The transform over the scalar field\<close>

text \<open>
  The instance of the template that the prover uses: the scalar field has roots of unity of order
  \<open>2 ^ 28\<close> and none of a higher power of two.
\<close>

abbreviation fr_two_root :: nat where
  "fr_two_root \<equiv> 19103219067921713944291392827692070036145651957329286315305642004821462161904"

lemma fr_nonresidue: "fr_two_root ^ ((Fr_prime - 1) div 2) mod Fr_prime \<noteq> 1"
proof
  assume one: "fr_two_root ^ ((Fr_prime - 1) div 2) mod Fr_prime = 1"
  define y where "y = (of_nat fr_two_root :: fr)"
  have e: "(Fr_prime - 1) div 2 = 2 ^ 27 * 81540058820840996586704275553141814055101440848469862132140264610111" by simp
  have "y ^ 2 ^ 27 = of_nat (fr_two_root ^ 2 ^ 27 mod Fr_prime)" unfolding ref.fr.of_nat_m y_def by (rule of_nat_power [symmetric])
  also have "\<dots> = -1" unfolding root_of_minus_one by (rule ref.fr_class.of_nat_pred)
  finally have "(y ^ 2 ^ 27) ^ 81540058820840996586704275553141814055101440848469862132140264610111 = -1" by (simp add: minus_one_power_iff)
  moreover have "(y ^ 2 ^ 27) ^ 81540058820840996586704275553141814055101440848469862132140264610111 = of_nat (fr_two_root ^ ((Fr_prime - 1) div 2) mod Fr_prime)"
    unfolding ref.fr.of_nat_m y_def e by (simp only: power_mult of_nat_power)
  ultimately have "(1 :: fr) = -1" unfolding one by simp
  then have "(2 :: fr) = 0" by (metis add.right_inverse one_add_one)
  then show False using ref.fr.two_neq_0 by simp
qed

lemma fr_two_adicity: "2 ^ d dvd Fr_prime - 1 \<longleftrightarrow> d \<le> 28"
proof
  assume "d \<le> 28"
  then have "(2 :: nat) ^ d dvd 2 ^ 28" by (rule le_imp_power_dvd)
  also have "(2 :: nat) ^ 28 dvd Fr_prime - 1" by simp
  finally show "2 ^ d dvd Fr_prime - 1" .
next
  assume d: "2 ^ d dvd Fr_prime - 1"
  show "d \<le> 28"
  proof (rule ccontr)
    assume "\<not> d \<le> 28"
    then have "(2 :: nat) ^ 29 dvd 2 ^ d" by (intro le_imp_power_dvd) simp
    also note d
    finally show False by simp
  qed
qed

context gmp_laws begin

lemmas fr_number_field = fr.number_field_axioms

end

lemma gmp_fr_field: "gmp_laws G \<Longrightarrow> number_field (RawFr_ops G) fr_ok fr_val (RawFr_numbers G) Fr_prime"
  by (rule gmp_laws.fr_number_field)

lemma gmp_fr_ops: "gmp_laws G \<Longrightarrow> field_ops_laws (RawFr_ops G) fr_ok fr_val"
  by (rule gmp_laws.fr_field_ops)

lemma fr_tables:
  assumes "gmp_laws G" and "tbb_laws T" and "2 ^ d \<le> domsz" and "domsz < 2 ^ Suc d" and "d \<le> 32"
  shows "if d \<le> 28 then \<exists>R w. FFT_new G (RawFr_ops G) (RawFr_numbers G) T e0 domsz = Inr R
      \<and> fft_tables fr_ok fr_val R w \<and> fft_s R = max 1 d
    else FFT_new G (RawFr_ops G) (RawFr_numbers G) T e0 domsz = Inl (Range_error ''Domain size too big for the curve'')"
proof -
  have G: "mpz_laws G" using assms(1) by (simp add: gmp_laws_def)
  have "2 \<le> fr_two_root" "fr_two_root < Fr_prime" by simp_all
  note x = this fr_nonresidue
  show ?thesis
    using number_field.FFT_new_value [OF gmp_fr_field [OF assms(1)] G assms(2) x fft_log2_value [OF assms(3,4)] assms(5), where ?e0.0 = e0]
    unfolding fr_two_adicity .
qed

lemma fr_array_eq:
  assumes "arr_ok fr_ok n a" and "arr_ok fr_ok n b" and "\<And>p. p < n \<Longrightarrow> fr_val (a ! p) = fr_val (b ! p)"
  shows "a = b"
proof (rule nth_equalityI)
  show "length a = length b" using assms(1,2) by (simp add: arr_ok_def)
  fix p assume "p < length a"
  then have p: "p < n" "fr_ok (a ! p)" "fr_ok (b ! p)" using assms(1,2) by (simp_all add: arr_ok_def)
  have "mval Fr_prime (a ! p) = mval Fr_prime (b ! p)"
    using assms(3) [OF p(1)] Fr.mval_lt [of "a ! p"] Fr.mval_lt [of "b ! p"] unfolding fr_val_def ref.fr_class.of_nat_iff by simp
  then show "a ! p = b ! p" using Fr.mval_inj p(2,3) by (simp add: fr_ok_def)
qed

lemma fft_both:
  assumes G: "gmp_laws G" and T: "tbb_laws T" and R: "fft_tables fr_ok fr_val R w" and L: "L \<le> fft_s R"
    and n: "n = 2 ^ L" and a: "arr_ok fr_ok n a"
  shows "\<exists>b c. fft (RawFr_ops G) T R a n = Inr b \<and> ifft (RawFr_ops G) T R b n = Inr a
    \<and> ifft (RawFr_ops G) T R a n = Inr c \<and> fft (RawFr_ops G) T R c n = Inr a"
proof -
  note F = field_ops_laws.fft_value [OF gmp_fr_ops [OF G] T R L n] field_ops_laws.ifft_value [OF gmp_fr_ops [OF G] T R L n]
  let ?r = "root_for R w L" and ?k = "fr_val (powTwoInv R ! L)"
  have r: "root2 L ?r" by (rule root_for_order [OF R L])
  have k: "?k * of_nat n = 1" using R L by (simp add: fft_tables_def n)
  obtain b where b: "fft (RawFr_ops G) T R a n = Inr b" "arr_ok fr_ok n b"
    "\<And>p. p < n \<Longrightarrow> fr_val (b ! p) = dft ?r n (\<lambda>i. fr_val (a ! i)) p" using F(1) [OF a] by blast
  obtain a' where a': "ifft (RawFr_ops G) T R b n = Inr a'" "arr_ok fr_ok n a'"
    "\<And>p. p < n \<Longrightarrow> fr_val (a' ! p) = idft ?k ?r n (\<lambda>i. fr_val (b ! i)) p" using F(2) [OF b(2)] by blast
  obtain c where c: "ifft (RawFr_ops G) T R a n = Inr c" "arr_ok fr_ok n c"
    "\<And>p. p < n \<Longrightarrow> fr_val (c ! p) = idft ?k ?r n (\<lambda>i. fr_val (a ! i)) p" using F(2) [OF a] by blast
  obtain a'' where a'': "fft (RawFr_ops G) T R c n = Inr a''" "arr_ok fr_ok n a''"
    "\<And>p. p < n \<Longrightarrow> fr_val (a'' ! p) = dft ?r n (\<lambda>i. fr_val (c ! i)) p" using F(1) [OF c(2)] by blast
  have "a' = a"
  proof (rule fr_array_eq [OF a'(2) a])
    fix p assume p: "p < n"
    have "dft ?r n (\<lambda>i. fr_val (b ! i)) q = dft ?r n (dft ?r n (\<lambda>i. fr_val (a ! i))) q" for q
      by (rule dft_cong) (rule b(3))
    then show "fr_val (a' ! p) = fr_val (a ! p)"
      using a'(3) [OF p] Dft.idft_dft [OF r n k p, of "\<lambda>i. fr_val (a ! i)"] by (simp add: idft_def)
  qed
  moreover have "a'' = a"
  proof (rule fr_array_eq [OF a''(2) a])
    fix p assume p: "p < n"
    have "dft ?r n (\<lambda>i. fr_val (c ! i)) p = dft ?r n (idft ?k ?r n (\<lambda>i. fr_val (a ! i))) p"
      by (rule dft_cong) (rule c(3))
    then show "fr_val (a'' ! p) = fr_val (a ! p)"
      using a''(3) [OF p] Dft.dft_idft [OF r n k p, of "\<lambda>i. fr_val (a ! i)"] by simp
  qed
  ultimately show ?thesis using b(1) a'(1) c(1) a''(1) by blast
qed

lemma sample_array: "arr_ok fr_ok (2 ^ 1) [[7, 0, 0, 0], [9, 0, 0, 0]]"
proof -
  have "list_all fr_ok [[7, 0, 0, 0], [9, 0, 0, 0]]" by (simp add: fr_ok_def reduced_def)
  then show ?thesis unfolding list_all_length arr_ok_def by simp
qed

subsection \<open>Properties\<close>

text \<open>
  C17. The constructor of the transform succeeds for every domain of up to \<open>2 ^ 28\<close> points (a size
  between powers of two counts as the lower) and gives tables of the powers of a root of unity of that
  order and of the inverse powers of two, whatever the number of threads; for a larger domain it
  throws the range error. The search for a non-residue ends and the assertion on the last root holds.
\<close>

theorem FFT_constructor:
  assumes "gmp_laws G" and "tbb_laws T" and "2 ^ d \<le> domsz" and "domsz < 2 ^ Suc d" and "d \<le> 32"
  shows "if d \<le> 28 then \<exists>R w. FFT_new G (RawFr_ops G) (RawFr_numbers G) T e0 domsz = Inr R
      \<and> fft_tables fr_ok fr_val R w \<and> fft_s R = max 1 d
    else FFT_new G (RawFr_ops G) (RawFr_numbers G) T e0 domsz = Inl (Range_error ''Domain size too big for the curve'')"
  by (rule fr_tables [OF assms])

theorem FFT_constructor_witness:
  "(\<exists>R. FFT_new ref_gmp (RawFr_ops ref_gmp) (RawFr_numbers ref_gmp) (round_robin 3) [0, 0, 0, 0] 6 = Inr R \<and> fft_s R = 2)
    \<and> FFT_new ref_gmp (RawFr_ops ref_gmp) (RawFr_numbers ref_gmp) (round_robin 3) [0, 0, 0, 0] (2 ^ 29)
      = Inl (Range_error ''Domain size too big for the curve'')"
  using FFT_constructor [OF ref_gmp_laws round_robin_laws [of 3], of 2 6 "[0, 0, 0, 0]"]
    FFT_constructor [OF ref_gmp_laws round_robin_laws [of 3], of 29 "2 ^ 29" "[0, 0, 0, 0]"] by auto

text \<open>
  C5. \<open>fft\<close> replaces the coefficients of a polynomial by its values at the powers of a root of unity
  whose order is the size, for every power of two up to the size of the tables and every schedule of
  the parallel loops; it fails on no such array.
\<close>

theorem fft_is_dft:
  assumes "gmp_laws G" and "tbb_laws T" and "fft_tables fr_ok fr_val R w" and "L \<le> fft_s R"
    and "arr_ok fr_ok (2 ^ L) a"
  shows "root2 L (root_for R w L) \<and> (\<exists>b. fft (RawFr_ops G) T R a (2 ^ L) = Inr b \<and> arr_ok fr_ok (2 ^ L) b
    \<and> (\<forall>p<2 ^ L. fr_val (b ! p) = (\<Sum>i<2 ^ L. fr_val (a ! i) * root_for R w L ^ (i * p))))"
  using root_for_order [OF assms(3,4)]
    field_ops_laws.fft_value [OF gmp_fr_ops [OF assms(1)] assms(2-4) refl assms(5)] unfolding dft_def by blast

theorem fft_is_dft_witness:
  "\<exists>R b. FFT_new ref_gmp (RawFr_ops ref_gmp) (RawFr_numbers ref_gmp) (round_robin 3) [0, 0, 0, 0] 2 = Inr R
    \<and> fft (RawFr_ops ref_gmp) (round_robin 5) R [[7, 0, 0, 0], [9, 0, 0, 0]] 2 = Inr b
    \<and> fr_val (b ! 0) = fr_val [7, 0, 0, 0] + fr_val [9, 0, 0, 0]"
proof -
  obtain R w where R: "FFT_new ref_gmp (RawFr_ops ref_gmp) (RawFr_numbers ref_gmp) (round_robin 3) [0, 0, 0, 0] 2 = Inr R"
    "fft_tables fr_ok fr_val R w" "fft_s R = 1"
    using fr_tables [OF ref_gmp_laws round_robin_laws [of 3], of 1 2 "[0, 0, 0, 0]"] by auto
  show ?thesis
    using R fft_is_dft [OF ref_gmp_laws round_robin_laws [of 5] R(2) _ sample_array] by (auto simp: numeral_2_eq_2)
qed

text \<open>
  C18. The two transforms undo each other, limb for limb: \<open>ifft\<close> after \<open>fft\<close> and \<open>fft\<close> after \<open>ifft\<close> give
  the array back.
\<close>

theorem fft_roundtrip:
  assumes "gmp_laws G" and "tbb_laws T" and "fft_tables fr_ok fr_val R w" and "L \<le> fft_s R"
    and "n = 2 ^ L" and "arr_ok fr_ok n a"
  shows "\<exists>b c. fft (RawFr_ops G) T R a n = Inr b \<and> ifft (RawFr_ops G) T R b n = Inr a
    \<and> ifft (RawFr_ops G) T R a n = Inr c \<and> fft (RawFr_ops G) T R c n = Inr a"
  by (rule fft_both [OF assms])

theorem fft_roundtrip_witness:
  "\<exists>R b. FFT_new ref_gmp (RawFr_ops ref_gmp) (RawFr_numbers ref_gmp) (round_robin 3) [0, 0, 0, 0] 8 = Inr R
    \<and> fft (RawFr_ops ref_gmp) (round_robin 5) R [[7, 0, 0, 0], [9, 0, 0, 0]] 2 = Inr b
    \<and> ifft (RawFr_ops ref_gmp) (round_robin 5) R b 2 = Inr [[7, 0, 0, 0], [9, 0, 0, 0]]"
proof -
  obtain R w where R: "FFT_new ref_gmp (RawFr_ops ref_gmp) (RawFr_numbers ref_gmp) (round_robin 3) [0, 0, 0, 0] 8 = Inr R"
    "fft_tables fr_ok fr_val R w" "fft_s R = 3"
    using fr_tables [OF ref_gmp_laws round_robin_laws [of 3], of 3 8 "[0, 0, 0, 0]"] by auto
  show ?thesis
    using R fft_roundtrip [OF ref_gmp_laws round_robin_laws [of 5] R(2) _ refl sample_array] by auto
qed

end
