(* ===== verification/Element_Store.thy ===== *)
theory Element_Store
  imports Raw_Consts
begin

section \<open>Tagged field elements and the store they live in\<close>

text \<open>
  The \<open>FrElement\<close> of \<open>fr_element.hpp\<close>: a 32-bit short value, a type tag of two bits (long or short,
  Montgomery form or not) and four limbs. The operations of \<open>fr_generic.cpp\<close> take pointers to
  elements and write the fields of the result one by one while they still read their arguments, so
  that calls whose result is one of the arguments depend on the order of the writes. Elements
  therefore live in a store; a pointer is an object of the caller (an array position) or a local
  variable of the function that runs, which starts with whatever the store holds there.
\<close>

record element =
  shortVal :: s32
  type :: u32
  longVal :: limbs

datatype local = A_m | B_m | A_n | B_n | B_ln | A_long | A_long_shr | B_long | E_n | Tmp

datatype ptr = Obj nat | Loc local

type_synonym store = "ptr \<Rightarrow> element"

definition SHORT :: u32 where "SHORT = 0x00000000"
definition MONTGOMERY :: u32 where "MONTGOMERY = 0x40000000"
definition SHORTMONTGOMERY :: u32 where "SHORTMONTGOMERY = 0x40000000"
definition LONG :: u32 where "LONG = 0x80000000"
definition LONGMONTGOMERY :: u32 where "LONGMONTGOMERY = 0xC0000000"

lemmas tag_defs = SHORT_def MONTGOMERY_def SHORTMONTGOMERY_def LONG_def LONGMONTGOMERY_def

text \<open>\<open>e->type & Fr_LONG\<close> and \<open>e->type & Fr_MONTGOMERY\<close>.\<close>

definition is_long :: "element \<Rightarrow> bool" where
  "is_long e \<longleftrightarrow> type e AND LONG \<noteq> 0"

definition is_mont :: "element \<Rightarrow> bool" where
  "is_mont e \<longleftrightarrow> type e AND MONTGOMERY \<noteq> 0"

subsection \<open>Assignments\<close>

definition set_short :: "ptr \<Rightarrow> s32 \<Rightarrow> store \<Rightarrow> store" where
  "set_short r v \<sigma> = \<sigma>(r := (\<sigma> r)\<lparr>shortVal := v\<rparr>)"

definition set_type :: "ptr \<Rightarrow> u32 \<Rightarrow> store \<Rightarrow> store" where
  "set_type r t \<sigma> = \<sigma>(r := (\<sigma> r)\<lparr>type := t\<rparr>)"

definition set_long :: "ptr \<Rightarrow> limbs \<Rightarrow> store \<Rightarrow> store" where
  "set_long r v \<sigma> = \<sigma>(r := (\<sigma> r)\<lparr>longVal := v\<rparr>)"

named_theorems store_simps \<open>reading a store after assignments\<close>

lemma set_reads [simp, store_simps]:
  "longVal (set_type r t \<sigma> p) = longVal (\<sigma> p)"
  "shortVal (set_type r t \<sigma> p) = shortVal (\<sigma> p)"
  "longVal (set_short r v \<sigma> p) = longVal (\<sigma> p)"
  "type (set_short r v \<sigma> p) = type (\<sigma> p)"
  "shortVal (set_long r l \<sigma> p) = shortVal (\<sigma> p)"
  "type (set_long r l \<sigma> p) = type (\<sigma> p)"
  by (simp_all add: set_type_def set_short_def set_long_def)

lemma set_reads_same [simp, store_simps]:
  "type (set_type r t \<sigma> r) = t"
  "shortVal (set_short r v \<sigma> r) = v"
  "longVal (set_long r l \<sigma> r) = l"
  by (simp_all add: set_type_def set_short_def set_long_def)

lemma set_reads_other [simp, store_simps]:
  "p \<noteq> r \<Longrightarrow> set_type r t \<sigma> p = \<sigma> p"
  "p \<noteq> r \<Longrightarrow> set_short r v \<sigma> p = \<sigma> p"
  "p \<noteq> r \<Longrightarrow> set_long r l \<sigma> p = \<sigma> p"
  by (simp_all add: set_type_def set_short_def set_long_def)

subsection \<open>Integers\<close>

text \<open>
  The \<open>int64_t\<close> locals of the code hold sums, differences and products of two \<open>int32_t\<close> values,
  which no 64-bit operation on them leaves, so they are integers (\<open>s32_sum_bounds\<close> and
  \<open>s32_product_bounds\<close> of \<open>Element_Arith_Laws\<close>);
  \<open>to_s64\<close> and \<open>to_s32\<close> are the conversions of such a value back to a machine word.
\<close>

definition to_s64 :: "int \<Rightarrow> s64" where
  "to_s64 v = word_of_int v"

definition to_s32 :: "int \<Rightarrow> s32" where
  "to_s32 v = word_of_int v"

lemma sint_s32_bounds: "- 2147483648 \<le> sint (x :: s32)" "sint (x :: s32) \<le> 2147483647"
  using sint_greater_eq [of x] sint_less [of x] by simp_all

lemma sint_to_s64:
  assumes "- 9223372036854775808 \<le> v" and "v < 9223372036854775808"
  shows "sint (to_s64 v) = v"
  using assms by (simp add: to_s64_def sint_sbintrunc' signed_take_bit_int_eq_self)

end
