(* ===== verification/Element_Arith.thy ===== *)
theory Element_Arith
  imports Element_Store
begin

section \<open>Tagged elements: conversions, multiplication, subtraction, addition\<close>

text \<open>
  The first part of \<open>fr_generic.cpp\<close>, function by function: each definition is the sequence of
  assignments of the C++ body on the store, in its order. The names of the static functions are
  those of the code (\<open>mul_l1ms2n\<close>: first argument long Montgomery, second short normal); the
  external functions \<open>Fr_mul\<close>, \<open>Fr_toNormal\<close>, ... are \<open>F_mul\<close>, \<open>F_toNormal\<close>, ..., for both fields
  (\<open>Fq_Elements\<close> holds the instances of \<open>fq_generic.cpp\<close>).
\<close>

subsection \<open>Conversions\<close>

definition F_copy :: "ptr \<Rightarrow> ptr \<Rightarrow> store \<Rightarrow> store" where
  "F_copy r a \<sigma> = \<sigma>(r := \<sigma> a)"

definition F_toNormal :: "raw_consts \<Rightarrow> gmp \<Rightarrow> ptr \<Rightarrow> ptr \<Rightarrow> store \<Rightarrow> store" where
  "F_toNormal P G r a \<sigma> = (if type (\<sigma> a) = LONGMONTGOMERY
     then let \<sigma> = set_type r LONG \<sigma>;
              \<sigma> = set_long r (rawFromMontgomery P G (longVal (\<sigma> a))) \<sigma>
          in \<sigma>
     else F_copy r a \<sigma>)"

definition F_toLongNormal :: "raw_consts \<Rightarrow> gmp \<Rightarrow> ptr \<Rightarrow> ptr \<Rightarrow> store \<Rightarrow> store" where
  "F_toLongNormal P G r a \<sigma> = (if is_long (\<sigma> a)
     then if is_mont (\<sigma> a)
       then let \<sigma> = set_long r (rawFromMontgomery P G (longVal (\<sigma> a))) \<sigma>;
                \<sigma> = set_type r LONG \<sigma>
            in \<sigma>
       else F_copy r a \<sigma>
     else let \<sigma> = set_long r (rawCopyS2L P G (to_s64 (sint (shortVal (\<sigma> a))))) \<sigma>;
              \<sigma> = set_type r LONG \<sigma>;
              \<sigma> = set_short r 0 \<sigma>
          in \<sigma>)"

text \<open>The two branches for a short value write the limbs and the tag, not \<open>r->shortVal\<close>.\<close>

definition F_toMontgomery :: "raw_consts \<Rightarrow> gmp \<Rightarrow> ptr \<Rightarrow> ptr \<Rightarrow> store \<Rightarrow> store" where
  "F_toMontgomery P G r a \<sigma> = (if is_mont (\<sigma> a) then F_copy r a \<sigma>
     else if is_long (\<sigma> a)
     then let \<sigma> = set_short r (shortVal (\<sigma> a)) \<sigma>;
              \<sigma> = set_long r (rawMMul P G (longVal (\<sigma> a)) (rawR2 P)) \<sigma>;
              \<sigma> = set_type r LONGMONTGOMERY \<sigma>
          in \<sigma>
     else if sint (shortVal (\<sigma> a)) < 0
     then let \<sigma> = set_long r (rawMMul1 P G (rawR2 P) (to_s64 (- sint (shortVal (\<sigma> a))))) \<sigma>;
              \<sigma> = set_long r (rawNeg P G (longVal (\<sigma> r))) \<sigma>;
              \<sigma> = set_type r SHORTMONTGOMERY \<sigma>
          in \<sigma>
     else let \<sigma> = set_long r (rawMMul1 P G (rawR2 P) (to_s64 (sint (shortVal (\<sigma> a))))) \<sigma>;
              \<sigma> = set_type r SHORTMONTGOMERY \<sigma>
          in \<sigma>)"

text \<open>\<open>memcpy\<close> of \<open>n\<close> consecutive elements, for blocks that do not overlap.\<close>

definition F_copyn :: "nat \<Rightarrow> nat \<Rightarrow> nat \<Rightarrow> store \<Rightarrow> store" where
  "F_copyn r a n \<sigma> = (\<lambda>p. case p of
     Obj k \<Rightarrow> if r \<le> k \<and> k < r + n then \<sigma> (Obj (a + (k - r))) else \<sigma> p
   | Loc x \<Rightarrow> \<sigma> p)"

subsection \<open>Multiplication\<close>

definition has_mul32_overflow :: "int \<Rightarrow> bool" where
  "has_mul32_overflow val = (let sign = drop_bit 31 val;
       sign = (if sign \<noteq> 0 then NOT sign else sign)
     in sign \<noteq> 0)"

text \<open>Returns the 64-bit product and the overflow flag.\<close>

definition F_rawSMul :: "s32 \<Rightarrow> s32 \<Rightarrow> int \<times> bool" where
  "F_rawSMul a b = (let r = sint a * sint b in (r, has_mul32_overflow r))"

text \<open>Both branches end in a long element; the second one first writes a short one.\<close>

definition mul_s1s2 :: "raw_consts \<Rightarrow> gmp \<Rightarrow> ptr \<Rightarrow> ptr \<Rightarrow> ptr \<Rightarrow> store \<Rightarrow> store" where
  "mul_s1s2 P G r a b \<sigma> = (case F_rawSMul (shortVal (\<sigma> a)) (shortVal (\<sigma> b)) of (result, overflow) \<Rightarrow>
     if overflow
     then let \<sigma> = set_long r (rawCopyS2L P G (to_s64 result)) \<sigma>;
              \<sigma> = set_type r LONG \<sigma>;
              \<sigma> = set_short r 0 \<sigma>
          in \<sigma>
     else let \<sigma> = set_short r (to_s32 result) \<sigma>;
              \<sigma> = set_type r SHORT \<sigma>;
              \<sigma> = set_long r (rawCopyS2L P G (to_s64 result)) \<sigma>;
              \<sigma> = set_type r LONG \<sigma>;
              \<sigma> = set_short r 0 \<sigma>
          in \<sigma>)"

definition mul_l1nl2n :: "raw_consts \<Rightarrow> gmp \<Rightarrow> ptr \<Rightarrow> ptr \<Rightarrow> ptr \<Rightarrow> store \<Rightarrow> store" where
  "mul_l1nl2n P G r a b \<sigma> = (let \<sigma> = set_type r LONGMONTGOMERY \<sigma>;
    \<sigma> = set_long r (rawMMul P G (longVal (\<sigma> a)) (longVal (\<sigma> b))) \<sigma>;
    \<sigma> = set_long r (rawMMul P G (longVal (\<sigma> r)) (rawR3 P)) \<sigma>
    in \<sigma>)"

definition mul_l1nl2m :: "raw_consts \<Rightarrow> gmp \<Rightarrow> ptr \<Rightarrow> ptr \<Rightarrow> ptr \<Rightarrow> store \<Rightarrow> store" where
  "mul_l1nl2m P G r a b \<sigma> = (let \<sigma> = set_type r LONG \<sigma>;
    \<sigma> = set_long r (rawMMul P G (longVal (\<sigma> a)) (longVal (\<sigma> b))) \<sigma>
    in \<sigma>)"

definition mul_l1ml2m :: "raw_consts \<Rightarrow> gmp \<Rightarrow> ptr \<Rightarrow> ptr \<Rightarrow> ptr \<Rightarrow> store \<Rightarrow> store" where
  "mul_l1ml2m P G r a b \<sigma> = (let \<sigma> = set_type r LONGMONTGOMERY \<sigma>;
    \<sigma> = set_long r (rawMMul P G (longVal (\<sigma> a)) (longVal (\<sigma> b))) \<sigma>
    in \<sigma>)"

definition mul_l1ml2n :: "raw_consts \<Rightarrow> gmp \<Rightarrow> ptr \<Rightarrow> ptr \<Rightarrow> ptr \<Rightarrow> store \<Rightarrow> store" where
  "mul_l1ml2n P G r a b \<sigma> = (let \<sigma> = set_type r LONG \<sigma>;
    \<sigma> = set_long r (rawMMul P G (longVal (\<sigma> a)) (longVal (\<sigma> b))) \<sigma>
    in \<sigma>)"

definition mul_l1ns2n :: "raw_consts \<Rightarrow> gmp \<Rightarrow> ptr \<Rightarrow> ptr \<Rightarrow> ptr \<Rightarrow> store \<Rightarrow> store" where
  "mul_l1ns2n P G r a b \<sigma> = (let \<sigma> = set_type r LONGMONTGOMERY \<sigma>;
    \<sigma> = (if sint (shortVal (\<sigma> b)) < 0
      then (let \<sigma> = set_long r (rawMMul1 P G (longVal (\<sigma> a)) (to_s64 (- sint (shortVal (\<sigma> b))))) \<sigma>
        in set_long r (rawNeg P G (longVal (\<sigma> r))) \<sigma>)
      else set_long r (rawMMul1 P G (longVal (\<sigma> a)) (to_s64 (sint (shortVal (\<sigma> b))))) \<sigma>);
    \<sigma> = set_long r (rawMMul P G (longVal (\<sigma> r)) (rawR3 P)) \<sigma>
    in \<sigma>)"

definition mul_s1nl2n :: "raw_consts \<Rightarrow> gmp \<Rightarrow> ptr \<Rightarrow> ptr \<Rightarrow> ptr \<Rightarrow> store \<Rightarrow> store" where
  "mul_s1nl2n P G r a b \<sigma> = (let \<sigma> = set_type r LONGMONTGOMERY \<sigma>;
    \<sigma> = (if sint (shortVal (\<sigma> a)) < 0
      then (let \<sigma> = set_long r (rawMMul1 P G (longVal (\<sigma> b)) (to_s64 (- sint (shortVal (\<sigma> a))))) \<sigma>
        in set_long r (rawNeg P G (longVal (\<sigma> r))) \<sigma>)
      else set_long r (rawMMul1 P G (longVal (\<sigma> b)) (to_s64 (sint (shortVal (\<sigma> a))))) \<sigma>);
    \<sigma> = set_long r (rawMMul P G (longVal (\<sigma> r)) (rawR3 P)) \<sigma>
    in \<sigma>)"

definition mul_l1ms2n :: "raw_consts \<Rightarrow> gmp \<Rightarrow> ptr \<Rightarrow> ptr \<Rightarrow> ptr \<Rightarrow> store \<Rightarrow> store" where
  "mul_l1ms2n P G r a b \<sigma> = (let \<sigma> = set_type r LONG \<sigma>;
    \<sigma> = (if sint (shortVal (\<sigma> b)) < 0
      then (let \<sigma> = set_long r (rawMMul1 P G (longVal (\<sigma> a)) (to_s64 (- sint (shortVal (\<sigma> b))))) \<sigma>
        in set_long r (rawNeg P G (longVal (\<sigma> r))) \<sigma>)
      else set_long r (rawMMul1 P G (longVal (\<sigma> a)) (to_s64 (sint (shortVal (\<sigma> b))))) \<sigma>)
    in \<sigma>)"

definition mul_s1nl2m :: "raw_consts \<Rightarrow> gmp \<Rightarrow> ptr \<Rightarrow> ptr \<Rightarrow> ptr \<Rightarrow> store \<Rightarrow> store" where
  "mul_s1nl2m P G r a b \<sigma> = (let \<sigma> = set_type r LONG \<sigma>;
    \<sigma> = (if sint (shortVal (\<sigma> a)) < 0
      then (let \<sigma> = set_long r (rawMMul1 P G (longVal (\<sigma> b)) (to_s64 (- sint (shortVal (\<sigma> a))))) \<sigma>
        in set_long r (rawNeg P G (longVal (\<sigma> r))) \<sigma>)
      else set_long r (rawMMul1 P G (longVal (\<sigma> b)) (to_s64 (sint (shortVal (\<sigma> a))))) \<sigma>)
    in \<sigma>)"

definition mul_l1ns2m :: "raw_consts \<Rightarrow> gmp \<Rightarrow> ptr \<Rightarrow> ptr \<Rightarrow> ptr \<Rightarrow> store \<Rightarrow> store" where
  "mul_l1ns2m P G r a b \<sigma> = (let \<sigma> = set_type r LONG \<sigma>;
    \<sigma> = set_long r (rawMMul P G (longVal (\<sigma> a)) (longVal (\<sigma> b))) \<sigma>
    in \<sigma>)"

definition mul_l1ms2m :: "raw_consts \<Rightarrow> gmp \<Rightarrow> ptr \<Rightarrow> ptr \<Rightarrow> ptr \<Rightarrow> store \<Rightarrow> store" where
  "mul_l1ms2m P G r a b \<sigma> = (let \<sigma> = set_type r LONGMONTGOMERY \<sigma>;
    \<sigma> = set_long r (rawMMul P G (longVal (\<sigma> a)) (longVal (\<sigma> b))) \<sigma>
    in \<sigma>)"

definition mul_s1ml2m :: "raw_consts \<Rightarrow> gmp \<Rightarrow> ptr \<Rightarrow> ptr \<Rightarrow> ptr \<Rightarrow> store \<Rightarrow> store" where
  "mul_s1ml2m P G r a b \<sigma> = (let \<sigma> = set_type r LONGMONTGOMERY \<sigma>;
    \<sigma> = set_long r (rawMMul P G (longVal (\<sigma> a)) (longVal (\<sigma> b))) \<sigma>
    in \<sigma>)"

definition mul_s1ml2n :: "raw_consts \<Rightarrow> gmp \<Rightarrow> ptr \<Rightarrow> ptr \<Rightarrow> ptr \<Rightarrow> store \<Rightarrow> store" where
  "mul_s1ml2n P G r a b \<sigma> = (let \<sigma> = set_type r LONG \<sigma>;
    \<sigma> = set_long r (rawMMul P G (longVal (\<sigma> a)) (longVal (\<sigma> b))) \<sigma>
    in \<sigma>)"

definition F_mul :: "raw_consts \<Rightarrow> gmp \<Rightarrow> ptr \<Rightarrow> ptr \<Rightarrow> ptr \<Rightarrow> store \<Rightarrow> store" where
  "F_mul P G r a b \<sigma> =
     (if is_long (\<sigma> a)
      then if is_long (\<sigma> b)
        then if is_mont (\<sigma> a)
          then if is_mont (\<sigma> b) then mul_l1ml2m P G r a b \<sigma> else mul_l1ml2n P G r a b \<sigma>
          else if is_mont (\<sigma> b) then mul_l1nl2m P G r a b \<sigma> else mul_l1nl2n P G r a b \<sigma>
        else if is_mont (\<sigma> a)
        then if is_mont (\<sigma> b) then mul_l1ms2m P G r a b \<sigma> else mul_l1ms2n P G r a b \<sigma>
        else if is_mont (\<sigma> b) then mul_l1ns2m P G r a b \<sigma> else mul_l1ns2n P G r a b \<sigma>
      else if is_long (\<sigma> b)
      then if is_mont (\<sigma> a)
        then if is_mont (\<sigma> b) then mul_s1ml2m P G r a b \<sigma> else mul_s1ml2n P G r a b \<sigma>
        else if is_mont (\<sigma> b) then mul_s1nl2m P G r a b \<sigma> else mul_s1nl2n P G r a b \<sigma>
      else mul_s1s2 P G r a b \<sigma>)"

subsection \<open>Subtraction\<close>

definition has_add32_overflow :: "int \<Rightarrow> bool" where
  "has_add32_overflow val = (let signs = drop_bit 31 val AND 3 in signs = 1 \<or> signs = 2)"

definition F_rawSSub :: "s32 \<Rightarrow> s32 \<Rightarrow> int \<times> bool" where
  "F_rawSSub a b = (let r = sint a - sint b in (r, has_add32_overflow r))"

definition sub_s1s2 :: "raw_consts \<Rightarrow> gmp \<Rightarrow> ptr \<Rightarrow> ptr \<Rightarrow> ptr \<Rightarrow> store \<Rightarrow> store" where
  "sub_s1s2 P G r a b \<sigma> = (case F_rawSSub (shortVal (\<sigma> a)) (shortVal (\<sigma> b)) of (diff, overflow) \<Rightarrow>
     if overflow
     then let \<sigma> = set_long r (rawCopyS2L P G (to_s64 diff)) \<sigma>;
              \<sigma> = set_type r LONG \<sigma>;
              \<sigma> = set_short r 0 \<sigma>
          in \<sigma>
     else let \<sigma> = set_type r SHORT \<sigma>;
              \<sigma> = set_short r (to_s32 diff) \<sigma>
          in \<sigma>)"

definition sub_l1nl2n :: "raw_consts \<Rightarrow> gmp \<Rightarrow> ptr \<Rightarrow> ptr \<Rightarrow> ptr \<Rightarrow> store \<Rightarrow> store" where
  "sub_l1nl2n P G r a b \<sigma> = (let \<sigma> = set_type r LONG \<sigma>;
    \<sigma> = set_long r (rawSub P G (longVal (\<sigma> a)) (longVal (\<sigma> b))) \<sigma>
    in \<sigma>)"

definition sub_l1nl2m :: "raw_consts \<Rightarrow> gmp \<Rightarrow> ptr \<Rightarrow> ptr \<Rightarrow> ptr \<Rightarrow> store \<Rightarrow> store" where
  "sub_l1nl2m P G r a b \<sigma> = (let \<sigma> = set_type r LONGMONTGOMERY \<sigma>;
    \<sigma> = F_toMontgomery P G (Loc A_m) a \<sigma>;
    \<sigma> = set_long r (rawSub P G (longVal (\<sigma> (Loc A_m))) (longVal (\<sigma> b))) \<sigma>
    in \<sigma>)"

definition sub_l1ml2m :: "raw_consts \<Rightarrow> gmp \<Rightarrow> ptr \<Rightarrow> ptr \<Rightarrow> ptr \<Rightarrow> store \<Rightarrow> store" where
  "sub_l1ml2m P G r a b \<sigma> = (let \<sigma> = set_type r LONGMONTGOMERY \<sigma>;
    \<sigma> = set_long r (rawSub P G (longVal (\<sigma> a)) (longVal (\<sigma> b))) \<sigma>
    in \<sigma>)"

definition sub_l1ml2n :: "raw_consts \<Rightarrow> gmp \<Rightarrow> ptr \<Rightarrow> ptr \<Rightarrow> ptr \<Rightarrow> store \<Rightarrow> store" where
  "sub_l1ml2n P G r a b \<sigma> = (let \<sigma> = set_type r LONGMONTGOMERY \<sigma>;
    \<sigma> = F_toMontgomery P G (Loc B_m) b \<sigma>;
    \<sigma> = set_long r (rawSub P G (longVal (\<sigma> a)) (longVal (\<sigma> (Loc B_m)))) \<sigma>
    in \<sigma>)"

text \<open>
  \<open>rawNegLS\<close> reads \<open>b\<close> after its first write to \<open>r\<close>: the argument it gets is the array as that write
  leaves it.
\<close>

definition sub_s1l2n :: "raw_consts \<Rightarrow> gmp \<Rightarrow> ptr \<Rightarrow> ptr \<Rightarrow> ptr \<Rightarrow> store \<Rightarrow> store" where
  "sub_s1l2n P G r a b \<sigma> = (let \<sigma> = set_type r LONG \<sigma>;
    \<sigma> = (if 0 \<le> sint (shortVal (\<sigma> a))
      then set_long r (rawSubSL P G (to_s64 (sint (shortVal (\<sigma> a)))) (longVal (\<sigma> b))) \<sigma>
      else set_long r (rawNegLS P G (\<lambda>v. longVal (set_long r v \<sigma> b)) (to_s64 (- sint (shortVal (\<sigma> a))))) \<sigma>)
    in \<sigma>)"

definition sub_l1ms2n :: "raw_consts \<Rightarrow> gmp \<Rightarrow> ptr \<Rightarrow> ptr \<Rightarrow> ptr \<Rightarrow> store \<Rightarrow> store" where
  "sub_l1ms2n P G r a b \<sigma> = (let \<sigma> = set_type r LONGMONTGOMERY \<sigma>;
    \<sigma> = F_toMontgomery P G (Loc B_m) b \<sigma>;
    \<sigma> = set_long r (rawSub P G (longVal (\<sigma> a)) (longVal (\<sigma> (Loc B_m)))) \<sigma>
    in \<sigma>)"

definition sub_s1nl2m :: "raw_consts \<Rightarrow> gmp \<Rightarrow> ptr \<Rightarrow> ptr \<Rightarrow> ptr \<Rightarrow> store \<Rightarrow> store" where
  "sub_s1nl2m P G r a b \<sigma> = (let \<sigma> = set_type r LONGMONTGOMERY \<sigma>;
    \<sigma> = F_toMontgomery P G (Loc A_m) a \<sigma>;
    \<sigma> = set_long r (rawSub P G (longVal (\<sigma> (Loc A_m))) (longVal (\<sigma> b))) \<sigma>
    in \<sigma>)"

definition sub_l1ns2 :: "raw_consts \<Rightarrow> gmp \<Rightarrow> ptr \<Rightarrow> ptr \<Rightarrow> ptr \<Rightarrow> store \<Rightarrow> store" where
  "sub_l1ns2 P G r a b \<sigma> = (let \<sigma> = set_type r LONG \<sigma>;
    \<sigma> = (if sint (shortVal (\<sigma> b)) < 0
      then set_long r (rawAddLS P G (longVal (\<sigma> a)) (to_s64 (- sint (shortVal (\<sigma> b))))) \<sigma>
      else set_long r (rawSubLS P G (longVal (\<sigma> a)) (to_s64 (sint (shortVal (\<sigma> b))))) \<sigma>)
    in \<sigma>)"

definition sub_l1ms2m :: "raw_consts \<Rightarrow> gmp \<Rightarrow> ptr \<Rightarrow> ptr \<Rightarrow> ptr \<Rightarrow> store \<Rightarrow> store" where
  "sub_l1ms2m P G r a b \<sigma> = (let \<sigma> = set_type r LONGMONTGOMERY \<sigma>;
    \<sigma> = set_long r (rawSub P G (longVal (\<sigma> a)) (longVal (\<sigma> b))) \<sigma>
    in \<sigma>)"

definition sub_s1ml2m :: "raw_consts \<Rightarrow> gmp \<Rightarrow> ptr \<Rightarrow> ptr \<Rightarrow> ptr \<Rightarrow> store \<Rightarrow> store" where
  "sub_s1ml2m P G r a b \<sigma> = (let \<sigma> = set_type r LONGMONTGOMERY \<sigma>;
    \<sigma> = set_long r (rawSub P G (longVal (\<sigma> a)) (longVal (\<sigma> b))) \<sigma>
    in \<sigma>)"

definition F_sub :: "raw_consts \<Rightarrow> gmp \<Rightarrow> ptr \<Rightarrow> ptr \<Rightarrow> ptr \<Rightarrow> store \<Rightarrow> store" where
  "F_sub P G r a b \<sigma> =
     (if is_long (\<sigma> a)
      then if is_long (\<sigma> b)
        then if is_mont (\<sigma> a)
          then if is_mont (\<sigma> b) then sub_l1ml2m P G r a b \<sigma> else sub_l1ml2n P G r a b \<sigma>
          else if is_mont (\<sigma> b) then sub_l1nl2m P G r a b \<sigma> else sub_l1nl2n P G r a b \<sigma>
        else if is_mont (\<sigma> a)
        then if is_mont (\<sigma> b) then sub_l1ms2m P G r a b \<sigma> else sub_l1ms2n P G r a b \<sigma>
        else sub_l1ns2 P G r a b \<sigma>
      else if is_long (\<sigma> b)
      then if is_mont (\<sigma> b)
        then if is_mont (\<sigma> a) then sub_s1ml2m P G r a b \<sigma> else sub_s1nl2m P G r a b \<sigma>
        else sub_s1l2n P G r a b \<sigma>
      else sub_s1s2 P G r a b \<sigma>)"

subsection \<open>Addition\<close>

definition F_rawSAdd :: "s32 \<Rightarrow> s32 \<Rightarrow> int \<times> bool" where
  "F_rawSAdd a b = (let r = sint a + sint b in (r, has_add32_overflow r))"

definition add_s1s2 :: "raw_consts \<Rightarrow> gmp \<Rightarrow> ptr \<Rightarrow> ptr \<Rightarrow> ptr \<Rightarrow> store \<Rightarrow> store" where
  "add_s1s2 P G r a b \<sigma> = (case F_rawSAdd (shortVal (\<sigma> a)) (shortVal (\<sigma> b)) of (res, overflow) \<Rightarrow>
     if overflow
     then let \<sigma> = set_long r (rawCopyS2L P G (to_s64 res)) \<sigma>;
              \<sigma> = set_type r LONG \<sigma>;
              \<sigma> = set_short r 0 \<sigma>
          in \<sigma>
     else let \<sigma> = set_type r SHORT \<sigma>;
              \<sigma> = set_short r (to_s32 res) \<sigma>
          in \<sigma>)"

definition add_l1nl2n :: "raw_consts \<Rightarrow> gmp \<Rightarrow> ptr \<Rightarrow> ptr \<Rightarrow> ptr \<Rightarrow> store \<Rightarrow> store" where
  "add_l1nl2n P G r a b \<sigma> = (let \<sigma> = set_type r LONG \<sigma>;
    \<sigma> = set_long r (rawAdd P G (longVal (\<sigma> a)) (longVal (\<sigma> b))) \<sigma>
    in \<sigma>)"

definition add_l1nl2m :: "raw_consts \<Rightarrow> gmp \<Rightarrow> ptr \<Rightarrow> ptr \<Rightarrow> ptr \<Rightarrow> store \<Rightarrow> store" where
  "add_l1nl2m P G r a b \<sigma> = (let \<sigma> = set_type r LONGMONTGOMERY \<sigma>;
    \<sigma> = F_toMontgomery P G (Loc A_m) a \<sigma>;
    \<sigma> = set_long r (rawAdd P G (longVal (\<sigma> (Loc A_m))) (longVal (\<sigma> b))) \<sigma>
    in \<sigma>)"

definition add_l1ml2m :: "raw_consts \<Rightarrow> gmp \<Rightarrow> ptr \<Rightarrow> ptr \<Rightarrow> ptr \<Rightarrow> store \<Rightarrow> store" where
  "add_l1ml2m P G r a b \<sigma> = (let \<sigma> = set_type r LONGMONTGOMERY \<sigma>;
    \<sigma> = set_long r (rawAdd P G (longVal (\<sigma> a)) (longVal (\<sigma> b))) \<sigma>
    in \<sigma>)"

definition add_l1ml2n :: "raw_consts \<Rightarrow> gmp \<Rightarrow> ptr \<Rightarrow> ptr \<Rightarrow> ptr \<Rightarrow> store \<Rightarrow> store" where
  "add_l1ml2n P G r a b \<sigma> = (let \<sigma> = set_type r LONGMONTGOMERY \<sigma>;
    \<sigma> = F_toMontgomery P G (Loc B_m) b \<sigma>;
    \<sigma> = set_long r (rawAdd P G (longVal (\<sigma> a)) (longVal (\<sigma> (Loc B_m)))) \<sigma>
    in \<sigma>)"

definition add_s1l2n :: "raw_consts \<Rightarrow> gmp \<Rightarrow> ptr \<Rightarrow> ptr \<Rightarrow> ptr \<Rightarrow> store \<Rightarrow> store" where
  "add_s1l2n P G r a b \<sigma> = (let \<sigma> = set_type r LONG \<sigma>;
    \<sigma> = (if 0 \<le> sint (shortVal (\<sigma> a))
      then set_long r (rawAddLS P G (longVal (\<sigma> b)) (to_s64 (sint (shortVal (\<sigma> a))))) \<sigma>
      else set_long r (rawSubLS P G (longVal (\<sigma> b)) (to_s64 (- sint (shortVal (\<sigma> a))))) \<sigma>)
    in \<sigma>)"

definition add_l1ms2n :: "raw_consts \<Rightarrow> gmp \<Rightarrow> ptr \<Rightarrow> ptr \<Rightarrow> ptr \<Rightarrow> store \<Rightarrow> store" where
  "add_l1ms2n P G r a b \<sigma> = (let \<sigma> = set_type r LONGMONTGOMERY \<sigma>;
    \<sigma> = F_toMontgomery P G (Loc B_m) b \<sigma>;
    \<sigma> = set_long r (rawAdd P G (longVal (\<sigma> a)) (longVal (\<sigma> (Loc B_m)))) \<sigma>
    in \<sigma>)"

definition add_s1nl2m :: "raw_consts \<Rightarrow> gmp \<Rightarrow> ptr \<Rightarrow> ptr \<Rightarrow> ptr \<Rightarrow> store \<Rightarrow> store" where
  "add_s1nl2m P G r a b \<sigma> = (let \<sigma> = set_type r LONGMONTGOMERY \<sigma>;
    \<sigma> = F_toMontgomery P G (Loc A_m) a \<sigma>;
    \<sigma> = set_long r (rawAdd P G (longVal (\<sigma> (Loc A_m))) (longVal (\<sigma> b))) \<sigma>
    in \<sigma>)"

definition add_l1ns2 :: "raw_consts \<Rightarrow> gmp \<Rightarrow> ptr \<Rightarrow> ptr \<Rightarrow> ptr \<Rightarrow> store \<Rightarrow> store" where
  "add_l1ns2 P G r a b \<sigma> = (let \<sigma> = set_type r LONG \<sigma>;
    \<sigma> = (if 0 \<le> sint (shortVal (\<sigma> b))
      then set_long r (rawAddLS P G (longVal (\<sigma> a)) (to_s64 (sint (shortVal (\<sigma> b))))) \<sigma>
      else set_long r (rawSubLS P G (longVal (\<sigma> a)) (to_s64 (- sint (shortVal (\<sigma> b))))) \<sigma>)
    in \<sigma>)"

definition add_l1ms2m :: "raw_consts \<Rightarrow> gmp \<Rightarrow> ptr \<Rightarrow> ptr \<Rightarrow> ptr \<Rightarrow> store \<Rightarrow> store" where
  "add_l1ms2m P G r a b \<sigma> = (let \<sigma> = set_type r LONGMONTGOMERY \<sigma>;
    \<sigma> = set_long r (rawAdd P G (longVal (\<sigma> a)) (longVal (\<sigma> b))) \<sigma>
    in \<sigma>)"

definition add_s1ml2m :: "raw_consts \<Rightarrow> gmp \<Rightarrow> ptr \<Rightarrow> ptr \<Rightarrow> ptr \<Rightarrow> store \<Rightarrow> store" where
  "add_s1ml2m P G r a b \<sigma> = (let \<sigma> = set_type r LONGMONTGOMERY \<sigma>;
    \<sigma> = set_long r (rawAdd P G (longVal (\<sigma> a)) (longVal (\<sigma> b))) \<sigma>
    in \<sigma>)"

definition F_add :: "raw_consts \<Rightarrow> gmp \<Rightarrow> ptr \<Rightarrow> ptr \<Rightarrow> ptr \<Rightarrow> store \<Rightarrow> store" where
  "F_add P G r a b \<sigma> =
     (if is_long (\<sigma> a)
      then if is_long (\<sigma> b)
        then if is_mont (\<sigma> a)
          then if is_mont (\<sigma> b) then add_l1ml2m P G r a b \<sigma> else add_l1ml2n P G r a b \<sigma>
          else if is_mont (\<sigma> b) then add_l1nl2m P G r a b \<sigma> else add_l1nl2n P G r a b \<sigma>
        else if is_mont (\<sigma> a)
        then if is_mont (\<sigma> b) then add_l1ms2m P G r a b \<sigma> else add_l1ms2n P G r a b \<sigma>
        else add_l1ns2 P G r a b \<sigma>
      else if is_long (\<sigma> b)
      then if is_mont (\<sigma> b)
        then if is_mont (\<sigma> a) then add_s1ml2m P G r a b \<sigma> else add_s1nl2m P G r a b \<sigma>
        else add_s1l2n P G r a b \<sigma>
      else add_s1s2 P G r a b \<sigma>)"

subsection \<open>Negation and squaring\<close>

definition F_rawSNeg :: "s32 \<Rightarrow> int \<times> bool" where
  "F_rawSNeg a = (let r = - sint a in (r, has_add32_overflow r))"

definition F_neg :: "raw_consts \<Rightarrow> gmp \<Rightarrow> ptr \<Rightarrow> ptr \<Rightarrow> store \<Rightarrow> store" where
  "F_neg P G r a \<sigma> = (if is_long (\<sigma> a)
     then let \<sigma> = set_type r (type (\<sigma> a)) \<sigma>;
              \<sigma> = set_short r (shortVal (\<sigma> a)) \<sigma>;
              \<sigma> = set_long r (rawNeg P G (longVal (\<sigma> a))) \<sigma>
          in \<sigma>
     else case F_rawSNeg (shortVal (\<sigma> a)) of (a_shortVal, overflow) \<Rightarrow>
       if overflow
       then let \<sigma> = set_long r (rawCopyS2L P G (to_s64 a_shortVal)) \<sigma>;
                \<sigma> = set_type r LONG \<sigma>;
                \<sigma> = set_short r 0 \<sigma>
            in \<sigma>
       else let \<sigma> = set_type r SHORT \<sigma>;
                \<sigma> = set_short r (to_s32 a_shortVal) \<sigma>
            in \<sigma>)"

definition F_square :: "raw_consts \<Rightarrow> gmp \<Rightarrow> ptr \<Rightarrow> ptr \<Rightarrow> store \<Rightarrow> store" where
  "F_square P G r a \<sigma> = (if is_long (\<sigma> a)
     then if type (\<sigma> a) = LONGMONTGOMERY
       then let \<sigma> = set_type r LONGMONTGOMERY \<sigma>;
                \<sigma> = set_long r (rawMSquare P G (longVal (\<sigma> a))) \<sigma>
            in \<sigma>
       else let \<sigma> = set_type r LONGMONTGOMERY \<sigma>;
                \<sigma> = set_long r (rawMSquare P G (longVal (\<sigma> a))) \<sigma>;
                \<sigma> = set_long r (rawMMul P G (longVal (\<sigma> r)) (rawR3 P)) \<sigma>
            in \<sigma>
     else case F_rawSMul (shortVal (\<sigma> a)) (shortVal (\<sigma> a)) of (result, overflow) \<Rightarrow>
       if overflow
       then let \<sigma> = set_long r (rawCopyS2L P G (to_s64 result)) \<sigma>;
                \<sigma> = set_type r LONG \<sigma>;
                \<sigma> = set_short r 0 \<sigma>
            in \<sigma>
       else let \<sigma> = set_short r (to_s32 result) \<sigma>;
                \<sigma> = set_type r SHORT \<sigma>;
                \<sigma> = set_long r (rawCopyS2L P G (to_s64 result)) \<sigma>;
                \<sigma> = set_type r LONG \<sigma>;
                \<sigma> = set_short r 0 \<sigma>
            in \<sigma>)"

end
