(* ===== verification/Element_Laws.thy ===== *)
theory Element_Laws
  imports Element_Arith Raw_Bits
begin

section \<open>Tagged elements: values and well-formedness\<close>

text \<open>
  The integer modulo \<open>q\<close> that an element stands for, read off its tag, and the invariant of the
  tagged representation: a legal tag, reduced limbs wherever the tag makes the limbs meaningful,
  and agreement of the two values that a short Montgomery element holds.
\<close>

definition elem_val :: "nat \<Rightarrow> element \<Rightarrow> int" where
  "elem_val q e = (if is_mont e then int (mval q (longVal e))
     else if is_long e then int (lval (longVal e))
     else sint (shortVal e) mod int q)"

definition elem_ok :: "nat \<Rightarrow> element \<Rightarrow> bool" where
  "elem_ok q e \<longleftrightarrow> type e \<in> {SHORT, SHORTMONTGOMERY, LONG, LONGMONTGOMERY}
     \<and> (type e = SHORT \<or> reduced q (longVal e))
     \<and> (type e = SHORTMONTGOMERY \<longrightarrow> int (mval q (longVal e)) = sint (shortVal e) mod int q)"

definition elem_is :: "nat \<Rightarrow> element \<Rightarrow> int \<Rightarrow> bool" where
  "elem_is q e v \<longleftrightarrow> elem_ok q e \<and> elem_val q e = v mod int q"

text \<open>The four tags.\<close>

lemma tag_neq [simp]:
  "LONG \<noteq> SHORT" "LONGMONTGOMERY \<noteq> SHORT" "SHORTMONTGOMERY \<noteq> SHORT" "LONG \<noteq> LONGMONTGOMERY"
  "LONG \<noteq> SHORTMONTGOMERY" "LONGMONTGOMERY \<noteq> SHORTMONTGOMERY"
  "SHORT \<noteq> LONG" "SHORT \<noteq> LONGMONTGOMERY" "SHORT \<noteq> SHORTMONTGOMERY" "LONGMONTGOMERY \<noteq> LONG"
  "SHORTMONTGOMERY \<noteq> LONG" "SHORTMONTGOMERY \<noteq> LONGMONTGOMERY"
  by (simp_all add: tag_defs)

lemma tag_long [simp]: "type e = LONG \<Longrightarrow> is_long e" "type e = LONG \<Longrightarrow> \<not> is_mont e"
  and tag_long_mont [simp]: "type e = LONGMONTGOMERY \<Longrightarrow> is_long e" "type e = LONGMONTGOMERY \<Longrightarrow> is_mont e"
  and tag_short [simp]: "type e = SHORT \<Longrightarrow> \<not> is_long e" "type e = SHORT \<Longrightarrow> \<not> is_mont e"
  and tag_short_mont [simp]: "type e = SHORTMONTGOMERY \<Longrightarrow> \<not> is_long e" "type e = SHORTMONTGOMERY \<Longrightarrow> is_mont e"
  by (simp_all add: is_long_def is_mont_def tag_defs)

lemma elem_cases [consumes 1, case_names short short_mont long long_mont]:
  assumes "elem_ok q e"
  obtains "type e = SHORT" "elem_val q e = sint (shortVal e) mod int q"
  | "type e = SHORTMONTGOMERY" "reduced q (longVal e)"
      "elem_val q e = sint (shortVal e) mod int q" "elem_val q e = int (mval q (longVal e))"
  | "type e = LONG" "reduced q (longVal e)" "elem_val q e = int (lval (longVal e))"
  | "type e = LONGMONTGOMERY" "reduced q (longVal e)" "elem_val q e = int (mval q (longVal e))"
  using assms by (auto simp: elem_ok_def elem_val_def)

lemma elem_is_long:
  "type e = LONG \<Longrightarrow> reduced q (longVal e) \<Longrightarrow> int (lval (longVal e)) = v mod int q \<Longrightarrow> elem_is q e v"
  by (simp add: elem_is_def elem_ok_def elem_val_def)

lemma elem_is_mont:
  "type e = LONGMONTGOMERY \<Longrightarrow> reduced q (longVal e) \<Longrightarrow> int (mval q (longVal e)) = v mod int q
    \<Longrightarrow> elem_is q e v"
  by (simp add: elem_is_def elem_ok_def elem_val_def)

lemma elem_is_short: "type e = SHORT \<Longrightarrow> sint (shortVal e) = v \<Longrightarrow> elem_is q e v"
  by (simp add: elem_is_def elem_ok_def elem_val_def)

lemma elem_is_cong: "elem_is q e v \<Longrightarrow> v mod int q = w mod int q \<Longrightarrow> elem_is q e w"
  by (simp add: elem_is_def)

lemma elem_is_val: "elem_is q e v \<Longrightarrow> elem_val q e = v mod int q"
  by (simp add: elem_is_def)

subsection \<open>The raw operations on integers modulo \<open>q\<close>\<close>

context raw_field begin

abbreviation lv :: "limbs \<Rightarrow> int" where "lv a \<equiv> int (lval a)"
abbreviation mv :: "limbs \<Rightarrow> int" where "mv a \<equiv> int (mval q a)"
abbreviation Z :: int where "Z \<equiv> int q"
abbreviation inv_R :: int where "inv_R \<equiv> int (mont_Rinv q)"

lemma mv_def: "mv a = lv a * inv_R mod Z"
  by (simp add: mval_def zmod_int)

lemma R_inv_R: "int mont_R * inv_R mod Z = 1"
  using Rinv_law by (metis of_nat_1 of_nat_mult zmod_int)

lemma cancel_R:
  assumes "int mont_R * x mod Z = y mod Z"
  shows "x mod Z = y * inv_R mod Z"
proof -
  have "x mod Z = (int mont_R * inv_R mod Z) * x mod Z" by (simp add: R_inv_R)
  also have "\<dots> = (int mont_R * x mod Z) * inv_R mod Z"
    by (simp only: mod_mult_left_eq) (simp only: ac_simps)
  also have "\<dots> = y * inv_R mod Z" unfolding assms by (rule mod_mult_left_eq)
  finally show ?thesis .
qed

lemma lv_mod: "reduced q a \<Longrightarrow> lv a mod Z = lv a"
  by (simp add: reduced_def)

lemma mv_mod [simp]: "mv a mod Z = mv a"
  by (simp add: mval_def zmod_int)

lemma lv_MMul: "length a = 4 \<Longrightarrow> reduced q b \<Longrightarrow> lv (rawMMul P G a b) = lv a * lv b * inv_R mod Z"
  using cancel_R [of "lv (rawMMul P G a b)" "lv a * lv b"] rawMMul_correct [of a b]
  by (metis lv_mod of_nat_mult zmod_int)

lemma lv_MMul1: "reduced q a \<Longrightarrow> lv (rawMMul1 P G a s) = lv a * uint s * inv_R mod Z"
  using cancel_R [of "lv (rawMMul1 P G a s)" "lv a * uint s"] rawMMul1_correct [of a s]
  by (metis lv_mod of_nat_mult zmod_int uint_nat)

text \<open>\<open>R * inv_R = 1\<close> in the middle of a product.\<close>

lemma R_collapse: "x * int mont_R * inv_R mod Z = x mod Z"
  using R_inv_R by (metis mod_mult_right_eq mult.assoc mult.right_neutral)

lemma mv_of_MMul_R3: "reduced q a \<Longrightarrow> mv (rawMMul P G a (rawR3 P)) = lv a * int mont_R mod Z"
proof -
  assume a: "reduced q a"
  have R3: "reduced q (rawR3 P)" using length_R3 lval_R3 q_pos by (simp add: reduced_def)
  have l3: "lv (rawR3 P) = int mont_R ^ 3 mod Z" by (simp add: lval_R3 zmod_int)
  have "mv (rawMMul P G a (rawR3 P)) = (lv a * (int mont_R ^ 3 mod Z) * inv_R mod Z) * inv_R mod Z"
    unfolding mv_def lv_MMul [OF reduced_length [OF a] R3] l3 ..
  also have "\<dots> = (lv a * (int mont_R ^ 3 mod Z) * inv_R) * inv_R mod Z" by (rule mod_mult_left_eq)
  also have "\<dots> = (int mont_R ^ 3 mod Z) * (lv a * inv_R * inv_R) mod Z" by (simp only: ac_simps)
  also have "\<dots> = int mont_R ^ 3 * (lv a * inv_R * inv_R) mod Z" by (rule mod_mult_left_eq)
  also have "\<dots> = (lv a * int mont_R * int mont_R * int mont_R * inv_R) * inv_R mod Z"
    by (simp only: power3_eq_cube ac_simps)
  also have "\<dots> = (lv a * int mont_R * int mont_R * int mont_R * inv_R mod Z) * inv_R mod Z"
    by (rule mod_mult_left_eq [symmetric])
  also have "\<dots> = (lv a * int mont_R * int mont_R mod Z) * inv_R mod Z" unfolding R_collapse ..
  also have "\<dots> = (lv a * int mont_R) * int mont_R * inv_R mod Z" by (rule mod_mult_left_eq)
  also have "\<dots> = lv a * int mont_R mod Z" by (rule R_collapse)
  finally show ?thesis .
qed

lemma lv_MMul_mixed:
  assumes "reduced q a" and "reduced q b"
  shows "lv (rawMMul P G a b) = lv a * mv b mod Z" and "lv (rawMMul P G a b) = mv a * lv b mod Z"
  using assms lv_MMul [of a b]
  by (simp_all add: reduced_length mv_def mod_mult_left_eq mod_mult_right_eq ac_simps)

lemma mv_MMul: "reduced q a \<Longrightarrow> reduced q b \<Longrightarrow> mv (rawMMul P G a b) = mv a * mv b mod Z"
  by (simp add: mval_MMul reduced_length zmod_int)

lemma MMul_reduced: "length a = 4 \<Longrightarrow> reduced q b \<Longrightarrow> reduced q (rawMMul P G a b)"
  using rawMMul_correct by blast

lemma MMul1_reduced: "reduced q a \<Longrightarrow> reduced q (rawMMul1 P G a s)"
  using rawMMul1_correct by blast

lemma Neg_reduced: "reduced q a \<Longrightarrow> reduced q (rawNeg P G a)"
  using rawNeg_correct by blast

lemma lv_Neg: "reduced q a \<Longrightarrow> lv (rawNeg P G a) = - lv a mod Z"
  using rawNeg_correct [of a] reduced_lt [of q a] by (simp add: zmod_int)

lemma lv_Add: "reduced q a \<Longrightarrow> reduced q b \<Longrightarrow> lv (rawAdd P G a b) = (lv a + lv b) mod Z"
  using rawAdd_correct [of a b] by (simp add: reduced_def zmod_int)

lemma lv_Sub: "reduced q a \<Longrightarrow> reduced q b \<Longrightarrow> lv (rawSub P G a b) = (lv a - lv b) mod Z"
  using rawSub_correct [of a b] reduced_lt [of q b]
  by (simp add: zmod_int of_nat_diff) (metis add_diff_eq diff_add_eq mod_add_self2)

lemma mv_linear:
  assumes "lv c = x mod Z"
  shows "mv c = x * inv_R mod Z"
  unfolding mv_def assms by (rule mod_mult_left_eq)

lemma mv_Neg: "reduced q a \<Longrightarrow> mv (rawNeg P G a) = - mv a mod Z"
  using mv_linear [OF lv_Neg [of a]] by (simp add: mv_def mod_minus_eq)

lemma mv_Add: "reduced q a \<Longrightarrow> reduced q b \<Longrightarrow> mv (rawAdd P G a b) = (mv a + mv b) mod Z"
  using mv_linear [OF lv_Add [of a b]] by (simp add: mv_def mod_add_eq ring_distribs)

lemma mv_Sub: "reduced q a \<Longrightarrow> reduced q b \<Longrightarrow> mv (rawSub P G a b) = (mv a - mv b) mod Z"
  using mv_linear [OF lv_Sub [of a b]] by (simp add: mv_def mod_diff_eq ring_distribs)

lemma Add_reduced: "reduced q a \<Longrightarrow> reduced q b \<Longrightarrow> reduced q (rawAdd P G a b)"
  using rawAdd_correct [of a b] by (simp add: reduced_def)

lemma Sub_reduced: "reduced q a \<Longrightarrow> reduced q b \<Longrightarrow> reduced q (rawSub P G a b)"
  using rawSub_correct [of a b] by simp

lemma R2_reduced: "reduced q (rawR2 P)"
  using length_R2 lval_R2 q_pos by (simp add: reduced_def)

lemma R3_reduced: "reduced q (rawR3 P)"
  using length_R3 lval_R3 q_pos by (simp add: reduced_def)

lemma mv_R2: "mv (rawR2 P) = int mont_R mod Z"
proof -
  have "lv (rawR2 P) = int mont_R * int mont_R mod Z" by (simp add: lval_R2 zmod_int power2_eq_square)
  from mv_linear [OF this] show ?thesis unfolding R_collapse .
qed

lemma R_cancel_mv: "mv a * int mont_R mod Z = lv a mod Z"
proof -
  have "mv a * int mont_R mod Z = lv a * inv_R * int mont_R mod Z"
    unfolding mv_def by (rule mod_mult_left_eq)
  also have "\<dots> = lv a * int mont_R * inv_R mod Z" by (simp only: ac_simps)
  also have "\<dots> = lv a mod Z" by (rule R_collapse)
  finally show ?thesis .
qed

lemma mv_toMont: "reduced q a \<Longrightarrow> mv (rawMMul P G a (rawR2 P)) = lv a"
  by (simp add: mv_MMul R2_reduced mv_R2 mod_mult_right_eq R_cancel_mv lv_mod)

lemma mv_MMul_R3: "reduced q a \<Longrightarrow> mv (rawMMul P G a (rawR3 P)) = lv a * int mont_R mod Z"
  by (rule mv_of_MMul_R3)

text \<open>The product of two normal elements, corrected by \<open>R3\<close>, and the products by a short value.\<close>

lemma mv_product_R3:
  assumes "reduced q a" and "reduced q b"
  shows "mv (rawMMul P G (rawMMul P G a b) (rawR3 P)) = lv a * lv b mod Z"
proof -
  have "mv (rawMMul P G (rawMMul P G a b) (rawR3 P)) = (lv a * mv b mod Z) * int mont_R mod Z"
    using assms by (simp add: mv_of_MMul_R3 MMul_reduced reduced_length lv_MMul_mixed(1))
  also have "\<dots> = lv a * mv b * int mont_R mod Z" by (rule mod_mult_left_eq)
  also have "\<dots> = lv a * (mv b * int mont_R mod Z) mod Z" by (simp only: mod_mult_right_eq mult.assoc)
  also have "\<dots> = lv a * lv b mod Z" unfolding R_cancel_mv by (rule mod_mult_right_eq)
  finally show ?thesis .
qed

lemma lv_MMul1_mv: "reduced q a \<Longrightarrow> lv (rawMMul1 P G a s) = mv a * uint s mod Z"
  by (simp add: lv_MMul1 mv_def mod_mult_right_eq ac_simps)

lemma uint_to_s64: "0 \<le> v \<Longrightarrow> v < 9223372036854775808 \<Longrightarrow> uint (to_s64 v) = v"
  by (simp add: to_s64_def uint_word_of_int)

text \<open>\<open>a\<close> times a short value: the two sign branches of the code.\<close>

definition short_product :: "limbs \<Rightarrow> int \<Rightarrow> limbs" where
  "short_product a s = (if s < 0 then rawNeg P G (rawMMul1 P G a (to_s64 (- s)))
     else rawMMul1 P G a (to_s64 s))"

lemma short_product_correct:
  assumes "reduced q a" and "\<bar>s\<bar> \<le> 2147483648"
  shows "reduced q (short_product a s)" and "lv (short_product a s) = mv a * s mod Z"
proof -
  show "reduced q (short_product a s)"
    using assms by (simp add: short_product_def Neg_reduced MMul1_reduced)
  show "lv (short_product a s) = mv a * s mod Z"
    using assms by (simp add: short_product_def lv_Neg MMul1_reduced lv_MMul1_mv uint_to_s64 mod_minus_eq)
qed

lemma mv_short_product:
  assumes "reduced q a" and "\<bar>s\<bar> \<le> 2147483648"
  shows "mv (rawMMul P G (short_product a s) (rawR3 P)) = lv a * s mod Z"
proof -
  have "mv (rawMMul P G (short_product a s) (rawR3 P)) = (mv a * s mod Z) * int mont_R mod Z"
    using short_product_correct [OF assms] by (simp add: mv_of_MMul_R3)
  also have "\<dots> = mv a * s * int mont_R mod Z" by (rule mod_mult_left_eq)
  also have "\<dots> = (mv a * int mont_R mod Z) * s mod Z" by (simp only: mod_mult_right_eq ac_simps)
  also have "\<dots> = lv a * s mod Z" unfolding R_cancel_mv by (rule mod_mult_left_eq)
  finally show ?thesis .
qed

lemma mv_short_toMont:
  assumes "\<bar>s\<bar> \<le> 2147483648"
  shows "mv (short_product (rawR2 P) s) = s mod Z"
proof -
  have "lv (short_product (rawR2 P) s) = int mont_R * s mod Z"
    using short_product_correct(2) [OF R2_reduced assms] by (simp add: mv_R2 mod_mult_left_eq)
  from mv_linear [OF this] have "mv (short_product (rawR2 P) s) = s * int mont_R * inv_R mod Z"
    by (simp only: ac_simps)
  then show ?thesis unfolding R_collapse .
qed

subsection \<open>Conversions\<close>

lemma short_bound: "\<bar>sint (x :: s32)\<bar> \<le> 2147483648"
  using sint_s32_bounds [of x] by linarith

lemma toMontgomery_other [simp]: "p \<noteq> r \<Longrightarrow> F_toMontgomery P G r a \<sigma> p = \<sigma> p"
  by (simp add: F_toMontgomery_def F_copy_def Let_def)

lemma toNormal_other [simp]: "p \<noteq> r \<Longrightarrow> F_toNormal P G r a \<sigma> p = \<sigma> p"
  by (simp add: F_toNormal_def F_copy_def Let_def)

lemma toLongNormal_other [simp]: "p \<noteq> r \<Longrightarrow> F_toLongNormal P G r a \<sigma> p = \<sigma> p"
  by (simp add: F_toLongNormal_def F_copy_def Let_def)

lemma toMontgomery_short_long:
  "type (\<sigma> a) = SHORT \<Longrightarrow>
    longVal (F_toMontgomery P G r a \<sigma> r) = short_product (rawR2 P) (sint (shortVal (\<sigma> a)))"
  by (simp add: F_toMontgomery_def short_product_def Let_def)

theorem toMontgomery_long:
  assumes "elem_ok q (\<sigma> a)"
  shows "reduced q (longVal (F_toMontgomery P G r a \<sigma> r))"
    and "mv (longVal (F_toMontgomery P G r a \<sigma> r)) = elem_val q (\<sigma> a)"
proof -
  let ?l = "longVal (F_toMontgomery P G r a \<sigma> r)"
  from assms have "reduced q ?l \<and> mv ?l = elem_val q (\<sigma> a)"
  proof (cases rule: elem_cases)
    case short
    then show ?thesis
      by (simp add: toMontgomery_short_long short_product_correct(1) R2_reduced short_bound mv_short_toMont)
  qed (simp_all add: F_toMontgomery_def F_copy_def Let_def mv_toMont MMul_reduced R2_reduced reduced_length)
  then show "reduced q ?l" and "mv ?l = elem_val q (\<sigma> a)" by simp_all
qed

lemma toMontgomery_type:
  "elem_ok q (\<sigma> a) \<Longrightarrow> type (F_toMontgomery P G r a \<sigma> r) = type (\<sigma> a) OR MONTGOMERY"
  by (cases rule: elem_cases, assumption)
    (simp_all add: F_toMontgomery_def F_copy_def Let_def, simp_all add: tag_defs)

lemma FromMontgomery_facts:
  "reduced q a \<Longrightarrow> reduced q (rawFromMontgomery P G a)"
  "reduced q a \<Longrightarrow> lval (rawFromMontgomery P G a) = mval q a"
  using rawFromMontgomery_correct lval_FromMontgomery by (simp_all add: reduced_length)

theorem toNormal_long:
  assumes "elem_ok q (\<sigma> a)" and long: "is_long (\<sigma> a)"
  shows "type (F_toNormal P G r a \<sigma> r) = LONG"
    and "reduced q (longVal (F_toNormal P G r a \<sigma> r))"
    and "lv (longVal (F_toNormal P G r a \<sigma> r)) = elem_val q (\<sigma> a)"
proof -
  let ?e = "F_toNormal P G r a \<sigma> r"
  from assms(1) have "type ?e = LONG \<and> reduced q (longVal ?e) \<and> lv (longVal ?e) = elem_val q (\<sigma> a)"
    by (cases rule: elem_cases) (use long in \<open>simp_all add: F_toNormal_def F_copy_def FromMontgomery_facts\<close>)
  then show "type ?e = LONG" and "reduced q (longVal ?e)" and "lv (longVal ?e) = elem_val q (\<sigma> a)"
    by simp_all
qed

lemma CopyS2L_facts:
  "reduced q (rawCopyS2L P G v)"
  "- 9223372036854775808 \<le> x \<Longrightarrow> x < 9223372036854775808 \<Longrightarrow> lv (rawCopyS2L P G (to_s64 x)) = x mod Z"
  using rawCopyS2L_correct by (simp_all add: sint_to_s64)

lemma CopyS2L_short: "lv (rawCopyS2L P G (to_s64 (sint (x :: s32)))) = sint x mod Z"
  using sint_s32_bounds [of x] by (intro CopyS2L_facts) linarith+

theorem toLongNormal_long:
  assumes "elem_ok q (\<sigma> a)"
  shows "type (F_toLongNormal P G r a \<sigma> r) = LONG"
    and "reduced q (longVal (F_toLongNormal P G r a \<sigma> r))"
    and "lv (longVal (F_toLongNormal P G r a \<sigma> r)) = elem_val q (\<sigma> a)"
proof -
  let ?e = "F_toLongNormal P G r a \<sigma> r"
  from assms(1) have "type ?e = LONG \<and> reduced q (longVal ?e) \<and> lv (longVal ?e) = elem_val q (\<sigma> a)"
    by (cases rule: elem_cases)
      (simp_all add: F_toLongNormal_def F_copy_def FromMontgomery_facts CopyS2L_facts(1) CopyS2L_short)
  then show "type ?e = LONG" and "reduced q (longVal ?e)" and "lv (longVal ?e) = elem_val q (\<sigma> a)"
    by simp_all
qed

end

end
