(* ===== verification/Element_Arith_Laws.thy ===== *)
theory Element_Arith_Laws
  imports Element_Laws
begin

section \<open>Tagged elements: the arithmetic operations compute in the field\<close>

text \<open>
  For each operation: the result is a well-formed element that stands for the product, difference,
  sum, negation or square of what the arguments stood for before the call, and no other object of
  the store changes. Multiplication, negation and squaring hold for every aliasing of the three
  pointers; subtraction and addition for a result distinct from the arguments, and for every
  aliasing when the tags need no conversion.
\<close>

subsection \<open>Overflow of short results\<close>

lemma has_mul32_overflow_iff:
  "has_mul32_overflow v \<longleftrightarrow> \<not> (- 2147483648 \<le> v \<and> v < 2147483648)"
proof -
  have "has_mul32_overflow v \<longleftrightarrow> v div 2147483648 \<noteq> 0 \<and> v div 2147483648 \<noteq> - 1"
    by (auto simp: has_mul32_overflow_def Let_def drop_bit_eq_div not_int_def)
  then show ?thesis by linarith
qed

lemma has_add32_overflow_iff:
  assumes "- 4294967296 \<le> v" and "v < 4294967296"
  shows "has_add32_overflow v \<longleftrightarrow> \<not> (- 2147483648 \<le> v \<and> v < 2147483648)"
proof -
  define s where "s = v div 2147483648"
  have s: "s = -2 \<or> s = -1 \<or> s = 0 \<or> s = 1" using assms unfolding s_def by linarith
  have "has_add32_overflow v \<longleftrightarrow> s AND 3 = 1 \<or> s AND 3 = 2"
    by (simp add: has_add32_overflow_def Let_def drop_bit_eq_div s_def)
  also have "\<dots> \<longleftrightarrow> s = 1 \<or> s = -2" using s by auto
  also have "\<dots> \<longleftrightarrow> \<not> (- 2147483648 \<le> v \<and> v < 2147483648)"
    using assms unfolding s_def by linarith
  finally show ?thesis .
qed

lemma sint_to_s32: "- 2147483648 \<le> v \<Longrightarrow> v < 2147483648 \<Longrightarrow> sint (to_s32 v) = v"
  by (simp add: to_s32_def sint_sbintrunc' signed_take_bit_int_eq_self)

lemma s32_sum_bounds:
  fixes x y :: s32
  shows "- 4294967296 \<le> sint x + sint y" "sint x + sint y < 4294967296"
    "- 4294967296 \<le> sint x - sint y" "sint x - sint y < 4294967296"
  using sint_s32_bounds [of x] sint_s32_bounds [of y] by linarith+

lemma s32_product_bounds:
  fixes x y :: s32
  shows "- 9223372036854775808 \<le> sint x * sint y" "sint x * sint y < 9223372036854775808"
proof -
  have "\<bar>sint x * sint y\<bar> \<le> 2147483648 * 2147483648"
    unfolding abs_mult using sint_s32_bounds [of x] sint_s32_bounds [of y]
    by (intro mult_mono) auto
  then show "- 9223372036854775808 \<le> sint x * sint y" "sint x * sint y < 9223372036854775808" by auto
qed

context raw_field begin

subsection \<open>Multiplication\<close>

text \<open>The stores that the static functions leave in \<open>r\<close>.\<close>

lemma CopyS2L_product:
  fixes x y :: s32
  shows "lv (rawCopyS2L P G (to_s64 (sint x * sint y))) = sint x * sint y mod Z"
  using s32_product_bounds [of x y] by (rule CopyS2L_facts(2))

lemma mul_s1s2_is:
  "elem_is q (mul_s1s2 P G r a b \<sigma> r) (sint (shortVal (\<sigma> a)) * sint (shortVal (\<sigma> b)))"
  by (rule elem_is_long)
    (simp_all add: mul_s1s2_def F_rawSMul_def Let_def CopyS2L_facts(1) CopyS2L_product)

text \<open>What a last assignment to the limbs leaves.\<close>

lemma written_long:
  "reduced q l \<Longrightarrow> lv l = v mod Z \<Longrightarrow> type (\<sigma> r) = LONG \<Longrightarrow> elem_is q (set_long r l \<sigma> r) v"
  by (simp add: elem_is_long)

lemma written_mont:
  "reduced q l \<Longrightarrow> mv l = v mod Z \<Longrightarrow> type (\<sigma> r) = LONGMONTGOMERY \<Longrightarrow> elem_is q (set_long r l \<sigma> r) v"
  by (simp add: elem_is_mont)

lemma MMul_R3_reduced: "reduced q a \<Longrightarrow> reduced q (rawMMul P G a (rawR3 P))"
  by (rule MMul_reduced [OF reduced_length R3_reduced])

lemma mul_mont_is:
  assumes "reduced q (longVal (\<sigma> a))" and "reduced q (longVal (\<sigma> b))"
  shows "elem_is q (mul_l1nl2n P G r a b \<sigma> r) (lv (longVal (\<sigma> a)) * lv (longVal (\<sigma> b)))"
    and "elem_is q (mul_l1ml2m P G r a b \<sigma> r) (mv (longVal (\<sigma> a)) * mv (longVal (\<sigma> b)))"
    and "elem_is q (mul_l1ms2m P G r a b \<sigma> r) (mv (longVal (\<sigma> a)) * mv (longVal (\<sigma> b)))"
    and "elem_is q (mul_s1ml2m P G r a b \<sigma> r) (mv (longVal (\<sigma> a)) * mv (longVal (\<sigma> b)))"
  using assms
  by (simp_all add: mul_l1nl2n_def mul_l1ml2m_def mul_l1ms2m_def mul_s1ml2m_def Let_def written_mont
      MMul_reduced MMul_R3_reduced reduced_length mv_product_R3 mv_MMul)

lemma mul_mixed_is:
  assumes "reduced q (longVal (\<sigma> a))" and "reduced q (longVal (\<sigma> b))"
  shows "elem_is q (mul_l1nl2m P G r a b \<sigma> r) (lv (longVal (\<sigma> a)) * mv (longVal (\<sigma> b)))"
    and "elem_is q (mul_l1ns2m P G r a b \<sigma> r) (lv (longVal (\<sigma> a)) * mv (longVal (\<sigma> b)))"
    and "elem_is q (mul_l1ml2n P G r b a \<sigma> r) (mv (longVal (\<sigma> b)) * lv (longVal (\<sigma> a)))"
    and "elem_is q (mul_s1ml2n P G r b a \<sigma> r) (mv (longVal (\<sigma> b)) * lv (longVal (\<sigma> a)))"
proof -
  show "elem_is q (mul_l1nl2m P G r a b \<sigma> r) (lv (longVal (\<sigma> a)) * mv (longVal (\<sigma> b)))"
    and "elem_is q (mul_l1ns2m P G r a b \<sigma> r) (lv (longVal (\<sigma> a)) * mv (longVal (\<sigma> b)))"
    using assms by (simp_all add: mul_l1nl2m_def mul_l1ns2m_def Let_def written_long MMul_reduced
        reduced_length lv_MMul_mixed(1))
  show "elem_is q (mul_l1ml2n P G r b a \<sigma> r) (mv (longVal (\<sigma> b)) * lv (longVal (\<sigma> a)))"
    and "elem_is q (mul_s1ml2n P G r b a \<sigma> r) (mv (longVal (\<sigma> b)) * lv (longVal (\<sigma> a)))"
    using assms by (simp_all add: mul_l1ml2n_def mul_s1ml2n_def Let_def written_long MMul_reduced
        reduced_length lv_MMul_mixed(2))
qed

lemma mul_short_is:
  assumes "reduced q (longVal (\<sigma> a))"
  shows "elem_is q (mul_l1ns2n P G r a b \<sigma> r) (lv (longVal (\<sigma> a)) * sint (shortVal (\<sigma> b)))"
    and "elem_is q (mul_l1ms2n P G r a b \<sigma> r) (mv (longVal (\<sigma> a)) * sint (shortVal (\<sigma> b)))"
    and "elem_is q (mul_s1nl2n P G r b a \<sigma> r) (sint (shortVal (\<sigma> b)) * lv (longVal (\<sigma> a)))"
    and "elem_is q (mul_s1nl2m P G r b a \<sigma> r) (sint (shortVal (\<sigma> b)) * mv (longVal (\<sigma> a)))"
proof -
  let ?p = "short_product (longVal (\<sigma> a)) (sint (shortVal (\<sigma> b)))"
  note p = short_product_correct [OF assms short_bound] mv_short_product [OF assms short_bound]
  have l: "longVal (mul_l1ns2n P G r a b \<sigma> r) = rawMMul P G ?p (rawR3 P)"
      "longVal (mul_s1nl2n P G r b a \<sigma> r) = rawMMul P G ?p (rawR3 P)"
      "longVal (mul_l1ms2n P G r a b \<sigma> r) = ?p" "longVal (mul_s1nl2m P G r b a \<sigma> r) = ?p"
    by (simp_all add: mul_l1ns2n_def mul_s1nl2n_def mul_l1ms2n_def mul_s1nl2m_def short_product_def Let_def)
  have t: "type (mul_l1ns2n P G r a b \<sigma> r) = LONGMONTGOMERY"
      "type (mul_s1nl2n P G r b a \<sigma> r) = LONGMONTGOMERY"
      "type (mul_l1ms2n P G r a b \<sigma> r) = LONG" "type (mul_s1nl2m P G r b a \<sigma> r) = LONG"
    by (simp_all add: mul_l1ns2n_def mul_s1nl2n_def mul_l1ms2n_def mul_s1nl2m_def Let_def)
  note r = MMul_R3_reduced [OF p(1)]
  show "elem_is q (mul_l1ns2n P G r a b \<sigma> r) (lv (longVal (\<sigma> a)) * sint (shortVal (\<sigma> b)))"
    and "elem_is q (mul_s1nl2n P G r b a \<sigma> r) (sint (shortVal (\<sigma> b)) * lv (longVal (\<sigma> a)))"
    by (rule elem_is_mont; simp add: l t r p mult.commute)+
  show "elem_is q (mul_l1ms2n P G r a b \<sigma> r) (mv (longVal (\<sigma> a)) * sint (shortVal (\<sigma> b)))"
    and "elem_is q (mul_s1nl2m P G r b a \<sigma> r) (sint (shortVal (\<sigma> b)) * mv (longVal (\<sigma> a)))"
    by (rule elem_is_long; simp add: l t p mult.commute)+
qed

lemma F_mul_other: "p \<noteq> r \<Longrightarrow> F_mul P G r a b \<sigma> p = \<sigma> p"
  by (simp add: F_mul_def mul_s1s2_def F_rawSMul_def Let_def mul_l1nl2n_def mul_l1nl2m_def
      mul_l1ml2m_def mul_l1ml2n_def mul_l1ns2m_def mul_l1ms2m_def mul_s1ml2m_def mul_s1ml2n_def
      mul_l1ns2n_def mul_l1ms2n_def mul_s1nl2n_def mul_s1nl2m_def)

text \<open>An element stands for a residue class.\<close>

lemma elem_is_mod [simp]:
  "elem_is q e (x mod Z * y) = elem_is q e (x * y)" "elem_is q e (x * (y mod Z)) = elem_is q e (x * y)"
  "elem_is q e (x mod Z + y) = elem_is q e (x + y)" "elem_is q e (x + y mod Z) = elem_is q e (x + y)"
  "elem_is q e (x mod Z - y) = elem_is q e (x - y)" "elem_is q e (x - y mod Z) = elem_is q e (x - y)"
  "elem_is q e (- (x mod Z)) = elem_is q e (- x)"
  by (simp_all add: elem_is_def mod_simps)

theorem F_mul_correct:
  assumes a: "elem_ok q (\<sigma> a)" and b: "elem_ok q (\<sigma> b)"
  shows "elem_is q (F_mul P G r a b \<sigma> r) (elem_val q (\<sigma> a) * elem_val q (\<sigma> b))"
  using a
proof (cases rule: elem_cases)
  case short
  note A = this
  from b show ?thesis
    by (cases rule: elem_cases) (simp_all add: A F_mul_def mul_s1s2_is mul_short_is)
next
  case short_mont
  note A = this(1,2)
  from b show ?thesis
  proof (cases rule: elem_cases)
    case short
    then show ?thesis by (simp add: A short_mont(3) F_mul_def mul_s1s2_is)
  next
    case B: short_mont
    show ?thesis using B(1) by (simp add: A short_mont(3) B(3) F_mul_def mul_s1s2_is)
  qed (simp_all add: A short_mont(4) F_mul_def mul_mont_is mul_mixed_is)
next
  case long
  note A = this
  from b show ?thesis
  proof (cases rule: elem_cases)
    case B: short_mont
    show ?thesis using B(1,2) by (simp add: A B(4) F_mul_def mul_mixed_is)
  qed (simp_all add: A F_mul_def mul_mont_is mul_mixed_is mul_short_is)
next
  case long_mont
  note A = this
  from b show ?thesis
  proof (cases rule: elem_cases)
    case B: short_mont
    show ?thesis using B(1,2) by (simp add: A B(4) F_mul_def mul_mont_is)
  qed (simp_all add: A F_mul_def mul_mont_is mul_mixed_is mul_short_is)
qed

subsection \<open>Subtraction\<close>

lemma sub_s1s2_is:
  "elem_is q (sub_s1s2 P G r a b \<sigma> r) (sint (shortVal (\<sigma> a)) - sint (shortVal (\<sigma> b)))"
  using s32_sum_bounds [of "shortVal (\<sigma> a)" "shortVal (\<sigma> b)"]
  by (cases "has_add32_overflow (sint (shortVal (\<sigma> a)) - sint (shortVal (\<sigma> b)))")
    (auto simp: sub_s1s2_def F_rawSSub_def Let_def has_add32_overflow_iff sint_to_s32 CopyS2L_facts
      intro: elem_is_long elem_is_short)

lemma add_s1s2_is:
  "elem_is q (add_s1s2 P G r a b \<sigma> r) (sint (shortVal (\<sigma> a)) + sint (shortVal (\<sigma> b)))"
  using s32_sum_bounds [of "shortVal (\<sigma> a)" "shortVal (\<sigma> b)"]
  by (cases "has_add32_overflow (sint (shortVal (\<sigma> a)) + sint (shortVal (\<sigma> b)))")
    (auto simp: add_s1s2_def F_rawSAdd_def Let_def has_add32_overflow_iff sint_to_s32 CopyS2L_facts
      intro: elem_is_long elem_is_short)

text \<open>No conversion: every aliasing.\<close>

lemma addsub_same_is:
  assumes "reduced q (longVal (\<sigma> a))" and "reduced q (longVal (\<sigma> b))"
  shows "elem_is q (sub_l1nl2n P G r a b \<sigma> r) (lv (longVal (\<sigma> a)) - lv (longVal (\<sigma> b)))"
    and "elem_is q (sub_l1ml2m P G r a b \<sigma> r) (mv (longVal (\<sigma> a)) - mv (longVal (\<sigma> b)))"
    and "elem_is q (sub_l1ms2m P G r a b \<sigma> r) (mv (longVal (\<sigma> a)) - mv (longVal (\<sigma> b)))"
    and "elem_is q (sub_s1ml2m P G r a b \<sigma> r) (mv (longVal (\<sigma> a)) - mv (longVal (\<sigma> b)))"
    and "elem_is q (add_l1nl2n P G r a b \<sigma> r) (lv (longVal (\<sigma> a)) + lv (longVal (\<sigma> b)))"
    and "elem_is q (add_l1ml2m P G r a b \<sigma> r) (mv (longVal (\<sigma> a)) + mv (longVal (\<sigma> b)))"
    and "elem_is q (add_l1ms2m P G r a b \<sigma> r) (mv (longVal (\<sigma> a)) + mv (longVal (\<sigma> b)))"
    and "elem_is q (add_s1ml2m P G r a b \<sigma> r) (mv (longVal (\<sigma> a)) + mv (longVal (\<sigma> b)))"
  using assms
  by (simp_all add: sub_l1nl2n_def sub_l1ml2m_def sub_l1ms2m_def sub_s1ml2m_def add_l1nl2n_def
      add_l1ml2m_def add_l1ms2m_def add_s1ml2m_def Let_def written_long written_mont Sub_reduced
      Add_reduced lv_Sub mv_Sub lv_Add mv_Add)

text \<open>A converted first argument, a converted second argument.\<close>

lemma convert_first_is:
  assumes "r \<noteq> a" and "elem_ok q (\<sigma> a)" and "reduced q (longVal (\<sigma> b))"
    and "a \<noteq> Loc A_m" and "b \<noteq> Loc A_m" and "r \<noteq> Loc A_m"
  shows "elem_is q (sub_l1nl2m P G r a b \<sigma> r) (elem_val q (\<sigma> a) - mv (longVal (\<sigma> b)))"
    and "elem_is q (sub_s1nl2m P G r a b \<sigma> r) (elem_val q (\<sigma> a) - mv (longVal (\<sigma> b)))"
    and "elem_is q (add_l1nl2m P G r a b \<sigma> r) (elem_val q (\<sigma> a) + mv (longVal (\<sigma> b)))"
    and "elem_is q (add_s1nl2m P G r a b \<sigma> r) (elem_val q (\<sigma> a) + mv (longVal (\<sigma> b)))"
  using assms toMontgomery_long [of "set_type r LONGMONTGOMERY \<sigma>" a "Loc A_m"]
  by (simp_all add: sub_l1nl2m_def sub_s1nl2m_def add_l1nl2m_def add_s1nl2m_def Let_def written_mont
      Sub_reduced Add_reduced mv_Sub mv_Add)

lemma convert_second_is:
  assumes "r \<noteq> b" and "elem_ok q (\<sigma> b)" and "reduced q (longVal (\<sigma> a))"
    and "a \<noteq> Loc B_m" and "b \<noteq> Loc B_m" and "r \<noteq> Loc B_m"
  shows "elem_is q (sub_l1ml2n P G r a b \<sigma> r) (mv (longVal (\<sigma> a)) - elem_val q (\<sigma> b))"
    and "elem_is q (sub_l1ms2n P G r a b \<sigma> r) (mv (longVal (\<sigma> a)) - elem_val q (\<sigma> b))"
    and "elem_is q (add_l1ml2n P G r a b \<sigma> r) (mv (longVal (\<sigma> a)) + elem_val q (\<sigma> b))"
    and "elem_is q (add_l1ms2n P G r a b \<sigma> r) (mv (longVal (\<sigma> a)) + elem_val q (\<sigma> b))"
  using assms toMontgomery_long [of "set_type r LONGMONTGOMERY \<sigma>" b "Loc B_m"]
  by (simp_all add: sub_l1ml2n_def sub_l1ms2n_def add_l1ml2n_def add_l1ms2n_def Let_def written_mont
      Sub_reduced Add_reduced mv_Sub mv_Add)

text \<open>A short argument against a long normal one.\<close>

lemma to_s64_nonzero: "0 < v \<Longrightarrow> v < 9223372036854775808 \<Longrightarrow> to_s64 v \<noteq> 0"
  using uint_to_s64 [of v] by (metis less_irrefl less_le uint_0_iff)

lemma lv_SubSL:
  assumes "reduced q b"
  shows "reduced q (rawSubSL P G a b) \<and> lv (rawSubSL P G a b) = (uint a - lv b) mod Z"
proof -
  have "int (unat a + q - lval b) = (uint a - lv b) + Z"
    using reduced_lt [OF assms] by simp
  then show ?thesis using rawSubSL_correct [OF assms, of a] by (simp add: zmod_int)
qed

lemma short_lt_q:
  fixes b :: u64
  assumes "uint b < 9223372036854775808"
  shows "unat b < q"
proof -
  have "int (unat b) < int (2 ^ 63)" using assms by simp
  then have "unat b < 2 ^ 63" by (simp only: of_nat_less_iff)
  also have "(2 :: nat) ^ 63 < 2 ^ 253" by (rule power_strict_increasing) simp_all
  also note q_low
  finally show ?thesis .
qed

lemma lv_SubLS:
  assumes "reduced q a" and "uint b < 9223372036854775808"
  shows "reduced q (rawSubLS P G a b) \<and> lv (rawSubLS P G a b) = (lv a - uint b) mod Z"
proof -
  have "unat b \<le> lval a + q" using short_lt_q [OF assms(2)] by (rule le_trans [OF less_imp_le]) simp
  then have "int (lval a + q - unat b) = (lv a - uint b) + Z" by (simp add: of_nat_diff)
  then show ?thesis using rawSubLS_correct [OF assms(1), of b] by (simp add: zmod_int)
qed

lemma lv_AddLS:
  assumes "reduced q a" and "uint b < 9223372036854775808"
  shows "reduced q (rawAddLS P G a b) \<and> lv (rawAddLS P G a b) = (lv a + uint b) mod Z"
proof -
  have "lval a + unat b < 2 * q"
    using add_strict_mono [OF reduced_lt [OF assms(1)] short_lt_q [OF assms(2)]] by simp
  then show ?thesis using rawAddLS_correct [of a b] assms(1) by (simp add: reduced_def zmod_int)
qed

lemma lv_NegLS:
  assumes "reduced q a" and "uint b < 9223372036854775808" and "b \<noteq> 0"
  shows "reduced q (rawNegLS P G (\<lambda>_. a) b) \<and> lv (rawNegLS P G (\<lambda>_. a) b) = (- uint b - lv a) mod Z"
proof -
  have le: "unat b + lval a \<le> 2 * q"
    using add_strict_mono [OF short_lt_q [OF assms(2)] reduced_lt [OF assms(1)]] by simp
  then have "int (2 * q - unat b - lval a) = (- uint b - lv a) + Z * 2"
    by (simp add: of_nat_diff)
  then show ?thesis using rawNegLS_correct [OF assms(1,3)] by (simp add: zmod_int)
qed

text \<open>The same for the 64-bit form of a value of at most 32 bits.\<close>

lemma s32_le: "sint (x :: s32) \<le> 2147483648" "- sint (x :: s32) \<le> 2147483648"
  using sint_s32_bounds [of x] by linarith+

lemma small_LS:
  assumes "reduced q a" and "0 \<le> v" and "v \<le> 2147483648"
  shows "reduced q (rawSubLS P G a (to_s64 v))" and "lv (rawSubLS P G a (to_s64 v)) = (lv a - v) mod Z"
    and "reduced q (rawAddLS P G a (to_s64 v))" and "lv (rawAddLS P G a (to_s64 v)) = (lv a + v) mod Z"
    and "reduced q (rawSubSL P G (to_s64 v) a)" and "lv (rawSubSL P G (to_s64 v) a) = (v - lv a) mod Z"
  using lv_SubLS [OF assms(1), of "to_s64 v"] lv_AddLS [OF assms(1), of "to_s64 v"]
    lv_SubSL [OF assms(1), of "to_s64 v"] assms(2,3)
  by (simp_all add: uint_to_s64)

lemma small_NegLS:
  assumes "reduced q a" and "0 < v" and "v \<le> 2147483648"
  shows "reduced q (rawNegLS P G (\<lambda>_. a) (to_s64 v))"
    and "lv (rawNegLS P G (\<lambda>_. a) (to_s64 v)) = (- v - lv a) mod Z"
  using lv_NegLS [OF assms(1), of "to_s64 v"] assms(2,3) by (simp_all add: uint_to_s64 to_s64_nonzero)

lemma addsub_short_is:
  assumes "reduced q (longVal (\<sigma> a))"
  shows "elem_is q (sub_l1ns2 P G r a b \<sigma> r) (lv (longVal (\<sigma> a)) - sint (shortVal (\<sigma> b)))"
    and "elem_is q (add_l1ns2 P G r a b \<sigma> r) (lv (longVal (\<sigma> a)) + sint (shortVal (\<sigma> b)))"
    and "elem_is q (add_s1l2n P G r b a \<sigma> r) (sint (shortVal (\<sigma> b)) + lv (longVal (\<sigma> a)))"
proof -
  consider "sint (shortVal (\<sigma> b)) < 0" | "0 \<le> sint (shortVal (\<sigma> b))" by linarith
  then have "elem_is q (sub_l1ns2 P G r a b \<sigma> r) (lv (longVal (\<sigma> a)) - sint (shortVal (\<sigma> b)))
    \<and> elem_is q (add_l1ns2 P G r a b \<sigma> r) (lv (longVal (\<sigma> a)) + sint (shortVal (\<sigma> b)))
    \<and> elem_is q (add_s1l2n P G r b a \<sigma> r) (sint (shortVal (\<sigma> b)) + lv (longVal (\<sigma> a)))"
    by cases (simp_all add: sub_l1ns2_def add_l1ns2_def add_s1l2n_def Let_def written_long small_LS
        assms s32_le add.commute)
  then show "elem_is q (sub_l1ns2 P G r a b \<sigma> r) (lv (longVal (\<sigma> a)) - sint (shortVal (\<sigma> b)))"
    and "elem_is q (add_l1ns2 P G r a b \<sigma> r) (lv (longVal (\<sigma> a)) + sint (shortVal (\<sigma> b)))"
    and "elem_is q (add_s1l2n P G r b a \<sigma> r) (sint (shortVal (\<sigma> b)) + lv (longVal (\<sigma> a)))"
    by blast+
qed

lemma sub_s1l2n_is:
  assumes "reduced q (longVal (\<sigma> b))" and "r \<noteq> b"
  shows "elem_is q (sub_s1l2n P G r a b \<sigma> r) (sint (shortVal (\<sigma> a)) - lv (longVal (\<sigma> b)))"
proof -
  consider "sint (shortVal (\<sigma> a)) < 0" | "0 \<le> sint (shortVal (\<sigma> a))" by linarith
  then show ?thesis
    by cases (use assms(2) in \<open>simp_all add: sub_s1l2n_def Let_def written_long small_LS small_NegLS
        assms(1) s32_le\<close>)
qed

lemma F_sub_other: "p \<noteq> r \<Longrightarrow> p \<noteq> Loc A_m \<Longrightarrow> p \<noteq> Loc B_m \<Longrightarrow> F_sub P G r a b \<sigma> p = \<sigma> p"
  by (simp add: F_sub_def sub_s1s2_def F_rawSSub_def Let_def sub_l1nl2n_def sub_l1nl2m_def
      sub_l1ml2m_def sub_l1ml2n_def sub_l1ns2_def sub_l1ms2m_def sub_s1ml2m_def sub_l1ms2n_def
      sub_s1nl2m_def sub_s1l2n_def)

lemma F_add_other: "p \<noteq> r \<Longrightarrow> p \<noteq> Loc A_m \<Longrightarrow> p \<noteq> Loc B_m \<Longrightarrow> F_add P G r a b \<sigma> p = \<sigma> p"
  by (simp add: F_add_def add_s1s2_def F_rawSAdd_def Let_def add_l1nl2n_def add_l1nl2m_def
      add_l1ml2m_def add_l1ml2n_def add_l1ns2_def add_l1ms2m_def add_s1ml2m_def add_l1ms2n_def
      add_s1nl2m_def add_s1l2n_def)

theorem F_sub_correct:
  assumes a: "elem_ok q (\<sigma> a)" and b: "elem_ok q (\<sigma> b)"
    and sep: "(r \<noteq> a \<and> r \<noteq> b) \<or> type (\<sigma> a) = type (\<sigma> b)"
    and objs: "{r, a, b} \<subseteq> range Obj"
  shows "elem_is q (F_sub P G r a b \<sigma> r) (elem_val q (\<sigma> a) - elem_val q (\<sigma> b))"
proof -
  have loc: "r \<noteq> Loc x" "a \<noteq> Loc x" "b \<noteq> Loc x" for x using objs by auto
  note ops = F_sub_def sub_s1s2_is addsub_same_is addsub_short_is sub_s1l2n_is
  have first: "elem_is q (sub_l1nl2m P G r a b \<sigma> r) (elem_val q (\<sigma> a) - mv (longVal (\<sigma> b)))"
      "elem_is q (sub_s1nl2m P G r a b \<sigma> r) (elem_val q (\<sigma> a) - mv (longVal (\<sigma> b)))"
    if "reduced q (longVal (\<sigma> b))" "r \<noteq> a"
    using a that loc by (simp_all add: convert_first_is)
  have second: "elem_is q (sub_l1ml2n P G r a b \<sigma> r) (mv (longVal (\<sigma> a)) - elem_val q (\<sigma> b))"
      "elem_is q (sub_l1ms2n P G r a b \<sigma> r) (mv (longVal (\<sigma> a)) - elem_val q (\<sigma> b))"
    if "reduced q (longVal (\<sigma> a))" "r \<noteq> b"
    using b that loc by (simp_all add: convert_second_is)
  from a show ?thesis
  proof (cases rule: elem_cases)
    case A: short
    from b show ?thesis
    proof (cases rule: elem_cases)
      case long_mont
      then show ?thesis using sep first(2) by (simp add: A ops)
    next
      case B: short_mont
      show ?thesis using B(1) by (simp add: A B(3) ops)
    qed (use sep in \<open>simp_all add: A ops\<close>)
  next
    case A: short_mont
    note A' = A(1,2)
    from b show ?thesis
    proof (cases rule: elem_cases)
      case short then show ?thesis by (simp add: A' A(3) ops)
    next
      case B: short_mont show ?thesis using B(1) by (simp add: A' A(3) B(3) ops)
    next
      case long then show ?thesis using sep by (simp add: A' A(3) ops)
    next
      case long_mont then show ?thesis by (simp add: A' A(4) ops)
    qed
  next
    case A: long
    from b show ?thesis
    proof (cases rule: elem_cases)
      case B: short_mont
      show ?thesis using B(1,2) by (simp add: A B(3) ops)
    next
      case long_mont then show ?thesis using sep A first(1) by (simp add: ops)
    qed (simp_all add: A ops)
  next
    case A: long_mont
    from b show ?thesis
    proof (cases rule: elem_cases)
      case B: short_mont
      show ?thesis using B(1,2) by (simp add: A B(4) ops)
    next
      case long then show ?thesis using sep A second(1) by (simp add: ops)
    next
      case short then show ?thesis using sep A second(2) by (simp add: ops)
    qed (simp_all add: A ops)
  qed
qed

theorem F_add_correct:
  assumes a: "elem_ok q (\<sigma> a)" and b: "elem_ok q (\<sigma> b)"
    and sep: "(r \<noteq> a \<and> r \<noteq> b) \<or> type (\<sigma> a) = type (\<sigma> b)"
    and objs: "{r, a, b} \<subseteq> range Obj"
  shows "elem_is q (F_add P G r a b \<sigma> r) (elem_val q (\<sigma> a) + elem_val q (\<sigma> b))"
proof -
  have loc: "r \<noteq> Loc x" "a \<noteq> Loc x" "b \<noteq> Loc x" for x using objs by auto
  note ops = F_add_def add_s1s2_is addsub_same_is addsub_short_is
  have first: "elem_is q (add_l1nl2m P G r a b \<sigma> r) (elem_val q (\<sigma> a) + mv (longVal (\<sigma> b)))"
      "elem_is q (add_s1nl2m P G r a b \<sigma> r) (elem_val q (\<sigma> a) + mv (longVal (\<sigma> b)))"
    if "reduced q (longVal (\<sigma> b))" "r \<noteq> a"
    using a that loc by (simp_all add: convert_first_is)
  have second: "elem_is q (add_l1ml2n P G r a b \<sigma> r) (mv (longVal (\<sigma> a)) + elem_val q (\<sigma> b))"
      "elem_is q (add_l1ms2n P G r a b \<sigma> r) (mv (longVal (\<sigma> a)) + elem_val q (\<sigma> b))"
    if "reduced q (longVal (\<sigma> a))" "r \<noteq> b"
    using b that loc by (simp_all add: convert_second_is)
  from a show ?thesis
  proof (cases rule: elem_cases)
    case A: short
    from b show ?thesis
    proof (cases rule: elem_cases)
      case long_mont
      then show ?thesis using sep first(2) by (simp add: A ops)
    next
      case B: short_mont
      show ?thesis using B(1) by (simp add: A B(3) ops)
    qed (use sep in \<open>simp_all add: A ops\<close>)
  next
    case A: short_mont
    note A' = A(1,2)
    from b show ?thesis
    proof (cases rule: elem_cases)
      case short then show ?thesis by (simp add: A' A(3) ops)
    next
      case B: short_mont show ?thesis using B(1) by (simp add: A' A(3) B(3) ops)
    next
      case long then show ?thesis using sep by (simp add: A' A(3) ops)
    next
      case long_mont then show ?thesis by (simp add: A' A(4) ops)
    qed
  next
    case A: long
    from b show ?thesis
    proof (cases rule: elem_cases)
      case B: short_mont
      show ?thesis using B(1,2) by (simp add: A B(3) ops)
    next
      case long_mont then show ?thesis using sep A first(1) by (simp add: ops)
    qed (simp_all add: A ops)
  next
    case A: long_mont
    from b show ?thesis
    proof (cases rule: elem_cases)
      case B: short_mont
      show ?thesis using B(1,2) by (simp add: A B(4) ops)
    next
      case long then show ?thesis using sep A second(1) by (simp add: ops)
    next
      case short then show ?thesis using sep A second(2) by (simp add: ops)
    qed (simp_all add: A ops)
  qed
qed

subsection \<open>Negation and squaring\<close>

theorem F_neg_correct:
  assumes "elem_ok q (\<sigma> a)"
  shows "elem_is q (F_neg P G r a \<sigma> r) (- elem_val q (\<sigma> a))"
proof -
  have bounds: "- 4294967296 \<le> - sint (shortVal (\<sigma> a))" "- sint (shortVal (\<sigma> a)) < 4294967296"
    using sint_s32_bounds [of "shortVal (\<sigma> a)"] by linarith+
  have short: "elem_is q (F_neg P G r a \<sigma> r) (- sint (shortVal (\<sigma> a)))" if "\<not> is_long (\<sigma> a)"
    using that bounds
    by (cases "has_add32_overflow (- sint (shortVal (\<sigma> a)))")
      (auto simp: F_neg_def F_rawSNeg_def Let_def has_add32_overflow_iff sint_to_s32 CopyS2L_facts
        intro: elem_is_long elem_is_short)
  from assms show ?thesis
  proof (cases rule: elem_cases)
    case A: short_mont
    show ?thesis using A(1) by (simp add: A(3) short)
  qed (simp_all add: short, simp_all add: F_neg_def Let_def written_long written_mont Neg_reduced lv_Neg mv_Neg)
qed

theorem F_square_correct:
  assumes "elem_ok q (\<sigma> a)"
  shows "elem_is q (F_square P G r a \<sigma> r) (elem_val q (\<sigma> a) * elem_val q (\<sigma> a))"
proof -
  have short: "elem_is q (F_square P G r a \<sigma> r) (sint (shortVal (\<sigma> a)) * sint (shortVal (\<sigma> a)))"
    if "\<not> is_long (\<sigma> a)"
    by (rule elem_is_long)
      (use that in \<open>simp_all add: F_square_def F_rawSMul_def Let_def CopyS2L_facts(1) CopyS2L_product\<close>)
  from assms show ?thesis
  proof (cases rule: elem_cases)
    case A: short_mont
    show ?thesis using A(1) by (simp add: A(3) short)
  qed (simp_all add: short, simp_all add: F_square_def rawMSquare_def Let_def written_mont MMul_reduced
      MMul_R3_reduced reduced_length mv_product_R3 mv_MMul)
qed

end

end
