(* ===== verification/Element_Compare.thy ===== *)
theory Element_Compare
  imports Element_Arith
begin

section \<open>Tagged elements: truth, integers, comparisons\<close>

text \<open>
  The middle part of \<open>fr_generic.cpp\<close>. The relational operators order the field by the signed
  value: elements above \<open>half\<close> are negative. A comparison writes
  locals only, which end with it; its \<open>0\<close> or \<open>1\<close> is a boolean until it is stored in a \<open>shortVal\<close>.
\<close>

definition of_flag :: "bool \<Rightarrow> s32" where
  "of_flag c = (if c then 1 else 0)"

subsection \<open>Truth values\<close>

definition F_isTrue :: "gmp \<Rightarrow> element \<Rightarrow> bool" where
  "F_isTrue G pE = (if is_long pE then \<not> rawIsZero G (longVal pE) else shortVal pE \<noteq> 0)"

definition F_lor :: "gmp \<Rightarrow> ptr \<Rightarrow> ptr \<Rightarrow> ptr \<Rightarrow> store \<Rightarrow> store" where
  "F_lor G r a b \<sigma> = (let
     is_true_a = (if is_long (\<sigma> a) then of_flag (\<not> rawIsZero G (longVal (\<sigma> a)))
       else of_flag (shortVal (\<sigma> a) \<noteq> 0));
     is_true_b = (if is_long (\<sigma> b) then of_flag (\<not> rawIsZero G (longVal (\<sigma> b)))
       else of_flag (shortVal (\<sigma> b) \<noteq> 0));
     \<sigma> = set_short r (is_true_a OR is_true_b) \<sigma>;
     \<sigma> = set_type r SHORT \<sigma>
   in \<sigma>)"

definition F_land :: "gmp \<Rightarrow> ptr \<Rightarrow> ptr \<Rightarrow> ptr \<Rightarrow> store \<Rightarrow> store" where
  "F_land G r a b \<sigma> = (let
     is_true_a = (if is_long (\<sigma> a) then of_flag (\<not> rawIsZero G (longVal (\<sigma> a)))
       else of_flag (shortVal (\<sigma> a) \<noteq> 0));
     is_true_b = (if is_long (\<sigma> b) then of_flag (\<not> rawIsZero G (longVal (\<sigma> b)))
       else of_flag (shortVal (\<sigma> b) \<noteq> 0));
     \<sigma> = set_short r (is_true_a AND is_true_b) \<sigma>;
     \<sigma> = set_type r SHORT \<sigma>
   in \<sigma>)"

definition F_lnot :: "gmp \<Rightarrow> ptr \<Rightarrow> ptr \<Rightarrow> store \<Rightarrow> store" where
  "F_lnot G r a \<sigma> = (let
     \<sigma> = (if is_long (\<sigma> a) then set_short r (of_flag (rawIsZero G (longVal (\<sigma> a)))) \<sigma>
       else set_short r (if shortVal (\<sigma> a) \<noteq> 0 then 0 else 1) \<sigma>);
     \<sigma> = set_type r SHORT \<sigma>
   in \<sigma>)"

subsection \<open>Conversion to a machine integer\<close>

text \<open>
  \<open>Fr_longErr\<close> calls \<open>Fr_fail\<close>, which is \<open>assert(false)\<close>: it stops the program, or does nothing
  when the build defines \<open>NDEBUG\<close>; the functions then return 0.
\<close>

datatype abort = AssertFailed

definition F_fail :: "bool \<Rightarrow> abort option" where
  "F_fail ndebug = (if ndebug then None else Some AssertFailed)"

definition F_longErr :: "bool \<Rightarrow> abort option" where
  "F_longErr ndebug = F_fail ndebug"

definition err_return0 :: "bool \<Rightarrow> abort + int" where
  "err_return0 ndebug = (case F_longErr ndebug of Some e \<Rightarrow> Inl e | None \<Rightarrow> Inr 0)"

definition F_longNeg :: "raw_consts \<Rightarrow> gmp \<Rightarrow> bool \<Rightarrow> element \<Rightarrow> abort + int" where
  "F_longNeg P G ndebug pE = (if 0 \<le> rawCmp G (longVal pE) (q4 P) then err_return0 ndebug
     else let result = sint (longVal pE ! 0 - rawq P ! 0);
              is_long = drop_bit 31 result + 1
          in if is_long \<noteq> 0 then err_return0 ndebug else Inr (sint (to_s32 result)))"

definition F_longNormal :: "raw_consts \<Rightarrow> gmp \<Rightarrow> bool \<Rightarrow> element \<Rightarrow> abort + int" where
  "F_longNormal P G ndebug pE = (let result = longVal pE ! 0; is_long = drop_bit 31 result
     in if is_long \<noteq> 0 then F_longNeg P G ndebug pE
        else if longVal pE ! 1 \<noteq> 0 \<or> longVal pE ! 2 \<noteq> 0 \<or> longVal pE ! 3 \<noteq> 0
        then F_longNeg P G ndebug pE
        else Inr (sint (to_s32 (uint result))))"

definition F_toInt :: "raw_consts \<Rightarrow> gmp \<Rightarrow> bool \<Rightarrow> ptr \<Rightarrow> store \<Rightarrow> abort + int" where
  "F_toInt P G ndebug pE \<sigma> = (if is_long (\<sigma> pE)
     then if is_mont (\<sigma> pE)
       then let \<sigma> = F_toNormal P G (Loc E_n) pE \<sigma> in F_longNormal P G ndebug (\<sigma> (Loc E_n))
       else F_longNormal P G ndebug (\<sigma> pE)
     else Inr (sint (shortVal (\<sigma> pE))))"

subsection \<open>Less than\<close>

definition rlt_s1s2 :: "element \<Rightarrow> element \<Rightarrow> bool" where
  "rlt_s1s2 a b \<longleftrightarrow> sint (shortVal a) < sint (shortVal b)"

definition rltRawL1L2 :: "gmp \<Rightarrow> limbs \<Rightarrow> limbs \<Rightarrow> bool" where
  "rltRawL1L2 G pRawA pRawB \<longleftrightarrow> 0 < rawCmp G pRawB pRawA"

definition rltl1l2_n1 :: "raw_consts \<Rightarrow> gmp \<Rightarrow> limbs \<Rightarrow> limbs \<Rightarrow> bool" where
  "rltl1l2_n1 P G pRawA pRawB =
     (if rawCmp G (rawHalf P) pRawB < 0 then rltRawL1L2 G pRawA pRawB else True)"

definition rltl1l2_p1 :: "raw_consts \<Rightarrow> gmp \<Rightarrow> limbs \<Rightarrow> limbs \<Rightarrow> bool" where
  "rltl1l2_p1 P G pRawA pRawB =
     (if rawCmp G (rawHalf P) pRawB < 0 then False else rltRawL1L2 G pRawA pRawB)"

definition rltL1L2 :: "raw_consts \<Rightarrow> gmp \<Rightarrow> limbs \<Rightarrow> limbs \<Rightarrow> bool" where
  "rltL1L2 P G pRawA pRawB =
     (if rawCmp G (rawHalf P) pRawA < 0 then rltl1l2_n1 P G pRawA pRawB
      else rltl1l2_p1 P G pRawA pRawB)"

definition rlt_l1nl2n :: "raw_consts \<Rightarrow> gmp \<Rightarrow> ptr \<Rightarrow> ptr \<Rightarrow> store \<Rightarrow> bool" where
  "rlt_l1nl2n P G a b \<sigma> = rltL1L2 P G (longVal (\<sigma> a)) (longVal (\<sigma> b))"

definition rlt_l1nl2m :: "raw_consts \<Rightarrow> gmp \<Rightarrow> ptr \<Rightarrow> ptr \<Rightarrow> store \<Rightarrow> bool" where
  "rlt_l1nl2m P G a b \<sigma> = (let \<sigma> = F_toNormal P G (Loc B_n) b \<sigma>
    in rltL1L2 P G (longVal (\<sigma> a)) (longVal (\<sigma> (Loc B_n))))"

definition rlt_l1ml2m :: "raw_consts \<Rightarrow> gmp \<Rightarrow> ptr \<Rightarrow> ptr \<Rightarrow> store \<Rightarrow> bool" where
  "rlt_l1ml2m P G a b \<sigma> = (let \<sigma> = F_toNormal P G (Loc A_n) a \<sigma>;
    \<sigma> = F_toNormal P G (Loc B_n) b \<sigma>
    in rltL1L2 P G (longVal (\<sigma> (Loc A_n))) (longVal (\<sigma> (Loc B_n))))"

definition rlt_l1ml2n :: "raw_consts \<Rightarrow> gmp \<Rightarrow> ptr \<Rightarrow> ptr \<Rightarrow> store \<Rightarrow> bool" where
  "rlt_l1ml2n P G a b \<sigma> = (let \<sigma> = F_toNormal P G (Loc A_n) a \<sigma>
    in rltL1L2 P G (longVal (\<sigma> (Loc A_n))) (longVal (\<sigma> b)))"

definition rlt_s1l2n :: "raw_consts \<Rightarrow> gmp \<Rightarrow> ptr \<Rightarrow> ptr \<Rightarrow> store \<Rightarrow> bool" where
  "rlt_s1l2n P G a b \<sigma> = (let \<sigma> = F_toLongNormal P G (Loc A_n) a \<sigma>
    in rltL1L2 P G (longVal (\<sigma> (Loc A_n))) (longVal (\<sigma> b)))"

definition rlt_l1ms2 :: "raw_consts \<Rightarrow> gmp \<Rightarrow> ptr \<Rightarrow> ptr \<Rightarrow> store \<Rightarrow> bool" where
  "rlt_l1ms2 P G a b \<sigma> = (let \<sigma> = F_toLongNormal P G (Loc B_ln) b \<sigma>;
    \<sigma> = F_toNormal P G (Loc A_n) a \<sigma>
    in rltL1L2 P G (longVal (\<sigma> (Loc A_n))) (longVal (\<sigma> (Loc B_ln))))"

definition rlt_s1l2m :: "raw_consts \<Rightarrow> gmp \<Rightarrow> ptr \<Rightarrow> ptr \<Rightarrow> store \<Rightarrow> bool" where
  "rlt_s1l2m P G a b \<sigma> = (let \<sigma> = F_toLongNormal P G (Loc A_n) a \<sigma>;
    \<sigma> = F_toNormal P G (Loc B_n) b \<sigma>
    in rltL1L2 P G (longVal (\<sigma> (Loc A_n))) (longVal (\<sigma> (Loc B_n))))"

definition rlt_l1ns2 :: "raw_consts \<Rightarrow> gmp \<Rightarrow> ptr \<Rightarrow> ptr \<Rightarrow> store \<Rightarrow> bool" where
  "rlt_l1ns2 P G a b \<sigma> = (let \<sigma> = F_toLongNormal P G (Loc B_n) b \<sigma>
    in rltL1L2 P G (longVal (\<sigma> a)) (longVal (\<sigma> (Loc B_n))))"

definition F_rlt :: "raw_consts \<Rightarrow> gmp \<Rightarrow> ptr \<Rightarrow> ptr \<Rightarrow> store \<Rightarrow> bool" where
  "F_rlt P G a b \<sigma> =
     (if is_long (\<sigma> a)
      then if is_long (\<sigma> b)
        then if is_mont (\<sigma> a)
          then if is_mont (\<sigma> b) then rlt_l1ml2m P G a b \<sigma> else rlt_l1ml2n P G a b \<sigma>
          else if is_mont (\<sigma> b) then rlt_l1nl2m P G a b \<sigma> else rlt_l1nl2n P G a b \<sigma>
        else if is_mont (\<sigma> a) then rlt_l1ms2 P G a b \<sigma> else rlt_l1ns2 P G a b \<sigma>
      else if is_long (\<sigma> b)
      then if is_mont (\<sigma> b) then rlt_s1l2m P G a b \<sigma> else rlt_s1l2n P G a b \<sigma>
      else rlt_s1s2 (\<sigma> a) (\<sigma> b))"

definition F_lt :: "raw_consts \<Rightarrow> gmp \<Rightarrow> ptr \<Rightarrow> ptr \<Rightarrow> ptr \<Rightarrow> store \<Rightarrow> store" where
  "F_lt P G r a b \<sigma> = (let \<sigma> = set_short r (of_flag (F_rlt P G a b \<sigma>)) \<sigma>;
     \<sigma> = set_type r SHORT \<sigma>
   in \<sigma>)"

definition F_geq :: "raw_consts \<Rightarrow> gmp \<Rightarrow> ptr \<Rightarrow> ptr \<Rightarrow> ptr \<Rightarrow> store \<Rightarrow> store" where
  "F_geq P G r a b \<sigma> = (let \<sigma> = set_short r (of_flag (F_rlt P G a b \<sigma>) XOR 1) \<sigma>;
     \<sigma> = set_type r SHORT \<sigma>
   in \<sigma>)"

subsection \<open>Greater than\<close>

definition rgt_s1s2 :: "element \<Rightarrow> element \<Rightarrow> bool" where
  "rgt_s1s2 a b \<longleftrightarrow> sint (shortVal b) < sint (shortVal a)"

definition rgtRawL1L2 :: "gmp \<Rightarrow> limbs \<Rightarrow> limbs \<Rightarrow> bool" where
  "rgtRawL1L2 G pRawA pRawB \<longleftrightarrow> rawCmp G pRawB pRawA < 0"

definition rgtl1l2_n1 :: "raw_consts \<Rightarrow> gmp \<Rightarrow> limbs \<Rightarrow> limbs \<Rightarrow> bool" where
  "rgtl1l2_n1 P G pRawA pRawB =
     (if rawCmp G (rawHalf P) pRawB < 0 then rgtRawL1L2 G pRawA pRawB else False)"

definition rgtl1l2_p1 :: "raw_consts \<Rightarrow> gmp \<Rightarrow> limbs \<Rightarrow> limbs \<Rightarrow> bool" where
  "rgtl1l2_p1 P G pRawA pRawB =
     (if rawCmp G (rawHalf P) pRawB < 0 then True else rgtRawL1L2 G pRawA pRawB)"

definition rgtL1L2 :: "raw_consts \<Rightarrow> gmp \<Rightarrow> limbs \<Rightarrow> limbs \<Rightarrow> bool" where
  "rgtL1L2 P G pRawA pRawB =
     (if rawCmp G (rawHalf P) pRawA < 0 then rgtl1l2_n1 P G pRawA pRawB
      else rgtl1l2_p1 P G pRawA pRawB)"

definition rgt_l1nl2n :: "raw_consts \<Rightarrow> gmp \<Rightarrow> ptr \<Rightarrow> ptr \<Rightarrow> store \<Rightarrow> bool" where
  "rgt_l1nl2n P G a b \<sigma> = rgtL1L2 P G (longVal (\<sigma> a)) (longVal (\<sigma> b))"

definition rgt_l1nl2m :: "raw_consts \<Rightarrow> gmp \<Rightarrow> ptr \<Rightarrow> ptr \<Rightarrow> store \<Rightarrow> bool" where
  "rgt_l1nl2m P G a b \<sigma> = (let \<sigma> = F_toNormal P G (Loc B_n) b \<sigma>
    in rgtL1L2 P G (longVal (\<sigma> a)) (longVal (\<sigma> (Loc B_n))))"

definition rgt_l1ml2m :: "raw_consts \<Rightarrow> gmp \<Rightarrow> ptr \<Rightarrow> ptr \<Rightarrow> store \<Rightarrow> bool" where
  "rgt_l1ml2m P G a b \<sigma> = (let \<sigma> = F_toNormal P G (Loc A_n) a \<sigma>;
    \<sigma> = F_toNormal P G (Loc B_n) b \<sigma>
    in rgtL1L2 P G (longVal (\<sigma> (Loc A_n))) (longVal (\<sigma> (Loc B_n))))"

definition rgt_l1ml2n :: "raw_consts \<Rightarrow> gmp \<Rightarrow> ptr \<Rightarrow> ptr \<Rightarrow> store \<Rightarrow> bool" where
  "rgt_l1ml2n P G a b \<sigma> = (let \<sigma> = F_toNormal P G (Loc A_n) a \<sigma>
    in rgtL1L2 P G (longVal (\<sigma> (Loc A_n))) (longVal (\<sigma> b)))"

definition rgt_s1l2n :: "raw_consts \<Rightarrow> gmp \<Rightarrow> ptr \<Rightarrow> ptr \<Rightarrow> store \<Rightarrow> bool" where
  "rgt_s1l2n P G a b \<sigma> = (let \<sigma> = F_toLongNormal P G (Loc A_n) a \<sigma>
    in rgtL1L2 P G (longVal (\<sigma> (Loc A_n))) (longVal (\<sigma> b)))"

definition rgt_l1ms2 :: "raw_consts \<Rightarrow> gmp \<Rightarrow> ptr \<Rightarrow> ptr \<Rightarrow> store \<Rightarrow> bool" where
  "rgt_l1ms2 P G a b \<sigma> = (let \<sigma> = F_toNormal P G (Loc A_n) a \<sigma>;
    \<sigma> = F_toLongNormal P G (Loc B_n) b \<sigma>
    in rgtL1L2 P G (longVal (\<sigma> (Loc A_n))) (longVal (\<sigma> (Loc B_n))))"

definition rgt_s1l2m :: "raw_consts \<Rightarrow> gmp \<Rightarrow> ptr \<Rightarrow> ptr \<Rightarrow> store \<Rightarrow> bool" where
  "rgt_s1l2m P G a b \<sigma> = (let \<sigma> = F_toLongNormal P G (Loc A_n) a \<sigma>;
    \<sigma> = F_toNormal P G (Loc B_n) b \<sigma>
    in rgtL1L2 P G (longVal (\<sigma> (Loc A_n))) (longVal (\<sigma> (Loc B_n))))"

definition rgt_l1ns2 :: "raw_consts \<Rightarrow> gmp \<Rightarrow> ptr \<Rightarrow> ptr \<Rightarrow> store \<Rightarrow> bool" where
  "rgt_l1ns2 P G a b \<sigma> = (let \<sigma> = F_toLongNormal P G (Loc B_n) b \<sigma>
    in rgtL1L2 P G (longVal (\<sigma> a)) (longVal (\<sigma> (Loc B_n))))"

definition F_rgt :: "raw_consts \<Rightarrow> gmp \<Rightarrow> ptr \<Rightarrow> ptr \<Rightarrow> store \<Rightarrow> bool" where
  "F_rgt P G a b \<sigma> =
     (if is_long (\<sigma> a)
      then if is_long (\<sigma> b)
        then if is_mont (\<sigma> a)
          then if is_mont (\<sigma> b) then rgt_l1ml2m P G a b \<sigma> else rgt_l1ml2n P G a b \<sigma>
          else if is_mont (\<sigma> b) then rgt_l1nl2m P G a b \<sigma> else rgt_l1nl2n P G a b \<sigma>
        else if is_mont (\<sigma> a) then rgt_l1ms2 P G a b \<sigma> else rgt_l1ns2 P G a b \<sigma>
      else if is_long (\<sigma> b)
      then if is_mont (\<sigma> b) then rgt_s1l2m P G a b \<sigma> else rgt_s1l2n P G a b \<sigma>
      else rgt_s1s2 (\<sigma> a) (\<sigma> b))"

definition F_gt :: "raw_consts \<Rightarrow> gmp \<Rightarrow> ptr \<Rightarrow> ptr \<Rightarrow> ptr \<Rightarrow> store \<Rightarrow> store" where
  "F_gt P G r a b \<sigma> = (let \<sigma> = set_short r (of_flag (F_rgt P G a b \<sigma>)) \<sigma>;
     \<sigma> = set_type r SHORT \<sigma>
   in \<sigma>)"

definition F_leq :: "raw_consts \<Rightarrow> gmp \<Rightarrow> ptr \<Rightarrow> ptr \<Rightarrow> ptr \<Rightarrow> store \<Rightarrow> store" where
  "F_leq P G r a b \<sigma> = (let \<sigma> = set_short r (of_flag (F_rgt P G a b \<sigma>) XOR 1) \<sigma>;
     \<sigma> = set_type r SHORT \<sigma>
   in \<sigma>)"

subsection \<open>Equality\<close>

text \<open>Mixed forms are compared in Montgomery form, long and short normal ones in normal form.\<close>

definition req_s1s2 :: "element \<Rightarrow> element \<Rightarrow> bool" where
  "req_s1s2 a b \<longleftrightarrow> shortVal a = shortVal b"

definition reqL1L2 :: "gmp \<Rightarrow> limbs \<Rightarrow> limbs \<Rightarrow> bool" where
  "reqL1L2 G pRawA pRawB \<longleftrightarrow> rawCmp G pRawB pRawA = 0"

definition req_l1nl2n :: "raw_consts \<Rightarrow> gmp \<Rightarrow> ptr \<Rightarrow> ptr \<Rightarrow> store \<Rightarrow> bool" where
  "req_l1nl2n P G a b \<sigma> = reqL1L2 G (longVal (\<sigma> a)) (longVal (\<sigma> b))"

definition req_l1nl2m :: "raw_consts \<Rightarrow> gmp \<Rightarrow> ptr \<Rightarrow> ptr \<Rightarrow> store \<Rightarrow> bool" where
  "req_l1nl2m P G a b \<sigma> = (let \<sigma> = F_toMontgomery P G (Loc A_m) a \<sigma>
    in reqL1L2 G (longVal (\<sigma> (Loc A_m))) (longVal (\<sigma> b)))"

definition req_l1ml2m :: "raw_consts \<Rightarrow> gmp \<Rightarrow> ptr \<Rightarrow> ptr \<Rightarrow> store \<Rightarrow> bool" where
  "req_l1ml2m P G a b \<sigma> = reqL1L2 G (longVal (\<sigma> a)) (longVal (\<sigma> b))"

definition req_l1ml2n :: "raw_consts \<Rightarrow> gmp \<Rightarrow> ptr \<Rightarrow> ptr \<Rightarrow> store \<Rightarrow> bool" where
  "req_l1ml2n P G a b \<sigma> = (let \<sigma> = F_toMontgomery P G (Loc B_m) b \<sigma>
    in reqL1L2 G (longVal (\<sigma> a)) (longVal (\<sigma> (Loc B_m))))"

definition req_s1l2n :: "raw_consts \<Rightarrow> gmp \<Rightarrow> ptr \<Rightarrow> ptr \<Rightarrow> store \<Rightarrow> bool" where
  "req_s1l2n P G a b \<sigma> = (let \<sigma> = F_toLongNormal P G (Loc A_n) a \<sigma>
    in reqL1L2 G (longVal (\<sigma> (Loc A_n))) (longVal (\<sigma> b)))"

definition req_l1ms2 :: "raw_consts \<Rightarrow> gmp \<Rightarrow> ptr \<Rightarrow> ptr \<Rightarrow> store \<Rightarrow> bool" where
  "req_l1ms2 P G a b \<sigma> = (let \<sigma> = F_toMontgomery P G (Loc B_m) b \<sigma>
    in reqL1L2 G (longVal (\<sigma> a)) (longVal (\<sigma> (Loc B_m))))"

definition req_s1l2m :: "raw_consts \<Rightarrow> gmp \<Rightarrow> ptr \<Rightarrow> ptr \<Rightarrow> store \<Rightarrow> bool" where
  "req_s1l2m P G a b \<sigma> = (let \<sigma> = F_toMontgomery P G (Loc A_m) a \<sigma>
    in reqL1L2 G (longVal (\<sigma> (Loc A_m))) (longVal (\<sigma> b)))"

definition req_l1ns2 :: "raw_consts \<Rightarrow> gmp \<Rightarrow> ptr \<Rightarrow> ptr \<Rightarrow> store \<Rightarrow> bool" where
  "req_l1ns2 P G a b \<sigma> = (let \<sigma> = F_toLongNormal P G (Loc B_n) b \<sigma>
    in reqL1L2 G (longVal (\<sigma> a)) (longVal (\<sigma> (Loc B_n))))"

definition F_req :: "raw_consts \<Rightarrow> gmp \<Rightarrow> ptr \<Rightarrow> ptr \<Rightarrow> store \<Rightarrow> bool" where
  "F_req P G a b \<sigma> =
     (if is_long (\<sigma> a)
      then if is_long (\<sigma> b)
        then if is_mont (\<sigma> a)
          then if is_mont (\<sigma> b) then req_l1ml2m P G a b \<sigma> else req_l1ml2n P G a b \<sigma>
          else if is_mont (\<sigma> b) then req_l1nl2m P G a b \<sigma> else req_l1nl2n P G a b \<sigma>
        else if is_mont (\<sigma> a) then req_l1ms2 P G a b \<sigma> else req_l1ns2 P G a b \<sigma>
      else if is_long (\<sigma> b)
      then if is_mont (\<sigma> b) then req_s1l2m P G a b \<sigma> else req_s1l2n P G a b \<sigma>
      else req_s1s2 (\<sigma> a) (\<sigma> b))"

definition F_eq :: "raw_consts \<Rightarrow> gmp \<Rightarrow> ptr \<Rightarrow> ptr \<Rightarrow> ptr \<Rightarrow> store \<Rightarrow> store" where
  "F_eq P G r a b \<sigma> = (let \<sigma> = set_short r (of_flag (F_req P G a b \<sigma>)) \<sigma>;
     \<sigma> = set_type r SHORT \<sigma>
   in \<sigma>)"

definition F_neq :: "raw_consts \<Rightarrow> gmp \<Rightarrow> ptr \<Rightarrow> ptr \<Rightarrow> ptr \<Rightarrow> store \<Rightarrow> store" where
  "F_neq P G r a b \<sigma> = (let \<sigma> = set_short r (of_flag (F_req P G a b \<sigma>) XOR 1) \<sigma>;
     \<sigma> = set_type r SHORT \<sigma>
   in \<sigma>)"

end
