(* ===== verification/Element_Compare_Laws.thy ===== *)
theory Element_Compare_Laws
  imports Element_Arith_Laws Element_Compare
begin

section \<open>Tagged elements: comparisons agree with the signed order of the field\<close>

text \<open>
  \<open>signed_rep q v\<close> is the representative of the class \<open>v\<close> between \<open>- q div 2\<close> and \<open>q div 2\<close>. The
  relational operators compare these representatives, whatever the two tags; equality is equality
  of the elements stood for; \<open>Fr_toInt\<close> returns the representative when it has 32 bits.
\<close>

definition signed_rep :: "nat \<Rightarrow> int \<Rightarrow> int" where
  "signed_rep q v = (if int (q div 2) < v then v - int q else v)"

text \<open>What an operation that stores a flag leaves in its result.\<close>

definition flag_is :: "element \<Rightarrow> bool \<Rightarrow> bool" where
  "flag_is e c \<longleftrightarrow> type e = SHORT \<and> shortVal e = of_flag c"

lemma flag_is_ok: "flag_is e c \<Longrightarrow> elem_is q e (if c then 1 else 0)"
  by (rule elem_is_short) (auto simp: flag_is_def of_flag_def)

text \<open>The difference of the low limbs of \<open>l\<close> and \<open>q\<close>, as \<open>Fr_longNeg\<close> computes it.\<close>

definition low_difference :: "nat \<Rightarrow> limbs \<Rightarrow> int" where
  "low_difference q l = sint (word_of_int (int (lval l) - int q) :: s64)"

context raw_field begin

lemma q_div_2: "2 * (q div 2) + 1 = q"
  using q_odd by simp

lemma q_large: "8589934592 < Z"
proof -
  have "(2 :: nat) ^ 33 < 2 ^ 253" by (rule power_strict_increasing) simp_all
  with q_low have "2 ^ 33 < q" by (rule less_trans [rotated])
  then have "int (2 ^ 33) < Z" by (simp only: of_nat_less_iff)
  then show ?thesis by simp
qed

lemma signed_rep_short:
  "signed_rep q (sint (x :: s32) mod Z) = sint x"
proof -
  have x: "- 2147483648 \<le> sint x" "sint x \<le> 2147483647" by (rule sint_s32_bounds)+
  have half: "int (q div 2) * 2 + 1 = Z" using q_div_2 by (metis mult.commute of_nat_1 of_nat_add of_nat_mult of_nat_numeral)
  show ?thesis
  proof (cases "sint x < 0")
    case True
    have "sint x mod Z = sint x + Z"
      using mod_add_self2 [of "sint x" Z] mod_pos_pos_trivial [of "sint x + Z" Z] True x q_large by linarith
    then show ?thesis using True x half q_large by (simp add: signed_rep_def)
  next
    case False
    then have "sint x mod Z = sint x" using x q_large by (intro mod_pos_pos_trivial) linarith+
    then show ?thesis using False x half q_large by (simp add: signed_rep_def)
  qed
qed

subsection \<open>Less than and greater than\<close>

lemma half_less: "length a = 4 \<Longrightarrow> rawCmp G (rawHalf P) a < 0 \<longleftrightarrow> int (q div 2) < lv a"
  by (simp add: rawCmp_less length_half lval_half)

lemma rltL1L2_correct:
  assumes "reduced q a" and "reduced q b"
  shows "rltL1L2 P G a b \<longleftrightarrow> signed_rep q (lv a) < signed_rep q (lv b)"
  using assms reduced_lt [OF assms(1)] reduced_lt [OF assms(2)]
  by (simp add: rltL1L2_def rltl1l2_n1_def rltl1l2_p1_def rltRawL1L2_def reduced_length half_less
      rawCmp_greater signed_rep_def)

lemma rgtL1L2_correct:
  assumes "reduced q a" and "reduced q b"
  shows "rgtL1L2 P G a b \<longleftrightarrow> signed_rep q (lv b) < signed_rep q (lv a)"
  using assms reduced_lt [OF assms(1)] reduced_lt [OF assms(2)]
  by (simp add: rgtL1L2_def rgtl1l2_n1_def rgtl1l2_p1_def rgtRawL1L2_def reduced_length half_less
      rawCmp_less signed_rep_def)

lemma short_less:
  assumes "\<not> is_long a" "\<not> is_long b" "elem_ok q a" "elem_ok q b"
  shows "sint (shortVal a) < sint (shortVal b) \<longleftrightarrow> signed_rep q (elem_val q a) < signed_rep q (elem_val q b)"
proof -
  have "elem_val q a = sint (shortVal a) mod Z" "elem_val q b = sint (shortVal b) mod Z"
    using assms by (auto elim!: elem_cases)
  then show ?thesis by (simp add: signed_rep_short)
qed

text \<open>The long value that each comparison function computes of an argument.\<close>

lemma long_normal_val: "type e = LONG \<Longrightarrow> elem_val q e = lv (longVal e)"
  by (simp add: elem_val_def)

lemma tag_long_iff: "elem_ok q e \<Longrightarrow> is_long e \<Longrightarrow> \<not> is_mont e \<Longrightarrow> type e = LONG \<and> reduced q (longVal e)"
  by (auto elim!: elem_cases)

theorem F_rlt_correct:
  assumes a: "elem_ok q (\<sigma> a)" and b: "elem_ok q (\<sigma> b)" and objs: "{a, b} \<subseteq> range Obj"
  shows "F_rlt P G a b \<sigma> \<longleftrightarrow> signed_rep q (elem_val q (\<sigma> a)) < signed_rep q (elem_val q (\<sigma> b))"
proof -
  have loc: "a \<noteq> Loc x" "b \<noteq> Loc x" for x using objs by auto
  note ops = F_rlt_def rlt_l1nl2n_def rlt_l1nl2m_def rlt_l1ml2m_def rlt_l1ml2n_def rlt_s1l2n_def
    rlt_l1ms2_def rlt_s1l2m_def rlt_l1ns2_def rlt_s1s2_def Let_def rltL1L2_correct loc a b
    toNormal_long toLongNormal_long
  from a show ?thesis
  proof (cases rule: elem_cases)
    case A: short
    from b show ?thesis by (cases rule: elem_cases) (simp_all add: A ops signed_rep_short)
  next
    case A: short_mont
    from b show ?thesis by (cases rule: elem_cases) (simp_all add: A(1,3) ops signed_rep_short)
  next
    case A: long
    from b show ?thesis by (cases rule: elem_cases) (simp_all add: A ops)
  next
    case A: long_mont
    from b show ?thesis by (cases rule: elem_cases) (simp_all add: A ops)
  qed
qed

theorem F_rgt_correct:
  assumes a: "elem_ok q (\<sigma> a)" and b: "elem_ok q (\<sigma> b)" and objs: "{a, b} \<subseteq> range Obj"
  shows "F_rgt P G a b \<sigma> \<longleftrightarrow> signed_rep q (elem_val q (\<sigma> b)) < signed_rep q (elem_val q (\<sigma> a))"
proof -
  have loc: "a \<noteq> Loc x" "b \<noteq> Loc x" for x using objs by auto
  note ops = F_rgt_def rgt_l1nl2n_def rgt_l1nl2m_def rgt_l1ml2m_def rgt_l1ml2n_def rgt_s1l2n_def
    rgt_l1ms2_def rgt_s1l2m_def rgt_l1ns2_def rgt_s1s2_def Let_def rgtL1L2_correct loc a b
    toNormal_long toLongNormal_long
  from a show ?thesis
  proof (cases rule: elem_cases)
    case A: short
    from b show ?thesis by (cases rule: elem_cases) (simp_all add: A ops signed_rep_short)
  next
    case A: short_mont
    from b show ?thesis by (cases rule: elem_cases) (simp_all add: A(1,3) ops signed_rep_short)
  next
    case A: long
    from b show ?thesis by (cases rule: elem_cases) (simp_all add: A ops)
  next
    case A: long_mont
    from b show ?thesis by (cases rule: elem_cases) (simp_all add: A ops)
  qed
qed

subsection \<open>Equality\<close>

lemma reqL1L2_lv: "reduced q a \<Longrightarrow> reduced q b \<Longrightarrow> reqL1L2 G a b \<longleftrightarrow> lv a = lv b"
  by (auto simp: reqL1L2_def rawCmp_eq reduced_length reduced_eq_iff)

lemma reqL1L2_mv: "reduced q a \<Longrightarrow> reduced q b \<Longrightarrow> reqL1L2 G a b \<longleftrightarrow> mv a = mv b"
  by (auto simp: reqL1L2_def rawCmp_eq reduced_length mval_inj)

lemma short_eq:
  assumes "\<not> is_long a" "\<not> is_long b" "elem_ok q a" "elem_ok q b"
  shows "shortVal a = shortVal b \<longleftrightarrow> elem_val q a = elem_val q b"
proof -
  have v: "elem_val q a = sint (shortVal a) mod Z" "elem_val q b = sint (shortVal b) mod Z"
    using assms by (auto elim!: elem_cases)
  show ?thesis
  proof
    assume "elem_val q a = elem_val q b"
    then have "sint (shortVal a) = sint (shortVal b)" unfolding v by (metis signed_rep_short)
    then show "shortVal a = shortVal b" by (rule signed_word_eqI)
  qed (simp add: v)
qed

lemma mont_val: "is_mont e \<Longrightarrow> elem_val q e = mv (longVal e)"
  by (simp add: elem_val_def)

lemma mont_reduced: "elem_ok q e \<Longrightarrow> is_mont e \<Longrightarrow> reduced q (longVal e)"
  by (auto elim!: elem_cases)

theorem F_req_correct:
  assumes a: "elem_ok q (\<sigma> a)" and b: "elem_ok q (\<sigma> b)" and objs: "{a, b} \<subseteq> range Obj"
  shows "F_req P G a b \<sigma> \<longleftrightarrow> elem_val q (\<sigma> a) = elem_val q (\<sigma> b)"
proof -
  have loc: "a \<noteq> Loc x" "b \<noteq> Loc x" for x using objs by auto
  note defs = F_req_def req_l1nl2n_def req_l1nl2m_def req_l1ml2m_def req_l1ml2n_def req_s1l2n_def
    req_l1ms2_def req_s1l2m_def req_l1ns2_def req_s1s2_def Let_def loc a b
  note long = reqL1L2_lv toLongNormal_long and mont = reqL1L2_mv toMontgomery_long
  from a show ?thesis
  proof (cases rule: elem_cases)
    case A: short
    from b show ?thesis
    proof (cases rule: elem_cases)
      case long_mont
      then show ?thesis by (simp add: A(1) defs mont)
    qed (simp_all add: A(1) defs long short_eq)
  next
    case A: short_mont
    from b show ?thesis
    proof (cases rule: elem_cases)
      case long_mont
      then show ?thesis by (simp add: A(1) defs mont)
    qed (simp_all add: A(1) defs long short_eq)
  next
    case A: long
    from b show ?thesis
    proof (cases rule: elem_cases)
      case long_mont
      then show ?thesis by (simp add: A defs mont)
    next
      case B: short_mont
      show ?thesis using B(1) by (simp add: A defs long)
    qed (simp_all add: A defs long)
  next
    case A: long_mont
    from b show ?thesis by (cases rule: elem_cases) (simp_all add: A defs mont)
  qed
qed

subsection \<open>Truth values and flags\<close>

lemma long_zero_iff:
  assumes "elem_ok q e" and "is_long e"
  shows "rawIsZero G (longVal e) \<longleftrightarrow> elem_val q e = 0"
  using assms(1)
proof (cases rule: elem_cases)
  case long_mont
  have "mval q (longVal e) = mval q [0, 0, 0, 0] \<longleftrightarrow> longVal e = [0, 0, 0, 0]"
    using long_mont(2) by (intro mval_inj) (simp_all add: reduced_def)
  moreover have "lval (longVal e) = lval [0, 0, 0, 0] \<longleftrightarrow> longVal e = [0, 0, 0, 0]"
    using long_mont(2) by (intro lval_inj) (simp add: reduced_def)
  ultimately show ?thesis using long_mont by (simp add: rawIsZero_correct mval_def)
qed (use assms(2) in \<open>simp_all add: rawIsZero_correct\<close>)

lemma short_zero_iff:
  assumes "elem_ok q e" and "\<not> is_long e"
  shows "shortVal e = 0 \<longleftrightarrow> elem_val q e = 0"
proof -
  have "elem_val q e = sint (shortVal e) mod Z" using assms by (auto elim!: elem_cases)
  then show ?thesis using signed_rep_short [of "shortVal e"] signed_rep_short [of 0]
    by (metis mod_0 sint_0 signed_word_eqI)
qed

theorem F_isTrue_correct:
  assumes "elem_ok q e"
  shows "F_isTrue G e \<longleftrightarrow> elem_val q e \<noteq> 0"
  using long_zero_iff [OF assms] short_zero_iff [OF assms] by (simp add: F_isTrue_def)

theorem F_logic_correct:
  assumes "elem_ok q (\<sigma> a)" and "elem_ok q (\<sigma> b)"
  shows "flag_is (F_land G r a b \<sigma> r) (elem_val q (\<sigma> a) \<noteq> 0 \<and> elem_val q (\<sigma> b) \<noteq> 0)"
    and "flag_is (F_lor G r a b \<sigma> r) (elem_val q (\<sigma> a) \<noteq> 0 \<or> elem_val q (\<sigma> b) \<noteq> 0)"
    and "flag_is (F_lnot G r a \<sigma> r) (elem_val q (\<sigma> a) = 0)"
  using assms
  by (simp_all add: F_land_def F_lor_def F_lnot_def Let_def flag_is_def of_flag_def long_zero_iff
      short_zero_iff)

theorem F_relations_correct:
  assumes "elem_ok q (\<sigma> a)" and "elem_ok q (\<sigma> b)" and "{a, b} \<subseteq> range Obj"
  shows "flag_is (F_lt P G r a b \<sigma> r) (signed_rep q (elem_val q (\<sigma> a)) < signed_rep q (elem_val q (\<sigma> b)))"
    and "flag_is (F_geq P G r a b \<sigma> r) (signed_rep q (elem_val q (\<sigma> b)) \<le> signed_rep q (elem_val q (\<sigma> a)))"
    and "flag_is (F_gt P G r a b \<sigma> r) (signed_rep q (elem_val q (\<sigma> b)) < signed_rep q (elem_val q (\<sigma> a)))"
    and "flag_is (F_leq P G r a b \<sigma> r) (signed_rep q (elem_val q (\<sigma> a)) \<le> signed_rep q (elem_val q (\<sigma> b)))"
    and "flag_is (F_eq P G r a b \<sigma> r) (elem_val q (\<sigma> a) = elem_val q (\<sigma> b))"
    and "flag_is (F_neq P G r a b \<sigma> r) (elem_val q (\<sigma> a) \<noteq> elem_val q (\<sigma> b))"
  by (simp_all add: F_lt_def F_geq_def F_gt_def F_leq_def F_eq_def F_neq_def Let_def flag_is_def
      of_flag_def F_rlt_correct [OF assms] F_rgt_correct [OF assms] F_req_correct [OF assms] not_less)

lemma F_flags_other:
  assumes "p \<noteq> r"
  shows "F_lt P G r a b \<sigma> p = \<sigma> p" "F_geq P G r a b \<sigma> p = \<sigma> p" "F_gt P G r a b \<sigma> p = \<sigma> p"
    "F_leq P G r a b \<sigma> p = \<sigma> p" "F_eq P G r a b \<sigma> p = \<sigma> p" "F_neq P G r a b \<sigma> p = \<sigma> p"
    "F_land G r a b \<sigma> p = \<sigma> p" "F_lor G r a b \<sigma> p = \<sigma> p" "F_lnot G r a \<sigma> p = \<sigma> p"
  using assms
  by (simp_all add: F_lt_def F_geq_def F_gt_def F_leq_def F_eq_def F_neq_def F_land_def F_lor_def
      F_lnot_def Let_def)

subsection \<open>Conversion to a machine integer\<close>

lemma first_limb: "xs \<noteq> [] \<Longrightarrow> xs ! 0 = word_of_nat (lval xs)"
  using limbs_of_lval [OF refl, of xs] by (cases xs) (simp_all add: limb_base_word_zero)

lemma first_below: "x + limb_base * y < 2147483648 \<longleftrightarrow> x < 2147483648 \<and> y = 0" for x y :: nat
  by (cases y) auto

lemma small_limbs:
  assumes "length l = 4"
  shows "lval l < 2147483648 \<longleftrightarrow>
    drop_bit 31 (l ! 0) = 0 \<and> \<not> (l ! 1 \<noteq> 0 \<or> l ! 2 \<noteq> 0 \<or> l ! 3 \<noteq> 0)"
proof -
  obtain a b c d where l: "l = [a, b, c, d]" using assms by (rule length4E)
  have "unat (drop_bit 31 a) = unat a div 2147483648"
    unfolding unat_drop_bit_eq by (simp add: drop_bit_eq_div)
  then have "drop_bit 31 a = 0 \<longleftrightarrow> unat a div 2147483648 = 0"
    unfolding unat_eq_0 [of "drop_bit 31 a", symmetric] by (rule arg_cong)
  then have a: "drop_bit 31 a = 0 \<longleftrightarrow> unat a < 2147483648" by (simp add: div_eq_0_iff)
  have "unat a + limb_base * (unat b + limb_base * (unat c + limb_base * unat d)) < 2147483648
      \<longleftrightarrow> unat a < 2147483648 \<and> unat b = 0 \<and> unat c = 0 \<and> unat d = 0"
    unfolding first_below by simp
  then show ?thesis unfolding l by (simp add: a unat_eq_0) blast
qed

text \<open>The three outcomes: the value, a negative value read off the low limb, the error.\<close>

theorem F_longNormal_correct:
  assumes "reduced q (longVal e)"
  shows "F_longNormal P G ndebug e =
    (if lval (longVal e) < 2147483648 then Inr (lv (longVal e))
     else if - 2147483648 \<le> low_difference q (longVal e) \<and> low_difference q (longVal e) < 0
     then Inr (low_difference q (longVal e))
     else err_return0 ndebug)"
proof -
  let ?l = "longVal e"
  have len: "length ?l = 4" using assms by (rule reduced_length)
  have ne: "?l \<noteq> []" "rawq P \<noteq> []" using len length_rawq by (auto simp del: length_rawq)
  have d: "sint (?l ! 0 - rawq P ! 0) = low_difference q ?l"
    by (simp add: low_difference_def first_limb ne)
  have neg: "F_longNeg P G ndebug e = (if - 2147483648 \<le> low_difference q ?l \<and> low_difference q ?l < 0
     then Inr (low_difference q ?l) else err_return0 ndebug)"
  proof -
    have c: "\<not> 0 \<le> rawCmp G ?l (q4 P)"
      using rawCmp_less [OF len length_q4] reduced_lt [OF assms] by simp
    have "drop_bit 31 (low_difference q ?l) + 1 \<noteq> 0
        \<longleftrightarrow> \<not> (- 2147483648 \<le> low_difference q ?l \<and> low_difference q ?l < 0)"
      unfolding drop_bit_eq_div by simp linarith
    then show ?thesis using c by (simp add: F_longNeg_def d Let_def sint_to_s32)
  qed
  have small: "Inr (sint (to_s32 (uint (?l ! 0)))) = Inr (lv ?l)" if "lval ?l < 2147483648"
    using that by (simp add: first_limb ne unat_of_nat uint_nat sint_to_s32)
  show ?thesis using small_limbs [OF len] small by (auto simp: F_longNormal_def neg Let_def)
qed

lemma low_difference_small:
  assumes "reduced q l" and "q \<le> lval l + 2147483648"
  shows "low_difference q l = lv l - Z"
proof -
  have "- 2147483648 \<le> lv l - Z" "lv l - Z < 0"
    using assms(2) reduced_lt [OF assms(1)] by linarith+
  then show ?thesis
    using sint_to_s64 [of "lv l - Z"] by (simp add: low_difference_def to_s64_def)
qed

theorem F_toInt_correct:
  assumes ok: "elem_ok q (\<sigma> p)"
    and range: "- 2147483648 \<le> signed_rep q (elem_val q (\<sigma> p))"
      "signed_rep q (elem_val q (\<sigma> p)) < 2147483648"
  shows "F_toInt P G ndebug p \<sigma> = Inr (signed_rep q (elem_val q (\<sigma> p)))"
proof -
  have long: "F_longNormal P G ndebug e = Inr (signed_rep q (elem_val q (\<sigma> p)))"
    if e: "reduced q (longVal e)" "lv (longVal e) = elem_val q (\<sigma> p)" for e
  proof (cases "lval (longVal e) < 2147483648")
    case True
    have "int (q div 2) * 2 + 1 = Z" using q_div_2 by (metis mult.commute of_nat_1 of_nat_add of_nat_mult of_nat_numeral)
    then show ?thesis using True e q_large by (simp add: F_longNormal_correct signed_rep_def flip: e(2))
  next
    case False
    have "signed_rep q (elem_val q (\<sigma> p)) = lv (longVal e) - Z"
      using False range e(2) by (auto simp: signed_rep_def split: if_splits)
    moreover from this have "q \<le> lval (longVal e) + 2147483648" using range by linarith
    ultimately show ?thesis
      using False e(1) range low_difference_small [OF e(1)] reduced_lt [OF e(1)]
      by (simp add: F_longNormal_correct)
  qed
  from ok show ?thesis
  proof (cases rule: elem_cases)
    case A: long_mont
    then show ?thesis using long [OF toNormal_long(2,3) [of \<sigma> p "Loc E_n"]] ok
      by (simp add: F_toInt_def Let_def)
  qed (use long in \<open>simp_all add: F_toInt_def signed_rep_short\<close>)
qed

theorem F_toInt_bounds:
  assumes "elem_ok q (\<sigma> p)" and "F_toInt P G ndebug p \<sigma> = Inr v"
  shows "- 2147483648 \<le> v \<and> v < 2147483648"
proof -
  have long: "- 2147483648 \<le> v \<and> v < 2147483648"
    if "reduced q (longVal e)" "F_longNormal P G ndebug e = Inr v" for e
    using that by (auto simp: F_longNormal_correct err_return0_def F_longErr_def F_fail_def split: if_splits)
  from assms(1) show ?thesis
  proof (cases rule: elem_cases)
    case long_mont
    then show ?thesis using assms long [OF toNormal_long(2) [of \<sigma> p "Loc E_n"]]
      by (simp add: F_toInt_def Let_def)
  qed (use assms(2) long s32_le in \<open>auto simp: F_toInt_def intro: le_less_trans [OF sint_s32_bounds(2)] sint_s32_bounds\<close>)
qed

end

end
