(* ===== verification/Element_Bits.thy ===== *)
theory Element_Bits
  imports Element_Arith
begin

section \<open>Tagged elements: bitwise operations and shifts\<close>

text \<open>
  The last part of \<open>fr_generic.cpp\<close>. The functions for and, or and xor are the same text with
  another raw function and another operator on short values, so their bodies are definitions with
  these two as arguments (\<open>bit_l1nl2m\<close>, ...), of which \<open>and_l1nl2m\<close>, \<open>or_l1nl2m\<close>, ... are instances.
\<close>

subsection \<open>And, or, xor\<close>

text \<open>\<open>{0, 0, {(uint64_t)a->shortVal, 0, 0, 0}}\<close>\<close>

definition short_literal :: "element \<Rightarrow> element" where
  "short_literal a = \<lparr>shortVal = 0, type = 0, longVal = [to_s64 (sint (shortVal a)), 0, 0, 0]\<rparr>"

type_synonym raw_op = "limbs \<Rightarrow> limbs \<Rightarrow> limbs"
type_synonym short_op = "s32 \<Rightarrow> s32 \<Rightarrow> s32"

definition bit_s1s2 :: "raw_op \<Rightarrow> short_op \<Rightarrow> raw_consts \<Rightarrow> gmp \<Rightarrow> ptr \<Rightarrow> ptr \<Rightarrow> ptr \<Rightarrow> store \<Rightarrow> store" where
  "bit_s1s2 rop sop P G r a b \<sigma> =
     (if 0 \<le> sint (shortVal (\<sigma> a)) \<and> 0 \<le> sint (shortVal (\<sigma> b))
      then let \<sigma> = set_short r (sop (shortVal (\<sigma> a)) (shortVal (\<sigma> b))) \<sigma>;
               \<sigma> = set_type r SHORT \<sigma>
           in \<sigma>
      else let \<sigma> = set_type r LONG \<sigma>;
               \<sigma> = F_toLongNormal P G (Loc A_n) a \<sigma>;
               \<sigma> = F_toLongNormal P G (Loc B_n) b \<sigma>;
               \<sigma> = set_long r (rop (longVal (\<sigma> (Loc A_n))) (longVal (\<sigma> (Loc B_n)))) \<sigma>
           in \<sigma>)"

definition bit_l1nl2n :: "raw_op \<Rightarrow> raw_consts \<Rightarrow> gmp \<Rightarrow> ptr \<Rightarrow> ptr \<Rightarrow> ptr \<Rightarrow> store \<Rightarrow> store" where
  "bit_l1nl2n rop P G r a b \<sigma> = (let \<sigma> = set_type r LONG \<sigma>;
    \<sigma> = set_long r (rop (longVal (\<sigma> a)) (longVal (\<sigma> b))) \<sigma>
    in \<sigma>)"

definition bit_l1nl2m :: "raw_op \<Rightarrow> raw_consts \<Rightarrow> gmp \<Rightarrow> ptr \<Rightarrow> ptr \<Rightarrow> ptr \<Rightarrow> store \<Rightarrow> store" where
  "bit_l1nl2m rop P G r a b \<sigma> = (let \<sigma> = set_type r LONG \<sigma>;
    \<sigma> = F_toNormal P G (Loc B_n) b \<sigma>;
    \<sigma> = set_long r (rop (longVal (\<sigma> a)) (longVal (\<sigma> (Loc B_n)))) \<sigma>
    in \<sigma>)"

definition bit_l1ml2m :: "raw_op \<Rightarrow> raw_consts \<Rightarrow> gmp \<Rightarrow> ptr \<Rightarrow> ptr \<Rightarrow> ptr \<Rightarrow> store \<Rightarrow> store" where
  "bit_l1ml2m rop P G r a b \<sigma> = (let \<sigma> = set_type r LONG \<sigma>;
    \<sigma> = F_toNormal P G (Loc A_n) a \<sigma>;
    \<sigma> = F_toNormal P G (Loc B_n) b \<sigma>;
    \<sigma> = set_long r (rop (longVal (\<sigma> (Loc A_n))) (longVal (\<sigma> (Loc B_n)))) \<sigma>
    in \<sigma>)"

definition bit_l1ml2n :: "raw_op \<Rightarrow> raw_consts \<Rightarrow> gmp \<Rightarrow> ptr \<Rightarrow> ptr \<Rightarrow> ptr \<Rightarrow> store \<Rightarrow> store" where
  "bit_l1ml2n rop P G r a b \<sigma> = (let \<sigma> = set_type r LONG \<sigma>;
    \<sigma> = F_toNormal P G (Loc A_n) a \<sigma>;
    \<sigma> = set_long r (rop (longVal (\<sigma> (Loc A_n))) (longVal (\<sigma> b))) \<sigma>
    in \<sigma>)"

definition bit_s1l2n :: "raw_op \<Rightarrow> raw_consts \<Rightarrow> gmp \<Rightarrow> ptr \<Rightarrow> ptr \<Rightarrow> ptr \<Rightarrow> store \<Rightarrow> store" where
  "bit_s1l2n rop P G r a b \<sigma> = (let \<sigma> = set_type r LONG \<sigma>;
    \<sigma> = (if 0 \<le> sint (shortVal (\<sigma> a)) then \<sigma>(Loc A_n := short_literal (\<sigma> a))
      else F_toLongNormal P G (Loc A_n) a \<sigma>);
    \<sigma> = set_long r (rop (longVal (\<sigma> (Loc A_n))) (longVal (\<sigma> b))) \<sigma>
    in \<sigma>)"

definition bit_l1ms2 :: "raw_op \<Rightarrow> raw_consts \<Rightarrow> gmp \<Rightarrow> ptr \<Rightarrow> ptr \<Rightarrow> ptr \<Rightarrow> store \<Rightarrow> store" where
  "bit_l1ms2 rop P G r a b \<sigma> = (let \<sigma> = set_type r LONG \<sigma>;
    \<sigma> = F_toNormal P G (Loc A_n) a \<sigma>;
    \<sigma> = (if 0 \<le> sint (shortVal (\<sigma> b)) then \<sigma>(Loc B_n := short_literal (\<sigma> b))
      else F_toLongNormal P G (Loc B_n) b \<sigma>);
    \<sigma> = set_long r (rop (longVal (\<sigma> (Loc B_n))) (longVal (\<sigma> (Loc A_n)))) \<sigma>
    in \<sigma>)"

definition bit_s1l2m :: "raw_op \<Rightarrow> raw_consts \<Rightarrow> gmp \<Rightarrow> ptr \<Rightarrow> ptr \<Rightarrow> ptr \<Rightarrow> store \<Rightarrow> store" where
  "bit_s1l2m rop P G r a b \<sigma> = (let \<sigma> = set_type r LONG \<sigma>;
    \<sigma> = F_toNormal P G (Loc B_n) b \<sigma>;
    \<sigma> = (if 0 \<le> sint (shortVal (\<sigma> a)) then \<sigma>(Loc A_n := short_literal (\<sigma> a))
      else F_toLongNormal P G (Loc A_n) a \<sigma>);
    \<sigma> = set_long r (rop (longVal (\<sigma> (Loc A_n))) (longVal (\<sigma> (Loc B_n)))) \<sigma>
    in \<sigma>)"

definition bit_l1ns2 :: "raw_op \<Rightarrow> raw_consts \<Rightarrow> gmp \<Rightarrow> ptr \<Rightarrow> ptr \<Rightarrow> ptr \<Rightarrow> store \<Rightarrow> store" where
  "bit_l1ns2 rop P G r a b \<sigma> = (let \<sigma> = set_type r LONG \<sigma>;
    \<sigma> = (if 0 \<le> sint (shortVal (\<sigma> b)) then \<sigma>(Loc B_n := short_literal (\<sigma> b))
      else F_toLongNormal P G (Loc B_n) b \<sigma>);
    \<sigma> = set_long r (rop (longVal (\<sigma> a)) (longVal (\<sigma> (Loc B_n)))) \<sigma>
    in \<sigma>)"

definition bit_dispatch :: "raw_op \<Rightarrow> short_op \<Rightarrow> raw_consts \<Rightarrow> gmp \<Rightarrow> ptr \<Rightarrow> ptr \<Rightarrow> ptr \<Rightarrow> store \<Rightarrow> store" where
  "bit_dispatch rop sop P G r a b \<sigma> =
     (if is_long (\<sigma> a)
      then if is_long (\<sigma> b)
        then if is_mont (\<sigma> a)
          then if is_mont (\<sigma> b) then bit_l1ml2m rop P G r a b \<sigma> else bit_l1ml2n rop P G r a b \<sigma>
          else if is_mont (\<sigma> b) then bit_l1nl2m rop P G r a b \<sigma> else bit_l1nl2n rop P G r a b \<sigma>
        else if is_mont (\<sigma> a) then bit_l1ms2 rop P G r a b \<sigma> else bit_l1ns2 rop P G r a b \<sigma>
      else if is_long (\<sigma> b)
      then if is_mont (\<sigma> b) then bit_s1l2m rop P G r a b \<sigma> else bit_s1l2n rop P G r a b \<sigma>
      else bit_s1s2 rop sop P G r a b \<sigma>)"

definition and_s1s2 :: "raw_consts \<Rightarrow> gmp \<Rightarrow> ptr \<Rightarrow> ptr \<Rightarrow> ptr \<Rightarrow> store \<Rightarrow> store" where
  "and_s1s2 P G = bit_s1s2 (rawAnd P G) (AND) P G"

definition and_l1nl2n :: "raw_consts \<Rightarrow> gmp \<Rightarrow> ptr \<Rightarrow> ptr \<Rightarrow> ptr \<Rightarrow> store \<Rightarrow> store" where
  "and_l1nl2n P G = bit_l1nl2n (rawAnd P G) P G"

definition and_l1nl2m :: "raw_consts \<Rightarrow> gmp \<Rightarrow> ptr \<Rightarrow> ptr \<Rightarrow> ptr \<Rightarrow> store \<Rightarrow> store" where
  "and_l1nl2m P G = bit_l1nl2m (rawAnd P G) P G"

definition and_l1ml2m :: "raw_consts \<Rightarrow> gmp \<Rightarrow> ptr \<Rightarrow> ptr \<Rightarrow> ptr \<Rightarrow> store \<Rightarrow> store" where
  "and_l1ml2m P G = bit_l1ml2m (rawAnd P G) P G"

definition and_l1ml2n :: "raw_consts \<Rightarrow> gmp \<Rightarrow> ptr \<Rightarrow> ptr \<Rightarrow> ptr \<Rightarrow> store \<Rightarrow> store" where
  "and_l1ml2n P G = bit_l1ml2n (rawAnd P G) P G"

definition and_s1l2n :: "raw_consts \<Rightarrow> gmp \<Rightarrow> ptr \<Rightarrow> ptr \<Rightarrow> ptr \<Rightarrow> store \<Rightarrow> store" where
  "and_s1l2n P G = bit_s1l2n (rawAnd P G) P G"

definition and_l1ms2 :: "raw_consts \<Rightarrow> gmp \<Rightarrow> ptr \<Rightarrow> ptr \<Rightarrow> ptr \<Rightarrow> store \<Rightarrow> store" where
  "and_l1ms2 P G = bit_l1ms2 (rawAnd P G) P G"

definition and_s1l2m :: "raw_consts \<Rightarrow> gmp \<Rightarrow> ptr \<Rightarrow> ptr \<Rightarrow> ptr \<Rightarrow> store \<Rightarrow> store" where
  "and_s1l2m P G = bit_s1l2m (rawAnd P G) P G"

definition and_l1ns2 :: "raw_consts \<Rightarrow> gmp \<Rightarrow> ptr \<Rightarrow> ptr \<Rightarrow> ptr \<Rightarrow> store \<Rightarrow> store" where
  "and_l1ns2 P G = bit_l1ns2 (rawAnd P G) P G"

definition F_band :: "raw_consts \<Rightarrow> gmp \<Rightarrow> ptr \<Rightarrow> ptr \<Rightarrow> ptr \<Rightarrow> store \<Rightarrow> store" where
  "F_band P G r a b \<sigma> =
     (if is_long (\<sigma> a)
      then if is_long (\<sigma> b)
        then if is_mont (\<sigma> a)
          then if is_mont (\<sigma> b) then and_l1ml2m P G r a b \<sigma> else and_l1ml2n P G r a b \<sigma>
          else if is_mont (\<sigma> b) then and_l1nl2m P G r a b \<sigma> else and_l1nl2n P G r a b \<sigma>
        else if is_mont (\<sigma> a) then and_l1ms2 P G r a b \<sigma> else and_l1ns2 P G r a b \<sigma>
      else if is_long (\<sigma> b)
      then if is_mont (\<sigma> b) then and_s1l2m P G r a b \<sigma> else and_s1l2n P G r a b \<sigma>
      else and_s1s2 P G r a b \<sigma>)"

definition or_s1s2 :: "raw_consts \<Rightarrow> gmp \<Rightarrow> ptr \<Rightarrow> ptr \<Rightarrow> ptr \<Rightarrow> store \<Rightarrow> store" where
  "or_s1s2 P G = bit_s1s2 (rawOr P G) (OR) P G"

definition or_l1nl2n :: "raw_consts \<Rightarrow> gmp \<Rightarrow> ptr \<Rightarrow> ptr \<Rightarrow> ptr \<Rightarrow> store \<Rightarrow> store" where
  "or_l1nl2n P G = bit_l1nl2n (rawOr P G) P G"

definition or_l1nl2m :: "raw_consts \<Rightarrow> gmp \<Rightarrow> ptr \<Rightarrow> ptr \<Rightarrow> ptr \<Rightarrow> store \<Rightarrow> store" where
  "or_l1nl2m P G = bit_l1nl2m (rawOr P G) P G"

definition or_l1ml2m :: "raw_consts \<Rightarrow> gmp \<Rightarrow> ptr \<Rightarrow> ptr \<Rightarrow> ptr \<Rightarrow> store \<Rightarrow> store" where
  "or_l1ml2m P G = bit_l1ml2m (rawOr P G) P G"

definition or_l1ml2n :: "raw_consts \<Rightarrow> gmp \<Rightarrow> ptr \<Rightarrow> ptr \<Rightarrow> ptr \<Rightarrow> store \<Rightarrow> store" where
  "or_l1ml2n P G = bit_l1ml2n (rawOr P G) P G"

definition or_s1l2n :: "raw_consts \<Rightarrow> gmp \<Rightarrow> ptr \<Rightarrow> ptr \<Rightarrow> ptr \<Rightarrow> store \<Rightarrow> store" where
  "or_s1l2n P G = bit_s1l2n (rawOr P G) P G"

definition or_l1ms2 :: "raw_consts \<Rightarrow> gmp \<Rightarrow> ptr \<Rightarrow> ptr \<Rightarrow> ptr \<Rightarrow> store \<Rightarrow> store" where
  "or_l1ms2 P G = bit_l1ms2 (rawOr P G) P G"

definition or_s1l2m :: "raw_consts \<Rightarrow> gmp \<Rightarrow> ptr \<Rightarrow> ptr \<Rightarrow> ptr \<Rightarrow> store \<Rightarrow> store" where
  "or_s1l2m P G = bit_s1l2m (rawOr P G) P G"

definition or_l1ns2 :: "raw_consts \<Rightarrow> gmp \<Rightarrow> ptr \<Rightarrow> ptr \<Rightarrow> ptr \<Rightarrow> store \<Rightarrow> store" where
  "or_l1ns2 P G = bit_l1ns2 (rawOr P G) P G"

definition F_bor :: "raw_consts \<Rightarrow> gmp \<Rightarrow> ptr \<Rightarrow> ptr \<Rightarrow> ptr \<Rightarrow> store \<Rightarrow> store" where
  "F_bor P G r a b \<sigma> =
     (if is_long (\<sigma> a)
      then if is_long (\<sigma> b)
        then if is_mont (\<sigma> a)
          then if is_mont (\<sigma> b) then or_l1ml2m P G r a b \<sigma> else or_l1ml2n P G r a b \<sigma>
          else if is_mont (\<sigma> b) then or_l1nl2m P G r a b \<sigma> else or_l1nl2n P G r a b \<sigma>
        else if is_mont (\<sigma> a) then or_l1ms2 P G r a b \<sigma> else or_l1ns2 P G r a b \<sigma>
      else if is_long (\<sigma> b)
      then if is_mont (\<sigma> b) then or_s1l2m P G r a b \<sigma> else or_s1l2n P G r a b \<sigma>
      else or_s1s2 P G r a b \<sigma>)"

definition xor_s1s2 :: "raw_consts \<Rightarrow> gmp \<Rightarrow> ptr \<Rightarrow> ptr \<Rightarrow> ptr \<Rightarrow> store \<Rightarrow> store" where
  "xor_s1s2 P G = bit_s1s2 (rawXor P G) (XOR) P G"

definition xor_l1nl2n :: "raw_consts \<Rightarrow> gmp \<Rightarrow> ptr \<Rightarrow> ptr \<Rightarrow> ptr \<Rightarrow> store \<Rightarrow> store" where
  "xor_l1nl2n P G = bit_l1nl2n (rawXor P G) P G"

definition xor_l1nl2m :: "raw_consts \<Rightarrow> gmp \<Rightarrow> ptr \<Rightarrow> ptr \<Rightarrow> ptr \<Rightarrow> store \<Rightarrow> store" where
  "xor_l1nl2m P G = bit_l1nl2m (rawXor P G) P G"

definition xor_l1ml2m :: "raw_consts \<Rightarrow> gmp \<Rightarrow> ptr \<Rightarrow> ptr \<Rightarrow> ptr \<Rightarrow> store \<Rightarrow> store" where
  "xor_l1ml2m P G = bit_l1ml2m (rawXor P G) P G"

definition xor_l1ml2n :: "raw_consts \<Rightarrow> gmp \<Rightarrow> ptr \<Rightarrow> ptr \<Rightarrow> ptr \<Rightarrow> store \<Rightarrow> store" where
  "xor_l1ml2n P G = bit_l1ml2n (rawXor P G) P G"

definition xor_s1l2n :: "raw_consts \<Rightarrow> gmp \<Rightarrow> ptr \<Rightarrow> ptr \<Rightarrow> ptr \<Rightarrow> store \<Rightarrow> store" where
  "xor_s1l2n P G = bit_s1l2n (rawXor P G) P G"

definition xor_l1ms2 :: "raw_consts \<Rightarrow> gmp \<Rightarrow> ptr \<Rightarrow> ptr \<Rightarrow> ptr \<Rightarrow> store \<Rightarrow> store" where
  "xor_l1ms2 P G = bit_l1ms2 (rawXor P G) P G"

definition xor_s1l2m :: "raw_consts \<Rightarrow> gmp \<Rightarrow> ptr \<Rightarrow> ptr \<Rightarrow> ptr \<Rightarrow> store \<Rightarrow> store" where
  "xor_s1l2m P G = bit_s1l2m (rawXor P G) P G"

definition xor_l1ns2 :: "raw_consts \<Rightarrow> gmp \<Rightarrow> ptr \<Rightarrow> ptr \<Rightarrow> ptr \<Rightarrow> store \<Rightarrow> store" where
  "xor_l1ns2 P G = bit_l1ns2 (rawXor P G) P G"

definition F_bxor :: "raw_consts \<Rightarrow> gmp \<Rightarrow> ptr \<Rightarrow> ptr \<Rightarrow> ptr \<Rightarrow> store \<Rightarrow> store" where
  "F_bxor P G r a b \<sigma> =
     (if is_long (\<sigma> a)
      then if is_long (\<sigma> b)
        then if is_mont (\<sigma> a)
          then if is_mont (\<sigma> b) then xor_l1ml2m P G r a b \<sigma> else xor_l1ml2n P G r a b \<sigma>
          else if is_mont (\<sigma> b) then xor_l1nl2m P G r a b \<sigma> else xor_l1nl2n P G r a b \<sigma>
        else if is_mont (\<sigma> a) then xor_l1ms2 P G r a b \<sigma> else xor_l1ns2 P G r a b \<sigma>
      else if is_long (\<sigma> b)
      then if is_mont (\<sigma> b) then xor_s1l2m P G r a b \<sigma> else xor_s1l2n P G r a b \<sigma>
      else xor_s1s2 P G r a b \<sigma>)"

lemmas bit_instances =
  and_s1s2_def and_l1nl2n_def and_l1nl2m_def and_l1ml2m_def and_l1ml2n_def and_s1l2n_def and_l1ms2_def and_s1l2m_def and_l1ns2_def
  or_s1s2_def or_l1nl2n_def or_l1nl2m_def or_l1ml2m_def or_l1ml2n_def or_s1l2n_def or_l1ms2_def or_s1l2m_def or_l1ns2_def
  xor_s1s2_def xor_l1nl2n_def xor_l1nl2m_def xor_l1ml2m_def xor_l1ml2n_def xor_s1l2n_def xor_l1ms2_def xor_s1l2m_def xor_l1ns2_def

lemma bitwise_dispatch:
  "F_band P G = bit_dispatch (rawAnd P G) (AND) P G"
  "F_bor P G = bit_dispatch (rawOr P G) (OR) P G"
  "F_bxor P G = bit_dispatch (rawXor P G) (XOR) P G"
  by (simp_all add: fun_eq_iff F_band_def F_bor_def F_bxor_def bit_dispatch_def bit_instances)

subsection \<open>Not\<close>

text \<open>The tag of the result is written before the tag of the argument is read.\<close>

definition F_bnot :: "raw_consts \<Rightarrow> gmp \<Rightarrow> ptr \<Rightarrow> ptr \<Rightarrow> store \<Rightarrow> store" where
  "F_bnot P G r a \<sigma> = (let \<sigma> = set_type r LONG \<sigma>
   in if type (\<sigma> a) = LONG
      then if is_mont (\<sigma> a)
        then let \<sigma> = F_toNormal P G (Loc A_n) a \<sigma>
             in set_long r (rawNot P G (longVal (\<sigma> (Loc A_n)))) \<sigma>
        else set_long r (rawNot P G (longVal (\<sigma> a))) \<sigma>
      else let \<sigma> = F_toLongNormal P G (Loc A_n) a \<sigma>
           in set_long r (rawNot P G (longVal (\<sigma> (Loc A_n)))) \<sigma>)"

subsection \<open>Shifts\<close>

text \<open>
  \<open>Fr_rawShl\<close> when its result array is its argument: \<open>mpn_copyi(r + word_shift, r, word_count)\<close>
  copies upwards limb by limb in increasing order, as its documentation says, and reads limbs it
  has written.
\<close>

definition rawShl_inplace :: "raw_consts \<Rightarrow> gmp \<Rightarrow> limbs \<Rightarrow> nat \<Rightarrow> limbs" where
  "rawShl_inplace P G r b = (let bit_shift = b mod 64; word_shift = b div 64; word_count = 4 - word_shift;
       r = fold (\<lambda>i r. r[word_shift + i := r ! i]) [0..<word_count] r;
       r = replicate word_shift 0 @ drop word_shift r;
       r = (if bit_shift \<noteq> 0 then fst (mpn_lshift G r bit_shift) else r)
     in reduce_q P G (mask_top P r))"

text \<open>
  The static wrappers \<open>rawShl\<close> and \<open>rawShr\<close>; \<open>same\<close> says whether the two arrays are one. The right
  shift copies downwards in increasing order and so computes the same in place.
\<close>

definition checked_rawShl :: "raw_consts \<Rightarrow> gmp \<Rightarrow> bool \<Rightarrow> limbs \<Rightarrow> nat \<Rightarrow> limbs" where
  "checked_rawShl P G same a b =
     (if b = 0 then rawCopy a
      else if 254 \<le> b then rawZero
      else if same then rawShl_inplace P G a b else rawShl P G a b)"

definition checked_rawShr :: "gmp \<Rightarrow> limbs \<Rightarrow> nat \<Rightarrow> limbs" where
  "checked_rawShr G a b =
     (if b = 0 then rawCopy a else if 254 \<le> b then rawZero else rawShr G a b)"

definition F_setzero :: "ptr \<Rightarrow> store \<Rightarrow> store" where
  "F_setzero r \<sigma> = (let \<sigma> = set_type r 0 \<sigma>; \<sigma> = set_short r 0 \<sigma> in \<sigma>)"

definition do_shlcl :: "raw_consts \<Rightarrow> gmp \<Rightarrow> ptr \<Rightarrow> ptr \<Rightarrow> nat \<Rightarrow> store \<Rightarrow> store" where
  "do_shlcl P G r a b \<sigma> = (let \<sigma> = F_toLongNormal P G (Loc A_long) a \<sigma>;
     \<sigma> = set_type r LONG \<sigma>;
     \<sigma> = set_long r (checked_rawShl P G (r = Loc A_long) (longVal (\<sigma> (Loc A_long))) b) \<sigma>
   in \<sigma>)"

definition do_shlln :: "raw_consts \<Rightarrow> gmp \<Rightarrow> ptr \<Rightarrow> ptr \<Rightarrow> nat \<Rightarrow> store \<Rightarrow> store" where
  "do_shlln P G r a b \<sigma> = (let \<sigma> = set_type r LONG \<sigma>;
     \<sigma> = set_long r (checked_rawShl P G (r = a) (longVal (\<sigma> a)) b) \<sigma>
   in \<sigma>)"

definition do_shl :: "raw_consts \<Rightarrow> gmp \<Rightarrow> ptr \<Rightarrow> ptr \<Rightarrow> nat \<Rightarrow> store \<Rightarrow> store" where
  "do_shl P G r a b \<sigma> = (if is_long (\<sigma> a)
     then if type (\<sigma> a) = LONGMONTGOMERY
       then let \<sigma> = F_toNormal P G (Loc A_long) a \<sigma> in do_shlln P G r (Loc A_long) b \<sigma>
       else do_shlln P G r a b \<sigma>
     else let a_shortVal = sint (shortVal (\<sigma> a))
       in if a_shortVal = 0 then F_setzero r \<sigma>
          else if a_shortVal < 0 then do_shlcl P G r a b \<sigma>
          else if 31 \<le> b then do_shlcl P G r a b \<sigma>
          else let a_shortVal = push_bit b a_shortVal;
                   a_is_over_short = drop_bit 31 a_shortVal
            in if a_is_over_short \<noteq> 0 then do_shlcl P G r a b \<sigma>
               else let \<sigma> = set_type r SHORT \<sigma>; \<sigma> = set_short r (to_s32 a_shortVal) \<sigma> in \<sigma>)"

definition do_shrln :: "gmp \<Rightarrow> ptr \<Rightarrow> ptr \<Rightarrow> nat \<Rightarrow> store \<Rightarrow> store" where
  "do_shrln G r a b \<sigma> = (let \<sigma> = set_type r LONG \<sigma>;
     \<sigma> = set_long r (checked_rawShr G (longVal (\<sigma> a)) b) \<sigma>
   in \<sigma>)"

definition do_shrl :: "raw_consts \<Rightarrow> gmp \<Rightarrow> ptr \<Rightarrow> ptr \<Rightarrow> nat \<Rightarrow> store \<Rightarrow> store" where
  "do_shrl P G r a b \<sigma> = (if type (\<sigma> a) = LONGMONTGOMERY
     then let \<sigma> = F_toNormal P G (Loc A_long) a \<sigma> in do_shrln G r (Loc A_long) b \<sigma>
     else do_shrln G r a b \<sigma>)"

definition do_shr :: "raw_consts \<Rightarrow> gmp \<Rightarrow> ptr \<Rightarrow> ptr \<Rightarrow> nat \<Rightarrow> store \<Rightarrow> store" where
  "do_shr P G r a b \<sigma> = (if is_long (\<sigma> a) then do_shrl P G r a b \<sigma>
     else let a_shortVal = sint (shortVal (\<sigma> a))
       in if a_shortVal = 0 then F_setzero r \<sigma>
          else if a_shortVal < 0
          then let \<sigma> = F_toLongNormal P G (Loc A_long_shr) a \<sigma>
               in do_shrl P G r (Loc A_long_shr) b \<sigma>
          else if 31 \<le> b then F_setzero r \<sigma>
          else let a_shortVal = drop_bit b a_shortVal;
                   \<sigma> = set_short r (to_s32 a_shortVal) \<sigma>;
                   \<sigma> = set_type r SHORT \<sigma>
            in \<sigma>)"

definition max_shift :: limbs where
  "max_shift = [254, 0, 0, 0]"

definition F_shr_big_shift :: "raw_consts \<Rightarrow> gmp \<Rightarrow> ptr \<Rightarrow> ptr \<Rightarrow> ptr \<Rightarrow> store \<Rightarrow> store" where
  "F_shr_big_shift P G r a b \<sigma> = (let shift = rawSubRegular G (q4 P) (longVal (\<sigma> b))
   in if 0 \<le> rawCmp G shift max_shift then F_setzero r \<sigma>
      else do_shl P G r a (unat (shift ! 0)) \<sigma>)"

definition F_shr_long :: "raw_consts \<Rightarrow> gmp \<Rightarrow> ptr \<Rightarrow> ptr \<Rightarrow> ptr \<Rightarrow> store \<Rightarrow> store" where
  "F_shr_long P G r a b \<sigma> = (if 0 \<le> rawCmp G (longVal (\<sigma> b)) max_shift
     then F_shr_big_shift P G r a b \<sigma>
     else do_shr P G r a (unat (longVal (\<sigma> b) ! 0)) \<sigma>)"

definition F_shr :: "raw_consts \<Rightarrow> gmp \<Rightarrow> ptr \<Rightarrow> ptr \<Rightarrow> ptr \<Rightarrow> store \<Rightarrow> store" where
  "F_shr P G r a b \<sigma> = (if is_long (\<sigma> b)
     then if type (\<sigma> b) = LONGMONTGOMERY
       then let \<sigma> = F_toNormal P G (Loc B_long) b \<sigma> in F_shr_long P G r a (Loc B_long) \<sigma>
       else F_shr_long P G r a b \<sigma>
     else let b_shortVal = sint (shortVal (\<sigma> b))
       in if b_shortVal < 0
          then let b_shortVal = - b_shortVal
               in if 254 \<le> b_shortVal then F_setzero r \<sigma> else do_shl P G r a (nat b_shortVal) \<sigma>
          else if 254 \<le> b_shortVal then F_setzero r \<sigma>
          else do_shr P G r a (nat b_shortVal) \<sigma>)"

definition F_shl_big_shift :: "raw_consts \<Rightarrow> gmp \<Rightarrow> ptr \<Rightarrow> ptr \<Rightarrow> ptr \<Rightarrow> store \<Rightarrow> store" where
  "F_shl_big_shift P G r a b \<sigma> = (let shift = rawSubRegular G (q4 P) (longVal (\<sigma> b))
   in if 0 \<le> rawCmp G shift max_shift then F_setzero r \<sigma>
      else do_shr P G r a (unat (shift ! 0)) \<sigma>)"

definition F_shl_long :: "raw_consts \<Rightarrow> gmp \<Rightarrow> ptr \<Rightarrow> ptr \<Rightarrow> ptr \<Rightarrow> store \<Rightarrow> store" where
  "F_shl_long P G r a b \<sigma> = (if 0 \<le> rawCmp G (longVal (\<sigma> b)) max_shift
     then F_shl_big_shift P G r a b \<sigma>
     else do_shl P G r a (unat (longVal (\<sigma> b) ! 0)) \<sigma>)"

definition F_shl :: "raw_consts \<Rightarrow> gmp \<Rightarrow> ptr \<Rightarrow> ptr \<Rightarrow> ptr \<Rightarrow> store \<Rightarrow> store" where
  "F_shl P G r a b \<sigma> = (if is_long (\<sigma> b)
     then if type (\<sigma> b) = LONGMONTGOMERY
       then let \<sigma> = F_toNormal P G (Loc B_long) b \<sigma> in F_shl_long P G r a (Loc B_long) \<sigma>
       else F_shl_long P G r a b \<sigma>
     else let b_shortVal = sint (shortVal (\<sigma> b))
       in if b_shortVal < 0
          then let b_shortVal = - b_shortVal
               in if 254 \<le> b_shortVal then F_setzero r \<sigma> else do_shr P G r a (nat b_shortVal) \<sigma>
          else if 254 \<le> b_shortVal then F_setzero r \<sigma>
          else do_shl P G r a (nat b_shortVal) \<sigma>)"

end
