(* ===== verification/Element_Bits_Laws.thy ===== *)
theory Element_Bits_Laws
  imports Element_Compare_Laws Element_Bits
begin

section \<open>Tagged elements: bitwise operations and shifts on 254-bit values\<close>

text \<open>
  And, or, xor act on the values in \<open>0 .. q - 1\<close> and reduce once; not complements 254 bits. A shift
  by the signed value of its second argument shifts left or right, drops the bits above 254 on the
  left, and gives 0 for an amount of 254 or more either way.
\<close>

text \<open>A shift to the left by a signed amount, on the integers.\<close>

definition shift_left :: "int \<Rightarrow> int \<Rightarrow> int" where
  "shift_left v k = (if 0 \<le> k then if k < 254 then v * 2 ^ nat k mod 2 ^ 254 else 0
     else if - k < 254 then v div 2 ^ nat (- k) else 0)"

context raw_field begin

subsection \<open>And, or, xor\<close>

lemma short_literal_facts:
  assumes "0 \<le> sint (shortVal e)"
  shows "reduced q (longVal (short_literal e))" and "lv (longVal (short_literal e)) = sint (shortVal e) mod Z"
proof -
  have v: "lv (longVal (short_literal e)) = sint (shortVal e)"
    using assms s32_le [of "shortVal e"] by (simp add: short_literal_def uint_to_s64)
  have lt: "sint (shortVal e) < Z" using s32_le [of "shortVal e"] q_large by linarith
  then show "lv (longVal (short_literal e)) = sint (shortVal e) mod Z"
    using assms v by simp
  have "lval (longVal (short_literal e)) < q" using lt unfolding v [symmetric] by (simp only: of_nat_less_iff)
  then show "reduced q (longVal (short_literal e))"
    by (rule reducedI [rotated]) (simp add: short_literal_def)
qed

end

text \<open>
  What the three operations share: \<open>rop\<close> computes \<open>bop\<close> on reduced values, \<open>sop\<close> on nonnegative short
  values.
\<close>

locale bitwise = raw_field P q G for P :: raw_consts and q :: nat and G :: gmp +
  fixes rop :: raw_op and sop :: short_op and bop :: "int \<Rightarrow> int \<Rightarrow> int"
  assumes rop_reduced: "reduced q x \<Longrightarrow> reduced q y \<Longrightarrow> reduced q (rop x y)"
    and rop_value: "reduced q x \<Longrightarrow> reduced q y \<Longrightarrow> int (lval (rop x y)) = bop (int (lval x)) (int (lval y)) mod int q"
    and sop_value: "0 \<le> sint u \<Longrightarrow> 0 \<le> sint v \<Longrightarrow> sint (sop u v) = bop (sint u) (sint v)"
    and bop_comm: "bop m n = bop n m"

context bitwise begin

lemma sign_cases:
  obtains "0 \<le> sint (x :: s32)" | "\<not> 0 \<le> sint x" by blast

lemma short_val:
  "elem_ok q e \<Longrightarrow> \<not> is_long e \<Longrightarrow> elem_val q e = sint (shortVal e) mod Z"
  by (auto elim!: elem_cases)

lemma short_nonneg: "0 \<le> sint (x :: s32) \<Longrightarrow> sint x mod Z = sint x"
  using s32_le [of x] q_large by (intro mod_pos_pos_trivial) linarith+

lemma obj_neq:
  assumes "{r, a, b} \<subseteq> range Obj"
  shows "r \<noteq> Loc x \<and> a \<noteq> Loc x \<and> b \<noteq> Loc x"
  using assms by auto

lemma long_facts:
  assumes "elem_ok q e" "is_long e" "\<not> is_mont e"
  shows "reduced q (longVal e)" and "elem_val q e = lv (longVal e)"
  using tag_long_iff [OF assms] by (simp_all add: long_normal_val)

lemma bit_s1s2_is:
  assumes "elem_ok q (\<sigma> a)" "elem_ok q (\<sigma> b)" "\<not> is_long (\<sigma> a)" "\<not> is_long (\<sigma> b)"
    and "r \<noteq> a" "r \<noteq> b" and objs: "{r, a, b} \<subseteq> range Obj"
  shows "elem_is q (bit_s1s2 rop sop P G r a b \<sigma> r) (bop (elem_val q (\<sigma> a)) (elem_val q (\<sigma> b)))"
proof (cases "0 \<le> sint (shortVal (\<sigma> a)) \<and> 0 \<le> sint (shortVal (\<sigma> b))")
  case True
  then show ?thesis using assms
    by (intro elem_is_short) (simp_all add: bit_s1s2_def Let_def short_val short_nonneg sop_value)
next
  case False
  show ?thesis unfolding bit_s1s2_def if_not_P [OF False] using assms
    by (simp add: Let_def written_long rop_reduced rop_value toLongNormal_long obj_neq [OF objs])
qed

lemma bit_long_is:
  assumes "elem_ok q (\<sigma> a)" "is_long (\<sigma> a)" "\<not> is_mont (\<sigma> a)"
    and "elem_ok q (\<sigma> b)" "is_long (\<sigma> b)" "\<not> is_mont (\<sigma> b)"
  shows "elem_is q (bit_l1nl2n rop P G r a b \<sigma> r) (bop (elem_val q (\<sigma> a)) (elem_val q (\<sigma> b)))"
  using assms by (simp add: bit_l1nl2n_def Let_def written_long rop_reduced rop_value long_facts)

lemma bit_mont_is:
  assumes "elem_ok q (\<sigma> a)" "is_long (\<sigma> a)" and "elem_ok q (\<sigma> b)" "is_long (\<sigma> b)" "\<not> is_mont (\<sigma> b)"
    and "r \<noteq> a" and objs: "{r, a, b} \<subseteq> range Obj"
  shows "elem_is q (bit_l1ml2n rop P G r a b \<sigma> r) (bop (elem_val q (\<sigma> a)) (elem_val q (\<sigma> b)))"
    and "elem_is q (bit_l1nl2m rop P G r b a \<sigma> r) (bop (elem_val q (\<sigma> b)) (elem_val q (\<sigma> a)))"
  using assms
  by (simp_all add: bit_l1nl2m_def bit_l1ml2n_def Let_def written_long rop_reduced rop_value toNormal_long
      long_facts obj_neq [OF objs])

lemma bit_monts_is:
  assumes "elem_ok q (\<sigma> a)" "is_long (\<sigma> a)" "elem_ok q (\<sigma> b)" "is_long (\<sigma> b)"
    and "r \<noteq> a" "r \<noteq> b" and objs: "{r, a, b} \<subseteq> range Obj"
  shows "elem_is q (bit_l1ml2m rop P G r a b \<sigma> r) (bop (elem_val q (\<sigma> a)) (elem_val q (\<sigma> b)))"
  using assms
  by (simp add: bit_l1ml2m_def Let_def written_long rop_reduced rop_value toNormal_long obj_neq [OF objs])

lemma bit_short_is:
  assumes "elem_ok q (\<sigma> a)" "\<not> is_long (\<sigma> a)" and "elem_ok q (\<sigma> b)" "is_long (\<sigma> b)" "\<not> is_mont (\<sigma> b)"
    and "r \<noteq> a" and objs: "{r, a, b} \<subseteq> range Obj"
  shows "elem_is q (bit_s1l2n rop P G r a b \<sigma> r) (bop (elem_val q (\<sigma> a)) (elem_val q (\<sigma> b)))"
    and "elem_is q (bit_l1ns2 rop P G r b a \<sigma> r) (bop (elem_val q (\<sigma> b)) (elem_val q (\<sigma> a)))"
  using assms
  by (cases "0 \<le> sint (shortVal (\<sigma> a))";
    simp add: bit_s1l2n_def bit_l1ns2_def Let_def written_long rop_reduced rop_value toLongNormal_long
      short_literal_facts short_val long_facts obj_neq [OF objs])+

lemma bit_short_mont_is:
  assumes "elem_ok q (\<sigma> a)" "\<not> is_long (\<sigma> a)" "elem_ok q (\<sigma> b)" "is_long (\<sigma> b)"
    and "r \<noteq> a" "r \<noteq> b" and objs: "{r, a, b} \<subseteq> range Obj"
  shows "elem_is q (bit_s1l2m rop P G r a b \<sigma> r) (bop (elem_val q (\<sigma> a)) (elem_val q (\<sigma> b)))"
    and "elem_is q (bit_l1ms2 rop P G r b a \<sigma> r) (bop (elem_val q (\<sigma> b)) (elem_val q (\<sigma> a)))"
  using assms
  by (cases "0 \<le> sint (shortVal (\<sigma> a))";
    simp add: bit_s1l2m_def bit_l1ms2_def Let_def written_long rop_reduced rop_value toNormal_long
      toLongNormal_long short_literal_facts short_val obj_neq [OF objs] bop_comm)+

theorem bit_dispatch_correct:
  assumes a: "elem_ok q (\<sigma> a)" and b: "elem_ok q (\<sigma> b)"
    and sep: "(r \<noteq> a \<and> r \<noteq> b) \<or> (type (\<sigma> a) = LONG \<and> type (\<sigma> b) = LONG)"
    and objs: "{r, a, b} \<subseteq> range Obj"
  shows "elem_is q (bit_dispatch rop sop P G r a b \<sigma> r) (bop (elem_val q (\<sigma> a)) (elem_val q (\<sigma> b)))"
proof -
  have objs': "{r, b, a} \<subseteq> range Obj" using objs by auto
  have sep': "is_long (\<sigma> a) \<and> \<not> is_mont (\<sigma> a) \<and> is_long (\<sigma> b) \<and> \<not> is_mont (\<sigma> b) \<or> r \<noteq> a \<and> r \<noteq> b"
    using sep by auto
  show ?thesis
    using a b objs objs' sep'
    by (cases "is_long (\<sigma> a)"; cases "is_mont (\<sigma> a)"; cases "is_long (\<sigma> b)"; cases "is_mont (\<sigma> b)";
      simp add: bit_dispatch_def bit_long_is bit_s1s2_is bit_mont_is bit_monts_is bit_short_is
        bit_short_mont_is)
qed

end

sublocale raw_field \<subseteq> band: bitwise P q G "rawAnd P G" "(AND)" "(AND)"
proof
  fix x y assume "reduced q x" "reduced q y"
  then have r: "reduced q (rawAnd P G x y)" and "lval (rawAnd P G x y) = lval x AND lval y"
    using rawAnd_correct by blast+
  then have "int (lval (rawAnd P G x y)) = int (lval x) AND int (lval y)" by (simp add: of_nat_and_eq)
  with lv_mod [OF r] show "int (lval (rawAnd P G x y)) = (int (lval x) AND int (lval y)) mod int q"
    by simp
  show "reduced q (rawAnd P G x y)" by (rule r)
qed (simp_all add: signed_and_eq and.commute)

sublocale raw_field \<subseteq> bor: bitwise P q G "rawOr P G" "(OR)" "(OR)"
proof
  fix x y assume "reduced q x" "reduced q y"
  then show "reduced q (rawOr P G x y)"
    and "int (lval (rawOr P G x y)) = (int (lval x) OR int (lval y)) mod int q"
    using rawOr_correct [of x y] by (simp_all add: zmod_int of_nat_or_eq)
qed (simp_all add: signed_or_eq or.commute)

sublocale raw_field \<subseteq> bxor: bitwise P q G "rawXor P G" "(XOR)" "(XOR)"
proof
  fix x y assume "reduced q x" "reduced q y"
  then show "reduced q (rawXor P G x y)"
    and "int (lval (rawXor P G x y)) = (int (lval x) XOR int (lval y)) mod int q"
    using rawXor_correct [of x y] by (simp_all add: zmod_int of_nat_xor_eq)
qed (simp_all add: signed_xor_eq xor.commute)

context raw_field begin

theorem F_bitwise_correct:
  assumes "elem_ok q (\<sigma> a)" and "elem_ok q (\<sigma> b)"
    and "(r \<noteq> a \<and> r \<noteq> b) \<or> (type (\<sigma> a) = LONG \<and> type (\<sigma> b) = LONG)"
    and "{r, a, b} \<subseteq> range Obj"
  shows "elem_is q (F_band P G r a b \<sigma> r) (elem_val q (\<sigma> a) AND elem_val q (\<sigma> b))"
    and "elem_is q (F_bor P G r a b \<sigma> r) (elem_val q (\<sigma> a) OR elem_val q (\<sigma> b))"
    and "elem_is q (F_bxor P G r a b \<sigma> r) (elem_val q (\<sigma> a) XOR elem_val q (\<sigma> b))"
  unfolding bitwise_dispatch
  by (rule band.bit_dispatch_correct [OF assms] bor.bit_dispatch_correct [OF assms]
      bxor.bit_dispatch_correct [OF assms])+

subsection \<open>Not\<close>

lemma Not_facts:
  assumes "reduced q a"
  shows "reduced q (rawNot P G a)" and "lv (rawNot P G a) = (2 ^ 254 - 1 - lv a) mod Z"
proof -
  have "lval a \<le> 2 ^ 254 - 1" using reduced_lt_254 [OF assms] by simp
  then have "int (2 ^ 254 - 1 - lval a) = 2 ^ 254 - 1 - lv a" by (simp add: of_nat_diff)
  then show "reduced q (rawNot P G a)" and "lv (rawNot P G a) = (2 ^ 254 - 1 - lv a) mod Z"
    using rawNot_correct [OF assms] by (simp_all only: zmod_int)
qed

theorem F_bnot_correct:
  assumes ok: "elem_ok q (\<sigma> a)" and sep: "r \<noteq> a \<or> type (\<sigma> a) = LONG" and objs: "{r, a} \<subseteq> range Obj"
  shows "elem_is q (F_bnot P G r a \<sigma> r) (2 ^ 254 - 1 - elem_val q (\<sigma> a))"
proof -
  have loc: "r \<noteq> Loc x" "a \<noteq> Loc x" for x using objs by auto
  show ?thesis
  proof (cases "type (\<sigma> a) = LONG")
    case True
    then have a: "type (set_type r LONG \<sigma> a) = LONG" by (cases "r = a") simp_all
    have "reduced q (longVal (\<sigma> a))" "elem_val q (\<sigma> a) = lv (longVal (\<sigma> a))"
      using ok True by (auto elim!: elem_cases)
    then show ?thesis using a by (simp add: F_bnot_def Let_def written_long Not_facts)
  next
    case False
    then show ?thesis using sep ok loc
      by (simp add: F_bnot_def Let_def written_long Not_facts toLongNormal_long)
  qed
qed

subsection \<open>Shifts\<close>

lemma lt_2_254: "reduced q a \<Longrightarrow> lv a < 2 ^ 254"
proof -
  assume "reduced q a"
  from reduced_lt_254 [OF this] have "int (lval a) < int (2 ^ 254)" by (simp only: of_nat_less_iff)
  then show ?thesis by simp
qed

lemma rawShl_facts:
  assumes "reduced q a" and "k < 254"
  shows "reduced q (rawShl P G a k)" and "lv (rawShl P G a k) = (lv a * 2 ^ k mod 2 ^ 254) mod Z"
proof -
  have "int (lval a * 2 ^ k mod 2 ^ 254) = lv a * 2 ^ k mod 2 ^ 254" by (simp add: zmod_int)
  then show "reduced q (rawShl P G a k)" and "lv (rawShl P G a k) = (lv a * 2 ^ k mod 2 ^ 254) mod Z"
    using rawShl_correct [OF reduced_length [OF assms(1)] assms(2)] by (simp_all only: zmod_int)
qed

lemma checked_rawShl_facts:
  assumes "reduced q a" and "k < 254"
  shows "reduced q (checked_rawShl P G False a k)"
    and "lv (checked_rawShl P G False a k) = (lv a * 2 ^ k mod 2 ^ 254) mod Z"
  using assms rawShl_facts [OF assms] lt_2_254 [OF assms(1)] lv_mod [OF assms(1)]
  by (simp_all add: checked_rawShl_def rawCopy_id reduced_length)

lemma checked_rawShr_facts:
  assumes "reduced q a" and "k < 254"
  shows "reduced q (checked_rawShr G a k)" and "lv (checked_rawShr G a k) = lv a div 2 ^ k mod Z"
proof -
  have len: "length a = 4" by (rule reduced_length [OF assms(1)])
  note c = rawShr_correct [OF len assms(2)]
  have "lval a div 2 ^ k \<le> lval a" by (rule div_le_dividend)
  then have "lval a div 2 ^ k < q" using reduced_lt [OF assms(1)] by (rule le_less_trans)
  then have r: "reduced q (rawShr G a k)" and "lv (rawShr G a k) mod Z = lv a div 2 ^ k mod Z"
    using c by (simp_all add: reduced_def zdiv_int)
  then have v: "lv (rawShr G a k) = lv a div 2 ^ k mod Z" using lv_mod [OF r] by simp
  show "reduced q (checked_rawShr G a k)" and "lv (checked_rawShr G a k) = lv a div 2 ^ k mod Z"
    using r v assms lv_mod [OF assms(1)] by (simp_all add: checked_rawShr_def rawCopy_id len)
qed

lemma setzero_is: "elem_is q (F_setzero r \<sigma> r) 0"
  by (rule elem_is_short) (simp_all add: F_setzero_def Let_def SHORT_def)

lemma do_shlcl_is:
  assumes "elem_ok q (\<sigma> a)" and "k < 254" and "r \<noteq> Loc A_long"
  shows "elem_is q (do_shlcl P G r a k \<sigma> r) (elem_val q (\<sigma> a) * 2 ^ k mod 2 ^ 254)"
  using assms by (simp add: do_shlcl_def Let_def written_long checked_rawShl_facts toLongNormal_long)

lemma do_shlln_is:
  assumes "reduced q (longVal (\<sigma> a))" and "k < 254" and "r \<noteq> a"
  shows "elem_is q (do_shlln P G r a k \<sigma> r) (lv (longVal (\<sigma> a)) * 2 ^ k mod 2 ^ 254)"
  using assms by (simp add: do_shlln_def Let_def written_long checked_rawShl_facts)

lemma do_shrln_is:
  assumes "reduced q (longVal (\<sigma> a))" and "k < 254"
  shows "elem_is q (do_shrln G r a k \<sigma> r) (lv (longVal (\<sigma> a)) div 2 ^ k)"
  using assms by (simp add: do_shrln_def Let_def written_long checked_rawShr_facts)

text \<open>Shifting a nonnegative short value within 32 bits.\<close>

lemma short_left:
  assumes "0 \<le> x" and "x * 2 ^ k < 2147483648"
  shows "x * 2 ^ k mod 2 ^ 254 = (x * 2 ^ k :: int)"
proof (rule mod_pos_pos_trivial)
  have "(2147483648 :: int) \<le> 2 ^ 254" by simp
  with assms(2) show "x * 2 ^ k < 2 ^ 254" by linarith
qed (use assms in simp)

lemma do_shl_short_is:
  assumes ok: "elem_ok q (\<sigma> a)" and s: "\<not> is_long (\<sigma> a)" and k: "k < 254" and r: "r \<noteq> Loc A_long"
  shows "elem_is q (do_shl P G r a k \<sigma> r) (elem_val q (\<sigma> a) * 2 ^ k mod 2 ^ 254)"
proof -
  let ?x = "sint (shortVal (\<sigma> a))"
  note cl = do_shlcl_is [of \<sigma> a k r, OF ok k r]
  have v: "elem_val q (\<sigma> a) = ?x mod Z" using ok s by (auto elim!: elem_cases)
  consider "?x = 0" | "?x \<noteq> 0" "?x < 0 \<or> 31 \<le> k \<or> 2147483648 \<le> ?x * 2 ^ k"
    | "0 < ?x" "k < 31" "?x * 2 ^ k < 2147483648" by linarith
  then show ?thesis
  proof cases
    case 1
    then show ?thesis using s v by (simp add: do_shl_def setzero_is)
  next
    case 2
    have "drop_bit 31 (push_bit k ?x) \<noteq> 0" if "2147483648 \<le> ?x * 2 ^ k"
      using that unfolding drop_bit_eq_div push_bit_eq_mult
      by (simp add: pos_imp_zdiv_pos_iff order.strict_implies_not_eq [symmetric])
    with 2 show ?thesis using s cl by (auto simp: do_shl_def Let_def)
  next
    case 3
    have x: "0 \<le> ?x * 2 ^ k" using 3(1) by simp
    have d: "drop_bit 31 (push_bit k ?x) = 0"
      unfolding drop_bit_eq_div push_bit_eq_mult using 3 by (simp add: div_pos_pos_trivial)
    have "?x mod Z = ?x" using 3(1) s32_le [of "shortVal (\<sigma> a)"] q_large by (intro mod_pos_pos_trivial) linarith+
    moreover have "sint (to_s32 (?x * 2 ^ k)) = ?x * 2 ^ k" using 3 x by (intro sint_to_s32) linarith+
    ultimately show ?thesis using 3 s d
      by (intro elem_is_short) (simp_all add: do_shl_def Let_def v short_left push_bit_eq_mult)
  qed
qed

lemma do_shl_is:
  assumes ok: "elem_ok q (\<sigma> a)" and k: "k < 254" and sep: "r \<noteq> a \<or> type (\<sigma> a) \<noteq> LONG"
    and objs: "{r, a} \<subseteq> range Obj"
  shows "elem_is q (do_shl P G r a k \<sigma> r) (elem_val q (\<sigma> a) * 2 ^ k mod 2 ^ 254)"
proof -
  have loc: "r \<noteq> Loc x" "a \<noteq> Loc x" for x using objs by auto
  show ?thesis
  proof (cases "is_long (\<sigma> a)")
    case False
    then show ?thesis using do_shl_short_is [of \<sigma> a k r] ok k loc by blast
  next
    case long: True
    show ?thesis
    proof (cases "is_mont (\<sigma> a)")
      case True
      then have "type (\<sigma> a) = LONGMONTGOMERY" using ok long by (auto elim!: elem_cases)
      then show ?thesis
        using ok long k loc do_shlln_is [of "F_toNormal P G (Loc A_long) a \<sigma>" "Loc A_long" k r]
        by (simp add: do_shl_def toNormal_long)
    next
      case False
      then have "type (\<sigma> a) = LONG" and "reduced q (longVal (\<sigma> a))" and "elem_val q (\<sigma> a) = lv (longVal (\<sigma> a))"
        using ok long by (auto elim!: elem_cases)
      then show ?thesis using k sep do_shlln_is [of \<sigma> a k r] by (simp add: do_shl_def)
    qed
  qed
qed

lemma do_shrl_is:
  assumes ok: "elem_ok q (\<sigma> a)" and "is_long (\<sigma> a)" and k: "k < 254"
    and loc: "r \<noteq> Loc A_long" "a \<noteq> Loc A_long"
  shows "elem_is q (do_shrl P G r a k \<sigma> r) (elem_val q (\<sigma> a) div 2 ^ k)"
  using ok
proof (cases rule: elem_cases)
  case long
  then show ?thesis using k do_shrln_is [of \<sigma> a k r] by (simp add: do_shrl_def)
next
  case A: long_mont
  show ?thesis
    using A(1) ok k do_shrln_is [of "F_toNormal P G (Loc A_long) a \<sigma>" "Loc A_long" k r]
    by (simp add: do_shrl_def toNormal_long)
qed (use assms(2) in simp_all)

lemma short_right:
  assumes "0 \<le> x" and "x < 2147483648"
  shows "31 \<le> k \<Longrightarrow> x div 2 ^ k = (0 :: int)" and "0 \<le> x div 2 ^ k" and "x div 2 ^ k < (2147483648 :: int)"
proof -
  show "0 \<le> x div 2 ^ k" using assms by (simp add: pos_imp_zdiv_nonneg_iff)
  show "x div 2 ^ k = 0" if "31 \<le> k"
  proof (rule div_pos_pos_trivial)
    have "(2 :: int) ^ 31 \<le> 2 ^ k" using that by (rule power_increasing) simp
    with assms show "x < 2 ^ k" by simp
  qed (use assms in simp)
  have "x div 2 ^ k \<le> x" using zdiv_mono2 [OF assms(1), of 1 "2 ^ k"] by simp
  with assms(2) show "x div 2 ^ k < 2147483648" by linarith
qed

lemma do_shr_is:
  assumes ok: "elem_ok q (\<sigma> a)" and k: "k < 254" and objs: "{r, a} \<subseteq> range Obj"
  shows "elem_is q (do_shr P G r a k \<sigma> r) (elem_val q (\<sigma> a) div 2 ^ k)"
proof -
  let ?x = "sint (shortVal (\<sigma> a))"
  have loc: "r \<noteq> Loc x" "a \<noteq> Loc x" for x using objs by auto
  show ?thesis
  proof (cases "is_long (\<sigma> a)")
    case True
    then show ?thesis using do_shrl_is [of \<sigma> a k r] ok k loc by (simp add: do_shr_def)
  next
    case s: False
    have v: "elem_val q (\<sigma> a) = ?x mod Z" using ok s by (auto elim!: elem_cases)
    show ?thesis
    proof (cases "?x < 0")
      case True
      let ?\<sigma> = "F_toLongNormal P G (Loc A_long_shr) a \<sigma>"
      have "elem_ok q (?\<sigma> (Loc A_long_shr))" and "type (?\<sigma> (Loc A_long_shr)) = LONG"
        and "elem_val q (?\<sigma> (Loc A_long_shr)) = elem_val q (\<sigma> a)"
        using toLongNormal_long [of \<sigma> a, OF ok, of "Loc A_long_shr"] by (simp_all add: elem_ok_def elem_val_def)
      then show ?thesis using do_shrl_is [of ?\<sigma> "Loc A_long_shr" k r] k loc s True
        by (simp add: do_shr_def Let_def)
    next
      case False
      have x: "0 \<le> ?x" "?x < 2147483648" using False sint_s32_bounds [of "shortVal (\<sigma> a)"] by linarith+
      have m: "?x mod Z = ?x" using x q_large by (intro mod_pos_pos_trivial) linarith+
      have "sint (to_s32 (drop_bit k ?x)) = ?x div 2 ^ k"
        unfolding drop_bit_eq_div using short_right [OF x, of k] by (intro sint_to_s32) linarith+
      then have "elem_is q (do_shr P G r a k \<sigma> r) (?x div 2 ^ k)" if "?x \<noteq> 0" "k < 31"
        using that False s by (intro elem_is_short) (simp_all add: do_shr_def Let_def)
      then show ?thesis
        using False s short_right(1) [OF x, of k] setzero_is by (auto simp: v m do_shr_def Let_def)
    qed
  qed
qed

text \<open>The amount: a long second argument, in normal form.\<close>

lemma shift_complement:
  assumes "reduced q b"
  shows "length (rawSubRegular G (q4 P) b) = 4" and "lval (rawSubRegular G (q4 P) b) = q - lval b"
proof -
  obtain r c where rc: "mpn_sub_n G (q4 P) b = (r, c)" by fastforce
  from sub_n_law [OF _ rc] have law: "length r = 4" "lval r + lval b = q + mont_R * unat c"
    using assms by (simp_all add: reduced_def mont_R_def)
  have lt: "lval r < mont_R" using lt_R law(1) by simp
  have "unat c = 0"
  proof (rule ccontr)
    assume "unat c \<noteq> 0"
    then have "mont_R \<le> mont_R * unat c" by simp
    with law(2) lt reduced_lt [OF assms] show False by linarith
  qed
  then show "length (rawSubRegular G (q4 P) b) = 4" and "lval (rawSubRegular G (q4 P) b) = q - lval b"
    using law by (simp_all add: rawSubRegular_def rc)
qed

lemma max_shift_cmp: "length b = 4 \<Longrightarrow> 0 \<le> rawCmp G b max_shift \<longleftrightarrow> 254 \<le> lval b"
  using rawCmp_less [of b max_shift] by (simp add: max_shift_def not_less [symmetric])

lemma small_amount: "length b = 4 \<Longrightarrow> lval b < 254 \<Longrightarrow> unat (b ! 0) = lval b"
  using lval_hd [of b] by (cases b) simp_all

lemma shift_left_zero: "elem_ok q e \<Longrightarrow> shift_left (elem_val q e) 0 = elem_val q e"
proof -
  assume ok: "elem_ok q e"
  have "0 \<le> elem_val q e \<and> elem_val q e < Z" by (simp add: elem_val_def mval_lt)
    (use ok in \<open>auto elim!: elem_cases simp: reduced_lt\<close>)
  moreover have "Z < 2 ^ 254"
  proof -
    have "int q < int (2 ^ 254)" using q_high by (simp only: of_nat_less_iff)
    then show ?thesis by simp
  qed
  ultimately show ?thesis by (simp add: shift_left_def)
qed

text \<open>The signed amount and the two comparisons of the code.\<close>

lemma amount_cases:
  assumes "reduced q b" and "lv b = v"
  shows "lval b < 254 \<Longrightarrow> signed_rep q v = lv b"
    and "254 \<le> lval b \<Longrightarrow> q - lval b < 254 \<Longrightarrow> signed_rep q v = - int (q - lval b)"
    and "254 \<le> lval b \<Longrightarrow> 254 \<le> q - lval b \<Longrightarrow> 254 \<le> signed_rep q v \<or> signed_rep q v \<le> - 254"
proof -
  have lt: "lval b < q" and half: "2 * (q div 2) + 1 = q" and big: "1000 < q"
    using reduced_lt [OF assms(1)] q_div_2 q_large by simp_all
  show "signed_rep q v = lv b" if "lval b < 254"
    using that half big assms(2) by (simp add: signed_rep_def)
  show "signed_rep q v = - int (q - lval b)" if "254 \<le> lval b" "q - lval b < 254"
    using that half big lt by (simp add: signed_rep_def flip: assms(2))
  show "254 \<le> signed_rep q v \<or> signed_rep q v \<le> - 254" if "254 \<le> lval b" "254 \<le> q - lval b"
    using that half big lt by (simp add: signed_rep_def flip: assms(2)) linarith
qed

lemma shift_long_is:
  assumes ok: "elem_ok q (\<sigma> a)" and objs: "{r, a} \<subseteq> range Obj" and sep: "r \<noteq> a \<or> type (\<sigma> a) \<noteq> LONG"
    and b: "reduced q (longVal (\<sigma> b))"
  shows "elem_is q (F_shl_long P G r a b \<sigma> r) (shift_left (elem_val q (\<sigma> a)) (signed_rep q (lv (longVal (\<sigma> b)))))"
    and "elem_is q (F_shr_long P G r a b \<sigma> r) (shift_left (elem_val q (\<sigma> a)) (- signed_rep q (lv (longVal (\<sigma> b)))))"
proof -
  let ?b = "longVal (\<sigma> b)" let ?c = "rawSubRegular G (q4 P) ?b"
  note len = reduced_length [OF b] and c = shift_complement [OF b]
  note am = amount_cases [OF b refl]
  note l = do_shl_is [of \<sigma> a _ r, OF ok _ sep objs] and r = do_shr_is [of \<sigma> a _ r, OF ok _ objs]
  note defs = F_shl_long_def F_shl_big_shift_def F_shr_long_def F_shr_big_shift_def Let_def
    max_shift_cmp len c small_amount
  have z: "elem_is q (do_shr P G r a 0 \<sigma> r) (elem_val q (\<sigma> a))" using r [of 0] by simp
  consider "lval ?b < 254" | "254 \<le> lval ?b" "q - lval ?b < 254" | "254 \<le> lval ?b" "254 \<le> q - lval ?b"
    by linarith
  then have "elem_is q (F_shl_long P G r a b \<sigma> r) (shift_left (elem_val q (\<sigma> a)) (signed_rep q (lv ?b)))
    \<and> elem_is q (F_shr_long P G r a b \<sigma> r) (shift_left (elem_val q (\<sigma> a)) (- signed_rep q (lv ?b)))"
  proof cases
    case 1
    show ?thesis
    proof (cases "lval ?b = 0")
      case True
      then show ?thesis using 1 am(1) l [of 0] z shift_left_zero [OF ok] by (simp add: defs shift_left_def)
    next
      case False
      then show ?thesis using 1 am(1) l [of "lval ?b"] r [of "lval ?b"] by (simp add: defs shift_left_def)
    qed
  next
    case 2
    have "0 < q - lval ?b" using reduced_lt [OF b] by simp
    then show ?thesis
      using 2 am(2) l [of "q - lval ?b"] r [of "q - lval ?b"] by (simp add: defs shift_left_def del: of_nat_diff)
  next
    case 3
    then show ?thesis using am(3) setzero_is by (auto simp: defs shift_left_def)
  qed
  then show "elem_is q (F_shl_long P G r a b \<sigma> r) (shift_left (elem_val q (\<sigma> a)) (signed_rep q (lv ?b)))"
    and "elem_is q (F_shr_long P G r a b \<sigma> r) (shift_left (elem_val q (\<sigma> a)) (- signed_rep q (lv ?b)))"
    by blast+
qed

theorem F_shift_correct:
  assumes a: "elem_ok q (\<sigma> a)" and b: "elem_ok q (\<sigma> b)" and objs: "{r, a, b} \<subseteq> range Obj"
    and sep: "r \<noteq> a \<or> type (\<sigma> a) \<noteq> LONG"
  shows "elem_is q (F_shl P G r a b \<sigma> r) (shift_left (elem_val q (\<sigma> a)) (signed_rep q (elem_val q (\<sigma> b))))"
    and "elem_is q (F_shr P G r a b \<sigma> r) (shift_left (elem_val q (\<sigma> a)) (- signed_rep q (elem_val q (\<sigma> b))))"
proof -
  have loc: "r \<noteq> Loc x" "a \<noteq> Loc x" "b \<noteq> Loc x" for x using objs by auto
  have objs': "{r, a} \<subseteq> range Obj" using objs by auto
  have "elem_is q (F_shl P G r a b \<sigma> r) (shift_left (elem_val q (\<sigma> a)) (signed_rep q (elem_val q (\<sigma> b))))
    \<and> elem_is q (F_shr P G r a b \<sigma> r) (shift_left (elem_val q (\<sigma> a)) (- signed_rep q (elem_val q (\<sigma> b))))"
  proof (cases "is_long (\<sigma> b)")
    case long: True
    show ?thesis
    proof (cases "is_mont (\<sigma> b)")
      case True
      let ?\<sigma> = "F_toNormal P G (Loc B_long) b \<sigma>"
      have "type (\<sigma> b) = LONGMONTGOMERY" using b long True by (auto elim!: elem_cases)
      then show ?thesis
        using shift_long_is [of ?\<sigma> a r "Loc B_long"] a objs' sep loc toNormal_long [of \<sigma> b "Loc B_long"] b long
        by (simp add: F_shl_def F_shr_def)
    next
      case False
      then have "type (\<sigma> b) = LONG" "reduced q (longVal (\<sigma> b))" "elem_val q (\<sigma> b) = lv (longVal (\<sigma> b))"
        using b long by (auto elim!: elem_cases)
      then show ?thesis using shift_long_is [of \<sigma> a r b, OF a objs' sep] by (simp add: F_shl_def F_shr_def)
    qed
  next
    case False
    let ?k = "sint (shortVal (\<sigma> b))"
    have v: "signed_rep q (elem_val q (\<sigma> b)) = ?k"
      using b False by (auto elim!: elem_cases simp: signed_rep_short)
    note l = do_shl_is [of \<sigma> a _ r, OF a _ sep objs'] and r = do_shr_is [of \<sigma> a _ r, OF a _ objs']
    have z: "elem_is q (do_shr P G r a 0 \<sigma> r) (elem_val q (\<sigma> a))" using r [of 0] by simp
    consider "?k \<le> - 254" | "- 254 < ?k" "?k < 0" | "?k = 0" | "0 < ?k" "?k < 254" | "254 \<le> ?k" by linarith
    then show ?thesis
    proof cases
      case 2
      then show ?thesis using False l [of "nat (- ?k)"] r [of "nat (- ?k)"]
        by (simp add: F_shl_def F_shr_def shift_left_def v)
    next
      case 3
      then show ?thesis using False l [of 0] z shift_left_zero [OF a]
        by (simp add: F_shl_def F_shr_def v) (simp add: shift_left_def)
    next
      case 4
      then show ?thesis using False l [of "nat ?k"] r [of "nat ?k"]
        by (simp add: F_shl_def F_shr_def shift_left_def v)
    qed (use False setzero_is in \<open>simp_all add: F_shl_def F_shr_def shift_left_def v\<close>)
  qed
  then show "elem_is q (F_shl P G r a b \<sigma> r) (shift_left (elem_val q (\<sigma> a)) (signed_rep q (elem_val q (\<sigma> b))))"
    and "elem_is q (F_shr P G r a b \<sigma> r) (shift_left (elem_val q (\<sigma> a)) (- signed_rep q (elem_val q (\<sigma> b))))"
    by blast+
qed

end

end
