(* ===== verification/Fq_Elements.thy ===== *)
theory Fq_Elements
  imports Element_Compare Element_Bits
begin

section \<open>The tagged elements of the base field: \<open>fq_generic.cpp\<close>\<close>

text \<open>
  \<open>fq_generic.cpp\<close> is the text of \<open>fr_generic.cpp\<close> with the constants of the base field. Its functions
  are the definitions of \<open>Element_Arith\<close>, \<open>Element_Compare\<close> and \<open>Element_Bits\<close> at those constants;
  \<open>Fq_mul\<close> is \<open>Fq_mul\<close> of the code and \<open>Fq_mul_l1ms2n\<close> its static function \<open>mul_l1ms2n\<close>.
\<close>

subsection \<open>Conversions and arithmetic\<close>

definition Fq_copy :: "ptr \<Rightarrow> ptr \<Rightarrow> store \<Rightarrow> store" where
  "Fq_copy = F_copy"

definition Fq_toNormal :: "gmp \<Rightarrow> ptr \<Rightarrow> ptr \<Rightarrow> store \<Rightarrow> store" where
  "Fq_toNormal = F_toNormal Fq_consts"

definition Fq_toLongNormal :: "gmp \<Rightarrow> ptr \<Rightarrow> ptr \<Rightarrow> store \<Rightarrow> store" where
  "Fq_toLongNormal = F_toLongNormal Fq_consts"

definition Fq_toMontgomery :: "gmp \<Rightarrow> ptr \<Rightarrow> ptr \<Rightarrow> store \<Rightarrow> store" where
  "Fq_toMontgomery = F_toMontgomery Fq_consts"

definition Fq_copyn :: "nat \<Rightarrow> nat \<Rightarrow> nat \<Rightarrow> store \<Rightarrow> store" where
  "Fq_copyn = F_copyn"

definition Fq_has_mul32_overflow :: "int \<Rightarrow> bool" where
  "Fq_has_mul32_overflow = has_mul32_overflow"

definition Fq_rawSMul :: "s32 \<Rightarrow> s32 \<Rightarrow> int \<times> bool" where
  "Fq_rawSMul = F_rawSMul"

definition Fq_mul_s1s2 :: "gmp \<Rightarrow> ptr \<Rightarrow> ptr \<Rightarrow> ptr \<Rightarrow> store \<Rightarrow> store" where
  "Fq_mul_s1s2 = mul_s1s2 Fq_consts"

definition Fq_mul_l1nl2n :: "gmp \<Rightarrow> ptr \<Rightarrow> ptr \<Rightarrow> ptr \<Rightarrow> store \<Rightarrow> store" where
  "Fq_mul_l1nl2n = mul_l1nl2n Fq_consts"

definition Fq_mul_l1nl2m :: "gmp \<Rightarrow> ptr \<Rightarrow> ptr \<Rightarrow> ptr \<Rightarrow> store \<Rightarrow> store" where
  "Fq_mul_l1nl2m = mul_l1nl2m Fq_consts"

definition Fq_mul_l1ml2m :: "gmp \<Rightarrow> ptr \<Rightarrow> ptr \<Rightarrow> ptr \<Rightarrow> store \<Rightarrow> store" where
  "Fq_mul_l1ml2m = mul_l1ml2m Fq_consts"

definition Fq_mul_l1ml2n :: "gmp \<Rightarrow> ptr \<Rightarrow> ptr \<Rightarrow> ptr \<Rightarrow> store \<Rightarrow> store" where
  "Fq_mul_l1ml2n = mul_l1ml2n Fq_consts"

definition Fq_mul_l1ns2n :: "gmp \<Rightarrow> ptr \<Rightarrow> ptr \<Rightarrow> ptr \<Rightarrow> store \<Rightarrow> store" where
  "Fq_mul_l1ns2n = mul_l1ns2n Fq_consts"

definition Fq_mul_s1nl2n :: "gmp \<Rightarrow> ptr \<Rightarrow> ptr \<Rightarrow> ptr \<Rightarrow> store \<Rightarrow> store" where
  "Fq_mul_s1nl2n = mul_s1nl2n Fq_consts"

definition Fq_mul_l1ms2n :: "gmp \<Rightarrow> ptr \<Rightarrow> ptr \<Rightarrow> ptr \<Rightarrow> store \<Rightarrow> store" where
  "Fq_mul_l1ms2n = mul_l1ms2n Fq_consts"

definition Fq_mul_s1nl2m :: "gmp \<Rightarrow> ptr \<Rightarrow> ptr \<Rightarrow> ptr \<Rightarrow> store \<Rightarrow> store" where
  "Fq_mul_s1nl2m = mul_s1nl2m Fq_consts"

definition Fq_mul_l1ns2m :: "gmp \<Rightarrow> ptr \<Rightarrow> ptr \<Rightarrow> ptr \<Rightarrow> store \<Rightarrow> store" where
  "Fq_mul_l1ns2m = mul_l1ns2m Fq_consts"

definition Fq_mul_l1ms2m :: "gmp \<Rightarrow> ptr \<Rightarrow> ptr \<Rightarrow> ptr \<Rightarrow> store \<Rightarrow> store" where
  "Fq_mul_l1ms2m = mul_l1ms2m Fq_consts"

definition Fq_mul_s1ml2m :: "gmp \<Rightarrow> ptr \<Rightarrow> ptr \<Rightarrow> ptr \<Rightarrow> store \<Rightarrow> store" where
  "Fq_mul_s1ml2m = mul_s1ml2m Fq_consts"

definition Fq_mul_s1ml2n :: "gmp \<Rightarrow> ptr \<Rightarrow> ptr \<Rightarrow> ptr \<Rightarrow> store \<Rightarrow> store" where
  "Fq_mul_s1ml2n = mul_s1ml2n Fq_consts"

definition Fq_mul :: "gmp \<Rightarrow> ptr \<Rightarrow> ptr \<Rightarrow> ptr \<Rightarrow> store \<Rightarrow> store" where
  "Fq_mul = F_mul Fq_consts"

definition Fq_has_add32_overflow :: "int \<Rightarrow> bool" where
  "Fq_has_add32_overflow = has_add32_overflow"

definition Fq_rawSSub :: "s32 \<Rightarrow> s32 \<Rightarrow> int \<times> bool" where
  "Fq_rawSSub = F_rawSSub"

definition Fq_sub_s1s2 :: "gmp \<Rightarrow> ptr \<Rightarrow> ptr \<Rightarrow> ptr \<Rightarrow> store \<Rightarrow> store" where
  "Fq_sub_s1s2 = sub_s1s2 Fq_consts"

definition Fq_sub_l1nl2n :: "gmp \<Rightarrow> ptr \<Rightarrow> ptr \<Rightarrow> ptr \<Rightarrow> store \<Rightarrow> store" where
  "Fq_sub_l1nl2n = sub_l1nl2n Fq_consts"

definition Fq_sub_l1nl2m :: "gmp \<Rightarrow> ptr \<Rightarrow> ptr \<Rightarrow> ptr \<Rightarrow> store \<Rightarrow> store" where
  "Fq_sub_l1nl2m = sub_l1nl2m Fq_consts"

definition Fq_sub_l1ml2m :: "gmp \<Rightarrow> ptr \<Rightarrow> ptr \<Rightarrow> ptr \<Rightarrow> store \<Rightarrow> store" where
  "Fq_sub_l1ml2m = sub_l1ml2m Fq_consts"

definition Fq_sub_l1ml2n :: "gmp \<Rightarrow> ptr \<Rightarrow> ptr \<Rightarrow> ptr \<Rightarrow> store \<Rightarrow> store" where
  "Fq_sub_l1ml2n = sub_l1ml2n Fq_consts"

definition Fq_sub_s1l2n :: "gmp \<Rightarrow> ptr \<Rightarrow> ptr \<Rightarrow> ptr \<Rightarrow> store \<Rightarrow> store" where
  "Fq_sub_s1l2n = sub_s1l2n Fq_consts"

definition Fq_sub_l1ms2n :: "gmp \<Rightarrow> ptr \<Rightarrow> ptr \<Rightarrow> ptr \<Rightarrow> store \<Rightarrow> store" where
  "Fq_sub_l1ms2n = sub_l1ms2n Fq_consts"

definition Fq_sub_s1nl2m :: "gmp \<Rightarrow> ptr \<Rightarrow> ptr \<Rightarrow> ptr \<Rightarrow> store \<Rightarrow> store" where
  "Fq_sub_s1nl2m = sub_s1nl2m Fq_consts"

definition Fq_sub_l1ns2 :: "gmp \<Rightarrow> ptr \<Rightarrow> ptr \<Rightarrow> ptr \<Rightarrow> store \<Rightarrow> store" where
  "Fq_sub_l1ns2 = sub_l1ns2 Fq_consts"

definition Fq_sub_l1ms2m :: "gmp \<Rightarrow> ptr \<Rightarrow> ptr \<Rightarrow> ptr \<Rightarrow> store \<Rightarrow> store" where
  "Fq_sub_l1ms2m = sub_l1ms2m Fq_consts"

definition Fq_sub_s1ml2m :: "gmp \<Rightarrow> ptr \<Rightarrow> ptr \<Rightarrow> ptr \<Rightarrow> store \<Rightarrow> store" where
  "Fq_sub_s1ml2m = sub_s1ml2m Fq_consts"

definition Fq_sub :: "gmp \<Rightarrow> ptr \<Rightarrow> ptr \<Rightarrow> ptr \<Rightarrow> store \<Rightarrow> store" where
  "Fq_sub = F_sub Fq_consts"

definition Fq_rawSAdd :: "s32 \<Rightarrow> s32 \<Rightarrow> int \<times> bool" where
  "Fq_rawSAdd = F_rawSAdd"

definition Fq_add_s1s2 :: "gmp \<Rightarrow> ptr \<Rightarrow> ptr \<Rightarrow> ptr \<Rightarrow> store \<Rightarrow> store" where
  "Fq_add_s1s2 = add_s1s2 Fq_consts"

definition Fq_add_l1nl2n :: "gmp \<Rightarrow> ptr \<Rightarrow> ptr \<Rightarrow> ptr \<Rightarrow> store \<Rightarrow> store" where
  "Fq_add_l1nl2n = add_l1nl2n Fq_consts"

definition Fq_add_l1nl2m :: "gmp \<Rightarrow> ptr \<Rightarrow> ptr \<Rightarrow> ptr \<Rightarrow> store \<Rightarrow> store" where
  "Fq_add_l1nl2m = add_l1nl2m Fq_consts"

definition Fq_add_l1ml2m :: "gmp \<Rightarrow> ptr \<Rightarrow> ptr \<Rightarrow> ptr \<Rightarrow> store \<Rightarrow> store" where
  "Fq_add_l1ml2m = add_l1ml2m Fq_consts"

definition Fq_add_l1ml2n :: "gmp \<Rightarrow> ptr \<Rightarrow> ptr \<Rightarrow> ptr \<Rightarrow> store \<Rightarrow> store" where
  "Fq_add_l1ml2n = add_l1ml2n Fq_consts"

definition Fq_add_s1l2n :: "gmp \<Rightarrow> ptr \<Rightarrow> ptr \<Rightarrow> ptr \<Rightarrow> store \<Rightarrow> store" where
  "Fq_add_s1l2n = add_s1l2n Fq_consts"

definition Fq_add_l1ms2n :: "gmp \<Rightarrow> ptr \<Rightarrow> ptr \<Rightarrow> ptr \<Rightarrow> store \<Rightarrow> store" where
  "Fq_add_l1ms2n = add_l1ms2n Fq_consts"

definition Fq_add_s1nl2m :: "gmp \<Rightarrow> ptr \<Rightarrow> ptr \<Rightarrow> ptr \<Rightarrow> store \<Rightarrow> store" where
  "Fq_add_s1nl2m = add_s1nl2m Fq_consts"

definition Fq_add_l1ns2 :: "gmp \<Rightarrow> ptr \<Rightarrow> ptr \<Rightarrow> ptr \<Rightarrow> store \<Rightarrow> store" where
  "Fq_add_l1ns2 = add_l1ns2 Fq_consts"

definition Fq_add_l1ms2m :: "gmp \<Rightarrow> ptr \<Rightarrow> ptr \<Rightarrow> ptr \<Rightarrow> store \<Rightarrow> store" where
  "Fq_add_l1ms2m = add_l1ms2m Fq_consts"

definition Fq_add_s1ml2m :: "gmp \<Rightarrow> ptr \<Rightarrow> ptr \<Rightarrow> ptr \<Rightarrow> store \<Rightarrow> store" where
  "Fq_add_s1ml2m = add_s1ml2m Fq_consts"

definition Fq_add :: "gmp \<Rightarrow> ptr \<Rightarrow> ptr \<Rightarrow> ptr \<Rightarrow> store \<Rightarrow> store" where
  "Fq_add = F_add Fq_consts"

definition Fq_rawSNeg :: "s32 \<Rightarrow> int \<times> bool" where
  "Fq_rawSNeg = F_rawSNeg"

definition Fq_neg :: "gmp \<Rightarrow> ptr \<Rightarrow> ptr \<Rightarrow> store \<Rightarrow> store" where
  "Fq_neg = F_neg Fq_consts"

definition Fq_square :: "gmp \<Rightarrow> ptr \<Rightarrow> ptr \<Rightarrow> store \<Rightarrow> store" where
  "Fq_square = F_square Fq_consts"

subsection \<open>Truth, integers, comparisons\<close>

definition Fq_isTrue :: "gmp \<Rightarrow> element \<Rightarrow> bool" where
  "Fq_isTrue = F_isTrue"

definition Fq_lor :: "gmp \<Rightarrow> ptr \<Rightarrow> ptr \<Rightarrow> ptr \<Rightarrow> store \<Rightarrow> store" where
  "Fq_lor = F_lor"

definition Fq_land :: "gmp \<Rightarrow> ptr \<Rightarrow> ptr \<Rightarrow> ptr \<Rightarrow> store \<Rightarrow> store" where
  "Fq_land = F_land"

definition Fq_lnot :: "gmp \<Rightarrow> ptr \<Rightarrow> ptr \<Rightarrow> store \<Rightarrow> store" where
  "Fq_lnot = F_lnot"

definition Fq_longNeg :: "gmp \<Rightarrow> bool \<Rightarrow> element \<Rightarrow> abort + int" where
  "Fq_longNeg = F_longNeg Fq_consts"

definition Fq_longNormal :: "gmp \<Rightarrow> bool \<Rightarrow> element \<Rightarrow> abort + int" where
  "Fq_longNormal = F_longNormal Fq_consts"

definition Fq_toInt :: "gmp \<Rightarrow> bool \<Rightarrow> ptr \<Rightarrow> store \<Rightarrow> abort + int" where
  "Fq_toInt = F_toInt Fq_consts"

definition Fq_rlt_s1s2 :: "element \<Rightarrow> element \<Rightarrow> bool" where
  "Fq_rlt_s1s2 = rlt_s1s2"

definition Fq_rltRawL1L2 :: "gmp \<Rightarrow> limbs \<Rightarrow> limbs \<Rightarrow> bool" where
  "Fq_rltRawL1L2 = rltRawL1L2"

definition Fq_rltl1l2_n1 :: "gmp \<Rightarrow> limbs \<Rightarrow> limbs \<Rightarrow> bool" where
  "Fq_rltl1l2_n1 = rltl1l2_n1 Fq_consts"

definition Fq_rltl1l2_p1 :: "gmp \<Rightarrow> limbs \<Rightarrow> limbs \<Rightarrow> bool" where
  "Fq_rltl1l2_p1 = rltl1l2_p1 Fq_consts"

definition Fq_rltL1L2 :: "gmp \<Rightarrow> limbs \<Rightarrow> limbs \<Rightarrow> bool" where
  "Fq_rltL1L2 = rltL1L2 Fq_consts"

definition Fq_rlt_l1nl2n :: "gmp \<Rightarrow> ptr \<Rightarrow> ptr \<Rightarrow> store \<Rightarrow> bool" where
  "Fq_rlt_l1nl2n = rlt_l1nl2n Fq_consts"

definition Fq_rlt_l1nl2m :: "gmp \<Rightarrow> ptr \<Rightarrow> ptr \<Rightarrow> store \<Rightarrow> bool" where
  "Fq_rlt_l1nl2m = rlt_l1nl2m Fq_consts"

definition Fq_rlt_l1ml2m :: "gmp \<Rightarrow> ptr \<Rightarrow> ptr \<Rightarrow> store \<Rightarrow> bool" where
  "Fq_rlt_l1ml2m = rlt_l1ml2m Fq_consts"

definition Fq_rlt_l1ml2n :: "gmp \<Rightarrow> ptr \<Rightarrow> ptr \<Rightarrow> store \<Rightarrow> bool" where
  "Fq_rlt_l1ml2n = rlt_l1ml2n Fq_consts"

definition Fq_rlt_s1l2n :: "gmp \<Rightarrow> ptr \<Rightarrow> ptr \<Rightarrow> store \<Rightarrow> bool" where
  "Fq_rlt_s1l2n = rlt_s1l2n Fq_consts"

definition Fq_rlt_l1ms2 :: "gmp \<Rightarrow> ptr \<Rightarrow> ptr \<Rightarrow> store \<Rightarrow> bool" where
  "Fq_rlt_l1ms2 = rlt_l1ms2 Fq_consts"

definition Fq_rlt_s1l2m :: "gmp \<Rightarrow> ptr \<Rightarrow> ptr \<Rightarrow> store \<Rightarrow> bool" where
  "Fq_rlt_s1l2m = rlt_s1l2m Fq_consts"

definition Fq_rlt_l1ns2 :: "gmp \<Rightarrow> ptr \<Rightarrow> ptr \<Rightarrow> store \<Rightarrow> bool" where
  "Fq_rlt_l1ns2 = rlt_l1ns2 Fq_consts"

definition Fq_rlt :: "gmp \<Rightarrow> ptr \<Rightarrow> ptr \<Rightarrow> store \<Rightarrow> bool" where
  "Fq_rlt = F_rlt Fq_consts"

definition Fq_lt :: "gmp \<Rightarrow> ptr \<Rightarrow> ptr \<Rightarrow> ptr \<Rightarrow> store \<Rightarrow> store" where
  "Fq_lt = F_lt Fq_consts"

definition Fq_geq :: "gmp \<Rightarrow> ptr \<Rightarrow> ptr \<Rightarrow> ptr \<Rightarrow> store \<Rightarrow> store" where
  "Fq_geq = F_geq Fq_consts"

definition Fq_rgt_s1s2 :: "element \<Rightarrow> element \<Rightarrow> bool" where
  "Fq_rgt_s1s2 = rgt_s1s2"

definition Fq_rgtRawL1L2 :: "gmp \<Rightarrow> limbs \<Rightarrow> limbs \<Rightarrow> bool" where
  "Fq_rgtRawL1L2 = rgtRawL1L2"

definition Fq_rgtl1l2_n1 :: "gmp \<Rightarrow> limbs \<Rightarrow> limbs \<Rightarrow> bool" where
  "Fq_rgtl1l2_n1 = rgtl1l2_n1 Fq_consts"

definition Fq_rgtl1l2_p1 :: "gmp \<Rightarrow> limbs \<Rightarrow> limbs \<Rightarrow> bool" where
  "Fq_rgtl1l2_p1 = rgtl1l2_p1 Fq_consts"

definition Fq_rgtL1L2 :: "gmp \<Rightarrow> limbs \<Rightarrow> limbs \<Rightarrow> bool" where
  "Fq_rgtL1L2 = rgtL1L2 Fq_consts"

definition Fq_rgt_l1nl2n :: "gmp \<Rightarrow> ptr \<Rightarrow> ptr \<Rightarrow> store \<Rightarrow> bool" where
  "Fq_rgt_l1nl2n = rgt_l1nl2n Fq_consts"

definition Fq_rgt_l1nl2m :: "gmp \<Rightarrow> ptr \<Rightarrow> ptr \<Rightarrow> store \<Rightarrow> bool" where
  "Fq_rgt_l1nl2m = rgt_l1nl2m Fq_consts"

definition Fq_rgt_l1ml2m :: "gmp \<Rightarrow> ptr \<Rightarrow> ptr \<Rightarrow> store \<Rightarrow> bool" where
  "Fq_rgt_l1ml2m = rgt_l1ml2m Fq_consts"

definition Fq_rgt_l1ml2n :: "gmp \<Rightarrow> ptr \<Rightarrow> ptr \<Rightarrow> store \<Rightarrow> bool" where
  "Fq_rgt_l1ml2n = rgt_l1ml2n Fq_consts"

definition Fq_rgt_s1l2n :: "gmp \<Rightarrow> ptr \<Rightarrow> ptr \<Rightarrow> store \<Rightarrow> bool" where
  "Fq_rgt_s1l2n = rgt_s1l2n Fq_consts"

definition Fq_rgt_l1ms2 :: "gmp \<Rightarrow> ptr \<Rightarrow> ptr \<Rightarrow> store \<Rightarrow> bool" where
  "Fq_rgt_l1ms2 = rgt_l1ms2 Fq_consts"

definition Fq_rgt_s1l2m :: "gmp \<Rightarrow> ptr \<Rightarrow> ptr \<Rightarrow> store \<Rightarrow> bool" where
  "Fq_rgt_s1l2m = rgt_s1l2m Fq_consts"

definition Fq_rgt_l1ns2 :: "gmp \<Rightarrow> ptr \<Rightarrow> ptr \<Rightarrow> store \<Rightarrow> bool" where
  "Fq_rgt_l1ns2 = rgt_l1ns2 Fq_consts"

definition Fq_rgt :: "gmp \<Rightarrow> ptr \<Rightarrow> ptr \<Rightarrow> store \<Rightarrow> bool" where
  "Fq_rgt = F_rgt Fq_consts"

definition Fq_gt :: "gmp \<Rightarrow> ptr \<Rightarrow> ptr \<Rightarrow> ptr \<Rightarrow> store \<Rightarrow> store" where
  "Fq_gt = F_gt Fq_consts"

definition Fq_leq :: "gmp \<Rightarrow> ptr \<Rightarrow> ptr \<Rightarrow> ptr \<Rightarrow> store \<Rightarrow> store" where
  "Fq_leq = F_leq Fq_consts"

definition Fq_req_s1s2 :: "element \<Rightarrow> element \<Rightarrow> bool" where
  "Fq_req_s1s2 = req_s1s2"

definition Fq_reqL1L2 :: "gmp \<Rightarrow> limbs \<Rightarrow> limbs \<Rightarrow> bool" where
  "Fq_reqL1L2 = reqL1L2"

definition Fq_req_l1nl2n :: "gmp \<Rightarrow> ptr \<Rightarrow> ptr \<Rightarrow> store \<Rightarrow> bool" where
  "Fq_req_l1nl2n = req_l1nl2n Fq_consts"

definition Fq_req_l1nl2m :: "gmp \<Rightarrow> ptr \<Rightarrow> ptr \<Rightarrow> store \<Rightarrow> bool" where
  "Fq_req_l1nl2m = req_l1nl2m Fq_consts"

definition Fq_req_l1ml2m :: "gmp \<Rightarrow> ptr \<Rightarrow> ptr \<Rightarrow> store \<Rightarrow> bool" where
  "Fq_req_l1ml2m = req_l1ml2m Fq_consts"

definition Fq_req_l1ml2n :: "gmp \<Rightarrow> ptr \<Rightarrow> ptr \<Rightarrow> store \<Rightarrow> bool" where
  "Fq_req_l1ml2n = req_l1ml2n Fq_consts"

definition Fq_req_s1l2n :: "gmp \<Rightarrow> ptr \<Rightarrow> ptr \<Rightarrow> store \<Rightarrow> bool" where
  "Fq_req_s1l2n = req_s1l2n Fq_consts"

definition Fq_req_l1ms2 :: "gmp \<Rightarrow> ptr \<Rightarrow> ptr \<Rightarrow> store \<Rightarrow> bool" where
  "Fq_req_l1ms2 = req_l1ms2 Fq_consts"

definition Fq_req_s1l2m :: "gmp \<Rightarrow> ptr \<Rightarrow> ptr \<Rightarrow> store \<Rightarrow> bool" where
  "Fq_req_s1l2m = req_s1l2m Fq_consts"

definition Fq_req_l1ns2 :: "gmp \<Rightarrow> ptr \<Rightarrow> ptr \<Rightarrow> store \<Rightarrow> bool" where
  "Fq_req_l1ns2 = req_l1ns2 Fq_consts"

definition Fq_req :: "gmp \<Rightarrow> ptr \<Rightarrow> ptr \<Rightarrow> store \<Rightarrow> bool" where
  "Fq_req = F_req Fq_consts"

definition Fq_eq :: "gmp \<Rightarrow> ptr \<Rightarrow> ptr \<Rightarrow> ptr \<Rightarrow> store \<Rightarrow> store" where
  "Fq_eq = F_eq Fq_consts"

definition Fq_neq :: "gmp \<Rightarrow> ptr \<Rightarrow> ptr \<Rightarrow> ptr \<Rightarrow> store \<Rightarrow> store" where
  "Fq_neq = F_neq Fq_consts"

subsection \<open>Bitwise operations and shifts\<close>

definition Fq_and_s1s2 :: "gmp \<Rightarrow> ptr \<Rightarrow> ptr \<Rightarrow> ptr \<Rightarrow> store \<Rightarrow> store" where
  "Fq_and_s1s2 = and_s1s2 Fq_consts"

definition Fq_and_l1nl2n :: "gmp \<Rightarrow> ptr \<Rightarrow> ptr \<Rightarrow> ptr \<Rightarrow> store \<Rightarrow> store" where
  "Fq_and_l1nl2n = and_l1nl2n Fq_consts"

definition Fq_and_l1nl2m :: "gmp \<Rightarrow> ptr \<Rightarrow> ptr \<Rightarrow> ptr \<Rightarrow> store \<Rightarrow> store" where
  "Fq_and_l1nl2m = and_l1nl2m Fq_consts"

definition Fq_and_l1ml2m :: "gmp \<Rightarrow> ptr \<Rightarrow> ptr \<Rightarrow> ptr \<Rightarrow> store \<Rightarrow> store" where
  "Fq_and_l1ml2m = and_l1ml2m Fq_consts"

definition Fq_and_l1ml2n :: "gmp \<Rightarrow> ptr \<Rightarrow> ptr \<Rightarrow> ptr \<Rightarrow> store \<Rightarrow> store" where
  "Fq_and_l1ml2n = and_l1ml2n Fq_consts"

definition Fq_and_s1l2n :: "gmp \<Rightarrow> ptr \<Rightarrow> ptr \<Rightarrow> ptr \<Rightarrow> store \<Rightarrow> store" where
  "Fq_and_s1l2n = and_s1l2n Fq_consts"

definition Fq_and_l1ms2 :: "gmp \<Rightarrow> ptr \<Rightarrow> ptr \<Rightarrow> ptr \<Rightarrow> store \<Rightarrow> store" where
  "Fq_and_l1ms2 = and_l1ms2 Fq_consts"

definition Fq_and_s1l2m :: "gmp \<Rightarrow> ptr \<Rightarrow> ptr \<Rightarrow> ptr \<Rightarrow> store \<Rightarrow> store" where
  "Fq_and_s1l2m = and_s1l2m Fq_consts"

definition Fq_and_l1ns2 :: "gmp \<Rightarrow> ptr \<Rightarrow> ptr \<Rightarrow> ptr \<Rightarrow> store \<Rightarrow> store" where
  "Fq_and_l1ns2 = and_l1ns2 Fq_consts"

definition Fq_band :: "gmp \<Rightarrow> ptr \<Rightarrow> ptr \<Rightarrow> ptr \<Rightarrow> store \<Rightarrow> store" where
  "Fq_band = F_band Fq_consts"

definition Fq_or_s1s2 :: "gmp \<Rightarrow> ptr \<Rightarrow> ptr \<Rightarrow> ptr \<Rightarrow> store \<Rightarrow> store" where
  "Fq_or_s1s2 = or_s1s2 Fq_consts"

definition Fq_or_l1nl2n :: "gmp \<Rightarrow> ptr \<Rightarrow> ptr \<Rightarrow> ptr \<Rightarrow> store \<Rightarrow> store" where
  "Fq_or_l1nl2n = or_l1nl2n Fq_consts"

definition Fq_or_l1nl2m :: "gmp \<Rightarrow> ptr \<Rightarrow> ptr \<Rightarrow> ptr \<Rightarrow> store \<Rightarrow> store" where
  "Fq_or_l1nl2m = or_l1nl2m Fq_consts"

definition Fq_or_l1ml2m :: "gmp \<Rightarrow> ptr \<Rightarrow> ptr \<Rightarrow> ptr \<Rightarrow> store \<Rightarrow> store" where
  "Fq_or_l1ml2m = or_l1ml2m Fq_consts"

definition Fq_or_l1ml2n :: "gmp \<Rightarrow> ptr \<Rightarrow> ptr \<Rightarrow> ptr \<Rightarrow> store \<Rightarrow> store" where
  "Fq_or_l1ml2n = or_l1ml2n Fq_consts"

definition Fq_or_s1l2n :: "gmp \<Rightarrow> ptr \<Rightarrow> ptr \<Rightarrow> ptr \<Rightarrow> store \<Rightarrow> store" where
  "Fq_or_s1l2n = or_s1l2n Fq_consts"

definition Fq_or_l1ms2 :: "gmp \<Rightarrow> ptr \<Rightarrow> ptr \<Rightarrow> ptr \<Rightarrow> store \<Rightarrow> store" where
  "Fq_or_l1ms2 = or_l1ms2 Fq_consts"

definition Fq_or_s1l2m :: "gmp \<Rightarrow> ptr \<Rightarrow> ptr \<Rightarrow> ptr \<Rightarrow> store \<Rightarrow> store" where
  "Fq_or_s1l2m = or_s1l2m Fq_consts"

definition Fq_or_l1ns2 :: "gmp \<Rightarrow> ptr \<Rightarrow> ptr \<Rightarrow> ptr \<Rightarrow> store \<Rightarrow> store" where
  "Fq_or_l1ns2 = or_l1ns2 Fq_consts"

definition Fq_bor :: "gmp \<Rightarrow> ptr \<Rightarrow> ptr \<Rightarrow> ptr \<Rightarrow> store \<Rightarrow> store" where
  "Fq_bor = F_bor Fq_consts"

definition Fq_xor_s1s2 :: "gmp \<Rightarrow> ptr \<Rightarrow> ptr \<Rightarrow> ptr \<Rightarrow> store \<Rightarrow> store" where
  "Fq_xor_s1s2 = xor_s1s2 Fq_consts"

definition Fq_xor_l1nl2n :: "gmp \<Rightarrow> ptr \<Rightarrow> ptr \<Rightarrow> ptr \<Rightarrow> store \<Rightarrow> store" where
  "Fq_xor_l1nl2n = xor_l1nl2n Fq_consts"

definition Fq_xor_l1nl2m :: "gmp \<Rightarrow> ptr \<Rightarrow> ptr \<Rightarrow> ptr \<Rightarrow> store \<Rightarrow> store" where
  "Fq_xor_l1nl2m = xor_l1nl2m Fq_consts"

definition Fq_xor_l1ml2m :: "gmp \<Rightarrow> ptr \<Rightarrow> ptr \<Rightarrow> ptr \<Rightarrow> store \<Rightarrow> store" where
  "Fq_xor_l1ml2m = xor_l1ml2m Fq_consts"

definition Fq_xor_l1ml2n :: "gmp \<Rightarrow> ptr \<Rightarrow> ptr \<Rightarrow> ptr \<Rightarrow> store \<Rightarrow> store" where
  "Fq_xor_l1ml2n = xor_l1ml2n Fq_consts"

definition Fq_xor_s1l2n :: "gmp \<Rightarrow> ptr \<Rightarrow> ptr \<Rightarrow> ptr \<Rightarrow> store \<Rightarrow> store" where
  "Fq_xor_s1l2n = xor_s1l2n Fq_consts"

definition Fq_xor_l1ms2 :: "gmp \<Rightarrow> ptr \<Rightarrow> ptr \<Rightarrow> ptr \<Rightarrow> store \<Rightarrow> store" where
  "Fq_xor_l1ms2 = xor_l1ms2 Fq_consts"

definition Fq_xor_s1l2m :: "gmp \<Rightarrow> ptr \<Rightarrow> ptr \<Rightarrow> ptr \<Rightarrow> store \<Rightarrow> store" where
  "Fq_xor_s1l2m = xor_s1l2m Fq_consts"

definition Fq_xor_l1ns2 :: "gmp \<Rightarrow> ptr \<Rightarrow> ptr \<Rightarrow> ptr \<Rightarrow> store \<Rightarrow> store" where
  "Fq_xor_l1ns2 = xor_l1ns2 Fq_consts"

definition Fq_bxor :: "gmp \<Rightarrow> ptr \<Rightarrow> ptr \<Rightarrow> ptr \<Rightarrow> store \<Rightarrow> store" where
  "Fq_bxor = F_bxor Fq_consts"

definition Fq_bnot :: "gmp \<Rightarrow> ptr \<Rightarrow> ptr \<Rightarrow> store \<Rightarrow> store" where
  "Fq_bnot = F_bnot Fq_consts"

definition Fq_checked_rawShl :: "gmp \<Rightarrow> bool \<Rightarrow> limbs \<Rightarrow> nat \<Rightarrow> limbs" where
  "Fq_checked_rawShl = checked_rawShl Fq_consts"

definition Fq_checked_rawShr :: "gmp \<Rightarrow> limbs \<Rightarrow> nat \<Rightarrow> limbs" where
  "Fq_checked_rawShr = checked_rawShr"

definition Fq_setzero :: "ptr \<Rightarrow> store \<Rightarrow> store" where
  "Fq_setzero = F_setzero"

definition Fq_do_shlcl :: "gmp \<Rightarrow> ptr \<Rightarrow> ptr \<Rightarrow> nat \<Rightarrow> store \<Rightarrow> store" where
  "Fq_do_shlcl = do_shlcl Fq_consts"

definition Fq_do_shlln :: "gmp \<Rightarrow> ptr \<Rightarrow> ptr \<Rightarrow> nat \<Rightarrow> store \<Rightarrow> store" where
  "Fq_do_shlln = do_shlln Fq_consts"

definition Fq_do_shl :: "gmp \<Rightarrow> ptr \<Rightarrow> ptr \<Rightarrow> nat \<Rightarrow> store \<Rightarrow> store" where
  "Fq_do_shl = do_shl Fq_consts"

definition Fq_do_shrln :: "gmp \<Rightarrow> ptr \<Rightarrow> ptr \<Rightarrow> nat \<Rightarrow> store \<Rightarrow> store" where
  "Fq_do_shrln = do_shrln"

definition Fq_do_shrl :: "gmp \<Rightarrow> ptr \<Rightarrow> ptr \<Rightarrow> nat \<Rightarrow> store \<Rightarrow> store" where
  "Fq_do_shrl = do_shrl Fq_consts"

definition Fq_do_shr :: "gmp \<Rightarrow> ptr \<Rightarrow> ptr \<Rightarrow> nat \<Rightarrow> store \<Rightarrow> store" where
  "Fq_do_shr = do_shr Fq_consts"

definition Fq_shr_big_shift :: "gmp \<Rightarrow> ptr \<Rightarrow> ptr \<Rightarrow> ptr \<Rightarrow> store \<Rightarrow> store" where
  "Fq_shr_big_shift = F_shr_big_shift Fq_consts"

definition Fq_shr_long :: "gmp \<Rightarrow> ptr \<Rightarrow> ptr \<Rightarrow> ptr \<Rightarrow> store \<Rightarrow> store" where
  "Fq_shr_long = F_shr_long Fq_consts"

definition Fq_shr :: "gmp \<Rightarrow> ptr \<Rightarrow> ptr \<Rightarrow> ptr \<Rightarrow> store \<Rightarrow> store" where
  "Fq_shr = F_shr Fq_consts"

definition Fq_shl_big_shift :: "gmp \<Rightarrow> ptr \<Rightarrow> ptr \<Rightarrow> ptr \<Rightarrow> store \<Rightarrow> store" where
  "Fq_shl_big_shift = F_shl_big_shift Fq_consts"

definition Fq_shl_long :: "gmp \<Rightarrow> ptr \<Rightarrow> ptr \<Rightarrow> ptr \<Rightarrow> store \<Rightarrow> store" where
  "Fq_shl_long = F_shl_long Fq_consts"

definition Fq_shl :: "gmp \<Rightarrow> ptr \<Rightarrow> ptr \<Rightarrow> ptr \<Rightarrow> store \<Rightarrow> store" where
  "Fq_shl = F_shl Fq_consts"

end
