(* ===== verification/Elements.thy ===== *)
theory Elements
  imports Element_Bits_Laws Fq_Elements
begin

section \<open>Tagged elements: the store invariant and the properties of the operations\<close>

text \<open>
  The caller's view: every call on objects of the caller changes one object, its result, and keeps
  all of them well-formed. \<open>elem_call\<close> is one call; a run of the program on tagged elements is a
  sequence of calls. The properties hold of both fields (\<open>bn254_field\<close>) and for every GMP that meets
  its documentation (\<open>mpn_laws\<close>).
\<close>

definition store_ok :: "nat \<Rightarrow> store \<Rightarrow> bool" where
  "store_ok q \<sigma> \<longleftrightarrow> (\<forall>n. elem_ok q (\<sigma> (Obj n)))"

text \<open>
  The calls. The side conditions are those under which the operation computes its specification:
  a result distinct from the arguments wherever the code converts an argument after it has written
  the tag of the result; \<open>Fr_toMontgomery\<close> of a short element only in place.
\<close>

inductive elem_call :: "raw_consts \<Rightarrow> gmp \<Rightarrow> store \<Rightarrow> store \<Rightarrow> bool" for P :: raw_consts and G :: gmp where
  call_copy: "elem_call P G \<sigma> (F_copy (Obj r) (Obj a) \<sigma>)"
| call_copyn: "elem_call P G \<sigma> (F_copyn r a n \<sigma>)"
| call_toNormal: "elem_call P G \<sigma> (F_toNormal P G (Obj r) (Obj a) \<sigma>)"
| call_toLongNormal: "elem_call P G \<sigma> (F_toLongNormal P G (Obj r) (Obj a) \<sigma>)"
| call_toMontgomery: "r = a \<or> type (\<sigma> (Obj a)) \<noteq> SHORT
    \<Longrightarrow> elem_call P G \<sigma> (F_toMontgomery P G (Obj r) (Obj a) \<sigma>)"
| call_mul: "elem_call P G \<sigma> (F_mul P G (Obj r) (Obj a) (Obj b) \<sigma>)"
| call_square: "elem_call P G \<sigma> (F_square P G (Obj r) (Obj a) \<sigma>)"
| call_neg: "elem_call P G \<sigma> (F_neg P G (Obj r) (Obj a) \<sigma>)"
| call_add: "(r \<noteq> a \<and> r \<noteq> b) \<or> type (\<sigma> (Obj a)) = type (\<sigma> (Obj b))
    \<Longrightarrow> elem_call P G \<sigma> (F_add P G (Obj r) (Obj a) (Obj b) \<sigma>)"
| call_sub: "(r \<noteq> a \<and> r \<noteq> b) \<or> type (\<sigma> (Obj a)) = type (\<sigma> (Obj b))
    \<Longrightarrow> elem_call P G \<sigma> (F_sub P G (Obj r) (Obj a) (Obj b) \<sigma>)"
| call_lt: "elem_call P G \<sigma> (F_lt P G (Obj r) (Obj a) (Obj b) \<sigma>)"
| call_geq: "elem_call P G \<sigma> (F_geq P G (Obj r) (Obj a) (Obj b) \<sigma>)"
| call_gt: "elem_call P G \<sigma> (F_gt P G (Obj r) (Obj a) (Obj b) \<sigma>)"
| call_leq: "elem_call P G \<sigma> (F_leq P G (Obj r) (Obj a) (Obj b) \<sigma>)"
| call_eq: "elem_call P G \<sigma> (F_eq P G (Obj r) (Obj a) (Obj b) \<sigma>)"
| call_neq: "elem_call P G \<sigma> (F_neq P G (Obj r) (Obj a) (Obj b) \<sigma>)"
| call_land: "elem_call P G \<sigma> (F_land G (Obj r) (Obj a) (Obj b) \<sigma>)"
| call_lor: "elem_call P G \<sigma> (F_lor G (Obj r) (Obj a) (Obj b) \<sigma>)"
| call_lnot: "elem_call P G \<sigma> (F_lnot G (Obj r) (Obj a) \<sigma>)"
| call_band: "(r \<noteq> a \<and> r \<noteq> b) \<or> (type (\<sigma> (Obj a)) = LONG \<and> type (\<sigma> (Obj b)) = LONG)
    \<Longrightarrow> elem_call P G \<sigma> (F_band P G (Obj r) (Obj a) (Obj b) \<sigma>)"
| call_bor: "(r \<noteq> a \<and> r \<noteq> b) \<or> (type (\<sigma> (Obj a)) = LONG \<and> type (\<sigma> (Obj b)) = LONG)
    \<Longrightarrow> elem_call P G \<sigma> (F_bor P G (Obj r) (Obj a) (Obj b) \<sigma>)"
| call_bxor: "(r \<noteq> a \<and> r \<noteq> b) \<or> (type (\<sigma> (Obj a)) = LONG \<and> type (\<sigma> (Obj b)) = LONG)
    \<Longrightarrow> elem_call P G \<sigma> (F_bxor P G (Obj r) (Obj a) (Obj b) \<sigma>)"
| call_bnot: "r \<noteq> a \<or> type (\<sigma> (Obj a)) = LONG \<Longrightarrow> elem_call P G \<sigma> (F_bnot P G (Obj r) (Obj a) \<sigma>)"
| call_shl: "r \<noteq> a \<or> type (\<sigma> (Obj a)) \<noteq> LONG \<Longrightarrow> elem_call P G \<sigma> (F_shl P G (Obj r) (Obj a) (Obj b) \<sigma>)"
| call_shr: "r \<noteq> a \<or> type (\<sigma> (Obj a)) \<noteq> LONG \<Longrightarrow> elem_call P G \<sigma> (F_shr P G (Obj r) (Obj a) (Obj b) \<sigma>)"

subsection \<open>Frames\<close>

lemma convert_other:
  assumes "p \<noteq> r"
  shows "F_toNormal P G r a \<sigma> p = \<sigma> p" "F_toLongNormal P G r a \<sigma> p = \<sigma> p" "F_toMontgomery P G r a \<sigma> p = \<sigma> p"
    "F_copy r a \<sigma> p = \<sigma> p"
  using assms by (simp_all add: F_toNormal_def F_toLongNormal_def F_toMontgomery_def F_copy_def Let_def)

lemma if_other: "p \<noteq> x \<Longrightarrow> f p = \<sigma> p \<Longrightarrow> (if c then \<sigma>(x := e) else f) p = \<sigma> p"
  by simp

lemma bit_leaves_other:
  assumes "Obj p \<noteq> r"
  shows "bit_l1nl2n rop P G r a b \<sigma> (Obj p) = \<sigma> (Obj p)" "bit_l1nl2m rop P G r a b \<sigma> (Obj p) = \<sigma> (Obj p)"
    "bit_l1ml2m rop P G r a b \<sigma> (Obj p) = \<sigma> (Obj p)" "bit_l1ml2n rop P G r a b \<sigma> (Obj p) = \<sigma> (Obj p)"
    "bit_s1l2n rop P G r a b \<sigma> (Obj p) = \<sigma> (Obj p)" "bit_l1ms2 rop P G r a b \<sigma> (Obj p) = \<sigma> (Obj p)"
    "bit_s1l2m rop P G r a b \<sigma> (Obj p) = \<sigma> (Obj p)" "bit_l1ns2 rop P G r a b \<sigma> (Obj p) = \<sigma> (Obj p)"
    "bit_s1s2 rop sop P G r a b \<sigma> (Obj p) = \<sigma> (Obj p)"
  using assms
  by (simp_all add: bit_l1nl2n_def bit_l1nl2m_def bit_l1ml2m_def bit_l1ml2n_def bit_s1l2n_def
      bit_l1ms2_def bit_s1l2m_def bit_l1ns2_def bit_s1s2_def Let_def convert_other if_other
      del: if_split split del: if_split cong: if_cong)
    (simp_all add: convert_other)

lemma bitwise_other: "Obj p \<noteq> r \<Longrightarrow> bit_dispatch rop sop P G r a b \<sigma> (Obj p) = \<sigma> (Obj p)"
  by (simp add: bit_dispatch_def bit_leaves_other)

lemma bnot_other: "Obj p \<noteq> r \<Longrightarrow> F_bnot P G r a \<sigma> (Obj p) = \<sigma> (Obj p)"
  by (simp add: F_bnot_def Let_def convert_other)

lemma do_shift_other:
  assumes "Obj p \<noteq> r"
  shows "do_shl P G r a k \<sigma> (Obj p) = \<sigma> (Obj p)" and "do_shr P G r a k \<sigma> (Obj p) = \<sigma> (Obj p)"
  using assms
  by (simp_all add: do_shl_def do_shr_def do_shrl_def do_shrln_def do_shlln_def do_shlcl_def F_setzero_def
      Let_def convert_other)

lemma shift_other:
  assumes "Obj p \<noteq> r"
  shows "F_shl P G r a b \<sigma> (Obj p) = \<sigma> (Obj p)" and "F_shr P G r a b \<sigma> (Obj p) = \<sigma> (Obj p)"
  using assms
  by (simp_all add: F_shl_def F_shr_def F_shl_long_def F_shr_long_def F_shl_big_shift_def F_shr_big_shift_def
      F_setzero_def Let_def convert_other do_shift_other)

lemma square_neg_other:
  assumes "p \<noteq> r"
  shows "F_square P G r a \<sigma> p = \<sigma> p" and "F_neg P G r a \<sigma> p = \<sigma> p"
  using assms by (simp_all add: F_square_def F_neg_def F_rawSMul_def F_rawSNeg_def Let_def)

context raw_field begin

lemmas frames = bitwise_other bnot_other shift_other square_neg_other convert_other F_mul_other
  F_add_other F_sub_other F_flags_other

lemma store_ok_update:
  assumes "store_ok q \<sigma>" and "elem_ok q (\<sigma>' (Obj r))" and "\<And>p. p \<noteq> r \<Longrightarrow> \<sigma>' (Obj p) = \<sigma> (Obj p)"
  shows "store_ok q \<sigma>'"
  unfolding store_ok_def using assms by (metis store_ok_def)

lemma store_okD: "store_ok q \<sigma> \<Longrightarrow> elem_ok q (\<sigma> (Obj n))"
  by (simp add: store_ok_def)

lemma flag_ok: "flag_is e c \<Longrightarrow> elem_ok q e"
  using flag_is_ok [of e c q] by (simp add: elem_is_def)

lemma is_ok: "elem_is q e v \<Longrightarrow> elem_ok q e"
  by (simp add: elem_is_def)

lemma long_ok: "type e = LONG \<Longrightarrow> reduced q (longVal e) \<Longrightarrow> elem_ok q e"
  by (simp add: elem_ok_def)

lemma mont_ok: "type e = LONGMONTGOMERY \<Longrightarrow> reduced q (longVal e) \<Longrightarrow> elem_ok q e"
  by (simp add: elem_ok_def)

lemma toNormal_ok:
  assumes ok: "elem_ok q (\<sigma> a)"
  shows "elem_ok q (F_toNormal P G r a \<sigma> r)"
proof (cases "type (\<sigma> a) = LONGMONTGOMERY")
  case True
  then show ?thesis using toNormal_long [of \<sigma> a, OF ok] by (intro long_ok) simp_all
next
  case False
  then show ?thesis using ok by (simp add: F_toNormal_def F_copy_def)
qed

lemma toMontgomery_ok:
  assumes ok: "elem_ok q (\<sigma> a)" and c: "r = a \<or> type (\<sigma> a) \<noteq> SHORT"
  shows "elem_ok q (F_toMontgomery P G r a \<sigma> r)"
proof -
  note v = toMontgomery_long [of \<sigma> a, OF ok, of r]
  consider "type (\<sigma> a) = SHORT" | "type (\<sigma> a) = LONG" | "is_mont (\<sigma> a)" using ok by (auto elim!: elem_cases)
  then show ?thesis
  proof cases
    case 1
    then have "shortVal (F_toMontgomery P G r a \<sigma> r) = shortVal (\<sigma> a)"
      and "type (F_toMontgomery P G r a \<sigma> r) = SHORTMONTGOMERY"
      using c by (simp_all add: F_toMontgomery_def Let_def)
    moreover have "elem_val q (\<sigma> a) = sint (shortVal (\<sigma> a)) mod Z" using 1 by (simp add: elem_val_def)
    ultimately show ?thesis using v unfolding elem_ok_def by simp
  next
    case 2
    then have "type (F_toMontgomery P G r a \<sigma> r) = LONGMONTGOMERY" by (simp add: F_toMontgomery_def Let_def)
    then show ?thesis using v by (intro mont_ok)
  next
    case 3
    then show ?thesis using ok by (simp add: F_toMontgomery_def F_copy_def)
  qed
qed

lemma toLongNormal_ok: "elem_ok q (\<sigma> a) \<Longrightarrow> elem_ok q (F_toLongNormal P G r a \<sigma> r)"
  using toLongNormal_long [of \<sigma> a] by (intro long_ok) simp_all

lemma copy_ok: "elem_ok q (\<sigma> a) \<Longrightarrow> elem_ok q (F_copy r a \<sigma> r)"
  by (simp add: F_copy_def)

lemmas convert_ok = toNormal_ok toMontgomery_ok toLongNormal_ok copy_ok

lemma convert_val:
  assumes ok: "elem_ok q (\<sigma> a)"
  shows "elem_val q (F_toMontgomery P G r a \<sigma> r) = elem_val q (\<sigma> a)
    \<and> elem_val q (F_toNormal P G r a \<sigma> r) = elem_val q (\<sigma> a)
    \<and> elem_val q (F_toLongNormal P G r a \<sigma> r) = elem_val q (\<sigma> a)"
proof (intro conjI)
  have "is_mont (F_toMontgomery P G r a \<sigma> r)"
    using ok by (auto elim!: elem_cases simp: F_toMontgomery_def F_copy_def Let_def)
  then show "elem_val q (F_toMontgomery P G r a \<sigma> r) = elem_val q (\<sigma> a)"
    using toMontgomery_long(2) [of \<sigma> a, OF ok, of r] by (simp add: elem_val_def)
  show "elem_val q (F_toLongNormal P G r a \<sigma> r) = elem_val q (\<sigma> a)"
    using toLongNormal_long(1,3) [of \<sigma> a, OF ok, of r] by (simp add: elem_val_def)
  show "elem_val q (F_toNormal P G r a \<sigma> r) = elem_val q (\<sigma> a)"
  proof (cases "type (\<sigma> a) = LONGMONTGOMERY")
    case True
    then show ?thesis using toNormal_long(1,3) [of \<sigma> a, OF ok, of r] by (simp add: elem_val_def)
  next
    case False
    then show ?thesis by (simp add: F_toNormal_def F_copy_def)
  qed
qed

lemma convert_back:
  assumes ok: "elem_ok q (\<sigma> a)" and long: "type (\<sigma> a) = LONG"
  shows "longVal (F_toNormal P G s r (F_toMontgomery P G r a \<sigma>) s) = longVal (\<sigma> a)"
proof -
  have "longVal (F_toMontgomery P G r a \<sigma> r) = rawToMontgomery P G (longVal (\<sigma> a))"
    and "type (F_toMontgomery P G r a \<sigma> r) = LONGMONTGOMERY"
    using long by (simp_all add: F_toMontgomery_def Let_def rawToMontgomery_def)
  moreover have "reduced q (longVal (\<sigma> a))" using ok long by (auto elim!: elem_cases)
  ultimately show ?thesis by (simp add: F_toNormal_def Let_def to_from_Montgomery)
qed

text \<open>What the mixed operations compute when the result is an argument that needs a conversion.\<close>

lemma aliased_add:
  assumes "type (\<sigma> a) = LONG" and "reduced q (longVal (\<sigma> a))" and "elem_ok q (\<sigma> b)" and "type (\<sigma> b) = LONGMONTGOMERY"
    and "a \<noteq> Loc A_m" and "b \<noteq> Loc A_m"
  shows "elem_is q (F_add P G a a b \<sigma> a) (mv (longVal (\<sigma> a)) + elem_val q (\<sigma> b))"
    and "elem_is q (F_sub P G a a b \<sigma> a) (mv (longVal (\<sigma> a)) - elem_val q (\<sigma> b))"
proof -
  have copied: "F_toMontgomery P G (Loc A_m) a (set_type a LONGMONTGOMERY \<sigma>)
      = (set_type a LONGMONTGOMERY \<sigma>)(Loc A_m := set_type a LONGMONTGOMERY \<sigma> a)"
    by (simp add: F_toMontgomery_def F_copy_def)
  have b: "reduced q (longVal (\<sigma> b))" "elem_val q (\<sigma> b) = mv (longVal (\<sigma> b))"
    using assms(3,4) by (auto elim!: elem_cases)
  show "elem_is q (F_add P G a a b \<sigma> a) (mv (longVal (\<sigma> a)) + elem_val q (\<sigma> b))"
    and "elem_is q (F_sub P G a a b \<sigma> a) (mv (longVal (\<sigma> a)) - elem_val q (\<sigma> b))"
    using assms(1,2,4-) b
    by (simp_all add: F_add_def F_sub_def add_l1nl2m_def sub_l1nl2m_def Let_def copied written_mont
        Add_reduced Sub_reduced mv_Add mv_Sub)
qed

lemma aliased_sub_short:
  assumes "type (\<sigma> a) = SHORT" and "sint (shortVal (\<sigma> a)) < 0" and "type (\<sigma> b) = LONG"
  shows "elem_is q (F_sub P G b a b \<sigma> b) 0"
proof (rule elem_is_long)
  let ?e = "F_sub P G b a b \<sigma> b"
  have l: "longVal ?e = rawNegLS P G (\<lambda>v. v) (to_s64 (- sint (shortVal (\<sigma> a))))" and t: "type ?e = LONG"
    using assms by (simp_all add: F_sub_def sub_s1l2n_def Let_def)
  note z = rawNegLS_aliased [of "to_s64 (- sint (shortVal (\<sigma> a)))"]
  show "type ?e = LONG" by (rule t)
  show "reduced q (longVal ?e)" using z by (simp add: l reduced_def)
  show "int (lval (longVal ?e)) = 0 mod Z" using z by (simp add: l)
qed

lemma aliased_bnot:
  assumes "elem_ok q (\<sigma> a)" and "type (\<sigma> a) = LONGMONTGOMERY"
  shows "elem_is q (F_bnot P G a a \<sigma> a) (2 ^ 254 - 1 - lv (longVal (\<sigma> a)))"
proof -
  have "reduced q (longVal (\<sigma> a))" using assms by (auto elim!: elem_cases)
  then show ?thesis by (simp add: F_bnot_def Let_def written_long Not_facts)
qed

lemma stale_short:
  assumes "type (\<sigma> a) = SHORT" and "r \<noteq> a"
  shows "elem_ok q (F_toMontgomery P G r a \<sigma> r) \<longleftrightarrow> shortVal (\<sigma> r) = shortVal (\<sigma> a)"
proof -
  let ?e = "F_toMontgomery P G r a \<sigma> r"
  have ok: "elem_ok q (\<sigma> a)" and v: "elem_val q (\<sigma> a) = sint (shortVal (\<sigma> a)) mod Z"
    using assms by (simp_all add: elem_ok_def elem_val_def)
  have "type ?e = SHORTMONTGOMERY" and s: "shortVal ?e = shortVal (\<sigma> r)"
    using assms by (simp_all add: F_toMontgomery_def Let_def)
  then have "elem_ok q ?e \<longleftrightarrow> sint (shortVal (\<sigma> a)) mod Z = sint (shortVal (\<sigma> r)) mod Z"
    using toMontgomery_long [of \<sigma> a, OF ok, of r] by (simp add: elem_ok_def v)
  also have "\<dots> \<longleftrightarrow> shortVal (\<sigma> r) = shortVal (\<sigma> a)"
    by (metis signed_rep_short signed_word_eqI)
  finally show ?thesis .
qed

lemma call_preserves:
  assumes "elem_call P G \<sigma> \<sigma>'" and "store_ok q \<sigma>"
  shows "store_ok q \<sigma>'"
  using assms
proof (induction rule: elem_call.induct)
  case (call_copyn \<sigma> r a n)
  then show ?case by (simp add: store_ok_def F_copyn_def)
next
  case (call_add r a b \<sigma>)
  show ?case
    by (rule store_ok_update [where r = r, OF _ is_ok [OF F_add_correct]]) (use call_add in \<open>auto simp: store_okD frames\<close>)
next
  case (call_sub r a b \<sigma>)
  show ?case
    by (rule store_ok_update [where r = r, OF _ is_ok [OF F_sub_correct]]) (use call_sub in \<open>auto simp: store_okD frames\<close>)
next
  case (call_band r a b \<sigma>)
  show ?case
    by (rule store_ok_update [where r = r, OF _ is_ok [OF F_bitwise_correct(1)]])
      (use call_band in \<open>auto simp: store_okD bitwise_dispatch frames\<close>)
next
  case (call_bor r a b \<sigma>)
  show ?case
    by (rule store_ok_update [where r = r, OF _ is_ok [OF F_bitwise_correct(2)]])
      (use call_bor in \<open>auto simp: store_okD bitwise_dispatch frames\<close>)
next
  case (call_bxor r a b \<sigma>)
  show ?case
    by (rule store_ok_update [where r = r, OF _ is_ok [OF F_bitwise_correct(3)]])
      (use call_bxor in \<open>auto simp: store_okD bitwise_dispatch frames\<close>)
next
  case (call_bnot r a \<sigma>)
  show ?case
    by (rule store_ok_update [where r = r, OF _ is_ok [OF F_bnot_correct]]) (use call_bnot in \<open>auto simp: store_okD frames\<close>)
next
  case (call_shl r a \<sigma> b)
  show ?case
    by (rule store_ok_update [where r = r, OF _ is_ok [OF F_shift_correct(1)]]) (use call_shl in \<open>auto simp: store_okD frames\<close>)
next
  case (call_shr r a \<sigma> b)
  show ?case
    by (rule store_ok_update [where r = r, OF _ is_ok [OF F_shift_correct(2)]]) (use call_shr in \<open>auto simp: store_okD frames\<close>)
next
  case (call_mul \<sigma> r a b)
  show ?case
    by (rule store_ok_update [where r = r, OF _ is_ok [OF F_mul_correct]]) (use call_mul in \<open>auto simp: store_okD frames\<close>)
next
  case (call_square \<sigma> r a)
  show ?case
    by (rule store_ok_update [where r = r, OF _ is_ok [OF F_square_correct]]) (use call_square in \<open>auto simp: store_okD frames\<close>)
next
  case (call_neg \<sigma> r a)
  show ?case
    by (rule store_ok_update [where r = r, OF _ is_ok [OF F_neg_correct]]) (use call_neg in \<open>auto simp: store_okD frames\<close>)
next
  case (call_copy \<sigma> r a)
  show ?case
    by (rule store_ok_update [where r = r, OF _ copy_ok]) (use call_copy in \<open>auto simp: store_okD frames\<close>)
next
  case (call_toNormal \<sigma> r a)
  show ?case
    by (rule store_ok_update [where r = r, OF _ toNormal_ok]) (use call_toNormal in \<open>auto simp: store_okD frames\<close>)
next
  case (call_toLongNormal \<sigma> r a)
  show ?case
    by (rule store_ok_update [where r = r, OF _ toLongNormal_ok]) (use call_toLongNormal in \<open>auto simp: store_okD frames\<close>)
next
  case (call_toMontgomery r a \<sigma>)
  show ?case
    by (rule store_ok_update [where r = r, OF _ toMontgomery_ok]) (use call_toMontgomery in \<open>auto simp: store_okD frames\<close>)
next
  case (call_lt \<sigma> r a b)
  show ?case
    by (rule store_ok_update [where r = r, OF _ flag_ok [OF F_relations_correct(1)]]) (use call_lt in \<open>auto simp: store_okD frames\<close>)
next
  case (call_geq \<sigma> r a b)
  show ?case
    by (rule store_ok_update [where r = r, OF _ flag_ok [OF F_relations_correct(2)]]) (use call_geq in \<open>auto simp: store_okD frames\<close>)
next
  case (call_gt \<sigma> r a b)
  show ?case
    by (rule store_ok_update [where r = r, OF _ flag_ok [OF F_relations_correct(3)]]) (use call_gt in \<open>auto simp: store_okD frames\<close>)
next
  case (call_leq \<sigma> r a b)
  show ?case
    by (rule store_ok_update [where r = r, OF _ flag_ok [OF F_relations_correct(4)]]) (use call_leq in \<open>auto simp: store_okD frames\<close>)
next
  case (call_eq \<sigma> r a b)
  show ?case
    by (rule store_ok_update [where r = r, OF _ flag_ok [OF F_relations_correct(5)]]) (use call_eq in \<open>auto simp: store_okD frames\<close>)
next
  case (call_neq \<sigma> r a b)
  show ?case
    by (rule store_ok_update [where r = r, OF _ flag_ok [OF F_relations_correct(6)]]) (use call_neq in \<open>auto simp: store_okD frames\<close>)
next
  case (call_land \<sigma> r a b)
  show ?case
    by (rule store_ok_update [where r = r, OF _ flag_ok [OF F_logic_correct(1)]]) (use call_land in \<open>auto simp: store_okD frames\<close>)
next
  case (call_lor \<sigma> r a b)
  show ?case
    by (rule store_ok_update [where r = r, OF _ flag_ok [OF F_logic_correct(2)]]) (use call_lor in \<open>auto simp: store_okD frames\<close>)
next
  case (call_lnot \<sigma> r a)
  show ?case
    by (rule store_ok_update [where r = r, OF _ flag_ok [OF F_logic_correct(3) [where b = "Obj a"]]]) (use call_lnot in \<open>auto simp: store_okD frames\<close>)
qed

theorem calls_preserve: "(elem_call P G)\<^sup>*\<^sup>* \<sigma> \<sigma>' \<Longrightarrow> store_ok q \<sigma> \<Longrightarrow> store_ok q \<sigma>'"
  by (induction rule: rtranclp_induct) (auto intro: call_preserves)

end

subsection \<open>Properties\<close>

lemmas tagged = raw_field.calls_preserve raw_field.F_mul_correct raw_field.F_add_correct
  raw_field.F_sub_correct raw_field.F_neg_correct raw_field.F_square_correct
  raw_field.F_relations_correct raw_field.F_logic_correct raw_field.F_bitwise_correct
  raw_field.F_bnot_correct raw_field.F_shift_correct

text \<open>An example store for the witnesses: short, negative short, long and long Montgomery objects.\<close>

definition sample_store :: store where
  "sample_store = (\<lambda>p. case p of
     Obj n \<Rightarrow> if n = 1 then \<lparr>shortVal = 5, type = SHORT, longVal = [9, 9, 9, 9]\<rparr>
       else if n = 2 then \<lparr>shortVal = - 3, type = SHORT, longVal = [9, 9, 9, 9]\<rparr>
       else if n = 3 then \<lparr>shortVal = 0, type = LONG, longVal = [7, 0, 0, 0]\<rparr>
       else \<lparr>shortVal = 0, type = LONGMONTGOMERY, longVal = [4, 0, 0, 0]\<rparr>
   | Loc x \<Rightarrow> \<lparr>shortVal = 1, type = SHORT, longVal = []\<rparr>)"

lemma sample_store_ok: "bn254_field P q \<Longrightarrow> store_ok q sample_store"
  using small_element [of P q 7] small_element [of P q 4]
  by (simp add: store_ok_def sample_store_def elem_ok_def)

lemma sample_elem_ok: "bn254_field P q \<Longrightarrow> elem_ok q (sample_store (Obj n))"
  using sample_store_ok by (simp add: store_ok_def)

text \<open>
  C15. Representation invariant: any sequence of the calls of \<open>elem_call\<close> keeps
  every object of the caller well-formed: a legal tag, limbs below the modulus wherever the tag
  makes them meaningful, and both values of a short Montgomery element in agreement. Left out, by the
  conditions of \<open>elem_call\<close>, are \<open>toMontgomery\<close> of a short element into another object; sum and difference of
  arguments with different tags into one of them; and, into an argument, conjunction, disjunction and exclusive or unless both
  arguments have the tag LONG, the complement unless the argument has it, and the shifts of one that has it. Some of these
  calls do break the invariant or compute a wrong value.
\<close>

theorem tagged_store_invariant:
  assumes "bn254_field P q" and "mpn_laws G" and "(elem_call P G)\<^sup>*\<^sup>* \<sigma> \<sigma>'" and "store_ok q \<sigma>"
  shows "store_ok q \<sigma>'"
  using raw_field.calls_preserve [OF bn254_raw_field [OF assms(1,2)] assms(3,4)] .

theorem tagged_store_invariant_witness:
  "store_ok Fr_prime (F_mul Fr_consts ref_gmp (Obj 0) (Obj 1) (Obj 3)
     (F_toMontgomery Fr_consts ref_gmp (Obj 1) (Obj 1) sample_store))"
proof (rule tagged_store_invariant [OF bn254_Fr ref_mpn.mpn_laws_axioms _ sample_store_ok [OF bn254_Fr]])
  let ?s = "F_toMontgomery Fr_consts ref_gmp (Obj 1) (Obj 1) sample_store"
  have "elem_call Fr_consts ref_gmp sample_store ?s" by (rule call_toMontgomery) simp
  moreover have "elem_call Fr_consts ref_gmp ?s (F_mul Fr_consts ref_gmp (Obj 0) (Obj 1) (Obj 3) ?s)"
    by (rule call_mul)
  ultimately show "(elem_call Fr_consts ref_gmp)\<^sup>*\<^sup>* sample_store (F_mul Fr_consts ref_gmp (Obj 0) (Obj 1) (Obj 3) ?s)"
    by (meson r_into_rtranclp rtranclp.rtrancl_into_rtrancl)
qed

text \<open>
  C25. Field arithmetic on tagged elements: multiplication, negation and squaring compute in the field
  for every aliasing of result and arguments and every combination of tags; addition and subtraction
  do so when the result is distinct from the arguments or the two tags agree.
\<close>

theorem tagged_ring_operations:
  assumes "bn254_field P q" and "mpn_laws G" and "elem_ok q (\<sigma> (Obj a))" and "elem_ok q (\<sigma> (Obj b))"
  shows "elem_is q (F_mul P G (Obj r) (Obj a) (Obj b) \<sigma> (Obj r)) (elem_val q (\<sigma> (Obj a)) * elem_val q (\<sigma> (Obj b)))
    \<and> elem_is q (F_neg P G (Obj r) (Obj a) \<sigma> (Obj r)) (- elem_val q (\<sigma> (Obj a)))
    \<and> elem_is q (F_square P G (Obj r) (Obj a) \<sigma> (Obj r)) ((elem_val q (\<sigma> (Obj a)))\<^sup>2)
    \<and> ((r \<noteq> a \<and> r \<noteq> b) \<or> type (\<sigma> (Obj a)) = type (\<sigma> (Obj b)) \<longrightarrow>
      elem_is q (F_add P G (Obj r) (Obj a) (Obj b) \<sigma> (Obj r)) (elem_val q (\<sigma> (Obj a)) + elem_val q (\<sigma> (Obj b)))
      \<and> elem_is q (F_sub P G (Obj r) (Obj a) (Obj b) \<sigma> (Obj r)) (elem_val q (\<sigma> (Obj a)) - elem_val q (\<sigma> (Obj b))))"
proof -
  note F = bn254_raw_field [OF assms(1,2)]
  show ?thesis
    using raw_field.F_mul_correct [OF F, of \<sigma> "Obj a" "Obj b" "Obj r"]
      raw_field.F_neg_correct [OF F, of \<sigma> "Obj a" "Obj r"] raw_field.F_square_correct [OF F, of \<sigma> "Obj a" "Obj r"]
      raw_field.F_add_correct [OF F, of \<sigma> "Obj a" "Obj b" "Obj r"]
      raw_field.F_sub_correct [OF F, of \<sigma> "Obj a" "Obj b" "Obj r"] assms(3,4)
    by (simp add: power2_eq_square)
qed

theorem tagged_ring_operations_witness:
  "elem_is Fq_prime (F_sub Fq_consts ref_gmp (Obj 0) (Obj 1) (Obj 4) sample_store (Obj 0))
     (elem_val Fq_prime (sample_store (Obj 1)) - elem_val Fq_prime (sample_store (Obj 4)))"
  using tagged_ring_operations [where \<sigma> = sample_store and r = 0 and a = 1 and b = 4,
      OF bn254_Fq ref_mpn.mpn_laws_axioms] sample_elem_ok [OF bn254_Fq] by simp

text \<open>
  C32. Relations and truth values on tagged elements: the six relational operators compare the signed
  representatives of their arguments, equality compares what they stand for, the logical operators
  test for zero; each stores the short value 0 or 1, whatever the tags and aliasing.
\<close>

theorem tagged_relations:
  assumes "bn254_field P q" and "mpn_laws G" and "elem_ok q (\<sigma> (Obj a))" and "elem_ok q (\<sigma> (Obj b))"
  shows "flag_is (F_lt P G r (Obj a) (Obj b) \<sigma> r) (signed_rep q (elem_val q (\<sigma> (Obj a))) < signed_rep q (elem_val q (\<sigma> (Obj b))))
    \<and> flag_is (F_geq P G r (Obj a) (Obj b) \<sigma> r) (signed_rep q (elem_val q (\<sigma> (Obj b))) \<le> signed_rep q (elem_val q (\<sigma> (Obj a))))
    \<and> flag_is (F_gt P G r (Obj a) (Obj b) \<sigma> r) (signed_rep q (elem_val q (\<sigma> (Obj b))) < signed_rep q (elem_val q (\<sigma> (Obj a))))
    \<and> flag_is (F_leq P G r (Obj a) (Obj b) \<sigma> r) (signed_rep q (elem_val q (\<sigma> (Obj a))) \<le> signed_rep q (elem_val q (\<sigma> (Obj b))))
    \<and> flag_is (F_eq P G r (Obj a) (Obj b) \<sigma> r) (elem_val q (\<sigma> (Obj a)) = elem_val q (\<sigma> (Obj b)))
    \<and> flag_is (F_neq P G r (Obj a) (Obj b) \<sigma> r) (elem_val q (\<sigma> (Obj a)) \<noteq> elem_val q (\<sigma> (Obj b)))
    \<and> flag_is (F_land G r (Obj a) (Obj b) \<sigma> r) (elem_val q (\<sigma> (Obj a)) \<noteq> 0 \<and> elem_val q (\<sigma> (Obj b)) \<noteq> 0)
    \<and> flag_is (F_lor G r (Obj a) (Obj b) \<sigma> r) (elem_val q (\<sigma> (Obj a)) \<noteq> 0 \<or> elem_val q (\<sigma> (Obj b)) \<noteq> 0)
    \<and> flag_is (F_lnot G r (Obj a) \<sigma> r) (elem_val q (\<sigma> (Obj a)) = 0)
    \<and> (F_isTrue G (\<sigma> (Obj a)) \<longleftrightarrow> elem_val q (\<sigma> (Obj a)) \<noteq> 0)"
proof -
  note F = bn254_raw_field [OF assms(1,2)]
  have "{Obj a, Obj b} \<subseteq> range Obj" by simp
  note R = raw_field.F_relations_correct [OF F assms(3,4) this] raw_field.F_logic_correct [OF F assms(3,4)]
    raw_field.F_isTrue_correct [OF F assms(3)]
  show ?thesis by (intro conjI R)
qed

theorem tagged_relations_witness:
  "flag_is (F_lt Fr_consts ref_gmp (Obj 2) (Obj 2) (Obj 4) sample_store (Obj 2))
     (signed_rep Fr_prime (elem_val Fr_prime (sample_store (Obj 2)))
      < signed_rep Fr_prime (elem_val Fr_prime (sample_store (Obj 4))))"
  using tagged_relations [where \<sigma> = sample_store and a = 2 and b = 4,
      OF bn254_Fr ref_mpn.mpn_laws_axioms sample_elem_ok [OF bn254_Fr] sample_elem_ok [OF bn254_Fr]] by blast

text \<open>
  Bitwise operations and shifts on tagged elements: and, or, xor and the 254-bit complement act on
  the values, and a shift by the signed value of the second argument shifts left within 254 bits or
  right, or gives 0 for amounts of 254 and more, for a result distinct from the arguments.
\<close>

theorem tagged_bit_operations:
  assumes "bn254_field P q" and "mpn_laws G" and "elem_ok q (\<sigma> (Obj a))" and "elem_ok q (\<sigma> (Obj b))"
    and "r \<noteq> a" and "r \<noteq> b"
  shows "elem_is q (F_band P G (Obj r) (Obj a) (Obj b) \<sigma> (Obj r)) (elem_val q (\<sigma> (Obj a)) AND elem_val q (\<sigma> (Obj b)))
    \<and> elem_is q (F_bor P G (Obj r) (Obj a) (Obj b) \<sigma> (Obj r)) (elem_val q (\<sigma> (Obj a)) OR elem_val q (\<sigma> (Obj b)))
    \<and> elem_is q (F_bxor P G (Obj r) (Obj a) (Obj b) \<sigma> (Obj r)) (elem_val q (\<sigma> (Obj a)) XOR elem_val q (\<sigma> (Obj b)))
    \<and> elem_is q (F_bnot P G (Obj r) (Obj a) \<sigma> (Obj r)) (2 ^ 254 - 1 - elem_val q (\<sigma> (Obj a)))
    \<and> elem_is q (F_shl P G (Obj r) (Obj a) (Obj b) \<sigma> (Obj r))
        (shift_left (elem_val q (\<sigma> (Obj a))) (signed_rep q (elem_val q (\<sigma> (Obj b)))))
    \<and> elem_is q (F_shr P G (Obj r) (Obj a) (Obj b) \<sigma> (Obj r))
        (shift_left (elem_val q (\<sigma> (Obj a))) (- signed_rep q (elem_val q (\<sigma> (Obj b)))))"
proof -
  note F = bn254_raw_field [OF assms(1,2)]
  have o: "{Obj r, Obj a, Obj b} \<subseteq> range Obj" "{Obj r, Obj a} \<subseteq> range Obj" by simp_all
  have s: "(Obj r \<noteq> Obj a \<and> Obj r \<noteq> Obj b) \<or> (type (\<sigma> (Obj a)) = LONG \<and> type (\<sigma> (Obj b)) = LONG)"
    "Obj r \<noteq> Obj a \<or> type (\<sigma> (Obj a)) = LONG" "Obj r \<noteq> Obj a \<or> type (\<sigma> (Obj a)) \<noteq> LONG"
    using assms(5,6) by simp_all
  show ?thesis
    using raw_field.F_bitwise_correct [OF F assms(3,4) s(1) o(1)]
      raw_field.F_bnot_correct [where \<sigma> = \<sigma> and a = "Obj a" and r = "Obj r", OF F assms(3) s(2) o(2)]
      raw_field.F_shift_correct [OF F assms(3,4) o(1) s(3)] by blast
qed

theorem tagged_bit_operations_witness:
  "elem_is Fr_prime (F_shl Fr_consts ref_gmp (Obj 0) (Obj 3) (Obj 1) sample_store (Obj 0))
     (shift_left (elem_val Fr_prime (sample_store (Obj 3))) (signed_rep Fr_prime (elem_val Fr_prime (sample_store (Obj 1)))))"
  using tagged_bit_operations [where \<sigma> = sample_store and r = 0 and a = 3 and b = 1,
      OF bn254_Fr ref_mpn.mpn_laws_axioms sample_elem_ok [OF bn254_Fr] sample_elem_ok [OF bn254_Fr]] by simp

text \<open>
  C33. Conversions of tagged elements: to Montgomery form, to normal form and to long normal form keep
  what an element stands for, and a long element taken to Montgomery form and back has its limbs again.
\<close>

theorem tagged_conversions:
  assumes "bn254_field P q" and "mpn_laws G" and "elem_ok q (\<sigma> a)"
  shows "elem_val q (F_toMontgomery P G r a \<sigma> r) = elem_val q (\<sigma> a)
    \<and> elem_val q (F_toNormal P G r a \<sigma> r) = elem_val q (\<sigma> a)
    \<and> elem_val q (F_toLongNormal P G r a \<sigma> r) = elem_val q (\<sigma> a)
    \<and> (type (\<sigma> a) = LONG \<longrightarrow>
      longVal (F_toNormal P G s r (F_toMontgomery P G r a \<sigma>) s) = longVal (\<sigma> a))"
proof -
  note F = bn254_raw_field [OF assms(1,2)]
  show ?thesis
    using raw_field.convert_val [where \<sigma> = \<sigma> and a = a, OF F assms(3), of r]
      raw_field.convert_back [where \<sigma> = \<sigma> and a = a, OF F assms(3)] by blast
qed

theorem tagged_conversions_witness:
  "elem_val Fq_prime (F_toMontgomery Fq_consts ref_gmp (Loc Tmp) (Obj 2) sample_store (Loc Tmp))
    = elem_val Fq_prime (sample_store (Obj 2))"
  using tagged_conversions [where \<sigma> = sample_store and a = "Obj 2" and r = "Loc Tmp",
      OF bn254_Fq ref_mpn.mpn_laws_axioms sample_elem_ok [OF bn254_Fq]] by blast

text \<open>
  C34. \<open>Fr_toInt\<close>: an element whose signed representative has 32 bits gives that representative,
  whatever its tag, and no element gives an integer outside 32 bits.
\<close>

theorem toInt_in_range:
  assumes "bn254_field P q" and "mpn_laws G" and "elem_ok q (\<sigma> p)"
  shows "(- 2147483648 \<le> signed_rep q (elem_val q (\<sigma> p)) \<and> signed_rep q (elem_val q (\<sigma> p)) < 2147483648
      \<longrightarrow> F_toInt P G ndebug p \<sigma> = Inr (signed_rep q (elem_val q (\<sigma> p))))
    \<and> (\<forall>v. F_toInt P G ndebug p \<sigma> = Inr v \<longrightarrow> - 2147483648 \<le> v \<and> v < 2147483648)"
  using raw_field.F_toInt_correct [where \<sigma> = \<sigma> and p = p and ndebug = ndebug, OF bn254_raw_field [OF assms(1,2)] assms(3)]
    raw_field.F_toInt_bounds [where \<sigma> = \<sigma> and p = p and ndebug = ndebug, OF bn254_raw_field [OF assms(1,2)] assms(3)] by blast

theorem toInt_in_range_witness:
  "F_toInt Fr_consts ref_gmp False (Obj 2) sample_store = Inr (- 3)"
proof -
  have "signed_rep Fr_prime (elem_val Fr_prime (sample_store (Obj 2))) = - 3"
    by (simp add: sample_store_def elem_val_def signed_rep_def is_mont_def is_long_def SHORT_def)
  then show ?thesis
    using toInt_in_range [where \<sigma> = sample_store and p = "Obj 2" and ndebug = False,
        OF bn254_Fr ref_mpn.mpn_laws_axioms sample_elem_ok [OF bn254_Fr]] by simp
qed

text \<open>
  The range check of \<open>Fr_toInt\<close> on long elements compares the lowest limb only: an element whose
  value is \<open>q - 1 - 2 ^ 64 * k\<close> gives -1, not the error, although its signed representative is not -1.
\<close>

theorem toInt_ignores_high_limbs:
  assumes "bn254_field P q" and "mpn_laws G" and "type (\<sigma> p) = LONG" and "length (longVal (\<sigma> p)) = 4"
    and "lval (longVal (\<sigma> p)) + limb_base * k + 1 = q" and "0 < k" and "2147483648 \<le> lval (longVal (\<sigma> p))"
  shows "F_toInt P G ndebug p \<sigma> = Inr (- 1) \<and> signed_rep q (elem_val q (\<sigma> p)) \<noteq> - 1"
proof -
  note F = bn254_raw_field [OF assms(1,2)]
  have r: "reduced q (longVal (\<sigma> p))" using assms(4,5) by (simp add: reduced_def)
  have "int (lval (longVal (\<sigma> p))) - int q = - 1 - int limb_base * int k"
    using assms(5) by (simp flip: assms(5))
  then have "low_difference q (longVal (\<sigma> p)) = - 1"
    by (simp add: low_difference_def limb_base_word_zero)
  then have "F_toInt P G ndebug p \<sigma> = Inr (- 1)"
    using assms(3,7) by (simp add: F_toInt_def raw_field.F_longNormal_correct [OF F r])
  moreover have "signed_rep q (elem_val q (\<sigma> p)) \<noteq> - 1"
    using assms(3,5,6) by (auto simp: elem_val_def signed_rep_def)
  ultimately show ?thesis ..
qed

definition high_store :: store where
  "high_store = (\<lambda>_. \<lparr>shortVal = 0, type = LONG,
     longVal = [0x43e1f593f0000000, 0x2833e84879b97090, 0xb85045b68181585d, 0x30644e72e131a029]\<rparr>)"

theorem toInt_ignores_high_limbs_witness:
  "F_toInt Fr_consts ref_gmp False (Obj 0) high_store = Inr (- 1)
    \<and> signed_rep Fr_prime (elem_val Fr_prime (high_store (Obj 0))) \<noteq> - 1"
  by (rule toInt_ignores_high_limbs [OF bn254_Fr ref_mpn.mpn_laws_axioms, where k = 1])
    (simp_all add: high_store_def)

text \<open>
  C35. Results that alias an argument: adding or subtracting a Montgomery element to or from a normal
  one in place reads the normal limbs as Montgomery limbs; subtracting in place from a negative short
  value gives 0; complementing a Montgomery element in place complements its Montgomery limbs;
  \<open>Fr_toMontgomery\<close> of a short element leaves the short value of the result as it was, so that the
  result is well-formed only if that was already right.
\<close>

theorem tagged_aliased_results:
  assumes "bn254_field P q" and "mpn_laws G" and "elem_ok q (\<sigma> (Obj a))" and "elem_ok q (\<sigma> (Obj b))"
  shows "(type (\<sigma> (Obj a)) = LONG \<and> type (\<sigma> (Obj b)) = LONGMONTGOMERY \<longrightarrow>
      elem_is q (F_add P G (Obj a) (Obj a) (Obj b) \<sigma> (Obj a)) (int (mval q (longVal (\<sigma> (Obj a)))) + elem_val q (\<sigma> (Obj b)))
      \<and> elem_is q (F_sub P G (Obj a) (Obj a) (Obj b) \<sigma> (Obj a)) (int (mval q (longVal (\<sigma> (Obj a)))) - elem_val q (\<sigma> (Obj b))))
    \<and> (type (\<sigma> (Obj a)) = SHORT \<and> sint (shortVal (\<sigma> (Obj a))) < 0 \<and> type (\<sigma> (Obj b)) = LONG \<longrightarrow>
      elem_is q (F_sub P G (Obj b) (Obj a) (Obj b) \<sigma> (Obj b)) 0)
    \<and> (type (\<sigma> (Obj a)) = LONGMONTGOMERY \<longrightarrow>
      elem_is q (F_bnot P G (Obj a) (Obj a) \<sigma> (Obj a)) (2 ^ 254 - 1 - int (lval (longVal (\<sigma> (Obj a))))))
    \<and> (type (\<sigma> (Obj a)) = SHORT \<and> r \<noteq> a \<longrightarrow>
      (elem_ok q (F_toMontgomery P G (Obj r) (Obj a) \<sigma> (Obj r)) \<longleftrightarrow> shortVal (\<sigma> (Obj r)) = shortVal (\<sigma> (Obj a))))"
proof -
  note F = bn254_raw_field [OF assms(1,2)]
  have red: "reduced q (longVal (\<sigma> (Obj a)))" if "type (\<sigma> (Obj a)) = LONG"
    using assms(3) that by (simp add: elem_ok_def)
  show ?thesis
    using raw_field.aliased_add [OF F, of \<sigma> "Obj a" "Obj b"] red assms(3,4)
      raw_field.aliased_sub_short [OF F, of \<sigma> "Obj a" "Obj b"] raw_field.aliased_bnot [OF F, of \<sigma> "Obj a"]
      raw_field.stale_short [OF F, of \<sigma> "Obj a" "Obj r"] by simp
qed

theorem tagged_aliased_results_witness:
  "elem_is Fr_prime (F_sub Fr_consts ref_gmp (Obj 3) (Obj 2) (Obj 3) sample_store (Obj 3)) 0
    \<and> \<not> elem_ok Fr_prime (F_toMontgomery Fr_consts ref_gmp (Obj 1) (Obj 2) sample_store (Obj 1))"
  using tagged_aliased_results [where \<sigma> = sample_store and a = 2 and b = 3 and r = 1,
      OF bn254_Fr ref_mpn.mpn_laws_axioms sample_elem_ok [OF bn254_Fr] sample_elem_ok [OF bn254_Fr]]
  by (simp add: sample_store_def)

end
