(* ===== verification/Element_Mpz.thy ===== *)
theory Element_Mpz
  imports Elements Raw_Class
begin

section \<open>Tagged elements and GMP integers\<close>

text \<open>
  The first half of \<open>fr.cpp\<close> and \<open>fq.cpp\<close>: conversions of tagged elements from and to GMP integers
  and decimal strings, and the operations computed on GMP integers (integer division and remainder,
  power, inverse, field division). \<open>field_q\<close> is the file static \<open>q\<close> after \<open>Fr_init\<close>.
\<close>

subsection \<open>Operations\<close>

definition F_toMpz :: "raw_consts \<Rightarrow> gmp \<Rightarrow> ptr \<Rightarrow> store \<Rightarrow> int" where
  "F_toMpz P G pE \<sigma> = (let tmp = F_toNormal P G (Loc Tmp) pE \<sigma> (Loc Tmp)
     in if \<not> is_long tmp
        then let r = mpz_set_si G (sint (shortVal tmp))
          in if sint (shortVal tmp) < 0 then mpz_add G r (field_q P G) else r
        else import_limbs G (longVal tmp))"

definition F_fromMpz :: "gmp \<Rightarrow> ptr \<Rightarrow> int \<Rightarrow> store \<Rightarrow> store" where
  "F_fromMpz G pE v \<sigma> = (if mpz_fits_sint_p G v
     then let \<sigma> = set_type pE SHORT \<sigma>;
              \<sigma> = set_short pE (to_s32 (mpz_get_si G v)) \<sigma>
          in \<sigma>
     else let \<sigma> = set_type pE LONG \<sigma>;
              \<sigma> = set_long pE (export_limbs G v) \<sigma>
          in \<sigma>)"

definition F_str2element :: "raw_consts \<Rightarrow> gmp \<Rightarrow> ptr \<Rightarrow> string \<Rightarrow> nat \<Rightarrow> store \<Rightarrow> store" where
  "F_str2element P G pE s base \<sigma> = (let mr = snd (mpz_set_str G s base);
       mr = mpz_fdiv_r G mr (field_q P G)
     in F_fromMpz G pE mr \<sigma>)"

text \<open>\<open>sprintf(r, "%d", v)\<close> of a nonnegative value is its decimal string.\<close>

definition F_element2str :: "raw_consts \<Rightarrow> gmp \<Rightarrow> ptr \<Rightarrow> store \<Rightarrow> string" where
  "F_element2str P G pE \<sigma> = (if \<not> is_long (\<sigma> pE)
     then if 0 \<le> sint (shortVal (\<sigma> pE)) then dec_str (nat (sint (shortVal (\<sigma> pE))))
       else let r = mpz_set_si G (sint (shortVal (\<sigma> pE)));
                r = mpz_add G r (field_q P G)
            in mpz_get_str G 10 r
     else let tmp = F_toNormal P G (Loc Tmp) pE \<sigma> (Loc Tmp);
              r = import_limbs G (longVal tmp)
          in mpz_get_str G 10 r)"

definition F_idiv :: "raw_consts \<Rightarrow> gmp \<Rightarrow> ptr \<Rightarrow> ptr \<Rightarrow> ptr \<Rightarrow> store \<Rightarrow> store" where
  "F_idiv P G r a b \<sigma> = (let ma = F_toMpz P G a \<sigma>;
       mb = F_toMpz P G b \<sigma>;
       mr = mpz_fdiv_q G ma mb
     in F_fromMpz G r mr \<sigma>)"

definition F_mod :: "raw_consts \<Rightarrow> gmp \<Rightarrow> ptr \<Rightarrow> ptr \<Rightarrow> ptr \<Rightarrow> store \<Rightarrow> store" where
  "F_mod P G r a b \<sigma> = (let ma = F_toMpz P G a \<sigma>;
       mb = F_toMpz P G b \<sigma>;
       mr = mpz_fdiv_r G ma mb
     in F_fromMpz G r mr \<sigma>)"

definition F_pow :: "raw_consts \<Rightarrow> gmp \<Rightarrow> ptr \<Rightarrow> ptr \<Rightarrow> ptr \<Rightarrow> store \<Rightarrow> store" where
  "F_pow P G r a b \<sigma> = (let ma = F_toMpz P G a \<sigma>;
       mb = F_toMpz P G b \<sigma>;
       mr = mpz_powm G ma mb (field_q P G)
     in F_fromMpz G r mr \<sigma>)"

definition F_inv :: "raw_consts \<Rightarrow> gmp \<Rightarrow> ptr \<Rightarrow> ptr \<Rightarrow> store \<Rightarrow> store" where
  "F_inv P G r a \<sigma> = (let ma = F_toMpz P G a \<sigma>;
       mr = snd (mpz_invert G ma (field_q P G))
     in F_fromMpz G r mr \<sigma>)"

definition F_div :: "raw_consts \<Rightarrow> gmp \<Rightarrow> ptr \<Rightarrow> ptr \<Rightarrow> ptr \<Rightarrow> store \<Rightarrow> store" where
  "F_div P G r a b \<sigma> = (let \<sigma> = F_inv P G (Loc Tmp) b \<sigma>;
       \<sigma> = F_mul P G r a (Loc Tmp) \<sigma>
     in \<sigma>)"

subsection \<open>The instances of \<open>fq.cpp\<close>\<close>

definition Fq_toMpz :: "gmp \<Rightarrow> ptr \<Rightarrow> store \<Rightarrow> int" where
  "Fq_toMpz = F_toMpz Fq_consts"

definition Fq_fromMpz :: "gmp \<Rightarrow> ptr \<Rightarrow> int \<Rightarrow> store \<Rightarrow> store" where
  "Fq_fromMpz = F_fromMpz"

definition Fq_str2element :: "gmp \<Rightarrow> ptr \<Rightarrow> string \<Rightarrow> nat \<Rightarrow> store \<Rightarrow> store" where
  "Fq_str2element = F_str2element Fq_consts"

definition Fq_element2str :: "gmp \<Rightarrow> ptr \<Rightarrow> store \<Rightarrow> string" where
  "Fq_element2str = F_element2str Fq_consts"

definition Fq_idiv :: "gmp \<Rightarrow> ptr \<Rightarrow> ptr \<Rightarrow> ptr \<Rightarrow> store \<Rightarrow> store" where
  "Fq_idiv = F_idiv Fq_consts"

definition Fq_mod :: "gmp \<Rightarrow> ptr \<Rightarrow> ptr \<Rightarrow> ptr \<Rightarrow> store \<Rightarrow> store" where
  "Fq_mod = F_mod Fq_consts"

definition Fq_pow :: "gmp \<Rightarrow> ptr \<Rightarrow> ptr \<Rightarrow> ptr \<Rightarrow> store \<Rightarrow> store" where
  "Fq_pow = F_pow Fq_consts"

definition Fq_inv :: "gmp \<Rightarrow> ptr \<Rightarrow> ptr \<Rightarrow> store \<Rightarrow> store" where
  "Fq_inv = F_inv Fq_consts"

definition Fq_div :: "gmp \<Rightarrow> ptr \<Rightarrow> ptr \<Rightarrow> ptr \<Rightarrow> store \<Rightarrow> store" where
  "Fq_div = F_div Fq_consts"

subsection \<open>What they compute\<close>

context raw_class begin

lemma short_residue:
  "sint (x :: s32) mod Z = (if sint x < 0 then sint x + Z else sint x)"
proof (cases "sint x < 0")
  case True
  have "(sint x + Z) mod Z = sint x + Z"
    using True sint_s32_bounds [of x] q_large by (intro mod_pos_pos_trivial) linarith+
  with True show ?thesis by simp
next
  case False
  then show ?thesis using sint_s32_bounds [of x] q_large by (simp add: mod_pos_pos_trivial)
qed

lemma elem_val_bounds: "elem_ok q e \<Longrightarrow> 0 \<le> elem_val q e \<and> elem_val q e < Z"
  by (auto elim!: elem_cases simp: mval_lt reduced_lt)

theorem toMpz_correct:
  assumes ok: "elem_ok q (\<sigma> p)"
  shows "F_toMpz P G p \<sigma> = elem_val q (\<sigma> p)"
proof (cases "is_long (\<sigma> p)")
  case True
  have "length (longVal (F_toNormal P G (Loc Tmp) p \<sigma> (Loc Tmp))) = 4"
    by (rule reduced_length [OF toNormal_long(2) [of \<sigma> p, OF ok True]])
  then show ?thesis using toNormal_long(1,3) [of \<sigma> p "Loc Tmp", OF ok True]
    by (simp add: F_toMpz_def Let_def import_limbs_value)
next
  case False
  then have "F_toNormal P G (Loc Tmp) p \<sigma> (Loc Tmp) = \<sigma> p"
    using ok by (auto elim!: elem_cases simp: F_toNormal_def F_copy_def)
  moreover have "elem_val q (\<sigma> p) = sint (shortVal (\<sigma> p)) mod Z" using ok False by (auto elim!: elem_cases)
  ultimately show ?thesis using False
    by (simp add: F_toMpz_def Let_def set_si_law mpz_add_law field_q_value short_residue)
qed

theorem fromMpz_correct:
  assumes "0 \<le> v" and "v < Z"
  shows "elem_is q (F_fromMpz G p v \<sigma> p) v"
proof (cases "v < 2147483648")
  case True
  then have "mpz_fits_sint_p G v" using assms by (simp add: fits_sint_law)
  then show ?thesis using True assms
    by (intro elem_is_short) (simp_all add: F_fromMpz_def Let_def get_si_law sint_to_s32)
next
  case False
  then have "\<not> mpz_fits_sint_p G v" by (simp add: fits_sint_law)
  then show ?thesis using export_residue [OF assms] assms
    by (intro elem_is_long) (simp_all add: F_fromMpz_def Let_def)
qed

lemma F_fromMpz_other: "p \<noteq> r \<Longrightarrow> F_fromMpz G r v \<sigma> p = \<sigma> p"
  by (simp add: F_fromMpz_def Let_def)

theorem str2element_correct:
  assumes "s \<noteq> []" and "list_all digit_char s"
  shows "elem_is q (F_str2element P G p s 10 \<sigma> p) (int (dec_val s))"
proof -
  have "mpz_fdiv_r G (int (dec_val s)) Z = int (dec_val s) mod Z" using fdiv_r_law [of Z] by simp
  moreover have "0 \<le> int (dec_val s) mod Z" "int (dec_val s) mod Z < Z" by simp_all
  ultimately have "elem_is q (F_str2element P G p s 10 \<sigma> p) (int (dec_val s) mod Z)"
    using set_str_law [OF assms] fromMpz_correct [of "int (dec_val s) mod Z" p \<sigma>]
    by (simp add: F_str2element_def Let_def field_q_value)
  then show ?thesis by (rule elem_is_cong) simp
qed

theorem element2str_correct:
  assumes ok: "elem_ok q (\<sigma> p)"
  shows "F_element2str P G p \<sigma> = dec_str (nat (elem_val q (\<sigma> p)))"
proof (cases "is_long (\<sigma> p)")
  case True
  have "length (longVal (F_toNormal P G (Loc Tmp) p \<sigma> (Loc Tmp))) = 4"
    by (rule reduced_length [OF toNormal_long(2) [of \<sigma> p, OF ok True]])
  then show ?thesis using toNormal_long(3) [of \<sigma> p "Loc Tmp", OF ok True] True
      get_str_law [of "elem_val q (\<sigma> p)"] elem_val_bounds [OF ok]
    by (simp add: F_element2str_def Let_def import_limbs_value)
next
  case False
  have v: "elem_val q (\<sigma> p) = sint (shortVal (\<sigma> p)) mod Z" using ok False by (auto elim!: elem_cases)
  show ?thesis using False get_str_law [of "elem_val q (\<sigma> p)"] elem_val_bounds [OF ok]
    by (cases "sint (shortVal (\<sigma> p)) < 0")
      (simp_all add: F_element2str_def Let_def set_si_law mpz_add_law field_q_value v short_residue)
qed

theorem integer_operations_correct:
  assumes a: "elem_ok q (\<sigma> a)" and b: "elem_ok q (\<sigma> b)"
  shows "elem_val q (\<sigma> b) \<noteq> 0 \<Longrightarrow> elem_is q (F_idiv P G r a b \<sigma> r) (elem_val q (\<sigma> a) div elem_val q (\<sigma> b))"
    and "elem_val q (\<sigma> b) \<noteq> 0 \<Longrightarrow> elem_is q (F_mod P G r a b \<sigma> r) (elem_val q (\<sigma> a) mod elem_val q (\<sigma> b))"
    and "elem_is q (F_pow P G r a b \<sigma> r) (elem_val q (\<sigma> a) ^ nat (elem_val q (\<sigma> b)))"
proof -
  note ba = elem_val_bounds [OF a] and bb = elem_val_bounds [OF b]
  note m = toMpz_correct [of \<sigma> a, OF a] toMpz_correct [of \<sigma> b, OF b]
  let ?a = "elem_val q (\<sigma> a)" and ?b = "elem_val q (\<sigma> b)"
  show "elem_is q (F_idiv P G r a b \<sigma> r) (?a div ?b)" if "?b \<noteq> 0"
  proof -
    have "0 \<le> ?a div ?b" using ba bb by (simp add: pos_imp_zdiv_nonneg_iff that order.not_eq_order_implies_strict)
    moreover have "?a div ?b \<le> ?a" using zdiv_mono2 [of ?a 1 ?b] ba bb that by simp
    ultimately show ?thesis using fromMpz_correct [of "?a div ?b" r \<sigma>] ba that
      by (simp add: F_idiv_def Let_def m fdiv_q_law)
  qed
  show "elem_is q (F_mod P G r a b \<sigma> r) (?a mod ?b)" if "?b \<noteq> 0"
  proof -
    have "0 < ?b" using bb that by simp
    then have "0 \<le> ?a mod ?b" "?a mod ?b < Z"
      using bb pos_mod_bound [of ?b ?a] pos_mod_sign [of ?b ?a] by linarith+
    then show ?thesis using fromMpz_correct [of "?a mod ?b" r \<sigma>] that
      by (simp add: F_mod_def Let_def m fdiv_r_law)
  qed
  have "elem_is q (F_pow P G r a b \<sigma> r) (?a ^ nat ?b mod Z)"
    using fromMpz_correct [of "?a ^ nat ?b mod Z" r \<sigma>] bb
    by (simp add: F_pow_def Let_def m powm_law field_q_value)
  then show "elem_is q (F_pow P G r a b \<sigma> r) (?a ^ nat ?b)" by (rule elem_is_cong) simp
qed

theorem inverse_correct:
  assumes a: "elem_ok q (\<sigma> a)" and u: "elem_val q (\<sigma> a) * u mod Z = 1"
  shows "elem_is q (F_inv P G r a \<sigma> r) u"
proof -
  let ?a = "elem_val q (\<sigma> a)"
  obtain ret x where x: "mpz_invert G ?a Z = (ret, x)" by fastforce
  have "coprime ?a Z"
  proof (rule coprimeI)
    fix d assume d: "d dvd ?a" "d dvd Z"
    then have "d dvd ?a * u mod Z" by (intro dvd_mod) auto
    with u show "is_unit d" by simp
  qed
  with invert_law [OF _ _ x] q_large have law: "0 \<le> x" "x < Z" "?a * x mod Z = 1" by simp_all
  have "x mod Z = x * (?a * u mod Z) mod Z" by (simp add: u)
  also have "\<dots> = (?a * x mod Z) * u mod Z" by (simp only: mod_mult_right_eq mod_mult_left_eq ac_simps)
  finally have "x mod Z = u mod Z" by (simp add: law(3))
  with fromMpz_correct [OF law(1,2), of r \<sigma>] x show ?thesis
    by (simp add: F_inv_def Let_def toMpz_correct [of \<sigma> a, OF a] field_q_value elem_is_def)
qed

theorem division_correct:
  assumes a: "elem_ok q (\<sigma> a)" and b: "elem_ok q (\<sigma> b)" and u: "elem_val q (\<sigma> b) * u mod Z = 1"
    and objs: "a \<noteq> Loc Tmp"
  shows "elem_is q (F_div P G r a b \<sigma> r) (elem_val q (\<sigma> a) * u)"
proof -
  let ?\<sigma> = "F_inv P G (Loc Tmp) b \<sigma>"
  have i: "elem_is q (?\<sigma> (Loc Tmp)) u" by (rule inverse_correct [of \<sigma> b, OF b u])
  have s: "?\<sigma> a = \<sigma> a" using objs by (simp add: F_inv_def Let_def F_fromMpz_other)
  have "elem_is q (F_mul P G r a (Loc Tmp) ?\<sigma> r) (elem_val q (?\<sigma> a) * elem_val q (?\<sigma> (Loc Tmp)))"
    using i a by (intro F_mul_correct) (simp_all add: s elem_is_def)
  then show ?thesis using i by (simp add: F_div_def Let_def s elem_is_val)
qed

end

subsection \<open>Properties\<close>

text \<open>
  C36. Tagged elements and integers: reading a decimal string and printing it gives the residue back;
  integer division and remainder, power and division by an invertible element compute on the residues,
  for every aliasing of result and arguments.
\<close>

theorem tagged_integer_operations:
  assumes "bn254_field P q" and "gmp_laws G" and "elem_ok q (\<sigma> (Obj a))" and "elem_ok q (\<sigma> (Obj b))"
  shows "(s \<noteq> [] \<and> list_all digit_char s \<longrightarrow>
      F_element2str P G (Obj r) (F_str2element P G (Obj r) s 10 \<sigma>) = dec_str (dec_val s mod q))
    \<and> (elem_val q (\<sigma> (Obj b)) \<noteq> 0 \<longrightarrow>
      elem_is q (F_idiv P G (Obj r) (Obj a) (Obj b) \<sigma> (Obj r)) (elem_val q (\<sigma> (Obj a)) div elem_val q (\<sigma> (Obj b)))
      \<and> elem_is q (F_mod P G (Obj r) (Obj a) (Obj b) \<sigma> (Obj r)) (elem_val q (\<sigma> (Obj a)) mod elem_val q (\<sigma> (Obj b))))
    \<and> elem_is q (F_pow P G (Obj r) (Obj a) (Obj b) \<sigma> (Obj r)) (elem_val q (\<sigma> (Obj a)) ^ nat (elem_val q (\<sigma> (Obj b))))
    \<and> (\<forall>u. elem_val q (\<sigma> (Obj b)) * u mod int q = 1 \<longrightarrow>
      elem_is q (F_inv P G (Obj r) (Obj b) \<sigma> (Obj r)) u
      \<and> elem_is q (F_div P G (Obj r) (Obj a) (Obj b) \<sigma> (Obj r)) (elem_val q (\<sigma> (Obj a)) * u))"
proof -
  note C = bn254_raw_class [OF assms(1,2)]
  have print: "F_element2str P G (Obj r) (F_str2element P G (Obj r) s 10 \<sigma>) = dec_str (dec_val s mod q)"
    if "s \<noteq> []" "list_all digit_char s"
  proof -
    let ?\<sigma> = "F_str2element P G (Obj r) s 10 \<sigma>"
    have e: "elem_is q (?\<sigma> (Obj r)) (int (dec_val s))" by (rule raw_class.str2element_correct [OF C that])
    then have "F_element2str P G (Obj r) ?\<sigma> = dec_str (nat (elem_val q (?\<sigma> (Obj r))))"
      by (intro raw_class.element2str_correct [OF C]) (simp add: elem_is_def)
    moreover have "nat (int (dec_val s) mod int q) = dec_val s mod q" by (simp flip: zmod_int)
    ultimately show ?thesis using e by (simp add: elem_is_def)
  qed
  show ?thesis
    using print raw_class.integer_operations_correct [OF C assms(3,4), of "Obj r"]
      raw_class.inverse_correct [where \<sigma> = \<sigma> and a = "Obj b", OF C assms(4)]
      raw_class.division_correct [OF C assms(3,4)] by simp
qed

theorem tagged_integer_operations_witness:
  "F_element2str Fr_consts ref_gmp (Obj 0) (F_str2element Fr_consts ref_gmp (Obj 0) ''42'' 10 sample_store)
      = dec_str (42 mod Fr_prime)
    \<and> elem_is Fr_prime (F_mod Fr_consts ref_gmp (Obj 3) (Obj 3) (Obj 1) sample_store (Obj 3)) 2"
proof -
  have "elem_val Fr_prime (sample_store (Obj 1)) = 5" "elem_val Fr_prime (sample_store (Obj 3)) = 7"
    by (simp_all add: sample_store_def elem_val_def is_mont_def is_long_def SHORT_def LONG_def MONTGOMERY_def)
  then show ?thesis
    using tagged_integer_operations [where \<sigma> = sample_store and a = 3 and b = 1 and s = "''42''" and r = 0,
        OF bn254_Fr ref_gmp_laws sample_elem_ok [OF bn254_Fr] sample_elem_ok [OF bn254_Fr]]
      tagged_integer_operations [where \<sigma> = sample_store and a = 3 and b = 1 and r = 3,
        OF bn254_Fr ref_gmp_laws sample_elem_ok [OF bn254_Fr] sample_elem_ok [OF bn254_Fr]]
    by (simp add: digit_char_def dec_val_def)
qed

end
