(* ===== verification/Groth16.thy ===== *)
theory Groth16
  imports Multiexp Fft
begin

section \<open>The Groth16 prover\<close>

text \<open>
  \<open>Groth16::Prover\<close> and \<open>Groth16::Proof\<close> of \<open>groth16.hpp\<close> and \<open>groth16.cpp\<close> over the engine BN254, built
  without \<open>USE_LOGGER\<close> and \<open>USE_SODIUM\<close>. The prover points into the memory that maps the key file and
  reads the witness through a pointer: an array behind a pointer is the list of all elements up to
  the end of its mapping, and an access behind it (undefined in C++) is the error \<open>Out_of_bounds\<close>. The
  asynchronous tasks work on disjoint data and are run in the order of the text.
\<close>

record coef =
  coef_m :: u32
  coef_c :: u32
  coef_s :: u32
  coef_coef :: limbs

record prover =
  p_nVars :: u32
  p_nPublic :: u32
  p_domainSize :: u32
  p_nCoefs :: u64
  p_alpha1 :: "limbs affine"
  p_beta1 :: "limbs affine"
  p_beta2 :: "limbs f2_element affine"
  p_delta1 :: "limbs affine"
  p_delta2 :: "limbs f2_element affine"
  p_coefs :: "coef list"
  p_pointsA :: "limbs affine list"
  p_pointsB1 :: "limbs affine list"
  p_pointsB2 :: "limbs f2_element affine list"
  p_pointsC :: "limbs affine list"
  p_pointsH :: "limbs affine list"
  p_fft :: "limbs fft_state"

record proof_elements =
  proof_A :: "limbs affine"
  proof_B :: "limbs f2_element affine"
  proof_C :: "limbs affine"

datatype prove_error = Fft_failed fft_error | Out_of_bounds | No_randomness

subsection \<open>Elements in memory\<close>

definition element_of_bytes :: "u8 list \<Rightarrow> limbs" where
  "element_of_bytes bs = limbs_of 4 (bval (take 32 bs))"

definition G1_of_bytes :: "u8 list \<Rightarrow> limbs affine" where
  "G1_of_bytes bs = aff (element_of_bytes bs) (element_of_bytes (drop 32 bs))"

definition G2_of_bytes :: "u8 list \<Rightarrow> limbs f2_element affine" where
  "G2_of_bytes bs = aff (f2 (element_of_bytes bs) (element_of_bytes (drop 32 bs)))
     (f2 (element_of_bytes (drop 64 bs)) (element_of_bytes (drop 96 bs)))"

text \<open>\<open>#pragma pack(push, 1)\<close>: three 32-bit words and an element, 44 bytes.\<close>

definition u32_of_bytes :: "u8 list \<Rightarrow> u32" where
  "u32_of_bytes bs = word_of_nat (bval (take 4 bs))"

definition coef_of_bytes :: "u8 list \<Rightarrow> coef" where
  "coef_of_bytes bs = \<lparr>coef_m = u32_of_bytes bs, coef_c = u32_of_bytes (drop 4 bs), coef_s = u32_of_bytes (drop 8 bs),
     coef_coef = element_of_bytes (drop 12 bs)\<rparr>"

definition array_at :: "(u8 list \<Rightarrow> 'a) \<Rightarrow> nat \<Rightarrow> u8 list \<Rightarrow> nat \<Rightarrow> 'a list" where
  "array_at f k mem p = map (\<lambda>i. f (drop (p + i * k) mem)) [0..<(length mem - p) div k]"

definition makeProver ::
    "gmp \<Rightarrow> tbb \<Rightarrow> limbs \<Rightarrow> u8 list \<Rightarrow> u32 \<Rightarrow> u32 \<Rightarrow> u32 \<Rightarrow> u64 \<Rightarrow> nat \<Rightarrow> nat \<Rightarrow> nat \<Rightarrow> nat \<Rightarrow> nat \<Rightarrow> nat \<Rightarrow>
     nat \<Rightarrow> nat \<Rightarrow> nat \<Rightarrow> nat \<Rightarrow> nat \<Rightarrow> fft_error + prover" where
  "makeProver G T e0 mem nVars nPublic domainSize nCoeffs vk_alpha1 vk_beta_1 vk_beta_2 vk_delta_1 vk_delta_2
     coefs pointsA pointsB1 pointsB2 pointsC pointsH =
     (case FFT_new G (RawFr_ops G) (RawFr_numbers G) T e0 (unat (domainSize * 2)) of
        Inl err \<Rightarrow> Inl err
      | Inr R \<Rightarrow> Inr \<lparr>
          p_nVars = nVars, p_nPublic = nPublic, p_domainSize = domainSize, p_nCoefs = nCoeffs,
          p_alpha1 = G1_of_bytes (drop vk_alpha1 mem), p_beta1 = G1_of_bytes (drop vk_beta_1 mem),
          p_beta2 = G2_of_bytes (drop vk_beta_2 mem), p_delta1 = G1_of_bytes (drop vk_delta_1 mem),
          p_delta2 = G2_of_bytes (drop vk_delta_2 mem),
          p_coefs = array_at coef_of_bytes 44 mem (coefs + 4),
          p_pointsA = array_at G1_of_bytes 64 mem pointsA, p_pointsB1 = array_at G1_of_bytes 64 mem pointsB1,
          p_pointsB2 = array_at G2_of_bytes 128 mem pointsB2, p_pointsC = array_at G1_of_bytes 64 mem pointsC,
          p_pointsH = array_at G1_of_bytes 64 mem pointsH, p_fft = R\<rparr>)"

subsection \<open>The vectors a, b and c\<close>

definition zero_body :: "limbs field_ops \<Rightarrow> limbs list \<times> limbs list \<Rightarrow> nat \<times> nat \<Rightarrow> limbs list \<times> limbs list" where
  "zero_body F ab it = (let (a, b) = ab; i = fst it in (a[i := F_copy F (F_zero F)], b[i := F_copy F (F_zero F)]))"

text \<open>The addition is under the lock of the row, so the body is one step (theory \<open>Spinlock\<close>).\<close>

definition coef_body ::
    "limbs field_ops \<Rightarrow> limbs list \<Rightarrow> coef list \<Rightarrow> limbs list \<times> limbs list \<Rightarrow> nat \<times> nat \<Rightarrow> limbs list \<times> limbs list" where
  "coef_body F wtns coefs ab it =
     (let (a, b) = ab;
          k = coefs ! fst it;
          c = unat (coef_c k);
          aux = F_mul F (wtns ! unat (coef_s k)) (coef_coef k)
      in if coef_m k = 0 then (a[c := F_add F (a ! c) aux], b) else (a, b[c := F_add F (b ! c) aux]))"

definition mul_body :: "limbs field_ops \<Rightarrow> limbs list \<Rightarrow> limbs list \<Rightarrow> nat \<Rightarrow> limbs list \<Rightarrow> limbs list" where
  "mul_body F a b i c = c[i := F_mul F (a ! i) (b ! i)]"

definition shift_body :: "limbs field_ops \<Rightarrow> limbs fft_state \<Rightarrow> nat \<Rightarrow> nat \<Rightarrow> limbs list \<Rightarrow> limbs list" where
  "shift_body F R domainPower i a = a[i := F_mul F (a ! i) (fft_root R (domainPower + 1) i)]"

text \<open>One of the three tasks: inverse transform, shift, transform.\<close>

definition to_coset ::
    "limbs field_ops \<Rightarrow> tbb \<Rightarrow> limbs fft_state \<Rightarrow> nat \<Rightarrow> limbs list \<Rightarrow> nat \<Rightarrow> fft_error + limbs list" where
  "to_coset F T R domainPower a n =
     (case ifft F T R a n of Inl err \<Rightarrow> Inl err | Inr a \<Rightarrow>
        fft F T R (par_for T [22] 0 n (shift_body F R domainPower) a) n)"

definition abc_body :: "gmp \<Rightarrow> limbs list \<Rightarrow> limbs list \<Rightarrow> nat \<Rightarrow> limbs list \<Rightarrow> limbs list" where
  "abc_body G b c i a =
     (let a = a[i := F_mul (RawFr_ops G) (a ! i) (b ! i)];
          a = a[i := F_sub (RawFr_ops G) (a ! i) (c ! i)]
      in a[i := rawFromMontgomery Fr_consts G (a ! i)])"

text \<open>
  The loop indices of the source are of type \<open>int\<close>: from \<open>2 ^ 31\<close> coefficients on, an index read from
  the range is negative. The row, the column and the number of coefficients are not compared with
  anything in the source.
\<close>

definition coefs_in_bounds :: "prover \<Rightarrow> nat \<Rightarrow> bool" where
  "coefs_in_bounds P nw \<longleftrightarrow> unat (p_nCoefs P) < 2 ^ 31 \<and> unat (p_nCoefs P) \<le> length (p_coefs P)
     \<and> list_all (\<lambda>k. unat (coef_c k) < unat (p_domainSize P) \<and> unat (coef_s k) < nw)
         (take (unat (p_nCoefs P)) (p_coefs P))"

definition compute_h :: "gmp \<Rightarrow> tbb \<Rightarrow> (nat \<Rightarrow> limbs list) \<Rightarrow> prover \<Rightarrow> limbs list \<Rightarrow> prove_error + limbs list" where
  "compute_h G T fresh P wtns =
     (let F = RawFr_ops G; R = p_fft P; n = unat (p_domainSize P) in
      if \<not> coefs_in_bounds P (length wtns) then Inl Out_of_bounds
      else
      let (a, b) = foldl (zero_body F) (fresh n, fresh n) (parallel_for T [20] 0 n);
          (a, b) = foldl (coef_body F wtns (p_coefs P)) (a, b) (parallel_for T [21] 0 (unat (p_nCoefs P)));
          c = par_for T [23] 0 n (mul_body F a b) (fresh n)
      in case fft_log2 n of Inl err \<Rightarrow> Inl (Fft_failed err) | Inr domainPower \<Rightarrow>
         case to_coset F T R domainPower a n of Inl err \<Rightarrow> Inl (Fft_failed err) | Inr a \<Rightarrow>
         case to_coset F T R domainPower b n of Inl err \<Rightarrow> Inl (Fft_failed err) | Inr b \<Rightarrow>
         case to_coset F T R domainPower c n of Inl err \<Rightarrow> Inl (Fft_failed err) | Inr c \<Rightarrow>
         Inr (par_for T [24] 0 n (abc_body G b c) a))"

subsection \<open>The random scalars\<close>

text \<open>
  \<open>randombytes_buf\<close> of \<open>random_generator.hpp\<close> fills a buffer from the random device, a stream of bytes
  with a position. The rejection loop ends when a sample below the modulus appears.
\<close>

definition randombytes_buf :: "(nat \<Rightarrow> u8) \<Rightarrow> nat \<Rightarrow> nat \<Rightarrow> u8 list \<times> nat" where
  "randombytes_buf device pos sz = (map (\<lambda>i. device (pos + i)) [0..<sz], pos + sz)"

definition fr_modulus :: limbs where
  "fr_modulus = [0x43E1F593F0000001, 0x2833E84879B97091, 0xB85045B68181585D, 0x30644E72E131A029]"

partial_function (option) sample_scalar :: "gmp \<Rightarrow> (nat \<Rightarrow> u8) \<Rightarrow> nat \<Rightarrow> (limbs \<times> nat) option" where
  "sample_scalar G device pos =
     (let (bs, pos) = randombytes_buf device pos 32;
          r = element_of_bytes bs;
          r = r[3 := r ! 3 AND 0x3FFFFFFFFFFFFFFF];
          cmp = mpn_cmp G r fr_modulus
      in if 0 \<le> cmp then sample_scalar G device pos else Some (r, pos))"

subsection \<open>The proof\<close>

definition wtns_bytes :: "limbs list \<Rightarrow> u8 list" where
  "wtns_bytes wtns = concat (map limb_bytes wtns)"

text \<open>
  The sum of multiples by \<open>n\<close> scalars from a byte offset of an array of elements on. \<open>nPublic + 1\<close>
  times 32 and \<open>nVars - nPublic - 1\<close> are computed on 32 bits.
\<close>

definition multiexp_at ::
    "'e curve \<Rightarrow> 'e memory \<Rightarrow> tbb \<Rightarrow> 'e affine list \<Rightarrow> limbs list \<Rightarrow> nat \<Rightarrow> nat \<Rightarrow> prove_error + 'e point" where
  "multiexp_at C Z T bs wtns off n =
     (if length bs < n \<or> length (wtns_bytes wtns) < off + n * 32 then Inl Out_of_bounds
      else Inr (Curve_multiMulByScalar C Z T (take n bs) (take (n * 32) (drop off (wtns_bytes wtns))) 32 n))"

definition public_offset :: "prover \<Rightarrow> nat" where
  "public_offset P = unat ((p_nPublic P + 1) * 32)"

definition private_count :: "prover \<Rightarrow> nat" where
  "private_count P = unat (p_nVars P - p_nPublic P - 1)"

text \<open>From the blinding of \<open>pi_a\<close> to the copies into the proof.\<close>

definition assemble ::
    "gmp \<Rightarrow> limbs curve \<Rightarrow> limbs f2_element curve \<Rightarrow> prover \<Rightarrow> limbs point \<Rightarrow> limbs point \<Rightarrow> limbs f2_element point \<Rightarrow>
     limbs point \<Rightarrow> limbs point \<Rightarrow> limbs \<Rightarrow> limbs \<Rightarrow> proof_elements" where
  "assemble G C1 C2 P pi_a pib1 pi_b pi_c pih r s =
     (let pi_a = Curve_addPA C1 pi_a (p_alpha1 P);
          p1 = Curve_mulByScalarA C1 (p_delta1 P) (limb_bytes r) 32;
          pi_a = Curve_addPP C1 pi_a p1;
          pi_b = Curve_addPA C2 pi_b (p_beta2 P);
          p2 = Curve_mulByScalarA C2 (p_delta2 P) (limb_bytes s) 32;
          pi_b = Curve_addPP C2 pi_b p2;
          pib1 = Curve_addPA C1 pib1 (p_beta1 P);
          p1 = Curve_mulByScalarA C1 (p_delta1 P) (limb_bytes s) 32;
          pib1 = Curve_addPP C1 pib1 p1;
          pi_c = Curve_addPP C1 pi_c pih;
          p1 = Curve_mulByScalarP C1 pi_a (limb_bytes s) 32;
          pi_c = Curve_addPP C1 pi_c p1;
          p1 = Curve_mulByScalarP C1 pib1 (limb_bytes r) 32;
          pi_c = Curve_addPP C1 pi_c p1;
          rs = F_mul (RawFr_ops G) r s;
          rs = rawToMontgomery Fr_consts G rs;
          p1 = Curve_mulByScalarA C1 (p_delta1 P) (limb_bytes rs) 32;
          pi_c = Curve_subPP C1 pi_c p1
      in \<lparr>proof_A = Curve_copyAP C1 pi_a, proof_B = Curve_copyAP C2 pi_b, proof_C = Curve_copyAP C1 pi_c\<rparr>)"

definition prove ::
    "gmp \<Rightarrow> limbs curve \<Rightarrow> limbs f2_element curve \<Rightarrow> limbs memory \<Rightarrow> limbs f2_element memory \<Rightarrow> tbb \<Rightarrow>
     (nat \<Rightarrow> limbs list) \<Rightarrow> (nat \<Rightarrow> u8) \<Rightarrow> nat \<Rightarrow> prover \<Rightarrow> limbs list \<Rightarrow> prove_error + proof_elements" where
  "prove G C1 C2 Z Z2 T fresh device pos P wtns =
     (let nv = unat (p_nVars P) in
      case multiexp_at C1 Z T (p_pointsA P) wtns 0 nv of Inl err \<Rightarrow> Inl err | Inr pi_a \<Rightarrow>
      case multiexp_at C1 Z T (p_pointsB1 P) wtns 0 nv of Inl err \<Rightarrow> Inl err | Inr pib1 \<Rightarrow>
      case multiexp_at C2 Z2 T (p_pointsB2 P) wtns 0 nv of Inl err \<Rightarrow> Inl err | Inr pi_b \<Rightarrow>
      case multiexp_at C1 Z T (p_pointsC P) wtns (public_offset P) (private_count P) of Inl err \<Rightarrow> Inl err | Inr pi_c \<Rightarrow>
      case compute_h G T fresh P wtns of Inl err \<Rightarrow> Inl err | Inr a \<Rightarrow>
      case multiexp_at C1 Z T (p_pointsH P) a 0 (unat (p_domainSize P)) of Inl err \<Rightarrow> Inl err | Inr pih \<Rightarrow>
      case sample_scalar G device pos of None \<Rightarrow> Inl No_randomness | Some (r, pos) \<Rightarrow>
      case sample_scalar G device pos of None \<Rightarrow> Inl No_randomness | Some (s, pos) \<Rightarrow>
      Inr (assemble G C1 C2 P pi_a pib1 pi_b pi_c pih r s))"

subsection \<open>The proof as text\<close>

definition quoted :: "string \<Rightarrow> string" where
  "quoted s = CHR 0x22 # s @ [CHR 0x22]"

definition toJsonStr :: "gmp \<Rightarrow> proof_elements \<Rightarrow> string" where
  "toJsonStr G p = (let f1 = (\<lambda>x. RawF_toString Fq_consts G x 10); A = proof_A p; B = proof_B p; C = proof_C p in
     ''{ '' @ quoted ''pi_a'' @ '':['' @ quoted (f1 (ax A)) @ '','' @ quoted (f1 (ay A)) @ '','' @ quoted ''1'' @ ''], '' @
     '' '' @ quoted ''pi_b'' @ '': [['' @ quoted (f1 (f2a (ax B))) @ '','' @ quoted (f1 (f2b (ax B))) @ ''],['' @
     quoted (f1 (f2a (ay B))) @ '','' @ quoted (f1 (f2b (ay B))) @ ''], ['' @ quoted ''1'' @ '','' @ quoted ''0'' @ '']], '' @
     '' '' @ quoted ''pi_c'' @ '': ['' @ quoted (f1 (ax C)) @ '','' @ quoted (f1 (ay C)) @ '','' @ quoted ''1'' @ ''], '' @
     '' '' @ quoted ''protocol'' @ '':'' @ quoted ''groth16'' @ '' }'')"

text \<open>
  \<open>toJson\<close> builds a value of the library nlohmann/json, whose operations are a parameter: the null
  value, a string, appending to an array (or to null) and setting a member of an object (or of null).
\<close>

record 'j json_ops =
  json_null :: 'j
  json_string :: "string \<Rightarrow> 'j"
  json_push_back :: "'j \<Rightarrow> 'j \<Rightarrow> 'j"
  json_set :: "'j \<Rightarrow> string \<Rightarrow> 'j \<Rightarrow> 'j"
  json_dump :: "'j \<Rightarrow> string"

definition json_array :: "'j json_ops \<Rightarrow> 'j list \<Rightarrow> 'j" where
  "json_array J xs = foldl (json_push_back J) (json_null J) xs"

definition toJson :: "'j json_ops \<Rightarrow> gmp \<Rightarrow> proof_elements \<Rightarrow> 'j" where
  "toJson J G p = (let f1 = (\<lambda>x. json_string J (RawF_toString Fq_consts G x 10)); str = json_string J;
       A = proof_A p; B = proof_B p; C = proof_C p;
       x2 = json_array J [f1 (f2a (ax B)), f1 (f2b (ax B))];
       y2 = json_array J [f1 (f2a (ay B)), f1 (f2b (ay B))];
       z2 = json_array J [str ''1'', str ''0''];
       j = json_set J (json_null J) ''pi_a'' (json_array J [f1 (ax A), f1 (ay A), str ''1'']);
       j = json_set J j ''pi_b'' (json_array J [x2, y2, z2]);
       j = json_set J j ''pi_c'' (json_array J [f1 (ax C), f1 (ay C), str ''1''])
     in json_set J j ''protocol'' (str ''groth16''))"

end
