(* ===== verification/Bin_File.thy ===== *)
theory Bin_File
  imports Gmp_Api
begin

section \<open>Binary section files\<close>

text \<open>
  \<open>FileLoader\<close> of \<open>fileloader.hpp\<close> and \<open>BinFile\<close> of \<open>binfile_utils.hpp\<close>, \<open>binfile_utils.cpp\<close>: a file
  mapped into memory, a table of its sections and a read position. Addresses are distances from the
  start of the mapping, as 64-bit words: \<open>std::ptrdiff_t\<close> and \<open>std::uint64_t\<close> mix in the source, and a
  sum that passes \<open>2 ^ 64\<close> wraps. A read that leaves the mapping is the error \<open>Out_of_bounds_read\<close>.
  Assertions are compiled in. The system calls are a parameter.
\<close>

datatype exn = Invalid_argument string | Range_exn string | System_error string
  | Assertion_failure | Out_of_bounds_read | Null_pointer | Division_by_zero

type_synonym file_ptr = u64

subsection \<open>Mapping a file\<close>

record os =
  os_open :: "string \<Rightarrow> int"
  os_fstat :: "int \<Rightarrow> int \<times> nat"
  os_mmap :: "nat \<Rightarrow> int \<Rightarrow> u8 list option"

text \<open>With the descriptors that are open before and after.\<close>

definition FileLoader_new :: "os \<Rightarrow> string \<Rightarrow> int list \<Rightarrow> (exn + u8 list \<times> int) \<times> int list" where
  "FileLoader_new os fileName fds =
     (let fd = os_open os fileName in
      if fd = -1 then (Inl (System_error ''open''), fds)
      else let fds = fd # fds; (ret, sz) = os_fstat os fd in
      if ret = -1 then (Inl (System_error ''fstat''), remove1 fd fds)
      else case os_mmap os sz fd of
          None \<Rightarrow> (Inl (System_error ''mmap''), remove1 fd fds)
        | Some mapped \<Rightarrow> (Inr (mapped, fd), fds))"

definition FileLoader_delete :: "int \<Rightarrow> int list \<Rightarrow> int list" where
  "FileLoader_delete fd fds = remove1 fd fds"

subsection \<open>The object\<close>

record file_section =
  sec_start :: file_ptr
  sec_size :: u64

record binfile =
  bf_data :: "u8 list"
  bf_size :: u64
  bf_pos :: file_ptr
  bf_sections :: "u32 \<Rightarrow> file_section list option"
  bf_type :: string
  bf_version :: u32
  bf_reading :: "file_section option"

text \<open>Sequencing of steps that change an object and may throw.\<close>

definition and_then :: "('s \<Rightarrow> 'x + 'a \<times> 's) \<Rightarrow> ('a \<Rightarrow> 's \<Rightarrow> 'x + 'b \<times> 's) \<Rightarrow> 's \<Rightarrow> 'x + 'b \<times> 's" where
  "and_then m f s = (case m s of Inl e \<Rightarrow> Inl e | Inr (x, s') \<Rightarrow> f x s')"

definition load_bytes :: "u8 list \<Rightarrow> file_ptr \<Rightarrow> nat \<Rightarrow> exn + u8 list" where
  "load_bytes data p n = (if unat p + n \<le> length data then Inr (take n (drop (unat p) data)) else Inl Out_of_bounds_read)"

definition readU32LE :: "binfile \<Rightarrow> exn + u32 \<times> binfile" where
  "readU32LE bf =
     (if \<not> bf_pos bf + 4 \<le> bf_size bf then Inl Assertion_failure
      else case load_bytes (bf_data bf) (bf_pos bf) 4 of Inl e \<Rightarrow> Inl e
        | Inr bs \<Rightarrow> Inr (word_of_nat (bval bs), bf\<lparr>bf_pos := bf_pos bf + 4\<rparr>))"

definition readU64LE :: "binfile \<Rightarrow> exn + u64 \<times> binfile" where
  "readU64LE bf =
     (if \<not> bf_pos bf + 8 \<le> bf_size bf then Inl Assertion_failure
      else case load_bytes (bf_data bf) (bf_pos bf) 8 of Inl e \<Rightarrow> Inl e
        | Inr bs \<Rightarrow> Inr (word_of_nat (bval bs), bf\<lparr>bf_pos := bf_pos bf + 8\<rparr>))"

text \<open>\<open>read\<close> returns the address of the bytes and does not touch them.\<close>

definition read_ptr :: "u64 \<Rightarrow> binfile \<Rightarrow> exn + file_ptr \<times> binfile" where
  "read_ptr len bf =
     (if \<not> bf_pos bf + len \<le> bf_size bf then Inl Assertion_failure
      else Inr (bf_pos bf, bf\<lparr>bf_pos := bf_pos bf + len\<rparr>))"

subsection \<open>The constructor\<close>

text \<open>The loop over the table of sections.\<close>

definition push_section :: "u32 \<Rightarrow> u64 \<Rightarrow> binfile \<Rightarrow> binfile" where
  "push_section sType sSize bf =
     (let s = \<lparr>sec_start = bf_pos bf, sec_size = sSize\<rparr>;
          old = (case bf_sections bf sType of None \<Rightarrow> [] | Some ss \<Rightarrow> ss)
      in bf\<lparr>bf_sections := (bf_sections bf)(sType := Some (old @ [s])), bf_pos := bf_pos bf + sSize\<rparr>)"

primrec read_sections :: "nat \<Rightarrow> binfile \<Rightarrow> exn + unit \<times> binfile" where
  "read_sections 0 bf = Inr ((), bf)"
| "read_sections (Suc n) bf =
     and_then readU32LE (\<lambda>sType. and_then readU64LE (\<lambda>sSize bf. read_sections n (push_section sType sSize bf))) bf"

definition BinFile_new :: "u8 list \<Rightarrow> string \<Rightarrow> u32 \<Rightarrow> exn + binfile" where
  "BinFile_new data expected_type maxVersion =
     (let size = word_of_nat (length data);
          bf = \<lparr>bf_data = data, bf_size = size, bf_pos = 0, bf_sections = (\<lambda>_. None), bf_type = [], bf_version = 0,
            bf_reading = None\<rparr>
      in if \<not> 4 \<le> size then Inl Assertion_failure
      else let type = map (\<lambda>b. char_of (unat b)) (take 4 data); bf = bf\<lparr>bf_type := type, bf_pos := 4\<rparr> in
      if type \<noteq> expected_type
      then Inl (Invalid_argument (''Invalid file type. It should be '' @ expected_type @ '' and it is '' @ type))
      else case readU32LE bf of Inl e \<Rightarrow> Inl e | Inr (version, bf) \<Rightarrow>
      let bf = bf\<lparr>bf_version := version\<rparr> in
      if maxVersion < version
      then Inl (Invalid_argument (''Invalid version. It should be <='' @ dec_str (unat maxVersion) @ '' and it is '' @
        dec_str (unat version)))
      else case readU32LE bf of Inl e \<Rightarrow> Inl e | Inr (nSections, bf) \<Rightarrow>
      case read_sections (unat nSections) bf of Inl e \<Rightarrow> Inl e | Inr (_, bf) \<Rightarrow>
      Inr (bf\<lparr>bf_pos := 0, bf_reading := None\<rparr>))"

text \<open>
  When the constructor of \<open>BinFile\<close> throws, the loader goes out of scope and closes the file.
\<close>

definition make_from_file :: "os \<Rightarrow> string \<Rightarrow> string \<Rightarrow> u32 \<Rightarrow> int list \<Rightarrow> (exn + binfile \<times> int) \<times> int list" where
  "make_from_file os filename type maxVersion fds =
     (case FileLoader_new os filename fds of
        (Inl e, fds) \<Rightarrow> (Inl e, fds)
      | (Inr (data, fd), fds) \<Rightarrow>
        (case BinFile_new data type maxVersion of
           Inl e \<Rightarrow> (Inl e, FileLoader_delete fd fds)
         | Inr bf \<Rightarrow> (Inr (bf, fd), fds)))"

subsection \<open>Sections\<close>

definition no_section :: "u32 \<Rightarrow> exn" where
  "no_section sectionId = Range_exn (''Section does not exist: '' @ dec_str (unat sectionId))"

definition pos_too_big :: "nat \<Rightarrow> u32 \<Rightarrow> exn" where
  "pos_too_big n sectionPos = Range_exn (''Section pos too big. There are '' @ dec_str n @
     '' and it's trying to access section: '' @ dec_str (unat sectionPos))"

text \<open>The two checks that the accessors share, and the section they admit.\<close>

definition find_section :: "u32 \<Rightarrow> u32 \<Rightarrow> binfile \<Rightarrow> exn + file_section" where
  "find_section sectionId sectionPos bf =
     (case bf_sections bf sectionId of None \<Rightarrow> Inl (no_section sectionId)
      | Some ss \<Rightarrow> if length ss \<le> unat sectionPos then Inl (pos_too_big (length ss) sectionPos)
                  else Inr (ss ! unat sectionPos))"

definition startReadSection :: "u32 \<Rightarrow> u32 \<Rightarrow> binfile \<Rightarrow> exn + unit \<times> binfile" where
  "startReadSection sectionId sectionPos bf =
     (case find_section sectionId sectionPos bf of Inl e \<Rightarrow> Inl e | Inr s \<Rightarrow>
      if bf_reading bf \<noteq> None then Inl (Range_exn ''Already reading a section'')
      else Inr ((), bf\<lparr>bf_pos := sec_start s, bf_reading := Some s\<rparr>))"

definition endReadSection :: "bool \<Rightarrow> binfile \<Rightarrow> exn + unit \<times> binfile" where
  "endReadSection check bf =
     (if check then
        case bf_reading bf of None \<Rightarrow> Inl Null_pointer | Some s \<Rightarrow>
        if bf_pos bf - sec_start s \<noteq> sec_size s then Inl (Range_exn ''Invalid section size'')
        else Inr ((), bf\<lparr>bf_reading := None\<rparr>)
      else Inr ((), bf\<lparr>bf_reading := None\<rparr>))"

definition getSectionData :: "u32 \<Rightarrow> u32 \<Rightarrow> binfile \<Rightarrow> exn + file_ptr" where
  "getSectionData sectionId sectionPos bf =
     (case find_section sectionId sectionPos bf of Inl e \<Rightarrow> Inl e | Inr s \<Rightarrow> Inr (sec_start s))"

definition getSectionSize :: "u32 \<Rightarrow> u32 \<Rightarrow> binfile \<Rightarrow> exn + u64" where
  "getSectionSize sectionId sectionPos bf =
     (case find_section sectionId sectionPos bf of Inl e \<Rightarrow> Inl e | Inr s \<Rightarrow> Inr (sec_size s))"

end
