(* ===== verification/Headers.thy ===== *)
theory Headers
  imports Bin_File
begin

section \<open>The headers of keys and witnesses\<close>

text \<open>
  \<open>ZKeyUtils::Header\<close> of \<open>zkey_utils.hpp\<close> and \<open>WtnsUtils::Header\<close> of \<open>wtns_utils.hpp\<close>. Products of the
  element size by 2 and 4 and the sum under the division are computed on 32 bits.
\<close>

record zkey_header =
  zh_n8q :: u32
  zh_qPrime :: int
  zh_n8r :: u32
  zh_rPrime :: int
  zh_nVars :: u32
  zh_nPublic :: u32
  zh_domainSize :: u32
  zh_nCoefs :: u64
  zh_vk_alpha1 :: file_ptr
  zh_vk_beta1 :: file_ptr
  zh_vk_beta2 :: file_ptr
  zh_vk_gamma2 :: file_ptr
  zh_vk_delta1 :: file_ptr
  zh_vk_delta2 :: file_ptr

record wtns_header =
  wh_n8 :: u32
  wh_prime :: int
  wh_nVars :: u32

text \<open>\<open>mpz_import(p, n8, -1, 1, -1, 0, bin_file.read(n8))\<close>: here the bytes are read.\<close>

definition read_prime :: "gmp \<Rightarrow> u32 \<Rightarrow> binfile \<Rightarrow> exn + int \<times> binfile" where
  "read_prime G n8 = and_then (read_ptr (ucast n8)) (\<lambda>p bf.
     case load_bytes (bf_data bf) p (unat n8) of Inl e \<Rightarrow> Inl e
     | Inr bs \<Rightarrow> Inr (mpz_import G (unat n8) (-1) 1 (-1) 0 bs, bf))"

definition zkey_fields :: "gmp \<Rightarrow> binfile \<Rightarrow> exn + zkey_header \<times> binfile" where
  "zkey_fields G =
     and_then readU32LE (\<lambda>n8q. and_then (read_prime G n8q) (\<lambda>qPrime.
     and_then readU32LE (\<lambda>n8r. and_then (read_prime G n8r) (\<lambda>rPrime.
     and_then readU32LE (\<lambda>nVars. and_then readU32LE (\<lambda>nPublic. and_then readU32LE (\<lambda>domainSize.
     and_then (read_ptr (ucast (n8q * 2))) (\<lambda>alpha1. and_then (read_ptr (ucast (n8q * 2))) (\<lambda>beta1.
     and_then (read_ptr (ucast (n8q * 4))) (\<lambda>beta2. and_then (read_ptr (ucast (n8q * 4))) (\<lambda>gamma2.
     and_then (read_ptr (ucast (n8q * 2))) (\<lambda>delta1. and_then (read_ptr (ucast (n8q * 4))) (\<lambda>delta2 bf.
     Inr (\<lparr>zh_n8q = n8q, zh_qPrime = qPrime, zh_n8r = n8r, zh_rPrime = rPrime, zh_nVars = nVars,
       zh_nPublic = nPublic, zh_domainSize = domainSize, zh_nCoefs = 0, zh_vk_alpha1 = alpha1,
       zh_vk_beta1 = beta1, zh_vk_beta2 = beta2, zh_vk_gamma2 = gamma2, zh_vk_delta1 = delta1,
       zh_vk_delta2 = delta2\<rparr>, bf))))))))))))))"

definition zkey_make_from_bin_file :: "gmp \<Rightarrow> binfile \<Rightarrow> exn + zkey_header \<times> binfile" where
  "zkey_make_from_bin_file G =
     and_then (startReadSection 1 0) (\<lambda>_. and_then readU32LE (\<lambda>protocol.
     if protocol \<noteq> 1 then (\<lambda>_. Inl (Invalid_argument ''zkey file is not groth16''))
     else and_then (endReadSection True) (\<lambda>_. and_then (startReadSection 2 0) (\<lambda>_.
       and_then (zkey_fields G) (\<lambda>ret. and_then (endReadSection True) (\<lambda>_ bf.
       case getSectionSize 4 0 bf of Inl e \<Rightarrow> Inl e | Inr sz \<Rightarrow>
       if 12 + zh_n8r ret = 0 then Inl Division_by_zero
       else Inr (ret\<lparr>zh_nCoefs := sz div ucast (12 + zh_n8r ret)\<rparr>, bf)))))))"

definition wtns_make_from_bin_file :: "gmp \<Rightarrow> binfile \<Rightarrow> exn + wtns_header \<times> binfile" where
  "wtns_make_from_bin_file G =
     and_then (startReadSection 1 0) (\<lambda>_. and_then readU32LE (\<lambda>n8. and_then (read_prime G n8) (\<lambda>prime.
     and_then readU32LE (\<lambda>nVars. and_then (endReadSection True) (\<lambda>_ bf.
     Inr (\<lparr>wh_n8 = n8, wh_prime = prime, wh_nVars = nVars\<rparr>, bf))))))"

end
