(* ===== verification/Full_Prover.thy ===== *)
theory Full_Prover
  imports Groth16 Headers Bn254_Curves
begin

section \<open>The prover over files\<close>

text \<open>
  \<open>FullProver\<close>, \<open>FullProverImpl\<close> and \<open>ProverResponse\<close> of \<open>fullprover.hpp\<close>, \<open>fullprover.cpp\<close>: from the
  name of a key file to a prover object with a state, from the name of a witness file to a response.
  Exceptions that leave a function are its error value; a failed assertion ends the process and is
  passed on in the same way. Log lines, the circuit name that only a log line shows and the GPU are
  left out; the clock is a parameter.
\<close>

datatype full_prover_state = OK | ZKEY_FILE_LOAD_ERROR | UNSUPPORTED_ZKEY_CURVE

datatype prover_response_type = SUCCESS | ERROR

datatype prover_error = NONE | PROVER_NOT_READY | INVALID_INPUT | WITNESS_GENERATION_INVALID_CURVE

datatype failure = File_failure exn | Fft_failure fft_error | Prove_failure prove_error

record prover_response =
  resp_type :: prover_response_type
  raw_json :: string
  resp_error :: prover_error
  prover_time :: int

definition ProverResponse_error :: "prover_error \<Rightarrow> prover_response" where
  "ProverResponse_error err = \<lparr>resp_type = ERROR, raw_json = '''', resp_error = err, prover_time = 0\<rparr>"

definition ProverResponse_success :: "string \<Rightarrow> int \<Rightarrow> prover_response" where
  "ProverResponse_success json time = \<lparr>resp_type = SUCCESS, raw_json = json, resp_error = NONE, prover_time = time\<rparr>"

text \<open>What lies outside the repository, and the two curves of the engine.\<close>

record 'j env =
  e_gmp :: gmp
  e_tbb :: tbb
  e_os :: os
  e_json :: "'j json_ops"
  e_g1 :: "limbs curve"
  e_g2 :: "limbs f2_element curve"
  e_memory1 :: "limbs memory"
  e_memory2 :: "limbs f2_element memory"
  e_fresh :: "nat \<Rightarrow> limbs list"
  e_garbage :: limbs

record full_prover_impl =
  fp_prover :: prover
  fp_header :: zkey_header
  fp_zkey :: binfile
  fp_zkey_fd :: int
  fp_altBbn128r :: int

record full_prover =
  fp_impl :: "full_prover_impl option"
  fp_state :: full_prover_state

subsection \<open>Construction\<close>

definition bn128r_string :: string where
  "bn128r_string = ''21888242871839275222246405745257275088548364400416034343698204'' @ ''186575808495617''"

text \<open>The name between the last separator and the last dot.\<close>

definition getfilename :: "string \<Rightarrow> string" where
  "getfilename path =
     (let path = rev (takeWhile (\<lambda>c. c \<noteq> CHR 0x2F \<and> c \<noteq> CHR 0x5C) (rev path))
      in if CHR 0x2E \<in> set path then rev (tl (dropWhile (\<lambda>c. c \<noteq> CHR 0x2E) (rev path))) else path)"

text \<open>The six section addresses in the order of the call.\<close>

definition key_sections :: "binfile \<Rightarrow> exn + nat list" where
  "key_sections zKey = foldr (\<lambda>i rest.
     case getSectionData i 0 zKey of Inl e \<Rightarrow> Inl e | Inr p \<Rightarrow>
     case rest of Inl e \<Rightarrow> Inl e | Inr ps \<Rightarrow> Inr (unat p # ps)) [4, 5, 6, 7, 8, 9] (Inr [])"

definition load_key :: "'j env \<Rightarrow> int \<Rightarrow> binfile \<Rightarrow> failure + zkey_header \<times> binfile \<times> prover" where
  "load_key E altBbn128r zKey =
     (case zkey_make_from_bin_file (e_gmp E) zKey of Inl e \<Rightarrow> Inl (File_failure e) | Inr (h, zKey) \<Rightarrow>
      if mpz_cmp (e_gmp E) (zh_rPrime h) altBbn128r \<noteq> 0
      then Inl (File_failure (Invalid_argument ''zkey curve not supported''))
      else case key_sections zKey of Inl e \<Rightarrow> Inl (File_failure e) | Inr ps \<Rightarrow>
      case makeProver (e_gmp E) (e_tbb E) (e_garbage E) (bf_data zKey) (zh_nVars h) (zh_nPublic h) (zh_domainSize h)
          (zh_nCoefs h) (unat (zh_vk_alpha1 h)) (unat (zh_vk_beta1 h)) (unat (zh_vk_beta2 h)) (unat (zh_vk_delta1 h))
          (unat (zh_vk_delta2 h)) (ps ! 0) (ps ! 1) (ps ! 2) (ps ! 3) (ps ! 4) (ps ! 5) of
        Inl err \<Rightarrow> Inl (Fft_failure err) | Inr P \<Rightarrow> Inr (h, zKey, P))"

definition FullProverImpl_new :: "'j env \<Rightarrow> string \<Rightarrow> int list \<Rightarrow> (failure + full_prover_impl) \<times> int list" where
  "FullProverImpl_new E zkeyFileName fds =
     (let altBbn128r = snd (mpz_set_str (e_gmp E) bn128r_string 10) in
      case make_from_file (e_os E) zkeyFileName ''zkey'' 1 fds of
        (Inl e, fds) \<Rightarrow> (Inl (File_failure e), fds)
      | (Inr (zKey, fd), fds) \<Rightarrow>
        (case load_key E altBbn128r zKey of
           Inl e \<Rightarrow> (Inl e, FileLoader_delete fd fds)
         | Inr (h, zKey, P) \<Rightarrow> (Inr \<lparr>fp_prover = P, fp_header = h, fp_zkey = zKey, fp_zkey_fd = fd,
             fp_altBbn128r = altBbn128r\<rparr>, fds)))"

text \<open>The two kinds of exceptions that the constructor catches.\<close>

definition FullProver_new :: "'j env \<Rightarrow> string \<Rightarrow> int list \<Rightarrow> (failure + full_prover) \<times> int list" where
  "FullProver_new E zkeyFileName fds =
     (case FullProverImpl_new E zkeyFileName fds of
        (Inr impl, fds) \<Rightarrow> (Inr \<lparr>fp_impl = Some impl, fp_state = OK\<rparr>, fds)
      | (Inl (File_failure (Invalid_argument _)), fds) \<Rightarrow> (Inr \<lparr>fp_impl = None, fp_state = UNSUPPORTED_ZKEY_CURVE\<rparr>, fds)
      | (Inl (File_failure (System_error _)), fds) \<Rightarrow> (Inr \<lparr>fp_impl = None, fp_state = ZKEY_FILE_LOAD_ERROR\<rparr>, fds)
      | (Inl e, fds) \<Rightarrow> (Inl e, fds))"

definition FullProver_delete :: "full_prover \<Rightarrow> int list \<Rightarrow> int list" where
  "FullProver_delete fp fds = (case fp_impl fp of None \<Rightarrow> fds | Some impl \<Rightarrow> FileLoader_delete (fp_zkey_fd impl) fds)"

subsection \<open>Proving\<close>

text \<open>The witness file is open during the call.\<close>

definition prove_witness ::
    "'j env \<Rightarrow> (nat \<Rightarrow> u8) \<Rightarrow> nat \<Rightarrow> int \<Rightarrow> full_prover_impl \<Rightarrow> binfile \<Rightarrow> failure + prover_response" where
  "prove_witness E device pos time impl wtns =
     (case wtns_make_from_bin_file (e_gmp E) wtns of Inl e \<Rightarrow> Inl (File_failure e) | Inr (h, wtns) \<Rightarrow>
      if mpz_cmp (e_gmp E) (wh_prime h) (fp_altBbn128r impl) \<noteq> 0
      then Inr (ProverResponse_error WITNESS_GENERATION_INVALID_CURVE)
      else case getSectionData 2 0 wtns of Inl e \<Rightarrow> Inl (File_failure e) | Inr p \<Rightarrow>
      case prove (e_gmp E) (e_g1 E) (e_g2 E) (e_memory1 E) (e_memory2 E) (e_tbb E) (e_fresh E) device pos
          (fp_prover impl) (array_at element_of_bytes 32 (bf_data wtns) (unat p)) of
        Inl err \<Rightarrow> Inl (Prove_failure err)
      | Inr pr \<Rightarrow> Inr (ProverResponse_success (json_dump (e_json E) (toJson (e_json E) (e_gmp E) pr)) time))"

definition FullProverImpl_prove ::
    "'j env \<Rightarrow> (nat \<Rightarrow> u8) \<Rightarrow> nat \<Rightarrow> int \<Rightarrow> full_prover_impl \<Rightarrow> string \<Rightarrow> int list \<Rightarrow> (failure + prover_response) \<times> int list" where
  "FullProverImpl_prove E device pos time impl witness_file_path fds =
     (case make_from_file (e_os E) witness_file_path ''wtns'' 2 fds of
        (Inl e, fds) \<Rightarrow> (Inl (File_failure e), fds)
      | (Inr (wtns, fd), fds) \<Rightarrow> (prove_witness E device pos time impl wtns, FileLoader_delete fd fds))"

definition FullProver_prove ::
    "'j env \<Rightarrow> (nat \<Rightarrow> u8) \<Rightarrow> nat \<Rightarrow> int \<Rightarrow> full_prover \<Rightarrow> string \<Rightarrow> int list \<Rightarrow> (failure + prover_response) \<times> int list" where
  "FullProver_prove E device pos time fp input fds =
     (if fp_state fp \<noteq> OK then (Inr (ProverResponse_error PROVER_NOT_READY), fds)
      else case fp_impl fp of
          None \<Rightarrow> (Inl (File_failure Null_pointer), fds)
        | Some impl \<Rightarrow> FullProverImpl_prove E device pos time impl input fds)"

end
