(* ===== verification/Bin_File_Laws.thy ===== *)
theory Bin_File_Laws
  imports Headers
begin

section \<open>What the section files hold\<close>

text \<open>
  The format as an encoder, and the parser against it: the bytes that lie at the read position, the
  table of sections after the constructor, and the behaviour on files that are not encodings.
\<close>

subsection \<open>Bytes at the position\<close>

definition at_pos :: "binfile \<Rightarrow> u8 list \<Rightarrow> bool" where
  "at_pos bf bs \<longleftrightarrow> length (bf_data bf) < 2 ^ 63 \<and> unat (bf_size bf) = length (bf_data bf)
     \<and> unat (bf_pos bf) + length bs \<le> length (bf_data bf) \<and> take (length bs) (drop (unat (bf_pos bf)) (bf_data bf)) = bs"

lemma add_pos:
  assumes "unat (p :: u64) + n \<le> m" and "m < 2 ^ 63"
  shows "unat (p + word_of_nat n) = unat p + n"
proof -
  have "unat (word_of_nat n :: u64) = n" using assms by (simp add: unat_of_nat)
  moreover have "unat p + n < 2 ^ 64" using assms by simp
  ultimately show ?thesis by (simp add: unat_word_ariths)
qed

lemma at_pos_skip:
  assumes "at_pos bf (c @ rest)" and "n = word_of_nat (length c)"
  shows "at_pos (bf\<lparr>bf_pos := bf_pos bf + n\<rparr>) rest" and "bf_pos bf + n \<le> bf_size bf"
    and "load_bytes (bf_data bf) (bf_pos bf) (length c) = Inr c"
    and "unat (bf_pos bf + n) = unat (bf_pos bf) + length c"
proof -
  have a: "length (bf_data bf) < 2 ^ 63" "unat (bf_size bf) = length (bf_data bf)"
    "unat (bf_pos bf) + (length c + length rest) \<le> length (bf_data bf)"
    "take (length c + length rest) (drop (unat (bf_pos bf)) (bf_data bf)) = c @ rest"
    using assms(1) by (simp_all add: at_pos_def)
  have p: "unat (bf_pos bf + n) = unat (bf_pos bf) + length c"
    unfolding assms(2) by (rule add_pos [OF _ a(1)]) (use a(3) in simp)
  then show "unat (bf_pos bf + n) = unat (bf_pos bf) + length c" .
  have "take (length c) (c @ rest) = take (length c) (drop (unat (bf_pos bf)) (bf_data bf))"
    unfolding a(4) [symmetric] by simp
  then have c: "take (length c) (drop (unat (bf_pos bf)) (bf_data bf)) = c" by simp
  have "drop (length c) (take (length c + length rest) (drop (unat (bf_pos bf)) (bf_data bf))) = rest" unfolding a(4) by simp
  then have "take (length rest) (drop (unat (bf_pos bf) + length c) (bf_data bf)) = rest"
    by (simp add: drop_take add.commute)
  then show "at_pos (bf\<lparr>bf_pos := bf_pos bf + n\<rparr>) rest" using a p by (simp add: at_pos_def)
  show "bf_pos bf + n \<le> bf_size bf" using a p by (simp add: word_le_nat_alt)
  show "load_bytes (bf_data bf) (bf_pos bf) (length c) = Inr c" using a c by (simp add: load_bytes_def)
qed

lemma read_u32:
  assumes "at_pos bf (bytes_of 4 n @ rest)" and "n < 2 ^ 32"
  shows "readU32LE bf = Inr (word_of_nat n, bf\<lparr>bf_pos := bf_pos bf + 4\<rparr>)" and "at_pos (bf\<lparr>bf_pos := bf_pos bf + 4\<rparr>) rest"
proof -
  note S = at_pos_skip [OF assms(1), of 4]
  show "at_pos (bf\<lparr>bf_pos := bf_pos bf + 4\<rparr>) rest" using S(1) by simp
  have "bval (bytes_of 4 n) = n" using assms(2) by (simp add: bval_bytes_of)
  then show "readU32LE bf = Inr (word_of_nat n, bf\<lparr>bf_pos := bf_pos bf + 4\<rparr>)" using S(2,3) by (simp add: readU32LE_def)
qed

lemma read_u64:
  assumes "at_pos bf (bytes_of 8 n @ rest)" and "n < 2 ^ 64"
  shows "readU64LE bf = Inr (word_of_nat n, bf\<lparr>bf_pos := bf_pos bf + 8\<rparr>)" and "at_pos (bf\<lparr>bf_pos := bf_pos bf + 8\<rparr>) rest"
proof -
  note S = at_pos_skip [OF assms(1), of 8]
  show "at_pos (bf\<lparr>bf_pos := bf_pos bf + 8\<rparr>) rest" using S(1) by simp
  have "bval (bytes_of 8 n) = n" using assms(2) by (simp add: bval_bytes_of)
  then show "readU64LE bf = Inr (word_of_nat n, bf\<lparr>bf_pos := bf_pos bf + 8\<rparr>)" using S(2,3) by (simp add: readU64LE_def)
qed

lemma read_bytes:
  assumes "at_pos bf (c @ rest)" and "n = word_of_nat (length c)"
  shows "read_ptr n bf = Inr (bf_pos bf, bf\<lparr>bf_pos := bf_pos bf + n\<rparr>)" and "at_pos (bf\<lparr>bf_pos := bf_pos bf + n\<rparr>) rest"
  using at_pos_skip [OF assms] by (simp_all add: read_ptr_def)

subsection \<open>The format\<close>

definition encode_section :: "u32 \<times> u8 list \<Rightarrow> u8 list" where
  "encode_section s = bytes_of 4 (unat (fst s)) @ bytes_of 8 (length (snd s)) @ snd s"

definition encode_file :: "string \<Rightarrow> u32 \<Rightarrow> (u32 \<times> u8 list) list \<Rightarrow> u8 list" where
  "encode_file type version secs = map (\<lambda>c. word_of_nat (of_char c)) type @ bytes_of 4 (unat version)
     @ bytes_of 4 (length secs) @ concat (map encode_section secs)"

definition contents :: "u32 \<Rightarrow> (u32 \<times> u8 list) list \<Rightarrow> u8 list list" where
  "contents sid secs = map snd (filter (\<lambda>s. fst s = sid) secs)"

definition holds_section :: "u8 list \<Rightarrow> file_section \<Rightarrow> u8 list \<Rightarrow> bool" where
  "holds_section data s c \<longleftrightarrow> unat (sec_start s) + length c \<le> length data \<and> unat (sec_size s) = length c
     \<and> take (length c) (drop (unat (sec_start s)) data) = c"

definition table_holds :: "binfile \<Rightarrow> (u32 \<times> u8 list) list \<Rightarrow> bool" where
  "table_holds bf secs \<longleftrightarrow> (\<forall>sid. case bf_sections bf sid of None \<Rightarrow> contents sid secs = []
     | Some ss \<Rightarrow> list_all2 (holds_section (bf_data bf)) ss (contents sid secs))"

lemma contents_snoc: "contents sid (secs @ [s]) = contents sid secs @ (if fst s = sid then [snd s] else [])"
  by (simp add: contents_def)

lemma table_push:
  assumes "table_holds bf secs" and "at_pos bf (c @ rest)"
  shows "table_holds (push_section sid (word_of_nat (length c)) bf) (secs @ [(sid, c)])"
proof -
  have c: "unat (bf_pos bf) + length c \<le> length (bf_data bf)" "length (bf_data bf) < 2 ^ 63"
    using assms(2) by (simp_all add: at_pos_def)
  then have "unat (word_of_nat (length c) :: u64) = length c" by (simp add: unat_of_nat)
  then have h: "holds_section (bf_data bf) \<lparr>sec_start = bf_pos bf, sec_size = word_of_nat (length c)\<rparr> c"
    using c at_pos_skip(3) [OF assms(2) refl] by (simp add: holds_section_def load_bytes_def)
  show ?thesis unfolding table_holds_def
  proof
    fix k
    show "case bf_sections (push_section sid (word_of_nat (length c)) bf) k of None \<Rightarrow> contents k (secs @ [(sid, c)]) = []
      | Some ss \<Rightarrow> list_all2 (holds_section (bf_data (push_section sid (word_of_nat (length c)) bf))) ss (contents k (secs @ [(sid, c)]))"
      using assms(1) [unfolded table_holds_def, rule_format, of k] h
      by (auto simp: push_section_def Let_def contents_snoc intro: list_all2_appendI split: option.splits)
  qed
qed

lemma read_sections_value:
  assumes "at_pos bf (concat (map encode_section secs) @ rest)" and "table_holds bf done'"
  shows "\<exists>bf'. read_sections (length secs) bf = Inr ((), bf') \<and> table_holds bf' (done' @ secs)
    \<and> bf_data bf' = bf_data bf \<and> bf_size bf' = bf_size bf \<and> bf_type bf' = bf_type bf \<and> bf_version bf' = bf_version bf"
  using assms
proof (induction secs arbitrary: bf done')
  case (Cons s secs)
  obtain sid c where s: "s = (sid, c)" by (cases s)
  let ?rest = "concat (map encode_section secs) @ rest"
  have 1: "at_pos bf (bytes_of 4 (unat sid) @ bytes_of 8 (length c) @ c @ ?rest)"
    using Cons.prems(1) unfolding s by (simp add: encode_section_def [of "(sid, c)"])
  have sid: "unat sid < 2 ^ 32" using unsigned_less [of sid] by simp
  note A = read_u32 [OF 1 sid]
  define bf1 where "bf1 = bf\<lparr>bf_pos := bf_pos bf + 4\<rparr>"
  have "length c < 2 ^ 64" using 1 by (simp add: at_pos_def)
  note B = read_u64 [OF A(2) this, folded bf1_def]
  define bf2 where "bf2 = bf1\<lparr>bf_pos := bf_pos bf1 + 8\<rparr>"
  note C = B(2) [folded bf2_def]
  have t: "table_holds bf2 done'" using Cons.prems(2) by (simp add: table_holds_def bf1_def bf2_def cong: option.case_cong)
  define bf3 where "bf3 = push_section sid (word_of_nat (length c)) bf2"
  have d: "at_pos bf3 ?rest" using at_pos_skip(1) [OF C refl] by (simp add: bf3_def push_section_def Let_def at_pos_def)
  have e: "read_sections (length (s # secs)) bf = read_sections (length secs) bf3"
    using A(1) B(1) by (simp add: and_then_def flip: bf1_def bf2_def bf3_def)
  note T = table_push [OF t C, of sid, folded bf3_def]
  from Cons.IH [OF d T] show ?case
    unfolding e by (simp add: s) (simp add: bf3_def bf2_def bf1_def push_section_def Let_def)
qed simp

text \<open>An encoded file, with anything behind its end, is read as what was encoded.\<close>

lemma type_bytes: "map (\<lambda>b. char_of (unat b)) (map (\<lambda>c. word_of_nat (of_char c) :: u8) type) = type"
proof -
  have "unat (word_of_nat (of_char c) :: u8) = of_char c" for c
    by (simp add: unat_of_nat)
  then show ?thesis by (simp add: comp_def)
qed

theorem BinFile_new_value:
  assumes "length type = 4" and "version \<le> maxVersion" and "length secs < 2 ^ 32"
    and "length (encode_file type version secs @ extra) < 2 ^ 63"
  shows "\<exists>bf. BinFile_new (encode_file type version secs @ extra) type maxVersion = Inr bf
    \<and> bf_data bf = encode_file type version secs @ extra \<and> unat (bf_size bf) = length (bf_data bf)
    \<and> bf_type bf = type \<and> bf_version bf = version \<and> bf_reading bf = None \<and> table_holds bf secs"
proof -
  define data where "data = encode_file type version secs @ extra"
  have l: "length data < 2 ^ 63" using assms(4) by (simp only: data_def)
  define bf0 where "bf0 = \<lparr>bf_data = data, bf_size = word_of_nat (length data), bf_pos = 0, bf_sections = (\<lambda>_. None), bf_type = [],
    bf_version = 0, bf_reading = None\<rparr>"
  let ?tb = "map (\<lambda>c. word_of_nat (of_char c)) type :: u8 list"
  let ?secs = "concat (map encode_section secs) @ extra"
  have d: "data = ?tb @ bytes_of 4 (unat version) @ bytes_of 4 (length secs) @ ?secs" by (simp add: data_def encode_file_def)
  have sz: "unat (word_of_nat (length data) :: u64) = length data" using l by (simp add: unat_of_nat)
  have "at_pos bf0 data" using l sz by (simp add: at_pos_def bf0_def)
  then have a0: "at_pos bf0 (?tb @ bytes_of 4 (unat version) @ bytes_of 4 (length secs) @ ?secs)" by (simp only: d)
  define bf1 where "bf1 = bf0\<lparr>bf_type := type, bf_pos := 4\<rparr>"
  have "at_pos (bf0\<lparr>bf_pos := bf_pos bf0 + 4\<rparr>) (bytes_of 4 (unat version) @ bytes_of 4 (length secs) @ ?secs)"
    by (rule at_pos_skip(1) [OF a0]) (simp add: assms(1))
  then have a1: "at_pos bf1 (bytes_of 4 (unat version) @ bytes_of 4 (length secs) @ ?secs)"
    by (simp add: bf1_def bf0_def at_pos_def)
  have v: "unat version < 2 ^ 32" using unsigned_less [of version] by simp
  note A = read_u32 [OF a1 v]
  define bf2 where "bf2 = bf1\<lparr>bf_pos := bf_pos bf1 + 4, bf_version := version\<rparr>"
  have "at_pos bf2 (bytes_of 4 (length secs) @ ?secs)" using A(2) by (simp add: bf2_def at_pos_def)
  note B = read_u32 [OF this assms(3)]
  define bf3 where "bf3 = bf2\<lparr>bf_pos := bf_pos bf2 + 4\<rparr>"
  have "table_holds bf3 []" by (simp add: table_holds_def contents_def bf3_def bf2_def bf1_def bf0_def)
  from read_sections_value [OF B(2) [folded bf3_def] this] obtain bf4 where bf4:
    "read_sections (length secs) bf3 = Inr ((), bf4)" "table_holds bf4 secs" "bf_data bf4 = data" "bf_size bf4 = word_of_nat (length data)"
    "bf_type bf4 = type" "bf_version bf4 = version" by (auto simp: bf3_def bf2_def bf1_def bf0_def)
  have n: "unat (word_of_nat (length secs) :: u32) = length secs" using assms(3) by (simp add: unat_of_nat)
  have t: "map (\<lambda>b. char_of (unat b)) (take 4 data) = type"
  proof -
    have "take 4 data = ?tb" unfolding d using assms(1) by simp
    then show ?thesis by (simp only: type_bytes)
  qed
  have "4 \<le> length data" unfolding d using assms(1) by simp
  then have s4: "4 \<le> (word_of_nat (length data) :: u64)" using sz by (simp add: word_le_nat_alt)
  have "BinFile_new data type maxVersion = Inr (bf4\<lparr>bf_pos := 0, bf_reading := None\<rparr>)"
    using s4 t A(1) B(1) bf4(1) assms(2) n
    by (simp add: BinFile_new_def Let_def not_less flip: bf0_def bf1_def bf2_def bf3_def)
  moreover have "table_holds (bf4\<lparr>bf_pos := 0, bf_reading := None\<rparr>) secs" using bf4(2) by (simp add: table_holds_def cong: option.case_cong)
  ultimately show ?thesis using bf4 sz unfolding data_def [symmetric] by (intro exI [of _ "bf4\<lparr>bf_pos := 0, bf_reading := None\<rparr>"]) simp
qed

subsection \<open>Reading sections\<close>

definition holds_at :: "u8 list \<Rightarrow> file_ptr \<Rightarrow> u8 list \<Rightarrow> bool" where
  "holds_at data p bs \<longleftrightarrow> unat p + length bs \<le> length data \<and> take (length bs) (drop (unat p) data) = bs"

lemma find_section_value:
  assumes "table_holds bf secs" and "unat k < length (contents sid secs)"
  shows "\<exists>s. find_section sid k bf = Inr s \<and> holds_section (bf_data bf) s (contents sid secs ! unat k)"
proof -
  obtain ss where ss: "bf_sections bf sid = Some ss" "list_all2 (holds_section (bf_data bf)) ss (contents sid secs)"
    using assms(1) [unfolded table_holds_def, rule_format, of sid] assms(2) by (cases "bf_sections bf sid") auto
  then have "length ss = length (contents sid secs)" by (simp add: list_all2_lengthD)
  then show ?thesis using ss assms(2) by (simp add: find_section_def list_all2_conv_all_nth)
qed

lemma find_section_missing:
  assumes "table_holds bf secs" and "length (contents sid secs) \<le> unat k"
  shows "find_section sid k bf = Inl (if bf_sections bf sid = None then no_section sid
    else pos_too_big (length (contents sid secs)) k)"
proof (cases "bf_sections bf sid")
  case (Some ss)
  then have "list_all2 (holds_section (bf_data bf)) ss (contents sid secs)"
    using assms(1) [unfolded table_holds_def, rule_format, of sid] by simp
  then have "length ss = length (contents sid secs)" by (rule list_all2_lengthD)
  then show ?thesis using Some assms(2) by (simp add: find_section_def)
qed (simp add: find_section_def)

text \<open>Reading a section from start to end: the position after \<open>startReadSection\<close>, the check at the end.\<close>

definition file_ok :: "binfile \<Rightarrow> bool" where
  "file_ok bf \<longleftrightarrow> length (bf_data bf) < 2 ^ 63 \<and> unat (bf_size bf) = length (bf_data bf)"

lemma start_section:
  assumes "table_holds bf secs" and "file_ok bf" and "bf_reading bf = None" and "0 < length (contents sid secs)"
  shows "\<exists>s. startReadSection sid 0 bf = Inr ((), bf\<lparr>bf_pos := sec_start s, bf_reading := Some s\<rparr>)
    \<and> at_pos (bf\<lparr>bf_pos := sec_start s, bf_reading := Some s\<rparr>) (contents sid secs ! 0)
    \<and> unat (sec_size s) = length (contents sid secs ! 0)"
proof -
  obtain s where s: "find_section sid 0 bf = Inr s" "holds_section (bf_data bf) s (contents sid secs ! 0)"
    using find_section_value [OF assms(1), of 0 sid] assms(4) by auto
  then show ?thesis using assms(2,3) by (auto simp: startReadSection_def at_pos_def holds_section_def file_ok_def)
qed

lemma end_section:
  assumes "bf_reading bf = Some s" and "unat (bf_pos bf) = unat (sec_start s) + unat (sec_size s)"
  shows "and_then (endReadSection True) f bf = f () (bf\<lparr>bf_reading := None\<rparr>)"
proof -
  have "unat (sec_start s) + unat (sec_size s) < 2 ^ 64" unfolding assms(2) [symmetric] using unsigned_less [of "bf_pos bf"] by simp
  then have "unat (sec_start s + sec_size s) = unat (bf_pos bf)" by (simp add: unat_word_ariths assms(2))
  then have "bf_pos bf = sec_start s + sec_size s" by (metis unsigned_word_eqI)
  then show ?thesis using assms(1) by (simp add: endReadSection_def and_then_def)
qed

lemma step_section:
  assumes "table_holds bf secs" and "file_ok bf" and "bf_reading bf = None" and "contents sid secs = c # cs"
  obtains b where "\<And>f. and_then (startReadSection sid 0) f bf = f () b" and "at_pos b c"
    and "bf_data b = bf_data bf" and "bf_size b = bf_size bf" and "bf_sections b = bf_sections bf"
    and "\<And>b' f. bf_reading b' = bf_reading b \<Longrightarrow> unat (bf_pos b') = unat (bf_pos b) + length c \<Longrightarrow>
      and_then (endReadSection True) f b' = f () (b'\<lparr>bf_reading := None\<rparr>)"
proof -
  obtain s where s: "startReadSection sid 0 bf = Inr ((), bf\<lparr>bf_pos := sec_start s, bf_reading := Some s\<rparr>)"
    "at_pos (bf\<lparr>bf_pos := sec_start s, bf_reading := Some s\<rparr>) c" "unat (sec_size s) = length c"
    using start_section [OF assms(1-3), of sid] by (auto simp: assms(4))
  show ?thesis
  proof (rule that [of "bf\<lparr>bf_pos := sec_start s, bf_reading := Some s\<rparr>"])
    show "and_then (startReadSection sid 0) f bf = f () (bf\<lparr>bf_pos := sec_start s, bf_reading := Some s\<rparr>)" for f
      using s(1) by (simp add: and_then_def)
    show "and_then (endReadSection True) f b' = f () (b'\<lparr>bf_reading := None\<rparr>)"
      if "bf_reading b' = bf_reading (bf\<lparr>bf_pos := sec_start s, bf_reading := Some s\<rparr>)"
        "unat (bf_pos b') = unat (bf_pos (bf\<lparr>bf_pos := sec_start s, bf_reading := Some s\<rparr>)) + length c" for b' f
      using end_section [of b' s f] that s(3) by simp
  qed (use s(2) in simp_all)
qed

subsection \<open>The headers\<close>

definition encode_wtns_header :: "u8 list \<Rightarrow> nat \<Rightarrow> u8 list" where
  "encode_wtns_header prime nVars = bytes_of 4 (length prime) @ prime @ bytes_of 4 nVars"

definition encode_zkey_header :: "u8 list \<Rightarrow> u8 list \<Rightarrow> nat \<Rightarrow> nat \<Rightarrow> nat \<Rightarrow> u8 list \<Rightarrow> u8 list \<Rightarrow> u8 list \<Rightarrow> u8 list \<Rightarrow> u8 list \<Rightarrow> u8 list \<Rightarrow> u8 list" where
  "encode_zkey_header q r nVars nPublic domainSize alpha1 beta1 beta2 gamma2 delta1 delta2 =
     bytes_of 4 (length q) @ q @ bytes_of 4 (length r) @ r @ bytes_of 4 nVars @ bytes_of 4 nPublic
     @ bytes_of 4 domainSize @ alpha1 @ beta1 @ beta2 @ gamma2 @ delta1 @ delta2"

lemma step_u32:
  assumes "at_pos bf (bytes_of 4 n @ rest)" and "n < 2 ^ 32"
  shows "and_then readU32LE f bf = f (word_of_nat n) (bf\<lparr>bf_pos := bf_pos bf + 4\<rparr>)"
    and "at_pos (bf\<lparr>bf_pos := bf_pos bf + 4\<rparr>) rest"
    and "unat (bf_pos (bf\<lparr>bf_pos := bf_pos bf + 4\<rparr>)) = unat (bf_pos bf) + 4"
  using read_u32 [OF assms] at_pos_skip(4) [OF assms(1), of 4] by (simp_all add: and_then_def)

lemma step_prime:
  assumes G: "mpz_laws G" and a: "at_pos bf (q @ rest)" and n: "unat n8 = length q"
  shows "and_then (read_prime G n8) f bf = f (int (bval q)) (bf\<lparr>bf_pos := bf_pos bf + ucast n8\<rparr>)"
    and "at_pos (bf\<lparr>bf_pos := bf_pos bf + ucast n8\<rparr>) rest"
    and "unat (bf_pos (bf\<lparr>bf_pos := bf_pos bf + ucast n8\<rparr>)) = unat (bf_pos bf) + length q"
proof -
  have w: "(ucast n8 :: u64) = word_of_nat (length q)" unfolding n [symmetric] by simp
  note S = at_pos_skip [OF a w]
  show "at_pos (bf\<lparr>bf_pos := bf_pos bf + ucast n8\<rparr>) rest" by (rule S(1))
  show "unat (bf_pos (bf\<lparr>bf_pos := bf_pos bf + ucast n8\<rparr>)) = unat (bf_pos bf) + length q" using S(4) by simp
  have "mpz_import G (length q) (-1) 1 (-1) 0 q = int (bval q)" using mpz_laws.import_le_law [OF G, of "length q" 1 q] by simp
  then show "and_then (read_prime G n8) f bf = f (int (bval q)) (bf\<lparr>bf_pos := bf_pos bf + ucast n8\<rparr>)"
    using S(2,3) n by (simp add: and_then_def read_prime_def read_ptr_def)
qed

lemma step_ptr:
  assumes "at_pos bf (c @ rest)" and "unat n = length c"
  shows "and_then (read_ptr (ucast (n :: u32))) f bf = f (bf_pos bf) (bf\<lparr>bf_pos := bf_pos bf + ucast n\<rparr>)"
    and "at_pos (bf\<lparr>bf_pos := bf_pos bf + ucast n\<rparr>) rest"
    and "unat (bf_pos (bf\<lparr>bf_pos := bf_pos bf + ucast n\<rparr>)) = unat (bf_pos bf) + length c"
    and "holds_at (bf_data bf) (bf_pos bf) c"
proof -
  have w: "(ucast n :: u64) = word_of_nat (length c)" unfolding assms(2) [symmetric] by simp
  note S = at_pos_skip [OF assms(1) w]
  show "at_pos (bf\<lparr>bf_pos := bf_pos bf + ucast n\<rparr>) rest" by (rule S(1))
  show "unat (bf_pos (bf\<lparr>bf_pos := bf_pos bf + ucast n\<rparr>)) = unat (bf_pos bf) + length c" using S(4) by simp
  show "and_then (read_ptr (ucast n)) f bf = f (bf_pos bf) (bf\<lparr>bf_pos := bf_pos bf + ucast n\<rparr>)"
    using S(2) by (simp add: and_then_def read_ptr_def)
  show "holds_at (bf_data bf) (bf_pos bf) c"
    using S(3) assms(1) by (auto simp: holds_at_def load_bytes_def at_pos_def split: if_splits)
qed

lemma table_data: "bf_data b' = bf_data b \<Longrightarrow> bf_sections b' = bf_sections b \<Longrightarrow> table_holds b' secs = table_holds b secs"
  by (simp only: table_holds_def)

lemma wtns_header_value:
  assumes G: "mpz_laws G" and t: "table_holds bf secs" "file_ok bf" "bf_reading bf = None"
    and c: "contents 1 secs = encode_wtns_header q nv # cs" and q: "length q < 2 ^ 32" "nv < 2 ^ 32"
  shows "\<exists>bf'. wtns_make_from_bin_file G bf = Inr (\<lparr>wh_n8 = word_of_nat (length q), wh_prime = int (bval q),
      wh_nVars = word_of_nat nv\<rparr>, bf') \<and> table_holds bf' secs \<and> file_ok bf' \<and> bf_data bf' = bf_data bf"
proof -
  have u: "unat (word_of_nat (length q) :: u32) = length q" using q(1) by (simp add: unat_of_nat)
  show ?thesis
  proof (rule step_section [OF t c])
    fix b0
    assume st: "\<And>f :: unit \<Rightarrow> binfile \<Rightarrow> exn + wtns_header \<times> binfile. and_then (startReadSection 1 0) f bf = f () b0"
      and a: "at_pos b0 (encode_wtns_header q nv)"
      and k: "bf_data b0 = bf_data bf" "bf_size b0 = bf_size bf" "bf_sections b0 = bf_sections bf"
      and en: "\<And>b' (f :: unit \<Rightarrow> binfile \<Rightarrow> exn + wtns_header \<times> binfile). bf_reading b' = bf_reading b0 \<Longrightarrow>
        unat (bf_pos b') = unat (bf_pos b0) + length (encode_wtns_header q nv) \<Longrightarrow>
        and_then (endReadSection True) f b' = f () (b'\<lparr>bf_reading := None\<rparr>)"
    have a0: "at_pos b0 (bytes_of 4 (length q) @ q @ bytes_of 4 nv @ [])" using a by (simp add: encode_wtns_header_def)
    define b1 where "b1 = b0\<lparr>bf_pos := bf_pos b0 + 4\<rparr>"
    note S1 = step_u32 [OF a0 q(1), folded b1_def]
    define b2 where "b2 = b1\<lparr>bf_pos := bf_pos b1 + ucast (word_of_nat (length q) :: u32)\<rparr>"
    note S2 = step_prime [OF G S1(2) u, folded b2_def]
    define b3 where "b3 = b2\<lparr>bf_pos := bf_pos b2 + 4\<rparr>"
    note S3 = step_u32 [OF S2(2) q(2), folded b3_def]
    have e: "and_then (endReadSection True) f b3 = f () (b3\<lparr>bf_reading := None\<rparr>)" for f :: "unit \<Rightarrow> binfile \<Rightarrow> exn + wtns_header \<times> binfile"
      by (rule en) (simp add: b3_def b2_def b1_def, simp add: S1(3) S2(3) S3(3) encode_wtns_header_def)
    have "wtns_make_from_bin_file G bf = Inr (\<lparr>wh_n8 = word_of_nat (length q), wh_prime = int (bval q),
        wh_nVars = word_of_nat nv\<rparr>, b3\<lparr>bf_reading := None\<rparr>)"
      unfolding wtns_make_from_bin_file_def st S1(1) S2(1) S3(1) e by (rule refl)
    moreover have "bf_data b3 = bf_data bf" "bf_size b3 = bf_size bf" "bf_sections b3 = bf_sections bf"
      using k by (simp_all add: b3_def b2_def b1_def)
    ultimately show ?thesis using t(1,2) table_data [of "b3\<lparr>bf_reading := None\<rparr>" bf secs]
      by (intro exI [of _ "b3\<lparr>bf_reading := None\<rparr>"]) (simp add: file_ok_def)
  qed
qed

text \<open>Reading moves the position only.\<close>

definition moved :: "binfile \<Rightarrow> binfile \<Rightarrow> bool" where
  "moved b b' \<longleftrightarrow> bf_data b' = bf_data b \<and> bf_size b' = bf_size b \<and> bf_sections b' = bf_sections b \<and> bf_reading b' = bf_reading b"

lemma moved_pos: "moved b b' \<Longrightarrow> moved b (b'\<lparr>bf_pos := p\<rparr>)"
  by (simp add: moved_def)

lemma moved_data: "moved b b' \<Longrightarrow> bf_data b' = bf_data b"
  by (simp add: moved_def)

lemma zkey_fields_value:
  assumes G: "mpz_laws G"
    and a: "at_pos b0 (encode_zkey_header q r nv np ds a1 b1 b2 g2 d1 d2)"
    and len: "length q * 4 < 2 ^ 32" "length r < 2 ^ 32" "nv < 2 ^ 32" "np < 2 ^ 32" "ds < 2 ^ 32"
      "length a1 = length q * 2" "length b1 = length q * 2" "length b2 = length q * 4" "length g2 = length q * 4"
      "length d1 = length q * 2" "length d2 = length q * 4"
  shows "\<exists>h b'. zkey_fields G b0 = Inr (h, b') \<and> zh_n8q h = word_of_nat (length q) \<and> zh_qPrime h = int (bval q)
    \<and> zh_n8r h = word_of_nat (length r) \<and> zh_rPrime h = int (bval r) \<and> zh_nVars h = word_of_nat nv
    \<and> zh_nPublic h = word_of_nat np \<and> zh_domainSize h = word_of_nat ds
    \<and> holds_at (bf_data b0) (zh_vk_alpha1 h) a1 \<and> holds_at (bf_data b0) (zh_vk_beta1 h) b1
    \<and> holds_at (bf_data b0) (zh_vk_beta2 h) b2 \<and> holds_at (bf_data b0) (zh_vk_gamma2 h) g2
    \<and> holds_at (bf_data b0) (zh_vk_delta1 h) d1 \<and> holds_at (bf_data b0) (zh_vk_delta2 h) d2
    \<and> bf_data b' = bf_data b0 \<and> bf_size b' = bf_size b0 \<and> bf_sections b' = bf_sections b0 \<and> bf_reading b' = bf_reading b0
    \<and> unat (bf_pos b') = unat (bf_pos b0) + length (encode_zkey_header q r nv np ds a1 b1 b2 g2 d1 d2)"
proof -
  let ?q = "word_of_nat (length q) :: u32" and ?r = "word_of_nat (length r) :: u32"
  have u: "unat ?q = length q" "unat ?r = length r" using len(1,2) by (simp_all add: unat_of_nat)
  have m: "unat (?q * 2) = length q * 2" "unat (?q * 4) = length q * 4" using len(1) by (simp_all add: unat_word_ariths u)
  have lq: "length q < 2 ^ 32" using len(1) by simp
  have a0: "at_pos b0 (bytes_of 4 (length q) @ q @ bytes_of 4 (length r) @ r @ bytes_of 4 nv @ bytes_of 4 np
     @ bytes_of 4 ds @ a1 @ b1 @ b2 @ g2 @ d1 @ d2 @ [])" using a by (simp add: encode_zkey_header_def)
  define c1 where "c1 = b0\<lparr>bf_pos := bf_pos b0 + 4\<rparr>"
  note S1 = step_u32 [OF a0 lq, folded c1_def]
  define c2 where "c2 = c1\<lparr>bf_pos := bf_pos c1 + ucast ?q\<rparr>"
  note S2 = step_prime [OF G S1(2) u(1), folded c2_def]
  define c3 where "c3 = c2\<lparr>bf_pos := bf_pos c2 + 4\<rparr>"
  note S3 = step_u32 [OF S2(2) len(2), folded c3_def]
  define c4 where "c4 = c3\<lparr>bf_pos := bf_pos c3 + ucast ?r\<rparr>"
  note S4 = step_prime [OF G S3(2) u(2), folded c4_def]
  define c5 where "c5 = c4\<lparr>bf_pos := bf_pos c4 + 4\<rparr>"
  note S5 = step_u32 [OF S4(2) len(3), folded c5_def]
  define c6 where "c6 = c5\<lparr>bf_pos := bf_pos c5 + 4\<rparr>"
  note S6 = step_u32 [OF S5(2) len(4), folded c6_def]
  define c7 where "c7 = c6\<lparr>bf_pos := bf_pos c6 + 4\<rparr>"
  note S7 = step_u32 [OF S6(2) len(5), folded c7_def]
  define c8 where "c8 = c7\<lparr>bf_pos := bf_pos c7 + ucast (?q * 2)\<rparr>"
  note S8 = step_ptr [OF S7(2) m(1) [folded len(6)], folded c8_def]
  define c9 where "c9 = c8\<lparr>bf_pos := bf_pos c8 + ucast (?q * 2)\<rparr>"
  note S9 = step_ptr [OF S8(2) m(1) [folded len(7)], folded c9_def]
  define c10 where "c10 = c9\<lparr>bf_pos := bf_pos c9 + ucast (?q * 4)\<rparr>"
  note S10 = step_ptr [OF S9(2) m(2) [folded len(8)], folded c10_def]
  define c11 where "c11 = c10\<lparr>bf_pos := bf_pos c10 + ucast (?q * 4)\<rparr>"
  note S11 = step_ptr [OF S10(2) m(2) [folded len(9)], folded c11_def]
  define c12 where "c12 = c11\<lparr>bf_pos := bf_pos c11 + ucast (?q * 2)\<rparr>"
  note S12 = step_ptr [OF S11(2) m(1) [folded len(10)], folded c12_def]
  define c13 where "c13 = c12\<lparr>bf_pos := bf_pos c12 + ucast (?q * 4)\<rparr>"
  note S13 = step_ptr [OF S12(2) m(2) [folded len(11)], folded c13_def]
  have "moved b0 c1" unfolding c1_def by (rule moved_pos) (simp add: moved_def)
  then have "moved b0 c2" unfolding c2_def by (rule moved_pos)
  then have "moved b0 c3" unfolding c3_def by (rule moved_pos)
  then have "moved b0 c4" unfolding c4_def by (rule moved_pos)
  then have "moved b0 c5" unfolding c5_def by (rule moved_pos)
  then have "moved b0 c6" unfolding c6_def by (rule moved_pos)
  then have m7: "moved b0 c7" unfolding c7_def by (rule moved_pos)
  have m8: "moved b0 c8" unfolding c8_def by (rule moved_pos [OF m7])
  have m9: "moved b0 c9" unfolding c9_def by (rule moved_pos [OF m8])
  have m10: "moved b0 c10" unfolding c10_def by (rule moved_pos [OF m9])
  have m11: "moved b0 c11" unfolding c11_def by (rule moved_pos [OF m10])
  have m12: "moved b0 c12" unfolding c12_def by (rule moved_pos [OF m11])
  have m13: "moved b0 c13" unfolding c13_def by (rule moved_pos [OF m12])
  note d = moved_data [OF m7] moved_data [OF m8] moved_data [OF m9] moved_data [OF m10] moved_data [OF m11] moved_data [OF m12]
  have k: "bf_data c13 = bf_data b0" "bf_size c13 = bf_size b0" "bf_sections c13 = bf_sections b0" "bf_reading c13 = bf_reading b0"
    using m13 by (simp_all add: moved_def)
  have p: "unat (bf_pos c13) = unat (bf_pos b0) + length (encode_zkey_header q r nv np ds a1 b1 b2 g2 d1 d2)"
    unfolding S13(3) S12(3) S11(3) S10(3) S9(3) S8(3) S7(3) S6(3) S5(3) S4(3) S3(3) S2(3) S1(3)
    by (simp add: encode_zkey_header_def)
  have e: "zkey_fields G b0 = Inr (\<lparr>zh_n8q = ?q, zh_qPrime = int (bval q), zh_n8r = ?r, zh_rPrime = int (bval r),
      zh_nVars = word_of_nat nv, zh_nPublic = word_of_nat np, zh_domainSize = word_of_nat ds, zh_nCoefs = 0,
      zh_vk_alpha1 = bf_pos c7, zh_vk_beta1 = bf_pos c8, zh_vk_beta2 = bf_pos c9, zh_vk_gamma2 = bf_pos c10,
      zh_vk_delta1 = bf_pos c11, zh_vk_delta2 = bf_pos c12\<rparr>, c13)"
    unfolding zkey_fields_def S1(1) S2(1) S3(1) S4(1) S5(1) S6(1) S7(1) S8(1) S9(1) S10(1) S11(1) S12(1) S13(1) by (rule refl)
  note h = S8(4) S9(4) S10(4) S11(4) S12(4) S13(4)
  show ?thesis unfolding e using h k p unfolding d by simp
qed

lemma zkey_header_value:
  assumes G: "mpz_laws G" and t: "table_holds bf secs" "file_ok bf" "bf_reading bf = None"
    and c: "contents 1 secs = bytes_of 4 1 # cs1" "contents 2 secs = encode_zkey_header q r nv np ds a1 b1 b2 g2 d1 d2 # cs2"
      "contents 4 secs = ks # cs4"
    and len: "length q * 4 < 2 ^ 32" "length r + 12 < 2 ^ 32" "nv < 2 ^ 32" "np < 2 ^ 32" "ds < 2 ^ 32"
      "length a1 = length q * 2" "length b1 = length q * 2" "length b2 = length q * 4" "length g2 = length q * 4"
      "length d1 = length q * 2" "length d2 = length q * 4"
  shows "\<exists>h bf'. zkey_make_from_bin_file G bf = Inr (h, bf') \<and> zh_n8q h = word_of_nat (length q) \<and> zh_qPrime h = int (bval q)
    \<and> zh_n8r h = word_of_nat (length r) \<and> zh_rPrime h = int (bval r) \<and> zh_nVars h = word_of_nat nv
    \<and> zh_nPublic h = word_of_nat np \<and> zh_domainSize h = word_of_nat ds
    \<and> zh_nCoefs h = word_of_nat (length ks div (12 + length r))
    \<and> holds_at (bf_data bf) (zh_vk_alpha1 h) a1 \<and> holds_at (bf_data bf) (zh_vk_beta1 h) b1
    \<and> holds_at (bf_data bf) (zh_vk_beta2 h) b2 \<and> holds_at (bf_data bf) (zh_vk_gamma2 h) g2
    \<and> holds_at (bf_data bf) (zh_vk_delta1 h) d1 \<and> holds_at (bf_data bf) (zh_vk_delta2 h) d2
    \<and> table_holds bf' secs \<and> file_ok bf' \<and> bf_data bf' = bf_data bf \<and> bf_reading bf' = None"
proof (rule step_section [OF t c(1)])
  let ?X = "\<lambda>f :: unit \<Rightarrow> binfile \<Rightarrow> exn + zkey_header \<times> binfile. f"
  let ?h = "encode_zkey_header q r nv np ds a1 b1 b2 g2 d1 d2"
  fix x0
  assume st: "\<And>f. and_then (startReadSection 1 0) (?X f) bf = f () x0"
    and a: "at_pos x0 (bytes_of 4 1)"
    and k: "bf_data x0 = bf_data bf" "bf_size x0 = bf_size bf" "bf_sections x0 = bf_sections bf"
    and en: "\<And>b' f. bf_reading b' = bf_reading x0 \<Longrightarrow> unat (bf_pos b') = unat (bf_pos x0) + length (bytes_of 4 1) \<Longrightarrow>
      and_then (endReadSection True) (?X f) b' = f () (b'\<lparr>bf_reading := None\<rparr>)"
  define x1 where "x1 = x0\<lparr>bf_pos := bf_pos x0 + 4\<rparr>"
  have "at_pos x0 (bytes_of 4 1 @ [])" "(1 :: nat) < 2 ^ 32" using a by simp_all
  note S1 = step_u32 [OF this, folded x1_def]
  define x2 where "x2 = x1\<lparr>bf_reading := None\<rparr>"
  have e1: "and_then (endReadSection True) (?X f) x1 = f () x2" for f
    unfolding x2_def by (rule en) (simp add: x1_def, simp add: S1(3))
  have k2: "bf_data x2 = bf_data bf" "bf_size x2 = bf_size bf" "bf_sections x2 = bf_sections bf" "bf_reading x2 = None"
    using k by (simp_all add: x2_def x1_def)
  then have t2: "table_holds x2 secs" "file_ok x2" using t(1,2) table_data [of x2 bf secs] by (simp_all add: file_ok_def)
  show ?thesis
  proof (rule step_section [OF t2 k2(4) c(2)])
    fix y0
    assume st2: "\<And>f. and_then (startReadSection 2 0) (?X f) x2 = f () y0"
      and a2: "at_pos y0 ?h"
      and k3: "bf_data y0 = bf_data x2" "bf_size y0 = bf_size x2" "bf_sections y0 = bf_sections x2"
      and en2: "\<And>b' f. bf_reading b' = bf_reading y0 \<Longrightarrow> unat (bf_pos b') = unat (bf_pos y0) + length ?h \<Longrightarrow>
        and_then (endReadSection True) (?X f) b' = f () (b'\<lparr>bf_reading := None\<rparr>)"
    have lr: "length r < 2 ^ 32" using len(2) by simp
    obtain h y1 where h: "zkey_fields G y0 = Inr (h, y1)" "zh_n8q h = word_of_nat (length q)" "zh_qPrime h = int (bval q)"
      "zh_n8r h = word_of_nat (length r)" "zh_rPrime h = int (bval r)" "zh_nVars h = word_of_nat nv"
      "zh_nPublic h = word_of_nat np" "zh_domainSize h = word_of_nat ds"
      "holds_at (bf_data y0) (zh_vk_alpha1 h) a1" "holds_at (bf_data y0) (zh_vk_beta1 h) b1"
      "holds_at (bf_data y0) (zh_vk_beta2 h) b2" "holds_at (bf_data y0) (zh_vk_gamma2 h) g2"
      "holds_at (bf_data y0) (zh_vk_delta1 h) d1" "holds_at (bf_data y0) (zh_vk_delta2 h) d2"
      and y1: "bf_data y1 = bf_data y0" "bf_size y1 = bf_size y0" "bf_sections y1 = bf_sections y0" "bf_reading y1 = bf_reading y0"
        "unat (bf_pos y1) = unat (bf_pos y0) + length ?h"
      using zkey_fields_value [OF G a2 len(1) lr len(3-11)] by blast
    define y2 where "y2 = y1\<lparr>bf_reading := None\<rparr>"
    have e2: "and_then (endReadSection True) (?X f) y1 = f () y2" for f unfolding y2_def by (rule en2 [OF y1(4,5)])
    have k4: "bf_data y2 = bf_data bf" "bf_size y2 = bf_size bf" "bf_sections y2 = bf_sections bf" "bf_reading y2 = None"
      using k2 k3 y1 by (simp_all add: y2_def)
    then have t4: "table_holds y2 secs" "file_ok y2" using t(1,2) table_data [of y2 bf secs] by (simp_all add: file_ok_def)
    obtain s where s: "find_section 4 0 y2 = Inr s" "holds_section (bf_data y2) s ks"
      using find_section_value [OF t4(1), of 0 4] by (auto simp: c(3))
    have n12: "unat (12 + word_of_nat (length r) :: u32) = 12 + length r"
      using len(2) by (simp add: unat_word_ariths unat_of_nat)
    then have n0: "12 + (word_of_nat (length r) :: u32) \<noteq> 0" by auto
    have sz: "sec_size s div ucast (12 + word_of_nat (length r) :: u32) = word_of_nat (length ks div (12 + length r))"
    proof -
      have ss: "unat (sec_size s) = length ks" using s(2) by (simp add: holds_section_def)
      have u: "unat (ucast (12 + word_of_nat (length r) :: u32) :: u64) = 12 + length r"
        using len(2) by (simp add: unsigned_ucast_eq n12 take_bit_nat_eq_self)
      have "sec_size s div ucast (12 + word_of_nat (length r) :: u32)
          = word_of_nat (unat (sec_size s div ucast (12 + word_of_nat (length r) :: u32)))" by simp
      then show ?thesis by (simp only: unat_div ss u)
    qed
    have "zkey_make_from_bin_file G bf = Inr (h\<lparr>zh_nCoefs := word_of_nat (length ks div (12 + length r))\<rparr>, y2)"
      unfolding zkey_make_from_bin_file_def st S1(1)
      by (simp add: e1 st2 and_then_def [of "zkey_fields G"] h(1,4) e2 getSectionSize_def s(1) n0 sz)
    then show ?thesis using h k2 k3 k4 t4 by simp
  qed
qed

end
