(* ===== verification/Section_Files.thy ===== *)
theory Section_Files
  imports Bin_File_Laws Gmp_Reference
begin

section \<open>Section files: properties\<close>

text \<open>
  The parser inverts the encoder; files that are not encodings are refused in the order of the checks;
  the sizes in the table of sections are not compared with the size of the file.
\<close>

lemma bytes_of_4: "bytes_of 4 v = [word_of_nat v, word_of_nat (v div 256), word_of_nat (v div 256 div 256),
    word_of_nat (v div 256 div 256 div 256)]"
proof -
  have "(4 :: nat) = Suc (Suc (Suc (Suc 0)))" by simp
  then show ?thesis by (simp only: bytes_of.simps)
qed

lemma BinFile_sections:
  assumes "table_holds bf secs"
  shows "if unat k < length (contents sid secs)
    then \<exists>p. getSectionData sid k bf = Inr p \<and> getSectionSize sid k bf = Inr (word_of_nat (length (contents sid secs ! unat k)))
      \<and> holds_at (bf_data bf) p (contents sid secs ! unat k)
    else \<exists>msg. getSectionData sid k bf = Inl (Range_exn msg) \<and> getSectionSize sid k bf = Inl (Range_exn msg)"
proof (cases "unat k < length (contents sid secs)")
  case True
  then obtain s where s: "find_section sid k bf = Inr s" "holds_section (bf_data bf) s (contents sid secs ! unat k)"
    using find_section_value [OF assms] by blast
  have "sec_size s = word_of_nat (unat (sec_size s))" by simp
  then have "sec_size s = word_of_nat (length (contents sid secs ! unat k))" using s(2) by (simp only: holds_section_def)
  then show ?thesis using True s by (simp add: getSectionData_def getSectionSize_def holds_at_def holds_section_def)
next
  case False
  then show ?thesis using find_section_missing [OF assms, of sid k]
    by (auto simp: getSectionData_def getSectionSize_def no_section_def pos_too_big_def)
qed

text \<open>The checks of the constructor before the table.\<close>

lemma BinFile_new_refuses:
  assumes "length data < 2 ^ 63"
  shows "length data < 4 \<Longrightarrow> BinFile_new data type maxVersion = Inl Assertion_failure"
    and "4 \<le> length data \<Longrightarrow> map (\<lambda>b. char_of (unat b)) (take 4 data) \<noteq> type \<Longrightarrow> \<exists>msg. BinFile_new data type maxVersion = Inl (Invalid_argument msg)"
    and "map (\<lambda>b. char_of (unat b)) (take 4 data) = type \<Longrightarrow> 4 \<le> length data \<Longrightarrow> length data < 8 \<Longrightarrow> BinFile_new data type maxVersion = Inl Assertion_failure"
    and "map (\<lambda>b. char_of (unat b)) (take 4 data) = type \<Longrightarrow> 8 \<le> length data \<Longrightarrow> unat maxVersion < bval (take 4 (drop 4 data)) \<Longrightarrow>
      \<exists>msg. BinFile_new data type maxVersion = Inl (Invalid_argument msg)"
proof -
  have sz: "unat (word_of_nat (length data) :: u64) = length data" using assms by (simp add: unat_of_nat)
  have le: "(word_of_nat k :: u64) \<le> word_of_nat (length data) \<longleftrightarrow> k \<le> length data" if "k < 2 ^ 63" for k
    using sz that by (simp add: word_le_nat_alt unat_of_nat)
  note le4 = le [of 4, simplified] and le8 = le [of 8, simplified]
  show "length data < 4 \<Longrightarrow> BinFile_new data type maxVersion = Inl Assertion_failure" using le4 by (simp add: BinFile_new_def)
  show "4 \<le> length data \<Longrightarrow> map (\<lambda>b. char_of (unat b)) (take 4 data) \<noteq> type \<Longrightarrow> \<exists>msg. BinFile_new data type maxVersion = Inl (Invalid_argument msg)"
    using le4 by (simp add: BinFile_new_def Let_def)
  show "map (\<lambda>b. char_of (unat b)) (take 4 data) = type \<Longrightarrow> 4 \<le> length data \<Longrightarrow> length data < 8 \<Longrightarrow> BinFile_new data type maxVersion = Inl Assertion_failure"
    using le4 le8 by (simp add: BinFile_new_def Let_def readU32LE_def)
  show "\<exists>msg. BinFile_new data type maxVersion = Inl (Invalid_argument msg)"
    if t: "map (\<lambda>b. char_of (unat b)) (take 4 data) = type" "8 \<le> length data" "unat maxVersion < bval (take 4 (drop 4 data))"
  proof -
    have "bval (take 4 (drop 4 data)) < 256 ^ length (take 4 (drop 4 data))" by (rule bval_lt)
    then have "unat (word_of_nat (bval (take 4 (drop 4 data))) :: u32) = bval (take 4 (drop 4 data))"
      using t(2) by (simp add: unat_of_nat)
    then have "maxVersion < word_of_nat (bval (take 4 (drop 4 data)))" using t(3) by (simp add: word_less_nat_alt)
    then show ?thesis using t(1,2) le4 le8 by (simp add: BinFile_new_def Let_def readU32LE_def load_bytes_def)
  qed
qed

lemma bytes_split: "length c = n \<Longrightarrow> bytes_of n (bval c) = c"
  using bytes_of_bval [of c] by simp

text \<open>A file of at least 12 bytes whose type and version are accepted, up to its table.\<close>

lemma table_begins:
  assumes l: "length data < 2 ^ 63" "12 \<le> length data" and ty: "map (\<lambda>b. char_of (unat b)) (take 4 data) = type"
    and v: "bval (take 4 (drop 4 data)) \<le> unat maxVersion"
  shows "\<exists>bf. at_pos bf (drop 12 data) \<and> bf_data bf = data \<and> bf_sections bf = (\<lambda>_. None) \<and> bf_pos bf = 12 \<and> bf_size bf = word_of_nat (length data)
    \<and> BinFile_new data type maxVersion = (case read_sections (bval (take 4 (drop 8 data))) bf of Inl e \<Rightarrow> Inl e
      | Inr (_, bf) \<Rightarrow> Inr (bf\<lparr>bf_pos := 0, bf_reading := None\<rparr>))"
proof -
  let ?v = "take 4 (drop 4 data)" and ?n = "take 4 (drop 8 data)"
  define bf1 where "bf1 = \<lparr>bf_data = data, bf_size = word_of_nat (length data), bf_pos = 4, bf_sections = (\<lambda>_. None), bf_type = type,
    bf_version = 0, bf_reading = None\<rparr>"
  have sz: "unat (word_of_nat (length data) :: u64) = length data" using l by (simp add: unat_of_nat)
  have lt: "bval ?v < 2 ^ 32" "bval ?n < 2 ^ 32" using bval_lt [of ?v] bval_lt [of ?n] l(2) by simp_all
  have b: "bytes_of 4 (bval ?v) = ?v" "bytes_of 4 (bval ?n) = ?n" using l(2) by (simp_all add: bytes_split)
  have r: "drop 4 data = bytes_of 4 (bval ?v) @ drop 8 data" "drop 8 data = bytes_of 4 (bval ?n) @ drop 12 data"
  proof -
    have d: "drop 8 data = drop 4 (drop 4 data)" "drop 12 data = drop 4 (drop 8 data)" by simp_all
    show "drop 4 data = bytes_of 4 (bval ?v) @ drop 8 data" unfolding b d(1) by (rule append_take_drop_id [symmetric])
    show "drop 8 data = bytes_of 4 (bval ?n) @ drop 12 data" unfolding b d(2) by (rule append_take_drop_id [symmetric])
  qed
  have "at_pos bf1 (drop 4 data)" using l sz by (simp add: at_pos_def bf1_def)
  then have a1: "at_pos bf1 (bytes_of 4 (bval ?v) @ drop 8 data)" unfolding r(1) [symmetric] .
  note A = read_u32 [OF a1 lt(1)]
  define bf2 where "bf2 = bf1\<lparr>bf_pos := bf_pos bf1 + 4, bf_version := word_of_nat (bval ?v)\<rparr>"
  have "at_pos bf2 (drop 8 data)" using A(2) by (simp add: bf2_def at_pos_def)
  then have "at_pos bf2 (bytes_of 4 (bval ?n) @ drop 12 data)" unfolding r(2) [symmetric] .
  note B = read_u32 [OF this lt(2)]
  define bf3 where "bf3 = bf2\<lparr>bf_pos := bf_pos bf2 + 4\<rparr>"
  have s4: "4 \<le> (word_of_nat (length data) :: u64)" using sz l(2) by (simp add: word_le_nat_alt)
  have n': "unat (word_of_nat (bval ?n) :: u32) = bval ?n" using lt(2) by (simp add: unat_of_nat)
  have v0: "\<not> maxVersion < word_of_nat (bval ?v)" using v lt(1) by (simp add: word_less_nat_alt unat_of_nat)
  have bf1': "\<lparr>bf_data = data, bf_size = word_of_nat (length data), bf_pos = 0, bf_sections = (\<lambda>_. None), bf_type = [],
    bf_version = 0, bf_reading = None\<rparr>\<lparr>bf_type := type, bf_pos := 4\<rparr> = bf1" by (simp add: bf1_def)
  have "BinFile_new data type maxVersion = (case read_sections (bval ?n) bf3 of Inl e \<Rightarrow> Inl e | Inr (_, bf) \<Rightarrow> Inr (bf\<lparr>bf_pos := 0, bf_reading := None\<rparr>))"
    using s4 A(1) B(1) v0 n' unfolding BinFile_new_def Let_def ty bf1' by (simp flip: bf2_def bf3_def)
  moreover have "bf_pos bf3 = 12" by (simp add: bf3_def bf2_def bf1_def)
  ultimately show ?thesis using B(2) by (intro exI [of _ bf3]) (simp add: bf3_def bf2_def bf1_def)
qed

text \<open>With nothing behind the rest of the file.\<close>

definition at_end :: "binfile \<Rightarrow> u8 list \<Rightarrow> bool" where
  "at_end bf rest \<longleftrightarrow> at_pos bf rest \<and> unat (bf_pos bf) + length rest = length (bf_data bf)"

lemma at_end_skip:
  assumes "at_end bf (c @ rest)" and "n = word_of_nat (length c)"
  shows "at_end (bf\<lparr>bf_pos := bf_pos bf + n\<rparr>) rest"
  using assms(1) at_pos_skip(1,4) [of bf c rest, OF _ assms(2)] by (simp add: at_end_def)

lemma past_end:
  assumes "file_ok bf" and "length (bf_data bf) < unat (bf_pos bf) + k" and "unat (bf_pos bf) + k < 2 ^ 64"
  shows "\<not> bf_pos bf + word_of_nat k \<le> bf_size bf"
proof -
  have "unat (word_of_nat k :: u64) = k" using assms(3) by (simp add: unat_of_nat)
  then have "unat (bf_pos bf + word_of_nat k) = unat (bf_pos bf) + k" using assms(3) by (simp add: unat_word_ariths)
  then show ?thesis using assms(1,2) by (simp add: word_le_nat_alt file_ok_def)
qed

lemma at_pos_file: "at_pos bf c \<Longrightarrow> file_ok bf"
  by (simp add: at_pos_def file_ok_def)

lemma entry_cut:
  assumes "at_end bf rest" and "length rest < 12"
  shows "read_sections (Suc m) bf = Inl Assertion_failure"
proof (cases "length rest < 4")
  case True
  have "\<not> bf_pos bf + word_of_nat 4 \<le> bf_size bf"
    using assms(1) True at_pos_file [of bf rest] by (intro past_end) (auto simp: at_end_def at_pos_def)
  then show ?thesis by (simp add: and_then_def readU32LE_def)
next
  case False
  let ?c = "take 4 rest"
  have c: "length ?c = 4" using False by simp
  have r: "bytes_of 4 (bval ?c) @ drop 4 rest = rest" unfolding bytes_split [OF c] by simp
  have lt: "bval ?c < 2 ^ 32" using bval_lt [of ?c] c by simp
  have a: "at_end bf (bytes_of 4 (bval ?c) @ drop 4 rest)" unfolding r by (rule assms(1))
  note A = read_u32 [OF conjunct1 [OF a [unfolded at_end_def]] lt]
  define b1 where "b1 = bf\<lparr>bf_pos := bf_pos bf + 4\<rparr>"
  have e: "at_end b1 (drop 4 rest)" unfolding b1_def by (rule at_end_skip [OF a]) simp
  then have "\<not> bf_pos b1 + word_of_nat 8 \<le> bf_size b1"
    using assms(2) False at_pos_file [of b1 "drop 4 rest"] by (intro past_end) (auto simp: at_end_def at_pos_def)
  then show ?thesis using A(1) by (simp add: and_then_def readU64LE_def flip: b1_def)
qed

lemma entry_value:
  assumes "at_end bf (bytes_of 4 (unat sid) @ bytes_of 8 (unat sz) @ rest)"
  obtains b where "at_end b rest" and "\<And>m. read_sections (Suc m) bf = read_sections m (push_section sid sz b)"
proof -
  have lt: "unat sid < 2 ^ 32" "unat sz < 2 ^ 64" using unsigned_less [of sid] unsigned_less [of sz] by simp_all
  note A = read_u32 [OF conjunct1 [OF assms [unfolded at_end_def]] lt(1)]
  define b1 where "b1 = bf\<lparr>bf_pos := bf_pos bf + 4\<rparr>"
  have e1: "at_end b1 (bytes_of 8 (unat sz) @ rest)" unfolding b1_def by (rule at_end_skip [OF assms]) simp
  note B = read_u64 [OF conjunct1 [OF e1 [unfolded at_end_def]] lt(2)]
  define b2 where "b2 = b1\<lparr>bf_pos := bf_pos b1 + 8\<rparr>"
  have e2: "at_end b2 rest" unfolding b2_def by (rule at_end_skip [OF e1]) simp
  have "read_sections (Suc m) bf = read_sections m (push_section sid sz b2)" for m
    using A(1) B(1) by (simp add: and_then_def flip: b1_def b2_def)
  with e2 show ?thesis by (rule that)
qed

lemma sections_skip:
  assumes "at_end bf (concat (map encode_section secs) @ rest)"
  obtains b where "at_end b rest" and "\<And>m. read_sections (length secs + m) bf = read_sections m b"
  using assms
proof (induction secs arbitrary: bf thesis)
  case Nil
  from Nil(1) [of bf] Nil(2) show ?case by simp
next
  case (Cons s secs)
  obtain sid c where s: "s = (sid, c)" by (cases s)
  let ?rest = "concat (map encode_section secs) @ rest" and ?sz = "word_of_nat (length c) :: u64"
  have "length c < 2 ^ 64" using Cons.prems(2) by (simp add: at_end_def at_pos_def s encode_section_def)
  then have u: "unat ?sz = length c" by (simp add: unat_of_nat)
  have a: "at_end bf (bytes_of 4 (unat sid) @ bytes_of 8 (unat ?sz) @ c @ ?rest)"
    using Cons.prems(2) unfolding s u by (simp add: encode_section_def [of "(sid, c)"])
  obtain b where b: "at_end b (c @ ?rest)" "\<And>m. read_sections (Suc m) bf = read_sections m (push_section sid ?sz b)"
    by (rule entry_value [OF a]) blast
  have "at_end (push_section sid ?sz b) ?rest"
    using at_end_skip [OF b(1) refl] by (simp add: push_section_def Let_def at_end_def at_pos_def)
  then obtain b' where b': "at_end b' rest" "\<And>m. read_sections (length secs + m) (push_section sid ?sz b) = read_sections m b'"
    using Cons.IH by metis
  show ?case by (rule Cons.prems(1) [OF b'(1)]) (simp only: length_Cons add_Suc b(2) b'(2))
qed

text \<open>
  A table of \<open>n\<close> entries that ends too early, after complete sections: with less than an entry, or with an entry
  whose bytes are cut off, before the last one. And one of \<open>n\<close> entries all of which can be read: only the bytes of
  the last section may be missing.
\<close>

definition table_truncated :: "nat \<Rightarrow> u8 list \<Rightarrow> bool" where
  "table_truncated n bs \<longleftrightarrow> (\<exists>secs rest. bs = concat (map encode_section secs) @ rest \<and> length secs < n \<and>
     (length rest < 12 \<or> (\<exists>sid sz tail. rest = bytes_of 4 (unat (sid :: u32)) @ bytes_of 8 (unat (sz :: u64)) @ tail
        \<and> length tail < unat sz \<and> unat sz < 2 ^ 62 \<and> Suc (length secs) < n)))"

definition table_readable :: "nat \<Rightarrow> u8 list \<Rightarrow> bool" where
  "table_readable n bs \<longleftrightarrow> (\<exists>secs rest. bs = concat (map encode_section secs) @ rest \<and> (length secs = n \<or>
     (\<exists>sid sz tail. rest = bytes_of 4 (unat (sid :: u32)) @ bytes_of 8 (unat (sz :: u64)) @ tail \<and> Suc (length secs) = n)))"

lemma section_overruns:
  assumes "at_end b tail" and "length tail < unat sz" and "unat sz < 2 ^ 62"
  shows "read_sections (Suc m) (push_section sid sz b) = Inl Assertion_failure"
proof -
  have p: "unat (bf_pos b) + length tail = length (bf_data b)" "length (bf_data b) < 2 ^ 63" "file_ok b"
    using assms(1) at_pos_file [of b tail] by (auto simp: at_end_def at_pos_def)
  then have "unat (bf_pos b) + unat sz < 2 ^ 64" using assms(3) by simp
  then have u: "unat (bf_pos b + sz) = unat (bf_pos b) + unat sz" by (simp add: unat_word_ariths)
  have "\<not> bf_pos (push_section sid sz b) + word_of_nat 4 \<le> bf_size (push_section sid sz b)"
    using p assms(2,3) u by (intro past_end) (simp_all add: push_section_def Let_def file_ok_def)
  then show ?thesis by (simp add: and_then_def readU32LE_def)
qed

lemma truncated_refused:
  assumes "at_end bf bs" and "table_truncated n bs"
  shows "read_sections n bf = Inl Assertion_failure"
proof -
  obtain secs rest where t: "bs = concat (map encode_section secs) @ rest" "length secs < n"
    "length rest < 12 \<or> (\<exists>sid sz tail. rest = bytes_of 4 (unat (sid :: u32)) @ bytes_of 8 (unat (sz :: u64)) @ tail
        \<and> length tail < unat sz \<and> unat sz < 2 ^ 62 \<and> Suc (length secs) < n)"
    using assms(2) unfolding table_truncated_def by blast
  obtain m where n: "n = length secs + Suc m" using t(2) less_iff_Suc_add by auto
  obtain b where b: "at_end b rest" "\<And>m. read_sections (length secs + m) bf = read_sections m b"
    by (rule sections_skip [OF assms(1) [unfolded t(1)]]) blast
  show ?thesis
  proof (cases "length rest < 12")
    case True
    then show ?thesis unfolding n b(2) by (rule entry_cut [OF b(1)])
  next
    case False
    then obtain sid sz tail where r: "rest = bytes_of 4 (unat (sid :: u32)) @ bytes_of 8 (unat (sz :: u64)) @ tail"
      "length tail < unat sz" "unat sz < 2 ^ 62" "Suc (length secs) < n" using t(3) by blast
    obtain k where m: "m = Suc k" using r(4) n by (cases m) simp_all
    obtain b' where b': "at_end b' tail" "\<And>m. read_sections (Suc m) b = read_sections m (push_section sid sz b')"
      by (rule entry_value [OF b(1) [unfolded r(1)]]) blast
    show ?thesis unfolding n b(2) b'(2) m by (rule section_overruns [OF b'(1) r(2,3)])
  qed
qed

lemma readable_accepted:
  assumes "at_end bf bs" and "table_readable n bs"
  shows "\<exists>b. read_sections n bf = Inr ((), b)"
proof -
  obtain secs rest where t: "bs = concat (map encode_section secs) @ rest"
    "length secs = n \<or> (\<exists>sid sz tail. rest = bytes_of 4 (unat (sid :: u32)) @ bytes_of 8 (unat (sz :: u64)) @ tail \<and> Suc (length secs) = n)"
    using assms(2) unfolding table_readable_def by blast
  obtain b where b: "at_end b rest" "\<And>m. read_sections (length secs + m) bf = read_sections m b"
    by (rule sections_skip [OF assms(1) [unfolded t(1)]]) blast
  show ?thesis
  proof (cases "length secs = n")
    case True
    then show ?thesis using b(2) [of 0] by simp
  next
    case False
    then obtain sid sz tail where r: "rest = bytes_of 4 (unat (sid :: u32)) @ bytes_of 8 (unat (sz :: u64)) @ tail" "Suc (length secs) = n"
      using t(2) by blast
    obtain b' where "\<And>m. read_sections (Suc m) b = read_sections m (push_section sid sz b')"
      by (rule entry_value [OF b(1) [unfolded r(1)]]) blast
    then have "read_sections (length secs + Suc 0) bf = Inr ((), push_section sid sz b')"
      by (simp only: b(2) read_sections.simps(1))
    then show ?thesis using r(2) by (simp only: add_Suc_right add_0_right) blast
  qed
qed

lemma table_outcome:
  assumes l: "length data < 2 ^ 63" "8 \<le> length data" and ty: "map (\<lambda>b. char_of (unat b)) (take 4 data) = type"
    and v: "bval (take 4 (drop 4 data)) \<le> unat maxVersion"
  shows "length data < 12 \<Longrightarrow> BinFile_new data type maxVersion = Inl Assertion_failure"
    and "12 \<le> length data \<Longrightarrow> table_truncated (bval (take 4 (drop 8 data))) (drop 12 data) \<Longrightarrow>
      BinFile_new data type maxVersion = Inl Assertion_failure"
    and "12 \<le> length data \<Longrightarrow> table_readable (bval (take 4 (drop 8 data))) (drop 12 data) \<Longrightarrow>
      \<exists>bf. BinFile_new data type maxVersion = Inr bf"
proof -
  show "BinFile_new data type maxVersion = Inl Assertion_failure" if s: "length data < 12"
  proof -
    have sz: "unat (word_of_nat (length data) :: u64) = length data" using l by (simp add: unat_of_nat)
    then have le: "(4 :: u64) \<le> word_of_nat (length data)" "(8 :: u64) \<le> word_of_nat (length data)" "\<not> (12 :: u64) \<le> word_of_nat (length data)"
      using l s by (simp_all add: word_le_nat_alt)
    have "bval (take 4 (drop 4 data)) < 2 ^ 32" using bval_lt [of "take 4 (drop 4 data)"] l(2) by simp
    then have "\<not> maxVersion < word_of_nat (bval (take 4 (drop 4 data)))" using v by (simp add: word_less_nat_alt unat_of_nat)
    then show ?thesis using ty le l(2) by (simp add: BinFile_new_def Let_def readU32LE_def load_bytes_def)
  qed
  assume 12: "12 \<le> length data"
  obtain bf where bf: "at_pos bf (drop 12 data)" "bf_data bf = data" "bf_pos bf = 12"
    "BinFile_new data type maxVersion = (case read_sections (bval (take 4 (drop 8 data))) bf of Inl e \<Rightarrow> Inl e
      | Inr (_, bf) \<Rightarrow> Inr (bf\<lparr>bf_pos := 0, bf_reading := None\<rparr>))"
    using table_begins [OF l(1) 12 ty v] by blast
  have e: "at_end bf (drop 12 data)" using bf(1-3) 12 by (simp add: at_end_def)
  show "BinFile_new data type maxVersion = Inl Assertion_failure" if "table_truncated (bval (take 4 (drop 8 data))) (drop 12 data)"
    unfolding bf(4) truncated_refused [OF e that] by simp
  show "\<exists>bf. BinFile_new data type maxVersion = Inr bf" if "table_readable (bval (take 4 (drop 8 data))) (drop 12 data)"
    using readable_accepted [OF e that] unfolding bf(4) by auto
qed

text \<open>A table with one entry and nothing behind it, and a table whose first entry moves the position before the file.\<close>

definition one_entry :: "string \<Rightarrow> u32 \<Rightarrow> u64 \<Rightarrow> u8 list" where
  "one_entry type sid sz = map (\<lambda>c. word_of_nat (of_char c)) type @ bytes_of 4 1 @ bytes_of 4 1 @ bytes_of 4 (unat sid) @ bytes_of 8 (unat sz)"

definition two_entries :: "string \<Rightarrow> u32 \<Rightarrow> u64 \<Rightarrow> u8 list" where
  "two_entries type sid sz = map (\<lambda>c. word_of_nat (of_char c)) type @ bytes_of 4 1 @ bytes_of 4 2 @ bytes_of 4 (unat sid) @ bytes_of 8 (unat sz)"

lemma table_start:
  assumes ty: "length type = 4" and v: "1 \<le> maxVersion" and n: "n < 2 ^ 32"
    and d: "data = map (\<lambda>c. word_of_nat (of_char c)) type @ bytes_of 4 1 @ bytes_of 4 n @ rest" and l: "length data < 2 ^ 63"
  shows "\<exists>bf. at_pos bf rest \<and> bf_data bf = data \<and> bf_sections bf = (\<lambda>_. None) \<and> bf_pos bf = 12 \<and> bf_size bf = word_of_nat (length data)
    \<and> BinFile_new data type maxVersion = (case read_sections n bf of Inl e \<Rightarrow> Inl e | Inr (_, bf) \<Rightarrow> Inr (bf\<lparr>bf_pos := 0, bf_reading := None\<rparr>))"
proof -
  let ?tb = "map (\<lambda>c. word_of_nat (of_char c)) type :: u8 list"
  define bf1 where "bf1 = \<lparr>bf_data = data, bf_size = word_of_nat (length data), bf_pos = 4, bf_sections = (\<lambda>_. None), bf_type = type,
    bf_version = 0, bf_reading = None\<rparr>"
  have sz: "unat (word_of_nat (length data) :: u64) = length data" using l by (simp add: unat_of_nat)
  have a1: "at_pos bf1 (bytes_of 4 1 @ bytes_of 4 n @ rest)" using l sz ty by (simp add: at_pos_def bf1_def d)
  note A = read_u32 [OF a1]
  define bf2 where "bf2 = bf1\<lparr>bf_pos := bf_pos bf1 + 4, bf_version := 1\<rparr>"
  have "at_pos bf2 (bytes_of 4 n @ rest)" using A(2) by (simp add: bf2_def at_pos_def)
  note B = read_u32 [OF this n]
  define bf3 where "bf3 = bf2\<lparr>bf_pos := bf_pos bf2 + 4\<rparr>"
  have t: "map (\<lambda>b. char_of (unat b)) (take 4 data) = type"
  proof -
    have "take 4 data = ?tb" unfolding d using ty by simp
    then show ?thesis by (simp only: type_bytes)
  qed
  have "4 \<le> length data" unfolding d using ty by simp
  then have s4: "4 \<le> (word_of_nat (length data) :: u64)" using sz by (simp add: word_le_nat_alt)
  have n': "unat (word_of_nat n :: u32) = n" using n by (simp add: unat_of_nat)
  have v0: "maxVersion \<noteq> 0" using v by auto
  have bf1': "\<lparr>bf_data = data, bf_size = word_of_nat (length data), bf_pos = 0, bf_sections = (\<lambda>_. None), bf_type = [],
    bf_version = 0, bf_reading = None\<rparr>\<lparr>bf_type := type, bf_pos := 4\<rparr> = bf1" by (simp add: bf1_def)
  have "BinFile_new data type maxVersion = (case read_sections n bf3 of Inl e \<Rightarrow> Inl e | Inr (_, bf) \<Rightarrow> Inr (bf\<lparr>bf_pos := 0, bf_reading := None\<rparr>))"
    using s4 A(1) B(1) v0 n' unfolding BinFile_new_def Let_def t bf1' by (simp add: not_less flip: bf2_def bf3_def)
  moreover have "bf_pos bf3 = 12" by (simp add: bf3_def bf2_def bf1_def)
  ultimately show ?thesis using B(2) by (intro exI [of _ bf3]) (simp add: bf3_def bf2_def bf1_def)
qed

lemma unchecked_size:
  assumes "length type = 4" and "1 \<le> maxVersion"
  shows "\<exists>bf. BinFile_new (one_entry type sid sz) type maxVersion = Inr bf \<and> length (bf_data bf) = 24
    \<and> getSectionData sid 0 bf = Inr 24 \<and> getSectionSize sid 0 bf = Inr sz"
proof -
  let ?rest = "bytes_of 4 (unat sid) @ bytes_of 8 (unat sz) @ []"
  have len: "length (one_entry type sid sz) = 24" using assms(1) by (simp add: one_entry_def)
  obtain bf where bf: "at_pos bf ?rest" "bf_data bf = one_entry type sid sz" "bf_sections bf = (\<lambda>_. None)" "bf_pos bf = 12"
    "BinFile_new (one_entry type sid sz) type maxVersion
      = (case read_sections 1 bf of Inl e \<Rightarrow> Inl e | Inr (_, bf) \<Rightarrow> Inr (bf\<lparr>bf_pos := 0, bf_reading := None\<rparr>))"
    using table_start [OF assms, of 1 "one_entry type sid sz" ?rest] len by (auto simp: one_entry_def)
  have "unat sid < 2 ^ 32" "unat sz < 2 ^ 64" using unsigned_less [of sid] unsigned_less [of sz] by simp_all
  note A = read_u32 [OF bf(1) this(1)] and B = read_u64 [OF read_u32(2) [OF bf(1) this(1)] this(2)]
  have "read_sections 1 bf = Inr ((), push_section sid sz (bf\<lparr>bf_pos := 24\<rparr>))"
    using A(1) B(1) bf(4) by (simp add: and_then_def)
  then show ?thesis using bf(2,3,5) len
    by (simp add: push_section_def Let_def getSectionData_def getSectionSize_def find_section_def)
qed

lemma negative_position:
  assumes "length type = 4" and "1 \<le> maxVersion"
  shows "BinFile_new (two_entries type sid (2 ^ 64 - 26)) type maxVersion = Inl Out_of_bounds_read"
proof -
  let ?rest = "bytes_of 4 (unat sid) @ bytes_of 8 (unat (2 ^ 64 - 26 :: u64)) @ []"
  have len: "length (two_entries type sid (2 ^ 64 - 26)) = 24" using assms(1) by (simp add: two_entries_def)
  obtain bf where bf: "at_pos bf ?rest" "bf_data bf = two_entries type sid (2 ^ 64 - 26)" "bf_pos bf = 12" "bf_size bf = 24"
    "BinFile_new (two_entries type sid (2 ^ 64 - 26)) type maxVersion
      = (case read_sections 2 bf of Inl e \<Rightarrow> Inl e | Inr (_, bf) \<Rightarrow> Inr (bf\<lparr>bf_pos := 0, bf_reading := None\<rparr>))"
    using table_start [OF assms, of 2 "two_entries type sid (2 ^ 64 - 26)" ?rest] len by (auto simp: two_entries_def)
  have "unat sid < 2 ^ 32" using unsigned_less [of sid] by simp
  note A = read_u32 [OF bf(1) this] and B = read_u64 [OF read_u32(2) [OF bf(1) this]]
  define b2 where "b2 = push_section sid (2 ^ 64 - 26) (bf\<lparr>bf_pos := bf_pos bf + 4\<rparr>\<lparr>bf_pos := bf_pos (bf\<lparr>bf_pos := bf_pos bf + 4\<rparr>) + 8\<rparr>)"
  have "bf_pos b2 = -2" "bf_size b2 = 24" "length (bf_data b2) = 24"
    using bf(2-4) len by (simp_all add: b2_def push_section_def Let_def)
  then have "readU32LE b2 = Inl Out_of_bounds_read" by (simp add: readU32LE_def load_bytes_def)
  moreover have "unat (2 ^ 64 - 26 :: u64) < 2 ^ 64" by simp
  note C = B(1) [OF this]
  have "word_of_nat (unat (2 ^ 64 - 26 :: u64)) = (2 ^ 64 - 26 :: u64)" by (rule of_nat_unat [THEN trans]) simp
  note D = C [unfolded this]
  have "read_sections 2 bf = and_then readU32LE (\<lambda>sType. and_then readU64LE (\<lambda>sSize bf. read_sections 0 (push_section sType sSize bf))) b2"
    unfolding numeral_2_eq_2 read_sections.simps(2) and_then_def [of readU32LE _ bf] A(1) sum.case prod.case
      and_then_def [of readU64LE _ "bf\<lparr>bf_pos := bf_pos bf + 4\<rparr>"] D b2_def by (simp only: of_nat_unat ucast_id)
  ultimately have "read_sections 2 bf = Inl Out_of_bounds_read" by (simp add: and_then_def)
  then show ?thesis using bf(5) by simp
qed

subsection \<open>Properties\<close>

text \<open>
  C14. The parser inverts the format: a file encoded from a type, a version and a list of sections (in
  any order, several with one identifier, whatever follows the last) is accepted, and for every
  identifier and index \<open>getSectionData\<close> and \<open>getSectionSize\<close> give the address and the size of exactly
  those bytes, or the range error when there is no such section.
\<close>

theorem BinFile_roundtrip:
  assumes "length type = 4" and "version \<le> maxVersion" and "length secs < 2 ^ 32"
    and "length (encode_file type version secs @ extra) < 2 ^ 63"
  shows "\<exists>bf. BinFile_new (encode_file type version secs @ extra) type maxVersion = Inr bf
    \<and> bf_version bf = version \<and> bf_data bf = encode_file type version secs @ extra
    \<and> (\<forall>sid k. if unat k < length (contents sid secs)
        then \<exists>p. getSectionData sid k bf = Inr p
          \<and> getSectionSize sid k bf = Inr (word_of_nat (length (contents sid secs ! unat k)))
          \<and> holds_at (bf_data bf) p (contents sid secs ! unat k)
        else \<exists>msg. getSectionData sid k bf = Inl (Range_exn msg) \<and> getSectionSize sid k bf = Inl (Range_exn msg))"
proof -
  obtain bf where bf: "BinFile_new (encode_file type version secs @ extra) type maxVersion = Inr bf"
    "bf_data bf = encode_file type version secs @ extra" "bf_version bf = version" "table_holds bf secs"
    using BinFile_new_value [OF assms] by blast
  show ?thesis using bf(1-3) BinFile_sections [OF bf(4)] by blast
qed

theorem BinFile_roundtrip_witness:
  "\<exists>bf p. BinFile_new (encode_file ''wtns'' 2 [(1, [7]), (2, [8, 9]), (1, [5, 6])]) ''wtns'' 2 = Inr bf
    \<and> getSectionData 1 1 bf = Inr p \<and> holds_at (bf_data bf) p [5, 6] \<and> (\<exists>msg. getSectionData 3 0 bf = Inl (Range_exn msg))"
proof -
  let ?secs = "[(1, [7]), (2, [8, 9]), (1, [5, 6])] :: (u32 \<times> u8 list) list"
  have c: "contents 1 ?secs = [[7], [5, 6]]" "contents 3 ?secs = []" by (simp_all add: contents_def)
  have "length (encode_file ''wtns'' 2 ?secs @ []) < 2 ^ 63" by (simp add: encode_file_def encode_section_def)
  then obtain bf where bf: "BinFile_new (encode_file ''wtns'' 2 ?secs) ''wtns'' 2 = Inr bf"
    "\<And>sid k. if unat k < length (contents sid ?secs)
        then \<exists>p. getSectionData sid k bf = Inr p
          \<and> getSectionSize sid k bf = Inr (word_of_nat (length (contents sid ?secs ! unat k)))
          \<and> holds_at (bf_data bf) p (contents sid ?secs ! unat k)
        else \<exists>msg. getSectionData sid k bf = Inl (Range_exn msg) \<and> getSectionSize sid k bf = Inl (Range_exn msg)"
    using BinFile_roundtrip [of "''wtns''" 2 2 ?secs "[]"] by auto
  show ?thesis using bf(1) bf(2) [of 1 1] bf(2) [of 0 3] unfolding c by auto
qed

text \<open>
  C37. What the constructor refuses, in the order of its checks: fewer than four bytes fail an assertion (the
  process ends), another type is the invalid argument before the version is read, a file that ends before its
  version fails an assertion, a later version than the caller allows is the invalid argument, and a file that ends
  before the number of sections fails an assertion. A table that ends before that number of entries, after complete
  sections, fails an assertion: in an entry, or with a section (of less than \<open>2 ^ 62\<close> bytes) that is cut off while
  further entries are due. A table all of whose entries can be read is accepted, also when the bytes of the last
  section are missing.
\<close>

theorem BinFile_refusals:
  assumes "length data < 2 ^ 63"
  shows "if length data < 4 then BinFile_new data type maxVersion = Inl Assertion_failure
    else if map (\<lambda>b. char_of (unat b)) (take 4 data) \<noteq> type then \<exists>msg. BinFile_new data type maxVersion = Inl (Invalid_argument msg)
    else if length data < 8 then BinFile_new data type maxVersion = Inl Assertion_failure
    else if unat maxVersion < bval (take 4 (drop 4 data)) then \<exists>msg. BinFile_new data type maxVersion = Inl (Invalid_argument msg)
    else if length data < 12 then BinFile_new data type maxVersion = Inl Assertion_failure
    else (table_truncated (bval (take 4 (drop 8 data))) (drop 12 data) \<longrightarrow> BinFile_new data type maxVersion = Inl Assertion_failure)
      \<and> (table_readable (bval (take 4 (drop 8 data))) (drop 12 data) \<longrightarrow> (\<exists>bf. BinFile_new data type maxVersion = Inr bf))"
  using BinFile_new_refuses [OF assms, of type maxVersion] table_outcome [OF assms, of type maxVersion] by simp

theorem BinFile_refusals_witness:
  "(\<exists>msg. BinFile_new (encode_file ''wtns'' 3 []) ''wtns'' 2 = Inl (Invalid_argument msg))
   \<and> BinFile_new [119, 116, 110, 115, 2, 0, 0, 0, 1, 0] ''wtns'' 2 = Inl Assertion_failure
   \<and> BinFile_new ([119, 116, 110, 115, 2, 0, 0, 0, 2, 0, 0, 0] @ encode_section (1, [7]) @ [1, 2]) ''wtns'' 2 = Inl Assertion_failure"
proof (intro conjI)
  let ?d = "encode_file ''wtns'' 3 []" and ?e = "[119, 116, 110, 115, 2, 0, 0, 0, 1, 0] :: u8 list"
    and ?f = "[119, 116, 110, 115, 2, 0, 0, 0, 2, 0, 0, 0] @ encode_section (1, [7]) @ [1, 2]"
  have d: "?d = [119, 116, 110, 115, 3, 0, 0, 0, 0, 0, 0, 0]"
    by (simp add: encode_file_def bytes_of_4)
  have ty: "map (\<lambda>b. char_of (unat b)) [119, 116, 110, 115 :: u8] = ''wtns''"
    using type_bytes [of "''wtns''"] by simp
  show "\<exists>msg. BinFile_new ?d ''wtns'' 2 = Inl (Invalid_argument msg)"
    using BinFile_refusals [of ?d "''wtns''" 2] ty unfolding d by simp
  show "BinFile_new ?e ''wtns'' 2 = Inl Assertion_failure"
    using BinFile_refusals [of ?e "''wtns''" 2] ty by simp
  have "table_truncated 2 (encode_section (1, [7]) @ [1, 2])"
    unfolding table_truncated_def by (intro exI [of _ "[(1, [7])]"] exI [of _ "[1, 2]"]) simp
  then show "BinFile_new ?f ''wtns'' 2 = Inl Assertion_failure"
    using BinFile_refusals [of ?f "''wtns''" 2] ty by (simp add: encode_section_def)
qed

text \<open>
  C38. No size in the table is compared with the file: a table whose only entry claims any number of
  bytes behind a file of 24 bytes is accepted, and the section it gives ends outside of the mapping. A first entry
  of size \<open>2 ^ 64 - 26\<close> moves the read position to two bytes before the file; this file is not accepted, but not
  refused either: the assertion of the next read holds there, and the constructor reads outside of the mapping.
\<close>

theorem section_size_unchecked:
  assumes "length type = 4" and "1 \<le> maxVersion"
  shows "(\<exists>bf. BinFile_new (one_entry type sid sz) type maxVersion = Inr bf \<and> length (bf_data bf) = 24
      \<and> getSectionData sid 0 bf = Inr 24 \<and> getSectionSize sid 0 bf = Inr sz)
    \<and> BinFile_new (two_entries type sid (2 ^ 64 - 26)) type maxVersion = Inl Out_of_bounds_read"
  using unchecked_size [OF assms] negative_position [OF assms] by blast

theorem section_size_unchecked_witness:
  "\<exists>bf. BinFile_new (one_entry ''zkey'' 4 1000000) ''zkey'' 1 = Inr bf \<and> length (bf_data bf) = 24
    \<and> getSectionSize 4 0 bf = Inr 1000000"
  using section_size_unchecked [of "''zkey''" 1 4 1000000] by auto

end
