(* ===== verification/Coset.thy ===== *)
theory Coset
  imports Dft
begin

section \<open>Polynomials on the roots of unity and on their coset\<close>

text \<open>
  What the prover does with its three vectors: the polynomials through the values at the roots of
  unity, evaluated on the coset shifted by a root of twice the order, and why the product of the first
  two less the third is the vanishing polynomial times a quotient.
\<close>

definition poly_at :: "(nat \<Rightarrow> 'k :: comm_ring_1) \<Rightarrow> nat \<Rightarrow> 'k \<Rightarrow> 'k" where
  "poly_at c n x = (\<Sum>i<n. c i * x ^ i)"

lemma dft_poly: "dft w n x j = poly_at x n (w ^ j)"
  by (simp add: dft_def poly_at_def mult.commute [of _ j] power_mult)

lemma poly_at_shift: "poly_at (\<lambda>i. c i * g ^ i) n x = poly_at c n (g * x)"
  by (simp add: poly_at_def power_mult_distrib mult.assoc)

lemma interpolation_unique:
  fixes w :: "'k :: comm_ring_1" and c :: 'k
  assumes "root2 L w" and "n = 2 ^ L" and "c * of_nat n = 1"
    and "\<And>j. j < n \<Longrightarrow> poly_at x n (w ^ j) = poly_at y n (w ^ j)" and "i < n"
  shows "x i = y i"
proof -
  have "dft w n (dft w n x) (neg_index n i) = dft w n (dft w n y) (neg_index n i)"
    by (rule dft_cong) (simp add: dft_poly assms(4))
  then show ?thesis
    using idft_dft [OF assms(1-3,5), of x] idft_dft [OF assms(1-3,5), of y] by (simp add: idft_def)
qed

subsection \<open>The quotient\<close>

definition conv :: "(nat \<Rightarrow> 'k :: comm_ring_1) \<Rightarrow> (nat \<Rightarrow> 'k) \<Rightarrow> nat \<Rightarrow> nat \<Rightarrow> 'k" where
  "conv a b n k = (\<Sum>i<n. \<Sum>j<n. if i + j = k then a i * b j else 0)"

lemma conv_sum:
  "(\<Sum>k<n. conv a b n (k + m) * x ^ k) = (\<Sum>i<n. \<Sum>j<n. \<Sum>k<n. if i + j = k + m then a i * b j * x ^ k else 0)"
proof -
  have "(\<Sum>k<n. conv a b n (k + m) * x ^ k) = (\<Sum>k<n. \<Sum>i<n. \<Sum>j<n. if i + j = k + m then a i * b j * x ^ k else 0)"
    unfolding conv_def sum_distrib_right by (simp add: if_distrib [of "\<lambda>t. t * _"] cong: if_cong)
  also have "\<dots> = (\<Sum>i<n. \<Sum>k<n. \<Sum>j<n. if i + j = k + m then a i * b j * x ^ k else 0)" by (rule sum.swap)
  also have "\<dots> = (\<Sum>i<n. \<Sum>j<n. \<Sum>k<n. if i + j = k + m then a i * b j * x ^ k else 0)"
    by (rule sum.cong [OF refl]) (rule sum.swap)
  finally show ?thesis .
qed

lemma poly_product:
  "poly_at a n x * poly_at b n x = poly_at (conv a b n) n x + x ^ n * poly_at (\<lambda>k. conv a b n (k + n)) n x"
proof -
  have "(\<Sum>k<n. if i + j = k then a i * b j * x ^ k else 0)
      + x ^ n * (\<Sum>k<n. if i + j = k + n then a i * b j * x ^ k else 0) = a i * x ^ i * (b j * x ^ j)"
    if "i < n" "j < n" for i j
  proof (cases "i + j < n")
    case True
    then show ?thesis by (simp add: power_add sum.delta' mult_ac)
  next
    case False
    then obtain k where k: "i + j = k + n" using le_Suc_ex [of n "i + j"] by (auto simp: add.commute)
    then have "k < n" using that by simp
    moreover have "(\<Sum>k<n. if i + j = k then a i * b j * x ^ k else 0) = 0" using False by (intro sum.neutral) auto
    moreover have "x ^ n * (a i * b j * x ^ k) = a i * x ^ i * (b j * x ^ j)"
    proof -
      have "x ^ n * x ^ k = x ^ i * x ^ j" using k by (metis add.commute power_add)
      then show ?thesis by (metis mult.assoc mult.commute)
    qed
    ultimately show ?thesis by (simp add: k sum.delta)
  qed
  note eq = this
  have c0: "poly_at (conv a b n) n x = (\<Sum>i<n. \<Sum>j<n. \<Sum>k<n. if i + j = k then a i * b j * x ^ k else 0)"
    using conv_sum [of a b n 0 x] by (simp add: poly_at_def)
  have "poly_at a n x * poly_at b n x = (\<Sum>i<n. \<Sum>j<n. a i * x ^ i * (b j * x ^ j))"
    by (simp add: poly_at_def sum_product)
  also have "\<dots> = (\<Sum>i<n. \<Sum>j<n. (\<Sum>k<n. if i + j = k then a i * b j * x ^ k else 0)
      + x ^ n * (\<Sum>k<n. if i + j = k + n then a i * b j * x ^ k else 0))"
    using eq by (intro sum.cong refl) simp
  also have "\<dots> = poly_at (conv a b n) n x + x ^ n * poly_at (\<lambda>k. conv a b n (k + n)) n x"
    unfolding c0 poly_at_def [of "\<lambda>k. conv a b n (k + n)"] conv_sum by (simp only: sum_distrib_left sum.distrib)
  finally show ?thesis .
qed

theorem vanishing_quotient:
  fixes w :: "'k :: comm_ring_1" and k :: 'k
  assumes w: "root2 L w" and n: "n = 2 ^ L" and k: "k * of_nat n = 1"
    and eq: "\<And>j. j < n \<Longrightarrow> poly_at c n (w ^ j) = poly_at a n (w ^ j) * poly_at b n (w ^ j)"
  shows "\<exists>q. \<forall>x. poly_at a n x * poly_at b n x - poly_at c n x = (x ^ n - 1) * poly_at q n x"
proof -
  let ?lo = "conv a b n" and ?hi = "\<lambda>k. conv a b n (k + n)"
  have add: "poly_at (\<lambda>i. ?lo i + ?hi i) n x = poly_at ?lo n x + poly_at ?hi n x" for x
    by (simp add: poly_at_def distrib_right sum.distrib)
  have "?lo i + ?hi i = c i" if "i < n" for i
  proof (rule interpolation_unique [OF w n k _ that])
    fix j assume "j < n"
    have "(w ^ j) ^ n = (w ^ n) ^ j" by (simp only: power_mult [symmetric] mult.commute)
    then have "(w ^ j) ^ n = 1" using root2_one [OF w] by (simp add: n)
    then show "poly_at (\<lambda>i. ?lo i + ?hi i) n (w ^ j) = poly_at c n (w ^ j)"
      unfolding eq [OF \<open>j < n\<close>] poly_product add by simp
  qed
  then have "poly_at c n x = poly_at ?lo n x + poly_at ?hi n x" for x
    unfolding add [symmetric] by (simp add: poly_at_def)
  then have "poly_at a n x * poly_at b n x - poly_at c n x = (x ^ n - 1) * poly_at ?hi n x" for x
    unfolding poly_product by (simp add: algebra_simps)
  then show ?thesis by blast
qed

text \<open>On the coset the vanishing polynomial is \<open>-2\<close>.\<close>

lemma vanishing_on_coset:
  assumes "root2 (Suc L) g" and "n = 2 ^ L"
  shows "(g * (g ^ 2) ^ p) ^ n = -1"
proof -
  have gn: "g ^ n = -1" using assms by (simp add: root2_def)
  have "(g ^ 2) ^ p = g ^ (2 * p)" by (rule power_mult [symmetric])
  then have "(g * (g ^ 2) ^ p) ^ n = g ^ n * (g ^ n) ^ (2 * p)"
    by (simp only: power_mult_distrib power_mult [symmetric] mult.commute)
  then show ?thesis by (simp add: gn)
qed

end
