(* ===== verification/Groth16_Laws.thy ===== *)
theory Groth16_Laws
  imports Groth16 Coset Bn254_Multiexp Bn254_Fft
begin

section \<open>What the prover computes\<close>

text \<open>
  The three vectors of the constraint system, the quotient on the coset, the sampled scalars and the
  blinded combinations, each phase of \<open>prove\<close> over the fields and the groups of the curve.
\<close>

subsection \<open>The rows\<close>

text \<open>
  A witness value is a plain number; a coefficient is stored with the square of the Montgomery factor.
\<close>

definition coef_value :: "coef \<Rightarrow> fr" where
  "coef_value k = fr_val (coef_coef k) / of_nat mont_R"

definition row_sum :: "bool \<Rightarrow> coef list \<Rightarrow> limbs list \<Rightarrow> nat \<Rightarrow> nat \<Rightarrow> fr" where
  "row_sum first ks ws N j = (\<Sum>i<N. if (coef_m (ks ! i) = 0) = first \<and> unat (coef_c (ks ! i)) = j
     then of_nat (lval (ws ! unat (coef_s (ks ! i)))) * coef_value (ks ! i) else 0)"

text \<open>The part of a row that a list of iterations adds.\<close>

definition row_part :: "bool \<Rightarrow> coef list \<Rightarrow> limbs list \<Rightarrow> nat \<Rightarrow> nat \<Rightarrow> fr" where
  "row_part first ks ws j i = (if (coef_m (ks ! i) = 0) = first \<and> unat (coef_c (ks ! i)) = j
     then of_nat (lval (ws ! unat (coef_s (ks ! i)))) * coef_value (ks ! i) else 0)"

context gmp_laws begin

lemma mont_R_neq_0: "(of_nat mont_R :: fr) \<noteq> 0"
proof
  assume "(of_nat mont_R :: fr) = 0"
  then have "Fr_prime dvd mont_R" by (simp only: fr.nonzero_iff)
  moreover have "\<not> Fr_prime dvd mont_R" unfolding mont_R_def by simp
  ultimately show False by blast
qed

lemma fr_val_lval: "fr_val a * of_nat mont_R = of_nat (lval a)"
proof -
  have "of_nat (mont_R * mval Fr_prime a) = (of_nat (lval a) :: fr)"
    unfolding fr_class.of_nat_iff by (rule fr_class.mval_back)
  then show ?thesis by (simp add: fr_val_def mult.commute)
qed

lemma fr_mul_any:
  assumes "length a = 4" and "fr_ok b"
  shows "fr_ok (F_mul (RawFr_ops G) a b)" and "fr_val (F_mul (RawFr_ops G) a b) = fr_val a * fr_val b"
proof -
  have b: "reduced Fr_prime b" using assms(2) by (simp add: fr_ok_def)
  have m: "F_mul (RawFr_ops G) = rawMMul Fr_consts G" by (simp add: RawFr_ops_def RawF_ops_def)
  show "fr_ok (F_mul (RawFr_ops G) a b)" using fr_class.rawMMul_correct [OF assms(1) b] by (simp add: m fr_ok_def)
  show "fr_val (F_mul (RawFr_ops G) a b) = fr_val a * fr_val b"
    using fr_class.mval_MMul [OF assms(1) b] by (simp add: m fr_val_def flip: of_nat_mult)
qed

lemma coef_product:
  assumes "length w = 4" and "fr_ok (coef_coef k)"
  shows "fr_ok (F_mul (RawFr_ops G) w (coef_coef k))"
    and "fr_val (F_mul (RawFr_ops G) w (coef_coef k)) = of_nat (lval w) * coef_value k"
  using fr_mul_any [OF assms] mont_R_neq_0 by (simp_all add: coef_value_def flip: fr_val_lval)

lemma coef_step:
  assumes ab: "arr_ok fr_ok n a" "arr_ok fr_ok n b"
    and k: "k = ks ! i" "unat (coef_c k) < n" "length (ws ! unat (coef_s k)) = 4" "fr_ok (coef_coef k)"
    and r: "coef_body (RawFr_ops G) ws ks (a, b) (i, t) = (a', b')"
  shows "arr_ok fr_ok n a'" "arr_ok fr_ok n b'"
    and "j < n \<Longrightarrow> fr_val (a' ! j) = fr_val (a ! j) + row_part True ks ws j i"
    and "j < n \<Longrightarrow> fr_val (b' ! j) = fr_val (b ! j) + row_part False ks ws j i"
proof -
  define aux where "aux = F_mul (RawFr_ops G) (ws ! unat (coef_s k)) (coef_coef k)"
  have x: "fr_ok aux" "fr_val aux = of_nat (lval (ws ! unat (coef_s k))) * coef_value k"
    using coef_product [OF k(3,4)] by (simp_all add: aux_def)
  have r': "(a', b') = (if coef_m k = 0 then (a[unat (coef_c k) := F_add (RawFr_ops G) (a ! unat (coef_c k)) aux], b)
      else (a, b[unat (coef_c k) := F_add (RawFr_ops G) (b ! unat (coef_c k)) aux]))"
    using r [symmetric] by (simp add: coef_body_def Let_def aux_def k(1))
  have len: "length a = n" "length b = n" using ab by (simp_all add: arr_ok_def)
  have ok: "fr_ok (a ! j)" "fr_ok (b ! j)" if "j < n" for j using ab that by (simp_all add: arr_ok_def)
  show "arr_ok fr_ok n a'" "arr_ok fr_ok n b'"
    using r' ab k(2) x(1) by (auto simp: arr_ok_def nth_list_update split: if_splits)
  show "fr_val (a' ! j) = fr_val (a ! j) + row_part True ks ws j i" if "j < n"
    using r' that k(2) x len ok [OF that] ok [OF k(2)]
    by (auto simp: row_part_def nth_list_update fr.val_add k(1) split: if_splits)
  show "fr_val (b' ! j) = fr_val (b ! j) + row_part False ks ws j i" if "j < n"
    using r' that k(2) x len ok [OF that] ok [OF k(2)]
    by (auto simp: row_part_def nth_list_update fr.val_add k(1) split: if_splits)
qed

lemma coef_fold:
  assumes "\<forall>i\<in>fst ` set its. unat (coef_c (ks ! i)) < n \<and> length (ws ! unat (coef_s (ks ! i))) = 4 \<and> fr_ok (coef_coef (ks ! i))"
    and "arr_ok fr_ok n a" and "arr_ok fr_ok n b"
  shows "\<exists>a' b'. foldl (coef_body (RawFr_ops G) ws ks) (a, b) its = (a', b') \<and> arr_ok fr_ok n a' \<and> arr_ok fr_ok n b'
    \<and> (\<forall>j<n. fr_val (a' ! j) = fr_val (a ! j) + sum_list (map (row_part True ks ws j) (map fst its))
        \<and> fr_val (b' ! j) = fr_val (b ! j) + sum_list (map (row_part False ks ws j) (map fst its)))"
  using assms
proof (induction its arbitrary: a b)
  case (Cons it its)
  obtain i t where it: "it = (i, t)" by (cases it)
  obtain a1 b1 where s: "coef_body (RawFr_ops G) ws ks (a, b) (i, t) = (a1, b1)" by fastforce
  have k: "unat (coef_c (ks ! i)) < n" "length (ws ! unat (coef_s (ks ! i))) = 4" "fr_ok (coef_coef (ks ! i))"
    using Cons.prems(1) by (simp_all add: it)
  note S = coef_step [OF Cons.prems(2,3) refl k s]
  have "\<forall>i\<in>fst ` set its. unat (coef_c (ks ! i)) < n \<and> length (ws ! unat (coef_s (ks ! i))) = 4 \<and> fr_ok (coef_coef (ks ! i))"
    using Cons.prems(1) by simp
  from Cons.IH [OF this S(1,2)] obtain a' b' where
    "foldl (coef_body (RawFr_ops G) ws ks) (a1, b1) its = (a', b')" "arr_ok fr_ok n a'" "arr_ok fr_ok n b'"
    "\<And>j. j < n \<Longrightarrow> fr_val (a' ! j) = fr_val (a1 ! j) + sum_list (map (row_part True ks ws j) (map fst its))"
    "\<And>j. j < n \<Longrightarrow> fr_val (b' ! j) = fr_val (b1 ! j) + sum_list (map (row_part False ks ws j) (map fst its))"
    by blast
  then show ?case using S(3,4) s by (simp add: it add.assoc)
qed simp

lemma zero_fold:
  assumes "length a = n" and "length b = n"
  shows "\<exists>a' b'. foldl (zero_body (RawFr_ops G)) (a, b) its = (a', b') \<and> length a' = n \<and> length b' = n
    \<and> (\<forall>j<n. (a' ! j = (if j \<in> fst ` set its then F_zero (RawFr_ops G) else a ! j))
        \<and> (b' ! j = (if j \<in> fst ` set its then F_zero (RawFr_ops G) else b ! j)))"
  using assms
proof (induction its rule: rev_induct)
  case (snoc it its)
  then obtain a1 b1 where IH: "foldl (zero_body (RawFr_ops G)) (a, b) its = (a1, b1)" "length a1 = n" "length b1 = n"
    "\<And>j. j < n \<Longrightarrow> a1 ! j = (if j \<in> fst ` set its then F_zero (RawFr_ops G) else a ! j)"
    "\<And>j. j < n \<Longrightarrow> b1 ! j = (if j \<in> fst ` set its then F_zero (RawFr_ops G) else b ! j)" by blast
  have s: "zero_body (RawFr_ops G) (a1, b1) it = (a1[fst it := F_zero (RawFr_ops G)], b1[fst it := F_zero (RawFr_ops G)])"
    by (simp add: zero_body_def Let_def)
  have u: "xs[fst it := z] ! j = (if j = fst it then z else xs ! j)" if "j < length xs" for xs :: "limbs list" and z j
    using that by (cases "j = fst it") simp_all
  have e: "fst ` set (its @ [it]) = insert (fst it) (fst ` set its)" by simp
  show ?case unfolding e foldl_append IH(1) using IH(2-5) by (simp add: s u del: image_insert)
qed simp

lemma rows_value:
  assumes T: "tbb_laws T" and f: "length (fresh n) = n"
    and ks: "\<And>i. i < N \<Longrightarrow> unat (coef_c (ks ! i)) < n \<and> length (ws ! unat (coef_s (ks ! i))) = 4 \<and> fr_ok (coef_coef (ks ! i))"
  shows "\<exists>a b. foldl (coef_body (RawFr_ops G) ws ks) (foldl (zero_body (RawFr_ops G)) (fresh n, fresh n) (parallel_for T [20] 0 n))
      (parallel_for T [21] 0 N) = (a, b) \<and> arr_ok fr_ok n a \<and> arr_ok fr_ok n b
    \<and> (\<forall>j<n. fr_val (a ! j) = row_sum True ks ws N j \<and> fr_val (b ! j) = row_sum False ks ws N j)"
proof -
  note idx = tbb_laws.indices_set [OF T]
  obtain a0 b0 where z: "foldl (zero_body (RawFr_ops G)) (fresh n, fresh n) (parallel_for T [20] 0 n) = (a0, b0)"
    "length a0 = n" "length b0 = n" "\<And>j. j < n \<Longrightarrow> a0 ! j = F_zero (RawFr_ops G) \<and> b0 ! j = F_zero (RawFr_ops G)"
    using zero_fold [OF f f, of "parallel_for T [20] 0 n"] unfolding idx by auto
  then have z2: "arr_ok fr_ok n a0" "arr_ok fr_ok n b0" by (simp_all add: arr_ok_def)
  let ?its = "parallel_for T [21] 0 N"
  have "\<forall>i\<in>fst ` set ?its. unat (coef_c (ks ! i)) < n \<and> length (ws ! unat (coef_s (ks ! i))) = 4 \<and> fr_ok (coef_coef (ks ! i))"
    using ks unfolding idx by simp
  from coef_fold [OF this z2] obtain a b where ab:
    "foldl (coef_body (RawFr_ops G) ws ks) (a0, b0) ?its = (a, b)" "arr_ok fr_ok n a" "arr_ok fr_ok n b"
    "\<And>j. j < n \<Longrightarrow> fr_val (a ! j) = fr_val (a0 ! j) + sum_list (map (row_part True ks ws j) (map fst ?its))"
    "\<And>j. j < n \<Longrightarrow> fr_val (b ! j) = fr_val (b0 ! j) + sum_list (map (row_part False ks ws j) (map fst ?its))" by blast
  have S: "sum_list (map (row_part c ks ws j) (map fst ?its)) = row_sum c ks ws N j" for c j
  proof -
    have "mset (map (row_part c ks ws j) (map fst ?its)) = mset (map (row_part c ks ws j) [0..<N])"
      using tbb_laws.each_once [OF T, of "[21]" 0 N] by (simp only: mset_map)
    then have "sum_list (map (row_part c ks ws j) (map fst ?its)) = sum_list (map (row_part c ks ws j) [0..<N])"
      by (metis sum_mset_sum_list)
    also have "\<dots> = (\<Sum>i\<in>{0..<N}. row_part c ks ws j i)" by (rule interv_sum_list_conv_sum_set_nat [THEN trans]) simp
    also have "\<dots> = row_sum c ks ws N j" by (simp add: row_sum_def row_part_def atLeast0LessThan)
    finally show ?thesis .
  qed
  show ?thesis using ab(1-3) ab(4,5) [unfolded S] z(1,4) by (simp add: fr.val_zero)
qed

end

subsection \<open>The coset\<close>

context gmp_laws begin

lemma to_coset_value:
  assumes T: "tbb_laws T" and R: "fft_tables fr_ok fr_val R w" and S: "Suc L \<le> fft_s R" and n: "n = 2 ^ L"
    and a: "arr_ok fr_ok n a"
  shows "\<exists>a' c. to_coset (RawFr_ops G) T R L a n = Inr a' \<and> arr_ok fr_ok n a'
    \<and> (\<forall>j<n. poly_at c n (root_for R w L ^ j) = fr_val (a ! j))
    \<and> (\<forall>p<n. fr_val (a' ! p) = poly_at c n (root_for R w (Suc L) * root_for R w L ^ p))"
proof -
  let ?F = "RawFr_ops G" and ?r = "root_for R w L" and ?g = "root_for R w (Suc L)" and ?k = "fr_val (powTwoInv R ! L)"
  define c where "c = idft ?k ?r n (\<lambda>i. fr_val (a ! i))"
  have L: "L \<le> fft_s R" using S by simp
  have r: "root2 L ?r" by (rule root_for_order [OF R L])
  have k: "?k * of_nat n = 1" using R L by (simp add: fft_tables_def n)
  obtain b where b: "ifft ?F T R a n = Inr b" "arr_ok fr_ok n b" "\<And>p. p < n \<Longrightarrow> fr_val (b ! p) = c p"
    unfolding c_def using fr.ifft_value [OF T R L n a] by blast
  define b' where "b' = par_for T [22] 0 n (shift_body ?F R L) b"
  have len: "length b = n" using b(2) by (simp add: arr_ok_def)
  have sh: "shift_body ?F R L i as = as[i := F_mul ?F (as ! i) (fft_root R (L + 1) i)]" for i as
    by (simp add: shift_body_def)
  note P = par_cells [OF T len sh, where c = "[22]" and b = 0 and e = n, folded b'_def]
  have cell: "fr_ok (b' ! p) \<and> fr_val (b' ! p) = c p * ?g ^ p" if p: "p < n" for p
  proof -
    have "p < 2 ^ Suc L" using p by (simp add: n)
    note q = fft_root_value [OF R S this]
    have "fr_ok (b ! p)" using b(2) p by (simp add: arr_ok_def)
    then show ?thesis using P(2) [OF p] p q b(3) [OF p] by (simp add: fr.val_mul)
  qed
  then have b': "arr_ok fr_ok n b'" using P(1) by (simp add: arr_ok_def)
  obtain a' where a': "fft ?F T R b' n = Inr a'" "arr_ok fr_ok n a'"
    "\<And>p. p < n \<Longrightarrow> fr_val (a' ! p) = dft ?r n (\<lambda>i. fr_val (b' ! i)) p"
    using fr.fft_value [OF T R L n b'] by blast
  have "fr_val (a' ! p) = poly_at c n (?g * ?r ^ p)" if "p < n" for p
    unfolding a'(3) [OF that] dft_poly poly_at_shift [symmetric] using cell by (simp add: poly_at_def)
  moreover have "poly_at c n (?r ^ j) = fr_val (a ! j)" if "j < n" for j
    using dft_idft [OF r n k that, of "\<lambda>i. fr_val (a ! i)"] unfolding dft_poly c_def .
  moreover have "to_coset ?F T R L a n = Inr a'" using b(1) a'(1) by (simp add: to_coset_def b'_def)
  ultimately show ?thesis using a'(2) by blast
qed

lemma abc_value:
  assumes T: "tbb_laws T" and a: "arr_ok fr_ok n a" and b: "arr_ok fr_ok n b" and c: "arr_ok fr_ok n c"
  defines "h \<equiv> par_for T [24] 0 n (abc_body G b c) a"
  shows "length h = n" and "p < n \<Longrightarrow> reduced Fr_prime (h ! p)
    \<and> of_nat (lval (h ! p)) = fr_val (a ! p) * fr_val (b ! p) - fr_val (c ! p)"
proof -
  let ?F = "RawFr_ops G"
  define f where "f = (\<lambda>i x. rawFromMontgomery Fr_consts G (F_sub ?F (F_mul ?F x (b ! i)) (c ! i)))"
  have body: "abc_body G b c i as = as[i := f i (as ! i)]" for i and as :: "limbs list"
    by (cases "i < length as") (simp_all add: abc_body_def Let_def f_def list_update_beyond)
  have len: "length a = n" using a by (simp add: arr_ok_def)
  note P = par_cells [OF T len body, where c = "[24]" and b = 0 and e = n, folded h_def]
  show "length h = n" by (rule P(1))
  show "reduced Fr_prime (h ! p) \<and> of_nat (lval (h ! p)) = fr_val (a ! p) * fr_val (b ! p) - fr_val (c ! p)" if p: "p < n"
  proof -
    define x where "x = F_sub ?F (F_mul ?F (a ! p) (b ! p)) (c ! p)"
    have ok: "fr_ok (a ! p)" "fr_ok (b ! p)" "fr_ok (c ! p)" using a b c p by (simp_all add: arr_ok_def)
    then have x: "fr_ok x" "fr_val x = fr_val (a ! p) * fr_val (b ! p) - fr_val (c ! p)"
      by (simp_all add: x_def fr.val_sub fr.val_mul)
    then have "length x = 4" by (simp add: fr_ok_def reduced_def)
    then have "reduced Fr_prime (rawFromMontgomery Fr_consts G x)" "lval (rawFromMontgomery Fr_consts G x) = mval Fr_prime x"
      using fr_class.rawFromMontgomery_correct [of x] fr_class.lval_FromMontgomery [of x] by simp_all
    moreover have "h ! p = rawFromMontgomery Fr_consts G x" using P(2) [OF p] p by (simp add: f_def x_def)
    ultimately show ?thesis using x(2) by (simp add: fr_val_def)
  qed
qed

text \<open>
  The array \<open>a\<close> after \<open>compute_h\<close>: on the coset, \<open>-2\<close> times the quotient of the product of the row
  polynomials, less their interpolated product, by the vanishing polynomial.
\<close>

lemma compute_h_value:
  assumes T: "tbb_laws T" and R: "fft_tables fr_ok fr_val (p_fft P) w" and S: "Suc L \<le> fft_s (p_fft P)"
    and n: "unat (p_domainSize P) = 2 ^ L" and f: "\<And>k. length (fresh k) = k"
    and bounds: "coefs_in_bounds P (length ws)" and ws: "\<forall>x\<in>set ws. length x = 4"
    and ks: "\<forall>k\<in>set (take (unat (p_nCoefs P)) (p_coefs P)). fr_ok (coef_coef k)"
  defines "r \<equiv> root_for (p_fft P) w L" and "g \<equiv> root_for (p_fft P) w (Suc L)" and "N \<equiv> unat (p_nCoefs P)"
  shows "\<exists>h ca cb cc q. compute_h G T fresh P ws = Inr h \<and> length h = 2 ^ L
    \<and> (\<forall>p<2 ^ L. reduced Fr_prime (h ! p))
    \<and> (\<forall>j<2 ^ L. poly_at ca (2 ^ L) (r ^ j) = row_sum True (p_coefs P) ws N j
        \<and> poly_at cb (2 ^ L) (r ^ j) = row_sum False (p_coefs P) ws N j
        \<and> poly_at cc (2 ^ L) (r ^ j) = row_sum True (p_coefs P) ws N j * row_sum False (p_coefs P) ws N j)
    \<and> (\<forall>x. poly_at ca (2 ^ L) x * poly_at cb (2 ^ L) x - poly_at cc (2 ^ L) x = (x ^ 2 ^ L - 1) * poly_at q (2 ^ L) x)
    \<and> (\<forall>p<2 ^ L. of_nat (lval (h ! p)) = -2 * poly_at q (2 ^ L) (g * r ^ p))"
proof -
  let ?F = "RawFr_ops G" and ?R = "p_fft P" and ?ks = "p_coefs P"
  define n where "n = (2 :: nat) ^ L"
  have n': "unat (p_domainSize P) = n" using n by (simp add: n_def)
  have L: "L \<le> fft_s ?R" using S by simp
  have r: "root2 L r" unfolding r_def by (rule root_for_order [OF R L])
  have g: "root2 (Suc L) g" "g ^ 2 = r"
  proof -
    show "root2 (Suc L) g" unfolding g_def by (rule root_for_order [OF R S])
    have "fft_s ?R - L = Suc (fft_s ?R - Suc L)" using S by simp
    then show "g ^ 2 = r" by (simp add: g_def r_def root_for_def mult.commute flip: power_mult)
  qed
  have k: "fr_val (powTwoInv ?R ! L) * of_nat n = 1" using R L by (simp add: fft_tables_def n_def)
  have ks': "unat (coef_c (?ks ! i)) < n \<and> length (ws ! unat (coef_s (?ks ! i))) = 4 \<and> fr_ok (coef_coef (?ks ! i))"
    if "i < N" for i
  proof -
    have i: "i < length (take N ?ks)" using bounds that by (simp add: coefs_in_bounds_def N_def)
    then have m: "?ks ! i \<in> set (take N ?ks)" by (metis nth_mem nth_take that)
    then show ?thesis using bounds ws ks i by (auto simp: coefs_in_bounds_def N_def n' list_all_iff)
  qed
  obtain a b where ab: "foldl (coef_body ?F ws ?ks) (foldl (zero_body ?F) (fresh n, fresh n) (parallel_for T [20] 0 n))
      (parallel_for T [21] 0 N) = (a, b)" "arr_ok fr_ok n a" "arr_ok fr_ok n b"
    "\<And>j. j < n \<Longrightarrow> fr_val (a ! j) = row_sum True ?ks ws N j" "\<And>j. j < n \<Longrightarrow> fr_val (b ! j) = row_sum False ?ks ws N j"
    using rows_value [where fresh = fresh, OF T f [of n] ks'] by blast
  define c where "c = par_for T [23] 0 n (mul_body ?F a b) (fresh n)"
  have mul: "mul_body ?F a b i as = as[i := F_mul ?F (a ! i) (b ! i)]" for i as by (simp add: mul_body_def)
  note C = par_cells [OF T f [of n] mul, where c = "[23]" and b = 0 and e = n, folded c_def]
  have c: "arr_ok fr_ok n c" "\<And>j. j < n \<Longrightarrow> fr_val (c ! j) = row_sum True ?ks ws N j * row_sum False ?ks ws N j"
  proof -
    have "c ! j = F_mul ?F (a ! j) (b ! j)" if "j < n" for j using C(2) [OF that] that by simp
    then show "arr_ok fr_ok n c" "\<And>j. j < n \<Longrightarrow> fr_val (c ! j) = row_sum True ?ks ws N j * row_sum False ?ks ws N j"
      using C(1) ab(2-5) by (simp_all add: arr_ok_def fr.val_mul)
  qed
  note V = to_coset_value [OF T R S n_def, folded r_def g_def]
  obtain a' ca where A: "to_coset ?F T ?R L a n = Inr a'" "arr_ok fr_ok n a'" "\<And>j. j < n \<Longrightarrow> poly_at ca n (r ^ j) = fr_val (a ! j)"
    "\<And>p. p < n \<Longrightarrow> fr_val (a' ! p) = poly_at ca n (g * r ^ p)" using V [OF ab(2)] by blast
  obtain b' cb where B: "to_coset ?F T ?R L b n = Inr b'" "arr_ok fr_ok n b'" "\<And>j. j < n \<Longrightarrow> poly_at cb n (r ^ j) = fr_val (b ! j)"
    "\<And>p. p < n \<Longrightarrow> fr_val (b' ! p) = poly_at cb n (g * r ^ p)" using V [OF ab(3)] by blast
  obtain c' cc where D: "to_coset ?F T ?R L c n = Inr c'" "arr_ok fr_ok n c'" "\<And>j. j < n \<Longrightarrow> poly_at cc n (r ^ j) = fr_val (c ! j)"
    "\<And>p. p < n \<Longrightarrow> fr_val (c' ! p) = poly_at cc n (g * r ^ p)" using V [OF c(1)] by blast
  define h where "h = par_for T [24] 0 n (abc_body G b' c') a'"
  note H = abc_value [OF T A(2) B(2) D(2), folded h_def]
  have eq: "poly_at cc n (r ^ j) = poly_at ca n (r ^ j) * poly_at cb n (r ^ j)" if "j < n" for j
    using that A(3) B(3) D(3) ab(4,5) c(2) by simp
  obtain q where q: "\<And>x. poly_at ca n x * poly_at cb n x - poly_at cc n x = (x ^ n - 1) * poly_at q n x"
    using vanishing_quotient [OF r n_def k eq] by blast
  have "of_nat (lval (h ! p)) = -2 * poly_at q n (g * r ^ p)" if "p < n" for p
    using H(2) [OF that] A(4) B(4) D(4) that q [of "g * r ^ p"] vanishing_on_coset [OF g(1) n_def, of p]
    by (simp add: g(2))
  moreover have "compute_h G T fresh P ws = Inr h"
  proof -
    have "fft_log2 n = Inr L" by (simp add: n_def)
    then show ?thesis using bounds ab(1) A(1) B(1) D(1)
      unfolding compute_h_def Let_def n' N_def [symmetric] by (simp add: h_def flip: c_def)
  qed
  ultimately show ?thesis
    using H A(3) B(3) D(3) ab(4,5) c(2) q unfolding n_def [symmetric] by (intro exI [of _ h] exI [of _ ca] exI [of _ cb] exI [of _ cc] exI [of _ q]) simp
qed

end

end
