(* ===== verification/Bn254_Groth16.thy ===== *)
theory Bn254_Groth16
  imports Groth16_Laws
begin

section \<open>The proof\<close>

text \<open>
  The random scalars, the sums of multiples over the witness and the blinded combinations of the
  proof, and the properties of the prover.
\<close>

subsection \<open>Sampling\<close>

text \<open>The candidate that starts at a position of the device.\<close>

definition candidate :: "(nat \<Rightarrow> u8) \<Rightarrow> nat \<Rightarrow> limbs" where
  "candidate device pos = (let r = element_of_bytes (fst (randombytes_buf device pos 32))
     in r[3 := r ! 3 AND 0x3FFFFFFFFFFFFFFF])"

lemma length_candidate [simp]: "length (candidate device pos) = 4"
  by (simp add: candidate_def Let_def element_of_bytes_def)

lemma lval_fr_modulus: "lval fr_modulus = Fr_prime" "length fr_modulus = 4"
  by (simp_all add: fr_modulus_def)

lemma sample_body:
  assumes "gmp_laws G"
  shows "(let (bs, pos) = randombytes_buf device pos 32; r = element_of_bytes bs;
      r = r[3 := r ! 3 AND 0x3FFFFFFFFFFFFFFF]; cmp = mpn_cmp G r fr_modulus
      in if 0 \<le> cmp then f device pos else Some (r, pos))
    = (if Fr_prime \<le> lval (candidate device pos) then f device (pos + 32) else Some (candidate device pos, pos + 32))"
proof -
  have "mpn_laws G" using assms by (simp add: gmp_laws_def)
  then have "mpn_cmp G (candidate device pos) fr_modulus < 0 \<longleftrightarrow> lval (candidate device pos) < Fr_prime"
    using mpn_laws.cmp_neg_law [of G "candidate device pos" fr_modulus] by (simp only: lval_fr_modulus length_candidate)
  then have "0 \<le> mpn_cmp G (candidate device pos) fr_modulus \<longleftrightarrow> Fr_prime \<le> lval (candidate device pos)"
    by (meson not_le)
  then show ?thesis by (simp add: randombytes_buf_def candidate_def Let_def)
qed

lemma sample_step:
  assumes "gmp_laws G"
  shows "sample_scalar G device pos = (if Fr_prime \<le> lval (candidate device pos)
    then sample_scalar G device (pos + 32) else Some (candidate device pos, pos + 32))"
  by (subst sample_scalar.simps) (rule sample_body [OF assms])

lemma sample_first:
  assumes G: "gmp_laws G" and k: "lval (candidate device (pos + 32 * k)) < Fr_prime"
    and before: "\<And>j. j < k \<Longrightarrow> Fr_prime \<le> lval (candidate device (pos + 32 * j))"
  shows "sample_scalar G device pos = Some (candidate device (pos + 32 * k), pos + 32 * (k + 1))"
  using k before
proof (induction k arbitrary: pos)
  case 0
  then show ?case using sample_step [OF G, of device pos] by simp
next
  case (Suc k)
  have "sample_scalar G device (pos + 32) = Some (candidate device (pos + 32 + 32 * k), pos + 32 + 32 * (k + 1))"
  proof (rule Suc.IH)
    show "lval (candidate device (pos + 32 + 32 * k)) < Fr_prime" using Suc.prems(1) by (simp add: add.assoc)
    show "Fr_prime \<le> lval (candidate device (pos + 32 + 32 * j))" if "j < k" for j
      using Suc.prems(2) [of "Suc j"] that by (simp add: add.assoc)
  qed
  moreover have "Fr_prime \<le> lval (candidate device pos)" using Suc.prems(2) [of 0] by simp
  ultimately show ?case using sample_step [OF G, of device pos] by (simp add: add.assoc)
qed

lemma sample_some:
  assumes G: "gmp_laws G" and "sample_scalar G device pos = Some y"
  shows "\<exists>k. lval (candidate device (pos + 32 * k)) < Fr_prime"
proof -
  have "G = G \<longrightarrow> (\<exists>k. lval (candidate device (pos + 32 * k)) < Fr_prime)"
    using assms(2)
  proof (rule sample_scalar.raw_induct [rotated,
      where P = "\<lambda>g device pos y. g = G \<longrightarrow> (\<exists>k. lval (candidate device (pos + 32 * k)) < Fr_prime)"], intro impI)
    fix f g device pos y
    assume IH: "\<And>g d p y. f g d p = Some y \<Longrightarrow> g = G \<longrightarrow> (\<exists>k. lval (candidate d (p + 32 * k)) < Fr_prime)"
      and r: "(let (bs, pos) = randombytes_buf device pos 32; r = element_of_bytes bs;
        r = r[3 := r ! 3 AND 0x3FFFFFFFFFFFFFFF]; cmp = mpn_cmp g r fr_modulus
        in if 0 \<le> cmp then f g device pos else Some (r, pos)) = Some y" and g: "g = G"
    show "\<exists>k. lval (candidate device (pos + 32 * k)) < Fr_prime"
    proof (cases "lval (candidate device pos) < Fr_prime")
      case True
      then have "lval (candidate device (pos + 32 * 0)) < Fr_prime" by simp
      then show ?thesis ..
    next
      case False
      then have "f G device (pos + 32) = Some y"
        using r sample_body [OF G, of device pos "f G"] by (simp only: g not_less if_True)
      then obtain k where "lval (candidate device (pos + 32 + 32 * k)) < Fr_prime" using IH by blast
      then have "lval (candidate device (pos + 32 * Suc k)) < Fr_prime" by (simp add: add.assoc)
      then show ?thesis ..
    qed
  qed
  then show ?thesis by simp
qed

lemma sample_value:
  assumes "gmp_laws G"
  shows "case sample_scalar G device pos of
      None \<Rightarrow> \<forall>k. Fr_prime \<le> lval (candidate device (pos + 32 * k))
    | Some (r, pos') \<Rightarrow> \<exists>k. r = candidate device (pos + 32 * k) \<and> pos' = pos + 32 * (k + 1) \<and> reduced Fr_prime r
        \<and> (\<forall>j<k. Fr_prime \<le> lval (candidate device (pos + 32 * j)))"
proof (cases "\<exists>k. lval (candidate device (pos + 32 * k)) < Fr_prime")
  case True
  define k where "k = (LEAST k. lval (candidate device (pos + 32 * k)) < Fr_prime)"
  have k: "lval (candidate device (pos + 32 * k)) < Fr_prime" unfolding k_def using True by (rule LeastI_ex)
  have "Fr_prime \<le> lval (candidate device (pos + 32 * j))" if "j < k" for j
    using not_less_Least [OF that [unfolded k_def]] by simp
  then show ?thesis using sample_first [OF assms k] k by (auto simp: reduced_def intro!: exI [of _ k])
next
  case False
  then have "sample_scalar G device pos = None" using sample_some [OF assms] by (cases "sample_scalar G device pos") auto
  then show ?thesis using False by (simp add: not_less)
qed

subsection \<open>Sums over the witness\<close>

lemma limb_bytes_simps [simp]: "length (limb_bytes a) = 8 * length a" "bval (limb_bytes a) = lval a"
proof -
  show "length (limb_bytes a) = 8 * length a" by (simp add: limb_bytes_def)
  have "lval a < 256 ^ (8 * length a)" using lval_lt [of a] by (simp add: power_mult)
  then show "bval (limb_bytes a) = lval a" by (simp add: limb_bytes_def bval_bytes_of)
qed

lemma element_of_limb_bytes: "length x = 4 \<Longrightarrow> element_of_bytes (limb_bytes x @ rest) = x"
  by (simp add: element_of_bytes_def)

lemma wtns_bytes_simps:
  assumes "\<forall>x\<in>set ws. length x = 4"
  shows "length (wtns_bytes ws) = 32 * length ws"
    and "drop (32 * m) (wtns_bytes ws) = wtns_bytes (drop m ws)"
    and "take (32 * m) (wtns_bytes ws) = wtns_bytes (take m ws)"
    and "i < length ws \<Longrightarrow> scalar_at (wtns_bytes ws) 32 i = lval (ws ! i)"
proof -
  show len: "length (wtns_bytes ws) = 32 * length ws" using assms by (induction ws) (simp_all add: wtns_bytes_def)
  show d: "drop (32 * m) (wtns_bytes ws) = wtns_bytes (drop m ws)" for m
    using assms
  proof (induction ws arbitrary: m)
    case (Cons x ws)
    then show ?case by (cases m) (simp_all add: wtns_bytes_def)
  qed (simp add: wtns_bytes_def)
  show "take (32 * m) (wtns_bytes ws) = wtns_bytes (take m ws)"
    using assms
  proof (induction ws arbitrary: m)
    case (Cons x ws)
    then show ?case by (cases m) (simp_all add: wtns_bytes_def)
  qed (simp add: wtns_bytes_def)
  show "scalar_at (wtns_bytes ws) 32 i = lval (ws ! i)" if i: "i < length ws"
  proof -
    have x: "length (ws ! i) = 4" using assms i by simp
    have "drop i ws = ws ! i # drop (Suc i) ws" using i by (rule Cons_nth_drop_Suc [symmetric])
    then have "take 32 (drop (i * 32) (wtns_bytes ws)) = limb_bytes (ws ! i)"
      using d [of i] x by (simp add: mult.commute wtns_bytes_def)
    then show ?thesis by (simp add: scalar_at_def)
  qed
qed

text \<open>Linear combinations of points by the numbers that elements of memory hold.\<close>

definition lin_comb :: "('a \<Rightarrow> 'k :: field ec) \<Rightarrow> limbs list \<Rightarrow> 'a list \<Rightarrow> 'k ec" where
  "lin_comb v ws bs = list_total (ec_add 0) Inf (map2 (\<lambda>w b. ec_mul 0 (lval w) (v b)) ws bs)"

lemma multi_sum_wtns:
  assumes "\<forall>x\<in>set ws. length x = 4" and "length ws = n" and "length bs = n"
  shows "multi_sum v bs (wtns_bytes ws) 32 n = lin_comb v ws bs"
proof -
  have "map (\<lambda>i. ec_mul 0 (scalar_at (wtns_bytes ws) 32 i) (v (bs ! i))) [0..<n]
      = map2 (\<lambda>w b. ec_mul 0 (lval w) (v b)) ws bs"
    using assms by (intro nth_equalityI) (simp_all add: wtns_bytes_simps)
  then show ?thesis by (simp add: multi_sum_def lin_comb_def)
qed

context curve_group begin

lemma multiexp_at_value:
  assumes a: "val aa = 0" and T: "tbb_laws T" "max_concurrency T < 32768" and Z: "fresh_ok ok val Z"
    and bs: "n \<le> length bs" "\<forall>b\<in>set (take n bs). aff_on b"
    and ws: "\<forall>x\<in>set ws. length x = 4" "m + n \<le> length ws" and n: "n < 4294967296"
  shows "\<exists>p. multiexp_at C Z T bs ws (32 * m) n = Inr p \<and> point_on p
    \<and> pval p = lin_comb aval (take n (drop m ws)) (take n bs)"
proof -
  let ?ws = "take n (drop m ws)"
  have w: "\<forall>x\<in>set (drop m ws). length x = 4" "\<forall>x\<in>set ?ws. length x = 4"
    using ws(1) by (meson in_set_dropD in_set_takeD)+
  have l: "length ?ws = n" "length (take n bs) = n" using ws(2) bs(1) by simp_all
  have b: "\<forall>b\<in>set (take n bs). aok b \<and> ec_on 0 (val ab) (aval b)" using bs(2) by (simp add: aff_on_def a)
  have len: "length (wtns_bytes ?ws) = n * 32" using wtns_bytes_simps(1) [OF w(2)] l by simp
  have "take (n * 32) (drop (32 * m) (wtns_bytes ws)) = wtns_bytes ?ws"
    unfolding wtns_bytes_simps(2) [OF ws(1)] mult.commute [of n 32] by (rule wtns_bytes_simps(3) [OF w(1)])
  moreover have "\<not> (length bs < n \<or> length (wtns_bytes ws) < 32 * m + n * 32)"
    using bs(1) ws(2) by (simp add: wtns_bytes_simps(1) [OF ws(1)])
  ultimately have "multiexp_at C Z T bs ws (32 * m) n
      = Inr (Curve_multiMulByScalar C Z T (take n bs) (wtns_bytes ?ws) 32 n)"
    by (simp add: multiexp_at_def)
  then show ?thesis
    using multiMulByScalar_value [OF a T Z b l(2) len _ _ n] unfolding multi_sum_wtns [OF w(2) l] point_on_def a by auto
qed

subsection \<open>Blinding\<close>

lemma mulA_on:
  assumes "aff_on b" and "length s = 4"
  shows "point_on (Curve_mulByScalarA C b (limb_bytes s) 32)"
    and "pval (Curve_mulByScalarA C b (limb_bytes s) 32) = ec_mul (val aa) (lval s) (aval b)"
  using assms mulByScalarA_value [of b "limb_bytes s" 32] grp.on_mult [of "aval b" "lval s"]
  by (simp_all add: point_on_def aff_on_def ec_mul_def)

lemma mulP_on:
  assumes "point_on b" and "length s = 4"
  shows "point_on (Curve_mulByScalarP C b (limb_bytes s) 32)"
    and "pval (Curve_mulByScalarP C b (limb_bytes s) 32) = ec_mul (val aa) (lval s) (pval b)"
  using assms mulByScalarP_value [of b "limb_bytes s" 32] grp.on_mult [of "pval b" "lval s"]
  by (simp_all add: point_on_def ec_mul_def)

lemma subPP_on:
  assumes "point_on p" and "point_on q"
  shows "point_on (Curve_subPP C p q)" and "pval (Curve_subPP C p q) = plus_ec (pval p) (ec_neg (pval q))"
  using assms subPP_value [of p q] grp.on_plus grp.on_neg by (simp_all add: point_on_def)

lemma copyAP_on:
  assumes "val ab \<noteq> 0" and "point_on p"
  shows "aff_on (Curve_copyAP C p)" and "aval (Curve_copyAP C p) = pval p"
proof -
  have "pval p \<noteq> Aff 0 0" using assms by (auto simp: point_on_def)
  then show "aff_on (Curve_copyAP C p)" "aval (Curve_copyAP C p) = pval p"
    using copyAP_value [of p] assms(2) by (simp_all add: point_on_def aff_on_def)
qed

text \<open>Both blinded points: a constant of the key and a multiple of \<open>delta\<close> are added.\<close>

lemma blind_value:
  assumes "point_on p" and "aff_on k" and "aff_on d" and "length s = 4"
  shows "point_on (Curve_addPP C (Curve_addPA C p k) (Curve_mulByScalarA C d (limb_bytes s) 32))"
    and "pval (Curve_addPP C (Curve_addPA C p k) (Curve_mulByScalarA C d (limb_bytes s) 32))
      = plus_ec (plus_ec (pval p) (aval k)) (ec_mul (val aa) (lval s) (aval d))"
  using addPP_on [OF addPA_on(1) [OF assms(1,2)] mulA_on(1) [OF assms(3,4)]]
    addPA_on(2) [OF assms(1,2)] mulA_on(2) [OF assms(3,4)] by simp_all

end

subsection \<open>The equations of the proof\<close>

definition G1_affine :: "limbs affine \<Rightarrow> bool" where
  "G1_affine a \<longleftrightarrow> aff_ok fq_ok a \<and> ec_on 0 3 (aff_val fq_val a)"

definition G2_affine :: "limbs f2_element affine \<Rightarrow> bool" where
  "G2_affine a \<longleftrightarrow> aff_ok fq2_ok a \<and> ec_on 0 G2_b (aff_val fq2_val a)"

text \<open>
  A key for a domain of \<open>2 ^ L\<close> rows: arrays of sufficient length, points of the curves, reduced
  coefficients, tables for twice the domain. The 32-bit offset of the private part of the witness
  does not wrap for fewer than \<open>2 ^ 27\<close> variables.
\<close>

definition prover_ok :: "prover \<Rightarrow> nat \<Rightarrow> fr \<Rightarrow> bool" where
  "prover_ok P L w \<longleftrightarrow> unat (p_domainSize P) = 2 ^ L \<and> fft_tables fr_ok fr_val (p_fft P) w \<and> Suc L \<le> fft_s (p_fft P)
     \<and> p_nPublic P < p_nVars P \<and> unat (p_nVars P) < 2 ^ 27
     \<and> unat (p_nVars P) \<le> length (p_pointsA P) \<and> unat (p_nVars P) \<le> length (p_pointsB1 P)
     \<and> unat (p_nVars P) \<le> length (p_pointsB2 P) \<and> unat (p_nVars P) - unat (p_nPublic P) - 1 \<le> length (p_pointsC P)
     \<and> 2 ^ L \<le> length (p_pointsH P) \<and> (\<forall>k\<in>set (take (unat (p_nCoefs P)) (p_coefs P)). fr_ok (coef_coef k))
     \<and> list_all G1_affine [p_alpha1 P, p_beta1 P, p_delta1 P] \<and> list_all G2_affine [p_beta2 P, p_delta2 P]
     \<and> list_all G1_affine (take (unat (p_nVars P)) (p_pointsA P)) \<and> list_all G1_affine (take (unat (p_nVars P)) (p_pointsB1 P))
     \<and> list_all G2_affine (take (unat (p_nVars P)) (p_pointsB2 P))
     \<and> list_all G1_affine (take (unat (p_nVars P) - unat (p_nPublic P) - 1) (p_pointsC P))
     \<and> list_all G1_affine (take (2 ^ L) (p_pointsH P))"

definition groth_A :: "prover \<Rightarrow> limbs list \<Rightarrow> nat \<Rightarrow> fq ec" where
  "groth_A P ws r = (let n = unat (p_nVars P) in
     ec_add 0 (ec_add 0 (lin_comb (aff_val fq_val) (take n ws) (take n (p_pointsA P))) (aff_val fq_val (p_alpha1 P)))
       (ec_mul 0 r (aff_val fq_val (p_delta1 P))))"

definition groth_B1 :: "prover \<Rightarrow> limbs list \<Rightarrow> nat \<Rightarrow> fq ec" where
  "groth_B1 P ws s = (let n = unat (p_nVars P) in
     ec_add 0 (ec_add 0 (lin_comb (aff_val fq_val) (take n ws) (take n (p_pointsB1 P))) (aff_val fq_val (p_beta1 P)))
       (ec_mul 0 s (aff_val fq_val (p_delta1 P))))"

definition groth_B2 :: "prover \<Rightarrow> limbs list \<Rightarrow> nat \<Rightarrow> fq2 ec" where
  "groth_B2 P ws s = (let n = unat (p_nVars P) in
     ec_add 0 (ec_add 0 (lin_comb (aff_val fq2_val) (take n ws) (take n (p_pointsB2 P))) (aff_val fq2_val (p_beta2 P)))
       (ec_mul 0 s (aff_val fq2_val (p_delta2 P))))"

definition groth_C :: "prover \<Rightarrow> limbs list \<Rightarrow> limbs list \<Rightarrow> nat \<Rightarrow> nat \<Rightarrow> fq ec" where
  "groth_C P ws h r s = (let n = unat (p_nVars P); l = unat (p_nPublic P) + 1; d = unat (p_domainSize P);
       x = lin_comb (aff_val fq_val) (take (n - l) (drop l ws)) (take (n - l) (p_pointsC P));
       y = lin_comb (aff_val fq_val) h (take d (p_pointsH P))
     in ec_add 0 (ec_add 0 (ec_add 0 (ec_add 0 x y) (ec_mul 0 s (groth_A P ws r))) (ec_mul 0 r (groth_B1 P ws s)))
       (ec_neg (ec_mul 0 (r * s mod Fr_prime) (aff_val fq_val (p_delta1 P)))))"

context gmp_laws begin

lemma g1_zero_a: "fq_val (RawFq_fromString G ''0'' 10) = 0"
  by (rule G1_strings(2))

lemma g1_aff_on: "G1_affine a \<Longrightarrow> g1.aff_on a"
  unfolding G1_affine_def g1.aff_on_def G1_strings(2,4) by simp

lemma g2_aff_on: "G2_affine a \<Longrightarrow> g2.aff_on a"
  unfolding G2_affine_def g2.aff_on_def g2_a g2_b by simp

lemma g1_on_aff: "g1.aff_on a \<Longrightarrow> G1_affine a"
  unfolding G1_affine_def g1.aff_on_def G1_strings(2,4) by simp

lemma g2_on_aff: "g2.aff_on a \<Longrightarrow> G2_affine a"
  unfolding G2_affine_def g2.aff_on_def g2_a g2_b by simp

text \<open>The product of the two random scalars, as a plain number.\<close>

lemma product_value:
  assumes "reduced Fr_prime r" and "reduced Fr_prime s"
  shows "reduced Fr_prime (rawToMontgomery Fr_consts G (F_mul (RawFr_ops G) r s))"
    and "lval (rawToMontgomery Fr_consts G (F_mul (RawFr_ops G) r s)) = lval r * lval s mod Fr_prime"
proof -
  let ?x = "F_mul (RawFr_ops G) r s" and ?t = "rawToMontgomery Fr_consts G (F_mul (RawFr_ops G) r s)"
  have m: "F_mul (RawFr_ops G) = rawMMul Fr_consts G" by (simp add: RawFr_ops_def RawF_ops_def)
  have "length r = 4" using assms(1) by (simp add: reduced_def)
  from fr_class.rawMMul_correct [OF this assms(2)]
  have x: "reduced Fr_prime ?x" "(mont_R * lval ?x) mod Fr_prime = (lval r * lval s) mod Fr_prime"
    by (simp_all add: m)
  then have "length ?x = 4" by (simp add: reduced_def)
  from fr_class.rawToMontgomery_correct [OF this] show "reduced Fr_prime ?t" "lval ?t = lval r * lval s mod Fr_prime"
    using x(2) by (simp_all add: mult.commute reduced_def)
qed

lemma assemble_value:
  assumes pts: "g1.point_on pa" "g1.point_on pb1" "g2.point_on pb" "g1.point_on pc" "g1.point_on ph"
    and key: "list_all G1_affine [p_alpha1 P, p_beta1 P, p_delta1 P]" "list_all G2_affine [p_beta2 P, p_delta2 P]"
    and r: "reduced Fr_prime r" and s: "reduced Fr_prime s"
  defines "A \<equiv> ec_add 0 (ec_add 0 (point_val fq_val pa) (aff_val fq_val (p_alpha1 P))) (ec_mul 0 (lval r) (aff_val fq_val (p_delta1 P)))"
    and "B1 \<equiv> ec_add 0 (ec_add 0 (point_val fq_val pb1) (aff_val fq_val (p_beta1 P))) (ec_mul 0 (lval s) (aff_val fq_val (p_delta1 P)))"
    and "B \<equiv> ec_add 0 (ec_add 0 (point_val fq2_val pb) (aff_val fq2_val (p_beta2 P))) (ec_mul 0 (lval s) (aff_val fq2_val (p_delta2 P)))"
    and "pr \<equiv> assemble G g1.C g2.C P pa pb1 pb pc ph r s"
  shows "G1_affine (proof_A pr) \<and> aff_val fq_val (proof_A pr) = A"
    and "G2_affine (proof_B pr) \<and> aff_val fq2_val (proof_B pr) = B"
    and "G1_affine (proof_C pr) \<and> aff_val fq_val (proof_C pr)
      = ec_add 0 (ec_add 0 (ec_add 0 (ec_add 0 (point_val fq_val pc) (point_val fq_val ph)) (ec_mul 0 (lval s) A)) (ec_mul 0 (lval r) B1))
          (ec_neg (ec_mul 0 (lval r * lval s mod Fr_prime) (aff_val fq_val (p_delta1 P))))"
proof -
  have k1: "g1.aff_on (p_alpha1 P)" "g1.aff_on (p_beta1 P)" "g1.aff_on (p_delta1 P)" using key(1) g1_aff_on by simp_all
  have k2: "g2.aff_on (p_beta2 P)" "g2.aff_on (p_delta2 P)" using key(2) g2_aff_on by simp_all
  have l: "length r = 4" "length s = 4" using r s by (simp_all add: reduced_def)
  define a where "a = Curve_addPP g1.C (Curve_addPA g1.C pa (p_alpha1 P)) (Curve_mulByScalarA g1.C (p_delta1 P) (limb_bytes r) 32)"
  define b where "b = Curve_addPP g2.C (Curve_addPA g2.C pb (p_beta2 P)) (Curve_mulByScalarA g2.C (p_delta2 P) (limb_bytes s) 32)"
  define b1 where "b1 = Curve_addPP g1.C (Curve_addPA g1.C pb1 (p_beta1 P)) (Curve_mulByScalarA g1.C (p_delta1 P) (limb_bytes s) 32)"
  note a = g1.blind_value [OF pts(1) k1(1,3) l(1), folded a_def, unfolded g1_zero_a, folded A_def]
  note b1 = g1.blind_value [OF pts(2) k1(2,3) l(2), folded b1_def, unfolded g1_zero_a, folded B1_def]
  note b = g2.blind_value [OF pts(3) k2(1,2) l(2), folded b_def, unfolded g2_a, folded B_def]
  define rs where "rs = rawToMontgomery Fr_consts G (F_mul (RawFr_ops G) r s)"
  note rs = product_value [OF r s, folded rs_def]
  have lrs: "length rs = 4" using rs(1) by (simp add: reduced_def)
  define c1 where "c1 = Curve_addPP g1.C pc ph"
  define c2 where "c2 = Curve_addPP g1.C c1 (Curve_mulByScalarP g1.C a (limb_bytes s) 32)"
  define c3 where "c3 = Curve_addPP g1.C c2 (Curve_mulByScalarP g1.C b1 (limb_bytes r) 32)"
  define c where "c = Curve_subPP g1.C c3 (Curve_mulByScalarA g1.C (p_delta1 P) (limb_bytes rs) 32)"
  note c1 = g1.addPP_on [OF pts(4,5), folded c1_def, unfolded g1_zero_a]
  note sa = g1.mulP_on [OF a(1) l(2), unfolded g1_zero_a a(2)] and rb = g1.mulP_on [OF b1(1) l(1), unfolded g1_zero_a b1(2)]
    and rsd = g1.mulA_on [OF k1(3) lrs, unfolded g1_zero_a rs(2)]
  note c2 = g1.addPP_on [OF c1(1) sa(1), folded c2_def, unfolded g1_zero_a c1(2) sa(2)]
  note c3 = g1.addPP_on [OF c2(1) rb(1), folded c3_def, unfolded g1_zero_a c2(2) rb(2)]
  note c = g1.subPP_on [OF c3(1) rsd(1), folded c_def, unfolded g1_zero_a c3(2) rsd(2)]
  have pr: "pr = \<lparr>proof_A = Curve_copyAP g1.C a, proof_B = Curve_copyAP g2.C b, proof_C = Curve_copyAP g1.C c\<rparr>"
    unfolding pr_def assemble_def Let_def a_def b_def b1_def rs_def c1_def c2_def c3_def c_def ..
  have nz: "fq_val (RawFq_fromString G ''3'' 10) \<noteq> 0" "fq2_val (the (F2_read G G2_b_string)) \<noteq> 0"
    unfolding G1_strings(4) g2_b by (rule fq_three_neq_0, rule G2_b_neq_0)
  show "G1_affine (proof_A pr) \<and> aff_val fq_val (proof_A pr) = A"
    using g1.copyAP_on [OF nz(1) a(1)] a(2) g1_on_aff by (simp add: pr)
  show "G2_affine (proof_B pr) \<and> aff_val fq2_val (proof_B pr) = B"
    using g2.copyAP_on [OF nz(2) b(1)] b(2) g2_on_aff by (simp add: pr)
  show "G1_affine (proof_C pr) \<and> aff_val fq_val (proof_C pr)
      = ec_add 0 (ec_add 0 (ec_add 0 (ec_add 0 (point_val fq_val pc) (point_val fq_val ph)) (ec_mul 0 (lval s) A)) (ec_mul 0 (lval r) B1))
          (ec_neg (ec_mul 0 (lval r * lval s mod Fr_prime) (aff_val fq_val (p_delta1 P))))"
    using g1.copyAP_on [OF nz(1) c(1)] c(2) g1_on_aff by (simp add: pr)
qed

end

subsection \<open>The whole prover\<close>

text \<open>
  What the array \<open>h\<close> holds: the row polynomials \<open>ca\<close>, \<open>cb\<close> take the values of the two halves of the
  constraint system at the roots of unity, \<open>cc\<close> takes their products, \<open>q\<close> is the quotient of
  \<open>ca cb - cc\<close> by the vanishing polynomial of the domain, and \<open>h\<close> holds \<open>-2 q\<close> on the coset.
\<close>

definition coset_quotient :: "prover \<Rightarrow> limbs list \<Rightarrow> nat \<Rightarrow> fr \<Rightarrow> limbs list \<Rightarrow> bool" where
  "coset_quotient P ws L w h \<longleftrightarrow>
     (let n = 2 ^ L; r = root_for (p_fft P) w L; g = root_for (p_fft P) w (Suc L); N = unat (p_nCoefs P); ks = p_coefs P in
      length h = n \<and> (\<exists>ca cb cc q.
        (\<forall>j<n. poly_at ca n (r ^ j) = row_sum True ks ws N j \<and> poly_at cb n (r ^ j) = row_sum False ks ws N j
          \<and> poly_at cc n (r ^ j) = row_sum True ks ws N j * row_sum False ks ws N j)
        \<and> (\<forall>x. poly_at ca n x * poly_at cb n x - poly_at cc n x = (x ^ n - 1) * poly_at q n x)
        \<and> (\<forall>p<n. lval (h ! p) < Fr_prime \<and> of_nat (lval (h ! p)) = -2 * poly_at q n (g * r ^ p))))"

lemma public_part:
  assumes "p_nPublic P < p_nVars P" and "unat (p_nVars P) < 2 ^ 27"
  shows "public_offset P = 32 * (unat (p_nPublic P) + 1)" and "private_count P = unat (p_nVars P) - unat (p_nPublic P) - 1"
proof -
  have lt: "unat (p_nPublic P) < unat (p_nVars P)" using assms(1) by (simp add: word_less_nat_alt)
  have s: "unat (p_nPublic P + 1) = unat (p_nPublic P) + 1"
  proof -
    have "unat (p_nPublic P) + 1 < 2 ^ 32" using lt assms(2) by simp
    then show ?thesis by (simp add: unat_word_ariths)
  qed
  have "unat (p_nPublic P) + 1 < 2 ^ 27" using lt assms(2) by linarith
  then show "public_offset P = 32 * (unat (p_nPublic P) + 1)"
    unfolding public_offset_def by (simp add: unat_word_ariths s)
  have e: "p_nVars P - p_nPublic P - 1 = p_nVars P - (p_nPublic P + 1)" by simp
  have "p_nPublic P + 1 \<le> p_nVars P" using lt s by (simp add: word_le_nat_alt)
  then show "private_count P = unat (p_nVars P) - unat (p_nPublic P) - 1"
    unfolding private_count_def e by (simp only: unat_sub s)
qed

context gmp_laws begin

lemma prove_value:
  assumes T: "tbb_laws T" "max_concurrency T < 32768" and Z: "fresh_ok fq_ok fq_val Z" "fresh_ok fq2_ok fq2_val Z2"
    and f: "\<And>k. length (fresh k) = k" and P: "prover_ok P L w"
    and ws: "coefs_in_bounds P (length ws)" "\<forall>x\<in>set ws. length x = 4" "unat (p_nVars P) \<le> length ws"
    and dev: "\<And>p. \<exists>k. lval (candidate device (p + 32 * k)) < Fr_prime"
  shows "\<exists>pr r s pos1 pos2 h. prove G g1.C g2.C Z Z2 T fresh device pos P ws = Inr pr
    \<and> sample_scalar G device pos = Some (r, pos1) \<and> sample_scalar G device pos1 = Some (s, pos2)
    \<and> lval r < Fr_prime \<and> lval s < Fr_prime \<and> coset_quotient P ws L w h
    \<and> G1_affine (proof_A pr) \<and> aff_val fq_val (proof_A pr) = groth_A P ws (lval r)
    \<and> G2_affine (proof_B pr) \<and> aff_val fq2_val (proof_B pr) = groth_B2 P ws (lval s)
    \<and> G1_affine (proof_C pr) \<and> aff_val fq_val (proof_C pr) = groth_C P ws h (lval r) (lval s)"
proof -
  let ?n = "unat (p_nVars P)" and ?l = "unat (p_nPublic P) + 1" and ?d = "unat (p_domainSize P)"
  have dom: "?d = 2 ^ L" and tabs: "fft_tables fr_ok fr_val (p_fft P) w" "Suc L \<le> fft_s (p_fft P)"
    and pub: "p_nPublic P < p_nVars P" "?n < 2 ^ 27"
    and lens: "?n \<le> length (p_pointsA P)" "?n \<le> length (p_pointsB1 P)" "?n \<le> length (p_pointsB2 P)"
      "?n - ?l \<le> length (p_pointsC P)" "?d \<le> length (p_pointsH P)"
    and ks: "\<forall>k\<in>set (take (unat (p_nCoefs P)) (p_coefs P)). fr_ok (coef_coef k)"
    and key: "list_all G1_affine [p_alpha1 P, p_beta1 P, p_delta1 P]" "list_all G2_affine [p_beta2 P, p_delta2 P]"
    and pts: "list_all G1_affine (take ?n (p_pointsA P))" "list_all G1_affine (take ?n (p_pointsB1 P))"
      "list_all G2_affine (take ?n (p_pointsB2 P))" "list_all G1_affine (take (?n - ?l) (p_pointsC P))"
      "list_all G1_affine (take ?d (p_pointsH P))"
    using P by (simp_all add: prover_ok_def)
  have on: "\<forall>b\<in>set (take ?n (p_pointsA P)). g1.aff_on b" "\<forall>b\<in>set (take ?n (p_pointsB1 P)). g1.aff_on b"
    "\<forall>b\<in>set (take ?n (p_pointsB2 P)). g2.aff_on b" "\<forall>b\<in>set (take (?n - ?l) (p_pointsC P)). g1.aff_on b"
    "\<forall>b\<in>set (take ?d (p_pointsH P)). g1.aff_on b"
    using pts g1_aff_on g2_aff_on unfolding list_all_iff by blast+
  have lt: "?l \<le> ?n" using pub(1) by (simp add: word_less_nat_alt)
  have n32: "?n < 4294967296" "?n - ?l < 4294967296" "?d < 4294967296"
    using pub(2) unsigned_less [of "p_domainSize P"] by simp_all
  have w0: "32 * 0 + ?n \<le> 32 * length ws" "0 + ?n \<le> length ws" "?l + (?n - ?l) \<le> length ws" using ws(3) lt by simp_all
  obtain pa where pa: "multiexp_at g1.C Z T (p_pointsA P) ws (32 * 0) ?n = Inr pa" "g1.point_on pa"
    "point_val fq_val pa = lin_comb (aff_val fq_val) (take ?n (drop 0 ws)) (take ?n (p_pointsA P))"
    using g1.multiexp_at_value [OF g1_zero_a T Z(1) lens(1) on(1) ws(2) w0(2) n32(1)] by blast
  obtain pb1 where pb1: "multiexp_at g1.C Z T (p_pointsB1 P) ws (32 * 0) ?n = Inr pb1" "g1.point_on pb1"
    "point_val fq_val pb1 = lin_comb (aff_val fq_val) (take ?n (drop 0 ws)) (take ?n (p_pointsB1 P))"
    using g1.multiexp_at_value [OF g1_zero_a T Z(1) lens(2) on(2) ws(2) w0(2) n32(1)] by blast
  obtain pb where pb: "multiexp_at g2.C Z2 T (p_pointsB2 P) ws (32 * 0) ?n = Inr pb" "g2.point_on pb"
    "point_val fq2_val pb = lin_comb (aff_val fq2_val) (take ?n (drop 0 ws)) (take ?n (p_pointsB2 P))"
    using g2.multiexp_at_value [OF g2_a T Z(2) lens(3) on(3) ws(2) w0(2) n32(1)] by blast
  obtain pc where pc: "multiexp_at g1.C Z T (p_pointsC P) ws (32 * ?l) (?n - ?l) = Inr pc" "g1.point_on pc"
    "point_val fq_val pc = lin_comb (aff_val fq_val) (take (?n - ?l) (drop ?l ws)) (take (?n - ?l) (p_pointsC P))"
    using g1.multiexp_at_value [OF g1_zero_a T Z(1) lens(4) on(4) ws(2) w0(3) n32(2)] by blast
  obtain h where h: "compute_h G T fresh P ws = Inr h" "length h = 2 ^ L" "\<forall>p<2 ^ L. reduced Fr_prime (h ! p)" "coset_quotient P ws L w h"
    using compute_h_value [OF T(1) tabs dom f ws(1,2) ks] unfolding coset_quotient_def Let_def reduced_def by blast
  have hl: "\<forall>x\<in>set h. length x = 4" "0 + ?d \<le> length h" using h(2,3) dom by (auto simp: in_set_conv_nth reduced_def)
  have th: "take ?d (drop 0 h) = h" using h(2) dom by simp
  obtain ph where ph: "multiexp_at g1.C Z T (p_pointsH P) h (32 * 0) ?d = Inr ph" "g1.point_on ph"
    "point_val fq_val ph = lin_comb (aff_val fq_val) h (take ?d (p_pointsH P))"
    using g1.multiexp_at_value [OF g1_zero_a T Z(1) lens(5) on(5) hl n32(3)] unfolding th by blast
  obtain r pos1 where r: "sample_scalar G device pos = Some (r, pos1)" "reduced Fr_prime r"
    using sample_value [OF gmp_laws_axioms, of device pos] dev [of pos] by (auto split: option.splits simp: not_le [symmetric])
  obtain s pos2 where s: "sample_scalar G device pos1 = Some (s, pos2)" "reduced Fr_prime s"
    using sample_value [OF gmp_laws_axioms, of device pos1] dev [of pos1] by (auto split: option.splits simp: not_le [symmetric])
  define pr where "pr = assemble G g1.C g2.C P pa pb1 pb pc ph r s"
  have "prove G g1.C g2.C Z Z2 T fresh device pos P ws = Inr pr"
    unfolding prove_def Let_def public_part [OF pub] using pa(1) pb1(1) pb(1) pc(1) h(1) ph(1) r(1) s(1)
    by (simp add: pr_def)
  moreover note assemble_value [OF pa(2) pb1(2) pb(2) pc(2) ph(2) key r(2) s(2), folded pr_def, unfolded pa(3) pb1(3) pb(3) pc(3) ph(3) drop_0]
  ultimately have "prove G g1.C g2.C Z Z2 T fresh device pos P ws = Inr pr
    \<and> sample_scalar G device pos = Some (r, pos1) \<and> sample_scalar G device pos1 = Some (s, pos2)
    \<and> lval r < Fr_prime \<and> lval s < Fr_prime
    \<and> coset_quotient P ws L w h
    \<and> G1_affine (proof_A pr) \<and> aff_val fq_val (proof_A pr) = groth_A P ws (lval r)
    \<and> G2_affine (proof_B pr) \<and> aff_val fq2_val (proof_B pr) = groth_B2 P ws (lval s)
    \<and> G1_affine (proof_C pr) \<and> aff_val fq_val (proof_C pr) = groth_C P ws h (lval r) (lval s)"
    using r s h(4) unfolding reduced_def groth_A_def groth_B1_def groth_B2_def groth_C_def Let_def by blast
  then show ?thesis by blast
qed

end

text \<open>The same over any curves that the engine has built.\<close>

lemma prove_with_curves:
  assumes "gmp_laws G" and "G1 G = Some C1" and "G2 G = Some C2" and "tbb_laws T" and "max_concurrency T < 32768"
    and "fresh_ok fq_ok fq_val Z" and "fresh_ok fq2_ok fq2_val Z2" and "\<And>k. length (fresh k) = k"
    and "prover_ok P L w" and "coefs_in_bounds P (length ws)" and "\<forall>x\<in>set ws. length x = 4"
    and "unat (p_nVars P) \<le> length ws" and "\<And>p. \<exists>k. lval (candidate device (p + 32 * k)) < Fr_prime"
  shows "\<exists>pr r s pos1 pos2 h. prove G C1 C2 Z Z2 T fresh device pos P ws = Inr pr
    \<and> sample_scalar G device pos = Some (r, pos1) \<and> sample_scalar G device pos1 = Some (s, pos2)
    \<and> lval r < Fr_prime \<and> lval s < Fr_prime \<and> coset_quotient P ws L w h
    \<and> G1_affine (proof_A pr) \<and> aff_val fq_val (proof_A pr) = groth_A P ws (lval r)
    \<and> G2_affine (proof_B pr) \<and> aff_val fq2_val (proof_B pr) = groth_B2 P ws (lval s)
    \<and> G1_affine (proof_C pr) \<and> aff_val fq_val (proof_C pr) = groth_C P ws h (lval r) (lval s)"
proof -
  have C: "C1 = Curve_initCurve (RawFq_ops G) (RawFq_fromString G ''0'' 10) (RawFq_fromString G ''3'' 10)
      (RawFq_fromString G ''1'' 10) (RawFq_fromString G ''2'' 10)"
    "C2 = Curve_initCurve (F2_ops (F2q G)) (the (F2_read G ''0,0'')) (the (F2_read G G2_b_string))
      (the (F2_read G G2_x_string)) (the (F2_read G G2_y_string))"
    using gmp_laws.G1_eq [OF assms(1)] gmp_laws.G2_eq [OF assms(1)] assms(2,3) by (simp_all only: option.inject)
  show ?thesis unfolding C by (rule gmp_laws.prove_value [OF assms(1,4-13)])
qed

subsection \<open>A small key\<close>

definition sample_prover :: "limbs affine \<Rightarrow> limbs f2_element affine \<Rightarrow> limbs fft_state \<Rightarrow> prover" where
  "sample_prover g g2 R = \<lparr>p_nVars = 2, p_nPublic = 0, p_domainSize = 2, p_nCoefs = 2,
     p_alpha1 = g, p_beta1 = g, p_beta2 = g2, p_delta1 = g, p_delta2 = g2,
     p_coefs = [\<lparr>coef_m = 0, coef_c = 0, coef_s = 1, coef_coef = [5, 0, 0, 0]\<rparr>,
       \<lparr>coef_m = 1, coef_c = 0, coef_s = 0, coef_coef = [7, 0, 0, 0]\<rparr>],
     p_pointsA = [g, g], p_pointsB1 = [g, g], p_pointsB2 = [g2, g2], p_pointsC = [g], p_pointsH = [g, g], p_fft = R\<rparr>"

lemma sample_prover_ok:
  assumes "fft_tables fr_ok fr_val R w" and "2 \<le> fft_s R" and "G1_affine g" and "G2_affine g2"
  shows "prover_ok (sample_prover g g2 R) 1 w" and "coefs_in_bounds (sample_prover g g2 R) 2"
proof -
  have "fr_ok [5, 0, 0, 0]" "fr_ok [7, 0, 0, 0]" by (simp_all add: fr_ok_def reduced_def)
  then show "prover_ok (sample_prover g g2 R) 1 w"
    using assms by (simp add: prover_ok_def sample_prover_def numeral_2_eq_2 [symmetric])
  show "coefs_in_bounds (sample_prover g g2 R) 2" by (simp add: coefs_in_bounds_def sample_prover_def)
qed

lemma ref_generators:
  "G1_affine (c_foneAffine (the (G1 ref_gmp)))" "G2_affine (c_fzeroAffine (the (G2 ref_gmp)))"
proof -
  have "ec_on 0 3 (aff_val fq_val (c_foneAffine ref.g1.C))" unfolding ref.g1_generator(4) by simp
  then show "G1_affine (c_foneAffine (the (G1 ref_gmp)))" by (simp add: G1_affine_def ref_G1 ref.g1_generator(3))
  show "G2_affine (c_fzeroAffine (the (G2 ref_gmp)))" unfolding ref_G2 option.sel G2_affine_def
    by (simp add: Curve_initCurve_def Let_def aff_ok_def aff_val_def field_code)
qed

lemma ref_memories:
  "fresh_ok fq_ok fq_val (zero_memory [0, 0, 0, 0])"
  "fresh_ok fq2_ok fq2_val (zero_memory (f2 [0, 0, 0, 0] [0, 0, 0, 0]))"
proof -
  have "fq_ok [0, 0, 0, 0]" "fq_val [0, 0, 0, 0] = 0" by (simp_all add: fq_ok_def fq_val_def reduced_def mval_def)
  then show "fresh_ok fq_ok fq_val (zero_memory [0, 0, 0, 0])"
    "fresh_ok fq2_ok fq2_val (zero_memory (f2 [0, 0, 0, 0] [0, 0, 0, 0]))"
    by (simp_all add: fresh_ok_def zero_memory_def fq2_ok_def fq2_val_def zero_fq2_def)
qed

lemma bval_ones: "bval (replicate n 1) = (256 ^ n - 1) div 255"
proof -
  have "255 * bval (replicate n 1) + 1 = 256 ^ n" by (induction n) simp_all
  then show ?thesis by linarith
qed

lemma limbs_of_4: "limbs_of 4 v = [word_of_nat v, word_of_nat (v div limb_base),
    word_of_nat (v div limb_base div limb_base), word_of_nat (v div limb_base div limb_base div limb_base)]"
proof -
  have "(4 :: nat) = Suc (Suc (Suc (Suc 0)))" by simp
  then show ?thesis by (simp only: limbs_of.simps)
qed

lemma ones_candidate: "candidate (\<lambda>_. 1) pos = [0x0101010101010101, 0x0101010101010101, 0x0101010101010101, 0x0101010101010101]"
proof -
  have "map (\<lambda>i. 1 :: u8) [0..<32] = replicate 32 1" by (simp add: map_replicate_const)
  then have "element_of_bytes (map (\<lambda>i. 1) [0..<32]) = limbs_of 4 ((256 ^ 32 - 1) div 255)"
    by (simp only: element_of_bytes_def take_replicate min.idem bval_ones)
  then have "element_of_bytes (map (\<lambda>i. 1) [0..<32])
      = [0x0101010101010101, 0x0101010101010101, 0x0101010101010101, 0x0101010101010101]"
    unfolding limbs_of_4 by simp
  then show ?thesis by (simp add: candidate_def Let_def randombytes_buf_def)
qed

lemma ones_device: "lval (candidate (\<lambda>_. 1) pos) < Fr_prime"
  unfolding ones_candidate by simp

subsection \<open>Properties\<close>

text \<open>
  C22. The rejection loop returns the first block of 32 random bytes whose 254 low bits are below the
  modulus, and moves the device past it; it returns if and only if the device ever gives such a block.
\<close>

theorem random_scalar_first:
  assumes "gmp_laws G"
  shows "(\<exists>k. lval (candidate device (pos + 32 * k)) < Fr_prime) = (sample_scalar G device pos \<noteq> None)
    \<and> (\<forall>r pos'. sample_scalar G device pos = Some (r, pos') \<longrightarrow>
        (\<exists>k. r = candidate device (pos + 32 * k) \<and> pos' = pos + 32 * (k + 1) \<and> lval r < Fr_prime
          \<and> (\<forall>j<k. Fr_prime \<le> lval (candidate device (pos + 32 * j)))))"
  using sample_value [OF assms, of device pos] sample_some [OF assms, of device pos]
  by (auto simp: reduced_def not_less [symmetric] split: option.splits)

theorem random_scalar_first_witness:
  "sample_scalar ref_gmp (\<lambda>i. if i < 32 then 255 else 1) 0
    = Some ([0x0101010101010101, 0x0101010101010101, 0x0101010101010101, 0x0101010101010101], 64)"
proof -
  let ?d = "\<lambda>i. if i < 32 then 255 else 1 :: u8"
  let ?o = "[0x0101010101010101, 0x0101010101010101, 0x0101010101010101, 0x0101010101010101] :: limbs"
  have late: "candidate ?d (0 + 32 * k) = ?o" if "k \<noteq> 0" for k
  proof -
    have e: "map (\<lambda>i. ?d (0 + 32 * k + i)) [0..<32] = map (\<lambda>i. (\<lambda>_. 1) (0 + i)) [0..<32]" using that by (intro map_cong) auto
    have "candidate ?d (0 + 32 * k) = candidate (\<lambda>_. 1) 0" unfolding candidate_def randombytes_buf_def e fst_conv ..
    then show ?thesis unfolding ones_candidate .
  qed
  have "map ?d [0..<32] = replicate 32 255" by (intro nth_equalityI) simp_all
  moreover have "bval (replicate 32 255) = 256 ^ 32 - 1"
  proof -
    have "bval (replicate n 255) + 1 = 256 ^ n" for n by (induction n) simp_all
    from this [of 32] show ?thesis by linarith
  qed
  ultimately have "candidate ?d 0 = [0xFFFFFFFFFFFFFFFF, 0xFFFFFFFFFFFFFFFF, 0xFFFFFFFFFFFFFFFF, 0x3FFFFFFFFFFFFFFF]"
    by (simp add: candidate_def Let_def randombytes_buf_def element_of_bytes_def limbs_of_4)
  then have early: "Fr_prime \<le> lval (candidate ?d 0)" by simp
  have o: "lval ?o < Fr_prime" by simp
  then have "\<exists>k. lval (candidate ?d (0 + 32 * k)) < Fr_prime" using late [of 1] by (intro exI [of _ 1]) simp
  then obtain r pos' k where s: "sample_scalar ref_gmp ?d 0 = Some (r, pos')" "r = candidate ?d (0 + 32 * k)"
    "pos' = 0 + 32 * (k + 1)" "lval r < Fr_prime" "\<And>j. j < k \<Longrightarrow> Fr_prime \<le> lval (candidate ?d (0 + 32 * j))"
    using random_scalar_first [OF ref_gmp_laws, of ?d 0] by (metis not_None_eq old.prod.exhaust)
  have "k \<noteq> 0" using s(2,4) early by (cases k) simp_all
  moreover have "\<not> 1 < k" using s(5) [of 1] late [of 1] o by auto
  ultimately have "k = 1" by simp
  then show ?thesis using s(1-3) late [of 1] by simp
qed

text \<open>
  C2. The whole prover: for a key of a domain of \<open>2 ^ L\<close> rows and any witness, \<open>prove\<close> returns a proof,
  for every schedule of its parallel loops on less than \<open>2 ^ 15\<close> threads and every content of its fresh
  memory, whose elements are the blinded linear combinations of the protocol in two scalars: \<open>r\<close> is the
  one that \<open>sample_scalar\<close> gives at the position of the device, \<open>s\<close> the one it gives at the position the first
  call leaves. \<open>A\<close> and \<open>B\<close> are over all variables, \<open>C\<close> over the private ones and over an array \<open>h\<close> that holds the quotient polynomial of
  the constraint system on the coset, times \<open>-2\<close>. The witness need not satisfy the constraints, its
  values need not be reduced, and no array is read behind its end.
\<close>

theorem prove_computes_proof:
  assumes "gmp_laws G" and "G1 G = Some C1" and "G2 G = Some C2" and "tbb_laws T" and "max_concurrency T < 32768"
    and "fresh_ok fq_ok fq_val Z" and "fresh_ok fq2_ok fq2_val Z2" and "\<And>k. length (fresh k) = k"
    and "prover_ok P L w" and "coefs_in_bounds P (length ws)" and "\<forall>x\<in>set ws. length x = 4"
    and "unat (p_nVars P) \<le> length ws" and "\<And>p. \<exists>k. lval (candidate device (p + 32 * k)) < Fr_prime"
  shows "\<exists>pr r s pos1 pos2 h. prove G C1 C2 Z Z2 T fresh device pos P ws = Inr pr
    \<and> sample_scalar G device pos = Some (r, pos1) \<and> sample_scalar G device pos1 = Some (s, pos2)
    \<and> lval r < Fr_prime \<and> lval s < Fr_prime \<and> coset_quotient P ws L w h
    \<and> G1_affine (proof_A pr) \<and> aff_val fq_val (proof_A pr) = groth_A P ws (lval r)
    \<and> G2_affine (proof_B pr) \<and> aff_val fq2_val (proof_B pr) = groth_B2 P ws (lval s)
    \<and> G1_affine (proof_C pr) \<and> aff_val fq_val (proof_C pr) = groth_C P ws h (lval r) (lval s)"
  by (rule prove_with_curves [OF assms])

theorem prove_computes_proof_witness:
  "\<exists>R pr r s pos1 pos2. FFT_new ref_gmp (RawFr_ops ref_gmp) (RawFr_numbers ref_gmp) (round_robin 3) [0, 0, 0, 0] 4 = Inr R
    \<and> prove ref_gmp (the (G1 ref_gmp)) (the (G2 ref_gmp)) (zero_memory [0, 0, 0, 0])
      (zero_memory (f2 [0, 0, 0, 0] [0, 0, 0, 0])) (round_robin 3) (\<lambda>k. replicate k [0, 0, 0, 0]) (\<lambda>_. 1) 0
      (sample_prover (c_foneAffine (the (G1 ref_gmp))) (c_fzeroAffine (the (G2 ref_gmp))) R)
      [[1, 0, 0, 0], [3, 0, 0, 0]] = Inr pr
    \<and> sample_scalar ref_gmp (\<lambda>_. 1) 0 = Some (r, pos1) \<and> sample_scalar ref_gmp (\<lambda>_. 1) pos1 = Some (s, pos2)
    \<and> aff_val fq_val (proof_A pr) = ec_add 0 (ec_add 0 (lin_comb (aff_val fq_val) [[1, 0, 0, 0], [3, 0, 0, 0]]
        [c_foneAffine (the (G1 ref_gmp)), c_foneAffine (the (G1 ref_gmp))]) (Aff 1 2)) (ec_mul 0 (lval r) (Aff 1 2))
    \<and> aff_val fq2_val (proof_B pr) = groth_B2
      (sample_prover (c_foneAffine (the (G1 ref_gmp))) (c_fzeroAffine (the (G2 ref_gmp))) R) [[1, 0, 0, 0], [3, 0, 0, 0]] (lval s)"
proof -
  obtain R w where R: "FFT_new ref_gmp (RawFr_ops ref_gmp) (RawFr_numbers ref_gmp) (round_robin 3) [0, 0, 0, 0] 4 = Inr R"
    "fft_tables fr_ok fr_val R w" "fft_s R = 2"
    using fr_tables [OF ref_gmp_laws round_robin_laws [of 3], of 2 4 "[0, 0, 0, 0]"] by auto
  let ?g = "c_foneAffine (the (G1 ref_gmp))" and ?ws = "[[1, 0, 0, 0], [3, 0, 0, 0]] :: limbs list"
  let ?P = "sample_prover ?g (c_fzeroAffine (the (G2 ref_gmp))) R"
  have P: "prover_ok ?P 1 w" "coefs_in_bounds ?P (length ?ws)"
    using sample_prover_ok [OF R(2) _ ref_generators] by (simp_all add: R(3) numeral_2_eq_2)
  have G: "G1 ref_gmp = Some (the (G1 ref_gmp))" "G2 ref_gmp = Some (the (G2 ref_gmp))"
    unfolding ref_G1 ref_G2 option.sel by (rule refl)+
  have ws: "\<forall>x\<in>set ?ws. length x = 4" "unat (p_nVars ?P) \<le> length ?ws" by (simp_all add: sample_prover_def)
  have d: "\<exists>k. lval (candidate (\<lambda>_. 1) (p + 32 * k)) < Fr_prime" for p using ones_device by blast
  have A: "groth_A ?P ?ws r = ec_add 0 (ec_add 0 (lin_comb (aff_val fq_val) ?ws [?g, ?g]) (Aff 1 2)) (ec_mul 0 r (Aff 1 2))" for r
  proof -
    have "aff_val fq_val ?g = Aff 1 2" unfolding ref_G1 option.sel by (rule ref.g1_generator(4))
    then show ?thesis by (simp add: groth_A_def sample_prover_def)
  qed
  have f: "length (replicate k [0, 0, 0, 0]) = k" for k :: nat by simp
  have thr: "max_concurrency (round_robin 3) < 32768" by (simp add: round_robin_def)
  show ?thesis
    using prove_computes_proof [OF ref_gmp_laws G round_robin_laws [of 3] thr ref_memories f P ws d, of 0] R(1)
    unfolding A by blast
qed

end
