(* ===== verification/Key_Files.thy ===== *)
theory Key_Files
  imports Full_Prover Section_Files Bn254_Groth16
begin

section \<open>Keys and witnesses as files\<close>

text \<open>
  The format of keys and witnesses as encoders of the prover's data and of a witness, and the loader
  of \<open>Full_Prover\<close> against them: which prover a key file gives.
\<close>

subsection \<open>Elements as bytes\<close>

definition G1_bytes :: "limbs affine \<Rightarrow> u8 list" where
  "G1_bytes a = limb_bytes (ax a) @ limb_bytes (ay a)"

definition G2_bytes :: "limbs f2_element affine \<Rightarrow> u8 list" where
  "G2_bytes a = limb_bytes (f2a (ax a)) @ limb_bytes (f2b (ax a)) @ limb_bytes (f2a (ay a)) @ limb_bytes (f2b (ay a))"

definition coef_bytes :: "coef \<Rightarrow> u8 list" where
  "coef_bytes k = bytes_of 4 (unat (coef_m k)) @ bytes_of 4 (unat (coef_c k)) @ bytes_of 4 (unat (coef_s k)) @ limb_bytes (coef_coef k)"

definition decodes :: "(u8 list \<Rightarrow> 'a) \<Rightarrow> ('a \<Rightarrow> u8 list) \<Rightarrow> nat \<Rightarrow> 'a \<Rightarrow> bool" where
  "decodes f enc k x \<longleftrightarrow> length (enc x) = k \<and> (\<forall>rest. f (enc x @ rest) = x)"

lemma element_decodes: "length x = 4 \<Longrightarrow> decodes element_of_bytes limb_bytes 32 x"
  by (simp add: decodes_def element_of_limb_bytes)

lemma u32_of_bytes_of: "u32_of_bytes (bytes_of 4 (unat (n :: u32)) @ rest) = n"
proof -
  have "unat n < 256 ^ 4" using unsigned_less [of n] by simp
  then show ?thesis by (simp add: u32_of_bytes_def bval_bytes_of)
qed

lemma coef_decodes:
  assumes "length (coef_coef k) = 4"
  shows "decodes coef_of_bytes coef_bytes 44 k"
  using assms by (simp add: decodes_def coef_of_bytes_def coef_bytes_def u32_of_bytes_of element_of_limb_bytes)

lemma affine_eta: "aff (ax a) (ay a) = a" "f2 (f2a c) (f2b c) = c"
  by simp_all

lemma G1_lengths: "G1_affine a \<Longrightarrow> length (ax a) = 4 \<and> length (ay a) = 4"
  by (simp add: G1_affine_def aff_ok_def fq_ok_def reduced_def)

lemma G2_lengths: "G2_affine a \<Longrightarrow> length (f2a (ax a)) = 4 \<and> length (f2b (ax a)) = 4 \<and> length (f2a (ay a)) = 4 \<and> length (f2b (ay a)) = 4"
  by (simp add: G2_affine_def aff_ok_def fq2_ok_def fq_ok_def reduced_def)

lemma G1_decodes: "G1_affine a \<Longrightarrow> decodes G1_of_bytes G1_bytes 64 a"
  using G1_lengths [of a] by (simp add: decodes_def G1_of_bytes_def G1_bytes_def element_of_limb_bytes affine_eta)

lemma G2_decodes: "G2_affine a \<Longrightarrow> decodes G2_of_bytes G2_bytes 128 a"
  using G2_lengths [of a] by (simp add: decodes_def G2_of_bytes_def G2_bytes_def element_of_limb_bytes affine_eta)

subsection \<open>Arrays in the mapping\<close>

lemma holds_drop: "holds_at data p bs \<Longrightarrow> drop (unat p) data = bs @ drop (unat p + length bs) data"
  by (metis append_take_drop_id drop_drop holds_at_def add.commute)

lemma decodes_at: "holds_at data p (enc x) \<Longrightarrow> decodes f enc k x \<Longrightarrow> f (drop (unat p) data) = x"
  by (simp add: holds_drop decodes_def)

lemma array_at_encoded:
  assumes dec: "\<forall>x\<in>set xs. decodes f enc k x" and k: "0 < k" and d: "drop p mem = concat (map enc xs) @ rest"
  shows "\<exists>js. array_at f k mem p = xs @ js"
proof -
  have len: "length (concat (map enc ys)) = length ys * k" if "\<forall>x\<in>set ys. decodes f enc k x" for ys
    using that by (induction ys) (simp_all add: decodes_def)
  have "length mem - p = length xs * k + length rest" using arg_cong [OF d, of length] len [OF dec] by simp
  then have n: "length xs \<le> (length mem - p) div k" using k by (simp add: less_eq_div_iff_mult_less_eq)
  have "f (drop (p + i * k) mem) = xs ! i" if i: "i < length xs" for i
  proof -
    have "concat (map enc xs) = concat (map enc (take i xs)) @ enc (xs ! i) @ concat (map enc (drop (Suc i) xs))"
      by (metis append_take_drop_id concat_append Cons_nth_drop_Suc [OF i] list.simps(9) map_append concat.simps(2))
    moreover have "length (concat (map enc (take i xs))) = i * k"
      using len [of "take i xs"] dec i by (metis in_set_takeD length_take min.absorb4)
    ultimately have "drop (i * k) (drop p mem) = enc (xs ! i) @ concat (map enc (drop (Suc i) xs)) @ rest" unfolding d by simp
    then show ?thesis using dec i by (simp add: add.commute decodes_def)
  qed
  then have "take (length xs) (array_at f k mem p) = xs"
    using n by (intro nth_equalityI) (simp_all add: array_at_def)
  then show ?thesis by (metis append_take_drop_id)
qed

lemma array_at_holds:
  assumes "\<forall>x\<in>set xs. decodes f enc k x" and "0 < k" and "holds_at data p (concat (map enc xs))"
  shows "\<exists>js. array_at f k data (unat p) = xs @ js"
  using array_at_encoded [OF assms(1,2) holds_drop [OF assms(3)]] .

subsection \<open>The key file\<close>

text \<open>A key over BN254: the arrays have exactly the lengths that the counts claim.\<close>

definition key_ok :: "prover \<Rightarrow> nat \<Rightarrow> bool" where
  "key_ok P L \<longleftrightarrow> unat (p_domainSize P) = 2 ^ L \<and> L < 28 \<and> p_nPublic P < p_nVars P \<and> unat (p_nVars P) < 2 ^ 27
     \<and> length (p_coefs P) = unat (p_nCoefs P) \<and> length (p_pointsA P) = unat (p_nVars P)
     \<and> length (p_pointsB1 P) = unat (p_nVars P) \<and> length (p_pointsB2 P) = unat (p_nVars P)
     \<and> length (p_pointsC P) = unat (p_nVars P) - unat (p_nPublic P) - 1 \<and> length (p_pointsH P) = 2 ^ L
     \<and> list_all (\<lambda>k. fr_ok (coef_coef k)) (p_coefs P)
     \<and> list_all G1_affine [p_alpha1 P, p_beta1 P, p_delta1 P] \<and> list_all G2_affine [p_beta2 P, p_delta2 P]
     \<and> list_all G1_affine (p_pointsA P) \<and> list_all G1_affine (p_pointsB1 P) \<and> list_all G2_affine (p_pointsB2 P)
     \<and> list_all G1_affine (p_pointsC P) \<and> list_all G1_affine (p_pointsH P)"

definition encode_key :: "prover \<Rightarrow> u8 list \<Rightarrow> (u32 \<times> u8 list) list" where
  "encode_key P gamma2 = [
     (1, bytes_of 4 1),
     (2, encode_zkey_header (bytes_of 32 Fq_prime) (bytes_of 32 Fr_prime) (unat (p_nVars P)) (unat (p_nPublic P))
       (unat (p_domainSize P)) (G1_bytes (p_alpha1 P)) (G1_bytes (p_beta1 P)) (G2_bytes (p_beta2 P)) gamma2
       (G1_bytes (p_delta1 P)) (G2_bytes (p_delta2 P))),
     (4, bytes_of 4 (length (p_coefs P)) @ concat (map coef_bytes (p_coefs P))),
     (5, concat (map G1_bytes (p_pointsA P))), (6, concat (map G1_bytes (p_pointsB1 P))),
     (7, concat (map G2_bytes (p_pointsB2 P))), (8, concat (map G1_bytes (p_pointsC P))),
     (9, concat (map G1_bytes (p_pointsH P)))]"

definition encode_witness :: "limbs list \<Rightarrow> (u32 \<times> u8 list) list" where
  "encode_witness ws = [(1, encode_wtns_header (bytes_of 32 Fr_prime) (length ws)), (2, wtns_bytes ws)]"

text \<open>The first section of each identifier counts; their order and further sections do not matter.\<close>

definition provides :: "(u32 \<times> u8 list) list \<Rightarrow> (u32 \<times> u8 list) list \<Rightarrow> bool" where
  "provides secs fs \<longleftrightarrow> list_all (\<lambda>(sid, c). take 1 (contents sid secs) = [c]) fs"

lemma providesD: "provides secs fs \<Longrightarrow> (sid, c) \<in> set fs \<Longrightarrow> \<exists>cs. contents sid secs = c # cs"
  by (cases "contents sid secs") (auto simp: provides_def list_all_iff)

text \<open>What the loader makes of it: the same data, with whatever lies behind the arrays in the mapping.\<close>

definition loaded ::
    "prover \<Rightarrow> coef list \<Rightarrow> limbs affine list \<Rightarrow> limbs affine list \<Rightarrow> limbs f2_element affine list \<Rightarrow> limbs affine list \<Rightarrow>
     limbs affine list \<Rightarrow> limbs fft_state \<Rightarrow> prover" where
  "loaded P ks as b1s b2s cs hs R = P\<lparr>p_coefs := p_coefs P @ ks, p_pointsA := p_pointsA P @ as, p_pointsB1 := p_pointsB1 P @ b1s,
     p_pointsB2 := p_pointsB2 P @ b2s, p_pointsC := p_pointsC P @ cs, p_pointsH := p_pointsH P @ hs, p_fft := R\<rparr>"

lemma loaded_ok:
  assumes "key_ok P L" and "fft_tables fr_ok fr_val R w" and "fft_s R = L + 1"
  shows "prover_ok (loaded P ks as b1s b2s cs hs R) L w"
  using assms by (simp add: key_ok_def prover_ok_def loaded_def list_all_iff)

lemma loaded_bounds:
  assumes "key_ok P L" and "coefs_in_bounds P (length ws)"
  shows "coefs_in_bounds (loaded P ks as b1s b2s cs hs R) (length (ws @ js))"
  using assms by (auto simp: coefs_in_bounds_def loaded_def key_ok_def list_all_iff)

lemma loaded_groth:
  assumes k: "key_ok P L" and ws: "unat (p_nVars P) \<le> length ws"
  shows "groth_A (loaded P ks as b1s b2s cs hs R) (ws @ js) r = groth_A P ws r"
    and "groth_B1 (loaded P ks as b1s b2s cs hs R) (ws @ js) s = groth_B1 P ws s"
    and "groth_B2 (loaded P ks as b1s b2s cs hs R) (ws @ js) s = groth_B2 P ws s"
    and "groth_C (loaded P ks as b1s b2s cs hs R) (ws @ js) h r s = groth_C P ws h r s"
proof -
  have l: "unat (p_nPublic P) < unat (p_nVars P)" using k by (simp add: key_ok_def word_less_nat_alt)
  then have d: "take (unat (p_nVars P) - (unat (p_nPublic P) + 1)) (drop (unat (p_nPublic P) + 1) (ws @ js))
      = take (unat (p_nVars P) - (unat (p_nPublic P) + 1)) (drop (unat (p_nPublic P) + 1) ws)"
    using ws by simp
  show A: "groth_A (loaded P ks as b1s b2s cs hs R) (ws @ js) r = groth_A P ws r"
    using k ws by (simp add: groth_A_def loaded_def key_ok_def)
  show B: "groth_B1 (loaded P ks as b1s b2s cs hs R) (ws @ js) s = groth_B1 P ws s"
    using k ws by (simp add: groth_B1_def loaded_def key_ok_def)
  show "groth_B2 (loaded P ks as b1s b2s cs hs R) (ws @ js) s = groth_B2 P ws s"
    using k ws by (simp add: groth_B2_def loaded_def key_ok_def)
  have s: "p_nVars (loaded P ks as b1s b2s cs hs R) = p_nVars P" "p_nPublic (loaded P ks as b1s b2s cs hs R) = p_nPublic P"
    "p_domainSize (loaded P ks as b1s b2s cs hs R) = p_domainSize P" "p_delta1 (loaded P ks as b1s b2s cs hs R) = p_delta1 P"
    "p_pointsC (loaded P ks as b1s b2s cs hs R) = p_pointsC P @ cs" "p_pointsH (loaded P ks as b1s b2s cs hs R) = p_pointsH P @ hs"
    by (simp_all add: loaded_def)
  have c: "length (p_pointsC P) = unat (p_nVars P) - (unat (p_nPublic P) + 1)" "length (p_pointsH P) = unat (p_domainSize P)"
    using k by (simp_all add: key_ok_def)
  show "groth_C (loaded P ks as b1s b2s cs hs R) (ws @ js) h r s = groth_C P ws h r s"
    unfolding groth_C_def Let_def A B s d using c by simp
qed

lemma loaded_row:
  assumes k: "key_ok P L" and b: "coefs_in_bounds P (length ws)"
  shows "row_sum first (p_coefs (loaded P ks as b1s b2s cs hs R)) (ws @ js) (unat (p_nCoefs P)) j
    = row_sum first (p_coefs P) ws (unat (p_nCoefs P)) j"
  unfolding row_sum_def
proof (intro sum.cong refl)
  fix i assume "i \<in> {..<unat (p_nCoefs P)}"
  then have i: "i < length (p_coefs P)" using k by (simp add: key_ok_def)
  have "(p_coefs P @ ks) ! i = p_coefs P ! i" using i by (simp add: nth_append)
  moreover have "unat (coef_s (p_coefs P ! i)) < length ws"
    using b i k by (simp add: coefs_in_bounds_def key_ok_def list_all_length)
  then have "(ws @ js) ! unat (coef_s (p_coefs P ! i)) = ws ! unat (coef_s (p_coefs P ! i))" by (simp add: nth_append)
  ultimately show "(if (coef_m (p_coefs (loaded P ks as b1s b2s cs hs R) ! i) = 0) = first \<and> unat (coef_c (p_coefs (loaded P ks as b1s b2s cs hs R) ! i)) = j
      then of_nat (lval ((ws @ js) ! unat (coef_s (p_coefs (loaded P ks as b1s b2s cs hs R) ! i)))) * coef_value (p_coefs (loaded P ks as b1s b2s cs hs R) ! i) else 0)
    = (if (coef_m (p_coefs P ! i) = 0) = first \<and> unat (coef_c (p_coefs P ! i)) = j
      then of_nat (lval (ws ! unat (coef_s (p_coefs P ! i)))) * coef_value (p_coefs P ! i) else 0)"
    by (simp add: loaded_def)
qed

lemma loaded_quotient:
  assumes "key_ok P L" and "coefs_in_bounds P (length ws)"
  shows "coset_quotient (loaded P ks as b1s b2s cs hs R) (ws @ js) L w h = coset_quotient (P\<lparr>p_fft := R\<rparr>) ws L w h"
proof -
  have s: "p_nCoefs (loaded P ks as b1s b2s cs hs R) = p_nCoefs P" "p_fft (loaded P ks as b1s b2s cs hs R) = R" by (simp_all add: loaded_def)
  show ?thesis unfolding coset_quotient_def Let_def s loaded_row [OF assms] by simp
qed

subsection \<open>Loading\<close>

lemma dec_str_bn128r: "bn128r_string \<noteq> []" "list_all digit_char bn128r_string" "dec_val bn128r_string = Fr_prime"
  by (simp_all add: bn128r_string_def digit_char_def dec_val_def)

lemma bn128r_value: "mpz_laws G \<Longrightarrow> snd (mpz_set_str G bn128r_string 10) = int Fr_prime"
  unfolding mpz_laws.set_str_law [OF _ dec_str_bn128r(1,2)] dec_str_bn128r(3) snd_conv ..

lemma mpz_cmp_0: "mpz_laws G \<Longrightarrow> mpz_cmp G x y = 0 \<longleftrightarrow> x = y"
  using mpz_laws.mpz_cmp_pos_law [of G x y] mpz_laws.mpz_cmp_neg_law [of G x y] by (metis less_irrefl linorder_neqE)

lemma section_at:
  assumes "table_holds bf secs" and "contents sid secs = c # cs"
  shows "\<exists>p. getSectionData sid 0 bf = Inr p \<and> holds_at (bf_data bf) p c"
  using BinFile_sections [OF assms(1), of 0 sid] by (simp add: assms(2)) blast

lemma section_missing:
  assumes "table_holds bf secs" and "contents sid secs = []"
  shows "\<exists>msg. getSectionData sid 0 bf = Inl (Range_exn msg)" and "\<exists>msg. startReadSection sid 0 bf = Inl (Range_exn msg)"
proof -
  have "find_section sid 0 bf = Inl (if bf_sections bf sid = None then no_section sid else pos_too_big 0 0)"
    using find_section_missing [OF assms(1), of sid 0] assms(2) by simp
  then show "\<exists>msg. getSectionData sid 0 bf = Inl (Range_exn msg)" and "\<exists>msg. startReadSection sid 0 bf = Inl (Range_exn msg)"
    by (auto simp: getSectionData_def startReadSection_def no_section_def pos_too_big_def)
qed

lemma key_sections_value:
  assumes t: "table_holds bf secs" and k: "provides secs (encode_key P gamma2)"
  shows "\<exists>p4 p5 p6 p7 p8 p9. key_sections bf = Inr [unat p4, unat p5, unat p6, unat p7, unat p8, unat p9]
    \<and> holds_at (bf_data bf) p4 (bytes_of 4 (length (p_coefs P)) @ concat (map coef_bytes (p_coefs P)))
    \<and> holds_at (bf_data bf) p5 (concat (map G1_bytes (p_pointsA P))) \<and> holds_at (bf_data bf) p6 (concat (map G1_bytes (p_pointsB1 P)))
    \<and> holds_at (bf_data bf) p7 (concat (map G2_bytes (p_pointsB2 P))) \<and> holds_at (bf_data bf) p8 (concat (map G1_bytes (p_pointsC P)))
    \<and> holds_at (bf_data bf) p9 (concat (map G1_bytes (p_pointsH P)))"
proof -
  have at: "\<exists>p. getSectionData sid 0 bf = Inr p \<and> holds_at (bf_data bf) p c" if "(sid, c) \<in> set (encode_key P gamma2)" for sid c
    using section_at [OF t] providesD [OF k that] by blast
  obtain p4 p5 p6 p7 p8 p9 where p:
    "getSectionData 4 0 bf = Inr p4" "holds_at (bf_data bf) p4 (bytes_of 4 (length (p_coefs P)) @ concat (map coef_bytes (p_coefs P)))"
    "getSectionData 5 0 bf = Inr p5" "holds_at (bf_data bf) p5 (concat (map G1_bytes (p_pointsA P)))"
    "getSectionData 6 0 bf = Inr p6" "holds_at (bf_data bf) p6 (concat (map G1_bytes (p_pointsB1 P)))"
    "getSectionData 7 0 bf = Inr p7" "holds_at (bf_data bf) p7 (concat (map G2_bytes (p_pointsB2 P)))"
    "getSectionData 8 0 bf = Inr p8" "holds_at (bf_data bf) p8 (concat (map G1_bytes (p_pointsC P)))"
    "getSectionData 9 0 bf = Inr p9" "holds_at (bf_data bf) p9 (concat (map G1_bytes (p_pointsH P)))"
    using at [of 4] at [of 5] at [of 6] at [of 7] at [of 8] at [of 9] by (simp add: encode_key_def) blast
  have "key_sections bf = Inr [unat p4, unat p5, unat p6, unat p7, unat p8, unat p9]" using p by (simp add: key_sections_def)
  then show ?thesis using p(2,4,6,8,10,12) by blast
qed

lemma key_points:
  assumes "key_ok P L"
  shows "\<forall>k\<in>set (p_coefs P). decodes coef_of_bytes coef_bytes 44 k" and "\<forall>b\<in>set (p_pointsA P). decodes G1_of_bytes G1_bytes 64 b"
    and "\<forall>b\<in>set (p_pointsB1 P). decodes G1_of_bytes G1_bytes 64 b" and "\<forall>b\<in>set (p_pointsB2 P). decodes G2_of_bytes G2_bytes 128 b"
    and "\<forall>b\<in>set (p_pointsC P). decodes G1_of_bytes G1_bytes 64 b" and "\<forall>b\<in>set (p_pointsH P). decodes G1_of_bytes G1_bytes 64 b"
  using assms G1_decodes G2_decodes coef_decodes unfolding key_ok_def list_all_iff by (blast | force simp: fr_ok_def reduced_def)+

lemma makeProver_value:
  assumes G: "gmp_laws G" and T: "tbb_laws T" and k: "key_ok P L"
    and h: "holds_at data a1 (G1_bytes (p_alpha1 P))" "holds_at data b1 (G1_bytes (p_beta1 P))" "holds_at data b2 (G2_bytes (p_beta2 P))"
      "holds_at data d1 (G1_bytes (p_delta1 P))" "holds_at data d2 (G2_bytes (p_delta2 P))"
      "holds_at data p4 (bytes_of 4 (length (p_coefs P)) @ concat (map coef_bytes (p_coefs P)))"
      "holds_at data p5 (concat (map G1_bytes (p_pointsA P)))" "holds_at data p6 (concat (map G1_bytes (p_pointsB1 P)))"
      "holds_at data p7 (concat (map G2_bytes (p_pointsB2 P)))" "holds_at data p8 (concat (map G1_bytes (p_pointsC P)))"
      "holds_at data p9 (concat (map G1_bytes (p_pointsH P)))"
  shows "\<exists>ks as b1s b2s cs hs R w. makeProver G T e0 data (p_nVars P) (p_nPublic P) (p_domainSize P) (p_nCoefs P)
      (unat a1) (unat b1) (unat b2) (unat d1) (unat d2) (unat p4) (unat p5) (unat p6) (unat p7) (unat p8) (unat p9)
      = Inr (loaded P ks as b1s b2s cs hs R) \<and> fft_tables fr_ok fr_val R w \<and> fft_s R = L + 1"
proof -
  have L: "unat (p_domainSize P) = 2 ^ L" "L < 28" using k by (simp_all add: key_ok_def)
  have pw: "(2 :: nat) ^ L \<le> 2 ^ 27" using L(2) by (intro power_increasing) simp_all
  then have dom: "unat (p_domainSize P * 2) = 2 ^ (L + 1)" by (simp add: unat_word_ariths L(1))
  obtain R w where R: "FFT_new G (RawFr_ops G) (RawFr_numbers G) T e0 (2 ^ (L + 1)) = Inr R" "fft_tables fr_ok fr_val R w" "fft_s R = L + 1"
    using fr_tables [OF G T, of "L + 1" "2 ^ (L + 1)" e0] L(2) by auto
  note d = key_points [OF k]
  have "drop (unat p4 + 4) data = concat (map coef_bytes (p_coefs P)) @ drop (unat p4 + (4 + length (concat (map coef_bytes (p_coefs P))))) data"
  proof -
    have "drop (unat p4 + 4) data = drop 4 (drop (unat p4) data)" by (simp add: add.commute)
    then show ?thesis unfolding holds_drop [OF h(6)] by simp
  qed
  from array_at_encoded [OF d(1) _ this] obtain ks where ks: "array_at coef_of_bytes 44 data (unat p4 + 4) = p_coefs P @ ks" by auto
  obtain as where as: "array_at G1_of_bytes 64 data (unat p5) = p_pointsA P @ as" using array_at_holds [OF d(2) _ h(7)] by auto
  obtain b1s where b1s: "array_at G1_of_bytes 64 data (unat p6) = p_pointsB1 P @ b1s" using array_at_holds [OF d(3) _ h(8)] by auto
  obtain b2s where b2s: "array_at G2_of_bytes 128 data (unat p7) = p_pointsB2 P @ b2s" using array_at_holds [OF d(4) _ h(9)] by auto
  obtain cs where cs: "array_at G1_of_bytes 64 data (unat p8) = p_pointsC P @ cs" using array_at_holds [OF d(5) _ h(10)] by auto
  obtain hs where hs: "array_at G1_of_bytes 64 data (unat p9) = p_pointsH P @ hs" using array_at_holds [OF d(6) _ h(11)] by auto
  have g: "G1_affine (p_alpha1 P)" "G1_affine (p_beta1 P)" "G1_affine (p_delta1 P)" "G2_affine (p_beta2 P)" "G2_affine (p_delta2 P)"
    using k by (simp_all add: key_ok_def)
  note v = decodes_at [OF h(1) G1_decodes [OF g(1)]] decodes_at [OF h(2) G1_decodes [OF g(2)]] decodes_at [OF h(3) G2_decodes [OF g(4)]]
    decodes_at [OF h(4) G1_decodes [OF g(3)]] decodes_at [OF h(5) G2_decodes [OF g(5)]]
  have "makeProver G T e0 data (p_nVars P) (p_nPublic P) (p_domainSize P) (p_nCoefs P)
      (unat a1) (unat b1) (unat b2) (unat d1) (unat d2) (unat p4) (unat p5) (unat p6) (unat p7) (unat p8) (unat p9)
    = Inr (loaded P ks as b1s b2s cs hs R)"
    unfolding makeProver_def dom R(1) ks as b1s b2s cs hs v by (simp add: loaded_def)
  then show ?thesis using R(2,3) by blast
qed

end
