(* ===== verification/Full_Prover_Laws.thy ===== *)
theory Full_Prover_Laws
  imports Key_Files
begin

section \<open>From files to proofs\<close>

text \<open>
  The whole path: a key file and a witness file in, a proof out; and the descriptors that are open.
\<close>

subsection \<open>Loading a key\<close>

lemma bytes_32: "length (bytes_of 32 n) = 32" "n < 256 ^ 32 \<Longrightarrow> bval (bytes_of 32 n) = n"
  by (simp_all add: bval_bytes_of)

lemma prime_bytes: "bval (bytes_of 32 Fr_prime) = Fr_prime" "bval (bytes_of 32 Fq_prime) = Fq_prime"
  by (rule bytes_32(2), simp)+

lemma G1_bytes_length: "G1_affine a \<Longrightarrow> length (G1_bytes a) = 64" "G2_affine b \<Longrightarrow> length (G2_bytes b) = 128"
  using G1_decodes [of a] G2_decodes [of b] by (simp_all add: decodes_def)

lemma key_header:
  assumes G: "mpz_laws G" and t: "table_holds bf secs" "file_ok bf" "bf_reading bf = None"
    and k: "key_ok P L" and f: "provides secs (encode_key P gamma2)" and g: "length gamma2 = 128"
  shows "\<exists>h bf'. zkey_make_from_bin_file G bf = Inr (h, bf') \<and> zh_rPrime h = int Fr_prime \<and> zh_nVars h = p_nVars P
    \<and> zh_nPublic h = p_nPublic P \<and> zh_domainSize h = p_domainSize P \<and> zh_nCoefs h = p_nCoefs P
    \<and> holds_at (bf_data bf) (zh_vk_alpha1 h) (G1_bytes (p_alpha1 P)) \<and> holds_at (bf_data bf) (zh_vk_beta1 h) (G1_bytes (p_beta1 P))
    \<and> holds_at (bf_data bf) (zh_vk_beta2 h) (G2_bytes (p_beta2 P)) \<and> holds_at (bf_data bf) (zh_vk_delta1 h) (G1_bytes (p_delta1 P))
    \<and> holds_at (bf_data bf) (zh_vk_delta2 h) (G2_bytes (p_delta2 P))
    \<and> table_holds bf' secs \<and> bf_data bf' = bf_data bf"
proof -
  obtain c1 c2 c4 where c: "contents 1 secs = bytes_of 4 1 # c1"
    "contents 2 secs = encode_zkey_header (bytes_of 32 Fq_prime) (bytes_of 32 Fr_prime) (unat (p_nVars P)) (unat (p_nPublic P))
       (unat (p_domainSize P)) (G1_bytes (p_alpha1 P)) (G1_bytes (p_beta1 P)) (G2_bytes (p_beta2 P)) gamma2
       (G1_bytes (p_delta1 P)) (G2_bytes (p_delta2 P)) # c2"
    "contents 4 secs = (bytes_of 4 (length (p_coefs P)) @ concat (map coef_bytes (p_coefs P))) # c4"
    using providesD [OF f, of 1] providesD [OF f, of 2] providesD [OF f, of 4] unfolding encode_key_def by fastforce
  have n: "length (bytes_of 32 Fq_prime) * 4 < 2 ^ 32" "length (bytes_of 32 Fr_prime) + 12 < 2 ^ 32"
    "unat (p_nVars P) < 2 ^ 32" "unat (p_nPublic P) < 2 ^ 32" "unat (p_domainSize P) < 2 ^ 32"
    using unsigned_less [of "p_nVars P"] unsigned_less [of "p_nPublic P"] unsigned_less [of "p_domainSize P"] by simp_all
  have l: "length (G1_bytes (p_alpha1 P)) = length (bytes_of 32 Fq_prime) * 2" "length (G1_bytes (p_beta1 P)) = length (bytes_of 32 Fq_prime) * 2"
    "length (G2_bytes (p_beta2 P)) = length (bytes_of 32 Fq_prime) * 4" "length gamma2 = length (bytes_of 32 Fq_prime) * 4"
    "length (G1_bytes (p_delta1 P)) = length (bytes_of 32 Fq_prime) * 2" "length (G2_bytes (p_delta2 P)) = length (bytes_of 32 Fq_prime) * 4"
    using k g by (simp_all add: key_ok_def G1_bytes_length bytes_32)
  have "length (concat (map coef_bytes ks)) = 44 * length ks" if "\<forall>k\<in>set ks. length (coef_bytes k) = 44" for ks
    using that by (induction ks) simp_all
  then have "length (concat (map coef_bytes (p_coefs P))) = 44 * length (p_coefs P)"
    using key_points(1) [OF k] by (simp add: decodes_def)
  then have "length (bytes_of 4 (length (p_coefs P)) @ concat (map coef_bytes (p_coefs P))) div (12 + length (bytes_of 32 Fr_prime)) = unat (p_nCoefs P)"
    using k by (simp add: bytes_32 key_ok_def)
  then show ?thesis using zkey_header_value [OF G t c n l] unfolding prime_bytes by (elim exE) auto
qed

lemma load_key_value:
  assumes G: "gmp_laws (e_gmp E)" and T: "tbb_laws (e_tbb E)" and t: "table_holds bf secs" "file_ok bf" "bf_reading bf = None"
    and k: "key_ok P L" and f: "provides secs (encode_key P gamma2)" and g: "length gamma2 = 128"
  shows "\<exists>h bf' ks as b1s b2s cs hs R w. load_key E (int Fr_prime) bf = Inr (h, bf', loaded P ks as b1s b2s cs hs R)
    \<and> fft_tables fr_ok fr_val R w \<and> fft_s R = L + 1"
proof -
  have Gz: "mpz_laws (e_gmp E)" using G by (simp add: gmp_laws_def)
  obtain h bf' where h: "zkey_make_from_bin_file (e_gmp E) bf = Inr (h, bf')" "zh_rPrime h = int Fr_prime" "zh_nVars h = p_nVars P"
    "zh_nPublic h = p_nPublic P" "zh_domainSize h = p_domainSize P" "zh_nCoefs h = p_nCoefs P"
    and v: "holds_at (bf_data bf) (zh_vk_alpha1 h) (G1_bytes (p_alpha1 P))" "holds_at (bf_data bf) (zh_vk_beta1 h) (G1_bytes (p_beta1 P))"
    "holds_at (bf_data bf) (zh_vk_beta2 h) (G2_bytes (p_beta2 P))" "holds_at (bf_data bf) (zh_vk_delta1 h) (G1_bytes (p_delta1 P))"
    "holds_at (bf_data bf) (zh_vk_delta2 h) (G2_bytes (p_delta2 P))"
    and b: "table_holds bf' secs" "bf_data bf' = bf_data bf"
    using key_header [OF Gz t k f g] by blast
  obtain p4 p5 p6 p7 p8 p9 where s: "key_sections bf' = Inr [unat p4, unat p5, unat p6, unat p7, unat p8, unat p9]"
    and p: "holds_at (bf_data bf') p4 (bytes_of 4 (length (p_coefs P)) @ concat (map coef_bytes (p_coefs P)))"
    "holds_at (bf_data bf') p5 (concat (map G1_bytes (p_pointsA P)))" "holds_at (bf_data bf') p6 (concat (map G1_bytes (p_pointsB1 P)))"
    "holds_at (bf_data bf') p7 (concat (map G2_bytes (p_pointsB2 P)))" "holds_at (bf_data bf') p8 (concat (map G1_bytes (p_pointsC P)))"
    "holds_at (bf_data bf') p9 (concat (map G1_bytes (p_pointsH P)))"
    using key_sections_value [OF b(1) f] by blast
  obtain ks as b1s b2s cs hs R w where m: "makeProver (e_gmp E) (e_tbb E) (e_garbage E) (bf_data bf') (p_nVars P) (p_nPublic P) (p_domainSize P)
      (p_nCoefs P) (unat (zh_vk_alpha1 h)) (unat (zh_vk_beta1 h)) (unat (zh_vk_beta2 h)) (unat (zh_vk_delta1 h)) (unat (zh_vk_delta2 h))
      (unat p4) (unat p5) (unat p6) (unat p7) (unat p8) (unat p9) = Inr (loaded P ks as b1s b2s cs hs R)"
    "fft_tables fr_ok fr_val R w" "fft_s R = L + 1"
    using makeProver_value [OF G T k v [folded b(2)] p, where ?e0.0 = "e_garbage E"] by blast
  have "load_key E (int Fr_prime) bf = Inr (h, bf', loaded P ks as b1s b2s cs hs R)"
    unfolding load_key_def h(1) sum.case prod.case h(2-6) s using m(1) mpz_cmp_0 [OF Gz] by simp
  then show ?thesis using m(2,3) by blast
qed

text \<open>A file that the operating system opens and maps.\<close>

definition gives_file :: "os \<Rightarrow> string \<Rightarrow> int \<Rightarrow> u8 list \<Rightarrow> bool" where
  "gives_file os name fd data \<longleftrightarrow> os_open os name = fd \<and> fd \<noteq> -1 \<and> fst (os_fstat os fd) \<noteq> -1
     \<and> os_mmap os (snd (os_fstat os fd)) fd = Some data"

lemma FileLoader_value: "gives_file os name fd data \<Longrightarrow> FileLoader_new os name fds = (Inr (data, fd), fd # fds)"
  by (auto simp: gives_file_def FileLoader_new_def Let_def split: prod.splits)

lemma make_from_file_value:
  assumes "gives_file os name fd (encode_file type version secs @ extra)"
    and "length type = 4" and "version \<le> maxVersion" and "length secs < 2 ^ 32"
    and "length (encode_file type version secs @ extra) < 2 ^ 63"
  shows "\<exists>bf. make_from_file os name type maxVersion fds = (Inr (bf, fd), fd # fds)
    \<and> table_holds bf secs \<and> file_ok bf \<and> bf_reading bf = None"
  using BinFile_new_value [OF assms(2-5)] FileLoader_value [OF assms(1), of fds] assms(5) by (auto simp: make_from_file_def file_ok_def)

subsection \<open>The whole path\<close>

text \<open>The interfaces keep their laws, and there are less than \<open>2 ^ 15\<close> threads.\<close>

definition env_ok :: "'j env \<Rightarrow> bool" where
  "env_ok E \<longleftrightarrow> gmp_laws (e_gmp E) \<and> G1 (e_gmp E) = Some (e_g1 E) \<and> G2 (e_gmp E) = Some (e_g2 E) \<and> tbb_laws (e_tbb E)
     \<and> max_concurrency (e_tbb E) < 32768
     \<and> fresh_ok fq_ok fq_val (e_memory1 E) \<and> fresh_ok fq2_ok fq2_val (e_memory2 E) \<and> (\<forall>k. length (e_fresh E k) = k)"

text \<open>Files of the size that a 64-bit machine maps, over fewer than \<open>2 ^ 32\<close> sections.\<close>

definition key_file :: "'j env \<Rightarrow> string \<Rightarrow> int \<Rightarrow> prover \<Rightarrow> bool" where
  "key_file E name fd P \<longleftrightarrow> (\<exists>secs gamma2 extra. gives_file (e_os E) name fd (encode_file ''zkey'' 1 secs @ extra)
     \<and> length secs < 2 ^ 32 \<and> length (encode_file ''zkey'' 1 secs @ extra) < 2 ^ 63 \<and> length gamma2 = 128
     \<and> provides secs (encode_key P gamma2))"

definition witness_file :: "'j env \<Rightarrow> string \<Rightarrow> int \<Rightarrow> limbs list \<Rightarrow> bool" where
  "witness_file E name fd ws \<longleftrightarrow> (\<exists>version secs extra. gives_file (e_os E) name fd (encode_file ''wtns'' version secs @ extra)
     \<and> version \<le> 2 \<and> length secs < 2 ^ 32 \<and> length (encode_file ''wtns'' version secs @ extra) < 2 ^ 63
     \<and> length ws < 2 ^ 32 \<and> (\<forall>x\<in>set ws. length x = 4) \<and> provides secs (encode_witness ws))"

lemma FullProver_new_value:
  assumes E: "env_ok E" and f: "key_file E name fd P" and k: "key_ok P L"
  shows "\<exists>impl ks as b1s b2s cs hs R w. FullProver_new E name fds = (Inr \<lparr>fp_impl = Some impl, fp_state = OK\<rparr>, fd # fds)
    \<and> fp_prover impl = loaded P ks as b1s b2s cs hs R \<and> fp_altBbn128r impl = int Fr_prime
    \<and> fp_zkey_fd impl = fd \<and> fft_tables fr_ok fr_val R w \<and> fft_s R = L + 1"
proof -
  have G: "gmp_laws (e_gmp E)" "tbb_laws (e_tbb E)" "mpz_laws (e_gmp E)" using E by (simp_all add: env_ok_def gmp_laws_def)
  obtain secs gamma2 extra where s: "gives_file (e_os E) name fd (encode_file ''zkey'' 1 secs @ extra)"
     "length secs < 2 ^ 32" "length (encode_file ''zkey'' 1 secs @ extra) < 2 ^ 63" "length gamma2 = 128"
     "provides secs (encode_key P gamma2)"
    using f unfolding key_file_def by blast
  have z: "length ''zkey'' = 4" "(1 :: u32) \<le> 1" by simp_all
  obtain bf where bf: "make_from_file (e_os E) name ''zkey'' 1 fds = (Inr (bf, fd), fd # fds)"
    "table_holds bf secs" "file_ok bf" "bf_reading bf = None"
    using make_from_file_value [OF s(1) z s(2,3), of fds] by blast
  obtain h bf' ks as b1s b2s cs hs R w where l: "load_key E (int Fr_prime) bf = Inr (h, bf', loaded P ks as b1s b2s cs hs R)"
    "fft_tables fr_ok fr_val R w" "fft_s R = L + 1"
    using load_key_value [OF G(1,2) bf(2-4) k s(5,4)] by blast
  have "FullProverImpl_new E name fds = (Inr \<lparr>fp_prover = loaded P ks as b1s b2s cs hs R, fp_header = h, fp_zkey = bf',
      fp_zkey_fd = fd, fp_altBbn128r = int Fr_prime\<rparr>, fd # fds)"
    by (simp only: FullProverImpl_new_def Let_def bn128r_value [OF G(3)] bf(1) prod.case sum.case l(1))
  then show ?thesis using l(2,3) by (simp add: FullProver_new_def) blast
qed

lemma witness_value:
  assumes E: "env_ok E" and f: "witness_file E name fd ws"
  shows "\<exists>bf h bf' p js. make_from_file (e_os E) name ''wtns'' 2 fds = (Inr (bf, fd), fd # fds)
    \<and> wtns_make_from_bin_file (e_gmp E) bf = Inr (h, bf') \<and> wh_prime h = int Fr_prime
    \<and> getSectionData 2 0 bf' = Inr p \<and> array_at element_of_bytes 32 (bf_data bf') (unat p) = ws @ js
    \<and> (\<forall>x\<in>set (ws @ js). length x = 4)"
proof -
  have G: "mpz_laws (e_gmp E)" using E by (simp add: env_ok_def gmp_laws_def)
  obtain version secs extra where s: "gives_file (e_os E) name fd (encode_file ''wtns'' version secs @ extra)"
     "version \<le> 2" "length secs < 2 ^ 32" "length (encode_file ''wtns'' version secs @ extra) < 2 ^ 63"
     "length ws < 2 ^ 32" "\<forall>x\<in>set ws. length x = 4" "provides secs (encode_witness ws)"
    using f unfolding witness_file_def by blast
  have z: "length ''wtns'' = 4" by simp
  obtain bf where bf: "make_from_file (e_os E) name ''wtns'' 2 fds = (Inr (bf, fd), fd # fds)"
    "table_holds bf secs" "file_ok bf" "bf_reading bf = None"
    using make_from_file_value [OF s(1) z s(2-4), of fds] by blast
  obtain c1 c2 where c: "contents 1 secs = encode_wtns_header (bytes_of 32 Fr_prime) (length ws) # c1" "contents 2 secs = wtns_bytes ws # c2"
    using providesD [OF s(7), of 1] providesD [OF s(7), of 2] unfolding encode_witness_def by fastforce
  have l: "length (bytes_of 32 Fr_prime) < 2 ^ 32" by (simp add: bytes_32)
  obtain h bf' where h: "wtns_make_from_bin_file (e_gmp E) bf = Inr (h, bf')" "wh_prime h = int Fr_prime" "table_holds bf' secs"
    using wtns_header_value [OF G bf(2-4) c(1) l s(5)] by (auto simp only: prime_bytes wtns_header.simps)
  obtain p where p: "getSectionData 2 0 bf' = Inr p" "holds_at (bf_data bf') p (concat (map limb_bytes ws))"
    using section_at [OF h(3) c(2)] by (auto simp: wtns_bytes_def)
  have dec: "\<forall>x\<in>set ws. decodes element_of_bytes limb_bytes 32 x" using s(6) element_decodes by blast
  obtain js where js: "array_at element_of_bytes 32 (bf_data bf') (unat p) = ws @ js" using array_at_holds [OF dec _ p(2)] by auto
  have "\<forall>x\<in>set (array_at element_of_bytes 32 (bf_data bf') (unat p)). length x = 4" by (auto simp: array_at_def element_of_bytes_def)
  then show ?thesis using bf(1) h(1,2) p(1) js by auto
qed

lemma FullProver_prove_value:
  assumes E: "env_ok E" and k: "key_ok P L" and f: "witness_file E name fd ws" and b: "coefs_in_bounds P (length ws)"
    and n: "unat (p_nVars P) \<le> length ws" and d: "\<And>p. \<exists>k. lval (candidate device (p + 32 * k)) < Fr_prime"
    and i: "fp_prover impl = loaded P ks as b1s b2s cs hs R" "fp_altBbn128r impl = int Fr_prime"
    and R: "fft_tables fr_ok fr_val R w" "fft_s R = L + 1"
  shows "\<exists>pr r s pos1 pos2 h. FullProver_prove E device pos time \<lparr>fp_impl = Some impl, fp_state = OK\<rparr> name fds
      = (Inr (ProverResponse_success (json_dump (e_json E) (toJson (e_json E) (e_gmp E) pr)) time), fds)
    \<and> sample_scalar (e_gmp E) device pos = Some (r, pos1) \<and> sample_scalar (e_gmp E) device pos1 = Some (s, pos2)
    \<and> lval r < Fr_prime \<and> lval s < Fr_prime \<and> coset_quotient (P\<lparr>p_fft := R\<rparr>) ws L w h
    \<and> G1_affine (proof_A pr) \<and> aff_val fq_val (proof_A pr) = groth_A P ws (lval r)
    \<and> G2_affine (proof_B pr) \<and> aff_val fq2_val (proof_B pr) = groth_B2 P ws (lval s)
    \<and> G1_affine (proof_C pr) \<and> aff_val fq_val (proof_C pr) = groth_C P ws h (lval r) (lval s)"
proof -
  obtain bf h' bf' p js where wt: "make_from_file (e_os E) name ''wtns'' 2 fds = (Inr (bf, fd), fd # fds)"
    "wtns_make_from_bin_file (e_gmp E) bf = Inr (h', bf')" "wh_prime h' = int Fr_prime"
    "getSectionData 2 0 bf' = Inr p" "array_at element_of_bytes 32 (bf_data bf') (unat p) = ws @ js"
    "\<forall>x\<in>set (ws @ js). length x = 4"
    using witness_value [OF E f, of fds] by blast
  have E': "gmp_laws (e_gmp E)" "G1 (e_gmp E) = Some (e_g1 E)" "G2 (e_gmp E) = Some (e_g2 E)" "tbb_laws (e_tbb E)"
     "max_concurrency (e_tbb E) < 32768" "fresh_ok fq_ok fq_val (e_memory1 E)" "fresh_ok fq2_ok fq2_val (e_memory2 E)" "\<And>k. length (e_fresh E k) = k"
    using E by (simp_all add: env_ok_def)
  have Gz: "mpz_laws (e_gmp E)" using E'(1) by (simp add: gmp_laws_def)
  have n': "unat (p_nVars (loaded P ks as b1s b2s cs hs R)) \<le> length (ws @ js)" using n by (simp add: loaded_def)
  obtain pr r s pos1 pos2 h where pr: "prove (e_gmp E) (e_g1 E) (e_g2 E) (e_memory1 E) (e_memory2 E) (e_tbb E) (e_fresh E) device pos
      (loaded P ks as b1s b2s cs hs R) (ws @ js) = Inr pr"
    "sample_scalar (e_gmp E) device pos = Some (r, pos1)" "sample_scalar (e_gmp E) device pos1 = Some (s, pos2)"
    "lval r < Fr_prime" "lval s < Fr_prime" "coset_quotient (loaded P ks as b1s b2s cs hs R) (ws @ js) L w h"
    "G1_affine (proof_A pr)" "aff_val fq_val (proof_A pr) = groth_A (loaded P ks as b1s b2s cs hs R) (ws @ js) (lval r)"
    "G2_affine (proof_B pr)" "aff_val fq2_val (proof_B pr) = groth_B2 (loaded P ks as b1s b2s cs hs R) (ws @ js) (lval s)"
    "G1_affine (proof_C pr)" "aff_val fq_val (proof_C pr) = groth_C (loaded P ks as b1s b2s cs hs R) (ws @ js) h (lval r) (lval s)"
    using prove_with_curves [OF E' loaded_ok [OF k R] loaded_bounds [OF k b] wt(6) n' d] by blast
  have "prove_witness E device pos time impl bf = Inr (ProverResponse_success (json_dump (e_json E) (toJson (e_json E) (e_gmp E) pr)) time)"
    unfolding prove_witness_def wt(2) sum.case prod.case wt(3) i wt(4,5) pr(1) using mpz_cmp_0 [OF Gz] by simp
  then have "FullProver_prove E device pos time \<lparr>fp_impl = Some impl, fp_state = OK\<rparr> name fds
      = (Inr (ProverResponse_success (json_dump (e_json E) (toJson (e_json E) (e_gmp E) pr)) time), fds)"
    using wt(1) by (simp add: FullProver_prove_def FullProverImpl_prove_def FileLoader_delete_def)
  then show ?thesis using pr(2-) unfolding loaded_groth [OF k n] loaded_quotient [OF k b] by blast
qed

subsection \<open>Descriptors\<close>

lemma make_from_file_fds:
  "case make_from_file os name type v fds of (Inl e, fds') \<Rightarrow> fds' = fds | (Inr (bf, fd), fds') \<Rightarrow> fds' = fd # fds"
  by (auto simp: make_from_file_def FileLoader_new_def FileLoader_delete_def Let_def split: prod.splits sum.splits option.splits)

lemma FullProverImpl_new_fds:
  "case FullProverImpl_new E name fds of (Inl e, fds') \<Rightarrow> fds' = fds | (Inr impl, fds') \<Rightarrow> fds' = fp_zkey_fd impl # fds"
  using make_from_file_fds [where os = "e_os E" and name = name and type = "''zkey''" and v = 1 and fds = fds]
  by (auto simp: FullProverImpl_new_def FileLoader_delete_def Let_def split: prod.splits sum.splits)

lemma FullProver_new_fds:
  "case FullProver_new E name fds of (Inl e, fds') \<Rightarrow> fds' = fds | (Inr fp, fds') \<Rightarrow> FullProver_delete fp fds' = fds"
  using FullProverImpl_new_fds [where E = E and name = name and fds = fds]
  by (auto simp: FullProver_new_def FullProver_delete_def FileLoader_delete_def split: prod.splits sum.splits failure.splits exn.splits)

lemma FullProver_prove_fds: "snd (FullProver_prove E device pos time fp name fds) = fds"
  using make_from_file_fds [where os = "e_os E" and name = name and type = "''wtns''" and v = 2 and fds = fds]
  by (auto simp: FullProver_prove_def FullProverImpl_prove_def FileLoader_delete_def split: prod.splits sum.splits option.splits)

subsection \<open>Sample files\<close>

definition sample_os :: "(string \<times> int \<times> u8 list) list \<Rightarrow> os" where
  "sample_os files = \<lparr>os_open = (\<lambda>name. case map_of files name of None \<Rightarrow> -1 | Some (fd, _) \<Rightarrow> fd),
     os_fstat = (\<lambda>fd. (0, 0)), os_mmap = (\<lambda>sz. map_of (map snd files))\<rparr>"

definition text_json :: "string json_ops" where
  "text_json = \<lparr>json_null = [], json_string = quoted, json_push_back = append, json_set = (\<lambda>j k x. j @ k @ x), json_dump = id\<rparr>"

definition sample_env :: "(string \<times> int \<times> u8 list) list \<Rightarrow> string env" where
  "sample_env files = \<lparr>e_gmp = ref_gmp, e_tbb = round_robin 3, e_os = sample_os files, e_json = text_json,
     e_g1 = the (G1 ref_gmp), e_g2 = the (G2 ref_gmp), e_memory1 = zero_memory [0, 0, 0, 0],
     e_memory2 = zero_memory (f2 [0, 0, 0, 0] [0, 0, 0, 0]), e_fresh = (\<lambda>k. replicate k [0, 0, 0, 0]), e_garbage = [0, 0, 0, 0]\<rparr>"

lemma sample_env_ok: "env_ok (sample_env files)"
proof -
  have "G1 ref_gmp = Some (the (G1 ref_gmp))" "G2 ref_gmp = Some (the (G2 ref_gmp))"
    unfolding ref_G1 ref_G2 option.sel by (rule refl)+
  then show ?thesis using ref_gmp_laws round_robin_laws [of 3] ref_memories by (simp add: env_ok_def sample_env_def round_robin_def)
qed

lemma sample_env_simps [simp]: "e_gmp (sample_env files) = ref_gmp" "e_os (sample_env files) = sample_os files"
  by (simp_all add: sample_env_def)

definition sample_key :: prover where
  "sample_key = sample_prover (c_foneAffine (the (G1 ref_gmp))) (c_fzeroAffine (the (G2 ref_gmp)))
     \<lparr>fft_s = 0, fft_nqr = [], roots = [], powTwoInv = []\<rparr>"

definition sample_witness :: "limbs list" where
  "sample_witness = [[1, 0, 0, 0], [3, 0, 0, 0]]"

lemma sample_key_ok: "key_ok sample_key 1" "coefs_in_bounds sample_key (length sample_witness)"
proof -
  have "fr_ok [5, 0, 0, 0]" "fr_ok [7, 0, 0, 0]" by (simp_all add: fr_ok_def reduced_def)
  then show "key_ok sample_key 1" using ref_generators by (simp add: key_ok_def sample_key_def sample_prover_def)
  show "coefs_in_bounds sample_key (length sample_witness)"
    by (simp add: coefs_in_bounds_def sample_key_def sample_prover_def sample_witness_def)
qed

definition sample_key_bytes :: "u8 list" where
  "sample_key_bytes = encode_file ''zkey'' 1 (encode_key sample_key (replicate 128 0))"

definition sample_files :: "(string \<times> int \<times> u8 list) list" where
  "sample_files = [(''key'', 3, sample_key_bytes), (''witness'', 4, encode_file ''wtns'' 2 (encode_witness sample_witness)),
     (''other'', 5, encode_file ''wtns'' 2 [(1, encode_wtns_header [7] 0)]), (''empty'', 6, encode_file ''zkey'' 1 [])]"

lemma sample_files_open: "(name, fd, data) \<in> set sample_files \<Longrightarrow> gives_file (sample_os sample_files) name fd data"
proof -
  assume a: "(name, fd, data) \<in> set sample_files"
  have d: "distinct (map fst sample_files)" "distinct (map fst (map snd sample_files))" "list_all (\<lambda>fd. fd \<noteq> -1) (map fst (map snd sample_files))"
    unfolding sample_files_def list.map fst_conv snd_conv by simp_all
  have "(fd, data) \<in> set (map snd sample_files)" using a by force
  moreover from this have "fd \<noteq> -1" using d(3) by (auto simp: list_all_iff)
  ultimately show "gives_file (sample_os sample_files) name fd data"
    using a map_of_is_SomeI [OF d(1)] map_of_is_SomeI [OF d(2)] by (simp add: gives_file_def sample_os_def)
qed

lemma sample_key_file: "key_file (sample_env sample_files) ''key'' 3 sample_key"
proof -
  let ?secs = "encode_key sample_key (replicate 128 0)"
  have f: "gives_file (e_os (sample_env sample_files)) ''key'' 3 (encode_file ''zkey'' 1 ?secs @ [])"
    unfolding sample_env_simps append_Nil2 sample_key_bytes_def [symmetric] by (rule sample_files_open) (simp add: sample_files_def)
  have l: "\<forall>s\<in>set ?secs. length (snd s) \<le> 1000"
    using G1_bytes_length(1) [OF ref_generators(1)] G1_bytes_length(2) [OF ref_generators(2)]
    by (simp add: encode_key_def sample_key_def sample_prover_def coef_bytes_def encode_zkey_header_def bytes_32)
  have "length (concat (map encode_section ss)) \<le> 1012 * length ss" if "\<forall>s\<in>set ss. length (snd s) \<le> 1000" for ss
    using that by (induction ss) (simp_all add: encode_section_def)
  from this [OF l] have "length (encode_file ''zkey'' 1 ?secs @ []) < 2 ^ 63" by (simp add: encode_file_def encode_key_def)
  moreover have "length ?secs < 2 ^ 32" by (simp add: encode_key_def)
  moreover have "provides ?secs ?secs" by (simp add: provides_def encode_key_def contents_def)
  ultimately show ?thesis unfolding key_file_def using f by (metis length_replicate)
qed

lemma sample_witness_file: "witness_file (sample_env sample_files) ''witness'' 4 sample_witness"
proof -
  let ?secs = "encode_witness sample_witness"
  have f: "gives_file (e_os (sample_env sample_files)) ''witness'' 4 (encode_file ''wtns'' 2 ?secs @ [])"
    unfolding sample_env_simps append_Nil2 by (rule sample_files_open) (simp add: sample_files_def)
  have "length (encode_file ''wtns'' 2 ?secs @ []) < 2 ^ 63"
    by (simp add: encode_file_def encode_witness_def encode_section_def encode_wtns_header_def bytes_32 sample_witness_def wtns_bytes_def)
  moreover have "provides ?secs ?secs" by (simp add: provides_def encode_witness_def contents_def)
  moreover have "length ?secs < 2 ^ 32" by (simp add: encode_witness_def)
  moreover have "length sample_witness < 2 ^ 32" "\<forall>x\<in>set sample_witness. length x = 4" by (simp_all add: sample_witness_def)
  ultimately show ?thesis unfolding witness_file_def using f by (intro exI [of _ 2] exI [of _ ?secs] exI [of _ "[]"]) simp
qed

subsection \<open>Properties\<close>

text \<open>
  C3. From files to a proof: a file that holds a key over BN254 (its sections in any order, among others,
  with anything behind them) makes an object in state \<open>OK\<close> that keeps one descriptor open, and any file that holds
  a witness for it makes this object answer \<open>SUCCESS\<close> with the text of a proof whose elements are the
  blinded combinations of the key and the witness by the two scalars that the device gives from the position
  of the call on, and no other descriptor stays open; deleting the
  object closes its descriptor.
\<close>

theorem FullProver_end_to_end:
  assumes "env_ok E" and "key_file E keyname fd P" and "key_ok P L" and "witness_file E name wfd ws"
    and "coefs_in_bounds P (length ws)" and "unat (p_nVars P) \<le> length ws"
    and "\<And>p. \<exists>k. lval (candidate device (p + 32 * k)) < Fr_prime"
  shows "\<exists>fp pr r s pos1 pos2 h R w. FullProver_new E keyname fds = (Inr fp, fd # fds) \<and> fp_state fp = OK \<and> FullProver_delete fp (fd # fds) = fds
    \<and> FullProver_prove E device pos time fp name (fd # fds)
      = (Inr (ProverResponse_success (json_dump (e_json E) (toJson (e_json E) (e_gmp E) pr)) time), fd # fds)
    \<and> sample_scalar (e_gmp E) device pos = Some (r, pos1) \<and> sample_scalar (e_gmp E) device pos1 = Some (s, pos2)
    \<and> fft_tables fr_ok fr_val R w \<and> lval r < Fr_prime \<and> lval s < Fr_prime
    \<and> coset_quotient (P\<lparr>p_fft := R\<rparr>) ws L w h
    \<and> G1_affine (proof_A pr) \<and> aff_val fq_val (proof_A pr) = groth_A P ws (lval r)
    \<and> G2_affine (proof_B pr) \<and> aff_val fq2_val (proof_B pr) = groth_B2 P ws (lval s)
    \<and> G1_affine (proof_C pr) \<and> aff_val fq_val (proof_C pr) = groth_C P ws h (lval r) (lval s)"
proof -
  obtain impl ks as b1s b2s cs hs R w where n: "FullProver_new E keyname fds = (Inr \<lparr>fp_impl = Some impl, fp_state = OK\<rparr>, fd # fds)"
    "fp_prover impl = loaded P ks as b1s b2s cs hs R" "fp_altBbn128r impl = int Fr_prime" "fp_zkey_fd impl = fd"
    "fft_tables fr_ok fr_val R w" "fft_s R = L + 1"
    using FullProver_new_value [OF assms(1-3), of fds] by blast
  have d: "FullProver_delete \<lparr>fp_impl = Some impl, fp_state = OK\<rparr> (fd # fds) = fds"
    using n(4) by (simp add: FullProver_delete_def FileLoader_delete_def)
  have ok: "fp_state \<lparr>fp_impl = Some impl, fp_state = OK\<rparr> = OK" by simp
  show ?thesis
    using FullProver_prove_value [OF assms(1,3,4,5,6,7) n(2,3,5,6), where pos = pos and time = time and fds = "fd # fds"] n(1,5) d ok by blast
qed

theorem FullProver_end_to_end_witness:
  "\<exists>fp pr r s. FullProver_new (sample_env sample_files) ''key'' [] = (Inr fp, [3]) \<and> fp_state fp = OK
    \<and> FullProver_prove (sample_env sample_files) (\<lambda>_. 1) 0 17 fp ''witness'' [3]
      = (Inr (ProverResponse_success (json_dump (e_json (sample_env sample_files)) (toJson (e_json (sample_env sample_files)) ref_gmp pr)) 17), [3])
    \<and> aff_val fq_val (proof_A pr) = groth_A sample_key sample_witness (lval r)
    \<and> aff_val fq2_val (proof_B pr) = groth_B2 sample_key sample_witness (lval s)"
proof -
  have n: "unat (p_nVars sample_key) \<le> length sample_witness" by (simp add: sample_key_def sample_prover_def sample_witness_def)
  have d: "\<exists>k. lval (candidate (\<lambda>_. 1) (p + 32 * k)) < Fr_prime" for p using ones_device by blast
  show ?thesis
    using FullProver_end_to_end [OF sample_env_ok sample_key_file sample_key_ok(1) sample_witness_file sample_key_ok(2) n d,
        where pos = 0 and time = 17 and fds = "[]"] unfolding sample_env_simps by blast
qed

text \<open>
  C19. No descriptor leaks on any path: when the constructor throws, or the object it made is deleted, exactly
  the descriptors are open that were open before; and no request changes them, whether it succeeds,
  refuses or throws.
\<close>

theorem descriptors_balanced:
  "(case FullProver_new E keyname fds of (Inl e, fds') \<Rightarrow> fds' = fds | (Inr fp, fds') \<Rightarrow> FullProver_delete fp fds' = fds)
   \<and> snd (FullProver_prove E device pos time fp name fds) = fds"
  using FullProver_new_fds [where E = E and name = keyname and fds = fds] FullProver_prove_fds [of E device pos time fp name fds] by blast

end
