(* ===== verification/Full_Prover_Refusals.thy ===== *)
theory Full_Prover_Refusals
  imports Full_Prover_Laws
begin

section \<open>What the prover refuses\<close>

text \<open>
  The failures on the way from the name of a key file to a prover, and from the name of a witness file to
  a response: which of them the constructor turns into a state, which response a request gets, and which
  exceptions leave the two functions.
\<close>

subsection \<open>Files that cannot be read\<close>

text \<open>The three system calls of the loader that fail.\<close>

definition not_mapped :: "os \<Rightarrow> string \<Rightarrow> bool" where
  "not_mapped os name \<longleftrightarrow> os_open os name = -1 \<or> fst (os_fstat os (os_open os name)) = -1
     \<or> os_mmap os (snd (os_fstat os (os_open os name))) (os_open os name) = None"

lemma loader_fails: "not_mapped os name \<Longrightarrow> \<exists>msg. make_from_file os name type v fds = (Inl (System_error msg), fds)"
  by (auto simp: not_mapped_def make_from_file_def FileLoader_new_def Let_def split: prod.splits)

lemma parser_fails:
  "gives_file os name fd data \<Longrightarrow> BinFile_new data type v = Inl e \<Longrightarrow> make_from_file os name type v fds = (Inl e, fds)"
  using FileLoader_value [of os name fd data fds] by (simp add: make_from_file_def FileLoader_delete_def)

text \<open>A file that the parser refuses, with its exception: the cases of \<open>BinFile_new\<close> before and in the table.\<close>

datatype refusal = Other_type | Late_version | Cut_short

definition refused_file :: "string \<Rightarrow> u32 \<Rightarrow> refusal \<Rightarrow> u8 list \<Rightarrow> bool" where
  "refused_file type v why data \<longleftrightarrow> length data < 2 ^ 63 \<and> (case why of
     Other_type \<Rightarrow> 4 \<le> length data \<and> map (\<lambda>b. char_of (unat b)) (take 4 data) \<noteq> type
   | Late_version \<Rightarrow> 8 \<le> length data \<and> map (\<lambda>b. char_of (unat b)) (take 4 data) = type \<and> unat v < bval (take 4 (drop 4 data))
   | Cut_short \<Rightarrow> length data < 4 \<or> map (\<lambda>b. char_of (unat b)) (take 4 data) = type \<and>
       (length data < 8 \<or> bval (take 4 (drop 4 data)) \<le> unat v \<and>
         (length data < 12 \<or> table_truncated (bval (take 4 (drop 8 data))) (drop 12 data))))"

lemma refused_file_value:
  assumes "refused_file type v why data"
  shows "if why = Cut_short then BinFile_new data type v = Inl Assertion_failure
    else \<exists>msg. BinFile_new data type v = Inl (Invalid_argument msg)"
proof -
  have l: "length data < 2 ^ 63" using assms by (simp add: refused_file_def)
  note R = BinFile_new_refuses [OF l, of type v] and T = table_outcome [OF l, of type v]
  show ?thesis
  proof (cases why)
    case Cut_short
    then have "length data < 4 \<or> map (\<lambda>b. char_of (unat b)) (take 4 data) = type \<and> (length data < 8 \<or>
      bval (take 4 (drop 4 data)) \<le> unat v \<and> (length data < 12 \<or> table_truncated (bval (take 4 (drop 8 data))) (drop 12 data)))"
      using assms by (simp add: refused_file_def)
    then have "BinFile_new data type v = Inl Assertion_failure" using R(1,3) T(1,2) by (meson not_less)
    then show ?thesis using Cut_short by simp
  qed (use assms R(2,4) in \<open>auto simp: refused_file_def\<close>)
qed

subsection \<open>Sections\<close>

text \<open>A well-formed file of a type and version with the given sections, whatever follows them.\<close>

definition sections_file :: "os \<Rightarrow> string \<Rightarrow> int \<Rightarrow> string \<Rightarrow> u32 \<Rightarrow> (u32 \<times> u8 list) list \<Rightarrow> u8 list \<Rightarrow> bool" where
  "sections_file os name fd type version secs extra \<longleftrightarrow> gives_file os name fd (encode_file type version secs @ extra)
     \<and> length secs < 2 ^ 32 \<and> length (encode_file type version secs @ extra) < 2 ^ 63"

lemma sections_file_value:
  assumes "sections_file os name fd type version secs extra" and "length type = 4" and "version \<le> v"
  obtains bf where "make_from_file os name type v fds = (Inr (bf, fd), fd # fds)"
    and "table_holds bf secs" and "file_ok bf" and "bf_reading bf = None" and "bf_data bf = encode_file type version secs @ extra"
proof -
  have f: "gives_file os name fd (encode_file type version secs @ extra)" "length secs < 2 ^ 32"
    "length (encode_file type version secs @ extra) < 2 ^ 63" using assms(1) by (simp_all add: sections_file_def)
  obtain bf where bf: "BinFile_new (encode_file type version secs @ extra) type v = Inr bf"
    "bf_data bf = encode_file type version secs @ extra" "unat (bf_size bf) = length (bf_data bf)" "bf_reading bf = None" "table_holds bf secs"
    using BinFile_new_value [OF assms(2,3) f(2,3)] by blast
  then have "make_from_file os name type v fds = (Inr (bf, fd), fd # fds)"
    using FileLoader_value [OF f(1), of fds] by (simp add: make_from_file_def)
  then show ?thesis using bf f(3) by (intro that [of bf]) (simp_all add: file_ok_def)
qed

lemma at_pos_prefix: "at_pos bf (c @ x) \<Longrightarrow> at_pos bf c"
proof -
  assume a: "at_pos bf (c @ x)"
  then have "take (length c) (take (length c + length x) (drop (unat (bf_pos bf)) (bf_data bf))) = c"
    by (simp add: at_pos_def)
  then show ?thesis using a by (simp add: at_pos_def)
qed

text \<open>A section with bytes behind those that are read.\<close>

lemma section_too_long:
  assumes "table_holds bf secs" and "file_ok bf" and "bf_reading bf = None" and "contents sid secs = (c @ x) # cs" and "x \<noteq> []"
  obtains b where "\<And>f. and_then (startReadSection sid 0) f bf = f () b" and "at_pos b c"
    and "bf_data b = bf_data bf" and "bf_size b = bf_size bf" and "bf_sections b = bf_sections bf"
    and "\<And>b' f. bf_reading b' = bf_reading b \<Longrightarrow> unat (bf_pos b') = unat (bf_pos b) + length c \<Longrightarrow>
      \<exists>msg. and_then (endReadSection True) f b' = Inl (Range_exn msg)"
proof -
  obtain s where s: "startReadSection sid 0 bf = Inr ((), bf\<lparr>bf_pos := sec_start s, bf_reading := Some s\<rparr>)"
    "at_pos (bf\<lparr>bf_pos := sec_start s, bf_reading := Some s\<rparr>) (c @ x)" "unat (sec_size s) = length (c @ x)"
    using start_section [OF assms(1-3), of sid] by (auto simp: assms(4))
  show ?thesis
  proof (rule that [of "bf\<lparr>bf_pos := sec_start s, bf_reading := Some s\<rparr>"])
    show "and_then (startReadSection sid 0) f bf = f () (bf\<lparr>bf_pos := sec_start s, bf_reading := Some s\<rparr>)" for f
      using s(1) by (simp add: and_then_def)
    show "at_pos (bf\<lparr>bf_pos := sec_start s, bf_reading := Some s\<rparr>) c" by (rule at_pos_prefix [OF s(2)])
    show "\<exists>msg. and_then (endReadSection True) f b' = Inl (Range_exn msg)"
      if b': "bf_reading b' = bf_reading (bf\<lparr>bf_pos := sec_start s, bf_reading := Some s\<rparr>)"
        "unat (bf_pos b') = unat (bf_pos (bf\<lparr>bf_pos := sec_start s, bf_reading := Some s\<rparr>)) + length c" for b' f
    proof -
      have "bf_pos b' - sec_start s \<noteq> sec_size s"
      proof
        assume "bf_pos b' - sec_start s = sec_size s"
        moreover have "unat (bf_pos b' - sec_start s) = length c"
          using b'(2) by (simp add: unat_sub word_le_nat_alt)
        ultimately show False using s(3) assms(5) by simp
      qed
      then show ?thesis using b'(1) by (simp add: and_then_def endReadSection_def)
    qed
  qed simp_all
qed

subsection \<open>Headers\<close>

text \<open>The bytes of a second section of a key, over the two moduli and the size of the domain.\<close>

definition key_header_bytes :: "u8 list \<Rightarrow> u8 list \<Rightarrow> nat \<Rightarrow> u8 list \<Rightarrow> bool" where
  "key_header_bytes q r ds c \<longleftrightarrow> length q * 4 < 2 ^ 32 \<and> length r + 12 < 2 ^ 32 \<and> ds < 2 ^ 32 \<and>
     (\<exists>nv np a1 b1 b2 g2 d1 d2. c = encode_zkey_header q r nv np ds a1 b1 b2 g2 d1 d2 \<and> nv < 2 ^ 32 \<and> np < 2 ^ 32
       \<and> length a1 = length q * 2 \<and> length b1 = length q * 2 \<and> length b2 = length q * 4 \<and> length g2 = length q * 4
       \<and> length d1 = length q * 2 \<and> length d2 = length q * 4)"

text \<open>The header of a key after its first section.\<close>

definition second_section :: "gmp \<Rightarrow> binfile \<Rightarrow> exn + zkey_header \<times> binfile" where
  "second_section G = and_then (startReadSection 2 0) (\<lambda>_. and_then (zkey_fields G) (\<lambda>ret. and_then (endReadSection True) (\<lambda>_ bf.
     case getSectionSize 4 0 bf of Inl e \<Rightarrow> Inl e | Inr sz \<Rightarrow>
     if 12 + zh_n8r ret = 0 then Inl Division_by_zero
     else Inr (ret\<lparr>zh_nCoefs := sz div ucast (12 + zh_n8r ret)\<rparr>, bf))))"

lemma first_section:
  assumes t: "table_holds bf secs" "file_ok bf" "bf_reading bf = None"
  shows "contents 1 secs = [] \<Longrightarrow> \<exists>msg. zkey_make_from_bin_file G bf = Inl (Range_exn msg)"
    and "contents 1 secs = (bytes_of 4 n @ x) # cs \<Longrightarrow> n < 2 ^ 32 \<Longrightarrow> n \<noteq> 1 \<Longrightarrow> \<exists>msg. zkey_make_from_bin_file G bf = Inl (Invalid_argument msg)"
    and "contents 1 secs = (bytes_of 4 1 @ x) # cs \<Longrightarrow> x \<noteq> [] \<Longrightarrow> \<exists>msg. zkey_make_from_bin_file G bf = Inl (Range_exn msg)"
    and "contents 1 secs = bytes_of 4 1 # cs \<Longrightarrow>
      \<exists>b. zkey_make_from_bin_file G bf = second_section G b \<and> table_holds b secs \<and> file_ok b \<and> bf_reading b = None"
proof -
  let ?X = "\<lambda>f :: unit \<Rightarrow> binfile \<Rightarrow> exn + zkey_header \<times> binfile. f"
  show "\<exists>msg. zkey_make_from_bin_file G bf = Inl (Range_exn msg)" if "contents 1 secs = []"
    using section_missing(2) [OF t(1) that] by (auto simp: zkey_make_from_bin_file_def and_then_def)
  show "\<exists>msg. zkey_make_from_bin_file G bf = Inl (Invalid_argument msg)"
    if c: "contents 1 secs = (bytes_of 4 n @ x) # cs" and n: "n < 2 ^ 32" "n \<noteq> 1"
  proof (rule step_section [OF t c])
    fix b assume b: "\<And>f. and_then (startReadSection 1 0) (?X f) bf = f () b" "at_pos b (bytes_of 4 n @ x)"
    have "unat (word_of_nat n :: u32) = n" using n(1) by (simp add: unat_of_nat)
    then have "(word_of_nat n :: u32) \<noteq> 1" using n(2) by auto
    then show ?thesis unfolding zkey_make_from_bin_file_def b(1) step_u32(1) [OF b(2) n(1)] by simp
  qed
  have one: "(1 :: nat) < 2 ^ 32" by simp
  show "\<exists>msg. zkey_make_from_bin_file G bf = Inl (Range_exn msg)"
    if c: "contents 1 secs = (bytes_of 4 1 @ x) # cs" and x: "x \<noteq> []"
  proof (rule section_too_long [OF t c x])
    fix b assume b: "\<And>f. and_then (startReadSection 1 0) (?X f) bf = f () b" "at_pos b (bytes_of 4 1)"
      and en: "\<And>b' f. bf_reading b' = bf_reading b \<Longrightarrow> unat (bf_pos b') = unat (bf_pos b) + length (bytes_of 4 1) \<Longrightarrow>
        \<exists>msg. and_then (endReadSection True) (?X f) b' = Inl (Range_exn msg)"
    have "at_pos b (bytes_of 4 1 @ [])" using b(2) by simp
    note S = step_u32 [OF this one]
    have "\<exists>msg. and_then (endReadSection True) (?X f) (b\<lparr>bf_pos := bf_pos b + 4\<rparr>) = Inl (Range_exn msg)" for f
      by (rule en) (simp, simp only: S(3) length_bytes_of)
    then show ?thesis unfolding zkey_make_from_bin_file_def b(1) S(1) by simp
  qed
  show "\<exists>b. zkey_make_from_bin_file G bf = second_section G b \<and> table_holds b secs \<and> file_ok b \<and> bf_reading b = None"
    if c: "contents 1 secs = bytes_of 4 1 # cs"
  proof (rule step_section [OF t c])
    fix b assume b: "\<And>f. and_then (startReadSection 1 0) (?X f) bf = f () b" "at_pos b (bytes_of 4 1)"
      and k: "bf_data b = bf_data bf" "bf_size b = bf_size bf" "bf_sections b = bf_sections bf"
      and en: "\<And>b' f. bf_reading b' = bf_reading b \<Longrightarrow> unat (bf_pos b') = unat (bf_pos b) + length (bytes_of 4 1) \<Longrightarrow>
        and_then (endReadSection True) (?X f) b' = f () (b'\<lparr>bf_reading := None\<rparr>)"
    have "at_pos b (bytes_of 4 1 @ [])" using b(2) by simp
    note S = step_u32 [OF this one]
    define b2 where "b2 = b\<lparr>bf_pos := bf_pos b + 4\<rparr>\<lparr>bf_reading := None\<rparr>"
    have e: "and_then (endReadSection True) (?X f) (b\<lparr>bf_pos := bf_pos b + 4\<rparr>) = f () b2" for f
      unfolding b2_def by (rule en) (simp, simp only: S(3) length_bytes_of)
    have "zkey_make_from_bin_file G bf = second_section G b2"
      unfolding zkey_make_from_bin_file_def second_section_def b(1) S(1) by (simp add: e)
    moreover have "bf_data b2 = bf_data bf" "bf_size b2 = bf_size bf" "bf_sections b2 = bf_sections bf" "bf_reading b2 = None"
      using k by (simp_all add: b2_def)
    ultimately show ?thesis using t(1,2) table_data [of b2 bf secs] by (intro exI [of _ b2]) (simp add: file_ok_def)
  qed
qed

text \<open>Behind the fields of the header its table, data and section are as before.\<close>

lemma header_fields:
  assumes G: "mpz_laws G" and h: "key_header_bytes q r ds c" and b: "at_pos b c"
  obtains k b' where "zkey_fields G b = Inr (k, b')" and "zh_rPrime k = int (bval r)" and "zh_domainSize k = word_of_nat ds"
    and "12 + zh_n8r k \<noteq> 0" and "moved b b'" and "unat (bf_pos b') = unat (bf_pos b) + length c"
proof -
  obtain nv np a1 b1 b2 g2 d1 d2 where c: "c = encode_zkey_header q r nv np ds a1 b1 b2 g2 d1 d2"
    and l: "length q * 4 < 2 ^ 32" "length r + 12 < 2 ^ 32" "nv < 2 ^ 32" "np < 2 ^ 32" "ds < 2 ^ 32" "length a1 = length q * 2" "length b1 = length q * 2"
      "length b2 = length q * 4" "length g2 = length q * 4" "length d1 = length q * 2" "length d2 = length q * 4"
    using h unfolding key_header_bytes_def by blast
  have lr: "length r < 2 ^ 32" using l(2) by simp
  obtain k b' where k: "zkey_fields G b = Inr (k, b')" "zh_n8r k = word_of_nat (length r)" "zh_rPrime k = int (bval r)"
      "zh_domainSize k = word_of_nat ds"
    and b': "bf_data b' = bf_data b" "bf_size b' = bf_size b" "bf_sections b' = bf_sections b" "bf_reading b' = bf_reading b"
      "unat (bf_pos b') = unat (bf_pos b) + length c"
    using zkey_fields_value [OF G b [unfolded c] l(1) lr l(3-11)] unfolding c by blast
  have "unat (12 + word_of_nat (length r) :: u32) = 12 + length r"
    using l(2) by (simp add: unat_word_ariths unat_of_nat)
  then have "12 + zh_n8r k \<noteq> 0" unfolding k(2) by auto
  then show ?thesis using k b' by (intro that [of k b']) (simp_all add: moved_def)
qed

lemma second_section_value:
  assumes G: "mpz_laws G" and t: "table_holds bf secs" "file_ok bf" "bf_reading bf = None"
  shows "contents 2 secs = [] \<Longrightarrow> \<exists>msg. second_section G bf = Inl (Range_exn msg)"
    and "contents 2 secs = (c @ x) # cs \<Longrightarrow> key_header_bytes q r ds c \<Longrightarrow> x \<noteq> [] \<Longrightarrow> \<exists>msg. second_section G bf = Inl (Range_exn msg)"
    and "contents 2 secs = c # cs \<Longrightarrow> key_header_bytes q r ds c \<Longrightarrow> contents 4 secs = [] \<Longrightarrow> \<exists>msg. second_section G bf = Inl (Range_exn msg)"
    and "contents 2 secs = c # cs \<Longrightarrow> key_header_bytes q r ds c \<Longrightarrow> contents 4 secs \<noteq> [] \<Longrightarrow>
      \<exists>h b. second_section G bf = Inr (h, b) \<and> zh_rPrime h = int (bval r) \<and> zh_domainSize h = word_of_nat ds \<and> table_holds b secs"
proof -
  let ?X = "\<lambda>f :: unit \<Rightarrow> binfile \<Rightarrow> exn + zkey_header \<times> binfile. f"
  show "\<exists>msg. second_section G bf = Inl (Range_exn msg)" if "contents 2 secs = []"
    using section_missing(2) [OF t(1) that] by (auto simp: second_section_def and_then_def)
  show "\<exists>msg. second_section G bf = Inl (Range_exn msg)"
    if c: "contents 2 secs = (c @ x) # cs" and h: "key_header_bytes q r ds c" and x: "x \<noteq> []"
  proof (rule section_too_long [OF t c x])
    fix b assume b: "\<And>f. and_then (startReadSection 2 0) (?X f) bf = f () b" "at_pos b c"
      and en: "\<And>b' f. bf_reading b' = bf_reading b \<Longrightarrow> unat (bf_pos b') = unat (bf_pos b) + length c \<Longrightarrow>
        \<exists>msg. and_then (endReadSection True) (?X f) b' = Inl (Range_exn msg)"
    obtain k b' where f: "zkey_fields G b = Inr (k, b')" "moved b b'" "unat (bf_pos b') = unat (bf_pos b) + length c"
      by (rule header_fields [OF G h b(2)])
    show ?thesis using en [OF _ f(3)] f(2) unfolding second_section_def b(1) and_then_def [of "zkey_fields G"] f(1)
      by (simp add: moved_def)
  qed
  have go: "\<exists>k b. second_section G bf = (case getSectionSize 4 0 b of Inl e \<Rightarrow> Inl e
        | Inr sz \<Rightarrow> Inr (k\<lparr>zh_nCoefs := sz div ucast (12 + zh_n8r k)\<rparr>, b))
      \<and> zh_rPrime k = int (bval r) \<and> zh_domainSize k = word_of_nat ds \<and> table_holds b secs"
    if c: "contents 2 secs = c # cs" and h: "key_header_bytes q r ds c"
  proof (rule step_section [OF t c])
    fix b assume b: "\<And>f. and_then (startReadSection 2 0) (?X f) bf = f () b" "at_pos b c"
      and k: "bf_data b = bf_data bf" "bf_size b = bf_size bf" "bf_sections b = bf_sections bf"
      and en: "\<And>b' f. bf_reading b' = bf_reading b \<Longrightarrow> unat (bf_pos b') = unat (bf_pos b) + length c \<Longrightarrow>
        and_then (endReadSection True) (?X f) b' = f () (b'\<lparr>bf_reading := None\<rparr>)"
    obtain k b' where f: "zkey_fields G b = Inr (k, b')" "zh_rPrime k = int (bval r)" "zh_domainSize k = word_of_nat ds"
      "12 + zh_n8r k \<noteq> 0" "moved b b'" "unat (bf_pos b') = unat (bf_pos b) + length c"
      by (rule header_fields [OF G h b(2)])
    define b2 where "b2 = b'\<lparr>bf_reading := None\<rparr>"
    have "bf_reading b' = bf_reading b" using f(5) by (simp add: moved_def)
    then have e: "and_then (endReadSection True) (?X f) b' = f () b2" for f unfolding b2_def using f(6) by (rule en)
    have "second_section G bf = (case getSectionSize 4 0 b2 of Inl e \<Rightarrow> Inl e
        | Inr sz \<Rightarrow> Inr (k\<lparr>zh_nCoefs := sz div ucast (12 + zh_n8r k)\<rparr>, b2))"
      unfolding second_section_def b(1) and_then_def [of "zkey_fields G"] f(1) using f(4) by (simp add: e cong: sum.case_cong)
    moreover have "table_holds b2 secs" using f(5) k t(1) table_data [of b2 bf secs] by (simp add: b2_def moved_def)
    ultimately show ?thesis using f(2,3) by blast
  qed
  note S = BinFile_sections [of _ secs 0 4, simplified]
  show "\<exists>msg. second_section G bf = Inl (Range_exn msg)"
    if "contents 2 secs = c # cs" "key_header_bytes q r ds c" "contents 4 secs = []"
    using go [OF that(1,2)] S that(3) by fastforce
  show "\<exists>h b. second_section G bf = Inr (h, b) \<and> zh_rPrime h = int (bval r) \<and> zh_domainSize h = word_of_nat ds \<and> table_holds b secs"
    if "contents 2 secs = c # cs" "key_header_bytes q r ds c" "contents 4 secs \<noteq> []"
    using go [OF that(1,2)] S that(3) by fastforce
qed

subsection \<open>Loading a key\<close>

text \<open>What is wrong with the sections of a key, in the order in which it is found.\<close>

datatype key_defect = No_first_section | Other_protocol | First_section_long | No_second_section | Second_section_long
  | No_coefficients | Other_prime | No_points | Domain_too_large

definition key_defect :: "key_defect \<Rightarrow> (u32 \<times> u8 list) list \<Rightarrow> bool" where
  "key_defect why secs \<longleftrightarrow> (case why of
     No_first_section \<Rightarrow> contents 1 secs = []
   | Other_protocol \<Rightarrow> (\<exists>n x cs. contents 1 secs = (bytes_of 4 n @ x) # cs \<and> n < 2 ^ 32 \<and> n \<noteq> 1)
   | First_section_long \<Rightarrow> (\<exists>x cs. contents 1 secs = (bytes_of 4 1 @ x) # cs \<and> x \<noteq> [])
   | No_second_section \<Rightarrow> (\<exists>cs. contents 1 secs = bytes_of 4 1 # cs) \<and> contents 2 secs = []
   | Second_section_long \<Rightarrow> (\<exists>cs. contents 1 secs = bytes_of 4 1 # cs)
       \<and> (\<exists>q r ds c x cs. contents 2 secs = (c @ x) # cs \<and> key_header_bytes q r ds c \<and> x \<noteq> [])
   | No_coefficients \<Rightarrow> (\<exists>cs. contents 1 secs = bytes_of 4 1 # cs)
       \<and> (\<exists>q r ds c cs. contents 2 secs = c # cs \<and> key_header_bytes q r ds c) \<and> contents 4 secs = []
   | Other_prime \<Rightarrow> (\<exists>cs. contents 1 secs = bytes_of 4 1 # cs) \<and> contents 4 secs \<noteq> []
       \<and> (\<exists>q r ds c cs. contents 2 secs = c # cs \<and> key_header_bytes q r ds c \<and> bval r \<noteq> Fr_prime)
   | No_points \<Rightarrow> (\<exists>cs. contents 1 secs = bytes_of 4 1 # cs) \<and> contents 4 secs \<noteq> []
       \<and> (\<exists>q r ds c cs. contents 2 secs = c # cs \<and> key_header_bytes q r ds c \<and> bval r = Fr_prime)
       \<and> (\<exists>sid\<in>{5, 6, 7, 8, 9}. contents sid secs = [])
   | Domain_too_large \<Rightarrow> (\<exists>cs. contents 1 secs = bytes_of 4 1 # cs) \<and> contents 4 secs \<noteq> []
       \<and> (\<exists>q r ds c cs. contents 2 secs = c # cs \<and> key_header_bytes q r ds c \<and> bval r = Fr_prime \<and> 2 ^ 29 \<le> ds * 2 \<and> ds * 2 < 2 ^ 32)
       \<and> (\<forall>sid\<in>{5, 6, 7, 8, 9}. contents sid secs \<noteq> []))"

text \<open>The exception that it leads to.\<close>

definition key_exception :: "key_defect \<Rightarrow> failure \<Rightarrow> bool" where
  "key_exception why err \<longleftrightarrow> (case why of
     Other_protocol \<Rightarrow> (\<exists>msg. err = File_failure (Invalid_argument msg))
   | Other_prime \<Rightarrow> (\<exists>msg. err = File_failure (Invalid_argument msg))
   | Domain_too_large \<Rightarrow> err = Fft_failure (Range_error ''Domain size too big for the curve'')
   | _ \<Rightarrow> (\<exists>msg. err = File_failure (Range_exn msg)))"

lemma sections_missing:
  assumes "table_holds bf secs" and "contents 4 secs \<noteq> []" and "\<exists>sid\<in>{5, 6, 7, 8, 9}. contents sid secs = []"
  shows "\<exists>msg. key_sections bf = Inl (Range_exn msg)"
proof -
  have S: "case getSectionData i 0 bf of Inl e \<Rightarrow> contents i secs = [] \<and> (\<exists>msg. e = Range_exn msg) | Inr p \<Rightarrow> contents i secs \<noteq> []" for i
    using BinFile_sections [OF assms(1), of 0 i] by (auto split: if_splits)
  show ?thesis
    using assms(3) S [of 4] S [of 5] S [of 6] S [of 7] S [of 8] S [of 9] by (auto simp: key_sections_def split: sum.splits)
qed

lemma sections_there:
  assumes "table_holds bf secs" and "contents 4 secs \<noteq> []" and "\<forall>sid\<in>{5, 6, 7, 8, 9}. contents sid secs \<noteq> []"
  shows "\<exists>ps. key_sections bf = Inr ps"
proof -
  have "\<exists>p. getSectionData i 0 bf = Inr p" if "contents i secs \<noteq> []" for i
    using BinFile_sections [OF assms(1), of 0 i] that by auto
  from this [of 4] this [of 5] this [of 6] this [of 7] this [of 8] this [of 9] show ?thesis
    using assms(2,3) by (auto simp: key_sections_def)
qed

lemma load_key_fails:
  assumes G: "gmp_laws (e_gmp E)" and T: "tbb_laws (e_tbb E)" and t: "table_holds bf secs" "file_ok bf" "bf_reading bf = None"
    and k: "key_defect why secs"
  shows "\<exists>err. load_key E (int Fr_prime) bf = Inl err \<and> key_exception why err"
proof -
  have Gz: "mpz_laws (e_gmp E)" using G by (simp add: gmp_laws_def)
  note F = first_section [OF t, where G = "e_gmp E"]
  have two: "\<exists>h b. zkey_make_from_bin_file (e_gmp E) bf = Inr (h, b) \<and> zh_rPrime h = int (bval r)
      \<and> zh_domainSize h = word_of_nat ds \<and> table_holds b secs"
    if "\<exists>cs. contents 1 secs = bytes_of 4 1 # cs" "contents 4 secs \<noteq> []" "contents 2 secs = c # cs" "key_header_bytes q r ds c" for q r ds c cs
    using F(4) second_section_value(4) [OF Gz _ _ _ that(3,4,2)] that(1) by metis
  show ?thesis
  proof (cases why)
    case No_first_section
    then show ?thesis using k F(1) by (auto simp: key_defect_def key_exception_def load_key_def)
  next
    case Other_protocol
    then show ?thesis using k F(2) by (fastforce simp: key_defect_def key_exception_def load_key_def)
  next
    case First_section_long
    then show ?thesis using k F(3) by (fastforce simp: key_defect_def key_exception_def load_key_def)
  next
    case No_second_section
    then show ?thesis using k F(4) second_section_value(1) [OF Gz] by (fastforce simp: key_defect_def key_exception_def load_key_def)
  next
    case Second_section_long
    then show ?thesis using k F(4) second_section_value(2) [OF Gz] by (fastforce simp: key_defect_def key_exception_def load_key_def)
  next
    case No_coefficients
    then show ?thesis using k F(4) second_section_value(3) [OF Gz] by (fastforce simp: key_defect_def key_exception_def load_key_def)
  next
    case Other_prime
    then obtain q r ds c cs where d: "\<exists>cs. contents 1 secs = bytes_of 4 1 # cs" "contents 4 secs \<noteq> []" "contents 2 secs = c # cs"
      "key_header_bytes q r ds c" "bval r \<noteq> Fr_prime" using k by (auto simp: key_defect_def)
    obtain h b where "zkey_make_from_bin_file (e_gmp E) bf = Inr (h, b)" "zh_rPrime h = int (bval r)" using two [OF d(1-4)] by blast
    then show ?thesis using d(5) mpz_cmp_0 [OF Gz] Other_prime by (simp add: load_key_def key_exception_def)
  next
    case No_points
    then obtain q r ds c cs where d: "\<exists>cs. contents 1 secs = bytes_of 4 1 # cs" "contents 4 secs \<noteq> []" "contents 2 secs = c # cs"
      "key_header_bytes q r ds c" "bval r = Fr_prime" "\<exists>sid\<in>{5, 6, 7, 8, 9}. contents sid secs = []" using k by (auto simp: key_defect_def)
    obtain h b where h: "zkey_make_from_bin_file (e_gmp E) bf = Inr (h, b)" "zh_rPrime h = int Fr_prime" "table_holds b secs"
      using two [OF d(1-4)] d(5) by auto
    then show ?thesis using sections_missing [OF h(3) d(2,6)] mpz_cmp_0 [OF Gz] No_points by (auto simp: load_key_def key_exception_def)
  next
    case Domain_too_large
    then obtain q r ds c cs where d: "\<exists>cs. contents 1 secs = bytes_of 4 1 # cs" "contents 4 secs \<noteq> []" "contents 2 secs = c # cs"
      "key_header_bytes q r ds c" "bval r = Fr_prime" "2 ^ 29 \<le> ds * 2" "ds * 2 < 2 ^ 32" "\<forall>sid\<in>{5, 6, 7, 8, 9}. contents sid secs \<noteq> []"
      using k by (auto simp: key_defect_def)
    obtain h b where h: "zkey_make_from_bin_file (e_gmp E) bf = Inr (h, b)" "zh_rPrime h = int Fr_prime"
      "zh_domainSize h = word_of_nat ds" "table_holds b secs" using two [OF d(1-4)] d(5) by auto
    obtain ps where ps: "key_sections b = Inr ps" using sections_there [OF h(4) d(2,8)] by blast
    have u: "unat (word_of_nat ds * 2 :: u32) = ds * 2" using d(7) by (simp add: unat_word_ariths unat_of_nat)
    obtain l where l: "2 ^ l \<le> ds * 2" "ds * 2 < 2 ^ Suc l" using ex_power_ivl1 [of 2 "ds * 2"] d(6) by auto
    have "(2 :: nat) ^ 29 < 2 ^ Suc l" using l(2) d(6) by linarith
    then have "29 < Suc l" by (rule power_less_imp_less_exp [rotated]) simp
    moreover have "(2 :: nat) ^ l < 2 ^ 32" using l(1) d(7) by linarith
    then have "l < 32" by (rule power_less_imp_less_exp [rotated]) simp
    ultimately have "FFT_new (e_gmp E) (RawFr_ops (e_gmp E)) (RawFr_numbers (e_gmp E)) (e_tbb E) (e_garbage E) (ds * 2)
        = Inl (Range_error ''Domain size too big for the curve'')"
      using fr_tables [OF G T l, of "e_garbage E"] by simp
    then show ?thesis using h(1-3) ps u mpz_cmp_0 [OF Gz] Domain_too_large by (simp add: load_key_def makeProver_def key_exception_def)
  qed
qed

lemma new_not_mapped:
  "not_mapped (e_os E) name \<Longrightarrow> FullProver_new E name fds = (Inr \<lparr>fp_impl = None, fp_state = ZKEY_FILE_LOAD_ERROR\<rparr>, fds)"
  using loader_fails [of "e_os E" name "''zkey''" 1 fds] by (auto simp: FullProver_new_def FullProverImpl_new_def Let_def)

lemma new_refused:
  assumes "gives_file (e_os E) name fd data" and "refused_file ''zkey'' 1 why data"
  shows "FullProver_new E name fds = (if why = Cut_short then Inl (File_failure Assertion_failure)
    else Inr \<lparr>fp_impl = None, fp_state = UNSUPPORTED_ZKEY_CURVE\<rparr>, fds)"
  using refused_file_value [OF assms(2)] parser_fails [OF assms(1), of "''zkey''" 1 _ fds]
  by (auto simp: FullProver_new_def FullProverImpl_new_def Let_def split: if_splits)

lemma new_defect:
  assumes G: "gmp_laws (e_gmp E)" and T: "tbb_laws (e_tbb E)" and f: "sections_file (e_os E) name fd ''zkey'' version secs extra"
    and v: "version \<le> 1" and k: "key_defect why secs"
  shows "\<exists>err. key_exception why err \<and> FullProver_new E name fds = (if why = Other_protocol \<or> why = Other_prime
    then Inr \<lparr>fp_impl = None, fp_state = UNSUPPORTED_ZKEY_CURVE\<rparr> else Inl err, fds)"
proof -
  have Gz: "mpz_laws (e_gmp E)" using G by (simp add: gmp_laws_def)
  have z: "length ''zkey'' = 4" by simp
  obtain bf where bf: "make_from_file (e_os E) name ''zkey'' 1 fds = (Inr (bf, fd), fd # fds)" "table_holds bf secs" "file_ok bf" "bf_reading bf = None"
    by (rule sections_file_value [OF f z v])
  obtain err where e: "load_key E (int Fr_prime) bf = Inl err" "key_exception why err" using load_key_fails [OF G T bf(2-4) k] by blast
  have "FullProverImpl_new E name fds = (Inl err, fds)"
    unfolding FullProverImpl_new_def Let_def bn128r_value [OF Gz] using bf(1) e(1) by (simp add: FileLoader_delete_def)
  then show ?thesis using e(2) by (intro exI [of _ err]) (cases why; auto simp: FullProver_new_def key_exception_def)
qed

subsection \<open>Proving\<close>

datatype witness_defect = No_header | Header_long | Other_field | No_values | Values_short

definition witness_defect :: "witness_defect \<Rightarrow> full_prover_impl \<Rightarrow> (u32 \<times> u8 list) list \<Rightarrow> nat \<Rightarrow> bool" where
  "witness_defect why impl secs len \<longleftrightarrow> (case why of
     No_header \<Rightarrow> contents 1 secs = []
   | Header_long \<Rightarrow> (\<exists>q nv x cs. contents 1 secs = (encode_wtns_header q nv @ x) # cs \<and> length q < 2 ^ 32 \<and> nv < 2 ^ 32 \<and> x \<noteq> [])
   | Other_field \<Rightarrow> (\<exists>q nv cs. contents 1 secs = encode_wtns_header q nv # cs \<and> length q < 2 ^ 32 \<and> nv < 2 ^ 32
       \<and> int (bval q) \<noteq> fp_altBbn128r impl)
   | No_values \<Rightarrow> (\<exists>q nv cs. contents 1 secs = encode_wtns_header q nv # cs \<and> length q < 2 ^ 32 \<and> nv < 2 ^ 32
       \<and> int (bval q) = fp_altBbn128r impl) \<and> contents 2 secs = []
   | Values_short \<Rightarrow> (\<exists>q nv cs. contents 1 secs = encode_wtns_header q nv # cs \<and> length q < 2 ^ 32 \<and> nv < 2 ^ 32
       \<and> int (bval q) = fp_altBbn128r impl) \<and> contents 2 secs \<noteq> [] \<and> len < unat (p_nVars (fp_prover impl)) * 32)"

definition witness_outcome :: "witness_defect \<Rightarrow> failure + prover_response \<Rightarrow> bool" where
  "witness_outcome why res \<longleftrightarrow> (case why of
     Other_field \<Rightarrow> res = Inr (ProverResponse_error WITNESS_GENERATION_INVALID_CURVE)
   | Values_short \<Rightarrow> res = Inl (Prove_failure Out_of_bounds)
   | _ \<Rightarrow> (\<exists>msg. res = Inl (File_failure (Range_exn msg))))"

lemma wtns_header_long:
  assumes G: "mpz_laws G" and t: "table_holds bf secs" "file_ok bf" "bf_reading bf = None"
    and c: "contents 1 secs = (encode_wtns_header q nv @ x) # cs" and q: "length q < 2 ^ 32" "nv < 2 ^ 32" and x: "x \<noteq> []"
  shows "\<exists>msg. wtns_make_from_bin_file G bf = Inl (Range_exn msg)"
proof (rule section_too_long [OF t c x])
  have u: "unat (word_of_nat (length q) :: u32) = length q" using q(1) by (simp add: unat_of_nat)
  let ?X = "\<lambda>f :: unit \<Rightarrow> binfile \<Rightarrow> exn + wtns_header \<times> binfile. f"
  fix b0
  assume st: "\<And>f. and_then (startReadSection 1 0) (?X f) bf = f () b0" and a: "at_pos b0 (encode_wtns_header q nv)"
    and en: "\<And>b' f. bf_reading b' = bf_reading b0 \<Longrightarrow> unat (bf_pos b') = unat (bf_pos b0) + length (encode_wtns_header q nv) \<Longrightarrow>
      \<exists>msg. and_then (endReadSection True) (?X f) b' = Inl (Range_exn msg)"
  have a0: "at_pos b0 (bytes_of 4 (length q) @ q @ bytes_of 4 nv @ [])" using a by (simp add: encode_wtns_header_def)
  define b1 where "b1 = b0\<lparr>bf_pos := bf_pos b0 + 4\<rparr>"
  note S1 = step_u32 [OF a0 q(1), folded b1_def]
  define b2 where "b2 = b1\<lparr>bf_pos := bf_pos b1 + ucast (word_of_nat (length q) :: u32)\<rparr>"
  note S2 = step_prime [OF G S1(2) u, folded b2_def]
  define b3 where "b3 = b2\<lparr>bf_pos := bf_pos b2 + 4\<rparr>"
  note S3 = step_u32 [OF S2(2) q(2), folded b3_def]
  have "\<exists>msg. and_then (endReadSection True) (?X f) b3 = Inl (Range_exn msg)" for f
    by (rule en) (simp add: b3_def b2_def b1_def, simp add: S1(3) S2(3) S3(3) encode_wtns_header_def)
  then show ?thesis unfolding wtns_make_from_bin_file_def st S1(1) S2(1) S3(1) .
qed

lemma array_at_short: "length (array_at f k data p) * k \<le> length data"
  by (simp add: array_at_def) (metis diff_le_self div_times_less_eq_dividend order_trans)

lemma prove_short:
  assumes "length ws * 32 < unat (p_nVars P) * 32" and "\<forall>x\<in>set ws. length x = 4"
  shows "prove G C1 C2 Z Z2 T fresh device pos P ws = Inl Out_of_bounds"
  using assms(1) wtns_bytes_simps(1) [OF assms(2)] by (simp add: prove_def multiexp_at_def)

lemma prove_defect:
  assumes G: "mpz_laws (e_gmp E)" and f: "sections_file (e_os E) name fd ''wtns'' version secs extra" and v: "version \<le> 2"
    and d: "witness_defect why impl secs (length (encode_file ''wtns'' version secs @ extra))"
  shows "\<exists>res. witness_outcome why res
    \<and> FullProver_prove E device pos time \<lparr>fp_impl = Some impl, fp_state = OK\<rparr> name fds = (res, fds)"
proof -
  have z: "length ''wtns'' = 4" by simp
  obtain bf where bf: "make_from_file (e_os E) name ''wtns'' 2 fds = (Inr (bf, fd), fd # fds)" "table_holds bf secs" "file_ok bf" "bf_reading bf = None"
    "bf_data bf = encode_file ''wtns'' version secs @ extra"
    by (rule sections_file_value [OF f z v])
  have H: "\<exists>h b. wtns_make_from_bin_file (e_gmp E) bf = Inr (h, b) \<and> wh_prime h = int (bval q) \<and> table_holds b secs \<and> bf_data b = bf_data bf"
    if "contents 1 secs = encode_wtns_header q nv # cs" "length q < 2 ^ 32" "nv < 2 ^ 32" for q nv cs
    using wtns_header_value [OF G bf(2-4) that] by auto
  have "witness_outcome why (prove_witness E device pos time impl bf)"
  proof (cases why)
    case No_header
    then have "contents 1 secs = []" using d by (simp add: witness_defect_def)
    then obtain msg where "startReadSection 1 0 bf = Inl (Range_exn msg)" using section_missing(2) [OF bf(2)] by blast
    then show ?thesis using No_header
      by (simp add: witness_outcome_def prove_witness_def wtns_make_from_bin_file_def and_then_def)
  next
    case Header_long
    then show ?thesis using d wtns_header_long [OF G bf(2-4)]
      by (fastforce simp: witness_defect_def witness_outcome_def prove_witness_def)
  next
    case Other_field
    then obtain q nv cs where q: "contents 1 secs = encode_wtns_header q nv # cs" "length q < 2 ^ 32" "nv < 2 ^ 32"
      "int (bval q) \<noteq> fp_altBbn128r impl" using d by (auto simp: witness_defect_def)
    from H [OF q(1-3)] q(4) show ?thesis using Other_field by (auto simp: witness_outcome_def prove_witness_def mpz_cmp_0 [OF G])
  next
    case No_values
    then obtain q nv cs where q: "contents 1 secs = encode_wtns_header q nv # cs" "length q < 2 ^ 32" "nv < 2 ^ 32"
      "int (bval q) = fp_altBbn128r impl" "contents 2 secs = []" using d by (auto simp: witness_defect_def)
    obtain h b where h: "wtns_make_from_bin_file (e_gmp E) bf = Inr (h, b)" "wh_prime h = int (bval q)" "table_holds b secs"
      using H [OF q(1-3)] by blast
    obtain msg where "getSectionData 2 0 b = Inl (Range_exn msg)" using section_missing(1) [OF h(3) q(5)] by blast
    then show ?thesis using No_values h q(4) by (simp add: witness_outcome_def prove_witness_def mpz_cmp_0 [OF G])
  next
    case Values_short
    then obtain q nv cs where q: "contents 1 secs = encode_wtns_header q nv # cs" "length q < 2 ^ 32" "nv < 2 ^ 32"
      "int (bval q) = fp_altBbn128r impl" "contents 2 secs \<noteq> []"
      "length (encode_file ''wtns'' version secs @ extra) < unat (p_nVars (fp_prover impl)) * 32"
      using d by (auto simp: witness_defect_def)
    obtain h b where h: "wtns_make_from_bin_file (e_gmp E) bf = Inr (h, b)" "wh_prime h = int (bval q)" "table_holds b secs" "bf_data b = bf_data bf"
      using H [OF q(1-3)] by blast
    obtain p where p: "getSectionData 2 0 b = Inr p" using BinFile_sections [OF h(3), of 0 2] q(5) by auto
    let ?ws = "array_at element_of_bytes 32 (bf_data b) (unat p)"
    have "\<forall>x\<in>set ?ws. length x = 4" by (auto simp: array_at_def element_of_bytes_def)
    then have "prove (e_gmp E) (e_g1 E) (e_g2 E) (e_memory1 E) (e_memory2 E) (e_tbb E) (e_fresh E) device pos (fp_prover impl) ?ws = Inl Out_of_bounds"
      using array_at_short [of element_of_bytes 32 "bf_data b" "unat p"] q(6) bf(5) h(4) by (intro prove_short) simp_all
    then show ?thesis using Values_short h(1,2) p q(4) by (simp add: witness_outcome_def prove_witness_def mpz_cmp_0 [OF G])
  qed
  then show ?thesis using bf(1) by (auto simp: FullProver_prove_def FullProverImpl_prove_def FileLoader_delete_def)
qed

subsection \<open>Properties\<close>


text \<open>Three more files: a key that is cut short, one of another protocol, one without its points.\<close>

definition bad_files :: "(string \<times> int \<times> u8 list) list" where
  "bad_files = [(''cut'', 5, [122, 107, 101, 121, 1, 0, 0, 0, 1]), (''plonk'', 6, encode_file ''zkey'' 1 [(1, bytes_of 4 2)]),
     (''empty'', 7, encode_file ''zkey'' 1 [])]"

lemma bad_files_open: "(name, fd, data) \<in> set bad_files \<Longrightarrow> gives_file (sample_os bad_files) name fd data"
  by (auto simp: bad_files_def gives_file_def sample_os_def)




end
