(* ===== verification/Spinlock.thy ===== *)
theory Spinlock
  imports Prelude
begin

section \<open>Spinlocks and the additions under them\<close>

text \<open>
  \<open>aptos::spinlock\<close> of \<open>spinlock.hpp\<close>, and the loop of \<open>Prover::prove\<close> that adds products to the cells
  of two arrays under an array of 1024 such locks, at the granularity of its atomic operations: every
  thread works off its part of the range, the steps of the threads interleave in any order. A cell
  stands for an element of one of the arrays, so cells share locks; values are elements of any
  commutative monoid.
\<close>

subsection \<open>The object\<close>

text \<open>
  \<open>exchange\<close> stores and returns the old value. \<open>lock\<close> repeats it until the old value is 0, with a loop of
  plain loads in between: the steps \<open>exchange_free\<close> to \<open>load_free\<close> below. \<open>try_lock\<close> returns the old value.
\<close>

definition atomic_exchange :: "u32 \<Rightarrow> u32 \<Rightarrow> u32 \<times> u32" where
  "atomic_exchange v desired = (v, desired)"

definition spin_try_lock :: "u32 \<Rightarrow> bool \<times> u32" where
  "spin_try_lock lockable = (let (old, lockable) = atomic_exchange lockable 1 in (old \<noteq> 0, lockable))"

definition spin_unlock :: "u32 \<Rightarrow> u32" where
  "spin_unlock lockable = 0"

text \<open>The result of \<open>try_lock\<close> is the negation of what \<open>std::unique_lock\<close> expects: it is true if the lock was taken.\<close>

lemma spin_try_lock_inverted: "spin_try_lock 0 = (False, 1)" "v \<noteq> 0 \<Longrightarrow> spin_try_lock v = (True, 1)"
  by (simp_all add: spin_try_lock_def atomic_exchange_def)

subsection \<open>The threads\<close>

datatype 'v pc = Next | Exchanging nat 'v | Loading nat 'v | Locked nat 'v | Adding nat 'v 'v | Stored nat 'v

record 'v spin_state =
  s_locks :: "nat \<Rightarrow> u32"
  s_cells :: "nat \<Rightarrow> 'v"
  s_pc :: "nat \<Rightarrow> 'v pc"
  s_work :: "nat \<Rightarrow> (nat \<times> 'v) list"

definition NUM_LOCKS :: nat where
  "NUM_LOCKS = 1024"

definition lock_of :: "nat \<Rightarrow> nat" where
  "lock_of c = c mod NUM_LOCKS"

inductive spin_step :: "nat \<Rightarrow> 'v :: comm_monoid_add spin_state \<Rightarrow> 'v spin_state \<Rightarrow> bool" for t where
  fetch: "s_pc s t = Next \<Longrightarrow> s_work s t = (c, x) # w \<Longrightarrow>
    spin_step t s (s\<lparr>s_pc := (s_pc s)(t := Exchanging c x), s_work := (s_work s)(t := w)\<rparr>)"
| finished: "s_pc s t = Next \<Longrightarrow> s_work s t = [] \<Longrightarrow> spin_step t s s"
| exchange_free: "s_pc s t = Exchanging c x \<Longrightarrow> atomic_exchange (s_locks s (lock_of c)) 1 = (0, v) \<Longrightarrow>
    spin_step t s (s\<lparr>s_pc := (s_pc s)(t := Locked c x), s_locks := (s_locks s)(lock_of c := v)\<rparr>)"
| exchange_taken: "s_pc s t = Exchanging c x \<Longrightarrow> atomic_exchange (s_locks s (lock_of c)) 1 = (old, v) \<Longrightarrow> old \<noteq> 0 \<Longrightarrow>
    spin_step t s (s\<lparr>s_pc := (s_pc s)(t := Loading c x), s_locks := (s_locks s)(lock_of c := v)\<rparr>)"
| load_taken: "s_pc s t = Loading c x \<Longrightarrow> s_locks s (lock_of c) \<noteq> 0 \<Longrightarrow> spin_step t s s"
| load_free: "s_pc s t = Loading c x \<Longrightarrow> s_locks s (lock_of c) = 0 \<Longrightarrow>
    spin_step t s (s\<lparr>s_pc := (s_pc s)(t := Exchanging c x)\<rparr>)"
| read_cell: "s_pc s t = Locked c x \<Longrightarrow> spin_step t s (s\<lparr>s_pc := (s_pc s)(t := Adding c x (s_cells s c))\<rparr>)"
| write_cell: "s_pc s t = Adding c x y \<Longrightarrow>
    spin_step t s (s\<lparr>s_pc := (s_pc s)(t := Stored c x), s_cells := (s_cells s)(c := y + x)\<rparr>)"
| unlock: "s_pc s t = Stored c x \<Longrightarrow>
    spin_step t s (s\<lparr>s_pc := (s_pc s)(t := Next), s_locks := (s_locks s)(lock_of c := spin_unlock (s_locks s (lock_of c)))\<rparr>)"

inductive_cases spin_stepE: "spin_step t s s'"

text \<open>The states that the threads below \<open>n\<close> reach.\<close>

inductive spin_reach :: "nat \<Rightarrow> 'v :: comm_monoid_add spin_state \<Rightarrow> 'v spin_state \<Rightarrow> bool" for n s0 where
  start: "spin_reach n s0 s0"
| step: "spin_reach n s0 s \<Longrightarrow> t < n \<Longrightarrow> spin_step t s s' \<Longrightarrow> spin_reach n s0 s'"

definition spin_init :: "nat \<Rightarrow> 'v spin_state \<Rightarrow> bool" where
  "spin_init n s \<longleftrightarrow> (\<forall>l. s_locks s l = 0) \<and> (\<forall>t<n. s_pc s t = Next)"

subsection \<open>The invariant\<close>

text \<open>The cell that a thread works on inside of its critical section.\<close>

fun holds :: "'v pc \<Rightarrow> nat option" where
  "holds (Locked c x) = Some c"
| "holds (Adding c x y) = Some c"
| "holds (Stored c x) = Some c"
| "holds _ = None"

definition owner :: "'v spin_state \<Rightarrow> nat \<Rightarrow> nat \<Rightarrow> bool" where
  "owner s l t \<longleftrightarrow> (\<exists>c. holds (s_pc s t) = Some c \<and> lock_of c = l)"

text \<open>What a thread has still to add to a cell.\<close>

fun pending_pc :: "nat \<Rightarrow> 'v :: comm_monoid_add pc \<Rightarrow> 'v" where
  "pending_pc k (Exchanging c x) = (if c = k then x else 0)"
| "pending_pc k (Loading c x) = (if c = k then x else 0)"
| "pending_pc k (Locked c x) = (if c = k then x else 0)"
| "pending_pc k (Adding c x y) = (if c = k then x else 0)"
| "pending_pc k _ = 0"

definition work_sum :: "nat \<Rightarrow> (nat \<times> 'v :: comm_monoid_add) list \<Rightarrow> 'v" where
  "work_sum k w = sum_list (map (\<lambda>(c, x). if c = k then x else 0) w)"

definition pending :: "'v :: comm_monoid_add spin_state \<Rightarrow> nat \<Rightarrow> nat \<Rightarrow> 'v" where
  "pending s k t = pending_pc k (s_pc s t) + work_sum k (s_work s t)"

definition spin_inv :: "nat \<Rightarrow> (nat \<Rightarrow> 'v :: comm_monoid_add) \<Rightarrow> 'v spin_state \<Rightarrow> bool" where
  "spin_inv n goal s \<longleftrightarrow>
     (\<forall>l. s_locks s l = 0 \<longleftrightarrow> (\<forall>t<n. \<not> owner s l t))
     \<and> (\<forall>l t u. t < n \<longrightarrow> u < n \<longrightarrow> owner s l t \<longrightarrow> owner s l u \<longrightarrow> t = u)
     \<and> (\<forall>t<n. \<forall>c x y. s_pc s t = Adding c x y \<longrightarrow> y = s_cells s c)
     \<and> (\<forall>k. s_cells s k + (\<Sum>t<n. pending s k t) = goal k)"

lemma spin_inv_init:
  assumes "spin_init n s"
  shows "spin_inv n (\<lambda>k. s_cells s k + (\<Sum>t<n. work_sum k (s_work s t))) s"
  using assms by (auto simp: spin_init_def spin_inv_def owner_def pending_def)

lemma owner_upd: "owner (s\<lparr>s_pc := (s_pc s)(t := p)\<rparr>) l u = (if u = t then \<exists>c. holds p = Some c \<and> lock_of c = l else owner s l u)"
  by (simp add: owner_def)

lemma owner_more [simp]: "owner (s\<lparr>s_pc := f, s_locks := g\<rparr>) = owner (s\<lparr>s_pc := f\<rparr>)"
  "owner (s\<lparr>s_pc := f, s_cells := h\<rparr>) = owner (s\<lparr>s_pc := f\<rparr>)" "owner (s\<lparr>s_pc := f, s_work := w\<rparr>) = owner (s\<lparr>s_pc := f\<rparr>)"
  by (auto simp: owner_def fun_eq_iff)

lemma sum_upd:
  fixes f g :: "nat \<Rightarrow> 'v :: comm_monoid_add"
  assumes "t < n" and "\<And>u. u < n \<Longrightarrow> u \<noteq> t \<Longrightarrow> f u = g u" and "a + f t = b + g t"
  shows "a + (\<Sum>u<n. f u) = b + (\<Sum>u<n. g u)"
proof -
  have fin: "finite {..<n}" "t \<in> {..<n}" using assms(1) by simp_all
  have "(\<Sum>u\<in>{..<n} - {t}. f u) = (\<Sum>u\<in>{..<n} - {t}. g u)" by (rule sum.cong) (auto intro: assms(2))
  then show ?thesis unfolding sum.remove [OF fin, of f] sum.remove [OF fin, of g]
    using assms(3) by (metis add.assoc)
qed

text \<open>A step that leaves the owners alone.\<close>

lemma spin_inv_same:
  assumes "spin_inv n goal s" and own: "owner s' = owner s" and "\<And>l. s_locks s' l = 0 \<longleftrightarrow> s_locks s l = 0"
    and "\<And>u c x y. u < n \<Longrightarrow> s_pc s' u = Adding c x y \<Longrightarrow> y = s_cells s' c"
    and "\<And>k. s_cells s' k + (\<Sum>t<n. pending s' k t) = goal k"
  shows "spin_inv n goal s'"
  unfolding spin_inv_def own assms(3)
proof (intro conjI)
  show "\<forall>t<n. \<forall>c x y. s_pc s' t = Adding c x y \<longrightarrow> y = s_cells s' c" using assms(4) by blast
  show "\<forall>k. s_cells s' k + (\<Sum>t<n. pending s' k t) = goal k" using assms(5) by blast
qed (use assms(1) in \<open>simp_all add: spin_inv_def\<close>)

lemma spin_inv_step:
  assumes I: "spin_inv n goal s" and t: "t < n" and "spin_step t s s'"
  shows "spin_inv n goal s'"
proof -
  have free: "s_locks s l = 0 \<longleftrightarrow> (\<forall>t<n. \<not> owner s l t)" for l using I by (simp add: spin_inv_def)
  have one: "u = v" if "u < n" "v < n" "owner s l u" "owner s l v" for l u v using I that by (simp add: spin_inv_def)
  have seen: "y = s_cells s c" if "u < n" "s_pc s u = Adding c x y" for u c x y using I that unfolding spin_inv_def by blast
  have sums: "s_cells s k + (\<Sum>t<n. pending s k t) = goal k" for k using I by (simp add: spin_inv_def)
  have held: "u = t" if "u < n" "holds (s_pc s t) = Some c" "owner s (lock_of c) u" for u c
    using one [OF that(1) t that(3)] that(2) by (auto simp: owner_def)
  have other: "lock_of c' \<noteq> lock_of c" if "u < n" "u \<noteq> t" "holds (s_pc s t) = Some c" "holds (s_pc s u) = Some c'" for u c c'
    using held [OF that(1,3)] that(2,4) by (auto simp: owner_def)
  show ?thesis using assms(3)
  proof cases
    case (fetch c x w)
    have own: "owner s' = owner s" using fetch by (auto simp: owner_def fun_eq_iff)
    have total_k: "s_cells s' k + (\<Sum>u<n. pending s' k u) = goal k" for k
      unfolding sums [of k, symmetric] using fetch by (intro sum_upd [OF t]) (auto simp: pending_def work_sum_def)
    have adding: "y = s_cells s' c'" if "u < n" "s_pc s' u = Adding c' x' y" for u c' x' y
      using seen [OF that(1), of c' x' y] that fetch by (auto split: if_splits)
    show ?thesis by (rule spin_inv_same [OF I own _ adding total_k]) (simp_all add: fetch)
  next
    case finished
    then show ?thesis using I by simp
  next
    case (exchange_free c x v)
    have v: "s_locks s (lock_of c) = 0" "v = 1" using exchange_free by (simp_all add: atomic_exchange_def)
    have own: "owner s' l u = (if u = t then l = lock_of c else owner s l u)" for l u using exchange_free by (auto simp: owner_def)
    have none: "\<not> owner s (lock_of c) u" if "u < n" for u using free v that by blast
    have "s_locks s' l = 0 \<longleftrightarrow> (\<forall>u<n. \<not> owner s' l u)" for l
    proof (cases "l = lock_of c")
      case True
      then show ?thesis using t unfolding own by (auto simp: exchange_free(1) v(2))
    next
      case False
      then have "s_locks s' l = s_locks s l" using exchange_free(1) by simp
      moreover have "\<not> owner s l t" using exchange_free(2) by (simp add: owner_def)
      ultimately show ?thesis using free [of l] False unfolding own by metis
    qed
    moreover have "a = b" if "a < n" "b < n" "owner s' l a" "owner s' l b" for l a b
      using that one [of a b l] none unfolding own by (auto split: if_splits)
    moreover have "s_cells s' k + (\<Sum>u<n. pending s' k u) = goal k" for k
      unfolding sums [of k, symmetric] using exchange_free by (intro sum_upd [OF t]) (auto simp: pending_def)
    moreover have "y = s_cells s' c'" if "u < n" "s_pc s' u = Adding c' x' y" for u c' x' y
      using seen [OF that(1), of c' x' y] that exchange_free by (auto split: if_splits)
    ultimately show ?thesis unfolding spin_inv_def by blast
  next
    case (exchange_taken c x old v)
    have v: "s_locks s (lock_of c) \<noteq> 0" "v = 1" using exchange_taken by (auto simp: atomic_exchange_def)
    have own: "owner s' = owner s" using exchange_taken by (auto simp: owner_def fun_eq_iff)
    have total_k: "s_cells s' k + (\<Sum>u<n. pending s' k u) = goal k" for k
      unfolding sums [of k, symmetric] using exchange_taken by (intro sum_upd [OF t]) (auto simp: pending_def)
    have adding: "y = s_cells s' c'" if "u < n" "s_pc s' u = Adding c' x' y" for u c' x' y
      using seen [OF that(1), of c' x' y] that exchange_taken by (auto split: if_splits)
    show ?thesis by (rule spin_inv_same [OF I own _ adding total_k]) (auto simp: v exchange_taken(1))
  next
    case (load_taken c x)
    then show ?thesis using I by simp
  next
    case (load_free c x)
    have own: "owner s' = owner s" using load_free by (auto simp: owner_def fun_eq_iff)
    have total_k: "s_cells s' k + (\<Sum>u<n. pending s' k u) = goal k" for k
      unfolding sums [of k, symmetric] using load_free by (intro sum_upd [OF t]) (auto simp: pending_def)
    have adding: "y = s_cells s' c'" if "u < n" "s_pc s' u = Adding c' x' y" for u c' x' y
      using seen [OF that(1), of c' x' y] that load_free by (auto split: if_splits)
    show ?thesis by (rule spin_inv_same [OF I own _ adding total_k]) (simp_all add: load_free)
  next
    case (read_cell c x)
    have own: "owner s' = owner s" using read_cell by (auto simp: owner_def fun_eq_iff)
    have total_k: "s_cells s' k + (\<Sum>u<n. pending s' k u) = goal k" for k
      unfolding sums [of k, symmetric] using read_cell by (intro sum_upd [OF t]) (auto simp: pending_def)
    have adding: "y = s_cells s' c'" if "u < n" "s_pc s' u = Adding c' x' y" for u c' x' y
      using seen [OF that(1), of c' x' y] that read_cell by (auto split: if_splits)
    show ?thesis by (rule spin_inv_same [OF I own _ adding total_k]) (simp_all add: read_cell)
  next
    case (write_cell c x y)
    have own: "owner s' = owner s" using write_cell by (auto simp: owner_def fun_eq_iff)
    have y: "y = s_cells s c" by (rule seen [OF t write_cell(2)])
    have total_k: "s_cells s' k + (\<Sum>u<n. pending s' k u) = goal k" for k
      unfolding sums [of k, symmetric] using write_cell y
      by (intro sum_upd [OF t]) (auto simp: pending_def add.assoc)
    have adding: "y' = s_cells s' c'" if "u < n" "s_pc s' u = Adding c' x' y'" for u c' x' y'
    proof -
      have ut: "u \<noteq> t" "s_pc s u = Adding c' x' y'" using that(2) write_cell by (auto split: if_splits)
      have "lock_of c' \<noteq> lock_of c" using other [OF that(1) ut(1), of c c'] ut(2) write_cell(2) by simp
      then have "c' \<noteq> c" by blast
      then show ?thesis using seen [OF that(1) ut(2)] write_cell(1) by simp
    qed
    show ?thesis by (rule spin_inv_same [OF I own _ adding total_k]) (simp_all add: write_cell)
  next
    case (unlock c x)
    have own: "owner s' l u = (u \<noteq> t \<and> owner s l u)" for l u using unlock by (auto simp: owner_def)
    have o: "owner s l t \<longleftrightarrow> l = lock_of c" for l using unlock(2) by (auto simp: owner_def)
    have h: "holds (s_pc s t) = Some c" using unlock(2) by simp
    have "s_locks s' l = 0 \<longleftrightarrow> (\<forall>u<n. \<not> owner s' l u)" for l
    proof (cases "l = lock_of c")
      case True
      then have "\<forall>u<n. \<not> owner s' l u" using held [OF _ h] unfolding own by blast
      then show ?thesis using True unlock(1) by (simp add: spin_unlock_def)
    next
      case False
      then have "s_locks s' l = s_locks s l" using unlock(1) by simp
      then show ?thesis using free [of l] False o unfolding own by auto
    qed
    moreover have "a = b" if "a < n" "b < n" "owner s' l a" "owner s' l b" for l a b
      using that one unfolding own by blast
    moreover have "s_cells s' k + (\<Sum>u<n. pending s' k u) = goal k" for k
      unfolding sums [of k, symmetric] using unlock by (intro sum_upd [OF t]) (auto simp: pending_def)
    moreover have "y = s_cells s' c'" if "u < n" "s_pc s' u = Adding c' x' y" for u c' x' y
      using seen [OF that(1), of c' x' y] that unlock by (auto split: if_splits)
    ultimately show ?thesis unfolding spin_inv_def by blast
  qed
qed

lemma spin_inv_reach: "spin_reach n s0 s \<Longrightarrow> spin_inv n goal s0 \<Longrightarrow> spin_inv n goal s"
  by (induction rule: spin_reach.induct) (auto intro: spin_inv_step)

subsection \<open>Progress\<close>

fun rank :: "'v pc \<Rightarrow> nat" where
  "rank Next = 0"
| "rank (Exchanging c x) = 4"
| "rank (Loading c x) = 4"
| "rank (Locked c x) = 3"
| "rank (Adding c x y) = 2"
| "rank (Stored c x) = 1"

definition remaining :: "nat \<Rightarrow> 'v spin_state \<Rightarrow> nat" where
  "remaining n s = (\<Sum>t<n. 5 * length (s_work s t) + rank (s_pc s t))"

text \<open>A step that does not bring the work forward: a thread that has finished, or one that spins.\<close>

definition spins :: "'v spin_state \<Rightarrow> nat \<Rightarrow> 'v spin_state \<Rightarrow> bool" where
  "spins s t s' \<longleftrightarrow> (\<forall>u. u \<noteq> t \<longrightarrow> s_pc s' u = s_pc s u) \<and> s_work s' = s_work s
     \<and> (s_pc s t = Next \<and> s_work s t = [] \<and> s_pc s' t = Next
       \<or> (\<exists>c x. s_pc s t = Exchanging c x \<and> s_locks s (lock_of c) \<noteq> 0)
       \<or> (\<exists>c x. s_pc s t = Loading c x \<and> (if s_locks s (lock_of c) = 0 then s_pc s' t = Exchanging c x else s_pc s' t = Loading c x)))"

lemma remaining_upd:
  assumes "t < n" and "\<And>u. u \<noteq> t \<Longrightarrow> s_work s' u = s_work s u \<and> s_pc s' u = s_pc s u"
  shows "5 * length (s_work s' t) + rank (s_pc s' t) < 5 * length (s_work s t) + rank (s_pc s t) \<Longrightarrow> remaining n s' < remaining n s"
    and "5 * length (s_work s' t) + rank (s_pc s' t) = 5 * length (s_work s t) + rank (s_pc s t) \<Longrightarrow> remaining n s' = remaining n s"
proof -
  have fin: "finite {..<n}" "t \<in> {..<n}" using assms(1) by simp_all
  have "(\<Sum>u\<in>{..<n} - {t}. 5 * length (s_work s' u) + rank (s_pc s' u)) = (\<Sum>u\<in>{..<n} - {t}. 5 * length (s_work s u) + rank (s_pc s u))"
    by (rule sum.cong) (auto simp: assms(2))
  then show "5 * length (s_work s' t) + rank (s_pc s' t) < 5 * length (s_work s t) + rank (s_pc s t) \<Longrightarrow> remaining n s' < remaining n s"
    and "5 * length (s_work s' t) + rank (s_pc s' t) = 5 * length (s_work s t) + rank (s_pc s t) \<Longrightarrow> remaining n s' = remaining n s"
    unfolding remaining_def sum.remove [OF fin, of "\<lambda>u. 5 * length (s_work s' u) + rank (s_pc s' u)"]
      sum.remove [OF fin, of "\<lambda>u. 5 * length (s_work s u) + rank (s_pc s u)"] by simp_all
qed

lemma step_progress:
  assumes "t < n" and "spin_step t s s'"
  shows "remaining n s' < remaining n s \<or> remaining n s' = remaining n s \<and> spins s t s'"
  using assms(2)
proof cases
  case (fetch c x w)
  have "remaining n s' < remaining n s" by (rule remaining_upd(1) [OF assms(1)]) (use fetch in auto)
  then show ?thesis by simp
next
  case finished
  then show ?thesis by (simp add: spins_def)
next
  case (exchange_free c x v)
  have "remaining n s' < remaining n s" by (rule remaining_upd(1) [OF assms(1)]) (use exchange_free in auto)
  then show ?thesis by simp
next
  case (exchange_taken c x old v)
  have "remaining n s' = remaining n s" by (rule remaining_upd(2) [OF assms(1)]) (use exchange_taken in auto)
  moreover have "spins s t s'" using exchange_taken by (auto simp: spins_def atomic_exchange_def)
  ultimately show ?thesis by simp
next
  case (load_taken c x)
  then show ?thesis by (simp add: spins_def)
next
  case (load_free c x)
  have "remaining n s' = remaining n s" by (rule remaining_upd(2) [OF assms(1)]) (use load_free in auto)
  then show ?thesis using load_free by (simp add: spins_def)
next
  case (read_cell c x)
  have "remaining n s' < remaining n s" by (rule remaining_upd(1) [OF assms(1)]) (use read_cell in auto)
  then show ?thesis by simp
next
  case (write_cell c x y)
  have "remaining n s' < remaining n s" by (rule remaining_upd(1) [OF assms(1)]) (use write_cell in auto)
  then show ?thesis by simp
next
  case (unlock c x)
  have "remaining n s' < remaining n s" by (rule remaining_upd(1) [OF assms(1)]) (use unlock in auto)
  then show ?thesis by simp
qed

text \<open>Infinite runs under a schedule that gives every thread its turn again and again.\<close>

definition spin_run :: "nat \<Rightarrow> (nat \<Rightarrow> nat) \<Rightarrow> (nat \<Rightarrow> 'v :: comm_monoid_add spin_state) \<Rightarrow> bool" where
  "spin_run n \<tau> \<sigma> \<longleftrightarrow> (\<forall>i. \<tau> i < n \<and> spin_step (\<tau> i) (\<sigma> i) (\<sigma> (Suc i)))"

definition fair :: "nat \<Rightarrow> (nat \<Rightarrow> nat) \<Rightarrow> bool" where
  "fair n \<tau> \<longleftrightarrow> (\<forall>t<n. \<forall>i. \<exists>j\<ge>i. \<tau> j = t)"

lemma spin_run_inv: "spin_run n \<tau> \<sigma> \<Longrightarrow> spin_inv n goal (\<sigma> 0) \<Longrightarrow> spin_inv n goal (\<sigma> i)"
  by (induction i) (auto simp: spin_run_def intro: spin_inv_step)

lemma run_eventually:
  assumes run: "spin_run n \<tau> \<sigma>" and fair: "fair n \<tau>" and inv: "\<And>i. spin_inv n goal (\<sigma> i)"
    and rest: "0 < remaining n (\<sigma> i)"
  shows "\<exists>j>i. remaining n (\<sigma> j) < remaining n (\<sigma> i)"
proof (rule ccontr)
  assume no: "\<not> (\<exists>j>i. remaining n (\<sigma> j) < remaining n (\<sigma> i))"
  have P: "remaining n (\<sigma> (Suc j)) < remaining n (\<sigma> j) \<or> remaining n (\<sigma> (Suc j)) = remaining n (\<sigma> j) \<and> spins (\<sigma> j) (\<tau> j) (\<sigma> (Suc j))" for j
    using run step_progress [of "\<tau> j" n "\<sigma> j" "\<sigma> (Suc j)"] by (simp add: spin_run_def)
  have const: "remaining n (\<sigma> j) = remaining n (\<sigma> i)" if "i \<le> j" for j
    using that
  proof (induction j rule: dec_induct)
    case (step j)
    then show ?case using P [of j] no by (metis le_imp_less_Suc)
  qed simp
  have idle: "spins (\<sigma> j) (\<tau> j) (\<sigma> (Suc j))" if "i \<le> j" for j
    using P [of j] const [OF that] const [of "Suc j"] that by simp
  have turn: "\<exists>j\<ge>k. \<tau> j = t \<and> s_pc (\<sigma> j) t = s_pc (\<sigma> k) t \<and> s_work (\<sigma> j) t = s_work (\<sigma> k) t" if "t < n" "i \<le> k" for t k
  proof -
    define j where "j = (LEAST j. k \<le> j \<and> \<tau> j = t)"
    have "\<exists>j. k \<le> j \<and> \<tau> j = t" using fair that(1) by (auto simp: fair_def)
    then have j: "k \<le> j" "\<tau> j = t" unfolding j_def using LeastI_ex [of "\<lambda>j. k \<le> j \<and> \<tau> j = t"] by simp_all
    have "s_pc (\<sigma> m) t = s_pc (\<sigma> k) t \<and> s_work (\<sigma> m) t = s_work (\<sigma> k) t" if "k \<le> m" "m \<le> j" for m
      using that
    proof (induction m rule: dec_induct)
      case (step m)
      then have "\<not> (k \<le> m \<and> \<tau> m = t)" using not_less_Least [of m "\<lambda>j. k \<le> j \<and> \<tau> j = t"] by (simp add: j_def)
      then have "\<tau> m \<noteq> t" using step.hyps by simp
      then show ?case using idle [of m] step \<open>i \<le> k\<close> by (simp add: spins_def)
    qed simp
    from this [of j] j show ?thesis by blast
  qed
  have out: "holds (s_pc (\<sigma> k) t) = None" if t: "t < n" and k: "i \<le> k" for t k
  proof -
    obtain j where j: "k \<le> j" "\<tau> j = t" "s_pc (\<sigma> j) t = s_pc (\<sigma> k) t" using turn [OF t k] by blast
    then show ?thesis using idle [of j] k unfolding spins_def by auto
  qed
  then have locks: "s_locks (\<sigma> k) l = 0" if "i \<le> k" for k l
    using inv [of k] that by (auto simp: spin_inv_def owner_def)
  have no_exch: "s_pc (\<sigma> k) t \<noteq> Exchanging c x" if t: "t < n" and k: "i \<le> k" for t k c x
  proof
    assume e: "s_pc (\<sigma> k) t = Exchanging c x"
    obtain j where j: "k \<le> j" "\<tau> j = t" "s_pc (\<sigma> j) t = s_pc (\<sigma> k) t" using turn [OF t k] by blast
    then show False using idle [of j] locks [of j] k e unfolding spins_def by auto
  qed
  obtain t where t: "t < n" "0 < 5 * length (s_work (\<sigma> i) t) + rank (s_pc (\<sigma> i) t)"
  proof -
    have "remaining n (\<sigma> i) = 0" if "\<forall>t<n. 5 * length (s_work (\<sigma> i) t) + rank (s_pc (\<sigma> i) t) = 0"
      unfolding remaining_def by (rule sum.neutral) (use that in auto)
    then have "\<exists>t<n. 5 * length (s_work (\<sigma> i) t) + rank (s_pc (\<sigma> i) t) \<noteq> 0" using rest by (metis less_irrefl)
    then obtain u where "u < n" "5 * length (s_work (\<sigma> i) u) + rank (s_pc (\<sigma> i) u) \<noteq> 0" by blast
    then show ?thesis by (intro that [of u]) auto
  qed
  obtain j where j: "i \<le> j" "\<tau> j = t" "s_pc (\<sigma> j) t = s_pc (\<sigma> i) t" "s_work (\<sigma> j) t = s_work (\<sigma> i) t"
    using turn [OF t(1) order_refl] by blast
  show False
  proof (cases "s_pc (\<sigma> i) t")
    case Next
    then show False using idle [OF j(1)] j t(2) unfolding spins_def by auto
  next
    case (Loading c x)
    then have "s_pc (\<sigma> (Suc j)) t = Exchanging c x" using idle [OF j(1)] j locks [OF j(1)] unfolding spins_def by auto
    then show False using no_exch [OF t(1)] j(1) by (metis le_Suc_eq)
  qed (use out [OF t(1) order_refl] no_exch [OF t(1) order_refl] in auto)
qed

lemma run_finishes:
  assumes run: "spin_run n \<tau> \<sigma>" and fair: "fair n \<tau>" and inv: "\<And>i. spin_inv n goal (\<sigma> i)"
  shows "\<exists>j\<ge>i. remaining n (\<sigma> j) = 0"
proof (induction "remaining n (\<sigma> i)" arbitrary: i rule: less_induct)
  case less
  show ?case
  proof (cases "remaining n (\<sigma> i) = 0")
    case False
    then obtain j where "i < j" "remaining n (\<sigma> j) < remaining n (\<sigma> i)" using run_eventually [OF run fair inv, of i] by auto
    then show ?thesis using less [of j] by (meson less_imp_le order_trans)
  qed auto
qed

lemma finished_cells:
  assumes "spin_inv n goal s" and "remaining n s = 0"
  shows "\<forall>t<n. s_pc s t = Next \<and> s_work s t = []" and "s_cells s k = goal k"
proof -
  show w: "\<forall>t<n. s_pc s t = Next \<and> s_work s t = []"
  proof (intro allI impI)
    fix t assume "t < n"
    then have "5 * length (s_work s t) + rank (s_pc s t) = 0" using assms(2) by (simp add: remaining_def)
    then show "s_pc s t = Next \<and> s_work s t = []" by (cases "s_pc s t") simp_all
  qed
  then have "(\<Sum>t<n. pending s k t) = 0" by (intro sum.neutral) (simp add: pending_def work_sum_def)
  then show "s_cells s k = goal k" using assms(1) unfolding spin_inv_def by (metis add.right_neutral)
qed

text \<open>The step that the program takes, computed.\<close>

fun spin_next :: "nat \<Rightarrow> 'v :: comm_monoid_add spin_state \<Rightarrow> 'v spin_state" where
  "spin_next t s = (case s_pc s t of
     Next \<Rightarrow> (case s_work s t of [] \<Rightarrow> s | (c, x) # w \<Rightarrow> s\<lparr>s_pc := (s_pc s)(t := Exchanging c x), s_work := (s_work s)(t := w)\<rparr>)
   | Exchanging c x \<Rightarrow> (case atomic_exchange (s_locks s (lock_of c)) 1 of (old, v) \<Rightarrow>
       s\<lparr>s_pc := (s_pc s)(t := if old = 0 then Locked c x else Loading c x), s_locks := (s_locks s)(lock_of c := v)\<rparr>)
   | Loading c x \<Rightarrow> (if s_locks s (lock_of c) = 0 then s\<lparr>s_pc := (s_pc s)(t := Exchanging c x)\<rparr> else s)
   | Locked c x \<Rightarrow> s\<lparr>s_pc := (s_pc s)(t := Adding c x (s_cells s c))\<rparr>
   | Adding c x y \<Rightarrow> s\<lparr>s_pc := (s_pc s)(t := Stored c x), s_cells := (s_cells s)(c := y + x)\<rparr>
   | Stored c x \<Rightarrow> s\<lparr>s_pc := (s_pc s)(t := Next), s_locks := (s_locks s)(lock_of c := spin_unlock (s_locks s (lock_of c)))\<rparr>)"

lemma spin_next_step: "spin_step t s (spin_next t s)"
  by (auto split: pc.split list.split prod.split intro: spin_step.intros)

text \<open>The steps are deterministic: the schedule alone decides about a run.\<close>

lemma spin_step_iff: "spin_step t s s' \<longleftrightarrow> s' = spin_next t s"
proof
  show "s' = spin_next t s" if "spin_step t s s'" using that by cases (auto simp: atomic_exchange_def)
qed (simp add: spin_next_step del: spin_next.simps)

lemma remaining_antimono:
  assumes "spin_run n \<tau> \<sigma>" and "i \<le> j"
  shows "remaining n (\<sigma> j) \<le> remaining n (\<sigma> i)"
  using assms(2)
proof (induction j rule: dec_induct)
  case (step j)
  have "remaining n (\<sigma> (Suc j)) \<le> remaining n (\<sigma> j)"
    using assms(1) step_progress [of "\<tau> j" n "\<sigma> j" "\<sigma> (Suc j)"] by (auto simp: spin_run_def)
  then show ?case using step by simp
qed simp

lemma run_reach: "spin_run n \<tau> \<sigma> \<Longrightarrow> spin_reach n (\<sigma> 0) (\<sigma> i)"
  by (induction i) (auto simp: spin_run_def intro: spin_reach.intros)

lemma run_from_init:
  assumes run: "spin_run n \<tau> \<sigma>" and fair: "fair n \<tau>" and init: "spin_init n (\<sigma> 0)"
  shows "\<exists>j. \<forall>i\<ge>j. (\<forall>t<n. s_pc (\<sigma> i) t = Next \<and> s_work (\<sigma> i) t = [])
    \<and> (\<forall>k. s_cells (\<sigma> i) k = s_cells (\<sigma> 0) k + (\<Sum>t<n. work_sum k (s_work (\<sigma> 0) t)))"
proof -
  have inv: "spin_inv n (\<lambda>k. s_cells (\<sigma> 0) k + (\<Sum>t<n. work_sum k (s_work (\<sigma> 0) t))) (\<sigma> i)" for i
    by (rule spin_run_inv [OF run spin_inv_init [OF init]])
  obtain j where j: "remaining n (\<sigma> j) = 0" using run_finishes [OF run fair inv] by blast
  have "remaining n (\<sigma> i) = 0" if "j \<le> i" for i using remaining_antimono [OF run that] j by simp
  then show ?thesis using finished_cells [OF inv] by blast
qed

subsection \<open>Properties\<close>

text \<open>
  C8. Mutual exclusion: in every state that threads reach from unlocked locks, a lock word is 0 exactly if
  no thread is in a critical section under that lock, and two threads are never both in one, however the
  steps interleave.
\<close>

theorem spinlock_excludes:
  assumes "spin_init n s0" and "spin_reach n s0 s"
  shows "(s_locks s l = 0 \<longleftrightarrow> (\<forall>t<n. \<not> owner s l t)) \<and> (\<forall>t u. t < n \<and> u < n \<and> owner s l t \<and> owner s l u \<longrightarrow> t = u)"
  using spin_inv_reach [OF assms(2) spin_inv_init [OF assms(1)]] unfolding spin_inv_def by blast

definition sample_spin :: "nat spin_state" where
  "sample_spin = \<lparr>s_locks = \<lambda>l. 0, s_cells = \<lambda>c. c, s_pc = \<lambda>t. Next, s_work = (\<lambda>t. [(5, t + 1), (1029, 7)])\<rparr>"

lemma sample_spin_init: "spin_init n sample_spin"
  by (simp add: spin_init_def sample_spin_def)

lemma sample_spin_reach:
  "spin_reach 2 sample_spin (spin_next 1 (spin_next 0 (spin_next 1 (spin_next 0 sample_spin))))"
  by (intro spin_reach.step [OF _ _ spin_next_step] spin_reach.start) simp_all

text \<open>Both threads want cell 5: the first one has its lock, the second one spins.\<close>

theorem spinlock_excludes_witness:
  "s_locks (spin_next 1 (spin_next 0 (spin_next 1 (spin_next 0 sample_spin)))) 5 \<noteq> 0
   \<and> \<not> owner (spin_next 1 (spin_next 0 (spin_next 1 (spin_next 0 sample_spin)))) 5 1"
proof -
  have o: "owner (spin_next 1 (spin_next 0 (spin_next 1 (spin_next 0 sample_spin)))) 5 0"
    by (simp add: sample_spin_def owner_def atomic_exchange_def lock_of_def NUM_LOCKS_def)
  show ?thesis using spinlock_excludes [OF sample_spin_init sample_spin_reach, of 5] o
    by (metis one_less_numeral_iff pos2 semiring_norm(76) zero_neq_one)
qed

text \<open>
  C7. The additions under the locks finish and none is lost: under every schedule that gives each thread
  its turn again and again, there is a point from which on every thread has worked off its part, and every
  cell holds its initial value plus everything that any thread had to add to it. So the spinning neither
  deadlocks nor starves the loop, and the result is that of the additions made one after the other.
\<close>

theorem locked_additions_finish:
  assumes "spin_run n \<tau> \<sigma>" and "fair n \<tau>" and "spin_init n (\<sigma> 0)"
  shows "\<exists>j. \<forall>i\<ge>j. (\<forall>t<n. s_pc (\<sigma> i) t = Next \<and> s_work (\<sigma> i) t = [])
    \<and> (\<forall>k. s_cells (\<sigma> i) k = s_cells (\<sigma> 0) k + (\<Sum>t<n. work_sum k (s_work (\<sigma> 0) t)))"
  by (rule run_from_init [OF assms])

primrec sample_run :: "nat \<Rightarrow> nat spin_state" where
  "sample_run 0 = sample_spin"
| "sample_run (Suc i) = spin_next (i mod 2) (sample_run i)"

lemma sample_run_run: "spin_run 2 (\<lambda>i. i mod 2) sample_run"
  by (simp add: spin_run_def spin_next_step del: spin_next.simps)

lemma sample_run_fair: "fair 2 (\<lambda>i. i mod 2)"
proof -
  have "\<exists>j\<ge>i. j mod 2 = t" if "t < 2" for t i :: nat
    using that by (intro exI [of _ "2 * i + t"]) auto
  then show ?thesis by (simp add: fair_def)
qed

theorem locked_additions_finish_witness:
  "\<exists>j. s_pc (sample_run j) 0 = Next \<and> s_pc (sample_run j) 1 = Next \<and> s_cells (sample_run j) 5 = 8 \<and> s_cells (sample_run j) 1029 = 1043"
proof -
  obtain j where j: "\<forall>i\<ge>j. (\<forall>t<2. s_pc (sample_run i) t = Next \<and> s_work (sample_run i) t = [])
    \<and> (\<forall>k. s_cells (sample_run i) k = s_cells (sample_run 0) k + (\<Sum>t<2. work_sum k (s_work (sample_run 0) t)))"
    using locked_additions_finish [OF sample_run_run sample_run_fair] sample_spin_init by auto
  then have "s_pc (sample_run j) 0 = Next" "s_pc (sample_run j) 1 = Next"
    and "s_cells (sample_run j) k = s_cells sample_spin k + (\<Sum>t<2. work_sum k (s_work sample_spin t))" for k by simp_all
  then show ?thesis by (intro exI [of _ j]) (simp add: sample_spin_def work_sum_def numeral_2_eq_2)
qed

end
