(* ===== verification/Icicle.thy ===== *)
theory Icicle
  imports Groth16
begin

section \<open>The GPU adapter\<close>

text \<open>
  \<open>aptos::icicle\<close> of \<open>icicle_adapter.hpp\<close> and \<open>icicle_adapter.cpp\<close>, with the dispatch in \<open>multiexp.cpp\<close> and
  \<open>fft.cpp\<close> that tries the GPU before the loops of the other theories. The build always defines
  \<open>USE_ICICLE_GPU\<close>. The library Icicle is a submodule that is not part of the repository: its functions,
  its default configurations, its projective points and the state of its device are parameters. The
  functions run under a mutex or once only, so they are steps on one state.
\<close>

subsection \<open>The library\<close>

datatype icicle_error = EI_SUCCESS | EI_ERROR nat

datatype ntt_dir = kForward | kInverse

datatype ntt_ordering = kNN | kNR | kRN | kRR | kNM | kMN

text \<open>The fields that the adapter sets.\<close>

record msm_config =
  mc_batch_size :: int
  mc_are_points_shared_in_batch :: bool
  mc_are_scalars_on_device :: bool
  mc_are_points_on_device :: bool
  mc_are_results_on_device :: bool
  mc_is_async :: bool
  mc_are_scalars_montgomery_form :: bool
  mc_are_points_montgomery_form :: bool
  mc_bitsize :: int

record ntt_config =
  nc_batch_size :: int
  nc_are_inputs_on_device :: bool
  nc_are_outputs_on_device :: bool
  nc_is_async :: bool
  nc_ordering :: ntt_ordering

text \<open>Over the state of the device and the projective points of the two groups.\<close>

record ('d, 'p, 'q) icicle =
  ic_load_backend_from_env_or_default :: icicle_error
  ic_get_device_count :: "icicle_error \<times> int"
  ic_set_default_device :: "string \<Rightarrow> int \<Rightarrow> icicle_error"
  ic_default_msm_config :: msm_config
  ic_default_ntt_config :: ntt_config
  ic_omega :: "u32 \<Rightarrow> limbs"
  ic_ntt_init_domain :: "limbs \<Rightarrow> 'd \<Rightarrow> icicle_error \<times> 'd"
  ic_ntt :: "limbs list \<Rightarrow> int \<Rightarrow> ntt_dir \<Rightarrow> ntt_config \<Rightarrow> 'd \<Rightarrow> icicle_error \<times> limbs list"
  ic_msm_g1 :: "limbs list \<Rightarrow> limbs affine list \<Rightarrow> int \<Rightarrow> msm_config \<Rightarrow> icicle_error \<times> 'p"
  ic_g1_z_is_zero :: "'p \<Rightarrow> bool"
  ic_g1_to_affine :: "'p \<Rightarrow> limbs affine"
  ic_msm_g2 :: "limbs list \<Rightarrow> limbs f2_element affine list \<Rightarrow> int \<Rightarrow> msm_config \<Rightarrow> icicle_error \<times> 'q"
  ic_g2_z_c0_is_zero :: "'q \<Rightarrow> bool"
  ic_g2_z_c1_is_zero :: "'q \<Rightarrow> bool"
  ic_g2_to_affine :: "'q \<Rightarrow> limbs f2_element affine"

subsection \<open>The state of the adapter\<close>

record 'd icicle_state =
  init_flag :: bool
  init_success :: bool
  initialized_domains :: "u32 set"
  ic_device :: 'd

subsection \<open>Copies\<close>

definition LIMB_COUNT :: nat where
  "LIMB_COUNT = 4"

definition copy_scalar_to_icicle :: "limbs \<Rightarrow> limbs \<Rightarrow> limbs" where
  "copy_scalar_to_icicle src dst = foldl (\<lambda>dst i. dst[i := src ! i]) dst [0..<LIMB_COUNT]"

definition copy_scalar_from_icicle :: "limbs \<Rightarrow> limbs \<Rightarrow> limbs" where
  "copy_scalar_from_icicle src dst = foldl (\<lambda>dst i. dst[i := src ! i]) dst [0..<LIMB_COUNT]"

definition copy_fq_to_icicle :: "limbs \<Rightarrow> limbs \<Rightarrow> limbs" where
  "copy_fq_to_icicle src dst = foldl (\<lambda>dst i. dst[i := src ! i]) dst [0..<LIMB_COUNT]"

definition copy_fq_from_icicle :: "limbs \<Rightarrow> limbs \<Rightarrow> limbs" where
  "copy_fq_from_icicle src dst = foldl (\<lambda>dst i. dst[i := src ! i]) dst [0..<LIMB_COUNT]"

definition copy_f2_to_icicle :: "limbs f2_element \<Rightarrow> limbs f2_element \<Rightarrow> limbs f2_element" where
  "copy_f2_to_icicle src dst = foldl (\<lambda>dst i. f2 ((f2a dst)[i := f2a src ! i]) ((f2b dst)[i := f2b src ! i])) dst [0..<LIMB_COUNT]"

definition copy_f2_from_icicle :: "limbs f2_element \<Rightarrow> limbs f2_element \<Rightarrow> limbs f2_element" where
  "copy_f2_from_icicle src dst = foldl (\<lambda>dst i. f2 ((f2a dst)[i := f2a src ! i]) ((f2b dst)[i := f2b src ! i])) dst [0..<LIMB_COUNT]"

text \<open>An element before it is assigned.\<close>

definition blank :: limbs where
  "blank = replicate LIMB_COUNT 0"

subsection \<open>Initialisation\<close>

definition initialize_once :: "('d, 'p, 'q) icicle \<Rightarrow> bool" where
  "initialize_once I =
     (if ic_load_backend_from_env_or_default I \<noteq> EI_SUCCESS then False
      else let (err, device_count) = ic_get_device_count I in
      if err \<noteq> EI_SUCCESS \<or> device_count \<le> 0 then False
      else if ic_set_default_device I ''CUDA'' 0 = EI_SUCCESS then True
      else False)"

definition initialize :: "('d, 'p, 'q) icicle \<Rightarrow> 'd icicle_state \<Rightarrow> bool \<times> 'd icicle_state" where
  "initialize I st =
     (let st = (if init_flag st then st else st\<lparr>init_flag := True, init_success := initialize_once I\<rparr>)
      in (init_success st, st))"

definition ensure_domain :: "('d, 'p, 'q) icicle \<Rightarrow> u32 \<Rightarrow> 'd icicle_state \<Rightarrow> bool \<times> 'd icicle_state" where
  "ensure_domain I logn st =
     (if logn \<in> initialized_domains st then (True, st)
      else let primitive_root = ic_omega I logn;
               (status, d) = ic_ntt_init_domain I primitive_root (ic_device st);
               st = st\<lparr>ic_device := d\<rparr>
      in if status \<noteq> EI_SUCCESS then (False, st)
         else (True, st\<lparr>initialized_domains := insert logn (initialized_domains st)\<rparr>))"

definition is_power_of_two :: "u64 \<Rightarrow> bool" where
  "is_power_of_two v \<longleftrightarrow> v \<noteq> 0 \<and> v AND (v - 1) = 0"

text \<open>\<open>static_cast<int>\<close> of a 64-bit count.\<close>

definition int_cast :: "u64 \<Rightarrow> int" where
  "int_cast n = sint (ucast n :: 32 word)"

subsection \<open>Sums of multiples\<close>

definition set_msm_config :: "msm_config \<Rightarrow> msm_config" where
  "set_msm_config config = config\<lparr>mc_batch_size := 1, mc_are_points_shared_in_batch := True, mc_are_scalars_on_device := False,
     mc_are_points_on_device := False, mc_are_results_on_device := False, mc_is_async := False,
     mc_are_scalars_montgomery_form := True, mc_are_points_montgomery_form := True, mc_bitsize := 254\<rparr>"

definition scalar_buffer :: "u8 list \<Rightarrow> nat \<Rightarrow> limbs list" where
  "scalar_buffer ss n = map (\<lambda>i. copy_scalar_to_icicle (element_of_bytes (drop (i * 32) ss)) blank) [0..<n]"

text \<open>
  The common body of the two groups, over the copies of coordinates and the operations of the library:
  the result and the point \<open>out\<close> after the call, which stays as it is when the result is false.
\<close>

definition msm_run ::
    "('d, 'p, 'q) icicle \<Rightarrow> ('e \<Rightarrow> 'e) \<Rightarrow> ('e \<Rightarrow> 'e) \<Rightarrow> (limbs list \<Rightarrow> 'e affine list \<Rightarrow> int \<Rightarrow> msm_config \<Rightarrow> icicle_error \<times> 'r) \<Rightarrow>
     ('r \<Rightarrow> bool) \<Rightarrow> ('r \<Rightarrow> 'e affine) \<Rightarrow> 'e curve \<Rightarrow> 'e affine list \<Rightarrow> u8 list \<Rightarrow> u64 \<Rightarrow> u64 \<Rightarrow> 'e point \<Rightarrow> 'd icicle_state \<Rightarrow>
     bool \<times> 'e point \<times> 'd icicle_state" where
  "msm_run I copy_to copy_from msm z_is_zero to_affine g bs ss scalar_size n out st =
     (if n = 0 then (True, Curve_copyPP g (c_fzero g), st)
      else let (ok, st) = initialize I st in
      if \<not> ok \<or> scalar_size \<noteq> 32 then (False, out, st)
      else let base_buffer = map (\<lambda>i. aff (copy_to (ax (bs ! i))) (copy_to (ay (bs ! i)))) [0..<unat n];
               (status, r) = msm (scalar_buffer ss (unat n)) base_buffer (int_cast n) (set_msm_config (ic_default_msm_config I))
      in if status \<noteq> EI_SUCCESS then (False, out, st)
      else if z_is_zero r then (True, Curve_copyPP g (c_fzero g), st)
      else let a = to_affine r;
               rs_affine = aff (copy_from (ax a)) (copy_from (ay a))
      in (True, Curve_copyPA g rs_affine, st))"

definition msm_g1 ::
    "('d, 'p, 'q) icicle \<Rightarrow> limbs curve \<Rightarrow> limbs affine list \<Rightarrow> u8 list \<Rightarrow> u64 \<Rightarrow> u64 \<Rightarrow> limbs point \<Rightarrow> 'd icicle_state \<Rightarrow>
     bool \<times> limbs point \<times> 'd icicle_state" where
  "msm_g1 I = msm_run I (\<lambda>x. copy_fq_to_icicle x blank) (\<lambda>x. copy_fq_from_icicle x blank)
     (ic_msm_g1 I) (ic_g1_z_is_zero I) (ic_g1_to_affine I)"

definition msm_g2 ::
    "('d, 'p, 'q) icicle \<Rightarrow> limbs f2_element curve \<Rightarrow> limbs f2_element affine list \<Rightarrow> u8 list \<Rightarrow> u64 \<Rightarrow> u64 \<Rightarrow>
     limbs f2_element point \<Rightarrow> 'd icicle_state \<Rightarrow> bool \<times> limbs f2_element point \<times> 'd icicle_state" where
  "msm_g2 I = msm_run I (\<lambda>x. copy_f2_to_icicle x (f2 blank blank)) (\<lambda>x. copy_f2_from_icicle x (f2 blank blank))
     (ic_msm_g2 I) (\<lambda>r. ic_g2_z_c0_is_zero I r \<and> ic_g2_z_c1_is_zero I r) (ic_g2_to_affine I)"

subsection \<open>Transforms\<close>

definition set_ntt_config :: "ntt_config \<Rightarrow> ntt_config" where
  "set_ntt_config config = config\<lparr>nc_batch_size := 1, nc_are_inputs_on_device := False, nc_are_outputs_on_device := False,
     nc_is_async := False, nc_ordering := kNN\<rparr>"

text \<open>\<open>while ((1ull << logn) < size) ++logn;\<close> for a power of two.\<close>

function ntt_logn :: "nat \<Rightarrow> nat \<Rightarrow> nat" where
  "ntt_logn sz logn = (if 2 ^ logn < sz then ntt_logn sz (logn + 1) else logn)"
  by pat_completeness auto

termination
proof (relation "measure (\<lambda>(sz, logn). sz - 2 ^ logn)")
  show "((sz, logn + 1), sz, logn) \<in> measure (\<lambda>(sz, logn). sz - 2 ^ logn)" if "2 ^ logn < sz" for sz logn :: nat
  proof -
    have "(2 :: nat) ^ logn < 2 ^ (logn + 1)" by simp
    then have "sz - 2 ^ (logn + 1) < sz - 2 ^ logn" using that by linarith
    then show ?thesis by simp
  qed
qed simp

declare ntt_logn.simps [simp del]

text \<open>The common body of the two transforms.\<close>

definition ntt_run ::
    "('d, 'p, 'q) icicle \<Rightarrow> ntt_dir \<Rightarrow> limbs list \<Rightarrow> u64 \<Rightarrow> 'd icicle_state \<Rightarrow> bool \<times> limbs list \<times> 'd icicle_state" where
  "ntt_run I dir a sz st =
     (let (ok, st) = initialize I st in
      if \<not> ok \<or> \<not> is_power_of_two sz \<or> sz = 0 then (False, a, st)
      else let (ok, st) = ensure_domain I (word_of_nat (ntt_logn (unat sz) 0)) st in
      if \<not> ok then (False, a, st)
      else let buffer = map (\<lambda>i. copy_scalar_to_icicle (a ! i) blank) [0..<unat sz];
               (status, buffer) = ic_ntt I buffer (int_cast sz) dir (set_ntt_config (ic_default_ntt_config I)) (ic_device st)
      in if status \<noteq> EI_SUCCESS then (False, a, st)
      else (True, foldl (\<lambda>a i. a[i := copy_scalar_from_icicle (buffer ! i) (a ! i)]) a [0..<unat sz], st))"

definition ntt_forward ::
    "('d, 'p, 'q) icicle \<Rightarrow> limbs list \<Rightarrow> u64 \<Rightarrow> 'd icicle_state \<Rightarrow> bool \<times> limbs list \<times> 'd icicle_state" where
  "ntt_forward I = ntt_run I kForward"

definition ntt_inverse ::
    "('d, 'p, 'q) icicle \<Rightarrow> limbs list \<Rightarrow> u64 \<Rightarrow> 'd icicle_state \<Rightarrow> bool \<times> limbs list \<times> 'd icicle_state" where
  "ntt_inverse I = ntt_run I kInverse"

subsection \<open>Dispatch\<close>

text \<open>\<open>ParallelMultiexp::multiexp\<close> over a group with its function of the adapter, \<open>FFT::fft\<close> and \<open>FFT::ifft\<close>, which falls back to \<open>fft\<close> and so tries the GPU again.\<close>

definition multiexp_gpu ::
    "('e curve \<Rightarrow> 'e affine list \<Rightarrow> u8 list \<Rightarrow> u64 \<Rightarrow> u64 \<Rightarrow> 'e point \<Rightarrow> 'd icicle_state \<Rightarrow> bool \<times> 'e point \<times> 'd icicle_state) \<Rightarrow>
     'e curve \<Rightarrow> 'e memory \<Rightarrow> tbb \<Rightarrow> 'e affine list \<Rightarrow> u8 list \<Rightarrow> u64 \<Rightarrow> u64 \<Rightarrow> 'e point \<Rightarrow> 'd icicle_state \<Rightarrow> 'e point \<times> 'd icicle_state" where
  "multiexp_gpu msm C Z T bs ss sz n r st =
     (let (done, r, st) = msm C bs ss sz n r st
      in if done then (r, st) else (multiexp C Z T bs ss (unat sz) (unat n), st))"

definition fft_gpu ::
    "('d, 'p, 'q) icicle \<Rightarrow> limbs field_ops \<Rightarrow> tbb \<Rightarrow> limbs fft_state \<Rightarrow> limbs list \<Rightarrow> u64 \<Rightarrow> 'd icicle_state \<Rightarrow>
     (fft_error + limbs list) \<times> 'd icicle_state" where
  "fft_gpu I F T R a n st =
     (let (done, a, st) = ntt_forward I a n st
      in if done then (Inr a, st) else (fft F T R a (unat n), st))"

definition ifft_gpu ::
    "('d, 'p, 'q) icicle \<Rightarrow> limbs field_ops \<Rightarrow> tbb \<Rightarrow> limbs fft_state \<Rightarrow> limbs list \<Rightarrow> u64 \<Rightarrow> 'd icicle_state \<Rightarrow>
     (fft_error + limbs list) \<times> 'd icicle_state" where
  "ifft_gpu I F T R a n st =
     (let (done, a, st) = ntt_inverse I a n st
      in if done then (Inr a, st)
      else case fft_gpu I F T R a n st of
          (Inl err, st) \<Rightarrow> (Inl err, st)
        | (Inr a, st) \<Rightarrow> (ifft_scale F T R a (unat n), st))"

end
