(* ===== verification/Icicle_Laws.thy ===== *)
theory Icicle_Laws
  imports Icicle Bn254_Groth16
begin

section \<open>The GPU adapter against its library\<close>

text \<open>
  What the adapter relies on of the transforms of the library Icicle, as an interface: over it, the adapter's
  transforms are those of \<open>Fft\<close> exactly when the library's roots of unity are those of the tables. Nothing is
  assumed of the library's sums of multiples. When the GPU is missing, everything is as without the adapter.
\<close>

subsection \<open>Small parts\<close>

lemma upt_4: "[0..<4] = [0, 1, 2, 3 :: nat]"
  by (simp add: upt_conv_Cons)

lemma copy_limbs:
  assumes "length src = 4" and "length dst = 4"
  shows "foldl (\<lambda>dst i. dst[i := src ! i]) dst [0..<LIMB_COUNT] = (src :: limbs)"
proof (rule nth_equalityI)
  show "length (foldl (\<lambda>dst i. dst[i := src ! i]) dst [0..<LIMB_COUNT]) = length src"
    using assms by (simp add: LIMB_COUNT_def upt_4)
  fix i assume "i < length (foldl (\<lambda>dst i. dst[i := src ! i]) dst [0..<LIMB_COUNT])"
  then have "i = 0 \<or> i = 1 \<or> i = 2 \<or> i = 3" using assms by (auto simp: LIMB_COUNT_def upt_4)
  then show "foldl (\<lambda>dst i. dst[i := src ! i]) dst [0..<LIMB_COUNT] ! i = src ! i"
    using assms by (auto simp: LIMB_COUNT_def upt_4)
qed

lemma copies [simp]:
  assumes "length src = 4"
  shows "copy_scalar_to_icicle src blank = src" "copy_fq_to_icicle src blank = src" "copy_fq_from_icicle src blank = src"
    and "length dst = 4 \<Longrightarrow> copy_scalar_from_icicle src dst = src"
  using assms by (simp_all add: copy_scalar_to_icicle_def copy_fq_to_icicle_def copy_fq_from_icicle_def
      copy_scalar_from_icicle_def copy_limbs blank_def LIMB_COUNT_def [THEN arg_cong, of "\<lambda>n. replicate n 0"])

lemma copies_f2 [simp]:
  assumes "length (f2a src) = 4" and "length (f2b src) = 4"
  shows "copy_f2_to_icicle src (f2 blank blank) = src" "copy_f2_from_icicle src (f2 blank blank) = src"
proof -
  have pair: "foldl (\<lambda>dst i. f2 ((f2a dst)[i := f2a src ! i]) ((f2b dst)[i := f2b src ! i])) (f2 x y) is
      = f2 (foldl (\<lambda>d i. d[i := f2a src ! i]) x is) (foldl (\<lambda>d i. d[i := f2b src ! i]) y is)" for x y :: limbs and "is"
    by (induction "is" arbitrary: x y) simp_all
  have "length blank = 4" by (simp add: blank_def LIMB_COUNT_def)
  then show "copy_f2_to_icicle src (f2 blank blank) = src" "copy_f2_from_icicle src (f2 blank blank) = src"
    unfolding copy_f2_to_icicle_def copy_f2_from_icicle_def pair by (simp_all add: copy_limbs assms)
qed

lemma top_bit:
  assumes "2 ^ k \<le> (m :: nat)" and "m < 2 ^ Suc k"
  shows "bit m k"
proof -
  have "m div 2 ^ k = 1" using assms by (intro div_nat_eqI) simp_all
  then show ?thesis by (simp add: bit_iff_odd)
qed

lemma power_of_two_nat: "2 ^ k AND (2 ^ k - 1) = (0 :: nat)"
proof -
  have "2 ^ k AND (2 ^ k - 1) = take_bit k (2 ^ k :: nat)" by (simp add: take_bit_eq_mask mask_eq_exp_minus_1)
  then show ?thesis by simp
qed

lemma is_power_of_two_iff: "is_power_of_two v \<longleftrightarrow> (\<exists>k. unat v = 2 ^ k)"
proof
  assume v: "is_power_of_two v"
  then have v0: "v \<noteq> 0" "v AND (v - 1) = 0" by (simp_all add: is_power_of_two_def)
  then have pos: "0 < unat v" by (simp add: unat_gt_0)
  obtain k where k: "2 ^ k \<le> unat v" "unat v < 2 ^ Suc k" using ex_power_ivl1 [of 2 "unat v"] pos by auto
  have "unat (v AND (v - 1)) = unat v AND (unat v - 1)" using v0(1) by (simp add: unsigned_and_eq unat_minus_one)
  then have z: "unat v AND (unat v - 1) = 0" using v0(2) by simp
  have "\<not> 2 ^ k \<le> unat v - 1"
  proof
    assume "2 ^ k \<le> unat v - 1"
    then have "bit (unat v - 1) k" using top_bit [of k "unat v - 1"] k(2) by simp
    then have "bit (unat v AND (unat v - 1)) k" using top_bit [OF k] by (simp add: bit_and_iff)
    then show False unfolding z by simp
  qed
  then have "unat v = 2 ^ k" using k(1) pos by simp
  then show "\<exists>k. unat v = 2 ^ k" ..
next
  assume "\<exists>k. unat v = 2 ^ k"
  then obtain k where k: "unat v = 2 ^ k" ..
  then have "v \<noteq> 0" by auto
  then have "unat (v - 1) = 2 ^ k - 1" using k by (simp add: unat_minus_one)
  then have "unat (v AND (v - 1)) = 0" by (simp only: unsigned_and_eq k power_of_two_nat)
  then show "is_power_of_two v" using \<open>v \<noteq> 0\<close> by (simp add: is_power_of_two_def unat_eq_0)
qed

lemma ntt_logn_power: "l \<le> k \<Longrightarrow> ntt_logn (2 ^ k) l = k"
proof (induction "k - l" arbitrary: l)
  case 0
  then show ?case by (subst ntt_logn.simps) simp
next
  case (Suc m)
  then have "l < k" by simp
  moreover have "ntt_logn (2 ^ k) (l + 1) = k" using Suc.hyps(1) [of "l + 1"] Suc.hyps(2) \<open>l < k\<close> by simp
  ultimately show ?case by (subst ntt_logn.simps) simp
qed

subsection \<open>Without a GPU\<close>

definition cpu_only :: "('d, 'p, 'q) icicle \<Rightarrow> 'd icicle_state \<Rightarrow> bool" where
  "cpu_only I st \<longleftrightarrow> (if init_flag st then \<not> init_success st else \<not> initialize_once I)"

lemma initialize_cpu: "cpu_only I st \<Longrightarrow> \<exists>st'. initialize I st = (False, st') \<and> cpu_only I st'"
  by (auto simp: cpu_only_def initialize_def Let_def)

lemma ntt_run_cpu: "cpu_only I st \<Longrightarrow> \<exists>st'. ntt_run I dir a n st = (False, a, st') \<and> cpu_only I st'"
  using initialize_cpu [of I st] by (auto simp: ntt_run_def)

lemma fft_gpu_cpu: "cpu_only I st \<Longrightarrow> \<exists>st'. fft_gpu I F T R a n st = (fft F T R a (unat n), st') \<and> cpu_only I st'"
  using ntt_run_cpu [of I st kForward a n] by (auto simp: fft_gpu_def ntt_forward_def)

lemma ifft_gpu_cpu: "cpu_only I st \<Longrightarrow> \<exists>st'. ifft_gpu I F T R a n st = (ifft F T R a (unat n), st') \<and> cpu_only I st'"
proof -
  assume "cpu_only I st"
  then obtain s1 where s1: "ntt_run I kInverse a n st = (False, a, s1)" "cpu_only I s1" using ntt_run_cpu by blast
  obtain s2 where s2: "fft_gpu I F T R a n s1 = (fft F T R a (unat n), s2)" "cpu_only I s2" using fft_gpu_cpu [OF s1(2)] by blast
  show ?thesis using s1(1) s2 by (simp add: ifft_gpu_def ntt_inverse_def ifft_def split: sum.splits)
qed

lemma msm_cpu:
  assumes "cpu_only I st" and "n \<noteq> 0"
  shows "\<exists>st'. msm_run I cin cout msm isz toa C bs ss sz n out st = (False, out, st') \<and> cpu_only I st'"
  using initialize_cpu [OF assms(1)] assms(2) by (auto simp: msm_run_def)

lemma multiexp_none: "multiexp C Z T bs ss sz 0 = Curve_copyPP C (c_fzero C)"
  by (simp add: multiexp_def multiexp_with_def)

lemma multiexp_gpu_cpu:
  assumes "cpu_only I st"
  shows "\<exists>st'. multiexp_gpu (msm_run I cin cout msm isz toa) C Z T bs ss sz n out st = (multiexp C Z T bs ss (unat sz) (unat n), st') \<and> cpu_only I st'"
proof (cases "n = 0")
  case True
  then show ?thesis using assms by (simp add: multiexp_gpu_def msm_run_def multiexp_none)
next
  case False
  then show ?thesis using msm_cpu [OF assms False, of cin cout msm isz toa C bs ss sz out] by (auto simp: multiexp_gpu_def)
qed

subsection \<open>The contract of the library\<close>

definition host_ntt :: "ntt_config \<Rightarrow> bool" where
  "host_ntt cfg \<longleftrightarrow> nc_batch_size cfg = 1 \<and> \<not> nc_are_inputs_on_device cfg \<and> \<not> nc_are_outputs_on_device cfg \<and> \<not> nc_is_async cfg
     \<and> nc_ordering cfg = kNN"

text \<open>Transforms of elements in standard form over the powers of the root that \<open>omega\<close> gives.\<close>

locale icicle_laws =
  fixes I :: "('d, 'p, 'q) icicle" and ready :: "'d \<Rightarrow> u32 \<Rightarrow> bool"
  assumes domain_law: "ic_ntt_init_domain I (ic_omega I k) d = (EI_SUCCESS, d') \<Longrightarrow> ready d' k"
    and domain_keeps_law: "ic_ntt_init_domain I w d = (err, d') \<Longrightarrow> ready d j \<Longrightarrow> ready d' j"
    and ntt_law: "ready d k \<Longrightarrow> n = 2 ^ unat k \<Longrightarrow> unat k \<le> 28 \<Longrightarrow> length a = n \<Longrightarrow> (\<forall>x\<in>set a. reduced Fr_prime x) \<Longrightarrow> host_ntt cfg \<Longrightarrow>
      ic_ntt I a (int n) dir cfg d = (EI_SUCCESS, b) \<Longrightarrow>
      length b = n \<and> (\<forall>x\<in>set b. reduced Fr_prime x) \<and> (\<forall>p<n. (of_nat (lval (b ! p)) :: fr) =
        (case dir of kForward \<Rightarrow> dft (of_nat (lval (ic_omega I k))) n (\<lambda>i. of_nat (lval (a ! i))) p
         | kInverse \<Rightarrow> idft (1 / of_nat n) (of_nat (lval (ic_omega I k))) n (\<lambda>i. of_nat (lval (a ! i))) p))"

definition adapter_ok :: "('d \<Rightarrow> u32 \<Rightarrow> bool) \<Rightarrow> 'd icicle_state \<Rightarrow> bool" where
  "adapter_ok ready st \<longleftrightarrow> (\<forall>k\<in>initialized_domains st. ready (ic_device st) k)"

lemma initialize_ok: "initialize I st = (ok, st') \<Longrightarrow> adapter_ok ready st \<Longrightarrow> adapter_ok ready st'"
  by (auto simp: initialize_def adapter_ok_def Let_def split: if_splits)

lemma unat_pow2:
  assumes "L \<le> 28"
  shows "unat (2 ^ L :: u64) = 2 ^ L"
proof -
  have "(2 :: nat) ^ L \<le> 2 ^ 28" using assms by (intro power_increasing) simp_all
  then have "unat (word_of_nat (2 ^ L) :: u64) = 2 ^ L" by (simp only: unat_of_nat) simp
  then show ?thesis by simp
qed

lemma int_cast_small: "unat n < 2 ^ 31 \<Longrightarrow> int_cast n = int (unat n)"
proof -
  assume n: "unat n < 2 ^ 31"
  have "unat (ucast n :: 32 word) = unat n" using n by (simp add: unsigned_ucast_eq take_bit_nat_eq_self)
  then have "uint (ucast n :: 32 word) = int (unat n)" by (metis of_nat_unat)
  moreover have "signed_take_bit 31 (int m) = int m" if "m < 2 ^ 31" for m
    using that by (intro signed_take_bit_int_eq_self) simp_all
  from this [OF n] have "signed_take_bit 31 (int (unat n)) = int (unat n)" .
  ultimately show "int_cast n = int (unat n)" by (simp add: int_cast_def sint_uint)
qed

lemma store_all:
  assumes "length b = length a" and "k \<le> length a"
  shows "foldl (\<lambda>a i. a[i := b ! i]) a [0..<k] = take k b @ drop k a"
  using assms(2)
proof (induction k)
  case (Suc k)
  then have "foldl (\<lambda>a i. a[i := b ! i]) a [0..<Suc k] = (take k b @ drop k a)[k := b ! k]" by simp
  also have "\<dots> = take k b @ b ! k # drop (Suc k) a"
    using Suc.prems assms(1) by (simp add: list_update_append Cons_nth_drop_Suc [symmetric])
  finally show ?case using Suc.prems assms(1) by (simp add: take_Suc_conv_app_nth)
qed simp

lemma dft_scale: "dft w n (\<lambda>i. x i * c) p = dft w n x p * (c :: 'k :: comm_ring_1)"
  unfolding dft_def sum_distrib_right by (rule sum.cong) (simp_all add: ac_simps)

lemma idft_scale: "idft k w n (\<lambda>i. x i * c) p = idft k w n x p * (c :: 'k :: comm_ring_1)"
  unfolding idft_def dft_scale by (simp add: ac_simps)

lemma fr_lval: "of_nat (lval a) = fr_val a * of_nat mont_R"
  by (rule gmp_laws.fr_val_lval [OF ref_gmp_laws, symmetric])

lemma fr_cancel: "fr_val a * of_nat mont_R = x * of_nat mont_R \<Longrightarrow> fr_val a = x"
  using gmp_laws.mont_R_neq_0 [OF ref_gmp_laws] by simp

subsection \<open>The transforms of the adapter\<close>

context icicle_laws begin

lemma ensure_domain_ok:
  assumes "ensure_domain I k st = (ok, st')" and "adapter_ok ready st"
  shows "adapter_ok ready st'" and "ok \<Longrightarrow> ready (ic_device st') k"
proof -
  have "adapter_ok ready st' \<and> (ok \<longrightarrow> ready (ic_device st') k)"
  proof (cases "k \<in> initialized_domains st")
    case True
    then show ?thesis using assms by (auto simp: ensure_domain_def adapter_ok_def)
  next
    case False
    obtain e d where e: "ic_ntt_init_domain I (ic_omega I k) (ic_device st) = (e, d)" by (cases "ic_ntt_init_domain I (ic_omega I k) (ic_device st)")
    have keep: "\<forall>j\<in>initialized_domains st. ready d j" using domain_keeps_law [OF e] assms(2) by (simp add: adapter_ok_def)
    have new: "e = EI_SUCCESS \<Longrightarrow> ready d k" using domain_law [of k "ic_device st" d] e by simp
    show ?thesis using assms(1) False e keep new by (auto simp: ensure_domain_def adapter_ok_def Let_def split: if_splits)
  qed
  then show "adapter_ok ready st'" and "ok \<Longrightarrow> ready (ic_device st') k" by blast+
qed

lemma ntt_run_value:
  assumes st: "adapter_ok ready st" and L: "L \<le> 28" and a: "arr_ok fr_ok (2 ^ L) a"
  shows "\<exists>ok b st'. ntt_run I dir a (2 ^ L) st = (ok, b, st') \<and> adapter_ok ready st' \<and> (\<not> ok \<longrightarrow> b = a)
    \<and> (ok \<longrightarrow> arr_ok fr_ok (2 ^ L) b \<and> (\<forall>p<2 ^ L. fr_val (b ! p) =
        (case dir of kForward \<Rightarrow> dft (of_nat (lval (ic_omega I (word_of_nat L)))) (2 ^ L) (\<lambda>i. fr_val (a ! i)) p
         | kInverse \<Rightarrow> idft (1 / of_nat (2 ^ L)) (of_nat (lval (ic_omega I (word_of_nat L)))) (2 ^ L) (\<lambda>i. fr_val (a ! i)) p)))"
proof -
  define n where "n = (2 :: nat) ^ L"
  have n28: "n \<le> 2 ^ 28" unfolding n_def using L by (intro power_increasing) simp_all
  have w: "unat (2 ^ L :: u64) = n" unfolding n_def by (rule unat_pow2 [OF L])
  have len: "length a = n" and red: "\<forall>x\<in>set a. reduced Fr_prime x"
    using a by (auto simp: arr_ok_def n_def in_set_conv_nth fr_ok_def)
  have four: "length (a ! i) = 4" if "i < n" for i using a that by (simp add: arr_ok_def n_def fr_ok_def reduced_def)
  have uL: "unat (word_of_nat L :: u32) = L" using L by (simp add: unat_of_nat)
  have logn: "ntt_logn (unat (2 ^ L :: u64)) 0 = L" unfolding w n_def by (rule ntt_logn_power) simp
  have pow: "is_power_of_two (2 ^ L)" using w by (auto simp: is_power_of_two_iff n_def)
  have w0: "(2 ^ L :: u64) \<noteq> 0" using L by simp
  have cast: "int_cast (2 ^ L) = int n" using int_cast_small [of "2 ^ L"] n28 unfolding w by simp
  have buf: "map (\<lambda>i. copy_scalar_to_icicle (a ! i) blank) [0..<unat (2 ^ L :: u64)] = a"
    unfolding w using four len by (intro nth_equalityI) simp_all
  obtain ok1 s1 where i: "initialize I st = (ok1, s1)" by (cases "initialize I st")
  have s1: "adapter_ok ready s1" by (rule initialize_ok [OF i st])
  obtain ok2 s2 where e: "ensure_domain I (word_of_nat L) s1 = (ok2, s2)" by (cases "ensure_domain I (word_of_nat L) s1")
  note s2 = ensure_domain_ok [OF e s1]
  obtain status b where t: "ic_ntt I a (int n) dir (set_ntt_config (ic_default_ntt_config I)) (ic_device s2) = (status, b)"
    by (cases "ic_ntt I a (int n) dir (set_ntt_config (ic_default_ntt_config I)) (ic_device s2)")
  have host: "host_ntt (set_ntt_config (ic_default_ntt_config I))" by (simp add: host_ntt_def set_ntt_config_def)
  show ?thesis
  proof (cases "ok1 \<and> ok2 \<and> status = EI_SUCCESS")
    case False
    have "\<exists>st'. ntt_run I dir a (2 ^ L) st = (False, a, st') \<and> adapter_ok ready st'"
      using False s1 s2(1) by (auto simp: ntt_run_def i pow w0 logn e buf cast t)
    then show ?thesis by blast
  next
    case True
    let ?om = "of_nat (lval (ic_omega I (word_of_nat L))) :: fr"
    have k: "n = 2 ^ unat (word_of_nat L :: u32)" "unat (word_of_nat L :: u32) \<le> 28" using uL L by (simp_all add: n_def)
    have "ready (ic_device s2) (word_of_nat L)" using s2(2) True by blast
    note N = ntt_law [OF this k len red host t [unfolded conjunct2 [OF conjunct2 [OF True]]]]
    have b4: "length (b ! i) = 4" if "i < n" for i using N that nth_mem [of i b] by (simp add: reduced_def)
    have fold: "foldl (\<lambda>x i. x[i := copy_scalar_from_icicle (b ! i) (x ! i)]) a [0..<m] = foldl (\<lambda>x i. x[i := b ! i]) a [0..<m]
        \<and> (\<forall>j<n. length (foldl (\<lambda>x i. x[i := b ! i]) a [0..<m] ! j) = 4) \<and> length (foldl (\<lambda>x i. x[i := b ! i]) a [0..<m]) = n" if "m \<le> n" for m
      using that
    proof (induction m)
      case 0
      then show ?case using four len by simp
    next
      case (Suc m)
      then show ?case using b4 by (simp add: nth_list_update)
    qed
    have st: "foldl (\<lambda>x i. x[i := copy_scalar_from_icicle (b ! i) (x ! i)]) a [0..<n] = b"
      using fold [of n] store_all [of b a n] N len by simp
    have "ntt_run I dir a (2 ^ L) st = (True, b, s2)"
      using True L by (simp add: ntt_run_def i pow w0 logn e buf cast t) (simp add: w st)
    moreover have "arr_ok fr_ok (2 ^ L) b" using N by (simp add: arr_ok_def n_def fr_ok_def)
    moreover have "fr_val (b ! p) = (case dir of kForward \<Rightarrow> dft ?om (2 ^ L) (\<lambda>i. fr_val (a ! i)) p
         | kInverse \<Rightarrow> idft (1 / of_nat (2 ^ L)) ?om (2 ^ L) (\<lambda>i. fr_val (a ! i)) p)" if p: "p < 2 ^ L" for p
    proof (rule fr_cancel)
      show "fr_val (b ! p) * of_nat mont_R = (case dir of kForward \<Rightarrow> dft ?om (2 ^ L) (\<lambda>i. fr_val (a ! i)) p
         | kInverse \<Rightarrow> idft (1 / of_nat (2 ^ L)) ?om (2 ^ L) (\<lambda>i. fr_val (a ! i)) p) * of_nat mont_R"
        unfolding fr_lval [of "b ! p", symmetric] using N p by (cases dir) (simp_all add: fr_lval [of "a ! _"] dft_scale idft_scale n_def)
    qed
    ultimately show ?thesis using s2(1) by blast
  qed
qed

lemma fft_gpu_value:
  assumes G: "gmp_laws G" and T: "tbb_laws T" and R: "fft_tables fr_ok fr_val R w" "L \<le> fft_s R"
    and om: "of_nat (lval (ic_omega I (word_of_nat L))) = root_for R w L"
    and st: "adapter_ok ready st" and L: "L \<le> 28" and a: "arr_ok fr_ok (2 ^ L) a"
  shows "\<exists>st'. fft_gpu I (RawFr_ops G) T R a (2 ^ L) st = (fft (RawFr_ops G) T R a (2 ^ L), st') \<and> adapter_ok ready st'"
proof -
  have w: "unat (2 ^ L :: u64) = 2 ^ L" by (rule unat_pow2 [OF L])
  obtain ok b st' where r: "ntt_run I kForward a (2 ^ L) st = (ok, b, st')" "adapter_ok ready st'" "\<not> ok \<longrightarrow> b = a"
    "ok \<longrightarrow> arr_ok fr_ok (2 ^ L) b \<and> (\<forall>p<2 ^ L. fr_val (b ! p) = dft (root_for R w L) (2 ^ L) (\<lambda>i. fr_val (a ! i)) p)"
    using ntt_run_value [OF st L a, of kForward] unfolding om by auto
  obtain c where c: "fft (RawFr_ops G) T R a (2 ^ L) = Inr c" "arr_ok fr_ok (2 ^ L) c"
    "\<And>p. p < 2 ^ L \<Longrightarrow> fr_val (c ! p) = dft (root_for R w L) (2 ^ L) (\<lambda>i. fr_val (a ! i)) p"
    using field_ops_laws.fft_value [OF gmp_fr_ops [OF G] T R refl a] by blast
  have "b = c" if ok using r(4) that c by (intro fr_array_eq [of "2 ^ L"]) simp_all
  then show ?thesis using r(1-3) c(1) w by (cases ok) (simp_all add: fft_gpu_def ntt_forward_def)
qed

text \<open>With another root the transform of the second unit vector differs: at 1 it is the root.\<close>

lemma fft_gpu_differs:
  assumes G: "gmp_laws G" and T: "tbb_laws T" and R: "fft_tables fr_ok fr_val R w" "L \<le> fft_s R"
    and st: "adapter_ok ready st" and L: "L \<le> 28" and om: "of_nat (lval (ic_omega I (word_of_nat L))) \<noteq> root_for R w L"
    and a: "arr_ok fr_ok (2 ^ L) a" "1 \<le> L" "\<forall>i<2 ^ L. fr_val (a ! i) = (if i = 1 then 1 else 0)"
    and run: "ntt_forward I a (2 ^ L) st = (True, b, s)"
  shows "fft (RawFr_ops G) T R a (2 ^ L) \<noteq> Inr b"
proof -
  have two: "(2 :: nat) ^ 1 \<le> 2 ^ L" using a(2) by (intro power_increasing) simp_all
  then have one: "1 < (2 :: nat) ^ L" by simp
  have u: "dft v (2 ^ L) (\<lambda>i. fr_val (a ! i)) 1 = v" for v
  proof -
    have "dft v (2 ^ L) (\<lambda>i. fr_val (a ! i)) 1 = (\<Sum>i<(2 :: nat) ^ L. if i = 1 then v else 0)"
      unfolding dft_def using a(3) by (intro sum.cong) auto
    then show ?thesis using one by simp
  qed
  have "fr_val (b ! 1) = dft (of_nat (lval (ic_omega I (word_of_nat L)))) (2 ^ L) (\<lambda>i. fr_val (a ! i)) 1"
    using ntt_run_value [OF st L a(1), of kForward] run one by (auto simp: ntt_forward_def)
  moreover obtain c where c: "fft (RawFr_ops G) T R a (2 ^ L) = Inr c"
    "\<And>p. p < 2 ^ L \<Longrightarrow> fr_val (c ! p) = dft (root_for R w L) (2 ^ L) (\<lambda>i. fr_val (a ! i)) p"
    using field_ops_laws.fft_value [OF gmp_fr_ops [OF G] T R refl a(1)] by blast
  ultimately have "fr_val (b ! 1) \<noteq> fr_val (c ! 1)" using om c(2) [OF one] unfolding u by simp
  then show ?thesis using c(1) by auto
qed

lemma ifft_gpu_value:
  assumes G: "gmp_laws G" and T: "tbb_laws T" and R: "fft_tables fr_ok fr_val R w" "L \<le> fft_s R"
    and om: "of_nat (lval (ic_omega I (word_of_nat L))) = root_for R w L"
    and st: "adapter_ok ready st" and L: "L \<le> 28" and a: "arr_ok fr_ok (2 ^ L) a"
  shows "\<exists>st'. ifft_gpu I (RawFr_ops G) T R a (2 ^ L) st = (ifft (RawFr_ops G) T R a (2 ^ L), st') \<and> adapter_ok ready st'"
proof -
  have w: "unat (2 ^ L :: u64) = 2 ^ L" by (rule unat_pow2 [OF L])
  obtain ok b s1 where r: "ntt_run I kInverse a (2 ^ L) st = (ok, b, s1)" "adapter_ok ready s1" "\<not> ok \<longrightarrow> b = a"
    "ok \<longrightarrow> arr_ok fr_ok (2 ^ L) b \<and> (\<forall>p<2 ^ L. fr_val (b ! p) = idft (1 / of_nat (2 ^ L)) (root_for R w L) (2 ^ L) (\<lambda>i. fr_val (a ! i)) p)"
    using ntt_run_value [OF st L a, of kInverse] unfolding om by auto
  have "fr_val (powTwoInv R ! L) * 2 ^ L = 1" using R by (simp add: fft_tables_def)
  then have inv: "fr_val (powTwoInv R ! L) = 1 / of_nat (2 ^ L)" by (metis nonzero_eq_divide_eq mult_zero_right of_nat_numeral of_nat_power zero_neq_one)
  obtain c where c: "ifft (RawFr_ops G) T R a (2 ^ L) = Inr c" "arr_ok fr_ok (2 ^ L) c"
    "\<And>p. p < 2 ^ L \<Longrightarrow> fr_val (c ! p) = idft (1 / of_nat (2 ^ L)) (root_for R w L) (2 ^ L) (\<lambda>i. fr_val (a ! i)) p"
    using field_ops_laws.ifft_value [OF gmp_fr_ops [OF G] T R refl a] unfolding inv by blast
  show ?thesis
  proof (cases ok)
    case True
    then have "b = c" using r(4) c by (intro fr_array_eq [of "2 ^ L"]) simp_all
    then show ?thesis using r(1,2) c(1) True by (simp add: ifft_gpu_def ntt_inverse_def)
  next
    case False
    then have i: "ntt_inverse I a (2 ^ L) st = (False, a, s1)" using r(1,3) by (simp add: ntt_inverse_def)
    obtain s2 where s2: "fft_gpu I (RawFr_ops G) T R a (2 ^ L) s1 = (fft (RawFr_ops G) T R a (2 ^ L), s2)" "adapter_ok ready s2"
      using fft_gpu_value [OF G T R om r(2) L a] by blast
    show ?thesis using s2 by (simp add: ifft_gpu_def i ifft_def w split: sum.splits)
  qed
qed

end

subsection \<open>The library on the CPU\<close>

text \<open>An implementation of the interface by the code's own routines, over tables for four points.\<close>

definition sample_tables :: "limbs fft_state" where
  "sample_tables = projr (FFT_new ref_gmp (RawFr_ops ref_gmp) (RawFr_numbers ref_gmp) (round_robin 3) [0, 0, 0, 0] 4)"

lemma sample_tables_ok: "\<exists>w. fft_tables fr_ok fr_val sample_tables w" "fft_s sample_tables = 2"
  using fr_tables [OF ref_gmp_laws round_robin_laws [of 3], of 2 4 "[0, 0, 0, 0]"] by (auto simp: sample_tables_def)

definition cpu_ntt :: "limbs list \<Rightarrow> int \<Rightarrow> ntt_dir \<Rightarrow> ntt_config \<Rightarrow> unit \<Rightarrow> icicle_error \<times> limbs list" where
  "cpu_ntt a n dir cfg d =
     (if n \<noteq> 2 \<and> n \<noteq> 4 then (EI_ERROR 1, a)
      else case (case dir of kForward \<Rightarrow> fft | kInverse \<Rightarrow> ifft) (RawFr_ops ref_gmp) (round_robin 3) sample_tables a (nat n) of
          Inl err \<Rightarrow> (EI_ERROR 2, a)
        | Inr b \<Rightarrow> (EI_SUCCESS, b))"

definition cpu_msm :: "'e curve \<Rightarrow> 'e memory \<Rightarrow> limbs list \<Rightarrow> 'e affine list \<Rightarrow> int \<Rightarrow> msm_config \<Rightarrow> icicle_error \<times> 'e point" where
  "cpu_msm C Z ss bs n cfg =
     (let ss = (if mc_are_scalars_montgomery_form cfg then map (rawFromMontgomery Fr_consts ref_gmp) ss else ss)
      in (EI_SUCCESS, Curve_multiMulByScalar C Z (round_robin 3) bs (wtns_bytes ss) 32 (nat n)))"

definition cpu_icicle :: "(unit, limbs point, limbs f2_element point) icicle" where
  "cpu_icicle = \<lparr>ic_load_backend_from_env_or_default = EI_SUCCESS, ic_get_device_count = (EI_SUCCESS, 1),
     ic_set_default_device = (\<lambda>name i. EI_SUCCESS),
     ic_default_msm_config = \<lparr>mc_batch_size = 1, mc_are_points_shared_in_batch = True, mc_are_scalars_on_device = False,
       mc_are_points_on_device = False, mc_are_results_on_device = False, mc_is_async = False,
       mc_are_scalars_montgomery_form = False, mc_are_points_montgomery_form = False, mc_bitsize = 0\<rparr>,
     ic_default_ntt_config = \<lparr>nc_batch_size = 1, nc_are_inputs_on_device = False, nc_are_outputs_on_device = False,
       nc_is_async = False, nc_ordering = kNN\<rparr>,
     ic_omega = (\<lambda>k. rawFromMontgomery Fr_consts ref_gmp (fft_root sample_tables (unat k) 1)),
     ic_ntt_init_domain = (\<lambda>w d. (EI_SUCCESS, d)), ic_ntt = cpu_ntt,
     ic_msm_g1 = cpu_msm (the (G1 ref_gmp)) (zero_memory [0, 0, 0, 0]), ic_g1_z_is_zero = Curve_isZeroP (the (G1 ref_gmp)),
     ic_g1_to_affine = Curve_copyAP (the (G1 ref_gmp)),
     ic_msm_g2 = cpu_msm (the (G2 ref_gmp)) (zero_memory (f2 [0, 0, 0, 0] [0, 0, 0, 0])),
     ic_g2_z_c0_is_zero = Curve_isZeroP (the (G2 ref_gmp)), ic_g2_z_c1_is_zero = Curve_isZeroP (the (G2 ref_gmp)),
     ic_g2_to_affine = Curve_copyAP (the (G2 ref_gmp))\<rparr>"

context gmp_laws begin

lemma lval_from_mont: "length x = 4 \<Longrightarrow> lval (rawFromMontgomery Fr_consts G x) = mval Fr_prime x"
  by (rule fr_class.lval_FromMontgomery)

end

lemmas ref_from_mont = gmp_laws.lval_from_mont [OF ref_gmp_laws]

lemma cpu_icicle_laws: "icicle_laws cpu_icicle (\<lambda>d k. True)"
proof
  fix d :: unit and k :: u32 and n a cfg dir b
  assume n: "n = 2 ^ unat k" and a: "length a = n" "\<forall>x\<in>set a. reduced Fr_prime x"
    and r: "ic_ntt cpu_icicle a (int n) dir cfg d = (EI_SUCCESS, b)"
  define L where "L = unat k"
  have c: "cpu_ntt a (int n) dir cfg d = (EI_SUCCESS, b)" using r by (simp add: cpu_icicle_def)
  then have n24: "n = 2 \<or> n = 4" by (auto simp: cpu_ntt_def split: if_splits)
  then have "(2 :: nat) ^ L = 2 ^ 1 \<or> (2 :: nat) ^ L = 2 ^ 2" using n by (auto simp: L_def)
  then have L: "L = 1 \<or> L = 2" using power_inject_exp [of "2 :: nat" L 1] power_inject_exp [of "2 :: nat" L 2] by auto
  obtain w where R: "fft_tables fr_ok fr_val sample_tables w" using sample_tables_ok(1) by blast
  have Ls: "L \<le> fft_s sample_tables" using L sample_tables_ok(2) by auto
  have nL: "n = 2 ^ L" using n by (simp add: L_def)
  have arr: "arr_ok fr_ok n a" using a by (simp add: arr_ok_def fr_ok_def)
  have root: "fr_ok (fft_root sample_tables L 1)" "fr_val (fft_root sample_tables L 1) = root_for sample_tables w L"
    using fft_root_value [OF R Ls, of 1] L by auto
  then have om: "of_nat (lval (ic_omega cpu_icicle k)) = root_for sample_tables w L"
    using ref_from_mont [of "fft_root sample_tables L 1"]
    by (simp add: cpu_icicle_def L_def fr_ok_def reduced_def fr_val_def)
  have inv: "fr_val (powTwoInv sample_tables ! L) = 1 / of_nat n"
  proof -
    have "fr_val (powTwoInv sample_tables ! L) * of_nat n = 1" using R Ls by (simp add: fft_tables_def nL)
    then show ?thesis by (metis nonzero_eq_divide_eq mult_zero_right zero_neq_one)
  qed
  note F = field_ops_laws.fft_value [OF gmp_fr_ops [OF ref_gmp_laws] round_robin_laws [of 3] R Ls nL arr]
    field_ops_laws.ifft_value [OF gmp_fr_ops [OF ref_gmp_laws] round_robin_laws [of 3] R Ls nL arr]
  have "arr_ok fr_ok n b \<and> (\<forall>p<n. fr_val (b ! p) = (case dir of kForward \<Rightarrow> dft (root_for sample_tables w L) n (\<lambda>i. fr_val (a ! i)) p
     | kInverse \<Rightarrow> idft (1 / of_nat n) (root_for sample_tables w L) n (\<lambda>i. fr_val (a ! i)) p))"
    using c n24 F unfolding inv by (cases dir) (auto simp: cpu_ntt_def)
  then show "length b = n \<and> (\<forall>x\<in>set b. reduced Fr_prime x) \<and> (\<forall>p<n. (of_nat (lval (b ! p)) :: fr) =
        (case dir of kForward \<Rightarrow> dft (of_nat (lval (ic_omega cpu_icicle k))) n (\<lambda>i. of_nat (lval (a ! i))) p
         | kInverse \<Rightarrow> idft (1 / of_nat n) (of_nat (lval (ic_omega cpu_icicle k))) n (\<lambda>i. of_nat (lval (a ! i))) p))"
    unfolding om unfolding fr_lval dft_scale idft_scale by (cases dir) (auto simp: arr_ok_def in_set_conv_nth fr_ok_def)
qed simp_all

interpretation cpu_gpu: icicle_laws cpu_icicle "\<lambda>d k. True"
  by (rule cpu_icicle_laws)

subsection \<open>Properties\<close>

text \<open>
  C39. Without a GPU (no backend, no device, or a device that cannot be set, now or at the first attempt) the
  dispatch is transparent: sums of multiples and both transforms are those of the CPU for all arguments, and the
  adapter stays in this state, so the library is not asked again.
\<close>

theorem gpu_unavailable:
  assumes "cpu_only I st"
  shows "(\<exists>s. multiexp_gpu (msm_g1 I) C1 Z1 T bs ss sz n r st = (multiexp C1 Z1 T bs ss (unat sz) (unat n), s) \<and> cpu_only I s)
    \<and> (\<exists>s. multiexp_gpu (msm_g2 I) C2 Z2 T bs2 ss sz n r2 st = (multiexp C2 Z2 T bs2 ss (unat sz) (unat n), s) \<and> cpu_only I s)
    \<and> (\<exists>s. fft_gpu I F T R a n st = (fft F T R a (unat n), s) \<and> cpu_only I s)
    \<and> (\<exists>s. ifft_gpu I F T R a n st = (ifft F T R a (unat n), s) \<and> cpu_only I s)"
  unfolding msm_g1_def msm_g2_def
  by (intro conjI multiexp_gpu_cpu [OF assms] fft_gpu_cpu [OF assms] ifft_gpu_cpu [OF assms])

definition sample_gpu :: "icicle_error \<Rightarrow> (unit, limbs point, limbs f2_element point) icicle" where
  "sample_gpu err = cpu_icicle\<lparr>ic_load_backend_from_env_or_default := err\<rparr>"

definition fresh_adapter :: "unit icicle_state" where
  "fresh_adapter = \<lparr>init_flag = False, init_success = False, initialized_domains = {}, ic_device = ()\<rparr>"

theorem gpu_unavailable_witness:
  "\<exists>s. fft_gpu (sample_gpu (EI_ERROR 7)) (RawFr_ops ref_gmp) (round_robin 3) sample_tables [[7, 0, 0, 0], [9, 0, 0, 0]] 2 fresh_adapter
      = (fft (RawFr_ops ref_gmp) (round_robin 3) sample_tables [[7, 0, 0, 0], [9, 0, 0, 0]] 2, s) \<and> init_flag s = True"
proof -
  let ?I = "sample_gpu (EI_ERROR 7)"
  have "cpu_only ?I fresh_adapter" by (simp add: cpu_only_def fresh_adapter_def sample_gpu_def initialize_once_def)
  note U = gpu_unavailable [OF this, where F = "RawFr_ops ref_gmp" and T = "round_robin 3" and R = sample_tables
      and a = "[[7, 0, 0, 0], [9, 0, 0, 0]]" and n = 2]
  have "unat (2 :: u64) = 2" by simp
  then obtain s where "fft_gpu ?I (RawFr_ops ref_gmp) (round_robin 3) sample_tables [[7, 0, 0, 0], [9, 0, 0, 0]] 2 fresh_adapter
      = (fft (RawFr_ops ref_gmp) (round_robin 3) sample_tables [[7, 0, 0, 0], [9, 0, 0, 0]] 2, s)"
    using conjunct1 [OF conjunct2 [OF conjunct2 [OF U]]] by (simp only:) blast
  moreover from this have "init_flag s = True"
    by (auto simp: fft_gpu_def ntt_forward_def ntt_run_def initialize_def fresh_adapter_def sample_gpu_def initialize_once_def split: prod.splits)
  ultimately show ?thesis by blast
qed

text \<open>
  C16. Under the contract of the library's transforms, the adapter's transforms of \<open>2 ^ L\<close> elements are those of the
  CPU if and only if the library's root of unity for this size is the one of the tables. If it is, both
  directions give the same elements for every array, whether the GPU did the work or failed at any point,
  although the adapter hands over Montgomery forms as if they were standard ones (the transforms are linear), and
  a domain that the adapter takes to be initialised stays ready. If it is not, the forward transform of the
  second unit vector, where the GPU does it, is returned and differs from that of the CPU.
\<close>

theorem gpu_transforms_equal:
  assumes "icicle_laws I ready" and "gmp_laws G" and "tbb_laws T" and "fft_tables fr_ok fr_val R w" and "L \<le> fft_s R"
    and "adapter_ok ready st" and "L \<le> 28"
  shows "if of_nat (lval (ic_omega I (word_of_nat L))) = root_for R w L
    then \<forall>a. arr_ok fr_ok (2 ^ L) a \<longrightarrow>
      (\<exists>s1 s2. fft_gpu I (RawFr_ops G) T R a (2 ^ L) st = (fft (RawFr_ops G) T R a (2 ^ L), s1) \<and> adapter_ok ready s1
       \<and> ifft_gpu I (RawFr_ops G) T R a (2 ^ L) st = (ifft (RawFr_ops G) T R a (2 ^ L), s2) \<and> adapter_ok ready s2)
    else \<forall>a b s. arr_ok fr_ok (2 ^ L) a \<and> 1 \<le> L \<and> (\<forall>i<2 ^ L. fr_val (a ! i) = (if i = 1 then 1 else 0))
        \<and> ntt_forward I a (2 ^ L) st = (True, b, s) \<longrightarrow>
      fft_gpu I (RawFr_ops G) T R a (2 ^ L) st = (Inr b, s) \<and> fft (RawFr_ops G) T R a (2 ^ L) \<noteq> Inr b"
proof (split if_split, intro conjI impI allI)
  fix a assume om: "of_nat (lval (ic_omega I (word_of_nat L))) = root_for R w L" and a: "arr_ok fr_ok (2 ^ L) a"
  show "\<exists>s1 s2. fft_gpu I (RawFr_ops G) T R a (2 ^ L) st = (fft (RawFr_ops G) T R a (2 ^ L), s1) \<and> adapter_ok ready s1
       \<and> ifft_gpu I (RawFr_ops G) T R a (2 ^ L) st = (ifft (RawFr_ops G) T R a (2 ^ L), s2) \<and> adapter_ok ready s2"
    using icicle_laws.fft_gpu_value [OF assms(1-5) om assms(6,7) a] icicle_laws.ifft_gpu_value [OF assms(1-5) om assms(6,7) a] by blast
next
  fix a b s
  assume om: "of_nat (lval (ic_omega I (word_of_nat L))) \<noteq> root_for R w L"
    and H: "arr_ok fr_ok (2 ^ L) a \<and> 1 \<le> L \<and> (\<forall>i<2 ^ L. fr_val (a ! i) = (if i = 1 then 1 else 0))
      \<and> ntt_forward I a (2 ^ L) st = (True, b, s)"
  then show "fft_gpu I (RawFr_ops G) T R a (2 ^ L) st = (Inr b, s)" by (simp add: fft_gpu_def)
  from H show "fft (RawFr_ops G) T R a (2 ^ L) \<noteq> Inr b" using icicle_laws.fft_gpu_differs [OF assms om] by blast
qed

theorem gpu_transforms_equal_witness:
  "\<exists>s. fft_gpu cpu_icicle (RawFr_ops ref_gmp) (round_robin 3) sample_tables [[7, 0, 0, 0], [9, 0, 0, 0]] (2 ^ 1) fresh_adapter
      = (fft (RawFr_ops ref_gmp) (round_robin 3) sample_tables [[7, 0, 0, 0], [9, 0, 0, 0]] (2 ^ 1), s)"
proof -
  obtain w where R: "fft_tables fr_ok fr_val sample_tables w" using sample_tables_ok(1) by blast
  have L: "1 \<le> fft_s sample_tables" using sample_tables_ok(2) by simp
  have om: "of_nat (lval (ic_omega cpu_icicle (word_of_nat 1))) = root_for sample_tables w 1"
    using fft_root_value [OF R L, of 1] ref_from_mont [of "fft_root sample_tables 1 1"]
    by (simp add: cpu_icicle_def fr_ok_def reduced_def fr_val_def)
  have st: "adapter_ok (\<lambda>d k. True) fresh_adapter" by (simp add: adapter_ok_def)
  have "arr_ok fr_ok (2 ^ 1) [[7, 0, 0, 0], [9, 0, 0, 0]]" using sample_array by simp
  then show ?thesis
    using gpu_transforms_equal [OF cpu_icicle_laws ref_gmp_laws round_robin_laws [of 3] R L st, unfolded om if_P [OF refl]] by auto
qed

end
