(* ===== verification/Lagrange.thy ===== *)
theory Lagrange
  imports Coset
begin

section \<open>Lagrange polynomials on roots of unity\<close>

text \<open>
  A polynomial of degree below \<open>n\<close> as the combination of the Lagrange polynomials of the powers of a
  root of unity with its values there; and the Lagrange polynomials of the odd powers of a root of twice
  the order, in which the points of a key for the quotient are given.
\<close>

definition lagrange :: "'k :: field \<Rightarrow> nat \<Rightarrow> nat \<Rightarrow> 'k \<Rightarrow> 'k" where
  "lagrange r n j x = (\<Sum>i<n. (x / r ^ j) ^ i) / of_nat n"

lemma root2_neq_0: "root2 L (r :: 'k :: field) \<Longrightarrow> r \<noteq> 0"
  using root2_one [of L r] by (metis power_eq_0_iff zero_neq_one not_gr_zero power_not_zero zero_neq_numeral zero_power)

lemma neg_index_power:
  fixes r :: "'k :: field"
  assumes "r ^ n = 1" and "r \<noteq> 0" and "i < n"
  shows "r ^ (j * neg_index n i) = 1 / (r ^ j) ^ i"
proof -
  have "(r ^ j) ^ (neg_index n i + i) = 1"
  proof (cases "i = 0")
    case False
    then have "neg_index n i + i = n" using assms(3) by (simp add: neg_index_def)
    then have "(r ^ j) ^ (neg_index n i + i) = (r ^ n) ^ j" by (simp only: power_mult [symmetric] mult.commute)
    then show ?thesis using assms(1) by simp
  qed (simp add: neg_index_def)
  then have "r ^ (j * neg_index n i) * (r ^ j) ^ i = 1" by (simp add: power_add power_mult)
  then show ?thesis using assms(2) by (simp add: field_simps)
qed

lemma interpolation:
  fixes r :: "'k :: field"
  assumes r: "root2 L r" and n: "n = 2 ^ L" and n0: "(of_nat n :: 'k) \<noteq> 0"
  shows "poly_at c n x = (\<Sum>j<n. poly_at c n (r ^ j) * lagrange r n j x)"
proof -
  have inv: "inverse (of_nat n) * of_nat n = (1 :: 'k)" using n0 by simp
  have rn: "r ^ n = 1" using root2_one [OF r] by (simp add: n)
  have c: "c i = (\<Sum>j<n. poly_at c n (r ^ j) * (1 / (r ^ j) ^ i)) / of_nat n" if "i < n" for i
  proof -
    have "c i = dft r n (dft r n c) (neg_index n i) * inverse (of_nat n)"
      using idft_dft [OF r n inv that, of c] by (simp add: idft_def)
    also have "dft r n (dft r n c) (neg_index n i) = (\<Sum>j<n. poly_at c n (r ^ j) * (1 / (r ^ j) ^ i))"
      unfolding dft_def [of r n "dft r n c"] neg_index_power [OF rn root2_neq_0 [OF r] that] by (simp only: dft_poly)
    finally show ?thesis by (simp add: divide_inverse)
  qed
  have "poly_at c n x = (\<Sum>i<n. \<Sum>j<n. poly_at c n (r ^ j) * (x / r ^ j) ^ i / of_nat n)"
    unfolding poly_at_def [of c n x]
    by (intro sum.cong refl) (simp add: c sum_distrib_left sum_distrib_right sum_divide_distrib power_divide mult.commute)
  also have "\<dots> = (\<Sum>j<n. \<Sum>i<n. poly_at c n (r ^ j) * (x / r ^ j) ^ i / of_nat n)" by (rule sum.swap)
  also have "\<dots> = (\<Sum>j<n. poly_at c n (r ^ j) * lagrange r n j x)"
    by (simp add: lagrange_def sum_distrib_left sum_divide_distrib)
  finally show ?thesis .
qed

text \<open>The values on the coset of a generator of twice the order determine the polynomial, too.\<close>

lemma coset_interpolation:
  fixes r :: "'k :: field"
  assumes "root2 L r" and "n = 2 ^ L" and "(of_nat n :: 'k) \<noteq> 0" and "g \<noteq> 0"
  shows "poly_at c n x = (\<Sum>p<n. poly_at c n (g * r ^ p) * lagrange r n p (x / g))"
  using interpolation [OF assms(1-3), of "\<lambda>i. c i * g ^ i" "x / g"] assms(4) by (simp add: poly_at_shift)

lemma lagrange_coset:
  fixes g :: "'k :: field"
  assumes g: "root2 (Suc L) g" and n: "n = 2 ^ L" and n0: "(of_nat n :: 'k) \<noteq> 0" and two: "(2 :: 'k) \<noteq> 0"
  shows "(x ^ n - 1) * lagrange (g ^ 2) n p (x / g) = -2 * lagrange g (2 * n) (2 * p + 1) x"
proof -
  define y where "y = x / g ^ (2 * p + 1)"
  have gn: "g ^ n = -1" using g by (simp add: root2_def n)
  have "(g ^ (2 * p + 1)) ^ n = (g ^ n) ^ (2 * p + 1)" by (simp only: power_mult [symmetric] mult.commute)
  then have yn: "y ^ n = - (x ^ n)" by (simp add: y_def power_divide gn power_mult)
  have y: "x / g / (g ^ 2) ^ p = y" by (simp add: y_def power_mult [symmetric])
  have l: "lagrange (g ^ 2) n p (x / g) = (\<Sum>i<n. y ^ i) / of_nat n" unfolding lagrange_def y ..
  have "(\<Sum>i<2 * n. y ^ i) = (\<Sum>i<n. y ^ i) + (\<Sum>i<n. y ^ (i + n))" by (rule sum_halves)
  also have "(\<Sum>i<n. y ^ (i + n)) = y ^ n * (\<Sum>i<n. y ^ i)" by (simp add: power_add sum_distrib_left mult.commute)
  finally have "(\<Sum>i<2 * n. y ^ i) = (1 - x ^ n) * (\<Sum>i<n. y ^ i)" by (simp add: yn algebra_simps)
  then have "lagrange g (2 * n) (2 * p + 1) x = (1 - x ^ n) * (\<Sum>i<n. y ^ i) / (2 * of_nat n)"
    by (simp add: lagrange_def y_def)
  then show ?thesis using n0 two by (simp add: l field_simps)
qed

text \<open>A quotient by the vanishing polynomial, from its values on the coset times \<open>-2\<close>.\<close>

lemma quotient_interpolation:
  fixes g :: "'k :: field"
  assumes g: "root2 (Suc L) g" and n: "n = 2 ^ L" and n0: "(of_nat n :: 'k) \<noteq> 0" and two: "(2 :: 'k) \<noteq> 0"
  shows "(\<Sum>p<n. -2 * poly_at q n (g * (g ^ 2) ^ p) * lagrange g (2 * n) (2 * p + 1) x) = (x ^ n - 1) * poly_at q n x"
proof -
  have r: "root2 L (g ^ 2)" using root2_power [OF g, of L] by simp
  have "(\<Sum>p<n. -2 * poly_at q n (g * (g ^ 2) ^ p) * lagrange g (2 * n) (2 * p + 1) x)
      = (\<Sum>p<n. (x ^ n - 1) * (poly_at q n (g * (g ^ 2) ^ p) * lagrange (g ^ 2) n p (x / g)))"
  proof (intro sum.cong refl)
    fix p
    have "-2 * poly_at q n (g * (g ^ 2) ^ p) * lagrange g (2 * n) (2 * p + 1) x
        = poly_at q n (g * (g ^ 2) ^ p) * (-2 * lagrange g (2 * n) (2 * p + 1) x)" by simp
    also have "\<dots> = (x ^ n - 1) * (poly_at q n (g * (g ^ 2) ^ p) * lagrange (g ^ 2) n p (x / g))"
      unfolding lagrange_coset [OF assms, symmetric] by (rule mult.left_commute)
    finally show "-2 * poly_at q n (g * (g ^ 2) ^ p) * lagrange g (2 * n) (2 * p + 1) x
        = (x ^ n - 1) * (poly_at q n (g * (g ^ 2) ^ p) * lagrange (g ^ 2) n p (x / g))" .
  qed
  also have "\<dots> = (x ^ n - 1) * poly_at q n x"
    unfolding sum_distrib_left [symmetric] coset_interpolation [OF r n n0 root2_neq_0 [OF g], of q x] ..
  finally show ?thesis .
qed

end
