(* ===== verification/Exponents.thy ===== *)
theory Exponents
  imports Fr_Field Scalar_Mul
begin

section \<open>Exponents in the groups of the curves\<close>

text \<open>
  Points as multiples of a generator: \<open>exponent g P x\<close> says that \<open>P\<close> is a multiple of \<open>g\<close> by an integer of
  the class \<open>x\<close> modulo the order of the scalar field. Sums of points add exponents, multiples multiply
  them, and a bilinear map into a group of that order multiplies the exponents of its arguments.
\<close>

definition exponent :: "'k :: field ec \<Rightarrow> 'k ec \<Rightarrow> fr \<Rightarrow> bool" where
  "exponent g P x \<longleftrightarrow> (\<exists>k. P = int_multiple (ec_add 0) ec_neg Inf k g \<and> of_int k = x)"

context abelian begin

lemma imul_neg: "on p \<Longrightarrow> imul (- k) p = neg (imul k p)"
  using imul_add [of p k "- k"] by (intro neg_unique) simp_all

lemma imul_nmul: "on p \<Longrightarrow> nmul n (imul k p) = imul (int n * k) p"
  by (induction n) (simp_all add: imul_add distrib_right)

lemma imul_imul: "on p \<Longrightarrow> imul j (imul k p) = imul (j * k) p"
  by (cases "0 \<le> j") (simp_all add: int_multiple_def [of cplus neg zero j] imul_nmul imul_neg [symmetric])

text \<open>Additive functions on the multiples of an element.\<close>

lemma additive_imul:
  fixes f :: "'g \<Rightarrow> 't :: ab_group_add"
  assumes p: "on p" and add: "\<And>j k. f (cplus (imul j p) (imul k p)) = f (imul j p) + f (imul k p)"
  shows "f (imul k p) = int_multiple (+) uminus 0 k (f p)"
proof -
  have z: "f zero = 0" using add [of 0 0] by simp
  have n: "f (imul (int n) p) = multiple (+) 0 n (f p)" for n
  proof (induction n)
    case (Suc n)
    have "imul (int (Suc n)) p = cplus (imul 1 p) (imul (int n) p)" using imul_add [OF p, of 1 "int n"] by simp
    then show ?case using add [of 1 "int n"] Suc p by simp
  qed (simp add: z)
  have "f (imul (- k) p) = - f (imul k p)" for k
  proof -
    have "cplus (imul k p) (imul (- k) p) = zero" using imul_add [OF p, of k "- k"] by simp
    then show ?thesis using add [of k "- k"] z by (simp add: eq_neg_iff_add_eq_0 add.commute)
  qed
  from this [of "- k"] show ?thesis using n [of "nat k"] n [of "nat (- k)"]
    by (cases "0 \<le> k") (simp_all add: int_multiple_def [of "(+)"])
qed

end

context smooth_curve begin

lemma points_abelian: "abelian (ec_on a b) (ec_add a) ec_neg Inf"
  by unfold_locales

end

locale plane_group = abelian on "ec_add 0" ec_neg Inf for on :: "'k :: field ec \<Rightarrow> bool" +
  fixes g :: "'k ec"
  assumes on_g [simp]: "on g"
begin

lemma exponent_on: "exponent g P x \<Longrightarrow> on P"
  by (auto simp: exponent_def)

lemma exponent_Inf: "exponent g Inf 0"
  by (auto simp: exponent_def intro!: exI [of _ 0])

lemma exponent_g: "exponent g g 1"
  by (auto simp: exponent_def intro!: exI [of _ 1])

lemma exponent_add: "exponent g P x \<Longrightarrow> exponent g Q y \<Longrightarrow> exponent g (ec_add 0 P Q) (x + y)"
  unfolding exponent_def by (metis imul_add on_g of_int_add)

lemma exponent_neg: "exponent g P x \<Longrightarrow> exponent g (ec_neg P) (- x)"
  unfolding exponent_def by (metis imul_neg on_g of_int_minus)

lemma exponent_mul: "exponent g P x \<Longrightarrow> exponent g (ec_mul 0 n P) (of_nat n * x)"
  unfolding exponent_def ec_mul_def by (metis imul_nmul on_g of_int_mult of_int_of_nat_eq)

text \<open>A function that adds on the multiples of the generator.\<close>

lemma additive_exponent:
  fixes f :: "'k ec \<Rightarrow> 't :: ab_group_add"
  assumes "\<And>P Q x y. exponent g P x \<Longrightarrow> exponent g Q y \<Longrightarrow> f (ec_add 0 P Q) = f P + f Q"
  shows "f (int_multiple (ec_add 0) ec_neg Inf k g) = int_multiple (+) uminus 0 k (f g)"
proof (intro additive_imul on_g)
  have "exponent g (imul i g) (of_int i)" for i by (auto simp: exponent_def)
  then show "f (ec_add 0 (imul i g) (imul j g)) = f (imul i g) + f (imul j g)" for i j by (intro assms)
qed

lemma exponent_total:
  "length xs = length ps \<Longrightarrow> (\<And>i. i < length ps \<Longrightarrow> exponent g (ps ! i) (xs ! i)) \<Longrightarrow>
   exponent g (list_total (ec_add 0) Inf ps) (sum_list xs)"
proof (induction xs ps rule: list_induct2)
  case (Cons x xs p ps)
  from Cons.prems [of 0] Cons.prems [of "Suc _"] Cons.IH show ?case by (simp add: exponent_add)
qed (simp add: exponent_Inf)

end

text \<open>Bilinear maps into a group of the order of the scalar field.\<close>

definition bilinear :: "'a :: field ec \<Rightarrow> 'b :: field ec \<Rightarrow> ('a ec \<Rightarrow> 'b ec \<Rightarrow> 't :: ab_group_add) \<Rightarrow> bool" where
  "bilinear g1 g2 e \<longleftrightarrow>
     (\<forall>P P' Q x x' y. exponent g1 P x \<and> exponent g1 P' x' \<and> exponent g2 Q y \<longrightarrow> e (ec_add 0 P P') Q = e P Q + e P' Q)
     \<and> (\<forall>P Q Q' x y y'. exponent g1 P x \<and> exponent g2 Q y \<and> exponent g2 Q' y' \<longrightarrow> e P (ec_add 0 Q Q') = e P Q + e P Q')
     \<and> multiple (+) 0 Fr_prime (e g1 g2) = 0"

lemma target_abelian: "abelian (\<lambda>_. True) (+) uminus (0 :: 't :: ab_group_add)"
  by unfold_locales (simp_all add: ac_simps)

lemma of_int_fr_eq: "(of_int j :: fr) = of_int k \<longleftrightarrow> int Fr_prime dvd j - k"
proof -
  have 0: "(of_int k :: fr) = 0 \<longleftrightarrow> int Fr_prime dvd k" for k
  proof -
    have n: "(of_nat n :: fr) = 0 \<longleftrightarrow> int Fr_prime dvd int n" for n
      unfolding int_dvd_int_iff using fr_of_nat_eq_iff [of n 0] by (simp add: fr_mod_def mod_eq_0_iff_dvd)
    show ?thesis
    proof (cases "0 \<le> k")
      case True
      then show ?thesis using n [of "nat k"] by simp
    next
      case False
      then have "(of_int k :: fr) = - of_nat (nat (- k))" by simp
      then show ?thesis using n [of "nat (- k)"] False by (simp del: of_nat_nat)
    qed
  qed
  show ?thesis using 0 [of "j - k"] by simp
qed

lemma bilinear_exponents:
  fixes e :: "'a :: field ec \<Rightarrow> 'b :: field ec \<Rightarrow> 't :: ab_group_add"
  assumes e: "bilinear g1 g2 e" and g1: "plane_group on1 g1" and g2: "plane_group on2 g2"
    and P: "exponent g1 P x" and Q: "exponent g2 Q y" and z: "x * y = of_int z"
  shows "e P Q = int_multiple (+) uminus 0 z (e g1 g2)"
proof -
  note T = target_abelian [where 't = 't]
  let ?m1 = "\<lambda>k. int_multiple (ec_add 0) ec_neg Inf k g1" and ?m2 = "\<lambda>k. int_multiple (ec_add 0) ec_neg Inf k g2"
    and ?mt = "int_multiple (+) uminus (0 :: 't)"
  let ?t = "e g1 g2"
  obtain j where j: "P = ?m1 j" "of_int j = x" using P by (auto simp: exponent_def)
  obtain k where k: "Q = ?m2 k" "of_int k = y" using Q by (auto simp: exponent_def)
  have "e P Q = ?mt j (e g1 Q)" unfolding j(1)
    using e Q unfolding bilinear_def by (intro plane_group.additive_exponent [OF g1, where f = "\<lambda>P. e P Q"]) blast
  also have "e g1 Q = ?mt k ?t" unfolding k(1)
    using e plane_group.exponent_g [OF g1] unfolding bilinear_def by (intro plane_group.additive_exponent [OF g2]) blast
  also have "?mt j (?mt k ?t) = ?mt (j * k) ?t" by (rule abelian.imul_imul [OF T]) simp
  also have "\<dots> = ?mt z ?t"
  proof -
    have "(of_int (j * k) :: fr) = of_int z" using z by (simp add: j(2) k(2))
    then obtain d where "j * k - z = int Fr_prime * d" unfolding of_int_fr_eq by (elim dvdE)
    then have d: "j * k = z + d * int Fr_prime" by (simp add: algebra_simps)
    have "?mt (d * int Fr_prime) ?t = ?mt d (?mt (int Fr_prime) ?t)" by (rule abelian.imul_imul [OF T, symmetric]) simp
    also have "?mt (int Fr_prime) ?t = 0" using e unfolding abelian.imul_nat [OF T] bilinear_def by blast
    also have "?mt d 0 = 0" by (simp add: int_multiple_def abelian.nmul_zero [OF T])
    finally show ?thesis unfolding d by (simp add: abelian.imul_add [OF T])
  qed
  finally show ?thesis .
qed

end
