(* ===== verification/Groth16_Scheme.thy ===== *)
theory Groth16_Scheme
  imports Bn254_Groth16 Lagrange Exponents
begin

section \<open>The proof satisfies the verification equation\<close>

text \<open>
  What makes the combinations of \<open>prove\<close> a Groth16 proof: for a key made from a trapdoor and a system of
  constraints, and a witness that satisfies it, the exponents of the three points satisfy the equation
  that a verifier checks with a pairing. The constraints are \<open>(A w) (B w) = C w\<close>, row by row; the matrices \<open>A\<close>
  and \<open>B\<close> are the coefficients of the key, \<open>C\<close> appears in the points only.
\<close>

subsection \<open>Keys\<close>

record trapdoor =
  t_alpha :: fr
  t_beta :: fr
  t_gamma :: fr
  t_delta :: fr
  t_tau :: fr

record verifying_key =
  vk_gamma2 :: "fq2 ec"
  vk_ic :: "fq ec list"

definition entry :: "bool \<Rightarrow> coef list \<Rightarrow> nat \<Rightarrow> nat \<Rightarrow> nat \<Rightarrow> fr" where
  "entry first ks N j i = (\<Sum>k<N. if (coef_m (ks ! k) = 0) = first \<and> unat (coef_c (ks ! k)) = j \<and> unat (coef_s (ks ! k)) = i
     then coef_value (ks ! k) else 0)"

text \<open>The value at a point of the polynomial that takes the values of a column of a matrix at the roots of unity.\<close>

definition column :: "fr \<Rightarrow> nat \<Rightarrow> fr \<Rightarrow> (nat \<Rightarrow> nat \<Rightarrow> fr) \<Rightarrow> nat \<Rightarrow> fr" where
  "column r n x m i = (\<Sum>j<n. m j i * lagrange r n j x)"

definition first_column :: "trapdoor \<Rightarrow> prover \<Rightarrow> nat \<Rightarrow> fr \<Rightarrow> bool \<Rightarrow> nat \<Rightarrow> fr" where
  "first_column t P L w first = column (root_for (p_fft P) w L) (2 ^ L) (t_tau t) (entry first (p_coefs P) (unat (p_nCoefs P)))"

definition mixed_column :: "trapdoor \<Rightarrow> (nat \<Rightarrow> nat \<Rightarrow> fr) \<Rightarrow> prover \<Rightarrow> nat \<Rightarrow> fr \<Rightarrow> nat \<Rightarrow> fr" where
  "mixed_column t cm P L w i = t_beta t * first_column t P L w True i + t_alpha t * first_column t P L w False i
     + column (root_for (p_fft P) w L) (2 ^ L) (t_tau t) cm i"

definition key_for :: "trapdoor \<Rightarrow> (nat \<Rightarrow> nat \<Rightarrow> fr) \<Rightarrow> fq ec \<Rightarrow> fq2 ec \<Rightarrow> prover \<Rightarrow> nat \<Rightarrow> fr \<Rightarrow> bool" where
  "key_for t cm g1 g2 P L w \<longleftrightarrow>
     (let n = 2 ^ L; nv = unat (p_nVars P); l = unat (p_nPublic P) + 1; V1 = aff_val fq_val; V2 = aff_val fq2_val in
      exponent g1 (V1 (p_alpha1 P)) (t_alpha t) \<and> exponent g1 (V1 (p_beta1 P)) (t_beta t) \<and> exponent g2 (V2 (p_beta2 P)) (t_beta t)
      \<and> exponent g1 (V1 (p_delta1 P)) (t_delta t) \<and> exponent g2 (V2 (p_delta2 P)) (t_delta t)
      \<and> (\<forall>i<nv. exponent g1 (V1 (p_pointsA P ! i)) (first_column t P L w True i)
          \<and> exponent g1 (V1 (p_pointsB1 P ! i)) (first_column t P L w False i)
          \<and> exponent g2 (V2 (p_pointsB2 P ! i)) (first_column t P L w False i))
      \<and> (\<forall>i<nv - l. exponent g1 (V1 (p_pointsC P ! i)) (mixed_column t cm P L w (l + i) / t_delta t))
      \<and> (\<forall>p<n. exponent g1 (V1 (p_pointsH P ! p)) (lagrange (root_for (p_fft P) w (Suc L)) (2 * n) (2 * p + 1) (t_tau t) / t_delta t)))"

definition vk_for :: "trapdoor \<Rightarrow> (nat \<Rightarrow> nat \<Rightarrow> fr) \<Rightarrow> fq ec \<Rightarrow> fq2 ec \<Rightarrow> prover \<Rightarrow> nat \<Rightarrow> fr \<Rightarrow> verifying_key \<Rightarrow> bool" where
  "vk_for t cm g1 g2 P L w vk \<longleftrightarrow> exponent g2 (vk_gamma2 vk) (t_gamma t) \<and> length (vk_ic vk) = unat (p_nPublic P) + 1
     \<and> (\<forall>i<length (vk_ic vk). exponent g1 (vk_ic vk ! i) (mixed_column t cm P L w i / t_gamma t))"

definition satisfies :: "prover \<Rightarrow> (nat \<Rightarrow> nat \<Rightarrow> fr) \<Rightarrow> nat \<Rightarrow> limbs list \<Rightarrow> bool" where
  "satisfies P cm L ws \<longleftrightarrow> (\<forall>j<2 ^ L. row_sum True (p_coefs P) ws (unat (p_nCoefs P)) j * row_sum False (p_coefs P) ws (unat (p_nCoefs P)) j
     = (\<Sum>i<unat (p_nVars P). cm j i * of_nat (lval (ws ! i))))"

text \<open>The combination of the points of the verifying key with the public part of the witness.\<close>

definition public_point :: "verifying_key \<Rightarrow> limbs list \<Rightarrow> fq ec" where
  "public_point vk ws = lin_comb (\<lambda>P. P) (take (length (vk_ic vk)) ws) (vk_ic vk)"

subsection \<open>Columns\<close>

lemma row_sum_entries:
  assumes "\<And>k. k < N \<Longrightarrow> unat (coef_s (ks ! k)) < nv"
  shows "row_sum first ks ws N j = (\<Sum>i<nv. entry first ks N j i * of_nat (lval (ws ! i)))"
proof -
  have "(\<Sum>i<nv. entry first ks N j i * of_nat (lval (ws ! i)))
      = (\<Sum>i<nv. \<Sum>k<N. if unat (coef_s (ks ! k)) = i then (if (coef_m (ks ! k) = 0) = first \<and> unat (coef_c (ks ! k)) = j
          then of_nat (lval (ws ! i)) * coef_value (ks ! k) else 0) else 0)"
    unfolding entry_def sum_distrib_right by (intro sum.cong refl) auto
  also have "\<dots> = (\<Sum>k<N. \<Sum>i<nv. if unat (coef_s (ks ! k)) = i then (if (coef_m (ks ! k) = 0) = first \<and> unat (coef_c (ks ! k)) = j
          then of_nat (lval (ws ! i)) * coef_value (ks ! k) else 0) else 0)" by (rule sum.swap)
  also have "\<dots> = row_sum first ks ws N j"
    unfolding row_sum_def using assms by (intro sum.cong refl) (simp add: sum.delta)
  finally show ?thesis ..
qed

lemma columns_sum:
  "(\<Sum>i<nv. u i * column r n x m i) = (\<Sum>j<n. (\<Sum>i<nv. m j i * u i) * lagrange r n j x)"
  unfolding column_def sum_distrib_left sum_distrib_right by (subst sum.swap) (simp add: mult_ac)

lemma sum_split: "l \<le> nv \<Longrightarrow> (\<Sum>i<nv. f i) = (\<Sum>i<l. f i) + (\<Sum>i<nv - l. f (l + i))" for f :: "nat \<Rightarrow> 'a :: comm_monoid_add"
  using sum.nat_group [of f] sum.atLeastLessThan_concat [of 0 l nv f] sum.shift_bounds_nat_ivl [of f 0 l "nv - l"]
  by (simp add: lessThan_atLeast0 add.commute)

context plane_group begin

lemma lin_comb_exponent:
  assumes "length ws = length bs" and "\<And>i. i < length bs \<Longrightarrow> exponent g (v (bs ! i)) (c i)"
  shows "exponent g (lin_comb v ws bs) (\<Sum>i<length bs. of_nat (lval (ws ! i)) * c i)"
proof -
  let ?xs = "map (\<lambda>i. of_nat (lval (ws ! i)) * c i) [0..<length bs]"
  have "exponent g (lin_comb v ws bs) (sum_list ?xs)"
    unfolding lin_comb_def using assms by (intro exponent_total) (simp_all add: exponent_mul)
  moreover have "sum_list ?xs = (\<Sum>i<length bs. of_nat (lval (ws ! i)) * c i)"
    by (simp add: interv_sum_list_conv_sum_set_nat atLeast0LessThan)
  ultimately show ?thesis by simp
qed

end

lemma plane_g1: "ec_on 0 (3 :: fq) g \<Longrightarrow> plane_group (ec_on 0 3) g"
proof -
  have "smooth_curve (0 :: fq) 3"
    using ref.g1.two_neq_0 smooth_a0 [OF fq_three_neq_0 fq_three_neq_0] by unfold_locales
  then show "ec_on 0 (3 :: fq) g \<Longrightarrow> plane_group (ec_on 0 3) g"
    by (intro plane_group.intro plane_group_axioms.intro smooth_curve.points_abelian)
qed

lemma plane_g2: "ec_on 0 G2_b g \<Longrightarrow> plane_group (ec_on 0 G2_b) g"
proof -
  have "smooth_curve 0 G2_b"
    using ref.g2.two_neq_0 smooth_a0 [OF fq2_three_neq_0 G2_b_neq_0] by unfold_locales
  then show "ec_on 0 G2_b g \<Longrightarrow> plane_group (ec_on 0 G2_b) g"
    by (intro plane_group.intro plane_group_axioms.intro smooth_curve.points_abelian)
qed

text \<open>Both groups of the engine with the generators that it stores.\<close>

interpretation bn_g1: plane_group "ec_on 0 (3 :: fq)" "Aff 1 2"
  by (rule plane_g1) simp

interpretation bn_g2: plane_group "ec_on 0 G2_b" "Aff G2_x G2_y"
  by (rule plane_g2 [OF G2_on_curve])

subsection \<open>The equation\<close>

lemma equation_algebra:
  fixes al be de ca cb cc z r s :: "'k :: field"
  assumes "de \<noteq> 0" and "ga \<noteq> 0" and "X + Y = be * ca + al * cb + cc" and "Z = ca * cb - cc"
    and "a = ca + al + r * de" and "b = cb + be + s * de"
  shows "a * b = al * be + X / ga * ga + (Y / de + Z / de + s * a + r * b + - (r * s * de)) * de"
proof -
  have c: "(Y / de + Z / de + u) * de = Y + Z + u * de" for u
    using assms(1) by (simp add: distrib_right)
  have x: "X / ga * ga = X" using assms(2) by simp
  have y: "Y = be * ca + al * cb + cc - X" using assms(3) by (simp add: algebra_simps)
  have "a * b = al * be + X + (Y + Z + (s * a + r * b + - (r * s * de)) * de)"
    unfolding y assms(4-6) by (simp add: algebra_simps)
  then show ?thesis unfolding x add.assoc [of "Y / de + Z / de"] add.assoc [of "s * a"] c by (simp add: add.assoc)
qed

abbreviation wval :: "limbs list \<Rightarrow> nat \<Rightarrow> fr" where
  "wval ws i \<equiv> of_nat (lval (ws ! i))"

text \<open>The points for the quotient, combined with the array \<open>h\<close>.\<close>

lemma quotient_sum:
  assumes R: "fft_tables fr_ok fr_val (p_fft P) w" and S: "Suc L \<le> fft_s (p_fft P)"
    and sig: "\<And>k. k < unat (p_nCoefs P) \<Longrightarrow> unat (coef_s (p_coefs P ! k)) < nv" and nv: "nv = unat (p_nVars P)"
    and q: "coset_quotient P ws L w h" and sat: "satisfies P cm L ws"
  shows "(\<Sum>p<2 ^ L. wval h p * lagrange (root_for (p_fft P) w (Suc L)) (2 * 2 ^ L) (2 * p + 1) (t_tau t))
    = (\<Sum>i<nv. wval ws i * first_column t P L w True i) * (\<Sum>i<nv. wval ws i * first_column t P L w False i)
      - (\<Sum>i<nv. wval ws i * column (root_for (p_fft P) w L) (2 ^ L) (t_tau t) cm i)"
proof -
  define n where "n = (2 :: nat) ^ L"
  let ?r = "root_for (p_fft P) w L" and ?g = "root_for (p_fft P) w (Suc L)" and ?x = "t_tau t"
    and ?row = "\<lambda>first. row_sum first (p_coefs P) ws (unat (p_nCoefs P))"
  have L: "L \<le> fft_s (p_fft P)" using S by simp
  have r: "root2 L ?r" and g: "root2 (Suc L) ?g" using root_for_order [OF R] L S by blast+
  have g2: "?g ^ 2 = ?r"
  proof -
    have "fft_s (p_fft P) - L = Suc (fft_s (p_fft P) - Suc L)" using S by simp
    then show ?thesis by (simp add: root_for_def mult.commute flip: power_mult)
  qed
  have two: "(2 :: fr) \<noteq> 0" by (rule ref.fr.two_neq_0)
  then have n0: "(of_nat n :: fr) \<noteq> 0" by (simp add: n_def)
  obtain ca cb cc q where c: "\<And>j. j < n \<Longrightarrow> poly_at ca n (?r ^ j) = ?row True j" "\<And>j. j < n \<Longrightarrow> poly_at cb n (?r ^ j) = ?row False j"
      "\<And>j. j < n \<Longrightarrow> poly_at cc n (?r ^ j) = ?row True j * ?row False j"
    and qu: "\<And>x. poly_at ca n x * poly_at cb n x - poly_at cc n x = (x ^ n - 1) * poly_at q n x"
    and h: "\<And>p. p < n \<Longrightarrow> wval h p = -2 * poly_at q n (?g * ?r ^ p)"
    using q unfolding coset_quotient_def Let_def n_def [symmetric] by blast
  have A: "(\<Sum>i<nv. wval ws i * first_column t P L w first i) = (\<Sum>j<n. ?row first j * lagrange ?r n j ?x)" for first
    unfolding first_column_def n_def [symmetric] columns_sum
    using row_sum_entries [of "unat (p_nCoefs P)" "p_coefs P" nv, OF sig] by simp
  have C: "(\<Sum>i<nv. wval ws i * column ?r n ?x cm i) = (\<Sum>j<n. ?row True j * ?row False j * lagrange ?r n j ?x)"
    unfolding columns_sum using sat by (intro sum.cong refl) (simp add: satisfies_def nv n_def)
  have I: "poly_at c n ?x = (\<Sum>j<n. f j * lagrange ?r n j ?x)" if "\<And>j. j < n \<Longrightarrow> poly_at c n (?r ^ j) = f j" for c f
    unfolding interpolation [OF r n_def n0, of c ?x] using that by (intro sum.cong refl) simp
  have "(\<Sum>p<n. wval h p * lagrange ?g (2 * n) (2 * p + 1) ?x) = (?x ^ n - 1) * poly_at q n ?x"
    using quotient_interpolation [OF g n_def n0 two, of q ?x] h unfolding g2 by simp
  then show ?thesis unfolding n_def [symmetric] A C qu [symmetric]
    using I [of ca "?row True"] I [of cb "?row False"] I [of cc "\<lambda>j. ?row True j * ?row False j"] c by simp
qed

context plane_group begin

lemma lin_comb_take:
  assumes "n \<le> length ws" and "n \<le> length bs" and "\<And>i. i < n \<Longrightarrow> exponent g (v (bs ! i)) (c i)"
  shows "exponent g (lin_comb v (take n ws) (take n bs)) (\<Sum>i<n. wval ws i * c i)"
proof -
  have l: "length (take n bs) = n" using assms(2) by simp
  have "exponent g (lin_comb v (take n ws) (take n bs)) (\<Sum>i<length (take n bs). wval (take n ws) i * c i)"
    using assms by (intro lin_comb_exponent) simp_all
  then show ?thesis unfolding l by simp
qed

text \<open>A point blinded by a constant of the key and a multiple of \<open>delta\<close>.\<close>

lemma blind_exponent:
  assumes "n \<le> length ws" and "n \<le> length bs" and "\<And>i. i < n \<Longrightarrow> exponent g (v (bs ! i)) (c i)"
    and "exponent g K k" and "exponent g D d"
  shows "exponent g (ec_add 0 (ec_add 0 (lin_comb v (take n ws) (take n bs)) K) (ec_mul 0 r D))
    ((\<Sum>i<n. wval ws i * c i) + k + of_nat r * d)"
  by (intro exponent_add exponent_mul assms(4,5) lin_comb_take assms(1-3))

end

lemma key_exponents:
  assumes g: "ec_on 0 3 g1" "ec_on 0 G2_b g2" and key: "key_for t cm g1 g2 P L w" and P: "prover_ok P L w"
    and ws: "unat (p_nVars P) \<le> length ws"
  shows "exponent g1 (groth_A P ws r) ((\<Sum>i<unat (p_nVars P). wval ws i * first_column t P L w True i) + t_alpha t + of_nat r * t_delta t)"
    and "exponent g1 (groth_B1 P ws s) ((\<Sum>i<unat (p_nVars P). wval ws i * first_column t P L w False i) + t_beta t + of_nat s * t_delta t)"
    and "exponent g2 (groth_B2 P ws s) ((\<Sum>i<unat (p_nVars P). wval ws i * first_column t P L w False i) + t_beta t + of_nat s * t_delta t)"
proof -
  have l: "unat (p_nVars P) \<le> length (p_pointsA P)" "unat (p_nVars P) \<le> length (p_pointsB1 P)" "unat (p_nVars P) \<le> length (p_pointsB2 P)"
    using P by (simp_all add: prover_ok_def)
  note k = key [unfolded key_for_def Let_def]
  show "exponent g1 (groth_A P ws r) ((\<Sum>i<unat (p_nVars P). wval ws i * first_column t P L w True i) + t_alpha t + of_nat r * t_delta t)"
    unfolding groth_A_def Let_def using k by (intro plane_group.blind_exponent [OF plane_g1 [OF g(1)] ws l(1)]) blast+
  show "exponent g1 (groth_B1 P ws s) ((\<Sum>i<unat (p_nVars P). wval ws i * first_column t P L w False i) + t_beta t + of_nat s * t_delta t)"
    unfolding groth_B1_def Let_def using k by (intro plane_group.blind_exponent [OF plane_g1 [OF g(1)] ws l(2)]) blast+
  show "exponent g2 (groth_B2 P ws s) ((\<Sum>i<unat (p_nVars P). wval ws i * first_column t P L w False i) + t_beta t + of_nat s * t_delta t)"
    unfolding groth_B2_def Let_def using k by (intro plane_group.blind_exponent [OF plane_g2 [OF g(2)] ws l(3)]) blast+
qed

lemma key_C:
  assumes g: "ec_on 0 3 g1" "ec_on 0 G2_b g2" and key: "key_for t cm g1 g2 P L w" and P: "prover_ok P L w"
    and ws: "unat (p_nVars P) \<le> length ws" and h: "length h = 2 ^ L"
    and nv: "nv = unat (p_nVars P)" and l: "l = unat (p_nPublic P) + 1"
    and AB: "exponent g1 (groth_A P ws r) a" "exponent g1 (groth_B1 P ws s) b"
  shows "exponent g1 (groth_C P ws h r s)
    ((\<Sum>i<nv - l. wval ws (l + i) * mixed_column t cm P L w (l + i)) / t_delta t
      + (\<Sum>p<2 ^ L. wval h p * lagrange (root_for (p_fft P) w (Suc L)) (2 * 2 ^ L) (2 * p + 1) (t_tau t)) / t_delta t
      + of_nat s * a + of_nat r * b + - (of_nat r * of_nat s * t_delta t))"
proof -
  note K = plane_g1 [OF g(1)]
  have d: "unat (p_domainSize P) = 2 ^ L" and lens: "nv - l \<le> length (p_pointsC P)" "2 ^ L \<le> length (p_pointsH P)"
    and pub: "l \<le> nv" using P by (simp_all add: prover_ok_def nv l word_less_nat_alt)
  have ws': "nv - l \<le> length (drop l ws)" "2 ^ L \<le> length h" using ws h by (simp_all add: nv)
  note k = key [unfolded key_for_def Let_def, folded nv l]
  have x: "exponent g1 (lin_comb (aff_val fq_val) (take (nv - l) (drop l ws)) (take (nv - l) (p_pointsC P)))
      (\<Sum>i<nv - l. wval (drop l ws) i * (mixed_column t cm P L w (l + i) / t_delta t))"
    using k by (intro plane_group.lin_comb_take [OF K ws'(1) lens(1)]) blast
  have y: "exponent g1 (lin_comb (aff_val fq_val) (take (2 ^ L) h) (take (2 ^ L) (p_pointsH P)))
      (\<Sum>p<2 ^ L. wval h p * (lagrange (root_for (p_fft P) w (Suc L)) (2 * 2 ^ L) (2 * p + 1) (t_tau t) / t_delta t))"
    using k by (intro plane_group.lin_comb_take [OF K ws'(2) lens(2)]) blast
  have w: "wval (drop l ws) i = wval ws (l + i)" if "i < nv - l" for i using that ws by (simp add: nv)
  have th: "take (2 ^ L) h = h" using h by simp
  have rs: "(of_nat (r * s mod Fr_prime) :: fr) = of_nat r * of_nat s"
    unfolding fr_of_nat_mod [unfolded fr_mod_def] by simp
  have "exponent g1 (groth_C P ws h r s)
     ((\<Sum>i<nv - l. wval (drop l ws) i * (mixed_column t cm P L w (l + i) / t_delta t))
      + (\<Sum>p<2 ^ L. wval h p * (lagrange (root_for (p_fft P) w (Suc L)) (2 * 2 ^ L) (2 * p + 1) (t_tau t) / t_delta t))
      + of_nat s * a + of_nat r * b + - (of_nat (r * s mod Fr_prime) * t_delta t))"
    unfolding groth_C_def Let_def nv [symmetric] l [symmetric] d using k
    by (intro plane_group.exponent_add [OF K] plane_group.exponent_mul [OF K] plane_group.exponent_neg [OF K]
        x y [unfolded th] AB) blast
  then show ?thesis unfolding rs using w by (simp add: sum_divide_distrib)
qed

lemma scheme_equation:
  assumes g: "ec_on 0 3 g1" "ec_on 0 G2_b g2" and key: "key_for t cm g1 g2 P L w" and vk: "vk_for t cm g1 g2 P L w vk"
    and P: "prover_ok P L w" and sig: "coefs_in_bounds P (unat (p_nVars P))" and ws: "unat (p_nVars P) \<le> length ws"
    and q: "coset_quotient P ws L w h" and sat: "satisfies P cm L ws" and nz: "t_delta t \<noteq> 0" "t_gamma t \<noteq> 0"
  shows "\<exists>a b c x. exponent g1 (groth_A P ws r) a \<and> exponent g2 (groth_B2 P ws s) b \<and> exponent g1 (groth_C P ws h r s) c
    \<and> exponent g1 (public_point vk ws) x \<and> a * b = t_alpha t * t_beta t + x * t_gamma t + c * t_delta t"
proof -
  define nv where "nv = unat (p_nVars P)"
  define l where "l = unat (p_nPublic P) + 1"
  let ?m = "mixed_column t cm P L w"
  define ca where "ca = (\<Sum>i<nv. wval ws i * first_column t P L w True i)"
  define cb where "cb = (\<Sum>i<nv. wval ws i * first_column t P L w False i)"
  define cc where "cc = (\<Sum>i<nv. wval ws i * column (root_for (p_fft P) w L) (2 ^ L) (t_tau t) cm i)"
  define X where "X = (\<Sum>i<l. wval ws i * ?m i)"
  define Y where "Y = (\<Sum>i<nv - l. wval ws (l + i) * ?m (l + i))"
  define Z where "Z = (\<Sum>p<2 ^ L. wval h p * lagrange (root_for (p_fft P) w (Suc L)) (2 * 2 ^ L) (2 * p + 1) (t_tau t))"
  note K = key_exponents [OF g key P ws, folded nv_def, folded ca_def cb_def]
  have lh: "length h = 2 ^ L" using q by (simp add: coset_quotient_def Let_def)
  note C = key_C [OF g key P ws lh nv_def l_def K(1) K(2), folded Y_def Z_def]
  have s: "unat (coef_s (p_coefs P ! k)) < nv" if k: "k < unat (p_nCoefs P)" for k
  proof -
    have "k < length (take (unat (p_nCoefs P)) (p_coefs P))" using sig k by (simp add: coefs_in_bounds_def)
    then have "p_coefs P ! k \<in> set (take (unat (p_nCoefs P)) (p_coefs P))" using k by (metis nth_mem nth_take)
    then show ?thesis using sig by (simp add: coefs_in_bounds_def list_all_iff nv_def)
  qed
  have tabs: "fft_tables fr_ok fr_val (p_fft P) w" "Suc L \<le> fft_s (p_fft P)" and le: "l \<le> nv"
    using P by (simp_all add: prover_ok_def l_def nv_def word_less_nat_alt)
  have Zq: "Z = ca * cb - cc"
    unfolding Z_def ca_def cb_def cc_def by (rule quotient_sum [OF tabs s nv_def q sat])
  have XY: "X + Y = t_beta t * ca + t_alpha t * cb + cc"
    unfolding X_def Y_def sum_split [OF le, of "\<lambda>i. wval ws i * ?m i", symmetric] ca_def cb_def cc_def sum_distrib_left sum.distrib [symmetric]
    by (intro sum.cong refl) (simp add: mixed_column_def algebra_simps)
  have x: "exponent g1 (public_point vk ws) (X / t_gamma t)"
  proof -
    have n: "length (vk_ic vk) = l" using vk by (simp add: vk_for_def l_def)
    then have "exponent g1 (lin_comb (\<lambda>P. P) (take l ws) (take l (vk_ic vk))) (\<Sum>i<l. wval ws i * (?m i / t_gamma t))"
      using vk le ws by (intro plane_group.lin_comb_take [OF plane_g1 [OF g(1)]]) (simp_all add: vk_for_def nv_def)
    then show ?thesis using n by (simp add: public_point_def X_def sum_divide_distrib)
  qed
  show ?thesis
    using equation_algebra [OF nz XY Zq refl refl, of "of_nat r" "of_nat s"] K(1) K(3) C x by blast
qed

text \<open>What the verifier computes with a pairing, the target group written additively.\<close>

lemma pairing_equation:
  fixes e :: "fq ec \<Rightarrow> fq2 ec \<Rightarrow> 't :: ab_group_add"
  assumes e: "bilinear g1 g2 e" and g: "ec_on 0 3 g1" "ec_on 0 G2_b g2"
    and "exponent g1 A a" "exponent g2 B b" "exponent g1 C c" "exponent g1 X x"
    and "exponent g1 K al" "exponent g2 M be" "exponent g2 N ga" "exponent g2 D de"
    and eq: "a * b = al * be + x * ga + c * de"
  shows "e A B = e K M + e X N + e C D"
proof -
  let ?mt = "int_multiple (+) uminus (0 :: 't)"
  note val = bilinear_exponents [OF e plane_g1 [OF g(1)] plane_g2 [OF g(2)]]
  define z1 z2 z3 where "z1 = int (fr_nat (al * be))" and "z2 = int (fr_nat (x * ga))" and "z3 = int (fr_nat (c * de))"
  have z: "al * be = of_int z1" "x * ga = of_int z2" "c * de = of_int z3" by (simp_all add: z1_def z2_def z3_def)
  then have "a * b = of_int (z1 + z2 + z3)" using eq by simp
  note v = val [OF assms(4,5) this] val [OF assms(8,9) z(1)] val [OF assms(7,10) z(2)] val [OF assms(6,11) z(3)]
  show ?thesis unfolding v by (simp add: abelian.imul_add [OF target_abelian])
qed

subsection \<open>A key made from a trapdoor\<close>

text \<open>The multiple of a point by a class, as the code computes it.\<close>

definition key_point :: "'e curve \<Rightarrow> 'e point \<Rightarrow> fr \<Rightarrow> 'e affine" where
  "key_point C p x = Curve_copyAP C (Curve_mulByScalarP C p (limb_bytes (limbs_of 4 (fr_nat x))) 32)"

text \<open>The prover without its points: the sizes, the coefficients and the tables.\<close>

definition setup_key :: "limbs curve \<Rightarrow> limbs f2_element curve \<Rightarrow> trapdoor \<Rightarrow> (nat \<Rightarrow> nat \<Rightarrow> fr) \<Rightarrow> nat \<Rightarrow> fr \<Rightarrow> prover \<Rightarrow> prover" where
  "setup_key C1 C2 t cm L w P =
     (let K1 = key_point C1 (c_fone C1); K2 = key_point C2 (c_fone C2); nv = unat (p_nVars P); l = unat (p_nPublic P) + 1 in
      P\<lparr>p_alpha1 := K1 (t_alpha t), p_beta1 := K1 (t_beta t), p_beta2 := K2 (t_beta t), p_delta1 := K1 (t_delta t),
        p_delta2 := K2 (t_delta t),
        p_pointsA := map (\<lambda>i. K1 (first_column t P L w True i)) [0..<nv],
        p_pointsB1 := map (\<lambda>i. K1 (first_column t P L w False i)) [0..<nv],
        p_pointsB2 := map (\<lambda>i. K2 (first_column t P L w False i)) [0..<nv],
        p_pointsC := map (\<lambda>i. K1 (mixed_column t cm P L w (l + i) / t_delta t)) [0..<nv - l],
        p_pointsH := map (\<lambda>p. K1 (lagrange (root_for (p_fft P) w (Suc L)) (2 * 2 ^ L) (2 * p + 1) (t_tau t) / t_delta t)) [0..<2 ^ L]\<rparr>)"

definition setup_vk :: "fq ec \<Rightarrow> fq2 ec \<Rightarrow> trapdoor \<Rightarrow> (nat \<Rightarrow> nat \<Rightarrow> fr) \<Rightarrow> prover \<Rightarrow> nat \<Rightarrow> fr \<Rightarrow> verifying_key" where
  "setup_vk g1 g2 t cm P L w = \<lparr>vk_gamma2 = ec_mul 0 (fr_nat (t_gamma t)) g2,
     vk_ic = map (\<lambda>i. ec_mul 0 (fr_nat (mixed_column t cm P L w i / t_gamma t)) g1) [0..<unat (p_nPublic P) + 1]\<rparr>"

lemma setup_key_columns:
  "first_column t (setup_key C1 C2 t' cm' L' w' P) = first_column t P"
  "mixed_column t cm (setup_key C1 C2 t' cm' L' w' P) = mixed_column t cm P"
  by (simp_all add: fun_eq_iff first_column_def mixed_column_def setup_key_def Let_def)

lemma exponent_multiple: "plane_group on g \<Longrightarrow> exponent g (ec_mul 0 (fr_nat x) g) x"
  using plane_group.exponent_mul [OF _ plane_group.exponent_g, where n = "fr_nat x"] by fastforce

lemma fr_limbs: "lval (limbs_of 4 (fr_nat x)) = fr_nat x"
  using fr_nat_lt [of x] by (intro lval_limbs_of_small) (simp add: fr_mod_def)

context gmp_laws begin

lemma key_point1: "G1_affine (key_point g1.C (c_fone g1.C) x) \<and> exponent (Aff 1 2) (aff_val fq_val (key_point g1.C (c_fone g1.C) x)) x"
proof -
  have p: "g1.point_on (c_fone g1.C)" "point_val fq_val (c_fone g1.C) = Aff 1 2"
    using g1_generator unfolding g1.point_on_def G1_strings(2,4) by simp_all
  note m = g1.mulP_on [OF p(1), of "limbs_of 4 (fr_nat x)", unfolded g1_zero_a p(2) fr_limbs]
  have nz: "fq_val (RawFq_fromString G ''3'' 10) \<noteq> 0" unfolding G1_strings(4) by (rule fq_three_neq_0)
  show ?thesis using g1.copyAP_on [OF nz m(1)] m(2) g1_on_aff exponent_multiple [OF bn_g1.plane_group_axioms]
    by (simp add: key_point_def)
qed

lemma key_point2: "G2_affine (key_point g2.C (c_fone g2.C) x) \<and> exponent (Aff G2_x G2_y) (aff_val fq2_val (key_point g2.C (c_fone g2.C) x)) x"
proof -
  have p: "g2.point_on (c_fone g2.C)" "point_val fq2_val (c_fone g2.C) = Aff G2_x G2_y"
    using g2_generator G2_on_curve unfolding g2.point_on_def g2_a g2_b by simp_all
  note m = g2.mulP_on [OF p(1), of "limbs_of 4 (fr_nat x)", unfolded g2_a p(2) fr_limbs]
  have nz: "fq2_val (the (F2_read G G2_b_string)) \<noteq> 0" unfolding g2_b by (rule G2_b_neq_0)
  show ?thesis using g2.copyAP_on [OF nz m(1)] m(2) g2_on_aff exponent_multiple [OF bn_g2.plane_group_axioms]
    by (simp add: key_point_def)
qed

lemma setup_key_for:
  "key_for t cm (Aff 1 2) (Aff G2_x G2_y) (setup_key g1.C g2.C t cm L w P) L w"
proof -
  let ?K = "setup_key g1.C g2.C t cm L w P"
  have s: "p_nVars ?K = p_nVars P" "p_nPublic ?K = p_nPublic P" "p_fft ?K = p_fft P"
    by (simp_all add: setup_key_def Let_def)
  show ?thesis unfolding key_for_def Let_def setup_key_columns s
    using key_point1 key_point2 by (simp add: setup_key_def Let_def)
qed

lemma setup_key_ok:
  assumes "unat (p_domainSize P) = 2 ^ L" and "fft_tables fr_ok fr_val (p_fft P) w" and "Suc L \<le> fft_s (p_fft P)"
    and "p_nPublic P < p_nVars P" and "unat (p_nVars P) < 2 ^ 27"
    and "\<forall>k\<in>set (take (unat (p_nCoefs P)) (p_coefs P)). fr_ok (coef_coef k)"
  shows "prover_ok (setup_key g1.C g2.C t cm L w P) L w"
  using assms key_point1 key_point2 by (simp add: prover_ok_def setup_key_def Let_def list_all_iff image_subset_iff)

end

lemma setup_vk_for: "vk_for t cm (Aff 1 2) (Aff G2_x G2_y) P L w (setup_vk (Aff 1 2) (Aff G2_x G2_y) t cm P L w)"
  using exponent_multiple [OF bn_g1.plane_group_axioms] exponent_multiple [OF bn_g2.plane_group_axioms]
  by (auto simp: vk_for_def setup_vk_def simp del: upt_Suc)

subsection \<open>A small circuit\<close>

text \<open>
  The cube of a secret number is public: the variables are 1, \<open>z\<close>, \<open>x\<close>, \<open>y\<close>, the rows \<open>x x = y\<close> and
  \<open>y x = z\<close>.
\<close>

definition unit_coef :: "u32 \<Rightarrow> u32 \<Rightarrow> u32 \<Rightarrow> coef" where
  "unit_coef m c s = \<lparr>coef_m = m, coef_c = c, coef_s = s, coef_coef = rawR2 Fr_consts\<rparr>"

definition cube_matrix :: "nat \<Rightarrow> nat \<Rightarrow> fr" where
  "cube_matrix j i = (if (j, i) = (0, 3) \<or> (j, i) = (1, 1) then 1 else 0)"

definition cube_sizes :: "limbs fft_state \<Rightarrow> prover" where
  "cube_sizes R = \<lparr>
      p_nVars = 4, p_nPublic = 1, p_domainSize = 2, p_nCoefs = 4, p_alpha1 = aff [] [], p_beta1 = aff [] [],
      p_beta2 = aff (f2 [] []) (f2 [] []), p_delta1 = aff [] [], p_delta2 = aff (f2 [] []) (f2 [] []),
      p_coefs = [unit_coef 0 0 2, unit_coef 1 0 2, unit_coef 0 1 3, unit_coef 1 1 2],
      p_pointsA = [], p_pointsB1 = [], p_pointsB2 = [], p_pointsC = [], p_pointsH = [], p_fft = R\<rparr>"

definition cube_witness :: "limbs list" where
  "cube_witness = [[1, 0, 0, 0], [27, 0, 0, 0], [3, 0, 0, 0], [9, 0, 0, 0]]"

definition cube_trapdoor :: trapdoor where
  "cube_trapdoor = \<lparr>t_alpha = 2, t_beta = 3, t_gamma = 5, t_delta = 7, t_tau = 11\<rparr>"

lemma unit_coef_value: "coef_value (unit_coef m c s) = 1"
proof -
  have "of_nat (lval (rawR2 Fr_consts)) = (of_nat (mont_R * mont_R) :: fr)"
    unfolding ref.fr_class.of_nat_iff unfolding Fr.lval_R2 by (simp add: power2_eq_square)
  then have "fr_val (rawR2 Fr_consts) * of_nat mont_R = of_nat mont_R * of_nat mont_R"
    by (simp only: ref.fr_val_lval of_nat_mult)
  then show ?thesis using ref.mont_R_neq_0 by (simp add: coef_value_def unit_coef_def)
qed

lemma sum_4: "(\<Sum>k<4. f k) = f 0 + f 1 + f 2 + f (3 :: nat)" for f :: "nat \<Rightarrow> fr"
  by (simp add: eval_nat_numeral)

lemma unit_coef_sel: "coef_m (unit_coef m c s) = m" "coef_c (unit_coef m c s) = c" "coef_s (unit_coef m c s) = s"
  "coef_coef (unit_coef m c s) = rawR2 Fr_consts"
  by (simp_all add: unit_coef_def)

lemma setup_key_sizes:
  "p_nVars (setup_key C1 C2 t cm L w P) = p_nVars P" "p_nPublic (setup_key C1 C2 t cm L w P) = p_nPublic P"
  "p_domainSize (setup_key C1 C2 t cm L w P) = p_domainSize P" "p_nCoefs (setup_key C1 C2 t cm L w P) = p_nCoefs P"
  "p_coefs (setup_key C1 C2 t cm L w P) = p_coefs P" "p_fft (setup_key C1 C2 t cm L w P) = p_fft P"
  by (simp_all add: setup_key_def Let_def)

lemma cube_rows:
  assumes "p_coefs P = p_coefs (cube_sizes R)"
  shows "row_sum True (p_coefs P) cube_witness 4 0 = 3" and "row_sum False (p_coefs P) cube_witness 4 0 = 3"
    and "row_sum True (p_coefs P) cube_witness 4 1 = 9" and "row_sum False (p_coefs P) cube_witness 4 1 = 3"
  unfolding assms row_sum_def sum_4 by (simp_all add: cube_sizes_def unit_coef_sel unit_coef_value cube_witness_def)

lemma cube_satisfied: "satisfies (setup_key C1 C2 t cm L' w (cube_sizes R)) cube_matrix 1 cube_witness"
proof -
  have n: "unat (p_nCoefs (cube_sizes R)) = 4" "unat (p_nVars (cube_sizes R)) = 4" by (simp_all add: cube_sizes_def)
  show ?thesis unfolding satisfies_def setup_key_sizes n sum_4
    using cube_rows [of "cube_sizes R" R] by (auto simp: less_2_cases_iff cube_matrix_def cube_witness_def)
qed

lemma cube_key_ok:
  assumes "fft_tables fr_ok fr_val R w" and "2 \<le> fft_s R"
  shows "prover_ok (setup_key ref.g1.C ref.g2.C t cm 1 w (cube_sizes R)) 1 w"
    and "coefs_in_bounds (setup_key C1 C2 t cm 1 w (cube_sizes R)) 4"
proof -
  have R2: "fr_ok (rawR2 Fr_consts)" by (simp add: fr_ok_def reduced_def Fr_consts_def)
  show "prover_ok (setup_key ref.g1.C ref.g2.C t cm 1 w (cube_sizes R)) 1 w"
  proof (rule ref.setup_key_ok)
    show "Suc 1 \<le> fft_s (p_fft (cube_sizes R))" using assms(2) by (simp add: cube_sizes_def)
  qed (use assms(1) R2 in \<open>simp_all add: cube_sizes_def unit_coef_sel\<close>)
  show "coefs_in_bounds (setup_key C1 C2 t cm 1 w (cube_sizes R)) 4"
    unfolding coefs_in_bounds_def setup_key_sizes by (simp add: cube_sizes_def unit_coef_sel)
qed

lemma coefs_in_bounds_mono: "coefs_in_bounds P m \<Longrightarrow> m \<le> n \<Longrightarrow> coefs_in_bounds P n"
  by (fastforce simp: coefs_in_bounds_def list_all_iff)

subsection \<open>Completeness\<close>

text \<open>
  C1. The proof verifies: for a key made from a trapdoor over the scalar field (its points are multiples of two
  generators with the exponents that the scheme prescribes, the points for the quotient at the odd powers of
  the root of unity of twice the order of the domain), the verifying key of the same trapdoor, and a witness that satisfies every
  row of the constraint system, \<open>prove\<close>, on any schedule of less than \<open>2 ^ 15\<close> threads, returns a proof whose
  exponents satisfy the equation of Groth16. Hence a
  verifier accepts it: every bilinear map \<open>e\<close> into a group of the order of the scalar field gives
  \<open>e(A, B) = e(alpha, beta) e(X, gamma) e(C, delta)\<close> with the point \<open>X\<close> of the public inputs.
\<close>

theorem proof_verifies:
  fixes e :: "fq ec \<Rightarrow> fq2 ec \<Rightarrow> 't :: ab_group_add"
  assumes "gmp_laws G" and "G1 G = Some C1" and "G2 G = Some C2" and "tbb_laws T" and "max_concurrency T < 32768"
    and "fresh_ok fq_ok fq_val Z" and "fresh_ok fq2_ok fq2_val Z2" and "\<And>k. length (fresh k) = k"
    and P: "prover_ok P L w" and sig: "coefs_in_bounds P (unat (p_nVars P))" and "\<forall>x\<in>set ws. length x = 4"
    and ws: "unat (p_nVars P) \<le> length ws" and "\<And>p. \<exists>k. lval (candidate device (p + 32 * k)) < Fr_prime"
    and g: "ec_on 0 3 g1" "ec_on 0 G2_b g2" and key: "key_for t cm g1 g2 P L w" and vk: "vk_for t cm g1 g2 P L w vk"
    and nz: "t_delta t \<noteq> 0" "t_gamma t \<noteq> 0" and sat: "satisfies P cm L ws"
  shows "\<exists>pr a b c x. prove G C1 C2 Z Z2 T fresh device pos P ws = Inr pr
    \<and> exponent g1 (aff_val fq_val (proof_A pr)) a \<and> exponent g2 (aff_val fq2_val (proof_B pr)) b
    \<and> exponent g1 (aff_val fq_val (proof_C pr)) c \<and> exponent g1 (public_point vk ws) x
    \<and> a * b = t_alpha t * t_beta t + x * t_gamma t + c * t_delta t
    \<and> (bilinear g1 g2 e \<longrightarrow> e (aff_val fq_val (proof_A pr)) (aff_val fq2_val (proof_B pr))
      = e (aff_val fq_val (p_alpha1 P)) (aff_val fq2_val (p_beta2 P)) + e (public_point vk ws) (vk_gamma2 vk)
        + e (aff_val fq_val (proof_C pr)) (aff_val fq2_val (p_delta2 P)))"
proof -
  obtain pr r s h where pr: "prove G C1 C2 Z Z2 T fresh device pos P ws = Inr pr" "coset_quotient P ws L w h"
    "aff_val fq_val (proof_A pr) = groth_A P ws (lval r)" "aff_val fq2_val (proof_B pr) = groth_B2 P ws (lval s)"
    "aff_val fq_val (proof_C pr) = groth_C P ws h (lval r) (lval s)"
    using prove_with_curves [OF assms(1-9) coefs_in_bounds_mono [OF sig ws] assms(11-13)] by blast
  obtain a b c x where E: "exponent g1 (aff_val fq_val (proof_A pr)) a" "exponent g2 (aff_val fq2_val (proof_B pr)) b"
    "exponent g1 (aff_val fq_val (proof_C pr)) c" "exponent g1 (public_point vk ws) x"
    "a * b = t_alpha t * t_beta t + x * t_gamma t + c * t_delta t"
    using scheme_equation [OF g key vk P sig ws pr(2) sat nz] unfolding pr(3-5) by blast
  have K: "exponent g1 (aff_val fq_val (p_alpha1 P)) (t_alpha t)" "exponent g2 (aff_val fq2_val (p_beta2 P)) (t_beta t)"
    "exponent g2 (vk_gamma2 vk) (t_gamma t)" "exponent g2 (aff_val fq2_val (p_delta2 P)) (t_delta t)"
    using key vk by (simp_all add: key_for_def vk_for_def Let_def)
  show ?thesis using pr(1) E pairing_equation [OF _ g E(1-4) K E(5), where e = e] by blast
qed

theorem proof_verifies_witness:
  "\<exists>R w pr a b c x. FFT_new ref_gmp (RawFr_ops ref_gmp) (RawFr_numbers ref_gmp) (round_robin 3) [0, 0, 0, 0] 4 = Inr R
    \<and> prove ref_gmp (the (G1 ref_gmp)) (the (G2 ref_gmp)) (zero_memory [0, 0, 0, 0])
      (zero_memory (f2 [0, 0, 0, 0] [0, 0, 0, 0])) (round_robin 3) (\<lambda>k. replicate k [0, 0, 0, 0]) (\<lambda>_. 1) 0
      (setup_key (the (G1 ref_gmp)) (the (G2 ref_gmp)) cube_trapdoor cube_matrix 1 w (cube_sizes R)) cube_witness = Inr pr
    \<and> exponent (Aff 1 2) (aff_val fq_val (proof_A pr)) a \<and> exponent (Aff G2_x G2_y) (aff_val fq2_val (proof_B pr)) b
    \<and> exponent (Aff 1 2) (aff_val fq_val (proof_C pr)) c
    \<and> exponent (Aff 1 2) (public_point (setup_vk (Aff 1 2) (Aff G2_x G2_y) cube_trapdoor cube_matrix
        (setup_key (the (G1 ref_gmp)) (the (G2 ref_gmp)) cube_trapdoor cube_matrix 1 w (cube_sizes R)) 1 w) cube_witness) x
    \<and> a * b = 2 * 3 + x * 5 + c * 7"
proof -
  obtain R w where R: "FFT_new ref_gmp (RawFr_ops ref_gmp) (RawFr_numbers ref_gmp) (round_robin 3) [0, 0, 0, 0] 4 = Inr R"
    "fft_tables fr_ok fr_val R w" "fft_s R = 2"
    using fr_tables [OF ref_gmp_laws round_robin_laws [of 3], of 2 4 "[0, 0, 0, 0]"] by auto
  let ?P = "setup_key (the (G1 ref_gmp)) (the (G2 ref_gmp)) cube_trapdoor cube_matrix 1 w (cube_sizes R)"
  have G: "G1 ref_gmp = Some (the (G1 ref_gmp))" "G2 ref_gmp = Some (the (G2 ref_gmp))"
    unfolding ref_G1 ref_G2 option.sel by (rule refl)+
  have nv: "unat (p_nVars ?P) = 4" unfolding setup_key_sizes by (simp add: cube_sizes_def)
  have P: "prover_ok ?P 1 w" "coefs_in_bounds ?P (unat (p_nVars ?P))"
    unfolding nv unfolding ref_G1 ref_G2 option.sel using cube_key_ok [OF R(2)] R(3) by simp_all
  have key: "key_for cube_trapdoor cube_matrix (Aff 1 2) (Aff G2_x G2_y) ?P 1 w"
    unfolding ref_G1 ref_G2 option.sel by (rule ref.setup_key_for)
  have ws: "\<forall>x\<in>set cube_witness. length x = 4" "unat (p_nVars ?P) \<le> length cube_witness"
    unfolding nv by (simp_all add: cube_witness_def)
  have d: "\<exists>k. lval (candidate (\<lambda>_. 1) (p + 32 * k)) < Fr_prime" for p using ones_device by blast
  have f: "length (replicate k [0, 0, 0, 0]) = k" for k :: nat by simp
  have thr: "max_concurrency (round_robin 3) < 32768" by (simp add: round_robin_def)
  have on: "ec_on 0 (3 :: fq) (Aff 1 2)" by simp
  have t: "t_alpha cube_trapdoor = 2" "t_beta cube_trapdoor = 3" "t_gamma cube_trapdoor = 5" "t_delta cube_trapdoor = 7"
    by (simp_all add: cube_trapdoor_def)
  have nz: "t_delta cube_trapdoor \<noteq> 0" "t_gamma cube_trapdoor \<noteq> 0"
    using fr_of_nat_eq_iff [of 7 0] fr_of_nat_eq_iff [of 5 0] by (simp_all add: cube_trapdoor_def fr_mod_def)
  show ?thesis
    using proof_verifies [OF ref_gmp_laws G round_robin_laws [of 3] thr ref_memories f P ws d on G2_on_curve key setup_vk_for nz
        cube_satisfied, of 0] R(1)
    unfolding t by blast
qed

end
