(* ===== verification/Timestamps.thy ===== *)
theory Timestamps
  imports Prelude "HOL-Library.Char_ord" "HOL-Library.List_Lexorder"
begin

section \<open>Timestamps of log lines\<close>

text \<open>
  \<open>getFormattedTimestamp\<close> of \<open>fullprover.cpp\<close> and \<open>getCurrentTime2\<close> of \<open>logger.cpp\<close>: \<open>std::gmtime\<close> and
  \<open>std::put_time\<close> of the standard library on milliseconds since 1970, and the fractional part with three
  digits. Timestamps have a fixed width up to the year 9999 and sort in the order of time. The functions here are
  of a time that the clock shows, with an object of \<open>gmtime\<close> that nobody else writes; \<open>Logger\<close> has the steps of \<open>getCurrentTime2\<close>.
\<close>

subsection \<open>The broken-down time\<close>

record tm =
  tm_year :: nat
  tm_mon :: nat
  tm_mday :: nat
  tm_hour :: nat
  tm_min :: nat
  tm_sec :: nat

definition is_leap :: "nat \<Rightarrow> bool" where
  "is_leap y \<longleftrightarrow> y mod 4 = 0 \<and> (y mod 100 \<noteq> 0 \<or> y mod 400 = 0)"

definition year_days :: "nat \<Rightarrow> nat" where
  "year_days y = (if is_leap y then 366 else 365)"

definition month_days :: "nat \<Rightarrow> nat list" where
  "month_days y = [31, if is_leap y then 29 else 28, 31, 30, 31, 30, 31, 31, 30, 31, 30, 31]"

lemma year_days_pos [simp]: "0 < year_days y"
  by (simp add: year_days_def)

function gm_year :: "nat \<Rightarrow> nat \<Rightarrow> nat \<times> nat" where
  "gm_year y d = (if d < year_days y then (y, d) else gm_year (y + 1) (d - year_days y))"
  by auto

termination
  by (relation "measure snd") (auto simp: year_days_def not_less)

declare gm_year.simps [simp del]

primrec gm_month :: "nat list \<Rightarrow> nat \<Rightarrow> nat \<Rightarrow> nat \<times> nat" where
  "gm_month [] m d = (m, d)"
| "gm_month (l # ls) m d = (if d < l then (m, d) else gm_month ls (m + 1) (d - l))"

definition gmtime :: "nat \<Rightarrow> tm" where
  "gmtime secs = (let (y, d) = gm_year 1970 (secs div 86400); (mo, md) = gm_month (month_days y) 1 d in
     \<lparr>tm_year = y, tm_mon = mo, tm_mday = md + 1, tm_hour = secs mod 86400 div 3600, tm_min = secs mod 3600 div 60,
      tm_sec = secs mod 60\<rparr>)"

subsection \<open>Formatting\<close>

text \<open>A number in decimal with a field width and the fill character 0; \<open>%Y\<close> has four digits up to the year 9999.\<close>

primrec pad :: "nat \<Rightarrow> nat \<Rightarrow> string" where
  "pad 0 n = ''''"
| "pad (Suc w) n = pad w (n div 10) @ [char_of (48 + n mod 10)]"

definition put_date :: "tm \<Rightarrow> string" where
  "put_date t = pad 4 (tm_year t) @ ''-'' @ pad 2 (tm_mon t) @ ''-'' @ pad 2 (tm_mday t)"

definition put_clock :: "tm \<Rightarrow> string" where
  "put_clock t = pad 2 (tm_hour t) @ '':'' @ pad 2 (tm_min t) @ '':'' @ pad 2 (tm_sec t)"

definition getFormattedTimestamp :: "nat \<Rightarrow> string" where
  "getFormattedTimestamp now = (let now_tm = gmtime (now div 1000) in
     put_date now_tm @ ''T'' @ put_clock now_tm @ ''.'' @ pad 3 (now mod 1000) @ ''Z'')"

definition getCurrentTime2 :: "nat \<Rightarrow> string" where
  "getCurrentTime2 now = (let now_tm = gmtime (now div 1000) in
     put_date now_tm @ '' '' @ put_clock now_tm @ ''.'' @ pad 3 (now mod 1000))"

lemma length_pad [simp]: "length (pad w n) = w"
  by (induction w arbitrary: n) simp_all

lemma list_less_append: "length xs = length ys \<Longrightarrow> (xs :: 'a :: linorder list) < ys \<Longrightarrow> xs @ us < ys @ vs"
  by (induction xs ys rule: list_induct2) auto

lemma list_less_same: "(us :: 'a :: linorder list) < vs \<Longrightarrow> xs @ us < xs @ vs"
  by (induction xs) auto

lemma digit_less: "i < 10 \<Longrightarrow> j < 10 \<Longrightarrow> i < j \<Longrightarrow> (char_of (48 + i :: nat) :: char) < char_of (48 + j)"
  by (simp add: less_char_def)

lemma pad_less: "m < n \<Longrightarrow> n < 10 ^ w \<Longrightarrow> pad w m < pad w n"
proof (induction w arbitrary: m n)
  case (Suc w)
  show ?case
  proof (cases "m div 10 = n div 10")
    case True
    then have "m mod 10 < n mod 10" using Suc.prems(1) by (metis div_mult_mod_eq nat_add_left_cancel_less)
    then show ?thesis using True digit_less [of "m mod 10" "n mod 10"] by (simp add: list_less_same)
  next
    case False
    then have "m div 10 < n div 10" using div_le_mono [of m n 10] Suc.prems(1) by linarith
    moreover have "n div 10 < 10 ^ w" using Suc.prems(2) by (simp add: less_mult_imp_div_less)
    ultimately show ?thesis using Suc.IH by (simp add: list_less_append)
  qed
qed simp

text \<open>One field of a timestamp and the rest.\<close>

lemma field_less:
  assumes "m < n \<or> (m = n \<and> us < vs)" and "n < 10 ^ w"
  shows "pad w m @ us < pad w n @ (vs :: string)"
  using assms pad_less [of m n w] by (auto intro: list_less_append list_less_same)

subsection \<open>The order of the fields\<close>

text \<open>The days before the year \<open>y\<close>, as the calendar is usually computed.\<close>

definition days_before :: "nat \<Rightarrow> nat" where
  "days_before y = 365 * y + (y + 3) div 4 + (y + 399) div 400 - (y + 99) div 100"

lemma days_before_Suc: "days_before (Suc y) = days_before y + year_days y"
proof -
  have d: "(Suc y + k) div Suc k = (y + k) div Suc k + (if y mod Suc k = 0 then 1 else 0)" for k
  proof -
    have "Suc (y + k) mod Suc k = y mod Suc k" by (simp flip: add_Suc_right)
    then show ?thesis using div_Suc [of "y + k" "Suc k"] by simp
  qed
  have 4: "(Suc y + 3) div 4 = (y + 3) div 4 + (if y mod 4 = 0 then 1 else 0)" using d [of 3] by simp
  have 100: "(Suc y + 99) div 100 = (y + 99) div 100 + (if y mod 100 = 0 then 1 else 0)" using d [of 99] by simp
  have 400: "(Suc y + 399) div 400 = (y + 399) div 400 + (if y mod 400 = 0 then 1 else 0)" using d [of 399] by simp
  have i: "y mod 400 = 0 \<Longrightarrow> y mod 100 = 0" "y mod 100 = 0 \<Longrightarrow> y mod 4 = 0"
    using dvd_trans [of 100 400 y] dvd_trans [of 4 100 y] by (simp_all add: mod_eq_0_iff_dvd)
  have le: "(y + 99) div 100 \<le> 365 * y" by simp
  have step: "365 * Suc y + (a + (if u then 1 else 0)) + (b + (if v then 1 else 0)) - (c + (if w then 1 else 0))
      = 365 * y + a + b - c + (if u \<and> (\<not> w \<or> v) then 366 else 365)"
    if "v \<longrightarrow> w" "w \<longrightarrow> u" "c \<le> 365 * y" for a b c and u v w :: bool
    using that by (cases u; cases v; cases w) simp_all
  show ?thesis unfolding days_before_def 4 100 400 year_days_def is_leap_def using i le by (intro step) simp_all
qed

lemma gm_year_days:
  "gm_year y d = (y', d') \<Longrightarrow> days_before y + d = days_before y' + d' \<and> d' < year_days y' \<and> y \<le> y'"
proof (induction y d rule: gm_year.induct)
  case (1 y d)
  then show ?case using days_before_Suc [of y] gm_year.simps [of y d] by (fastforce split: if_splits)
qed

lemma days_before_mono: "y \<le> y' \<Longrightarrow> days_before y \<le> days_before y'"
  by (rule lift_Suc_mono_le) (simp_all add: days_before_Suc)

lemma gm_year_bound: "d < 2932897 \<Longrightarrow> fst (gm_year 1970 d) < 10000"
proof (rule ccontr)
  assume d: "d < 2932897" and "\<not> fst (gm_year 1970 d) < 10000"
  then have "days_before 10000 \<le> days_before (fst (gm_year 1970 d))" by (intro days_before_mono) simp
  then have "days_before 10000 \<le> days_before 1970 + d"
    using gm_year_days [of 1970 d "fst (gm_year 1970 d)" "snd (gm_year 1970 d)"] by simp
  then show False using d by (simp add: days_before_def)
qed

lemma gm_year_less:
  "d1 < d2 \<Longrightarrow> fst (gm_year y d1) < fst (gm_year y d2)
    \<or> (fst (gm_year y d1) = fst (gm_year y d2) \<and> snd (gm_year y d1) < snd (gm_year y d2))"
proof (induction y d2 arbitrary: d1 rule: gm_year.induct)
  case (1 y d2)
  have r: "fst (gm_year (y + 1) (d2 - year_days y)) \<ge> y + 1"
    using gm_year_days [of "y + 1" "d2 - year_days y"] by (metis prod.collapse)
  show ?case
  proof (cases "d2 < year_days y")
    case True
    then show ?thesis using 1(2) gm_year.simps [of y d1] gm_year.simps [of y d2] by simp
  next
    case False
    then show ?thesis using 1(1) [of "d1 - year_days y"] 1(2) r gm_year.simps [of y d1] gm_year.simps [of y d2] by auto
  qed
qed

lemma gm_month_ge: "m \<le> fst (gm_month ls m d)"
  by (induction ls arbitrary: m d) (auto intro: Suc_leD)

lemma gm_month_less:
  "d1 < d2 \<Longrightarrow> fst (gm_month ls m d1) < fst (gm_month ls m d2)
    \<or> (fst (gm_month ls m d1) = fst (gm_month ls m d2) \<and> snd (gm_month ls m d1) < snd (gm_month ls m d2))"
proof (induction ls arbitrary: m d1 d2)
  case (Cons l ls)
  then show ?case using gm_month_ge [of "m + 1" ls "d2 - l"] by auto
qed simp

lemma gm_month_days:
  "d < sum_list ls \<Longrightarrow> gm_month ls m d = (m', d') \<Longrightarrow>
   m \<le> m' \<and> m' - m < length ls \<and> d' < ls ! (m' - m) \<and> d = sum_list (take (m' - m) ls) + d'"
proof (induction ls arbitrary: m d)
  case (Cons l ls)
  show ?case
  proof (cases "d < l")
    case False
    then have "m + 1 \<le> m' \<and> m' - (m + 1) < length ls \<and> d' < ls ! (m' - (m + 1)) \<and> d - l = sum_list (take (m' - (m + 1)) ls) + d'"
      using Cons.prems by (intro Cons.IH) simp_all
    moreover from this have "m' - m = Suc (m' - (m + 1))" by linarith
    ultimately show ?thesis using False by auto
  qed (use Cons.prems in auto)
qed simp

lemma month_days_le: "k < length (month_days y) \<Longrightarrow> month_days y ! k \<le> 31"
  using nth_mem [of k "month_days y"] by (auto simp: month_days_def split: if_splits)

text \<open>The day of a point of time, as the three fields of its date.\<close>

definition civil :: "nat \<Rightarrow> nat \<times> nat \<times> nat" where
  "civil d = (let (y, r) = gm_year 1970 d; (mo, md) = gm_month (month_days y) 1 r in (y, mo, md + 1))"

lemma gmtime_civil:
  "(tm_year (gmtime s), tm_mon (gmtime s), tm_mday (gmtime s)) = civil (s div 86400)"
  by (simp add: gmtime_def civil_def split_beta Let_def)

lemma year_days_months: "year_days y = sum_list (month_days y)"
  by (simp add: year_days_def month_days_def)

lemma civil_day:
  assumes "civil d = (y, mo, md)"
  shows "1 \<le> mo \<and> mo \<le> 12 \<and> 1 \<le> md \<and> md \<le> month_days y ! (mo - 1)
    \<and> days_before y + sum_list (take (mo - 1) (month_days y)) + md = days_before 1970 + d + 1"
proof -
  obtain r where r: "gm_year 1970 d = (y, r)" using assms by (auto simp: civil_def split_beta Let_def prod_eq_iff)
  have m: "gm_month (month_days y) 1 r = (mo, md - 1)" "1 \<le> md" using assms r by (auto simp: civil_def split_beta Let_def)
  have "r < sum_list (month_days y)" using gm_year_days [OF r] by (simp add: year_days_months)
  note n = gm_month_days [OF this m(1)]
  have "length (month_days y) = 12" by (simp add: month_days_def)
  then have "1 \<le> mo" "mo \<le> 12" "md \<le> month_days y ! (mo - 1)" using n m(2) by linarith+
  then show ?thesis using n gm_year_days [OF r] m(2) by linarith
qed

lemma civil_bounds:
  assumes "d < 2932897" and "civil d = (y, mo, md)"
  shows "y < 10000 \<and> mo < 13 \<and> md < 32"
proof -
  have "y < 10000" using gm_year_bound [OF assms(1)] assms(2) by (auto simp: civil_def split_beta Let_def)
  moreover have "month_days y ! (mo - 1) \<le> 31"
    using civil_day [OF assms(2)] by (intro month_days_le) (auto simp: month_days_def)
  ultimately show ?thesis using civil_day [OF assms(2)] by auto
qed

lemma civil_less:
  assumes "d < d'" and "civil d = (y, mo, md)" and "civil d' = (y', mo', md')"
  shows "y < y' \<or> y = y' \<and> (mo < mo' \<or> mo = mo' \<and> md < md')"
  using assms(2,3) gm_year_less [OF assms(1), of 1970]
    gm_month_less [of "snd (gm_year 1970 d)" "snd (gm_year 1970 d')" "month_days (fst (gm_year 1970 d))" 1]
  by (auto simp: civil_def split_beta Let_def)

lemma put_date_less:
  assumes "s div 86400 < s' div 86400" and "s' div 86400 < 2932897"
  shows "put_date (gmtime s) @ us < put_date (gmtime s') @ (vs :: string)"
proof -
  obtain y mo md y' mo' md' where c: "civil (s div 86400) = (y, mo, md)" "civil (s' div 86400) = (y', mo', md')"
    by (metis prod.collapse)
  have f: "tm_year (gmtime s) = y" "tm_mon (gmtime s) = mo" "tm_mday (gmtime s) = md"
    "tm_year (gmtime s') = y'" "tm_mon (gmtime s') = mo'" "tm_mday (gmtime s') = md'"
    using gmtime_civil [of s] gmtime_civil [of s'] by (simp_all add: c)
  show ?thesis unfolding put_date_def f append_assoc
    using civil_less [OF assms(1) c] civil_bounds [OF assms(2) c(2)]
    by (intro field_less) (auto intro!: field_less list_less_same)
qed

lemma clock_fields_less:
  assumes "3600 * a + 60 * b + c < 3600 * a' + 60 * b' + (c' :: nat)" and "b' < 60" and "c' < 60"
  shows "a < a' \<or> a = a' \<and> (b < b' \<or> b = b' \<and> c < c')"
  using assms by (cases a a' rule: linorder_cases; cases b b' rule: linorder_cases) auto

lemma put_clock_less:
  assumes "s div 86400 = s' div 86400" and "s < s'"
  shows "put_clock (gmtime s) @ us < put_clock (gmtime s') @ (vs :: string)"
proof -
  have f: "tm_hour (gmtime t) = t mod 86400 div 3600" "tm_min (gmtime t) = t mod 3600 div 60" "tm_sec (gmtime t) = t mod 60" for t
    by (simp_all add: gmtime_def split_beta Let_def)
  have h: "t mod 86400 div 3600 < 24" "t mod 3600 div 60 < 60" "t mod 60 < 60" for t :: nat by (auto simp: less_mult_imp_div_less)
  have "s mod 86400 < s' mod 86400"
    using assms div_mult_mod_eq [of s 86400] div_mult_mod_eq [of s' 86400] by linarith
  then have "s mod 86400 div 3600 < s' mod 86400 div 3600 \<or> s mod 86400 div 3600 = s' mod 86400 div 3600
      \<and> (s mod 3600 div 60 < s' mod 3600 div 60 \<or> s mod 3600 div 60 = s' mod 3600 div 60 \<and> s mod 60 < s' mod 60)"
  proof -
    have e: "t mod 86400 = 3600 * (t mod 86400 div 3600) + 60 * (t mod 3600 div 60) + t mod 60" for t :: nat
    proof -
      have "t mod 3600 = 60 * (t mod 3600 div 60) + t mod 60"
        using mod_mod_cancel [of 60 3600 t] mult_div_mod_eq [of 60 "t mod 3600"] by simp
      moreover have "t mod 86400 = 3600 * (t mod 86400 div 3600) + t mod 3600"
        using mod_mod_cancel [of 3600 86400 t] mult_div_mod_eq [of 3600 "t mod 86400"] by simp
      ultimately show ?thesis by simp
    qed
    show "s mod 86400 < s' mod 86400 \<Longrightarrow> ?thesis" using clock_fields_less h [of s'] by (subst (asm) (1 2) e)
  qed
  then show ?thesis unfolding put_clock_def f append_assoc using h [of s']
    by (intro field_less) (auto intro!: field_less list_less_same order.strict_trans [OF h(3)])
qed

text \<open>What both formats share: a date, a separator, a time, a point and the milliseconds.\<close>

lemma stamp_less:
  assumes "t < t'" and "t' < 253402300800000"
  shows "put_date (gmtime (t div 1000)) @ sep @ put_clock (gmtime (t div 1000)) @ dot @ pad 3 (t mod 1000) @ us
    < put_date (gmtime (t' div 1000)) @ sep @ put_clock (gmtime (t' div 1000)) @ dot @ pad 3 (t' mod 1000) @ (vs :: string)"
proof -
  have s: "t div 1000 \<le> t' div 1000" using assms(1) by (simp add: div_le_mono)
  then have d: "t div 1000 div 86400 \<le> t' div 1000 div 86400" by (rule div_le_mono)
  have b: "t' div 1000 div 86400 < 2932897" using assms(2) by (simp add: less_mult_imp_div_less flip: div_mult2_eq)
  consider "t div 1000 div 86400 < t' div 1000 div 86400"
    | "t div 1000 div 86400 = t' div 1000 div 86400" "t div 1000 < t' div 1000" | "t div 1000 = t' div 1000"
    using s d by linarith
  then show ?thesis
  proof cases
    case 1
    then show ?thesis using b by (rule put_date_less)
  next
    case 2
    have "put_date (gmtime (t div 1000)) = put_date (gmtime (t' div 1000))"
      using gmtime_civil [of "t div 1000"] gmtime_civil [of "t' div 1000"] unfolding 2(1)
      by (metis prod.inject put_date_def)
    then show ?thesis using put_clock_less [OF 2] by (auto intro!: list_less_same)
  next
    case 3
    then have "t mod 1000 < t' mod 1000" using assms(1) div_mult_mod_eq [of t 1000] div_mult_mod_eq [of t' 1000] by linarith
    then show ?thesis unfolding 3 by (intro list_less_same field_less) simp_all
  qed
qed

text \<open>
  C40. Time stamps of log lines are correct and sort chronologically: the date of a stamp is the one whose day number
  from 1 January 1970 is the number of whole days since then, and up to the end of the year 9999 a later
  millisecond gives a stamp of the same length that is greater in the order of strings, in both formats.
\<close>

theorem timestamps_sorted:
  assumes "t < t'" and "t' < 253402300800000"
  shows "getFormattedTimestamp t < getFormattedTimestamp t' \<and> getCurrentTime2 t < getCurrentTime2 t'
    \<and> length (getFormattedTimestamp t) = 24 \<and> length (getCurrentTime2 t) = 23
    \<and> (let d = gmtime (t div 1000) in
        days_before (tm_year d) + sum_list (take (tm_mon d - 1) (month_days (tm_year d))) + tm_mday d - 1
          = days_before 1970 + t div 86400000
        \<and> 1 \<le> tm_mday d \<and> tm_mday d \<le> month_days (tm_year d) ! (tm_mon d - 1))"
proof -
  let ?d = "gmtime (t div 1000)"
  have "t div 1000 div 86400 = t div 86400000" by (simp flip: div_mult2_eq)
  then have c: "civil (t div 86400000) = (tm_year ?d, tm_mon ?d, tm_mday ?d)" using gmtime_civil [of "t div 1000"] by simp
  have "getFormattedTimestamp t < getFormattedTimestamp t' \<and> getCurrentTime2 t < getCurrentTime2 t'"
    using stamp_less [OF assms, where sep = "''T''" and dot = "''.''" and us = "''Z''" and vs = "''Z''"]
      stamp_less [OF assms, where sep = "'' ''" and dot = "''.''" and us = "[]" and vs = "[]"]
    unfolding getFormattedTimestamp_def getCurrentTime2_def Let_def by simp
  then show ?thesis using civil_day [OF c]
    by (simp add: Let_def getFormattedTimestamp_def getCurrentTime2_def put_date_def put_clock_def)
qed

lemma pad_digits:
  "pad 2 n = [char_of (48 + n div 10 mod 10), char_of (48 + n mod 10)]"
  "pad 3 n = [char_of (48 + n div 100 mod 10), char_of (48 + n div 10 mod 10), char_of (48 + n mod 10)]"
  "pad 4 n = [char_of (48 + n div 1000 mod 10), char_of (48 + n div 100 mod 10), char_of (48 + n div 10 mod 10), char_of (48 + n mod 10)]"
proof -
  have w: "(2 :: nat) = Suc (Suc 0)" "(3 :: nat) = Suc (Suc (Suc 0))" "(4 :: nat) = Suc (Suc (Suc (Suc 0)))" by simp_all
  have d: "n div 10 div 10 = n div 100" "n div 100 div 10 = n div 1000" by (simp_all flip: div_mult2_eq)
  show "pad 2 n = [char_of (48 + n div 10 mod 10), char_of (48 + n mod 10)]" unfolding w(1) by (simp add: d)
  show "pad 3 n = [char_of (48 + n div 100 mod 10), char_of (48 + n div 10 mod 10), char_of (48 + n mod 10)]"
    unfolding w(2) by (simp add: d)
  show "pad 4 n = [char_of (48 + n div 1000 mod 10), char_of (48 + n div 100 mod 10), char_of (48 + n div 10 mod 10), char_of (48 + n mod 10)]"
    unfolding w(3) by (simp add: d)
qed

lemmas stamp_simps = getFormattedTimestamp_def gmtime_def put_date_def put_clock_def pad_digits char_of_def bit_0 year_days_def is_leap_def
  month_days_def

theorem timestamps_sorted_witness:
  "getFormattedTimestamp 86399999 = ''1970-01-01T23:59:59.999Z'' \<and> getFormattedTimestamp 1709209830042 = ''2024-02-29T12:30:30.042Z''
    \<and> getFormattedTimestamp 86399999 < getFormattedTimestamp 1709209830042"
proof -
  have "getFormattedTimestamp 86399999 = ''1970-01-01T23:59:59.999Z''" by (simp add: stamp_simps gm_year.simps)
  moreover have "getFormattedTimestamp 1709209830042 = ''2024-02-29T12:30:30.042Z''" by (simp add: stamp_simps gm_year.simps)
  moreover have "getFormattedTimestamp 86399999 < getFormattedTimestamp 1709209830042" using timestamps_sorted [of 86399999 1709209830042] by simp
  ultimately show ?thesis by blast
qed

end
