(* ===== verification/Logger.thy ===== *)
theory Logger
  imports Timestamps
begin

section \<open>Logging\<close>

text \<open>
  The class \<open>Logger\<close> of \<open>logger.cpp\<close> (in builds with \<open>USE_LOGGER\<close>) and the log lines of \<open>fullprover.cpp\<close>.
  Every operation is the sequence of its actions on the mutex, the streams and the shared object that
  \<open>std::gmtime\<close> returns, so that the operations of several threads interleave action by action.
\<close>

subsection \<open>The object\<close>

datatype log_level = DISABLE_LOG | LOG_LEVEL_INFO | LOG_LEVEL_BUFFER | LOG_LEVEL_TRACE | LOG_LEVEL_DEBUG | ENABLE_LOG

datatype log_type = NO_LOG | CONSOLE | FILE_LOG

primrec level_number :: "log_level \<Rightarrow> nat" where
  "level_number DISABLE_LOG = 1"
| "level_number LOG_LEVEL_INFO = 2"
| "level_number LOG_LEVEL_BUFFER = 3"
| "level_number LOG_LEVEL_TRACE = 4"
| "level_number LOG_LEVEL_DEBUG = 5"
| "level_number ENABLE_LOG = 6"

lemma level_number_inject: "level_number a = level_number b \<Longrightarrow> a = b"
  by (cases a; cases b) simp_all

instantiation log_level :: linorder
begin

definition less_eq_log_level :: "log_level \<Rightarrow> log_level \<Rightarrow> bool" where
  "less_eq_log_level a b \<longleftrightarrow> level_number a \<le> level_number b"

definition less_log_level :: "log_level \<Rightarrow> log_level \<Rightarrow> bool" where
  "less_log_level a b \<longleftrightarrow> level_number a < level_number b"

instance
  by standard (auto simp: less_eq_log_level_def less_log_level_def intro: level_number_inject)

end

text \<open>The mutex holds the thread that has locked it; writes to a file that could not be opened have no effect.\<close>

record logger =
  m_Open :: bool
  m_File :: string
  m_LogLevel :: log_level
  m_LogType :: log_type
  m_Mutex :: "nat option"

text \<open>
  The constructor, from the contents of the log file (None if it cannot be opened) and what the three
  initialisations of the mutex return: the process ends with a message if one of them fails.
\<close>

definition Logger_new :: "string option \<Rightarrow> int \<Rightarrow> int \<Rightarrow> int \<Rightarrow> string + logger" where
  "Logger_new file init settype mutex =
     (if init \<noteq> 0 then Inl ''Logger::Logger() -- Mutex attribute could not initialize!!''
      else if settype \<noteq> 0 then Inl ''Logger::Logger() -- Mutex attribute could not set type!!''
      else if mutex \<noteq> 0 then Inl ''Logger::Logger() -- Mutex not initialize!!''
      else Inr \<lparr>m_Open = file \<noteq> None, m_File = (case file of None \<Rightarrow> [] | Some s \<Rightarrow> s), m_LogLevel = LOG_LEVEL_TRACE,
        m_LogType = FILE_LOG, m_Mutex = None\<rparr>)"

definition Logger_delete :: "logger \<Rightarrow> logger" where
  "Logger_delete L = L\<lparr>m_Open := False, m_Mutex := None\<rparr>"

definition Logger_getInstance :: "logger option \<Rightarrow> string + logger \<Rightarrow> string + logger" where
  "Logger_getInstance m_Instance new = (case m_Instance of None \<Rightarrow> new | Some L \<Rightarrow> Inr L)"

text \<open>
  The mutex checks errors: locking it again and unlocking it without holding it fail with a code that the
  wrappers ignore. None stands for a thread that has to wait.
\<close>

definition Logger_lock :: "nat \<Rightarrow> logger \<Rightarrow> logger option" where
  "Logger_lock t L = (case m_Mutex L of None \<Rightarrow> Some (L\<lparr>m_Mutex := Some t\<rparr>) | Some u \<Rightarrow> if u = t then Some L else None)"

definition Logger_unlock :: "nat \<Rightarrow> logger \<Rightarrow> logger" where
  "Logger_unlock t L = (if m_Mutex L = Some t then L\<lparr>m_Mutex := None\<rparr> else L)"

definition Logger_updateLogLevel :: "log_level \<Rightarrow> logger \<Rightarrow> logger" where
  "Logger_updateLogLevel logLevel L = L\<lparr>m_LogLevel := logLevel\<rparr>"

definition Logger_enaleLog :: "logger \<Rightarrow> logger" where
  "Logger_enaleLog L = L\<lparr>m_LogLevel := ENABLE_LOG\<rparr>"

definition Logger_disableLog :: "logger \<Rightarrow> logger" where
  "Logger_disableLog L = L\<lparr>m_LogLevel := DISABLE_LOG\<rparr>"

definition Logger_updateLogType :: "log_type \<Rightarrow> logger \<Rightarrow> logger" where
  "Logger_updateLogType logType L = L\<lparr>m_LogType := logType\<rparr>"

definition Logger_enableConsoleLogging :: "logger \<Rightarrow> logger" where
  "Logger_enableConsoleLogging L = L\<lparr>m_LogType := CONSOLE\<rparr>"

definition Logger_enableFileLogging :: "logger \<Rightarrow> logger" where
  "Logger_enableFileLogging L = L\<lparr>m_LogType := FILE_LOG\<rparr>"

subsection \<open>The interfaces for text\<close>

datatype stream = File | Cout

text \<open>
  \<open>getCurrentTime2\<close> is not one step: it reads the clock, \<open>gmtime\<close> writes the fields of an object that all its
  callers share, and \<open>put_time\<close> reads them one by one. \<open>PutTime\<close> is the call, \<open>SetTm\<close> the write of a field,
  \<open>PutTm\<close> the formatting with the fields and milliseconds that are still to come and the text so far.
\<close>

datatype tm_field = Tm_year | Tm_mon | Tm_mday | Tm_hour | Tm_min | Tm_sec

definition tm_fields :: "tm_field list" where
  "tm_fields = [Tm_year, Tm_mon, Tm_mday, Tm_hour, Tm_min, Tm_sec]"

fun tm_get :: "tm_field \<Rightarrow> tm \<Rightarrow> nat" where
  "tm_get Tm_year t = tm_year t"
| "tm_get Tm_mon t = tm_mon t"
| "tm_get Tm_mday t = tm_mday t"
| "tm_get Tm_hour t = tm_hour t"
| "tm_get Tm_min t = tm_min t"
| "tm_get Tm_sec t = tm_sec t"

fun tm_set :: "tm_field \<Rightarrow> nat \<Rightarrow> tm \<Rightarrow> tm" where
  "tm_set Tm_year v t = t\<lparr>tm_year := v\<rparr>"
| "tm_set Tm_mon v t = t\<lparr>tm_mon := v\<rparr>"
| "tm_set Tm_mday v t = t\<lparr>tm_mday := v\<rparr>"
| "tm_set Tm_hour v t = t\<lparr>tm_hour := v\<rparr>"
| "tm_set Tm_min v t = t\<lparr>tm_min := v\<rparr>"
| "tm_set Tm_sec v t = t\<lparr>tm_sec := v\<rparr>"

text \<open>The text of a field in \<open>"%Y-%m-%d %H:%M:%S"\<close>, with what separates it from the field before.\<close>

primrec tm_text :: "tm_field \<Rightarrow> nat \<Rightarrow> string" where
  "tm_text Tm_year v = pad 4 v"
| "tm_text Tm_mon v = ''-'' @ pad 2 v"
| "tm_text Tm_mday v = ''-'' @ pad 2 v"
| "tm_text Tm_hour v = '' '' @ pad 2 v"
| "tm_text Tm_min v = '':'' @ pad 2 v"
| "tm_text Tm_sec v = '':'' @ pad 2 v"

datatype log_action = Lock | Unlock | PutTime stream | SetTm tm_field nat | PutTm stream "tm_field list" nat string | Put stream string

definition now_actions :: "stream \<Rightarrow> nat \<Rightarrow> log_action list" where
  "now_actions s now = map (\<lambda>f. SetTm f (tm_get f (gmtime (now div 1000)))) tm_fields @ [PutTm s tm_fields (now mod 1000) '''']"

definition endl :: string where
  "endl = [CHR 0x0A]"

definition logIntoFile :: "string \<Rightarrow> log_action list" where
  "logIntoFile data = [Lock, PutTime File, Put File ''  '', Put File data, Put File endl, Unlock]"

definition logOnConsole :: "string \<Rightarrow> log_action list" where
  "logOnConsole data = [PutTime Cout, Put Cout ''  '', Put Cout data, Put Cout endl]"

definition Logger_error :: "logger \<Rightarrow> string \<Rightarrow> log_action list" where
  "Logger_error L text = (let data = ''[ERROR]: '' @ text in
     if m_LogType L = FILE_LOG then logIntoFile data else if m_LogType L = CONSOLE then logOnConsole data else [])"

definition Logger_alarm :: "logger \<Rightarrow> string \<Rightarrow> log_action list" where
  "Logger_alarm L text = (let data = ''[ALARM]: '' @ text in
     if m_LogType L = FILE_LOG then logIntoFile data else if m_LogType L = CONSOLE then logOnConsole data else [])"

definition Logger_always :: "logger \<Rightarrow> string \<Rightarrow> log_action list" where
  "Logger_always L text = (let data = ''[ALWAYS]: '' @ text in
     if m_LogType L = FILE_LOG then logIntoFile data else if m_LogType L = CONSOLE then logOnConsole data else [])"

definition Logger_buffer :: "logger \<Rightarrow> string \<Rightarrow> log_action list" where
  "Logger_buffer L text =
     (if m_LogType L = FILE_LOG \<and> LOG_LEVEL_BUFFER \<le> m_LogLevel L then [Lock, Put File text, Put File endl, Unlock]
      else if m_LogType L = CONSOLE \<and> LOG_LEVEL_BUFFER \<le> m_LogLevel L then [Put Cout text, Put Cout endl] else [])"

definition Logger_info :: "logger \<Rightarrow> string \<Rightarrow> log_action list" where
  "Logger_info L text = (let data = ''[INFO]: '' @ text in
     if m_LogType L = FILE_LOG \<and> LOG_LEVEL_INFO \<le> m_LogLevel L then logIntoFile data
     else if m_LogType L = CONSOLE \<and> LOG_LEVEL_INFO \<le> m_LogLevel L then logOnConsole data else [])"

definition Logger_trace :: "logger \<Rightarrow> string \<Rightarrow> log_action list" where
  "Logger_trace L text = (let data = ''[TRACE]: '' @ text in
     if m_LogType L = FILE_LOG \<and> LOG_LEVEL_TRACE \<le> m_LogLevel L then logIntoFile data
     else if m_LogType L = CONSOLE \<and> LOG_LEVEL_TRACE \<le> m_LogLevel L then logOnConsole data else [])"

definition Logger_debug :: "logger \<Rightarrow> string \<Rightarrow> log_action list" where
  "Logger_debug L text = (let data = ''[DEBUG]: '' @ text in
     if m_LogType L = FILE_LOG \<and> LOG_LEVEL_DEBUG \<le> m_LogLevel L then logIntoFile data
     else if m_LogType L = CONSOLE \<and> LOG_LEVEL_DEBUG \<le> m_LogLevel L then logOnConsole data else [])"

text \<open>The overloads for strings and string streams pass on \<open>data()\<close>, so their text ends at the first null character.\<close>

definition c_str :: "string \<Rightarrow> string" where
  "c_str s = takeWhile (\<lambda>c. c \<noteq> CHR 0x00) s"

definition Logger_error_string :: "logger \<Rightarrow> string \<Rightarrow> log_action list" where
  "Logger_error_string L text = Logger_error L (c_str text)"

definition Logger_alarm_string :: "logger \<Rightarrow> string \<Rightarrow> log_action list" where
  "Logger_alarm_string L text = Logger_alarm L (c_str text)"

definition Logger_always_string :: "logger \<Rightarrow> string \<Rightarrow> log_action list" where
  "Logger_always_string L text = Logger_always L (c_str text)"

definition Logger_buffer_string :: "logger \<Rightarrow> string \<Rightarrow> log_action list" where
  "Logger_buffer_string L text = Logger_buffer L (c_str text)"

definition Logger_info_string :: "logger \<Rightarrow> string \<Rightarrow> log_action list" where
  "Logger_info_string L text = Logger_info L (c_str text)"

definition Logger_trace_string :: "logger \<Rightarrow> string \<Rightarrow> log_action list" where
  "Logger_trace_string L text = Logger_trace L (c_str text)"

definition Logger_debug_string :: "logger \<Rightarrow> string \<Rightarrow> log_action list" where
  "Logger_debug_string L text = Logger_debug L (c_str text)"

subsection \<open>Several threads\<close>

text \<open>
  Each thread works off the actions of its current call. The system clock may be set to any time at any moment,
  forwards or back, and other callers of \<open>gmtime\<close>, like \<open>log\<close> of \<open>fullprover.cpp\<close>, may write its object. The last
  field records which lines a thread has asked to be written to the file, with a flag for those with a time stamp.
\<close>

datatype log_call = Error string | Alarm string | Always string | Buffer string | Info string | Trace string | Debug string

fun log_actions :: "logger \<Rightarrow> log_call \<Rightarrow> log_action list" where
  "log_actions L (Error x) = Logger_error L x"
| "log_actions L (Alarm x) = Logger_alarm L x"
| "log_actions L (Always x) = Logger_always L x"
| "log_actions L (Buffer x) = Logger_buffer L x"
| "log_actions L (Info x) = Logger_info L x"
| "log_actions L (Trace x) = Logger_trace L x"
| "log_actions L (Debug x) = Logger_debug L x"

record log_world =
  w_logger :: logger
  w_cout :: string
  w_clock :: nat
  w_tm :: tm
  w_prog :: "nat \<Rightarrow> log_action list"
  w_sent :: "nat \<Rightarrow> (bool \<times> string) list"

fun file_request :: "log_action list \<Rightarrow> (bool \<times> string) list" where
  "file_request (Lock # PutTime File # _ # Put File data # _) = [(True, data)]"
| "file_request (Lock # Put File x # _) = [(False, x)]"
| "file_request _ = []"

definition file_write :: "string \<Rightarrow> logger \<Rightarrow> logger" where
  "file_write x L = (if m_Open L then L\<lparr>m_File := m_File L @ x\<rparr> else L)"

fun log_act :: "nat \<Rightarrow> log_action \<Rightarrow> log_action list \<Rightarrow> log_world \<Rightarrow> log_world option" where
  "log_act t Lock p w = (case Logger_lock t (w_logger w) of None \<Rightarrow> None
     | Some L \<Rightarrow> Some (w\<lparr>w_logger := L, w_prog := (w_prog w)(t := p)\<rparr>))"
| "log_act t Unlock p w = Some (w\<lparr>w_logger := Logger_unlock t (w_logger w), w_prog := (w_prog w)(t := p)\<rparr>)"
| "log_act t (PutTime s) p w = Some (w\<lparr>w_prog := (w_prog w)(t := now_actions s (w_clock w) @ p)\<rparr>)"
| "log_act t (SetTm f v) p w = Some (w\<lparr>w_tm := tm_set f v (w_tm w), w_prog := (w_prog w)(t := p)\<rparr>)"
| "log_act t (PutTm s (f # fs) ms x) p w =
     Some (w\<lparr>w_prog := (w_prog w)(t := PutTm s fs ms (x @ tm_text f (tm_get f (w_tm w))) # p)\<rparr>)"
| "log_act t (PutTm s [] ms x) p w = Some (w\<lparr>w_prog := (w_prog w)(t := Put s (x @ ''.'' @ pad 3 ms) # p)\<rparr>)"
| "log_act t (Put File x) p w = Some (w\<lparr>w_logger := file_write x (w_logger w), w_prog := (w_prog w)(t := p)\<rparr>)"
| "log_act t (Put Cout x) p w = Some (w\<lparr>w_cout := w_cout w @ x, w_prog := (w_prog w)(t := p)\<rparr>)"

datatype log_event = Call nat log_call | Act nat | SetClock nat | Gmtime tm_field nat | SetLevel log_level | SetType log_type

fun log_apply :: "log_event \<Rightarrow> log_world \<Rightarrow> log_world option" where
  "log_apply (Call t c) w = (if w_prog w t = [] then let p = log_actions (w_logger w) c in
     Some (w\<lparr>w_prog := (w_prog w)(t := p), w_sent := (w_sent w)(t := w_sent w t @ file_request p)\<rparr>) else None)"
| "log_apply (Act t) w = (case w_prog w t of [] \<Rightarrow> None | a # p \<Rightarrow> log_act t a p w)"
| "log_apply (SetClock n) w = Some (w\<lparr>w_clock := n\<rparr>)"
| "log_apply (Gmtime f v) w = Some (w\<lparr>w_tm := tm_set f v (w_tm w)\<rparr>)"
| "log_apply (SetLevel l) w = Some (w\<lparr>w_logger := Logger_updateLogLevel l (w_logger w)\<rparr>)"
| "log_apply (SetType k) w = Some (w\<lparr>w_logger := Logger_updateLogType k (w_logger w)\<rparr>)"

primrec log_run :: "log_event list \<Rightarrow> log_world \<Rightarrow> log_world option" where
  "log_run [] w = Some w"
| "log_run (e # es) w = (case log_apply e w of None \<Rightarrow> None | Some w \<Rightarrow> log_run es w)"

definition log_init :: "log_world \<Rightarrow> bool" where
  "log_init w \<longleftrightarrow> m_Open (w_logger w) \<and> m_Mutex (w_logger w) = None \<and> (\<forall>t. w_prog w t = [] \<and> w_sent w t = [])"

text \<open>The times that the clock has after a time and events, and events that leave the object of \<open>gmtime\<close> to the log file.\<close>

fun clock_values :: "nat \<Rightarrow> log_event list \<Rightarrow> nat list" where
  "clock_values c [] = [c]"
| "clock_values c (SetClock n # es) = c # clock_values n es"
| "clock_values c (e # es) = clock_values c es"

primrec file_only :: "log_event \<Rightarrow> bool" where
  "file_only (Call t c) \<longleftrightarrow> True"
| "file_only (Act t) \<longleftrightarrow> True"
| "file_only (SetClock n) \<longleftrightarrow> True"
| "file_only (Gmtime f v) \<longleftrightarrow> False"
| "file_only (SetLevel l) \<longleftrightarrow> True"
| "file_only (SetType k) \<longleftrightarrow> k \<noteq> CONSOLE"

definition undisturbed :: "log_world \<Rightarrow> log_event list \<Rightarrow> bool" where
  "undisturbed w evs \<longleftrightarrow> m_LogType (w_logger w) \<noteq> CONSOLE \<and> list_all file_only evs"

subsection \<open>Time stamps\<close>

lemma tm_get_set: "tm_get f (tm_set g v t) = (if f = g then v else tm_get f t)"
  by (cases f; cases g) simp_all

lemma in_tm_fields: "f \<in> set tm_fields"
  by (cases f) (simp_all add: tm_fields_def)

lemma tm_fields_simps: "length tm_fields = 6" "distinct tm_fields"
  by (simp_all add: tm_fields_def)

definition fields_text :: "tm_field list \<Rightarrow> tm \<Rightarrow> string" where
  "fields_text fs t = concat (map (\<lambda>f. tm_text f (tm_get f t)) fs)"

lemma fields_text_simps [simp]: "fields_text [] t = []" "fields_text (fs @ [f]) t = fields_text fs t @ tm_text f (tm_get f t)"
  by (simp_all add: fields_text_def)

text \<open>Undisturbed, the text is the one of \<open>getCurrentTime2\<close>; it always has its width.\<close>

lemma stamp_text: "fields_text tm_fields (gmtime (now div 1000)) @ ''.'' @ pad 3 (now mod 1000) = getCurrentTime2 now"
  by (simp add: fields_text_def tm_fields_def getCurrentTime2_def Let_def put_date_def put_clock_def)

lemma length_tm_text: "length (tm_text f v) = length (tm_text f v')"
  by (cases f) simp_all

lemma length_fields_text: "length (fields_text fs t) = length (fields_text fs t')"
proof (induction fs)
  case (Cons f fs)
  then show ?case using length_tm_text [of f "tm_get f t" "tm_get f t'"] by (simp add: fields_text_def)
qed simp

lemma length_stamp: "length (fields_text tm_fields t) = 19"
  by (simp add: fields_text_def tm_fields_def)

subsection \<open>The lines of the file\<close>

text \<open>A line with the time that the clock had when it was read, and its stamp.\<close>

datatype log_line = Stamped nat string string | Raw string

primrec line_text :: "log_line \<Rightarrow> string" where
  "line_text (Stamped now stamp data) = stamp @ ''  '' @ data @ endl"
| "line_text (Raw x) = x @ endl"

primrec line_request :: "log_line \<Rightarrow> bool \<times> string" where
  "line_request (Stamped now stamp data) = (True, data)"
| "line_request (Raw x) = (False, x)"

primrec line_stamps :: "log_line \<Rightarrow> (nat \<times> string) list" where
  "line_stamps (Stamped now stamp data) = [(now, stamp)]"
| "line_stamps (Raw x) = []"

text \<open>Lines with the threads that wrote them.\<close>

definition lines_text :: "(nat \<times> log_line) list \<Rightarrow> string" where
  "lines_text es = concat (map (\<lambda>(t, l). line_text l) es)"

definition stamps :: "(nat \<times> log_line) list \<Rightarrow> (nat \<times> string) list" where
  "stamps es = concat (map (\<lambda>(t, l). line_stamps l) es)"

definition lines_of :: "nat \<Rightarrow> (nat \<times> log_line) list \<Rightarrow> (bool \<times> string) list" where
  "lines_of t es = map (\<lambda>(u, l). line_request l) (filter (\<lambda>(u, l). u = t) es)"

lemma lines_simps [simp]:
  "lines_text [] = []" "lines_text (es @ [(t, l)]) = lines_text es @ line_text l"
  "stamps [] = []" "stamps (es @ [(t, l)]) = stamps es @ line_stamps l"
  "lines_of u [] = []" "lines_of u (es @ [(t, l)]) = lines_of u es @ (if t = u then [line_request l] else [])"
  by (simp_all add: lines_text_def stamps_def lines_of_def)

text \<open>A thread that does not hold the mutex: between calls, before the lock, or writing to the console.\<close>

fun on_console :: "log_action \<Rightarrow> bool" where
  "on_console (PutTime s) \<longleftrightarrow> s = Cout"
| "on_console (SetTm f v) \<longleftrightarrow> True"
| "on_console (PutTm s fs ms x) \<longleftrightarrow> s = Cout"
| "on_console (Put s x) \<longleftrightarrow> s = Cout"
| "on_console _ \<longleftrightarrow> False"

lemma now_on_console: "\<forall>a\<in>set (now_actions Cout now). on_console a"
  by (simp add: now_actions_def)

text \<open>\<open>q\<close> stands for an undisturbed run: nothing is written to the console.\<close>

definition outside :: "bool \<Rightarrow> (bool \<times> string) list \<Rightarrow> log_action list \<Rightarrow> bool" where
  "outside q ks p \<longleftrightarrow> (ks = [] \<and> (\<forall>a\<in>set p. on_console a) \<and> (q \<longrightarrow> p = [])) \<or> (\<exists>d. ks = [(True, d)] \<and> p = logIntoFile d)
     \<or> (\<exists>x. ks = [(False, x)] \<and> p = [Lock, Put File x, Put File endl, Unlock])"

lemma log_actions_outside: "(q \<longrightarrow> m_LogType L \<noteq> CONSOLE) \<Longrightarrow> outside q (file_request (log_actions L c)) (log_actions L c)"
  by (cases c) (auto simp: outside_def Logger_error_def Logger_alarm_def Logger_always_def Logger_buffer_def Logger_info_def
      Logger_trace_def Logger_debug_def logIntoFile_def logOnConsole_def Let_def)

text \<open>The thread while it makes a stamp: \<open>k\<close> fields are written, or \<open>k\<close> fields are formatted.\<close>

definition stamping :: "bool \<Rightarrow> tm \<Rightarrow> nat \<Rightarrow> log_action list \<Rightarrow> bool" where
  "stamping q t now pre \<longleftrightarrow> (let g = gmtime (now div 1000) in
     (\<exists>k\<le>6. pre = map (\<lambda>f. SetTm f (tm_get f g)) (drop k tm_fields) @ [PutTm File tm_fields (now mod 1000) '''']
        \<and> (q \<longrightarrow> (\<forall>f\<in>set (take k tm_fields). tm_get f t = tm_get f g)))
     \<or> (\<exists>k\<le>6. \<exists>x. pre = [PutTm File (drop k tm_fields) (now mod 1000) x] \<and> length x = length (fields_text (take k tm_fields) g)
        \<and> (q \<longrightarrow> (\<forall>f. tm_get f t = tm_get f g) \<and> x = fields_text (take k tm_fields) g)))"

lemma stamping_start: "stamping q t now (now_actions File now)"
  unfolding stamping_def Let_def now_actions_def by (intro disjI1 exI [of _ 0]) simp

lemma put_first: "log_act t (PutTm s tm_fields ms x) p w =
    Some (w\<lparr>w_prog := (w_prog w)(t := PutTm s (drop 1 tm_fields) ms (x @ tm_text Tm_year (tm_get Tm_year (w_tm w))) # p)\<rparr>)"
  by (simp add: tm_fields_def)

text \<open>One step of it.\<close>

lemma stamping_step:
  assumes "stamping q (w_tm w) now (a # pre)" and "log_act t a (pre @ p) w = Some w'"
  shows "(\<exists>pre'. w_prog w' = (w_prog w)(t := pre' @ p) \<and> stamping q (w_tm w') now pre')
    \<or> (\<exists>x. w_prog w' = (w_prog w)(t := Put File x # p) \<and> w_tm w' = w_tm w \<and> length x = 23 \<and> (q \<longrightarrow> x = getCurrentTime2 now))"
proof -
  define g where "g = gmtime (now div 1000)"
  from assms(1) consider k where "k \<le> 6" "a # pre = map (\<lambda>f. SetTm f (tm_get f g)) (drop k tm_fields) @ [PutTm File tm_fields (now mod 1000) '''']"
      "q \<longrightarrow> (\<forall>f\<in>set (take k tm_fields). tm_get f (w_tm w) = tm_get f g)"
    | k x where "k \<le> 6" "a = PutTm File (drop k tm_fields) (now mod 1000) x" "pre = []" "length x = length (fields_text (take k tm_fields) g)"
      "q \<longrightarrow> (\<forall>f. tm_get f (w_tm w) = tm_get f g) \<and> x = fields_text (take k tm_fields) g"
    unfolding stamping_def Let_def g_def [symmetric] by auto
  then show ?thesis
  proof cases
    case (1 k)
    show ?thesis
    proof (cases "k < 6")
      case True
      define f where "f = tm_fields ! k"
      have d: "drop k tm_fields = f # drop (Suc k) tm_fields" "take (Suc k) tm_fields = take k tm_fields @ [f]"
        using True by (simp_all add: f_def tm_fields_simps Cons_nth_drop_Suc take_Suc_conv_app_nth)
      have a: "a = SetTm f (tm_get f g)"
        and pre: "pre = map (\<lambda>f. SetTm f (tm_get f g)) (drop (Suc k) tm_fields) @ [PutTm File tm_fields (now mod 1000) '''']"
        using 1(2) unfolding d(1) by simp_all
      have w': "w_prog w' = (w_prog w)(t := pre @ p)" "w_tm w' = tm_set f (tm_get f g) (w_tm w)" using assms(2) unfolding a by auto
      have "stamping q (w_tm w') now pre" unfolding stamping_def Let_def g_def [symmetric]
        using True 1(3) pre by (intro disjI1 exI [of _ "Suc k"]) (auto simp: d(2) w'(2) tm_get_set)
      then show ?thesis using w'(1) by blast
    next
      case False
      then have k: "k = 6" using 1(1) by simp
      have a: "a = PutTm File tm_fields (now mod 1000) ''''" "pre = []" using 1(2) by (simp_all add: k tm_fields_simps)
      have e: "\<forall>f. tm_get f (w_tm w) = tm_get f g" if q using 1(3) that in_tm_fields by (simp add: k tm_fields_simps)
      have t1: "take 1 tm_fields = [] @ [Tm_year]" by (simp add: tm_fields_def)
      let ?x = "tm_text Tm_year (tm_get Tm_year (w_tm w))"
      have w': "w_prog w' = (w_prog w)(t := [PutTm File (drop 1 tm_fields) (now mod 1000) ?x] @ p)" "w_tm w' = w_tm w"
        using put_first [of t File "now mod 1000" "[]" "pre @ p" w] assms(2) unfolding a by auto
      have "length ?x = length (fields_text (take 1 tm_fields) g)" unfolding t1 fields_text_simps by (simp add: length_tm_text)
      moreover have "?x = fields_text (take 1 tm_fields) g" if q unfolding t1 fields_text_simps using e [OF that] by simp
      ultimately have "stamping q (w_tm w') now [PutTm File (drop 1 tm_fields) (now mod 1000) ?x]"
        unfolding stamping_def Let_def g_def [symmetric] w'(2) using e by (intro disjI2 exI [of _ 1] conjI exI [of _ ?x]) simp_all
      then show ?thesis using w'(1) by blast
    qed
  next
    case (2 k x)
    show ?thesis
    proof (cases "k < 6")
      case True
      define f where "f = tm_fields ! k"
      have d: "drop k tm_fields = f # drop (Suc k) tm_fields" "take (Suc k) tm_fields = take k tm_fields @ [f]"
        using True by (simp_all add: f_def tm_fields_simps Cons_nth_drop_Suc take_Suc_conv_app_nth)
      let ?x = "x @ tm_text f (tm_get f (w_tm w))"
      have w': "w_prog w' = (w_prog w)(t := [PutTm File (drop (Suc k) tm_fields) (now mod 1000) ?x] @ p)" "w_tm w' = w_tm w"
        using assms(2) unfolding 2(2,3) d(1) by auto
      have "length ?x = length (fields_text (take (Suc k) tm_fields) g)" using 2(4) unfolding d(2) by (simp add: length_tm_text)
      moreover have "?x = fields_text (take (Suc k) tm_fields) g" if q using 2(5) that unfolding d(2) by simp
      ultimately have "stamping q (w_tm w') now [PutTm File (drop (Suc k) tm_fields) (now mod 1000) ?x]"
        unfolding stamping_def Let_def g_def [symmetric] w'(2)
        using 2(5) True by (intro disjI2 exI [of _ "Suc k"] conjI exI [of _ ?x]) simp_all
      then show ?thesis using w'(1) by blast
    next
      case False
      then have k: "k = 6" using 2(1) by simp
      have l: "drop k tm_fields = []" "take k tm_fields = tm_fields" by (simp_all add: k tm_fields_simps)
      let ?x = "x @ ''.'' @ pad 3 (now mod 1000)"
      have w': "w_prog w' = (w_prog w)(t := Put File ?x # p)" "w_tm w' = w_tm w" using assms(2) unfolding 2(2,3) l by auto
      have "length ?x = 23" using 2(4) unfolding l by (simp add: length_stamp)
      moreover have "?x = getCurrentTime2 now" if q using 2(5) that stamp_text [of now] unfolding l g_def by simp
      ultimately show ?thesis using w' by blast
    qed
  qed
qed

lemma stamping_act: "stamping q t now (a # pre) \<Longrightarrow> log_act u a p w = Some w' \<Longrightarrow>
    w_logger w' = w_logger w \<and> w_clock w' = w_clock w \<and> w_sent w' = w_sent w"
  unfolding stamping_def Let_def by (cases a) (auto elim!: log_act.elims simp: Cons_eq_append_conv)


subsection \<open>The invariant\<close>

text \<open>
  What is known of a run: whether it is undisturbed, whether the clock is never set back, its times, and the contents of the file
  before it.
\<close>

record log_facts =
  quiet :: bool
  forward :: bool
  clock_times :: "nat set"
  old_file :: string

definition stamps_ok :: "log_facts \<Rightarrow> nat \<Rightarrow> (nat \<times> string) list \<Rightarrow> bool" where
  "stamps_ok K c ss \<longleftrightarrow> (\<forall>(now, s)\<in>set ss. length s = 23 \<and> now \<in> clock_times K \<and> (quiet K \<longrightarrow> s = getCurrentTime2 now))
     \<and> (forward K \<longrightarrow> sorted (map fst ss @ [c]))"

text \<open>The thread in the critical section: before it reads the clock, with a stamp in the making, or with a part of its line written.\<close>

definition inside :: "log_facts \<Rightarrow> log_world \<Rightarrow> nat \<Rightarrow> (nat \<times> log_line) list \<Rightarrow> (bool \<times> string) list \<Rightarrow> log_action list \<Rightarrow> bool" where
  "inside K w t es ks p \<longleftrightarrow>
     (\<exists>d. p = tl (logIntoFile d) \<and> m_File (w_logger w) = old_file K @ lines_text es \<and> ks = [(True, d)])
     \<or> (\<exists>d now pre. p = pre @ map (Put File) [''  '', d, endl] @ [Unlock] \<and> stamping (quiet K) (w_tm w) now pre
         \<and> m_File (w_logger w) = old_file K @ lines_text es \<and> ks = [(True, d)] \<and> now \<in> clock_times K
         \<and> (forward K \<longrightarrow> sorted (map fst (stamps es) @ [now, w_clock w])))
     \<or> (\<exists>l wr xs. p = map (Put File) xs @ [Unlock] \<and> wr @ concat xs = line_text l
         \<and> m_File (w_logger w) = old_file K @ lines_text es @ wr \<and> stamps_ok K (w_clock w) (stamps (es @ [(t, l)]))
         \<and> ks = [line_request l])"

definition thread_inv :: "log_facts \<Rightarrow> log_world \<Rightarrow> (nat \<times> log_line) list \<Rightarrow> nat \<Rightarrow> bool" where
  "thread_inv K w es t \<longleftrightarrow> (\<exists>ks. w_sent w t = lines_of t es @ ks
     \<and> (if m_Mutex (w_logger w) = Some t then inside K w t es ks (w_prog w t) else outside (quiet K) ks (w_prog w t)))"

definition log_inv :: "log_facts \<Rightarrow> log_world \<Rightarrow> (nat \<times> log_line) list \<Rightarrow> bool" where
  "log_inv K w es \<longleftrightarrow> m_Open (w_logger w) \<and> stamps_ok K (w_clock w) (stamps es) \<and> w_clock w \<in> clock_times K
     \<and> (quiet K \<longrightarrow> m_LogType (w_logger w) \<noteq> CONSOLE)
     \<and> (m_Mutex (w_logger w) = None \<longrightarrow> m_File (w_logger w) = old_file K @ lines_text es) \<and> (\<forall>t. thread_inv K w es t)"

lemma stamps_ok_mono: "stamps_ok K c ss \<Longrightarrow> (forward K \<Longrightarrow> c \<le> c') \<Longrightarrow> stamps_ok K c' ss"
  unfolding stamps_ok_def by (fastforce simp: sorted_append)

lemma stamping_mono: "stamping q t now pre \<Longrightarrow> (q \<Longrightarrow> t' = t) \<Longrightarrow> stamping q t' now pre"
  by (cases q) (simp_all add: stamping_def)

lemma inside_mono:
  assumes "inside K w t es ks p" and "m_File (w_logger w') = m_File (w_logger w)" and "forward K \<Longrightarrow> w_clock w \<le> w_clock w'"
    and "quiet K \<Longrightarrow> w_tm w' = w_tm w"
  shows "inside K w' t es ks p"
proof -
  have s: "sorted (map fst ss @ [now, w_clock w'])" if "sorted (map fst ss @ [now, w_clock w])" "forward K" for ss :: "(nat \<times> string) list" and now
    using that assms(3) by (fastforce simp: sorted_append)
  from assms(1) consider d where "p = tl (logIntoFile d)" "m_File (w_logger w) = old_file K @ lines_text es" "ks = [(True, d)]"
    | d now pre where "p = pre @ map (Put File) [''  '', d, endl] @ [Unlock]" "stamping (quiet K) (w_tm w) now pre"
        "m_File (w_logger w) = old_file K @ lines_text es" "ks = [(True, d)]" "now \<in> clock_times K"
        "forward K \<longrightarrow> sorted (map fst (stamps es) @ [now, w_clock w])"
    | l wr xs where "p = map (Put File) xs @ [Unlock]" "wr @ concat xs = line_text l" "m_File (w_logger w) = old_file K @ lines_text es @ wr"
        "stamps_ok K (w_clock w) (stamps (es @ [(t, l)]))" "ks = [line_request l]"
    unfolding inside_def by blast
  then show ?thesis
  proof cases
    case 1
    then show ?thesis unfolding inside_def assms(2) by blast
  next
    case 2
    then show ?thesis unfolding inside_def assms(2) using stamping_mono [OF 2(2) assms(4)] s by blast
  next
    case 3
    then show ?thesis unfolding inside_def assms(2) using stamps_ok_mono [OF 3(4) assms(3)] by blast
  qed
qed

lemma inside_not_Nil: "\<not> inside K w t es ks []"
  by (auto simp: inside_def logIntoFile_def)

lemma log_invD: "log_inv K w es \<Longrightarrow> thread_inv K w es t"
  unfolding log_inv_def by blast

text \<open>A step of thread \<open>t\<close> or of the environment.\<close>

lemma log_inv_step:
  assumes I: "log_inv K w es"
    and "m_Open (w_logger w')" and "stamps_ok K (w_clock w') (stamps es')" and "w_clock w' \<in> clock_times K"
    and "quiet K \<Longrightarrow> m_LogType (w_logger w') \<noteq> CONSOLE"
    and "m_Mutex (w_logger w') = None \<Longrightarrow> m_File (w_logger w') = old_file K @ lines_text es'"
    and same: "\<And>u. u \<noteq> t \<Longrightarrow> w_prog w' u = w_prog w u \<and> w_sent w' u = w_sent w u \<and> lines_of u es' = lines_of u es
      \<and> (m_Mutex (w_logger w') = Some u \<longleftrightarrow> m_Mutex (w_logger w) = Some u)"
    and hold: "\<And>u. u \<noteq> t \<Longrightarrow> m_Mutex (w_logger w) = Some u \<Longrightarrow> es' = es \<and> m_File (w_logger w') = m_File (w_logger w)
      \<and> (forward K \<longrightarrow> w_clock w \<le> w_clock w') \<and> (quiet K \<longrightarrow> w_tm w' = w_tm w)"
    and t: "thread_inv K w' es' t"
  shows "log_inv K w' es'"
  unfolding log_inv_def
proof (intro conjI allI)
  fix u
  show "thread_inv K w' es' u"
  proof (cases "u = t")
    case False
    show ?thesis
    proof (cases "m_Mutex (w_logger w) = Some u")
      case True
      then show ?thesis using log_invD [OF I, of u] same [OF False] hold [OF False True]
          inside_mono [of K w u es _ "w_prog w u" w'] unfolding thread_inv_def by auto
    next
      case m: False
      then show ?thesis using log_invD [OF I, of u] same [OF False] unfolding thread_inv_def by auto
    qed
  qed (use t in simp)
qed (use assms in auto)

lemma log_inv_env:
  assumes I: "log_inv K w es" and "m_Open (w_logger w') = m_Open (w_logger w)" and "m_File (w_logger w') = m_File (w_logger w)"
    and "m_Mutex (w_logger w') = m_Mutex (w_logger w)" and "w_prog w' = w_prog w" and "w_sent w' = w_sent w"
    and "forward K \<Longrightarrow> w_clock w \<le> w_clock w'" and "w_clock w' \<in> clock_times K" and "quiet K \<Longrightarrow> w_tm w' = w_tm w"
    and "quiet K \<Longrightarrow> m_LogType (w_logger w') \<noteq> CONSOLE"
  shows "log_inv K w' es"
proof (rule log_inv_step [OF I, where t = 0])
  show "thread_inv K w' es 0" using log_invD [OF I, of 0] inside_mono [of K w 0 es _ "w_prog w 0" w'] assms(3-10)
    unfolding thread_inv_def by auto
  show "stamps_ok K (w_clock w') (stamps es)" using I stamps_ok_mono assms(7) unfolding log_inv_def by blast
qed (use I assms(2-10) in \<open>auto simp: log_inv_def\<close>)


lemma log_inv_call: "log_inv K w es \<Longrightarrow> log_apply (Call t c) w = Some w' \<Longrightarrow> log_inv K w' es"
proof -
  assume I: "log_inv K w es" and a: "log_apply (Call t c) w = Some w'"
  let ?p = "log_actions (w_logger w) c"
  have p: "w_prog w t = []" and w': "w' = w\<lparr>w_prog := (w_prog w)(t := ?p), w_sent := (w_sent w)(t := w_sent w t @ file_request ?p)\<rparr>"
    using a by (auto simp: Let_def split: if_splits)
  obtain ks where ks: "w_sent w t = lines_of t es @ ks" "if m_Mutex (w_logger w) = Some t
      then inside K w t es ks [] else outside (quiet K) ks []"
    using log_invD [OF I, of t] unfolding thread_inv_def p by blast
  then have m: "m_Mutex (w_logger w) \<noteq> Some t" "ks = []" using inside_not_Nil
    by (auto simp: outside_def logIntoFile_def split: if_splits)
  have "thread_inv K w' es t" unfolding thread_inv_def
    using m ks log_actions_outside [of "quiet K" "w_logger w" c] I by (auto simp: w' log_inv_def)
  then show ?thesis by (intro log_inv_step [OF I, where t = t]) (use I in \<open>auto simp: w' log_inv_def\<close>)
qed

lemma log_inv_outside:
  assumes I: "log_inv K w es" and m: "m_Mutex (w_logger w) \<noteq> Some t" and p: "w_prog w t = a # p" and a: "log_act t a p w = Some w'"
  shows "log_inv K w' es"
proof -
  obtain ks where ks: "w_sent w t = lines_of t es @ ks" "outside (quiet K) ks (a # p)"
    using log_invD [OF I, of t] m unfolding p thread_inv_def by auto
  consider "a = Lock" | "on_console a" "ks = []" "\<forall>b\<in>set p. on_console b" "\<not> quiet K" using ks(2) by (auto simp: outside_def logIntoFile_def)
  then show ?thesis
  proof cases
    case 1
    then have n: "m_Mutex (w_logger w) = None" and w': "w' = w\<lparr>w_logger := w_logger w\<lparr>m_Mutex := Some t\<rparr>, w_prog := (w_prog w)(t := p)\<rparr>"
      using a m by (auto simp: Logger_lock_def split: option.splits if_splits)
    have f: "m_File (w_logger w') = old_file K @ lines_text es" using I n by (simp add: w' log_inv_def)
    have "inside K w' t es ks p"
    proof (cases "\<exists>d. ks = [(True, d)] \<and> a # p = logIntoFile d")
      case True
      then show ?thesis unfolding inside_def using f by (auto simp: logIntoFile_def)
    next
      case False
      then obtain x where x: "ks = [(False, x)]" "p = map (Put File) [x, endl] @ [Unlock]"
        using ks(2) 1 by (auto simp: outside_def)
      have "stamps_ok K (w_clock w') (stamps (es @ [(t, Raw x)]))" using I by (simp add: log_inv_def w')
      moreover have "ks = [line_request (Raw x)]" "[] @ concat [x, endl] = line_text (Raw x)" using x(1) by simp_all
      ultimately show ?thesis unfolding inside_def using x(2) f by (metis append_Nil2)
    qed
    then have "thread_inv K w' es t" using ks(1) unfolding thread_inv_def by (auto simp: w')
    then show ?thesis using I n by (intro log_inv_step [OF I, where t = t]) (auto simp: w' log_inv_def)
  next
    case 2
    have L: "w_logger w' = w_logger w" "w_sent w' = w_sent w" "w_clock w' = w_clock w" "\<And>u. u \<noteq> t \<Longrightarrow> w_prog w' u = w_prog w u"
      and o: "\<forall>b\<in>set (w_prog w' t). on_console b"
      using 2 a now_on_console by (cases "(t, a, p, w)" rule: log_act.cases; auto)+
    have "thread_inv K w' es t" using ks(1) m 2 o unfolding thread_inv_def by (auto simp: L outside_def)
    then show ?thesis using I 2(4) by (intro log_inv_step [OF I, where t = t]) (auto simp: L log_inv_def)
  qed
qed


lemma stamping_not_Nil: "stamping q t now pre \<Longrightarrow> pre \<noteq> []"
  by (auto simp: stamping_def Let_def)

text \<open>The thread in the critical section acts: on the clock, on its stamp, and on the file.\<close>

lemma log_inv_clock:
  assumes I: "log_inv K w es" and m: "m_Mutex (w_logger w) = Some t" and ks: "w_sent w t = lines_of t es @ [(True, d)]"
    and f: "m_File (w_logger w) = old_file K @ lines_text es" and p: "a # p = tl (logIntoFile d)" and a: "log_act t a p w = Some w'"
  shows "log_inv K w' es"
proof -
  let ?r = "map (Put File) [''  '', d, endl] @ [Unlock]"
  have w': "w' = w\<lparr>w_prog := (w_prog w)(t := now_actions File (w_clock w) @ ?r)\<rparr>"
    using p a by (auto simp: logIntoFile_def)
  have c: "w_clock w \<in> clock_times K" "forward K \<longrightarrow> sorted (map fst (stamps es) @ [w_clock w, w_clock w])"
    using I by (auto simp: log_inv_def stamps_ok_def sorted_append)
  have "inside K w' t es [(True, d)] (now_actions File (w_clock w) @ ?r)"
    unfolding inside_def using stamping_start c f
    by (intro disjI2 disjI1 exI [of _ d] exI [of _ "w_clock w"] exI [of _ "now_actions File (w_clock w)"]) (simp add: w')
  then have "thread_inv K w' es t" using ks m unfolding thread_inv_def by (auto simp: w')
  then show ?thesis using I by (intro log_inv_step [OF I, where t = t]) (auto simp: w' log_inv_def)
qed

lemma log_inv_stamp:
  assumes I: "log_inv K w es" and m: "m_Mutex (w_logger w) = Some t" and ks: "w_sent w t = lines_of t es @ [(True, d)]"
    and f: "m_File (w_logger w) = old_file K @ lines_text es" and p: "a # p = pre @ map (Put File) [''  '', d, endl] @ [Unlock]"
    and st: "stamping (quiet K) (w_tm w) now pre" and c: "now \<in> clock_times K" "forward K \<longrightarrow> sorted (map fst (stamps es) @ [now, w_clock w])"
    and a: "log_act t a p w = Some w'"
  shows "log_inv K w' es"
proof -
  let ?r = "map (Put File) [''  '', d, endl] @ [Unlock]"
  obtain pre' where pre: "pre = a # pre'" "p = pre' @ ?r" using p stamping_not_Nil [OF st] by (cases pre) simp_all
  have L: "w_logger w' = w_logger w" "w_clock w' = w_clock w" "w_sent w' = w_sent w"
    using stamping_act [OF st [unfolded pre(1)] a] by simp_all
  consider pre'' where "w_prog w' = (w_prog w)(t := pre'' @ ?r)" "stamping (quiet K) (w_tm w') now pre''"
    | x where "w_prog w' = (w_prog w)(t := Put File x # ?r)" "length x = 23" "quiet K \<longrightarrow> x = getCurrentTime2 now"
    using stamping_step [OF st [unfolded pre(1)] a [unfolded pre(2)]] by blast
  then have "thread_inv K w' es t \<and> (\<forall>u. u \<noteq> t \<longrightarrow> w_prog w' u = w_prog w u)"
  proof cases
    case 1
    then have "inside K w' t es [(True, d)] (pre'' @ ?r)" unfolding inside_def L using f c by blast
    then show ?thesis using ks m 1(1) unfolding thread_inv_def by (auto simp: L)
  next
    case 2
    have "stamps_ok K (w_clock w) (stamps (es @ [(t, Stamped now x d)]))"
      using I 2(2,3) c by (auto simp: log_inv_def stamps_ok_def sorted_append)
    then have "inside K w' t es [(True, d)] (map (Put File) [x, ''  '', d, endl] @ [Unlock])"
      unfolding inside_def L using f
      by (intro disjI2 exI [of _ "Stamped now x d"] exI [of _ "[]"] exI [of _ "[x, ''  '', d, endl]"]) simp
    then show ?thesis using ks m 2(1) unfolding thread_inv_def by (auto simp: L)
  qed
  then show ?thesis using I m by (intro log_inv_step [OF I, where t = t]) (auto simp: L log_inv_def)
qed

lemma log_inv_write:
  assumes I: "log_inv K w es" and m: "m_Mutex (w_logger w) = Some t" and ks: "w_sent w t = lines_of t es @ [line_request l]"
    and f: "m_File (w_logger w) = old_file K @ lines_text es @ wr" and p: "a # p = map (Put File) xs @ [Unlock]"
    and l: "wr @ concat xs = line_text l" and c: "stamps_ok K (w_clock w) (stamps (es @ [(t, l)]))" and a: "log_act t a p w = Some w'"
  shows "\<exists>es'. log_inv K w' es'"
proof (cases xs)
  case Nil
  then have w': "w' = w\<lparr>w_logger := w_logger w\<lparr>m_Mutex := None\<rparr>, w_prog := (w_prog w)(t := [])\<rparr>"
    using p a m by (simp add: Logger_unlock_def)
  have "thread_inv K w' (es @ [(t, l)]) t" using ks unfolding thread_inv_def by (simp add: w' outside_def)
  then have "log_inv K w' (es @ [(t, l)])"
    using I m f l c Nil by (intro log_inv_step [OF I, where t = t]) (auto simp: w' log_inv_def)
  then show ?thesis ..
next
  case (Cons x ys)
  have "m_Open (w_logger w)" using I by (simp add: log_inv_def)
  then have w': "w' = w\<lparr>w_logger := w_logger w\<lparr>m_File := m_File (w_logger w) @ x\<rparr>, w_prog := (w_prog w)(t := map (Put File) ys @ [Unlock])\<rparr>"
    using p a Cons by (auto simp: file_write_def)
  have "inside K w' t es [line_request l] (map (Put File) ys @ [Unlock])"
    unfolding inside_def using f c l Cons by (intro disjI2 exI [of _ l] exI [of _ "wr @ x"] exI [of _ ys]) (simp add: w')
  then have "thread_inv K w' es t" using ks m unfolding thread_inv_def by (auto simp: w')
  then have "log_inv K w' es" using I m by (intro log_inv_step [OF I, where t = t]) (auto simp: w' log_inv_def)
  then show ?thesis ..
qed

lemma log_inv_inside:
  assumes I: "log_inv K w es" and m: "m_Mutex (w_logger w) = Some t" and p: "w_prog w t = a # p" and a: "log_act t a p w = Some w'"
  shows "\<exists>es'. log_inv K w' es'"
proof -
  obtain ks where ks: "w_sent w t = lines_of t es @ ks" "inside K w t es ks (a # p)"
    using log_invD [OF I, of t] m unfolding thread_inv_def p by auto
  from ks(2) show ?thesis unfolding inside_def
    using log_inv_clock [OF I m _ _ _ a] log_inv_stamp [OF I m _ _ _ _ _ _ a] log_inv_write [OF I m _ _ _ _ _ a] ks(1) by blast
qed

lemma log_inv_apply:
  assumes I: "log_inv K w es" and a: "log_apply e w = Some w'" and "w_clock w' \<in> clock_times K" and "forward K \<Longrightarrow> w_clock w \<le> w_clock w'"
    and "quiet K \<Longrightarrow> file_only e"
  shows "\<exists>es'. log_inv K w' es'"
proof -
  have c: "w_clock w \<in> clock_times K" "quiet K \<longrightarrow> m_LogType (w_logger w) \<noteq> CONSOLE" using I by (simp_all add: log_inv_def)
  have env: "\<exists>es'. log_inv K w' es'" if "m_Open (w_logger w') = m_Open (w_logger w)" "m_File (w_logger w') = m_File (w_logger w)"
    "m_Mutex (w_logger w') = m_Mutex (w_logger w)" "w_prog w' = w_prog w" "w_sent w' = w_sent w" "quiet K \<longrightarrow> w_tm w' = w_tm w"
    "quiet K \<longrightarrow> m_LogType (w_logger w') \<noteq> CONSOLE"
    using log_inv_env [OF I that(1-5)] that(6,7) assms(3,4) by blast
  show ?thesis
  proof (cases e)
    case (Call t c)
    then show ?thesis using log_inv_call I a by blast
  next
    case (Act t)
    then obtain b p where "w_prog w t = b # p" "log_act t b p w = Some w'" using a by (auto split: list.splits)
    then show ?thesis using log_inv_inside [OF I] log_inv_outside [OF I] by blast
  qed (rule env; use a assms(5) c in \<open>auto simp: Logger_updateLogLevel_def Logger_updateLogType_def\<close>)+
qed

lemma act_clock: "log_act t a p w = Some w' \<Longrightarrow> w_clock w' = w_clock w"
  by (cases "(t, a, p, w)" rule: log_act.cases) (auto split: option.splits)

lemma first_clock: "c \<in> set (clock_values c evs)"
  by (induction c evs rule: clock_values.induct) simp_all

lemma log_inv_run:
  assumes "log_inv K w es" and "log_run evs w = Some w'" and "set (clock_values (w_clock w) evs) \<subseteq> clock_times K"
    and "forward K \<Longrightarrow> sorted (clock_values (w_clock w) evs)" and "quiet K \<Longrightarrow> list_all file_only evs"
  shows "\<exists>es'. log_inv K w' es'"
  using assms
proof (induction evs arbitrary: w es)
  case (Cons e evs)
  then obtain w1 where w1: "log_apply e w = Some w1" "log_run evs w1 = Some w'" by (auto split: option.splits)
  have c: "clock_values (w_clock w) (e # evs) = clock_values (w_clock w1) evs \<and> w_clock w1 = w_clock w
      \<or> clock_values (w_clock w) (e # evs) = w_clock w # clock_values (w_clock w1) evs"
    using w1(1) act_clock by (cases e) (auto simp: Let_def split: if_splits list.splits)
  then have s: "set (clock_values (w_clock w1) evs) \<subseteq> clock_times K" "forward K \<Longrightarrow> sorted (clock_values (w_clock w1) evs)"
      "forward K \<Longrightarrow> w_clock w \<le> w_clock w1"
    using Cons.prems(3,4) first_clock [of "w_clock w1" evs] by auto
  obtain es' where "log_inv K w1 es'"
    using log_inv_apply [OF Cons.prems(1) w1(1)] s first_clock [of "w_clock w1" evs] Cons.prems(5) by auto
  then show ?case using Cons.IH [OF _ w1(2) s(1,2)] Cons.prems(5) by simp
qed auto

lemma log_inv_init:
  "log_init w \<Longrightarrow> w_clock w \<in> clock_times K \<Longrightarrow> (quiet K \<Longrightarrow> m_LogType (w_logger w) \<noteq> CONSOLE) \<Longrightarrow> old_file K = m_File (w_logger w) \<Longrightarrow>
   log_inv K w []"
  by (auto simp: log_init_def log_inv_def thread_inv_def outside_def stamps_ok_def)

lemma sorted_stamps:
  assumes "sorted ts" and "\<forall>t\<in>set ts. t < 253402300800000"
  shows "sorted (map getCurrentTime2 ts)"
proof -
  have "getCurrentTime2 s \<le> getCurrentTime2 t" if "s \<le> t" "t < 253402300800000" for s t
    using stamp_less [of s t "'' ''" "''.''" "[]" "[]"] that by (cases "s = t") (simp_all add: getCurrentTime2_def Let_def)
  then show ?thesis unfolding sorted_map using assms by (auto intro: sorted_wrt_mono_rel)
qed

text \<open>What the facts of a run say of its stamps.\<close>

lemma stamps_okD:
  assumes "stamps_ok K c ss"
  shows "\<forall>(now, s)\<in>set ss. length s = 23 \<and> now \<in> clock_times K \<and> (quiet K \<longrightarrow> s = getCurrentTime2 now)"
    and "quiet K \<Longrightarrow> forward K \<Longrightarrow> c < 253402300800000 \<Longrightarrow> sorted (map snd ss)"
proof -
  show a: "\<forall>(now, s)\<in>set ss. length s = 23 \<and> now \<in> clock_times K \<and> (quiet K \<longrightarrow> s = getCurrentTime2 now)"
    using assms by (simp add: stamps_ok_def)
  assume K: "quiet K" "forward K" "c < 253402300800000"
  have "map snd ss = map getCurrentTime2 (map fst ss)" unfolding map_map using a K(1) by (intro map_cong) auto
  moreover have "sorted (map fst ss)" "\<forall>t\<in>set (map fst ss). t \<le> c"
    using assms K(2) by (auto simp: stamps_ok_def sorted_append)
  then have "sorted (map getCurrentTime2 (map fst ss))" using K(3) by (intro sorted_stamps) auto
  ultimately show "sorted (map snd ss)" by (simp only:)
qed


definition log_start :: "log_type \<Rightarrow> log_world" where
  "log_start k = \<lparr>w_logger = \<lparr>m_Open = True, m_File = [], m_LogLevel = LOG_LEVEL_TRACE, m_LogType = k, m_Mutex = None\<rparr>,
     w_cout = [], w_clock = 7, w_tm = gmtime 0, w_prog = \<lambda>_. [], w_sent = \<lambda>_. []\<rparr>"

lemma replicate_step: "replicate (numeral k) x = x # replicate (pred_numeral k) x"
  by (simp only: numeral_eq_Suc replicate_Suc)

lemmas log_defs = log_start_def Logger_error_def Logger_buffer_def logIntoFile_def logOnConsole_def Logger_lock_def Logger_unlock_def
  file_write_def less_eq_log_level_def now_actions_def tm_fields_def replicate_step

lemma log_init_start: "log_init (log_start k)"
  by (simp add: log_init_def log_start_def)

lemma gmtime_start:
  "gmtime 0 = \<lparr>tm_year = 1970, tm_mon = 1, tm_mday = 1, tm_hour = 0, tm_min = 0, tm_sec = 0\<rparr>"
  "gmtime (Suc 0) = \<lparr>tm_year = 1970, tm_mon = 1, tm_mday = 1, tm_hour = 0, tm_min = 0, tm_sec = 1\<rparr>"
  by (simp_all add: gmtime_def gm_year.simps [of 1970 0] year_days_def month_days_def)


text \<open>On the console nothing keeps the pieces of two lines apart.\<close>

lemma console_lines_mix:
  "\<exists>w. log_run ([Call 0 (Error ''a''), Call 1 (Error ''b'')] @ replicate 15 (Act 0) @ replicate 15 (Act 1) @ replicate 3 (Act 0)
      @ replicate 3 (Act 1)) (log_start CONSOLE) = Some w
    \<and> w_cout w = getCurrentTime2 7 @ getCurrentTime2 7 @ ''  [ERROR]: a'' @ endl @ ''  [ERROR]: b'' @ endl"
  by (simp add: log_defs gmtime_start getCurrentTime2_def Let_def put_date_def put_clock_def)

text \<open>
  The mutex of the logger does not protect the object of \<open>gmtime\<close>: when another caller writes its second between
  \<open>gmtime\<close> and \<open>put_time\<close>, a line of the file gets a time that the clock never had.
\<close>

lemma stamp_race:
  "let evs = [Call 0 (Error ''a'')] @ replicate 8 (Act 0) @ [SetClock 1000, Gmtime Tm_sec 1] @ replicate 12 (Act 0) in
   clock_values 7 evs = [7, 1000]
   \<and> map_option (\<lambda>w. m_File (w_logger w)) (log_run evs (log_start FILE_LOG)) = Some (getCurrentTime2 1007 @ ''  [ERROR]: a'' @ endl)"
  by (simp add: log_defs gmtime_start getCurrentTime2_def Let_def put_date_def put_clock_def)

subsection \<open>The log lines of the full prover\<close>

text \<open>\<open>log\<close> of \<open>fullprover.cpp\<close>, from the time in milliseconds to the text that it writes.\<close>

definition log_text :: "nat \<Rightarrow> string \<Rightarrow> string \<Rightarrow> string" where
  "log_text now level msg = (let q = [CHR 0x22] in
     ''{'' @ q @ ''timestamp'' @ q @ '':'' @ q @ getFormattedTimestamp now
     @ q @ '','' @ q @ ''level'' @ q @ '':'' @ q @ level @ q @ '','' @ q @ ''message'' @ q @ '':'' @ q @ msg
     @ q @ '','' @ q @ ''native_code'' @ q @ '':'' @ q @ ''1'' @ q
     @ q @ '','' @ q @ ''target'' @ q @ '':'' @ q @ ''prover_service::rapidsnark'' @ q @ ''}'' @ endl)"

definition log_info :: "nat \<Rightarrow> string \<Rightarrow> string" where
  "log_info now msg = log_text now ''INFO'' msg"

definition log_debug :: "nat \<Rightarrow> string \<Rightarrow> string" where
  "log_debug now msg = log_text now ''DEBUG'' msg"

definition log_error :: "nat \<Rightarrow> string \<Rightarrow> string" where
  "log_error now msg = log_text now ''ERROR'' msg"

text \<open>
  What the grammar of JSON asks of the strings in a text: outside of a string a quotation mark opens one, inside a
  backslash takes the next character with it and a quotation mark closes it; none is open at the end.
\<close>

fun strings_closed :: "bool \<Rightarrow> string \<Rightarrow> bool" where
  "strings_closed b [] \<longleftrightarrow> \<not> b"
| "strings_closed False (c # cs) = strings_closed (c = CHR 0x22) cs"
| "strings_closed True [c] = (c = CHR 0x22)"
| "strings_closed True (c # d # cs) = (if c = CHR 0x5C then strings_closed True cs else strings_closed (c \<noteq> CHR 0x22) (d # cs))"

definition plain :: "string \<Rightarrow> bool" where
  "plain s \<longleftrightarrow> (\<forall>c\<in>set s. c \<noteq> CHR 0x22 \<and> c \<noteq> CHR 0x5C)"

lemma closed_step: "strings_closed b (CHR 0x22 # cs) = strings_closed (\<not> b) cs"
  by (cases b; cases cs) simp_all

lemma closed_plain: "plain s \<Longrightarrow> strings_closed b (s @ cs) = strings_closed b cs"
proof (induction s)
  case (Cons c s)
  then show ?case by (cases b; cases "s @ cs") (auto simp: plain_def)
qed simp

lemma plain_pad: "plain (pad w n)"
proof (induction w arbitrary: n)
  case (Suc w)
  have d: "of_char (char_of (48 + n mod 10) :: char) = 48 + n mod 10" by (simp add: take_bit_eq_mod)
  have ne: "char_of (48 + n mod 10) \<noteq> c" if "of_char c < (48 :: nat) \<or> of_char c \<ge> (58 :: nat)" for c
  proof
    assume "char_of (48 + n mod 10) = c"
    then have "of_char c = 48 + n mod 10" using d by blast
    moreover have "n mod 10 < 10" by simp
    ultimately show False using that by linarith
  qed
  have "char_of (48 + n mod 10) \<noteq> CHR 0x22" "char_of (48 + n mod 10) \<noteq> CHR 0x5C" by (rule ne, simp)+
  then show ?case using Suc.IH by (simp add: plain_def)
qed (simp add: plain_def)

lemma plain_append: "plain (s @ s') \<longleftrightarrow> plain s \<and> plain s'"
  by (auto simp: plain_def)

lemma plain_stamp: "plain (getFormattedTimestamp t)"
  unfolding getFormattedTimestamp_def put_date_def put_clock_def Let_def plain_append by (simp add: plain_pad) (simp add: plain_def)

text \<open>
  The text after \<open>"native_code":"1"\<close> begins with a second quotation mark, so in no log line with a plain level and message
  the strings are closed: none is a JSON text.
\<close>

lemma log_text_malformed:
  assumes "plain level" and "plain msg"
  shows "\<not> strings_closed False (log_text now level msg)"
proof -
  have s: "plain ''{''" "plain ''timestamp''" "plain '':''" "plain '',''" "plain ''level''" "plain ''message''" "plain ''native_code''"
    "plain ''1''" "plain ''target''" "plain ''prover_service::rapidsnark''" "plain ''}''" "plain endl"
    by (simp_all add: plain_def endl_def)
  have q: "strings_closed b ([CHR 0x22] @ cs) = strings_closed (\<not> b) cs" for b cs by (simp add: closed_step)
  have e: "strings_closed b endl = (\<not> b)" for b using closed_plain [OF s(12), of b "[]"] by simp
  show ?thesis unfolding log_text_def Let_def
    by (simp only: q e closed_plain [OF s(1)] closed_plain [OF s(2)] closed_plain [OF s(3)] closed_plain [OF s(4)] closed_plain [OF s(5)]
        closed_plain [OF s(6)] closed_plain [OF s(7)] closed_plain [OF s(8)] closed_plain [OF s(9)] closed_plain [OF s(10)]
        closed_plain [OF s(11)] closed_plain [OF plain_stamp] closed_plain [OF assms(1)] closed_plain [OF assms(2)]) simp
qed

end
