(* ===== verification/Spec2Isabelle.thy ===== *)
theory Spec2Isabelle
  imports Bn254_Multiexp Bn254_Fft Element_Mpz Split_Par_Str Full_Prover_Refusals Spinlock Icicle_Laws Groth16_Scheme Logger
begin

text \<open>
  Verification of the native Groth16 prover of the keyless prover service: the C++ sources under
  \<open>src/rust-rapidsnark/rapidsnark/src\<close>. All file names below are relative to that directory.

  \<^bold>\<open>The program.\<close> A Rust service creates one \<open>FullProver\<close> from the name of a proving key and asks it for
  proofs of witnesses, which arrive as files. \<open>fullprover.cpp\<close> maps both kinds of files with \<open>binfile_utils.cpp\<close>
  and \<open>fileloader.hpp\<close>, reads their headers with \<open>zkey_utils.hpp\<close> and \<open>wtns_utils.hpp\<close>, and passes pointers into
  the mappings to \<open>groth16.cpp\<close>. The prover multiplies the sparse constraint matrices with the witness (under
  the spin locks of \<open>spinlock.hpp\<close>), takes the row vectors to a coset by the transforms of \<open>fft.cpp\<close>, computes five
  sums of multiples of the points of the key by \<open>multiexp.cpp\<close>, and blinds them with two random scalars by the
  scalar multiplication of \<open>exp.hpp\<close> and \<open>naf.cpp\<close>. All of this is over the curves of \<open>alt_bn128.cpp\<close>, instances of
  the template \<open>curve.cpp\<close> over the classes \<open>RawFq\<close> (\<open>fq.cpp\<close>, \<open>fq.hpp\<close>) and \<open>F2Field\<close> (\<open>f2field.cpp\<close>), and over the
  scalar field \<open>RawFr\<close>, which call the limb arithmetic of \<open>fr_raw_generic.cpp\<close> and \<open>fq_raw_generic.cpp\<close>. The tagged
  elements of \<open>fr_generic.cpp\<close> and \<open>fq_generic.cpp\<close> are the interface that generated witness code uses. With
  \<open>USE_ICICLE_GPU\<close>, \<open>icicle_adapter.cpp\<close> is tried before the transforms and the sums.

  \<^bold>\<open>The theories\<close>, in the order of the calls from the bottom:

  \<^item> \<open>Prelude\<close>: limbs, words, bytes and their values. \<open>Gmp_Api\<close>, \<open>Gmp_Reference\<close>: the functions of GMP that the
    code calls as a record of parameters, their documented laws (locales \<open>mpn_laws\<close>, \<open>mpz_laws\<close>, \<open>gmp_laws\<close>), and a
    computable instance. \<open>Tbb\<close>: \<open>tbb::parallel_for\<close> as any order of the iterations on any threads (\<open>tbb_laws\<close>),
    with an instance, and the lemma that loops whose iterations own disjoint cells do not depend on the order.
  \<^item> \<open>Raw_Field\<close>, \<open>Raw_Field_Laws\<close>, \<open>Raw_Bits\<close>, \<open>Raw_Consts\<close>: the raw functions of both fields (one text, two sets of
    constants), Montgomery multiplication included; each is shown to compute on the represented numbers.
    \<open>Primality\<close>, \<open>Fq_Prime\<close>, \<open>Fr_Prime\<close>: both moduli are prime, by certificates that the kernel checks.
  \<^item> \<open>Raw_Class\<close>, \<open>Field_Interface\<close>, \<open>Field_Types\<close>, \<open>Fr_Field\<close>, \<open>F2_Field\<close>: the field classes with their conversions, and
    the contract \<open>field_ops_laws\<close> under which the templates above work, interpreted on \<open>RawFr\<close>, \<open>RawFq\<close> and \<open>F2Field\<close>.
  \<^item> \<open>Element_Store\<close>, \<open>Element_Arith\<close>, \<open>Element_Compare\<close>, \<open>Element_Bits\<close>, \<open>Element_Mpz\<close>, with \<open>Fq_Elements\<close> for the second
    field: the tagged elements on a store of objects, statement by statement, so that calls whose result is an
    argument mean what the code does. The \<open>_Laws\<close> theories and \<open>Elements\<close> show the invariant of the store and the
    function of every operation, and what aliased calls give where they differ.
  \<^item> \<open>Curve\<close>, \<open>Curve_Laws\<close>, \<open>Weierstrass\<close>, \<open>Group_Law\<close>, \<open>Abelian\<close>, \<open>Split_Par_Str\<close>, \<open>Bn254_Curves\<close>, \<open>Bn254_Groups\<close>: the points,
    the chord and tangent law as specification, associativity of that law, the two curves of the engine.
  \<^item> \<open>Naf\<close>, \<open>Scalar_Mul\<close>, \<open>Misc\<close>, \<open>Multiexp\<close>, \<open>Multiexp_Laws\<close>, \<open>Bn254_Multiexp\<close>: recoding of scalars, multiples, sums of
    multiples. \<open>Fft\<close>, \<open>Fft_Bits\<close>, \<open>Dft\<close>, \<open>Fft_Laws\<close>, \<open>Fft_Init\<close>, \<open>Bn254_Fft\<close>: the transforms against the discrete
    Fourier transform, and the constructor of the tables.
  \<^item> \<open>Groth16\<close>, \<open>Coset\<close>, \<open>Groth16_Laws\<close>, \<open>Bn254_Groth16\<close>: \<open>Prover::prove\<close> and \<open>Proof::toJson\<close>; the proof consists of the
    combinations that the scheme prescribes. \<open>Lagrange\<close>, \<open>Exponents\<close>, \<open>Groth16_Scheme\<close>: completeness of the scheme as
    coded, i.e. with a key made from a trapdoor and a witness that satisfies the constraints the proof satisfies
    the verification equation (interpolation at roots of unity, points as multiples of a generator, bilinear maps).
    \<open>Spinlock\<close>: the locked additions of the second loop as interleaved steps of threads, with exclusion, and
    termination under fairness.
  \<^item> \<open>Bin_File\<close>, \<open>Headers\<close>, \<open>Bin_File_Laws\<close>, \<open>Section_Files\<close>: files of sections and the two headers, against encoders of
    the formats. \<open>Full_Prover\<close>, \<open>Key_Files\<close>, \<open>Full_Prover_Laws\<close>: the object that the service holds, from the bytes of
    its files to the text of the proof, and its file descriptors. \<open>Full_Prover_Refusals\<close>: the state, response or
    escaping exception of each kind of file that it does not take.
  \<^item> \<open>Icicle\<close>, \<open>Icicle_Laws\<close>: the adapter of the GPU library, with the dispatch to it.
    The theories of the prover take the branch of the processor. \<open>Icicle_Laws\<close> shows that the transforms are the same
    on the GPU exactly if the library's root of unity is that of the tables, and that everything is the same
    without a usable GPU; of the library's sums nothing is assumed, and nothing is shown where it computes them.
  \<^item> \<open>Timestamps\<close>, \<open>Logger\<close>: the class of \<open>logger.cpp\<close>, whose operations are sequences of actions that threads interleave,
    the log lines of \<open>fullprover.cpp\<close>, and the time stamps of both.

  \<^bold>\<open>How code is modelled.\<close> Machine integers are words of their width; arrays are lists; objects that may be
  aliased live in a store; exceptions, failed assertions and accesses outside of an array or a mapping are error
  values. Loops whose end depends on data are \<open>partial_function (option)\<close> with a proof that they return (the
  search for a non-residue, the rejection loop, \<open>splitParStr\<close>, which is shown not to return on some strings), or
  recursive functions with a measure; no function takes fuel. Threads that share cells are interleaved steps
  (\<open>Spinlock\<close>, \<open>Logger\<close>); everywhere else iterations own their cells, and one sequence of iterations in any order stands for
  the parallel loop. Assertions are compiled in, as the build does.
  The clock of time stamps counts milliseconds from 1970 and may be set to any time; \<open>gmtime\<close> and \<open>put_time\<close> are written
  out for years of four digits. In \<open>Logger\<close>, \<open>gmtime\<close> writes the fields of an object that its callers share and \<open>put_time\<close>
  reads them one by one; \<open>getCurrentTime2\<close> is the text when no other caller writes the object in between.

  \<^bold>\<open>Bounds.\<close> Where the code computes sizes in 32 bits or in \<open>int\<close>, the definitions do, and the theorems say for
  which sizes that is harmless: scalars of less than \<open>2 ^ 28\<close> bytes (\<open>nafMulByScalar\<close>; from there on it returns
  the neutral element, \<open>mulByScalar_overflow\<close>), of less than \<open>2 ^ 32 - 2\<close> bytes for \<open>buildNaf\<close>, less than \<open>2 ^ 15\<close> threads
  (\<open>initAccs\<close>, hence the sums and the prover), transforms of up to \<open>2 ^ 28\<close> points. The program passes scalars of 32 bytes.

  \<^bold>\<open>What is assumed\<close> is stated as hypotheses of the theorems: the laws of GMP, of TBB, of the GPU library, the
  size of freshly allocated arrays, and for the prover that the device gives an admissible block of random bytes
  at some time. For each there is an instance, used by the theorems that end in \<open>_witness\<close>.

  \<^bold>\<open>Not modelled.\<close> \<open>pointparallelprocessor.hpp\<close>, \<open>exp2.hpp\<close>, \<open>scalar.cpp\<close>, \<open>scalar.hpp\<close>: not part of the build (the
  latter do not compile). The calls that log, in the functions of the prover: output only. The
  assembly of \<open>asm\<close>: another language; the generic functions of the same contract are modelled. The tests, the
  Rust crates, the Python tools and the circuits: other programs, which use the prover or feed it.
\<close>

end
